(* ===== verification/Prelude.thy ===== *)
theory Prelude
  imports Main "HOL-Library.Word" "HOL-Library.FSet"
begin

text \<open>
  Shared vocabulary of the development: machine integers at their Rust width, the
  \<^verbatim>\<open>io::ErrorKind\<close> values the code returns, the \<^verbatim>\<open>?\<close> operator of Rust as a bind on sums,
  byte readers (\<^verbatim>\<open>impl Read\<close> over a finite input) with \<^verbatim>\<open>read_exact\<close>, big- and
  little-endian integer encodings, checked arithmetic, and the loops
  (\<^verbatim>\<open>for _ in 0..n\<close>, \<^verbatim>\<open>try_fold\<close>) the components are written with.

  An \<^verbatim>\<open>io::Error\<close> is modelled by its kind; the message text is for the user and no code
  path depends on it.  \<^verbatim>\<open>usize\<close> values are \<^typ>\<open>nat\<close>; the program is built for 64-bit
  Windows, so \<^verbatim>\<open>usize::MAX\<close> is \<open>2 ^ 64 - 1\<close>.
\<close>

named_theorems result_simps \<open>case analysis of successful results\<close>
named_theorems wire_simps \<open>reading back what was written\<close>

section \<open>Machine integers\<close>

type_synonym byte = "8 word"
type_synonym u8 = "8 word"
type_synonym u16 = "16 word"
type_synonym u32 = "32 word"
type_synonym u64 = "64 word"
type_synonym usize = nat

definition usize_max :: nat where
  "usize_max = 2 ^ 64 - 1"

definition checked_add :: "'a::len word \<Rightarrow> 'a word \<Rightarrow> 'a word option" where
  "checked_add a b = (if unat a + unat b < 2 ^ LENGTH('a) then Some (a + b) else None)"

definition checked_sub :: "'a::len word \<Rightarrow> 'a word \<Rightarrow> 'a word option" where
  "checked_sub a b = (if b \<le> a then Some (a - b) else None)"

definition checked_mul :: "'a::len word \<Rightarrow> 'a word \<Rightarrow> 'a word option" where
  "checked_mul a b = (if unat a * unat b < 2 ^ LENGTH('a) then Some (a * b) else None)"

definition saturating_add :: "'a::len word \<Rightarrow> 'a word \<Rightarrow> 'a word" where
  "saturating_add a b = (if unat a + unat b < 2 ^ LENGTH('a) then a + b else - 1)"

definition saturating_sub :: "'a::len word \<Rightarrow> 'a word \<Rightarrow> 'a word" where
  "saturating_sub a b = (if b \<le> a then a - b else 0)"

lemma checked_add_Some [result_simps]:
  "checked_add a b = Some c \<longleftrightarrow> unat a + unat b < 2 ^ LENGTH('a) \<and> c = a + b"
  for a b c :: "'a::len word"
  by (auto simp: checked_add_def)

lemma checked_add_None:
  "checked_add a b = None \<longleftrightarrow> 2 ^ LENGTH('a) \<le> unat a + unat b"
  for a b :: "'a::len word"
  by (simp add: checked_add_def not_less)

lemma checked_add_0 [simp]: "checked_add 0 b = Some b"
  by (simp add: checked_add_def)

lemma unat_checked_add: "checked_add a b = Some c \<Longrightarrow> unat c = unat a + unat b"
  by (auto simp: checked_add_def unat_word_ariths split: if_splits)

lemma checked_sub_Some [result_simps]:
  "checked_sub a b = Some c \<longleftrightarrow> b \<le> a \<and> c = a - b"
  by (auto simp: checked_sub_def)

lemma unat_checked_sub: "checked_sub a b = Some c \<Longrightarrow> unat c = unat a - unat b"
  by (auto simp: checked_sub_def unat_sub split: if_splits)

lemma unat_checked_mul: "checked_mul a b = Some c \<Longrightarrow> unat c = unat a * unat b"
  by (auto simp: checked_mul_def unat_word_ariths split: if_splits)

lemma unat_less_2p [simp]: "unat (a :: 'a::len word) < 2 ^ LENGTH('a)"
  by (rule unsigned_less)

lemma unat_of_nat_small:
  "n < 2 ^ LENGTH('a) \<Longrightarrow> unat (of_nat n :: 'a::len word) = n"
  by (simp add: unsigned_of_nat take_bit_nat_eq_self)

section \<open>Errors and the question-mark operator\<close>

text \<open>
  The kinds of an \<^verbatim>\<open>io::Error\<close>.  \<open>LiteralLimitExceeded\<close> is an error of kind \<^verbatim>\<open>Other\<close> with that payload, which
  the code recognises by a downcast.  \<open>Panicked\<close> and \<open>Blocked\<close> are not errors of the program: the thread
  panics, or waits for a thread that is not part of the run; no code handles them.
\<close>

datatype error_kind =
    InvalidInput | InvalidData | NotFound | UnexpectedEof | AlreadyExists | NotConnected
  | PermissionDenied | TimedOut | WouldBlock | Interrupted | Unsupported | AddrInUse
  | BrokenPipe | NotADirectory | DirectoryNotEmpty | OtherError
  | LiteralLimitExceeded | Panicked | Blocked

type_synonym 'a io_result = "error_kind + 'a"

definition ebind :: "'e + 'a \<Rightarrow> ('a \<Rightarrow> 'e + 'b) \<Rightarrow> 'e + 'b" where
  "ebind r f = (case r of Inl e \<Rightarrow> Inl e | Inr a \<Rightarrow> f a)"

definition ok_or :: "'e \<Rightarrow> 'a option \<Rightarrow> 'e + 'a" where
  "ok_or e x = (case x of None \<Rightarrow> Inl e | Some a \<Rightarrow> Inr a)"

definition map_err :: "('e \<Rightarrow> 'f) \<Rightarrow> 'e + 'a \<Rightarrow> 'f + 'a" where
  "map_err g r = (case r of Inl e \<Rightarrow> Inl (g e) | Inr a \<Rightarrow> Inr a)"

definition ensure :: "bool \<Rightarrow> 'e \<Rightarrow> 'e + unit" where
  "ensure c e = (if c then Inr () else Inl e)"

lemma ebind_simps [simp]:
  "ebind (Inl e) f = Inl e"
  "ebind (Inr a) f = f a"
  by (simp_all add: ebind_def)

lemma ebind_Inr [result_simps]: "ebind r f = Inr b \<longleftrightarrow> (\<exists>a. r = Inr a \<and> f a = Inr b)"
  by (cases r) auto

lemma ebind_Inl [result_simps]:
  "ebind r f = Inl e \<longleftrightarrow> r = Inl e \<or> (\<exists>a. r = Inr a \<and> f a = Inl e)"
  by (cases r) auto

lemma ok_or_simps [simp]: "ok_or e None = Inl e" "ok_or e (Some a) = Inr a"
  by (simp_all add: ok_or_def)

lemma ok_or_Inr [result_simps]: "ok_or e x = Inr a \<longleftrightarrow> x = Some a"
  by (cases x) auto

lemma ok_or_Inl [result_simps]: "ok_or e x = Inl e' \<longleftrightarrow> x = None \<and> e' = e"
  by (cases x) auto

lemma map_err_Inr [result_simps]: "map_err g r = Inr a \<longleftrightarrow> r = Inr a"
  by (cases r) (auto simp: map_err_def)

lemma map_err_simps [simp]: "map_err g (Inl e) = Inl (g e)" "map_err g (Inr a) = Inr a"
  by (simp_all add: map_err_def)

lemma ensure_Inr [result_simps]: "ensure c e = Inr u \<longleftrightarrow> c"
  by (simp add: ensure_def)

lemma ensure_simps [simp]: "ensure True e = Inr ()" "ensure False e = Inl e"
  by (simp_all add: ensure_def)

lemma ensure_Inl [result_simps]: "ensure c e = Inl e' \<longleftrightarrow> \<not> c \<and> e' = e"
  by (auto simp: ensure_def)

text \<open>\<^verbatim>\<open>u32::try_from(n)\<close> and its siblings: an error when the value does not fit.\<close>

definition word_try_from :: "error_kind \<Rightarrow> nat \<Rightarrow> 'a::len word io_result" where
  "word_try_from e n = (if n < 2 ^ LENGTH('a) then Inr (of_nat n) else Inl e)"

definition usize_try_from :: "error_kind \<Rightarrow> u64 \<Rightarrow> usize io_result" where
  "usize_try_from e w = (if unat w \<le> usize_max then Inr (unat w) else Inl e)"

lemma word_try_from_Inr:
  "word_try_from e n = Inr (w :: 'a::len word) \<longleftrightarrow> n < 2 ^ LENGTH('a) \<and> w = of_nat n"
  by (auto simp: word_try_from_def)

lemma word_try_from_unat: "word_try_from e n = Inr (w :: 'a::len word) \<Longrightarrow> unat w = n"
  by (auto simp: word_try_from_def unat_of_nat_small split: if_splits)

lemma word_try_from_of_unat [simp]: "word_try_from e (unat w) = Inr w"
  by (simp add: word_try_from_def)

lemma word_try_from_ok: "n < 2 ^ LENGTH('a) \<Longrightarrow> word_try_from e n = Inr (of_nat n :: 'a::len word)"
  by (simp add: word_try_from_def)

lemma usize_try_from_eq [simp]: "usize_try_from e w = Inr (unat w)"
proof -
  have "unat w < 2 ^ 64" using unat_less_2p [of w] by simp
  then show ?thesis by (simp add: usize_try_from_def usize_max_def)
qed

section \<open>Fallible folds\<close>

text \<open>A \<^verbatim>\<open>for\<close> loop over a slice whose body may return early with an error.\<close>

fun efold :: "('s \<Rightarrow> 'a \<Rightarrow> 'e + 's) \<Rightarrow> 's \<Rightarrow> 'a list \<Rightarrow> 'e + 's" where
  "efold f s [] = Inr s"
| "efold f s (x # xs) = ebind (f s x) (\<lambda>s'. efold f s' xs)"

lemma efold_append: "efold f s (xs @ ys) = ebind (efold f s xs) (\<lambda>s'. efold f s' ys)"
proof (induction xs arbitrary: s)
  case (Cons x xs)
  then show ?case by (cases "f s x") simp_all
qed simp

lemma efold_map: "efold f s (map g xs) = efold (\<lambda>s x. f s (g x)) s xs"
proof (induction xs arbitrary: s)
  case (Cons x xs)
  then show ?case by (cases "f s (g x)") simp_all
qed simp

lemma efold_invariant:
  assumes "efold f s xs = Inr s'" "P s"
    and "\<And>s x s'. x \<in> set xs \<Longrightarrow> P s \<Longrightarrow> f s x = Inr s' \<Longrightarrow> P s'"
  shows "P s'"
  using assms
proof (induction xs arbitrary: s)
  case (Cons x xs)
  from Cons.prems(1) obtain t where t: "f s x = Inr t" "efold f t xs = Inr s'"
    by (auto simp: result_simps)
  from Cons.prems(2,3) t(1) have "P t" by auto
  with Cons.IH [OF t(2)] Cons.prems(3) show ?case by auto
qed simp

section \<open>Byte readers\<close>

type_synonym 'a reader = "byte list \<Rightarrow> ('a \<times> byte list) io_result"

definition rret :: "'a \<Rightarrow> 'a reader" where
  "rret a bs = Inr (a, bs)"

definition rfail :: "error_kind \<Rightarrow> 'a reader" where
  "rfail e bs = Inl e"

definition rbind :: "'a reader \<Rightarrow> ('a \<Rightarrow> 'b reader) \<Rightarrow> 'b reader" where
  "rbind m f bs = ebind (m bs) (\<lambda>(a, bs'). f a bs')"

definition rlift :: "'a io_result \<Rightarrow> 'a reader" where
  "rlift r bs = ebind r (\<lambda>a. Inr (a, bs))"

definition rguard :: "bool \<Rightarrow> error_kind \<Rightarrow> unit reader" where
  "rguard c e bs = (if c then Inr ((), bs) else Inl e)"

text \<open>\<^verbatim>\<open>Read::read_exact\<close> on an input that ends after the given bytes.\<close>

definition read_exact :: "nat \<Rightarrow> byte list reader" where
  "read_exact n bs = (if length bs < n then Inl UnexpectedEof else Inr (take n bs, drop n bs))"

text \<open>The loop \<^verbatim>\<open>for _ in 0..n\<close> over a reader, threading the loop's variables.\<close>

fun rfor :: "nat \<Rightarrow> ('s \<Rightarrow> 's reader) \<Rightarrow> 's \<Rightarrow> 's reader" where
  "rfor 0 f s = rret s"
| "rfor (Suc n) f s = rbind (f s) (\<lambda>s'. rfor n f s')"

text \<open>\<^verbatim>\<open>values.push(read(reader)?)\<close>, and \<open>n\<close> such steps.\<close>

definition read_push :: "'a reader \<Rightarrow> 'a list \<Rightarrow> 'a list reader" where
  "read_push m xs = rbind m (\<lambda>x. rret (xs @ [x]))"

definition read_times :: "nat \<Rightarrow> 'a reader \<Rightarrow> 'a list reader" where
  "read_times n m = rfor n (read_push m) []"

lemma rbind_eq [wire_simps]: "m bs = Inr (a, bs') \<Longrightarrow> rbind m f bs = f a bs'"
  by (simp add: rbind_def)

lemma rret_eq [simp]: "rret a bs = Inr (a, bs)"
  by (simp add: rret_def)

lemma rfail_eq [simp]: "rfail e bs = Inl e"
  by (simp add: rfail_def)

lemma rguard_simps [simp]: "rguard True e = rret ()" "rguard False e = rfail e"
  by (simp_all add: rguard_def fun_eq_iff rret_def rfail_def)

lemma rbind_rret [simp]: "rbind (rret a) f = f a"
  by (simp add: fun_eq_iff rbind_def rret_def)

lemma rbind_rfail [simp]: "rbind (rfail e) f = rfail e"
  by (simp add: fun_eq_iff rbind_def rfail_def)

lemma rlift_simps [simp]: "rlift (Inr a) = rret a" "rlift (Inl e) = rfail e"
  by (simp_all add: fun_eq_iff rlift_def rret_def rfail_def)

lemma rbind_Inr [result_simps]:
  "rbind m f bs = Inr r \<longleftrightarrow> (\<exists>a bs'. m bs = Inr (a, bs') \<and> f a bs' = Inr r)"
  by (cases "m bs") (auto simp: rbind_def)

lemma rguard_Inr [result_simps]: "rguard c e bs = Inr r \<longleftrightarrow> c \<and> r = ((), bs)"
  by (auto simp: rguard_def)

lemma rlift_Inr [result_simps]: "rlift x bs = Inr r \<longleftrightarrow> (\<exists>a. x = Inr a \<and> r = (a, bs))"
  by (cases x) (auto simp: rlift_def)

lemma read_push_Inr [result_simps]:
  "read_push m xs bs = Inr r \<longleftrightarrow> (\<exists>x bs'. m bs = Inr (x, bs') \<and> r = (xs @ [x], bs'))"
  by (auto simp: read_push_def rbind_Inr)

lemma read_push_eq: "m bs = Inr (x, bs') \<Longrightarrow> read_push m xs bs = Inr (xs @ [x], bs')"
  by (simp add: read_push_def rbind_def)

lemma read_exact_append [wire_simps]:
  "length xs = n \<Longrightarrow> read_exact n (xs @ rest) = Inr (xs, rest)"
  by (simp add: read_exact_def)

lemma read_exact_Inr:
  "read_exact n bs = Inr (xs, rest) \<longleftrightarrow> bs = xs @ rest \<and> length xs = n"
  by (auto simp: read_exact_def)

lemma read_exact_short: "length bs < n \<Longrightarrow> read_exact n bs = Inl UnexpectedEof"
  by (simp add: read_exact_def)

text \<open>\<^verbatim>\<open>if !set.insert(read(reader)?) { return Err(..) }\<close>: a loop that refuses duplicates.\<close>

definition read_insert :: "error_kind \<Rightarrow> 'a reader \<Rightarrow> 'a fset \<Rightarrow> 'a fset reader" where
  "read_insert e m S = rbind m (\<lambda>x. if x |\<in>| S then rfail e else rret (finsert x S))"

lemma read_insert_Inr [result_simps]:
  "read_insert e m S bs = Inr r \<longleftrightarrow>
   (\<exists>x bs'. m bs = Inr (x, bs') \<and> x |\<notin>| S \<and> r = (finsert x S, bs'))"
  by (auto simp: read_insert_def rbind_Inr split: if_splits)

lemma read_insert_eq:
  "m bs = Inr (x, bs') \<Longrightarrow> x |\<notin>| S \<Longrightarrow> read_insert e m S bs = Inr (finsert x S, bs')"
  by (simp add: read_insert_def rbind_def)

lemma rfor_Suc_Inr [result_simps]:
  "rfor (Suc n) f s bs = Inr r \<longleftrightarrow> (\<exists>s' bs'. f s bs = Inr (s', bs') \<and> rfor n f s' bs' = Inr r)"
  by (simp add: rbind_Inr)

lemma rfor_insert_Inr:
  assumes "rfor n (read_insert e m) S bs = Inr (S', rest)"
    and "\<And>bs x bs'. m bs = Inr (x, bs') \<Longrightarrow> P x"
  shows "fcard S' = fcard S + n \<and> S |\<subseteq>| S' \<and> (\<forall>x. x |\<in>| S' \<longrightarrow> x |\<in>| S \<or> P x)"
  using assms(1)
proof (induction n arbitrary: S bs)
  case (Suc n)
  from Suc.prems obtain x bs' where x: "m bs = Inr (x, bs')" "x |\<notin>| S"
    and r: "rfor n (read_insert e m) (finsert x S) bs' = Inr (S', rest)"
    by (auto simp: result_simps simp del: rfor.simps)
  from Suc.IH [OF r] assms(2) [OF x(1)] x(2) show ?case
    by (auto simp: fcard_finsert_disjoint)
qed simp

lemma distinct_sorted_list_of_fset [simp]: "distinct (sorted_list_of_fset S)"
  by (simp add: sorted_list_of_fset.rep_eq)

lemma length_sorted_list_of_fset [simp]: "length (sorted_list_of_fset S) = fcard S"
  by (simp add: sorted_list_of_fset.rep_eq fcard.rep_eq)

section \<open>Transition systems\<close>

text \<open>
  A stateful component is a step relation with an invariant every step keeps; the
  components interpret this locale for their own relation, and properties of every
  reachable state come from it.
\<close>

locale invariant_system =
  fixes step :: "'s \<Rightarrow> 's \<Rightarrow> bool"
    and initial :: "'s \<Rightarrow> bool"
    and inv :: "'s \<Rightarrow> bool"
  assumes inv_initial: "initial s \<Longrightarrow> inv s"
    and inv_step: "inv s \<Longrightarrow> step s t \<Longrightarrow> inv t"
begin

lemma inv_steps: "step\<^sup>*\<^sup>* s t \<Longrightarrow> inv s \<Longrightarrow> inv t"
  by (induction rule: rtranclp_induct) (auto intro: inv_step)

lemma reachable_inv: "initial s \<Longrightarrow> step\<^sup>*\<^sup>* s t \<Longrightarrow> inv t"
  using inv_initial inv_steps by blast

lemma steps_related:
  assumes "step\<^sup>*\<^sup>* s t" "inv s" "\<And>u. R u u" "\<And>u v w. R u v \<Longrightarrow> R v w \<Longrightarrow> R u w"
    and "\<And>u v. inv u \<Longrightarrow> step u v \<Longrightarrow> R u v"
  shows "R s t"
  using assms(1)
proof (induction rule: rtranclp_induct)
  case base
  show ?case by (rule assms(3))
next
  case (step u v)
  then have "inv u" using inv_steps assms(2) by blast
  with step assms(4,5) show ?case by blast
qed

end

end
