(* ===== verification/Wire.thy ===== *)
theory Wire
  imports Prelude
begin

text \<open>
  Fixed-width integer encodings (\<^verbatim>\<open>to_be_bytes\<close>, \<^verbatim>\<open>to_le_bytes\<close> and their inverses) and
  the contract every message codec of the program keeps: the locale \<open>wire_codec\<close> relates
  a writer and a reader of one message, its lemmas give prefix-freeness, injectivity and
  the round trip of counted sequences once, and the components interpret it for their own
  writers and readers.
\<close>

section \<open>Integer encodings\<close>

fun be_bytes :: "nat \<Rightarrow> nat \<Rightarrow> byte list" where
  "be_bytes 0 v = []"
| "be_bytes (Suc n) v = be_bytes n (v div 256) @ [of_nat (v mod 256)]"

fun be_value :: "byte list \<Rightarrow> nat" where
  "be_value [] = 0"
| "be_value (b # bs) = unat b * 256 ^ length bs + be_value bs"

definition to_be_bytes :: "'a::len word \<Rightarrow> byte list" where
  "to_be_bytes w = be_bytes (LENGTH('a) div 8) (unat w)"

definition from_be_bytes :: "byte list \<Rightarrow> 'a::len word" where
  "from_be_bytes bs = of_nat (be_value bs)"

definition to_le_bytes :: "'a::len word \<Rightarrow> byte list" where
  "to_le_bytes w = rev (to_be_bytes w)"

definition from_le_bytes :: "byte list \<Rightarrow> 'a::len word" where
  "from_le_bytes bs = from_be_bytes (rev bs)"

definition read_be :: "'a::len word reader" where
  "read_be = rbind (read_exact (LENGTH('a) div 8)) (\<lambda>bs. rret (from_be_bytes bs))"

definition read_le :: "'a::len word reader" where
  "read_le = rbind (read_exact (LENGTH('a) div 8)) (\<lambda>bs. rret (from_le_bytes bs))"

lemma be_bytes_numeral [simp]:
  "be_bytes (numeral k) v = be_bytes (pred_numeral k) (v div 256) @ [of_nat (v mod 256)]"
  by (simp only: numeral_eq_Suc be_bytes.simps)

lemma length_be_bytes [simp]: "length (be_bytes n v) = n"
  by (induction n arbitrary: v) auto

lemma be_value_append: "be_value (xs @ ys) = be_value xs * 256 ^ length ys + be_value ys"
  by (induction xs) (auto simp: algebra_simps power_add)

lemma be_value_be_bytes: "v < 256 ^ n \<Longrightarrow> be_value (be_bytes n v) = v"
proof (induction n arbitrary: v)
  case (Suc n)
  have "v div 256 < 256 ^ n"
    using Suc.prems by (simp add: less_mult_imp_div_less mult.commute)
  moreover have "unat (of_nat (v mod 256) :: byte) = v mod 256"
    by (rule unat_of_nat_small) simp
  ultimately show ?case
    by (simp add: be_value_append Suc.IH)
qed simp

lemma be_value_less: "be_value bs < 256 ^ length bs"
proof (induction bs)
  case (Cons b bs)
  have "unat b < 256" using unat_less_2p [of b] by simp
  then have "Suc (unat b) * 256 ^ length bs \<le> 256 * 256 ^ length bs"
    by (intro mult_le_mono1) simp
  then have "unat b * 256 ^ length bs + 256 ^ length bs \<le> 256 * 256 ^ length bs"
    by (simp only: mult_Suc add.commute)
  with Cons.IH have "unat b * 256 ^ length bs + be_value bs < 256 * 256 ^ length bs"
    by linarith
  then show ?case by simp
qed simp

lemma be_bytes_be_value: "be_bytes (length bs) (be_value bs) = bs"
proof (induction bs rule: rev_induct)
  case (snoc b bs)
  have b: "unat b < 256" using unat_less_2p [of b] by simp
  have "(be_value bs * 256 + unat b) mod 256 = unat b" using b by simp
  moreover have "(be_value bs * 256 + unat b) div 256 = be_value bs" using b by simp
  ultimately show ?case using snoc.IH by (simp add: be_value_append)
qed simp

lemma length_to_be_bytes [simp]: "length (to_be_bytes (w :: 'a::len word)) = LENGTH('a) div 8"
  by (simp add: to_be_bytes_def)

lemma length_to_le_bytes [simp]: "length (to_le_bytes (w :: 'a::len word)) = LENGTH('a) div 8"
  by (simp add: to_le_bytes_def)

lemma from_to_be_bytes:
  assumes "8 dvd LENGTH('a)"
  shows "from_be_bytes (to_be_bytes w) = (w :: 'a::len word)"
proof -
  have "(256::nat) ^ (LENGTH('a) div 8) = (2 ^ 8) ^ (LENGTH('a) div 8)" by simp
  also have "\<dots> = 2 ^ (8 * (LENGTH('a) div 8))" by (simp only: power_mult)
  also have "\<dots> = 2 ^ LENGTH('a)" using assms by simp
  finally have "(256::nat) ^ (LENGTH('a) div 8) = 2 ^ LENGTH('a)" .
  then have "unat w < 256 ^ (LENGTH('a) div 8)" using unat_less_2p [of w] by simp
  then show ?thesis
    by (simp add: from_be_bytes_def to_be_bytes_def be_value_be_bytes)
qed

lemma from_to_le_bytes:
  "8 dvd LENGTH('a) \<Longrightarrow> from_le_bytes (to_le_bytes w) = (w :: 'a::len word)"
  by (simp add: from_le_bytes_def to_le_bytes_def from_to_be_bytes)

lemma to_from_be_bytes:
  assumes "8 dvd LENGTH('a)" "length bs = LENGTH('a) div 8"
  shows "to_be_bytes (from_be_bytes bs :: 'a::len word) = bs"
proof -
  have "(256::nat) ^ (LENGTH('a) div 8) = (2 ^ 8) ^ (LENGTH('a) div 8)" by simp
  also have "\<dots> = 2 ^ (8 * (LENGTH('a) div 8))" by (simp only: power_mult)
  also have "\<dots> = 2 ^ LENGTH('a)" using assms by simp
  finally have "be_value bs < 2 ^ LENGTH('a)" using be_value_less [of bs] assms(2) by simp
  then have "unat (from_be_bytes bs :: 'a word) = be_value bs"
    by (simp add: from_be_bytes_def unat_of_nat_small)
  then show ?thesis
    using be_bytes_be_value [of bs] assms(2) by (simp add: to_be_bytes_def)
qed

lemma to_from_le_bytes:
  "8 dvd LENGTH('a) \<Longrightarrow> length bs = LENGTH('a) div 8 \<Longrightarrow>
   to_le_bytes (from_le_bytes bs :: 'a::len word) = bs"
  by (simp add: from_le_bytes_def to_le_bytes_def to_from_be_bytes)

section \<open>Slices of a buffer\<close>

definition byte_slice :: "'a list \<Rightarrow> nat \<Rightarrow> nat \<Rightarrow> 'a list" where
  "byte_slice xs i j = take (j - i) (drop i xs)"

lemma length_byte_slice [simp]:
  "j \<le> length xs \<Longrightarrow> length (byte_slice xs i j) = j - i"
  by (simp add: byte_slice_def)

lemma byte_slice_append:
  "i \<le> j \<Longrightarrow> j \<le> k \<Longrightarrow> byte_slice xs i j @ byte_slice xs j k = byte_slice xs i k"
proof -
  assume "i \<le> j" "j \<le> k"
  then have "k - i = (j - i) + (k - j)" "drop (j - i) (drop i xs) = drop j xs" by simp_all
  then show ?thesis by (simp only: byte_slice_def take_add)
qed

lemma byte_slice_nth: "i < length xs \<Longrightarrow> byte_slice xs i (Suc i) = [xs ! i]"
  by (simp add: byte_slice_def Cons_nth_drop_Suc [symmetric])

lemma byte_slice_app:
  "byte_slice (xs @ ys) i j = byte_slice xs i j @ byte_slice ys (i - length xs) (j - max i (length xs) + (i - length xs))"
  by (cases "i \<le> length xs") (simp_all add: byte_slice_def max_def not_le)

lemma byte_slice_all: "j = length xs \<Longrightarrow> byte_slice xs 0 j = xs"
  by (simp add: byte_slice_def)

section \<open>Writing a message\<close>

text \<open>
  A message is written by a sequence of \<^verbatim>\<open>write_all\<close> calls, each of which may be preceded
  by a check that fails; \<open>wcat\<close> is such a sequence: the bytes of all steps, or the
  first error.
\<close>

fun wcat :: "byte list io_result list \<Rightarrow> byte list io_result" where
  "wcat [] = Inr []"
| "wcat (x # xs) = ebind x (\<lambda>b. ebind (wcat xs) (\<lambda>bs. Inr (b @ bs)))"

lemma wcat_append: "wcat (xs @ ys) = ebind (wcat xs) (\<lambda>b. ebind (wcat ys) (\<lambda>bs. Inr (b @ bs)))"
proof (induction xs)
  case Nil
  show ?case by (cases "wcat ys") simp_all
next
  case (Cons x xs)
  then show ?case by (cases x; cases "wcat xs"; cases "wcat ys") simp_all
qed

text \<open>A loop that reads items, pushes them, and folds a checked computation over them on the way.\<close>

definition read_fold :: "'a reader \<Rightarrow> ('s \<Rightarrow> 'a \<Rightarrow> 's io_result) \<Rightarrow> 'a list \<times> 's \<Rightarrow> ('a list \<times> 's) reader" where
  "read_fold m f acc = rbind m (\<lambda>x. rbind (rlift (f (snd acc) x)) (\<lambda>s. rret (fst acc @ [x], s)))"

section \<open>The codec contract\<close>

locale wire_codec =
  fixes "write" :: "'a \<Rightarrow> byte list io_result"
    and "read" :: "'a reader"
    and valid :: "'a \<Rightarrow> bool"
  assumes write_valid: "valid a \<Longrightarrow> \<exists>bs. write a = Inr bs"
    and read_write: "valid a \<Longrightarrow> write a = Inr bs \<Longrightarrow> read (bs @ rest) = Inr (a, rest)"
begin

lemma round_trip: "valid a \<Longrightarrow> \<exists>bs. write a = Inr bs \<and> (\<forall>rest. read (bs @ rest) = Inr (a, rest))"
  using write_valid read_write by blast

lemma read_exactly: "valid a \<Longrightarrow> write a = Inr bs \<Longrightarrow> read bs = Inr (a, [])"
  using read_write [of a bs "[]"] by simp

lemma write_prefix_free:
  assumes "valid a" "valid b" "write a = Inr xs" "write b = Inr (xs @ ys)"
  shows "a = b \<and> ys = []"
  using read_write [OF assms(1,3), of ys] read_write [OF assms(2,4), of "[]"] by simp

lemma write_injective:
  "valid a \<Longrightarrow> valid b \<Longrightarrow> write a = Inr xs \<Longrightarrow> write b = Inr xs \<Longrightarrow> a = b"
  using write_prefix_free [of a b xs "[]"] by simp

lemma rfor_write:
  "\<forall>a \<in> set as. valid a \<Longrightarrow> wcat (map write as) = Inr bs \<Longrightarrow>
   rfor (length as) (read_push read) acc (bs @ rest) = Inr (acc @ as, rest)"
proof (induction as arbitrary: acc bs)
  case (Cons a as)
  from Cons.prems(2) obtain b bs' where w: "write a = Inr b" "wcat (map write as) = Inr bs'"
    and bs: "bs = b @ bs'"
    by (auto simp: result_simps)
  have "read (b @ (bs' @ rest)) = Inr (a, bs' @ rest)"
    using Cons.prems(1) w(1) by (intro read_write) simp_all
  with Cons.IH [OF _ w(2), of "acc @ [a]"] Cons.prems(1) show ?case
    by (simp add: bs rbind_def read_push_eq)
qed simp

lemma read_times_write:
  "\<forall>a \<in> set as. valid a \<Longrightarrow> wcat (map write as) = Inr bs \<Longrightarrow>
   read_times (length as) read (bs @ rest) = Inr (as, rest)"
  using rfor_write [of as bs "[]" rest] by (simp add: read_times_def)

lemma rfor_insert_write:
  "\<forall>a \<in> set as. valid a \<Longrightarrow> distinct as \<Longrightarrow> \<forall>a \<in> set as. a |\<notin>| S \<Longrightarrow>
   wcat (map write as) = Inr bs \<Longrightarrow>
   rfor (length as) (read_insert e read) S (bs @ rest) = Inr (S |\<union>| fset_of_list as, rest)"
proof (induction as arbitrary: S bs)
  case (Cons a as)
  from Cons.prems(4) obtain b bs' where w: "write a = Inr b" "wcat (map write as) = Inr bs'"
    and bs: "bs = b @ bs'"
    by (auto simp: result_simps)
  have "read (b @ (bs' @ rest)) = Inr (a, bs' @ rest)"
    using Cons.prems(1) w(1) by (intro read_write) simp_all
  then have "read_insert e read S (bs @ rest) = Inr (finsert a S, bs' @ rest)"
    using Cons.prems(3) by (simp add: bs read_insert_eq)
  moreover have "\<forall>x \<in> set as. x |\<notin>| finsert a S" using Cons.prems(2,3) by auto
  ultimately show ?case
    using Cons.IH [OF _ _ _ w(2), of "finsert a S"] Cons.prems(1,2) by (simp add: rbind_def)
qed simp

lemma wcat_valid: "\<forall>a \<in> set as. valid a \<Longrightarrow> \<exists>bs. wcat (map write as) = Inr bs"
proof (induction as)
  case (Cons a as)
  then show ?case using write_valid [of a] by (auto simp: result_simps)
qed simp

end

text \<open>
  A canonical codec also accepts nothing else: whatever the reader accepts is exactly the
  encoding of the value it returns.
\<close>

locale canonical_codec = wire_codec +
  assumes read_canonical:
    "read bs = Inr (a, rest) \<Longrightarrow> valid a \<and> (\<exists>xs. write a = Inr xs \<and> bs = xs @ rest)"
begin

lemma read_iff_write:
  "read bs = Inr (a, rest) \<longleftrightarrow> valid a \<and> (\<exists>xs. write a = Inr xs \<and> bs = xs @ rest)"
  using read_canonical read_write by blast

lemma rfor_canonical:
  "rfor n (read_push read) acc bs = Inr (as, rest) \<Longrightarrow>
   \<exists>as' xs. as = acc @ as' \<and> length as' = n \<and> (\<forall>a \<in> set as'. valid a) \<and>
     wcat (map write as') = Inr xs \<and> bs = xs @ rest"
proof (induction n arbitrary: acc bs)
  case (Suc n)
  from Suc.prems obtain a bs' where a: "read bs = Inr (a, bs')"
    and r: "rfor n (read_push read) (acc @ [a]) bs' = Inr (as, rest)"
    by (auto simp: result_simps)
  from Suc.IH [OF r] obtain as' xs where as': "as = acc @ [a] @ as'" "length as' = n"
    "\<forall>a \<in> set as'. valid a" "wcat (map write as') = Inr xs" "bs' = xs @ rest"
    by auto
  from read_canonical [OF a] obtain ys where "valid a" "write a = Inr ys" "bs = ys @ bs'"
    by blast
  with as' show ?case
    by (intro exI [of _ "a # as'"] exI [of _ "ys @ xs"]) simp
qed simp

lemma rfor_fold_iff:
  "rfor n (read_fold read f) (acc, s) bs = Inr ((as', s'), rest) \<longleftrightarrow>
   (\<exists>as xs. as' = acc @ as \<and> length as = n \<and> (\<forall>a \<in> set as. valid a) \<and>
     wcat (map write as) = Inr xs \<and> bs = xs @ rest \<and> efold f s as = Inr s')"
proof (induction n arbitrary: acc s bs)
  case (Suc n)
  let ?tail = "\<lambda>a b s1. \<exists>as xs. as' = (acc @ [a]) @ as \<and> length as = n \<and> (\<forall>a \<in> set as. valid a) \<and>
     wcat (map write as) = Inr xs \<and> b = xs @ rest \<and> efold f s1 as = Inr s'"
  have "rfor (Suc n) (read_fold read f) (acc, s) bs = Inr ((as', s'), rest) \<longleftrightarrow>
      (\<exists>a b s1. read bs = Inr (a, b) \<and> f s a = Inr s1 \<and> rfor n (read_fold read f) (acc @ [a], s1) b = Inr ((as', s'), rest))"
    by (auto simp: read_fold_def result_simps)
  also have "\<dots> \<longleftrightarrow> (\<exists>a b s1. (valid a \<and> (\<exists>xs. write a = Inr xs \<and> bs = xs @ b)) \<and> f s a = Inr s1 \<and> ?tail a b s1)"
    by (simp only: Suc.IH read_iff_write)
  also have "\<dots> \<longleftrightarrow> (\<exists>as xs. as' = acc @ as \<and> length as = Suc n \<and> (\<forall>a \<in> set as. valid a) \<and>
     wcat (map write as) = Inr xs \<and> bs = xs @ rest \<and> efold f s as = Inr s')"
    (is "?L \<longleftrightarrow> ?R")
  proof
    assume ?L
    then obtain a as xs ys s1 where "valid a" "write a = Inr ys" "f s a = Inr s1" "as' = acc @ a # as" "length as = n"
      "\<forall>a \<in> set as. valid a" "wcat (map write as) = Inr xs" "bs = ys @ xs @ rest" "efold f s1 as = Inr s'" by auto
    then show ?R by (intro exI [of _ "a # as"] exI [of _ "ys @ xs"]) simp
  next
    assume ?R
    then obtain a as zs where as: "as' = acc @ a # as" "length as = n" "valid a" "\<forall>a \<in> set as. valid a"
      "wcat (map write (a # as)) = Inr zs" "bs = zs @ rest" "efold f s (a # as) = Inr s'"
      by (auto simp: length_Suc_conv)
    then obtain ys xs s1 where "write a = Inr ys" "wcat (map write as) = Inr xs" "zs = ys @ xs"
      "f s a = Inr s1" "efold f s1 as = Inr s'" by (auto simp: ebind_Inr)
    with as show ?L by (intro exI [of _ a] exI [of _ "xs @ rest"] exI [of _ s1]) auto
  qed
  finally show ?case .
qed auto

lemma read_times_canonical:
  "read_times n read bs = Inr (as, rest) \<Longrightarrow>
   length as = n \<and> (\<forall>a \<in> set as. valid a) \<and> (\<exists>xs. wcat (map write as) = Inr xs \<and> bs = xs @ rest)"
  using rfor_canonical [of n "[]" bs as rest] by (auto simp: read_times_def)

end

lemma read_be_to_be_bytes:
  "8 dvd LENGTH('a) \<Longrightarrow> read_be (to_be_bytes w @ rest) = Inr (w :: 'a::len word, rest)"
  by (simp add: read_be_def rbind_def read_exact_append from_to_be_bytes)

lemma read_le_to_le_bytes:
  "8 dvd LENGTH('a) \<Longrightarrow> read_le (to_le_bytes w @ rest) = Inr (w :: 'a::len word, rest)"
  by (simp add: read_le_def rbind_def read_exact_append from_to_le_bytes)

lemma read_be_Inr:
  assumes "8 dvd LENGTH('a)"
  shows "read_be bs = Inr (w :: 'a::len word, rest) \<longleftrightarrow> bs = to_be_bytes w @ rest"
proof
  assume "read_be bs = Inr (w, rest)"
  then obtain xs where "bs = xs @ rest" "length xs = LENGTH('a) div 8" "w = from_be_bytes xs"
    by (auto simp: read_be_def result_simps read_exact_Inr)
  with assms show "bs = to_be_bytes w @ rest" by (simp add: to_from_be_bytes)
qed (simp add: read_be_to_be_bytes assms)

interpretation u8_be: canonical_codec "\<lambda>w :: u8. Inr (to_be_bytes w)" read_be "\<lambda>_. True"
  by unfold_locales (auto simp: read_be_to_be_bytes read_be_Inr)

interpretation u16_be: canonical_codec "\<lambda>w :: u16. Inr (to_be_bytes w)" read_be "\<lambda>_. True"
  by unfold_locales (auto simp: read_be_to_be_bytes read_be_Inr)

interpretation u32_be: canonical_codec "\<lambda>w :: u32. Inr (to_be_bytes w)" read_be "\<lambda>_. True"
  by unfold_locales (auto simp: read_be_to_be_bytes read_be_Inr)

interpretation u64_be: canonical_codec "\<lambda>w :: u64. Inr (to_be_bytes w)" read_be "\<lambda>_. True"
  by unfold_locales (auto simp: read_be_to_be_bytes read_be_Inr)

lemmas read_be_simps [wire_simps] =
  read_be_to_be_bytes [where 'a = 8, simplified] read_be_to_be_bytes [where 'a = 16, simplified]
  read_be_to_be_bytes [where 'a = 32, simplified] read_be_to_be_bytes [where 'a = 64, simplified]

lemmas read_le_simps [wire_simps] =
  read_le_to_le_bytes [where 'a = 16, simplified]
  read_le_to_le_bytes [where 'a = 32, simplified] read_le_to_le_bytes [where 'a = 64, simplified]

lemmas read_be_iffs =
  read_be_Inr [where 'a = 8, simplified] read_be_Inr [where 'a = 16, simplified]
  read_be_Inr [where 'a = 32, simplified] read_be_Inr [where 'a = 64, simplified]

lemma read_be_short:
  "length bs < LENGTH('a) div 8 \<Longrightarrow> (read_be :: 'a::len word reader) bs = Inl UnexpectedEof"
  by (simp add: read_be_def rbind_def read_exact_short)

end
