(* ===== verification/Management_Protocol.thy ===== *)
theory Management_Protocol
  imports Wire
begin

text \<open>
  The management wire protocol between the Manager and the endpoint Agents
  (\<^verbatim>\<open>src/management_protocol.rs\<close>): the message kinds, the 20-byte frame header and the
  frame writer and reader.  The frame codec is canonical: \<open>read_frame\<close> accepts exactly the
  byte strings \<open>write_frame\<close> produces.
\<close>

section \<open>Message kinds\<close>

datatype ManagementMessageKind =
    HelloRequest | HelloResponse
  | ListRootsRequest | ListRootsResponse
  | ListDirectoryRequest | ListDirectoryResponse
  | IsDesktopPathRequest | IsDesktopPathResponse
  | PrepareReceiveRequest | PrepareReceiveResponse
  | StartSendRequest | StartSendResponse
  | CancelJobRequest | CancelJobResponse
  | JobStatusRequest | JobStatusResponse
  | AgentSnapshotRequest | AgentSnapshotResponse
  | ErrorResponse

text \<open>The discriminants, \<^verbatim>\<open>frame.kind as u8\<close>.\<close>

fun message_kind_code :: "ManagementMessageKind \<Rightarrow> u8" where
  "message_kind_code HelloRequest = 0x01"
| "message_kind_code HelloResponse = 0x02"
| "message_kind_code ListRootsRequest = 0x10"
| "message_kind_code ListRootsResponse = 0x11"
| "message_kind_code ListDirectoryRequest = 0x12"
| "message_kind_code ListDirectoryResponse = 0x13"
| "message_kind_code IsDesktopPathRequest = 0x14"
| "message_kind_code IsDesktopPathResponse = 0x15"
| "message_kind_code PrepareReceiveRequest = 0x20"
| "message_kind_code PrepareReceiveResponse = 0x21"
| "message_kind_code StartSendRequest = 0x22"
| "message_kind_code StartSendResponse = 0x23"
| "message_kind_code CancelJobRequest = 0x24"
| "message_kind_code CancelJobResponse = 0x25"
| "message_kind_code JobStatusRequest = 0x26"
| "message_kind_code JobStatusResponse = 0x27"
| "message_kind_code AgentSnapshotRequest = 0x28"
| "message_kind_code AgentSnapshotResponse = 0x29"
| "message_kind_code ErrorResponse = 0xFF"

definition message_kind_try_from :: "u8 \<Rightarrow> ManagementMessageKind io_result" where
  "message_kind_try_from value =
     (if value = 0x01 then Inr HelloRequest
      else if value = 0x02 then Inr HelloResponse
      else if value = 0x10 then Inr ListRootsRequest
      else if value = 0x11 then Inr ListRootsResponse
      else if value = 0x12 then Inr ListDirectoryRequest
      else if value = 0x13 then Inr ListDirectoryResponse
      else if value = 0x14 then Inr IsDesktopPathRequest
      else if value = 0x15 then Inr IsDesktopPathResponse
      else if value = 0x20 then Inr PrepareReceiveRequest
      else if value = 0x21 then Inr PrepareReceiveResponse
      else if value = 0x22 then Inr StartSendRequest
      else if value = 0x23 then Inr StartSendResponse
      else if value = 0x24 then Inr CancelJobRequest
      else if value = 0x25 then Inr CancelJobResponse
      else if value = 0x26 then Inr JobStatusRequest
      else if value = 0x27 then Inr JobStatusResponse
      else if value = 0x28 then Inr AgentSnapshotRequest
      else if value = 0x29 then Inr AgentSnapshotResponse
      else if value = 0xFF then Inr ErrorResponse
      else Inl InvalidData)"

lemma message_kind_try_from_code [simp]:
  "message_kind_try_from (message_kind_code k) = Inr k"
  by (cases k) (simp_all add: message_kind_try_from_def)

lemma message_kind_try_from_Inr:
  "message_kind_try_from v = Inr k \<longleftrightarrow> v = message_kind_code k"
proof
  assume "message_kind_try_from v = Inr k"
  then show "v = message_kind_code k"
    unfolding message_kind_try_from_def by (auto split: if_splits)
qed simp

section \<open>Frames\<close>

definition MANAGEMENT_MAGIC :: "byte list" where
  "MANAGEMENT_MAGIC = [0x4E, 0x43, 0x4D, 0x31]"

definition MANAGEMENT_PROTOCOL_VERSION :: u16 where
  "MANAGEMENT_PROTOCOL_VERSION = 2"

definition MAX_MANAGEMENT_PAYLOAD_BYTES :: usize where
  "MAX_MANAGEMENT_PAYLOAD_BYTES = 1024 * 1024"

definition MANAGEMENT_HEADER_BYTES :: usize where
  "MANAGEMENT_HEADER_BYTES = 20"

record ManagementFrame =
  request_id :: u64
  kind :: ManagementMessageKind
  payload :: "byte list"

definition validate_payload_length :: "usize \<Rightarrow> unit io_result" where
  "validate_payload_length payload_length =
     (if payload_length > MAX_MANAGEMENT_PAYLOAD_BYTES then Inl InvalidInput else Inr ())"

definition ManagementFrame_new ::
    "u64 \<Rightarrow> ManagementMessageKind \<Rightarrow> byte list \<Rightarrow> ManagementFrame io_result" where
  "ManagementFrame_new rid k p =
     ebind (validate_payload_length (length p))
       (\<lambda>_. Inr \<lparr>request_id = rid, kind = k, payload = p\<rparr>)"

definition write_frame :: "ManagementFrame \<Rightarrow> byte list io_result" where
  "write_frame frame =
     ebind (validate_payload_length (length (payload frame))) (\<lambda>_.
     ebind (word_try_from InvalidInput (length (payload frame))) (\<lambda>payload_length :: u32.
       wcat [Inr MANAGEMENT_MAGIC,
             Inr (to_le_bytes MANAGEMENT_PROTOCOL_VERSION),
             Inr [message_kind_code (kind frame)],
             Inr [0],
             Inr (to_le_bytes (request_id frame)),
             Inr (to_le_bytes payload_length),
             Inr (payload frame)]))"

text \<open>
  \<^verbatim>\<open>header[8..16].try_into()\<close> turns an eight-byte slice into an eight-byte array and
  cannot fail; \<^verbatim>\<open>usize::try_from(u32)\<close> cannot fail on a 64-bit target.
\<close>

definition read_frame :: "ManagementFrame reader" where
  "read_frame =
     rbind (read_exact MANAGEMENT_HEADER_BYTES) (\<lambda>header.
     rbind (rguard (byte_slice header 0 4 = MANAGEMENT_MAGIC) InvalidData) (\<lambda>_.
     rbind (rguard ((from_le_bytes [header ! 4, header ! 5] :: u16) = MANAGEMENT_PROTOCOL_VERSION)
              InvalidData) (\<lambda>_.
     rbind (rlift (message_kind_try_from (header ! 6))) (\<lambda>k.
     rbind (rguard (header ! 7 = 0) InvalidData) (\<lambda>_.
     (let rid = (from_le_bytes (byte_slice header 8 16) :: u64);
          payload_length = unat (from_le_bytes (byte_slice header 16 20) :: u32)
      in rbind (rguard (payload_length \<le> MAX_MANAGEMENT_PAYLOAD_BYTES) InvalidData) (\<lambda>_.
         rbind (read_exact payload_length) (\<lambda>p.
           rret \<lparr>request_id = rid, kind = k, payload = p\<rparr>))))))))"

definition frame_valid :: "ManagementFrame \<Rightarrow> bool" where
  "frame_valid f \<longleftrightarrow> length (payload f) \<le> MAX_MANAGEMENT_PAYLOAD_BYTES"

lemmas frame_consts =
  MANAGEMENT_MAGIC_def MANAGEMENT_PROTOCOL_VERSION_def MAX_MANAGEMENT_PAYLOAD_BYTES_def
  MANAGEMENT_HEADER_BYTES_def


text \<open>The header as one 20-byte buffer, the way \<open>read_frame\<close> sees it.\<close>

definition frame_header :: "ManagementFrame \<Rightarrow> byte list" where
  "frame_header f =
     MANAGEMENT_MAGIC @ to_le_bytes MANAGEMENT_PROTOCOL_VERSION @ [message_kind_code (kind f)] @ [0] @
     to_le_bytes (request_id f) @ to_le_bytes (of_nat (length (payload f)) :: u32)"

lemma length_frame_header [simp]: "length (frame_header f) = MANAGEMENT_HEADER_BYTES"
  by (simp add: frame_header_def frame_consts)

lemma frame_valid_small: "frame_valid f \<Longrightarrow> length (payload f) < 2 ^ LENGTH(32)"
  by (simp add: frame_valid_def frame_consts)

lemma write_frame_eq: "frame_valid f \<Longrightarrow> write_frame f = Inr (frame_header f @ payload f)"
  using frame_valid_small [of f]
  by (simp add: write_frame_def validate_payload_length_def frame_valid_def frame_header_def
      word_try_from_def)

lemma write_frame_invalid: "\<not> frame_valid f \<Longrightarrow> write_frame f = Inl InvalidInput"
  by (simp add: write_frame_def validate_payload_length_def frame_valid_def)

lemma version_bytes: "to_le_bytes MANAGEMENT_PROTOCOL_VERSION = [2, 0]"
  by (simp add: to_le_bytes_def to_be_bytes_def frame_consts)

lemma frame_header_fields:
  "byte_slice (frame_header f) 0 4 = MANAGEMENT_MAGIC"
  "[frame_header f ! 4, frame_header f ! 5] = to_le_bytes MANAGEMENT_PROTOCOL_VERSION"
  "frame_header f ! 6 = message_kind_code (kind f)"
  "frame_header f ! 7 = 0"
  "byte_slice (frame_header f) 8 16 = to_le_bytes (request_id f)"
  "byte_slice (frame_header f) 16 20 = to_le_bytes (of_nat (length (payload f)) :: u32)"
  unfolding frame_header_def version_bytes MANAGEMENT_MAGIC_def
  by (simp_all add: byte_slice_def)

lemma read_frame_header:
  assumes "frame_valid f"
  shows "read_frame (frame_header f @ payload f @ rest) = Inr (f, rest)"
proof -
  have "unat (of_nat (length (payload f)) :: u32) = length (payload f)"
    by (rule unat_of_nat_small) (rule frame_valid_small [OF assms])
  with assms show ?thesis
    unfolding read_frame_def frame_valid_def
    by (simp add: rbind_eq read_exact_append frame_header_fields from_to_le_bytes Let_def)
qed

lemma header_split:
  assumes "length h = MANAGEMENT_HEADER_BYTES"
  shows "h = byte_slice h 0 4 @ [h ! 4, h ! 5] @ [h ! 6] @ [h ! 7] @ byte_slice h 8 16 @ byte_slice h 16 20"
proof -
  have "[h ! 4, h ! 5] = byte_slice h 4 6" "[h ! 6] = byte_slice h 6 7" "[h ! 7] = byte_slice h 7 8"
    using assms byte_slice_nth [of 4 h] byte_slice_nth [of 5 h] byte_slice_nth [of 6 h]
      byte_slice_nth [of 7 h] byte_slice_append [of 4 5 6 h]
    by (simp_all add: MANAGEMENT_HEADER_BYTES_def)
  then show ?thesis
    using assms by (simp add: byte_slice_append byte_slice_all MANAGEMENT_HEADER_BYTES_def)
qed

lemma read_frame_Inr:
  assumes "read_frame bs = Inr (f, rest)"
  shows "frame_valid f \<and> bs = frame_header f @ payload f @ rest"
proof -
  from assms obtain h bs' p where h: "bs = h @ bs'" "length h = MANAGEMENT_HEADER_BYTES"
    and magic: "byte_slice h 0 4 = MANAGEMENT_MAGIC"
    and version: "(from_le_bytes [h ! 4, h ! 5] :: u16) = MANAGEMENT_PROTOCOL_VERSION"
    and k: "h ! 6 = message_kind_code (kind f)" and z: "h ! 7 = 0"
    and rid: "request_id f = from_le_bytes (byte_slice h 8 16)"
    and len: "unat (from_le_bytes (byte_slice h 16 20) :: u32) \<le> MAX_MANAGEMENT_PAYLOAD_BYTES"
    and p: "payload f = p" "bs' = p @ rest"
      "length p = unat (from_le_bytes (byte_slice h 16 20) :: u32)"
    unfolding read_frame_def Let_def
    by (auto simp: rbind_Inr rguard_Inr rlift_Inr read_exact_Inr message_kind_try_from_Inr)
  have lh: "length h = 20" using h(2) by (simp add: MANAGEMENT_HEADER_BYTES_def)
  have v: "[h ! 4, h ! 5] = to_le_bytes MANAGEMENT_PROTOCOL_VERSION"
    using to_from_le_bytes [where 'a = 16, of "[h ! 4, h ! 5]"] version by simp
  have r: "byte_slice h 8 16 = to_le_bytes (request_id f)"
    using to_from_le_bytes [where 'a = 64, of "byte_slice h 8 16"] rid lh by simp
  have l: "byte_slice h 16 20 = to_le_bytes (of_nat (length (payload f)) :: u32)"
    using to_from_le_bytes [where 'a = 32, of "byte_slice h 16 20"] p lh by simp
  have "h = frame_header f"
    unfolding frame_header_def magic [symmetric] v [symmetric] k [symmetric] z [symmetric]
      r [symmetric] l [symmetric]
    by (rule header_split [OF h(2)])
  with h(1) p len show ?thesis by (simp add: frame_valid_def)
qed

interpretation frame_codec: canonical_codec write_frame read_frame frame_valid
  by unfold_locales (auto simp: write_frame_eq read_frame_header dest: read_frame_Inr)

text \<open>
  C24. The frame codec is exact: \<open>read_frame\<close> succeeds on an input precisely when the input
  starts with the bytes \<open>write_frame\<close> produces for the returned frame (whose payload is
  within the one-mebibyte limit), and what follows those bytes is left unread.
\<close>

theorem read_frame_exact:
  "read_frame bs = Inr (f, rest) \<longleftrightarrow>
   length (payload f) \<le> MAX_MANAGEMENT_PAYLOAD_BYTES \<and> (\<exists>xs. write_frame f = Inr xs \<and> bs = xs @ rest)"
  using frame_codec.read_iff_write [of bs f rest] by (simp add: frame_valid_def)

text \<open>
   No frame's encoding is a proper prefix of another's, so a stream of management frames
  splits into frames in one way only.
\<close>

theorem write_frame_prefix_free:
  assumes "write_frame f = Inr xs" "write_frame g = Inr (xs @ ys)"
  shows "f = g \<and> ys = []"
proof -
  have "frame_valid f" "frame_valid g"
    using assms write_frame_invalid by fastforce+
  then show ?thesis using frame_codec.write_prefix_free assms by blast
qed

end
