(* ===== verification/Rust_Text.thy ===== *)
theory Rust_Text
  imports Prelude
begin

text \<open>
  Rust strings as the code uses them: a \<^verbatim>\<open>String\<close> is the list of its Unicode scalar values,
  \<^verbatim>\<open>len\<close> counts UTF-8 bytes, \<^verbatim>\<open>encode_utf16().count()\<close> counts UTF-16 units, \<^verbatim>\<open>trim\<close> removes
  characters with the Unicode \<^verbatim>\<open>White_Space\<close> property.  Socket addresses are here too, since
  both the queue and the orchestration code carry them.
\<close>

type_synonym ustring = "nat list"

abbreviation ustr :: "string \<Rightarrow> ustring" where
  "ustr s \<equiv> map of_char s"

definition utf8_char_len :: "nat \<Rightarrow> nat" where
  "utf8_char_len c = (if c < 0x80 then 1 else if c < 0x800 then 2 else if c < 0x10000 then 3 else 4)"

definition str_len :: "ustring \<Rightarrow> usize" where
  "str_len s = sum_list (map utf8_char_len s)"

definition utf16_count :: "ustring \<Rightarrow> usize" where
  "utf16_count s = sum_list (map (\<lambda>c. if c < 0x10000 then 1 else 2) s)"

definition is_whitespace :: "nat \<Rightarrow> bool" where
  "is_whitespace c \<longleftrightarrow>
     (9 \<le> c \<and> c \<le> 13) \<or> c = 0x20 \<or> c = 0x85 \<or> c = 0xA0 \<or> c = 0x1680 \<or>
     (0x2000 \<le> c \<and> c \<le> 0x200A) \<or> c = 0x2028 \<or> c = 0x2029 \<or> c = 0x202F \<or> c = 0x205F \<or> c = 0x3000"

definition str_trim :: "ustring \<Rightarrow> ustring" where
  "str_trim s = rev (dropWhile is_whitespace (rev (dropWhile is_whitespace s)))"

lemma str_trim_Nil: "str_trim s = [] \<longleftrightarrow> (\<forall>c \<in> set s. is_whitespace c)"
proof
  assume "str_trim s = []"
  then have all: "\<forall>c \<in> set (dropWhile is_whitespace s). is_whitespace c"
    by (simp add: str_trim_def dropWhile_eq_Nil_conv)
  show "\<forall>c \<in> set s. is_whitespace c"
  proof (rule ccontr)
    assume "\<not> (\<forall>c \<in> set s. is_whitespace c)"
    then have "dropWhile is_whitespace s \<noteq> []" by (simp add: dropWhile_eq_Nil_conv)
    then have "\<not> is_whitespace (hd (dropWhile is_whitespace s))" by (rule hd_dropWhile)
    with all \<open>dropWhile is_whitespace s \<noteq> []\<close> show False by simp
  qed
next
  assume "\<forall>c \<in> set s. is_whitespace c"
  then have *: "dropWhile is_whitespace s = []" by simp
  show "str_trim s = []" unfolding str_trim_def * by simp
qed

text \<open>\<^verbatim>\<open>char::to_ascii_uppercase\<close> on every character.\<close>

definition ascii_upper :: "nat \<Rightarrow> nat" where
  "ascii_upper c = (if 97 \<le> c \<and> c \<le> 122 then c - 32 else c)"

definition to_ascii_uppercase :: "ustring \<Rightarrow> ustring" where
  "to_ascii_uppercase s = map ascii_upper s"

lemma length_to_ascii_uppercase [simp]: "length (to_ascii_uppercase s) = length s"
  by (simp add: to_ascii_uppercase_def)

lemma str_len_Nil [simp]: "str_len [] = 0"
  by (simp add: str_len_def)

lemma str_len_ge_length: "length s \<le> str_len s"
proof (induction s)
  case (Cons c s)
  have "1 \<le> utf8_char_len c" by (simp add: utf8_char_len_def)
  with Cons show ?case by (simp add: str_len_def)
qed simp

section \<open>Socket addresses\<close>

datatype SocketAddr =
    V4 (v4_ip: u32) (v4_port: u16)
  | V6 (v6_ip: "128 word") (v6_port: u16) (v6_flowinfo: u32) (v6_scope_id: u32)

end
