(* ===== verification/Transfer_Queue.thy ===== *)
theory Transfer_Queue
  imports Rust_Text "HOL-Library.Multiset"
begin

text \<open>
  The Manager's persistent transfer queue (\<^verbatim>\<open>src/management_queue.rs\<close>), the binding of its
  running item to the two endpoint jobs (\<^verbatim>\<open>src/management_active_binding.rs\<close>) and the route
  modes (\<^verbatim>\<open>src/management_route.rs\<close>).  Every public operation is a definition on the queue
  record; \<open>queue_validate\<close> is the code's own check, shown equivalent to a declarative
  invariant that every operation preserves.
\<close>

section \<open>Route modes\<close>

datatype ManagementRouteMode = AutomaticLan | DirectLink | ExplicitIp

fun route_code :: "ManagementRouteMode \<Rightarrow> u8" where
  "route_code AutomaticLan = 0"
| "route_code DirectLink = 1"
| "route_code ExplicitIp = 2"

definition route_from_code :: "u8 \<Rightarrow> ManagementRouteMode option" where
  "route_from_code value =
     (if value = 0 then Some AutomaticLan
      else if value = 1 then Some DirectLink
      else if value = 2 then Some ExplicitIp
      else None)"

lemma route_from_code_iff: "route_from_code v = Some m \<longleftrightarrow> v = route_code m"
  by (cases m) (auto simp: route_from_code_def split: if_splits)

section \<open>Requests and items\<close>

datatype QueuedTransferId = QueuedTransferId (get_id: u64)

definition QueuedTransferId_from_raw :: "u64 \<Rightarrow> QueuedTransferId option" where
  "QueuedTransferId_from_raw value = (if value = 0 then None else Some (QueuedTransferId value))"

datatype QueuedTransferKind = Fresh | Resume (resume_data_stream_count: usize)

datatype QueuedTransferState = Pending | Running | Blocked | Failed | Completed | Cancelled

fun state_is_terminal :: "QueuedTransferState \<Rightarrow> bool" where
  "state_is_terminal Failed = True"
| "state_is_terminal Completed = True"
| "state_is_terminal Cancelled = True"
| "state_is_terminal _ = False"

fun may_retain_active_binding :: "QueuedTransferState \<Rightarrow> bool" where
  "may_retain_active_binding Running = True"
| "may_retain_active_binding Blocked = True"
| "may_retain_active_binding _ = False"

record QueuedTransferRequest =
  sender_agent :: SocketAddr
  receiver_agent :: SocketAddr
  route_mode :: ManagementRouteMode
  source_root :: ustring
  destination_root :: ustring
  update_existing :: bool
  worker_count :: usize
  calibration_mib :: u64
  transfer_kind :: QueuedTransferKind

text \<open>The error messages of the queue, one constructor per message.\<close>

datatype text_field = SourceRootText | DestinationRootText | StatusMessageText

datatype queue_error =
    SameAgents
  | TextEmpty text_field
  | TextTooLong text_field usize
  | ZeroWorkerCount
  | ZeroCalibration
  | ZeroResumeStreams
  | QueueFull
  | NextIdZero
  | IdSpaceExhausted
  | BindingRetained QueuedTransferId
  | MissingTransfer QueuedTransferId
  | TooManyItems usize
  | IdNotBelowNext QueuedTransferId u64
  | DuplicateId QueuedTransferId
  | BindingInvalid error_kind

definition MAX_QUEUE_ENTRIES :: usize where "MAX_QUEUE_ENTRIES = 256"
definition MAX_QUEUE_TEXT_BYTES :: usize where "MAX_QUEUE_TEXT_BYTES = 64 * 1024"

definition validate_optional_text :: "ustring \<Rightarrow> text_field \<Rightarrow> queue_error + unit" where
  "validate_optional_text value description =
     (if str_len value > MAX_QUEUE_TEXT_BYTES then Inl (TextTooLong description (str_len value))
      else Inr ())"

definition validate_required_text :: "ustring \<Rightarrow> text_field \<Rightarrow> queue_error + unit" where
  "validate_required_text value description =
     (if str_trim value = [] then Inl (TextEmpty description)
      else validate_optional_text value description)"

definition request_validate :: "QueuedTransferRequest \<Rightarrow> queue_error + unit" where
  "request_validate r =
     (if sender_agent r = receiver_agent r then Inl SameAgents
      else ebind (validate_required_text (source_root r) SourceRootText) (\<lambda>_.
           ebind (validate_required_text (destination_root r) DestinationRootText) (\<lambda>_.
             if worker_count r = 0 then Inl ZeroWorkerCount
             else if calibration_mib r = 0 then Inl ZeroCalibration
             else if transfer_kind r = Resume 0 then Inl ZeroResumeStreams
             else Inr ())))"

record QueuedTransfer =
  item_id :: QueuedTransferId
  item_request :: QueuedTransferRequest
  preserve_desktop_layout :: bool
  item_state :: QueuedTransferState
  status_message :: ustring

definition item_validate :: "QueuedTransfer \<Rightarrow> queue_error + unit" where
  "item_validate item =
     ebind (request_validate (item_request item))
       (\<lambda>_. validate_optional_text (status_message item) StatusMessageText)"

section \<open>Active bindings\<close>

type_synonym AgentInstanceId = "128 word"

record ActiveQueueBinding =
  queue_id :: QueuedTransferId
  sender_instance_id :: AgentInstanceId
  sender_job_id :: u64
  receiver_instance_id :: AgentInstanceId
  receiver_job_id :: u64

definition validate_job_id :: "u64 \<Rightarrow> unit io_result" where
  "validate_job_id job_id = (if job_id = 0 then Inl InvalidInput else Inr ())"

definition ActiveQueueBinding_new ::
    "QueuedTransferId \<Rightarrow> AgentInstanceId \<Rightarrow> u64 \<Rightarrow> AgentInstanceId \<Rightarrow> u64 \<Rightarrow> ActiveQueueBinding io_result" where
  "ActiveQueueBinding_new qid sender sender_job receiver receiver_job =
     ebind (validate_job_id sender_job) (\<lambda>_.
     ebind (validate_job_id receiver_job) (\<lambda>_.
       Inr \<lparr>queue_id = qid, sender_instance_id = sender, sender_job_id = sender_job,
            receiver_instance_id = receiver, receiver_job_id = receiver_job\<rparr>))"

section \<open>The queue\<close>

record TransferQueue =
  next_id :: u64
  paused_after_current :: bool
  queue_items :: "QueuedTransfer list"
  active_binding :: "ActiveQueueBinding option"

definition default_queue :: TransferQueue where
  "default_queue = \<lparr>next_id = 1, paused_after_current = False, queue_items = [], active_binding = None\<rparr>"

definition find_item :: "QueuedTransferId \<Rightarrow> QueuedTransfer list \<Rightarrow> QueuedTransfer option" where
  "find_item qid items = find (\<lambda>item. item_id item = qid) items"

fun position_of :: "QueuedTransferId \<Rightarrow> QueuedTransfer list \<Rightarrow> nat option" where
  "position_of qid [] = None"
| "position_of qid (x # xs) = (if item_id x = qid then Some 0 else map_option Suc (position_of qid xs))"

definition validate_for_queue :: "ActiveQueueBinding \<Rightarrow> TransferQueue \<Rightarrow> unit io_result" where
  "validate_for_queue b q =
     (case find_item (queue_id b) (queue_items q) of
        None \<Rightarrow> Inl InvalidInput
      | Some item \<Rightarrow>
          if \<not> (item_state item = Running \<or> item_state item = Blocked) then Inl InvalidInput
          else Inr ())"

text \<open>The loop of \<^verbatim>\<open>TransferQueue::validate\<close>: \<open>ids\<close> is the \<^verbatim>\<open>HashSet\<close> of IDs seen so far.\<close>

definition validate_item_step ::
    "u64 \<Rightarrow> QueuedTransferId fset \<Rightarrow> QueuedTransfer \<Rightarrow> queue_error + QueuedTransferId fset" where
  "validate_item_step nid ids item =
     (if get_id (item_id item) \<ge> nid then Inl (IdNotBelowNext (item_id item) nid)
      else if item_id item |\<in>| ids then Inl (DuplicateId (item_id item))
      else ebind (item_validate item) (\<lambda>_. Inr (finsert (item_id item) ids)))"

definition queue_validate :: "TransferQueue \<Rightarrow> queue_error + unit" where
  "queue_validate q =
     (if next_id q = 0 then Inl NextIdZero
      else if length (queue_items q) > MAX_QUEUE_ENTRIES then Inl (TooManyItems (length (queue_items q)))
      else ebind (efold (validate_item_step (next_id q)) {||} (queue_items q)) (\<lambda>_.
        case active_binding q of None \<Rightarrow> Inr ()
        | Some b \<Rightarrow> map_err BindingInvalid (validate_for_queue b q)))"

definition queue_from_parts ::
    "u64 \<Rightarrow> bool \<Rightarrow> QueuedTransfer list \<Rightarrow> ActiveQueueBinding option \<Rightarrow> queue_error + TransferQueue" where
  "queue_from_parts nid paused items binding =
     (let q = \<lparr>next_id = nid, paused_after_current = paused, queue_items = items, active_binding = binding\<rparr>
      in ebind (queue_validate q) (\<lambda>_. Inr q))"

definition set_paused_after_current :: "bool \<Rightarrow> TransferQueue \<Rightarrow> TransferQueue" where
  "set_paused_after_current paused q = q\<lparr>paused_after_current := paused\<rparr>"

definition is_bound :: "QueuedTransferId \<Rightarrow> TransferQueue \<Rightarrow> bool" where
  "is_bound qid q \<longleftrightarrow> (case active_binding q of None \<Rightarrow> False | Some b \<Rightarrow> queue_id b = qid)"

definition set_active_binding ::
    "ActiveQueueBinding \<Rightarrow> TransferQueue \<Rightarrow> queue_error + TransferQueue" where
  "set_active_binding binding q =
     (case active_binding q of
        Some existing \<Rightarrow> if existing = binding then Inr q else Inl (BindingRetained (queue_id existing))
      | None \<Rightarrow> ebind (map_err BindingInvalid (validate_for_queue binding q))
          (\<lambda>_. Inr (q\<lparr>active_binding := Some binding\<rparr>)))"

definition clear_active_binding :: "TransferQueue \<Rightarrow> ActiveQueueBinding option \<times> TransferQueue" where
  "clear_active_binding q = (active_binding q, q\<lparr>active_binding := None\<rparr>)"

definition add_with_desktop_layout ::
    "QueuedTransferRequest \<Rightarrow> bool \<Rightarrow> TransferQueue \<Rightarrow> queue_error + (QueuedTransferId \<times> TransferQueue)" where
  "add_with_desktop_layout request preserve q =
     ebind (request_validate request) (\<lambda>_.
       if length (queue_items q) \<ge> MAX_QUEUE_ENTRIES then Inl QueueFull
       else ebind (ok_or NextIdZero (QueuedTransferId_from_raw (next_id q))) (\<lambda>qid.
            ebind (ok_or IdSpaceExhausted (checked_add (next_id q) 1)) (\<lambda>nid.
              Inr (qid, q\<lparr>queue_items := queue_items q @
                     [\<lparr>item_id = qid, item_request = request, preserve_desktop_layout = preserve,
                       item_state = Pending, status_message = []\<rparr>],
                   next_id := nid\<rparr>))))"

definition queue_add ::
    "QueuedTransferRequest \<Rightarrow> TransferQueue \<Rightarrow> queue_error + (QueuedTransferId \<times> TransferQueue)" where
  "queue_add request q = add_with_desktop_layout request False q"

definition swap_items :: "nat \<Rightarrow> nat \<Rightarrow> 'a list \<Rightarrow> 'a list" where
  "swap_items i j xs = xs[i := xs ! j, j := xs ! i]"

definition move_up :: "QueuedTransferId \<Rightarrow> TransferQueue \<Rightarrow> bool \<times> TransferQueue" where
  "move_up qid q =
     (case position_of qid (queue_items q) of
        None \<Rightarrow> (False, q)
      | Some index \<Rightarrow>
          if index = 0
            \<or> is_bound qid q
            \<or> is_bound (item_id (queue_items q ! (index - 1))) q
            \<or> item_state (queue_items q ! index) = Running
            \<or> item_state (queue_items q ! (index - 1)) = Running
          then (False, q)
          else (True, q\<lparr>queue_items := swap_items index (index - 1) (queue_items q)\<rparr>))"

definition move_down :: "QueuedTransferId \<Rightarrow> TransferQueue \<Rightarrow> bool \<times> TransferQueue" where
  "move_down qid q =
     (case position_of qid (queue_items q) of
        None \<Rightarrow> (False, q)
      | Some index \<Rightarrow>
          if index + 1 \<ge> length (queue_items q)
            \<or> is_bound qid q
            \<or> is_bound (item_id (queue_items q ! (index + 1))) q
            \<or> item_state (queue_items q ! index) = Running
            \<or> item_state (queue_items q ! (index + 1)) = Running
          then (False, q)
          else (True, q\<lparr>queue_items := swap_items index (index + 1) (queue_items q)\<rparr>))"

definition queue_remove :: "QueuedTransferId \<Rightarrow> TransferQueue \<Rightarrow> QueuedTransfer option \<times> TransferQueue" where
  "queue_remove qid q =
     (case position_of qid (queue_items q) of
        None \<Rightarrow> (None, q)
      | Some index \<Rightarrow>
          if is_bound qid q \<or> item_state (queue_items q ! index) = Running then (None, q)
          else (Some (queue_items q ! index),
                q\<lparr>queue_items := take index (queue_items q) @ drop (Suc index) (queue_items q)\<rparr>))"

definition clear_completed :: "TransferQueue \<Rightarrow> usize \<times> TransferQueue" where
  "clear_completed q =
     (let bound_id = map_option queue_id (active_binding q);
          kept = filter (\<lambda>item. item_state item \<noteq> Completed \<or> bound_id = Some (item_id item)) (queue_items q)
      in (length (queue_items q) - length kept, q\<lparr>queue_items := kept\<rparr>))"

text \<open>\<^verbatim>\<open>iter_mut().find(..)\<close> followed by writes to the found item.\<close>

definition update_first ::
    "QueuedTransferId \<Rightarrow> (QueuedTransfer \<Rightarrow> QueuedTransfer) \<Rightarrow> QueuedTransfer list \<Rightarrow> QueuedTransfer list" where
  "update_first qid f items =
     (case position_of qid items of None \<Rightarrow> items | Some i \<Rightarrow> items[i := f (items ! i)])"

definition set_state ::
    "QueuedTransferId \<Rightarrow> QueuedTransferState \<Rightarrow> ustring \<Rightarrow> TransferQueue \<Rightarrow> queue_error + TransferQueue" where
  "set_state qid state message q =
     ebind (validate_optional_text message StatusMessageText) (\<lambda>_.
       case find_item qid (queue_items q) of
         None \<Rightarrow> Inl (MissingTransfer qid)
       | Some _ \<Rightarrow>
           Inr (q\<lparr>queue_items := update_first qid
                    (\<lambda>item. item\<lparr>item_state := state, status_message := message\<rparr>) (queue_items q),
                  active_binding :=
                    (if \<not> may_retain_active_binding state \<and> is_bound qid q then None
                     else active_binding q)\<rparr>))"

definition reset_to_pending :: "QueuedTransferId \<Rightarrow> TransferQueue \<Rightarrow> bool \<times> TransferQueue" where
  "reset_to_pending qid q =
     (if is_bound qid q then (False, q)
      else (case find_item qid (queue_items q) of
          None \<Rightarrow> (False, q)
        | Some item \<Rightarrow>
            if item_state item = Pending \<or> item_state item = Running then (False, q)
            else (True, q\<lparr>queue_items := update_first qid
                     (\<lambda>item. item\<lparr>item_state := Pending, status_message := []\<rparr>) (queue_items q)\<rparr>)))"

definition skipped_message :: ustring where
  "skipped_message = ustr ''Skipped by user.''"

definition queue_skip :: "QueuedTransferId \<Rightarrow> TransferQueue \<Rightarrow> bool \<times> TransferQueue" where
  "queue_skip qid q =
     (if is_bound qid q then (False, q)
      else (case find_item qid (queue_items q) of
          None \<Rightarrow> (False, q)
        | Some item \<Rightarrow>
            if \<not> (item_state item = Pending \<or> item_state item = Blocked \<or> item_state item = Failed)
            then (False, q)
            else (True, q\<lparr>queue_items := update_first qid
                     (\<lambda>item. item\<lparr>item_state := Cancelled, status_message := skipped_message\<rparr>)
                     (queue_items q)\<rparr>)))"

definition first_pending :: "TransferQueue \<Rightarrow> QueuedTransfer option" where
  "first_pending q = find (\<lambda>item. item_state item = Pending) (queue_items q)"

section \<open>The queue invariant\<close>

definition binding_ok :: "ActiveQueueBinding option \<Rightarrow> QueuedTransfer list \<Rightarrow> bool" where
  "binding_ok binding items \<longleftrightarrow>
     (\<forall>b. binding = Some b \<longrightarrow>
       (\<exists>item \<in> set items. item_id item = queue_id b \<and> may_retain_active_binding (item_state item)))"

definition queue_wf :: "TransferQueue \<Rightarrow> bool" where
  "queue_wf q \<longleftrightarrow>
     next_id q \<noteq> 0 \<and> length (queue_items q) \<le> MAX_QUEUE_ENTRIES \<and>
     distinct (map item_id (queue_items q)) \<and>
     (\<forall>item \<in> set (queue_items q). get_id (item_id item) < next_id q \<and> item_validate item = Inr ()) \<and>
     binding_ok (active_binding q) (queue_items q)"

lemma may_retain_iff: "may_retain_active_binding s \<longleftrightarrow> s = Running \<or> s = Blocked"
  by (cases s) simp_all

lemma find_item_Some:
  "find_item qid items = Some item \<Longrightarrow> item \<in> set items \<and> item_id item = qid"
  by (auto simp: find_item_def find_Some_iff)

lemma find_item_distinct:
  "distinct (map item_id items) \<Longrightarrow> item \<in> set items \<Longrightarrow> find_item (item_id item) items = Some item"
  by (induction items) (auto simp: find_item_def)

lemma validate_for_queue_iff:
  assumes "distinct (map item_id (queue_items q))"
  shows "validate_for_queue b q = Inr () \<longleftrightarrow> binding_ok (Some b) (queue_items q)"
proof
  assume "validate_for_queue b q = Inr ()"
  then show "binding_ok (Some b) (queue_items q)"
    by (auto simp: validate_for_queue_def binding_ok_def may_retain_iff dest!: find_item_Some
        split: option.splits if_splits)
next
  assume "binding_ok (Some b) (queue_items q)"
  then obtain item where "item \<in> set (queue_items q)" "item_id item = queue_id b"
    "may_retain_active_binding (item_state item)"
    by (auto simp: binding_ok_def)
  with find_item_distinct [OF assms, of item] show "validate_for_queue b q = Inr ()"
    by (auto simp: validate_for_queue_def may_retain_iff)
qed

lemma efold_validate_items:
  "efold (validate_item_step nid) ids items = Inr ids' \<longleftrightarrow>
   distinct (map item_id items) \<and> (\<forall>item \<in> set items. item_id item |\<notin>| ids) \<and>
   (\<forall>item \<in> set items. get_id (item_id item) < nid \<and> item_validate item = Inr ()) \<and>
   ids' = ids |\<union>| fset_of_list (map item_id items)"
proof (induction items arbitrary: ids)
  case (Cons x xs)
  then show ?case
    by (cases "item_validate x") (auto simp: validate_item_step_def not_le image_iff)
qed auto

lemma queue_validate_iff: "queue_validate q = Inr () \<longleftrightarrow> queue_wf q"
proof -
  have "queue_validate q = Inr () \<longleftrightarrow>
    next_id q \<noteq> 0 \<and> length (queue_items q) \<le> MAX_QUEUE_ENTRIES \<and>
    distinct (map item_id (queue_items q)) \<and>
    (\<forall>item \<in> set (queue_items q). get_id (item_id item) < next_id q \<and> item_validate item = Inr ()) \<and>
    (\<forall>b. active_binding q = Some b \<longrightarrow> validate_for_queue b q = Inr ())"
    by (auto simp: queue_validate_def ebind_Inr efold_validate_items map_err_Inr not_less
        split: option.splits)
  also have "\<dots> \<longleftrightarrow> queue_wf q"
    using validate_for_queue_iff [of q] by (auto simp: queue_wf_def binding_ok_def)
  finally show ?thesis .
qed

lemma position_of_Some:
  "position_of qid items = Some i \<Longrightarrow> i < length items \<and> item_id (items ! i) = qid"
  by (induction items arbitrary: i) (auto split: if_splits)

lemma position_of_None: "position_of qid items = None \<longleftrightarrow> qid \<notin> item_id ` set items"
  by (induction items) auto

lemma position_find: "find_item qid items = map_option (\<lambda>i. items ! i) (position_of qid items)"
proof (induction items)
  case (Cons x xs)
  then show ?case by (cases "position_of qid xs") (auto simp: find_item_def)
qed (simp add: find_item_def)

lemma update_first_items:
  assumes "distinct (map item_id items)" "\<And>x. item_id (f x) = item_id x"
  shows "map item_id (update_first qid f items) = map item_id items"
    and "set (update_first qid f items) = (\<lambda>x. if item_id x = qid then f x else x) ` set items"
proof -
  show "map item_id (update_first qid f items) = map item_id items"
    using assms(2) by (auto simp: update_first_def map_update list_update_same_conv dest!: position_of_Some
        split: option.splits)
  have "update_first qid f items = map (\<lambda>x. if item_id x = qid then f x else x) items"
  proof (cases "position_of qid items")
    case None
    then have "qid \<notin> item_id ` set items" by (simp add: position_of_None)
    then show ?thesis unfolding update_first_def None by (auto intro!: map_idI [symmetric])
  next
    case (Some i)
    with position_of_Some [OF Some] assms(1) show ?thesis
      by (auto simp: update_first_def list_eq_iff_nth_eq nth_list_update distinct_conv_nth)
  qed
  then show "set (update_first qid f items) = (\<lambda>x. if item_id x = qid then f x else x) ` set items"
    by simp
qed

text \<open>Rewriting one item's state and message, the shape \<open>set_state\<close>, \<open>reset_to_pending\<close> and
  \<open>queue_skip\<close> share.\<close>

lemma queue_wf_rewrite_item:
  assumes "queue_wf q" "validate_optional_text message StatusMessageText = Inr ()"
    and "binding_ok binding (update_first qid (\<lambda>item. item\<lparr>item_state := st, status_message := message\<rparr>) (queue_items q))"
  shows "queue_wf (q\<lparr>queue_items := update_first qid
    (\<lambda>item. item\<lparr>item_state := st, status_message := message\<rparr>) (queue_items q),
    active_binding := binding\<rparr>)"
proof -
  let ?f = "\<lambda>item :: QueuedTransfer. item\<lparr>item_state := st, status_message := message\<rparr>"
  have d: "distinct (map item_id (queue_items q))" using assms(1) by (simp add: queue_wf_def)
  have len: "length (update_first qid ?f (queue_items q)) = length (queue_items q)"
    by (simp add: update_first_def split: option.splits)
  show ?thesis
    using assms update_first_items [OF d, of ?f qid] len
    by (auto simp: queue_wf_def item_validate_def ebind_Inr)
qed

lemma binding_ok_rewrite:
  assumes "distinct (map item_id items)" "binding_ok binding items"
    and "\<And>b. binding = Some b \<Longrightarrow> queue_id b = qid \<Longrightarrow> may_retain_active_binding st"
  shows "binding_ok binding (update_first qid (\<lambda>item. item\<lparr>item_state := st, status_message := m\<rparr>) items)"
  unfolding binding_ok_def
proof (intro allI impI)
  fix b
  assume b: "binding = Some b"
  let ?f = "\<lambda>item :: QueuedTransfer. item\<lparr>item_state := st, status_message := m\<rparr>"
  obtain item where item: "item \<in> set items" "item_id item = queue_id b"
    "may_retain_active_binding (item_state item)"
    using assms(2) b by (auto simp: binding_ok_def)
  let ?new = "if item_id item = qid then ?f item else item"
  have "?new \<in> set (update_first qid ?f items)"
    using item(1) by (subst update_first_items(2) [OF assms(1)]) auto
  moreover have "item_id ?new = queue_id b \<and> may_retain_active_binding (item_state ?new)"
    using item assms(3) [OF b] by auto
  ultimately show "\<exists>item \<in> set (update_first qid ?f items). item_id item = queue_id b \<and>
      may_retain_active_binding (item_state item)" by blast
qed

lemma queue_wf_distinct [simp]: "queue_wf q \<Longrightarrow> distinct (map item_id (queue_items q))"
  by (simp add: queue_wf_def)

lemma queue_wf_binding: "queue_wf q \<Longrightarrow> binding_ok (active_binding q) (queue_items q)"
  by (simp add: queue_wf_def)

lemma set_state_wf:
  assumes "queue_wf q" "set_state qid st m q = Inr q'"
  shows "queue_wf q'"
proof -
  let ?b = "if \<not> may_retain_active_binding st \<and> is_bound qid q then None else active_binding q"
  have q': "q' = q\<lparr>queue_items := update_first qid (\<lambda>item. item\<lparr>item_state := st, status_message := m\<rparr>)
        (queue_items q), active_binding := ?b\<rparr>"
    and m: "validate_optional_text m StatusMessageText = Inr ()"
    using assms(2) by (auto simp: set_state_def result_simps split: option.splits)
  have "binding_ok ?b (queue_items q)"
    using queue_wf_binding [OF assms(1)] by (auto simp: binding_ok_def)
  then have "binding_ok ?b (update_first qid (\<lambda>item. item\<lparr>item_state := st, status_message := m\<rparr>) (queue_items q))"
    using assms(1) by (intro binding_ok_rewrite) (auto simp: is_bound_def split: if_splits)
  then show ?thesis unfolding q' by (rule queue_wf_rewrite_item [OF assms(1) m])
qed

lemma unbound_rewrite_wf:
  assumes "queue_wf q" "\<not> is_bound qid q" "validate_optional_text m StatusMessageText = Inr ()"
  shows "queue_wf (q\<lparr>queue_items := update_first qid
    (\<lambda>item. item\<lparr>item_state := st, status_message := m\<rparr>) (queue_items q)\<rparr>)"
proof -
  have "binding_ok (active_binding q)
    (update_first qid (\<lambda>item. item\<lparr>item_state := st, status_message := m\<rparr>) (queue_items q))"
    using assms(1,2) queue_wf_binding by (intro binding_ok_rewrite) (auto simp: is_bound_def)
  from queue_wf_rewrite_item [OF assms(1,3) this] show ?thesis by simp
qed

lemma reset_to_pending_wf: "queue_wf q \<Longrightarrow> queue_wf (snd (reset_to_pending qid q))"
  by (auto simp: reset_to_pending_def validate_optional_text_def
      intro!: unbound_rewrite_wf split: option.splits)

lemma queue_skip_wf: "queue_wf q \<Longrightarrow> queue_wf (snd (queue_skip qid q))"
  by (auto simp: queue_skip_def validate_optional_text_def skipped_message_def str_len_def
      utf8_char_len_def MAX_QUEUE_TEXT_BYTES_def
      intro!: unbound_rewrite_wf split: option.splits)

lemma swap_items_set: "i < length xs \<Longrightarrow> j < length xs \<Longrightarrow> set (swap_items i j xs) = set xs"
  by (simp add: swap_items_def)

lemma swap_items_distinct:
  "i < length xs \<Longrightarrow> j < length xs \<Longrightarrow> distinct (map f (swap_items i j xs)) = distinct (map f xs)"
  using distinct_swap [of i "map f xs" j] by (simp add: swap_items_def map_update)

lemma length_swap_items [simp]: "length (swap_items i j xs) = length xs"
  by (simp add: swap_items_def)

lemma swap_wf:
  "queue_wf q \<Longrightarrow> i < length (queue_items q) \<Longrightarrow> j < length (queue_items q) \<Longrightarrow>
   queue_wf (q\<lparr>queue_items := swap_items i j (queue_items q)\<rparr>)"
  by (simp add: queue_wf_def swap_items_set swap_items_distinct binding_ok_def)

lemma move_up_wf: "queue_wf q \<Longrightarrow> queue_wf (snd (move_up qid q))"
  by (auto simp: move_up_def intro!: swap_wf dest: position_of_Some split: option.splits)

lemma move_down_wf: "queue_wf q \<Longrightarrow> queue_wf (snd (move_down qid q))"
  by (auto simp: move_down_def intro!: swap_wf dest: position_of_Some split: option.splits)

lemma sub_items_wf:
  assumes "queue_wf q" "distinct (map item_id items)" "set items \<subseteq> set (queue_items q)"
    "length items \<le> length (queue_items q)" "binding_ok (active_binding q) items"
  shows "queue_wf (q\<lparr>queue_items := items\<rparr>)"
  using assms by (auto simp: queue_wf_def)

lemma clear_completed_wf: "queue_wf q \<Longrightarrow> queue_wf (snd (clear_completed q))"
  unfolding clear_completed_def Let_def snd_conv
proof (rule sub_items_wf)
  assume wf: "queue_wf q"
  let ?P = "\<lambda>item. item_state item \<noteq> Completed \<or> map_option queue_id (active_binding q) = Some (item_id item)"
  show "distinct (map item_id (filter ?P (queue_items q)))"
    using wf by (intro distinct_map_filter) simp
  show "binding_ok (active_binding q) (filter ?P (queue_items q))"
    using queue_wf_binding [OF wf] unfolding binding_ok_def by simp metis
qed auto

lemma queue_remove_wf: "queue_wf q \<Longrightarrow> queue_wf (snd (queue_remove qid q))"
proof -
  assume wf: "queue_wf q"
  show ?thesis
  proof (cases "snd (queue_remove qid q) = q")
    case False
    then obtain i where i: "position_of qid (queue_items q) = Some i" "\<not> is_bound qid q"
      and r: "snd (queue_remove qid q) =
        q\<lparr>queue_items := take i (queue_items q) @ drop (Suc i) (queue_items q)\<rparr>"
      by (auto simp: queue_remove_def split: option.splits if_splits)
    let ?xs = "queue_items q"
    have lt: "i < length ?xs" "item_id (?xs ! i) = qid" using position_of_Some [OF i(1)] by auto
    have xs: "?xs = take i ?xs @ ?xs ! i # drop (Suc i) ?xs" by (rule id_take_nth_drop [OF lt(1)])
    show ?thesis unfolding r
    proof (rule sub_items_wf [OF wf])
      have "distinct (map item_id (take i ?xs @ ?xs ! i # drop (Suc i) ?xs))"
        using wf xs by (metis queue_wf_distinct)
      then show "distinct (map item_id (take i ?xs @ drop (Suc i) ?xs))" by auto
      have "set ?xs = set (take i ?xs @ ?xs ! i # drop (Suc i) ?xs)" using xs by (rule arg_cong)
      then have "item \<in> set (take i ?xs @ drop (Suc i) ?xs)"
        if "item \<in> set ?xs" "item_id item \<noteq> qid" for item
        using that lt(2) by auto
      moreover have "queue_id b \<noteq> qid" if "active_binding q = Some b" for b
        using i(2) that by (simp add: is_bound_def)
      ultimately show "binding_ok (active_binding q) (take i ?xs @ drop (Suc i) ?xs)"
        using queue_wf_binding [OF wf] unfolding binding_ok_def by metis
    qed (auto dest: in_set_takeD in_set_dropD)
  qed (simp add: wf)
qed

lemma add_wf:
  assumes "queue_wf q" "add_with_desktop_layout request preserve q = Inr (qid, q')"
  shows "queue_wf q'"
proof -
  from assms(2) have req: "request_validate request = Inr ()" and n: "length (queue_items q) < MAX_QUEUE_ENTRIES"
    and qid: "qid = QueuedTransferId (next_id q)" and c: "checked_add (next_id q) 1 = Some (next_id q')"
    and q': "queue_items q' = queue_items q @ [\<lparr>item_id = qid, item_request = request,
      preserve_desktop_layout = preserve, item_state = Pending, status_message = []\<rparr>]"
      "active_binding q' = active_binding q"
    by (auto simp: add_with_desktop_layout_def QueuedTransferId_from_raw_def ebind_Inr ok_or_Inr
        split: if_splits)
  have "unat (next_id q') = Suc (unat (next_id q))" using unat_checked_add [OF c] by simp
  then have lt: "next_id q < next_id q'" and nz: "next_id q' \<noteq> 0"
    by (auto simp: word_less_nat_alt)
  have new: "qid \<notin> item_id ` set (queue_items q)"
  proof
    assume "qid \<in> item_id ` set (queue_items q)"
    then obtain x where "x \<in> set (queue_items q)" "get_id (item_id x) = next_id q"
      by (auto simp: qid) (metis QueuedTransferId.sel)
    with assms(1) show False by (auto simp: queue_wf_def)
  qed
  show ?thesis
    using assms(1) req n new lt nz unfolding queue_wf_def q' binding_ok_def
    by (auto simp: qid item_validate_def validate_optional_text_def)
qed

lemma set_active_binding_wf:
  "queue_wf q \<Longrightarrow> set_active_binding b q = Inr q' \<Longrightarrow> queue_wf q'"
  using validate_for_queue_iff [of q b]
  by (auto simp: set_active_binding_def queue_wf_def ebind_Inr map_err_Inr
      split: option.splits if_splits)

lemma clear_active_binding_wf: "queue_wf q \<Longrightarrow> queue_wf (snd (clear_active_binding q))"
  by (simp add: clear_active_binding_def queue_wf_def binding_ok_def)

lemma set_paused_wf: "queue_wf q \<Longrightarrow> queue_wf (set_paused_after_current p q)"
  by (simp add: set_paused_after_current_def queue_wf_def)

section \<open>The queue as a transition system\<close>

text \<open>One rule per public operation that changes the queue; failing operations change nothing.\<close>

inductive queue_step :: "TransferQueue \<Rightarrow> TransferQueue \<Rightarrow> bool" where
  step_add: "add_with_desktop_layout request preserve q = Inr (qid, q') \<Longrightarrow> queue_step q q'"
| step_set_state: "set_state qid st m q = Inr q' \<Longrightarrow> queue_step q q'"
| step_bind: "set_active_binding b q = Inr q' \<Longrightarrow> queue_step q q'"
| step_unbind: "queue_step q (snd (clear_active_binding q))"
| step_move_up: "queue_step q (snd (move_up qid q))"
| step_move_down: "queue_step q (snd (move_down qid q))"
| step_remove: "queue_step q (snd (queue_remove qid q))"
| step_clear: "queue_step q (snd (clear_completed q))"
| step_reset: "queue_step q (snd (reset_to_pending qid q))"
| step_skip: "queue_step q (snd (queue_skip qid q))"
| step_pause: "queue_step q (set_paused_after_current p q)"

lemma default_queue_wf: "queue_wf default_queue"
  by (simp add: default_queue_def queue_wf_def binding_ok_def)

lemmas queue_op_wf =
  add_wf set_state_wf set_active_binding_wf clear_active_binding_wf move_up_wf move_down_wf
  queue_remove_wf clear_completed_wf reset_to_pending_wf queue_skip_wf set_paused_wf

interpretation queue_system: invariant_system queue_step "\<lambda>q. q = default_queue" queue_wf
proof
  show "queue_wf s" if "s = default_queue" for s
    using that default_queue_wf by simp
  show "queue_wf t" if "queue_wf s" "queue_step s t" for s t
    using that(2,1) by cases (auto intro: queue_op_wf)
qed

text \<open>
  C19. Every queue that any sequence of queue operations builds from the empty queue passes
  the code's own \<open>validate\<close>: unique IDs below the next ID, at most 256 entries, valid
  requests and messages, and an active binding only to an existing running or blocked item.
\<close>

theorem reachable_queue_validates:
  assumes "queue_step\<^sup>*\<^sup>* default_queue q"
  shows "queue_validate q = Inr ()"
  unfolding queue_validate_iff by (rule queue_system.reachable_inv [OF _ assms]) simp

text \<open>IDs are never reused: the relation every step keeps.\<close>

definition ids_fresh :: "TransferQueue \<Rightarrow> TransferQueue \<Rightarrow> bool" where
  "ids_fresh q q' \<longleftrightarrow> next_id q \<le> next_id q' \<and>
     (\<forall>x \<in> item_id ` set (queue_items q'). x \<in> item_id ` set (queue_items q) \<or> next_id q \<le> get_id x)"

lemma ids_fresh_trans: "ids_fresh q q' \<Longrightarrow> ids_fresh q' q'' \<Longrightarrow> ids_fresh q q''"
  unfolding ids_fresh_def by (meson order_trans)

lemma ids_fresh_subset:
  "next_id q' = next_id q \<Longrightarrow> item_id ` set (queue_items q') \<subseteq> item_id ` set (queue_items q) \<Longrightarrow>
   ids_fresh q q'"
  by (auto simp: ids_fresh_def)

lemma update_first_ids: "(\<And>x. item_id (f x) = item_id x) \<Longrightarrow>
    item_id ` set (update_first qid f items) = item_id ` set items"
proof -
  assume f: "\<And>x. item_id (f x) = item_id x"
  have "map item_id (update_first qid f items) = map item_id items"
    using f by (auto simp: update_first_def map_update list_update_same_conv dest!: position_of_Some
        split: option.splits)
  then show ?thesis by (metis list.set_map)
qed

lemma rewrite_ids_fresh:
  "ids_fresh q (q\<lparr>queue_items := update_first qid
     (\<lambda>item. item\<lparr>item_state := st, status_message := m\<rparr>) (queue_items q)\<rparr>)"
  by (rule ids_fresh_subset) (simp_all add: update_first_ids)

lemma ids_fresh_refl: "ids_fresh q q"
  by (simp add: ids_fresh_def)

lemma add_ids_fresh:
  "add_with_desktop_layout request preserve q = Inr (qid, q') \<Longrightarrow> ids_fresh q q'"
proof -
  assume a: "add_with_desktop_layout request preserve q = Inr (qid, q')"
  then have c: "checked_add (next_id q) 1 = Some (next_id q')" and qid: "qid = QueuedTransferId (next_id q)"
    and i: "item_id ` set (queue_items q') = insert qid (item_id ` set (queue_items q))"
    by (auto simp: add_with_desktop_layout_def QueuedTransferId_from_raw_def ebind_Inr ok_or_Inr
        split: if_splits)
  have "next_id q \<le> next_id q'" using unat_checked_add [OF c] by (simp add: word_le_nat_alt)
  with i qid show ?thesis by (auto simp: ids_fresh_def)
qed

lemma queue_step_ids_fresh: "queue_step q q' \<Longrightarrow> ids_fresh q q'"
proof (induction rule: queue_step.induct)
  case (step_set_state qid st m q q')
  then have "next_id q' = next_id q" "queue_items q' = update_first qid
      (\<lambda>item. item\<lparr>item_state := st, status_message := m\<rparr>) (queue_items q)"
    by (auto simp: set_state_def ebind_Inr split: option.splits)
  then show ?case by (intro ids_fresh_subset) (simp_all add: update_first_ids)
next
  case (step_bind b q q')
  then show ?case
    by (auto simp: set_active_binding_def ebind_Inr intro!: ids_fresh_subset split: option.splits if_splits)
next
  case (step_move_up q qid)
  show ?case
    by (auto simp: move_up_def swap_items_set intro!: ids_fresh_subset dest!: position_of_Some
        split: option.splits)
next
  case (step_move_down q qid)
  show ?case
    by (auto simp: move_down_def swap_items_set intro!: ids_fresh_subset dest!: position_of_Some
        split: option.splits)
next
  case (step_remove q qid)
  show ?case
    by (auto simp: queue_remove_def intro!: ids_fresh_subset imageI dest: in_set_takeD in_set_dropD
        split: option.splits)
next
  case (step_add request preserve q qid q')
  then show ?case by (rule add_ids_fresh)
next
  case (step_reset q qid)
  show ?case
    by (simp add: reset_to_pending_def rewrite_ids_fresh ids_fresh_refl split: option.splits)
next
  case (step_skip q qid)
  show ?case
    by (simp add: queue_skip_def rewrite_ids_fresh ids_fresh_refl split: option.splits)
qed (auto simp: clear_active_binding_def clear_completed_def set_paused_after_current_def Let_def
    intro!: ids_fresh_subset)

text \<open>
   Queue IDs are never reused: across any sequence of operations the next ID never
  decreases, and every item present later either was present before or carries an ID that
  had not been issued yet, so an ID of a removed transfer never names another transfer.
\<close>

theorem queue_ids_never_reused:
  assumes "queue_wf q" "queue_step\<^sup>*\<^sup>* q q'"
  shows "next_id q \<le> next_id q' \<and>
    (\<forall>x \<in> set (queue_items q'). item_id x \<in> item_id ` set (queue_items q) \<or> next_id q \<le> get_id (item_id x))"
proof -
  have "ids_fresh q q'"
    by (rule queue_system.steps_related [OF assms(2,1)])
      (auto simp: ids_fresh_def [of u u for u] intro: ids_fresh_trans queue_step_ids_fresh)
  then show ?thesis by (auto simp: ids_fresh_def)
qed

definition sample_request :: QueuedTransferRequest where
  "sample_request = \<lparr>sender_agent = V4 0x0A000001 7339, receiver_agent = V4 0x0A000002 7339,
     route_mode = AutomaticLan, source_root = ustr ''C:/a'', destination_root = ustr ''D:/b'',
     update_existing = False, worker_count = 8, calibration_mib = 64, transfer_kind = Fresh\<rparr>"

definition sample_queue :: TransferQueue where
  "sample_queue = \<lparr>next_id = 2, paused_after_current = False,
     queue_items = [\<lparr>item_id = QueuedTransferId 1, item_request = sample_request,
       preserve_desktop_layout = False, item_state = Pending, status_message = []\<rparr>],
     active_binding = None\<rparr>"

lemma sample_request_valid: "request_validate sample_request = Inr ()"
  by (simp add: request_validate_def sample_request_def validate_required_text_def str_trim_Nil
      validate_optional_text_def str_len_def utf8_char_len_def MAX_QUEUE_TEXT_BYTES_def is_whitespace_def)

lemma sample_add: "add_with_desktop_layout sample_request False default_queue = Inr (QueuedTransferId 1, sample_queue)"
  by (simp add: add_with_desktop_layout_def sample_request_valid default_queue_def sample_queue_def
      MAX_QUEUE_ENTRIES_def QueuedTransferId_from_raw_def checked_add_def)

lemma sample_step: "queue_step default_queue sample_queue"
  using sample_add by (rule step_add)

theorem reachable_queue_validates_witness:
  "queue_step\<^sup>*\<^sup>* default_queue sample_queue \<and> queue_validate sample_queue = Inr ()"
  using reachable_queue_validates [of sample_queue] sample_step by blast

theorem queue_ids_never_reused_witness:
  "queue_wf default_queue \<and> queue_step\<^sup>*\<^sup>* default_queue sample_queue \<and>
   next_id default_queue \<le> next_id sample_queue"
  using queue_ids_never_reused [of default_queue sample_queue] sample_step default_queue_wf by blast

lemma swap_items_other: "k \<noteq> i \<Longrightarrow> k \<noteq> j \<Longrightarrow> swap_items i j xs ! k = xs ! k"
  by (simp add: swap_items_def)

definition movable :: "TransferQueue \<Rightarrow> nat \<Rightarrow> bool" where
  "movable q i \<longleftrightarrow> i < length (queue_items q) \<and> \<not> is_bound (item_id (queue_items q ! i)) q \<and>
     item_state (queue_items q ! i) \<noteq> Running"

lemma move_shape:
  assumes "q' = snd (move_up qid q) \<or> q' = snd (move_down qid q)"
  shows "q' = q \<or> (\<exists>i j. movable q i \<and> movable q j \<and> q' = q\<lparr>queue_items := swap_items i j (queue_items q)\<rparr>)"
proof (cases "position_of qid (queue_items q)")
  case None
  with assms show ?thesis by (auto simp: move_up_def move_down_def)
next
  case (Some i)
  with assms position_of_Some [OF Some]
  have "q' = q \<or> movable q i \<and>
      (movable q (i - 1) \<and> q' = q\<lparr>queue_items := swap_items i (i - 1) (queue_items q)\<rparr> \<or>
       movable q (i + 1) \<and> q' = q\<lparr>queue_items := swap_items i (i + 1) (queue_items q)\<rparr>)"
    by (auto simp: move_up_def move_down_def movable_def split: if_splits)
  then show ?thesis by blast
qed

text \<open>
   Reordering never disturbs work in progress: \<open>move_up\<close> and \<open>move_down\<close> leave every
  running item and the bound item at its position, and only permute the queue.
\<close>

theorem move_keeps_active_items:
  assumes "q' = snd (move_up qid q) \<or> q' = snd (move_down qid q)"
    and "k < length (queue_items q)"
    and "item_state (queue_items q ! k) = Running \<or> is_bound (item_id (queue_items q ! k)) q"
  shows "queue_items q' ! k = queue_items q ! k \<and> mset (queue_items q') = mset (queue_items q)"
  using move_shape [OF assms(1)]
proof
  assume "\<exists>i j. movable q i \<and> movable q j \<and> q' = q\<lparr>queue_items := swap_items i j (queue_items q)\<rparr>"
  then obtain i j where ij: "movable q i" "movable q j"
    and q': "q' = q\<lparr>queue_items := swap_items i j (queue_items q)\<rparr>" by blast
  have "k \<noteq> i" "k \<noteq> j" using ij assms(3) by (auto simp: movable_def)
  with ij show ?thesis by (simp add: q' swap_items_other) (simp add: movable_def swap_items_def mset_swap)
qed simp

definition sample_queue3 :: TransferQueue where
  "sample_queue3 = \<lparr>next_id = 4, paused_after_current = False,
     queue_items = map (\<lambda>(n, st). \<lparr>item_id = QueuedTransferId n, item_request = sample_request,
       preserve_desktop_layout = False, item_state = st, status_message = []\<rparr>)
       [(1, Running), (2, Pending), (3, Pending)],
     active_binding = None\<rparr>"

theorem move_keeps_active_items_witness:
  "0 < length (queue_items sample_queue3) \<and> item_state (queue_items sample_queue3 ! 0) = Running \<and>
   fst (move_up (QueuedTransferId 3) sample_queue3) \<and>
   queue_items (snd (move_up (QueuedTransferId 3) sample_queue3)) ! 0 = queue_items sample_queue3 ! 0"
proof -
  have h: "0 < length (queue_items sample_queue3)" "item_state (queue_items sample_queue3 ! 0) = Running"
    by (simp_all add: sample_queue3_def)
  have "fst (move_up (QueuedTransferId 3) sample_queue3)"
    by (simp add: sample_queue3_def move_up_def is_bound_def)
  with h move_keeps_active_items [of "snd (move_up (QueuedTransferId 3) sample_queue3)"
      "QueuedTransferId 3" sample_queue3 0]
  show ?thesis by simp
qed

end
