(* ===== verification/Session_Catalog.thy ===== *)
theory Session_Catalog
  imports Prelude "HOL-Library.Multiset"
begin

text \<open>
  The session content-defined-chunking catalog planner (\<^verbatim>\<open>src/session_cdc_catalog.rs\<close>): source
  files are grouped into generations, each generation publishes its files into a bounded
  rolling catalog and evicts the oldest ones, and the receiver replays the plan as a rolling
  list of basis files.  Shown: the planner is total on sane inputs, its own validator
  accepts every plan it makes, the generations partition the input, the catalog bound is
  kept, and the receiver's replay agrees with the sender's catalog.
\<close>

section \<open>Candidates and limits\<close>

definition AVERAGE_CHUNK_BYTES :: u64 where "AVERAGE_CHUNK_BYTES = 64 * 1024"
definition DEFAULT_GENERATION_TARGET_BYTES :: u64 where "DEFAULT_GENERATION_TARGET_BYTES = 512 * 1024 * 1024"
definition DEFAULT_MAX_CATALOG_ENTRIES :: u64 where "DEFAULT_MAX_CATALOG_ENTRIES = 1000000"

record CatalogCandidate =
  file_id :: usize
  logical_bytes :: u64

definition CatalogCandidate_new :: "usize \<Rightarrow> u64 \<Rightarrow> CatalogCandidate io_result" where
  "CatalogCandidate_new fid bytes =
     (if bytes = 0 then Inl InvalidInput else Inr \<lparr>file_id = fid, logical_bytes = bytes\<rparr>)"

definition estimated_entries :: "CatalogCandidate \<Rightarrow> u64 io_result" where
  "estimated_entries c =
     ok_or OtherError
       (map_option (\<lambda>bytes. bytes div AVERAGE_CHUNK_BYTES)
          (checked_add (logical_bytes c) (AVERAGE_CHUNK_BYTES - 1)))"

record CatalogLimits =
  generation_target_bytes :: u64
  max_catalog_entries :: u64

definition default_limits :: CatalogLimits where
  "default_limits = \<lparr>generation_target_bytes = DEFAULT_GENERATION_TARGET_BYTES,
     max_catalog_entries = DEFAULT_MAX_CATALOG_ENTRIES\<rparr>"

definition limits_validate :: "CatalogLimits \<Rightarrow> unit io_result" where
  "limits_validate l =
     (if generation_target_bytes l = 0 then Inl InvalidInput
      else if max_catalog_entries l = 0 then Inl InvalidInput
      else Inr ())"

record CatalogGeneration =
  gen_index :: usize
  transfer_files :: "CatalogCandidate list"
  uncataloged_file_ids :: "usize list"
  evicted_file_ids :: "usize list"
  gen_logical_bytes :: u64
  catalog_entries_before :: u64
  catalog_entries_after :: u64

text \<open>
  \<^verbatim>\<open>binary_search\<close> on the uncataloged IDs, which every generation lists in increasing order
  (\<open>plan_uncataloged_sorted\<close> below), decides membership.
\<close>

definition published_file_ids :: "CatalogGeneration \<Rightarrow> usize list" where
  "published_file_ids g =
     filter (\<lambda>fid. fid \<notin> set (uncataloged_file_ids g)) (map file_id (transfer_files g))"

record CatalogPlan =
  generations :: "CatalogGeneration list"
  candidate_files :: u64
  candidate_bytes :: u64
  peak_catalog_entries :: u64

section \<open>The receiver's basis\<close>

definition apply_generation :: "usize list \<Rightarrow> CatalogGeneration \<Rightarrow> usize list io_result" where
  "apply_generation basis g =
     (let ids = basis @ published_file_ids g;
          evicted_count = length (evicted_file_ids g)
      in if \<not> (evicted_count \<le> length ids \<and> take evicted_count ids = evicted_file_ids g)
         then Inl InvalidData
         else Inr (drop evicted_count ids))"

definition before_generation :: "CatalogPlan \<Rightarrow> usize \<Rightarrow> usize list io_result" where
  "before_generation p generation_index =
     (if generation_index > length (generations p) then Inl InvalidInput
      else efold apply_generation [] (take generation_index (generations p)))"

section \<open>Planning\<close>

definition sum_candidate_bytes :: "CatalogCandidate list \<Rightarrow> u64 io_result" where
  "sum_candidate_bytes cs =
     efold (\<lambda>total c. ok_or OtherError (checked_add total (logical_bytes c))) 0 cs"

definition validate_candidate_step :: "usize option \<Rightarrow> CatalogCandidate \<Rightarrow> usize option io_result" where
  "validate_candidate_step previous c =
     (if logical_bytes c = 0 then Inl InvalidInput
      else if (case previous of None \<Rightarrow> False | Some p \<Rightarrow> file_id c = p) then Inl InvalidInput
      else if (case previous of None \<Rightarrow> False | Some p \<Rightarrow> file_id c < p) then Inl InvalidInput
      else ebind (estimated_entries c) (\<lambda>_. Inr (Some (file_id c))))"

definition validate_candidates :: "CatalogCandidate list \<Rightarrow> unit io_result" where
  "validate_candidates cs = ebind (efold validate_candidate_step None cs) (\<lambda>_. Inr ())"

type_synonym catalog = "(usize \<times> u64) list"

text \<open>
  The eviction loop.  \<open>ek\<close> is the error of an exhausted catalog: the planner and the
  validator run the same loop and differ in that error only.
\<close>

definition over_limit :: "u64 \<Rightarrow> u64 \<Rightarrow> u64 \<Rightarrow> bool" where
  "over_limit max_entries entries estimated =
     (case checked_add entries estimated of None \<Rightarrow> True | Some combined \<Rightarrow> combined > max_entries)"

fun evict :: "error_kind \<Rightarrow> u64 \<Rightarrow> u64 \<Rightarrow> catalog \<Rightarrow> u64 \<Rightarrow> usize list \<Rightarrow> (catalog \<times> u64 \<times> usize list) io_result" where
  "evict ek mx est [] entries evicted =
     (if over_limit mx entries est then Inl ek else Inr ([], entries, evicted))"
| "evict ek mx est ((fid, n) # cat) entries evicted =
     (if over_limit mx entries est
      then ebind (ok_or OtherError (checked_sub entries n))
             (\<lambda>entries'. evict ek mx est cat entries' (evicted @ [fid]))
      else Inr ((fid, n) # cat, entries, evicted))"

type_synonym catalog_state = "catalog \<times> u64 \<times> usize list \<times> usize list"

text \<open>One candidate: catalog, entry count, uncataloged IDs, evicted IDs.\<close>

definition catalog_candidate :: "error_kind \<Rightarrow> CatalogLimits \<Rightarrow> catalog_state \<Rightarrow> CatalogCandidate \<Rightarrow> catalog_state io_result" where
  "catalog_candidate ek limits = (\<lambda>(cat, entries, uncataloged, evicted) c.
     ebind (estimated_entries c) (\<lambda>est.
       if est > max_catalog_entries limits then Inr (cat, entries, uncataloged @ [file_id c], evicted)
       else ebind (evict ek (max_catalog_entries limits) est cat entries evicted) (\<lambda>(cat', entries', evicted').
            ebind (ok_or OtherError (checked_add entries' est)) (\<lambda>entries''.
              Inr (cat' @ [(file_id c, est)], entries'', uncataloged, evicted')))))"

record PlanState =
  ps_generations :: "CatalogGeneration list"
  ps_catalog :: catalog
  ps_entries :: u64
  ps_peak :: u64
  ps_current :: "CatalogCandidate list"
  ps_bytes :: u64

definition finish_catalog_generation :: "CatalogLimits \<Rightarrow> CatalogCandidate list \<Rightarrow> PlanState \<Rightarrow> PlanState io_result" where
  "finish_catalog_generation limits files s =
     (if files = [] then Inl InvalidData
      else ebind (sum_candidate_bytes files) (\<lambda>bytes.
           ebind (efold (catalog_candidate OtherError limits) (ps_catalog s, ps_entries s, [], []) files)
             (\<lambda>(cat, entries, uncataloged, evicted).
               Inr (s\<lparr>ps_catalog := cat, ps_entries := entries,
                      ps_peak := max (ps_peak s) entries,
                      ps_generations := ps_generations s @
                        [\<lparr>gen_index = length (ps_generations s), transfer_files = files,
                          uncataloged_file_ids = uncataloged, evicted_file_ids = evicted,
                          gen_logical_bytes = bytes, catalog_entries_before = ps_entries s,
                          catalog_entries_after = entries\<rparr>]\<rparr>))))"

definition plan_candidate :: "CatalogLimits \<Rightarrow> PlanState \<Rightarrow> CatalogCandidate \<Rightarrow> PlanState io_result" where
  "plan_candidate limits s c =
     ebind (ok_or OtherError (checked_add (ps_bytes s) (logical_bytes c))) (\<lambda>combined.
     ebind (if ps_current s \<noteq> [] \<and> combined > generation_target_bytes limits
            then ebind (finish_catalog_generation limits (ps_current s) s)
                   (\<lambda>s'. Inr (s'\<lparr>ps_current := [], ps_bytes := 0\<rparr>))
            else Inr s) (\<lambda>s.
     ebind (ok_or OtherError (checked_add (ps_bytes s) (logical_bytes c))) (\<lambda>bytes.
       Inr (s\<lparr>ps_bytes := bytes, ps_current := ps_current s @ [c]\<rparr>))))"

definition initial_plan_state :: PlanState where
  "initial_plan_state = \<lparr>ps_generations = [], ps_catalog = [], ps_entries = 0, ps_peak = 0,
     ps_current = [], ps_bytes = 0\<rparr>"

section \<open>Validation of a plan\<close>

definition validate_plan_candidate ::
    "CatalogLimits \<Rightarrow> usize option \<times> catalog_state \<Rightarrow> CatalogCandidate \<Rightarrow> (usize option \<times> catalog_state) io_result" where
  "validate_plan_candidate limits = (\<lambda>(previous, st) c.
     if (case previous of None \<Rightarrow> False | Some p \<Rightarrow> file_id c = p) then Inl InvalidData
     else if (case previous of None \<Rightarrow> False | Some p \<Rightarrow> file_id c < p) then Inl InvalidData
     else ebind (catalog_candidate InvalidData limits st c) (\<lambda>st'. Inr (Some (file_id c), st')))"

record ValidationState =
  vs_index :: usize
  vs_catalog :: catalog
  vs_entries :: u64
  vs_peak :: u64
  vs_previous :: "usize option"
  vs_files :: u64
  vs_bytes :: u64

definition validate_generation :: "CatalogLimits \<Rightarrow> ValidationState \<Rightarrow> CatalogGeneration \<Rightarrow> ValidationState io_result" where
  "validate_generation limits v g =
     (if gen_index g \<noteq> vs_index v then Inl InvalidData
      else if transfer_files g = [] then Inl InvalidData
      else if catalog_entries_before g \<noteq> vs_entries v then Inl InvalidData
      else ebind (sum_candidate_bytes (transfer_files g)) (\<lambda>bytes.
        if bytes \<noteq> gen_logical_bytes g then Inl InvalidData
        else ebind (word_try_from OtherError (length (transfer_files g))) (\<lambda>count.
             ebind (ok_or OtherError (checked_add (vs_files v) count)) (\<lambda>files.
             ebind (ok_or OtherError (checked_add (vs_bytes v) bytes)) (\<lambda>total.
             ebind (efold (validate_plan_candidate limits)
                     (vs_previous v, (vs_catalog v, vs_entries v, [], [])) (transfer_files g))
               (\<lambda>(previous, cat, entries, uncataloged, evicted).
                 if uncataloged_file_ids g \<noteq> uncataloged then Inl InvalidData
                 else if evicted_file_ids g \<noteq> evicted then Inl InvalidData
                 else if catalog_entries_after g \<noteq> entries then Inl InvalidData
                 else if entries > max_catalog_entries limits then Inl InvalidData
                 else Inr \<lparr>vs_index = Suc (vs_index v), vs_catalog = cat, vs_entries = entries,
                           vs_peak = max (vs_peak v) entries, vs_previous = previous,
                           vs_files = files, vs_bytes = total\<rparr>))))))"

definition initial_validation_state :: ValidationState where
  "initial_validation_state = \<lparr>vs_index = 0, vs_catalog = [], vs_entries = 0, vs_peak = 0,
     vs_previous = None, vs_files = 0, vs_bytes = 0\<rparr>"

definition validate_plan :: "CatalogPlan \<Rightarrow> CatalogLimits \<Rightarrow> unit io_result" where
  "validate_plan p limits =
     ebind (limits_validate limits) (\<lambda>_.
     ebind (efold (validate_generation limits) initial_validation_state (generations p)) (\<lambda>v.
       if candidate_files p \<noteq> vs_files v then Inl InvalidData
       else if candidate_bytes p \<noteq> vs_bytes v then Inl InvalidData
       else if peak_catalog_entries p \<noteq> vs_peak v then Inl InvalidData
       else Inr ()))"

text \<open>
  \<^verbatim>\<open>sort_unstable_by_key\<close> sorts by file ID; candidates with equal IDs, whose order it leaves
  open, are rejected by \<open>validate_candidates\<close>.
\<close>

definition plan :: "CatalogCandidate list \<Rightarrow> CatalogLimits \<Rightarrow> CatalogPlan io_result" where
  "plan unsorted limits =
     ebind (limits_validate limits) (\<lambda>_.
     (let candidates = sort_key file_id unsorted in
     ebind (validate_candidates candidates) (\<lambda>_.
     ebind (word_try_from OtherError (length candidates)) (\<lambda>files.
     ebind (sum_candidate_bytes candidates) (\<lambda>bytes.
     ebind (efold (plan_candidate limits) initial_plan_state candidates) (\<lambda>s.
     ebind (if ps_current s \<noteq> [] then finish_catalog_generation limits (ps_current s) s else Inr s) (\<lambda>s.
     (let p = \<lparr>generations = ps_generations s, candidate_files = files, candidate_bytes = bytes,
               peak_catalog_entries = ps_peak s\<rparr>
      in ebind (validate_plan p limits) (\<lambda>_. Inr p)))))))))"

section \<open>The catalog loop\<close>

definition cat_sum :: "catalog \<Rightarrow> nat" where
  "cat_sum cat = sum_list (map (unat \<circ> snd) cat)"

definition cat_ok :: "CatalogLimits \<Rightarrow> catalog \<Rightarrow> u64 \<Rightarrow> bool" where
  "cat_ok l cat e \<longleftrightarrow> unat e = cat_sum cat \<and> e \<le> max_catalog_entries l"

definition estimable :: "CatalogCandidate \<Rightarrow> bool" where
  "estimable c \<longleftrightarrow> (\<exists>est. estimated_entries c = Inr est)"

definition catalogable :: "CatalogLimits \<Rightarrow> CatalogCandidate \<Rightarrow> bool" where
  "catalogable l c \<longleftrightarrow> (case estimated_entries c of Inl _ \<Rightarrow> False | Inr est \<Rightarrow> est \<le> max_catalog_entries l)"

lemma cat_sum_simps [simp]:
  "cat_sum [] = 0" "cat_sum ((f, n) # cat) = unat n + cat_sum cat"
  "cat_sum (cat @ cat') = cat_sum cat + cat_sum cat'"
  by (simp_all add: cat_sum_def)

lemma over_limit_iff: "over_limit mx e est \<longleftrightarrow> unat mx < unat e + unat est"
proof (cases "checked_add e est")
  case None
  then have "2 ^ LENGTH(64) \<le> unat e + unat est" by (simp only: checked_add_None)
  moreover have "unat mx < 2 ^ LENGTH(64)" by (rule unat_less_2p)
  ultimately show ?thesis using None by (simp add: over_limit_def)
next
  case (Some c)
  with unat_checked_add [OF Some] show ?thesis by (simp add: over_limit_def word_less_nat_alt)
qed

lemma evict_ok:
  "unat e = cat_sum cat \<Longrightarrow> est \<le> mx \<Longrightarrow>
   \<exists>gone cat' e'. cat = gone @ cat' \<and> (\<forall>ek. evict ek mx est cat e ev = Inr (cat', e', ev @ map fst gone)) \<and>
     unat e' = cat_sum cat' \<and> unat e' + unat est \<le> unat mx"
proof (induction cat arbitrary: e ev)
  case Nil
  then show ?case by (simp add: over_limit_iff word_le_nat_alt)
next
  case (Cons entry cat)
  obtain fid n where entry: "entry = (fid, n)" by (cases entry)
  show ?case
  proof (cases "over_limit mx e est")
    case False
    then show ?thesis using Cons.prems entry
      by (intro exI [of _ "[]"] exI [of _ "entry # cat"] exI [of _ e]) (simp add: over_limit_iff)
  next
    case True
    have n: "n \<le> e" using Cons.prems(1) entry by (simp add: word_le_nat_alt)
    then have sub: "checked_sub e n = Some (e - n)" by (simp add: checked_sub_def)
    have "unat (e - n) = cat_sum cat" using unat_checked_sub [OF sub] Cons.prems(1) entry by simp
    from Cons.IH [OF this Cons.prems(2), of "ev @ [fid]"] obtain gone cat' e' where
      "cat = gone @ cat'" "\<forall>ek. evict ek mx est cat (e - n) (ev @ [fid]) = Inr (cat', e', (ev @ [fid]) @ map fst gone)"
      "unat e' = cat_sum cat'" "unat e' + unat est \<le> unat mx"
      by blast
    with True sub entry show ?thesis
      by (intro exI [of _ "entry # gone"] exI [of _ cat'] exI [of _ e']) simp
  qed
qed

lemma catalog_candidate_ok:
  assumes "cat_ok l cat e" "estimable c"
  shows "\<exists>cat' e' gone.
     (\<forall>ek. catalog_candidate ek l (cat, e, unc, ev) c =
        Inr (cat', e', unc @ (if catalogable l c then [] else [file_id c]), ev @ gone)) \<and>
     cat_ok l cat' e' \<and>
     map fst cat @ (if catalogable l c then [file_id c] else []) = gone @ map fst cat'"
proof -
  obtain est where est: "estimated_entries c = Inr est" using assms(2) by (auto simp: estimable_def)
  show ?thesis
  proof (cases "est \<le> max_catalog_entries l")
    case False
    with est assms(1) show ?thesis
      by (intro exI [of _ cat] exI [of _ e] exI [of _ "[]"])
        (simp add: catalog_candidate_def catalogable_def not_le)
  next
    case True
    from evict_ok [of e cat est "max_catalog_entries l" ev] True assms(1)
    obtain gone cat' e' where ev: "cat = gone @ cat'"
      "\<forall>ek. evict ek (max_catalog_entries l) est cat e ev = Inr (cat', e', ev @ map fst gone)"
      "unat e' = cat_sum cat'" "unat e' + unat est \<le> unat (max_catalog_entries l)"
      by (auto simp: cat_ok_def)
    have "unat e' + unat est < 2 ^ LENGTH(64)"
      using ev(4) unat_less_2p [of "max_catalog_entries l"] by linarith
    then have add: "checked_add e' est = Some (e' + est)" by (simp only: checked_add_Some)
    have "cat_ok l (cat' @ [(file_id c, est)]) (e' + est)"
      using unat_checked_add [OF add] ev(3,4) by (simp add: cat_ok_def word_le_nat_alt)
    with True est ev(1,2) add show ?thesis
      by (intro exI [of _ "cat' @ [(file_id c, est)]"] exI [of _ "e' + est"] exI [of _ "map fst gone"])
        (simp add: catalog_candidate_def catalogable_def)
  qed
qed

lemma catalog_fold_ok:
  assumes "cat_ok l cat e" "\<forall>c \<in> set files. estimable c"
  shows "\<exists>cat' e' gone.
     (\<forall>ek. efold (catalog_candidate ek l) (cat, e, unc, ev) files =
        Inr (cat', e', unc @ map file_id (filter (\<lambda>c. \<not> catalogable l c) files), ev @ gone)) \<and>
     cat_ok l cat' e' \<and>
     map fst cat @ map file_id (filter (catalogable l) files) = gone @ map fst cat'"
  using assms
proof (induction files arbitrary: cat e unc ev)
  case (Cons c files)
  from catalog_candidate_ok [OF Cons.prems(1), of c unc ev] Cons.prems(2)
  obtain cat1 e1 gone1 where s1: "\<forall>ek. catalog_candidate ek l (cat, e, unc, ev) c =
        Inr (cat1, e1, unc @ (if catalogable l c then [] else [file_id c]), ev @ gone1)"
      "cat_ok l cat1 e1"
      "map fst cat @ (if catalogable l c then [file_id c] else []) = gone1 @ map fst cat1"
    by auto
  from Cons.IH [OF s1(2), of "unc @ (if catalogable l c then [] else [file_id c])" "ev @ gone1"] Cons.prems(2)
  obtain cat2 e2 gone2 where s2: "\<forall>ek. efold (catalog_candidate ek l)
        (cat1, e1, unc @ (if catalogable l c then [] else [file_id c]), ev @ gone1) files =
        Inr (cat2, e2, (unc @ (if catalogable l c then [] else [file_id c])) @
          map file_id (filter (\<lambda>c. \<not> catalogable l c) files), (ev @ gone1) @ gone2)"
      "cat_ok l cat2 e2"
      "map fst cat1 @ map file_id (filter (catalogable l) files) = gone2 @ map fst cat2"
    by auto
  have "map fst cat @ map file_id (filter (catalogable l) (c # files)) =
      (map fst cat @ (if catalogable l c then [file_id c] else [])) @ map file_id (filter (catalogable l) files)"
    by simp
  also have "\<dots> = (gone1 @ gone2) @ map fst cat2" using s1(3) s2(3) by simp
  finally show ?case using s1(1) s2(1,2)
    by (intro exI [of _ cat2] exI [of _ e2] exI [of _ "gone1 @ gone2"]) simp
qed auto

section \<open>Planning\<close>

definition bytes_of :: "CatalogCandidate list \<Rightarrow> nat" where
  "bytes_of cs = sum_list (map (unat \<circ> logical_bytes) cs)"

definition ids_increasing :: "CatalogCandidate list \<Rightarrow> bool" where
  "ids_increasing cs \<longleftrightarrow> sorted_wrt (<) (map file_id cs)"

definition last_id :: "CatalogCandidate list \<Rightarrow> usize option" where
  "last_id cs = (if cs = [] then None else Some (file_id (last cs)))"

lemma bytes_of_simps [simp]:
  "bytes_of [] = 0" "bytes_of (c # cs) = unat (logical_bytes c) + bytes_of cs"
  "bytes_of (cs @ cs') = bytes_of cs + bytes_of cs'"
  by (simp_all add: bytes_of_def)

lemma sum_bytes_fold:
  "unat t + bytes_of cs < 2 ^ LENGTH(64) \<Longrightarrow>
   efold (\<lambda>total c. ok_or OtherError (checked_add total (logical_bytes c))) t cs = Inr (t + of_nat (bytes_of cs))"
proof (induction cs arbitrary: t)
  case (Cons c cs)
  then have add: "checked_add t (logical_bytes c) = Some (t + logical_bytes c)"
    by (simp only: checked_add_Some) simp
  have "unat (t + logical_bytes c) + bytes_of cs < 2 ^ LENGTH(64)"
    using unat_checked_add [OF add] Cons.prems by simp
  from Cons.IH [OF this] add show ?case by (simp add: algebra_simps)
qed simp

lemma sum_candidate_bytes_ok:
  "bytes_of cs < 2 ^ LENGTH(64) \<Longrightarrow> sum_candidate_bytes cs = Inr (of_nat (bytes_of cs))"
  using sum_bytes_fold [of 0 cs] by (simp add: sum_candidate_bytes_def)

lemma sum_bytes_fold_Inr:
  "efold (\<lambda>total c. ok_or OtherError (checked_add total (logical_bytes c))) t cs = Inr b \<Longrightarrow>
   unat b = unat t + bytes_of cs"
proof (induction cs arbitrary: t)
  case (Cons c cs)
  then obtain t' where "checked_add t (logical_bytes c) = Some t'"
    "efold (\<lambda>total c. ok_or OtherError (checked_add total (logical_bytes c))) t' cs = Inr b"
    by (auto simp: ebind_Inr ok_or_Inr)
  with Cons.IH [of t'] show ?case by (simp add: unat_checked_add)
qed simp

lemma sum_candidate_bytes_Inr:
  "sum_candidate_bytes cs = Inr b \<Longrightarrow> unat b = bytes_of cs \<and> bytes_of cs < 2 ^ LENGTH(64)"
  using sum_bytes_fold_Inr [of 0 cs b] unat_less_2p [of b] by (simp add: sum_candidate_bytes_def)

lemma validate_fold_ok:
  assumes "ids_increasing files" "\<forall>p c. previous = Some p \<and> c \<in> set files \<longrightarrow> p < file_id c"
    and "efold (catalog_candidate InvalidData l) st files = Inr st'"
  shows "efold (validate_plan_candidate l) (previous, st) files =
    Inr (if files = [] then previous else last_id files, st')"
  using assms
proof (induction files arbitrary: previous st)
  case (Cons c files)
  from Cons.prems(3) obtain st1 where st1: "catalog_candidate InvalidData l st c = Inr st1"
    "efold (catalog_candidate InvalidData l) st1 files = Inr st'"
    by (auto simp: ebind_Inr)
  have "validate_plan_candidate l (previous, st) c = Inr (Some (file_id c), st1)"
    using Cons.prems(2) st1(1) by (cases previous) (auto simp: validate_plan_candidate_def)
  with Cons.IH [OF _ _ st1(2), of "Some (file_id c)"] Cons.prems(1) show ?case
    by (auto simp: ids_increasing_def last_id_def)
qed simp

lemma published_eq:
  assumes "ids_increasing (transfer_files g)"
    and "uncataloged_file_ids g = map file_id (filter (\<lambda>c. \<not> catalogable l c) (transfer_files g))"
  shows "published_file_ids g = map file_id (filter (catalogable l) (transfer_files g))"
proof -
  have "distinct (map file_id (transfer_files g))"
    using assms(1) by (simp add: ids_increasing_def strict_sorted_iff)
  then have inj: "inj_on file_id (set (transfer_files g))" by (simp add: distinct_map)
  have "filter (\<lambda>c. file_id c \<notin> set (uncataloged_file_ids g)) (transfer_files g) =
      filter (catalogable l) (transfer_files g)"
    using inj by (intro filter_cong) (auto simp: assms(2) inj_on_def)
  then show ?thesis by (simp add: published_file_ids_def filter_map o_def)
qed

text \<open>What the planner has put into generations so far.\<close>

abbreviation planned :: "PlanState \<Rightarrow> CatalogCandidate list" where
  "planned s \<equiv> concat (map transfer_files (ps_generations s))"

definition validated :: "CatalogLimits \<Rightarrow> PlanState \<Rightarrow> bool" where
  "validated l s \<longleftrightarrow>
     efold (validate_generation l) initial_validation_state (ps_generations s) =
       Inr \<lparr>vs_index = length (ps_generations s), vs_catalog = ps_catalog s, vs_entries = ps_entries s,
            vs_peak = ps_peak s, vs_previous = last_id (planned s),
            vs_files = of_nat (length (planned s)), vs_bytes = of_nat (bytes_of (planned s))\<rparr>"

definition gen_bounded :: "CatalogLimits \<Rightarrow> CatalogCandidate list \<Rightarrow> bool" where
  "gen_bounded l files \<longleftrightarrow> length files = 1 \<or> bytes_of files \<le> unat (generation_target_bytes l)"

definition gens_inv :: "CatalogLimits \<Rightarrow> PlanState \<Rightarrow> bool" where
  "gens_inv l s \<longleftrightarrow>
     cat_ok l (ps_catalog s) (ps_entries s) \<and> ps_peak s \<le> max_catalog_entries l \<and> validated l s \<and>
     efold apply_generation [] (ps_generations s) = Inr (map fst (ps_catalog s)) \<and>
     (\<forall>g \<in> set (ps_generations s). gen_bounded l (transfer_files g) \<and>
        uncataloged_file_ids g = map file_id (filter (\<lambda>c. \<not> catalogable l c) (transfer_files g)))"

definition sane :: "CatalogCandidate list \<Rightarrow> bool" where
  "sane cs \<longleftrightarrow> ids_increasing cs \<and> (\<forall>c \<in> set cs. estimable c) \<and>
     bytes_of cs < 2 ^ LENGTH(64) \<and> length cs < 2 ^ LENGTH(64)"

lemma sane_append: "sane (cs @ cs') \<Longrightarrow> sane cs \<and> sane cs'"
  by (auto simp: sane_def ids_increasing_def sorted_wrt_append)

lemma last_id_append: "cs' \<noteq> [] \<Longrightarrow> last_id (cs @ cs') = last_id cs'"
  by (simp add: last_id_def)

lemma last_id_less: "ids_increasing (cs @ cs') \<Longrightarrow> last_id cs = Some p \<Longrightarrow> c \<in> set cs' \<Longrightarrow> p < file_id c"
  by (auto simp: ids_increasing_def sorted_wrt_append last_id_def split: if_splits)

lemma apply_generation_ok:
  assumes "published_file_ids g = pub" "evicted_file_ids g = gone" "basis @ pub = gone @ basis'"
  shows "apply_generation basis g = Inr basis'"
proof -
  have "length gone \<le> length (basis @ pub)" unfolding assms(3) by simp
  then show ?thesis by (simp add: apply_generation_def Let_def assms)
qed

lemma checked_add_of_nat:
  "n + m < 2 ^ LENGTH(64) \<Longrightarrow> checked_add (of_nat n :: u64) (of_nat m) = Some (of_nat (n + m))"
proof -
  assume nm: "n + m < 2 ^ LENGTH(64)"
  then have "unat (of_nat n :: u64) = n" "unat (of_nat m :: u64) = m"
    by (simp_all add: unat_of_nat_small)
  with nm show ?thesis by (simp add: checked_add_def)
qed

lemma finish_generation_ok:
  assumes "gens_inv l s" "files \<noteq> []" "sane (planned s @ files)" "gen_bounded l files"
  shows "\<exists>s'. finish_catalog_generation l files s = Inr s' \<and> gens_inv l s' \<and>
     planned s' = planned s @ files \<and> ps_current s' = ps_current s \<and> ps_bytes s' = ps_bytes s"
proof -
  have sane: "sane files" using sane_append [OF assms(3)] by blast
  from catalog_fold_ok [of l "ps_catalog s" "ps_entries s" files "[]" "[]"] assms(1) sane
  obtain cat e gone where fold: "\<forall>ek. efold (catalog_candidate ek l) (ps_catalog s, ps_entries s, [], []) files =
        Inr (cat, e, map file_id (filter (\<lambda>c. \<not> catalogable l c) files), gone)"
      and ok: "cat_ok l cat e"
      and roll: "map fst (ps_catalog s) @ map file_id (filter (catalogable l) files) = gone @ map fst cat"
    by (auto simp: gens_inv_def sane_def)
  let ?g = "\<lparr>gen_index = length (ps_generations s), transfer_files = files,
      uncataloged_file_ids = map file_id (filter (\<lambda>c. \<not> catalogable l c) files),
      evicted_file_ids = gone, gen_logical_bytes = of_nat (bytes_of files),
      catalog_entries_before = ps_entries s, catalog_entries_after = e\<rparr>"
  let ?s = "s\<lparr>ps_catalog := cat, ps_entries := e, ps_peak := max (ps_peak s) e,
      ps_generations := ps_generations s @ [?g]\<rparr>"
  have bytes: "sum_candidate_bytes files = Inr (of_nat (bytes_of files))"
    using sane by (intro sum_candidate_bytes_ok) (simp add: sane_def)
  have fin: "finish_catalog_generation l files s = Inr ?s"
    using fold assms(2) by (simp add: finish_catalog_generation_def bytes)
  have emax: "e \<le> max_catalog_entries l" using ok by (simp add: cat_ok_def)
  have vfold: "efold (validate_plan_candidate l) (last_id (planned s), (ps_catalog s, ps_entries s, [], [])) files =
      Inr (last_id files, cat, e, map file_id (filter (\<lambda>c. \<not> catalogable l c) files), gone)"
    using validate_fold_ok [of files "last_id (planned s)" l] fold assms(2,3) sane last_id_less
    by (auto simp: sane_def)
  have "validated l ?s"
    using assms(1,2,3) emax vfold
    by (simp add: validated_def gens_inv_def efold_append validate_generation_def bytes
        word_try_from_def sane_def checked_add_of_nat last_id_append not_less)
  moreover have "apply_generation (map fst (ps_catalog s)) ?g = Inr (map fst cat)"
    using sane roll by (intro apply_generation_ok [OF published_eq]) (simp_all add: sane_def)
  ultimately have "gens_inv l ?s"
    using assms(1,4) ok emax by (auto simp: gens_inv_def efold_append)
  with fin show ?thesis by (intro exI [of _ ?s]) simp
qed

definition plan_inv :: "CatalogLimits \<Rightarrow> CatalogCandidate list \<Rightarrow> PlanState \<Rightarrow> bool" where
  "plan_inv l cs s \<longleftrightarrow> gens_inv l s \<and> planned s @ ps_current s = cs \<and>
     unat (ps_bytes s) = bytes_of (ps_current s) \<and>
     (ps_current s = [] \<or> gen_bounded l (ps_current s))"

lemma plan_inv_initial: "plan_inv l [] initial_plan_state"
  by (simp add: plan_inv_def gens_inv_def initial_plan_state_def cat_ok_def validated_def
      initial_validation_state_def last_id_def)

lemma push_candidate:
  assumes "unat (ps_bytes s) + unat (logical_bytes c) < 2 ^ LENGTH(64)"
  obtains b where "checked_add (ps_bytes s) (logical_bytes c) = Some b"
    "unat b = unat (ps_bytes s) + unat (logical_bytes c)"
proof -
  have "checked_add (ps_bytes s) (logical_bytes c) = Some (ps_bytes s + logical_bytes c)"
    using assms by (simp only: checked_add_Some simp_thms)
  then show ?thesis using that unat_checked_add by blast
qed

lemma gens_inv_ignores [simp]:
  "gens_inv l (s\<lparr>ps_bytes := b, ps_current := cs\<rparr>) = gens_inv l s"
  "gens_inv l (s\<lparr>ps_current := cs, ps_bytes := b\<rparr>) = gens_inv l s"
  by (simp_all add: gens_inv_def validated_def)

lemma plan_candidate_ok:
  assumes "plan_inv l cs s" "sane (cs @ [c])"
  shows "\<exists>s'. plan_candidate l s c = Inr s' \<and> plan_inv l (cs @ [c]) s'"
proof -
  have cs: "cs = planned s @ ps_current s" "unat (ps_bytes s) = bytes_of (ps_current s)"
    and g: "gens_inv l s" using assms(1) by (auto simp: plan_inv_def)
  have "unat (ps_bytes s) + unat (logical_bytes c) < 2 ^ LENGTH(64)"
    using assms(2) by (simp add: cs sane_def)
  then obtain b where b: "checked_add (ps_bytes s) (logical_bytes c) = Some b"
    "unat b = unat (ps_bytes s) + unat (logical_bytes c)" by (rule push_candidate)
  show ?thesis
  proof (cases "ps_current s \<noteq> [] \<and> b > generation_target_bytes l")
    case False
    let ?s = "s\<lparr>ps_bytes := b, ps_current := ps_current s @ [c]\<rparr>"
    have "plan_candidate l s c = Inr ?s" using b(1) False by (auto simp: plan_candidate_def)
    moreover have "plan_inv l (cs @ [c]) ?s"
      using g cs b(2) False by (auto simp: plan_inv_def gen_bounded_def word_less_nat_alt not_less)
    ultimately show ?thesis by blast
  next
    case True
    have "sane (planned s @ ps_current s)" using sane_append assms(2) cs(1) by blast
    moreover have "gen_bounded l (ps_current s)" using assms(1) True by (simp add: plan_inv_def)
    ultimately obtain s1 where s1: "finish_catalog_generation l (ps_current s) s = Inr s1"
      "gens_inv l s1" "planned s1 = planned s @ ps_current s"
      using finish_generation_ok [OF g, of "ps_current s"] True by blast
    let ?s = "s1\<lparr>ps_bytes := logical_bytes c, ps_current := [c]\<rparr>"
    have "plan_candidate l s c = Inr ?s"
      using b(1) True s1(1) by (simp add: plan_candidate_def)
    moreover have "plan_inv l (cs @ [c]) ?s"
      using s1 cs(1) by (simp add: plan_inv_def gen_bounded_def)
    ultimately show ?thesis by blast
  qed
qed

lemma plan_fold_ok:
  "plan_inv l ds s \<Longrightarrow> sane (ds @ cs) \<Longrightarrow>
   \<exists>s'. efold (plan_candidate l) s cs = Inr s' \<and> plan_inv l (ds @ cs) s'"
proof (induction cs arbitrary: ds s)
  case (Cons c cs)
  have "sane (ds @ [c])" using Cons.prems(2) sane_append [of "ds @ [c]" cs] by simp
  with Cons.prems(1) obtain s1 where "plan_candidate l s c = Inr s1" "plan_inv l (ds @ [c]) s1"
    using plan_candidate_ok by blast
  with Cons.IH [of "ds @ [c]" s1] Cons.prems(2) show ?case by simp
qed auto

lemma validate_candidates_fold:
  "(\<exists>r. efold validate_candidate_step previous cs = Inr r) \<longleftrightarrow>
   ids_increasing cs \<and> (\<forall>c \<in> set cs. logical_bytes c \<noteq> 0 \<and> estimable c) \<and>
   (\<forall>p c. previous = Some p \<and> c \<in> set cs \<longrightarrow> p < file_id c)"
proof (induction cs arbitrary: previous)
  case (Cons c cs)
  have step: "(\<exists>r. validate_candidate_step previous c = Inr r) \<longleftrightarrow>
      logical_bytes c \<noteq> 0 \<and> estimable c \<and> (\<forall>p. previous = Some p \<longrightarrow> p < file_id c)"
    by (cases previous; cases "estimated_entries c")
      (auto simp: validate_candidate_step_def estimable_def)
  have res: "validate_candidate_step previous c = Inr r \<Longrightarrow> r = Some (file_id c)" for r
    by (auto simp: validate_candidate_step_def ebind_Inr split: if_splits)
  have "(\<exists>r. efold validate_candidate_step previous (c # cs) = Inr r) \<longleftrightarrow>
      (\<exists>r. validate_candidate_step previous c = Inr r) \<and>
      (\<exists>r. efold validate_candidate_step (Some (file_id c)) cs = Inr r)"
    using res by (auto simp: ebind_Inr)
  also have "\<dots> \<longleftrightarrow> ids_increasing (c # cs) \<and> (\<forall>c \<in> set (c # cs). logical_bytes c \<noteq> 0 \<and> estimable c) \<and>
      (\<forall>p. previous = Some p \<longrightarrow> p < file_id c)"
    unfolding step Cons.IH by (auto simp: ids_increasing_def)
  also have "\<dots> \<longleftrightarrow> ids_increasing (c # cs) \<and> (\<forall>c \<in> set (c # cs). logical_bytes c \<noteq> 0 \<and> estimable c) \<and>
      (\<forall>p c'. previous = Some p \<and> c' \<in> set (c # cs) \<longrightarrow> p < file_id c')"
    by (auto simp: ids_increasing_def dest: less_trans)
  finally show ?case .
qed (simp add: ids_increasing_def)

lemma validate_candidates_iff:
  "validate_candidates cs = Inr () \<longleftrightarrow>
   ids_increasing cs \<and> (\<forall>c \<in> set cs. logical_bytes c \<noteq> 0 \<and> estimable c)"
  using validate_candidates_fold [of None cs] by (auto simp: validate_candidates_def ebind_Inr)

lemma plan_sane_ok:
  assumes "limits_validate l = Inr ()" "sane (sort_key file_id cs)"
    "validate_candidates (sort_key file_id cs) = Inr ()"
  shows "\<exists>s. gens_inv l s \<and> planned s = sort_key file_id cs \<and>
    plan cs l = Inr \<lparr>generations = ps_generations s, candidate_files = of_nat (length cs),
       candidate_bytes = of_nat (bytes_of (sort_key file_id cs)), peak_catalog_entries = ps_peak s\<rparr> \<and>
    validate_plan \<lparr>generations = ps_generations s, candidate_files = of_nat (length cs),
       candidate_bytes = of_nat (bytes_of (sort_key file_id cs)), peak_catalog_entries = ps_peak s\<rparr> l = Inr ()"
proof -
  let ?cs = "sort_key file_id cs"
  obtain s where s: "efold (plan_candidate l) initial_plan_state ?cs = Inr s" "plan_inv l ?cs s"
    using plan_fold_ok [OF plan_inv_initial] assms(2) by fastforce
  obtain s' where s': "(if ps_current s \<noteq> [] then finish_catalog_generation l (ps_current s) s else Inr s) = Inr s'"
    "gens_inv l s'" "planned s' = ?cs"
  proof (cases "ps_current s = []")
    case True
    with s(2) show ?thesis by (intro that [of s]) (auto simp: plan_inv_def)
  next
    case False
    with s(2) assms(2) show ?thesis
      using finish_generation_ok [of l s "ps_current s"] that by (auto simp: plan_inv_def)
  qed
  let ?p = "\<lparr>generations = ps_generations s', candidate_files = of_nat (length cs),
       candidate_bytes = of_nat (bytes_of ?cs), peak_catalog_entries = ps_peak s'\<rparr>"
  have v: "validate_plan ?p l = Inr ()"
    using s'(2,3) assms(1) by (simp add: validate_plan_def gens_inv_def validated_def)
  have "plan cs l = Inr ?p"
    using assms s(1) s'(1) v
    by (simp add: plan_def Let_def sane_def word_try_from_def sum_candidate_bytes_ok)
  with v s'(2,3) show ?thesis by blast
qed

lemma plan_Inr_sane:
  assumes "plan cs l = Inr p"
  shows "limits_validate l = Inr () \<and> sane (sort_key file_id cs) \<and>
    validate_candidates (sort_key file_id cs) = Inr ()"
proof -
  from assms obtain n :: u64 and b where *: "limits_validate l = Inr ()"
    "validate_candidates (sort_key file_id cs) = Inr ()"
    "word_try_from OtherError (length cs) = Inr n"
    "sum_candidate_bytes (sort_key file_id cs) = Inr b"
    by (auto simp: plan_def Let_def ebind_Inr)
  then show ?thesis
    using sum_candidate_bytes_Inr [OF *(4)]
    by (auto simp: sane_def validate_candidates_iff word_try_from_Inr)
qed

lemma plan_Inr:
  assumes "plan cs l = Inr p"
  obtains s where "gens_inv l s" "planned s = sort_key file_id cs" "generations p = ps_generations s"
    "peak_catalog_entries p = ps_peak s" "validate_plan p l = Inr ()" "sane (sort_key file_id cs)"
  using plan_Inr_sane [OF assms] plan_sane_ok [of l cs] assms by auto

lemma length_le_bytes_of: "\<forall>c \<in> set cs. logical_bytes c \<noteq> 0 \<Longrightarrow> length cs \<le> bytes_of cs"
proof (induction cs)
  case (Cons c cs)
  then have "1 \<le> unat (logical_bytes c)" by (simp add: Suc_le_eq unat_gt_0)
  with Cons show ?case by simp
qed simp

lemma bytes_of_sort: "bytes_of (sort_key file_id cs) = bytes_of cs"
proof -
  have "mset (map (unat \<circ> logical_bytes) (sort_key file_id cs)) = mset (map (unat \<circ> logical_bytes) cs)"
    by simp
  then show ?thesis unfolding bytes_of_def by (metis sum_mset_sum_list)
qed

lemma bytes_of_member: "c \<in> set cs \<Longrightarrow> unat (logical_bytes c) \<le> bytes_of cs"
  by (induction cs) auto

lemma estimable_small: "unat (logical_bytes c) + 65535 < 2 ^ LENGTH(64) \<Longrightarrow> estimable c"
  by (auto simp: estimable_def estimated_entries_def AVERAGE_CHUNK_BYTES_def checked_add_def)

lemma plan_exists:
  assumes "limits_validate l = Inr ()" "distinct (map file_id cs)"
    "\<forall>c \<in> set cs. logical_bytes c \<noteq> 0" "bytes_of cs + 65535 < 2 ^ 64"
  shows "\<exists>p. plan cs l = Inr p"
proof -
  let ?cs = "sort_key file_id cs"
  have est: "\<forall>c \<in> set ?cs. estimable c"
  proof
    fix c
    assume "c \<in> set ?cs"
    then have "unat (logical_bytes c) \<le> bytes_of cs" by (simp add: bytes_of_member)
    then have "unat (logical_bytes c) + 65535 < 2 ^ 64" using assms(4) by linarith
    then show "estimable c" by (intro estimable_small) simp
  qed
  have "sorted_wrt (<) (map file_id ?cs)"
    using assms(2) by (simp add: strict_sorted_iff) (simp add: distinct_map)
  then have inc: "ids_increasing ?cs" by (simp add: ids_increasing_def)
  have "sane ?cs"
    using inc est assms(4) length_le_bytes_of [OF assms(3)] by (simp add: sane_def bytes_of_sort)
  moreover have "validate_candidates ?cs = Inr ()"
    using inc est assms(3) by (simp add: validate_candidates_iff)
  ultimately show ?thesis using plan_sane_ok [OF assms(1)] by blast
qed

text \<open>
   The planner never refuses a real source tree: with non-zero limits, distinct file IDs,
  no empty file and a total size that leaves room for one chunk in 64 bits, \<open>plan\<close> returns
  a plan (in particular the eviction loop never runs the catalog dry and the planner's
  self-check never fires).
\<close>

theorem plan_total:
  assumes "limits_validate l = Inr ()" "distinct (map file_id cs)"
    "\<forall>c \<in> set cs. logical_bytes c \<noteq> 0"
    "sum_list (map (unat \<circ> logical_bytes) cs) + 65535 < 2 ^ 64"
  shows "\<exists>p. plan cs l = Inr p"
  using plan_exists [OF assms(1-3)] assms(4) by (simp add: bytes_of_def)

text \<open>
  C25. Every plan transfers exactly the given files, each once, in increasing file-ID order:
  the generations' files, concatenated, are the sorted candidates.  A generation holds
  several files only within the byte target, the catalog never holds more entries than its
  limit, and the plan passes \<open>validate_plan\<close>.
\<close>

theorem plan_partitions:
  assumes "plan cs l = Inr p"
  shows "concat (map transfer_files (generations p)) = sort_key file_id cs \<and>
    (\<forall>g \<in> set (generations p). length (transfer_files g) = 1 \<or>
       sum_list (map (unat \<circ> logical_bytes) (transfer_files g)) \<le> unat (generation_target_bytes l)) \<and>
    peak_catalog_entries p \<le> max_catalog_entries l \<and> validate_plan p l = Inr ()"
  using assms by (rule plan_Inr) (auto simp: gens_inv_def gen_bounded_def bytes_of_def)

lemma apply_generation_Inr:
  "apply_generation basis g = Inr b \<Longrightarrow> basis @ published_file_ids g = evicted_file_ids g @ b"
proof -
  let ?ids = "basis @ published_file_ids g" and ?n = "length (evicted_file_ids g)"
  assume "apply_generation basis g = Inr b"
  then have "take ?n ?ids = evicted_file_ids g" "drop ?n ?ids = b"
    by (auto simp: apply_generation_def Let_def simp del: take_append drop_append split: if_splits)
  then show ?thesis by (metis append_take_drop_id)
qed

lemma basis_fifo:
  "efold apply_generation basis gs = Inr basis' \<Longrightarrow>
   basis @ concat (map published_file_ids gs) = concat (map evicted_file_ids gs) @ basis'"
proof (induction gs arbitrary: basis)
  case (Cons g gs)
  then obtain b where b: "apply_generation basis g = Inr b" "efold apply_generation b gs = Inr basis'"
    by (auto simp: ebind_Inr)
  from b(1) have "basis @ published_file_ids g = evicted_file_ids g @ b"
    by (rule apply_generation_Inr)
  then have "basis @ published_file_ids g @ concat (map published_file_ids gs) =
      evicted_file_ids g @ b @ concat (map published_file_ids gs)"
    by (metis append.assoc)
  with Cons.IH [OF b(2)] show ?case by simp
qed simp

text \<open>
  C26. Sender and receiver agree on the basis: replaying a plan with \<open>before_generation\<close> never
  fails, the basis before generation \<open>k\<close> is what the earlier generations published minus
  what they evicted, oldest first, and so names only files of earlier generations.
\<close>

theorem basis_replay:
  assumes "plan cs l = Inr p" "k \<le> length (generations p)"
  shows "\<exists>basis. before_generation p k = Inr basis \<and>
    concat (map evicted_file_ids (take k (generations p))) @ basis =
      concat (map published_file_ids (take k (generations p))) \<and>
    set basis \<subseteq> file_id ` set (concat (map transfer_files (take k (generations p))))"
  using assms(1)
proof (rule plan_Inr)
  fix s
  assume s: "gens_inv l s" "generations p = ps_generations s"
  have "efold apply_generation [] (take k (generations p) @ drop k (generations p)) =
      Inr (map fst (ps_catalog s))"
    using s by (simp add: gens_inv_def)
  then obtain basis where basis: "efold apply_generation [] (take k (generations p)) = Inr basis"
    by (auto simp: efold_append ebind_Inr simp del: append_take_drop_id)
  have fifo: "concat (map published_file_ids (take k (generations p))) =
      concat (map evicted_file_ids (take k (generations p))) @ basis"
    using basis_fifo [OF basis] by simp
  then have "set basis \<subseteq> set (concat (map published_file_ids (take k (generations p))))" by simp
  also have "\<dots> \<subseteq> file_id ` set (concat (map transfer_files (take k (generations p))))"
    by (auto simp: published_file_ids_def)
  finally show ?thesis using assms(2) basis fifo by (simp add: before_generation_def)
qed

lemma plan_uncataloged_sorted:
  assumes "plan cs l = Inr p" "g \<in> set (generations p)"
  shows "sorted (uncataloged_file_ids g)"
  using assms(1)
proof (rule plan_Inr)
  fix s
  assume s: "gens_inv l s" "planned s = sort_key file_id cs" "generations p = ps_generations s"
  obtain pre suf where "generations p = pre @ g # suf" using assms(2) split_list by metis
  then have "sort_key file_id cs = concat (map transfer_files pre) @ transfer_files g @
      concat (map transfer_files suf)" using s by simp
  then have "sorted (map file_id (transfer_files g))"
    using sorted_sort_key [of file_id cs] by (simp add: sorted_append)
  moreover have "uncataloged_file_ids g = map file_id (filter (\<lambda>c. \<not> catalogable l c) (transfer_files g))"
    using s assms(2) by (simp add: gens_inv_def)
  ultimately show ?thesis by (simp add: sorted_filter)
qed

definition sample_candidates :: "CatalogCandidate list" where
  "sample_candidates = [\<lparr>file_id = 4, logical_bytes = 100000\<rparr>, \<lparr>file_id = 1, logical_bytes = 70000\<rparr>,
     \<lparr>file_id = 2, logical_bytes = 65536\<rparr>]"

definition sample_limits :: CatalogLimits where
  "sample_limits = \<lparr>generation_target_bytes = 140000, max_catalog_entries = 3\<rparr>"

definition sample_plan :: CatalogPlan where
  "sample_plan = \<lparr>generations =
     [\<lparr>gen_index = 0, transfer_files = [\<lparr>file_id = 1, logical_bytes = 70000\<rparr>, \<lparr>file_id = 2, logical_bytes = 65536\<rparr>],
       uncataloged_file_ids = [], evicted_file_ids = [], gen_logical_bytes = 135536,
       catalog_entries_before = 0, catalog_entries_after = 3\<rparr>,
      \<lparr>gen_index = 1, transfer_files = [\<lparr>file_id = 4, logical_bytes = 100000\<rparr>],
       uncataloged_file_ids = [], evicted_file_ids = [1], gen_logical_bytes = 100000,
       catalog_entries_before = 3, catalog_entries_after = 3\<rparr>],
     candidate_files = 3, candidate_bytes = 235536, peak_catalog_entries = 3\<rparr>"

lemma sample_plan_eq: "plan sample_candidates sample_limits = Inr sample_plan"
  by (simp add: sample_candidates_def sample_limits_def sample_plan_def plan_def limits_validate_def
      Let_def validate_candidates_def validate_candidate_step_def estimated_entries_def
      AVERAGE_CHUNK_BYTES_def checked_add_def word_try_from_def sum_candidate_bytes_def
      plan_candidate_def initial_plan_state_def finish_catalog_generation_def catalog_candidate_def
      over_limit_def checked_sub_def validate_plan_def initial_validation_state_def
      validate_generation_def validate_plan_candidate_def word_less_nat_alt word_le_nat_alt max_def)

theorem plan_total_witness:
  "limits_validate sample_limits = Inr () \<and> distinct (map file_id sample_candidates) \<and>
   (\<exists>p. plan sample_candidates sample_limits = Inr p)"
proof -
  have h: "limits_validate sample_limits = Inr ()" "distinct (map file_id sample_candidates)"
    "\<forall>c \<in> set sample_candidates. logical_bytes c \<noteq> 0"
    "sum_list (map (unat \<circ> logical_bytes) sample_candidates) + 65535 < 2 ^ 64"
    by (simp_all add: sample_limits_def sample_candidates_def limits_validate_def)
  from h plan_total [OF h] show ?thesis by blast
qed

theorem plan_partitions_witness:
  "plan sample_candidates sample_limits = Inr sample_plan \<and>
   concat (map transfer_files (generations sample_plan)) = sort_key file_id sample_candidates \<and>
   peak_catalog_entries sample_plan \<le> max_catalog_entries sample_limits"
  using sample_plan_eq plan_partitions [OF sample_plan_eq] by simp

theorem basis_replay_witness:
  "plan sample_candidates sample_limits = Inr sample_plan \<and> 2 \<le> length (generations sample_plan) \<and>
   before_generation sample_plan 2 = Inr [2, 4] \<and>
   (\<exists>basis. before_generation sample_plan 2 = Inr basis \<and>
     concat (map evicted_file_ids (take 2 (generations sample_plan))) @ basis =
       concat (map published_file_ids (take 2 (generations sample_plan))))"
proof -
  have k: "2 \<le> length (generations sample_plan)" by (simp add: sample_plan_def)
  have "before_generation sample_plan 2 = Inr [2, 4]"
    by (simp add: before_generation_def sample_plan_def apply_generation_def published_file_ids_def
        Let_def numeral_2_eq_2)
  with k sample_plan_eq basis_replay [OF sample_plan_eq k] show ?thesis by blast
qed

end
