(* ===== verification/Manifest.thy ===== *)
theory Manifest
  imports Wire "HOL-Library.Sublist"
begin

text \<open>
  Manifest entries and the path rules of \<^verbatim>\<open>src/manifest_scan.rs\<close>: file classes, safe relative
  paths, and the tree check both the scanner and the receiver run.  A \<^verbatim>\<open>PathBuf\<close> is the list
  of its UTF-16 units (\<^verbatim>\<open>encode_wide\<close>, \<^verbatim>\<open>OsString::from_wide\<close>).  Paths are compared and
  split the way \<^verbatim>\<open>std::path\<close> does on Windows: by components, with repeated separators and
  inner dot components dropped.
\<close>

type_synonym path = "u16 list"

section \<open>File classes\<close>

datatype FileClass = Tiny | Medium | Large

definition TINY_FILE_MAX_BYTES :: u64 where "TINY_FILE_MAX_BYTES = 256 * 1024"
definition LARGE_FILE_MIN_BYTES :: u64 where "LARGE_FILE_MIN_BYTES = 64 * (1024 * 1024)"
definition MAX_WORKERS :: usize where "MAX_WORKERS = 64"

definition classify_file :: "u64 \<Rightarrow> FileClass" where
  "classify_file file_size =
     (if file_size \<le> TINY_FILE_MAX_BYTES then Tiny
      else if file_size \<ge> LARGE_FILE_MIN_BYTES then Large
      else Medium)"

definition validate_worker_count :: "usize \<Rightarrow> unit io_result" where
  "validate_worker_count n = (if \<not> (1 \<le> n \<and> n \<le> MAX_WORKERS) then Inl InvalidInput else Inr ())"

record ManifestEntry =
  relative_path :: path
  file_size :: u64
  last_write_time :: u64
  file_attributes :: u32
  file_class :: FileClass

record DirectoryEntry =
  dir_relative_path :: path

section \<open>Windows paths\<close>

definition backslash :: u16 where "backslash = 0x5C"
definition slash :: u16 where "slash = 0x2F"
definition full_stop :: u16 where "full_stop = 0x2E"

definition is_separator :: "u16 \<Rightarrow> bool" where
  "is_separator u \<longleftrightarrow> u = backslash \<or> u = slash"

datatype path_component = RootDir | CurDir | ParentDir | Normal path

fun split_units :: "(u16 \<Rightarrow> bool) \<Rightarrow> path \<Rightarrow> path list" where
  "split_units sep [] = [[]]"
| "split_units sep (u # us) =
     (if sep u then [] # split_units sep us
      else (case split_units sep us of [] \<Rightarrow> [[u]] | p # ps \<Rightarrow> (u # p) # ps))"

definition name_component :: "path \<Rightarrow> path_component" where
  "name_component name = (if name = [full_stop, full_stop] then ParentDir else Normal name)"

text \<open>
  \<^verbatim>\<open>Path::components\<close> for a path without a drive or UNC prefix: the root, a leading
  dot, and the names between separators.
\<close>

definition path_components :: "path \<Rightarrow> path_component list" where
  "path_components p =
     (let parts = split_units is_separator p;
          rooted = (case p of [] \<Rightarrow> False | u # _ \<Rightarrow> is_separator u);
          names = map name_component (filter (\<lambda>n. n \<noteq> [] \<and> n \<noteq> [full_stop]) parts)
      in (if rooted then [RootDir] else if parts \<noteq> [] \<and> hd parts = [full_stop] then [CurDir] else []) @ names)"

text \<open>\<^verbatim>\<open>Path::is_absolute\<close> on Windows: a UNC or device path, or a drive letter followed by a separator.\<close>

definition is_absolute :: "path \<Rightarrow> bool" where
  "is_absolute p \<longleftrightarrow>
     (case p of a # b # rest \<Rightarrow>
        is_separator a \<and> is_separator b \<or>
        b = 0x3A \<and> rest \<noteq> [] \<and> is_separator (hd rest)
      | _ \<Rightarrow> False)"

definition invalid_unit :: "u16 \<Rightarrow> bool" where
  "invalid_unit u \<longleftrightarrow>
     u < 32 \<or> u \<in> {0x0022, 0x002A, 0x002F, 0x003A, 0x003C, 0x003E, 0x003F, 0x007C}"

fun double_separator :: "path \<Rightarrow> bool" where
  "double_separator (a # b # rest) = (a = backslash \<and> b = backslash \<or> double_separator (b # rest))"
| "double_separator _ = False"

fun is_normal :: "path_component \<Rightarrow> bool" where
  "is_normal (Normal _) = True"
| "is_normal _ = False"

definition validate_relative_path :: "path \<Rightarrow> unit io_result" where
  "validate_relative_path p =
     (if p = [] \<or> is_absolute p then Inl InvalidData
      else if list_ex invalid_unit p then Inl InvalidData
      else if last p = backslash \<or> double_separator p then Inl InvalidData
      else if \<not> list_all is_normal (path_components p) then Inl InvalidData
      else Inr ())"

section \<open>The tree check\<close>

text \<open>
  \<^verbatim>\<open>Path::ancestors\<close> yields the path and every shorter prefix of its components down to the
  empty path; a \<^verbatim>\<open>HashSet\<close> of paths compares components.
\<close>

definition nonempty_prefixes :: "'a list \<Rightarrow> 'a list list" where
  "nonempty_prefixes cs = map (\<lambda>n. take (Suc n) cs) [0..<length cs]"

definition insert_file_path ::
    "path_component list fset \<Rightarrow> ManifestEntry \<Rightarrow> path_component list fset io_result" where
  "insert_file_path paths entry =
     ebind (validate_relative_path (relative_path entry)) (\<lambda>_.
       (let cs = path_components (relative_path entry)
        in if cs |\<in>| paths then Inl InvalidData else Inr (finsert cs paths)))"

definition check_file_nesting :: "path_component list fset \<Rightarrow> ManifestEntry \<Rightarrow> unit io_result" where
  "check_file_nesting files entry =
     (let cs = path_components (relative_path entry)
      in if list_ex (\<lambda>a. a |\<in>| files) (nonempty_prefixes (butlast cs)) then Inl InvalidData else Inr ())"

definition insert_directory_path ::
    "path_component list fset \<Rightarrow> path_component list fset \<Rightarrow> DirectoryEntry \<Rightarrow> path_component list fset io_result" where
  "insert_directory_path files dirs entry =
     ebind (validate_relative_path (dir_relative_path entry)) (\<lambda>_.
       (let cs = path_components (dir_relative_path entry)
        in if cs |\<in>| dirs then Inl InvalidData
           else if list_ex (\<lambda>a. a |\<in>| files) (nonempty_prefixes cs) then Inl InvalidData
           else Inr (finsert cs dirs)))"

definition validate_tree_entries :: "ManifestEntry list \<Rightarrow> DirectoryEntry list \<Rightarrow> unit io_result" where
  "validate_tree_entries manifest directories =
     ebind (efold insert_file_path {||} manifest) (\<lambda>files.
     ebind (efold (\<lambda>_ entry. check_file_nesting files entry) () manifest) (\<lambda>_.
     ebind (efold (insert_directory_path files) {||} directories) (\<lambda>_. Inr ())))"


section \<open>What an accepted path looks like\<close>

lemma split_units_not_Nil [simp]: "split_units sep p \<noteq> []"
  by (cases p) (auto split: list.splits)

lemma split_units_parts: "n \<in> set (split_units sep p) \<Longrightarrow> u \<in> set n \<Longrightarrow> u \<in> set p \<and> \<not> sep u"
proof (induction p arbitrary: n)
  case (Cons a p)
  then show ?case by (cases "split_units sep p") (fastforce split: if_splits)+
qed simp

lemma hd_split_units: "p \<noteq> [] \<Longrightarrow> \<not> sep (hd p) \<Longrightarrow> hd (split_units sep p) \<noteq> []"
  by (cases p) (auto split: list.splits)

definition safe_name :: "path \<Rightarrow> bool" where
  "safe_name n \<longleftrightarrow> n \<noteq> [] \<and> n \<noteq> [full_stop] \<and> n \<noteq> [full_stop, full_stop] \<and>
     list_all (\<lambda>u. \<not> is_separator u \<and> \<not> invalid_unit u) n"

lemma is_normal_name_component [simp]: "is_normal (name_component n) \<longleftrightarrow> n \<noteq> [full_stop, full_stop]"
  by (simp add: name_component_def)

lemma name_component_normal: "n \<noteq> [full_stop, full_stop] \<Longrightarrow> name_component n = Normal n"
  by (simp add: name_component_def)

lemma validate_relative_path_Inr:
  "validate_relative_path p = Inr () \<longleftrightarrow>
     p \<noteq> [] \<and> \<not> is_absolute p \<and> \<not> list_ex invalid_unit p \<and> last p \<noteq> backslash \<and>
     \<not> double_separator p \<and> list_all is_normal (path_components p)"
  by (auto simp: validate_relative_path_def)

lemma validate_relative_path_Inl: "validate_relative_path p = Inl e \<Longrightarrow> e = InvalidData"
  by (auto simp: validate_relative_path_def split: if_splits)

lemma valid_path_names:
  assumes "validate_relative_path p = Inr ()"
  shows "\<exists>names. names \<noteq> [] \<and> path_components p = map Normal names \<and> list_all safe_name names"
proof -
  let ?parts = "split_units is_separator p"
  let ?names = "filter (\<lambda>n. n \<noteq> [] \<and> n \<noteq> [full_stop]) ?parts"
  have ne: "p \<noteq> []" and units: "\<not> list_ex invalid_unit p" and normal: "list_all is_normal (path_components p)"
    using assms by (auto simp: validate_relative_path_Inr)
  have start: "\<not> is_separator (hd p)" "hd ?parts \<noteq> [full_stop]"
    using normal ne by (auto simp: path_components_def Let_def split: list.splits if_splits)
  have comps: "path_components p = map name_component ?names"
    using start ne by (auto simp: path_components_def Let_def split: list.splits)
  have up: "\<forall>n\<in>set ?names. n \<noteq> [full_stop, full_stop]"
    using normal unfolding comps list_all_iff by simp
  have "hd ?parts \<in> set ?names" using start hd_split_units [OF ne] by simp
  hence "?names \<noteq> []" by (metis empty_iff empty_set)
  moreover have "path_components p = map Normal ?names"
    unfolding comps using up name_component_normal by (intro map_cong) blast+
  moreover have "list_all safe_name ?names"
    using up units split_units_parts by (fastforce simp: list_all_iff list_ex_iff safe_name_def)
  ultimately show ?thesis by blast
qed

section \<open>What an accepted tree looks like\<close>

lemma set_nonempty_prefixes: "a \<in> set (nonempty_prefixes cs) \<longleftrightarrow> a \<noteq> [] \<and> prefix a cs"
proof
  assume "a \<in> set (nonempty_prefixes cs)"
  then show "a \<noteq> [] \<and> prefix a cs" by (auto simp: nonempty_prefixes_def take_is_prefix)
next
  assume *: "a \<noteq> [] \<and> prefix a cs"
  hence a: "a = take (Suc (length a - 1)) cs" and "length a \<le> length cs"
    by (auto simp: prefix_def)
  moreover have "length a - 1 < length cs" using * calculation(2) by (cases a) auto
  ultimately show "a \<in> set (nonempty_prefixes cs)"
    unfolding nonempty_prefixes_def set_map by (metis (no_types, lifting) atLeastLessThan_iff imageI le0 set_upt)
qed

lemma strict_prefix_butlast: "strict_prefix a cs \<longleftrightarrow> cs \<noteq> [] \<and> prefix a (butlast cs)"
proof (cases cs rule: rev_cases)
  case (snoc ys y)
  then show ?thesis by (auto simp: strict_prefix_def)
qed simp

abbreviation file_key :: "ManifestEntry \<Rightarrow> path_component list" where
  "file_key e \<equiv> path_components (relative_path e)"

abbreviation dir_key :: "DirectoryEntry \<Rightarrow> path_component list" where
  "dir_key d \<equiv> path_components (dir_relative_path d)"

lemma efold_insert_files:
  "efold insert_file_path paths es = Inr files \<longleftrightarrow>
     list_all (\<lambda>e. validate_relative_path (relative_path e) = Inr ()) es \<and>
     distinct (map file_key es) \<and> fset paths \<inter> file_key ` set es = {} \<and>
     fset files = fset paths \<union> file_key ` set es"
proof (induction es arbitrary: paths)
  case (Cons e es)
  show ?case
  proof (cases "validate_relative_path (relative_path e) = Inr () \<and> file_key e |\<notin>| paths")
    case True
    hence "insert_file_path paths e = Inr (finsert (file_key e) paths)"
      by (simp add: insert_file_path_def Let_def)
    then show ?thesis using True by (simp add: Cons.IH) blast
  next
    case False
    hence "insert_file_path paths e \<noteq> Inr r" for r
      by (auto simp: insert_file_path_def Let_def ebind_Inr)
    then show ?thesis using False by (auto simp: ebind_Inr)
  qed
qed (auto simp: fset_inject)

lemma efold_check_nesting:
  "efold (\<lambda>_ e. check_file_nesting files e) () es = Inr () \<longleftrightarrow>
     list_all (\<lambda>e. \<forall>a. a \<noteq> [] \<and> prefix a (butlast (file_key e)) \<longrightarrow> a |\<notin>| files) es"
proof (induction es)
  case (Cons e es)
  have "check_file_nesting files e = Inr () \<longleftrightarrow>
      (\<forall>a. a \<noteq> [] \<and> prefix a (butlast (file_key e)) \<longrightarrow> a |\<notin>| files)"
    by (auto simp: check_file_nesting_def Let_def list_ex_iff set_nonempty_prefixes)
  then show ?case using Cons.IH by (auto simp: ebind_Inr)
qed simp

lemma efold_insert_directories:
  "(\<exists>r. efold (insert_directory_path files) dirs ds = Inr r) \<longleftrightarrow>
     list_all (\<lambda>d. validate_relative_path (dir_relative_path d) = Inr ()) ds \<and>
     distinct (map dir_key ds) \<and> fset dirs \<inter> dir_key ` set ds = {} \<and>
     list_all (\<lambda>d. \<forall>a. a \<noteq> [] \<and> prefix a (dir_key d) \<longrightarrow> a |\<notin>| files) ds"
proof (induction ds arbitrary: dirs)
  case (Cons d ds)
  let ?ok = "validate_relative_path (dir_relative_path d) = Inr () \<and> dir_key d |\<notin>| dirs \<and>
    (\<forall>a. a \<noteq> [] \<and> prefix a (dir_key d) \<longrightarrow> a |\<notin>| files)"
  have step: "?ok \<Longrightarrow> insert_directory_path files dirs d = Inr (finsert (dir_key d) dirs)"
    by (auto simp: insert_directory_path_def Let_def list_ex_iff set_nonempty_prefixes)
  have bad: "\<not> ?ok \<Longrightarrow> insert_directory_path files dirs d \<noteq> Inr r" for r
    by (auto simp: insert_directory_path_def Let_def list_ex_iff set_nonempty_prefixes ebind_Inr split: if_splits)
  show ?case
  proof (cases ?ok)
    case True
    then show ?thesis using step [OF True] by (simp add: Cons.IH) blast
  next
    case False
    then show ?thesis using bad by (auto simp: ebind_Inr)
  qed
qed simp

text \<open>A well-formed tree: safe distinct paths, files only at leaves, no directory at or below a file.\<close>

definition tree_wf :: "ManifestEntry list \<Rightarrow> DirectoryEntry list \<Rightarrow> bool" where
  "tree_wf files dirs \<longleftrightarrow>
     (\<forall>e\<in>set files. validate_relative_path (relative_path e) = Inr ()) \<and>
     (\<forall>d\<in>set dirs. validate_relative_path (dir_relative_path d) = Inr ()) \<and>
     distinct (map file_key files) \<and> distinct (map dir_key dirs) \<and>
     (\<forall>e\<in>set files. \<forall>f\<in>set files. \<not> strict_prefix (file_key f) (file_key e)) \<and>
     (\<forall>d\<in>set dirs. \<forall>f\<in>set files. \<not> prefix (file_key f) (dir_key d))"

lemma valid_key_not_Nil: "validate_relative_path p = Inr () \<Longrightarrow> path_components p \<noteq> []"
  using valid_path_names by fastforce

lemma validate_tree_entries_iff:
  "validate_tree_entries files dirs = Inr () \<longleftrightarrow> tree_wf files dirs"
proof (cases "list_all (\<lambda>e. validate_relative_path (relative_path e) = Inr ()) files \<and> distinct (map file_key files)")
  case False
  hence "efold insert_file_path {||} files \<noteq> Inr r" for r by (auto simp: efold_insert_files)
  then show ?thesis using False by (auto simp: validate_tree_entries_def ebind_Inr tree_wf_def list_all_iff)
next
  case True
  obtain keys where keys: "efold insert_file_path {||} files = Inr keys" "fset keys = file_key ` set files"
    using True efold_insert_files [of "{||}" files "fset_of_list (map file_key files)"]
    by (auto simp: fset_of_list.rep_eq)
  have kne: "a \<in> file_key ` set files \<Longrightarrow> a \<noteq> []" for a
    using True valid_key_not_Nil by (auto simp: list_all_iff)
  have "validate_tree_entries files dirs = Inr () \<longleftrightarrow>
      efold (\<lambda>_ e. check_file_nesting keys e) () files = Inr () \<and>
      (\<exists>r. efold (insert_directory_path keys) {||} dirs = Inr r)"
    by (auto simp: validate_tree_entries_def keys ebind_Inr)
  also have "\<dots> \<longleftrightarrow> tree_wf files dirs"
    unfolding efold_check_nesting efold_insert_directories keys(2) tree_wf_def strict_prefix_butlast
    using True kne valid_key_not_Nil by (simp add: list_all_iff) blast
  finally show ?thesis .
qed

section \<open>Properties\<close>

text \<open>
  C27. A relative path that \<^verbatim>\<open>validate_relative_path\<close> accepts is a nonempty sequence of plain
  names: no root, no \<^verbatim>\<open>.\<close> or \<^verbatim>\<open>..\<close> component, no empty name and no separator,
  control or reserved character inside a name.  Joined to a destination directory it cannot leave it.
\<close>
theorem accepted_path_is_safe:
  assumes "validate_relative_path p = Inr ()"
  shows "\<exists>names. names \<noteq> [] \<and> path_components p = map Normal names \<and> list_all safe_name names"
  using assms by (rule valid_path_names)

theorem accepted_path_is_safe_witness:
  "\<exists>names. names \<noteq> [] \<and> path_components [0x61, backslash, full_stop, 0x62] = map Normal names \<and>
     list_all safe_name names"
  by (rule accepted_path_is_safe)
    (simp add: validate_relative_path_def is_absolute_def invalid_unit_def backslash_def full_stop_def
      path_components_def is_separator_def slash_def name_component_def)

text \<open>
   \<^verbatim>\<open>validate_tree_entries\<close> accepts a manifest exactly when its tree can be materialised: all paths
  are safe, no two files and no two directories have the same path, no file lies beneath a file and no
  directory is at or beneath a file.
\<close>
theorem validate_tree_entries_exact:
  "validate_tree_entries files dirs = Inr () \<longleftrightarrow> tree_wf files dirs"
  by (rule validate_tree_entries_iff)

end
