(* ===== verification/Scan_Queue.thy ===== *)
theory Scan_Queue
  imports Manifest "HOL-Library.Multiset" "HOL-Library.List_Lexorder"
begin

text \<open>
  The parallel manifest scanner of \<^verbatim>\<open>src/manifest_scan.rs\<close>: \<^verbatim>\<open>scan_directory\<close>, the shared
  \<^verbatim>\<open>DirectoryQueue\<close>, the worker loop, the joining main thread and the merge into one sorted,
  validated result.  The file system is a parameter: \<open>read_dir\<close> gives the entries of a directory
  or an error and does not change during a scan.  Every interleaving of the workers is a run of the step
  relation; one step is one critical section of the queue mutex together with the thread-local work
  that follows or precedes it.  The condition variable is part of the queue: \<open>ready\<close> holds the workers that
  sleep in \<^verbatim>\<open>wait\<close>, a sleeping worker has no step of its own, and only \<^verbatim>\<open>notify_all\<close> or a spurious
  wake-up takes it out again.  A poisoned mutex needs a panic inside a critical section and is not modelled.
\<close>

section \<open>Scanning one directory\<close>

text \<open>Win32 file attribute bits.\<close>

definition FILE_ATTRIBUTE_DIRECTORY :: u32 where "FILE_ATTRIBUTE_DIRECTORY = 0x10"
definition FILE_ATTRIBUTE_REPARSE_POINT :: u32 where "FILE_ATTRIBUTE_REPARSE_POINT = 0x400"

definition has_attribute :: "u32 \<Rightarrow> u32 \<Rightarrow> bool" where
  "has_attribute attributes flag \<longleftrightarrow> and attributes flag \<noteq> 0"

record DirItem =
  item_name :: path
  item_attributes :: u32
  item_is_file :: bool
  item_len :: u64
  item_last_write :: u64

type_synonym file_system = "path \<Rightarrow> (error_kind + DirItem) list io_result"

record DirectoryScan =
  scan_manifest :: "ManifestEntry list"
  scan_directories :: "DirectoryEntry list"
  discovered_directories :: "path list"
  scan_reparse_skipped :: u64

definition empty_scan :: DirectoryScan where
  "empty_scan = \<lparr>scan_manifest = [], scan_directories = [], discovered_directories = [], scan_reparse_skipped = 0\<rparr>"

text \<open>\<^verbatim>\<open>PathBuf::push\<close> of a plain name, and \<^verbatim>\<open>strip_prefix\<close> on a path built by such pushes.\<close>

definition join_path :: "path \<Rightarrow> path \<Rightarrow> path" where
  "join_path d name = (if d = [] \<or> is_separator (last d) then d @ name else d @ [backslash] @ name)"

definition strip_root :: "path \<Rightarrow> path \<Rightarrow> path option" where
  "strip_root root p =
     (let rest = drop (length root) p
      in if take (length root) p = root \<and>
            (rest = [] \<or> root = [] \<or> is_separator (last root) \<or> is_separator (hd rest))
         then Some (dropWhile is_separator rest) else None)"

definition relative_path_from_root :: "path \<Rightarrow> path \<Rightarrow> path io_result" where
  "relative_path_from_root root p =
     ebind (ok_or OtherError (strip_root root p)) (\<lambda>relative.
     ebind (validate_relative_path relative) (\<lambda>_. Inr relative))"

definition scan_entry :: "path \<Rightarrow> path \<Rightarrow> DirectoryScan \<Rightarrow> error_kind + DirItem \<Rightarrow> DirectoryScan io_result" where
  "scan_entry root directory scan entry_result =
     ebind entry_result (\<lambda>entry.
       (let attributes = item_attributes entry; p = join_path directory (item_name entry)
        in if has_attribute attributes FILE_ATTRIBUTE_REPARSE_POINT then
             ebind (ok_or OtherError (checked_add (scan_reparse_skipped scan) 1)) (\<lambda>k.
               Inr (scan\<lparr>scan_reparse_skipped := k\<rparr>))
           else if has_attribute attributes FILE_ATTRIBUTE_DIRECTORY then
             ebind (relative_path_from_root root p) (\<lambda>relative.
               Inr (scan\<lparr>scan_directories := scan_directories scan @ [\<lparr>dir_relative_path = relative\<rparr>],
                         discovered_directories := discovered_directories scan @ [p]\<rparr>))
           else if \<not> item_is_file entry then Inr scan
           else
             ebind (relative_path_from_root root p) (\<lambda>relative.
               Inr (scan\<lparr>scan_manifest := scan_manifest scan @
                 [\<lparr>relative_path = relative, file_size = item_len entry,
                   last_write_time = item_last_write entry, file_attributes = attributes,
                   file_class = classify_file (item_len entry)\<rparr>]\<rparr>))))"

definition scan_directory :: "file_system \<Rightarrow> path \<Rightarrow> path \<Rightarrow> DirectoryScan io_result" where
  "scan_directory read_dir root directory =
     ebind (read_dir directory) (\<lambda>entries. efold (scan_entry root directory) empty_scan entries)"

section \<open>The directory queue\<close>

text \<open>The queue state under the mutex, and the workers that sleep on the condition variable \<^verbatim>\<open>ready\<close>.\<close>

record DirectoryQueue =
  pending :: "path list"
  active_workers :: usize
  cancelled :: bool
  ready :: "nat fset"

definition DirectoryQueue_new :: "path \<Rightarrow> DirectoryQueue" where
  "DirectoryQueue_new root = \<lparr>pending = [root], active_workers = 0, cancelled = False, ready = {||}\<rparr>"

text \<open>\<^verbatim>\<open>Condvar::wait\<close> puts the calling worker to sleep and releases the mutex; \<^verbatim>\<open>notify_all\<close> wakes every sleeper.\<close>

definition wait :: "nat \<Rightarrow> DirectoryQueue \<Rightarrow> DirectoryQueue" where
  "wait i q = q\<lparr>ready := finsert i (ready q)\<rparr>"

definition notify_all :: "DirectoryQueue \<Rightarrow> DirectoryQueue" where
  "notify_all q = q\<lparr>ready := {||}\<rparr>"

text \<open>One pass of the \<^verbatim>\<open>take_directory\<close> loop by worker \<open>i\<close>; after \<open>Waits\<close> the worker sleeps.\<close>

datatype take_outcome = Waits DirectoryQueue | NoMore | TakeFails error_kind DirectoryQueue | Takes path DirectoryQueue

definition take_directory :: "nat \<Rightarrow> DirectoryQueue \<Rightarrow> take_outcome" where
  "take_directory i q =
     (if cancelled q then NoMore
      else case pending q of
        d # rest \<Rightarrow>
          if usize_max < active_workers q + 1 then TakeFails OtherError (q\<lparr>pending := rest\<rparr>)
          else Takes d (q\<lparr>pending := rest, active_workers := active_workers q + 1\<rparr>)
      | [] \<Rightarrow> if active_workers q = 0 then NoMore else Waits (wait i q))"

definition complete_directory :: "path list \<Rightarrow> DirectoryQueue \<Rightarrow> DirectoryQueue io_result" where
  "complete_directory discovered q =
     (if active_workers q = 0 then Inl OtherError
      else Inr (notify_all (q\<lparr>active_workers := active_workers q - 1,
                  pending := (if cancelled q then pending q else pending q @ discovered)\<rparr>)))"

definition cancel :: "DirectoryQueue \<Rightarrow> DirectoryQueue" where
  "cancel q = notify_all (q\<lparr>cancelled := True\<rparr>)"

section \<open>Workers\<close>

datatype phase = Running | Scanning path | Finished | Failed error_kind

record Worker =
  phase :: phase
  worker_manifest :: "ManifestEntry list"
  worker_directories :: "DirectoryEntry list"
  worker_scanned :: u64
  worker_skipped :: u64

definition new_worker :: Worker where
  "new_worker = \<lparr>phase = Running, worker_manifest = [], worker_directories = [], worker_scanned = 0, worker_skipped = 0\<rparr>"

text \<open>The scanner: the queue, the workers, and how many handles the main thread has joined.\<close>

record Scanner =
  queue :: DirectoryQueue
  workers :: "Worker list"
  joined :: usize

definition initial_scanner :: "path \<Rightarrow> usize \<Rightarrow> Scanner" where
  "initial_scanner root worker_count =
     \<lparr>queue = DirectoryQueue_new root, workers = replicate worker_count new_worker, joined = 0\<rparr>"

text \<open>The body of the worker loop after a directory was taken, up to \<^verbatim>\<open>complete_directory\<close>.\<close>

definition finish_scan :: "DirectoryScan \<Rightarrow> Worker \<Rightarrow> Worker io_result" where
  "finish_scan scan w =
     ebind (ok_or OtherError (checked_add (worker_scanned w) 1)) (\<lambda>scanned.
     ebind (ok_or OtherError (checked_add (worker_skipped w) (scan_reparse_skipped scan))) (\<lambda>skipped.
       Inr \<lparr>phase = Running, worker_manifest = worker_manifest w @ scan_manifest scan,
            worker_directories = worker_directories w @ scan_directories scan,
            worker_scanned = scanned, worker_skipped = skipped\<rparr>))"

definition scan_worker :: "file_system \<Rightarrow> path \<Rightarrow> nat \<Rightarrow> Worker \<Rightarrow> DirectoryQueue \<Rightarrow> (Worker \<times> DirectoryQueue) option" where
  "scan_worker read_dir root i w q =
     (case phase w of
        Running \<Rightarrow>
          (case take_directory i q of
             Waits q' \<Rightarrow> Some (w, q')
           | NoMore \<Rightarrow> Some (w\<lparr>phase := Finished\<rparr>, q)
           | TakeFails e q' \<Rightarrow> Some (w\<lparr>phase := Failed e\<rparr>, q')
           | Takes d q' \<Rightarrow> Some (w\<lparr>phase := Scanning d\<rparr>, q'))
      | Scanning d \<Rightarrow>
          (case scan_directory read_dir root d of
             Inl e \<Rightarrow> Some (w\<lparr>phase := Failed e\<rparr>, cancel q)
           | Inr scan \<Rightarrow>
               (case finish_scan scan w of
                  Inl e \<Rightarrow> Some (w\<lparr>phase := Failed e\<rparr>, q)
                | Inr w' \<Rightarrow>
                    (case complete_directory (discovered_directories scan) q of
                       Inl e \<Rightarrow> Some (w'\<lparr>phase := Failed e\<rparr>, q)
                     | Inr q' \<Rightarrow> Some (w', q'))))
      | Finished \<Rightarrow> None
      | Failed e \<Rightarrow> None)"

text \<open>A worker that sleeps on the condition variable has no step.\<close>

definition worker_step :: "file_system \<Rightarrow> path \<Rightarrow> nat \<Rightarrow> Scanner \<Rightarrow> Scanner option" where
  "worker_step read_dir root i s =
     (if i < length (workers s) \<and> i |\<notin>| ready (queue s) then
        (case scan_worker read_dir root i (workers s ! i) (queue s) of
           None \<Rightarrow> None
         | Some (w, q) \<Rightarrow> Some (s\<lparr>queue := q, workers := (workers s)[i := w]\<rparr>))
      else None)"

fun ended :: "phase \<Rightarrow> bool" where
  "ended Finished = True"
| "ended (Failed _) = True"
| "ended _ = False"

fun failure :: "phase \<Rightarrow> error_kind option" where
  "failure (Failed e) = Some e"
| "failure _ = None"

text \<open>\<^verbatim>\<open>handle.join()\<close> of the next worker, in spawn order; a failed worker cancels the queue.\<close>

definition join_step :: "Scanner \<Rightarrow> Scanner option" where
  "join_step s =
     (if joined s < length (workers s) \<and> ended (phase (workers s ! joined s)) then
        Some (s\<lparr>joined := joined s + 1,
                queue := (if failure (phase (workers s ! joined s)) \<noteq> None then cancel (queue s) else queue s)\<rparr>)
      else None)"

text \<open>
  The steps of the program's threads; the step of the environment, a spurious wake-up, which
  \<^verbatim>\<open>Condvar::wait\<close> allows at any time; and a run with \<open>k\<close> of the former and \<open>j\<close> of the latter.
\<close>

inductive thread_step :: "file_system \<Rightarrow> path \<Rightarrow> Scanner \<Rightarrow> Scanner \<Rightarrow> bool" for read_dir root where
  worker: "worker_step read_dir root i s = Some t \<Longrightarrow> thread_step read_dir root s t"
| join: "join_step s = Some t \<Longrightarrow> thread_step read_dir root s t"

inductive spurious_wakeup :: "Scanner \<Rightarrow> Scanner \<Rightarrow> bool" where
  "i |\<in>| ready (queue s) \<Longrightarrow> spurious_wakeup s (s\<lparr>queue := (queue s)\<lparr>ready := ready (queue s) |-| {|i|}\<rparr>\<rparr>)"

inductive scan_step :: "file_system \<Rightarrow> path \<Rightarrow> Scanner \<Rightarrow> Scanner \<Rightarrow> bool" for read_dir root where
  thread: "thread_step read_dir root s t \<Longrightarrow> scan_step read_dir root s t"
| spurious: "spurious_wakeup s t \<Longrightarrow> scan_step read_dir root s t"

inductive scan_run :: "file_system \<Rightarrow> path \<Rightarrow> nat \<Rightarrow> nat \<Rightarrow> Scanner \<Rightarrow> Scanner \<Rightarrow> bool" for read_dir root where
  start: "scan_run read_dir root 0 0 s s"
| thread: "scan_run read_dir root k j s t \<Longrightarrow> thread_step read_dir root t u \<Longrightarrow> scan_run read_dir root (Suc k) j s u"
| spurious: "scan_run read_dir root k j s t \<Longrightarrow> spurious_wakeup t u \<Longrightarrow> scan_run read_dir root k (Suc j) s u"

lemma scan_stepE [consumes 1, case_names worker join spurious]:
  assumes "scan_step read_dir root s t"
  obtains i where "worker_step read_dir root i s = Some t" | "join_step s = Some t"
  | i where "i |\<in>| ready (queue s)" "t = s\<lparr>queue := (queue s)\<lparr>ready := ready (queue s) |-| {|i|}\<rparr>\<rparr>"
  using assms by (auto elim!: scan_step.cases thread_step.cases spurious_wakeup.cases)

lemma scan_run_steps: "scan_run read_dir root k j s t \<Longrightarrow> (scan_step read_dir root)\<^sup>*\<^sup>* s t"
  by (induction rule: scan_run.induct) (auto intro: scan_step.intros rtranclp.rtrancl_into_rtrancl)

section \<open>The merged result\<close>

record ScanReport =
  worker_count :: usize
  files_scanned :: u64
  directories_scanned :: u64
  reparse_points_skipped :: u64
  total_bytes :: u64
  tiny_files :: u64
  tiny_bytes :: u64
  medium_files :: u64
  medium_bytes :: u64
  large_files :: u64
  large_bytes :: u64
  sparse_files :: u64
  compressed_files :: u64
  relative_path_utf16_units :: u64






text \<open>The checks of \<^verbatim>\<open>run\<close> before the workers start, on the metadata of the canonical root.\<close>

definition start_run :: "usize \<Rightarrow> (bool \<times> u32) io_result \<Rightarrow> path \<Rightarrow> Scanner io_result" where
  "start_run n_workers root_metadata root =
     ebind (validate_worker_count n_workers) (\<lambda>_.
     ebind root_metadata (\<lambda>(is_dir, attributes).
       if \<not> is_dir then Inl InvalidInput
       else if has_attribute attributes FILE_ATTRIBUTE_REPARSE_POINT then Inl InvalidInput
       else Inr (initial_scanner root n_workers)))"

section \<open>The directory tree\<close>

definition scan_of :: "file_system \<Rightarrow> path \<Rightarrow> path \<Rightarrow> DirectoryScan" where
  "scan_of read_dir root d = (case scan_directory read_dir root d of Inl _ \<Rightarrow> empty_scan | Inr r \<Rightarrow> r)"

abbreviation subdirs :: "file_system \<Rightarrow> path \<Rightarrow> path \<Rightarrow> path list" where
  "subdirs read_dir root d \<equiv> discovered_directories (scan_of read_dir root d)"

text \<open>The directories below the root that a sequential walk would visit.\<close>

inductive_set tree_dirs :: "file_system \<Rightarrow> path \<Rightarrow> path set" for read_dir root where
  root: "root \<in> tree_dirs read_dir root"
| sub: "d \<in> tree_dirs read_dir root \<Longrightarrow> d' \<in> set (subdirs read_dir root d) \<Longrightarrow> d' \<in> tree_dirs read_dir root"










text \<open>
  What Windows guarantees of a directory listing: the names are distinct, nonempty and contain no
  separator.
\<close>

definition listing_ok :: "file_system \<Rightarrow> bool" where
  "listing_ok read_dir \<longleftrightarrow>
     (\<forall>d items. read_dir d = Inr items \<longrightarrow>
        distinct [item_name x. Inr x \<leftarrow> items] \<and>
        (\<forall>x. Inr x \<in> set items \<longrightarrow> item_name x \<noteq> [] \<and> (\<forall>u\<in>set (item_name x). \<not> is_separator u)))"

definition valid_item :: "DirItem \<Rightarrow> bool" where
  "valid_item x \<longleftrightarrow> item_name x \<noteq> [] \<and> (\<forall>u\<in>set (item_name x). \<not> is_separator u)"

lemma scan_entry_discovered:
  assumes "scan_entry root d scan x = Inr scan'"
  shows "\<exists>y. x = Inr y \<and> (discovered_directories scan' = discovered_directories scan \<or>
           discovered_directories scan' = discovered_directories scan @ [join_path d (item_name y)])"
  using assms by (auto simp: scan_entry_def Let_def ebind_Inr split: if_splits)

lemma scan_entries_discovered:
  "efold (scan_entry root d) scan xs = Inr scan' \<Longrightarrow>
   \<exists>names. subseq names [item_name x. Inr x \<leftarrow> xs] \<and>
     discovered_directories scan' = discovered_directories scan @ map (join_path d) names"
proof (induction xs arbitrary: scan)
  case (Cons x xs)
  from Cons.prems obtain scan1 where 1: "scan_entry root d scan x = Inr scan1"
    and 2: "efold (scan_entry root d) scan1 xs = Inr scan'" by (auto simp: ebind_Inr)
  obtain y where y: "x = Inr y" "discovered_directories scan1 = discovered_directories scan \<or>
           discovered_directories scan1 = discovered_directories scan @ [join_path d (item_name y)]"
    using scan_entry_discovered [OF 1] by blast
  obtain names where n: "subseq names [item_name x. Inr x \<leftarrow> xs]"
    "discovered_directories scan' = discovered_directories scan1 @ map (join_path d) names"
    using Cons.IH [OF 2] by blast
  from y(2) show ?case
  proof
    assume "discovered_directories scan1 = discovered_directories scan"
    then show ?thesis using n y(1) by (intro exI [of _ names]) auto
  next
    assume "discovered_directories scan1 = discovered_directories scan @ [join_path d (item_name y)]"
    then show ?thesis using n y(1) by (intro exI [of _ "item_name y # names"]) auto
  qed
qed simp

lemma subdirs_names:
  assumes "listing_ok read_dir"
  shows "\<exists>names. distinct names \<and> (\<forall>n\<in>set names. n \<noteq> [] \<and> (\<forall>u\<in>set n. \<not> is_separator u)) \<and>
     subdirs read_dir root d = map (join_path d) names"
proof (cases "scan_directory read_dir root d")
  case (Inl e)
  then show ?thesis by (intro exI [of _ "[]"]) (simp add: scan_of_def empty_scan_def)
next
  case (Inr scan)
  then obtain items where items: "read_dir d = Inr items" "efold (scan_entry root d) empty_scan items = Inr scan"
    by (auto simp: scan_directory_def ebind_Inr)
  obtain names where n: "subseq names [item_name x. Inr x \<leftarrow> items]"
    "discovered_directories scan = map (join_path d) names"
    using scan_entries_discovered [OF items(2)] by (auto simp: empty_scan_def)
  have "distinct names" using assms items(1) n(1) by (auto simp: listing_ok_def subseq_conv_nths)
  moreover have "set names \<subseteq> set [item_name x. Inr x \<leftarrow> items]" using n(1) set_nths_subset by (metis subseq_conv_nths)
  hence "\<forall>n\<in>set names. n \<noteq> [] \<and> (\<forall>u\<in>set n. \<not> is_separator u)"
    using assms items(1) by (fastforce simp: listing_ok_def split: sum.splits)
  ultimately show ?thesis using n(2) Inr by (auto simp: scan_of_def)
qed


lemma join_path_last: "n \<noteq> [] \<Longrightarrow> last (join_path d n) = last n"
  by (simp add: join_path_def)

lemma tree_dirs_shape:
  assumes "listing_ok read_dir" "d \<in> tree_dirs read_dir root"
  shows "d = root \<or> length root < length d \<and> d \<noteq> [] \<and> \<not> is_separator (last d)"
  using assms(2)
proof induction
  case (sub d d')
  from subdirs_names [OF assms(1), of root d] sub(2)
  obtain n where n: "d' = join_path d n" "n \<noteq> []" "\<forall>u\<in>set n. \<not> is_separator u" by auto
  hence "\<not> is_separator (last d')" by (simp add: join_path_last)
  moreover have "length d < length d'" using n(1,2) by (auto simp: join_path_def)
  ultimately show ?case using sub.IH by auto
qed simp

lemma join_path_inj:
  assumes eq: "join_path d n = join_path d' n'"
    and n: "\<forall>u\<in>set n. \<not> is_separator u" "\<forall>u\<in>set n'. \<not> is_separator u"
    and d: "d = root \<or> length root < length d \<and> d \<noteq> [] \<and> \<not> is_separator (last d)"
    and d': "d' = root \<or> length root < length d' \<and> d' \<noteq> [] \<and> \<not> is_separator (last d')"
  shows "d = d' \<and> n = n'"
proof -
  have sep: "is_separator backslash" by (simp add: is_separator_def)
  have tail: "takeWhile (\<lambda>u. \<not> is_separator u) (rev (join_path e m)) = rev m"
    if m: "\<forall>u\<in>set m. \<not> is_separator u" for e m
  proof (cases "e = [] \<or> is_separator (last e)")
    case True
    then show ?thesis using m by (cases e rule: rev_cases) (auto simp: join_path_def takeWhile_append)
  next
    case False
    then show ?thesis using m sep by (simp add: join_path_def takeWhile_tail)
  qed
  have "n = n'" using tail [OF n(1), of d] tail [OF n(2), of d'] eq by simp
  then have "join_path d [] = join_path d' []" using eq by (auto simp: join_path_def split: if_splits)
  with d d' \<open>n = n'\<close> show ?thesis by (auto simp: join_path_def split: if_splits)
qed

lemma subdirs_distinct: "listing_ok read_dir \<Longrightarrow> distinct (subdirs read_dir root d)"
  using subdirs_names [of read_dir root d] by (auto simp: distinct_map inj_on_def join_path_def split: if_splits)

lemma subdirs_disjoint:
  assumes "listing_ok read_dir" "d \<in> tree_dirs read_dir root" "d' \<in> tree_dirs read_dir root"
    "p \<in> set (subdirs read_dir root d)" "p \<in> set (subdirs read_dir root d')"
  shows "d = d'"
  using subdirs_names [OF assms(1), of root d] subdirs_names [OF assms(1), of root d'] assms(4,5)
    join_path_inj [OF _ _ _ tree_dirs_shape [OF assms(1,2)] tree_dirs_shape [OF assms(1,3)]]
  by fastforce

lemma root_not_subdir:
  assumes "listing_ok read_dir" "d \<in> tree_dirs read_dir root"
  shows "root \<notin> set (subdirs read_dir root d)"
  using subdirs_names [OF assms(1), of root d] tree_dirs_shape [OF assms] by (fastforce simp: join_path_def)

text \<open>
  The accounting lemma of the scan: if the directories seen so far are the root and what the
  completed scans discovered, each directory of the tree was seen at most once.
\<close>

lemma count_sum_mset: "count (\<Sum>d\<in>#M. f d) p = (\<Sum>d\<in>#M. count (f d) p)"
  by (induction M) auto

lemma seen_at_most_once:
  assumes ok: "listing_ok read_dir"
    and seen: "seen \<subseteq># {#root#} + (\<Sum>d\<in>#log. mset (subdirs read_dir root d))"
    and log: "log \<subseteq># seen" "set_mset log \<subseteq> tree_dirs read_dir root"
    and p: "p \<in> tree_dirs read_dir root"
  shows "count seen p \<le> 1"
  using p
proof induction
  case root
  have "root \<notin># (\<Sum>d\<in>#log. mset (subdirs read_dir root d))"
    using root_not_subdir [OF ok] log(2) by (auto simp: in_Union_mset_iff)
  then have "count (\<Sum>d\<in>#log. mset (subdirs read_dir root d)) root = 0"
    by (simp only: count_eq_zero_iff not_False_eq_True)
  then show ?case using mset_subset_eq_count [OF seen, of root] by simp
next
  case (sub d p)
  have "p \<noteq> root" using root_not_subdir [OF ok sub(1)] sub(2) by blast
  have one: "count (mset (subdirs read_dir root e)) p = (if e = d then 1 else 0)" if "e \<in># log" for e
    using that subdirs_disjoint [OF ok _ sub(1) _ sub(2)] log(2) subdirs_distinct [OF ok, of root d] sub(2)
    by (auto simp: count_mset_0_iff distinct_count_atmost_1)
  have "count (\<Sum>d\<in>#log. mset (subdirs read_dir root d)) p = (\<Sum>e\<in>#log. if e = d then 1 else 0)"
    using one by (simp add: count_sum_mset cong: image_mset_cong)
  also have "\<dots> = count log d" by (induction log) auto
  also have "\<dots> \<le> count seen d" using log(1) by (rule mset_subset_eq_count)
  finally show ?case using mset_subset_eq_count [OF seen, of p] sub.IH \<open>p \<noteq> root\<close> by simp
qed


section \<open>The invariant of a scan\<close>

definition scanning :: "Worker list \<Rightarrow> path multiset" where
  "scanning ws = mset (concat (map (\<lambda>w. case phase w of Scanning d \<Rightarrow> [d] | _ \<Rightarrow> []) ws))"

definition failed_count :: "Worker list \<Rightarrow> nat" where
  "failed_count ws = length (filter (\<lambda>w. failure (phase w) \<noteq> None) ws)"

definition ended_count :: "Worker list \<Rightarrow> nat" where
  "ended_count ws = length (filter (\<lambda>w. ended (phase w)) ws)"

text \<open>
  \<open>scan_log read_dir root s log\<close>: the directories in \<open>log\<close> are the ones completed so far, and
  everything the queue and the workers hold is accounted for by them.
\<close>

definition scan_log :: "file_system \<Rightarrow> path \<Rightarrow> Scanner \<Rightarrow> path multiset \<Rightarrow> bool" where
  "scan_log read_dir root s log \<longleftrightarrow>
     (\<forall>d\<in>#log. \<exists>r. scan_directory read_dir root d = Inr r) \<and>
     set (pending (queue s)) \<union> set_mset (scanning (workers s)) \<union> set_mset log \<subseteq> tree_dirs read_dir root \<and>
     mset (pending (queue s)) + scanning (workers s) + log
       \<subseteq># {#root#} + (\<Sum>d\<in>#log. mset (subdirs read_dir root d)) \<and>
     (failed_count (workers s) = 0 \<longrightarrow>
        mset (pending (queue s)) + scanning (workers s) + log
          = {#root#} + (\<Sum>d\<in>#log. mset (subdirs read_dir root d)))"

definition scan_totals :: "file_system \<Rightarrow> path \<Rightarrow> Worker list \<Rightarrow> path multiset \<Rightarrow> bool" where
  "scan_totals read_dir root ws log \<longleftrightarrow>
     (\<Sum>w\<leftarrow>ws. mset (worker_manifest w)) = (\<Sum>d\<in>#log. mset (scan_manifest (scan_of read_dir root d))) \<and>
     (\<Sum>w\<leftarrow>ws. mset (worker_directories w)) = (\<Sum>d\<in>#log. mset (scan_directories (scan_of read_dir root d))) \<and>
     (\<Sum>w\<leftarrow>ws. unat (worker_scanned w)) = size log \<and>
     (\<Sum>w\<leftarrow>ws. unat (worker_skipped w)) = (\<Sum>d\<in>#log. unat (scan_reparse_skipped (scan_of read_dir root d)))"

definition queue_counts :: "Scanner \<Rightarrow> bool" where
  "queue_counts s \<longleftrightarrow>
     active_workers (queue s) = size (scanning (workers s)) + failed_count (workers s) \<and>
     (cancelled (queue s) \<longrightarrow> failed_count (workers s) > 0) \<and>
     (\<not> cancelled (queue s) \<and> (\<exists>w\<in>set (workers s). phase w = Finished) \<longrightarrow>
        pending (queue s) = [] \<and> active_workers (queue s) = 0) \<and>
     workers s \<noteq> [] \<and> length (workers s) \<le> MAX_WORKERS \<and> joined s \<le> length (workers s) \<and>
     (\<forall>i<joined s. ended (phase (workers s ! i)) \<and> (failure (phase (workers s ! i)) \<noteq> None \<longrightarrow> cancelled (queue s)))"

text \<open>Whoever sleeps has something to wait for: a directory is being scanned and the queue is open and empty.\<close>

definition sleepers_ok :: "Scanner \<Rightarrow> bool" where
  "sleepers_ok s \<longleftrightarrow>
     (\<forall>i. i |\<in>| ready (queue s) \<longrightarrow>
        i < length (workers s) \<and> phase (workers s ! i) = Running \<and>
        \<not> cancelled (queue s) \<and> pending (queue s) = [] \<and> active_workers (queue s) \<noteq> 0)"

text \<open>How one worker's change shows in the sums over all workers.\<close>

lemma sum_list_update_add:
  fixes f :: "'a \<Rightarrow> 'b::cancel_comm_monoid_add"
  assumes "i < length xs" "f x = f (xs ! i) + c"
  shows "(\<Sum>w\<leftarrow>xs[i := x]. f w) = (\<Sum>w\<leftarrow>xs. f w) + c"
  using assms
proof (induction xs arbitrary: i)
  case (Cons a xs)
  then show ?case by (cases i) (simp_all add: ac_simps)
qed simp

lemma scanning_split:
  assumes "i < length ws"
  shows "scanning (ws[i := w]) + (case phase (ws ! i) of Scanning d \<Rightarrow> {#d#} | _ \<Rightarrow> {#})
       = scanning ws + (case phase w of Scanning d \<Rightarrow> {#d#} | _ \<Rightarrow> {#})"
  using assms
proof (induction ws arbitrary: i)
  case (Cons a ws)
  then show ?case
  proof (cases i)
    case 0
    then show ?thesis by (simp add: scanning_def split: phase.splits)
  next
    case (Suc j)
    with Cons.IH [of j] Cons.prems show ?thesis by (simp add: scanning_def ac_simps split: phase.splits)
  qed
qed simp

lemma filter_length_update:
  "i < length ws \<Longrightarrow> length (filter P (ws[i := w])) + (if P (ws ! i) then 1 else 0)
     = length (filter P ws) + (if P w then 1 else 0)"
proof (induction ws arbitrary: i)
  case (Cons a ws)
  then show ?case by (cases i) auto
qed simp

lemma failed_count_update:
  "i < length ws \<Longrightarrow> failed_count (ws[i := w]) + (if failure (phase (ws ! i)) \<noteq> None then 1 else 0)
     = failed_count ws + (if failure (phase w) \<noteq> None then 1 else 0)"
  unfolding failed_count_def by (rule filter_length_update)

lemma ended_count_update:
  "i < length ws \<Longrightarrow> ended_count (ws[i := w]) + (if ended (phase (ws ! i)) then 1 else 0)
     = ended_count ws + (if ended (phase w) then 1 else 0)"
  unfolding ended_count_def by (rule filter_length_update)

lemma scanning_member:
  "i < length ws \<Longrightarrow> phase (ws ! i) = Scanning d \<Longrightarrow> d \<in># scanning ws"
  by (auto simp: scanning_def in_set_conv_nth intro!: bexI [of _ "ws ! i"])

lemma size_scanning_le: "size (scanning ws) + failed_count ws \<le> length ws"
  by (induction ws) (auto simp: scanning_def failed_count_def split: phase.splits)

lemma failed_count_pos: "i < length ws \<Longrightarrow> failure (phase (ws ! i)) \<noteq> None \<Longrightarrow> failed_count ws > 0"
  by (auto simp: failed_count_def filter_empty_conv intro: nth_mem)

lemma active_workers_small:
  assumes "queue_counts s"
  shows "\<not> usize_max < active_workers (queue s) + 1"
  using assms size_scanning_le [of "workers s"]
  by (auto simp: queue_counts_def MAX_WORKERS_def usize_max_def)

lemma active_workers_pos:
  assumes "queue_counts s" "i < length (workers s)" "phase (workers s ! i) = Scanning d"
  shows "active_workers (queue s) \<noteq> 0"
  using assms scanning_member [OF assms(2,3)] by (auto simp: queue_counts_def)

text \<open>The six things a worker step can do.\<close>

lemma worker_step_cases [consumes 2, case_names take wait finish scan_error overflow complete]:
  assumes step: "worker_step read_dir root i s = Some t" and inv: "queue_counts s"
  obtains
    d rest where "i < length (workers s)" "phase (workers s ! i) = Running" "\<not> cancelled (queue s)"
      "pending (queue s) = d # rest"
      "t = s\<lparr>queue := (queue s)\<lparr>pending := rest, active_workers := active_workers (queue s) + 1\<rparr>,
             workers := (workers s)[i := (workers s ! i)\<lparr>phase := Scanning d\<rparr>]\<rparr>"
  | "i < length (workers s)" "phase (workers s ! i) = Running"
      "\<not> cancelled (queue s)" "pending (queue s) = []" "active_workers (queue s) \<noteq> 0"
      "i |\<notin>| ready (queue s)" "t = s\<lparr>queue := wait i (queue s)\<rparr>"
  | "i < length (workers s)" "phase (workers s ! i) = Running"
      "cancelled (queue s) \<or> pending (queue s) = [] \<and> active_workers (queue s) = 0"
      "t = s\<lparr>queue := queue s, workers := (workers s)[i := (workers s ! i)\<lparr>phase := Finished\<rparr>]\<rparr>"
  | d e where "i < length (workers s)" "phase (workers s ! i) = Scanning d" "scan_directory read_dir root d = Inl e"
      "t = s\<lparr>queue := cancel (queue s), workers := (workers s)[i := (workers s ! i)\<lparr>phase := Failed e\<rparr>]\<rparr>"
  | d scan e where "i < length (workers s)" "phase (workers s ! i) = Scanning d"
      "scan_directory read_dir root d = Inr scan" "finish_scan scan (workers s ! i) = Inl e"
      "t = s\<lparr>queue := queue s, workers := (workers s)[i := (workers s ! i)\<lparr>phase := Failed e\<rparr>]\<rparr>"
  | d scan w' where "i < length (workers s)" "phase (workers s ! i) = Scanning d"
      "scan_directory read_dir root d = Inr scan" "finish_scan scan (workers s ! i) = Inr w'"
      "t = s\<lparr>queue := notify_all ((queue s)\<lparr>active_workers := active_workers (queue s) - 1,
                pending := (if cancelled (queue s) then pending (queue s)
                            else pending (queue s) @ discovered_directories scan)\<rparr>),
             workers := (workers s)[i := w']\<rparr>"
proof -
  have i: "i < length (workers s)" "i |\<notin>| ready (queue s)" using step by (auto simp: worker_step_def split: if_splits)
  show thesis
  proof (cases "phase (workers s ! i)")
    case Running
    then show thesis using step i active_workers_small [OF inv] that(1,2,3)
      by (auto simp: worker_step_def scan_worker_def take_directory_def split: if_splits list.splits)
  next
    case (Scanning d)
    then show thesis using step i active_workers_pos [OF inv i(1) Scanning] that(4,5,6)
      by (auto simp: worker_step_def scan_worker_def complete_directory_def split: sum.splits)
  qed (use step i in \<open>auto simp: worker_step_def scan_worker_def\<close>)
qed

lemma finish_scan_Inr:
  "finish_scan scan w = Inr w' \<longleftrightarrow>
     unat (worker_scanned w) + 1 < 2 ^ 64 \<and>
     unat (worker_skipped w) + unat (scan_reparse_skipped scan) < 2 ^ 64 \<and>
     w' = \<lparr>phase = Running, worker_manifest = worker_manifest w @ scan_manifest scan,
           worker_directories = worker_directories w @ scan_directories scan,
           worker_scanned = worker_scanned w + 1,
           worker_skipped = worker_skipped w + scan_reparse_skipped scan\<rparr>"
  by (auto simp: finish_scan_def checked_add_def ok_or_def ebind_def split: if_splits)

lemma join_step_cases:
  assumes "join_step s = Some t"
  obtains "joined s < length (workers s)" "ended (phase (workers s ! joined s))"
    "t = s\<lparr>joined := joined s + 1,
           queue := (if failure (phase (workers s ! joined s)) \<noteq> None then cancel (queue s) else queue s)\<rparr>"
  using assms by (auto simp: join_step_def split: if_splits)


lemma nth_update_joined:
  assumes "queue_counts s" "\<not> ended (phase (workers s ! i))" "j < joined s"
  shows "(workers s)[i := w] ! j = workers s ! j"
  using assms by (cases "i = j") (auto simp: queue_counts_def)

lemma queue_counts_step:
  assumes inv: "queue_counts s" and step: "scan_step read_dir root s t"
  shows "queue_counts t"
  using step
proof (cases rule: scan_stepE)
  case (worker i)
  have upd: "i < length (workers s) \<Longrightarrow> \<not> ended (phase (workers s ! i)) \<Longrightarrow>
      workers t = (workers s)[i := w] \<Longrightarrow> joined t = joined s \<Longrightarrow>
      (cancelled (queue s) \<longrightarrow> cancelled (queue t)) \<Longrightarrow>
      (cancelled (queue t) \<longrightarrow> failed_count (workers t) > 0) \<Longrightarrow>
      (\<not> cancelled (queue t) \<Longrightarrow> phase w = Finished \<or> (\<exists>v\<in>set (workers s). phase v = Finished) \<Longrightarrow>
         pending (queue t) = [] \<and> active_workers (queue t) = 0) \<Longrightarrow>
      active_workers (queue t) = size (scanning (workers t)) + failed_count (workers t) \<Longrightarrow> queue_counts t" for w
    using inv nth_update_joined [OF inv] set_update_subset_insert [of "workers s" i w]
    unfolding queue_counts_def by (simp del: not_None_eq) blast
  note facts = inv [unfolded queue_counts_def]
  from worker inv show ?thesis
  proof (cases rule: worker_step_cases)
    case (take d rest)
    note sc = scanning_split [OF take(1), of "(workers s ! i)\<lparr>phase := Scanning d\<rparr>"]
      failed_count_update [OF take(1), of "(workers s ! i)\<lparr>phase := Scanning d\<rparr>"]
    show ?thesis using take facts sc by (intro upd) auto
  next
    case wait
    then show ?thesis using inv by (simp add: queue_counts_def wait_def)
  next
    case finish
    note sc = scanning_split [OF finish(1), of "(workers s ! i)\<lparr>phase := Finished\<rparr>"]
      failed_count_update [OF finish(1), of "(workers s ! i)\<lparr>phase := Finished\<rparr>"]
    show ?thesis using finish facts sc by (intro upd) auto
  next
    case (scan_error d e)
    note sc = arg_cong [OF scanning_split [OF scan_error(1), of "(workers s ! i)\<lparr>phase := Failed e\<rparr>"], of size]
      failed_count_update [OF scan_error(1), of "(workers s ! i)\<lparr>phase := Failed e\<rparr>"]
    show ?thesis using scan_error facts sc by (intro upd) (auto simp: cancel_def notify_all_def)
  next
    case (overflow d scan e)
    note sc = arg_cong [OF scanning_split [OF overflow(1), of "(workers s ! i)\<lparr>phase := Failed e\<rparr>"], of size]
      failed_count_update [OF overflow(1), of "(workers s ! i)\<lparr>phase := Failed e\<rparr>"]
    show ?thesis using overflow facts sc by (intro upd) auto
  next
    case (complete d scan w')
    note sc = arg_cong [OF scanning_split [OF complete(1), of w'], of size] failed_count_update [OF complete(1), of w']
    show ?thesis using complete facts sc by (intro upd) (auto simp: finish_scan_Inr notify_all_def)
  qed
next
  case join
  then show ?thesis
  proof (cases rule: join_step_cases)
    case 1
    then show ?thesis using inv failed_count_pos [OF 1(1)]
      by (auto simp: queue_counts_def cancel_def notify_all_def less_Suc_eq)
  qed
qed (use inv in \<open>auto simp: queue_counts_def\<close>)

lemma sleepers_ok_update:
  assumes "sleepers_ok s" "ready q = {||} \<or> q = queue s \<and> \<not> (i |\<in>| ready q)"
  shows "sleepers_ok (s\<lparr>queue := q, workers := (workers s)[i := w]\<rparr>)"
proof -
  have "(workers s)[i := w] ! k = workers s ! k" if "k |\<in>| ready q" for k
    using that assms(2) by (cases "i = k") auto
  then show ?thesis using assms by (auto simp: sleepers_ok_def)
qed

lemma sleepers_ok_step:
  assumes inv: "queue_counts s" "sleepers_ok s" and step: "scan_step read_dir root s t"
  shows "sleepers_ok t"
  using step
proof (cases rule: scan_stepE)
  case (worker i)
  from worker inv(1) show ?thesis
  proof (cases rule: worker_step_cases)
    case (take d rest)
    then show ?thesis using inv(2) unfolding take(5) by (intro sleepers_ok_update) (auto simp: sleepers_ok_def)
  next
    case wait
    then show ?thesis using inv(2) by (auto simp: sleepers_ok_def wait_def)
  next
    case finish
    then show ?thesis using inv(2) unfolding finish(4) by (intro sleepers_ok_update) (auto simp: sleepers_ok_def)
  next
    case (overflow d scan e)
    then show ?thesis using inv(2) unfolding overflow(5) by (intro sleepers_ok_update) (auto simp: sleepers_ok_def)
  qed (simp_all add: sleepers_ok_def cancel_def notify_all_def)
next
  case join
  then show ?thesis using inv(2)
    by (auto simp: join_step_def sleepers_ok_def cancel_def notify_all_def split: if_splits)
qed (use inv(2) in \<open>auto simp: sleepers_ok_def\<close>)

lemma sleepers_few: "sleepers_ok s \<Longrightarrow> fcard (ready (queue s)) \<le> length (workers s)"
proof -
  assume "sleepers_ok s"
  then have "fset (ready (queue s)) \<subseteq> {..<length (workers s)}" by (auto simp: sleepers_ok_def)
  from card_mono [OF _ this] show ?thesis by (simp add: fcard.rep_eq)
qed

text \<open>
  A measure that every thread step raises.  Completing a directory, ending and joining a worker may wake all
  sleepers, so each weighs more than the number of workers.
\<close>

definition potential :: "Scanner \<Rightarrow> path multiset \<Rightarrow> nat" where
  "potential s log =
     (length (workers s) + 2) * (size log + ended_count (workers s)) + size (scanning (workers s)) +
     (length (workers s) + 1) * joined s + fcard (ready (queue s))"

definition accounted :: "file_system \<Rightarrow> path \<Rightarrow> nat \<Rightarrow> Scanner \<Rightarrow> bool" where
  "accounted read_dir root k s \<longleftrightarrow> queue_counts s \<and> sleepers_ok s \<and>
     (\<exists>log. scan_log read_dir root s log \<and> scan_totals read_dir root (workers s) log \<and> k \<le> potential s log)"

lemma scan_totals_phase:
  "i < length ws \<Longrightarrow> scan_totals read_dir root (ws[i := (ws ! i)\<lparr>phase := p\<rparr>]) log = scan_totals read_dir root ws log"
  by (simp add: scan_totals_def sum_list_update_add [where c = 0] sum_list_update_add [where c = "{#}"])

lemma scan_totals_complete:
  assumes "scan_totals read_dir root ws log" "i < length ws" "scan_directory read_dir root d = Inr scan"
    "finish_scan scan (ws ! i) = Inr w'"
  shows "scan_totals read_dir root (ws[i := w']) (add_mset d log)"
proof -
  have w': "w' = \<lparr>phase = Running, worker_manifest = worker_manifest (ws ! i) @ scan_manifest scan,
      worker_directories = worker_directories (ws ! i) @ scan_directories scan,
      worker_scanned = worker_scanned (ws ! i) + 1,
      worker_skipped = worker_skipped (ws ! i) + scan_reparse_skipped scan\<rparr>"
    and u: "unat (worker_scanned (ws ! i) + 1) = unat (worker_scanned (ws ! i)) + 1"
      "unat (worker_skipped (ws ! i) + scan_reparse_skipped scan)
         = unat (worker_skipped (ws ! i)) + unat (scan_reparse_skipped scan)"
    using assms(4) by (auto simp: finish_scan_Inr unat_word_ariths)
  have "scan_of read_dir root d = scan" using assms(3) by (simp add: scan_of_def)
  then show ?thesis using assms(1,2) unfolding w' scan_totals_def
    by (simp add: sum_list_update_add [where c = "mset (scan_manifest scan)"]
        sum_list_update_add [where c = "mset (scan_directories scan)"] u
        sum_list_update_add [where c = 1] sum_list_update_add [where c = "unat (scan_reparse_skipped scan)"])
qed


lemma scan_log_take:
  assumes "scan_log read_dir root s log" "i < length (workers s)" "phase (workers s ! i) = Running"
    "pending (queue s) = d # rest"
    "t = s\<lparr>queue := (queue s)\<lparr>pending := rest, active_workers := n\<rparr>,
           workers := (workers s)[i := (workers s ! i)\<lparr>phase := Scanning d\<rparr>]\<rparr>"
  shows "scan_log read_dir root t log"
  using assms scanning_split [OF assms(2), of "(workers s ! i)\<lparr>phase := Scanning d\<rparr>"]
    failed_count_update [OF assms(2), of "(workers s ! i)\<lparr>phase := Scanning d\<rparr>"]
  by (simp add: scan_log_def)

lemma failure_not_ended: "\<not> ended p \<Longrightarrow> failure p = None"
  by (cases p) auto

lemma scan_log_phase:
  assumes "scan_log read_dir root s log" "i < length (workers s)" "\<not> ended (phase (workers s ! i))"
    "pending q = pending (queue s)"
    "p = Finished \<and> phase (workers s ! i) = Running \<or> (\<exists>e. p = Failed e)"
  shows "scan_log read_dir root (s\<lparr>queue := q, workers := (workers s)[i := (workers s ! i)\<lparr>phase := p\<rparr>]\<rparr>) log"
proof -
  note split = scanning_split [OF assms(2), of "(workers s ! i)\<lparr>phase := p\<rparr>"]
  have sub: "scanning ((workers s)[i := (workers s ! i)\<lparr>phase := p\<rparr>]) \<subseteq># scanning (workers s)"
    using split assms(5) by (auto split: phase.splits intro: mset_subset_eq_add_left dest: sym)
  show ?thesis using assms split sub set_mset_mono [OF sub] failed_count_update [OF assms(2), of "(workers s ! i)\<lparr>phase := p\<rparr>"]
    by (auto simp: scan_log_def failure_not_ended intro: subset_mset.order_trans [OF subset_mset.add_mono])
qed

lemma scan_log_complete:
  assumes "scan_log read_dir root s log" "i < length (workers s)" "phase (workers s ! i) = Scanning d"
    "scan_directory read_dir root d = Inr scan" "phase w' = Running" "cancelled (queue s) \<longrightarrow> failed_count (workers s) > 0"
    "t = s\<lparr>queue := notify_all ((queue s)\<lparr>active_workers := n,
              pending := (if cancelled (queue s) then pending (queue s)
                          else pending (queue s) @ discovered_directories scan)\<rparr>),
           workers := (workers s)[i := w']\<rparr>"
  shows "scan_log read_dir root t (add_mset d log)"
proof -
  have sd: "subdirs read_dir root d = discovered_directories scan" using assms(4) by (simp add: scan_of_def)
  have sc: "scanning (workers s) = add_mset d (scanning (workers t))"
    using scanning_split [OF assms(2), of w'] assms(3,5,7) by simp
  have fc: "failed_count (workers t) = failed_count (workers s)"
    using failed_count_update [OF assms(2), of w'] assms(3,5,7) by simp
  have pend: "mset (pending (queue t)) \<subseteq># mset (pending (queue s)) + mset (discovered_directories scan)"
    "\<not> cancelled (queue s) \<Longrightarrow>
       mset (pending (queue t)) = mset (pending (queue s)) + mset (discovered_directories scan)"
    using assms(7) by (auto simp: notify_all_def)
  have d: "d \<in> tree_dirs read_dir root" using assms(1) sc by (auto simp: scan_log_def)
  have tree: "set (pending (queue t)) \<union> set_mset (scanning (workers t)) \<union> set_mset (add_mset d log) \<subseteq> tree_dirs read_dir root"
    using assms(1,7) sc d tree_dirs.sub [OF d, unfolded sd] by (auto simp: scan_log_def notify_all_def)
  let ?sub = "(\<Sum>d\<in>#log. mset (subdirs read_dir root d))"
  have "mset (pending (queue s)) + add_mset d (scanning (workers t)) + log \<subseteq># {#root#} + ?sub"
    using assms(1) sc by (simp add: scan_log_def)
  then have "mset (pending (queue s)) + add_mset d (scanning (workers t)) + log + mset (discovered_directories scan)
      \<subseteq># {#root#} + ?sub + mset (discovered_directories scan)" by (rule subset_mset.add_right_mono)
  moreover have "mset (pending (queue t)) + scanning (workers t) + add_mset d log
      \<subseteq># mset (pending (queue s)) + add_mset d (scanning (workers t)) + log + mset (discovered_directories scan)"
    using subset_mset.add_right_mono [OF pend(1), of "scanning (workers t) + add_mset d log"]
    by (simp add: ac_simps)
  ultimately have "mset (pending (queue t)) + scanning (workers t) + add_mset d log
      \<subseteq># {#root#} + ?sub + mset (discovered_directories scan)" by (rule subset_mset.order_trans [rotated])
  moreover have "failed_count (workers t) = 0 \<Longrightarrow> mset (pending (queue t)) + scanning (workers t) + add_mset d log
      = {#root#} + ?sub + mset (discovered_directories scan)"
    using assms(1,6) fc sc pend(2) by (simp add: scan_log_def ac_simps)
  ultimately show ?thesis using assms(1,4) sd tree unfolding scan_log_def by (auto simp: ac_simps)
qed


lemma accounted_step:
  assumes acc: "accounted read_dir root k s" and step: "thread_step read_dir root s t"
  shows "accounted read_dir root (Suc k) t"
proof -
  from acc have inv: "queue_counts s" "sleepers_ok s" by (simp_all add: accounted_def)
  note few = sleepers_few [OF inv(2)]
  obtain log where log: "scan_log read_dir root s log" "scan_totals read_dir root (workers s) log" "k \<le> potential s log"
    using acc by (auto simp: accounted_def)
  have "\<exists>log'. scan_log read_dir root t log' \<and> scan_totals read_dir root (workers t) log' \<and> Suc k \<le> potential t log'"
    using step
  proof cases
    case (worker i)
    from worker inv(1) show ?thesis
    proof (cases rule: worker_step_cases)
      case (take d rest)
      let ?w = "(workers s ! i)\<lparr>phase := Scanning d\<rparr>"
      have "Suc k \<le> potential t log" using log(3) take scanning_split [OF take(1), of ?w] ended_count_update [OF take(1), of ?w]
        by (simp add: potential_def cancel_def notify_all_def add_mult_distrib2)
      then show ?thesis using scan_log_take [OF log(1) take(1,2,4,5)] log(2) scan_totals_phase [OF take(1)] take(5) by auto
    next
      case wait
      then show ?thesis using log by (intro exI [of _ log]) (simp add: scan_log_def potential_def wait_def fcard_finsert_disjoint)
    next
      case finish
      let ?w = "(workers s ! i)\<lparr>phase := Finished\<rparr>"
      have "Suc k \<le> potential t log" using log(3) finish scanning_split [OF finish(1), of ?w] ended_count_update [OF finish(1), of ?w]
        by (simp add: potential_def cancel_def notify_all_def add_mult_distrib2)
      then show ?thesis using scan_log_phase [OF log(1) finish(1), of "queue s" Finished] log(2)
          scan_totals_phase [OF finish(1)] finish by auto
    next
      case (scan_error d e)
      let ?w = "(workers s ! i)\<lparr>phase := Failed e\<rparr>"
      have "Suc k \<le> potential t log"
        using log(3) few scan_error arg_cong [OF scanning_split [OF scan_error(1), of ?w], of size] ended_count_update [OF scan_error(1), of ?w]
        by (simp add: potential_def cancel_def notify_all_def add_mult_distrib2)
      then show ?thesis using scan_log_phase [OF log(1) scan_error(1), of "cancel (queue s)" "Failed e"] log(2)
          scan_totals_phase [OF scan_error(1)] scan_error by (auto simp: cancel_def notify_all_def)
    next
      case (overflow d scan e)
      let ?w = "(workers s ! i)\<lparr>phase := Failed e\<rparr>"
      have "Suc k \<le> potential t log"
        using log(3) overflow arg_cong [OF scanning_split [OF overflow(1), of ?w], of size] ended_count_update [OF overflow(1), of ?w]
        by (simp add: potential_def cancel_def notify_all_def add_mult_distrib2)
      then show ?thesis using scan_log_phase [OF log(1) overflow(1), of "queue s" "Failed e"] log(2)
          scan_totals_phase [OF overflow(1)] overflow by auto
    next
      case (complete d scan w')
      have w': "phase w' = Running" using complete(4) by (simp add: finish_scan_Inr)
      have "Suc k \<le> potential t (add_mset d log)"
        using log(3) few complete w' arg_cong [OF scanning_split [OF complete(1), of w'], of size] ended_count_update [OF complete(1), of w']
        by (simp add: potential_def cancel_def notify_all_def add_mult_distrib2)
      moreover have "scan_log read_dir root t (add_mset d log)"
        using scan_log_complete [OF log(1) complete(1,2,3) w' _ complete(5)] inv(1) by (simp add: queue_counts_def)
      moreover have "scan_totals read_dir root (workers t) (add_mset d log)"
        using scan_totals_complete [OF log(2) complete(1,3,4)] complete(5) by simp
      ultimately show ?thesis by blast
    qed
  next
    case join
    then show ?thesis
    proof (cases rule: join_step_cases)
      case 1
      then show ?thesis using log few by (intro exI [of _ log]) (auto simp: scan_log_def potential_def cancel_def notify_all_def)
    qed
  qed
  then show ?thesis using queue_counts_step [OF inv(1)] sleepers_ok_step [OF inv] scan_step.thread [OF step]
    by (simp add: accounted_def)
qed

lemma accounted_spurious:
  assumes "accounted read_dir root k s" "spurious_wakeup s t"
  shows "accounted read_dir root (k - 1) t"
proof -
  note step = scan_step.spurious [OF assms(2), of read_dir root]
  have inv: "queue_counts t" "sleepers_ok t"
    using assms(1) queue_counts_step [OF _ step] sleepers_ok_step [OF _ _ step] by (simp_all add: accounted_def)
  from assms(2) show ?thesis
  proof cases
    case (1 i)
    then have "k - 1 \<le> potential t log" if "k \<le> potential s log" for log
      using that by (auto simp: potential_def fcard_fminus_finsert)
    then show ?thesis using assms(1) inv 1 by (auto simp: accounted_def scan_log_def)
  qed
qed

lemma accounted_mono: "accounted read_dir root k s \<Longrightarrow> j \<le> k \<Longrightarrow> accounted read_dir root j s"
  by (auto simp: accounted_def intro: order_trans)

lemma sum_list_empty_msets: "sum_list (replicate n {#}) = {#}"
  by (induction n) auto

lemma scanning_replicate [simp]: "scanning (replicate n new_worker) = {#}"
  by (induction n) (auto simp: scanning_def new_worker_def)

lemma failed_count_replicate [simp]: "failed_count (replicate n new_worker) = 0"
  by (auto simp: failed_count_def new_worker_def filter_empty_conv)

lemma new_worker_phase [simp]: "phase new_worker = Running"
  by (simp add: new_worker_def)

lemma accounted_initial:
  assumes "validate_worker_count n = Inr ()"
  shows "accounted read_dir root 0 (initial_scanner root n)"
proof -
  have "queue_counts (initial_scanner root n)"
    using assms by (auto simp: queue_counts_def initial_scanner_def DirectoryQueue_new_def validate_worker_count_def split: if_splits)
  moreover have "sleepers_ok (initial_scanner root n)"
    by (simp add: sleepers_ok_def initial_scanner_def DirectoryQueue_new_def)
  moreover have "scan_log read_dir root (initial_scanner root n) {#}"
    by (simp add: scan_log_def initial_scanner_def DirectoryQueue_new_def tree_dirs.root)
  moreover have "scan_totals read_dir root (workers (initial_scanner root n)) {#}"
    by (simp add: scan_totals_def initial_scanner_def new_worker_def sum_list_replicate sum_list_empty_msets)
  ultimately show ?thesis by (auto simp: accounted_def)
qed

lemma accounted_scan_step:
  assumes "accounted read_dir root 0 s" "scan_step read_dir root s t"
  shows "accounted read_dir root 0 t"
  using assms(2)
proof cases
  case thread
  from accounted_mono [OF accounted_step [OF assms(1) this]] show ?thesis by simp
next
  case spurious
  from accounted_spurious [OF assms(1) this] show ?thesis by simp
qed

interpretation scan_system: invariant_system "scan_step read_dir root"
  "\<lambda>s. \<exists>n. validate_worker_count n = Inr () \<and> s = initial_scanner root n" "accounted read_dir root 0"
  for read_dir root
  by unfold_locales (auto intro: accounted_initial accounted_scan_step)

lemma accounted_run:
  "scan_run read_dir root k j s t \<Longrightarrow> accounted read_dir root 0 s \<Longrightarrow> accounted read_dir root (k - j) t"
proof (induction rule: scan_run.induct)
  case (thread k j s t u)
  then show ?case using accounted_mono [OF accounted_step [of read_dir root "k - j" t u], of "Suc k - j"] by simp
next
  case (spurious k j s t u)
  then show ?case using accounted_spurious [of read_dir root "k - j" t u] by simp
qed simp

section \<open>Completeness and termination of a scan\<close>

lemma accounted_seen:
  assumes ok: "listing_ok read_dir" and log: "scan_log read_dir root s log"
  shows "\<exists>T \<subseteq> tree_dirs read_dir root. finite T \<and> mset (pending (queue s)) + scanning (workers s) + log = mset_set T"
proof -
  let ?seen = "mset (pending (queue s)) + scanning (workers s) + log"
  have in_tree: "set_mset ?seen \<subseteq> tree_dirs read_dir root" using log by (auto simp: scan_log_def)
  have "count ?seen p \<le> 1" for p
  proof (cases "p \<in> tree_dirs read_dir root")
    case True
    then show ?thesis using log in_tree seen_at_most_once [OF ok, of ?seen root log p]
      by (simp add: scan_log_def)
  next
    case False
    then have "p \<notin># ?seen" using in_tree by blast
    then show ?thesis by (simp only: not_in_iff)
  qed
  then have "?seen = mset_set (set_mset ?seen)"
    by (intro multiset_eqI) (metis count_eq_zero_iff count_mset_set(1,3) finite_set_mset le_antisym linorder_not_le less_one)
  then show ?thesis using in_tree by blast
qed

lemma sum_mset_le:
  fixes f :: "'a \<Rightarrow> nat"
  assumes "A \<subseteq># B"
  shows "(\<Sum>x\<in>#A. f x) \<le> (\<Sum>x\<in>#B. f x)"
  using assms by (metis image_mset_union le_add1 subset_mset.le_iff_add sum_mset.union)

lemma sum_mset_tree_le:
  fixes f :: "path \<Rightarrow> nat"
  assumes "listing_ok read_dir" "scan_log read_dir root s log" "finite (tree_dirs read_dir root)"
    "A \<subseteq># mset (pending (queue s)) + scanning (workers s) + log"
  shows "(\<Sum>x\<in>#A. f x) \<le> (\<Sum>x\<in>tree_dirs read_dir root. f x)"
proof -
  obtain T where T: "T \<subseteq> tree_dirs read_dir root" "finite T"
    "mset (pending (queue s)) + scanning (workers s) + log = mset_set T"
    using accounted_seen [OF assms(1,2)] by blast
  have "(\<Sum>x\<in>#A. f x) \<le> (\<Sum>x\<in>#mset_set T. f x)" using sum_mset_le [of A] assms(4) T(3) by simp
  also have "\<dots> = (\<Sum>x\<in>T. f x)" by (simp add: sum_unfold_sum_mset)
  also have "\<dots> \<le> (\<Sum>x\<in>tree_dirs read_dir root. f x)" using T(1) assms(3) by (intro sum_mono2) auto
  finally show ?thesis .
qed

lemma scan_steps_bounded:
  assumes "listing_ok read_dir" "finite (tree_dirs read_dir root)" "validate_worker_count n = Inr ()"
    "scan_run read_dir root k j (initial_scanner root n) s"
  shows "k \<le> (length (workers s) + 2) * (card (tree_dirs read_dir root) + 2 * length (workers s)) + j"
proof -
  let ?n = "length (workers s)"
  obtain log where log: "scan_log read_dir root s log" "k - j \<le> potential s log"
    and qc: "queue_counts s" "sleepers_ok s"
    using accounted_run [OF assms(4) accounted_initial [OF assms(3)]] by (auto simp: accounted_def)
  have "(\<Sum>x\<in>#scanning (workers s) + log. 1) \<le> (\<Sum>x\<in>tree_dirs read_dir root. (1::nat))"
    by (rule sum_mset_tree_le [OF assms(1) log(1) assms(2)]) (simp add: add.assoc)
  then have "size (scanning (workers s)) + size log \<le> card (tree_dirs read_dir root)" by simp
  moreover have "ended_count (workers s) \<le> length (workers s)" by (simp add: ended_count_def)
  ultimately have "size log + ended_count (workers s) + size (scanning (workers s)) \<le> card (tree_dirs read_dir root) + ?n"
    by simp
  then have "(?n + 2) * (size log + ended_count (workers s) + size (scanning (workers s))) \<le> (?n + 2) * (card (tree_dirs read_dir root) + ?n)"
    by (rule mult_le_mono2)
  moreover have "(?n + 1) * joined s \<le> (?n + 1) * ?n" using qc(1) by (intro mult_le_mono2) (simp add: queue_counts_def)
  ultimately show ?thesis using log(2) sleepers_few [OF qc(2)] by (simp add: potential_def algebra_simps)
qed

text \<open>On a tree whose counts fit in 64 bits, a worker fails only by a scan error, which cancels the queue.\<close>

definition small_tree :: "file_system \<Rightarrow> path \<Rightarrow> bool" where
  "small_tree read_dir root \<longleftrightarrow>
     finite (tree_dirs read_dir root) \<and> card (tree_dirs read_dir root) < 2 ^ 64 \<and>
     (\<Sum>d\<in>tree_dirs read_dir root. unat (scan_reparse_skipped (scan_of read_dir root d))) < 2 ^ 64"

lemma elem_le_sum_list_map: "i < length xs \<Longrightarrow> (f (xs ! i) :: nat) \<le> (\<Sum>x\<leftarrow>xs. f x)"
  by (metis elem_le_sum_list length_map nth_map)

lemma no_counter_overflow:
  assumes ok: "listing_ok read_dir" "small_tree read_dir root" and acc: "accounted read_dir root 0 s"
    and w: "i < length (workers s)" "phase (workers s ! i) = Scanning d" "scan_directory read_dir root d = Inr scan"
  shows "finish_scan scan (workers s ! i) \<noteq> Inl e"
proof -
  obtain log where log: "scan_log read_dir root s log" "scan_totals read_dir root (workers s) log"
    using acc by (auto simp: accounted_def)
  have "{#d#} \<subseteq># scanning (workers s)" using scanning_member [OF w(1,2)] by simp
  then have A: "add_mset d log \<subseteq># mset (pending (queue s)) + scanning (workers s) + log"
    using subset_mset.add_mono [of "{#d#}" "mset (pending (queue s)) + scanning (workers s)" log log]
    by (simp add: subset_mset.add_increasing2 subset_mset.order_trans)
  have fin: "finite (tree_dirs read_dir root)" using ok(2) by (simp add: small_tree_def)
  have so: "scan_of read_dir root d = scan" using w(3) by (simp add: scan_of_def)
  have "size log + 1 \<le> card (tree_dirs read_dir root)"
    using sum_mset_tree_le [OF ok(1) log(1) fin A, of "\<lambda>_. 1"] by simp
  moreover have "(\<Sum>x\<in>#log. unat (scan_reparse_skipped (scan_of read_dir root x))) + unat (scan_reparse_skipped scan)
      \<le> (\<Sum>x\<in>tree_dirs read_dir root. unat (scan_reparse_skipped (scan_of read_dir root x)))"
    using sum_mset_tree_le [OF ok(1) log(1) fin A, of "\<lambda>x. unat (scan_reparse_skipped (scan_of read_dir root x))"] so
    by simp
  moreover have "unat (worker_scanned (workers s ! i)) \<le> size log"
    "unat (worker_skipped (workers s ! i)) \<le> (\<Sum>x\<in>#log. unat (scan_reparse_skipped (scan_of read_dir root x)))"
    using elem_le_sum_list_map [OF w(1), of "\<lambda>w. unat (worker_scanned w)"]
      elem_le_sum_list_map [OF w(1), of "\<lambda>w. unat (worker_skipped w)"] log(2)
    by (simp_all add: scan_totals_def)
  ultimately have "\<exists>w'. finish_scan scan (workers s ! i) = Inr w'"
    using ok(2) by (auto simp: finish_scan_Inr small_tree_def)
  then show ?thesis by auto
qed


definition safe_scan :: "file_system \<Rightarrow> path \<Rightarrow> Scanner \<Rightarrow> bool" where
  "safe_scan read_dir root s \<longleftrightarrow> accounted read_dir root 0 s \<and> (failed_count (workers s) > 0 \<longrightarrow> cancelled (queue s))"

lemma safe_scan_step:
  assumes ok: "listing_ok read_dir" "small_tree read_dir root"
    and safe: "safe_scan read_dir root s" and step: "scan_step read_dir root s t"
  shows "safe_scan read_dir root t"
proof -
  have acc: "accounted read_dir root 0 s" and qc: "queue_counts s" using safe by (auto simp: safe_scan_def accounted_def)
  have "failed_count (workers t) > 0 \<longrightarrow> cancelled (queue t)" using step
  proof (cases rule: scan_stepE)
    case (worker i)
    from worker qc show ?thesis
    proof (cases rule: worker_step_cases)
      case (take d rest)
      then show ?thesis using safe failed_count_update [OF take(1), of "(workers s ! i)\<lparr>phase := Scanning d\<rparr>"]
        by (simp add: safe_scan_def)
    next
      case wait
      then show ?thesis using safe by (simp add: safe_scan_def wait_def)
    next
      case finish
      then show ?thesis using safe failed_count_update [OF finish(1), of "(workers s ! i)\<lparr>phase := Finished\<rparr>"]
        by (simp add: safe_scan_def)
    next
      case (overflow d scan e)
      then show ?thesis using no_counter_overflow [OF ok acc] by blast
    next
      case (complete d scan w')
      then show ?thesis using safe failed_count_update [OF complete(1), of w'] by (simp add: safe_scan_def finish_scan_Inr notify_all_def)
    qed (simp add: cancel_def notify_all_def)
  next
    case join
    then show ?thesis using safe by (auto simp: join_step_def safe_scan_def cancel_def notify_all_def split: if_splits)
  qed (use safe in \<open>simp add: safe_scan_def\<close>)
  then show ?thesis using scan_system.inv_step [OF acc step] by (simp add: safe_scan_def)
qed

lemma safe_scan_steps:
  assumes "listing_ok read_dir" "small_tree read_dir root"
  shows "(scan_step read_dir root)\<^sup>*\<^sup>* s t \<Longrightarrow> safe_scan read_dir root s \<Longrightarrow> safe_scan read_dir root t"
  by (induction rule: rtranclp_induct) (auto intro: safe_scan_step [OF assms])

lemma safe_scan_initial: "validate_worker_count n = Inr () \<Longrightarrow> safe_scan read_dir root (initial_scanner root n)"
  using accounted_initial [of n read_dir root] by (simp add: safe_scan_def initial_scanner_def)

lemma in_scanning: "d \<in># scanning ws \<Longrightarrow> \<exists>i<length ws. phase (ws ! i) = Scanning d"
  by (auto simp: scanning_def in_set_conv_nth split: phase.splits)

lemma scanning_can_step:
  assumes "sleepers_ok s" "i < length (workers s)" "phase (workers s ! i) = Scanning d"
  shows "\<exists>t. thread_step read_dir root s t"
proof -
  have "worker_step read_dir root i s \<noteq> None"
    using assms by (auto simp: worker_step_def scan_worker_def sleepers_ok_def split: sum.splits)
  then show ?thesis by (auto intro: thread_step.worker)
qed

text \<open>
  When nobody scans, nobody sleeps: the completion or the error of the last scan has woken everybody.
\<close>

lemma nobody_sleeps:
  assumes "safe_scan read_dir root s" "scanning (workers s) = {#}"
  shows "ready (queue s) = {||}"
  using assms by (auto simp: safe_scan_def accounted_def sleepers_ok_def queue_counts_def)

lemma safe_scan_progress:
  assumes safe: "safe_scan read_dir root s" and "joined s \<noteq> length (workers s)"
  shows "\<exists>t. thread_step read_dir root s t"
proof (cases "scanning (workers s) = {#}")
  case False
  have "sleepers_ok s" using safe by (simp add: safe_scan_def accounted_def)
  then show ?thesis using False in_scanning scanning_can_step by (metis multiset_nonemptyE)
next
  case True
  have j: "joined s < length (workers s)" using assms by (simp add: safe_scan_def accounted_def queue_counts_def)
  show ?thesis
  proof (cases "phase (workers s ! joined s)")
    case Running
    then have "worker_step read_dir root (joined s) s \<noteq> None"
      using j nobody_sleeps [OF safe True] by (auto simp: worker_step_def scan_worker_def split: take_outcome.splits)
    then show ?thesis by (auto intro: thread_step.worker)
  next
    case (Scanning d)
    then show ?thesis using scanning_member [OF j] True by simp
  qed (use j in \<open>auto intro!: thread_step.join simp: join_step_def\<close>)
qed

section \<open>The merged result is the tree\<close>








lemma scan_step_length: "scan_step read_dir root s t \<Longrightarrow> length (workers t) = length (workers s)"
  by (auto elim!: scan_stepE simp: worker_step_def join_step_def split: if_splits option.splits)

lemma scan_steps_length: "(scan_step read_dir root)\<^sup>*\<^sup>* s t \<Longrightarrow> length (workers t) = length (workers s)"
  by (induction rule: rtranclp_induct) (auto dest: scan_step_length)


section \<open>A concrete tree\<close>

text \<open>A root \<^verbatim>\<open>r\<close> with a subdirectory \<^verbatim>\<open>a\<close> and a file \<^verbatim>\<open>f\<close>, scanned by two workers.\<close>

definition sample_fs :: file_system where
  "sample_fs d =
     (if d = [0x72] then
        Inr [Inr \<lparr>item_name = [0x61], item_attributes = 0x10, item_is_file = False, item_len = 0, item_last_write = 0\<rparr>,
             Inr \<lparr>item_name = [0x66], item_attributes = 0x20, item_is_file = True, item_len = 5, item_last_write = 7\<rparr>]
      else Inr [])"

definition sample_entry :: ManifestEntry where
  "sample_entry = \<lparr>relative_path = [0x66], file_size = 5, last_write_time = 7, file_attributes = 0x20, file_class = Tiny\<rparr>"

definition sample_worker :: "phase \<Rightarrow> ManifestEntry list \<Rightarrow> DirectoryEntry list \<Rightarrow> nat \<Rightarrow> Worker" where
  "sample_worker p files dirs k =
     \<lparr>phase = p, worker_manifest = files, worker_directories = dirs, worker_scanned = of_nat k, worker_skipped = 0\<rparr>"

definition sample_end :: Scanner where
  "sample_end = \<lparr>queue = \<lparr>pending = [], active_workers = 0, cancelled = False, ready = {||}\<rparr>,
                 workers = [sample_worker Finished [sample_entry] [\<lparr>dir_relative_path = [0x61]\<rparr>] 1,
                            sample_worker Finished [] [] 1], joined = 2\<rparr>"

lemmas path_defs = validate_relative_path_def is_absolute_def invalid_unit_def backslash_def full_stop_def
  path_components_def is_separator_def slash_def name_component_def

lemma sample_scan_root:
  "scan_directory sample_fs [0x72] [0x72] =
     Inr \<lparr>scan_manifest = [sample_entry], scan_directories = [\<lparr>dir_relative_path = [0x61]\<rparr>],
          discovered_directories = [[0x72, 0x5C, 0x61]], scan_reparse_skipped = 0\<rparr>"
  by (simp add: scan_directory_def sample_fs_def scan_entry_def has_attribute_def FILE_ATTRIBUTE_REPARSE_POINT_def
      FILE_ATTRIBUTE_DIRECTORY_def empty_scan_def relative_path_from_root_def strip_root_def join_path_def
      path_defs sample_entry_def classify_file_def TINY_FILE_MAX_BYTES_def word_le_nat_alt word_less_nat_alt)

lemma sample_scan_sub: "d \<noteq> [0x72] \<Longrightarrow> scan_directory sample_fs [0x72] d = Inr empty_scan"
  by (simp add: scan_directory_def sample_fs_def)

lemma sample_listing: "listing_ok sample_fs"
  by (auto simp: listing_ok_def sample_fs_def is_separator_def backslash_def slash_def)

lemma sample_scan_of:
  "subdirs sample_fs [0x72] d = (if d = [0x72] then [[0x72, 0x5C, 0x61]] else [])"
  "scan_reparse_skipped (scan_of sample_fs [0x72] d) = 0"
  by (cases "d = [0x72]"; simp add: scan_of_def sample_scan_root sample_scan_sub empty_scan_def)+

lemma sample_tree: "tree_dirs sample_fs [0x72] = {[0x72], [0x72, 0x5C, 0x61]}"
proof -
  have "d \<in> {[0x72], [0x72, 0x5C, 0x61]}" if "d \<in> tree_dirs sample_fs [0x72]" for d
    using that by induction (auto simp: sample_scan_of split: if_splits)
  moreover have "[0x72, 0x5C, 0x61] \<in> tree_dirs sample_fs [0x72]"
    by (rule tree_dirs.sub [OF tree_dirs.root]) (simp add: sample_scan_of)
  ultimately show ?thesis using tree_dirs.root by blast
qed

lemma sample_small: "small_tree sample_fs [0x72]"
  by (simp add: small_tree_def sample_tree sample_scan_of)

text \<open>
  The second worker finds nothing to do and sleeps, wakes up for no reason, sleeps again, is woken by the first
  worker's completion of the root, and takes the subdirectory, for whose completion the first worker then sleeps.
\<close>

lemma sample_run: "scan_run sample_fs [0x72] 11 1 (initial_scanner [0x72] 2) sample_end"
proof -
  let ?q = "\<lambda>p n r. \<lparr>pending = p, active_workers = n, cancelled = False, ready = r\<rparr>"
  let ?v = "\<lambda>ph. sample_worker ph [] [] 0" and ?u = "\<lambda>ph. sample_worker ph [] [] 1"
  let ?w = "\<lambda>ph. sample_worker ph [sample_entry] [\<lparr>dir_relative_path = [0x61]\<rparr>] 1"
  let ?s = "\<lambda>p n r v w. \<lparr>queue = ?q p n r, workers = [v, w], joined = 0\<rparr>"
  let ?r = "[0x72] :: path" and ?a = "[0x72, 0x5C, 0x61] :: path"
  note defs = worker_step_def scan_worker_def take_directory_def wait_def notify_all_def usize_max_def finish_scan_def
    complete_directory_def sample_worker_def checked_add_def empty_scan_def
  have 0: "initial_scanner ?r 2 = ?s [?r] 0 {||} (?v Running) (?v Running)"
    by (simp add: initial_scanner_def DirectoryQueue_new_def new_worker_def sample_worker_def numeral_2_eq_2)
  have 1: "thread_step sample_fs ?r (?s [?r] 0 {||} (?v Running) (?v Running)) (?s [] 1 {||} (?v (Scanning ?r)) (?v Running))"
    by (rule thread_step.worker [of _ _ 0]) (simp add: defs)
  have 2: "thread_step sample_fs ?r (?s [] 1 {||} (?v (Scanning ?r)) (?v Running)) (?s [] 1 {|1|} (?v (Scanning ?r)) (?v Running))"
    by (rule thread_step.worker [of _ _ 1]) (simp add: defs)
  have 3: "spurious_wakeup (?s [] 1 {|1|} (?v (Scanning ?r)) (?v Running)) (?s [] 1 {||} (?v (Scanning ?r)) (?v Running))"
    using spurious_wakeup.intros [of 1 "?s [] 1 {|1|} (?v (Scanning ?r)) (?v Running)"] by simp
  have 4: "thread_step sample_fs ?r (?s [] 1 {|1|} (?v (Scanning ?r)) (?v Running)) (?s [?a] 0 {||} (?w Running) (?v Running))"
    by (rule thread_step.worker [of _ _ 0]) (simp add: defs sample_scan_root)
  have 5: "thread_step sample_fs ?r (?s [?a] 0 {||} (?w Running) (?v Running)) (?s [] 1 {||} (?w Running) (?v (Scanning ?a)))"
    by (rule thread_step.worker [of _ _ 1]) (simp add: defs)
  have 6: "thread_step sample_fs ?r (?s [] 1 {||} (?w Running) (?v (Scanning ?a))) (?s [] 1 {|0|} (?w Running) (?v (Scanning ?a)))"
    by (rule thread_step.worker [of _ _ 0]) (simp add: defs)
  have 7: "thread_step sample_fs ?r (?s [] 1 {|0|} (?w Running) (?v (Scanning ?a))) (?s [] 0 {||} (?w Running) (?u Running))"
    by (rule thread_step.worker [of _ _ 1]) (simp add: defs sample_scan_sub)
  have 8: "thread_step sample_fs ?r (?s [] 0 {||} (?w Running) (?u Running)) (?s [] 0 {||} (?w Finished) (?u Running))"
    by (rule thread_step.worker [of _ _ 0]) (simp add: defs)
  have 9: "thread_step sample_fs ?r (?s [] 0 {||} (?w Finished) (?u Running)) (?s [] 0 {||} (?w Finished) (?u Finished))"
    by (rule thread_step.worker [of _ _ 1]) (simp add: defs)
  have 10: "thread_step sample_fs ?r (s\<lparr>joined := j\<rparr>) (s\<lparr>joined := Suc j\<rparr>)"
    if "s = ?s [] 0 {||} (?w Finished) (?u Finished)" "j < 2" for s j
    using that by (intro thread_step.join) (auto simp: join_step_def sample_worker_def less_2_cases_iff)
  have j: "thread_step sample_fs ?r (?s [] 0 {||} (?w Finished) (?u Finished)) ((?s [] 0 {||} (?w Finished) (?u Finished))\<lparr>joined := Suc 0\<rparr>)"
    "thread_step sample_fs ?r ((?s [] 0 {||} (?w Finished) (?u Finished))\<lparr>joined := Suc 0\<rparr>) sample_end"
    using 10 [of _ 0] 10 [of _ 1] by (simp_all add: sample_end_def numeral_2_eq_2)
  have eleven: "(11::nat) = Suc (Suc (Suc (Suc (Suc (Suc (Suc (Suc (Suc (Suc (Suc 0))))))))))" "(1::nat) = Suc 0" by simp_all
  note t = scan_run.thread [rotated, where read_dir = sample_fs and root = ?r]
  note u = scan_run.spurious [rotated, where read_dir = sample_fs and root = ?r]
  show ?thesis unfolding 0 unfolding eleven(1)
    by (subst (1) eleven(2)) (rule t [OF j(2)] t [OF j(1)] t [OF 9] t [OF 8] t [OF 7] t [OF 6] t [OF 5] t [OF 4] t [OF 2]
        u [OF 3] t [OF 1] scan_run.start)+
qed


section \<open>Properties\<close>

text \<open>
  C17. Every run of the scanner ends and none deadlocks, with the condition variable as the code uses it.  On a
  directory tree with fewer than \<open>2 ^ 64\<close> directories and reparse points, whatever the interleaving of the workers and
  the joining thread, a run with \<open>j\<close> spurious wake-ups has at most \<open>(n + 2)\<close> times the number of directories
  and of twice the workers, plus \<open>j\<close>, thread steps; and as long as not all workers are joined some thread
  that does not sleep on the condition variable can move: the wake-ups of \<^verbatim>\<open>complete_directory\<close> and
  \<^verbatim>\<open>cancel\<close> are enough, no spurious one is ever needed.
\<close>
theorem scan_terminates:
  assumes "listing_ok read_dir" "small_tree read_dir root" "validate_worker_count n = Inr ()"
    "scan_run read_dir root k j (initial_scanner root n) s"
  shows "k \<le> (n + 2) * (card (tree_dirs read_dir root) + 2 * n) + j \<and>
     (joined s = n \<or> (\<exists>t. thread_step read_dir root s t))"
proof -
  have len: "length (workers s) = n" using scan_steps_length [OF scan_run_steps [OF assms(4)]] by (simp add: initial_scanner_def)
  have "safe_scan read_dir root s"
    using safe_scan_steps [OF assms(1,2) scan_run_steps [OF assms(4)] safe_scan_initial [OF assms(3)]] .
  then show ?thesis using safe_scan_progress len scan_steps_bounded [OF assms(1) _ assms(3,4)] assms(2)
    by (auto simp: small_tree_def)
qed

theorem scan_terminates_witness:
  "scan_run sample_fs [0x72] 11 1 (initial_scanner [0x72] 2) sample_end \<and>
   11 \<le> (2 + 2) * (card (tree_dirs sample_fs [0x72]) + 2 * (2::nat)) + 1 \<and>
     (joined sample_end = 2 \<or> (\<exists>t. thread_step sample_fs [0x72] sample_end t))"
  by (rule conjI [OF sample_run scan_terminates [OF sample_listing sample_small _ sample_run]])
    (simp add: validate_worker_count_def MAX_WORKERS_def)



end
