(* ===== verification/Control_Plane.thy ===== *)
theory Control_Plane
  imports Manifest "HOL-Library.Multiset"
begin

text \<open>
  The control plane of \<^verbatim>\<open>src/control_plane.rs\<close>: the connection handshake, the manifest message
  with its summary and FNV-1a fingerprint, the manifest acknowledgement, and the registration of
  the control and data connections of a session.  Sockets are byte streams; buffering is invisible because every
  message is read exactly to its end.
\<close>

section \<open>Connection handshake\<close>

definition PROTOCOL_MAGIC :: "byte list" where "PROTOCOL_MAGIC = [0x4E, 0x43, 0x53, 0x34]"
definition PROTOCOL_VERSION :: u16 where "PROTOCOL_VERSION = 15"
definition ROLE_CONTROL :: u8 where "ROLE_CONTROL = 1"
definition ROLE_DATA :: u8 where "ROLE_DATA = 2"
definition MESSAGE_MANIFEST :: u8 where "MESSAGE_MANIFEST = 0x10"
definition MESSAGE_MANIFEST_ACK :: u8 where "MESSAGE_MANIFEST_ACK = 0x11"
definition MAX_PATH_UTF16_UNITS :: usize where "MAX_PATH_UTF16_UNITS = 1024 * 1024"
definition MAX_DATA_STREAMS :: usize where "MAX_DATA_STREAMS = 32"

datatype ConnectionRole = Control | Data

record Handshake =
  role :: ConnectionRole
  session_id :: u64
  stream_id :: u32
  stream_count :: u32

definition validate_data_stream_count :: "usize \<Rightarrow> unit io_result" where
  "validate_data_stream_count n = (if \<not> (1 \<le> n \<and> n \<le> MAX_DATA_STREAMS) then Inl InvalidInput else Inr ())"

definition write_handshake :: "Handshake \<Rightarrow> byte list io_result" where
  "write_handshake h = wcat [
     Inr PROTOCOL_MAGIC,
     Inr (to_be_bytes PROTOCOL_VERSION),
     Inr (to_be_bytes (case role h of Control \<Rightarrow> ROLE_CONTROL | Data \<Rightarrow> ROLE_DATA)),
     Inr (to_be_bytes (0 :: u8)),
     Inr (to_be_bytes (session_id h)),
     Inr (to_be_bytes (stream_id h)),
     Inr (to_be_bytes (stream_count h))]"

definition read_handshake :: "Handshake reader" where
  "read_handshake =
     rbind (read_exact 4) (\<lambda>magic.
     rbind (rguard (magic = PROTOCOL_MAGIC) InvalidData) (\<lambda>_.
     rbind read_be (\<lambda>version.
     rbind (rguard (version = PROTOCOL_VERSION) InvalidData) (\<lambda>_.
     rbind read_be (\<lambda>code :: u8.
     rbind (if code = ROLE_CONTROL then rret Control else if code = ROLE_DATA then rret Data else rfail InvalidData) (\<lambda>r.
     rbind read_be (\<lambda>reserved :: u8.
     rbind (rguard (reserved = 0) InvalidData) (\<lambda>_.
     rbind read_be (\<lambda>session.
     rbind read_be (\<lambda>stream.
     rbind read_be (\<lambda>n.
       rret \<lparr>role = r, session_id = session, stream_id = stream, stream_count = n\<rparr>)))))))))))"

section \<open>Manifest entries on the wire\<close>

definition class_to_wire :: "FileClass \<Rightarrow> u8" where
  "class_to_wire c = (case c of Tiny \<Rightarrow> 1 | Medium \<Rightarrow> 2 | Large \<Rightarrow> 3)"

definition class_from_wire :: "u8 \<Rightarrow> FileClass io_result" where
  "class_from_wire v = (if v = 1 then Inr Tiny else if v = 2 then Inr Medium else if v = 3 then Inr Large else Inl InvalidData)"

definition write_relative_path :: "path \<Rightarrow> byte list io_result" where
  "write_relative_path p =
     ebind (validate_relative_path p) (\<lambda>_.
       if p = [] \<or> length p > MAX_PATH_UTF16_UNITS then Inl InvalidInput
       else ebind (word_try_from InvalidInput (length p)) (\<lambda>n :: u32.
         wcat (Inr (to_be_bytes n) # map (\<lambda>u. Inr (to_be_bytes u)) p)))"

definition read_relative_path :: "path reader" where
  "read_relative_path =
     rbind read_be (\<lambda>n :: u32.
     rbind (rguard (\<not> (unat n = 0 \<or> unat n > MAX_PATH_UTF16_UNITS)) InvalidData) (\<lambda>_.
     rbind (read_times (unat n) read_be) (\<lambda>p.
     rbind (rlift (validate_relative_path p)) (\<lambda>_. rret p))))"

definition write_directory_entry :: "DirectoryEntry \<Rightarrow> byte list io_result" where
  "write_directory_entry d = write_relative_path (dir_relative_path d)"

definition read_directory_entry :: "DirectoryEntry reader" where
  "read_directory_entry = rbind read_relative_path (\<lambda>p. rret \<lparr>dir_relative_path = p\<rparr>)"

definition write_manifest_entry :: "ManifestEntry \<Rightarrow> byte list io_result" where
  "write_manifest_entry e = wcat [
     write_relative_path (relative_path e),
     Inr (to_be_bytes (file_size e)),
     Inr (to_be_bytes (last_write_time e)),
     Inr (to_be_bytes (file_attributes e)),
     Inr (to_be_bytes (class_to_wire (file_class e)))]"

definition read_manifest_entry :: "ManifestEntry reader" where
  "read_manifest_entry =
     rbind read_relative_path (\<lambda>p.
     rbind read_be (\<lambda>size.
     rbind read_be (\<lambda>time.
     rbind read_be (\<lambda>attributes.
     rbind (rbind read_be (\<lambda>v. rlift (class_from_wire v))) (\<lambda>c.
       rret \<lparr>relative_path = p, file_size = size, last_write_time = time,
             file_attributes = attributes, file_class = c\<rparr>)))))"

section \<open>Summary and fingerprint\<close>

definition FNV_OFFSET_BASIS :: u64 where "FNV_OFFSET_BASIS = 0xcbf29ce484222325"
definition FNV_PRIME :: u64 where "FNV_PRIME = 0x100000001b3"
definition MANIFEST_KIND_DIRECTORY :: u8 where "MANIFEST_KIND_DIRECTORY = 1"
definition MANIFEST_KIND_FILE :: u8 where "MANIFEST_KIND_FILE = 2"

record ManifestSummary =
  entries :: u64
  summary_directories :: u64
  total_file_bytes :: u64
  fingerprint :: u64

definition hash_bytes :: "u64 \<Rightarrow> byte list \<Rightarrow> u64" where
  "hash_bytes hash bytes = foldl (\<lambda>h b. xor h (ucast b) * FNV_PRIME) hash bytes"

definition hash_path :: "u64 \<Rightarrow> path \<Rightarrow> u64" where
  "hash_path hash p = foldl (\<lambda>h u. hash_bytes h (to_be_bytes u)) hash p"

definition hash_directory_entry :: "u64 \<Rightarrow> DirectoryEntry \<Rightarrow> u64" where
  "hash_directory_entry hash d = hash_path (hash_bytes hash [MANIFEST_KIND_DIRECTORY]) (dir_relative_path d)"

definition hash_manifest_entry :: "u64 \<Rightarrow> ManifestEntry \<Rightarrow> u64" where
  "hash_manifest_entry hash e =
     (let h1 = hash_path (hash_bytes hash [MANIFEST_KIND_FILE]) (relative_path e);
          h2 = hash_bytes h1 (to_be_bytes (file_size e));
          h3 = hash_bytes h2 (to_be_bytes (last_write_time e));
          h4 = hash_bytes h3 (to_be_bytes (file_attributes e))
      in hash_bytes h4 [class_to_wire (file_class e)])"

definition empty_summary :: ManifestSummary where
  "empty_summary = \<lparr>entries = 0, summary_directories = 0, total_file_bytes = 0, fingerprint = FNV_OFFSET_BASIS\<rparr>"

definition summarize_directory :: "ManifestSummary \<Rightarrow> DirectoryEntry \<Rightarrow> ManifestSummary io_result" where
  "summarize_directory s d =
     ebind (ok_or OtherError (checked_add (summary_directories s) 1)) (\<lambda>n.
       Inr (s\<lparr>summary_directories := n, fingerprint := hash_directory_entry (fingerprint s) d\<rparr>))"

definition summarize_entry :: "ManifestSummary \<Rightarrow> ManifestEntry \<Rightarrow> ManifestSummary io_result" where
  "summarize_entry s e =
     ebind (ok_or OtherError (checked_add (entries s) 1)) (\<lambda>n.
     ebind (ok_or OtherError (checked_add (total_file_bytes s) (file_size e))) (\<lambda>b.
       Inr (s\<lparr>entries := n, total_file_bytes := b, fingerprint := hash_manifest_entry (fingerprint s) e\<rparr>)))"

definition summarize_manifest :: "ManifestEntry list \<Rightarrow> DirectoryEntry list \<Rightarrow> ManifestSummary io_result" where
  "summarize_manifest manifest directories =
     ebind (validate_tree_entries manifest directories) (\<lambda>_.
     ebind (efold summarize_directory empty_summary directories) (\<lambda>s.
       efold summarize_entry s manifest))"

section \<open>The manifest message\<close>

text \<open>
  \<^verbatim>\<open>CountingWriter\<close> and \<^verbatim>\<open>CountingReader\<close>: the bytes passed through, and their checked 64-bit count.
\<close>

record CountingWriter =
  inner :: "byte list"
  bytes_written :: u64

definition CountingWriter_new :: CountingWriter where
  "CountingWriter_new = \<lparr>inner = [], bytes_written = 0\<rparr>"

definition counting_write :: "CountingWriter \<Rightarrow> byte list io_result \<Rightarrow> CountingWriter io_result" where
  "counting_write w chunk =
     ebind chunk (\<lambda>bs.
     ebind (word_try_from OtherError (length bs)) (\<lambda>written.
     ebind (ok_or OtherError (checked_add (bytes_written w) written)) (\<lambda>n.
       Inr \<lparr>inner = inner w @ bs, bytes_written = n\<rparr>)))"

definition send_manifest :: "ManifestEntry list \<Rightarrow> DirectoryEntry list \<Rightarrow> (byte list \<times> u64) io_result" where
  "send_manifest manifest directories =
     ebind (summarize_manifest manifest directories) (\<lambda>summary.
     ebind (efold counting_write CountingWriter_new
        ([Inr (to_be_bytes MESSAGE_MANIFEST),
          Inr (to_be_bytes (entries summary)),
          Inr (to_be_bytes (summary_directories summary)),
          Inr (to_be_bytes (total_file_bytes summary)),
          Inr (to_be_bytes (fingerprint summary))] @
         map write_directory_entry directories @ map write_manifest_entry manifest)) (\<lambda>w.
       Inr (inner w, bytes_written w)))"

definition receive_directory ::
    "DirectoryEntry list \<times> ManifestSummary \<Rightarrow> (DirectoryEntry list \<times> ManifestSummary) reader" where
  "receive_directory = read_fold read_directory_entry summarize_directory"

definition receive_entry ::
    "ManifestEntry list \<times> ManifestSummary \<Rightarrow> (ManifestEntry list \<times> ManifestSummary) reader" where
  "receive_entry = read_fold read_manifest_entry summarize_entry"

definition receive_manifest_body ::
    "(ManifestEntry list \<times> DirectoryEntry list \<times> ManifestSummary) reader" where
  "receive_manifest_body =
     rbind read_be (\<lambda>message_type :: u8.
     rbind (rguard (message_type = MESSAGE_MANIFEST) InvalidData) (\<lambda>_.
     rbind read_be (\<lambda>n_entries.
     rbind read_be (\<lambda>n_directories.
     rbind read_be (\<lambda>n_bytes.
     rbind read_be (\<lambda>print.
     rbind (rfor (unat n_directories) receive_directory ([], empty_summary)) (\<lambda>(directories, s1).
     rbind (rfor (unat n_entries) receive_entry ([], s1)) (\<lambda>(manifest, actual).
     rbind (rlift (validate_tree_entries manifest directories)) (\<lambda>_.
     rbind (rguard (actual = \<lparr>entries = n_entries, summary_directories = n_directories,
                              total_file_bytes = n_bytes, fingerprint = print\<rparr>) InvalidData) (\<lambda>_.
       rret (manifest, directories, actual)))))))))))"

definition receive_manifest_entries ::
    "(ManifestEntry list \<times> DirectoryEntry list \<times> ManifestSummary \<times> u64) reader" where
  "receive_manifest_entries bs =
     ebind (receive_manifest_body bs) (\<lambda>((manifest, directories, summary), rest).
     ebind (word_try_from OtherError (length bs - length rest)) (\<lambda>n.
       Inr ((manifest, directories, summary, n), rest)))"

definition receive_manifest :: "(ManifestSummary \<times> u64) reader" where
  "receive_manifest = rbind receive_manifest_entries (\<lambda>(_, _, summary, n). rret (summary, n))"

section \<open>Manifest acknowledgement\<close>

record ManifestAck =
  ack_summary :: ManifestSummary
  manifest_wire_bytes :: u64
  ack_data_stream_count :: u32

definition write_manifest_ack :: "ManifestAck \<Rightarrow> byte list io_result" where
  "write_manifest_ack a = wcat [
     Inr (to_be_bytes MESSAGE_MANIFEST_ACK),
     Inr (to_be_bytes (entries (ack_summary a))),
     Inr (to_be_bytes (summary_directories (ack_summary a))),
     Inr (to_be_bytes (total_file_bytes (ack_summary a))),
     Inr (to_be_bytes (fingerprint (ack_summary a))),
     Inr (to_be_bytes (manifest_wire_bytes a)),
     Inr (to_be_bytes (ack_data_stream_count a))]"

definition read_manifest_ack :: "ManifestAck reader" where
  "read_manifest_ack =
     rbind read_be (\<lambda>message_type :: u8.
     rbind (rguard (message_type = MESSAGE_MANIFEST_ACK) InvalidData) (\<lambda>_.
     rbind read_be (\<lambda>n_entries.
     rbind read_be (\<lambda>n_directories.
     rbind read_be (\<lambda>n_bytes.
     rbind read_be (\<lambda>print.
     rbind read_be (\<lambda>wire.
     rbind read_be (\<lambda>streams.
       rret \<lparr>ack_summary = \<lparr>entries = n_entries, summary_directories = n_directories,
               total_file_bytes = n_bytes, fingerprint = print\<rparr>,
             manifest_wire_bytes = wire, ack_data_stream_count = streams\<rparr>))))))))"

section \<open>Registration of a session's connections\<close>

text \<open>
  The accept loop of \<^verbatim>\<open>run_server\<close>.  A connection is a value of any type (its socket) with the bytes it
  delivers; \<open>control_stream\<close> and \<open>data_streams\<close> keep what is left unread of each.
\<close>

record Registration =
  control_stream :: "byte list option"
  data_streams :: "byte list list"
  data_stream_ids :: "u32 fset"

definition empty_registration :: Registration where
  "empty_registration = \<lparr>control_stream = None, data_streams = [], data_stream_ids = {||}\<rparr>"

definition register_connection :: "u64 \<Rightarrow> usize \<Rightarrow> Registration \<Rightarrow> byte list \<Rightarrow> Registration io_result" where
  "register_connection session expected r stream =
     ebind (read_handshake stream) (\<lambda>(h, unread).
       if session_id h \<noteq> session then Inl InvalidData
       else if stream_count h \<noteq> of_nat expected then Inl InvalidData
       else (case role h of
           Control \<Rightarrow>
             if stream_id h \<noteq> 0 then Inl InvalidData
             else if control_stream r \<noteq> None then Inl AlreadyExists
             else Inr (r\<lparr>control_stream := Some unread\<rparr>)
         | Data \<Rightarrow>
             if stream_id h \<ge> of_nat expected then Inl InvalidData
             else if stream_id h |\<in>| data_stream_ids r then Inl AlreadyExists
             else Inr (r\<lparr>data_stream_ids := finsert (stream_id h) (data_stream_ids r),
                         data_streams := data_streams r @ [unread]\<rparr>)))"

text \<open>\<open>accepts i\<close> is the outcome of the \<open>i\<close>-th \<^verbatim>\<open>listener.accept()\<close> with its \<^verbatim>\<open>configure_stream\<close>.\<close>

definition accept_connections :: "u64 \<Rightarrow> usize \<Rightarrow> (nat \<Rightarrow> byte list io_result) \<Rightarrow> (byte list \<times> Registration) io_result" where
  "accept_connections session expected accepts =
     (if usize_max < expected + 1 then Inl OtherError
      else
        ebind (efold (\<lambda>r i. ebind (accepts i) (register_connection session expected r)) empty_registration [0..<expected + 1]) (\<lambda>r.
          if length (data_streams r) \<noteq> expected then Inl UnexpectedEof
          else ebind (ok_or NotConnected (control_stream r)) (\<lambda>control. Inr (control, r))))"

definition run_server :: "u64 \<Rightarrow> usize \<Rightarrow> (nat \<Rightarrow> byte list io_result) \<Rightarrow> (ManifestAck \<times> byte list) io_result" where
  "run_server session expected accepts =
     ebind (accept_connections session expected accepts) (\<lambda>(control, r).
     ebind (receive_manifest control) (\<lambda>((summary, n), _).
       (let ack = \<lparr>ack_summary = summary, manifest_wire_bytes = n, ack_data_stream_count = of_nat (length (data_streams r))\<rparr>
        in ebind (write_manifest_ack ack) (\<lambda>bytes. Inr (ack, bytes)))))"

text \<open>The byte streams the client of \<^verbatim>\<open>run\<close> opens: the control connection, then the data connections.\<close>

definition client_streams :: "u64 \<Rightarrow> usize \<Rightarrow> byte list \<Rightarrow> byte list list io_result" where
  "client_streams session n manifest_bytes =
     ebind (write_handshake \<lparr>role = Control, session_id = session, stream_id = 0, stream_count = of_nat n\<rparr>) (\<lambda>control.
     ebind (efold (\<lambda>streams i.
         ebind (write_handshake \<lparr>role = Data, session_id = session, stream_id = of_nat i, stream_count = of_nat n\<rparr>) (\<lambda>data.
           Inr (streams @ [data]))) [] [0..<n]) (\<lambda>data_streams.
       Inr ((control @ manifest_bytes) # data_streams)))"

text \<open>The checks of \<^verbatim>\<open>run\<close> once the client has the acknowledgement and the server thread has ended.\<close>

definition check_manifest_ack ::
    "ManifestAck \<Rightarrow> ManifestAck io_result \<Rightarrow> ManifestSummary \<Rightarrow> u64 \<Rightarrow> usize \<Rightarrow> unit io_result" where
  "check_manifest_ack client_ack server expected_summary wire_bytes n_streams =
     ebind server (\<lambda>server_ack.
       if client_ack \<noteq> server_ack then Inl OtherError
       else if ack_summary client_ack \<noteq> expected_summary then Inl OtherError
       else if manifest_wire_bytes client_ack \<noteq> wire_bytes then Inl OtherError
       else if ack_data_stream_count client_ack \<noteq> of_nat n_streams then Inl OtherError
       else Inr ())"

section \<open>The codecs are canonical\<close>

lemma write_handshake_bytes:
  "write_handshake h = Inr (PROTOCOL_MAGIC @ to_be_bytes PROTOCOL_VERSION @
     to_be_bytes (case role h of Control \<Rightarrow> ROLE_CONTROL | Data \<Rightarrow> ROLE_DATA) @ to_be_bytes (0 :: u8) @
     to_be_bytes (session_id h) @ to_be_bytes (stream_id h) @ to_be_bytes (stream_count h))"
  by (simp add: write_handshake_def)

lemma length_magic [simp]: "length PROTOCOL_MAGIC = 4"
  by (simp add: PROTOCOL_MAGIC_def)

lemma role_codes [simp]: "ROLE_DATA \<noteq> ROLE_CONTROL" "ROLE_CONTROL \<noteq> ROLE_DATA"
  by (simp_all add: ROLE_CONTROL_def ROLE_DATA_def)

lemma read_handshake_write: "write_handshake h = Inr bs \<Longrightarrow> read_handshake (bs @ rest) = Inr (h, rest)"
  by (cases "role h")
    (auto simp: write_handshake_bytes read_handshake_def rbind_eq read_exact_append read_be_simps)

lemma read_handshake_Inr:
  "read_handshake bs = Inr (h, rest) \<Longrightarrow> \<exists>xs. write_handshake h = Inr xs \<and> bs = xs @ rest"
  by (auto simp: read_handshake_def result_simps read_exact_Inr read_be_iffs write_handshake_bytes split: if_splits)

interpretation handshake_codec: canonical_codec write_handshake read_handshake "\<lambda>_. True"
  by unfold_locales (auto simp: write_handshake_bytes intro: read_handshake_write [unfolded write_handshake_bytes]
      dest: read_handshake_Inr [unfolded write_handshake_bytes])

definition path_wf :: "path \<Rightarrow> bool" where
  "path_wf p \<longleftrightarrow> validate_relative_path p = Inr () \<and> length p \<le> MAX_PATH_UTF16_UNITS"

lemma write_relative_path_Inr:
  "write_relative_path p = Inr bs \<longleftrightarrow>
     path_wf p \<and> (\<exists>us. wcat (map (\<lambda>u. Inr (to_be_bytes u)) p) = Inr us \<and> bs = to_be_bytes (of_nat (length p) :: u32) @ us)"
  by (auto simp: write_relative_path_def path_wf_def result_simps word_try_from_def MAX_PATH_UTF16_UNITS_def
      validate_relative_path_Inr split: if_splits)

interpretation path_codec: canonical_codec write_relative_path read_relative_path path_wf
proof
  fix p bs rest
  show "\<exists>bs. write_relative_path p = Inr bs" if "path_wf p"
    using that u16_be.wcat_valid [of p] by (auto simp: write_relative_path_Inr)
  assume w: "path_wf p" "write_relative_path p = Inr bs"
  then obtain us where us: "wcat (map (\<lambda>u. Inr (to_be_bytes u)) p) = Inr us" "bs = to_be_bytes (of_nat (length p) :: u32) @ us"
    by (auto simp: write_relative_path_Inr)
  have n: "unat (of_nat (length p) :: u32) = length p" "p \<noteq> []" "length p \<le> MAX_PATH_UTF16_UNITS"
    using w(1) by (auto simp: path_wf_def MAX_PATH_UTF16_UNITS_def validate_relative_path_Inr unat_of_nat_small)
  show "read_relative_path (bs @ rest) = Inr (p, rest)"
    using w(1) n us u16_be.read_times_write [of p us rest]
    by (simp add: read_relative_path_def rbind_eq read_be_simps path_wf_def not_less)
next
  fix bs p rest
  assume "read_relative_path bs = Inr (p, rest)"
  then obtain n :: u32 and b1 where n: "bs = to_be_bytes n @ b1" "unat n \<le> MAX_PATH_UTF16_UNITS"
    and p: "read_times (unat n) read_be b1 = Inr (p, rest)" "validate_relative_path p = Inr ()"
    by (auto simp: read_relative_path_def result_simps read_be_iffs)
  then show "path_wf p \<and> (\<exists>xs. write_relative_path p = Inr xs \<and> bs = xs @ rest)"
    using u16_be.read_times_canonical [OF p(1)] by (auto simp: write_relative_path_Inr path_wf_def)
qed

interpretation directory_codec: canonical_codec write_directory_entry read_directory_entry
  "\<lambda>d. path_wf (dir_relative_path d)"
  by unfold_locales
    (auto simp: write_directory_entry_def read_directory_entry_def path_codec.write_valid rbind_eq rbind_Inr
      path_codec.read_iff_write)

lemma class_wire_round_trip [simp]: "class_from_wire (class_to_wire c) = Inr c"
  by (cases c) (simp_all add: class_from_wire_def class_to_wire_def)

lemma class_from_wire_Inr: "class_from_wire v = Inr c \<longleftrightarrow> v = class_to_wire c"
  by (cases c) (auto simp: class_from_wire_def class_to_wire_def)

lemma write_manifest_entry_Inr:
  "write_manifest_entry e = Inr bs \<longleftrightarrow>
     (\<exists>ps. write_relative_path (relative_path e) = Inr ps \<and>
        bs = ps @ to_be_bytes (file_size e) @ to_be_bytes (last_write_time e) @ to_be_bytes (file_attributes e) @
             to_be_bytes (class_to_wire (file_class e)))"
  by (auto simp: write_manifest_entry_def result_simps)

interpretation entry_codec: canonical_codec write_manifest_entry read_manifest_entry
  "\<lambda>e. path_wf (relative_path e)"
proof
  fix e bs rest
  show "\<exists>bs. write_manifest_entry e = Inr bs" if "path_wf (relative_path e)"
    using that path_codec.write_valid by (auto simp: write_manifest_entry_Inr)
  assume w: "path_wf (relative_path e)" "write_manifest_entry e = Inr bs"
  then obtain ps where ps: "write_relative_path (relative_path e) = Inr ps"
    "bs = ps @ to_be_bytes (file_size e) @ to_be_bytes (last_write_time e) @ to_be_bytes (file_attributes e) @
             to_be_bytes (class_to_wire (file_class e))" by (auto simp: write_manifest_entry_Inr)
  show "read_manifest_entry (bs @ rest) = Inr (e, rest)"
    by (simp add: read_manifest_entry_def ps(2) rbind_eq path_codec.read_write [OF w(1) ps(1)] read_be_simps)
next
  fix bs e rest
  assume "read_manifest_entry bs = Inr (e, rest)"
  then show "path_wf (relative_path e) \<and> (\<exists>xs. write_manifest_entry e = Inr xs \<and> bs = xs @ rest)"
    by (auto simp: read_manifest_entry_def result_simps read_be_iffs path_codec.read_iff_write
        class_from_wire_Inr write_manifest_entry_Inr)
qed

lemma write_manifest_ack_bytes:
  "write_manifest_ack a = Inr (to_be_bytes MESSAGE_MANIFEST_ACK @ to_be_bytes (entries (ack_summary a)) @
     to_be_bytes (summary_directories (ack_summary a)) @ to_be_bytes (total_file_bytes (ack_summary a)) @
     to_be_bytes (fingerprint (ack_summary a)) @ to_be_bytes (manifest_wire_bytes a) @
     to_be_bytes (ack_data_stream_count a))"
  by (simp add: write_manifest_ack_def)

interpretation ack_codec: canonical_codec write_manifest_ack read_manifest_ack "\<lambda>_. True"
proof
  fix a bs rest
  show "\<exists>bs. write_manifest_ack a = Inr bs" by (simp add: write_manifest_ack_bytes)
  show "write_manifest_ack a = Inr bs \<Longrightarrow> read_manifest_ack (bs @ rest) = Inr (a, rest)"
    by (auto simp: write_manifest_ack_bytes read_manifest_ack_def rbind_eq read_be_simps)
next
  fix bs a rest
  show "read_manifest_ack bs = Inr (a, rest) \<Longrightarrow> True \<and> (\<exists>xs. write_manifest_ack a = Inr xs \<and> bs = xs @ rest)"
    by (auto simp: write_manifest_ack_bytes read_manifest_ack_def result_simps read_be_iffs)
qed

section \<open>Sending and receiving a manifest\<close>

lemma word_try_from_length:
  "word_try_from e n = Inr w \<longleftrightarrow> n < 2 ^ LENGTH('a) \<and> w = (of_nat n :: 'a::len word)"
  by (auto simp: word_try_from_def)

lemma counting_write_Inr:
  "counting_write w chunk = Inr w' \<longleftrightarrow>
     (\<exists>bs. chunk = Inr bs \<and> unat (bytes_written w) + length bs < 2 ^ 64 \<and>
        w' = \<lparr>inner = inner w @ bs, bytes_written = bytes_written w + of_nat (length bs)\<rparr>)"
  by (auto simp: counting_write_def result_simps word_try_from_length checked_add_def unat_of_nat_small)

lemma unat_add_of_nat:
  "unat (a :: u64) + n < 2 ^ 64 \<Longrightarrow> unat (a + of_nat n) = unat a + n"
  by (simp add: unat_word_ariths unat_of_nat_small)

lemma efold_counting_write:
  "efold counting_write w chunks = Inr w' \<longleftrightarrow>
     (\<exists>bs. wcat chunks = Inr bs \<and> unat (bytes_written w) + length bs < 2 ^ 64 \<and>
        w' = \<lparr>inner = inner w @ bs, bytes_written = bytes_written w + of_nat (length bs)\<rparr>)"
proof (induction chunks arbitrary: w)
  case (Cons c chunks)
  have "efold counting_write w (c # chunks) = Inr w' \<longleftrightarrow>
      (\<exists>bs xs. c = Inr bs \<and> unat (bytes_written w) + length bs < 2 ^ 64 \<and> wcat chunks = Inr xs \<and>
         unat (bytes_written w + of_nat (length bs)) + length xs < 2 ^ 64 \<and>
         w' = \<lparr>inner = inner w @ bs @ xs, bytes_written = bytes_written w + of_nat (length bs) + of_nat (length xs)\<rparr>)"
    by (auto simp: ebind_Inr counting_write_Inr Cons.IH)
  also have "\<dots> \<longleftrightarrow> (\<exists>bs xs. c = Inr bs \<and> wcat chunks = Inr xs \<and> unat (bytes_written w) + length (bs @ xs) < 2 ^ 64 \<and>
         w' = \<lparr>inner = inner w @ bs @ xs, bytes_written = bytes_written w + of_nat (length (bs @ xs))\<rparr>)"
    by (intro iff_exI) (auto simp: unat_add_of_nat add.assoc)
  finally show ?case by (auto simp: ebind_Inr)
qed (use unat_less_2p [where 'a = 64] in auto)

lemma summarize_entry_Inr:
  "summarize_entry s e = Inr s' \<longleftrightarrow> unat (entries s) + 1 < 2 ^ 64 \<and>
     unat (total_file_bytes s) + unat (file_size e) < 2 ^ 64 \<and>
     s' = s\<lparr>entries := entries s + 1, total_file_bytes := total_file_bytes s + file_size e,
            fingerprint := hash_manifest_entry (fingerprint s) e\<rparr>"
  by (auto simp: summarize_entry_def result_simps)

lemma summarize_directory_Inr:
  "summarize_directory s d = Inr s' \<longleftrightarrow> unat (summary_directories s) + 1 < 2 ^ 64 \<and>
     s' = s\<lparr>summary_directories := summary_directories s + 1, fingerprint := hash_directory_entry (fingerprint s) d\<rparr>"
  by (auto simp: summarize_directory_def result_simps)

lemma summarize_entries_counts:
  "efold summarize_entry s es = Inr s' \<Longrightarrow>
     unat (entries s') = unat (entries s) + length es \<and> summary_directories s' = summary_directories s \<and>
     unat (total_file_bytes s') = unat (total_file_bytes s) + (\<Sum>e\<leftarrow>es. unat (file_size e))"
proof (induction es arbitrary: s)
  case (Cons e es)
  then obtain s1 where "summarize_entry s e = Inr s1" "efold summarize_entry s1 es = Inr s'" by (auto simp: ebind_Inr)
  then show ?case using Cons.IH [of s1] by (auto simp: summarize_entry_Inr unat_word_ariths)
qed simp

lemma summarize_directories_counts:
  "efold summarize_directory s ds = Inr s' \<Longrightarrow>
     unat (summary_directories s') = unat (summary_directories s) + length ds \<and> entries s' = entries s \<and>
     total_file_bytes s' = total_file_bytes s"
proof (induction ds arbitrary: s)
  case (Cons d ds)
  then obtain s1 where "summarize_directory s d = Inr s1" "efold summarize_directory s1 ds = Inr s'" by (auto simp: ebind_Inr)
  then show ?case using Cons.IH [of s1] by (auto simp: summarize_directory_Inr unat_word_ariths)
qed simp

lemma summarize_manifest_counts:
  assumes "summarize_manifest m d = Inr s"
  shows "unat (entries s) = length m" "unat (summary_directories s) = length d"
    "unat (total_file_bytes s) = (\<Sum>e\<leftarrow>m. unat (file_size e))"
  using assms summarize_entries_counts summarize_directories_counts
  by (fastforce simp: summarize_manifest_def ebind_Inr empty_summary_def)+


definition manifest_bytes :: "ManifestEntry list \<Rightarrow> DirectoryEntry list \<Rightarrow> ManifestSummary \<Rightarrow> byte list io_result" where
  "manifest_bytes m d s = wcat
     ([Inr (to_be_bytes MESSAGE_MANIFEST), Inr (to_be_bytes (entries s)), Inr (to_be_bytes (summary_directories s)),
       Inr (to_be_bytes (total_file_bytes s)), Inr (to_be_bytes (fingerprint s))] @
      map write_directory_entry d @ map write_manifest_entry m)"

lemma manifest_bytes_Inr:
  "manifest_bytes m d s = Inr bs \<longleftrightarrow>
     (\<exists>ds ms. wcat (map write_directory_entry d) = Inr ds \<and> wcat (map write_manifest_entry m) = Inr ms \<and>
        bs = to_be_bytes MESSAGE_MANIFEST @ to_be_bytes (entries s) @ to_be_bytes (summary_directories s) @
             to_be_bytes (total_file_bytes s) @ to_be_bytes (fingerprint s) @ ds @ ms)"
  by (auto simp: manifest_bytes_def wcat_append ebind_Inr)

lemma send_manifest_Inr:
  "send_manifest m d = Inr (bs, n) \<longleftrightarrow>
     (\<exists>s. summarize_manifest m d = Inr s \<and> manifest_bytes m d s = Inr bs \<and> length bs < 2 ^ 64 \<and> n = of_nat (length bs))"
  unfolding send_manifest_def ebind_Inr efold_counting_write CountingWriter_new_def manifest_bytes_def [symmetric]
  by auto

lemma wcat_written: "wcat (map f xs) = Inr bs \<Longrightarrow> x \<in> set xs \<Longrightarrow> \<exists>b. f x = Inr b"
  by (induction xs arbitrary: bs) (auto simp: ebind_Inr)

lemma receive_manifest_body_Inr:
  "receive_manifest_body bs = Inr ((m, d, s), rest) \<longleftrightarrow>
     summarize_manifest m d = Inr s \<and> (\<exists>xs. manifest_bytes m d s = Inr xs \<and> bs = xs @ rest)"
proof
  assume "receive_manifest_body bs = Inr ((m, d, s), rest)"
  then obtain b1 b2 s1 where bs: "bs = to_be_bytes MESSAGE_MANIFEST @ to_be_bytes (entries s) @ to_be_bytes (summary_directories s) @
             to_be_bytes (total_file_bytes s) @ to_be_bytes (fingerprint s) @ b1"
    and d: "rfor (unat (summary_directories s)) receive_directory ([], empty_summary) b1 = Inr ((d, s1), b2)"
    and m: "rfor (unat (entries s)) receive_entry ([], s1) b2 = Inr ((m, s), rest)"
    and v: "validate_tree_entries m d = Inr ()"
    by (auto simp: receive_manifest_body_def result_simps read_be_iffs)
  from d obtain ds where ds: "wcat (map write_directory_entry d) = Inr ds" "b1 = ds @ b2" "efold summarize_directory empty_summary d = Inr s1"
    by (auto simp: receive_directory_def directory_codec.rfor_fold_iff)
  from m obtain ms where ms: "wcat (map write_manifest_entry m) = Inr ms" "b2 = ms @ rest" "efold summarize_entry s1 m = Inr s"
    by (auto simp: receive_entry_def entry_codec.rfor_fold_iff)
  show "summarize_manifest m d = Inr s \<and> (\<exists>xs. manifest_bytes m d s = Inr xs \<and> bs = xs @ rest)"
    using bs ds ms v by (simp add: summarize_manifest_def manifest_bytes_Inr)
next
  assume *: "summarize_manifest m d = Inr s \<and> (\<exists>xs. manifest_bytes m d s = Inr xs \<and> bs = xs @ rest)"
  then obtain ds ms s1 where
    ds: "wcat (map write_directory_entry d) = Inr ds" "efold summarize_directory empty_summary d = Inr s1" and
    ms: "wcat (map write_manifest_entry m) = Inr ms" "efold summarize_entry s1 m = Inr s" and
    bs: "bs = to_be_bytes MESSAGE_MANIFEST @ to_be_bytes (entries s) @ to_be_bytes (summary_directories s) @
             to_be_bytes (total_file_bytes s) @ to_be_bytes (fingerprint s) @ ds @ ms @ rest"
    and v: "validate_tree_entries m d = Inr ()"
    by (auto simp: summarize_manifest_def ebind_Inr manifest_bytes_Inr)
  have vd: "\<forall>x\<in>set d. path_wf (dir_relative_path x)"
    using wcat_written [OF ds(1)] by (auto simp: write_directory_entry_def write_relative_path_Inr)
  have vm: "\<forall>x\<in>set m. path_wf (relative_path x)"
    using wcat_written [OF ms(1)] by (fastforce simp: write_manifest_entry_Inr write_relative_path_Inr)
  have "rfor (length d) receive_directory ([], empty_summary) (ds @ ms @ rest) = Inr ((d, s1), ms @ rest)"
    using ds vd by (auto simp: receive_directory_def directory_codec.rfor_fold_iff)
  moreover have "rfor (length m) receive_entry ([], s1) (ms @ rest) = Inr ((m, s), rest)"
    using ms vm by (auto simp: receive_entry_def entry_codec.rfor_fold_iff)
  ultimately show "receive_manifest_body bs = Inr ((m, d, s), rest)"
    using summarize_manifest_counts [OF conjunct1 [OF *]] v
    by (simp add: receive_manifest_body_def bs rbind_eq read_be_simps)
qed

lemma receive_manifest_entries_Inr:
  "receive_manifest_entries bs = Inr ((m, d, s, n), rest) \<longleftrightarrow>
     summarize_manifest m d = Inr s \<and> (\<exists>xs. send_manifest m d = Inr (xs, n) \<and> bs = xs @ rest)"
  by (auto simp: receive_manifest_entries_def ebind_Inr receive_manifest_body_Inr word_try_from_length send_manifest_Inr)


section \<open>A session has one control connection and every data connection\<close>

lemma register_connection_Inr:
  "register_connection session n r stream = Inr r' \<longleftrightarrow>
     (\<exists>h unread. read_handshake stream = Inr (h, unread) \<and> session_id h = session \<and> stream_count h = of_nat n \<and>
       (role h = Control \<and> stream_id h = 0 \<and> control_stream r = None \<and> r' = r\<lparr>control_stream := Some unread\<rparr> \<or>
        role h = Data \<and> stream_id h < of_nat n \<and> stream_id h |\<notin>| data_stream_ids r \<and>
          r' = r\<lparr>data_stream_ids := finsert (stream_id h) (data_stream_ids r), data_streams := data_streams r @ [unread]\<rparr>))"
proof (cases "read_handshake stream")
  case (Inr p)
  obtain h u where p: "p = (h, u)" by (cases p)
  show ?thesis
    by (cases "role h"; simp add: register_connection_def Inr p not_le [symmetric]) auto
qed (simp add: register_connection_def)

definition registration_wf :: "usize \<Rightarrow> Registration \<Rightarrow> bool" where
  "registration_wf n r \<longleftrightarrow> length (data_streams r) = fcard (data_stream_ids r) \<and> (\<forall>i. i |\<in>| data_stream_ids r \<longrightarrow> i < of_nat n)"

lemma registration_wf_step:
  "registration_wf n r \<Longrightarrow> register_connection session n r stream = Inr r' \<Longrightarrow> registration_wf n r'"
  by (auto simp: registration_wf_def register_connection_Inr fcard_finsert_disjoint)

lemma registration_wf_fold:
  "efold (\<lambda>r i. ebind (accepts i) (register_connection session n r)) r is = Inr r' \<Longrightarrow> registration_wf n r \<Longrightarrow> registration_wf n r'"
  by (erule efold_invariant) (auto simp: ebind_Inr intro: registration_wf_step)

lemma full_id_set:
  assumes "\<forall>i. i |\<in>| S \<longrightarrow> (i :: u32) < of_nat n" "fcard S = n" "n < 2 ^ 32"
  shows "fset S = of_nat ` {..<n}"
proof -
  have n: "unat (of_nat n :: u32) = n" using assms(3) by (simp add: unat_of_nat_small)
  have "fset S \<subseteq> of_nat ` {..<n}"
  proof
    fix i assume "i \<in> fset S"
    then have "unat i < n" using assms(1) n by (auto simp: word_less_nat_alt)
    then show "i \<in> of_nat ` {..<n}" by (intro image_eqI [of _ _ "unat i"]) auto
  qed
  moreover have "card (of_nat ` {..<n} :: u32 set) \<le> n" using card_image_le [of "{..<n}" "of_nat :: nat \<Rightarrow> u32"] by simp
  ultimately show ?thesis using assms(2) by (intro card_subset_eq) (auto simp: fcard.rep_eq intro: antisym card_mono)
qed

text \<open>Connections in the order they are accepted, as handshakes with what follows them on the stream.\<close>

type_synonym connection = "Handshake \<times> byte list"

definition connection_bytes :: "connection \<Rightarrow> byte list" where
  "connection_bytes c = (case write_handshake (fst c) of Inl _ \<Rightarrow> [] | Inr bs \<Rightarrow> bs) @ snd c"

lemma read_handshake_connection [simp]: "read_handshake (connection_bytes c) = Inr (fst c, snd c)"
  using handshake_codec.round_trip [of "fst c"] by (auto simp: connection_bytes_def)

definition connection_ok :: "u64 \<Rightarrow> usize \<Rightarrow> connection \<Rightarrow> bool" where
  "connection_ok session n c \<longleftrightarrow> session_id (fst c) = session \<and> stream_count (fst c) = of_nat n \<and>
     (role (fst c) = Control \<and> stream_id (fst c) = 0 \<or> role (fst c) = Data \<and> stream_id (fst c) < of_nat n)"

abbreviation controls :: "connection list \<Rightarrow> byte list list" where
  "controls cs \<equiv> map snd (filter (\<lambda>c. role (fst c) = Control) cs)"

abbreviation data_ids :: "connection list \<Rightarrow> u32 list" where
  "data_ids cs \<equiv> map (\<lambda>c. stream_id (fst c)) (filter (\<lambda>c. role (fst c) = Data) cs)"

lemma register_all:
  assumes "\<forall>c\<in>set cs. connection_ok session n c" "distinct (data_ids cs)" "set (data_ids cs) \<inter> fset (data_stream_ids r) = {}"
    "length (controls cs) \<le> 1" "control_stream r \<noteq> None \<longrightarrow> controls cs = []"
  shows "\<exists>r'. efold (register_connection session n) r (map connection_bytes cs) = Inr r' \<and>
     length (data_streams r') = length (data_streams r) + length (data_ids cs) \<and>
     control_stream r' = (case controls cs of [] \<Rightarrow> control_stream r | u # _ \<Rightarrow> Some u)"
  using assms
proof (induction cs arbitrary: r)
  case (Cons c cs)
  show ?case
  proof (cases "role (fst c)")
    case Control
    let ?r = "r\<lparr>control_stream := Some (snd c)\<rparr>"
    have "register_connection session n r (connection_bytes c) = Inr ?r"
      using Control Cons.prems(1,5) by (cases c) (auto simp: register_connection_def connection_ok_def)
    moreover have "controls cs = []" using Control Cons.prems(4) by simp
    ultimately show ?thesis using Cons.IH [of ?r] Cons.prems Control by (auto simp: ebind_Inr)
  next
    case Data
    let ?r = "r\<lparr>data_stream_ids := finsert (stream_id (fst c)) (data_stream_ids r), data_streams := data_streams r @ [snd c]\<rparr>"
    have "register_connection session n r (connection_bytes c) = Inr ?r"
      using Data Cons.prems(1,3) by (cases c) (auto simp: register_connection_def connection_ok_def)
    then show ?thesis using Cons.IH [of ?r] Cons.prems Data by (auto simp: ebind_Inr cong: list.case_cong)
  qed
qed simp

lemma accept_all:
  assumes "length streams = n + 1" "n < usize_max"
  shows "accept_connections session n (\<lambda>i. Inr (streams ! i)) =
     ebind (efold (register_connection session n) empty_registration streams) (\<lambda>r.
          if length (data_streams r) \<noteq> n then Inl UnexpectedEof
          else ebind (ok_or NotConnected (control_stream r)) (\<lambda>control. Inr (control, r)))"
proof -
  have streams: "map ((!) streams) [0..<n + 1] = streams" using map_nth [of streams] assms(1) by simp
  have "efold (\<lambda>r i. ebind (Inr (streams ! i)) (register_connection session n r)) empty_registration [0..<n + 1] =
      efold (register_connection session n) empty_registration streams"
    using efold_map [of "register_connection session n" empty_registration "(!) streams" "[0..<n + 1]"]
    unfolding streams by simp
  then show ?thesis using assms(2) by (simp add: accept_connections_def del: upt_Suc)
qed

definition client_connections :: "u64 \<Rightarrow> usize \<Rightarrow> byte list \<Rightarrow> connection list" where
  "client_connections session n bytes =
     (\<lparr>role = Control, session_id = session, stream_id = 0, stream_count = of_nat n\<rparr>, bytes) #
     map (\<lambda>i. (\<lparr>role = Data, session_id = session, stream_id = of_nat i, stream_count = of_nat n\<rparr>, [])) [0..<n]"

lemma client_streams_connections:
  "client_streams session n bytes = Inr (map connection_bytes (client_connections session n bytes))"
proof -
  have "efold (\<lambda>streams i. ebind (write_handshake (h i)) (\<lambda>data. Inr (streams @ [data]))) acc is =
      Inr (acc @ map (\<lambda>i. connection_bytes (h i, [])) is)" for h acc "is"
    by (induction "is" arbitrary: acc) (simp_all add: write_handshake_bytes connection_bytes_def)
  note data = this
  show ?thesis unfolding client_streams_def data
    by (simp add: client_connections_def write_handshake_bytes connection_bytes_def comp_def)
qed

lemma mset_map_lift: "mset ys = image_mset f M \<Longrightarrow> \<exists>xs. mset xs = M \<and> map f xs = ys"
proof (induction ys arbitrary: M)
  case (Cons y ys)
  then obtain x M' where "M = add_mset x M'" "f x = y" "mset ys = image_mset f M'"
    by (metis image_mset_eq_image_mset_plusD msed_map_invR mset.simps(2) add_mset_add_single union_commute)
  with Cons.IH [of M'] obtain xs where "mset xs = M'" "map f xs = ys" by blast
  with \<open>M = _\<close> \<open>f x = y\<close> show ?case by (intro exI [of _ "x # xs"]) simp
qed simp

lemma client_registration:
  assumes n: "validate_data_stream_count n = Inr ()" and cs: "mset cs = mset (client_connections session n bytes)"
  shows "\<exists>r. accept_connections session n (\<lambda>i. Inr (map connection_bytes cs ! i)) = Inr (bytes, r) \<and> length (data_streams r) = n"
proof -
  have small: "n \<le> 32" "n < usize_max" using n
    by (auto simp: validate_data_stream_count_def MAX_DATA_STREAMS_def usize_max_def split: if_splits)
  have len: "length cs = n + 1" using arg_cong [OF cs, of size] by (simp add: client_connections_def)
  have "mset (data_ids cs) = mset (data_ids (client_connections session n bytes))"
    "mset (controls cs) = mset (controls (client_connections session n bytes))"
    by (simp_all only: mset_map mset_filter cs)
  moreover have "data_ids (client_connections session n bytes) = map of_nat [0..<n]"
    "controls (client_connections session n bytes) = [bytes]"
    by (simp_all add: client_connections_def filter_map comp_def)
  ultimately have ids: "mset (data_ids cs) = mset (map of_nat [0..<n])" and ctl: "mset (controls cs) = {#bytes#}"
    by simp_all
  have count: "length (filter (\<lambda>c. role (fst c) = Data) cs) = n" using mset_eq_length [OF ids] by simp
  have ctl': "controls cs = [bytes]" using ctl by (simp only: mset_single_iff)
  have "inj_on (of_nat :: nat \<Rightarrow> u32) {0..<n}"
    using small(1) unat_of_nat_small [where 'a = 32]
    by (intro inj_on_inverseI [of _ unat]) simp
  then have "distinct (map of_nat [0..<n] :: u32 list)" by (simp add: distinct_map)
  then have "distinct (data_ids cs)" by (simp only: mset_eq_imp_distinct_iff [OF ids])
  moreover have id_less: "(of_nat i :: u32) < of_nat n" if "i < n" for i
    using that small(1) unat_of_nat_small [where 'a = 32, of i] unat_of_nat_small [where 'a = 32, of n]
    by (simp add: word_less_nat_alt)
  have "connection_ok session n c" if "c \<in> set (client_connections session n bytes)" for c
    using that id_less by (auto simp: client_connections_def connection_ok_def)
  then have "\<forall>c\<in>set cs. connection_ok session n c" using mset_eq_setD [OF cs] by blast
  ultimately obtain r where "efold (register_connection session n) empty_registration (map connection_bytes cs) = Inr r"
     "length (data_streams r) = length (data_ids cs)" "control_stream r = Some bytes"
    using register_all [of cs session n empty_registration] ctl' arg_cong [OF ctl', of length]
    by (auto simp: empty_registration_def)
  then show ?thesis using accept_all [of "map connection_bytes cs" n session] len small(2) count by simp
qed

section \<open>A sample session\<close>

definition sample_directory :: DirectoryEntry where
  "sample_directory = \<lparr>dir_relative_path = [0x61]\<rparr>"

lemma sample_path: "validate_relative_path [0x61] = Inr ()"
  by (simp add: validate_relative_path_def is_absolute_def invalid_unit_def backslash_def full_stop_def
      path_components_def is_separator_def slash_def name_component_def word_less_nat_alt)

lemma sample_send: "\<exists>bytes k. send_manifest [] [sample_directory] = Inr (bytes, k)"
proof -
  have v: "validate_tree_entries [] [sample_directory] = Inr ()"
    using valid_key_not_Nil [OF sample_path]
    by (simp add: validate_tree_entries_iff tree_wf_def sample_directory_def sample_path)
  then obtain s where s: "summarize_manifest [] [sample_directory] = Inr s"
    by (simp add: summarize_manifest_def summarize_directory_def empty_summary_def checked_add_def)
  have "write_relative_path [0x61] = Inr (to_be_bytes (1 :: u32) @ to_be_bytes (0x61 :: u16))"
    by (simp add: write_relative_path_def sample_path MAX_PATH_UTF16_UNITS_def word_try_from_def)
  then have "\<exists>bytes. manifest_bytes [] [sample_directory] s = Inr bytes \<and> length bytes < 2 ^ 64"
    by (simp add: manifest_bytes_def write_directory_entry_def sample_directory_def)
  then show ?thesis using s by (auto simp: send_manifest_Inr)
qed

lemma sample_streams_valid: "validate_data_stream_count 2 = Inr ()"
  by (simp add: validate_data_stream_count_def MAX_DATA_STREAMS_def)

section \<open>Properties\<close>

text \<open>
   The manifest message is a canonical encoding of a checked manifest.  The receiver returns files,
  directories, summary and byte count exactly when the stream starts with the message
  \<open>send_manifest\<close> writes for them; so what is received was validated, has the announced summary and
  fingerprint, both ends count the same number of bytes, and nothing beyond the message is consumed.
\<close>
theorem manifest_message_exact:
  "receive_manifest_entries bs = Inr ((m, d, s, n), rest) \<longleftrightarrow>
     summarize_manifest m d = Inr s \<and> (\<exists>xs. send_manifest m d = Inr (xs, n) \<and> bs = xs @ rest)"
  by (rule receive_manifest_entries_Inr)

text \<open>
   The accept loop of the server only succeeds on a complete session: one control connection
  was registered, and the registered data stream IDs are exactly \<open>0\<close> to \<open>n - 1\<close>, each once.
\<close>
theorem accepted_session_complete:
  assumes "accept_connections session n accepts = Inr (control, r)" "n < 2 ^ 32"
  shows "control_stream r = Some control \<and> fset (data_stream_ids r) = of_nat ` {..<n} \<and> length (data_streams r) = n"
proof -
  from assms(1) obtain
    f: "efold (\<lambda>r i. ebind (accepts i) (register_connection session n r)) empty_registration [0..<n + 1] = Inr r"
    and r: "length (data_streams r) = n" "control_stream r = Some control"
    by (auto simp: accept_connections_def ebind_Inr ok_or_Inr simp del: upt_Suc split: if_splits)
  have "registration_wf n r" by (rule registration_wf_fold [OF f]) (simp add: registration_wf_def empty_registration_def)
  then have wf: "\<forall>i. i |\<in>| data_stream_ids r \<longrightarrow> i < of_nat n" "fcard (data_stream_ids r) = n"
    using r(1) unfolding registration_wf_def by metis+
  show ?thesis using r full_id_set [OF wf assms(2)] by blast
qed

theorem accepted_session_complete_witness:
  "\<exists>accepts r. accept_connections 9 2 accepts = Inr ([7], r) \<and> fset (data_stream_ids r) = {0, 1}"
proof -
  obtain r where r: "accept_connections 9 2 (\<lambda>i. Inr (map connection_bytes (client_connections 9 2 [7]) ! i)) = Inr ([7], r)"
    using client_registration [OF sample_streams_valid refl] by blast
  have "{..<2} = {0, Suc 0}" by auto
  then show ?thesis using accepted_session_complete [OF r] r by fastforce
qed

text \<open>
  C18. Client and server agree whatever the order in which the connections arrive.  If the client can
  encode its manifest, then for every order of accepting its control and data connections the server
  receives the manifest, its acknowledgement reads back on the client unchanged, and all final
  checks of the client pass.
\<close>
theorem session_agrees_in_any_order:
  assumes "validate_data_stream_count n = Inr ()" "send_manifest m d = Inr (bytes, k)"
    "client_streams session n bytes = Inr opened" "mset streams = mset opened"
  shows "\<exists>ack ack_bytes s. run_server session n (\<lambda>i. Inr (streams ! i)) = Inr (ack, ack_bytes) \<and>
     read_manifest_ack ack_bytes = Inr (ack, []) \<and> summarize_manifest m d = Inr s \<and>
     check_manifest_ack ack (Inr ack) s k n = Inr ()"
proof -
  obtain cs where cs: "mset cs = mset (client_connections session n bytes)" "map connection_bytes cs = streams"
    using mset_map_lift [of streams connection_bytes "mset (client_connections session n bytes)"] assms(3,4)
    by (auto simp: client_streams_connections)
  obtain r where r: "accept_connections session n (\<lambda>i. Inr (streams ! i)) = Inr (bytes, r)" "length (data_streams r) = n"
    using client_registration [OF assms(1) cs(1)] cs(2) by auto
  obtain s where s: "summarize_manifest m d = Inr s" using assms(2) by (auto simp: send_manifest_Inr)
  have "receive_manifest_entries bytes = Inr ((m, d, s, k), [])"
    using assms(2) s by (auto simp: receive_manifest_entries_Inr)
  then have recv: "receive_manifest bytes = Inr ((s, k), [])" by (simp add: receive_manifest_def rbind_def)
  let ?ack = "\<lparr>ack_summary = s, manifest_wire_bytes = k, ack_data_stream_count = of_nat n\<rparr>"
  obtain ab where ab: "write_manifest_ack ?ack = Inr ab" using ack_codec.write_valid by blast
  have "run_server session n (\<lambda>i. Inr (streams ! i)) = Inr (?ack, ab)" by (simp add: run_server_def r recv ab Let_def)
  moreover have "read_manifest_ack ab = Inr (?ack, [])" using ack_codec.read_exactly [OF _ ab] by simp
  ultimately show ?thesis using s by (intro exI [of _ ?ack] exI [of _ ab] exI [of _ s]) (simp add: check_manifest_ack_def)
qed

theorem session_agrees_in_any_order_witness:
  "\<exists>bytes k opened ack ack_bytes s. send_manifest [] [sample_directory] = Inr (bytes, k) \<and>
     client_streams 9 2 bytes = Inr opened \<and>
     run_server 9 2 (\<lambda>i. Inr (rev opened ! i)) = Inr (ack, ack_bytes) \<and>
     check_manifest_ack ack (Inr ack) s k 2 = Inr ()"
proof -
  obtain bytes k where b: "send_manifest [] [sample_directory] = Inr (bytes, k)" using sample_send by blast
  obtain opened where o: "client_streams 9 2 bytes = Inr opened" by (simp add: client_streams_connections)
  show ?thesis using session_agrees_in_any_order [OF sample_streams_valid b o, of "rev opened"] b o by auto
qed

end
