(* ===== verification/Resume_State.thy ===== *)
theory Resume_State
  imports Wire
begin

text \<open>
  The resume journal of an interrupted transfer (\<^verbatim>\<open>src/resume_state.rs\<close>): the stripes and
  files already committed at the destination, the journal file format (versions 1 and 2),
  and the publication protocol of \<^verbatim>\<open>save_atomic\<close> (write a temporary file, read it back,
  compare, replace).  The two files of the destination directory are explicit state, and
  every operating-system call may fail.
\<close>

section \<open>Stripes\<close>

datatype ResumeStripe =
  ResumeStripe (stripe_file_id: u64) (stripe_offset: u64) (stripe_length: u64)

text \<open>The derived \<^verbatim>\<open>Ord\<close>: lexicographic in declaration order.\<close>

instantiation ResumeStripe :: linorder
begin

definition less_ResumeStripe :: "ResumeStripe \<Rightarrow> ResumeStripe \<Rightarrow> bool" where
  "less_ResumeStripe a b \<longleftrightarrow>
     stripe_file_id a < stripe_file_id b \<or>
     stripe_file_id a = stripe_file_id b \<and>
       (stripe_offset a < stripe_offset b \<or>
        stripe_offset a = stripe_offset b \<and> stripe_length a < stripe_length b)"

definition less_eq_ResumeStripe :: "ResumeStripe \<Rightarrow> ResumeStripe \<Rightarrow> bool" where
  "less_eq_ResumeStripe a b \<longleftrightarrow> a < b \<or> a = b"

instance
proof
  fix x y z :: ResumeStripe
  show "(x < y) = (x \<le> y \<and> \<not> y \<le> x)"
    by (auto simp: less_eq_ResumeStripe_def less_ResumeStripe_def)
  show "x \<le> x" by (simp add: less_eq_ResumeStripe_def)
  show "x \<le> y \<Longrightarrow> y \<le> z \<Longrightarrow> x \<le> z"
    by (auto simp: less_eq_ResumeStripe_def less_ResumeStripe_def)
  show "x \<le> y \<Longrightarrow> y \<le> x \<Longrightarrow> x = y"
    by (auto simp: less_eq_ResumeStripe_def less_ResumeStripe_def)
  show "x \<le> y \<or> y \<le> x"
    by (cases x; cases y) (auto simp: less_eq_ResumeStripe_def less_ResumeStripe_def)
qed

end

definition ResumeStripe_new :: "usize \<Rightarrow> u64 \<Rightarrow> u64 \<Rightarrow> ResumeStripe io_result" where
  "ResumeStripe_new file_id offset len =
     (if len = 0 then Inl InvalidInput
      else ebind (word_try_from InvalidInput file_id) (\<lambda>fid. Inr (ResumeStripe fid offset len)))"

section \<open>The journal\<close>

definition JOURNAL_MAGIC :: "byte list" where "JOURNAL_MAGIC = [0x4E, 0x43, 0x52, 0x31]"
definition JOURNAL_VERSION_V1 :: u16 where "JOURNAL_VERSION_V1 = 1"
definition JOURNAL_VERSION :: u16 where "JOURNAL_VERSION = 2"
definition MAX_COMPLETED_STRIPES :: u32 where "MAX_COMPLETED_STRIPES = 10000000"
definition MAX_COMPLETED_FILES :: u32 where "MAX_COMPLETED_FILES = 1000000"

lemmas journal_consts =
  JOURNAL_MAGIC_def JOURNAL_VERSION_V1_def JOURNAL_VERSION_def MAX_COMPLETED_STRIPES_def
  MAX_COMPLETED_FILES_def

record ResumeJournal =
  manifest_fingerprint :: u64
  data_stream_count :: u32
  completed_stripes :: "ResumeStripe fset"
  completed_file_ids :: "usize fset"

definition ResumeJournal_new :: "u64 \<Rightarrow> usize \<Rightarrow> ResumeJournal io_result" where
  "ResumeJournal_new fingerprint stream_count =
     (if stream_count = 0 then Inl InvalidInput
      else ebind (word_try_from InvalidInput stream_count) (\<lambda>n.
        Inr \<lparr>manifest_fingerprint = fingerprint, data_stream_count = n,
             completed_stripes = {||}, completed_file_ids = {||}\<rparr>))"

definition mark_completed :: "ResumeStripe \<Rightarrow> ResumeJournal \<Rightarrow> bool \<times> ResumeJournal" where
  "mark_completed stripe j =
     (stripe |\<notin>| completed_stripes j, j\<lparr>completed_stripes := finsert stripe (completed_stripes j)\<rparr>)"

definition mark_file_completed :: "usize \<Rightarrow> ResumeJournal \<Rightarrow> bool \<times> ResumeJournal" where
  "mark_file_completed file_id j =
     (file_id |\<notin>| completed_file_ids j,
      j\<lparr>completed_file_ids := finsert file_id (completed_file_ids j)\<rparr>)"

text \<open>The iterators \<^verbatim>\<open>completed_stripes()\<close> and \<^verbatim>\<open>completed_file_ids()\<close> of a \<^verbatim>\<open>BTreeSet\<close>.\<close>

definition completed_stripes_iter :: "ResumeJournal \<Rightarrow> ResumeStripe list" where
  "completed_stripes_iter j = sorted_list_of_fset (completed_stripes j)"

definition completed_file_ids_iter :: "ResumeJournal \<Rightarrow> usize list" where
  "completed_file_ids_iter j = sorted_list_of_fset (completed_file_ids j)"

definition remove_completed_files :: "usize fset \<Rightarrow> ResumeJournal \<Rightarrow> bool \<times> ResumeJournal" where
  "remove_completed_files file_ids j =
     (let stripes = ffilter (\<lambda>s. unat (stripe_file_id s) |\<notin>| file_ids) (completed_stripes j);
          files = ffilter (\<lambda>f. f |\<notin>| file_ids) (completed_file_ids j)
      in (fcard stripes \<noteq> fcard (completed_stripes j) \<or> fcard files \<noteq> fcard (completed_file_ids j),
          j\<lparr>completed_stripes := stripes, completed_file_ids := files\<rparr>))"

section \<open>The file format\<close>

definition write_stripe :: "ResumeStripe \<Rightarrow> byte list io_result" where
  "write_stripe s =
     wcat [Inr (to_be_bytes (stripe_file_id s)), Inr (to_be_bytes (stripe_offset s)),
           Inr (to_be_bytes (stripe_length s))]"

definition write_completed_file_id :: "usize \<Rightarrow> byte list io_result" where
  "write_completed_file_id file_id =
     ebind (word_try_from InvalidInput file_id) (\<lambda>w :: u64. Inr (to_be_bytes w))"

definition journal_write_to :: "ResumeJournal \<Rightarrow> byte list io_result" where
  "journal_write_to j =
     wcat ([Inr JOURNAL_MAGIC, Inr (to_be_bytes JOURNAL_VERSION), Inr (to_be_bytes (0 :: u16)),
            Inr (to_be_bytes (manifest_fingerprint j)), Inr (to_be_bytes (data_stream_count j)),
            ebind (word_try_from InvalidInput (fcard (completed_stripes j)))
              (\<lambda>n :: u32. Inr (to_be_bytes n)),
            ebind (word_try_from InvalidInput (fcard (completed_file_ids j)))
              (\<lambda>n :: u32. Inr (to_be_bytes n))]
           @ map write_stripe (completed_stripes_iter j)
           @ map write_completed_file_id (completed_file_ids_iter j))"

definition read_stripe :: "ResumeStripe reader" where
  "read_stripe =
     rbind read_be (\<lambda>fid. rbind read_be (\<lambda>off. rbind read_be (\<lambda>len.
     rbind (rguard (len \<noteq> 0) InvalidData) (\<lambda>_. rret (ResumeStripe fid off len)))))"

definition read_completed_file_id :: "usize reader" where
  "read_completed_file_id = rbind read_be (\<lambda>w. rlift (usize_try_from InvalidData w))"

definition read_journal_body :: "ResumeJournal reader" where
  "read_journal_body =
     rbind (read_exact 4) (\<lambda>magic.
     rbind (rguard (magic = JOURNAL_MAGIC) InvalidData) (\<lambda>_.
     rbind read_be (\<lambda>version :: u16.
     rbind (rguard (version = JOURNAL_VERSION_V1 \<or> version = JOURNAL_VERSION) InvalidData) (\<lambda>_.
     rbind read_be (\<lambda>reserved :: u16.
     rbind (rguard (reserved = 0) InvalidData) (\<lambda>_.
     rbind read_be (\<lambda>fingerprint :: u64.
     rbind read_be (\<lambda>stream_count :: u32.
     rbind (rguard (stream_count \<noteq> 0) InvalidData) (\<lambda>_.
     rbind read_be (\<lambda>stripe_count :: u32.
     rbind (if version \<ge> JOURNAL_VERSION then read_be else rret 0) (\<lambda>file_count :: u32.
     rbind (rguard (stripe_count \<le> MAX_COMPLETED_STRIPES) InvalidData) (\<lambda>_.
     rbind (rguard (file_count \<le> MAX_COMPLETED_FILES) InvalidData) (\<lambda>_.
     rbind (rfor (unat stripe_count) (read_insert InvalidData read_stripe) {||}) (\<lambda>stripes.
     rbind (rfor (unat file_count) (read_insert InvalidData read_completed_file_id) {||}) (\<lambda>files.
       rret \<lparr>manifest_fingerprint = fingerprint, data_stream_count = stream_count,
             completed_stripes = stripes, completed_file_ids = files\<rparr>)))))))))))))))"

text \<open>\<^verbatim>\<open>read_path\<close> on the contents of the opened file: the trailing read must return zero bytes.\<close>

definition parse_journal :: "byte list \<Rightarrow> ResumeJournal io_result" where
  "parse_journal contents =
     ebind (read_journal_body contents)
       (\<lambda>(j, trailing). if trailing \<noteq> [] then Inl InvalidData else Inr j)"

section \<open>The destination directory\<close>

text \<open>
  \<open>JournalDir\<close> is the part of the destination directory the journal code touches: the
  published journal \<^verbatim>\<open>.networkcopy-resume.bin\<close> and the temporary file beside it.
  \<open>SaveFaults\<close> says which operating-system calls of one save fail, and what a failed write
  left in the temporary file.  \<^verbatim>\<open>MoveFileExW\<close> with \<^verbatim>\<open>MOVEFILE_REPLACE_EXISTING\<close> either moves the
  file over the old one or fails and moves nothing.
\<close>

record JournalDir =
  journal_file :: "byte list option"
  temporary_file :: "byte list option"

record SaveFaults =
  canonicalize_fault :: "error_kind option"
  remove_fault :: "error_kind option"
  open_fault :: "error_kind option"
  write_fault :: "error_kind option"
  partial_contents :: "byte list"
  sync_fault :: "error_kind option"
  reopen_fault :: "error_kind option"
  replace_fault :: "error_kind option"
  cleanup_fault :: "error_kind option"

definition remove_file :: "error_kind option \<Rightarrow> byte list option \<Rightarrow> unit io_result \<times> byte list option" where
  "remove_file fault file =
     (case fault of Some e \<Rightarrow> (Inl e, file)
      | None \<Rightarrow> (case file of None \<Rightarrow> (Inl NotFound, None) | Some _ \<Rightarrow> (Inr (), None)))"

definition read_path :: "error_kind option \<Rightarrow> byte list option \<Rightarrow> ResumeJournal io_result" where
  "read_path fault file =
     (case fault of Some e \<Rightarrow> Inl e
      | None \<Rightarrow> (case file of None \<Rightarrow> Inl NotFound | Some contents \<Rightarrow> parse_journal contents))"

definition write_temporary :: "SaveFaults \<Rightarrow> ResumeJournal \<Rightarrow> JournalDir \<Rightarrow> unit io_result \<times> JournalDir" where
  "write_temporary faults j d =
     (case open_fault faults of Some e \<Rightarrow> (Inl e, d)
      | None \<Rightarrow>
        (if temporary_file d \<noteq> None then (Inl AlreadyExists, d)
         else (case (write_fault faults, journal_write_to j) of
             (Some e, _) \<Rightarrow> (Inl e, d\<lparr>temporary_file := Some (partial_contents faults)\<rparr>)
           | (None, Inl e) \<Rightarrow> (Inl e, d\<lparr>temporary_file := Some (partial_contents faults)\<rparr>)
           | (None, Inr contents) \<Rightarrow>
               (case sync_fault faults of
                  Some e \<Rightarrow> (Inl e, d\<lparr>temporary_file := Some contents\<rparr>)
                | None \<Rightarrow> (Inr (), d\<lparr>temporary_file := Some contents\<rparr>)))))"

definition replace_file :: "error_kind option \<Rightarrow> JournalDir \<Rightarrow> unit io_result \<times> JournalDir" where
  "replace_file fault d =
     (case fault of Some e \<Rightarrow> (Inl e, d)
      | None \<Rightarrow> (case temporary_file d of None \<Rightarrow> (Inl NotFound, d)
          | Some contents \<Rightarrow> (Inr (), \<lparr>journal_file = Some contents, temporary_file = None\<rparr>)))"

definition publish_journal :: "SaveFaults \<Rightarrow> ResumeJournal \<Rightarrow> JournalDir \<Rightarrow> unit io_result \<times> JournalDir" where
  "publish_journal faults j d =
     (case write_temporary faults j d of
        (Inl e, d1) \<Rightarrow> (Inl e, d1)
      | (Inr _, d1) \<Rightarrow>
          (case read_path (reopen_fault faults) (temporary_file d1) of
             Inl e \<Rightarrow> (Inl e, d1)
           | Inr reloaded \<Rightarrow>
               if reloaded \<noteq> j then (Inl InvalidData, d1)
               else replace_file (replace_fault faults) d1))"

definition save_atomic :: "SaveFaults \<Rightarrow> ResumeJournal \<Rightarrow> JournalDir \<Rightarrow> unit io_result \<times> JournalDir" where
  "save_atomic faults j d =
     (case canonicalize_fault faults of Some e \<Rightarrow> (Inl e, d)
      | None \<Rightarrow>
        (case remove_file (remove_fault faults) (temporary_file d) of (removed, temp) \<Rightarrow>
          (if removed \<noteq> Inr () \<and> removed \<noteq> Inl NotFound
           then (removed, d\<lparr>temporary_file := temp\<rparr>)
           else (case publish_journal faults j (d\<lparr>temporary_file := temp\<rparr>) of
               (Inr u, d2) \<Rightarrow> (Inr u, d2)
             | (Inl e, d2) \<Rightarrow>
                 (Inl e, d2\<lparr>temporary_file := snd (remove_file (cleanup_fault faults) (temporary_file d2))\<rparr>)))))"

definition load_existing ::
    "error_kind option \<Rightarrow> JournalDir \<Rightarrow> u64 \<Rightarrow> usize \<Rightarrow> ResumeJournal io_result" where
  "load_existing fault d expected_fingerprint expected_count =
     ebind (word_try_from InvalidInput expected_count) (\<lambda>count :: u32.
     ebind (read_path fault (journal_file d)) (\<lambda>j.
       if manifest_fingerprint j \<noteq> expected_fingerprint then Inl InvalidData
       else if data_stream_count j \<noteq> count then Inl InvalidData
       else Inr j))"

definition stored_data_stream_count ::
    "error_kind option \<Rightarrow> error_kind option \<Rightarrow> JournalDir \<Rightarrow> usize option io_result" where
  "stored_data_stream_count exists_fault fault d =
     (case exists_fault of Some e \<Rightarrow> Inl e
      | None \<Rightarrow>
        (if journal_file d = None then Inr None
         else ebind (read_path fault (journal_file d))
                (\<lambda>j. Inr (Some (unat (data_stream_count j))))))"

definition journal_remove :: "error_kind option \<Rightarrow> JournalDir \<Rightarrow> unit io_result \<times> JournalDir" where
  "journal_remove fault d =
     (case remove_file fault (journal_file d) of (r, file) \<Rightarrow>
        ((if r = Inl NotFound then Inr () else r), d\<lparr>journal_file := file\<rparr>))"

section \<open>Well-formed journals\<close>

definition journal_wf :: "ResumeJournal \<Rightarrow> bool" where
  "journal_wf j \<longleftrightarrow>
     data_stream_count j \<noteq> 0 \<and>
     (\<forall>s. s |\<in>| completed_stripes j \<longrightarrow> stripe_length s \<noteq> 0) \<and>
     (\<forall>f. f |\<in>| completed_file_ids j \<longrightarrow> f \<le> usize_max) \<and>
     fcard (completed_stripes j) \<le> unat MAX_COMPLETED_STRIPES \<and>
     fcard (completed_file_ids j) \<le> unat MAX_COMPLETED_FILES"

lemma read_stripe_Inr:
  "read_stripe bs = Inr (s, rest) \<longleftrightarrow>
   stripe_length s \<noteq> 0 \<and> bs = to_be_bytes (stripe_file_id s) @ to_be_bytes (stripe_offset s) @
     to_be_bytes (stripe_length s) @ rest"
  by (cases s) (auto simp: read_stripe_def rbind_Inr rguard_Inr read_be_iffs)

interpretation stripe_codec: canonical_codec write_stripe read_stripe "\<lambda>s. stripe_length s \<noteq> 0"
  by unfold_locales (auto simp: write_stripe_def read_stripe_Inr)

lemma usize_le_iff: "n \<le> usize_max \<longleftrightarrow> n < 2 ^ LENGTH(64)"
  by (auto simp: usize_max_def)

lemma read_completed_file_id_Inr:
  "read_completed_file_id bs = Inr (n, rest) \<longleftrightarrow>
   n \<le> usize_max \<and> bs = to_be_bytes (of_nat n :: u64) @ rest"
proof
  assume "read_completed_file_id bs = Inr (n, rest)"
  then obtain w :: u64 where "bs = to_be_bytes w @ rest" "n = unat w"
    by (auto simp: read_completed_file_id_def rbind_Inr read_be_iffs)
  moreover have "unat w \<le> usize_max" using unat_less_2p [of w] by (simp only: usize_le_iff)
  ultimately show "n \<le> usize_max \<and> bs = to_be_bytes (of_nat n :: u64) @ rest" by simp
next
  assume "n \<le> usize_max \<and> bs = to_be_bytes (of_nat n :: u64) @ rest"
  then show "read_completed_file_id bs = Inr (n, rest)"
    by (simp add: read_completed_file_id_def rbind_eq read_be_simps unat_of_nat_small usize_le_iff
        del: len_num0)
qed

interpretation file_id_codec:
  canonical_codec write_completed_file_id read_completed_file_id "\<lambda>n. n \<le> usize_max"
  by unfold_locales
    (auto simp: write_completed_file_id_def read_completed_file_id_Inr word_try_from_def usize_le_iff
      split: if_splits)

lemma journal_wf_counts:
  assumes "journal_wf j"
  shows "word_try_from InvalidInput (fcard (completed_stripes j)) =
      Inr (of_nat (fcard (completed_stripes j)) :: u32)"
    and "word_try_from InvalidInput (fcard (completed_file_ids j)) =
      Inr (of_nat (fcard (completed_file_ids j)) :: u32)"
    and "unat (of_nat (fcard (completed_stripes j)) :: u32) = fcard (completed_stripes j)"
    and "unat (of_nat (fcard (completed_file_ids j)) :: u32) = fcard (completed_file_ids j)"
  using assms
  by (simp_all add: journal_wf_def journal_consts word_try_from_def unat_of_nat_small)

lemma journal_write_to_wf:
  assumes "journal_wf j"
  obtains sb fb where
    "wcat (map write_stripe (completed_stripes_iter j)) = Inr sb"
    "wcat (map write_completed_file_id (completed_file_ids_iter j)) = Inr fb"
    "journal_write_to j = Inr (JOURNAL_MAGIC @ to_be_bytes JOURNAL_VERSION @ to_be_bytes (0 :: u16) @
       to_be_bytes (manifest_fingerprint j) @ to_be_bytes (data_stream_count j) @
       to_be_bytes (of_nat (fcard (completed_stripes j)) :: u32) @
       to_be_bytes (of_nat (fcard (completed_file_ids j)) :: u32) @ sb @ fb)"
proof -
  have "\<forall>s \<in> set (completed_stripes_iter j). stripe_length s \<noteq> 0"
    and "\<forall>f \<in> set (completed_file_ids_iter j). f \<le> usize_max"
    using assms by (auto simp: journal_wf_def completed_stripes_iter_def completed_file_ids_iter_def)
  then obtain sb fb where w: "wcat (map write_stripe (completed_stripes_iter j)) = Inr sb"
      "wcat (map write_completed_file_id (completed_file_ids_iter j)) = Inr fb"
    using stripe_codec.wcat_valid file_id_codec.wcat_valid by blast
  show ?thesis
    by (rule that [OF w]) (simp add: journal_write_to_def wcat_append w journal_wf_counts [OF assms])
qed

lemma read_stripes_back:
  assumes "journal_wf j" "wcat (map write_stripe (completed_stripes_iter j)) = Inr sb"
  shows "rfor (fcard (completed_stripes j)) (read_insert InvalidData read_stripe) {||} (sb @ rest) =
    Inr (completed_stripes j, rest)"
  using assms stripe_codec.rfor_insert_write [of "completed_stripes_iter j" "{||}" sb InvalidData rest]
  by (simp add: journal_wf_def completed_stripes_iter_def)

lemma read_file_ids_back:
  assumes "journal_wf j" "wcat (map write_completed_file_id (completed_file_ids_iter j)) = Inr fb"
  shows "rfor (fcard (completed_file_ids j)) (read_insert InvalidData read_completed_file_id) {||} (fb @ rest) =
    Inr (completed_file_ids j, rest)"
  using assms file_id_codec.rfor_insert_write [of "completed_file_ids_iter j" "{||}" fb InvalidData rest]
  by (simp add: journal_wf_def completed_file_ids_iter_def)

lemma journal_body_round_trip:
  assumes "journal_wf j" "journal_write_to j = Inr bs"
  shows "read_journal_body (bs @ rest) = Inr (j, rest)"
proof -
  obtain sb fb where w: "wcat (map write_stripe (completed_stripes_iter j)) = Inr sb"
      "wcat (map write_completed_file_id (completed_file_ids_iter j)) = Inr fb"
    and bs: "bs = JOURNAL_MAGIC @ to_be_bytes JOURNAL_VERSION @ to_be_bytes (0 :: u16) @
       to_be_bytes (manifest_fingerprint j) @ to_be_bytes (data_stream_count j) @
       to_be_bytes (of_nat (fcard (completed_stripes j)) :: u32) @
       to_be_bytes (of_nat (fcard (completed_file_ids j)) :: u32) @ sb @ fb"
    using journal_write_to_wf [OF assms(1)] assms(2) by auto
  have limits: "(of_nat (fcard (completed_stripes j)) :: u32) \<le> MAX_COMPLETED_STRIPES"
      "(of_nat (fcard (completed_file_ids j)) :: u32) \<le> MAX_COMPLETED_FILES"
    using assms(1) by (simp_all add: word_le_nat_alt journal_wf_counts journal_wf_def)
  have magic: "read_exact 4 (JOURNAL_MAGIC @ xs) = Inr (JOURNAL_MAGIC, xs)" for xs
    by (rule read_exact_append) (simp add: JOURNAL_MAGIC_def)
  from assms(1) have "data_stream_count j \<noteq> 0" by (simp add: journal_wf_def)
  then show ?thesis
    unfolding bs read_journal_body_def
    by (simp add: rbind_eq magic read_be_simps limits journal_wf_counts(3,4) [OF assms(1)]
        read_stripes_back [OF assms(1) w(1)] read_file_ids_back [OF assms(1) w(2)])
qed

interpretation journal_codec: wire_codec journal_write_to read_journal_body journal_wf
proof
  show "journal_wf j \<Longrightarrow> \<exists>bs. journal_write_to j = Inr bs" for j
    by (erule journal_write_to_wf) blast
qed (rule journal_body_round_trip)

lemma read_journal_body_wf:
  assumes "read_journal_body bs = Inr (j, rest)"
  shows "journal_wf j"
proof -
  from assms obtain n m :: u32 and b1 r1 b2 r2 where
      n: "n \<le> MAX_COMPLETED_STRIPES" "m \<le> MAX_COMPLETED_FILES" "data_stream_count j \<noteq> 0"
    and s: "rfor (unat n) (read_insert InvalidData read_stripe) {||} b1 = Inr (completed_stripes j, r1)"
    and f: "rfor (unat m) (read_insert InvalidData read_completed_file_id) {||} b2 =
        Inr (completed_file_ids j, r2)"
    unfolding read_journal_body_def
    by (auto simp: rbind_Inr rguard_Inr)
  have "fcard (completed_stripes j) = unat n \<and> (\<forall>x. x |\<in>| completed_stripes j \<longrightarrow> stripe_length x \<noteq> 0)"
    using rfor_insert_Inr [OF s, of "\<lambda>x. stripe_length x \<noteq> 0"] by (simp add: read_stripe_Inr)
  moreover have "fcard (completed_file_ids j) = unat m \<and> (\<forall>x. x |\<in>| completed_file_ids j \<longrightarrow> x \<le> usize_max)"
    using rfor_insert_Inr [OF f, of "\<lambda>x. x \<le> usize_max"] by (simp add: read_completed_file_id_Inr)
  ultimately show ?thesis using n by (simp add: journal_wf_def word_le_nat_alt)
qed

lemma parse_journal_write: "journal_wf j \<Longrightarrow> journal_write_to j = Inr bs \<Longrightarrow> parse_journal bs = Inr j"
  by (simp add: parse_journal_def journal_codec.read_exactly)

lemma parse_journal_wf: "parse_journal bs = Inr j \<Longrightarrow> journal_wf j"
  by (auto simp: parse_journal_def result_simps intro: read_journal_body_wf split: if_splits)

lemma write_temporary_Inr:
  "write_temporary faults j d = (Inr u, d') \<Longrightarrow>
   \<exists>contents. journal_write_to j = Inr contents \<and> d' = d\<lparr>temporary_file := Some contents\<rparr>"
  by (auto simp: write_temporary_def split: option.splits sum.splits if_splits)

lemma write_temporary_journal: "journal_file (snd (write_temporary faults j d)) = journal_file d"
  by (auto simp: write_temporary_def split: option.splits sum.splits)

lemma publish_journal_Inr:
  assumes "publish_journal faults j d = (Inr u, d')"
  shows "\<exists>contents. journal_write_to j = Inr contents \<and> parse_journal contents = Inr j \<and>
    d' = \<lparr>journal_file = Some contents, temporary_file = None\<rparr>"
proof -
  from assms obtain v d1 where w: "write_temporary faults j d = (Inr v, d1)"
    and r: "read_path (reopen_fault faults) (temporary_file d1) = Inr j"
    and m: "replace_file (replace_fault faults) d1 = (Inr u, d')"
    by (auto simp: publish_journal_def split: prod.splits sum.splits if_splits)
  from write_temporary_Inr [OF w] r m show ?thesis
    by (auto simp: read_path_def replace_file_def split: option.splits)
qed

lemma publish_journal_Inl:
  "publish_journal faults j d = (Inl e, d') \<Longrightarrow> journal_file d' = journal_file d"
  using write_temporary_journal [of faults j d]
  by (auto simp: publish_journal_def replace_file_def split: prod.splits sum.splits if_splits option.splits)

lemma save_atomic_Inr:
  "save_atomic faults j d = (Inr u, d') \<Longrightarrow>
   temporary_file d' = None \<and>
     (\<exists>contents. journal_file d' = Some contents \<and> parse_journal contents = Inr j)"
  by (auto simp: save_atomic_def split: option.splits prod.splits sum.splits if_splits
      dest: publish_journal_Inr)

lemma save_atomic_Inl:
  "save_atomic faults j d = (Inl e, d') \<Longrightarrow> journal_file d' = journal_file d"
  by (auto simp: save_atomic_def split: option.splits prod.splits sum.splits if_splits
      dest: publish_journal_Inl)

text \<open>
  C8. A save is all or nothing whatever operating-system call fails and whatever the
  journal holds: when it reports success the published file parses back to exactly the
  saved journal and no temporary file is left; when it reports an error the previously
  published journal is untouched.
\<close>

theorem save_atomic_all_or_nothing:
  "case save_atomic faults j d of
     (Inr _, d') \<Rightarrow> temporary_file d' = None \<and>
        (\<exists>contents. journal_file d' = Some contents \<and> parse_journal contents = Inr j)
   | (Inl _, d') \<Rightarrow> journal_file d' = journal_file d"
  by (auto split: prod.splits sum.splits dest: save_atomic_Inr save_atomic_Inl)

lemma save_atomic_succeeds:
  assumes "journal_wf j" "canonicalize_fault faults = None" "remove_fault faults = None"
    "open_fault faults = None" "write_fault faults = None" "sync_fault faults = None"
    "reopen_fault faults = None" "replace_fault faults = None"
  shows "\<exists>d'. save_atomic faults j d = (Inr (), d')"
proof -
  obtain bs where bs: "journal_write_to j = Inr bs"
    using journal_codec.write_valid [OF assms(1)] by blast
  have "parse_journal bs = Inr j" using parse_journal_write [OF assms(1) bs] .
  with assms bs show ?thesis
    by (cases "temporary_file d")
      (simp_all add: save_atomic_def remove_file_def publish_journal_def write_temporary_def
        read_path_def replace_file_def)
qed

text \<open>
   A journal a transfer can produce is saved and loaded back unchanged: without
  operating-system failures \<open>save_atomic\<close> succeeds on every well-formed journal, and
  \<open>load_existing\<close> with the journal's own fingerprint and stream count then returns it.
\<close>

theorem save_then_load:
  assumes "journal_wf j" "canonicalize_fault faults = None" "remove_fault faults = None"
    "open_fault faults = None" "write_fault faults = None" "sync_fault faults = None"
    "reopen_fault faults = None" "replace_fault faults = None"
  shows "\<exists>d'. save_atomic faults j d = (Inr (), d') \<and>
    load_existing None d' (manifest_fingerprint j) (unat (data_stream_count j)) = Inr j"
proof -
  obtain d' where d': "save_atomic faults j d = (Inr (), d')"
    using save_atomic_succeeds [OF assms] by blast
  moreover obtain bs where "journal_file d' = Some bs" "parse_journal bs = Inr j"
    using save_atomic_Inr [OF d'] by blast
  ultimately show ?thesis
    by (simp add: load_existing_def read_path_def)
qed

definition no_faults :: SaveFaults where
  "no_faults = \<lparr>canonicalize_fault = None, remove_fault = None, open_fault = None,
     write_fault = None, partial_contents = [], sync_fault = None, reopen_fault = None,
     replace_fault = None, cleanup_fault = None\<rparr>"

definition sample_journal :: ResumeJournal where
  "sample_journal = \<lparr>manifest_fingerprint = 5, data_stream_count = 4,
     completed_stripes = {|ResumeStripe 1 0 64|}, completed_file_ids = {|3|}\<rparr>"

lemma sample_journal_wf: "journal_wf sample_journal"
  by (simp add: journal_wf_def sample_journal_def journal_consts usize_max_def fcard_finsert_if
      fcard.rep_eq)

theorem save_then_load_witness:
  "journal_wf sample_journal \<and>
   (\<exists>d'. save_atomic no_faults sample_journal \<lparr>journal_file = None, temporary_file = Some [1]\<rparr> = (Inr (), d') \<and>
     load_existing None d' (manifest_fingerprint sample_journal)
       (unat (data_stream_count sample_journal)) = Inr sample_journal)"
proof
  show "journal_wf sample_journal" by (rule sample_journal_wf)
  show "\<exists>d'. save_atomic no_faults sample_journal \<lparr>journal_file = None, temporary_file = Some [1]\<rparr> = (Inr (), d') \<and>
     load_existing None d' (manifest_fingerprint sample_journal)
       (unat (data_stream_count sample_journal)) = Inr sample_journal"
    by (rule save_then_load [OF sample_journal_wf]) (simp_all add: no_faults_def)
qed

text \<open>
   Whatever bytes are found in a journal file, if they are accepted the journal they
  give is well formed (at least one stream, no empty stripe, counts within the limits,
  every file ID representable) and is itself preserved by writing it out and reading it
  again.
\<close>

theorem accepted_journal_stable:
  assumes "parse_journal bs = Inr j"
  shows "journal_wf j \<and> (\<exists>bs'. journal_write_to j = Inr bs' \<and> parse_journal bs' = Inr j)"
proof -
  have wf: "journal_wf j" using assms by (rule parse_journal_wf)
  with journal_codec.write_valid [OF wf] parse_journal_write [OF wf] show ?thesis by blast
qed

definition v1_journal_bytes :: "byte list" where
  "v1_journal_bytes = [0x4E, 0x43, 0x52, 0x31, 0, 1, 0, 0, 0, 0, 0, 0, 0, 0, 0, 9, 0, 0, 0, 2,
     0, 0, 0, 1, 0, 0, 0, 0, 0, 0, 0, 1, 0, 0, 0, 0, 0, 0, 0, 0, 0, 0, 0, 0, 0, 0, 0, 64]"

lemma parse_v1_journal:
  "parse_journal v1_journal_bytes =
   Inr \<lparr>manifest_fingerprint = 9, data_stream_count = 2,
        completed_stripes = {|ResumeStripe 1 0 64|}, completed_file_ids = {||}\<rparr>"
  by (simp add: v1_journal_bytes_def parse_journal_def read_journal_body_def rbind_def read_be_def
      read_exact_def from_be_bytes_def journal_consts rlift_def read_insert_def read_stripe_def
      rguard_def word_le_nat_alt)

theorem accepted_journal_stable_witness:
  "parse_journal v1_journal_bytes =
     Inr \<lparr>manifest_fingerprint = 9, data_stream_count = 2,
          completed_stripes = {|ResumeStripe 1 0 64|}, completed_file_ids = {||}\<rparr> \<and>
   journal_wf \<lparr>manifest_fingerprint = 9, data_stream_count = 2,
          completed_stripes = {|ResumeStripe 1 0 64|}, completed_file_ids = {||}\<rparr>"
  using parse_v1_journal accepted_journal_stable [OF parse_v1_journal] by simp

lemma fcard_ffilter_eq: "fcard (ffilter P S) = fcard S \<longleftrightarrow> ffilter P S = S"
proof
  assume "fcard (ffilter P S) = fcard S"
  then show "ffilter P S = S" by (intro fcard_seteq) auto
qed simp

text \<open>
   Invalidating files removes from the journal every stripe and every completion record
  of those files and nothing else, and the returned flag says whether the journal changed.
\<close>

theorem remove_completed_files_exact:
  "case remove_completed_files file_ids j of (changed, j') \<Rightarrow>
     (\<forall>s. s |\<in>| completed_stripes j' \<longleftrightarrow>
        s |\<in>| completed_stripes j \<and> unat (stripe_file_id s) |\<notin>| file_ids) \<and>
     (\<forall>f. f |\<in>| completed_file_ids j' \<longleftrightarrow> f |\<in>| completed_file_ids j \<and> f |\<notin>| file_ids) \<and>
     (changed \<longleftrightarrow> j' \<noteq> j)"
  by (cases j) (auto simp: remove_completed_files_def fcard_ffilter_eq Let_def)

lemma remove_completed_files_wf:
  "journal_wf j \<Longrightarrow> journal_wf (snd (remove_completed_files file_ids j))"
proof -
  assume wf: "journal_wf j"
  have "fcard (ffilter P (completed_stripes j)) \<le> fcard (completed_stripes j)"
    "fcard (ffilter Q (completed_file_ids j)) \<le> fcard (completed_file_ids j)" for P Q
    by (auto intro: fcard_mono)
  then show ?thesis
    using wf by (auto simp: remove_completed_files_def journal_wf_def Let_def intro: order_trans)
qed

lemma ResumeJournal_new_wf: "ResumeJournal_new fp n = Inr j \<Longrightarrow> journal_wf j"
proof -
  assume "ResumeJournal_new fp n = Inr j"
  then obtain c :: u32 where n: "n \<noteq> 0" and c: "word_try_from InvalidInput n = Inr c"
    and j: "j = \<lparr>manifest_fingerprint = fp, data_stream_count = c,
      completed_stripes = {||}, completed_file_ids = {||}\<rparr>"
    by (auto simp: ResumeJournal_new_def result_simps split: if_splits)
  have "c \<noteq> 0" using n word_try_from_unat [OF c] by auto
  then show ?thesis by (simp add: j journal_wf_def fcard_fempty)
qed

end
