(* ===== verification/Transfer_Plan.thy ===== *)
theory Transfer_Plan
  imports Manifest Resume_State "HOL-Library.Multiset"
begin

text \<open>
  Transfer planning of \<^verbatim>\<open>src/multistream_copy.rs\<close>: stripes of large files
  (\<^verbatim>\<open>stripe_range\<close> of \<^verbatim>\<open>src/striped_file.rs\<close>), tiny-file packs, the assignment of tasks to the
  least loaded lane, and the removal of what the receiver already has.  File IDs and lane indices are
  \<^verbatim>\<open>usize\<close>; byte counts are 64-bit words with checked addition.
\<close>

section \<open>Tasks and plans\<close>

definition MAX_RESUME_STRIPE_BYTES :: u64 where "MAX_RESUME_STRIPE_BYTES = 128 * 1024 * 1024"
definition TINY_PACK_TARGET_BYTES :: u64 where "TINY_PACK_TARGET_BYTES = 8 * 1024 * 1024"
definition MAX_TINY_PACK_FILES :: usize where "MAX_TINY_PACK_FILES = 4096"
definition MAX_UNCHANGED_OFFER_FILES :: u32 where "MAX_UNCHANGED_OFFER_FILES = 1000000"

datatype TransferTask =
    WholeFile usize
  | TinyPack "usize list" u64
  | Stripe usize u64 u64

record TransferPlan =
  lanes :: "TransferTask list list"

text \<open>\<^verbatim>\<open>u64::div_ceil\<close>.\<close>

definition div_ceil :: "u64 \<Rightarrow> u64 \<Rightarrow> u64" where
  "div_ceil a b = (if a mod b = 0 then a div b else a div b + 1)"

section \<open>Stripes\<close>

definition stripe_range :: "u64 \<Rightarrow> usize \<Rightarrow> usize \<Rightarrow> (u64 \<times> u64) io_result" where
  "stripe_range file_len stream_id n_streams =
     (if n_streams = 0 \<or> stream_id \<ge> n_streams then Inl InvalidInput
      else if file_len = 0 then Inr (0, 0)
      else
        (let stripe_size = div_ceil file_len (of_nat n_streams) in
         ebind (ok_or OtherError (checked_mul stripe_size (of_nat stream_id))) (\<lambda>offset.
           if offset \<ge> file_len then Inr (file_len, 0)
           else Inr (offset, min (file_len - offset) stripe_size))))"

definition large_file_stripe_count :: "u64 \<Rightarrow> usize \<Rightarrow> usize io_result" where
  "large_file_stripe_count file_len n_streams =
     (if n_streams = 0 then Inl InvalidInput
      else
        ebind (usize_try_from InvalidInput (div_ceil file_len MAX_RESUME_STRIPE_BYTES)) (\<lambda>checkpoint_count.
          Inr (max n_streams (max checkpoint_count 1))))"

definition validate_stripe :: "ManifestEntry \<Rightarrow> u64 \<Rightarrow> u64 \<Rightarrow> unit io_result" where
  "validate_stripe entry offset len =
     (if file_class entry \<noteq> Large then Inl InvalidData
      else ebind (ok_or InvalidData (checked_add offset len)) (\<lambda>stop.
        if len = 0 \<or> stop > file_size entry then Inl InvalidData else Inr ()))"

section \<open>Lane assignment\<close>

record LaneState =
  lane_tasks :: "TransferTask list list"
  assigned_bytes :: "u64 list"

text \<open>\<^verbatim>\<open>min_by_key\<close> returns the first of several minimal elements.\<close>

definition lane_key :: "TransferTask list list \<Rightarrow> u64 list \<Rightarrow> usize \<Rightarrow> nat \<times> nat" where
  "lane_key ls bytes i = (unat (bytes ! i), length (ls ! i))"

definition key_less :: "nat \<times> nat \<Rightarrow> nat \<times> nat \<Rightarrow> bool" where
  "key_less a b \<longleftrightarrow> fst a < fst b \<or> fst a = fst b \<and> snd a < snd b"

definition least_loaded_lane :: "TransferTask list list \<Rightarrow> u64 list \<Rightarrow> usize io_result" where
  "least_loaded_lane ls bytes =
     (case [0..<length bytes] of
        [] \<Rightarrow> Inl OtherError
      | i # is \<Rightarrow> Inr (foldl (\<lambda>best j. if key_less (lane_key ls bytes j) (lane_key ls bytes best) then j else best) i is))"

definition assign_task :: "TransferTask \<Rightarrow> u64 \<Rightarrow> LaneState \<Rightarrow> LaneState io_result" where
  "assign_task task bytes s =
     ebind (least_loaded_lane (lane_tasks s) (assigned_bytes s)) (\<lambda>lane.
     (let pushed = (lane_tasks s)[lane := lane_tasks s ! lane @ [task]] in
      ebind (ok_or OtherError (checked_add (assigned_bytes s ! lane) bytes)) (\<lambda>n.
        Inr \<lparr>lane_tasks = pushed, assigned_bytes = (assigned_bytes s)[lane := n]\<rparr>)))"

definition assign_stripe :: "usize \<Rightarrow> ManifestEntry \<Rightarrow> usize \<Rightarrow> LaneState \<Rightarrow> usize \<Rightarrow> LaneState io_result" where
  "assign_stripe file_id entry stripe_count s stripe_id =
     ebind (stripe_range (file_size entry) stripe_id stripe_count) (\<lambda>(offset, len).
       if len = 0 then Inr s
       else assign_task (Stripe file_id offset len) len s)"

text \<open>The loop over the manifest: large files are striped at once, the others are collected.\<close>

record SplitState =
  split_lanes :: LaneState
  medium_file_ids :: "usize list"
  tiny_file_ids :: "usize list"

definition split_entry :: "usize \<Rightarrow> SplitState \<Rightarrow> usize \<times> ManifestEntry \<Rightarrow> SplitState io_result" where
  "split_entry n_streams s numbered =
     (case numbered of (file_id, entry) \<Rightarrow>
        (case file_class entry of
           Large \<Rightarrow>
             ebind (large_file_stripe_count (file_size entry) n_streams) (\<lambda>stripe_count.
             ebind (efold (assign_stripe file_id entry stripe_count) (split_lanes s) [0..<stripe_count]) (\<lambda>ls.
               Inr (s\<lparr>split_lanes := ls\<rparr>)))
         | Medium \<Rightarrow> Inr (s\<lparr>medium_file_ids := medium_file_ids s @ [file_id]\<rparr>)
         | Tiny \<Rightarrow> Inr (s\<lparr>tiny_file_ids := tiny_file_ids s @ [file_id]\<rparr>)))"

section \<open>Tiny packs\<close>

record PackState =
  packs :: "(usize list \<times> u64) list"
  current_file_ids :: "usize list"
  current_bytes :: u64

definition manifest_get :: "ManifestEntry list \<Rightarrow> usize \<Rightarrow> ManifestEntry option" where
  "manifest_get m i = (if i < length m then Some (m ! i) else None)"

definition pack_file :: "ManifestEntry list \<Rightarrow> PackState \<Rightarrow> usize \<Rightarrow> PackState io_result" where
  "pack_file manifest s file_id =
     ebind (ok_or InvalidInput (manifest_get manifest file_id)) (\<lambda>entry.
       if file_class entry \<noteq> Tiny then Inl InvalidInput
       else
         ebind (ok_or OtherError (checked_add (current_bytes s) (file_size entry))) (\<lambda>candidate_bytes.
         (let exceeds_target = current_file_ids s \<noteq> [] \<and> candidate_bytes > TINY_PACK_TARGET_BYTES;
              exceeds_file_limit = length (current_file_ids s) \<ge> MAX_TINY_PACK_FILES;
              s' = (if exceeds_target \<or> exceeds_file_limit
                    then \<lparr>packs = packs s @ [(current_file_ids s, current_bytes s)], current_file_ids = [], current_bytes = 0\<rparr>
                    else s)
          in ebind (ok_or OtherError (checked_add (current_bytes s') (file_size entry))) (\<lambda>bytes.
               Inr (s'\<lparr>current_bytes := bytes, current_file_ids := current_file_ids s' @ [file_id]\<rparr>)))))"

definition build_tiny_packs :: "ManifestEntry list \<Rightarrow> usize list \<Rightarrow> (usize list \<times> u64) list io_result" where
  "build_tiny_packs manifest ids =
     ebind (efold (pack_file manifest) \<lparr>packs = [], current_file_ids = [], current_bytes = 0\<rparr> ids) (\<lambda>s.
       Inr (if current_file_ids s \<noteq> [] then packs s @ [(current_file_ids s, current_bytes s)] else packs s))"

section \<open>The plan\<close>

text \<open>
  The medium files go largest first; \<^verbatim>\<open>sort_unstable_by\<close> is modelled by a stable sort, which
  differs only in the order of files of equal size.
\<close>

definition build_transfer_plan :: "ManifestEntry list \<Rightarrow> usize \<Rightarrow> TransferPlan io_result" where
  "build_transfer_plan manifest n_streams =
     ebind (efold (split_entry n_streams)
        \<lparr>split_lanes = \<lparr>lane_tasks = replicate n_streams [], assigned_bytes = replicate n_streams 0\<rparr>,
         medium_file_ids = [], tiny_file_ids = []\<rparr>
        (zip [0..<length manifest] manifest)) (\<lambda>s.
     ebind (efold (\<lambda>ls i. assign_task (WholeFile i) (file_size (manifest ! i)) ls) (split_lanes s)
        (sort_key (\<lambda>i. - int (unat (file_size (manifest ! i)))) (medium_file_ids s))) (\<lambda>ls.
     ebind (build_tiny_packs manifest (tiny_file_ids s)) (\<lambda>ps.
     ebind (efold (\<lambda>ls (ids, bytes). assign_task (TinyPack ids bytes) bytes ls) ls ps) (\<lambda>ls.
       Inr \<lparr>lanes = lane_tasks ls\<rparr>))))"

text \<open>\<^verbatim>\<open>serialize_transfer_plan\<close>: everything on the first lane, for destinations that seek slowly.\<close>

definition serialize_transfer_plan :: "TransferPlan \<Rightarrow> TransferPlan" where
  "serialize_transfer_plan p =
     (case lanes p of [] \<Rightarrow> p | first # rest \<Rightarrow> p\<lparr>lanes := (first @ concat rest) # map (\<lambda>_. []) rest\<rparr>)"

record TransferPlanStats =
  tiny_pack_count :: u64
  tiny_files_packed :: u64
  tiny_bytes_packed :: u64

definition summarize_task :: "TransferPlanStats \<Rightarrow> TransferTask \<Rightarrow> TransferPlanStats io_result" where
  "summarize_task s task =
     (case task of
        TinyPack ids pack_bytes \<Rightarrow>
          ebind (ok_or OtherError (checked_add (tiny_pack_count s) 1)) (\<lambda>n.
          ebind (word_try_from OtherError (length ids)) (\<lambda>k.
          ebind (ok_or OtherError (checked_add (tiny_files_packed s) k)) (\<lambda>files.
          ebind (ok_or OtherError (checked_add (tiny_bytes_packed s) pack_bytes)) (\<lambda>bytes.
            Inr \<lparr>tiny_pack_count = n, tiny_files_packed = files, tiny_bytes_packed = bytes\<rparr>))))
      | _ \<Rightarrow> Inr s)"

definition summarize_transfer_plan :: "TransferPlan \<Rightarrow> TransferPlanStats io_result" where
  "summarize_transfer_plan p =
     efold summarize_task \<lparr>tiny_pack_count = 0, tiny_files_packed = 0, tiny_bytes_packed = 0\<rparr> (concat (lanes p))"

section \<open>Resume offers\<close>

definition planned_stripe :: "ResumeStripe fset \<Rightarrow> TransferTask \<Rightarrow> ResumeStripe fset io_result" where
  "planned_stripe planned task =
     (case task of
        Stripe file_id offset len \<Rightarrow>
          ebind (ResumeStripe_new file_id offset len) (\<lambda>stripe.
            if stripe |\<in>| planned then Inl OtherError else Inr (finsert stripe planned))
      | _ \<Rightarrow> Inr planned)"

definition planned_resume_stripes :: "TransferPlan \<Rightarrow> ResumeStripe fset io_result" where
  "planned_resume_stripes p = efold planned_stripe {||} (concat (lanes p))"

definition validate_resume_offer :: "TransferPlan \<Rightarrow> ResumeStripe fset \<Rightarrow> unit io_result" where
  "validate_resume_offer p offered =
     ebind (planned_resume_stripes p) (\<lambda>planned. if offered |\<subseteq>| planned then Inr () else Inl InvalidData)"

definition validate_unchanged_offer :: "ManifestEntry list \<Rightarrow> usize fset \<Rightarrow> unit io_result" where
  "validate_unchanged_offer manifest unchanged =
     (if fcard unchanged > unat MAX_UNCHANGED_OFFER_FILES then Inl InvalidData
      else if fBall unchanged (\<lambda>i. i < length manifest) then Inr () else Inl InvalidData)"

record ResumeApplication =
  report_files :: u64
  report_bytes :: u64
  stripe_count :: u64
  resumed_bytes :: u64
  unchanged_file_count :: u64
  unchanged_bytes :: u64

definition empty_application :: ResumeApplication where
  "empty_application = \<lparr>report_files = 0, report_bytes = 0, stripe_count = 0, resumed_bytes = 0,
     unchanged_file_count = 0, unchanged_bytes = 0\<rparr>"

definition add_lane_counts :: "u64 \<Rightarrow> u64 \<Rightarrow> ResumeApplication \<Rightarrow> ResumeApplication io_result" where
  "add_lane_counts files bytes a =
     ebind (ok_or OtherError (checked_add (report_files a) files)) (\<lambda>f.
     ebind (ok_or OtherError (checked_add (report_bytes a) bytes)) (\<lambda>b.
       Inr (a\<lparr>report_files := f, report_bytes := b\<rparr>)))"

definition apply_unchanged :: "ManifestEntry list \<Rightarrow> ResumeApplication \<Rightarrow> usize \<Rightarrow> ResumeApplication io_result" where
  "apply_unchanged manifest a file_id =
     ebind (ok_or InvalidData (manifest_get manifest file_id)) (\<lambda>entry.
     ebind (add_lane_counts 1 (file_size entry) a) (\<lambda>a.
     ebind (ok_or OtherError (checked_add (unchanged_file_count a) 1)) (\<lambda>n.
     ebind (ok_or OtherError (checked_add (unchanged_bytes a) (file_size entry))) (\<lambda>b.
       Inr (a\<lparr>unchanged_file_count := n, unchanged_bytes := b\<rparr>)))))"

definition summarize_pack_file :: "ManifestEntry list \<Rightarrow> u64 \<Rightarrow> usize \<Rightarrow> u64 io_result" where
  "summarize_pack_file manifest bytes file_id =
     ebind (ok_or InvalidInput (manifest_get manifest file_id)) (\<lambda>entry.
       if file_class entry \<noteq> Tiny then Inl InvalidInput
       else ok_or OtherError (checked_add bytes (file_size entry)))"

definition summarize_tiny_pack :: "ManifestEntry list \<Rightarrow> usize list \<Rightarrow> (u64 \<times> u64) io_result" where
  "summarize_tiny_pack manifest ids =
     (if ids = [] \<or> length ids > MAX_TINY_PACK_FILES then Inl InvalidInput
      else
        ebind (efold (summarize_pack_file manifest) 0 ids) (\<lambda>bytes.
        ebind (word_try_from OtherError (length ids)) (\<lambda>files. Inr (files, bytes))))"

text \<open>One task of the lane loop: what remains of it, and the updated counts.\<close>

definition apply_task ::
    "ManifestEntry list \<Rightarrow> ResumeStripe fset \<Rightarrow> usize fset \<Rightarrow> ResumeApplication \<times> TransferTask list \<Rightarrow> TransferTask
     \<Rightarrow> (ResumeApplication \<times> TransferTask list) io_result" where
  "apply_task manifest offered unchanged state task =
     (case state of (a, remaining) \<Rightarrow>
        (case task of
           WholeFile file_id \<Rightarrow>
             if file_id |\<in>| unchanged then Inr (a, remaining) else Inr (a, remaining @ [task])
         | TinyPack ids _ \<Rightarrow>
             (let kept = filter (\<lambda>i. i |\<notin>| unchanged) ids in
              if kept = [] then Inr (a, remaining)
              else ebind (summarize_tiny_pack manifest kept) (\<lambda>(_, bytes). Inr (a, remaining @ [TinyPack kept bytes])))
         | Stripe file_id offset len \<Rightarrow>
             if file_id |\<in>| unchanged then Inr (a, remaining)
             else
               ebind (ResumeStripe_new file_id offset len) (\<lambda>stripe.
                 if stripe |\<in>| offered then
                   ebind (add_lane_counts (if offset = 0 then 1 else 0) len a) (\<lambda>a.
                   ebind (ok_or OtherError (checked_add (resumed_bytes a) len)) (\<lambda>b.
                   ebind (ok_or OtherError (checked_add (stripe_count a) 1)) (\<lambda>n.
                     Inr (a\<lparr>resumed_bytes := b, stripe_count := n\<rparr>, remaining))))
                 else Inr (a, remaining @ [task]))))"

definition apply_lane ::
    "ManifestEntry list \<Rightarrow> ResumeStripe fset \<Rightarrow> usize fset \<Rightarrow> ResumeApplication \<times> TransferTask list list \<Rightarrow> TransferTask list
     \<Rightarrow> (ResumeApplication \<times> TransferTask list list) io_result" where
  "apply_lane manifest offered unchanged state lane =
     (case state of (a, rebuilt) \<Rightarrow>
        ebind (efold (apply_task manifest offered unchanged) (a, []) lane) (\<lambda>(a, remaining).
          Inr (a, rebuilt @ [remaining])))"

definition apply_resume_offer ::
    "TransferPlan \<Rightarrow> ManifestEntry list \<Rightarrow> ResumeStripe fset \<Rightarrow> usize fset \<Rightarrow> (ResumeApplication \<times> TransferPlan) io_result" where
  "apply_resume_offer p manifest offered unchanged =
     ebind (validate_resume_offer p offered) (\<lambda>_.
     ebind (validate_unchanged_offer manifest unchanged) (\<lambda>_.
       if fBex offered (\<lambda>stripe. unat (stripe_file_id stripe) |\<in>| unchanged) then Inl InvalidData
       else
         ebind (efold (apply_unchanged manifest) empty_application (sorted_list_of_fset unchanged)) (\<lambda>a.
         ebind (efold (apply_lane manifest offered unchanged) (a, []) (lanes p)) (\<lambda>(a, rebuilt).
         ebind (word_try_from OtherError (fcard offered)) (\<lambda>expected_stripes.
           if stripe_count a \<noteq> expected_stripes then Inl OtherError
           else
             ebind (word_try_from OtherError (fcard unchanged)) (\<lambda>expected_unchanged.
               if unchanged_file_count a \<noteq> expected_unchanged then Inl OtherError
               else Inr (a, p\<lparr>lanes := rebuilt\<rparr>)))))))"

section \<open>Stripe arithmetic\<close>

lemma ceil_div_cases:
  assumes b: "b > 0"
  shows "(a + b - 1) div b = (if a mod b = 0 then a div b else a div b + (1::nat))"
proof -
  have a: "a = b * (a div b) + a mod b" by simp
  have q: "(b * q + r) div b = q" if "r < b" for q r using that b by simp
  show ?thesis
  proof (cases "a mod b = 0")
    case True
    then have "a + b - 1 = b * (a div b) + (b - 1)" using a b by simp
    moreover have "b - 1 < b" using b by simp
    ultimately show ?thesis using True q [of "b - 1" "a div b"] by metis
  next
    case False
    then have "a + b - 1 = b * (a div b + 1) + (a mod b - 1)" using a b by (simp only: distrib_left mult_1_right)
    moreover have "a mod b - 1 < b" using b by (simp add: less_imp_diff_less)
    ultimately show ?thesis using False q [of "a mod b - 1" "a div b + 1"] by metis
  qed
qed

lemma unat_div_ceil:
  assumes "b \<noteq> 0"
  shows "unat (div_ceil a b) = (unat a + unat b - 1) div unat b"
proof -
  have b: "unat b > 0" using assms by (simp add: unat_gt_0)
  have mod0: "a mod b = 0 \<longleftrightarrow> unat a mod unat b = 0"
    by (metis unat_eq_zero unat_mod_distrib)
  have "unat a div unat b + 1 < 2 ^ 64" if "unat a mod unat b \<noteq> 0"
  proof -
    have "unat b \<ge> 2" using that b by (cases "unat b = 1") auto
    then have "unat a div unat b \<le> unat a div 2" using b by (intro div_le_mono2) auto
    also have "\<dots> < 2 ^ 63" using unat_less_2p [of a] by (simp add: div_less_iff_less_mult)
    finally show ?thesis by simp
  qed
  then have *: "unat (div_ceil a b) = (if unat a mod unat b = 0 then unat a div unat b else unat a div unat b + 1)"
    by (auto simp: div_ceil_def mod0 unat_div_distrib unat_word_ariths)
  have "(unat a + unat b - 1) div unat b = (if unat a mod unat b = 0 then unat a div unat b else unat a div unat b + 1)"
    using b by (rule ceil_div_cases)
  with * show ?thesis by simp
qed


text \<open>The size of one stripe, and the range of a stripe on natural numbers.\<close>

definition stripe_size :: "nat \<Rightarrow> nat \<Rightarrow> nat" where
  "stripe_size len n = (len + n - 1) div n"

lemma stripe_size_bounds:
  assumes "n > 0"
  shows "len \<le> stripe_size len n * n" "stripe_size len n * n \<le> len + n - 1"
proof -
  have "len + n - 1 = stripe_size len n * n + (len + n - 1) mod n" by (simp add: stripe_size_def)
  moreover have "(len + n - 1) mod n < n" using assms by simp
  ultimately show "len \<le> stripe_size len n * n" "stripe_size len n * n \<le> len + n - 1" by linarith+
qed

lemma stripe_size_le: "n > 0 \<Longrightarrow> len \<le> n * c \<Longrightarrow> stripe_size len n \<le> c"
proof -
  assume n: "n > 0" and len: "len \<le> n * c"
  have "(len + n - 1) div n < Suc c" using n len by (simp add: div_less_iff_less_mult algebra_simps)
  then show ?thesis by (simp add: stripe_size_def)
qed

lemma stripe_range_nat:
  assumes "n < 2 ^ 64" "k < n" "stripe_size (unat len) n * k < 2 ^ 64"
  shows "\<exists>off l. stripe_range len k n = Inr (off, l) \<and>
     unat off = min (stripe_size (unat len) n * k) (unat len) \<and>
     unat l = min (unat len - min (stripe_size (unat len) n * k) (unat len)) (stripe_size (unat len) n)"
proof (cases "len = 0")
  case True
  then show ?thesis using assms by (simp add: stripe_range_def stripe_size_def)
next
  case False
  let ?S = "div_ceil len (of_nat n)"
  have un: "unat (of_nat n :: u64) = n" "unat (of_nat k :: u64) = k" using assms(1,2) by (simp_all add: unat_of_nat_small)
  have n0: "(of_nat n :: u64) \<noteq> 0" using un(1) assms(2) by (metis gr_implies_not0 unat_0)
  have S: "unat ?S = stripe_size (unat len) n" using unat_div_ceil [OF n0, of len] un(1) by (simp add: stripe_size_def)
  obtain off where off: "checked_mul ?S (of_nat k) = Some off" "unat off = stripe_size (unat len) n * k"
  proof
    show "checked_mul ?S (of_nat k) = Some (?S * of_nat k)" using assms(3) by (simp add: checked_mul_def S un)
    then show "unat (?S * of_nat k) = stripe_size (unat len) n * k" by (drule_tac unat_checked_mul) (simp only: S un)
  qed
  show ?thesis
  proof (cases "off \<ge> len")
    case True
    then have "stripe_range len k n = Inr (len, 0)" using assms(2) False off(1) by (simp add: stripe_range_def Let_def)
    then show ?thesis using True off(2) by (simp add: word_le_nat_alt)
  next
    case F: False
    then have "stripe_range len k n = Inr (off, min (len - off) ?S)"
      using assms(2) False off(1) by (simp add: stripe_range_def Let_def)
    moreover have "unat (min a b) = min (unat a) (unat b)" for a b :: u64 by (simp add: min_def word_le_nat_alt)
    moreover have "unat (len - off) = unat len - unat off" "unat off < unat len"
      using F by (simp_all add: unat_sub word_less_nat_alt not_le word_le_nat_alt)
    ultimately show ?thesis using off(2) S by simp
  qed
qed

lemma large_file_stripe_count_eq:
  "large_file_stripe_count len n = Inr c \<longleftrightarrow> n \<noteq> 0 \<and> c = max n (max (stripe_size (unat len) (2 ^ 27)) 1)"
proof -
  have "unat MAX_RESUME_STRIPE_BYTES = 2 ^ 27" "MAX_RESUME_STRIPE_BYTES \<noteq> 0" by (simp_all add: MAX_RESUME_STRIPE_BYTES_def)
  then show ?thesis using unat_div_ceil [of MAX_RESUME_STRIPE_BYTES len]
    by (auto simp: large_file_stripe_count_def stripe_size_def)
qed

lemma stripe_count_fits:
  assumes "large_file_stripe_count len n = Inr c" "n \<le> 32" "k < c"
  shows "c < 2 ^ 64" "stripe_size (unat len) c * k < 2 ^ 64" "stripe_size (unat len) c \<le> 2 ^ 27"
proof -
  let ?C = "stripe_size (unat len) (2 ^ 27)"
  have c: "c = max n (max ?C 1)" "n \<noteq> 0" using assms(1) by (auto simp: large_file_stripe_count_eq)
  have len: "unat len < 2 ^ 64" using unat_less_2p [of len] by simp
  have C: "unat len \<le> ?C * 2 ^ 27" "?C * 2 ^ 27 \<le> unat len + 2 ^ 27 - 1" using stripe_size_bounds [of "2 ^ 27" "unat len"] by simp_all
  have "?C < 2 ^ 64" using C(2) len by simp
  then show "c < 2 ^ 64" using c assms(2) by simp
  have "?C \<le> c" using c by simp
  then have "unat len \<le> c * 2 ^ 27" using C(1) by (metis le_trans mult_le_mono1)
  then show S: "stripe_size (unat len) c \<le> 2 ^ 27" using assms(3) by (intro stripe_size_le) auto
  show "stripe_size (unat len) c * k < 2 ^ 64"
  proof (cases "c \<le> 32")
    case True
    then have "stripe_size (unat len) c * k \<le> 2 ^ 27 * 32" using S assms(3) by (intro mult_le_mono) auto
    then show ?thesis by simp
  next
    case False
    then have "c = ?C" using c assms(2) by simp
    then have "stripe_size (unat len) c * k \<le> 2 ^ 27 * (?C - 1)" using S assms(3) by (intro mult_le_mono) auto
    also have "\<dots> < 2 ^ 64" using C(2) len by (simp add: algebra_simps)
    finally show ?thesis .
  qed
qed

section \<open>Assigning tasks to lanes\<close>

type_synonym weighted_task = "TransferTask \<times> u64"

abbreviation assign :: "LaneState \<Rightarrow> weighted_task \<Rightarrow> LaneState io_result" where
  "assign s tb \<equiv> assign_task (fst tb) (snd tb) s"

definition lanes_wf :: "nat \<Rightarrow> LaneState \<Rightarrow> bool" where
  "lanes_wf n s \<longleftrightarrow> length (lane_tasks s) = n \<and> length (assigned_bytes s) = n"

definition load :: "LaneState \<Rightarrow> nat" where
  "load s = (\<Sum>b\<leftarrow>assigned_bytes s. unat b)"

lemma foldl_choose_in: "foldl (\<lambda>best j. if P j best then j else best) i is \<in> insert i (set is)"
  by (induction "is" arbitrary: i) fastforce+

lemma least_loaded_lane_bound:
  assumes "bytes \<noteq> []"
  shows "\<exists>i<length bytes. least_loaded_lane ls bytes = Inr i"
proof -
  obtain i "is" where "is": "[0..<length bytes] = i # is" using assms by (cases "[0..<length bytes]") auto
  let ?P = "\<lambda>j best. key_less (lane_key ls bytes j) (lane_key ls bytes best)"
  have "foldl (\<lambda>best j. if ?P j best then j else best) i is \<in> set [0..<length bytes]"
    using foldl_choose_in [of ?P i "is"] unfolding "is" by simp
  then have "foldl (\<lambda>best j. if ?P j best then j else best) i is < length bytes"
    by (simp only: set_upt atLeastLessThan_iff)
  moreover have "least_loaded_lane ls bytes = Inr (foldl (\<lambda>best j. if ?P j best then j else best) i is)"
    unfolding least_loaded_lane_def "is" by simp
  ultimately show ?thesis by blast
qed

lemma sum_list_update_nat:
  "i < length xs \<Longrightarrow> (\<Sum>x\<leftarrow>xs[i := y]. f x) + (f (xs ! i) :: nat) = (\<Sum>x\<leftarrow>xs. f x) + f y"
proof (induction xs arbitrary: i)
  case (Cons a xs)
  then show ?case by (cases i) (auto simp: algebra_simps)
qed simp

lemma mset_concat_update:
  "i < length xss \<Longrightarrow> mset (concat (xss[i := xss ! i @ ys])) = mset (concat xss) + mset ys"
proof (induction xss arbitrary: i)
  case (Cons a xss)
  then show ?case by (cases i) auto
qed simp

lemma assign_task_Inr:
  assumes "lanes_wf n s" "assign_task t b s = Inr s'"
  shows "lanes_wf n s' \<and> mset (concat (lane_tasks s')) = mset (concat (lane_tasks s)) + {#t#} \<and> load s' = load s + unat b"
proof -
  have "assigned_bytes s \<noteq> []" using assms(2) by (auto simp: assign_task_def least_loaded_lane_def)
  then obtain i where i: "i < length (assigned_bytes s)" "least_loaded_lane (lane_tasks s) (assigned_bytes s) = Inr i"
    using least_loaded_lane_bound by blast
  then obtain c where c: "checked_add (assigned_bytes s ! i) b = Some c"
    and s': "s' = \<lparr>lane_tasks = (lane_tasks s)[i := lane_tasks s ! i @ [t]], assigned_bytes = (assigned_bytes s)[i := c]\<rparr>"
    using assms(2) by (auto simp: assign_task_def ebind_Inr ok_or_Inr)
  have "load s' = load s + unat b"
    using sum_list_update_nat [OF i(1), of unat c] unat_checked_add [OF c] by (simp add: load_def s')
  then show ?thesis using assms(1) i(1) mset_concat_update [of i "lane_tasks s" "[t]"] by (auto simp: s' lanes_wf_def)
qed

lemma assign_task_total:
  assumes "lanes_wf n s" "n > 0" "load s + unat b < 2 ^ 64"
  shows "\<exists>s'. assign_task t b s = Inr s'"
proof -
  obtain i where i: "i < length (assigned_bytes s)" "least_loaded_lane (lane_tasks s) (assigned_bytes s) = Inr i"
    using least_loaded_lane_bound [of "assigned_bytes s" "lane_tasks s"] assms(1,2)
    by (cases "assigned_bytes s = []") (auto simp: lanes_wf_def)
  have "unat (assigned_bytes s ! i) \<le> load s" unfolding load_def
    using i(1) by (metis elem_le_sum_list length_map nth_map)
  then show ?thesis using i(2) assms(3) by (simp add: assign_task_def checked_add_def)
qed

lemma assign_all_Inr:
  "lanes_wf n s \<Longrightarrow> efold assign s tbs = Inr s' \<Longrightarrow>
   lanes_wf n s' \<and> mset (concat (lane_tasks s')) = mset (concat (lane_tasks s)) + mset (map fst tbs) \<and>
   load s' = load s + (\<Sum>tb\<leftarrow>tbs. unat (snd tb))"
proof (induction tbs arbitrary: s)
  case (Cons tb tbs)
  then obtain s1 where s1: "assign s tb = Inr s1" "efold assign s1 tbs = Inr s'" by (auto simp: ebind_Inr)
  show ?case using assign_task_Inr [OF Cons.prems(1) s1(1)] Cons.IH [OF _ s1(2)] by auto
qed simp

lemma assign_all_total:
  "lanes_wf n s \<Longrightarrow> n > 0 \<Longrightarrow> load s + (\<Sum>tb\<leftarrow>tbs. unat (snd tb)) < 2 ^ 64 \<Longrightarrow> \<exists>s'. efold assign s tbs = Inr s'"
proof (induction tbs arbitrary: s)
  case (Cons tb tbs)
  obtain s1 where s1: "assign s tb = Inr s1" using assign_task_total [OF Cons.prems(1,2)] Cons.prems(3) by fastforce
  then show ?case using assign_task_Inr [OF Cons.prems(1) s1] Cons.IH [of s1] Cons.prems by simp
qed simp

section \<open>The three kinds of work\<close>

definition stripe_task :: "usize \<Rightarrow> u64 \<Rightarrow> usize \<Rightarrow> usize \<Rightarrow> weighted_task list" where
  "stripe_task f len c k = (case stripe_range len k c of Inr (off, l) \<Rightarrow> if l = 0 then [] else [(Stripe f off l, l)] | Inl _ \<Rightarrow> [])"

definition stripe_tasks :: "usize \<Rightarrow> usize \<Rightarrow> u64 \<Rightarrow> weighted_task list" where
  "stripe_tasks n f len = (case large_file_stripe_count len n of Inr c \<Rightarrow> concat (map (stripe_task f len c) [0..<c]) | Inl _ \<Rightarrow> [])"

lemma efold_assign_stripe:
  assumes "\<And>k. k \<in> set ks \<Longrightarrow> \<exists>r. stripe_range (file_size e) k c = Inr r"
  shows "efold (assign_stripe f e c) s ks = efold assign s (concat (map (stripe_task f (file_size e) c) ks))"
  using assms
proof (induction ks arbitrary: s)
  case (Cons k ks)
  obtain off l where r: "stripe_range (file_size e) k c = Inr (off, l)" using Cons.prems by fastforce
  have "assign_stripe f e c s k = efold assign s (stripe_task f (file_size e) c k)"
    by (cases "assign_task (Stripe f off l) l s") (simp_all add: assign_stripe_def stripe_task_def r)
  then show ?case using Cons by (simp add: efold_append)
qed simp

lemma stripe_range_total:
  assumes "large_file_stripe_count len n = Inr c" "n \<le> 32" "k < c"
  shows "\<exists>r. stripe_range len k c = Inr r"
  using stripe_range_nat [OF stripe_count_fits(1) [OF assms] assms(3) stripe_count_fits(2) [OF assms]] by blast

lemma split_entry_eq:
  assumes "0 < n" "n \<le> 32"
  shows "split_entry n s (f, e) =
     ebind (efold assign (split_lanes s) (if file_class e = Large then stripe_tasks n f (file_size e) else [])) (\<lambda>ls.
       Inr \<lparr>split_lanes = ls, medium_file_ids = medium_file_ids s @ (if file_class e = Medium then [f] else []),
            tiny_file_ids = tiny_file_ids s @ (if file_class e = Tiny then [f] else [])\<rparr>)"
proof (cases "file_class e")
  case Large
  obtain c where c: "large_file_stripe_count (file_size e) n = Inr c" using assms(1) by (simp add: large_file_stripe_count_def)
  have "efold (assign_stripe f e c) (split_lanes s) [0..<c] = efold assign (split_lanes s) (stripe_tasks n f (file_size e))"
    using efold_assign_stripe [of "[0..<c]" e c f "split_lanes s"] stripe_range_total [OF c assms(2)] by (simp add: stripe_tasks_def c)
  then show ?thesis using Large c by (cases s) (simp add: split_entry_def)
qed (simp_all add: split_entry_def)

definition large_work :: "usize \<Rightarrow> (usize \<times> ManifestEntry) list \<Rightarrow> weighted_task list" where
  "large_work n xs = concat (map (\<lambda>(f, e). if file_class e = Large then stripe_tasks n f (file_size e) else []) xs)"

definition ids_of :: "FileClass \<Rightarrow> (usize \<times> ManifestEntry) list \<Rightarrow> usize list" where
  "ids_of c xs = map fst (filter (\<lambda>x. file_class (snd x) = c) xs)"

lemma split_manifest_eq:
  assumes "0 < n" "n \<le> 32"
  shows "efold (split_entry n) s xs =
     ebind (efold assign (split_lanes s) (large_work n xs)) (\<lambda>ls.
       Inr \<lparr>split_lanes = ls, medium_file_ids = medium_file_ids s @ ids_of Medium xs, tiny_file_ids = tiny_file_ids s @ ids_of Tiny xs\<rparr>)"
proof (induction xs arbitrary: s)
  case (Cons x xs)
  obtain f e where x: "x = (f, e)" by (cases x)
  let ?here = "if file_class e = Large then stripe_tasks n f (file_size e) else []"
  show ?case
  proof (cases "efold assign (split_lanes s) ?here")
    case (Inr ls)
    then show ?thesis using Cons.IH by (simp add: x split_entry_eq [OF assms] large_work_def ids_of_def efold_append)
  qed (simp add: x split_entry_eq [OF assms] large_work_def efold_append)
qed (simp add: large_work_def ids_of_def)


section \<open>Packs of tiny files\<close>

definition file_bytes :: "ManifestEntry list \<Rightarrow> usize list \<Rightarrow> nat" where
  "file_bytes m ids = (\<Sum>i\<leftarrow>ids. unat (file_size (m ! i)))"

definition pack_ok :: "ManifestEntry list \<Rightarrow> usize list \<times> u64 \<Rightarrow> bool" where
  "pack_ok m p \<longleftrightarrow> fst p \<noteq> [] \<and> length (fst p) \<le> MAX_TINY_PACK_FILES \<and> unat (snd p) = file_bytes m (fst p) \<and>
     (length (fst p) = 1 \<or> snd p \<le> TINY_PACK_TARGET_BYTES)"

definition pack_state_ok :: "ManifestEntry list \<Rightarrow> PackState \<Rightarrow> bool" where
  "pack_state_ok m s \<longleftrightarrow> list_all (pack_ok m) (packs s) \<and>
     (current_file_ids s = [] \<and> current_bytes s = 0 \<or> pack_ok m (current_file_ids s, current_bytes s))"

definition packed_ids :: "PackState \<Rightarrow> usize list" where
  "packed_ids s = concat (map fst (packs s)) @ current_file_ids s"

lemma file_bytes_append: "file_bytes m (xs @ ys) = file_bytes m xs + file_bytes m ys"
  by (simp add: file_bytes_def)

lemma MAX_TINY_PACK_FILES_pos: "Suc 0 \<le> MAX_TINY_PACK_FILES"
  by (simp add: MAX_TINY_PACK_FILES_def)

lemma pack_file_Inr:
  assumes ok: "pack_state_ok m s" and r: "pack_file m s i = Inr s'"
  shows "pack_state_ok m s' \<and> packed_ids s' = packed_ids s @ [i] \<and> i < length m \<and> file_class (m ! i) = Tiny"
proof -
  let ?b = "file_size (m ! i)"
  have i: "i < length m" "file_class (m ! i) = Tiny"
    using r by (auto simp: pack_file_def ebind_Inr ok_or_Inr manifest_get_def split: if_splits)
  obtain cand where cand: "checked_add (current_bytes s) ?b = Some cand"
    using r i by (auto simp: pack_file_def ebind_Inr ok_or_Inr manifest_get_def)
  have one: "pack_ok m ([i], ?b)" by (simp add: pack_ok_def file_bytes_def MAX_TINY_PACK_FILES_pos)
  show ?thesis
  proof (cases "current_file_ids s \<noteq> [] \<and> cand > TINY_PACK_TARGET_BYTES \<or> length (current_file_ids s) \<ge> MAX_TINY_PACK_FILES")
    case True
    then have s': "s' = \<lparr>packs = packs s @ [(current_file_ids s, current_bytes s)], current_file_ids = [i], current_bytes = ?b\<rparr>"
      using r i cand by (simp add: pack_file_def manifest_get_def)
    have "current_file_ids s \<noteq> []" using True MAX_TINY_PACK_FILES_pos by auto
    then show ?thesis using ok one i by (auto simp: s' pack_state_ok_def packed_ids_def)
  next
    case False
    then have s': "s' = s\<lparr>current_bytes := cand, current_file_ids := current_file_ids s @ [i]\<rparr>"
      using r i cand by (auto simp: pack_file_def manifest_get_def Let_def split: if_splits)
    have "pack_ok m (current_file_ids s @ [i], cand)"
      using ok False unat_checked_add [OF cand] by (auto simp: pack_ok_def pack_state_ok_def file_bytes_append file_bytes_def not_less)
    then show ?thesis using ok i by (auto simp: s' pack_state_ok_def packed_ids_def)
  qed
qed

lemma pack_files_Inr:
  "pack_state_ok m s \<Longrightarrow> efold (pack_file m) s ids = Inr s' \<Longrightarrow> pack_state_ok m s' \<and> packed_ids s' = packed_ids s @ ids"
proof (induction ids arbitrary: s)
  case (Cons i ids)
  then obtain s1 where "pack_file m s i = Inr s1" "efold (pack_file m) s1 ids = Inr s'" by (auto simp: ebind_Inr)
  then show ?case using pack_file_Inr [OF Cons.prems(1), of i s1] Cons.IH [of s1] by simp
qed simp

lemma build_tiny_packs_Inr:
  assumes "build_tiny_packs m ids = Inr ps"
  shows "list_all (pack_ok m) ps \<and> concat (map fst ps) = ids"
proof -
  let ?s0 = "\<lparr>packs = [], current_file_ids = [], current_bytes = 0\<rparr>"
  obtain s where s: "efold (pack_file m) ?s0 ids = Inr s"
    and ps: "ps = (if current_file_ids s \<noteq> [] then packs s @ [(current_file_ids s, current_bytes s)] else packs s)"
    using assms by (auto simp: build_tiny_packs_def ebind_Inr)
  have "pack_state_ok m s \<and> packed_ids s = packed_ids ?s0 @ ids"
    by (rule pack_files_Inr [OF _ s]) (simp add: pack_state_ok_def)
  then show ?thesis by (auto simp: ps pack_state_ok_def packed_ids_def)
qed

lemma pack_file_total:
  assumes "i < length m" "file_class (m ! i) = Tiny" "unat (current_bytes s) + unat (file_size (m ! i)) < 2 ^ 64"
  shows "\<exists>s'. pack_file m s i = Inr s'"
  using assms by (auto simp: pack_file_def manifest_get_def checked_add_def Let_def)

lemma pack_files_total:
  "pack_state_ok m s \<Longrightarrow> \<forall>i\<in>set ids. i < length m \<and> file_class (m ! i) = Tiny \<Longrightarrow>
   unat (current_bytes s) + file_bytes m ids < 2 ^ 64 \<Longrightarrow> \<exists>s'. efold (pack_file m) s ids = Inr s'"
proof (induction ids arbitrary: s)
  case (Cons i ids)
  have le: "unat (current_bytes s) + unat (file_size (m ! i)) < 2 ^ 64" using Cons.prems(3) by (simp add: file_bytes_def)
  obtain s1 where s1: "pack_file m s i = Inr s1" using pack_file_total [OF _ _ le] Cons.prems(2) by auto
  have "unat (current_bytes s1) \<le> unat (current_bytes s) + unat (file_size (m ! i))"
    using s1 by (auto simp: pack_file_def ebind_Inr ok_or_Inr manifest_get_def Let_def unat_checked_add split: if_splits)
  then show ?case using Cons.IH [of s1] pack_file_Inr [OF Cons.prems(1) s1] Cons.prems s1 by (simp add: file_bytes_def)
qed simp


section \<open>Every byte is carried exactly once\<close>

text \<open>How often a task carries byte \<open>b\<close> of file \<open>f\<close>.\<close>

fun carried :: "ManifestEntry list \<Rightarrow> usize \<Rightarrow> nat \<Rightarrow> TransferTask \<Rightarrow> nat" where
  "carried m f b (WholeFile g) = (if g = f \<and> b < unat (file_size (m ! f)) then 1 else 0)"
| "carried m f b (TinyPack ids _) = (if b < unat (file_size (m ! f)) then count_list ids f else 0)"
| "carried m f b (Stripe g off l) = (if g = f \<and> unat off \<le> b \<and> b < unat off + unat l then 1 else 0)"

definition total_carried :: "ManifestEntry list \<Rightarrow> usize \<Rightarrow> nat \<Rightarrow> TransferTask list \<Rightarrow> nat" where
  "total_carried m f b ts = (\<Sum>t\<leftarrow>ts. carried m f b t)"

lemma total_carried_append [simp]: "total_carried m f b (xs @ ys) = total_carried m f b xs + total_carried m f b ys"
  by (simp add: total_carried_def)

lemma total_carried_Nil [simp]: "total_carried m f b [] = 0"
  by (simp add: total_carried_def)

lemma sum_list_map_mset: "mset xs = mset ys \<Longrightarrow> (\<Sum>x\<leftarrow>xs. f x) = (\<Sum>y\<leftarrow>ys. f y :: nat)"
  by (metis mset_map sum_mset_sum_list)

lemma total_carried_mset: "mset xs = mset ys \<Longrightarrow> total_carried m f b xs = total_carried m f b ys"
  unfolding total_carried_def by (rule sum_list_map_mset)

lemma total_carried_concat: "total_carried m f b (concat tss) = (\<Sum>ts\<leftarrow>tss. total_carried m f b ts)"
  by (induction tss) (auto simp: total_carried_def)

definition work_bytes :: "weighted_task list \<Rightarrow> nat" where
  "work_bytes tbs = (\<Sum>tb\<leftarrow>tbs. unat (snd tb))"

lemma work_bytes_append [simp]: "work_bytes (xs @ ys) = work_bytes xs + work_bytes ys"
  by (simp add: work_bytes_def)

lemma work_bytes_Nil [simp]: "work_bytes [] = 0"
  by (simp add: work_bytes_def)

lemma work_bytes_concat: "work_bytes (concat tss) = (\<Sum>ts\<leftarrow>tss. work_bytes ts)"
  by (induction tss) (auto simp: work_bytes_def)

lemma stripe_task_facts:
  assumes c: "large_file_stripe_count len n = Inr c" "n \<le> 32" "k < c"
  shows "total_carried m f b (map fst (stripe_task g len c k)) =
      (if g = f \<and> b < unat len \<and> k = b div stripe_size (unat len) c then 1 else 0)"
    and "work_bytes (stripe_task g len c k) =
      min (stripe_size (unat len) c * Suc k) (unat len) - min (stripe_size (unat len) c * k) (unat len)"
proof -
  let ?S = "stripe_size (unat len) c" and ?L = "unat len"
  obtain off l where r: "stripe_range len k c = Inr (off, l)" "unat off = min (?S * k) ?L"
    "unat l = min (?L - min (?S * k) ?L) ?S"
    using stripe_range_nat [OF stripe_count_fits(1) [OF c] c(3) stripe_count_fits(2) [OF c]] by blast
  show "work_bytes (stripe_task g len c k) = min (?S * Suc k) ?L - min (?S * k) ?L"
    using r by (auto simp: stripe_task_def work_bytes_def unat_eq_zero [symmetric] simp del: unat_eq_zero)
  have "(unat off \<le> b \<and> b < unat off + unat l) \<longleftrightarrow> (b < ?L \<and> k = b div ?S)"
  proof (cases "?S = 0")
    case True
    then have "?L = 0" using stripe_size_bounds(1) [of c "unat len"] c(3) by simp
    then show ?thesis using r by simp
  next
    case False
    have "k = b div ?S \<longleftrightarrow> ?S * k \<le> b \<and> b < ?S * k + ?S"
      using False by (metis div_nat_eqI less_mult_imp_div_less mult.commute mult_Suc_right add.commute
          dividend_less_times_div neq0_conv times_div_less_eq_dividend)
    then show ?thesis unfolding r(2,3) by (auto simp: min_def)
  qed
  then show "total_carried m f b (map fst (stripe_task g len c k)) =
      (if g = f \<and> b < ?L \<and> k = b div ?S then 1 else 0)"
    using r by (auto simp: stripe_task_def total_carried_def)
qed

lemma sum_list_delta:
  "(\<Sum>i\<leftarrow>[0..<n]. if i = j then (v::nat) else 0) = (if j < n then v else 0)"
  by (induction n) auto

lemma sum_list_telescope:
  "mono h \<Longrightarrow> (\<Sum>k\<leftarrow>[0..<n]. h (Suc k) - h k :: nat) = h n - h 0"
proof (induction n)
  case (Suc n)
  have "h 0 \<le> h n" "h n \<le> h (Suc n)" using Suc.prems by (auto intro: monoD)
  then show ?case using Suc by simp
qed simp

lemma stripe_tasks_facts:
  assumes n: "0 < n" "n \<le> 32"
  shows "total_carried m f b (map fst (stripe_tasks n g len)) = (if g = f \<and> b < unat len then 1 else 0)"
    and "work_bytes (stripe_tasks n g len) = unat len"
proof -
  obtain c where c: "large_file_stripe_count len n = Inr c" using n(1) by (simp add: large_file_stripe_count_def)
  have c0: "c > 0" using c by (auto simp: large_file_stripe_count_eq)
  let ?S = "stripe_size (unat len) c"
  have big: "unat len \<le> ?S * c" using stripe_size_bounds(1) [OF c0] .
  have "total_carried m f b (map fst (stripe_tasks n g len)) =
      (\<Sum>k\<leftarrow>[0..<c]. total_carried m f b (map fst (stripe_task g len c k)))"
    by (simp add: stripe_tasks_def c map_concat total_carried_concat comp_def)
  also have "\<dots> = (\<Sum>k\<leftarrow>[0..<c]. if k = b div ?S then (if g = f \<and> b < unat len then 1 else 0) else 0)"
    using stripe_task_facts(1) [OF c n(2)] by (intro arg_cong [where f = sum_list] map_cong) auto
  also have "\<dots> = (if g = f \<and> b < unat len then 1 else 0)"
    unfolding sum_list_delta using big by (auto simp: less_mult_imp_div_less mult.commute)
  finally show "total_carried m f b (map fst (stripe_tasks n g len)) = (if g = f \<and> b < unat len then 1 else 0)" .
  have "work_bytes (stripe_tasks n g len) = (\<Sum>k\<leftarrow>[0..<c]. work_bytes (stripe_task g len c k))"
    by (simp add: stripe_tasks_def c work_bytes_concat comp_def)
  also have "\<dots> = (\<Sum>k\<leftarrow>[0..<c]. min (?S * Suc k) (unat len) - min (?S * k) (unat len))"
    using stripe_task_facts(2) [OF c n(2)] by (intro arg_cong [where f = sum_list] map_cong) auto
  also have "\<dots> = unat len"
  proof -
    have "mono (\<lambda>k. min (?S * k) (unat len))" by (intro monoI min.mono mult_le_mono) auto
    from sum_list_telescope [OF this, of c] show ?thesis using big by (simp add: min_absorb2)
  qed
  finally show "work_bytes (stripe_tasks n g len) = unat len" .
qed


section \<open>The whole plan\<close>

abbreviation numbered :: "ManifestEntry list \<Rightarrow> (usize \<times> ManifestEntry) list" where
  "numbered m \<equiv> zip [0..<length m] m"

lemma numbered_eq: "numbered m = map (\<lambda>i. (i, m ! i)) [0..<length m]"
  by (rule nth_equalityI) auto

definition medium_work :: "ManifestEntry list \<Rightarrow> weighted_task list" where
  "medium_work m = map (\<lambda>i. (WholeFile i, file_size (m ! i)))
     (sort_key (\<lambda>i. - int (unat (file_size (m ! i)))) (ids_of Medium (numbered m)))"

abbreviation pack_work :: "(usize list \<times> u64) list \<Rightarrow> weighted_task list" where
  "pack_work \<equiv> map (\<lambda>(ids, bytes). (TinyPack ids bytes, bytes))"

abbreviation empty_lanes :: "usize \<Rightarrow> LaneState" where
  "empty_lanes n \<equiv> \<lparr>lane_tasks = replicate n [], assigned_bytes = replicate n 0\<rparr>"

lemma build_transfer_plan_eq:
  assumes "0 < n" "n \<le> 32"
  shows "build_transfer_plan m n =
     ebind (efold assign (empty_lanes n) (large_work n (numbered m) @ medium_work m)) (\<lambda>ls.
     ebind (build_tiny_packs m (ids_of Tiny (numbered m))) (\<lambda>ps.
     ebind (efold assign ls (pack_work ps)) (\<lambda>ls. Inr \<lparr>lanes = lane_tasks ls\<rparr>)))"
proof -
  let ?w = "\<lambda>i. (WholeFile i, file_size (m ! i))"
  have med: "efold (\<lambda>ls i. assign_task (WholeFile i) (file_size (m ! i)) ls) s ids = efold assign s (map ?w ids)" for s ids
    by (simp add: efold_map)
  have pk: "efold (\<lambda>ls (ids, bytes). assign_task (TinyPack ids bytes) bytes ls) s ps = efold assign s (pack_work ps)" for s ps
    by (simp add: efold_map case_prod_beta')
  show ?thesis
    by (cases "efold assign (empty_lanes n) (large_work n (numbered m))")
      (simp_all add: build_transfer_plan_def split_manifest_eq [OF assms] med pk efold_append medium_work_def)
qed

lemma lanes_wf_empty [simp]: "lanes_wf n (empty_lanes n)" "load (empty_lanes n) = 0"
  by (simp_all add: lanes_wf_def load_def sum_list_replicate)

lemma build_transfer_plan_tasks:
  assumes "0 < n" "n \<le> 32" "build_transfer_plan m n = Inr p"
  shows "length (lanes p) = n \<and> (\<exists>ps. build_tiny_packs m (ids_of Tiny (numbered m)) = Inr ps \<and>
     mset (concat (lanes p)) = mset (map fst (large_work n (numbered m) @ medium_work m @ pack_work ps)))"
proof -
  obtain ls ps ls' where 1: "efold assign (empty_lanes n) (large_work n (numbered m) @ medium_work m) = Inr ls"
    and ps: "build_tiny_packs m (ids_of Tiny (numbered m)) = Inr ps" and 2: "efold assign ls (pack_work ps) = Inr ls'"
    and p: "p = \<lparr>lanes = lane_tasks ls'\<rparr>"
    using assms(3) unfolding build_transfer_plan_eq [OF assms(1,2)] by (auto simp: ebind_Inr)
  note f1 = assign_all_Inr [OF lanes_wf_empty(1) 1]
  note f2 = assign_all_Inr [OF conjunct1 [OF f1] 2]
  have "concat (replicate n []) = ([] :: TransferTask list)" by simp
  then show ?thesis using f1 f2 ps by (auto simp: p lanes_wf_def)
qed

lemma sum_list_filter_delta:
  "(\<Sum>i\<leftarrow>filter P [0..<n]. if i = f then (v::nat) else 0) = (if f < n \<and> P f then v else 0)"
  by (induction n) (auto simp: less_Suc_eq)

lemma ids_of_numbered: "ids_of c (numbered m) = filter (\<lambda>i. file_class (m ! i) = c) [0..<length m]"
  by (simp add: ids_of_def numbered_eq filter_map comp_def)

lemma carried_large:
  assumes "0 < n" "n \<le> 32" "f < length m" "b < unat (file_size (m ! f))"
  shows "total_carried m f b (map fst (large_work n (numbered m))) = (if file_class (m ! f) = Large then 1 else 0)"
proof -
  have "total_carried m f b (map fst (large_work n (numbered m))) =
      (\<Sum>i\<leftarrow>[0..<length m]. if i = f then (if file_class (m ! f) = Large then 1 else 0) else 0)"
    unfolding large_work_def numbered_eq map_concat total_carried_concat map_map
    using assms(4)
    by (intro arg_cong [where f = sum_list] map_cong) (auto simp: stripe_tasks_facts(1) [OF assms(1,2)])
  then show ?thesis using assms(3) by (simp only: sum_list_delta if_True)
qed

lemma carried_medium:
  assumes "f < length m" "b < unat (file_size (m ! f))"
  shows "total_carried m f b (map fst (medium_work m)) = (if file_class (m ! f) = Medium then 1 else 0)"
proof -
  let ?ids = "ids_of Medium (numbered m)"
  have "total_carried m f b (map fst (medium_work m)) = total_carried m f b (map WholeFile ?ids)"
    by (rule total_carried_mset) (simp add: medium_work_def comp_def)
  also have "\<dots> = (\<Sum>i\<leftarrow>?ids. if i = f then 1 else 0)"
    using assms(2) by (simp add: total_carried_def comp_def)
  also have "\<dots> = (if file_class (m ! f) = Medium then 1 else 0)"
    unfolding ids_of_numbered sum_list_filter_delta using assms(1) by simp
  finally show ?thesis .
qed

lemma count_list_concat: "count_list (concat xss) x = (\<Sum>xs\<leftarrow>xss. count_list xs x)"
  by (induction xss) auto

lemma count_list_filter_upt: "count_list (filter P [0..<n]) f = (if f < n \<and> P f then 1 else 0)"
  by (induction n) (auto simp: less_Suc_eq)

lemma carried_packs:
  assumes "build_tiny_packs m (ids_of Tiny (numbered m)) = Inr ps" "f < length m" "b < unat (file_size (m ! f))"
  shows "total_carried m f b (map fst (pack_work ps)) = (if file_class (m ! f) = Tiny then 1 else 0)"
proof -
  have "total_carried m f b (map fst (pack_work ps)) = (\<Sum>p\<leftarrow>ps. count_list (fst p) f)"
    using assms(3) by (simp add: total_carried_def comp_def case_prod_beta')
  also have "\<dots> = count_list (ids_of Tiny (numbered m)) f"
    using build_tiny_packs_Inr [OF assms(1)] count_list_concat [of "map fst ps" f] by (simp add: comp_def)
  finally show ?thesis using assms(2) by (simp add: ids_of_numbered count_list_filter_upt)
qed


lemma work_bytes_large:
  assumes "0 < n" "n \<le> 32"
  shows "work_bytes (large_work n (numbered m)) = file_bytes m (filter (\<lambda>i. file_class (m ! i) = Large) [0..<length m])"
proof -
  have "work_bytes (large_work n (numbered m)) =
      (\<Sum>i\<leftarrow>[0..<length m]. if file_class (m ! i) = Large then unat (file_size (m ! i)) else 0)"
    unfolding large_work_def numbered_eq work_bytes_concat map_map
    by (intro arg_cong [where f = sum_list] map_cong) (auto simp: stripe_tasks_facts(2) [OF assms])
  then show ?thesis by (simp add: file_bytes_def sum_list_map_filter')
qed

lemma work_bytes_medium: "work_bytes (medium_work m) = file_bytes m (filter (\<lambda>i. file_class (m ! i) = Medium) [0..<length m])"
proof -
  let ?ids = "ids_of Medium (numbered m)"
  have "work_bytes (medium_work m) = (\<Sum>i\<leftarrow>sort_key (\<lambda>i. - int (unat (file_size (m ! i)))) ?ids. unat (file_size (m ! i)))"
    by (simp add: work_bytes_def medium_work_def comp_def)
  also have "\<dots> = file_bytes m ?ids"
    unfolding file_bytes_def by (rule sum_list_map_mset) simp
  finally show ?thesis by (simp add: ids_of_numbered)
qed

lemma work_bytes_packs:
  assumes "list_all (pack_ok m) ps"
  shows "work_bytes (pack_work ps) = file_bytes m (concat (map fst ps))"
  using assms
proof (induction ps)
  case (Cons p ps)
  then show ?case using work_bytes_append [of "pack_work [p]" "pack_work ps"]
    by (simp add: file_bytes_append pack_ok_def work_bytes_def case_prod_beta')
qed (simp add: file_bytes_def)

lemma file_bytes_by_class:
  "file_bytes m (filter (\<lambda>i. file_class (m ! i) = Large) ids) + file_bytes m (filter (\<lambda>i. file_class (m ! i) = Medium) ids) +
   file_bytes m (filter (\<lambda>i. file_class (m ! i) = Tiny) ids) = file_bytes m ids"
proof (induction ids)
  case (Cons i ids)
  then show ?case by (cases "file_class (m ! i)") (auto simp: file_bytes_def)
qed (simp add: file_bytes_def)

lemma build_transfer_plan_exists:
  assumes n: "0 < n" "n \<le> 32" and total: "file_bytes m [0..<length m] < 2 ^ 64"
  shows "\<exists>p. build_transfer_plan m n = Inr p"
proof -
  let ?tiny = "ids_of Tiny (numbered m)" and ?w = "large_work n (numbered m) @ medium_work m"
  have bytes: "work_bytes ?w + file_bytes m ?tiny = file_bytes m [0..<length m]"
    using file_bytes_by_class [of m "[0..<length m]"] by (simp add: work_bytes_large [OF n] work_bytes_medium ids_of_numbered)
  obtain ls where ls: "efold assign (empty_lanes n) ?w = Inr ls"
    using assign_all_total [OF lanes_wf_empty(1) n(1), of ?w] bytes total by (auto simp: work_bytes_def)
  note facts = assign_all_Inr [OF lanes_wf_empty(1) ls]
  let ?s0 = "\<lparr>packs = [], current_file_ids = [], current_bytes = 0\<rparr>"
  have "\<exists>s. efold (pack_file m) ?s0 ?tiny = Inr s"
    using bytes total by (intro pack_files_total) (auto simp: pack_state_ok_def ids_of_numbered)
  then obtain ps where ps: "build_tiny_packs m ?tiny = Inr ps" by (auto simp: build_tiny_packs_def)
  have "load ls + work_bytes (pack_work ps) < 2 ^ 64"
    using facts bytes total build_tiny_packs_Inr [OF ps] work_bytes_packs [of m ps] by (simp add: work_bytes_def)
  then obtain ls' where "efold assign ls (pack_work ps) = Inr ls'"
    using assign_all_total [OF conjunct1 [OF facts] n(1), of "pack_work ps"] by (auto simp: work_bytes_def)
  then show ?thesis unfolding build_transfer_plan_eq [OF n] ls ebind_simps ps by simp
qed

text \<open>What each task of a plan satisfies; for stripes this is the receiver's own check.\<close>

fun task_ok :: "ManifestEntry list \<Rightarrow> TransferTask \<Rightarrow> bool" where
  "task_ok m (WholeFile i) \<longleftrightarrow> i < length m \<and> file_class (m ! i) = Medium"
| "task_ok m (TinyPack ids bytes) \<longleftrightarrow> pack_ok m (ids, bytes) \<and> (\<forall>i\<in>set ids. i < length m \<and> file_class (m ! i) = Tiny)"
| "task_ok m (Stripe i off l) \<longleftrightarrow> i < length m \<and> validate_stripe (m ! i) off l = Inr () \<and> l \<le> MAX_RESUME_STRIPE_BYTES"

lemma stripe_task_ok:
  assumes "0 < n" "n \<le> 32" "i < length m" "file_class (m ! i) = Large" "tb \<in> set (stripe_tasks n i (file_size (m ! i)))"
  shows "task_ok m (fst tb)"
proof -
  let ?len = "file_size (m ! i)"
  obtain c where c: "large_file_stripe_count ?len n = Inr c" using assms(1) by (simp add: large_file_stripe_count_def)
  then obtain k where k: "k < c" "tb \<in> set (stripe_task i ?len c k)" using assms(5) by (auto simp: stripe_tasks_def)
  note fits = stripe_count_fits [OF c assms(2) k(1)]
  obtain off l where r: "stripe_range ?len k c = Inr (off, l)"
    and u: "unat off = min (stripe_size (unat ?len) c * k) (unat ?len)"
      "unat l = min (unat ?len - min (stripe_size (unat ?len) c * k) (unat ?len)) (stripe_size (unat ?len) c)"
    using stripe_range_nat [OF fits(1) k(1) fits(2)] by blast
  have l0: "l \<noteq> 0" and tb: "tb = (Stripe i off l, l)" using k(2) r by (auto simp: stripe_task_def split: if_splits)
  have sum: "unat off + unat l \<le> unat ?len" using u by simp
  then have "unat off + unat l < 2 ^ 64" using unat_less_2p [of ?len] by simp
  then have e1: "checked_add off l = Some (off + l)" by (simp add: checked_add_def)
  note e = e1 unat_checked_add [OF e1]
  have "unat l \<le> 2 ^ 27" using u(2) fits(3) by simp
  then have "l \<le> MAX_RESUME_STRIPE_BYTES" by (simp add: word_le_nat_alt MAX_RESUME_STRIPE_BYTES_def)
  moreover have "\<not> off + l > ?len" using e(2) sum by (simp add: word_less_nat_alt not_less)
  ultimately show ?thesis using assms(3,4) l0 e(1) by (simp add: tb validate_stripe_def)
qed


lemma ids_of_tiny_ok: "i \<in> set (ids_of Tiny (numbered m)) \<Longrightarrow> i < length m \<and> file_class (m ! i) = Tiny"
  by (simp add: ids_of_numbered)

lemma plan_tasks_ok:
  assumes "0 < n" "n \<le> 32" "build_transfer_plan m n = Inr p" "t \<in> set (concat (lanes p))"
  shows "task_ok m t"
proof -
  obtain ps where ps: "build_tiny_packs m (ids_of Tiny (numbered m)) = Inr ps"
    and tasks: "mset (concat (lanes p)) = mset (map fst (large_work n (numbered m) @ medium_work m @ pack_work ps))"
    using build_transfer_plan_tasks [OF assms(1-3)] by blast
  have packs: "list_all (pack_ok m) ps" "concat (map fst ps) = ids_of Tiny (numbered m)" using build_tiny_packs_Inr [OF ps] by simp_all
  have "t \<in> set (map fst (large_work n (numbered m) @ medium_work m @ pack_work ps))"
    using assms(4) unfolding mset_eq_setD [OF tasks] .
  then consider "t \<in> set (map fst (large_work n (numbered m)))" | "t \<in> set (map fst (medium_work m))" | "t \<in> set (map fst (pack_work ps))"
    unfolding map_append set_append by blast
  then show ?thesis
  proof cases
    case 1
    then obtain i tb where "i < length m" "file_class (m ! i) = Large" "tb \<in> set (stripe_tasks n i (file_size (m ! i)))" "t = fst tb"
      by (auto simp: large_work_def numbered_eq split: if_splits)
    then show ?thesis using stripe_task_ok [OF assms(1,2)] by blast
  next
    case 2
    then show ?thesis by (auto simp: medium_work_def ids_of_numbered)
  next
    case 3
    then obtain ids bytes where "(ids, bytes) \<in> set ps" "t = TinyPack ids bytes" by auto
    moreover have "i \<in> set (ids_of Tiny (numbered m))" if "i \<in> set ids" for i
      using that calculation(1) by (force simp: packs(2) [symmetric])
    ultimately show ?thesis using packs(1) ids_of_tiny_ok by (auto simp: list_all_iff)
  qed
qed


section \<open>What a resume offer leaves to transfer\<close>

definition offered_byte :: "ResumeStripe fset \<Rightarrow> usize \<Rightarrow> nat \<Rightarrow> bool" where
  "offered_byte offered f b \<longleftrightarrow> fBex offered (\<lambda>s. unat (stripe_file_id s) = f \<and>
     unat (stripe_offset s) \<le> b \<and> b < unat (stripe_offset s) + unat (stripe_length s))"

fun dropped :: "ResumeStripe fset \<Rightarrow> TransferTask \<Rightarrow> bool" where
  "dropped offered (Stripe i off l) \<longleftrightarrow> (\<exists>s. ResumeStripe_new i off l = Inr s \<and> s |\<in>| offered)"
| "dropped offered _ \<longleftrightarrow> False"

lemma ResumeStripe_new_Inr:
  "ResumeStripe_new i off l = Inr s \<longleftrightarrow> l \<noteq> 0 \<and> i < 2 ^ 64 \<and> s = ResumeStripe (of_nat i) off l"
  by (auto simp: ResumeStripe_new_def ebind_Inr word_try_from_Inr)

lemma count_list_filter: "count_list (filter P xs) x = (if P x then count_list xs x else 0)"
  by (induction xs) auto

lemma apply_task_carried:
  assumes "apply_task m offered unchanged (a, rem) t = Inr (a', rem')"
  shows "total_carried m f b rem' = total_carried m f b rem +
     (if f |\<in>| unchanged \<or> dropped offered t then 0 else carried m f b t)"
proof (cases t)
  case (TinyPack ids bytes)
  then show ?thesis using assms
    by (auto simp: apply_task_def Let_def ebind_Inr count_list_filter total_carried_def filter_empty_conv count_list_0_iff
        split: if_splits)
next
  case (Stripe i off l)
  then show ?thesis using assms
    by (auto simp: apply_task_def ebind_Inr total_carried_def split: if_splits)
qed (use assms in \<open>auto simp: apply_task_def total_carried_def split: if_splits\<close>)

definition left_over :: "ManifestEntry list \<Rightarrow> ResumeStripe fset \<Rightarrow> usize fset \<Rightarrow> usize \<Rightarrow> nat \<Rightarrow> TransferTask \<Rightarrow> nat" where
  "left_over m offered unchanged f b t = (if f |\<in>| unchanged \<or> dropped offered t then 0 else carried m f b t)"

lemma apply_tasks_carried:
  "efold (apply_task m offered unchanged) (a, rem) ts = Inr (a', rem') \<Longrightarrow>
   total_carried m f b rem' = total_carried m f b rem + (\<Sum>t\<leftarrow>ts. left_over m offered unchanged f b t)"
proof (induction ts arbitrary: a rem)
  case (Cons t ts)
  then obtain a1 rem1 where "apply_task m offered unchanged (a, rem) t = Inr (a1, rem1)"
    "efold (apply_task m offered unchanged) (a1, rem1) ts = Inr (a', rem')" by (auto simp: ebind_Inr)
  then show ?case using apply_task_carried [of m offered unchanged a rem t a1 rem1 f b] Cons.IH [of a1 rem1]
    by (simp add: left_over_def)
qed simp

lemma apply_lane_Inr:
  "apply_lane m offered unchanged (a, rebuilt) l = Inr r \<longleftrightarrow>
     (\<exists>a1 r1. efold (apply_task m offered unchanged) (a, []) l = Inr (a1, r1) \<and> r = (a1, rebuilt @ [r1]))"
  by (auto simp: apply_lane_def ebind_Inr)

lemma apply_lanes_carried:
  "efold (apply_lane m offered unchanged) (a, rebuilt) ls = Inr (a', rebuilt') \<Longrightarrow>
   total_carried m f b (concat rebuilt') = total_carried m f b (concat rebuilt) +
     (\<Sum>t\<leftarrow>concat ls. left_over m offered unchanged f b t) \<and> length rebuilt' = length rebuilt + length ls"
proof (induction ls arbitrary: a rebuilt)
  case (Cons l ls)
  then obtain a1 r1 where "efold (apply_task m offered unchanged) (a, []) l = Inr (a1, r1)"
    "efold (apply_lane m offered unchanged) (a1, rebuilt @ [r1]) ls = Inr (a', rebuilt')"
    by (auto simp: ebind_Inr apply_lane_Inr)
  then show ?case using apply_tasks_carried [of m offered unchanged a "[]" l a1 r1 f b] Cons.IH [of a1 "rebuilt @ [r1]"]
    by simp
qed simp

lemma planned_stripe_from_tasks:
  "efold planned_stripe S ts = Inr planned \<Longrightarrow> s |\<in>| planned \<Longrightarrow>
   s |\<in>| S \<or> (\<exists>i off l. Stripe i off l \<in> set ts \<and> ResumeStripe_new i off l = Inr s)"
proof (induction ts arbitrary: S)
  case (Cons t ts)
  then obtain S1 where 1: "planned_stripe S t = Inr S1" "efold planned_stripe S1 ts = Inr planned" by (auto simp: ebind_Inr)
  have "s |\<in>| S1 \<Longrightarrow> s |\<in>| S \<or> (\<exists>i off l. Stripe i off l \<in> set (t # ts) \<and> ResumeStripe_new i off l = Inr s)"
    using 1(1) by (auto simp: planned_stripe_def ebind_Inr split: TransferTask.splits if_splits)
  then show ?case using Cons.IH [OF 1(2) Cons.prems(2)] by auto
qed simp

lemma sum_list_drop_one:
  "x \<in> set xs \<Longrightarrow> (\<And>y. g y \<le> f y) \<Longrightarrow> g x = 0 \<Longrightarrow> (\<Sum>y\<leftarrow>xs. g y) + f x \<le> (\<Sum>y\<leftarrow>xs. f y :: nat)"
proof (induction xs)
  case (Cons a xs)
  then show ?case
  proof (cases "x \<in> set xs")
    case True
    then show ?thesis using Cons.IH Cons.prems(2)[of a] Cons.prems(2,3) by fastforce
  next
    case False
    then have "a = x" using Cons.prems(1) by simp
    then show ?thesis using Cons.prems(2,3) sum_list_mono [of xs g f] by simp
  qed
qed simp

lemma left_over_total:
  assumes once: "total_carried m f b ts = 1" and f: "f |\<notin>| unchanged" and sub: "offered |\<subseteq>| planned"
    and planned: "efold planned_stripe {||} ts = Inr planned"
  shows "(\<Sum>t\<leftarrow>ts. left_over m offered unchanged f b t) = (if offered_byte offered f b then 0 else 1)"
proof (cases "offered_byte offered f b")
  case True
  then obtain s where s: "s |\<in>| offered" "unat (stripe_file_id s) = f" "unat (stripe_offset s) \<le> b"
    "b < unat (stripe_offset s) + unat (stripe_length s)" by (auto simp: offered_byte_def)
  then obtain i off l where t: "Stripe i off l \<in> set ts" "ResumeStripe_new i off l = Inr s"
    using planned_stripe_from_tasks [OF planned] sub by blast
  then have "carried m f b (Stripe i off l) = 1" "left_over m offered unchanged f b (Stripe i off l) = 0"
    using s by (auto simp: ResumeStripe_new_Inr left_over_def unat_of_nat_small)
  then show ?thesis using sum_list_drop_one [OF t(1), of "left_over m offered unchanged f b" "carried m f b"] once True
    by (simp add: total_carried_def left_over_def)
next
  case False
  have "left_over m offered unchanged f b t = carried m f b t" for t
    using False f by (cases t) (fastforce simp: left_over_def offered_byte_def ResumeStripe_new_Inr unat_of_nat_small)+
  then show ?thesis using once False by (simp add: total_carried_def)
qed


lemma plan_carries_once:
  assumes "0 < n" "n \<le> 32" "build_transfer_plan m n = Inr p" "f < length m" "b < unat (file_size (m ! f))"
  shows "length (lanes p) = n \<and> total_carried m f b (concat (lanes p)) = 1"
proof -
  obtain ps where ps: "build_tiny_packs m (ids_of Tiny (numbered m)) = Inr ps"
    and tasks: "mset (concat (lanes p)) = mset (map fst (large_work n (numbered m) @ medium_work m @ pack_work ps))"
    and len: "length (lanes p) = n"
    using build_transfer_plan_tasks [OF assms(1-3)] by blast
  show ?thesis
    using total_carried_mset [OF tasks, of m f b] len carried_large [OF assms(1,2,4,5)]
      carried_medium [OF assms(4,5)] carried_packs [OF ps assms(4,5)]
    by (cases "file_class (m ! f)") (simp_all del: map_map)
qed

lemma resumed_carried:
  assumes "0 < n" "n \<le> 32" "build_transfer_plan m n = Inr p"
    "apply_resume_offer p m offered unchanged = Inr (a, q)" "f < length m" "b < unat (file_size (m ! f))"
  shows "total_carried m f b (concat (lanes q)) = (if f |\<in>| unchanged \<or> offered_byte offered f b then 0 else 1)"
proof -
  from assms(4) obtain planned a0 a1 rebuilt where planned: "efold planned_stripe {||} (concat (lanes p)) = Inr planned"
      "offered |\<subseteq>| planned"
    and fold: "efold (apply_lane m offered unchanged) (a0, []) (lanes p) = Inr (a1, rebuilt)" and q: "lanes q = rebuilt"
    by (auto simp: apply_resume_offer_def validate_resume_offer_def planned_resume_stripes_def ebind_Inr split: if_splits)
  have "total_carried m f b (concat (lanes q)) = (\<Sum>t\<leftarrow>concat (lanes p). left_over m offered unchanged f b t)"
    using apply_lanes_carried [OF fold, of f b] by (simp add: q)
  moreover have "total_carried m f b (concat (lanes p)) = 1" using plan_carries_once [OF assms(1-3,5,6)] by blast
  ultimately show ?thesis
    using left_over_total [OF _ _ planned(2,1), of m f b unchanged]
    by (cases "f |\<in>| unchanged") (simp_all add: left_over_def)
qed

section \<open>A sample plan\<close>

text \<open>One large file of 64 MiB over two lanes; the receiver already holds the second half.\<close>

definition sample_large :: ManifestEntry where
  "sample_large = \<lparr>relative_path = [0x61], file_size = 64 * 1024 * 1024, last_write_time = 0, file_attributes = 0x20, file_class = Large\<rparr>"

definition sample_offer :: "ResumeStripe fset" where
  "sample_offer = {|ResumeStripe 0 0x2000000 0x2000000|}"

lemma sample_stripes:
  "large_file_stripe_count 0x4000000 2 = Inr 2"
  "stripe_range 0x4000000 0 2 = Inr (0, 0x2000000)"
  "stripe_range 0x4000000 (Suc 0) 2 = Inr (0x2000000, 0x2000000)"
proof -
  show "large_file_stripe_count 0x4000000 2 = Inr 2" by (simp add: large_file_stripe_count_eq stripe_size_def)
  have d: "div_ceil 0x4000000 2 = 0x2000000" by (simp add: div_ceil_def)
  show "stripe_range 0x4000000 0 2 = Inr (0, 0x2000000)" "stripe_range 0x4000000 (Suc 0) 2 = Inr (0x2000000, 0x2000000)"
    by (simp_all add: stripe_range_def d checked_mul_def)
qed

lemma upt_two: "[0..<2] = [0, Suc 0]" "[0..<Suc 0] = [0]" "[0..<Suc (Suc 0)] = [0, Suc 0]" "replicate 2 x = [x, x]"
  by (simp_all add: numeral_2_eq_2)

lemma sample_plan: "build_transfer_plan [sample_large] 2 = Inr \<lparr>lanes = [[Stripe 0 0 0x2000000], [Stripe 0 0x2000000 0x2000000]]\<rparr>"
  by (simp add: build_transfer_plan_def split_entry_def sample_large_def sample_stripes assign_stripe_def
      checked_add_def assign_task_def least_loaded_lane_def lane_key_def key_less_def build_tiny_packs_def
      upt_two)


lemma sample_resume:
  "\<exists>a. apply_resume_offer \<lparr>lanes = [[Stripe 0 0 0x2000000], [Stripe 0 0x2000000 0x2000000]]\<rparr> [sample_large] sample_offer {||} =
     Inr (a, \<lparr>lanes = [[Stripe 0 0 0x2000000], []]\<rparr>)"
  by (simp add: apply_resume_offer_def validate_resume_offer_def planned_resume_stripes_def planned_stripe_def
      ResumeStripe_new_def word_try_from_def sample_offer_def validate_unchanged_offer_def empty_application_def
      apply_lane_def apply_task_def add_lane_counts_def checked_add_def fcard.rep_eq sorted_list_of_fset.rep_eq)

section \<open>Properties\<close>

text \<open>
  C28. Planning always succeeds.  With 1 to 32 lanes and a manifest whose total size fits in 64
  bits, \<open>build_transfer_plan\<close> returns a plan: no stripe offset, lane load or pack size can overflow.
\<close>
theorem transfer_plan_total:
  assumes "0 < n" "n \<le> 32" "file_bytes m [0..<length m] < 2 ^ 64"
  shows "\<exists>p. build_transfer_plan m n = Inr p"
  using assms by (rule build_transfer_plan_exists)

theorem transfer_plan_total_witness: "\<exists>p. build_transfer_plan [sample_large] 2 = Inr p"
  by (rule transfer_plan_total) (simp_all add: file_bytes_def sample_large_def)

text \<open>
  C9. A plan carries every byte of every file exactly once, whatever the classes and sizes: no
  gap and no overlap between the stripes of a large file, and no file in two packs or lanes.  Each task passes the
  checks of the receiver; stripes have at most 128 MiB, packs at most 4096 files and 8 MiB (or one file).
\<close>
theorem transfer_plan_covers_once:
  assumes "0 < n" "n \<le> 32" "build_transfer_plan m n = Inr p"
  shows "length (lanes p) = n \<and>
     (\<forall>f<length m. \<forall>b<unat (file_size (m ! f)). total_carried m f b (concat (lanes p)) = 1) \<and>
     (\<forall>t\<in>set (concat (lanes p)). task_ok m t)"
  using plan_carries_once [OF assms] plan_tasks_ok [OF assms] build_transfer_plan_tasks [OF assms] by blast

theorem transfer_plan_covers_once_witness:
  "total_carried [sample_large] 0 7 [Stripe 0 0 0x2000000, Stripe 0 0x2000000 0x2000000] = 1 \<and>
   task_ok [sample_large] (Stripe 0 0x2000000 0x2000000)"
  using transfer_plan_covers_once [OF _ _ sample_plan] by (simp add: sample_large_def)

text \<open>
  C10. A resumed transfer sends exactly what is missing.  When the receiver's offer of completed
  stripes and unchanged files is applied to a plan, each byte of an unchanged file or of an offered stripe is
  carried by no remaining task, and each other byte by exactly one.
\<close>
theorem resume_sends_exactly_the_rest:
  assumes "0 < n" "n \<le> 32" "build_transfer_plan m n = Inr p"
    "apply_resume_offer p m offered unchanged = Inr (a, q)" "f < length m" "b < unat (file_size (m ! f))"
  shows "total_carried m f b (concat (lanes q)) = (if f |\<in>| unchanged \<or> offered_byte offered f b then 0 else 1)"
  using resumed_carried [OF assms] .

theorem resume_sends_exactly_the_rest_witness:
  "total_carried [sample_large] 0 7 [Stripe 0 0 0x2000000] = 1 \<and> total_carried [sample_large] 0 0x2000007 [Stripe 0 0 0x2000000] = 0"
proof -
  obtain a where a: "apply_resume_offer \<lparr>lanes = [[Stripe 0 0 0x2000000], [Stripe 0 0x2000000 0x2000000]]\<rparr> [sample_large] sample_offer {||} =
     Inr (a, \<lparr>lanes = [[Stripe 0 0 0x2000000], []]\<rparr>)" using sample_resume by blast
  have size: "unat (file_size sample_large) = 0x4000000" by (simp add: sample_large_def)
  show ?thesis
    using resume_sends_exactly_the_rest [OF _ _ sample_plan a, of 0 7]
      resume_sends_exactly_the_rest [OF _ _ sample_plan a, of 0 "0x2000007"]
    by (simp add: size offered_byte_def sample_offer_def)
qed

end
