(* ===== verification/Fresh_Generations.thy ===== *)
theory Fresh_Generations
  imports Transfer_Plan Session_Catalog
begin

text \<open>
  Fresh transfers in generations, from \<^verbatim>\<open>src/multistream_copy.rs\<close>: which files of a transfer plan enter
  the session catalog, how a resumed transfer skips a prefix of completed generations, and how the remaining
  tasks of every lane are distributed over the generations.  A \<^verbatim>\<open>BTreeSet<usize>\<close> is a finite set.

  \<^verbatim>\<open>partition_point\<close> and \<^verbatim>\<open>binary_search_by_key\<close> are specified for ordered
  slices; the model takes the first generation whose last ID is not below the key, and membership, which is
  what they return on the ordered catalogs proved below.
\<close>

section \<open>Catalog candidates of a transfer plan\<close>

fun catalog_task_file_id :: "TransferTask \<Rightarrow> usize option" where
  "catalog_task_file_id (WholeFile i) = Some i"
| "catalog_task_file_id (Stripe i _ _) = Some i"
| "catalog_task_file_id (TinyPack _ _) = None"

definition collect_task :: "ManifestEntry list \<Rightarrow> usize list \<Rightarrow> TransferTask \<Rightarrow> usize list io_result" where
  "collect_task manifest ids task =
     (case catalog_task_file_id task of
        None \<Rightarrow> Inr ids
      | Some i \<Rightarrow>
          ebind (ok_or InvalidData (manifest_get manifest i)) (\<lambda>entry.
            (case task of
               WholeFile _ \<Rightarrow> if file_class entry \<noteq> Medium then Inl InvalidData else Inr (ids @ [i])
             | Stripe _ _ _ \<Rightarrow> if file_class entry \<noteq> Large then Inl InvalidData else Inr (ids @ [i])
             | TinyPack _ _ \<Rightarrow> Inl InvalidData)))"

definition collect_fresh_catalog_candidates :: "ManifestEntry list \<Rightarrow> TransferPlan \<Rightarrow> CatalogCandidate list io_result" where
  "collect_fresh_catalog_candidates manifest p =
     ebind (efold (collect_task manifest) [] (concat (lanes p))) (\<lambda>ids.
       efold (\<lambda>cs i. ebind (ok_or InvalidData (manifest_get manifest i)) (\<lambda>entry.
                      ebind (CatalogCandidate_new i (file_size entry)) (\<lambda>c. Inr (cs @ [c]))))
         [] (remdups_adj (sort ids)))"

record FreshGenerationPlan =
  catalog :: CatalogPlan
  completed_generation_count :: usize

definition check_generation_indices :: "CatalogPlan \<Rightarrow> unit io_result" where
  "check_generation_indices cat =
     efold (\<lambda>_ (i, g). if gen_index g \<noteq> i then Inl InvalidData else Inr ()) ()
       (zip [0..<length (generations cat)] (generations cat))"

definition build_fresh_generation_plan_with_limits ::
    "ManifestEntry list \<Rightarrow> TransferPlan \<Rightarrow> CatalogLimits \<Rightarrow> FreshGenerationPlan io_result" where
  "build_fresh_generation_plan_with_limits manifest p limits =
     ebind (collect_fresh_catalog_candidates manifest p) (\<lambda>candidates.
     ebind (plan candidates limits) (\<lambda>cat.
     ebind (check_generation_indices cat) (\<lambda>_.
       Inr \<lparr>catalog = cat, completed_generation_count = 0\<rparr>)))"

section \<open>Resuming after completed generations\<close>

abbreviation generation_ids :: "CatalogGeneration \<Rightarrow> usize list" where
  "generation_ids g \<equiv> map file_id (transfer_files g)"

definition catalog_generation_index_for_file_id :: "CatalogPlan \<Rightarrow> usize \<Rightarrow> usize option" where
  "catalog_generation_index_for_file_id cat f =
     (let k = length (takeWhile (\<lambda>g. transfer_files g \<noteq> [] \<and> file_id (last (transfer_files g)) < f) (generations cat))
      in if k < length (generations cat) \<and> f \<in> set (generation_ids (generations cat ! k)) then Some k else None)"

fun completed_prefix :: "usize fset \<Rightarrow> usize \<Rightarrow> CatalogGeneration list \<Rightarrow> usize io_result" where
  "completed_prefix ids n [] = Inr n"
| "completed_prefix ids n (g # gs) =
     (if transfer_files g = [] then Inl InvalidData
      else
        (let completed = length (filter (\<lambda>c. file_id c |\<in>| ids) (transfer_files g)) in
         if completed = length (transfer_files g) then
           (if usize_max < n + 1 then Inl OtherError else completed_prefix ids (n + 1) gs)
         else if completed \<noteq> 0 then Inl InvalidData
         else Inr n))"

definition check_completed_file :: "CatalogPlan \<Rightarrow> usize \<Rightarrow> usize \<Rightarrow> unit io_result" where
  "check_completed_file cat n f =
     (case catalog_generation_index_for_file_id cat f of
        None \<Rightarrow> Inl InvalidData
      | Some k \<Rightarrow> if k \<ge> n then Inl InvalidData else Inr ())"

definition apply_fresh_resume_prefix :: "FreshGenerationPlan \<Rightarrow> usize fset \<Rightarrow> FreshGenerationPlan io_result" where
  "apply_fresh_resume_prefix p ids =
     (if completed_generation_count p \<noteq> 0 then Inl InvalidInput
      else
        ebind (completed_prefix ids 0 (generations (catalog p))) (\<lambda>n.
        ebind (efold (\<lambda>_ f. check_completed_file (catalog p) n f) () (sorted_list_of_fset ids)) (\<lambda>_.
          Inr (p\<lparr>completed_generation_count := n\<rparr>))))"

section \<open>Distributing the tasks\<close>

record FreshGenerationExecution =
  generation_lanes :: "TransferTask list list list"
  trailing_lanes :: "TransferTask list list"

definition count_tasks :: "TransferTask list list \<Rightarrow> usize io_result" where
  "count_tasks ls = efold (\<lambda>n l. if usize_max < n + length l then Inl OtherError else Inr (n + length l)) 0 ls"

definition place_task :: "CatalogPlan \<Rightarrow> usize \<Rightarrow> FreshGenerationExecution \<Rightarrow> TransferTask \<Rightarrow> FreshGenerationExecution io_result" where
  "place_task cat lane_id ex task =
     (case catalog_task_file_id task of
        None \<Rightarrow> Inr (ex\<lparr>trailing_lanes := (trailing_lanes ex)[lane_id := trailing_lanes ex ! lane_id @ [task]]\<rparr>)
      | Some f \<Rightarrow>
          ebind (ok_or InvalidData (catalog_generation_index_for_file_id cat f)) (\<lambda>k.
            if \<not> k < length (generation_lanes ex) then Inl InvalidData
            else if \<not> lane_id < length (generation_lanes ex ! k) then Inl InvalidData
            else Inr (ex\<lparr>generation_lanes := (generation_lanes ex)[k :=
                   (generation_lanes ex ! k)[lane_id := generation_lanes ex ! k ! lane_id @ [task]]]\<rparr>)))"

definition task_in_generation :: "CatalogGeneration \<Rightarrow> TransferTask \<Rightarrow> unit io_result" where
  "task_in_generation g task =
     (case catalog_task_file_id task of
        None \<Rightarrow> Inl InvalidData
      | Some f \<Rightarrow> if f \<in> set (generation_ids g) then Inr () else Inl InvalidData)"

definition validate_generation_lanes ::
    "FreshGenerationPlan \<Rightarrow> usize \<Rightarrow> usize \<times> CatalogGeneration \<times> TransferTask list list \<Rightarrow> unit io_result" where
  "validate_generation_lanes p lane_count entry =
     (case entry of (k, g, ls) \<Rightarrow>
        if length ls \<noteq> lane_count then Inl InvalidData
        else if k < completed_generation_count p \<and> list_ex (\<lambda>l. l \<noteq> []) ls then Inl InvalidData
        else efold (\<lambda>_ t. task_in_generation g t) () (concat ls))"

definition validate_fresh_generation_execution ::
    "FreshGenerationPlan \<Rightarrow> FreshGenerationExecution \<Rightarrow> usize \<Rightarrow> usize \<Rightarrow> unit io_result" where
  "validate_fresh_generation_execution p ex lane_count expected_task_count =
     (if completed_generation_count p > length (generations (catalog p)) then Inl InvalidData
      else if length (generation_lanes ex) \<noteq> length (generations (catalog p)) then Inl InvalidData
      else if length (trailing_lanes ex) \<noteq> lane_count then Inl InvalidData
      else
        ebind (efold (\<lambda>_. validate_generation_lanes p lane_count) ()
          (zip [0..<length (generations (catalog p))] (zip (generations (catalog p)) (generation_lanes ex)))) (\<lambda>_.
        ebind (efold (\<lambda>_ t. if catalog_task_file_id t \<noteq> None then Inl InvalidData else Inr ()) () (concat (trailing_lanes ex))) (\<lambda>_.
        ebind (count_tasks (concat (generation_lanes ex))) (\<lambda>generation_tasks.
        ebind (count_tasks (trailing_lanes ex)) (\<lambda>trailing_tasks.
          if usize_max < generation_tasks + trailing_tasks then Inl OtherError
          else if generation_tasks + trailing_tasks \<noteq> expected_task_count then Inl InvalidData
          else Inr ())))))"

text \<open>\<^verbatim>\<open>std::mem::take\<close> leaves every lane of the transfer plan empty.\<close>

definition build_fresh_generation_execution ::
    "FreshGenerationPlan \<Rightarrow> TransferPlan \<Rightarrow> (FreshGenerationExecution \<times> TransferPlan) io_result" where
  "build_fresh_generation_execution p tp =
     (let lane_count = length (lanes tp); cat = catalog p in
      ebind (count_tasks (lanes tp)) (\<lambda>expected_task_count.
      ebind (efold (\<lambda>ex (lane_id, tasks). efold (place_task cat lane_id) ex tasks)
         \<lparr>generation_lanes = replicate (length (generations cat)) (replicate lane_count []),
          trailing_lanes = replicate lane_count []\<rparr>
         (zip [0..<lane_count] (lanes tp))) (\<lambda>ex.
      ebind (validate_fresh_generation_execution p ex lane_count expected_task_count) (\<lambda>_.
        Inr (ex, tp\<lparr>lanes := replicate lane_count []\<rparr>)))))"

section \<open>Catalogs are ordered\<close>

definition catalog_ok :: "CatalogPlan \<Rightarrow> bool" where
  "catalog_ok cat \<longleftrightarrow> sorted_wrt (<) (concat (map generation_ids (generations cat))) \<and>
     (\<forall>g\<in>set (generations cat). transfer_files g \<noteq> []) \<and> length (generations cat) \<le> usize_max"

lemma validated_generations:
  "efold (validate_generation l) v gs = Inr v' \<Longrightarrow>
   (\<forall>g\<in>set gs. transfer_files g \<noteq> []) \<and> map gen_index gs = [vs_index v..<vs_index v + length gs]"
proof (induction gs arbitrary: v)
  case (Cons g gs)
  then obtain v1 where v1: "validate_generation l v g = Inr v1" "efold (validate_generation l) v1 gs = Inr v'" by (auto simp: ebind_Inr)
  then have "gen_index g = vs_index v" "transfer_files g \<noteq> []" "vs_index v1 = Suc (vs_index v)"
    by (auto simp: validate_generation_def ebind_Inr split: if_splits)
  moreover have "[vs_index v..<vs_index v + length (g # gs)] = vs_index v # [Suc (vs_index v)..<Suc (vs_index v) + length gs]"
    by (simp add: upt_conv_Cons del: upt_Suc)
  ultimately show ?case using Cons.IH [OF v1(2)] by (simp del: upt_Suc)
qed simp

lemma length_le_concat: "\<forall>xs\<in>set xss. xs \<noteq> [] \<Longrightarrow> length xss \<le> length (concat xss)"
proof (induction xss)
  case (Cons xs xss)
  then show ?case by (cases xs) auto
qed simp

lemma plan_catalog_ok:
  assumes "plan cs l = Inr cat"
  shows "catalog_ok cat" and "check_generation_indices cat = Inr ()"
    and "concat (map generation_ids (generations cat)) = map file_id (sort_key file_id cs)"
proof -
  obtain s where s: "planned s = sort_key file_id cs" "generations cat = ps_generations s"
    "validate_plan cat l = Inr ()" "sane (sort_key file_id cs)"
    using plan_Inr [OF assms] by metis
  show ids: "concat (map generation_ids (generations cat)) = map file_id (sort_key file_id cs)"
    unfolding s(1) [symmetric] s(2) map_concat by (simp add: comp_def)
  from s(3) obtain v where "efold (validate_generation l) initial_validation_state (generations cat) = Inr v"
    by (auto simp: validate_plan_def ebind_Inr)
  from validated_generations [OF this] have v: "\<forall>g\<in>set (generations cat). transfer_files g \<noteq> []"
    "map gen_index (generations cat) = [0..<length (generations cat)]" by (auto simp: initial_validation_state_def)
  have "length (generations cat) \<le> length (concat (map generation_ids (generations cat)))"
    using v(1) length_le_concat [of "map generation_ids (generations cat)"] by auto
  also have "\<dots> < 2 ^ 64" using s(4) unfolding ids by (simp add: sane_def)
  finally show "catalog_ok cat"
    using v(1) s(4) ids by (auto simp: catalog_ok_def sane_def ids_increasing_def usize_max_def)
  have "gen_index (generations cat ! i) = i" if "i < length (generations cat)" for i
    using v(2) that by (metis add_0 nth_map nth_upt)
  then have "\<forall>(i, g)\<in>set (zip [0..<length (generations cat)] (generations cat)). gen_index g = i"
    by (auto simp: set_zip)
  then have "efold (\<lambda>_ (i, g). if gen_index g \<noteq> i then Inl InvalidData else Inr ()) () xs = Inr ()"
    if "set xs \<subseteq> set (zip [0..<length (generations cat)] (generations cat))" for xs
    using that by (induction xs) auto
  then show "check_generation_indices cat = Inr ()" by (simp add: check_generation_indices_def)
qed

lemma generations_ordered:
  assumes "catalog_ok cat" "i < j" "j < length (generations cat)"
    "a \<in> set (generation_ids (generations cat ! i))" "b \<in> set (generation_ids (generations cat ! j))"
  shows "a < b"
proof -
  let ?gs = "generations cat"
  have "sorted_wrt (<) (concat (map generation_ids (take j ?gs)) @ concat (map generation_ids (drop j ?gs)))"
    using assms(1) by (simp add: catalog_ok_def flip: concat_append map_append)
  moreover have "a \<in> set (concat (map generation_ids (take j ?gs)))"
    using assms(2,3,4) nth_mem [of i "take j ?gs"] by auto
  moreover have "b \<in> set (concat (map generation_ids (drop j ?gs)))"
    using assms(3,5) by (auto simp: in_set_conv_nth Cons_nth_drop_Suc [symmetric])
  ultimately show ?thesis by (auto simp: sorted_wrt_append)
qed

lemma generation_sorted:
  assumes "catalog_ok cat" "g \<in> set (generations cat)"
  shows "sorted_wrt (<) (generation_ids g)"
proof -
  obtain xs ys where "generations cat = xs @ g # ys" using assms(2) by (metis split_list)
  then show ?thesis using assms(1) by (simp add: catalog_ok_def sorted_wrt_append)
qed

lemma generation_last:
  assumes "catalog_ok cat" "g \<in> set (generations cat)" "f \<in> set (generation_ids g)"
  shows "f \<le> file_id (last (transfer_files g))"
proof -
  have ne: "transfer_files g \<noteq> []" using assms(1,2) by (simp add: catalog_ok_def)
  have "generation_ids g = butlast (generation_ids g) @ [file_id (last (transfer_files g))]"
    using ne by (metis append_butlast_last_id last_map map_is_Nil_conv)
  then show ?thesis using generation_sorted [OF assms(1,2)] assms(3)
    by (metis (no_types, lifting) Un_iff list.set_intros(1) less_imp_le order_refl set_ConsD set_append sorted_wrt_append
        empty_iff empty_set)
qed

lemma generation_index_iff:
  assumes "catalog_ok cat"
  shows "catalog_generation_index_for_file_id cat f = Some k \<longleftrightarrow>
     k < length (generations cat) \<and> f \<in> set (generation_ids (generations cat ! k))"
proof
  assume *: "k < length (generations cat) \<and> f \<in> set (generation_ids (generations cat ! k))"
  let ?P = "\<lambda>g. transfer_files g \<noteq> [] \<and> file_id (last (transfer_files g)) < f"
  have "?P (generations cat ! i)" if "i < k" for i
  proof -
    have ne: "transfer_files (generations cat ! i) \<noteq> []" using assms * that by (simp add: catalog_ok_def)
    then have "file_id (last (transfer_files (generations cat ! i))) \<in> set (generation_ids (generations cat ! i))" by simp
    then show ?thesis using generations_ordered [OF assms that] * ne by blast
  qed
  moreover have "\<not> ?P (generations cat ! k)" using generation_last [OF assms nth_mem] * by (simp add: leD)
  ultimately have "takeWhile ?P (generations cat) = take k (generations cat)"
    by (intro takeWhile_eq_take_P_nth) auto
  then show "catalog_generation_index_for_file_id cat f = Some k"
    using * by (simp add: catalog_generation_index_for_file_id_def)
qed (auto simp: catalog_generation_index_for_file_id_def Let_def split: if_splits)

section \<open>The resume prefix\<close>

lemma filter_length_all: "length (filter P xs) = length xs \<longleftrightarrow> (\<forall>x\<in>set xs. P x)"
  by (induction xs) (auto simp: le_Suc_eq dest: length_filter_less intro: order.antisym)

definition prefix_complete :: "usize fset \<Rightarrow> nat \<Rightarrow> CatalogGeneration list \<Rightarrow> bool" where
  "prefix_complete ids j gs \<longleftrightarrow> j \<le> length gs \<and> (\<forall>g\<in>set (take j gs). set (generation_ids g) \<subseteq> fset ids) \<and>
     (j < length gs \<longrightarrow> set (generation_ids (gs ! j)) \<inter> fset ids = {})"

lemma completed_prefix_iff:
  assumes "\<forall>g\<in>set gs. transfer_files g \<noteq> []" "n + length gs \<le> usize_max"
  shows "completed_prefix ids n gs = Inr k \<longleftrightarrow> (\<exists>j. k = n + j \<and> prefix_complete ids j gs)"
  using assms
proof (induction gs arbitrary: n)
  case Nil
  show ?case by (auto simp: prefix_complete_def)
next
  case (Cons g gs)
  have ne: "transfer_files g \<noteq> []" using Cons.prems by simp
  show ?case
  proof (cases "set (generation_ids g) \<subseteq> fset ids")
    case True
    then have all: "length (filter (\<lambda>c. file_id c |\<in>| ids) (transfer_files g)) = length (transfer_files g)"
      by (auto simp: filter_length_all)
    have "completed_prefix ids n (g # gs) = completed_prefix ids (n + 1) gs" using ne all Cons.prems(2) by simp
    also have "\<dots> = Inr k \<longleftrightarrow> (\<exists>j. k = n + 1 + j \<and> prefix_complete ids j gs)"
      using Cons.IH [of "n + 1"] Cons.prems by simp
    also have "\<dots> \<longleftrightarrow> (\<exists>j. k = n + j \<and> prefix_complete ids j (g # gs))"
    proof
      assume "\<exists>j. k = n + 1 + j \<and> prefix_complete ids j gs"
      then obtain j where "k = n + 1 + j" "prefix_complete ids j gs" by blast
      then show "\<exists>j. k = n + j \<and> prefix_complete ids j (g # gs)"
        using True by (intro exI [of _ "Suc j"]) (auto simp: prefix_complete_def)
    next
      assume "\<exists>j. k = n + j \<and> prefix_complete ids j (g # gs)"
      then obtain j where j: "k = n + j" "prefix_complete ids j (g # gs)" by blast
      have "j \<noteq> 0" using j(2) True ne by (cases "transfer_files g") (auto simp: prefix_complete_def)
      then obtain i where "j = Suc i" by (cases j) auto
      then show "\<exists>j. k = n + 1 + j \<and> prefix_complete ids j gs"
        using j by (intro exI [of _ i]) (auto simp: prefix_complete_def)
    qed
    finally show ?thesis .
  next
    case False
    then have some: "length (filter (\<lambda>c. file_id c |\<in>| ids) (transfer_files g)) \<noteq> length (transfer_files g)"
      by (auto simp: filter_length_all)
    have zero: "length (filter (\<lambda>c. file_id c |\<in>| ids) (transfer_files g)) = 0 \<longleftrightarrow> set (generation_ids g) \<inter> fset ids = {}"
      by (auto simp: filter_empty_conv)
    have "prefix_complete ids j (g # gs) \<longleftrightarrow> j = 0 \<and> set (generation_ids g) \<inter> fset ids = {}" for j
      using False by (cases j) (auto simp: prefix_complete_def)
    then show ?thesis using ne some zero by (auto simp: Let_def)
  qed
qed

lemma efold_check_Inr: "efold (\<lambda>_ x. f x) () xs = Inr () \<longleftrightarrow> (\<forall>x\<in>set xs. f x = Inr ())"
  by (induction xs) (auto simp: ebind_Inr)

lemma set_sorted_list_of_fset [simp]: "set (sorted_list_of_fset S) = fset S"
  by (simp add: sorted_list_of_fset.rep_eq)

abbreviation prefix_ids :: "CatalogPlan \<Rightarrow> nat \<Rightarrow> usize set" where
  "prefix_ids cat k \<equiv> set (concat (map generation_ids (take k (generations cat))))"

lemma in_prefix_ids:
  "k \<le> length (generations cat) \<Longrightarrow>
   f \<in> prefix_ids cat k \<longleftrightarrow> (\<exists>i<k. f \<in> set (generation_ids (generations cat ! i)))"
proof -
  assume k: "k \<le> length (generations cat)"
  have "f \<in> prefix_ids cat k \<longleftrightarrow> (\<exists>g\<in>set (take k (generations cat)). f \<in> set (generation_ids g))" by auto
  also have "\<dots> \<longleftrightarrow> (\<exists>i<k. f \<in> set (generation_ids (generations cat ! i)))"
    using k by (simp only: Bex_set_list_ex list_ex_length length_take min.absorb2) (metis nth_take)
  finally show ?thesis .
qed

lemma check_completed_files:
  assumes "catalog_ok cat" "n \<le> length (generations cat)"
  shows "efold (\<lambda>_ f. check_completed_file cat n f) () (sorted_list_of_fset ids) = Inr () \<longleftrightarrow> fset ids \<subseteq> prefix_ids cat n"
proof -
  have "check_completed_file cat n f = Inr () \<longleftrightarrow> f \<in> prefix_ids cat n" for f
  proof -
    have "f \<in> prefix_ids cat n \<longleftrightarrow> (\<exists>i<n. catalog_generation_index_for_file_id cat f = Some i)"
      unfolding in_prefix_ids [OF assms(2)] generation_index_iff [OF assms(1)] using assms(2) by (metis order_less_le_trans)
    then show ?thesis by (auto simp: check_completed_file_def not_le split: option.splits)
  qed
  then show ?thesis unfolding efold_check_Inr set_sorted_list_of_fset by blast
qed

lemma prefix_complete_exact:
  assumes cat: "catalog_ok cat" and k: "k \<le> length (generations cat)" and ids: "fset ids = prefix_ids cat k"
  shows "prefix_complete ids k (generations cat)"
proof -
  have "set (generation_ids (generations cat ! k)) \<inter> fset ids = {}" if "k < length (generations cat)"
    using generations_ordered [OF cat _ that] by (auto simp: ids in_prefix_ids [OF k] simp del: set_map set_concat) blast
  then show ?thesis using k ids by (auto simp: prefix_complete_def)
qed

lemma resume_prefix_iff:
  assumes cat: "catalog_ok (catalog p)" and fresh: "completed_generation_count p = 0"
  shows "apply_fresh_resume_prefix p ids = Inr q \<longleftrightarrow>
     (\<exists>k\<le>length (generations (catalog p)). fset ids = prefix_ids (catalog p) k \<and> q = p\<lparr>completed_generation_count := k\<rparr>)"
proof -
  have gens: "\<forall>g\<in>set (generations (catalog p)). transfer_files g \<noteq> []" "0 + length (generations (catalog p)) \<le> usize_max"
    using cat by (auto simp: catalog_ok_def)
  have "apply_fresh_resume_prefix p ids = Inr q \<longleftrightarrow>
      (\<exists>k. prefix_complete ids k (generations (catalog p)) \<and>
         efold (\<lambda>_ f. check_completed_file (catalog p) k f) () (sorted_list_of_fset ids) = Inr () \<and> q = p\<lparr>completed_generation_count := k\<rparr>)"
    using completed_prefix_iff [OF gens, of ids] by (auto simp: apply_fresh_resume_prefix_def fresh ebind_Inr)
  also have "\<dots> \<longleftrightarrow> (\<exists>k\<le>length (generations (catalog p)). fset ids = prefix_ids (catalog p) k \<and> q = p\<lparr>completed_generation_count := k\<rparr>)"
  proof (intro iff_exI iffI)
    fix k assume *: "prefix_complete ids k (generations (catalog p)) \<and>
         efold (\<lambda>_ f. check_completed_file (catalog p) k f) () (sorted_list_of_fset ids) = Inr () \<and> q = p\<lparr>completed_generation_count := k\<rparr>"
    then have k: "k \<le> length (generations (catalog p))" by (simp add: prefix_complete_def)
    moreover have "prefix_ids (catalog p) k \<subseteq> fset ids" using * by (auto simp: prefix_complete_def)
    ultimately show "k \<le> length (generations (catalog p)) \<and> fset ids = prefix_ids (catalog p) k \<and> q = p\<lparr>completed_generation_count := k\<rparr>"
      using * check_completed_files [OF cat k, of ids] by blast
  next
    fix k assume *: "k \<le> length (generations (catalog p)) \<and> fset ids = prefix_ids (catalog p) k \<and> q = p\<lparr>completed_generation_count := k\<rparr>"
    then show "prefix_complete ids k (generations (catalog p)) \<and>
         efold (\<lambda>_ f. check_completed_file (catalog p) k f) () (sorted_list_of_fset ids) = Inr () \<and> q = p\<lparr>completed_generation_count := k\<rparr>"
      using prefix_complete_exact [OF cat] check_completed_files [OF cat, of k ids] by blast
  qed
  finally show ?thesis .
qed

section \<open>The distribution of tasks\<close>

definition in_generation :: "CatalogPlan \<Rightarrow> nat \<Rightarrow> TransferTask \<Rightarrow> bool" where
  "in_generation cat k t \<longleftrightarrow> (\<exists>f. catalog_task_file_id t = Some f \<and> catalog_generation_index_for_file_id cat f = Some k)"

definition trailing :: "TransferTask \<Rightarrow> bool" where
  "trailing t \<longleftrightarrow> catalog_task_file_id t = None"

definition placeable :: "CatalogPlan \<Rightarrow> TransferTask \<Rightarrow> bool" where
  "placeable cat t \<longleftrightarrow> trailing t \<or> (\<exists>k. in_generation cat k t)"

text \<open>The execution after the given lanes, with the remaining lanes still empty.\<close>

definition distributed :: "CatalogPlan \<Rightarrow> TransferTask list list \<Rightarrow> nat \<Rightarrow> FreshGenerationExecution" where
  "distributed cat ls rest = \<lparr>generation_lanes =
       map (\<lambda>k. map (filter (in_generation cat k)) ls @ replicate rest []) [0..<length (generations cat)],
     trailing_lanes = map (filter trailing) ls @ replicate rest []\<rparr>"

lemma in_generation_bound: "in_generation cat k t \<Longrightarrow> k < length (generations cat)"
  by (auto simp: in_generation_def catalog_generation_index_for_file_id_def Let_def split: if_splits)

lemma in_generation_unique: "in_generation cat k t \<Longrightarrow> in_generation cat j t \<Longrightarrow> j = k"
  by (auto simp: in_generation_def)

lemma map_upt_update:
  assumes "\<And>j. j \<noteq> k \<Longrightarrow> f j = g j"
  shows "(map f [0..<n])[k := g k] = map g [0..<n]"
proof (rule nth_equalityI)
  fix i assume "i < length ((map f [0..<n])[k := g k])"
  then show "(map f [0..<n])[k := g k] ! i = map g [0..<n] ! i" using assms by (cases "i = k") auto
qed simp

lemma place_task_distributed:
  "place_task cat (length ls) (distributed cat (ls @ [acc]) rest) t =
     (if placeable cat t then Inr (distributed cat (ls @ [acc @ [t]]) rest) else Inl InvalidData)"
proof (cases "catalog_task_file_id t")
  case None
  then have t: "trailing t" "\<not> in_generation cat k t" for k by (auto simp: trailing_def in_generation_def)
  have "list_update (trailing_lanes (distributed cat (ls @ [acc]) rest)) (length ls)
      (trailing_lanes (distributed cat (ls @ [acc]) rest) ! length ls @ [t]) = trailing_lanes (distributed cat (ls @ [acc @ [t]]) rest)"
    using t(1) by (simp add: distributed_def nth_append list_update_append)
  then show ?thesis using None t by (simp add: place_task_def placeable_def distributed_def)
next
  case (Some f)
  show ?thesis
  proof (cases "catalog_generation_index_for_file_id cat f")
    case None
    then have "\<not> placeable cat t" using Some by (auto simp: placeable_def trailing_def in_generation_def)
    then show ?thesis using Some None by (simp add: place_task_def)
  next
    case (Some k)
    then have k: "in_generation cat k t" using \<open>catalog_task_file_id t = Some f\<close> by (simp add: in_generation_def)
    note kb = in_generation_bound [OF k]
    have nt: "\<not> trailing t" using \<open>catalog_task_file_id t = Some f\<close> by (simp add: trailing_def)
    let ?row = "\<lambda>j acc. map (filter (in_generation cat j)) (ls @ [acc]) @ replicate rest []"
    have row: "(?row k acc)[length ls := ?row k acc ! length ls @ [t]] = ?row k (acc @ [t])"
      using k by (simp add: nth_append list_update_append)
    have other: "?row j acc = ?row j (acc @ [t])" if "j \<noteq> k" for j
      using in_generation_unique [OF k, of j] that by auto
    have "(map (\<lambda>j. ?row j acc) [0..<length (generations cat)])[k := ?row k (acc @ [t])] =
        map (\<lambda>j. ?row j (acc @ [t])) [0..<length (generations cat)]"
      using other by (rule map_upt_update)
    moreover have "placeable cat t" using k by (auto simp: placeable_def)
    ultimately show ?thesis using Some \<open>catalog_task_file_id t = Some f\<close> kb nt row
      by (simp add: place_task_def distributed_def)
  qed
qed

lemma place_lane_distributed:
  "efold (place_task cat (length ls)) (distributed cat (ls @ [acc]) rest) ts =
     (if list_all (placeable cat) ts then Inr (distributed cat (ls @ [acc @ ts]) rest) else Inl InvalidData)"
proof (induction ts arbitrary: acc)
  case (Cons t ts)
  show ?case using Cons.IH [of "acc @ [t]"] by (simp add: place_task_distributed)
qed simp

lemma distributed_next: "distributed cat (ls @ [[]]) rest = distributed cat ls (Suc rest)"
  by (simp add: distributed_def)

lemma place_lanes_distributed:
  "efold (\<lambda>ex (i, ts). efold (place_task cat i) ex ts) (distributed cat ls (length ms))
     (zip [length ls..<length ls + length ms] ms) =
     (if list_all (list_all (placeable cat)) ms then Inr (distributed cat (ls @ ms) 0) else Inl InvalidData)"
proof (induction ms arbitrary: ls)
  case (Cons m ms)
  have upt: "[length ls..<length ls + length (m # ms)] = length ls # [length (ls @ [m])..<length (ls @ [m]) + length ms]"
    by (simp add: upt_conv_Cons del: upt_Suc)
  have first: "efold (place_task cat (length ls)) (distributed cat ls (length (m # ms))) m =
      (if list_all (placeable cat) m then Inr (distributed cat (ls @ [m]) (length ms)) else Inl InvalidData)"
    using place_lane_distributed [of cat ls "[]" "length ms" m] by (simp add: distributed_next)
  show ?case unfolding upt zip_Cons_Cons efold.simps prod.case first using Cons.IH [of "ls @ [m]"] by simp
qed simp

section \<open>The execution is accepted\<close>

lemma count_tasks_Inr:
  "count_tasks ls = Inr n \<longleftrightarrow> length (concat ls) \<le> usize_max \<and> n = length (concat ls)"
proof -
  have "efold (\<lambda>n l. if usize_max < n + length l then Inl OtherError else Inr (n + length l)) a ls = Inr n \<longleftrightarrow>
      a + length (concat ls) \<le> usize_max \<and> n = a + length (concat ls)" if "a \<le> usize_max" for a
    using that
  proof (induction ls arbitrary: a)
    case (Cons l ls)
    then show ?case by (auto simp: add.assoc)
  qed auto
  then show ?thesis by (simp add: count_tasks_def)
qed

lemma length_filter_classes:
  assumes "list_all (placeable cat) ts"
  shows "(\<Sum>k\<leftarrow>[0..<length (generations cat)]. length (filter (in_generation cat k) ts)) + length (filter trailing ts) = length ts"
  using assms
proof (induction ts)
  case (Cons t ts)
  have split: "(\<Sum>k\<leftarrow>[0..<length (generations cat)]. length (filter (in_generation cat k) (t # ts))) =
      (\<Sum>k\<leftarrow>[0..<length (generations cat)]. if in_generation cat k t then 1 else 0) +
      (\<Sum>k\<leftarrow>[0..<length (generations cat)]. length (filter (in_generation cat k) ts))"
    by (simp flip: sum_list_addf) (intro arg_cong [where f = sum_list] map_cong; simp)
  have "(\<Sum>k\<leftarrow>[0..<length (generations cat)]. if in_generation cat k t then 1 else 0) = (if trailing t then 0 else 1 :: nat)"
  proof (cases "trailing t")
    case True
    then show ?thesis by (simp add: in_generation_def trailing_def)
  next
    case False
    then obtain k where k: "in_generation cat k t" using Cons.prems by (auto simp: placeable_def)
    have "in_generation cat j t \<longleftrightarrow> j = k" for j using in_generation_unique [OF k] k by blast
    then show ?thesis using False in_generation_bound [OF k] by (simp add: sum_list_delta)
  qed
  then show ?case using Cons split by simp
qed simp

lemma concat_concat: "concat (concat xss) = concat (map concat xss)"
  by (induction xss) auto

lemma distributed_count:
  assumes "list_all (list_all (placeable cat)) ls"
  shows "length (concat (concat (generation_lanes (distributed cat ls 0)))) +
     length (concat (trailing_lanes (distributed cat ls 0))) = length (concat ls)"
proof -
  have "concat (concat (generation_lanes (distributed cat ls 0))) = concat (map (\<lambda>k. filter (in_generation cat k) (concat ls)) [0..<length (generations cat)])"
    by (simp add: distributed_def concat_concat comp_def filter_concat)
  moreover have "concat (trailing_lanes (distributed cat ls 0)) = filter trailing (concat ls)"
    by (simp add: distributed_def filter_concat)
  moreover have "list_all (placeable cat) (concat ls)" using assms by (auto simp: list_all_iff)
  ultimately show ?thesis using length_filter_classes [of cat "concat ls"] by (simp add: length_concat comp_def)
qed

lemma nth_zip_distributed:
  "set (zip [0..<n] (zip gs (map f [0..<n]))) = {(k, gs ! k, f k) | k. k < n}" if "length gs = n"
proof -
  have "zip [0..<n] (zip gs (map f [0..<n])) = map (\<lambda>k. (k, gs ! k, f k)) [0..<n]"
    using that by (intro nth_equalityI) auto
  then show ?thesis by auto
qed

lemma task_in_generation_Inr:
  assumes "catalog_ok cat" "k < length (generations cat)" "in_generation cat k t"
  shows "task_in_generation (generations cat ! k) t = Inr ()"
  using assms by (auto simp: task_in_generation_def in_generation_def generation_index_iff)

lemma validate_generation_lanes_Inr:
  assumes "catalog_ok (catalog p)" "k < length (generations (catalog p))"
  shows "validate_generation_lanes p (length ls) (k, generations (catalog p) ! k, map (filter (in_generation (catalog p) k)) ls) = Inr () \<longleftrightarrow>
     (k < completed_generation_count p \<longrightarrow> (\<forall>t\<in>set (concat ls). \<not> in_generation (catalog p) k t))"
proof -
  have "efold (\<lambda>_ t. task_in_generation (generations (catalog p) ! k) t) () (concat (map (filter (in_generation (catalog p) k)) ls)) = Inr ()"
    using task_in_generation_Inr [OF assms] by (auto simp: efold_check_Inr)
  then show ?thesis by (auto simp: validate_generation_lanes_def list_ex_iff filter_empty_conv)
qed

lemma validate_distributed:
  assumes cat: "catalog_ok (catalog p)" and ok: "list_all (list_all (placeable (catalog p))) ls" and small: "length (concat ls) \<le> usize_max"
  shows "validate_fresh_generation_execution p (distributed (catalog p) ls 0) (length ls) (length (concat ls)) = Inr () \<longleftrightarrow>
     completed_generation_count p \<le> length (generations (catalog p)) \<and>
     (\<forall>t\<in>set (concat ls). \<forall>k<completed_generation_count p. \<not> in_generation (catalog p) k t)"
proof -
  let ?ex = "distributed (catalog p) ls 0" and ?gs = "generations (catalog p)" and ?n = "completed_generation_count p"
  have dims: "length (generation_lanes ?ex) = length ?gs" "length (trailing_lanes ?ex) = length ls" by (simp_all add: distributed_def)
  have gl: "generation_lanes ?ex = map (\<lambda>k. map (filter (in_generation (catalog p) k)) ls) [0..<length ?gs]" by (simp add: distributed_def)
  have tr: "efold (\<lambda>_ t. if catalog_task_file_id t \<noteq> None then Inl InvalidData else Inr ()) () (concat (trailing_lanes ?ex)) = Inr ()"
    by (auto simp: efold_check_Inr distributed_def trailing_def)
  obtain a b where ab: "count_tasks (concat (generation_lanes ?ex)) = Inr a" "count_tasks (trailing_lanes ?ex) = Inr b" "a + b = length (concat ls)"
    using distributed_count [OF ok] small by (auto simp: count_tasks_Inr)
  have lanes: "efold (\<lambda>_. validate_generation_lanes p (length ls)) () (zip [0..<length ?gs] (zip ?gs (generation_lanes ?ex))) = Inr () \<longleftrightarrow>
      (\<forall>k<length ?gs. k < ?n \<longrightarrow> (\<forall>t\<in>set (concat ls). \<not> in_generation (catalog p) k t))"
    unfolding gl efold_check_Inr nth_zip_distributed [OF refl] using validate_generation_lanes_Inr [OF cat, of _ ls] by auto
  have "validate_fresh_generation_execution p ?ex (length ls) (length (concat ls)) = Inr () \<longleftrightarrow> ?n \<le> length ?gs \<and>
      efold (\<lambda>_. validate_generation_lanes p (length ls)) () (zip [0..<length ?gs] (zip ?gs (generation_lanes ?ex))) = Inr ()"
    unfolding validate_fresh_generation_execution_def ebind_Inr tr ab(1,2) using ab(3) small by (auto simp: dims ebind_Inr)
  then show ?thesis unfolding lanes by (auto simp: in_generation_bound)
qed

lemma build_execution_iff:
  assumes cat: "catalog_ok (catalog p)"
  shows "build_fresh_generation_execution p tp = Inr (ex, tp') \<longleftrightarrow>
     length (concat (lanes tp)) \<le> usize_max \<and> completed_generation_count p \<le> length (generations (catalog p)) \<and>
     (\<forall>t\<in>set (concat (lanes tp)). trailing t \<or> (\<exists>k\<ge>completed_generation_count p. in_generation (catalog p) k t)) \<and>
     ex = distributed (catalog p) (lanes tp) 0 \<and> tp' = tp\<lparr>lanes := map (\<lambda>_. []) (lanes tp)\<rparr>"
proof -
  let ?ls = "lanes tp" and ?c = "catalog p"
  have start: "\<lparr>generation_lanes = replicate (length (generations ?c)) (replicate (length ?ls) []), trailing_lanes = replicate (length ?ls) []\<rparr> =
      distributed ?c [] (length ?ls)"
    by (simp add: distributed_def map_replicate_const)
  have place: "efold (\<lambda>ex (i, ts). efold (place_task ?c i) ex ts) (distributed ?c [] (length ?ls)) (zip [0..<length ?ls] ?ls) =
      (if list_all (list_all (placeable ?c)) ?ls then Inr (distributed ?c ?ls 0) else Inl InvalidData)"
    using place_lanes_distributed [of ?c "[]" ?ls] by simp
  have "build_fresh_generation_execution p tp = Inr (ex, tp') \<longleftrightarrow>
      length (concat ?ls) \<le> usize_max \<and> list_all (list_all (placeable ?c)) ?ls \<and>
      validate_fresh_generation_execution p (distributed ?c ?ls 0) (length ?ls) (length (concat ?ls)) = Inr () \<and>
      ex = distributed ?c ?ls 0 \<and> tp' = tp\<lparr>lanes := map (\<lambda>_. []) ?ls\<rparr>"
    unfolding build_fresh_generation_execution_def Let_def start place ebind_Inr count_tasks_Inr
    by (auto simp: map_replicate_const split: if_splits)
  also have "\<dots> \<longleftrightarrow> length (concat ?ls) \<le> usize_max \<and> list_all (list_all (placeable ?c)) ?ls \<and>
      completed_generation_count p \<le> length (generations ?c) \<and>
      (\<forall>t\<in>set (concat ?ls). \<forall>k<completed_generation_count p. \<not> in_generation ?c k t) \<and>
      ex = distributed ?c ?ls 0 \<and> tp' = tp\<lparr>lanes := map (\<lambda>_. []) ?ls\<rparr>"
    using validate_distributed [OF cat, of ?ls] by blast
  also have "list_all (list_all (placeable ?c)) ?ls \<longleftrightarrow> (\<forall>t\<in>set (concat ?ls). placeable ?c t)" by (auto simp: list_all_iff)
  finally show ?thesis unfolding placeable_def by (smt (verit) in_generation_unique linorder_not_le trailing_def in_generation_def option.distinct(1))
qed
section \<open>From the manifest to the execution\<close>

lemma sorted_remdups_adj_strict: "sorted xs \<Longrightarrow> sorted_wrt (<) (remdups_adj (xs :: nat list))"
proof (induction xs rule: remdups_adj.induct)
  case (3 x y xs)
  then show ?case by (cases "x = y") (auto dest: order.not_eq_order_implies_strict intro: less_le_trans)
qed simp_all

lemma collect_task_Inr:
  assumes "task_ok m t"
  shows "collect_task m ids t = Inr (ids @ (case catalog_task_file_id t of None \<Rightarrow> [] | Some i \<Rightarrow> [i]))"
proof (cases t)
  case (Stripe i off l)
  then have "i < length m" "file_class (m ! i) = Large" using assms by (auto simp: validate_stripe_def split: if_splits)
  then show ?thesis using Stripe by (simp add: collect_task_def manifest_get_def)
qed (use assms in \<open>auto simp: collect_task_def manifest_get_def\<close>)

definition task_ids :: "TransferTask list \<Rightarrow> usize list" where
  "task_ids ts = List.map_filter catalog_task_file_id ts"

lemma collect_tasks_Inr:
  "\<forall>t\<in>set ts. task_ok m t \<Longrightarrow> efold (collect_task m) ids ts = Inr (ids @ task_ids ts)"
proof (induction ts arbitrary: ids)
  case (Cons t ts)
  then show ?case by (cases "catalog_task_file_id t") (auto simp: collect_task_Inr task_ids_def List.map_filter_simps)
qed (simp add: task_ids_def List.map_filter_simps)

lemma candidates_Inr:
  "\<forall>i\<in>set ids. i < length m \<and> file_size (m ! i) \<noteq> 0 \<Longrightarrow>
   efold (\<lambda>cs i. ebind (ok_or InvalidData (manifest_get m i)) (\<lambda>entry.
                  ebind (CatalogCandidate_new i (file_size entry)) (\<lambda>c. Inr (cs @ [c])))) cs ids =
     Inr (cs @ map (\<lambda>i. \<lparr>file_id = i, logical_bytes = file_size (m ! i)\<rparr>) ids)"
  by (induction ids arbitrary: cs) (auto simp: manifest_get_def CatalogCandidate_new_def)

definition classified :: "ManifestEntry list \<Rightarrow> bool" where
  "classified m \<longleftrightarrow> (\<forall>e\<in>set m. file_class e = classify_file (file_size e))"

lemma classified_nonempty:
  assumes "classified m" "i < length m" "file_class (m ! i) \<noteq> Tiny"
  shows "file_size (m ! i) \<noteq> 0"
proof -
  have "file_class (m ! i) = classify_file (file_size (m ! i))" using assms(1,2) by (simp add: classified_def)
  then show ?thesis using assms(3) by (auto simp: classify_file_def TINY_FILE_MAX_BYTES_def)
qed

lemma task_ids_ok:
  assumes "classified m" "\<forall>t\<in>set ts. task_ok m t" "i \<in> set (task_ids ts)"
  shows "i < length m \<and> file_size (m ! i) \<noteq> 0"
proof -
  obtain t where t: "t \<in> set ts" "catalog_task_file_id t = Some i"
    using assms(3) by (auto simp: task_ids_def List.map_filter_def)
  have "task_ok m t" using t(1) assms(2) by blast
  then have "i < length m \<and> file_class (m ! i) \<noteq> Tiny"
    using t(2) by (cases t rule: TransferTask.exhaust) (auto simp: validate_stripe_def split: if_splits)
  then show ?thesis using classified_nonempty [OF assms(1)] by blast
qed

lemma file_bytes_subset:
  assumes "distinct ids" "\<forall>i\<in>set ids. i < length m"
  shows "file_bytes m ids \<le> file_bytes m [0..<length m]"
proof -
  have "file_bytes m ids = (\<Sum>i\<in>set ids. unat (file_size (m ! i)))" using assms(1) by (simp add: file_bytes_def sum_list_distinct_conv_sum_set)
  also have "\<dots> \<le> (\<Sum>i\<in>{0..<length m}. unat (file_size (m ! i)))" using assms(2) by (intro sum_mono2) auto
  also have "\<dots> = file_bytes m [0..<length m]" by (simp add: file_bytes_def sum_list_distinct_conv_sum_set)
  finally show ?thesis .
qed

lemma fresh_plan_exists:
  assumes "classified m" "\<forall>t\<in>set (concat (lanes tp)). task_ok m t" "limits_validate l = Inr ()"
    "file_bytes m [0..<length m] + 65535 < 2 ^ 64"
  shows "\<exists>cat cs. build_fresh_generation_plan_with_limits m tp l = Inr \<lparr>catalog = cat, completed_generation_count = 0\<rparr> \<and>
     plan cs l = Inr cat \<and> file_id ` set cs = set (task_ids (concat (lanes tp)))"
proof -
  let ?ids = "remdups_adj (sort (task_ids (concat (lanes tp))))"
  let ?cs = "map (\<lambda>i. \<lparr>file_id = i, logical_bytes = file_size (m ! i)\<rparr>) ?ids"
  have ok: "\<forall>i\<in>set ?ids. i < length m \<and> file_size (m ! i) \<noteq> 0" using task_ids_ok [OF assms(1,2)] by simp
  have collect: "collect_fresh_catalog_candidates m tp = Inr ?cs"
    using collect_tasks_Inr [OF assms(2), of "[]"] candidates_Inr [OF ok, of "[]"] by (simp add: collect_fresh_catalog_candidates_def)
  have "sorted_wrt (<) ?ids" by (rule sorted_remdups_adj_strict) simp
  then have dist: "distinct ?ids" by (simp add: strict_sorted_iff)
  have "bytes_of ?cs = file_bytes m ?ids" by (simp add: bytes_of_def file_bytes_def comp_def)
  then have "bytes_of ?cs + 65535 < 2 ^ 64" using file_bytes_subset [OF dist, of m] ok assms(4) by simp
  then obtain cat where cat: "plan ?cs l = Inr cat"
    using plan_exists [OF assms(3), of ?cs] dist ok by (auto simp: comp_def)
  have "build_fresh_generation_plan_with_limits m tp l = Inr \<lparr>catalog = cat, completed_generation_count = 0\<rparr>"
    by (simp add: build_fresh_generation_plan_with_limits_def collect cat plan_catalog_ok(2) [OF cat])
  moreover have "file_id ` set ?cs = set (task_ids (concat (lanes tp)))" by (simp add: image_image)
  ultimately show ?thesis using cat by blast
qed

lemma task_in_catalog:
  assumes "plan cs l = Inr cat" "catalog_task_file_id t = Some f" "f \<in> file_id ` set cs"
  shows "\<exists>k. in_generation cat k t"
proof -
  have "f \<in> set (concat (map generation_ids (generations cat)))" using assms(3) unfolding plan_catalog_ok(3) [OF assms(1)] by simp
  then obtain g where "g \<in> set (generations cat)" "f \<in> set (generation_ids g)" by auto
  then obtain k where "k < length (generations cat)" "f \<in> set (generation_ids (generations cat ! k))"
    by (metis in_set_conv_nth)
  then have "catalog_generation_index_for_file_id cat f = Some k" using generation_index_iff [OF plan_catalog_ok(1) [OF assms(1)]] by blast
  then show ?thesis using assms(2) by (auto simp: in_generation_def)
qed

lemma sample_catalog_ids: "prefix_ids sample_plan 1 = {1, 2}"
  by (simp add: sample_plan_def)

section \<open>Properties\<close>

text \<open>
   A resume journal is accepted exactly when the completed files are whole generations from the
  start.  For a catalog of the planner, \<open>apply_fresh_resume_prefix\<close> returns a plan if and only if the
  completed IDs are the files of the first \<open>k\<close> generations for some \<open>k\<close>, and then it skips exactly those.
\<close>
theorem resume_prefix_exact:
  assumes "plan cs l = Inr cat"
  shows "apply_fresh_resume_prefix \<lparr>catalog = cat, completed_generation_count = 0\<rparr> ids = Inr q \<longleftrightarrow>
     (\<exists>k\<le>length (generations cat). fset ids = set (concat (map generation_ids (take k (generations cat)))) \<and>
        q = \<lparr>catalog = cat, completed_generation_count = k\<rparr>)"
  using resume_prefix_iff [of "\<lparr>catalog = cat, completed_generation_count = 0\<rparr>" ids q] plan_catalog_ok(1) [OF assms] by simp

theorem resume_prefix_exact_witness:
  "plan sample_candidates sample_limits = Inr sample_plan \<and>
   apply_fresh_resume_prefix \<lparr>catalog = sample_plan, completed_generation_count = 0\<rparr> {|1, 2|} =
     Inr \<lparr>catalog = sample_plan, completed_generation_count = 1\<rparr>"
proof -
  have "1 \<le> length (generations sample_plan)" by (simp add: sample_plan_def)
  then show ?thesis
    using sample_plan_eq resume_prefix_exact [OF sample_plan_eq, of "{|1, 2|}" "\<lparr>catalog = sample_plan, completed_generation_count = 1\<rparr>"]
      sample_catalog_ids by auto
qed

text \<open>
   The execution plan distributes the remaining tasks without loss or duplication.  For a catalog of the planner,
  \<open>build_fresh_generation_execution\<close> succeeds exactly when every striped or whole-file task belongs to a generation
  that is not yet completed; then each lane of each generation holds, in order, the tasks of that lane whose
  file is in the generation, the trailing lanes hold the tiny packs, and the transfer plan is emptied.
\<close>
theorem execution_distributes_tasks:
  assumes "plan cs l = Inr (catalog p)"
  shows "build_fresh_generation_execution p tp = Inr (ex, tp') \<longleftrightarrow>
     length (concat (lanes tp)) \<le> usize_max \<and> completed_generation_count p \<le> length (generations (catalog p)) \<and>
     (\<forall>t\<in>set (concat (lanes tp)). trailing t \<or> (\<exists>k\<ge>completed_generation_count p. in_generation (catalog p) k t)) \<and>
     ex = \<lparr>generation_lanes = map (\<lambda>k. map (filter (in_generation (catalog p) k)) (lanes tp)) [0..<length (generations (catalog p))],
           trailing_lanes = map (filter trailing) (lanes tp)\<rparr> \<and>
     tp' = tp\<lparr>lanes := map (\<lambda>_. []) (lanes tp)\<rparr>"
  using build_execution_iff [OF plan_catalog_ok(1) [OF assms]] by (simp add: distributed_def)

theorem execution_distributes_tasks_witness:
  "build_fresh_generation_execution \<lparr>catalog = sample_plan, completed_generation_count = 1\<rparr>
     \<lparr>lanes = [[TinyPack [0] 3], [Stripe 4 0 100000]]\<rparr> =
   Inr (\<lparr>generation_lanes = [[[], []], [[], [Stripe 4 0 100000]]], trailing_lanes = [[TinyPack [0] 3], []]\<rparr>,
        \<lparr>lanes = [[], []]\<rparr>)"
proof -
  let ?p = "\<lparr>catalog = sample_plan, completed_generation_count = 1\<rparr>"
  have p: "plan sample_candidates sample_limits = Inr (catalog ?p)" using sample_plan_eq by simp
  have g: "in_generation sample_plan k (Stripe 4 0 100000) \<longleftrightarrow> k = 1" "\<not> in_generation sample_plan k (TinyPack [0] 3)" for k
    by (auto simp: in_generation_def catalog_generation_index_for_file_id_def sample_plan_def)
  have t: "trailing (TinyPack [0] 3)" "\<not> trailing (Stripe 4 0 100000)" by (simp_all add: trailing_def)
  have len: "length (generations sample_plan) = 2" by (simp add: sample_plan_def)
  show ?thesis unfolding execution_distributes_tasks [OF p] by (simp add: g t len upt_two usize_max_def)
qed

text \<open>
  C29. A fresh transfer can always be scheduled.  For a manifest whose classes come from the
  scanner, with 1 to 32 lanes, non-zero limits and a total size that fits, the plan of all bytes, its
  catalog and its execution by generations exist, one after the other.
\<close>
theorem fresh_transfer_schedules:
  assumes "classified m" "0 < n" "n \<le> 32" "limits_validate l = Inr ()"
    "file_bytes m [0..<length m] + 65535 < 2 ^ 64"
    "\<And>tp. build_transfer_plan m n = Inr tp \<Longrightarrow> length (concat (lanes tp)) \<le> usize_max"
  shows "\<exists>tp p ex tp'. build_transfer_plan m n = Inr tp \<and> build_fresh_generation_plan_with_limits m tp l = Inr p \<and>
     build_fresh_generation_execution p tp = Inr (ex, tp')"
proof -
  obtain tp where tp: "build_transfer_plan m n = Inr tp" using build_transfer_plan_exists [OF assms(2,3)] assms(5) by fastforce
  have ok: "\<forall>t\<in>set (concat (lanes tp)). task_ok m t" using plan_tasks_ok [OF assms(2,3) tp] by blast
  obtain cat cs where cat: "build_fresh_generation_plan_with_limits m tp l = Inr \<lparr>catalog = cat, completed_generation_count = 0\<rparr>"
    "plan cs l = Inr cat" "file_id ` set cs = set (task_ids (concat (lanes tp)))"
    using fresh_plan_exists [OF assms(1) ok assms(4,5)] by blast
  let ?p = "\<lparr>catalog = cat, completed_generation_count = 0\<rparr>"
  have "trailing t \<or> (\<exists>k. in_generation cat k t)" if t: "t \<in> set (concat (lanes tp))" for t
  proof (cases "catalog_task_file_id t")
    case None
    then show ?thesis by (simp add: trailing_def)
  next
    case (Some f)
    then have "f \<in> set (task_ids (concat (lanes tp)))" using t unfolding task_ids_def List.map_filter_def by force
    then show ?thesis using task_in_catalog [OF cat(2) Some] cat(3) by simp
  qed
  then have "build_fresh_generation_execution ?p tp = Inr (distributed cat (lanes tp) 0, tp\<lparr>lanes := map (\<lambda>_. []) (lanes tp)\<rparr>)"
    using build_execution_iff [of ?p tp] plan_catalog_ok(1) [OF cat(2)] assms(6) [OF tp] by auto
  then show ?thesis using tp cat(1) by blast
qed

theorem fresh_transfer_schedules_witness:
  "\<exists>tp p ex tp'. build_transfer_plan [sample_large] 2 = Inr tp \<and>
     build_fresh_generation_plan_with_limits [sample_large] tp default_limits = Inr p \<and>
     build_fresh_generation_execution p tp = Inr (ex, tp')"
proof (rule fresh_transfer_schedules)
  show "classified [sample_large]"
    by (simp add: classified_def sample_large_def classify_file_def TINY_FILE_MAX_BYTES_def LARGE_FILE_MIN_BYTES_def)
  show "limits_validate default_limits = Inr ()"
    by (simp add: limits_validate_def default_limits_def DEFAULT_GENERATION_TARGET_BYTES_def DEFAULT_MAX_CATALOG_ENTRIES_def)
  show "length (concat (lanes tp)) \<le> usize_max" if "build_transfer_plan [sample_large] 2 = Inr tp" for tp
    using that sample_plan by (auto simp: usize_max_def)
qed (simp_all add: file_bytes_def sample_large_def)

end
