(* ===== verification/Engine_Protocol.thy ===== *)
theory Engine_Protocol
  imports Control_Plane Fresh_Generations "HOL-Library.Finite_Map"
begin

text \<open>
  The messages of the transfer engine, from \<^verbatim>\<open>src/multistream_copy.rs\<close>: the large-file CDC announcement, the
  exact-reuse plan, the end of a lane, the verification exchange, the receiver's offer, generation commits and the
  transfer acknowledgement, with the validation of a commit against the sender's catalog.  Round trips
  come from interpretations of \<open>wire_codec\<close> and \<open>canonical_codec\<close>; the last part connects the
  planner of \<open>Session_Catalog\<close> with the limits of the commit message.  A \<^verbatim>\<open>BTreeSet\<close> is a finite
  set and a \<^verbatim>\<open>BTreeMap\<close> a finite map; bytes already written before an error are not part of the model.
\<close>

section \<open>Constants\<close>

definition MESSAGE_RECEIVER_READY :: u8 where "MESSAGE_RECEIVER_READY = 0x30"
definition MESSAGE_STREAM_END :: u8 where "MESSAGE_STREAM_END = 0x32"
definition MESSAGE_TRANSFER_ACK :: u8 where "MESSAGE_TRANSFER_ACK = 0x33"
definition MESSAGE_LARGE_CDC_BEGIN :: u8 where "MESSAGE_LARGE_CDC_BEGIN = 0x3C"
definition MESSAGE_EXACT_REUSE_PLAN :: u8 where "MESSAGE_EXACT_REUSE_PLAN = 0x3D"
definition MESSAGE_GENERATION_COMMIT :: u8 where "MESSAGE_GENERATION_COMMIT = 0x3E"
definition MESSAGE_GENERATION_END :: u8 where "MESSAGE_GENERATION_END = 0x3F"

definition CONTENT_DIGEST_BYTES :: nat where "CONTENT_DIGEST_BYTES = 32"
definition LARGE_CDC_BEGIN_FIXED_WIRE_BYTES :: u64 where "LARGE_CDC_BEGIN_FIXED_WIRE_BYTES = 1 + 4"
definition LARGE_CDC_FILE_ID_WIRE_BYTES :: u64 where "LARGE_CDC_FILE_ID_WIRE_BYTES = 8"
definition EXACT_REUSE_PLAN_FIXED_WIRE_BYTES :: u64 where "EXACT_REUSE_PLAN_FIXED_WIRE_BYTES = 1 + 4"
definition EXACT_REUSE_RECORD_WIRE_BYTES :: u64 where
  "EXACT_REUSE_RECORD_WIRE_BYTES = 8 + 8 + of_nat CONTENT_DIGEST_BYTES"
definition GENERATION_COMMIT_FIXED_WIRE_BYTES :: u64 where "GENERATION_COMMIT_FIXED_WIRE_BYTES = 1 + 8 + 4 + 4 + 4"
definition GENERATION_COMMIT_FILE_ID_WIRE_BYTES :: u64 where "GENERATION_COMMIT_FILE_ID_WIRE_BYTES = 8"
definition MAX_RESUME_OFFER_STRIPES :: u32 where "MAX_RESUME_OFFER_STRIPES = 1000000"
definition MAX_GENERATION_COMMIT_FILE_IDS :: u32 where "MAX_GENERATION_COMMIT_FILE_IDS = 1000000"

section \<open>Shared pieces of the messages\<close>

definition write_u8 :: "u8 \<Rightarrow> byte list io_result" where "write_u8 v = Inr (to_be_bytes v)"
definition write_u32 :: "u32 \<Rightarrow> byte list io_result" where "write_u32 v = Inr (to_be_bytes v)"
definition write_u64 :: "u64 \<Rightarrow> byte list io_result" where "write_u64 v = Inr (to_be_bytes v)"
definition read_u8 :: "u8 reader" where "read_u8 = read_be"
definition read_u32 :: "u32 reader" where "read_u32 = read_be"
definition read_u64 :: "u64 reader" where "read_u64 = read_be"

text \<open>A \<^verbatim>\<open>usize\<close> written as a \<^verbatim>\<open>u64\<close>, and the reader that turns it back.\<close>

definition write_file_id :: "usize \<Rightarrow> byte list io_result" where
  "write_file_id i = ebind (word_try_from InvalidInput i) write_u64"

definition read_file_id :: "usize reader" where
  "read_file_id = rbind read_u64 (\<lambda>w. rlift (usize_try_from InvalidData w))"

text \<open>The length check in front of every counted message.\<close>

definition checked_count :: "u32 \<Rightarrow> usize \<Rightarrow> u32 io_result" where
  "checked_count limit n =
     ebind (word_try_from InvalidInput n) (\<lambda>c. if c > limit then Inl InvalidInput else Inr c)"

text \<open>A digest is an array of 32 bytes.\<close>

type_synonym digest = "byte list"

definition write_digest :: "digest \<Rightarrow> byte list io_result" where "write_digest d = Inr d"
definition read_digest :: "digest reader" where "read_digest = read_exact CONTENT_DIGEST_BYTES"

section \<open>Large-file CDC candidates\<close>

definition large_cdc_candidate_file_ids :: "ManifestEntry list \<Rightarrow> usize fset option \<Rightarrow> usize list" where
  "large_cdc_candidate_file_ids manifest excluded =
     List.map_filter (\<lambda>(i, entry).
       let is_excluded = (case excluded of None \<Rightarrow> False | Some ids \<Rightarrow> i |\<in>| ids)
       in if file_class entry = Large \<and> \<not> is_excluded then Some i else None)
       (zip [0..<length manifest] manifest)"

definition write_large_cdc_begin :: "usize list \<Rightarrow> byte list io_result" where
  "write_large_cdc_begin file_ids =
     ebind (checked_count MAX_UNCHANGED_OFFER_FILES (length file_ids)) (\<lambda>n.
       wcat ([write_u8 MESSAGE_LARGE_CDC_BEGIN, write_u32 n] @ map write_file_id file_ids))"

definition accept_large_candidate :: "ManifestEntry list \<Rightarrow> usize fset \<Rightarrow> usize \<Rightarrow> usize fset io_result" where
  "accept_large_candidate manifest seen i =
     (if i |\<in>| seen then Inl InvalidData
      else ebind (ok_or InvalidData (manifest_get manifest i)) (\<lambda>entry.
        if file_class entry \<noteq> Large then Inl InvalidData else Inr (finsert i seen)))"

definition read_large_cdc_candidate_file_ids :: "ManifestEntry list \<Rightarrow> usize list reader" where
  "read_large_cdc_candidate_file_ids manifest =
     rbind read_u32 (\<lambda>n.
     rbind (rguard (n \<le> MAX_UNCHANGED_OFFER_FILES) InvalidData) (\<lambda>_.
     rbind (rfor (unat n) (read_fold read_file_id (accept_large_candidate manifest)) ([], {||})) (\<lambda>(ids, _).
       rret ids)))"

definition large_cdc_begin_wire_bytes :: "usize \<Rightarrow> u64 io_result" where
  "large_cdc_begin_wire_bytes n =
     ebind (word_try_from OtherError n) (\<lambda>file_count.
     ebind (ok_or OtherError (checked_mul file_count LARGE_CDC_FILE_ID_WIRE_BYTES)) (\<lambda>ids.
       ok_or OtherError (checked_add LARGE_CDC_BEGIN_FIXED_WIRE_BYTES ids)))"

section \<open>The exact-reuse plan\<close>

record ExactFileReuse =
  basis_file_id :: usize
  target_file_id :: usize
  reuse_digest :: digest

definition write_exact_reuse :: "ExactFileReuse \<Rightarrow> byte list io_result" where
  "write_exact_reuse e = wcat [write_file_id (basis_file_id e), write_file_id (target_file_id e),
     write_digest (reuse_digest e)]"

definition write_exact_reuse_plan :: "ExactFileReuse list \<Rightarrow> byte list io_result" where
  "write_exact_reuse_plan plan_entries =
     ebind (checked_count MAX_UNCHANGED_OFFER_FILES (length plan_entries)) (\<lambda>n.
       wcat ([write_u8 MESSAGE_EXACT_REUSE_PLAN, write_u32 n] @ map write_exact_reuse plan_entries))"

definition read_exact_reuse :: "ExactFileReuse reader" where
  "read_exact_reuse =
     rbind read_file_id (\<lambda>basis. rbind read_file_id (\<lambda>target. rbind read_digest (\<lambda>d.
       rret \<lparr>basis_file_id = basis, target_file_id = target, reuse_digest = d\<rparr>)))"

definition read_exact_reuse_plan :: "ExactFileReuse list reader" where
  "read_exact_reuse_plan =
     rbind read_u8 (\<lambda>message.
     rbind (rguard (message = MESSAGE_EXACT_REUSE_PLAN) InvalidData) (\<lambda>_.
     rbind read_u32 (\<lambda>n.
     rbind (rguard (n \<le> MAX_UNCHANGED_OFFER_FILES) InvalidData) (\<lambda>_.
       read_times (unat n) read_exact_reuse))))"

definition exact_reuse_plan_wire_bytes :: "usize \<Rightarrow> u64 io_result" where
  "exact_reuse_plan_wire_bytes n =
     ebind (word_try_from OtherError n) (\<lambda>entry_count.
     ebind (ok_or OtherError (checked_mul entry_count EXACT_REUSE_RECORD_WIRE_BYTES)) (\<lambda>records.
       ok_or OtherError (checked_add EXACT_REUSE_PLAN_FIXED_WIRE_BYTES records)))"

section \<open>The end of a lane\<close>

datatype LaneEnd = Generation usize | StreamEnd

fun write_lane_end :: "LaneEnd \<Rightarrow> byte list io_result" where
  "write_lane_end (Generation i) = wcat [write_u8 MESSAGE_GENERATION_END, write_file_id i]"
| "write_lane_end StreamEnd = write_u8 MESSAGE_STREAM_END"

definition read_lane_end :: "LaneEnd \<Rightarrow> unit reader" where
  "read_lane_end expected =
     rbind read_u8 (\<lambda>message.
       (case expected of
          Generation expected_index \<Rightarrow>
            rbind (rguard (message = MESSAGE_GENERATION_END) InvalidData) (\<lambda>_.
            rbind read_u64 (\<lambda>w.
            rbind (rlift (usize_try_from InvalidData w)) (\<lambda>actual_index.
              rguard (actual_index = expected_index) InvalidData)))
        | StreamEnd \<Rightarrow> rguard (message = MESSAGE_STREAM_END) InvalidData))"

section \<open>Verification of unchanged files\<close>

text \<open>A \<^verbatim>\<open>BTreeMap<usize, FileDigest>\<close> is a finite map, iterated in key order.\<close>

definition map_entries :: "('k::linorder, 'v) fmap \<Rightarrow> ('k \<times> 'v) list" where
  "map_entries m = map (\<lambda>k. (k, the (fmlookup m k))) (sorted_list_of_fset (fmdom m))"

definition write_digest_entry :: "usize \<times> digest \<Rightarrow> byte list io_result" where
  "write_digest_entry = (\<lambda>(i, d). wcat [write_file_id i, write_digest d])"

definition read_digest_entry :: "(usize \<times> digest) reader" where
  "read_digest_entry = rbind read_file_id (\<lambda>i. rbind read_digest (\<lambda>d. rret (i, d)))"

definition write_verification_request :: "u8 \<Rightarrow> (usize, digest) fmap \<Rightarrow> byte list io_result" where
  "write_verification_request message digests =
     ebind (checked_count MAX_UNCHANGED_OFFER_FILES (fcard (fmdom digests))) (\<lambda>n.
       wcat ([write_u8 message, write_u32 n] @ map write_digest_entry (map_entries digests)))"

definition insert_digest :: "(usize, digest) fmap \<Rightarrow> (usize, digest) fmap reader" where
  "insert_digest digests =
     rbind read_digest_entry (\<lambda>(i, d). if i |\<in>| fmdom digests then rfail InvalidData else rret (fmupd i d digests))"

definition read_verification_request :: "(usize, digest) fmap reader" where
  "read_verification_request =
     rbind read_u32 (\<lambda>n.
     rbind (rguard (n \<le> MAX_UNCHANGED_OFFER_FILES) InvalidData) (\<lambda>_.
       rfor (unat n) insert_digest fmempty))"

definition write_verification_response :: "u8 \<Rightarrow> usize fset \<Rightarrow> byte list io_result" where
  "write_verification_response message matching =
     ebind (word_try_from InvalidInput (fcard matching)) (\<lambda>n.
       wcat ([write_u8 message, write_u32 n] @ map write_file_id (sorted_list_of_fset matching)))"

definition read_verification_response :: "u8 \<Rightarrow> usize fset reader" where
  "read_verification_response expected_message =
     rbind read_u8 (\<lambda>message.
     rbind (rguard (message = expected_message) InvalidData) (\<lambda>_.
     rbind read_u32 (\<lambda>n.
     rbind (rguard (n \<le> MAX_UNCHANGED_OFFER_FILES) InvalidData) (\<lambda>_.
       rfor (unat n) (read_insert InvalidData read_file_id) {||}))))"

section \<open>Receiver ready\<close>

record ReceiverReady =
  ready_summary :: ManifestSummary
  destination_seek_penalty :: bool
  ready_completed_stripes :: "ResumeStripe fset"
  ready_unchanged_file_ids :: "usize fset"

definition write_receiver_ready :: "ReceiverReady \<Rightarrow> byte list io_result" where
  "write_receiver_ready ready =
     ebind (checked_count MAX_RESUME_OFFER_STRIPES (fcard (ready_completed_stripes ready))) (\<lambda>n_stripes.
       wcat ([write_u8 MESSAGE_RECEIVER_READY,
              write_u64 (entries (ready_summary ready)),
              write_u64 (summary_directories (ready_summary ready)),
              write_u64 (total_file_bytes (ready_summary ready)),
              write_u64 (fingerprint (ready_summary ready)),
              write_u8 (if destination_seek_penalty ready then 1 else 0),
              write_u32 n_stripes] @
             map write_stripe (sorted_list_of_fset (ready_completed_stripes ready)) @
             [ebind (checked_count MAX_UNCHANGED_OFFER_FILES (fcard (ready_unchanged_file_ids ready))) write_u32] @
             map write_file_id (sorted_list_of_fset (ready_unchanged_file_ids ready))))"

definition read_offered_stripe :: "ResumeStripe reader" where
  "read_offered_stripe =
     rbind read_u64 (\<lambda>w.
     rbind (rlift (usize_try_from InvalidData w)) (\<lambda>i.
     rbind read_u64 (\<lambda>offset.
     rbind read_u64 (\<lambda>len.
       rlift (map_err (\<lambda>_. InvalidData) (ResumeStripe_new i offset len))))))"

definition read_receiver_ready_after_message :: "u8 \<Rightarrow> ReceiverReady reader" where
  "read_receiver_ready_after_message message =
     rbind (rguard (message = MESSAGE_RECEIVER_READY) InvalidData) (\<lambda>_.
     rbind read_u64 (\<lambda>n_entries.
     rbind read_u64 (\<lambda>n_directories.
     rbind read_u64 (\<lambda>n_bytes.
     rbind read_u64 (\<lambda>print.
     rbind read_u8 (\<lambda>flag.
     rbind (if flag = 0 then rret False else if flag = 1 then rret True else rfail InvalidData) (\<lambda>penalty.
     rbind read_u32 (\<lambda>n_stripes.
     rbind (rguard (n_stripes \<le> MAX_RESUME_OFFER_STRIPES) InvalidData) (\<lambda>_.
     rbind (rfor (unat n_stripes) (read_insert InvalidData read_offered_stripe) {||}) (\<lambda>stripes.
     rbind read_u32 (\<lambda>n_unchanged.
     rbind (rguard (n_unchanged \<le> MAX_UNCHANGED_OFFER_FILES) InvalidData) (\<lambda>_.
     rbind (rfor (unat n_unchanged) (read_insert InvalidData read_file_id) {||}) (\<lambda>unchanged.
       rret \<lparr>ready_summary = \<lparr>entries = n_entries, summary_directories = n_directories,
               total_file_bytes = n_bytes, fingerprint = print\<rparr>,
             destination_seek_penalty = penalty, ready_completed_stripes = stripes,
             ready_unchanged_file_ids = unchanged\<rparr>)))))))))))))"

section \<open>Generation commits\<close>

record GenerationCommit =
  commit_generation_index :: usize
  committed_file_ids :: "usize list"
  commit_published_file_ids :: "usize list"
  commit_evicted_file_ids :: "usize list"

definition generation_commit_list_count :: "usize list \<Rightarrow> u32 io_result" where
  "generation_commit_list_count file_ids = checked_count MAX_GENERATION_COMMIT_FILE_IDS (length file_ids)"

definition generation_commit_wire_bytes :: "GenerationCommit \<Rightarrow> u64 io_result" where
  "generation_commit_wire_bytes c =
     ebind (generation_commit_list_count (committed_file_ids c)) (\<lambda>committed.
     ebind (generation_commit_list_count (commit_published_file_ids c)) (\<lambda>published.
     ebind (generation_commit_list_count (commit_evicted_file_ids c)) (\<lambda>evicted.
     ebind (ok_or OtherError (Option.bind (checked_add (ucast committed) (ucast published))
              (\<lambda>n. checked_add n (ucast evicted)))) (\<lambda>total_file_ids.
     ebind (ok_or OtherError (checked_mul total_file_ids GENERATION_COMMIT_FILE_ID_WIRE_BYTES)) (\<lambda>ids.
       ok_or OtherError (checked_add GENERATION_COMMIT_FIXED_WIRE_BYTES ids))))))"

definition validate_generation_file_ids_for_write :: "usize list \<Rightarrow> unit io_result" where
  "validate_generation_file_ids_for_write file_ids =
     ebind (generation_commit_list_count file_ids) (\<lambda>_.
     ebind (efold (\<lambda>seen i. if i |\<in>| seen then Inl InvalidInput else Inr (finsert i seen)) {||} file_ids) (\<lambda>_.
       Inr ()))"

definition write_generation_file_ids :: "usize list \<Rightarrow> byte list io_result" where
  "write_generation_file_ids file_ids =
     ebind (generation_commit_list_count file_ids) (\<lambda>n. wcat (write_u32 n # map write_file_id file_ids))"

definition read_generation_file_ids :: "usize list reader" where
  "read_generation_file_ids =
     rbind read_u32 (\<lambda>n.
     rbind (rguard (n \<le> MAX_GENERATION_COMMIT_FILE_IDS) InvalidData) (\<lambda>_.
     rbind (rfor (unat n) (read_fold read_file_id
         (\<lambda>seen i. if i |\<in>| seen then Inl InvalidData else Inr (finsert i seen))) ([], {||})) (\<lambda>(ids, _).
       rret ids)))"

definition write_generation_commit :: "GenerationCommit \<Rightarrow> byte list io_result" where
  "write_generation_commit c =
     ebind (validate_generation_file_ids_for_write (committed_file_ids c)) (\<lambda>_.
     ebind (validate_generation_file_ids_for_write (commit_published_file_ids c)) (\<lambda>_.
     ebind (validate_generation_file_ids_for_write (commit_evicted_file_ids c)) (\<lambda>_.
     ebind (generation_commit_wire_bytes c) (\<lambda>_.
       wcat [write_u8 MESSAGE_GENERATION_COMMIT, write_file_id (commit_generation_index c),
             write_generation_file_ids (committed_file_ids c),
             write_generation_file_ids (commit_published_file_ids c),
             write_generation_file_ids (commit_evicted_file_ids c)]))))"

definition read_generation_commit :: "GenerationCommit reader" where
  "read_generation_commit =
     rbind read_u8 (\<lambda>message.
     rbind (rguard (message = MESSAGE_GENERATION_COMMIT) InvalidData) (\<lambda>_.
     rbind read_u64 (\<lambda>w.
     rbind (rlift (usize_try_from InvalidData w)) (\<lambda>index.
     rbind read_generation_file_ids (\<lambda>committed.
     rbind read_generation_file_ids (\<lambda>published.
     rbind read_generation_file_ids (\<lambda>evicted.
       let c = \<lparr>commit_generation_index = index, committed_file_ids = committed,
                commit_published_file_ids = published, commit_evicted_file_ids = evicted\<rparr>
       in rbind (rlift (map_err (\<lambda>_. InvalidData) (generation_commit_wire_bytes c))) (\<lambda>_. rret c))))))))"

definition expected_generation_commit :: "CatalogGeneration \<Rightarrow> GenerationCommit" where
  "expected_generation_commit g =
     \<lparr>commit_generation_index = gen_index g, committed_file_ids = map file_id (transfer_files g),
      commit_published_file_ids = published_file_ids g, commit_evicted_file_ids = evicted_file_ids g\<rparr>"

definition validate_generation_commit_ids :: "usize list \<Rightarrow> usize \<Rightarrow> unit io_result" where
  "validate_generation_commit_ids file_ids manifest_entries =
     ebind (efold (\<lambda>seen i. if i \<ge> manifest_entries then Inl InvalidData
                     else if i |\<in>| seen then Inl InvalidData else Inr (finsert i seen)) {||} file_ids) (\<lambda>_.
       Inr ())"

definition validate_generation_commit :: "GenerationCommit \<Rightarrow> CatalogGeneration \<Rightarrow> usize \<Rightarrow> unit io_result" where
  "validate_generation_commit c g manifest_entries =
     (if commit_generation_index c \<noteq> gen_index g then Inl InvalidData
      else
        ebind (validate_generation_commit_ids (committed_file_ids c) manifest_entries) (\<lambda>_.
        ebind (validate_generation_commit_ids (commit_published_file_ids c) manifest_entries) (\<lambda>_.
        ebind (validate_generation_commit_ids (commit_evicted_file_ids c) manifest_entries) (\<lambda>_.
          let expected = expected_generation_commit g in
          if committed_file_ids c \<noteq> committed_file_ids expected then Inl InvalidData
          else if commit_published_file_ids c \<noteq> commit_published_file_ids expected then Inl InvalidData
          else if commit_evicted_file_ids c \<noteq> commit_evicted_file_ids expected then Inl InvalidData
          else Inr ()))))"

section \<open>The transfer acknowledgement\<close>

record CdcLaneStats =
  offered_files :: u64
  completed_files :: u64
  fallback_files :: u64
  cdc_logical_bytes :: u64
  reused_bytes :: u64
  literal_bytes :: u64
  index_wire_bytes :: u64
  plan_wire_bytes :: u64

record TransferAck =
  files_copied :: u64
  bytes_copied :: u64
  data_wire_bytes :: u64
  compressed_records :: u64
  ack_cdc :: CdcLaneStats
  tiny_materialization_workers :: u32
  tiny_pack_count :: u64
  compressed_tiny_pack_count :: u64
  raw_tiny_pack_count :: u64
  tiny_files_packed :: u64
  tiny_bytes_packed :: u64
  tiny_pack_wire_bytes :: u64

definition write_transfer_ack :: "TransferAck \<Rightarrow> byte list io_result" where
  "write_transfer_ack a = wcat [
     write_u8 MESSAGE_TRANSFER_ACK,
     write_u64 (files_copied a), write_u64 (bytes_copied a), write_u64 (data_wire_bytes a),
     write_u64 (compressed_records a),
     write_u64 (offered_files (ack_cdc a)), write_u64 (completed_files (ack_cdc a)),
     write_u64 (fallback_files (ack_cdc a)), write_u64 (cdc_logical_bytes (ack_cdc a)),
     write_u64 (reused_bytes (ack_cdc a)), write_u64 (literal_bytes (ack_cdc a)),
     write_u64 (index_wire_bytes (ack_cdc a)), write_u64 (plan_wire_bytes (ack_cdc a)),
     write_u32 (tiny_materialization_workers a),
     write_u64 (tiny_pack_count a), write_u64 (compressed_tiny_pack_count a), write_u64 (raw_tiny_pack_count a),
     write_u64 (tiny_files_packed a), write_u64 (tiny_bytes_packed a), write_u64 (tiny_pack_wire_bytes a)]"

definition read_cdc_stats :: "CdcLaneStats reader" where
  "read_cdc_stats =
     rbind read_u64 (\<lambda>offered. rbind read_u64 (\<lambda>completed. rbind read_u64 (\<lambda>fallback.
     rbind read_u64 (\<lambda>logical. rbind read_u64 (\<lambda>reused. rbind read_u64 (\<lambda>literal.
     rbind read_u64 (\<lambda>index. rbind read_u64 (\<lambda>plan_bytes.
       rret \<lparr>offered_files = offered, completed_files = completed, fallback_files = fallback,
             cdc_logical_bytes = logical, reused_bytes = reused, literal_bytes = literal,
             index_wire_bytes = index, plan_wire_bytes = plan_bytes\<rparr>))))))))"

definition read_transfer_ack :: "TransferAck reader" where
  "read_transfer_ack =
     rbind read_u8 (\<lambda>message.
     rbind (rguard (message = MESSAGE_TRANSFER_ACK) InvalidData) (\<lambda>_.
     rbind read_u64 (\<lambda>files. rbind read_u64 (\<lambda>bytes. rbind read_u64 (\<lambda>wire. rbind read_u64 (\<lambda>records.
     rbind read_cdc_stats (\<lambda>cdc.
     rbind read_u32 (\<lambda>workers.
     rbind read_u64 (\<lambda>packs. rbind read_u64 (\<lambda>compressed. rbind read_u64 (\<lambda>raw.
     rbind read_u64 (\<lambda>packed_files. rbind read_u64 (\<lambda>packed_bytes. rbind read_u64 (\<lambda>pack_wire.
       rret \<lparr>files_copied = files, bytes_copied = bytes, data_wire_bytes = wire, compressed_records = records,
             ack_cdc = cdc, tiny_materialization_workers = workers, tiny_pack_count = packs,
             compressed_tiny_pack_count = compressed, raw_tiny_pack_count = raw,
             tiny_files_packed = packed_files, tiny_bytes_packed = packed_bytes,
             tiny_pack_wire_bytes = pack_wire\<rparr>))))))))))))))"

section \<open>Pieces read back\<close>

lemmas engine_prims =
  write_u8_def write_u32_def write_u64_def read_u8_def read_u32_def read_u64_def

lemma write_file_id_eq: "write_file_id = write_completed_file_id"
  by (simp add: fun_eq_iff write_file_id_def write_completed_file_id_def write_u64_def [abs_def])

lemma read_file_id_eq: "read_file_id = read_completed_file_id"
  by (simp add: fun_eq_iff read_file_id_def read_completed_file_id_def read_u64_def)

interpretation engine_id: canonical_codec write_file_id read_file_id "\<lambda>n. n \<le> usize_max"
  unfolding write_file_id_eq read_file_id_eq by unfold_locales

interpretation digest_codec: canonical_codec write_digest read_digest "\<lambda>d. length d = CONTENT_DIGEST_BYTES"
  by unfold_locales (auto simp: write_digest_def read_digest_def read_exact_Inr read_exact_append)

lemma write_file_id_Inr: "write_file_id i = Inr bs \<longleftrightarrow> i \<le> usize_max \<and> bs = to_be_bytes (of_nat i :: u64)"
  by (auto simp: write_file_id_def write_u64_def word_try_from_def usize_le_iff)

lemma write_file_ids_length:
  "wcat (map write_file_id ids) = Inr bs \<Longrightarrow> length bs = 8 * length ids \<and> (\<forall>i \<in> set ids. i \<le> usize_max)"
  by (induction ids arbitrary: bs) (auto simp: ebind_Inr write_file_id_Inr)

lemma read_offered_stripe_eq: "read_offered_stripe = read_stripe"
proof -
  have "rlift (map_err (\<lambda>_. InvalidData) (ResumeStripe_new (unat w) off len)) =
      rbind (rguard (len \<noteq> 0) InvalidData) (\<lambda>_. rret (ResumeStripe w off len))" for w off len
    by (cases "len = 0") (simp_all add: ResumeStripe_new_def fun_eq_iff)
  then show ?thesis by (simp add: read_offered_stripe_def read_stripe_def read_u64_def)
qed

lemma checked_count_Inr: "checked_count limit n = Inr c \<longleftrightarrow> n \<le> unat limit \<and> c = of_nat n"
proof
  assume "checked_count limit n = Inr c"
  then have "word_try_from InvalidInput n = Inr c" "c \<le> limit"
    by (auto simp: checked_count_def ebind_Inr split: if_splits)
  then show "n \<le> unat limit \<and> c = of_nat n"
    using word_try_from_unat [of InvalidInput n c] by (auto simp: word_le_nat_alt)
next
  assume *: "n \<le> unat limit \<and> c = of_nat n"
  then have small: "n < 2 ^ LENGTH(32)" using unat_less_2p [of limit] by linarith
  then have "unat (of_nat n :: u32) = n" by (rule unat_of_nat_small)
  with * small show "checked_count limit n = Inr c"
    by (simp only: checked_count_def word_try_from_ok ebind_simps) (simp add: word_le_nat_alt not_less)
qed

lemma unat_of_nat_count: "n \<le> unat (limit :: u32) \<Longrightarrow> unat (of_nat n :: u32) = n"
  using unat_less_2p [of limit] by (intro unat_of_nat_small) linarith

lemma counted_le: "n \<le> unat (limit :: u32) \<Longrightarrow> (of_nat n :: u32) \<le> limit"
  by (simp add: word_le_nat_alt unat_of_nat_count)

text \<open>The duplicate check that accompanies every list of file IDs.\<close>

lemma dedup_fold:
  "efold (\<lambda>seen i. if i |\<in>| seen then Inl e else Inr (finsert i seen)) S xs = Inr S' \<longleftrightarrow>
   distinct xs \<and> (\<forall>x \<in> set xs. x |\<notin>| S) \<and> S' = S |\<union>| fset_of_list xs"
  by (induction xs arbitrary: S) auto

lemma dedup_fold_ok:
  "(\<exists>S'. efold (\<lambda>seen i. if i |\<in>| seen then Inl e else Inr (finsert i seen)) {||} xs = Inr S') \<longleftrightarrow> distinct xs"
  by (simp add: dedup_fold)

definition ids_wf :: "u32 \<Rightarrow> usize list \<Rightarrow> bool" where
  "ids_wf limit ids \<longleftrightarrow> distinct ids \<and> length ids \<le> unat limit \<and> (\<forall>i \<in> set ids. i \<le> usize_max)"

definition counted_ids :: "usize list \<Rightarrow> byte list io_result" where
  "counted_ids ids = wcat (write_u32 (of_nat (length ids)) # map write_file_id ids)"

lemma counted_ids_ok: "\<forall>i \<in> set ids. i \<le> usize_max \<Longrightarrow> \<exists>bs. counted_ids ids = Inr bs"
  using engine_id.wcat_valid [of ids] by (auto simp: counted_ids_def write_u32_def)

lemma counted_ids_length: "counted_ids ids = Inr bs \<Longrightarrow> length bs = 4 + 8 * length ids"
  by (auto simp: counted_ids_def write_u32_def ebind_Inr dest: write_file_ids_length)

lemma counted_ids_usize: "counted_ids ids = Inr bs \<Longrightarrow> \<forall>i \<in> set ids. i \<le> usize_max"
  by (auto simp: counted_ids_def write_u32_def ebind_Inr dest: write_file_ids_length)

section \<open>Generation commits are read back exactly\<close>

lemma generation_commit_list_count_Inr:
  "generation_commit_list_count ids = Inr c \<longleftrightarrow> length ids \<le> unat MAX_GENERATION_COMMIT_FILE_IDS \<and> c = of_nat (length ids)"
  by (simp add: generation_commit_list_count_def checked_count_Inr)

lemma write_generation_file_ids_Inr:
  "write_generation_file_ids ids = Inr bs \<longleftrightarrow>
   length ids \<le> unat MAX_GENERATION_COMMIT_FILE_IDS \<and> counted_ids ids = Inr bs"
  by (auto simp: write_generation_file_ids_def ebind_Inr generation_commit_list_count_Inr counted_ids_def)

lemma read_generation_file_ids_Inr:
  "read_generation_file_ids bs = Inr (ids, rest) \<longleftrightarrow>
   ids_wf MAX_GENERATION_COMMIT_FILE_IDS ids \<and> (\<exists>xs. counted_ids ids = Inr xs \<and> bs = xs @ rest)"
proof
  assume "read_generation_file_ids bs = Inr (ids, rest)"
  then obtain n b S where n: "bs = to_be_bytes n @ b" "n \<le> MAX_GENERATION_COMMIT_FILE_IDS"
    and r: "rfor (unat n) (read_fold read_file_id
         (\<lambda>seen i. if i |\<in>| seen then Inl InvalidData else Inr (finsert i seen))) ([], {||}) b = Inr ((ids, S), rest)"
    by (auto simp: read_generation_file_ids_def read_u32_def result_simps read_be_iffs)
  from r obtain xs where "length ids = unat n" "\<forall>i \<in> set ids. i \<le> usize_max" "wcat (map write_file_id ids) = Inr xs"
    "b = xs @ rest" "distinct ids"
    by (auto simp: engine_id.rfor_fold_iff dedup_fold)
  with n show "ids_wf MAX_GENERATION_COMMIT_FILE_IDS ids \<and> (\<exists>xs. counted_ids ids = Inr xs \<and> bs = xs @ rest)"
    by (simp add: ids_wf_def counted_ids_def write_u32_def word_le_nat_alt)
next
  assume *: "ids_wf MAX_GENERATION_COMMIT_FILE_IDS ids \<and> (\<exists>xs. counted_ids ids = Inr xs \<and> bs = xs @ rest)"
  then obtain xs where xs: "wcat (map write_file_id ids) = Inr xs"
    and bs: "bs = to_be_bytes (of_nat (length ids) :: u32) @ xs @ rest"
    by (auto simp: counted_ids_def write_u32_def ebind_Inr)
  have n: "length ids \<le> unat MAX_GENERATION_COMMIT_FILE_IDS" using * by (simp add: ids_wf_def)
  have "rfor (length ids) (read_fold read_file_id
         (\<lambda>seen i. if i |\<in>| seen then Inl InvalidData else Inr (finsert i seen))) ([], {||}) (xs @ rest) =
       Inr ((ids, fset_of_list ids), rest)"
    using * xs by (auto simp: engine_id.rfor_fold_iff dedup_fold ids_wf_def)
  with n show "read_generation_file_ids bs = Inr (ids, rest)"
    by (simp add: read_generation_file_ids_def bs read_u32_def rbind_eq read_be_simps counted_le unat_of_nat_count)
qed

interpretation generation_ids_codec:
  canonical_codec write_generation_file_ids read_generation_file_ids "ids_wf MAX_GENERATION_COMMIT_FILE_IDS"
  by unfold_locales
    (auto simp: write_generation_file_ids_Inr read_generation_file_ids_Inr ids_wf_def counted_ids_ok)

definition commit_wf :: "GenerationCommit \<Rightarrow> bool" where
  "commit_wf c \<longleftrightarrow> commit_generation_index c \<le> usize_max \<and>
     ids_wf MAX_GENERATION_COMMIT_FILE_IDS (committed_file_ids c) \<and>
     ids_wf MAX_GENERATION_COMMIT_FILE_IDS (commit_published_file_ids c) \<and>
     ids_wf MAX_GENERATION_COMMIT_FILE_IDS (commit_evicted_file_ids c)"

lemma checked_mul_of_nat:
  "n * m < 2 ^ LENGTH(64) \<Longrightarrow> n < 2 ^ LENGTH(64) \<Longrightarrow> m < 2 ^ LENGTH(64) \<Longrightarrow>
   checked_mul (of_nat n :: u64) (of_nat m) = Some (of_nat (n * m))"
  by (simp add: checked_mul_def unat_of_nat_small)

lemma wire_size_ok:
  assumes "n \<le> 3000000" "k \<le> 64" "f \<le> 64"
  shows "ebind (ok_or e (checked_mul (of_nat n :: u64) (of_nat k))) (\<lambda>x. ok_or e' (checked_add (of_nat f) x)) =
    Inr (of_nat (f + k * n))"
proof -
  have "n * k \<le> 3000000 * 64" using assms by (intro mult_le_mono) auto
  then have small: "n * k < 2 ^ LENGTH(64)" "f + n * k < 2 ^ LENGTH(64)" using assms by simp_all
  have "checked_mul (of_nat n :: u64) (of_nat k) = Some (of_nat (n * k))"
    using assms small by (intro checked_mul_of_nat) simp_all
  then show ?thesis
    using checked_add_of_nat [OF small(2)] by (simp only: ok_or_simps ebind_simps mult.commute [of k n])
qed

lemma generation_commit_wire_bytes_ok:
  assumes "length (committed_file_ids c) \<le> unat MAX_GENERATION_COMMIT_FILE_IDS"
    "length (commit_published_file_ids c) \<le> unat MAX_GENERATION_COMMIT_FILE_IDS"
    "length (commit_evicted_file_ids c) \<le> unat MAX_GENERATION_COMMIT_FILE_IDS"
  shows "generation_commit_wire_bytes c = Inr (of_nat (21 + 8 * (length (committed_file_ids c) +
    length (commit_published_file_ids c) + length (commit_evicted_file_ids c))))"
proof -
  have cast: "ucast (of_nat n :: u32) = (of_nat n :: u64)" if "n \<le> unat MAX_GENERATION_COMMIT_FILE_IDS" for n
    using unat_of_nat_count [OF that] by (metis of_nat_unat)
  have small: "n \<le> 1000000" if "n \<le> unat MAX_GENERATION_COMMIT_FILE_IDS" for n
    using that by (simp add: MAX_GENERATION_COMMIT_FILE_IDS_def)
  let ?a = "length (committed_file_ids c)" and ?b = "length (commit_published_file_ids c)"
    and ?d = "length (commit_evicted_file_ids c)"
  note s = assms [THEN small]
  have count: "generation_commit_list_count (committed_file_ids c) = Inr (of_nat ?a)"
    "generation_commit_list_count (commit_published_file_ids c) = Inr (of_nat ?b)"
    "generation_commit_list_count (commit_evicted_file_ids c) = Inr (of_nat ?d)"
    using assms by (simp_all add: generation_commit_list_count_Inr)
  have "checked_add (of_nat ?a :: u64) (of_nat ?b) = Some (of_nat (?a + ?b))"
    "checked_add (of_nat (?a + ?b) :: u64) (of_nat ?d) = Some (of_nat (?a + ?b + ?d))"
    using s by (intro checked_add_of_nat, simp)+
  moreover have "GENERATION_COMMIT_FIXED_WIRE_BYTES = of_nat 21" "GENERATION_COMMIT_FILE_ID_WIRE_BYTES = of_nat 8"
    by (simp_all add: GENERATION_COMMIT_FIXED_WIRE_BYTES_def GENERATION_COMMIT_FILE_ID_WIRE_BYTES_def)
  ultimately show ?thesis
    using wire_size_ok [of "?a + ?b + ?d" 8 21 OtherError OtherError] s
    by (simp only: generation_commit_wire_bytes_def count cast [OF assms(1)] cast [OF assms(2)] cast [OF assms(3)]
        ebind_simps Option.bind.bind_lunit ok_or_simps)
qed

lemma validate_ids_for_write_Inr:
  "validate_generation_file_ids_for_write ids = Inr () \<longleftrightarrow>
   length ids \<le> unat MAX_GENERATION_COMMIT_FILE_IDS \<and> distinct ids"
  by (auto simp: validate_generation_file_ids_for_write_def ebind_Inr generation_commit_list_count_Inr dedup_fold)

lemma write_generation_commit_Inr:
  "write_generation_commit c = Inr bs \<longleftrightarrow> commit_wf c \<and>
   (\<exists>x y z. counted_ids (committed_file_ids c) = Inr x \<and> counted_ids (commit_published_file_ids c) = Inr y \<and>
      counted_ids (commit_evicted_file_ids c) = Inr z \<and>
      bs = to_be_bytes MESSAGE_GENERATION_COMMIT @ to_be_bytes (of_nat (commit_generation_index c) :: u64) @ x @ y @ z)"
  (is "?L \<longleftrightarrow> ?R")
proof
  assume ?L
  then obtain x y z where *: "counted_ids (committed_file_ids c) = Inr x" "counted_ids (commit_published_file_ids c) = Inr y"
      "counted_ids (commit_evicted_file_ids c) = Inr z" "commit_generation_index c \<le> usize_max"
    and ids: "distinct (committed_file_ids c)" "distinct (commit_published_file_ids c)" "distinct (commit_evicted_file_ids c)"
      "length (committed_file_ids c) \<le> unat MAX_GENERATION_COMMIT_FILE_IDS"
      "length (commit_published_file_ids c) \<le> unat MAX_GENERATION_COMMIT_FILE_IDS"
      "length (commit_evicted_file_ids c) \<le> unat MAX_GENERATION_COMMIT_FILE_IDS"
    and bs: "bs = to_be_bytes MESSAGE_GENERATION_COMMIT @ to_be_bytes (of_nat (commit_generation_index c) :: u64) @ x @ y @ z"
    by (auto simp: write_generation_commit_def ebind_Inr validate_ids_for_write_Inr write_u8_def write_file_id_Inr
        write_generation_file_ids_Inr)
  then show ?R using *(1,2,3) [THEN counted_ids_usize] by (simp add: commit_wf_def ids_wf_def)
next
  assume ?R
  then show ?L
    by (auto simp: write_generation_commit_def ebind_Inr validate_ids_for_write_Inr write_u8_def write_file_id_Inr
        write_generation_file_ids_Inr commit_wf_def ids_wf_def generation_commit_wire_bytes_ok)
qed

lemma read_generation_commit_Inr:
  "read_generation_commit bs = Inr (c, rest) \<longleftrightarrow> commit_wf c \<and>
   (\<exists>x y z. counted_ids (committed_file_ids c) = Inr x \<and> counted_ids (commit_published_file_ids c) = Inr y \<and>
      counted_ids (commit_evicted_file_ids c) = Inr z \<and>
      bs = to_be_bytes MESSAGE_GENERATION_COMMIT @ to_be_bytes (of_nat (commit_generation_index c) :: u64) @
        x @ y @ z @ rest)"
  (is "?L \<longleftrightarrow> ?R")
proof
  assume ?L
  then obtain w :: u64 and b1 b2 b3 and ids1 ids2 ids3 where
      bs: "bs = to_be_bytes MESSAGE_GENERATION_COMMIT @ to_be_bytes w @ b1"
    and r: "read_generation_file_ids b1 = Inr (ids1, b2)" "read_generation_file_ids b2 = Inr (ids2, b3)"
      "read_generation_file_ids b3 = Inr (ids3, rest)"
    and c: "c = \<lparr>commit_generation_index = unat w, committed_file_ids = ids1,
      commit_published_file_ids = ids2, commit_evicted_file_ids = ids3\<rparr>"
    by (auto simp: read_generation_commit_def read_u8_def read_u64_def result_simps read_be_iffs Let_def)
  have "unat w \<le> usize_max" using unat_less_2p [of w] by (simp only: usize_le_iff)
  with r c show ?R by (auto simp: read_generation_file_ids_Inr commit_wf_def bs)
next
  assume ?R
  then obtain x y z where wf: "commit_wf c" and ids: "counted_ids (committed_file_ids c) = Inr x"
      "counted_ids (commit_published_file_ids c) = Inr y" "counted_ids (commit_evicted_file_ids c) = Inr z"
    and bs: "bs = to_be_bytes MESSAGE_GENERATION_COMMIT @ to_be_bytes (of_nat (commit_generation_index c) :: u64) @
        x @ y @ z @ rest" by auto
  have "read_generation_file_ids (x @ y @ z @ rest) = Inr (committed_file_ids c, y @ z @ rest)"
    "read_generation_file_ids (y @ z @ rest) = Inr (commit_published_file_ids c, z @ rest)"
    "read_generation_file_ids (z @ rest) = Inr (commit_evicted_file_ids c, rest)"
    using wf ids by (auto simp: read_generation_file_ids_Inr commit_wf_def)
  moreover have "unat (of_nat (commit_generation_index c) :: u64) = commit_generation_index c"
    using wf by (intro unat_of_nat_small) (simp only: commit_wf_def usize_le_iff)
  moreover have "\<exists>n. generation_commit_wire_bytes c = Inr n"
    using wf generation_commit_wire_bytes_ok [of c] by (auto simp: commit_wf_def ids_wf_def)
  ultimately show ?L
    unfolding bs by (cases c) (auto simp: read_generation_commit_def read_u8_def read_u64_def rbind_eq read_be_simps Let_def)
qed

interpretation commit_codec: canonical_codec write_generation_commit read_generation_commit commit_wf
proof
  fix c bs rest
  show "commit_wf c \<Longrightarrow> \<exists>bs. write_generation_commit c = Inr bs"
    using counted_ids_ok by (simp add: write_generation_commit_Inr) (metis commit_wf_def ids_wf_def)
qed (auto simp: write_generation_commit_Inr read_generation_commit_Inr)

lemma commit_wire_bytes:
  assumes "write_generation_commit c = Inr bs"
  shows "generation_commit_wire_bytes c = Inr (of_nat (length bs))"
proof -
  from assms obtain x y z where wf: "commit_wf c" and ids: "counted_ids (committed_file_ids c) = Inr x"
      "counted_ids (commit_published_file_ids c) = Inr y" "counted_ids (commit_evicted_file_ids c) = Inr z"
    and bs: "bs = to_be_bytes MESSAGE_GENERATION_COMMIT @ to_be_bytes (of_nat (commit_generation_index c) :: u64) @ x @ y @ z"
    by (auto simp: write_generation_commit_Inr)
  have "length bs = 21 + 8 * (length (committed_file_ids c) + length (commit_published_file_ids c) +
      length (commit_evicted_file_ids c))"
    using ids [THEN counted_ids_length] by (simp add: bs)
  with wf show ?thesis by (simp only: generation_commit_wire_bytes_ok commit_wf_def ids_wf_def)
qed

text \<open>  A generation commit is read from a stream exactly when the stream starts with the message some sender
  wrote for that commit, and the size both sides account for it is the number of its bytes.\<close>

theorem generation_commit_exact:
  "read_generation_commit bs = Inr (c, rest) \<longleftrightarrow>
   (\<exists>xs. write_generation_commit c = Inr xs \<and> bs = xs @ rest \<and>
      generation_commit_wire_bytes c = Inr (of_nat (length xs)))"
  using commit_codec.read_iff_write [of bs c rest] commit_wire_bytes [of c]
  by (auto simp: write_generation_commit_Inr)

section \<open>Only the planned commit is accepted\<close>

lemma validate_commit_ids_fold:
  "(\<exists>S'. efold (\<lambda>seen i :: usize. if i \<ge> n then Inl InvalidData
       else if i |\<in>| seen then Inl InvalidData else Inr (finsert i seen)) S ids = Inr S') \<longleftrightarrow>
   distinct ids \<and> (\<forall>i \<in> set ids. i < n \<and> i |\<notin>| S)"
  by (induction ids arbitrary: S) (auto simp: not_le dest: leD)

lemma validate_generation_commit_ids_Inr:
  "validate_generation_commit_ids ids n = Inr () \<longleftrightarrow> distinct ids \<and> (\<forall>i \<in> set ids. i < n)"
  using validate_commit_ids_fold [of n "{||}" ids] by (simp add: validate_generation_commit_ids_def ebind_Inr)

lemma validate_generation_commit_Inr:
  "validate_generation_commit c g n = Inr () \<longleftrightarrow> c = expected_generation_commit g \<and>
   (\<forall>ids \<in> {committed_file_ids c, commit_published_file_ids c, commit_evicted_file_ids c}.
      distinct ids \<and> (\<forall>i \<in> set ids. i < n))"
  by (cases c) (auto simp: validate_generation_commit_def ebind_Inr validate_generation_commit_ids_Inr
      expected_generation_commit_def Let_def)

section \<open>Every planned commit fits the protocol\<close>

text \<open>
  A candidate larger than a tiny file takes at least two catalog entries, so the catalog never holds more than
  half as many files as entries; with the files of one generation this bounds every list of a commit.
\<close>

definition dense :: "catalog \<Rightarrow> bool" where
  "dense cat \<longleftrightarrow> (\<forall>e \<in> set cat. 2 \<le> unat (snd e))"

lemma dense_length: "dense cat \<Longrightarrow> 2 * length cat \<le> cat_sum cat"
  by (induction cat) (auto simp: dense_def cat_sum_def)

definition bulky :: "CatalogCandidate \<Rightarrow> bool" where
  "bulky c \<longleftrightarrow> TINY_FILE_MAX_BYTES < logical_bytes c"

lemma estimated_entries_bulky:
  assumes "bulky c" "estimated_entries c = Inr est"
  shows "2 \<le> unat est"
proof -
  from assms(2) obtain b where b: "checked_add (logical_bytes c) (AVERAGE_CHUNK_BYTES - 1) = Some b"
    and est: "est = b div AVERAGE_CHUNK_BYTES"
    by (auto simp: estimated_entries_def ebind_Inr ok_or_Inr split: if_splits)
  have "unat b = unat (logical_bytes c) + 65535" using unat_checked_add [OF b] by (simp add: AVERAGE_CHUNK_BYTES_def)
  moreover have "262144 < unat (logical_bytes c)"
    using assms(1) by (simp add: bulky_def TINY_FILE_MAX_BYTES_def word_less_nat_alt)
  ultimately have "131072 \<le> unat b" by simp
  then have "131072 div 65536 \<le> unat b div 65536" by (rule div_le_mono)
  then show ?thesis by (simp add: est AVERAGE_CHUNK_BYTES_def unat_div_distrib)
qed

lemma catalog_candidate_dense:
  assumes "catalog_candidate ek l (cat, e, unc, ev) c = Inr (cat', e', unc', ev')" "bulky c" "cat_ok l cat e" "dense cat"
  shows "cat_ok l cat' e' \<and> dense cat' \<and> length ev' + length cat' \<le> length ev + length cat + 1"
proof -
  obtain est where est: "estimated_entries c = Inr est" using assms(1) by (auto simp: catalog_candidate_def ebind_Inr)
  show ?thesis
  proof (cases "est > max_catalog_entries l")
    case True
    then show ?thesis using assms est by (auto simp: catalog_candidate_def)
  next
    case False
    then have le: "est \<le> max_catalog_entries l" by simp
    obtain gone cat1 e1 where g: "cat = gone @ cat1" "evict ek (max_catalog_entries l) est cat e ev = Inr (cat1, e1, ev @ map fst gone)"
      "unat e1 = cat_sum cat1" "unat e1 + unat est \<le> unat (max_catalog_entries l)"
      using evict_ok [of e cat est "max_catalog_entries l" ev] le assms(3) by (auto simp: cat_ok_def)
    obtain e2 where e2: "checked_add e1 est = Some e2" "unat e2 = unat e1 + unat est"
      "cat' = cat1 @ [(file_id c, est)]" "e' = e2" "ev' = ev @ map fst gone"
      using assms(1) est False g(2) by (auto simp: catalog_candidate_def ebind_Inr ok_or_Inr dest: unat_checked_add)
    show ?thesis
      using e2 g assms(4) estimated_entries_bulky [OF assms(2) est]
      by (auto simp: cat_ok_def dense_def word_le_nat_alt)
  qed
qed

lemma validate_fold_dense:
  "efold (validate_plan_candidate l) (prev, (cat, e, unc, ev)) files = Inr (prev', (cat', e', unc', ev')) \<Longrightarrow>
   \<forall>c \<in> set files. bulky c \<Longrightarrow> cat_ok l cat e \<Longrightarrow> dense cat \<Longrightarrow>
   cat_ok l cat' e' \<and> dense cat' \<and> length ev' + length cat' \<le> length ev + length cat + length files"
proof (induction files arbitrary: prev cat e unc ev)
  case (Cons c files)
  then obtain prev1 cat1 e1 unc1 ev1 where
      1: "catalog_candidate InvalidData l (cat, e, unc, ev) c = Inr (cat1, e1, unc1, ev1)"
      "efold (validate_plan_candidate l) (prev1, (cat1, e1, unc1, ev1)) files = Inr (prev', (cat', e', unc', ev'))"
    by (auto simp: validate_plan_candidate_def ebind_Inr split: if_splits)
  have "cat_ok l cat1 e1 \<and> dense cat1 \<and> length ev1 + length cat1 \<le> length ev + length cat + 1"
    using catalog_candidate_dense [OF 1(1)] Cons.prems by simp
  with Cons.IH [OF 1(2)] Cons.prems show ?case by simp
qed simp

lemma validated_evictions:
  "efold (validate_generation l) v gs = Inr v' \<Longrightarrow> \<forall>g \<in> set gs. \<forall>c \<in> set (transfer_files g). bulky c \<Longrightarrow>
   cat_ok l (vs_catalog v) (vs_entries v) \<Longrightarrow> dense (vs_catalog v) \<Longrightarrow> g \<in> set gs \<Longrightarrow>
   2 * length (evicted_file_ids g) \<le> unat (max_catalog_entries l) + 2 * length (transfer_files g)"
proof (induction gs arbitrary: v)
  case (Cons h gs)
  then obtain v1 where v1: "validate_generation l v h = Inr v1" "efold (validate_generation l) v1 gs = Inr v'"
    by (auto simp: ebind_Inr)
  then obtain prev unc where f: "efold (validate_plan_candidate l) (vs_previous v, (vs_catalog v, vs_entries v, [], []))
      (transfer_files h) = Inr (prev, (vs_catalog v1, vs_entries v1, unc, evicted_file_ids h))"
    by (auto simp: validate_generation_def ebind_Inr split: if_splits)
  have step: "cat_ok l (vs_catalog v1) (vs_entries v1)" "dense (vs_catalog v1)"
    "length (evicted_file_ids h) \<le> length (vs_catalog v) + length (transfer_files h)"
    using validate_fold_dense [OF f] Cons.prems by auto
  have "2 * length (vs_catalog v) \<le> unat (max_catalog_entries l)"
    using dense_length [OF Cons.prems(4)] Cons.prems(3) by (simp add: cat_ok_def word_le_nat_alt)
  with step show ?case using Cons.IH [OF v1(2)] Cons.prems(2,5) by auto
qed simp

lemma bulky_bytes: "\<forall>c \<in> set cs. bulky c \<Longrightarrow> 262144 * length cs \<le> bytes_of cs"
  by (induction cs) (auto simp: bulky_def TINY_FILE_MAX_BYTES_def word_less_nat_alt)

lemma distinct_concat_member: "distinct (concat xss) \<Longrightarrow> xs \<in> set xss \<Longrightarrow> distinct xs"
  by (induction xss) auto

lemma distinct_concat_filter:
  "distinct (concat (map f gs)) \<Longrightarrow> distinct (concat (map (\<lambda>g. filter (P g) (f g)) gs))"
  by (induction gs) auto

lemma generation_lists:
  assumes "plan cs default_limits = Inr p" "g \<in> set (generations p)" "\<forall>c \<in> set cs. bulky c"
  shows "length (transfer_files g) \<le> 2048" and "length (evicted_file_ids g) \<le> 502048"
    and "distinct (generation_ids g)" and "distinct (evicted_file_ids g)"
    and "set (evicted_file_ids g) \<subseteq> file_id ` set cs" and "set (generation_ids g) \<subseteq> file_id ` set cs"
proof -
  obtain s where s: "gens_inv default_limits s" "planned s = sort_key file_id cs" "generations p = ps_generations s"
    "validate_plan p default_limits = Inr ()" "sane (sort_key file_id cs)"
    using plan_Inr [OF assms(1)] by metis
  have sub: "set (transfer_files h) \<subseteq> set cs" if "h \<in> set (generations p)" for h
    using that arg_cong [OF s(2), of set] s(3) by auto
  have bulk: "\<forall>h \<in> set (generations p). \<forall>c \<in> set (transfer_files h). bulky c" using sub assms(3) by blast
  have "gen_bounded default_limits (transfer_files g)" using s(1,3) assms(2) by (auto simp: gens_inv_def)
  then show files: "length (transfer_files g) \<le> 2048"
    using bulky_bytes [of "transfer_files g"] bulk assms(2)
    by (auto simp: gen_bounded_def default_limits_def DEFAULT_GENERATION_TARGET_BYTES_def)
  obtain v where "efold (validate_generation default_limits) initial_validation_state (generations p) = Inr v"
    using s(4) by (auto simp: validate_plan_def ebind_Inr)
  from validated_evictions [OF this bulk _ _ assms(2)]
  have "2 * length (evicted_file_ids g) \<le> 1000000 + 2 * length (transfer_files g)"
    by (simp add: initial_validation_state_def cat_ok_def dense_def default_limits_def DEFAULT_MAX_CATALOG_ENTRIES_def)
  with files show "length (evicted_file_ids g) \<le> 502048" by simp
  have ids: "concat (map generation_ids (generations p)) = map file_id (sort_key file_id cs)"
    by (rule plan_catalog_ok(3) [OF assms(1)])
  have dist: "distinct (concat (map generation_ids (generations p)))"
    using s(5) by (simp only: ids sane_def ids_increasing_def strict_sorted_iff)
  then show "distinct (generation_ids g)" using assms(2) by (auto intro: distinct_concat_member)
  show "set (generation_ids g) \<subseteq> file_id ` set cs" using sub [OF assms(2)] by auto
  have fifo: "concat (map published_file_ids (generations p)) =
      concat (map evicted_file_ids (generations p)) @ map fst (ps_catalog s)"
    using basis_fifo [of "[]" "ps_generations s"] s(1,3) by (simp add: gens_inv_def)
  have "distinct (concat (map published_file_ids (generations p)))"
    using distinct_concat_filter [OF dist, of "\<lambda>g i. i \<notin> set (uncataloged_file_ids g)"] by (simp add: published_file_ids_def [abs_def])
  then have "distinct (concat (map evicted_file_ids (generations p)))" by (simp only: fifo distinct_append)
  then show "distinct (evicted_file_ids g)" using assms(2) by (auto intro: distinct_concat_member)
  have "set (evicted_file_ids g) \<subseteq> set (concat (map published_file_ids (generations p)))"
    unfolding fifo using assms(2) by auto
  also have "\<dots> \<subseteq> file_id ` set cs" using sub by (auto simp: published_file_ids_def)
  finally show "set (evicted_file_ids g) \<subseteq> file_id ` set cs" .
qed

lemma plan_Inr_validated: "plan cs l = Inr p \<Longrightarrow> validate_plan p l = Inr ()"
  by (erule plan_Inr)

lemma validate_plan_indices: "plan cs l = Inr p \<Longrightarrow> g \<in> set (generations p) \<Longrightarrow> gen_index g \<le> usize_max"
proof -
  assume p: "plan cs l = Inr p" and g: "g \<in> set (generations p)"
  obtain v where "efold (validate_generation l) initial_validation_state (generations p) = Inr v"
    using plan_Inr_validated [OF p] by (auto simp: validate_plan_def ebind_Inr)
  from validated_generations [OF this] have "map gen_index (generations p) = [0..<length (generations p)]"
    by (simp add: initial_validation_state_def)
  then have "gen_index g \<in> set [0..<length (generations p)]" using g by (metis image_eqI set_map)
  then show ?thesis using plan_catalog_ok(1) [OF p] by (simp add: catalog_ok_def)
qed

lemma planned_commit_wf:
  assumes "plan cs default_limits = Inr p" "g \<in> set (generations p)" "\<forall>c \<in> set cs. bulky c \<and> file_id c < n" "n \<le> usize_max"
  shows "commit_wf (expected_generation_commit g)"
    and "validate_generation_commit (expected_generation_commit g) g n = Inr ()"
proof -
  have b: "\<forall>c \<in> set cs. bulky c" using assms(3) by blast
  note L = generation_lists [OF assms(1,2) b]
  have small: "file_id c < n" if "c \<in> set cs" for c using that assms(3) by blast
  have pub: "length (published_file_ids g) \<le> length (transfer_files g)" "distinct (published_file_ids g)"
    "set (published_file_ids g) \<subseteq> set (generation_ids g)"
    using L(3) length_filter_le [of _ "generation_ids g"] by (auto simp: published_file_ids_def)
  have id: "\<forall>i \<in> set (evicted_file_ids g). i < n" "\<forall>i \<in> set (generation_ids g). i < n"
    using L(5,6) small by auto
  then have idp: "\<forall>i \<in> set (published_file_ids g). i < n" using pub(3) by blast
  have lists: "ids_wf MAX_GENERATION_COMMIT_FILE_IDS ids"
    if "distinct ids" "length ids \<le> 502048" "\<forall>i \<in> set ids. i < n" for ids
    using that assms(4) by (auto simp: ids_wf_def MAX_GENERATION_COMMIT_FILE_IDS_def)
  show "commit_wf (expected_generation_commit g)"
    using lists [OF L(3) _ id(2)] lists [OF L(4,2) id(1)] lists [OF pub(2) _ idp] L(1) pub(1)
      validate_plan_indices [OF assms(1,2)]
    by (simp add: commit_wf_def expected_generation_commit_def)
  show "validate_generation_commit (expected_generation_commit g) g n = Inr ()"
    using L(3,4) pub(2) id idp by (simp add: validate_generation_commit_Inr expected_generation_commit_def)
qed

text \<open>  Every generation the planner makes from medium and large files can be committed: the three lists of
  its commit fit the limits of the message, the sender reads back exactly the commit the receiver sent, and
  accepts that commit and no other one.\<close>

theorem planned_generation_commits:
  assumes "plan cs default_limits = Inr p" "g \<in> set (generations p)"
    "\<forall>c \<in> set cs. TINY_FILE_MAX_BYTES < logical_bytes c \<and> file_id c < n" "n \<le> usize_max"
  shows "\<exists>bs. write_generation_commit (expected_generation_commit g) = Inr bs \<and>
    (\<forall>rest. read_generation_commit (bs @ rest) = Inr (expected_generation_commit g, rest)) \<and>
    (\<forall>c. validate_generation_commit c g n = Inr () \<longleftrightarrow> c = expected_generation_commit g)"
proof -
  have "\<forall>c \<in> set cs. bulky c \<and> file_id c < n" using assms(3) by (simp add: bulky_def)
  note wf = planned_commit_wf [OF assms(1,2) this assms(4)]
  obtain bs where "write_generation_commit (expected_generation_commit g) = Inr bs"
    "\<forall>rest. read_generation_commit (bs @ rest) = Inr (expected_generation_commit g, rest)"
    using commit_codec.round_trip [OF wf(1)] by blast
  moreover have "validate_generation_commit c g n = Inr () \<longleftrightarrow> c = expected_generation_commit g" for c
    using wf(2) validate_generation_commit_Inr [of c g n] by blast
  ultimately show ?thesis by blast
qed

definition sample_fresh_candidates :: "CatalogCandidate list" where
  "sample_fresh_candidates = [\<lparr>file_id = 3, logical_bytes = 300000\<rparr>]"

theorem planned_generation_commits_witness:
  "\<exists>p g. plan sample_fresh_candidates default_limits = Inr p \<and> g \<in> set (generations p) \<and>
    (\<exists>bs. write_generation_commit (expected_generation_commit g) = Inr bs \<and>
      read_generation_commit bs = Inr (expected_generation_commit g, []))"
proof -
  have lim: "limits_validate default_limits = Inr ()"
    by (simp add: limits_validate_def default_limits_def DEFAULT_GENERATION_TARGET_BYTES_def DEFAULT_MAX_CATALOG_ENTRIES_def)
  have "\<exists>p. plan sample_fresh_candidates default_limits = Inr p"
    by (rule plan_exists [OF lim]) (simp_all add: sample_fresh_candidates_def bytes_of_def)
  then obtain p where p: "plan sample_fresh_candidates default_limits = Inr p" by blast
  have "concat (map generation_ids (generations p)) \<noteq> []"
    unfolding plan_catalog_ok(3) [OF p] by (simp add: sample_fresh_candidates_def)
  then obtain g where g: "g \<in> set (generations p)" by fastforce
  have "\<forall>c \<in> set sample_fresh_candidates. TINY_FILE_MAX_BYTES < logical_bytes c \<and> file_id c < 4" "4 \<le> usize_max"
    by (simp_all add: sample_fresh_candidates_def TINY_FILE_MAX_BYTES_def word_less_nat_alt usize_max_def)
  from planned_generation_commits [OF p g this] p g show ?thesis by (metis append_Nil2)
qed

section \<open>The other messages\<close>

lemma to_be_bytes_u8 [simp]: "to_be_bytes (w :: u8) = [w]"
  using unat_less_2p [of w] by (simp add: to_be_bytes_def)

lemma write_exact_reuse_Inr:
  "write_exact_reuse e = Inr bs \<longleftrightarrow> basis_file_id e \<le> usize_max \<and> target_file_id e \<le> usize_max \<and>
   bs = to_be_bytes (of_nat (basis_file_id e) :: u64) @ to_be_bytes (of_nat (target_file_id e) :: u64) @ reuse_digest e"
  by (auto simp: write_exact_reuse_def ebind_Inr write_file_id_Inr write_digest_def)

definition reuse_wf :: "ExactFileReuse \<Rightarrow> bool" where
  "reuse_wf e \<longleftrightarrow> basis_file_id e \<le> usize_max \<and> target_file_id e \<le> usize_max \<and>
     length (reuse_digest e) = CONTENT_DIGEST_BYTES"

lemma read_file_id_Inr:
  "read_file_id bs = Inr (n, rest) \<longleftrightarrow> n \<le> usize_max \<and> bs = to_be_bytes (of_nat n :: u64) @ rest"
  by (simp only: read_file_id_eq read_completed_file_id_Inr)

lemma read_exact_reuse_Inr:
  "read_exact_reuse bs = Inr (e, rest) \<longleftrightarrow> reuse_wf e \<and>
   bs = to_be_bytes (of_nat (basis_file_id e) :: u64) @ to_be_bytes (of_nat (target_file_id e) :: u64) @ reuse_digest e @ rest"
  by (cases e) (auto simp: read_exact_reuse_def result_simps read_file_id_Inr read_digest_def read_exact_Inr reuse_wf_def)

interpretation reuse_codec: canonical_codec write_exact_reuse read_exact_reuse reuse_wf
  by unfold_locales (auto simp: write_exact_reuse_Inr read_exact_reuse_Inr reuse_wf_def)

definition reuse_plan_wf :: "ExactFileReuse list \<Rightarrow> bool" where
  "reuse_plan_wf es \<longleftrightarrow> length es \<le> unat MAX_UNCHANGED_OFFER_FILES \<and> (\<forall>e \<in> set es. reuse_wf e)"

lemma write_exact_reuse_plan_Inr:
  "write_exact_reuse_plan es = Inr bs \<longleftrightarrow> length es \<le> unat MAX_UNCHANGED_OFFER_FILES \<and>
   (\<exists>xs. wcat (map write_exact_reuse es) = Inr xs \<and>
     bs = to_be_bytes MESSAGE_EXACT_REUSE_PLAN @ to_be_bytes (of_nat (length es) :: u32) @ xs)"
  by (auto simp: write_exact_reuse_plan_def ebind_Inr checked_count_Inr write_u8_def write_u32_def)

lemma read_exact_reuse_plan_Inr:
  "read_exact_reuse_plan bs = Inr (es, rest) \<longleftrightarrow> reuse_plan_wf es \<and>
   (\<exists>xs. wcat (map write_exact_reuse es) = Inr xs \<and>
     bs = to_be_bytes MESSAGE_EXACT_REUSE_PLAN @ to_be_bytes (of_nat (length es) :: u32) @ xs @ rest)"
proof
  assume "read_exact_reuse_plan bs = Inr (es, rest)"
  then obtain n b where "bs = to_be_bytes MESSAGE_EXACT_REUSE_PLAN @ to_be_bytes n @ b" "n \<le> MAX_UNCHANGED_OFFER_FILES"
    and "read_times (unat n) read_exact_reuse b = Inr (es, rest)"
    by (auto simp: read_exact_reuse_plan_def read_u8_def read_u32_def result_simps read_be_iffs)
  with reuse_codec.read_times_canonical [OF this(3)]
  show "reuse_plan_wf es \<and> (\<exists>xs. wcat (map write_exact_reuse es) = Inr xs \<and>
     bs = to_be_bytes MESSAGE_EXACT_REUSE_PLAN @ to_be_bytes (of_nat (length es) :: u32) @ xs @ rest)"
    by (auto simp: reuse_plan_wf_def word_le_nat_alt)
next
  assume *: "reuse_plan_wf es \<and> (\<exists>xs. wcat (map write_exact_reuse es) = Inr xs \<and>
     bs = to_be_bytes MESSAGE_EXACT_REUSE_PLAN @ to_be_bytes (of_nat (length es) :: u32) @ xs @ rest)"
  then obtain xs where xs: "wcat (map write_exact_reuse es) = Inr xs"
    and bs: "bs = to_be_bytes MESSAGE_EXACT_REUSE_PLAN @ to_be_bytes (of_nat (length es) :: u32) @ xs @ rest" by blast
  have "read_times (length es) read_exact_reuse (xs @ rest) = Inr (es, rest)"
    using * xs by (intro reuse_codec.read_times_write) (simp_all add: reuse_plan_wf_def)
  moreover have n: "length es \<le> unat MAX_UNCHANGED_OFFER_FILES" using * by (simp add: reuse_plan_wf_def)
  ultimately show "read_exact_reuse_plan bs = Inr (es, rest)"
    unfolding bs
    by (simp add: read_exact_reuse_plan_def read_u8_def read_u32_def rbind_eq read_be_simps counted_le unat_of_nat_count
        del: to_be_bytes_u8)
qed

interpretation reuse_plan_codec: canonical_codec write_exact_reuse_plan read_exact_reuse_plan reuse_plan_wf
proof
  show "reuse_plan_wf es \<Longrightarrow> \<exists>bs. write_exact_reuse_plan es = Inr bs" for es
    using reuse_codec.wcat_valid [of es] by (auto simp: write_exact_reuse_plan_Inr reuse_plan_wf_def)
qed (auto simp: write_exact_reuse_plan_Inr read_exact_reuse_plan_Inr, simp add: reuse_plan_wf_def)

lemma reuse_entries_length:
  "wcat (map write_exact_reuse es) = Inr xs \<Longrightarrow> \<forall>e \<in> set es. reuse_wf e \<Longrightarrow> length xs = 48 * length es"
  by (induction es arbitrary: xs)
    (auto simp: ebind_Inr write_exact_reuse_Inr reuse_wf_def CONTENT_DIGEST_BYTES_def)

lemma exact_reuse_plan_wire_bytes_ok:
  "n \<le> unat MAX_UNCHANGED_OFFER_FILES \<Longrightarrow> exact_reuse_plan_wire_bytes n = Inr (of_nat (5 + 48 * n))"
proof -
  assume n: "n \<le> unat MAX_UNCHANGED_OFFER_FILES"
  then have "n \<le> 1000000" by (simp add: MAX_UNCHANGED_OFFER_FILES_def)
  moreover have "EXACT_REUSE_PLAN_FIXED_WIRE_BYTES = of_nat 5" "EXACT_REUSE_RECORD_WIRE_BYTES = of_nat 48"
    by (simp_all add: EXACT_REUSE_PLAN_FIXED_WIRE_BYTES_def EXACT_REUSE_RECORD_WIRE_BYTES_def CONTENT_DIGEST_BYTES_def)
  moreover have "word_try_from OtherError n = Inr (of_nat n :: u64)"
    using \<open>n \<le> 1000000\<close> by (intro word_try_from_ok) simp
  ultimately show ?thesis
    using wire_size_ok [of n 48 5 OtherError OtherError] by (simp only: exact_reuse_plan_wire_bytes_def ebind_simps)
qed

lemma large_cdc_begin_wire_bytes_ok:
  "n \<le> unat MAX_UNCHANGED_OFFER_FILES \<Longrightarrow> large_cdc_begin_wire_bytes n = Inr (of_nat (5 + 8 * n))"
proof -
  assume n: "n \<le> unat MAX_UNCHANGED_OFFER_FILES"
  then have "n \<le> 1000000" by (simp add: MAX_UNCHANGED_OFFER_FILES_def)
  moreover have "LARGE_CDC_BEGIN_FIXED_WIRE_BYTES = of_nat 5" "LARGE_CDC_FILE_ID_WIRE_BYTES = of_nat 8"
    by (simp_all add: LARGE_CDC_BEGIN_FIXED_WIRE_BYTES_def LARGE_CDC_FILE_ID_WIRE_BYTES_def)
  moreover have "word_try_from OtherError n = Inr (of_nat n :: u64)"
    using \<open>n \<le> 1000000\<close> by (intro word_try_from_ok) simp
  ultimately show ?thesis
    using wire_size_ok [of n 8 5 OtherError OtherError] by (simp only: large_cdc_begin_wire_bytes_def ebind_simps)
qed

lemma exact_reuse_plan_bytes:
  assumes "read_exact_reuse_plan bs = Inr (es, rest)"
  shows "exact_reuse_plan_wire_bytes (length es) = Inr (of_nat (length bs - length rest))"
proof -
  obtain xs where "reuse_plan_wf es" "wcat (map write_exact_reuse es) = Inr xs"
    "bs = to_be_bytes MESSAGE_EXACT_REUSE_PLAN @ to_be_bytes (of_nat (length es) :: u32) @ xs @ rest"
    using assms by (auto simp: read_exact_reuse_plan_Inr)
  moreover from this have "length xs = 48 * length es" by (intro reuse_entries_length) (auto simp: reuse_plan_wf_def)
  ultimately show ?thesis
    using exact_reuse_plan_wire_bytes_ok [of "length es"] by (simp add: reuse_plan_wf_def)
qed

lemma lane_end_Inr:
  "read_lane_end e bs = Inr ((), rest) \<longleftrightarrow> (\<exists>xs. write_lane_end e = Inr xs \<and> bs = xs @ rest)"
proof (cases e)
  case (Generation i)
  have "read_lane_end e bs = Inr ((), rest) \<longleftrightarrow>
      (\<exists>b. bs = to_be_bytes MESSAGE_GENERATION_END @ b \<and> read_file_id b = Inr (i, rest))"
    by (auto simp: Generation read_lane_end_def read_u8_def read_file_id_def read_u64_def result_simps read_be_iffs
        simp del: to_be_bytes_u8)
  then show ?thesis by (auto simp: Generation read_file_id_Inr write_u8_def ebind_Inr write_file_id_Inr)
next
  case StreamEnd
  then show ?thesis
    by (auto simp: read_lane_end_def read_u8_def write_u8_def result_simps read_be_iffs simp del: to_be_bytes_u8)
qed

lemma write_transfer_ack_ok: "\<exists>bs. write_transfer_ack a = Inr bs \<and> length bs = 149"
  by (simp add: write_transfer_ack_def engine_prims)

interpretation transfer_ack_codec: canonical_codec write_transfer_ack read_transfer_ack "\<lambda>_. True"
proof
  fix a bs rest
  show "\<exists>bs. write_transfer_ack a = Inr bs" using write_transfer_ack_ok by blast
  show "write_transfer_ack a = Inr bs \<Longrightarrow> read_transfer_ack (bs @ rest) = Inr (a, rest)"
    by (auto simp: write_transfer_ack_def engine_prims read_transfer_ack_def read_cdc_stats_def rbind_eq read_be_simps
        simp del: to_be_bytes_u8)
next
  fix bs a rest
  show "read_transfer_ack bs = Inr (a, rest) \<Longrightarrow> True \<and> (\<exists>xs. write_transfer_ack a = Inr xs \<and> bs = xs @ rest)"
    by (auto simp: write_transfer_ack_def engine_prims read_transfer_ack_def read_cdc_stats_def result_simps read_be_iffs
        simp del: to_be_bytes_u8)
qed

section \<open>Offers of the receiver\<close>

lemma read_ids_set:
  assumes "\<forall>i. i |\<in>| S \<longrightarrow> i \<le> usize_max" "wcat (map write_file_id (sorted_list_of_fset S)) = Inr bs"
  shows "rfor (fcard S) (read_insert InvalidData read_file_id) {||} (bs @ rest) = Inr (S, rest)"
  using engine_id.rfor_insert_write [of "sorted_list_of_fset S" "{||}" bs InvalidData rest] assms by simp

definition ready_wf :: "ReceiverReady \<Rightarrow> bool" where
  "ready_wf r \<longleftrightarrow> fcard (ready_completed_stripes r) \<le> unat MAX_RESUME_OFFER_STRIPES \<and>
     (\<forall>s. s |\<in>| ready_completed_stripes r \<longrightarrow> stripe_length s \<noteq> 0) \<and>
     fcard (ready_unchanged_file_ids r) \<le> unat MAX_UNCHANGED_OFFER_FILES \<and>
     (\<forall>i. i |\<in>| ready_unchanged_file_ids r \<longrightarrow> i \<le> usize_max)"

lemma write_receiver_ready_Inr:
  assumes "\<forall>s. s |\<in>| ready_completed_stripes r \<longrightarrow> stripe_length s \<noteq> 0"
  shows "write_receiver_ready r = Inr bs \<longleftrightarrow> ready_wf r \<and>
   (\<exists>xs ys. wcat (map write_stripe (sorted_list_of_fset (ready_completed_stripes r))) = Inr xs \<and>
      wcat (map write_file_id (sorted_list_of_fset (ready_unchanged_file_ids r))) = Inr ys \<and>
      bs = to_be_bytes MESSAGE_RECEIVER_READY @ to_be_bytes (entries (ready_summary r)) @
        to_be_bytes (summary_directories (ready_summary r)) @ to_be_bytes (total_file_bytes (ready_summary r)) @
        to_be_bytes (fingerprint (ready_summary r)) @ to_be_bytes (if destination_seek_penalty r then 1 else 0 :: u8) @
        to_be_bytes (of_nat (fcard (ready_completed_stripes r)) :: u32) @ xs @
        to_be_bytes (of_nat (fcard (ready_unchanged_file_ids r)) :: u32) @ ys)"
  (is "_ \<longleftrightarrow> ?R")
proof
  assume "write_receiver_ready r = Inr bs"
  then obtain xs ys where *: "fcard (ready_completed_stripes r) \<le> unat MAX_RESUME_OFFER_STRIPES"
      "fcard (ready_unchanged_file_ids r) \<le> unat MAX_UNCHANGED_OFFER_FILES"
      "wcat (map write_stripe (sorted_list_of_fset (ready_completed_stripes r))) = Inr xs"
    and ys: "wcat (map write_file_id (sorted_list_of_fset (ready_unchanged_file_ids r))) = Inr ys"
    and bs: "bs = to_be_bytes MESSAGE_RECEIVER_READY @ to_be_bytes (entries (ready_summary r)) @
        to_be_bytes (summary_directories (ready_summary r)) @ to_be_bytes (total_file_bytes (ready_summary r)) @
        to_be_bytes (fingerprint (ready_summary r)) @ to_be_bytes (if destination_seek_penalty r then 1 else 0 :: u8) @
        to_be_bytes (of_nat (fcard (ready_completed_stripes r)) :: u32) @ xs @
        to_be_bytes (of_nat (fcard (ready_unchanged_file_ids r)) :: u32) @ ys"
    by (auto simp: write_receiver_ready_def ebind_Inr checked_count_Inr wcat_append engine_prims)
  from write_file_ids_length [OF ys] have "\<forall>i. i |\<in>| ready_unchanged_file_ids r \<longrightarrow> i \<le> usize_max" by simp
  with * ys bs assms show ?R by (simp add: ready_wf_def)
next
  assume ?R
  then show "write_receiver_ready r = Inr bs"
    by (auto simp: write_receiver_ready_def ebind_Inr checked_count_Inr wcat_append engine_prims ready_wf_def)
qed

lemma receiver_ready_round_trip:
  assumes "ready_wf r" "wcat (map write_stripe (sorted_list_of_fset (ready_completed_stripes r))) = Inr xs"
    "wcat (map write_file_id (sorted_list_of_fset (ready_unchanged_file_ids r))) = Inr ys"
  shows "read_receiver_ready_after_message MESSAGE_RECEIVER_READY
     (to_be_bytes (entries (ready_summary r)) @
        to_be_bytes (summary_directories (ready_summary r)) @ to_be_bytes (total_file_bytes (ready_summary r)) @
        to_be_bytes (fingerprint (ready_summary r)) @ to_be_bytes (if destination_seek_penalty r then 1 else 0 :: u8) @
        to_be_bytes (of_nat (fcard (ready_completed_stripes r)) :: u32) @ xs @
        to_be_bytes (of_nat (fcard (ready_unchanged_file_ids r)) :: u32) @ ys @ rest) = Inr (r, rest)"
proof -
  have c: "fcard (ready_completed_stripes r) \<le> unat MAX_RESUME_OFFER_STRIPES"
    "fcard (ready_unchanged_file_ids r) \<le> unat MAX_UNCHANGED_OFFER_FILES" using assms(1) by (simp_all add: ready_wf_def)
  have s: "rfor (fcard (ready_completed_stripes r)) (read_insert InvalidData read_stripe) {||} (xs @ b) =
      Inr (ready_completed_stripes r, b)" for b
    using stripe_codec.rfor_insert_write [of "sorted_list_of_fset (ready_completed_stripes r)" "{||}" xs InvalidData b]
      assms(1,2) by (simp add: ready_wf_def)
  have u: "rfor (fcard (ready_unchanged_file_ids r)) (read_insert InvalidData read_file_id) {||} (ys @ rest) =
      Inr (ready_unchanged_file_ids r, rest)"
    using read_ids_set [OF _ assms(3)] assms(1) by (simp add: ready_wf_def)
  show ?thesis
    by (cases "destination_seek_penalty r")
      (simp_all add: read_receiver_ready_after_message_def engine_prims rbind_eq read_be_simps c [THEN counted_le]
        c [THEN unat_of_nat_count] read_offered_stripe_eq s u del: to_be_bytes_u8)
qed

lemma read_receiver_ready_wf:
  assumes "read_receiver_ready_after_message m bs = Inr (r, rest)"
  shows "m = MESSAGE_RECEIVER_READY \<and> ready_wf r"
proof -
  from assms obtain n k :: u32 and b1 r1 b2 r2 where
      n: "m = MESSAGE_RECEIVER_READY" "n \<le> MAX_RESUME_OFFER_STRIPES" "k \<le> MAX_UNCHANGED_OFFER_FILES"
    and s: "rfor (unat n) (read_insert InvalidData read_stripe) {||} b1 = Inr (ready_completed_stripes r, r1)"
    and u: "rfor (unat k) (read_insert InvalidData read_file_id) {||} b2 = Inr (ready_unchanged_file_ids r, r2)"
    unfolding read_receiver_ready_after_message_def read_offered_stripe_eq
    by (auto simp: rbind_Inr rguard_Inr split: if_splits)
  have "fcard (ready_completed_stripes r) = unat n \<and> (\<forall>x. x |\<in>| ready_completed_stripes r \<longrightarrow> stripe_length x \<noteq> 0)"
    using rfor_insert_Inr [OF s, of "\<lambda>x. stripe_length x \<noteq> 0"] by (simp add: read_stripe_Inr)
  moreover have "fcard (ready_unchanged_file_ids r) = unat k \<and> (\<forall>x. x |\<in>| ready_unchanged_file_ids r \<longrightarrow> x \<le> usize_max)"
    using rfor_insert_Inr [OF u, of "\<lambda>x. x \<le> usize_max"] by (simp add: read_file_id_Inr)
  ultimately show ?thesis using n by (simp add: ready_wf_def word_le_nat_alt)
qed

section \<open>The verification exchange\<close>

lemma write_digest_entry_Inr:
  "write_digest_entry (i, d) = Inr bs \<longleftrightarrow> i \<le> usize_max \<and> bs = to_be_bytes (of_nat i :: u64) @ d"
  by (auto simp: write_digest_entry_def ebind_Inr write_file_id_Inr write_digest_def)

lemma read_digest_entry_Inr:
  "read_digest_entry bs = Inr ((i, d), rest) \<longleftrightarrow> i \<le> usize_max \<and> length d = CONTENT_DIGEST_BYTES \<and>
   bs = to_be_bytes (of_nat i :: u64) @ d @ rest"
  by (auto simp: read_digest_entry_def result_simps read_file_id_Inr read_digest_def read_exact_Inr)

lemma read_digest_entries:
  "wcat (map write_digest_entry es) = Inr bs \<Longrightarrow> \<forall>(i, d) \<in> set es. length d = CONTENT_DIGEST_BYTES \<Longrightarrow>
   distinct (map fst es) \<Longrightarrow> \<forall>i \<in> set (map fst es). i |\<notin>| fmdom m \<Longrightarrow>
   rfor (length es) insert_digest m (bs @ rest) = Inr (m ++\<^sub>f fmap_of_list es, rest)"
proof (induction es arbitrary: m bs)
  case (Cons e es)
  obtain i d where e: "e = (i, d)" by force
  from Cons.prems(1) obtain x y where x: "write_digest_entry (i, d) = Inr x" "wcat (map write_digest_entry es) = Inr y"
    and bs: "bs = x @ y" by (auto simp: e ebind_Inr)
  have "read_digest_entry (bs @ rest) = Inr ((i, d), y @ rest)"
    using x(1) Cons.prems(2) by (auto simp: bs e write_digest_entry_Inr read_digest_entry_Inr)
  then have "insert_digest m (bs @ rest) = Inr (fmupd i d m, y @ rest)"
    using Cons.prems(4) by (simp add: insert_digest_def rbind_eq e)
  moreover have "rfor (length es) insert_digest (fmupd i d m) (y @ rest) = Inr (fmupd i d m ++\<^sub>f fmap_of_list es, rest)"
    using Cons.prems by (intro Cons.IH [OF x(2)]) (auto simp: e)
  moreover have "fmupd i d m ++\<^sub>f fmap_of_list es = m ++\<^sub>f fmap_of_list (e # es)"
    using Cons.prems(3) by (intro fmap_ext) (auto simp: e fmlookup_of_list map_of_eq_None_iff fset_of_list_elem intro: rev_image_eqI)
  ultimately show ?case by (simp add: rbind_def)
qed simp

lemma map_entries_fst: "map fst (map_entries m) = sorted_list_of_fset (fmdom m)"
  by (simp add: map_entries_def comp_def)

lemma fmap_of_map_entries: "fmap_of_list (map_entries m) = m"
proof (rule fmap_ext)
  fix k
  show "fmlookup (fmap_of_list (map_entries m)) k = fmlookup m k"
    by (cases "k |\<in>| fmdom m")
      (auto simp: fmlookup_of_list map_entries_def map_of_map_restrict restrict_map_def fmdom_notD)
qed

lemma verification_request_round_trip:
  assumes "write_verification_request msg m = Inr bs" "\<forall>i d. fmlookup m i = Some d \<longrightarrow> length d = CONTENT_DIGEST_BYTES"
  shows "\<exists>body. bs = msg # body \<and> (\<forall>rest. read_verification_request (body @ rest) = Inr (m, rest))"
proof -
  from assms(1) obtain xs where n: "fcard (fmdom m) \<le> unat MAX_UNCHANGED_OFFER_FILES"
    and xs: "wcat (map write_digest_entry (map_entries m)) = Inr xs"
    and bs: "bs = msg # to_be_bytes (of_nat (fcard (fmdom m)) :: u32) @ xs"
    by (auto simp: write_verification_request_def ebind_Inr checked_count_Inr engine_prims)
  have len: "length (map_entries m) = fcard (fmdom m)" by (simp add: map_entries_def)
  have digests: "\<forall>(i, d) \<in> set (map_entries m). length d = CONTENT_DIGEST_BYTES"
    using assms(2) by (auto simp: map_entries_def fmlookup_dom_iff)
  have "rfor (fcard (fmdom m)) insert_digest fmempty (xs @ rest) = Inr (m, rest)" for rest
    using read_digest_entries [OF xs digests, of fmempty rest] len by (simp add: map_entries_fst fmap_of_map_entries)
  then show ?thesis
    by (simp add: bs read_verification_request_def read_u32_def rbind_eq read_be_simps counted_le [OF n] unat_of_nat_count [OF n])
qed

lemma verification_response_round_trip:
  assumes "fcard S \<le> unat MAX_UNCHANGED_OFFER_FILES" "\<forall>i. i |\<in>| S \<longrightarrow> i \<le> usize_max"
  shows "\<exists>bs. write_verification_response msg S = Inr bs \<and>
    (\<forall>rest. read_verification_response msg (bs @ rest) = Inr (S, rest))"
proof -
  obtain xs where xs: "wcat (map write_file_id (sorted_list_of_fset S)) = Inr xs"
    using engine_id.wcat_valid [of "sorted_list_of_fset S"] assms(2) by auto
  have "fcard S < 2 ^ LENGTH(32)" using assms(1) unat_less_2p [of MAX_UNCHANGED_OFFER_FILES] by linarith
  then have "write_verification_response msg S = Inr (to_be_bytes msg @ to_be_bytes (of_nat (fcard S) :: u32) @ xs)"
    by (simp only: write_verification_response_def word_try_from_ok) (simp add: wcat_append xs engine_prims)
  then show ?thesis
    using read_ids_set [OF assms(2) xs]
    by (auto simp: read_verification_response_def engine_prims rbind_eq read_be_simps counted_le [OF assms(1)]
        unat_of_nat_count [OF assms(1)] simp del: to_be_bytes_u8)
qed

section \<open>Properties of the exchange\<close>

text \<open>  The receiver's offer survives the wire: whatever offer of non-empty stripes the receiver can write, the
  sender reads back unchanged and consumes exactly its bytes; and every offer the sender accepts, from
  whatever bytes, is one that could have been written.\<close>

theorem receiver_offer_round_trip:
  assumes "\<forall>s. s |\<in>| ready_completed_stripes r \<longrightarrow> stripe_length s \<noteq> 0"
  shows "(\<forall>bs. write_receiver_ready r = Inr bs \<longrightarrow>
       (\<exists>body. bs = MESSAGE_RECEIVER_READY # body \<and>
         (\<forall>rest. read_receiver_ready_after_message MESSAGE_RECEIVER_READY (body @ rest) = Inr (r, rest)))) \<and>
     (\<forall>m bs rest. read_receiver_ready_after_message m bs = Inr (r, rest) \<longrightarrow>
       m = MESSAGE_RECEIVER_READY \<and> (\<exists>xs. write_receiver_ready r = Inr xs))"
proof (intro conjI allI impI)
  fix bs
  assume "write_receiver_ready r = Inr bs"
  then show "\<exists>body. bs = MESSAGE_RECEIVER_READY # body \<and>
      (\<forall>rest. read_receiver_ready_after_message MESSAGE_RECEIVER_READY (body @ rest) = Inr (r, rest))"
    using receiver_ready_round_trip [of r] by (auto simp: write_receiver_ready_Inr [OF assms])
next
  fix m bs rest
  assume r: "read_receiver_ready_after_message m bs = Inr (r, rest)"
  then show "m = MESSAGE_RECEIVER_READY" using read_receiver_ready_wf by blast
  have wf: "ready_wf r" using read_receiver_ready_wf [OF r] by blast
  have "\<exists>xs. wcat (map write_stripe (sorted_list_of_fset (ready_completed_stripes r))) = Inr xs"
    using assms by (intro stripe_codec.wcat_valid) simp
  moreover have "\<exists>ys. wcat (map write_file_id (sorted_list_of_fset (ready_unchanged_file_ids r))) = Inr ys"
    using wf by (intro engine_id.wcat_valid) (simp add: ready_wf_def)
  ultimately show "\<exists>xs. write_receiver_ready r = Inr xs"
    using wf by (auto simp: write_receiver_ready_Inr [OF assms])
qed

definition sample_ready :: ReceiverReady where
  "sample_ready = \<lparr>ready_summary = \<lparr>entries = 2, summary_directories = 1, total_file_bytes = 10, fingerprint = 7\<rparr>,
     destination_seek_penalty = True, ready_completed_stripes = {|ResumeStripe 0 0 4|},
     ready_unchanged_file_ids = {|1|}\<rparr>"

theorem receiver_offer_round_trip_witness:
  "\<exists>body. write_receiver_ready sample_ready = Inr (MESSAGE_RECEIVER_READY # body) \<and>
     read_receiver_ready_after_message MESSAGE_RECEIVER_READY body = Inr (sample_ready, [])"
proof -
  have h: "\<forall>s. s |\<in>| ready_completed_stripes sample_ready \<longrightarrow> stripe_length s \<noteq> 0" by (simp add: sample_ready_def)
  have "\<exists>bs. write_receiver_ready sample_ready = Inr bs"
    by (simp add: sample_ready_def write_receiver_ready_def checked_count_def word_try_from_def MAX_RESUME_OFFER_STRIPES_def
        MAX_UNCHANGED_OFFER_FILES_def write_stripe_def write_file_id_def engine_prims sorted_list_of_fset.rep_eq
        fcard.rep_eq word_less_nat_alt)
  then obtain bs where bs: "write_receiver_ready sample_ready = Inr bs" ..
  with receiver_offer_round_trip [OF h] obtain body where b: "bs = MESSAGE_RECEIVER_READY # body"
    "\<forall>rest. read_receiver_ready_after_message MESSAGE_RECEIVER_READY (body @ rest) = Inr (sample_ready, rest)" by blast
  from b(2) [rule_format, of "[]"] bs b(1) show ?thesis by auto
qed

text \<open>The content check of unchanged files loses nothing: the digests of a request that could be written are
  read back unchanged, and the answer, any subset of the requested files, can be written and is read back
  unchanged too, although its writer does not check the limit its reader enforces.\<close>

lemma verification_exchange:
  assumes "write_verification_request q m = Inr bs"
    "\<forall>i d. fmlookup m i = Some d \<longrightarrow> length d = CONTENT_DIGEST_BYTES" "S |\<subseteq>| fmdom m"
  shows "\<exists>body answer. bs = q # body \<and> read_verification_request body = Inr (m, []) \<and>
    write_verification_response a S = Inr answer \<and> read_verification_response a answer = Inr (S, [])"
proof -
  from assms(1) obtain xs where n: "fcard (fmdom m) \<le> unat MAX_UNCHANGED_OFFER_FILES"
    and xs: "wcat (map write_digest_entry (map_entries m)) = Inr xs"
    by (auto simp: write_verification_request_def ebind_Inr checked_count_Inr engine_prims)
  have "\<forall>e \<in> set es. fst e \<le> usize_max" if "wcat (map write_digest_entry es) = Inr ys" for es ys
    using that by (induction es arbitrary: ys) (auto simp: ebind_Inr write_digest_entry_Inr)
  from this [OF xs] have "\<forall>i \<in> set (map fst (map_entries m)). i \<le> usize_max" by auto
  then have ids: "\<forall>i. i |\<in>| S \<longrightarrow> i \<le> usize_max" using assms(3) unfolding map_entries_fst by auto
  have "fcard S \<le> unat MAX_UNCHANGED_OFFER_FILES" using n fcard_mono [OF assms(3)] by simp
  from verification_response_round_trip [OF this ids, of a] obtain answer
    where "write_verification_response a S = Inr answer" "read_verification_response a answer = Inr (S, [])"
    by (metis append_Nil2)
  moreover obtain body where "bs = q # body" "read_verification_request body = Inr (m, [])"
    using verification_request_round_trip [OF assms(1,2)] by (metis append_Nil2)
  ultimately show ?thesis by blast
qed

end
