(* ===== verification/Payload_Codec.thy ===== *)
theory Payload_Codec
  imports Engine_Protocol
begin

text \<open>
  How the contents of files travel, from \<^verbatim>\<open>src/adaptive_compression.rs\<close>, \<^verbatim>\<open>src/tiny_pack_codec.rs\<close>,
  \<^verbatim>\<open>src/compression_probe.rs\<close> and the positional writes of \<^verbatim>\<open>src/striped_file.rs\<close>: the chunked payload of
  a file or stripe with its trailing digest, and the encoding of a pack of tiny files.  The choice between
  raw and compressed data is an argument; timing and progress counters are left out, cancellation is an
  argument.  The locale \<open>payload_sink\<close> is what a receiving loop needs of its destination.
\<close>

section \<open>Third-party codecs\<close>

text \<open>
  BLAKE3 and Zstandard are crates outside the repository; a record passes them to the definitions.  A hasher
  that is updated chunk by chunk digests the concatenation of its chunks, so its state is the bytes seen so far.
  \<open>zstd_compress_to\<close> is \<^verbatim>\<open>compress_to_buffer\<close> with the size of the buffer, \<open>zstd_compress\<close> is
  \<^verbatim>\<open>compress\<close>, \<open>zstd_decompress_to\<close> is \<^verbatim>\<open>decompress_to_buffer\<close>.
\<close>

record libs =
  blake3 :: "byte list \<Rightarrow> digest"
  zstd_compress_to :: "byte list \<Rightarrow> nat \<Rightarrow> byte list option"
  zstd_compress :: "byte list \<Rightarrow> byte list option"
  zstd_decompress_to :: "byte list \<Rightarrow> nat \<Rightarrow> byte list option"

text \<open>
  What the code relies on: a digest has 32 bytes; a compressed frame is not empty, fits the buffer it was written
  to, and decompresses into a buffer of the size of the original data.
\<close>

definition libs_ok :: "libs \<Rightarrow> bool" where
  "libs_ok lib \<longleftrightarrow>
     (\<forall>bs. length (blake3 lib bs) = CONTENT_DIGEST_BYTES) \<and>
     (\<forall>raw cap c. zstd_compress_to lib raw cap = Some c \<longrightarrow>
        c \<noteq> [] \<and> length c \<le> cap \<and> zstd_decompress_to lib c (length raw) = Some raw) \<and>
     (\<forall>raw c. zstd_compress lib raw = Some c \<longrightarrow>
        c \<noteq> [] \<and> zstd_decompress_to lib c (length raw) = Some raw)"

datatype CompressionDecision = Compress | SendRaw

section \<open>The payload of a file or stripe\<close>

definition MODE_RAW :: u8 where "MODE_RAW = 0"
definition MODE_ZSTD :: u8 where "MODE_ZSTD = 1"
definition COMPRESSION_CHUNK_BYTES :: nat where "COMPRESSION_CHUNK_BYTES = 1024 * 1024"
definition MAX_COMPRESSED_CHUNK_BYTES :: nat where "MAX_COMPRESSED_CHUNK_BYTES = COMPRESSION_CHUNK_BYTES * 2"

definition write_mode :: "CompressionDecision \<Rightarrow> byte list io_result" where
  "write_mode d = write_u8 (case d of SendRaw \<Rightarrow> MODE_RAW | Compress \<Rightarrow> MODE_ZSTD)"

definition read_mode :: "CompressionDecision reader" where
  "read_mode = rbind read_u8 (\<lambda>mode.
     if mode = MODE_RAW then rret SendRaw else if mode = MODE_ZSTD then rret Compress else rfail InvalidData)"

definition verify_digest :: "digest \<Rightarrow> digest \<Rightarrow> unit io_result" where
  "verify_digest actual expected = (if actual = expected then Inr () else Inl InvalidData)"

definition encode_chunk :: "libs \<Rightarrow> CompressionDecision \<Rightarrow> byte list \<Rightarrow> byte list io_result" where
  "encode_chunk lib d chunk =
     (case d of
        SendRaw \<Rightarrow> Inr chunk
      | Compress \<Rightarrow>
          ebind (ok_or OtherError (zstd_compress_to lib chunk MAX_COMPRESSED_CHUNK_BYTES)) (\<lambda>c.
            wcat [ebind (word_try_from OtherError (length chunk)) write_u32,
                  ebind (word_try_from OtherError (length c)) write_u32, Inr c]))"

text \<open>
  The sending loop.  \<open>step\<close> is the size of a full chunk, \<open>check\<close> the cancellation check at a position,
  \<open>fill\<close> reads so many bytes of the source at a position; the loop returns the bytes written and the bytes hashed.
\<close>

function send_chunks ::
    "libs \<Rightarrow> nat \<Rightarrow> (nat \<Rightarrow> unit io_result) \<Rightarrow> (nat \<Rightarrow> nat \<Rightarrow> byte list io_result) \<Rightarrow> CompressionDecision \<Rightarrow>
     nat \<Rightarrow> nat \<Rightarrow> byte list \<Rightarrow> (byte list \<times> byte list) io_result" where
  "send_chunks lib step check fill d transferred remaining hashed =
     (if remaining = 0 \<or> step = 0 then Inr ([], hashed)
      else
        ebind (check transferred) (\<lambda>_.
        (let requested = min remaining step in
        ebind (fill requested transferred) (\<lambda>chunk.
        ebind (encode_chunk lib d chunk) (\<lambda>record_bytes.
        ebind (send_chunks lib step check fill d (transferred + requested) (remaining - requested) (hashed @ chunk))
          (\<lambda>(rest, all). Inr (record_bytes @ rest, all)))))))"
  by pat_completeness auto
termination by (relation "measure (\<lambda>(lib, step, check, fill, d, t, remaining, h). remaining)") auto

definition send_payload ::
    "libs \<Rightarrow> nat \<Rightarrow> (nat \<Rightarrow> unit io_result) \<Rightarrow> (nat \<Rightarrow> nat \<Rightarrow> byte list io_result) \<Rightarrow> CompressionDecision \<Rightarrow>
     u64 \<Rightarrow> (byte list \<times> bool) io_result" where
  "send_payload lib buffer_len check fill d byte_count =
     (if buffer_len = 0 then Inl InvalidInput
      else
        ebind (write_mode d) (\<lambda>mode.
        ebind (send_chunks lib (min COMPRESSION_CHUNK_BYTES buffer_len) check fill d 0 (unat byte_count) [])
          (\<lambda>(records, hashed). Inr (mode @ records @ blake3 lib hashed, d = Compress))))"

text \<open>One step of the receiving loop: the next chunk of plain data.\<close>

definition next_chunk :: "libs \<Rightarrow> nat \<Rightarrow> CompressionDecision \<Rightarrow> nat \<Rightarrow> byte list reader" where
  "next_chunk lib buffer_len d remaining =
     (case d of
        SendRaw \<Rightarrow> read_exact (min remaining buffer_len)
      | Compress \<Rightarrow>
          rbind read_u32 (\<lambda>raw.
          rbind read_u32 (\<lambda>compressed.
          (let raw_length = unat raw; compressed_length = unat compressed in
          rbind (rguard (\<not> (raw_length = 0 \<or> raw_length > COMPRESSION_CHUNK_BYTES \<or> raw_length > buffer_len \<or>
                   raw_length > remaining)) InvalidData) (\<lambda>_.
          rbind (rguard (\<not> (compressed_length = 0 \<or> compressed_length > MAX_COMPRESSED_CHUNK_BYTES)) InvalidData) (\<lambda>_.
          rbind (read_exact compressed_length) (\<lambda>c.
          rbind (rlift (ok_or InvalidData (zstd_decompress_to lib c raw_length))) (\<lambda>chunk.
          rbind (rguard (length chunk = raw_length) InvalidData) (\<lambda>_. rret chunk)))))))))"

lemma next_chunk_length:
  assumes "next_chunk lib buf d remaining bs = Inr (chunk, bs')" "remaining \<noteq> 0" "buf \<noteq> 0"
  shows "0 < length chunk \<and> length chunk \<le> remaining"
  using assms
  by (cases d) (auto simp: next_chunk_def read_exact_Inr rbind_Inr rguard_Inr rlift_Inr Let_def)

text \<open>
  The receiving loop.  \<open>write_chunk\<close> is the destination: it takes a chunk, its position and the state of the
  destination, and may fail.
\<close>

function receive_chunks ::
    "libs \<Rightarrow> nat \<Rightarrow> (nat \<Rightarrow> unit io_result) \<Rightarrow> (byte list \<Rightarrow> nat \<Rightarrow> 's \<Rightarrow> unit io_result \<times> 's) \<Rightarrow> CompressionDecision \<Rightarrow>
     nat \<Rightarrow> nat \<Rightarrow> byte list \<Rightarrow> byte list \<Rightarrow> 's \<Rightarrow> (byte list \<times> byte list) io_result \<times> 's" where
  "receive_chunks lib buf check write_chunk d transferred remaining hashed bs s =
     (if remaining = 0 \<or> buf = 0 then (Inr (hashed, bs), s)
      else (case check transferred of Inl e \<Rightarrow> (Inl e, s)
        | Inr _ \<Rightarrow> (case next_chunk lib buf d remaining bs of Inl e \<Rightarrow> (Inl e, s)
          | Inr (chunk, bs') \<Rightarrow> (case write_chunk chunk transferred s of (Inl e, s') \<Rightarrow> (Inl e, s')
            | (Inr _, s') \<Rightarrow> receive_chunks lib buf check write_chunk d (transferred + length chunk)
                (remaining - length chunk) (hashed @ chunk) bs' s'))))"
  by pat_completeness auto
termination
proof (relation "measure (\<lambda>(lib, buf, check, w, d, t, remaining, h, bs, s). remaining)", goal_cases)
  case (2 lib buf check w d t remaining h bs s u r chunk bs' x u2 s')
  then show ?case using next_chunk_length [of lib buf d remaining bs chunk bs'] by auto
qed simp

definition receive_payload ::
    "libs \<Rightarrow> nat \<Rightarrow> (nat \<Rightarrow> unit io_result) \<Rightarrow> (byte list \<Rightarrow> nat \<Rightarrow> 's \<Rightarrow> unit io_result \<times> 's) \<Rightarrow>
     u64 \<Rightarrow> byte list \<Rightarrow> 's \<Rightarrow> (bool \<times> byte list) io_result \<times> 's" where
  "receive_payload lib buf check write_chunk byte_count bs s =
     (if buf = 0 then (Inl InvalidInput, s)
      else (case read_mode bs of Inl e \<Rightarrow> (Inl e, s)
        | Inr (d, bs1) \<Rightarrow>
            (case receive_chunks lib buf check write_chunk d 0 (unat byte_count) [] bs1 s of
               (Inl e, s') \<Rightarrow> (Inl e, s')
             | (Inr (hashed, bs2), s') \<Rightarrow>
                 (case read_digest bs2 of Inl e \<Rightarrow> (Inl e, s')
                  | Inr (expected, bs3) \<Rightarrow>
                      (case verify_digest (blake3 lib hashed) expected of Inl e \<Rightarrow> (Inl e, s')
                       | Inr _ \<Rightarrow> (Inr (d = Compress, bs3), s'))))))"

section \<open>Tiny packs\<close>

definition MAX_TINY_PACK_BYTES :: nat where "MAX_TINY_PACK_BYTES = 8 * 1024 * 1024"
definition MAX_TINY_PACK_WIRE_BYTES :: nat where "MAX_TINY_PACK_WIRE_BYTES = MAX_TINY_PACK_BYTES * 2"
definition MIN_SAVINGS_PERCENT :: nat where "MIN_SAVINGS_PERCENT = 10"

text \<open>Widened to \<^verbatim>\<open>u128\<close>, the products cannot wrap.\<close>

definition should_compress_sizes :: "nat \<Rightarrow> nat \<Rightarrow> bool" where
  "should_compress_sizes raw_bytes compressed_bytes =
     (if raw_bytes = 0 then False else compressed_bytes * 100 \<le> raw_bytes * (100 - MIN_SAVINGS_PERCENT))"

datatype TinyPackEncoding = PackRaw | PackZstandard

fun wire_value :: "TinyPackEncoding \<Rightarrow> u8" where
  "wire_value PackRaw = MODE_RAW"
| "wire_value PackZstandard = MODE_ZSTD"

definition from_wire :: "u8 \<Rightarrow> TinyPackEncoding io_result" where
  "from_wire v = (if v = MODE_RAW then Inr PackRaw else if v = MODE_ZSTD then Inr PackZstandard else Inl InvalidData)"

definition validate_logical_size :: "nat \<Rightarrow> unit io_result" where
  "validate_logical_size bytes = (if bytes > MAX_TINY_PACK_BYTES then Inl InvalidInput else Inr ())"

definition validate_wire_size :: "nat \<Rightarrow> unit io_result" where
  "validate_wire_size bytes = (if bytes > MAX_TINY_PACK_WIRE_BYTES then Inl InvalidData else Inr ())"

text \<open>\<^verbatim>\<open>encode\<close> with the payload \<^verbatim>\<open>wire_payload\<close> selects; the default level is in the range of the library.\<close>

definition encode_pack :: "libs \<Rightarrow> byte list \<Rightarrow> (TinyPackEncoding \<times> byte list) io_result" where
  "encode_pack lib raw =
     ebind (validate_logical_size (length raw)) (\<lambda>_.
       if raw = [] then Inr (PackRaw, raw)
       else
         ebind (ok_or OtherError (zstd_compress lib raw)) (\<lambda>c.
         ebind (validate_wire_size (length c)) (\<lambda>_.
           if should_compress_sizes (length raw) (length c) then Inr (PackZstandard, c) else Inr (PackRaw, raw))))"

definition decode_pack :: "libs \<Rightarrow> nat \<Rightarrow> TinyPackEncoding \<Rightarrow> byte list \<Rightarrow> nat \<Rightarrow> byte list io_result" where
  "decode_pack lib buffer_len encoding wire expected =
     ebind (validate_logical_size expected) (\<lambda>_.
     ebind (validate_wire_size (length wire)) (\<lambda>_.
       if expected > buffer_len then Inl InvalidInput
       else (case encoding of
           PackRaw \<Rightarrow> if length wire \<noteq> expected then Inl InvalidData else Inr wire
         | PackZstandard \<Rightarrow>
             if wire = [] then Inl InvalidData
             else ebind (ok_or InvalidData (zstd_decompress_to lib wire expected)) (\<lambda>raw.
               if length raw \<noteq> expected then Inl InvalidData else Inr raw))))"

declare send_chunks.simps [simp del] receive_chunks.simps [simp del]

section \<open>Positional writes\<close>

text \<open>\<^verbatim>\<open>write_all_at\<close> on the contents of a file: a write beyond the end first extends the file with zeros.\<close>

definition write_all_at :: "byte list \<Rightarrow> nat \<Rightarrow> byte list \<Rightarrow> byte list" where
  "write_all_at contents offset chunk =
     (if chunk = [] then contents
      else take offset (contents @ replicate (offset - length contents) 0) @ chunk @ drop (offset + length chunk) contents)"

definition read_exact_at :: "byte list \<Rightarrow> nat \<Rightarrow> nat \<Rightarrow> byte list io_result" where
  "read_exact_at contents offset n =
     (if length contents < offset + n \<and> n \<noteq> 0 then Inl UnexpectedEof else Inr (take n (drop offset contents)))"

lemma write_all_at_nil [simp]: "write_all_at xs t [] = xs"
  by (simp add: write_all_at_def)

lemma write_all_at_append: "write_all_at (write_all_at xs t a) (t + length a) b = write_all_at xs t (a @ b)"
  by (cases "t \<le> length xs") (auto simp: write_all_at_def ac_simps min_def)

lemma length_write_all_at:
  "t + length a \<le> length xs \<Longrightarrow> length (write_all_at xs t a) = length xs"
  by (simp add: write_all_at_def)

section \<open>Destinations of a payload\<close>

locale payload_sink =
  fixes write_chunk :: "byte list \<Rightarrow> nat \<Rightarrow> 's \<Rightarrow> unit io_result \<times> 's"
    and put :: "nat \<Rightarrow> byte list \<Rightarrow> 's \<Rightarrow> 's"
    and ready :: "'s \<Rightarrow> bool"
  assumes write_ready: "ready s \<Longrightarrow> write_chunk c t s = (Inr (), put t c s)"
    and ready_put: "ready s \<Longrightarrow> ready (put t c s)"
    and put_nil: "ready s \<Longrightarrow> put t [] s = s"
    and put_append: "ready s \<Longrightarrow> put (t + length a) b (put t a s) = put t (a @ b) s"
begin

lemma receive_raw:
  "buf \<noteq> 0 \<Longrightarrow> \<forall>t. check t = Inr () \<Longrightarrow> ready s \<Longrightarrow>
   receive_chunks lib buf check write_chunk SendRaw t (length data) h (data @ rest) s =
     (Inr (h @ data, rest), put t data s)"
proof (induction data arbitrary: t h s rule: length_induct)
  case (1 data)
  show ?case
  proof (cases "data = []")
    case True
    then show ?thesis using put_nil [OF 1(4)] by (simp add: receive_chunks.simps)
  next
    case False
    define n where "n = min (length data) buf"
    have n: "0 < n" "n \<le> length data" using False 1(2) by (auto simp: n_def)
    have split: "data = take n data @ drop n data" by simp
    have "read_exact n (data @ rest) = Inr (take n data, drop n data @ rest)"
      using read_exact_append [of "take n data" n "drop n data @ rest"] n(2)
      by (metis append.assoc append_take_drop_id length_take min.absorb2)
    then have chunk: "next_chunk lib buf SendRaw (length data) (data @ rest) = Inr (take n data, drop n data @ rest)"
      by (simp add: next_chunk_def n_def)
    have "receive_chunks lib buf check write_chunk SendRaw (t + n) (length (drop n data)) (h @ take n data)
        (drop n data @ rest) (put t (take n data) s) =
      (Inr ((h @ take n data) @ drop n data, rest), put (t + n) (drop n data) (put t (take n data) s))"
      using n 1(2,3) ready_put [OF 1(4)] by (intro 1(1) [rule_format]) auto
    moreover have "put (t + n) (drop n data) (put t (take n data) s) = put t data s"
      using put_append [OF 1(4), of t "take n data" "drop n data"] n(2) by simp
    ultimately show ?thesis
      using n 1(2,3) False write_ready [OF 1(4), of "take n data" t]
      unfolding receive_chunks.simps [of lib buf check write_chunk SendRaw t "length data"] by (simp add: chunk min_absorb2)
  qed
qed

lemma receive_compressed:
  "send_chunks lib step check fill Compress t remaining h = Inr (bs, all) \<Longrightarrow> libs_ok lib \<Longrightarrow>
   \<forall>n p c. fill n p = Inr c \<longrightarrow> length c = n \<Longrightarrow> step \<noteq> 0 \<Longrightarrow> step \<le> buf \<Longrightarrow> step \<le> COMPRESSION_CHUNK_BYTES \<Longrightarrow>
   \<forall>p. check' p = Inr () \<Longrightarrow> ready s \<Longrightarrow>
   \<exists>data. all = h @ data \<and> length data = remaining \<and>
     receive_chunks lib buf check' write_chunk Compress t remaining h (bs @ rest) s = (Inr (all, rest), put t data s)"
proof (induction remaining arbitrary: t h bs s rule: less_induct)
  case (less remaining)
  show ?case
  proof (cases "remaining = 0")
    case True
    then show ?thesis using less.prems(1) put_nil [OF less.prems(8)]
      by (auto simp: send_chunks.simps receive_chunks.simps)
  next
    case False
    define n where "n = min remaining step"
    have n: "0 < n" "n \<le> remaining" "n \<le> buf" "n \<le> COMPRESSION_CHUNK_BYTES"
      using False less.prems(4-6) by (auto simp: n_def)
    note unfold_send = send_chunks.simps [of lib step check fill Compress t remaining h]
    from less.prems(1) [unfolded unfold_send] False less.prems(4) obtain chunk c bs' where
        chunk: "fill n t = Inr chunk" and c: "zstd_compress_to lib chunk MAX_COMPRESSED_CHUNK_BYTES = Some c"
      and bs: "bs = to_be_bytes (of_nat (length chunk) :: u32) @ to_be_bytes (of_nat (length c) :: u32) @ c @ bs'"
      and sizes: "length chunk < 2 ^ 32" "length c < 2 ^ 32"
      and rest: "send_chunks lib step check fill Compress (t + n) (remaining - n) (h @ chunk) = Inr (bs', all)"
      by (auto simp: ebind_Inr ok_or_Inr encode_chunk_def word_try_from_def write_u32_def Let_def n_def split: if_splits)
    have len: "length chunk = n" using less.prems(3) chunk by blast
    have z: "c \<noteq> []" "length c \<le> MAX_COMPRESSED_CHUNK_BYTES" "zstd_decompress_to lib c n = Some chunk"
      using less.prems(2) c len by (auto simp: libs_ok_def)
    have u: "unat (of_nat n :: u32) = n" "unat (of_nat (length c) :: u32) = length c"
      using sizes len by (auto intro: unat_of_nat_small)
    have next_eq: "next_chunk lib buf Compress remaining (bs @ rest) = Inr (chunk, bs' @ rest)"
      using n z by (simp add: next_chunk_def bs len read_u32_def rbind_eq read_be_simps u Let_def read_exact_append)
    have "remaining - n < remaining" using n False by simp
    from less.IH [OF this rest less.prems(2-7) ready_put [OF less.prems(8), of t chunk]]
    obtain data where d: "all = (h @ chunk) @ data" "length data = remaining - n"
      "receive_chunks lib buf check' write_chunk Compress (t + n) (remaining - n) (h @ chunk) (bs' @ rest) (put t chunk s) =
        (Inr (all, rest), put (t + n) data (put t chunk s))" by auto
    have "put (t + n) data (put t chunk s) = put t (chunk @ data) s"
      using put_append [OF less.prems(8), of t chunk data] len by simp
    then have "receive_chunks lib buf check' write_chunk Compress t remaining h (bs @ rest) s =
        (Inr (all, rest), put t (chunk @ data) s)"
      using n False d(3) next_eq write_ready [OF less.prems(8), of chunk t] less.prems(7)
      unfolding receive_chunks.simps [of lib buf check' write_chunk Compress t remaining] by (simp add: len)
    then show ?thesis using d len n by (intro exI [of _ "chunk @ data"]) simp
  qed
qed

end

lemma send_chunks_raw:
  "send_chunks lib step check fill SendRaw t remaining h = Inr (bs, all) \<Longrightarrow> step \<noteq> 0 \<Longrightarrow>
   \<forall>n p c. fill n p = Inr c \<longrightarrow> length c = n \<Longrightarrow> all = h @ bs \<and> length bs = remaining"
proof (induction remaining arbitrary: t h bs rule: less_induct)
  case (less remaining)
  note u = send_chunks.simps [of lib step check fill SendRaw t remaining h]
  show ?case
  proof (cases "remaining = 0")
    case True
    then show ?thesis using less.prems(1) [unfolded u] by auto
  next
    case False
    define n where "n = min remaining step"
    from less.prems(1) [unfolded u] False less.prems(2) obtain chunk bs' where chunk: "fill n t = Inr chunk" "bs = chunk @ bs'"
      and rest: "send_chunks lib step check fill SendRaw (t + n) (remaining - n) (h @ chunk) = Inr (bs', all)"
      by (auto simp: ebind_Inr encode_chunk_def Let_def n_def)
    have "length chunk = n" using less.prems(3) chunk by blast
    moreover have "0 < n" "n \<le> remaining" using False less.prems(2) by (auto simp: n_def)
    ultimately show ?thesis using less.IH [OF _ rest less.prems(2,3)] chunk(2) by simp
  qed
qed

text \<open>What the sender hashes is the range of the source it was asked to send.\<close>

lemma send_chunks_range:
  "send_chunks lib step check (\<lambda>n p. read_exact_at contents (off + p) n) d t remaining h = Inr (bs, all) \<Longrightarrow> step \<noteq> 0 \<Longrightarrow>
   all = h @ take remaining (drop (off + t) contents) \<and> (remaining = 0 \<or> off + t + remaining \<le> length contents)"
proof (induction remaining arbitrary: t h bs rule: less_induct)
  case (less remaining)
  let ?fill = "\<lambda>n p. read_exact_at contents (off + p) n"
  note u = send_chunks.simps [of lib step check ?fill d t remaining h]
  show ?case
  proof (cases "remaining = 0")
    case True
    then show ?thesis using less.prems(1) [unfolded u] by auto
  next
    case False
    define n where "n = min remaining step"
    from less.prems(1) [unfolded u] False less.prems(2) obtain chunk bs' where chunk: "read_exact_at contents (off + t) n = Inr chunk"
      and rest: "send_chunks lib step check ?fill d (t + n) (remaining - n) (h @ chunk) = Inr (bs', all)"
      by (auto simp: ebind_Inr Let_def n_def)
    have n: "0 < n" "n \<le> remaining" using False less.prems(2) by (auto simp: n_def)
    have c: "chunk = take n (drop (off + t) contents)" "off + t + n \<le> length contents"
      using chunk n by (auto simp: read_exact_at_def split: if_splits)
    have IH: "all = (h @ chunk) @ take (remaining - n) (drop (off + (t + n)) contents)"
      "remaining - n = 0 \<or> off + (t + n) + (remaining - n) \<le> length contents"
      using less.IH [OF _ rest less.prems(2)] n by auto
    have "take remaining (drop (off + t) contents) = chunk @ take (remaining - n) (drop (off + (t + n)) contents)"
      using take_add [of n "remaining - n" "drop (off + t) contents"] n c(1) by (simp add: ac_simps)
    then show ?thesis using IH c(2) n by auto
  qed
qed

lemma read_exact_at_length: "read_exact_at contents p n = Inr c \<Longrightarrow> length c = n"
  by (auto simp: read_exact_at_def split: if_splits)

context payload_sink
begin

lemma payload_received:
  assumes "send_payload lib b1 check (\<lambda>n p. read_exact_at contents (off + p) n) d k = Inr (bs, packed)" "libs_ok lib"
    and "min COMPRESSION_CHUNK_BYTES b1 \<le> b2" "\<forall>p. check' p = Inr ()" "ready s"
  shows "receive_payload lib b2 check' write_chunk k (bs @ rest) s =
      (Inr (packed, rest), put 0 (take (unat k) (drop off contents)) s)"
    and "k = 0 \<or> off + unat k \<le> length contents" and "packed = (d = Compress)"
proof -
  let ?step = "min COMPRESSION_CHUNK_BYTES b1" and ?fill = "\<lambda>n p. read_exact_at contents (off + p) n"
  from assms(1) obtain body all where b1: "b1 \<noteq> 0" and body: "send_chunks lib ?step check ?fill d 0 (unat k) [] = Inr (body, all)"
    and bs: "bs = to_be_bytes (case d of SendRaw \<Rightarrow> MODE_RAW | Compress \<Rightarrow> MODE_ZSTD) @ body @ blake3 lib all"
    and packed: "packed = (d = Compress)"
    by (auto simp: send_payload_def ebind_Inr write_mode_def write_u8_def split: if_splits)
  have step: "?step \<noteq> 0" using b1 by (simp add: COMPRESSION_CHUNK_BYTES_def)
  have exact: "\<forall>n p c. ?fill n p = Inr c \<longrightarrow> length c = n" using read_exact_at_length by blast
  have all: "all = take (unat k) (drop off contents)" and le: "unat k = 0 \<or> off + unat k \<le> length contents"
    using send_chunks_range [OF body step] by auto
  show "k = 0 \<or> off + unat k \<le> length contents" using le by (simp add: unat_eq_zero)
  show "packed = (d = Compress)" by (rule packed)
  have b2: "b2 \<noteq> 0" using step assms(3) by (metis le_zero_eq)
  have received: "receive_chunks lib b2 check' write_chunk d 0 (unat k) [] (body @ x) s = (Inr (all, x), put 0 all s)" for x
  proof (cases d)
    case SendRaw
    then show ?thesis
      using send_chunks_raw [of lib ?step check ?fill 0 "unat k" "[]" body all] body step exact
        receive_raw [OF b2 assms(4,5), of lib 0 all "[]" x] by auto
  next
    case Compress
    from receive_compressed [of lib ?step check ?fill 0 "unat k" "[]" body all b2 check' s x] body
    show ?thesis using Compress assms(2-5) exact step by auto
  qed
  have "read_mode (bs @ rest) = Inr (d, body @ blake3 lib all @ rest)"
    by (cases d) (simp_all add: bs read_mode_def read_u8_def rbind_eq read_be_simps MODE_RAW_def MODE_ZSTD_def del: to_be_bytes_u8)
  moreover have "read_digest (blake3 lib all @ rest) = Inr (blake3 lib all, rest)"
    using assms(2) by (simp add: read_digest_def read_exact_append libs_ok_def)
  ultimately show "receive_payload lib b2 check' write_chunk k (bs @ rest) s =
      (Inr (packed, rest), put 0 (take (unat k) (drop off contents)) s)"
    using received b2 by (simp add: receive_payload_def verify_digest_def packed all)
qed

end

text \<open>The contents of a file, written at successive positions from an offset on; the range written ends at a 64-bit position, so no position overflows.\<close>

definition write_chunk_at :: "nat \<Rightarrow> byte list \<Rightarrow> nat \<Rightarrow> byte list \<Rightarrow> unit io_result \<times> byte list" where
  "write_chunk_at offset chunk transferred contents = (Inr (), write_all_at contents (offset + transferred) chunk)"

interpretation file_sink: payload_sink "write_chunk_at offset" "\<lambda>t c xs. write_all_at xs (offset + t) c" "\<lambda>_. True"
  for offset
  by unfold_locales (simp_all add: write_chunk_at_def write_all_at_append add.assoc [symmetric])

lemma decode_encoded_pack:
  assumes "libs_ok lib" "encode_pack lib raw = Inr (enc, wire)" "length raw \<le> buffer_len"
  shows "decode_pack lib buffer_len enc wire (length raw) = Inr raw" and "length wire \<le> MAX_TINY_PACK_WIRE_BYTES"
    and "length raw \<le> MAX_TINY_PACK_BYTES"
proof -
  have small: "length raw \<le> MAX_TINY_PACK_BYTES"
    using assms(2) by (auto simp: encode_pack_def validate_logical_size_def ebind_Inr split: if_splits)
  then show "length raw \<le> MAX_TINY_PACK_BYTES" .
  have cases: "enc = PackRaw \<and> wire = raw \<or>
      enc = PackZstandard \<and> zstd_compress lib raw = Some wire \<and> length wire \<le> MAX_TINY_PACK_WIRE_BYTES"
    using assms(2) by (auto simp: encode_pack_def ebind_Inr ok_or_Inr validate_wire_size_def split: if_splits)
  with small show wire: "length wire \<le> MAX_TINY_PACK_WIRE_BYTES" by (auto simp: MAX_TINY_PACK_WIRE_BYTES_def)
  show "decode_pack lib buffer_len enc wire (length raw) = Inr raw"
    using cases small wire assms(1,3)
    by (auto simp: decode_pack_def validate_logical_size_def validate_wire_size_def libs_ok_def)
qed

section \<open>Whatever is accepted was verified\<close>

text \<open>The chunks a destination was given, one after the other.\<close>

fun deliver :: "(byte list \<Rightarrow> nat \<Rightarrow> 's \<Rightarrow> unit io_result \<times> 's) \<Rightarrow> nat \<Rightarrow> byte list list \<Rightarrow> 's \<Rightarrow> unit io_result \<times> 's" where
  "deliver w t [] s = (Inr (), s)"
| "deliver w t (c # cs) s = (case w c t s of (Inl e, s') \<Rightarrow> (Inl e, s') | (Inr _, s') \<Rightarrow> deliver w (t + length c) cs s')"

lemma receive_chunks_delivers:
  "receive_chunks lib buf check w d t remaining h bs s = (Inr (all, rest), s') \<Longrightarrow> buf \<noteq> 0 \<Longrightarrow>
   \<exists>cs used. all = h @ concat cs \<and> length (concat cs) = remaining \<and> bs = used @ rest \<and> deliver w t cs s = (Inr (), s')"
proof (induction remaining arbitrary: t h bs s rule: less_induct)
  case (less remaining)
  note u = receive_chunks.simps [of lib buf check w d t remaining h bs s]
  show ?case
  proof (cases "remaining = 0")
    case True
    then show ?thesis using less.prems(1) [unfolded u]
      by (intro exI [of _ "[]"] exI [of _ "[]"]) simp
  next
    case False
    from less.prems(1) [unfolded u] False less.prems(2) obtain chunk bs' s1 where
        chunk: "next_chunk lib buf d remaining bs = Inr (chunk, bs')" and s1: "w chunk t s = (Inr (), s1)"
      and rest: "receive_chunks lib buf check w d (t + length chunk) (remaining - length chunk) (h @ chunk) bs' s1 =
        (Inr (all, rest), s')"
      by (auto split: sum.splits prod.splits)
    have len: "0 < length chunk" "length chunk \<le> remaining" using next_chunk_length [OF chunk False less.prems(2)] by auto
    then have "remaining - length chunk < remaining" by linarith
    from less.IH [OF this rest less.prems(2)] obtain cs used where
      cs: "all = (h @ chunk) @ concat cs" "length (concat cs) = remaining - length chunk" "bs' = used @ rest"
        "deliver w (t + length chunk) cs s1 = (Inr (), s')" by blast
    obtain front where "bs = front @ bs'"
      using chunk by (cases d) (auto simp: next_chunk_def read_exact_Inr rbind_Inr rguard_Inr rlift_Inr Let_def read_u32_def read_be_iffs)
    with cs len s1 show ?thesis by (intro exI [of _ "chunk # cs"] exI [of _ "front @ used"]) simp
  qed
qed

definition identity_libs :: libs where
  "identity_libs = \<lparr>blake3 = (\<lambda>bs. take 32 (bs @ replicate 32 0)), zstd_compress_to = (\<lambda>raw cap. if raw = [] \<or> cap < length raw then None else Some raw),
     zstd_compress = (\<lambda>raw. if raw = [] then None else Some raw),
     zstd_decompress_to = (\<lambda>c cap. if length c \<le> cap then Some c else None)\<rparr>"

lemma identity_libs_ok: "libs_ok identity_libs"
  by (auto simp: libs_ok_def identity_libs_def CONTENT_DIGEST_BYTES_def split: if_splits)

text \<open>A file or stripe arrives as it was read.  Whatever range of the source the sender sends, raw or compressed,
  with whatever buffer, the receiver, whose buffer holds at least one chunk of the sender, consumes exactly the
  bytes of the payload, writes that range of the source at the offset of the range and leaves every other byte of its
  file as it was.\<close>

lemma payload_delivered:
  assumes "libs_ok lib"
    "send_payload lib b1 check (\<lambda>n p. read_exact_at source (off + p) n) d k = Inr (bs, packed)"
    "min COMPRESSION_CHUNK_BYTES b1 \<le> b2" "\<forall>p. check' p = Inr ()"
  shows "receive_payload lib b2 check' (write_chunk_at off) k (bs @ rest) target =
    (Inr (packed, rest), write_all_at target off (take (unat k) (drop off source)))"
  using file_sink.payload_received(1) [OF assms(2,1,3,4) TrueI, of off] by simp

text \<open>No payload is accepted without its digest.  Whatever bytes arrive and whatever the destination does with
  the chunks it is given, when the receiver accepts a payload, the destination took all of its chunks one after
  the other, they have the announced length, and the stream carried the digest of exactly these bytes.\<close>

lemma payload_verified:
  assumes "receive_payload lib buf check w k bs s = (Inr (packed, rest), s')"
  shows "\<exists>cs used. deliver w 0 cs s = (Inr (), s') \<and> length (concat cs) = unat k \<and> bs = used @ blake3 lib (concat cs) @ rest"
proof -
  have buf: "buf \<noteq> 0" using assms by (cases "buf = 0") (simp_all add: receive_payload_def)
  from assms buf obtain d b1 all b2 where mode: "read_mode bs = Inr (d, b1)"
    and r: "receive_chunks lib buf check w d 0 (unat k) [] b1 s = (Inr (all, b2), s')"
    and dg: "read_digest b2 = Inr (blake3 lib all, rest)"
    by (auto simp: receive_payload_def verify_digest_def split: sum.splits prod.splits if_splits)
  from receive_chunks_delivers [OF r buf] obtain cs used where
    "all = concat cs" "length (concat cs) = unat k" "b1 = used @ b2" "deliver w 0 cs s = (Inr (), s')" by auto
  moreover obtain m where "bs = m @ b1"
    using mode by (auto simp: read_mode_def read_u8_def rbind_Inr read_be_iffs split: if_splits)
  moreover have "b2 = blake3 lib all @ rest" using dg by (simp add: read_digest_def read_exact_Inr)
  ultimately show ?thesis by (intro exI [of _ cs] exI [of _ "m @ used"]) simp
qed

end
