(* ===== verification/File_System.thy ===== *)
theory File_System
  imports Payload_Codec "HOL-Library.Finite_Map"
begin

text \<open>
  The destination directory as the receiver uses it: the operations of \<^verbatim>\<open>std::fs\<close> the engine calls, with
  failures, and the helpers of \<^verbatim>\<open>src/multistream_copy.rs\<close>, \<^verbatim>\<open>src/file_metadata.rs\<close> and
  \<^verbatim>\<open>src/windows_file_replace.rs\<close> built on them.  Paths are compared by their components.  The locale
  \<open>fs_frame\<close> gives the rules for what an operation may change, whatever fails.
\<close>

unbundle bit_operations_syntax

section \<open>Nodes\<close>

type_synonym fpath = "path_component list"

text \<open>A reparse point carries its own attributes and what it resolves to, if anything.\<close>

datatype node =
    DirNode u32
  | FileNode "byte list" u64 u32
  | ReparseNode u32 "node option"

fun resolve :: "node \<Rightarrow> node option" where
  "resolve (ReparseNode _ target) = (case target of None \<Rightarrow> None | Some n \<Rightarrow> resolve n)"
| "resolve n = Some n"

definition FILE_ATTRIBUTE_REPARSE_POINT :: u32 where "FILE_ATTRIBUTE_REPARSE_POINT = 0x400"
definition FILE_ATTRIBUTE_ARCHIVE :: u32 where "FILE_ATTRIBUTE_ARCHIVE = 0x20"
definition FILE_ATTRIBUTE_NORMAL :: u32 where "FILE_ATTRIBUTE_NORMAL = 0x80"

text \<open>\<^verbatim>\<open>Metadata\<close> of a node: the checks the code makes on it.\<close>

fun is_file :: "node \<Rightarrow> bool" where
  "is_file (FileNode _ _ _) = True"
| "is_file _ = False"

fun is_dir :: "node \<Rightarrow> bool" where
  "is_dir (DirNode _) = True"
| "is_dir _ = False"

fun node_len :: "node \<Rightarrow> u64" where
  "node_len (FileNode c _ _) = of_nat (length c)"
| "node_len _ = 0"

fun node_time :: "node \<Rightarrow> u64" where
  "node_time (FileNode _ t _) = t"
| "node_time _ = 0"

fun node_attributes :: "node \<Rightarrow> u32" where
  "node_attributes (FileNode _ _ a) = a"
| "node_attributes (DirNode a) = a"
| "node_attributes (ReparseNode a _) = a"

fun node_contents :: "node \<Rightarrow> byte list" where
  "node_contents (FileNode c _ _) = c"
| "node_contents _ = []"

definition is_reparse :: "node \<Rightarrow> bool" where
  "is_reparse n \<longleftrightarrow> node_attributes n AND FILE_ATTRIBUTE_REPARSE_POINT \<noteq> 0"

section \<open>The destination directory and its operations\<close>

text \<open>
  \<open>nodes\<close> is the tree below the destination root, by the components of a path.  Every call to the operating
  system may fail: \<open>faults\<close> lists, for the calls to come, the error and, for a write, how many bytes
  reached the file before it; past the end of the list no call fails on its own.  \<open>clock\<close> is the
  time stamp of a new file and \<open>journal_dir\<close> the resume journal beside the tree.
\<close>

record fs =
  nodes :: "(fpath, node) fmap"
  faults :: "(error_kind \<times> nat) option list"
  clock :: u64
  journal_dir :: JournalDir

type_synonym 'a fsm = "fs \<Rightarrow> 'a io_result \<times> fs"

definition fret :: "'a \<Rightarrow> 'a fsm" where "fret a s = (Inr a, s)"
definition ffail :: "error_kind \<Rightarrow> 'a fsm" where "ffail e s = (Inl e, s)"
definition flift :: "'a io_result \<Rightarrow> 'a fsm" where "flift r s = (r, s)"

definition fbind :: "'a fsm \<Rightarrow> ('a \<Rightarrow> 'b fsm) \<Rightarrow> 'b fsm" where
  "fbind m f s = (case m s of (Inl e, s') \<Rightarrow> (Inl e, s') | (Inr a, s') \<Rightarrow> f a s')"

definition fguard :: "bool \<Rightarrow> error_kind \<Rightarrow> unit fsm" where
  "fguard c e = (if c then fret () else ffail e)"

text \<open>Run \<open>m\<close>; when it fails, run \<open>cleanup\<close>, ignore what it returns, and fail with the first error.\<close>

definition on_error :: "'a fsm \<Rightarrow> unit fsm \<Rightarrow> 'a fsm" where
  "on_error m cleanup s = (case m s of (Inl e, s') \<Rightarrow> (Inl e, snd (cleanup s')) | (Inr a, s') \<Rightarrow> (Inr a, s'))"

fun fmapM :: "('a \<Rightarrow> unit fsm) \<Rightarrow> 'a list \<Rightarrow> unit fsm" where
  "fmapM f [] = fret ()"
| "fmapM f (x # xs) = fbind (f x) (\<lambda>_. fmapM f xs)"

text \<open>The next operating-system call: its error, if it fails, with the number of bytes written before it.\<close>

definition next_fault :: "fs \<Rightarrow> (error_kind \<times> nat) option \<times> fs" where
  "next_fault s = (case faults s of [] \<Rightarrow> (None, s) | f # fs' \<Rightarrow> (f, s\<lparr>faults := fs'\<rparr>))"

definition syscall :: "'a fsm \<Rightarrow> 'a fsm" where
  "syscall m s = (case next_fault s of (Some (e, _), s') \<Rightarrow> (Inl e, s') | (None, s') \<Rightarrow> m s')"

definition symlink_metadata :: "fpath \<Rightarrow> node fsm" where
  "symlink_metadata p = syscall (\<lambda>s. (ok_or NotFound (fmlookup (nodes s) p), s))"

definition fs_metadata :: "fpath \<Rightarrow> node fsm" where
  "fs_metadata p = syscall (\<lambda>s. (ok_or NotFound (Option.bind (fmlookup (nodes s) p) resolve), s))"

definition try_exists :: "fpath \<Rightarrow> bool fsm" where
  "try_exists p = syscall (\<lambda>s. (Inr (Option.bind (fmlookup (nodes s) p) resolve \<noteq> None), s))"

text \<open>The directory a file is created in must exist; the root itself does.\<close>

definition parent_exists :: "fs \<Rightarrow> fpath \<Rightarrow> bool" where
  "parent_exists s p =
     (butlast p = [] \<or> (case Option.bind (fmlookup (nodes s) (butlast p)) resolve of None \<Rightarrow> False | Some n \<Rightarrow> is_dir n))"

definition create_new :: "fpath \<Rightarrow> unit fsm" where
  "create_new p = syscall (\<lambda>s.
     if fmlookup (nodes s) p \<noteq> None then (Inl AlreadyExists, s)
     else if \<not> parent_exists s p then (Inl NotFound, s)
     else (Inr (), s\<lparr>nodes := fmupd p (FileNode [] (clock s) FILE_ATTRIBUTE_ARCHIVE) (nodes s)\<rparr>))"

text \<open>The file a handle refers to; only regular files are opened for writing.\<close>

fun update_node :: "(byte list \<Rightarrow> byte list) \<Rightarrow> node \<Rightarrow> node io_result" where
  "update_node f (FileNode c t a) = Inr (FileNode (f c) t a)"
| "update_node f (DirNode a) = Inl PermissionDenied"
| "update_node f (ReparseNode a target) =
     (case target of None \<Rightarrow> Inl NotFound | Some n \<Rightarrow> ebind (update_node f n) (\<lambda>n'. Inr (ReparseNode a (Some n'))))"

definition update_file :: "fpath \<Rightarrow> (byte list \<Rightarrow> byte list) \<Rightarrow> unit fsm" where
  "update_file p f s =
     (case fmlookup (nodes s) p of
        None \<Rightarrow> (Inl NotFound, s)
      | Some n \<Rightarrow> (case update_node f n of Inl e \<Rightarrow> (Inl e, s) | Inr n' \<Rightarrow> (Inr (), s\<lparr>nodes := fmupd p n' (nodes s)\<rparr>)))"

definition open_for_write :: "fpath \<Rightarrow> unit fsm" where
  "open_for_write p = syscall (update_file p id)"

definition set_len :: "fpath \<Rightarrow> nat \<Rightarrow> unit fsm" where
  "set_len p n = syscall (update_file p (\<lambda>c. take n c @ replicate (n - length c) 0))"

text \<open>A write that fails has written some of the bytes.\<close>

definition write_file_at :: "fpath \<Rightarrow> nat \<Rightarrow> byte list \<Rightarrow> unit fsm" where
  "write_file_at p offset chunk s =
     (case next_fault s of
        (Some (e, k), s') \<Rightarrow> (Inl e, snd (update_file p (\<lambda>c. write_all_at c offset (take k chunk)) s'))
      | (None, s') \<Rightarrow> update_file p (\<lambda>c. write_all_at c offset chunk) s')"

definition sync_all :: "fpath \<Rightarrow> unit fsm" where
  "sync_all p = syscall (fret ())"

definition fs_remove_file :: "fpath \<Rightarrow> unit fsm" where
  "fs_remove_file p = syscall (\<lambda>s.
     (case fmlookup (nodes s) p of
        None \<Rightarrow> (Inl NotFound, s)
      | Some (DirNode _) \<Rightarrow> (Inl PermissionDenied, s)
      | Some _ \<Rightarrow> (Inr (), s\<lparr>nodes := fmdrop p (nodes s)\<rparr>)))"

text \<open>\<^verbatim>\<open>MoveFileExW\<close> with \<^verbatim>\<open>MOVEFILE_REPLACE_EXISTING\<close>: a directory is not replaced.\<close>

definition replace :: "fpath \<Rightarrow> fpath \<Rightarrow> unit fsm" where
  "replace source destination = syscall (\<lambda>s.
     (case fmlookup (nodes s) source of
        None \<Rightarrow> (Inl NotFound, s)
      | Some n \<Rightarrow>
          if \<not> parent_exists s destination then (Inl NotFound, s)
          else if (case fmlookup (nodes s) destination of Some (DirNode _) \<Rightarrow> True | _ \<Rightarrow> False) then (Inl PermissionDenied, s)
          else (Inr (), s\<lparr>nodes := fmupd destination n (fmdrop source (nodes s))\<rparr>)))"

definition fs_copy :: "fpath \<Rightarrow> fpath \<Rightarrow> u64 fsm" where
  "fs_copy source destination = syscall (\<lambda>s.
     (case Option.bind (fmlookup (nodes s) source) resolve of
        Some (FileNode c t a) \<Rightarrow>
          if \<not> parent_exists s destination then (Inl NotFound, s)
          else if (case fmlookup (nodes s) destination of Some (DirNode _) \<Rightarrow> True | _ \<Rightarrow> False) then (Inl PermissionDenied, s)
          else (Inr (of_nat (length c)), s\<lparr>nodes := fmupd destination (FileNode c t a) (nodes s)\<rparr>)
      | Some _ \<Rightarrow> (Inl InvalidInput, s)
      | None \<Rightarrow> (Inl NotFound, s)))"

definition read_contents :: "fpath \<Rightarrow> byte list fsm" where
  "read_contents p = syscall (\<lambda>s.
     (case Option.bind (fmlookup (nodes s) p) resolve of
        Some (FileNode c _ _) \<Rightarrow> (Inr c, s)
      | Some _ \<Rightarrow> (Inl PermissionDenied, s)
      | None \<Rightarrow> (Inl NotFound, s)))"

definition create_dir :: "fpath \<Rightarrow> unit fsm" where
  "create_dir p = syscall (\<lambda>s.
     if fmlookup (nodes s) p \<noteq> None then (Inl AlreadyExists, s)
     else if \<not> parent_exists s p then (Inl NotFound, s)
     else (Inr (), s\<lparr>nodes := fmupd p (DirNode 0x10) (nodes s)\<rparr>))"

text \<open>\<^verbatim>\<open>create_dir_all\<close>: every missing ancestor, from the top; an existing directory is accepted.\<close>

definition ensure_dir :: "fpath \<Rightarrow> unit fsm" where
  "ensure_dir p = syscall (\<lambda>s.
     (case fmlookup (nodes s) p of
        None \<Rightarrow> if \<not> parent_exists s p then (Inl NotFound, s)
                else (Inr (), s\<lparr>nodes := fmupd p (DirNode 0x10) (nodes s)\<rparr>)
      | Some n \<Rightarrow> (case resolve n of Some (DirNode _) \<Rightarrow> (Inr (), s) | _ \<Rightarrow> (Inl AlreadyExists, s))))"

definition create_dir_all :: "fpath \<Rightarrow> unit fsm" where
  "create_dir_all p = fmapM ensure_dir (nonempty_prefixes p)"

definition set_write_time :: "fpath \<Rightarrow> u64 \<Rightarrow> unit fsm" where
  "set_write_time p t = syscall (\<lambda>s.
     (case fmlookup (nodes s) p of
        Some (FileNode c _ a) \<Rightarrow> (Inr (), s\<lparr>nodes := fmupd p (FileNode c t a) (nodes s)\<rparr>)
      | Some _ \<Rightarrow> (Inl PermissionDenied, s)
      | None \<Rightarrow> (Inl NotFound, s)))"

definition set_file_attributes :: "fpath \<Rightarrow> u32 \<Rightarrow> unit fsm" where
  "set_file_attributes p a = syscall (\<lambda>s.
     (case fmlookup (nodes s) p of
        Some (FileNode c t _) \<Rightarrow> (Inr (), s\<lparr>nodes := fmupd p (FileNode c t a) (nodes s)\<rparr>)
      | Some _ \<Rightarrow> (Inl PermissionDenied, s)
      | None \<Rightarrow> (Inl NotFound, s)))"

section \<open>Metadata of the received files\<close>

definition RESTORABLE_FILE_ATTRIBUTES :: u32 where
  "RESTORABLE_FILE_ATTRIBUTES = 0x1 OR 0x2 OR 0x4 OR 0x20 OR 0x2000"

definition restorable_file_attributes :: "u32 \<Rightarrow> u32" where
  "restorable_file_attributes source_attributes =
     (let a = source_attributes AND RESTORABLE_FILE_ATTRIBUTES in if a = 0 then FILE_ATTRIBUTE_NORMAL else a)"

definition restore_file :: "fpath \<Rightarrow> u64 \<Rightarrow> u32 \<Rightarrow> unit fsm" where
  "restore_file p t source_attributes =
     fbind (syscall (\<lambda>s. (ok_or NotFound (map_option (\<lambda>_. ()) (fmlookup (nodes s) p)), s))) (\<lambda>_.
     fbind (set_write_time p t) (\<lambda>_.
       set_file_attributes p (restorable_file_attributes source_attributes)))"

definition restore_manifest_files :: "ManifestEntry list \<Rightarrow> unit fsm" where
  "restore_manifest_files manifest =
     fmapM (\<lambda>e. restore_file (path_components (relative_path e)) (last_write_time e) (file_attributes e)) manifest"

section \<open>Final and temporary paths\<close>

function decimal :: "nat \<Rightarrow> path" where
  "decimal n = (if n < 10 then [of_nat (48 + n)] else decimal (n div 10) @ [of_nat (48 + n mod 10)])"
  by pat_completeness auto
termination by (relation "measure id") auto

declare decimal.simps [simp del]

definition ncs_part :: path where
  "ncs_part = [0x2E, 0x6E, 0x63, 0x73, 0x2D, 0x70, 0x61, 0x72, 0x74, 0x2D]"

definition final_path :: "ManifestEntry \<Rightarrow> fpath" where
  "final_path e = path_components (relative_path e)"

definition temporary_path :: "ManifestEntry \<Rightarrow> usize \<Rightarrow> fpath" where
  "temporary_path e i = path_components (relative_path e @ ncs_part @ decimal i)"

definition create_destination_parent :: "ManifestEntry \<Rightarrow> unit fsm" where
  "create_destination_parent e =
     (let parent = butlast (final_path e) in if parent = [] then fret () else create_dir_all parent)"

definition remove_file_if_present :: "fpath \<Rightarrow> unit fsm" where
  "remove_file_if_present p s =
     (case fs_remove_file p s of
        (Inr _, s') \<Rightarrow> (Inr (), s')
      | (Inl e, s') \<Rightarrow> (if e = NotFound then (Inr (), s') else (Inl e, s')))"

definition validate_resume_file :: "fpath \<Rightarrow> u64 \<Rightarrow> unit fsm" where
  "validate_resume_file p expected_size =
     fbind (fs_metadata p) (\<lambda>n.
     fbind (fguard (is_file n) InvalidData) (\<lambda>_.
       fguard (node_len n = expected_size) InvalidData))"

section \<open>Part-file names\<close>

text \<open>The name of a part file is that of no other part file and not the final name.\<close>

lemma split_units_append:
  "list_all (\<lambda>u. \<not> sep u) tail \<Longrightarrow>
   split_units sep (p @ tail) = butlast (split_units sep p) @ [last (split_units sep p) @ tail]"
proof (induction p)
  case Nil
  then show ?case by (induction tail) auto
next
  case (Cons u p)
  then show ?case using split_units_not_Nil [of sep p] by (auto split: list.splits)
qed

lemma decimal_digits: "list_all (\<lambda>u. 48 \<le> u \<and> u \<le> 57) (decimal n)"
proof (induction n rule: decimal.induct)
  case (1 n)
  have digit: "48 \<le> (of_nat (48 + k) :: u16) \<and> (of_nat (48 + k) :: u16) \<le> 57" if "k < 10" for k
    using that by (simp add: word_le_nat_alt unat_of_nat unat_word_ariths)
  show ?case
  proof (cases "n < 10")
    case True
    then show ?thesis using digit [of n] by (subst decimal.simps) simp
  next
    case False
    then show ?thesis using 1 digit [of "n mod 10"] by (subst decimal.simps) simp
  qed
qed

lemma decimal_inj: "decimal m = decimal n \<Longrightarrow> m = n"
proof (induction m arbitrary: n rule: decimal.induct)
  case (1 m)
  have single: "decimal k = [x] \<Longrightarrow> k < 10" for k x
    using decimal.simps [of "k div 10"] by (subst (asm) decimal.simps) (auto split: if_splits)
  have digit: "a = b" if "(of_nat (48 + a) :: u16) = of_nat (48 + b)" "a < 10" "b < 10" for a b
  proof -
    have "unat (of_nat (48 + c) :: u16) = 48 + c" if "c < 10" for c using that by (intro unat_of_nat_small) simp
    then show ?thesis using that by (metis add_left_imp_eq)
  qed
  show ?case
  proof (cases "m < 10 \<or> n < 10")
    case True
    then have "m < 10" "n < 10" using 1(2) single by (metis decimal.simps)+
    then show ?thesis using 1(2) digit by (simp add: decimal.simps)
  next
    case False
    then have "decimal (m div 10) = decimal (n div 10)" "(of_nat (48 + m mod 10) :: u16) = of_nat (48 + n mod 10)"
      using 1(2) decimal.simps [of m] decimal.simps [of n] by auto
    then have "m div 10 = n div 10" "m mod 10 = n mod 10" using 1(1) False digit by auto
    then show ?thesis by (metis div_mod_decomp)
  qed
qed

definition part_suffix :: "usize \<Rightarrow> path" where "part_suffix i = ncs_part @ decimal i"

lemma part_suffix_units: "list_all (\<lambda>u. \<not> is_separator u) (part_suffix i)"
  using decimal_digits [of i]
  by (auto simp: part_suffix_def ncs_part_def is_separator_def backslash_def slash_def list_all_iff word_le_nat_alt)

lemma part_suffix_inj:
  assumes "a @ part_suffix i = b @ part_suffix j"
  shows "i = j"
proof -
  let ?D = "\<lambda>u :: u16. 48 \<le> u \<and> u \<le> 57"
  have digits: "takeWhile ?D (rev (x @ part_suffix k)) = rev (decimal k)" for x k
  proof -
    have "takeWhile ?D (rev (decimal k) @ (45 # y)) = rev (decimal k)" for y
      using decimal_digits [of k] by (subst takeWhile_append2) (auto simp: list_all_iff word_le_nat_alt)
    then show ?thesis by (simp add: part_suffix_def ncs_part_def)
  qed
  from assms digits [of a i] digits [of b j] have "decimal i = decimal j" by simp
  then show ?thesis by (rule decimal_inj)
qed

lemma temporary_path_last: "last (temporary_path e i) = Normal (last (split_units is_separator (relative_path e)) @ part_suffix i)"
proof -
  let ?l = "last (split_units is_separator (relative_path e)) @ part_suffix i"
  have "split_units is_separator (relative_path e @ part_suffix i) = butlast (split_units is_separator (relative_path e)) @ [?l]"
    by (rule split_units_append [OF part_suffix_units])
  moreover have "?l \<noteq> []" "?l \<noteq> [full_stop]" "?l \<noteq> [full_stop, full_stop]"
    by (auto simp: part_suffix_def ncs_part_def append_eq_Cons_conv)
  ultimately show ?thesis
    by (simp add: temporary_path_def path_components_def part_suffix_def Let_def name_component_def)
qed

lemma temporary_path_inj: "temporary_path e i = temporary_path e' j \<Longrightarrow> i = j"
  using temporary_path_last [of e i] temporary_path_last [of e' j] by (auto dest: part_suffix_inj)

lemma temporary_not_final: "temporary_path e i \<noteq> final_path e"
proof
  assume eq: "temporary_path e i = final_path e"
  let ?p = "relative_path e"
  obtain pre l where parts: "split_units is_separator ?p = pre @ [l]"
    using split_units_not_Nil [of is_separator ?p] by (metis append_butlast_last_id)
  have parts': "split_units is_separator (?p @ part_suffix i) = pre @ [l @ part_suffix i]"
    using split_units_append [OF part_suffix_units, of ?p i] by (simp add: parts)
  have ne: "l @ part_suffix i \<noteq> []" "l @ part_suffix i \<noteq> [full_stop]" "l @ part_suffix i \<noteq> [full_stop, full_stop]"
    by (auto simp: part_suffix_def ncs_part_def append_eq_Cons_conv)
  have rooted: "(case ?p @ part_suffix i of [] \<Rightarrow> False | u # x \<Rightarrow> is_separator u) = (case ?p of [] \<Rightarrow> False | u # x \<Rightarrow> is_separator u)"
    by (cases ?p) (simp_all add: part_suffix_def ncs_part_def is_separator_def backslash_def slash_def)
  have "name_component l \<noteq> Normal (l @ part_suffix i)" by (simp add: name_component_def part_suffix_def ncs_part_def)
  with eq ne rooted show False
    by (cases pre)
      (auto simp: temporary_path_def final_path_def path_components_def part_suffix_def [symmetric] parts parts' Let_def name_component_def
        hd_append split: if_splits)
qed

section \<open>What an operation may change\<close>

text \<open>
  \<open>within R m\<close>: whatever fails, the state after \<open>m\<close> is related to the state before it by \<open>R\<close>.
  The locale \<open>fs_frame\<close> asks of \<open>R\<close> what composition needs; its lemmas are the rules for programs.
\<close>

definition within :: "(fs \<Rightarrow> fs \<Rightarrow> bool) \<Rightarrow> 'a fsm \<Rightarrow> bool" where
  "within R m \<longleftrightarrow> (\<forall>s. R s (snd (m s)))"

named_theorems frame_intros

lemma withinD: "within R m \<Longrightarrow> m s = (r, s') \<Longrightarrow> R s s'"
  by (metis snd_conv within_def)

locale fs_frame =
  fixes R :: "fs \<Rightarrow> fs \<Rightarrow> bool"
  assumes frame_refl: "R s s"
    and frame_trans: "R s t \<Longrightarrow> R t u \<Longrightarrow> R s u"
    and frame_faults: "R s (s\<lparr>faults := tl (faults s)\<rparr>)"
begin

lemma pure [frame_intros]: "within R (fret a)" "within R (ffail e)" "within R (flift r)" "within R (fguard c e)"
  by (simp_all add: within_def fret_def ffail_def flift_def fguard_def frame_refl)

lemma bind [frame_intros]:
  assumes m: "within R m" and f: "\<And>a. within R (f a)"
  shows "within R (fbind m f)"
  unfolding within_def
proof
  fix s
  obtain r s' where r: "m s = (r, s')" by force
  have "R s s'" using withinD [OF m r] .
  then show "R s (snd (fbind m f s))"
    using f by (cases r) (auto simp: fbind_def r within_def intro: frame_trans)
qed

lemma if_branches [frame_intros]: "within R m \<Longrightarrow> within R m' \<Longrightarrow> within R (if c then m else m')"
  by simp

lemma prod_case [frame_intros]: "(\<And>a b. within R (f a b)) \<Longrightarrow> within R (case x of (a, b) \<Rightarrow> f a b)"
  by (cases x) simp

lemma mapM: "(\<And>x. x \<in> set xs \<Longrightarrow> within R (f x)) \<Longrightarrow> within R (fmapM f xs)"
  by (induction xs) (auto intro: pure bind)

lemma handled:
  assumes "within R m"
  shows "within R (\<lambda>s. case m s of (Inr a, s') \<Rightarrow> (f a, s') | (Inl e, s') \<Rightarrow> (if c e then (g e, s') else (h e, s')))"
  unfolding within_def
proof
  fix s
  obtain r s' where r: "m s = (r, s')" by force
  show "R s (snd (case m s of (Inr a, s') \<Rightarrow> (f a, s') | (Inl e, s') \<Rightarrow> (if c e then (g e, s') else (h e, s'))))"
    using withinD [OF assms r] by (cases r) (simp_all add: r)
qed

lemma error_cleanup [frame_intros]:
  assumes "within R m" "within R cleanup"
  shows "within R (on_error m cleanup)"
  unfolding within_def
proof
  fix s
  obtain r s' where r: "m s = (r, s')" by force
  have "R s s'" "R s' (snd (cleanup s'))" using withinD [OF assms(1) r] assms(2) by (auto simp: within_def)
  then show "R s (snd (on_error m cleanup s))" by (cases r) (auto simp: on_error_def r intro: frame_trans)
qed

lemma fault_step: "next_fault s = (f, s') \<Longrightarrow> R s s'"
  using frame_faults [of s] by (auto simp: next_fault_def frame_refl split: list.splits)

lemma call: 
  assumes "within R m"
  shows "within R (syscall m)"
  unfolding within_def
proof
  fix s
  obtain f s' where f: "next_fault s = (f, s')" by force
  have "R s s'" "R s' (snd (m s'))" using fault_step [OF f] assms by (auto simp: within_def)
  then show "R s (snd (syscall m s))" by (auto simp: syscall_def f intro: frame_trans split: option.splits)
qed

lemma query: "(\<And>s. snd (m s) = s) \<Longrightarrow> within R (syscall m)"
  by (rule call) (simp add: within_def frame_refl)

lemma reads [frame_intros]:
  "within R (symlink_metadata q)" "within R (fs_metadata q)" "within R (try_exists q)" "within R (read_contents q)"
  "within R (sync_all q)"
  unfolding symlink_metadata_def fs_metadata_def try_exists_def read_contents_def sync_all_def
  by (rule query; simp add: fret_def split: option.splits node.splits)+

lemma resume_file [frame_intros]: "within R (validate_resume_file q k)"
  unfolding validate_resume_file_def by (intro reads pure bind)

end

text \<open>Two frames: nothing changes but the faults still to come, and existing entries outside a set of paths stay.\<close>

definition unchanged_fs :: "fs \<Rightarrow> fs \<Rightarrow> bool" where
  "unchanged_fs s s' \<longleftrightarrow> nodes s' = nodes s \<and> clock s' = clock s \<and> journal_dir s' = journal_dir s"

definition kept :: "fpath set \<Rightarrow> fs \<Rightarrow> fs \<Rightarrow> bool" where
  "kept P s s' \<longleftrightarrow> (\<forall>p n. p \<notin> P \<longrightarrow> fmlookup (nodes s) p = Some n \<longrightarrow> fmlookup (nodes s') p = Some n)"

interpretation quiet: fs_frame unchanged_fs
  by unfold_locales (auto simp: unchanged_fs_def)

interpretation keep: fs_frame "kept P" for P
  by unfold_locales (auto simp: kept_def)

lemma keeps_creates [frame_intros]:
  "within (kept P) (create_new q)" "within (kept P) (create_dir q)" "within (kept P) (ensure_dir q)"
  unfolding create_new_def create_dir_def ensure_dir_def
  by (rule keep.call; auto simp: within_def kept_def split: option.splits node.splits)+

lemma keeps_create_dir_all [frame_intros]: "within (kept P) (create_dir_all q)"
  unfolding create_dir_all_def by (intro keep.mapM frame_intros)

lemma keeps_parent [frame_intros]: "within (kept P) (create_destination_parent e)"
  unfolding create_destination_parent_def Let_def by (intro frame_intros)

lemma keeps_update_file: "q \<in> P \<Longrightarrow> within (kept P) (update_file q f)"
  by (auto simp: within_def kept_def update_file_def split: option.splits sum.splits)

lemma keeps_writes:
  assumes "q \<in> P"
  shows "within (kept P) (set_len q k)" "within (kept P) (open_for_write q)" "within (kept P) (fs_remove_file q)"
    "within (kept P) (remove_file_if_present q)"
proof -
  show "within (kept P) (set_len q k)" "within (kept P) (open_for_write q)"
    unfolding set_len_def open_for_write_def using assms by (simp_all add: keep.call keeps_update_file)
  show r: "within (kept P) (fs_remove_file q)"
    unfolding fs_remove_file_def using assms
    by (intro keep.call) (auto simp: within_def kept_def split: option.splits node.splits)
  show "within (kept P) (remove_file_if_present q)"
    unfolding remove_file_if_present_def using r by (rule keep.handled)
qed

end
