(* ===== verification/Destination_Prep.thy ===== *)
theory Destination_Prep
  imports File_System
begin

text \<open>
  How the receiver prepares its destination, from \<^verbatim>\<open>src/destination_inventory.rs\<close> (the comparison of an existing
  destination with the manifest) and \<^verbatim>\<open>src/multistream_copy.rs\<close> (fresh, updating and resuming preparation).
  The answer of the peer to the verification request is an argument here; \<open>Update_Verification\<close> has the exchange.
  The faults of the journal's own files are arguments, as in \<open>Resume_State\<close>.
\<close>

unbundle bit_operations_syntax

section \<open>Comparison with an existing destination\<close>

record DestinationInventory =
  inv_unchanged_file_ids :: "usize fset"
  inv_unchanged_bytes :: u64
  changed_files :: u64
  missing_files :: u64
  conflicting_entries :: u64

definition empty_inventory :: DestinationInventory where
  "empty_inventory = \<lparr>inv_unchanged_file_ids = {||}, inv_unchanged_bytes = 0, changed_files = 0,
     missing_files = 0, conflicting_entries = 0\<rparr>"

definition increment :: "u64 \<Rightarrow> u64 io_result" where
  "increment v = ok_or OtherError (checked_add v 1)"

definition compare_entry :: "DestinationInventory \<Rightarrow> usize \<times> ManifestEntry \<Rightarrow> node option \<Rightarrow> DestinationInventory io_result" where
  "compare_entry iv = (\<lambda>(i, e) found.
     (case found of
        None \<Rightarrow> ebind (increment (missing_files iv)) (\<lambda>n. Inr (iv\<lparr>missing_files := n\<rparr>))
      | Some n \<Rightarrow>
          if is_reparse n \<or> \<not> is_file n
          then ebind (increment (conflicting_entries iv)) (\<lambda>k. Inr (iv\<lparr>conflicting_entries := k\<rparr>))
          else if node_len n = file_size e \<and> node_time n = last_write_time e
          then
            if i |\<in>| inv_unchanged_file_ids iv then Inl OtherError
            else ebind (ok_or OtherError (checked_add (inv_unchanged_bytes iv) (file_size e))) (\<lambda>b.
              Inr (iv\<lparr>inv_unchanged_file_ids := finsert i (inv_unchanged_file_ids iv), inv_unchanged_bytes := b\<rparr>))
          else ebind (increment (changed_files iv)) (\<lambda>k. Inr (iv\<lparr>changed_files := k\<rparr>))))"

text \<open>\<^verbatim>\<open>symlink_metadata\<close> with a missing entry told apart from other errors.\<close>

definition inspect :: "fpath \<Rightarrow> node option fsm" where
  "inspect p s =
     (case symlink_metadata p s of
        (Inr n, s') \<Rightarrow> (Inr (Some n), s')
      | (Inl e, s') \<Rightarrow> (if e = NotFound then (Inr None, s') else (Inl e, s')))"

fun compare_entries :: "DestinationInventory \<Rightarrow> (usize \<times> ManifestEntry) list \<Rightarrow> DestinationInventory fsm" where
  "compare_entries iv [] = fret iv"
| "compare_entries iv (x # xs) =
     fbind (inspect (final_path (snd x))) (\<lambda>found.
     fbind (flift (compare_entry iv x found)) (\<lambda>iv'. compare_entries iv' xs))"

definition enumerated :: "'a list \<Rightarrow> (usize \<times> 'a) list" where
  "enumerated xs = zip [0..<length xs] xs"

definition compare_fast :: "ManifestEntry list \<Rightarrow> DestinationInventory fsm" where
  "compare_fast manifest =
     fbind (symlink_metadata []) (\<lambda>root.
     fbind (fguard (\<not> is_reparse root) InvalidInput) (\<lambda>_.
     fbind (fguard (is_dir root) InvalidInput) (\<lambda>_.
       compare_entries empty_inventory (enumerated manifest))))"

definition validate_update_inventory :: "DestinationInventory \<Rightarrow> unit io_result" where
  "validate_update_inventory iv = (if conflicting_entries iv = 0 then Inr () else Inl InvalidInput)"

datatype DestinationMode = Fresh | UpdateVerified

definition select_update_file_sets ::
    "DestinationMode \<Rightarrow> DestinationInventory \<Rightarrow> usize fset option \<Rightarrow> (usize fset \<times> usize fset) io_result" where
  "select_update_file_sets mode iv verified =
     (case mode of
        Fresh \<Rightarrow> Inr ({||}, {||})
      | UpdateVerified \<Rightarrow>
          ebind (ok_or InvalidData verified) (\<lambda>v.
            if \<not> v |\<subseteq>| inv_unchanged_file_ids iv then Inl InvalidData
            else Inr (v, inv_unchanged_file_ids iv |-| v)))"

section \<open>Preparing the destination\<close>

text \<open>The journal operations of \<open>Resume_State\<close>, on the destination's own journal.\<close>

definition journal_save :: "SaveFaults \<Rightarrow> ResumeJournal \<Rightarrow> unit fsm" where
  "journal_save faults_of_save j s =
     (case save_atomic faults_of_save j (journal_dir s) of (r, d) \<Rightarrow> (r, s\<lparr>journal_dir := d\<rparr>))"

definition journal_load :: "error_kind option \<Rightarrow> u64 \<Rightarrow> usize \<Rightarrow> ResumeJournal fsm" where
  "journal_load fault print streams s = (load_existing fault (journal_dir s) print streams, s)"

definition new_journal :: "SaveFaults \<Rightarrow> error_kind option \<Rightarrow> u64 \<Rightarrow> usize \<Rightarrow> ResumeJournal fsm" where
  "new_journal faults_of_save fault print streams =
     fbind (flift (ResumeJournal_new print streams)) (\<lambda>j.
     fbind (journal_save faults_of_save j) (\<lambda>_. journal_load fault print streams))"

definition allocate_temporary :: "usize \<Rightarrow> ManifestEntry \<Rightarrow> unit fsm" where
  "allocate_temporary i e =
     fbind (create_new (temporary_path e i)) (\<lambda>_. set_len (temporary_path e i) (unat (file_size e)))"

definition prepare_fresh_entry :: "usize \<times> ManifestEntry \<Rightarrow> unit fsm" where
  "prepare_fresh_entry = (\<lambda>(i, e).
     fbind (create_destination_parent e) (\<lambda>_.
       if file_class e \<noteq> Large then fret () else allocate_temporary i e))"

definition prepare_fresh_destination ::
    "SaveFaults \<Rightarrow> error_kind option \<Rightarrow> ManifestEntry list \<Rightarrow> u64 \<Rightarrow> usize \<Rightarrow> ResumeJournal fsm" where
  "prepare_fresh_destination faults_of_save fault manifest print streams =
     fbind (fmapM prepare_fresh_entry (enumerated manifest)) (\<lambda>_. new_journal faults_of_save fault print streams)"

definition prepare_update_entry :: "usize fset \<Rightarrow> usize \<times> ManifestEntry \<Rightarrow> unit fsm" where
  "prepare_update_entry unchanged = (\<lambda>(i, e).
     fbind (create_destination_parent e) (\<lambda>_.
     fbind (remove_file_if_present (temporary_path e i)) (\<lambda>_.
       if i |\<in>| unchanged then fret ()
       else if file_class e \<noteq> Large then fret ()
       else allocate_temporary i e)))"

definition prepare_update_destination ::
    "SaveFaults \<Rightarrow> error_kind option \<Rightarrow> ManifestEntry list \<Rightarrow> u64 \<Rightarrow> usize \<Rightarrow> usize fset \<Rightarrow> ResumeJournal fsm" where
  "prepare_update_destination faults_of_save fault manifest print streams unchanged =
     fbind (fmapM (prepare_update_entry unchanged) (enumerated manifest)) (\<lambda>_.
       new_journal faults_of_save fault print streams)"

definition check_committed_file :: "ManifestEntry list \<Rightarrow> usize \<Rightarrow> unit fsm" where
  "check_committed_file manifest i =
     fbind (flift (ok_or InvalidData (manifest_get manifest i))) (\<lambda>e.
     fbind (fguard (file_class e \<noteq> Tiny) InvalidData) (\<lambda>_.
     fbind (symlink_metadata (final_path e)) (\<lambda>n.
     fbind (fguard (\<not> (\<not> is_file n \<or> is_reparse n)) InvalidData) (\<lambda>_.
     fbind (fguard (node_len n = file_size e) InvalidData) (\<lambda>_.
     fbind (fguard (node_time n = last_write_time e) InvalidData) (\<lambda>_.
       fguard (node_attributes n = file_attributes e) InvalidData))))))"

definition validate_fresh_resume_committed_files :: "ManifestEntry list \<Rightarrow> usize fset \<Rightarrow> unit fsm" where
  "validate_fresh_resume_committed_files manifest completed =
     fmapM (check_committed_file manifest) (sorted_list_of_fset completed)"

text \<open>The loop over the tasks stops at the first stripe of the file that is not completed.\<close>

fun stripes_completed :: "usize \<Rightarrow> ResumeStripe fset \<Rightarrow> bool \<Rightarrow> TransferTask list \<Rightarrow> bool io_result" where
  "stripes_completed i done_stripes found [] = Inr found"
| "stripes_completed i done_stripes found (task # tasks) =
     (case task of
        Stripe f offset len \<Rightarrow>
          if f \<noteq> i then stripes_completed i done_stripes found tasks
          else ebind (ResumeStripe_new f offset len) (\<lambda>stripe.
            if stripe |\<notin>| done_stripes then Inr False else stripes_completed i done_stripes True tasks)
      | _ \<Rightarrow> stripes_completed i done_stripes found tasks)"

definition all_file_stripes_completed :: "usize \<Rightarrow> TransferPlan \<Rightarrow> ResumeStripe fset \<Rightarrow> bool io_result" where
  "all_file_stripes_completed i p done_stripes = stripes_completed i done_stripes False (concat (lanes p))"

definition prepare_resume_large_file ::
    "usize \<Rightarrow> ManifestEntry \<Rightarrow> TransferPlan \<Rightarrow> ResumeStripe fset \<Rightarrow> bool \<Rightarrow> bool \<Rightarrow> unit fsm" where
  "prepare_resume_large_file i e p done_stripes reset_completed_stripes preserve_existing_final =
     fbind (try_exists (final_path e)) (\<lambda>final_exists.
     fbind (try_exists (temporary_path e i)) (\<lambda>temporary_exists.
       (if \<not> final_exists \<and> temporary_exists then validate_resume_file (temporary_path e i) (file_size e)
        else if final_exists \<and> \<not> temporary_exists \<and> preserve_existing_final \<and> reset_completed_stripes
        then allocate_temporary i e
        else if final_exists \<and> \<not> temporary_exists then
          fbind (flift (all_file_stripes_completed i p done_stripes)) (\<lambda>complete.
          fbind (fguard complete InvalidData) (\<lambda>_. validate_resume_file (final_path e) (file_size e)))
        else if final_exists \<and> temporary_exists \<and> preserve_existing_final
        then validate_resume_file (temporary_path e i) (file_size e)
        else if final_exists \<and> temporary_exists then ffail InvalidData
        else ffail NotFound)))"

definition prepare_resume_entry ::
    "TransferPlan \<Rightarrow> ResumeStripe fset \<Rightarrow> usize fset \<Rightarrow> usize fset \<Rightarrow> bool \<Rightarrow> usize \<times> ManifestEntry \<Rightarrow> unit fsm" where
  "prepare_resume_entry p done_stripes unchanged reset preserve_existing_final = (\<lambda>(i, e).
     fbind (create_destination_parent e) (\<lambda>_.
       if i |\<in>| unchanged then remove_file_if_present (temporary_path e i)
       else (case file_class e of
           Large \<Rightarrow> prepare_resume_large_file i e p done_stripes (i |\<in>| reset) preserve_existing_final
         | _ \<Rightarrow>
             fbind (remove_file_if_present (temporary_path e i)) (\<lambda>_.
               if \<not> preserve_existing_final then remove_file_if_present (final_path e) else fret ()))))"

definition prepare_resume_destination ::
    "SaveFaults \<Rightarrow> error_kind option \<Rightarrow> ManifestEntry list \<Rightarrow> u64 \<Rightarrow> usize \<Rightarrow> TransferPlan \<Rightarrow> usize fset \<Rightarrow> usize fset \<Rightarrow> bool \<Rightarrow>
     (ResumeJournal \<times> usize fset) fsm" where
  "prepare_resume_destination faults_of_save fault manifest print streams p unchanged reset preserve_existing_final =
     fbind (fs_metadata []) (\<lambda>root.
     fbind (fguard (is_dir root) InvalidInput) (\<lambda>_.
     fbind (journal_load fault print streams) (\<lambda>loaded.
     (case remove_completed_files reset loaded of (removed, j) \<Rightarrow>
     fbind (if removed then journal_save faults_of_save j else fret ()) (\<lambda>_.
     fbind (if \<not> preserve_existing_final
            then fbind (validate_fresh_resume_committed_files manifest (completed_file_ids j)) (\<lambda>_.
                   fret (unchanged |\<union>| completed_file_ids j))
            else fret unchanged) (\<lambda>effective.
     fbind (flift (validate_resume_offer p (completed_stripes j))) (\<lambda>_.
     fbind (fmapM (prepare_resume_entry p (completed_stripes j) effective reset preserve_existing_final)
              (enumerated manifest)) (\<lambda>_.
       fret (j, effective)))))))))"

text \<open>\<^verbatim>\<open>read_dir\<close> yields an entry: something of the tree, or a journal file.\<close>

definition has_entries :: "bool fsm" where
  "has_entries = syscall (\<lambda>s. (Inr (fBex (fmdom (nodes s)) (\<lambda>p. length p = 1) \<or>
     journal_file (journal_dir s) \<noteq> None \<or> temporary_file (journal_dir s) \<noteq> None), s))"

definition journal_exists :: "bool fsm" where
  "journal_exists = syscall (\<lambda>s. (Inr (journal_file (journal_dir s) \<noteq> None), s))"

definition prepare_destination ::
    "SaveFaults \<Rightarrow> error_kind option \<Rightarrow> ManifestEntry list \<Rightarrow> u64 \<Rightarrow> usize \<Rightarrow> TransferPlan \<Rightarrow> DestinationMode \<Rightarrow>
     usize fset option \<Rightarrow> (ResumeJournal \<times> usize fset) fsm" where
  "prepare_destination faults_of_save fault manifest print streams p mode verified =
     (let fresh = fbind (prepare_fresh_destination faults_of_save fault manifest print streams) (\<lambda>j. fret (j, {||})) in
     fbind (try_exists []) (\<lambda>root_exists.
       if \<not> root_exists then fbind (ensure_dir []) (\<lambda>_. fresh)
       else
         fbind (fs_metadata []) (\<lambda>root.
         fbind (fguard (is_dir root) InvalidInput) (\<lambda>_.
         fbind journal_exists (\<lambda>resuming.
           if resuming then
             fbind (if mode = Fresh then fret ({||}, {||})
                    else fbind (compare_fast manifest) (\<lambda>iv.
                         fbind (flift (validate_update_inventory iv)) (\<lambda>_.
                           flift (select_update_file_sets mode iv verified)))) (\<lambda>(unchanged, reset).
               prepare_resume_destination faults_of_save fault manifest print streams p unchanged reset (mode \<noteq> Fresh))
           else
             fbind has_entries (\<lambda>occupied.
               if \<not> occupied then fresh
               else
                 fbind (compare_fast manifest) (\<lambda>iv.
                   if mode = Fresh then ffail AlreadyExists
                   else
                     fbind (flift (validate_update_inventory iv)) (\<lambda>_.
                     fbind (flift (select_update_file_sets mode iv verified)) (\<lambda>(unchanged, _).
                     fbind (prepare_update_destination faults_of_save fault manifest print streams unchanged) (\<lambda>j.
                       fret (j, unchanged)))))))))))"

section \<open>What the preparation may touch\<close>

context fs_frame
begin

lemma file_class_cases [frame_intros]:
  "within R m1 \<Longrightarrow> within R m2 \<Longrightarrow> within R m3 \<Longrightarrow> within R (case c of Tiny \<Rightarrow> m1 | Medium \<Rightarrow> m2 | Large \<Rightarrow> m3)"
  by (cases c) simp_all

lemma listing [frame_intros]: "within R has_entries" "within R journal_exists"
  unfolding has_entries_def journal_exists_def by (rule query; simp)+

lemma inspecting [frame_intros]: "within R (inspect q)"
  unfolding inspect_def by (rule handled) (rule reads)

lemma comparing_entries: "within R (compare_entries iv xs)"
  by (induction xs arbitrary: iv) (auto intro!: pure bind inspecting)

lemma comparing [frame_intros]: "within R (compare_fast manifest)"
  unfolding compare_fast_def by (intro bind pure reads comparing_entries)

lemma loading [frame_intros]: "within R (journal_load fault print streams)"
  by (simp add: within_def journal_load_def frame_refl)

lemma committed_check [frame_intros]: "within R (validate_fresh_resume_committed_files manifest ids)"
proof -
  have "within R (check_committed_file manifest i)" for i
    unfolding check_committed_file_def by (intro bind pure reads)
  then show ?thesis unfolding validate_fresh_resume_committed_files_def by (intro mapM)
qed

end

lemma keeps_journal [frame_intros]:
  "within (kept P) (journal_save f j)" "within (kept P) (new_journal f fault print streams)"
proof -
  show *: "within (kept P) (journal_save f j)" for j
    by (auto simp: within_def kept_def journal_save_def split: prod.splits)
  show "within (kept P) (new_journal f fault print streams)"
    unfolding new_journal_def by (intro frame_intros *)
qed

lemma keeps_allocate: "temporary_path e i \<in> P \<Longrightarrow> within (kept P) (allocate_temporary i e)"
  unfolding allocate_temporary_def by (intro frame_intros keeps_writes)

text \<open>The temporary files a transfer of this manifest uses.\<close>

definition part_files :: "ManifestEntry list \<Rightarrow> fpath set" where
  "part_files manifest = (\<lambda>i. temporary_path (manifest ! i) i) ` {..<length manifest}"

lemma enumerated_part: "(i, e) \<in> set (enumerated manifest) \<Longrightarrow> temporary_path e i \<in> part_files manifest"
  by (auto simp: enumerated_def part_files_def set_zip)

lemma keeps_prepare_entries:
  assumes "x \<in> set (enumerated manifest)"
  shows "within (kept (part_files manifest)) (prepare_fresh_entry x)"
    and "within (kept (part_files manifest)) (prepare_update_entry unchanged x)"
    and "within (kept (part_files manifest)) (prepare_resume_entry p done_stripes unchanged reset True x)"
proof -
  let ?K = "kept (part_files manifest)"
  obtain i e where x: "x = (i, e)" by force
  have t: "temporary_path e i \<in> part_files manifest" using enumerated_part assms x by blast
  show "within ?K (prepare_fresh_entry x)" "within ?K (prepare_update_entry unchanged x)"
    using t unfolding x prepare_fresh_entry_def prepare_update_entry_def
    by (auto intro!: frame_intros keeps_writes keeps_allocate)
  have "within ?K (prepare_resume_large_file i e p done_stripes b True)" for b
    using t unfolding prepare_resume_large_file_def by (intro frame_intros keeps_allocate)
  then show "within ?K (prepare_resume_entry p done_stripes unchanged reset True x)"
    using t by (simp add: x prepare_resume_entry_def frame_intros keeps_writes)
qed

lemma keeps_prepare:
  "within (kept (part_files manifest)) (prepare_fresh_destination sf fault manifest print streams)"
  "within (kept (part_files manifest)) (prepare_update_destination sf fault manifest print streams unchanged)"
  "within (kept (part_files manifest)) (prepare_resume_destination sf fault manifest print streams p unchanged reset True)"
  unfolding prepare_fresh_destination_def prepare_update_destination_def prepare_resume_destination_def
  by (intro frame_intros keep.mapM keeps_prepare_entries; simp)+

lemma keeps_prepare_destination:
  "within (kept (part_files manifest)) (prepare_destination sf fault manifest print streams p UpdateVerified verified)"
  unfolding prepare_destination_def Let_def
  by (intro frame_intros keeps_prepare) (simp, intro keeps_prepare)

section \<open>What the comparison finds\<close>

definition matches :: "node \<Rightarrow> ManifestEntry \<Rightarrow> bool" where
  "matches n e \<longleftrightarrow> \<not> is_reparse n \<and> is_file n \<and> node_len n = file_size e \<and> node_time n = last_write_time e"

lemma inspect_Inr: "inspect q s = (Inr found, s') \<Longrightarrow> found = None \<or> found = fmlookup (nodes s) q"
  by (auto simp: inspect_def symlink_metadata_def syscall_def next_fault_def ok_or_def
      split: prod.splits sum.splits option.splits list.splits if_splits)

lemma compare_entry_Inr:
  assumes "compare_entry iv (i, e) found = Inr iv'" "k |\<in>| inv_unchanged_file_ids iv'"
  shows "k |\<in>| inv_unchanged_file_ids iv \<or> (k = i \<and> (\<exists>n. found = Some n \<and> matches n e))"
  using assms by (auto simp: compare_entry_def ebind_Inr matches_def split: option.splits if_splits)

lemma fbind_Inr: "fbind m f s = (Inr b, s') \<longleftrightarrow> (\<exists>a t. m s = (Inr a, t) \<and> f a t = (Inr b, s'))"
  by (auto simp: fbind_def split: prod.splits sum.splits)

lemma quiet_nodes: "within unchanged_fs m \<Longrightarrow> m s = (r, s') \<Longrightarrow> nodes s' = nodes s"
  using withinD [of unchanged_fs m s r s'] by (simp add: unchanged_fs_def)

lemma compare_entries_sound:
  "compare_entries iv xs s = (Inr iv', s') \<Longrightarrow> k |\<in>| inv_unchanged_file_ids iv' \<Longrightarrow>
   k |\<in>| inv_unchanged_file_ids iv \<or>
   (\<exists>e n. (k, e) \<in> set xs \<and> fmlookup (nodes s) (final_path e) = Some n \<and> matches n e)"
proof (induction xs arbitrary: iv s)
  case Nil
  then show ?case by (simp add: fret_def)
next
  case (Cons x xs)
  obtain i e where x: "x = (i, e)" by force
  from Cons.prems(1) x obtain found t iv1 where i: "inspect (final_path e) s = (Inr found, t)"
    and c: "compare_entry iv (i, e) found = Inr iv1" and r: "compare_entries iv1 xs t = (Inr iv', s')"
    by (auto simp: fbind_Inr flift_def)
  have "nodes t = nodes s" using quiet_nodes [OF quiet.inspecting i] .
  with Cons.IH [OF r Cons.prems(2)] compare_entry_Inr [OF c] inspect_Inr [OF i] x show ?case by fastforce
qed

lemma compare_fast_sound:
  assumes "compare_fast manifest s = (Inr iv, s')" "k |\<in>| inv_unchanged_file_ids iv"
  shows "\<exists>n. k < length manifest \<and> fmlookup (nodes s) (final_path (manifest ! k)) = Some n \<and> matches n (manifest ! k)"
proof -
  from assms(1) obtain root t1 t2 t3 where r: "symlink_metadata [] s = (Inr root, t1)"
    and "fguard (\<not> is_reparse root) InvalidInput t1 = (Inr (), t2)" "fguard (is_dir root) InvalidInput t2 = (Inr (), t3)"
    and c: "compare_entries empty_inventory (enumerated manifest) t3 = (Inr iv, s')"
    by (auto simp: compare_fast_def fbind_Inr)
  then have "nodes t3 = nodes s" by (metis quiet_nodes quiet.reads(1) quiet.pure(4))
  with compare_entries_sound [OF c assms(2)] show ?thesis
    by (auto simp: empty_inventory_def enumerated_def set_zip)
qed

lemma select_update_sound:
  assumes "select_update_file_sets UpdateVerified iv verified = Inr (unchanged, reset)"
  shows "\<exists>v. verified = Some v \<and> unchanged = v \<and> v |\<subseteq>| inv_unchanged_file_ids iv"
  using assms by (auto simp: select_update_file_sets_def ebind_Inr ok_or_Inr split: if_splits)

lemma prepare_resume_keeps_set:
  "prepare_resume_destination sf fault manifest print streams p unchanged reset True s = (Inr (j, eff), s') \<Longrightarrow> eff = unchanged"
  by (auto simp: prepare_resume_destination_def fbind_Inr fret_def case_prod_beta)

text \<open>An accepted set of unchanged files is empty, or what the peer verified among the files of the comparison.\<close>

lemma prepare_destination_unchanged:
  assumes "prepare_destination sf fault manifest print streams p UpdateVerified verified s = (Inr (j, unchanged), s')"
  shows "unchanged = {||} \<or> (\<exists>iv s1 s2. compare_fast manifest s1 = (Inr iv, s2) \<and> nodes s1 = nodes s \<and>
    conflicting_entries iv = 0 \<and> verified = Some unchanged \<and> unchanged |\<subseteq>| inv_unchanged_file_ids iv)"
proof -
  note q = quiet_nodes [OF quiet.reads(3)] quiet_nodes [OF quiet.reads(2)] quiet_nodes [OF quiet.listing(1)]
    quiet_nodes [OF quiet.listing(2)] quiet_nodes [OF quiet.pure(4)]
  from assms show ?thesis
    unfolding prepare_destination_def Let_def
    by (auto simp: fbind_Inr fret_def flift_def ffail_def validate_update_inventory_def split: if_splits
        dest!: q select_update_sound prepare_resume_keeps_set) metis+
qed

lemma new_journal_succeeds:
  assumes "streams \<noteq> 0" "streams < 2 ^ 32"
  shows "\<exists>j d. new_journal no_faults None print streams s = (Inr j, s\<lparr>journal_dir := d\<rparr>)"
proof -
  define j where "j = \<lparr>manifest_fingerprint = print, data_stream_count = of_nat streams,
    completed_stripes = {||}, completed_file_ids = {||}\<rparr>"
  have small: "unat (of_nat streams :: u32) = streams" using assms(2) by (simp add: unat_of_nat_small)
  have wf: "journal_wf j" using assms small by (auto simp: journal_wf_def j_def unat_eq_zero [symmetric] fcard.rep_eq)
  have new: "ResumeJournal_new print streams = Inr j"
    using assms by (simp add: ResumeJournal_new_def word_try_from_def j_def)
  obtain d where d: "save_atomic no_faults j (journal_dir s) = (Inr (), d)"
    using save_atomic_succeeds [OF wf, of no_faults "journal_dir s"] by (auto simp: no_faults_def)
  from save_atomic_Inr [OF d] have "load_existing None d print streams = Inr j"
    using assms(2) by (auto simp: load_existing_def read_path_def word_try_from_def j_def)
  with new d show ?thesis
    by (intro exI [of _ j] exI [of _ d]) (simp add: new_journal_def fbind_def flift_def journal_save_def journal_load_def)
qed

section \<open>What the preparation removes\<close>

text \<open>
  No file is left at a path, and none comes back.  A missing file is reported only when it is missing: the error the
  code takes for an absent part file is not among the faults to come.
\<close>

definition no_file :: "fpath \<Rightarrow> fs \<Rightarrow> bool" where
  "no_file p s \<longleftrightarrow> (\<forall>c t a. fmlookup (nodes s) p \<noteq> Some (FileNode c t a))"

definition honest_absence :: "fs \<Rightarrow> bool" where
  "honest_absence s \<longleftrightarrow> (\<forall>k. Some (NotFound, k) \<notin> set (faults s))"

definition stays_gone :: "fpath \<Rightarrow> fs \<Rightarrow> fs \<Rightarrow> bool" where
  "stays_gone p s s' \<longleftrightarrow> (honest_absence s \<longrightarrow> honest_absence s') \<and> (no_file p s \<longrightarrow> no_file p s')"

interpretation gone: fs_frame "stays_gone p" for p
proof unfold_locales
  show "stays_gone p s (s\<lparr>faults := tl (faults s)\<rparr>)" for s
    by (cases "faults s") (auto simp: stays_gone_def honest_absence_def no_file_def)
qed (auto simp: stays_gone_def)

lemma gone_parent: "within (stays_gone p) (create_destination_parent e)"
proof -
  have "within (stays_gone p) (ensure_dir q)" for q
    unfolding ensure_dir_def
    by (rule gone.call) (auto simp: within_def stays_gone_def honest_absence_def no_file_def split: option.splits node.splits)
  then show ?thesis unfolding create_destination_parent_def Let_def create_dir_all_def by (intro frame_intros gone.mapM)
qed

lemma gone_remove: "within (stays_gone p) (remove_file_if_present q)"
proof -
  have "within (stays_gone p) (fs_remove_file q)"
    unfolding fs_remove_file_def
    by (rule gone.call) (auto simp: within_def stays_gone_def honest_absence_def no_file_def split: option.splits node.splits)
  then show ?thesis unfolding remove_file_if_present_def by (rule gone.handled)
qed

lemma gone_allocate:
  assumes "temporary_path e i \<noteq> p"
  shows "within (stays_gone p) (allocate_temporary i e)"
proof -
  have "within (stays_gone p) (create_new (temporary_path e i))" unfolding create_new_def
    by (rule gone.call) (use assms in \<open>auto simp: within_def stays_gone_def honest_absence_def no_file_def\<close>)
  moreover have "within (stays_gone p) (set_len (temporary_path e i) k)" for k unfolding set_len_def
    by (rule gone.call) (use assms in \<open>auto simp: within_def stays_gone_def honest_absence_def no_file_def update_file_def
        split: option.splits sum.splits\<close>)
  ultimately show ?thesis unfolding allocate_temporary_def by (intro frame_intros)
qed

lemma gone_journal: "within (stays_gone p) (journal_save f j)" "within (stays_gone p) (new_journal f fault print streams)"
proof -
  show *: "within (stays_gone p) (journal_save f j)" for j
    by (auto simp: within_def stays_gone_def honest_absence_def no_file_def journal_save_def split: prod.splits)
  show "within (stays_gone p) (new_journal f fault print streams)"
    unfolding new_journal_def by (intro frame_intros *)
qed

text \<open>\<open>clears p m\<close>: after a successful \<open>m\<close> there is no file at \<open>p\<close>.\<close>

definition clears :: "fpath \<Rightarrow> 'a fsm \<Rightarrow> bool" where
  "clears p m \<longleftrightarrow> (\<forall>s r s'. honest_absence s \<longrightarrow> m s = (Inr r, s') \<longrightarrow> no_file p s')"

lemma clears_later:
  assumes "within (stays_gone p) m" "\<And>a. clears p (f a)"
  shows "clears p (fbind m f)"
  unfolding clears_def
proof (intro allI impI)
  fix s r s'
  assume s: "honest_absence s" "fbind m f s = (Inr r, s')"
  then obtain a t where "m s = (Inr a, t)" "f a t = (Inr r, s')" by (auto simp: fbind_Inr)
  then have "honest_absence t" "f a t = (Inr r, s')" using withinD [OF assms(1)] s(1) by (auto simp: stays_gone_def)
  then show "no_file p s'" using assms(2) [of a] by (auto simp: clears_def)
qed

lemma clears_now:
  assumes "clears p m" "\<And>a. within (stays_gone p) (f a)"
  shows "clears p (fbind m f)"
  unfolding clears_def
proof (intro allI impI)
  fix s r s'
  assume s: "honest_absence s" "fbind m f s = (Inr r, s')"
  then obtain a t where a: "m s = (Inr a, t)" "f a t = (Inr r, s')" by (auto simp: fbind_Inr)
  then have "no_file p t" using assms(1) s(1) by (auto simp: clears_def)
  then show "no_file p s'" using withinD [OF assms(2) a(2)] by (simp add: stays_gone_def)
qed

lemma fbind_fret: "fbind (fret a) f = f a"
  by (rule ext) (simp add: fbind_def fret_def)

lemma clears_mapM:
  assumes "x \<in> set xs" "clears p (f x)" "\<And>y. y \<in> set xs \<Longrightarrow> within (stays_gone p) (f y)"
  shows "clears p (fmapM f xs)"
  using assms
proof (induction xs)
  case (Cons y ys)
  then show ?case
  proof (cases "x = y")
    case True
    then show ?thesis using Cons.prems by (auto intro!: clears_now gone.mapM)
  next
    case False
    then have "clears p (fmapM f ys)" using Cons by simp
    then show ?thesis using Cons.prems by (auto intro!: clears_later)
  qed
qed simp

lemma clears_remove: "clears p (remove_file_if_present p)"
  unfolding clears_def
proof (intro allI impI)
  fix s r s'
  assume s: "honest_absence s" "remove_file_if_present p s = (Inr r, s')"
  then show "no_file p s'"
    by (cases "faults s") (auto simp: remove_file_if_present_def fs_remove_file_def syscall_def next_fault_def no_file_def
        honest_absence_def split: option.splits node.splits if_splits)
qed

text \<open>The part file of an unchanged file, or of one that is not large, is removed and not made again.\<close>

lemma entry_clears:
  assumes "i |\<in>| unchanged \<or> file_class e \<noteq> Large"
  shows "clears (temporary_path e i) (prepare_update_entry unchanged (i, e))"
    "clears (temporary_path e i) (prepare_resume_entry p done_stripes unchanged reset True (i, e))"
proof -
  show "clears (temporary_path e i) (prepare_update_entry unchanged (i, e))"
    using assms unfolding prepare_update_entry_def prod.case
    by (auto intro!: clears_later [OF gone_parent] clears_now [OF clears_remove] frame_intros)
  show "clears (temporary_path e i) (prepare_resume_entry p done_stripes unchanged reset True (i, e))"
    using assms unfolding prepare_resume_entry_def prod.case
    by (cases "file_class e") (auto intro!: clears_later [OF gone_parent] clears_now [OF clears_remove] clears_remove frame_intros)
qed

lemma entry_stays_gone:
  assumes "k = i \<longrightarrow> k |\<in>| unchanged \<or> file_class e' \<noteq> Large"
  shows "within (stays_gone (temporary_path e i)) (prepare_update_entry unchanged (k, e'))"
    "within (stays_gone (temporary_path e i)) (prepare_resume_entry p done_stripes unchanged reset True (k, e'))"
proof -
  let ?R = "stays_gone (temporary_path e i)"
  have other: "k |\<notin>| unchanged \<Longrightarrow> file_class e' = Large \<Longrightarrow> temporary_path e' k \<noteq> temporary_path e i"
    using assms temporary_path_inj by blast
  show "within ?R (prepare_update_entry unchanged (k, e'))"
    using other unfolding prepare_update_entry_def prod.case
    by (auto intro!: frame_intros gone_parent gone_remove gone_allocate)
  have "within ?R (prepare_resume_large_file k e' p done_stripes b True)" if "k |\<notin>| unchanged" "file_class e' = Large" for b
    using other that unfolding prepare_resume_large_file_def by (intro frame_intros gone_allocate)
  then show "within ?R (prepare_resume_entry p done_stripes unchanged reset True (k, e'))"
    unfolding prepare_resume_entry_def prod.case
    by (cases "file_class e'") (auto intro!: frame_intros gone_parent gone_remove)
qed

lemma preparation_clears:
  assumes "i < length manifest" "i |\<in>| unchanged \<or> file_class (manifest ! i) \<noteq> Large"
  shows "clears (temporary_path (manifest ! i) i) (prepare_update_destination sf fault manifest print streams unchanged)"
    "clears (temporary_path (manifest ! i) i) (prepare_resume_destination sf fault manifest print streams p unchanged reset True)"
proof -
  let ?t = "temporary_path (manifest ! i) i"
  have i: "(i, manifest ! i) \<in> set (enumerated manifest)" using assms(1) by (auto simp: enumerated_def set_zip intro!: exI [of _ i])
  have rest: "k = i \<longrightarrow> k |\<in>| unchanged \<or> file_class e \<noteq> Large" if "(k, e) \<in> set (enumerated manifest)" for k e
    using that assms(2) by (auto simp: enumerated_def set_zip)
  have entries: "clears ?t (fmapM (prepare_update_entry unchanged) (enumerated manifest))"
    "clears ?t (fmapM (prepare_resume_entry p done_stripes unchanged reset True) (enumerated manifest))" for done_stripes
    using rest by (auto intro!: clears_mapM [OF i] entry_clears [OF assms(2)] entry_stays_gone)
  show "clears ?t (prepare_update_destination sf fault manifest print streams unchanged)"
    unfolding prepare_update_destination_def by (intro clears_now [OF entries(1)] gone_journal)
  show "clears ?t (prepare_resume_destination sf fault manifest print streams p unchanged reset True)"
    unfolding prepare_resume_destination_def not_True_eq_False if_False fbind_fret prod.case_distrib [where h = "clears ?t"] case_prod_beta
    by (intro clears_later [OF gone.reads(2)] clears_later [OF gone.pure(4)] clears_later [OF gone.loading] clears_later [OF gone.pure(3)]
        clears_now [OF entries(2)] clears_later [OF gone.if_branches [OF gone_journal(1) gone.pure(1)]] gone.pure)
qed

text \<open>An update that skips files has ended in one of the two preparations, in a state reached by reading only.\<close>

lemma prepare_destination_last:
  assumes "prepare_destination sf fault manifest print streams p UpdateVerified verified s = (Inr (j, unchanged), s')"
    "unchanged \<noteq> {||}"
  shows "\<exists>t. (honest_absence s \<longrightarrow> honest_absence t) \<and>
     (prepare_update_destination sf fault manifest print streams unchanged t = (Inr j, s') \<or>
      (\<exists>reset. prepare_resume_destination sf fault manifest print streams p unchanged reset True t = (Inr (j, unchanged), s')))"
proof -
  have honest: "honest_absence u \<longrightarrow> honest_absence v" if "within (stays_gone []) m" "m u = (r, v)" for m :: "'b fsm" and r u v
    using withinD [OF that] by (simp add: stays_gone_def)
  note h = honest [OF gone.reads(3)] honest [OF gone.reads(2)] honest [OF gone.listing(1)] honest [OF gone.listing(2)]
    honest [OF gone.pure(4)] honest [OF gone.comparing]
  from assms show ?thesis
    unfolding prepare_destination_def Let_def
    by (auto simp: fbind_Inr fret_def flift_def ffail_def split: if_splits dest!: h select_update_sound)
      (metis prepare_resume_keeps_set)+
qed

lemma prepare_destination_clears:
  assumes "prepare_destination sf fault manifest print streams p UpdateVerified verified s = (Inr (j, unchanged), s')"
    "honest_absence s" "k |\<in>| unchanged" "i < length manifest" "i |\<in>| unchanged \<or> file_class (manifest ! i) \<noteq> Large"
  shows "no_file (temporary_path (manifest ! i) i) s'"
proof -
  have "unchanged \<noteq> {||}" using assms(3) by auto
  from prepare_destination_last [OF assms(1) this] assms(2) preparation_clears [OF assms(4,5), unfolded clears_def]
  show ?thesis by blast
qed

text \<open>A destination of two files, and a manifest whose second file has the name of the first one's part file.\<close>

definition name_a :: path where "name_a = [0x61]"
definition name_part :: path where "name_part = name_a @ ncs_part @ [0x30]"

definition sample_entry :: "path \<Rightarrow> ManifestEntry" where
  "sample_entry name = \<lparr>relative_path = name, file_size = 2, last_write_time = 7, file_attributes = 0x20, file_class = Medium\<rparr>"

definition sample_fs :: "path \<Rightarrow> fs" where
  "sample_fs other = \<lparr>nodes = fmap_of_list [([], DirNode 0x10), ([Normal name_a], FileNode [1, 2] 7 0x20),
       ([Normal other], FileNode [3, 4] 7 0x20)],
     faults = [], clock = 9, journal_dir = \<lparr>journal_file = None, temporary_file = None\<rparr>\<rparr>"

lemma sample_paths:
  "path_components name_a = [Normal name_a]" "path_components name_part = [Normal name_part]" "path_components [0x62] = [Normal [0x62]]"
  "path_components (name_a @ ncs_part @ decimal 0) = [Normal name_part]"
  "path_components (name_part @ ncs_part @ decimal 1) = [Normal (name_part @ ncs_part @ [0x31])]"
  "path_components ([0x62] @ ncs_part @ decimal 1) = [Normal ([0x62] @ ncs_part @ [0x31])]"
  by (simp_all add: path_components_def name_a_def name_part_def ncs_part_def decimal.simps 
      is_separator_def slash_def backslash_def full_stop_def name_component_def Let_def)

lemmas fs_eval = fbind_def flift_def fret_def ffail_def fguard_def syscall_def next_fault_def ok_or_def
  try_exists_def fs_metadata_def symlink_metadata_def journal_exists_def has_entries_def inspect_def
  fs_remove_file_def remove_file_if_present_def

lemma sample_nodes:
  assumes "x \<noteq> name_a"
  shows "fmlookup (nodes (sample_fs x)) [] = Some (DirNode 0x10)"
    "fmlookup (nodes (sample_fs x)) [Normal name_a] = Some (FileNode [1, 2] 7 0x20)"
    "fmlookup (nodes (sample_fs x)) [Normal x] = Some (FileNode [3, 4] 7 0x20)"
    "y \<noteq> name_a \<Longrightarrow> y \<noteq> x \<Longrightarrow> fmlookup (nodes (sample_fs x)) [Normal y] = None"
    "faults (sample_fs x) = []" "journal_file (journal_dir (sample_fs x)) = None"
    "\<not> is_reparse (DirNode 0x10)" "\<not> is_reparse (FileNode c t 0x20)"
  using assms by (simp_all add: sample_fs_def is_reparse_def FILE_ATTRIBUTE_REPARSE_POINT_def)

lemma sample_prepare:
  assumes "x = name_part \<or> x = [0x62]"
  shows "\<exists>j d. prepare_destination no_faults None [sample_entry name_a, sample_entry x] 1 4 p UpdateVerified
      (Some {|0, 1|}) (sample_fs x) =
    (Inr (j, {|0, 1|}), (sample_fs x)\<lparr>nodes := fmdrop [Normal name_part] (nodes (sample_fs x)), journal_dir := d\<rparr>)"
proof -
  let ?s = "sample_fs x" and ?m = "[sample_entry name_a, sample_entry x]"
  let ?iv = "\<lparr>inv_unchanged_file_ids = {|1, 0|}, inv_unchanged_bytes = 4, changed_files = 0, missing_files = 0, conflicting_entries = 0\<rparr>"
  have ne: "x \<noteq> name_a" "name_part \<noteq> name_a" "x @ ncs_part @ [0x31] \<noteq> name_a"
    "x @ ncs_part @ [0x31] \<noteq> x" "x @ ncs_part @ [0x31] \<noteq> name_part"
    using assms by (auto simp: name_a_def name_part_def ncs_part_def)
  have paths: "path_components x = [Normal x]" "path_components (x @ ncs_part @ decimal 1) = [Normal (x @ ncs_part @ [0x31])]"
    using assms sample_paths by auto
  note n = sample_nodes [OF ne(1)]
  have cmp: "compare_fast ?m ?s = (Inr ?iv, ?s)"
    by (simp add: compare_fast_def compare_entry_def empty_inventory_def checked_add_def ebind_def fs_eval
        paths sample_paths final_path_def sample_entry_def enumerated_def n)
  define t where "t = ?s\<lparr>nodes := fmdrop [Normal name_part] (nodes ?s)\<rparr>"
  have "fmlookup (nodes t) [Normal (x @ ncs_part @ [0x31])] = None" "faults t = []"
    using ne n(4,5) by (simp_all add: t_def)
  moreover have "remove_file_if_present [Normal name_part] ?s = (Inr (), t)"
  proof (cases "x = name_part")
    case True
    then show ?thesis using n(3,5) by (simp add: t_def fs_eval)
  next
    case False
    then have "fmlookup (nodes ?s) [Normal name_part] = None" using n(4) ne(2) by simp
    then have "fmdrop [Normal name_part] (nodes ?s) = nodes ?s" by (intro fmap_ext) auto
    with \<open>fmlookup (nodes ?s) [Normal name_part] = None\<close> show ?thesis using n(5) by (simp add: t_def fs_eval)
  qed
  ultimately have upd: "fmapM (prepare_update_entry {|0, 1|}) (enumerated ?m) ?s = (Inr (), t)"
    by (simp add: enumerated_def prepare_update_entry_def create_destination_parent_def final_path_def temporary_path_def
        sample_entry_def paths paths(2) [simplified] sample_paths fbind_def fret_def) (simp add: fs_eval)
  obtain j d where j: "new_journal no_faults None 1 4 t = (Inr j, t\<lparr>journal_dir := d\<rparr>)"
    using new_journal_succeeds [of 4 1 t] by auto
  have "fBex (fmdom (nodes ?s)) (\<lambda>p. length p = 1)" using fmdomI [OF n(2)] by (intro fBexI) simp_all
  then have "try_exists [] ?s = (Inr True, ?s)" "fs_metadata [] ?s = (Inr (DirNode 0x10), ?s)"
      "journal_exists ?s = (Inr False, ?s)" "has_entries ?s = (Inr True, ?s)"
    by (auto simp: fs_eval n)
  moreover have "prepare_update_destination no_faults None ?m 1 4 {|0, 1|} ?s = (Inr j, t\<lparr>journal_dir := d\<rparr>)"
    using upd j by (simp add: prepare_update_destination_def fbind_def)
  moreover have "select_update_file_sets UpdateVerified ?iv (Some {|0, 1|}) = Inr ({|0, 1|}, {||})"
    by (auto simp: select_update_file_sets_def ebind_def ok_or_def)
  ultimately show ?thesis
    using cmp unfolding prepare_destination_def Let_def
    by (intro exI [of _ j] exI [of _ d])
      (simp add: fbind_def fguard_def fret_def flift_def validate_update_inventory_def t_def)
qed

text \<open>One step of a program that has changed nothing so far.\<close>

lemma quiet_bind:
  assumes "within unchanged_fs m" "unchanged_fs s0 s"
    and "\<And>a t. m s = (Inr a, t) \<Longrightarrow> unchanged_fs s0 t \<Longrightarrow> Q (f a t)"
    and "\<And>e t. unchanged_fs s0 t \<Longrightarrow> Q (Inl e, t)"
  shows "Q (fbind m f s)"
proof -
  obtain r t where r: "m s = (r, t)" by force
  have "unchanged_fs s0 t" using withinD [OF assms(1) r] assms(2) by (auto simp: unchanged_fs_def)
  with assms(3,4) r show ?thesis by (cases r) (simp_all add: fbind_def)
qed

lemma query_Inr:
  "try_exists q s = (Inr b, t) \<Longrightarrow> b \<longleftrightarrow> Option.bind (fmlookup (nodes s) q) resolve \<noteq> None"
  "fs_metadata q s = (Inr n, t) \<Longrightarrow> Option.bind (fmlookup (nodes s) q) resolve = Some n"
  "journal_exists s = (Inr b, t) \<Longrightarrow> b \<longleftrightarrow> journal_file (journal_dir s) \<noteq> None"
  "has_entries s = (Inr b, t) \<Longrightarrow> fBex (fmdom (nodes s)) (\<lambda>p. length p = 1) \<Longrightarrow> b"
  by (auto simp: fs_eval split: list.splits option.splits)

text \<open>C7.  Preparing an update destroys nothing.  Whatever operating-system calls fail, and whether the update starts or
  resumes, every file and directory the destination already has is still there as it was after the preparation, except the
  part files of the transfer itself: the old contents of a file stay until its replacement is complete.\<close>

theorem update_keeps_destination:
  assumes "fmlookup (nodes s) q = Some n" "q \<notin> part_files manifest"
  shows "fmlookup (nodes (snd (prepare_destination sf fault manifest print streams p UpdateVerified verified s))) q = Some n"
  using keeps_prepare_destination [of manifest sf fault print streams p verified] assms
  by (simp add: within_def kept_def)

theorem update_keeps_destination_witness:
  "fmlookup (nodes (snd (prepare_destination no_faults None [sample_entry name_a] 1 4 \<lparr>lanes = []\<rparr> UpdateVerified
     (Some {|0|}) (sample_fs [0x62])))) [Normal [0x62]] = Some (FileNode [3, 4] 7 0x20)"
proof (rule update_keeps_destination)
  show "fmlookup (nodes (sample_fs [0x62])) [Normal [0x62]] = Some (FileNode [3, 4] 7 0x20)"
    by (simp add: sample_fs_def name_a_def)
  show "[Normal [0x62]] \<notin> part_files [sample_entry name_a]"
    using sample_paths(4) by (simp add: part_files_def temporary_path_def sample_entry_def lessThan_Suc name_part_def name_a_def)
qed

text \<open>  A file is left out of an update only when it matches.  Every file the preparation of an update reports as unchanged was
  verified by the peer and stood in the destination as a regular file with the size and time stamp of the manifest; and
  unless its name is that of a part file, it still stands there.\<close>

theorem update_skips_matching_files:
  assumes "prepare_destination sf fault manifest print streams p UpdateVerified verified s = (Inr (j, unchanged), s')"
    "k |\<in>| unchanged"
  shows "verified = Some unchanged \<and> k < length manifest \<and>
    (\<exists>n. fmlookup (nodes s) (final_path (manifest ! k)) = Some n \<and> matches n (manifest ! k) \<and>
      (final_path (manifest ! k) \<in> part_files manifest \<or> fmlookup (nodes s') (final_path (manifest ! k)) = Some n))"
proof -
  have "unchanged \<noteq> {||}" using assms(2) by auto
  with prepare_destination_unchanged [OF assms(1)] obtain iv s1 s2 where
      c: "compare_fast manifest s1 = (Inr iv, s2)" "nodes s1 = nodes s" and v: "verified = Some unchanged"
    and k: "k |\<in>| inv_unchanged_file_ids iv" using assms(2) by blast
  have "kept (part_files manifest) s s'" using withinD [OF keeps_prepare_destination assms(1)] .
  with compare_fast_sound [OF c(1) k] c(2) v show ?thesis by (auto simp: kept_def)
qed

theorem update_skips_matching_files_witness:
  "\<exists>j s'. prepare_destination no_faults None [sample_entry name_a, sample_entry [0x62]] 1 4 \<lparr>lanes = []\<rparr> UpdateVerified
     (Some {|0, 1|}) (sample_fs [0x62]) = (Inr (j, {|0, 1|}), s') \<and>
   (\<exists>n. matches n (sample_entry [0x62]) \<and> fmlookup (nodes s') [Normal [0x62]] = Some n)"
proof -
  let ?m = "[sample_entry name_a, sample_entry [0x62]]" and ?p = "\<lparr>lanes = []\<rparr>"
  obtain j s' where r: "prepare_destination no_faults None ?m 1 4 ?p UpdateVerified (Some {|0, 1|}) (sample_fs [0x62]) =
      (Inr (j, {|0, 1|}), s')" using sample_prepare [of "[0x62]"] by blast
  have one: "1 |\<in>| {|0, 1 :: nat|}" by simp
  have f: "final_path (?m ! 1) = [Normal [0x62]]" by (simp add: final_path_def sample_entry_def sample_paths)
  have "[Normal [0x62]] \<notin> part_files ?m"
    using sample_paths(4,6)
    by (simp add: part_files_def temporary_path_def sample_entry_def lessThan_Suc name_part_def name_a_def ncs_part_def)
  with update_skips_matching_files [OF r one] f r show ?thesis by auto
qed

text \<open>  A fresh transfer never enters a directory that is in use.  When the destination holds anything and no resume journal,
  the preparation of a fresh transfer fails, whatever else fails, and leaves the destination and its journal files untouched.\<close>

theorem fresh_refuses_occupied:
  assumes "fmlookup (nodes s) [] = Some (DirNode a)" "fmlookup (nodes s) [c] = Some n" "journal_file (journal_dir s) = None"
  shows "\<exists>e s'. prepare_destination sf fault manifest print streams p Fresh verified s = (Inl e, s') \<and> unchanged_fs s s'"
proof -
  define Q :: "(ResumeJournal \<times> usize fset) io_result \<times> fs \<Rightarrow> bool"
    where "Q x \<longleftrightarrow> (\<exists>e s'. x = (Inl e, s') \<and> unchanged_fs s s')" for x
  have failed: "unchanged_fs s t \<Longrightarrow> Q (Inl e, t)" for e t by (simp add: Q_def)
  have occupied: "fBex (fmdom (nodes s)) (\<lambda>p. length p = 1)" using fmdomI [OF assms(2)] by (intro fBexI) simp_all
  have seen: "Option.bind (fmlookup (nodes t) []) resolve = Some (DirNode a)" "fBex (fmdom (nodes t)) (\<lambda>p. length p = 1)"
      "journal_file (journal_dir t) = None" if "unchanged_fs s t" for t
    using that assms occupied by (simp_all add: unchanged_fs_def)
  have exists: "Q (fbind (try_exists []) f t)" if "unchanged_fs s t" "\<And>t. unchanged_fs s t \<Longrightarrow> Q (f True t)" for f t
    using that seen(1) [OF that(1)] by (intro quiet_bind [where Q = Q, OF quiet.reads(3) that(1)]) (auto simp: failed dest!: query_Inr(1))
  have root: "Q (fbind (fs_metadata []) f t)" if "unchanged_fs s t" "\<And>t. unchanged_fs s t \<Longrightarrow> Q (f (DirNode a) t)" for f t
    using that seen(1) [OF that(1)] by (intro quiet_bind [where Q = Q, OF quiet.reads(2) that(1)]) (auto simp: failed dest!: query_Inr(2))
  have journal: "Q (fbind journal_exists f t)" if "unchanged_fs s t" "\<And>t. unchanged_fs s t \<Longrightarrow> Q (f False t)" for f t
    using that seen(3) [OF that(1)] by (intro quiet_bind [where Q = Q, OF quiet.listing(2) that(1)]) (auto simp: failed dest!: query_Inr(3))
  have entries: "Q (fbind has_entries f t)" if "unchanged_fs s t" "\<And>t. unchanged_fs s t \<Longrightarrow> Q (f True t)" for f t
    using that seen(2) [OF that(1)] by (intro quiet_bind [where Q = Q, OF quiet.listing(1) that(1)]) (auto simp: failed dest!: query_Inr(4))
  have refused: "Q (fbind (compare_fast manifest) (\<lambda>_. ffail AlreadyExists) t)" if "unchanged_fs s t" for t
    by (rule quiet_bind [where Q = Q, OF quiet.comparing that]) (simp_all add: ffail_def failed)
  have guard: "fbind (fguard (is_dir (DirNode a)) InvalidInput) f = f ()" for f :: "unit \<Rightarrow> 'x fsm"
    by (rule ext) (simp add: fbind_def fguard_def fret_def)
  have "Q (prepare_destination sf fault manifest print streams p Fresh verified s)"
    unfolding prepare_destination_def Let_def
    by (rule exists [OF quiet.frame_refl], simp only: not_True_eq_False if_False, erule root, unfold guard,
        erule journal, simp only: if_False, erule entries, simp only: not_True_eq_False if_False if_True simp_thms, erule refused)
  then show ?thesis by (simp add: Q_def)
qed

theorem fresh_refuses_occupied_witness:
  "\<exists>e s'. prepare_destination no_faults None [sample_entry name_a] 1 4 \<lparr>lanes = []\<rparr> Fresh None (sample_fs [0x62]) = (Inl e, s') \<and>
     unchanged_fs (sample_fs [0x62]) s'"
proof (rule fresh_refuses_occupied)
  have "[0x62] \<noteq> name_a" by (simp add: name_a_def)
  note n = sample_nodes [OF this]
  show "fmlookup (nodes (sample_fs [0x62])) [] = Some (DirNode 0x10)" by (rule n)
  show "fmlookup (nodes (sample_fs [0x62])) [Normal name_a] = Some (FileNode [1, 2] 7 0x20)" by (rule n)
  show "journal_file (journal_dir (sample_fs [0x62])) = None" by (rule n)
qed

text \<open>
  C30. The exception of the part files is not idle.  When the preparation of an update succeeds and reports a file
  \<open>k\<close> as unchanged, whose name is the part-file name of a file \<open>i\<close> that is itself unchanged or not large, then the
  verified file stood there before, as a regular file of the announced size and time stamp, and there is no
  file after the preparation: it is deleted, and being unchanged it is not sent again.  The one assumption on
  the operating system is that no call reports an existing file as missing.\<close>

theorem part_file_name_collision:
  assumes "prepare_destination sf fault manifest print streams p UpdateVerified verified s = (Inr (j, unchanged), s')"
    "honest_absence s" "k |\<in>| unchanged" "i < length manifest"
    "final_path (manifest ! k) = temporary_path (manifest ! i) i" "i |\<in>| unchanged \<or> file_class (manifest ! i) \<noteq> Large"
  shows "verified = Some unchanged \<and>
     (\<exists>n. fmlookup (nodes s) (final_path (manifest ! k)) = Some n \<and> matches n (manifest ! k)) \<and>
     no_file (final_path (manifest ! k)) s'"
proof -
  have "unchanged \<noteq> {||}" using assms(3) by auto
  with prepare_destination_unchanged [OF assms(1)] obtain iv s1 s2 where
      c: "compare_fast manifest s1 = (Inr iv, s2)" "nodes s1 = nodes s" and v: "verified = Some unchanged"
    and k: "k |\<in>| inv_unchanged_file_ids iv" using assms(3) by blast
  from compare_fast_sound [OF c(1) k] c(2) prepare_destination_clears [OF assms(1-4,6)] v show ?thesis
    by (auto simp: assms(5))
qed

theorem part_file_name_collision_witness:
  "\<exists>j s'. prepare_destination no_faults None [sample_entry name_a, sample_entry name_part] 1 4 \<lparr>lanes = []\<rparr>
       UpdateVerified (Some {|0, 1|}) (sample_fs name_part) = (Inr (j, {|0, 1|}), s') \<and>
     (\<exists>n. fmlookup (nodes (sample_fs name_part)) [Normal name_part] = Some n \<and> matches n (sample_entry name_part)) \<and>
     no_file [Normal name_part] s'"
proof -
  let ?m = "[sample_entry name_a, sample_entry name_part]"
  obtain j d where r: "prepare_destination no_faults None ?m 1 4 \<lparr>lanes = []\<rparr>
       UpdateVerified (Some {|0, 1|}) (sample_fs name_part) = (Inr (j, {|0, 1|}),
      (sample_fs name_part)\<lparr>nodes := fmdrop [Normal name_part] (nodes (sample_fs name_part)), journal_dir := d\<rparr>)"
    using sample_prepare [of name_part] by blast
  have paths: "final_path (?m ! 1) = [Normal name_part]" "temporary_path (?m ! 0) 0 = [Normal name_part]"
    using sample_paths(2,4) by (simp_all add: final_path_def temporary_path_def sample_entry_def)
  have honest: "honest_absence (sample_fs name_part)" by (simp add: honest_absence_def sample_fs_def)
  from part_file_name_collision [OF r honest, of 1 0] r paths show ?thesis by auto
qed

end
