(* ===== verification/Update_Verification.thy ===== *)
theory Update_Verification
  imports Destination_Prep
begin

text \<open>
  The content check of files that look unchanged, from \<^verbatim>\<open>src/update_verification.rs\<close> and
  \<^verbatim>\<open>src/multistream_copy.rs\<close>: both sides hash the candidates, the sender answers with the files whose digests
  agree.  The receiver is modelled against any peer; the theorems connect it with the sender.  Cancellation checks
  are arguments.  No other program writes to the files meanwhile.
\<close>

definition HASH_BUFFER_BYTES :: nat where "HASH_BUFFER_BYTES = 1024 * 1024"
definition MESSAGE_UPDATE_VERIFY_REQUEST :: u8 where "MESSAGE_UPDATE_VERIFY_REQUEST = 0x35"
definition MESSAGE_UPDATE_VERIFY_RESPONSE :: u8 where "MESSAGE_UPDATE_VERIFY_RESPONSE = 0x37"
definition MESSAGE_FRESH_RESUME_VERIFY_REQUEST :: u8 where "MESSAGE_FRESH_RESUME_VERIFY_REQUEST = 0x41"
definition MESSAGE_FRESH_RESUME_VERIFY_RESPONSE :: u8 where "MESSAGE_FRESH_RESUME_VERIFY_RESPONSE = 0x42"

section \<open>Hashing the candidates\<close>

record CandidateSnapshot =
  snapshot_file_size :: u64
  snapshot_last_write_time :: u64

definition inspect_candidate :: "fpath \<Rightarrow> u64 \<Rightarrow> CandidateSnapshot fsm" where
  "inspect_candidate p expected_size =
     fbind (symlink_metadata p) (\<lambda>n.
     fbind (fguard (\<not> (is_reparse n \<or> \<not> is_file n)) InvalidData) (\<lambda>_.
     fbind (fguard (node_len n = expected_size) InvalidData) (\<lambda>_.
       fret \<lparr>snapshot_file_size = node_len n, snapshot_last_write_time = node_time n\<rparr>)))"

text \<open>The loop that feeds the hasher buffer by buffer ends at the end of the file.\<close>

function hash_buffers :: "nat \<Rightarrow> byte list \<Rightarrow> byte list \<Rightarrow> byte list" where
  "hash_buffers buffer_len hashed contents =
     (if buffer_len = 0 \<or> take buffer_len contents = [] then hashed
      else hash_buffers buffer_len (hashed @ take buffer_len contents) (drop buffer_len contents))"
  by pat_completeness auto
termination by (relation "measure (\<lambda>(b, h, c). length c)") auto

declare hash_buffers.simps [simp del]

definition hash_file :: "libs \<Rightarrow> fpath \<Rightarrow> digest fsm" where
  "hash_file lib p = fbind (read_contents p) (\<lambda>c. fret (blake3 lib (hash_buffers HASH_BUFFER_BYTES [] c)))"

definition hash_candidate :: "libs \<Rightarrow> ManifestEntry list \<Rightarrow> usize \<Rightarrow> (usize, digest) fmap \<Rightarrow> (usize, digest) fmap fsm" where
  "hash_candidate lib manifest i digests =
     fbind (flift (ok_or InvalidData (manifest_get manifest i))) (\<lambda>e.
     fbind (inspect_candidate (final_path e) (file_size e)) (\<lambda>before.
     fbind (hash_file lib (final_path e)) (\<lambda>d.
     fbind (inspect_candidate (final_path e) (file_size e)) (\<lambda>after.
     fbind (fguard (before = after) Interrupted) (\<lambda>_.
     fbind (fguard (fmlookup digests i = None) OtherError) (\<lambda>_.
       fret (fmupd i d digests)))))))"

fun hash_ids :: "libs \<Rightarrow> ManifestEntry list \<Rightarrow> usize list \<Rightarrow> (usize, digest) fmap \<Rightarrow> (usize, digest) fmap fsm" where
  "hash_ids lib manifest [] digests = fret digests"
| "hash_ids lib manifest (i # is) digests = fbind (hash_candidate lib manifest i digests) (hash_ids lib manifest is)"

definition hash_candidates :: "libs \<Rightarrow> ManifestEntry list \<Rightarrow> usize fset \<Rightarrow> (usize, digest) fmap fsm" where
  "hash_candidates lib manifest ids = hash_ids lib manifest (sorted_list_of_fset ids) fmempty"

definition matching_candidates :: "(usize, digest) fmap \<Rightarrow> (usize, digest) fmap \<Rightarrow> usize fset io_result" where
  "matching_candidates destination_digests source_digests =
     (if fmdom destination_digests \<noteq> fmdom source_digests then Inl InvalidData
      else Inr (ffilter (\<lambda>i. fmlookup destination_digests i = fmlookup source_digests i) (fmdom destination_digests)))"

section \<open>The sender\<close>

definition respond_to_verification_request ::
    "libs \<Rightarrow> unit io_result \<Rightarrow> ManifestEntry list \<Rightarrow> u8 \<Rightarrow> byte list \<Rightarrow> (byte list \<times> byte list) fsm" where
  "respond_to_verification_request lib cancelled manifest response_message bs =
     fbind (flift (read_verification_request bs)) (\<lambda>(destination_digests, rest).
     fbind (flift (validate_unchanged_offer manifest (fmdom destination_digests))) (\<lambda>_.
     fbind (flift cancelled) (\<lambda>_.
     fbind (hash_candidates lib manifest (fmdom destination_digests)) (\<lambda>source_digests.
     fbind (flift (matching_candidates destination_digests source_digests)) (\<lambda>matching.
     fbind (flift (write_verification_response response_message matching)) (\<lambda>out.
       fret (out, rest)))))))"

text \<open>
  The sender reads the kind of the message first; a request before a fresh resume and one before an update have
  different answers.  Any other message belongs to the next phase.
\<close>

definition answer_verification :: "libs \<Rightarrow> unit io_result \<Rightarrow> ManifestEntry list \<Rightarrow> byte list \<Rightarrow> (byte list \<times> byte list) fsm" where
  "answer_verification lib cancelled manifest bs =
     fbind (flift (read_u8 bs)) (\<lambda>(message, body).
       if message = MESSAGE_FRESH_RESUME_VERIFY_REQUEST
       then respond_to_verification_request lib cancelled manifest MESSAGE_FRESH_RESUME_VERIFY_RESPONSE body
       else if message = MESSAGE_UPDATE_VERIFY_REQUEST
       then respond_to_verification_request lib cancelled manifest MESSAGE_UPDATE_VERIFY_RESPONSE body
       else fret ([], bs))"

text \<open>What arrives at the receiver: the answer, or the end of the stream when the sender fails.\<close>

definition sender_answers :: "libs \<Rightarrow> unit io_result \<Rightarrow> ManifestEntry list \<Rightarrow> fs \<Rightarrow> byte list \<Rightarrow> byte list" where
  "sender_answers lib cancelled manifest source bs =
     (case fst (answer_verification lib cancelled manifest bs source) of Inl _ \<Rightarrow> [] | Inr (out, _) \<Rightarrow> out)"

section \<open>The receiver\<close>

text \<open>The peer, a function from the request to the bytes that come back, is an argument.\<close>

definition negotiate_verified_unchanged_files ::
    "libs \<Rightarrow> unit io_result \<Rightarrow> unit io_result \<Rightarrow> ManifestEntry list \<Rightarrow> (byte list \<Rightarrow> byte list) \<Rightarrow> usize fset fsm" where
  "negotiate_verified_unchanged_files lib before_hashing after_answer manifest peer =
     fbind (try_exists []) (\<lambda>root_exists.
       if \<not> root_exists then fret {||}
       else
         fbind (compare_fast manifest) (\<lambda>iv.
         fbind (flift (validate_update_inventory iv)) (\<lambda>_.
         (let candidates = inv_unchanged_file_ids iv in
           if candidates = {||} then fret candidates
           else
             fbind (flift before_hashing) (\<lambda>_.
             fbind (hash_candidates lib manifest candidates) (\<lambda>destination_digests.
             fbind (flift (write_verification_request MESSAGE_UPDATE_VERIFY_REQUEST destination_digests)) (\<lambda>request.
             fbind (flift (read_verification_response MESSAGE_UPDATE_VERIFY_RESPONSE (peer request))) (\<lambda>(matching, _).
             fbind (fguard (matching |\<subseteq>| candidates) InvalidData) (\<lambda>_.
             fbind (flift after_answer) (\<lambda>_.
               fret matching))))))))))"

definition negotiate_verified_fresh_resume_files ::
    "libs \<Rightarrow> unit io_result \<Rightarrow> unit io_result \<Rightarrow> error_kind option \<Rightarrow> ManifestEntry list \<Rightarrow> u64 \<Rightarrow> usize \<Rightarrow>
     (byte list \<Rightarrow> byte list) \<Rightarrow> unit fsm" where
  "negotiate_verified_fresh_resume_files lib before_hashing after_answer fault manifest print streams peer =
     fbind (try_exists []) (\<lambda>root_exists.
       if \<not> root_exists then fret ()
       else
         fbind journal_exists (\<lambda>resuming.
           if \<not> resuming then fret ()
           else
             fbind (journal_load fault print streams) (\<lambda>j.
             (let completed = completed_file_ids j in
               if completed = {||} then fret ()
               else
                 fbind (validate_fresh_resume_committed_files manifest completed) (\<lambda>_.
                 fbind (flift before_hashing) (\<lambda>_.
                 fbind (hash_candidates lib manifest completed) (\<lambda>destination_digests.
                 fbind (flift (write_verification_request MESSAGE_FRESH_RESUME_VERIFY_REQUEST destination_digests)) (\<lambda>request.
                 fbind (flift (read_verification_response MESSAGE_FRESH_RESUME_VERIFY_RESPONSE (peer request))) (\<lambda>(matching, _).
                 fbind (fguard (matching |\<subseteq>| completed) InvalidData) (\<lambda>_.
                 fbind (fguard (matching = completed) InvalidData) (\<lambda>_.
                   flift after_answer)))))))))))"

section \<open>Digests of equal files\<close>

lemma hash_buffers_all: "b \<noteq> 0 \<Longrightarrow> hash_buffers b h c = h @ c"
proof (induction b h c rule: hash_buffers.induct)
  case (1 b h c)
  show ?case
  proof (cases "take b c = []")
    case True
    then show ?thesis using 1(2) by (subst hash_buffers.simps) simp
  next
    case False
    then show ?thesis using 1 by (subst hash_buffers.simps) simp
  qed
qed

text \<open>\<open>hashes lib manifest s i d\<close>: file \<open>i\<close> is a regular file with the size of the manifest and digest \<open>d\<close>.\<close>

definition hashes :: "libs \<Rightarrow> ManifestEntry list \<Rightarrow> fs \<Rightarrow> usize \<Rightarrow> digest \<Rightarrow> bool" where
  "hashes lib manifest s i d \<longleftrightarrow> i < length manifest \<and>
     (\<exists>c t a. fmlookup (nodes s) (final_path (manifest ! i)) = Some (FileNode c t a) \<and>
        of_nat (length c) = file_size (manifest ! i) \<and> d = blake3 lib c)"

lemma read_contents_Inr:
  "read_contents p s = (Inr c, t) \<Longrightarrow> \<exists>n m a. Option.bind (fmlookup (nodes s) p) resolve = Some (FileNode c m a)"
  by (auto simp: read_contents_def syscall_def next_fault_def split: list.splits option.splits node.splits)

lemma inspect_candidate_Inr:
  assumes "inspect_candidate p k s = (Inr snap, t)"
  shows "\<exists>c m a. fmlookup (nodes s) p = Some (FileNode c m a) \<and> of_nat (length c) = k"
proof -
  from assms obtain n s1 where n: "symlink_metadata p s = (Inr n, s1)" "is_file n" "node_len n = k"
    by (auto simp: inspect_candidate_def fbind_Inr fguard_def fret_def ffail_def split: if_splits)
  then have "fmlookup (nodes s) p = Some n"
    by (auto simp: symlink_metadata_def syscall_def next_fault_def ok_or_def split: list.splits option.splits)
  with n show ?thesis by (cases n) auto
qed

context fs_frame
begin

lemma hashing [frame_intros]: "within R (inspect_candidate p k)" "within R (hash_file lib p)"
  unfolding inspect_candidate_def hash_file_def by (intro bind pure reads)+

lemma hashing_all: "within R (hash_ids lib manifest is m)"
proof (induction "is" arbitrary: m)
  case (Cons i "is")
  have "within R (hash_candidate lib manifest i m)"
    unfolding hash_candidate_def by (intro bind pure hashing)
  then show ?case using Cons.IH by (auto intro: bind)
qed (simp add: pure)

lemma hashing_candidates [frame_intros]: "within R (hash_candidates lib manifest ids)"
  unfolding hash_candidates_def by (rule hashing_all)

end

lemma hash_candidate_Inr:
  assumes "hash_candidate lib manifest i m s = (Inr m', s')"
  shows "\<exists>d. m' = fmupd i d m \<and> fmlookup m i = None \<and> hashes lib manifest s i d" "nodes s' = nodes s"
proof -
  from assms obtain e b s1 d s2 b' s3 where e: "manifest_get manifest i = Some e"
    and i: "inspect_candidate (final_path e) (file_size e) s = (Inr b, s1)" and h: "hash_file lib (final_path e) s1 = (Inr d, s2)"
    and i2: "inspect_candidate (final_path e) (file_size e) s2 = (Inr b', s3)"
    and m: "m' = fmupd i d m" "fmlookup m i = None" "s' = s3"
    by (auto simp: hash_candidate_def fbind_Inr flift_def ok_or_Inr fguard_def fret_def ffail_def split: if_splits)
  have n: "nodes s1 = nodes s" "nodes s2 = nodes s1" "nodes s3 = nodes s2"
    using quiet_nodes [OF quiet.hashing(1) i] quiet_nodes [OF quiet.hashing(2) h] quiet_nodes [OF quiet.hashing(1) i2] by auto
  with m show "nodes s' = nodes s" by simp
  from inspect_candidate_Inr [OF i] obtain c t a where
    c: "fmlookup (nodes s) (final_path e) = Some (FileNode c t a)" "of_nat (length c) = file_size e" by blast
  from h obtain c' where "read_contents (final_path e) s1 = (Inr c', s2)" "d = blake3 lib (hash_buffers HASH_BUFFER_BYTES [] c')"
    by (auto simp: hash_file_def fbind_Inr fret_def)
  with read_contents_Inr c(1) n(1) have "d = blake3 lib c"
    by (fastforce simp: hash_buffers_all HASH_BUFFER_BYTES_def)
  with c e m show "\<exists>d. m' = fmupd i d m \<and> fmlookup m i = None \<and> hashes lib manifest s i d"
    by (auto simp: hashes_def manifest_get_def split: if_splits)
qed

lemma hashes_nodes: "nodes s = nodes t \<Longrightarrow> hashes lib manifest s = hashes lib manifest t"
  by (rule ext)+ (simp add: hashes_def)

lemma hash_ids_Inr:
  "hash_ids lib manifest is m s = (Inr m', s') \<Longrightarrow>
   fmdom m' = fmdom m |\<union>| fset_of_list is \<and> (\<forall>i d. fmlookup m' i = Some d \<longrightarrow> fmlookup m i = Some d \<or> hashes lib manifest s i d)"
proof (induction "is" arbitrary: m s)
  case Nil
  then show ?case by (simp add: fret_def)
next
  case (Cons i "is")
  from Cons.prems obtain m1 s1 where m1: "hash_candidate lib manifest i m s = (Inr m1, s1)"
    and r: "hash_ids lib manifest is m1 s1 = (Inr m', s')" by (auto simp: fbind_Inr)
  from hash_candidate_Inr(1) [OF m1] obtain d where d: "m1 = fmupd i d m" "hashes lib manifest s i d" by blast
  have "hashes lib manifest s1 = hashes lib manifest s" using hashes_nodes [OF hash_candidate_Inr(2) [OF m1]] .
  with Cons.IH [OF r] d show ?case by (auto split: if_splits)
qed

lemma hash_candidates_Inr:
  assumes "hash_candidates lib manifest ids s = (Inr m, s')"
  shows "fmdom m = ids" "\<And>i d. fmlookup m i = Some d \<Longrightarrow> hashes lib manifest s i d"
proof -
  have "fset_of_list (sorted_list_of_fset ids) = ids" by (simp add: fset_eq_iff fset_of_list_elem sorted_list_of_fset.rep_eq)
  with hash_ids_Inr [OF assms [unfolded hash_candidates_def]]
  show "fmdom m = ids" "\<And>i d. fmlookup m i = Some d \<Longrightarrow> hashes lib manifest s i d" by auto
qed

section \<open>The exchange\<close>

lemma matching_candidates_Inr:
  assumes "matching_candidates m m' = Inr S"
  shows "S |\<subseteq>| fmdom m \<and> (\<forall>i. i |\<in>| S \<longrightarrow> fmlookup m i = fmlookup m' i)"
proof -
  have "S = ffilter (\<lambda>i. fmlookup m i = fmlookup m' i) (fmdom m)"
    using assms by (simp add: matching_candidates_def split: if_splits)
  then show ?thesis by auto
qed

lemma respond_Inr:
  assumes "respond_to_verification_request lib c manifest msg bs src = (Inr (out, rest), src')"
    "read_verification_request bs = Inr (m, r)"
  shows "\<exists>S. write_verification_response msg S = Inr out \<and> S |\<subseteq>| fmdom m \<and>
    (\<forall>i. i |\<in>| S \<longrightarrow> (\<exists>d. fmlookup m i = Some d \<and> hashes lib manifest src i d))"
proof -
  from assms obtain m' S s1 where h: "hash_candidates lib manifest (fmdom m) src = (Inr m', s1)"
    and S: "matching_candidates m m' = Inr S" and w: "write_verification_response msg S = Inr out"
    by (auto simp: respond_to_verification_request_def fbind_Inr flift_def fret_def)
  have "\<exists>d. fmlookup m i = Some d \<and> hashes lib manifest src i d" if i: "i |\<in>| S" for i
  proof -
    have "i |\<in>| fmdom m" "fmlookup m i = fmlookup m' i" using matching_candidates_Inr [OF S] i by auto
    then obtain d where "fmlookup m i = Some d" "fmlookup m' i = Some d" by (auto simp: fmlookup_dom_iff)
    then show ?thesis using hash_candidates_Inr(2) [OF h] by blast
  qed
  then show ?thesis using w matching_candidates_Inr [OF S] by blast
qed

lemma answer_message:
  assumes "(q, a) \<in> {(MESSAGE_UPDATE_VERIFY_REQUEST, MESSAGE_UPDATE_VERIFY_RESPONSE),
      (MESSAGE_FRESH_RESUME_VERIFY_REQUEST, MESSAGE_FRESH_RESUME_VERIFY_RESPONSE)}" "req = q # body"
  shows "answer_verification lib c manifest req = respond_to_verification_request lib c manifest a body"
  using assms by (auto simp: fun_eq_iff answer_verification_def fbind_def flift_def read_u8_def read_be_def read_exact_def
      rbind_def from_be_bytes_def MESSAGE_UPDATE_VERIFY_REQUEST_def MESSAGE_FRESH_RESUME_VERIFY_REQUEST_def)

lemma exchange_sound:
  assumes "libs_ok lib" "hash_candidates lib manifest ids s = (Inr m, s1)" "write_verification_request q m = Inr req"
    and qa: "(q, a) \<in> {(MESSAGE_UPDATE_VERIFY_REQUEST, MESSAGE_UPDATE_VERIFY_RESPONSE),
        (MESSAGE_FRESH_RESUME_VERIFY_REQUEST, MESSAGE_FRESH_RESUME_VERIFY_RESPONSE)}"
    and r: "read_verification_response a (sender_answers lib c manifest src req) = Inr (S, rest)"
  shows "\<forall>i. i |\<in>| S \<longrightarrow> (\<exists>d. hashes lib manifest s i d \<and> hashes lib manifest src i d)"
proof -
  note dest = hash_candidates_Inr [OF assms(2)]
  have digests: "\<forall>i d. fmlookup m i = Some d \<longrightarrow> length d = CONTENT_DIGEST_BYTES"
    using dest(2) assms(1) by (fastforce simp: hashes_def libs_ok_def)
  obtain body where req: "req = q # body" "read_verification_request body = Inr (m, [])"
    using verification_request_round_trip [OF assms(3) digests] by (metis append_Nil2)
  note msg = answer_message [OF qa req(1), of lib c manifest]
  obtain res src' where res: "respond_to_verification_request lib c manifest a body src = (res, src')" by force
  show ?thesis
  proof (cases res)
    case (Inl e)
    then show ?thesis using r by (simp add: sender_answers_def msg res read_verification_response_def rbind_def read_u8_def
          read_be_def read_exact_def)
  next
    case (Inr x)
    then obtain out rest' where x: "res = Inr (out, rest')" by force
    from respond_Inr [OF res [unfolded x] req(2)] obtain T where T: "write_verification_response a T = Inr out" "T |\<subseteq>| fmdom m"
      "\<forall>i. i |\<in>| T \<longrightarrow> (\<exists>d. fmlookup m i = Some d \<and> hashes lib manifest src i d)" by blast
    from verification_exchange [OF assms(3) digests T(2), of a] T(1) have "read_verification_response a out = Inr (T, [])" by auto
    with r x have "S = T" by (simp add: sender_answers_def msg res)
    with T(3) dest(2) show ?thesis by blast
  qed
qed


text \<open>One file, the same on both sides.\<close>

lemma sample_hash:
  assumes "nodes s = nodes (sample_fs [0x62])" "faults s = []"
  shows "compare_fast [sample_entry name_a] s = (Inr \<lparr>inv_unchanged_file_ids = {|0|}, inv_unchanged_bytes = 2, changed_files = 0,
      missing_files = 0, conflicting_entries = 0\<rparr>, s)"
    and "hash_candidates identity_libs [sample_entry name_a] {|0|} s = (Inr (fmupd 0 (blake3 identity_libs [1, 2]) fmempty), s)"
proof -
  have ne: "[0x62] \<noteq> name_a" by (simp add: name_a_def)
  note n = sample_nodes [OF ne]
  show "compare_fast [sample_entry name_a] s = (Inr \<lparr>inv_unchanged_file_ids = {|0|}, inv_unchanged_bytes = 2, changed_files = 0,
      missing_files = 0, conflicting_entries = 0\<rparr>, s)"
    by (simp add: compare_fast_def compare_entry_def empty_inventory_def checked_add_def ebind_def fs_eval
        sample_paths final_path_def sample_entry_def enumerated_def assms n)
  show "hash_candidates identity_libs [sample_entry name_a] {|0|} s = (Inr (fmupd 0 (blake3 identity_libs [1, 2]) fmempty), s)"
    by (simp add: hash_candidates_def sorted_list_of_fset.rep_eq hash_candidate_def manifest_get_def inspect_candidate_def hash_file_def
        read_contents_def fs_eval sample_paths final_path_def sample_entry_def assms n hash_buffers_all HASH_BUFFER_BYTES_def)
qed

lemma sample_exchange:
  assumes "(q, a) \<in> {(MESSAGE_UPDATE_VERIFY_REQUEST, MESSAGE_UPDATE_VERIFY_RESPONSE),
      (MESSAGE_FRESH_RESUME_VERIFY_REQUEST, MESSAGE_FRESH_RESUME_VERIFY_RESPONSE)}"
  shows "\<exists>req. write_verification_request q (fmupd 0 (blake3 identity_libs [1, 2]) fmempty) = Inr req \<and>
    read_verification_response a (sender_answers identity_libs (Inr ()) [sample_entry name_a] (sample_fs [0x62]) req) = Inr ({|0|}, [])"
proof -
  let ?m = "fmupd (0 :: usize) (blake3 identity_libs [1, 2]) fmempty" and ?M = "[sample_entry name_a]"
  have "\<exists>req. write_verification_request q ?m = Inr req"
    by (simp add: write_verification_request_def checked_count_def word_try_from_def MAX_UNCHANGED_OFFER_FILES_def
        map_entries_def write_digest_entry_def write_file_id_def write_digest_def engine_prims sorted_list_of_fset.rep_eq
        fcard.rep_eq word_less_nat_alt)
  then obtain req where req: "write_verification_request q ?m = Inr req" ..
  have digests: "\<forall>i d. fmlookup ?m i = Some d \<longrightarrow> length d = CONTENT_DIGEST_BYTES" and sub: "{|0|} |\<subseteq>| fmdom ?m"
    using identity_libs_ok by (auto simp: libs_ok_def)
  from verification_exchange [OF req digests sub, of a] obtain body answer where b: "req = q # body"
      "read_verification_request body = Inr (?m, [])" "write_verification_response a {|0|} = Inr answer"
      "read_verification_response a answer = Inr ({|0|}, [])" by blast
  have msg: "answer_verification identity_libs (Inr ()) ?M req = respond_to_verification_request identity_libs (Inr ()) ?M a body"
    using assms by (intro answer_message [OF _ b(1)])
  have "matching_candidates ?m ?m = Inr {|0|}" by (auto simp: matching_candidates_def)
  then have "respond_to_verification_request identity_libs (Inr ()) ?M a body (sample_fs [0x62]) = (Inr (answer, []), sample_fs [0x62])"
    using b(2,3) sample_hash(2) [OF refl]
    by (simp add: respond_to_verification_request_def fbind_def flift_def fret_def validate_unchanged_offer_def sample_fs_def
        fcard.rep_eq MAX_UNCHANGED_OFFER_FILES_def)
  then show ?thesis using req b(4) by (simp add: sender_answers_def msg)
qed

text \<open>C5.  Only files with equal contents are skipped by an update.  Whatever calls fail on either side, every file the
  receiver's negotiation with the sender returns is, at the sender and at the receiver, a regular file with the size of the
  manifest, and the two have the same digest; at the receiver its time stamp is that of the manifest too.\<close>

theorem unchanged_files_agree:
  assumes "libs_ok lib"
    "negotiate_verified_unchanged_files lib c1 c2 manifest (sender_answers lib c manifest source) s = (Inr unchanged, s')"
    "i |\<in>| unchanged"
  shows "\<exists>d n. hashes lib manifest s i d \<and> hashes lib manifest source i d \<and>
    fmlookup (nodes s) (final_path (manifest ! i)) = Some n \<and> matches n (manifest ! i)"
proof -
  from assms(2,3) obtain s1 iv s2 m s3 req rest where e: "try_exists [] s = (Inr True, s1)"
    and iv: "compare_fast manifest s1 = (Inr iv, s2)"
    and m: "hash_candidates lib manifest (inv_unchanged_file_ids iv) s2 = (Inr m, s3)"
    and req: "write_verification_request MESSAGE_UPDATE_VERIFY_REQUEST m = Inr req"
    and r: "read_verification_response MESSAGE_UPDATE_VERIFY_RESPONSE (sender_answers lib c manifest source req) = Inr (unchanged, rest)"
    and sub: "unchanged |\<subseteq>| inv_unchanged_file_ids iv"
    by (auto simp: negotiate_verified_unchanged_files_def fbind_Inr flift_def fret_def fguard_def ffail_def Let_def split: if_splits) blast
  have n: "nodes s1 = nodes s" "nodes s2 = nodes s"
    using quiet_nodes [OF quiet.reads(3) e] quiet_nodes [OF quiet.comparing iv] by auto
  have "hashes lib manifest s2 = hashes lib manifest s" using n(2) by (rule hashes_nodes)
  moreover have "\<exists>n. fmlookup (nodes s) (final_path (manifest ! i)) = Some n \<and> matches n (manifest ! i)"
    using compare_fast_sound [OF iv] sub assms(3) n(1) by auto
  ultimately show ?thesis using exchange_sound [OF assms(1) m req _ r] assms(3) by auto
qed

theorem unchanged_files_agree_witness:
  "\<exists>s'. negotiate_verified_unchanged_files identity_libs (Inr ()) (Inr ()) [sample_entry name_a]
      (sender_answers identity_libs (Inr ()) [sample_entry name_a] (sample_fs [0x62])) (sample_fs [0x62]) = (Inr {|0|}, s') \<and>
    (\<exists>d. hashes identity_libs [sample_entry name_a] (sample_fs [0x62]) 0 d)"
proof -
  let ?M = "[sample_entry name_a]" and ?s = "sample_fs [0x62]"
  have ne: "[0x62] \<noteq> name_a" by (simp add: name_a_def)
  have f: "faults ?s = []" by (simp add: sample_fs_def)
  note h = sample_hash [OF refl f]
  have e: "try_exists [] ?s = (Inr True, ?s)" by (simp add: fs_eval sample_nodes [OF ne])
  obtain req where req: "write_verification_request MESSAGE_UPDATE_VERIFY_REQUEST (fmupd 0 (blake3 identity_libs [1, 2]) fmempty) = Inr req"
    "read_verification_response MESSAGE_UPDATE_VERIFY_RESPONSE (sender_answers identity_libs (Inr ()) ?M ?s req) = Inr ({|0|}, [])"
    using sample_exchange by blast
  have r: "negotiate_verified_unchanged_files identity_libs (Inr ()) (Inr ()) ?M (sender_answers identity_libs (Inr ()) ?M ?s) ?s =
      (Inr {|0|}, ?s)"
    using h e req by (simp add: negotiate_verified_unchanged_files_def fbind_def flift_def fret_def fguard_def validate_update_inventory_def Let_def)
  from unchanged_files_agree [OF identity_libs_ok r, of 0] r show ?thesis by auto
qed

text \<open>C6.  A resumed transfer trusts its journal only after checking.  When the negotiation before a fresh resume succeeds,
  every file the journal has as completed is a regular file on both sides with the size of the manifest and the same digest.\<close>

theorem resumed_files_agree:
  assumes "libs_ok lib" "journal_file (journal_dir s) \<noteq> None" "load_existing fault (journal_dir s) print streams = Inr j"
    "fmlookup (nodes s) [] = Some (DirNode a)"
    "negotiate_verified_fresh_resume_files lib c1 c2 fault manifest print streams (sender_answers lib c manifest source) s = (Inr u, s')"
    "i |\<in>| completed_file_ids j"
  shows "\<exists>d. hashes lib manifest s i d \<and> hashes lib manifest source i d"
proof -
  have loaded: "j' = j" "nodes s3 = nodes s"
    if "try_exists [] s = (b, s1)" "journal_exists s1 = (b', s2)" "journal_load fault print streams s2 = (Inr j', s3)" for b b' s1 s2 j' s3
    using withinD [OF quiet.reads(3) that(1)] withinD [OF quiet.listing(2) that(2)] that(3) assms(3)
    by (auto simp: unchanged_fs_def journal_load_def)
  from assms(5) consider s1 where "try_exists [] s = (Inr False, s1)"
    | s1 s2 where "try_exists [] s = (Inr True, s1)" "journal_exists s1 = (Inr False, s2)"
    | s1 s2 j' s3 where "try_exists [] s = (Inr True, s1)" "journal_exists s1 = (Inr True, s2)"
        "journal_load fault print streams s2 = (Inr j', s3)" "completed_file_ids j' = {||}"
    | s1 s2 j' s3 s4 m s5 req rest where "try_exists [] s = (Inr True, s1)" "journal_exists s1 = (Inr True, s2)"
        "journal_load fault print streams s2 = (Inr j', s3)"
        "validate_fresh_resume_committed_files manifest (completed_file_ids j') s3 = (Inr (), s4)"
        "hash_candidates lib manifest (completed_file_ids j') s4 = (Inr m, s5)"
        "write_verification_request MESSAGE_FRESH_RESUME_VERIFY_REQUEST m = Inr req"
        "read_verification_response MESSAGE_FRESH_RESUME_VERIFY_RESPONSE (sender_answers lib c manifest source req) =
          Inr (completed_file_ids j', rest)"
    unfolding negotiate_verified_fresh_resume_files_def
    by (simp only: fbind_Inr Let_def split: if_splits) (auto simp: fbind_Inr flift_def fret_def fguard_def ffail_def split: if_splits; blast)+
  then show ?thesis
  proof cases
    case 1
    then show ?thesis using query_Inr(1) [OF 1] assms(4) by simp
  next
    case 2
    then have "journal_dir s1 = journal_dir s" using withinD [OF quiet.reads(3) 2(1)] by (simp add: unchanged_fs_def)
    then show ?thesis using query_Inr(3) [OF 2(2)] assms(2) by simp
  next
    case 3
    then show ?thesis using loaded [OF 3(1-3)] assms(6) by auto
  next
    case 4
    note l = loaded [OF 4(1-3)]
    have "nodes s4 = nodes s" using l(2) quiet_nodes [OF quiet.committed_check 4(4)] by simp
    then have "hashes lib manifest s4 = hashes lib manifest s" by (rule hashes_nodes)
    then show ?thesis using exchange_sound [OF assms(1) 4(5,6) _ 4(7)] assms(6) l(1) by auto
  qed
qed

theorem resumed_files_agree_witness:
  "\<exists>d s. negotiate_verified_fresh_resume_files identity_libs (Inr ()) (Inr ()) None [sample_entry name_a] 1 4
      (sender_answers identity_libs (Inr ()) [sample_entry name_a] (sample_fs [0x62])) s = (Inr (), s) \<and>
    hashes identity_libs [sample_entry name_a] s 0 d \<and> hashes identity_libs [sample_entry name_a] (sample_fs [0x62]) 0 d"
proof -
  let ?M = "[sample_entry name_a]"
  define j where "j = \<lparr>manifest_fingerprint = 1, data_stream_count = 4, completed_stripes = {||}, completed_file_ids = {|0|}\<rparr>"
  have wf: "journal_wf j" by (simp add: journal_wf_def j_def journal_consts usize_max_def fcard.rep_eq)
  obtain d where d: "save_atomic no_faults j \<lparr>journal_file = None, temporary_file = None\<rparr> = (Inr (), d)"
    using save_atomic_succeeds [OF wf, of no_faults] by (auto simp: no_faults_def)
  from save_atomic_Inr [OF d] have jf: "journal_file d \<noteq> None" and load: "load_existing None d 1 4 = Inr j"
    by (auto simp: load_existing_def read_path_def word_try_from_def j_def)
  define s where "s = (sample_fs [0x62])\<lparr>journal_dir := d\<rparr>"
  have ne: "[0x62] \<noteq> name_a" by (simp add: name_a_def)
  have s: "nodes s = nodes (sample_fs [0x62])" "faults s = []" "journal_dir s = d" by (simp_all add: s_def sample_fs_def)
  note n = sample_nodes [OF ne]
  have e: "try_exists [] s = (Inr True, s)" "journal_exists s = (Inr True, s)" "journal_load None 1 4 s = (Inr j, s)"
    using jf load by (auto simp: fs_eval s n journal_load_def)
  have v: "validate_fresh_resume_committed_files ?M {|0|} s = (Inr (), s)"
    by (simp add: validate_fresh_resume_committed_files_def check_committed_file_def sorted_list_of_fset.rep_eq manifest_get_def fs_eval
        sample_paths final_path_def sample_entry_def s n)
  obtain req where req: "write_verification_request MESSAGE_FRESH_RESUME_VERIFY_REQUEST (fmupd 0 (blake3 identity_libs [1, 2]) fmempty) = Inr req"
    "read_verification_response MESSAGE_FRESH_RESUME_VERIFY_RESPONSE (sender_answers identity_libs (Inr ()) ?M (sample_fs [0x62]) req) = Inr ({|0|}, [])"
    using sample_exchange by blast
  have r: "negotiate_verified_fresh_resume_files identity_libs (Inr ()) (Inr ()) None ?M 1 4
      (sender_answers identity_libs (Inr ()) ?M (sample_fs [0x62])) s = (Inr (), s)"
    using sample_hash(2) [OF s(1,2)] e v req
    by (simp add: negotiate_verified_fresh_resume_files_def fbind_def flift_def fret_def fguard_def j_def Let_def)
  have "journal_file (journal_dir s) \<noteq> None" "load_existing None (journal_dir s) 1 4 = Inr j" "fmlookup (nodes s) [] = Some (DirNode 0x10)"
    "0 |\<in>| completed_file_ids j" using jf load n(1) by (auto simp: s j_def)
  from resumed_files_agree [OF identity_libs_ok this(1,2,3) r this(4)] r show ?thesis by auto
qed

end
