(* ===== verification/File_Transfer.thy ===== *)
theory File_Transfer
  imports Update_Verification
begin

text \<open>
  The records that carry files, from \<^verbatim>\<open>src/multistream_copy.rs\<close> and \<^verbatim>\<open>src/tiny_file_materialize.rs\<close>: a file sent
  whole, a stripe of a large file, a pack of tiny files, the finalization of striped files and the checkpoint of a
  stripe.  The sending functions run on the source's file system, the receiving ones on the destination's.
\<close>

definition MESSAGE_FILE :: u8 where "MESSAGE_FILE = 0x31"
definition MESSAGE_FILE_STRIPE :: u8 where "MESSAGE_FILE_STRIPE = 0x34"
definition MESSAGE_TINY_PACK_V2 :: u8 where "MESSAGE_TINY_PACK_V2 = 0x36"
definition COPY_BUFFER_BYTES :: nat where "COPY_BUFFER_BYTES = 8 * 1024 * 1024"
definition TINY_PACK_FIXED_WIRE_BYTES :: u64 where "TINY_PACK_FIXED_WIRE_BYTES = 1 + 4 + 8 + 1 + 8 + of_nat CONTENT_DIGEST_BYTES"
definition TINY_PACK_FILE_METADATA_WIRE_BYTES :: u64 where "TINY_PACK_FILE_METADATA_WIRE_BYTES = 8 + 8 + of_nat CONTENT_DIGEST_BYTES"

section \<open>Sending\<close>

text \<open>An opened source file; its metadata are checked before and after it is read.\<close>

definition open_source :: "fpath \<Rightarrow> node fsm" where
  "open_source p = syscall (\<lambda>s.
     (case Option.bind (fmlookup (nodes s) p) resolve of
        Some (FileNode c t a) \<Rightarrow> (Inr (FileNode c t a), s)
      | Some _ \<Rightarrow> (Inl PermissionDenied, s)
      | None \<Rightarrow> (Inl NotFound, s)))"

definition validate_source_metadata :: "node \<Rightarrow> ManifestEntry \<Rightarrow> unit fsm" where
  "validate_source_metadata n e =
     syscall (fbind (fguard (node_len n = file_size e) InvalidData) (\<lambda>_. fguard (node_time n = last_write_time e) InvalidData))"

text \<open>
  \<open>check\<close> is the cancellation check at a position of the payload, or the failure to read there; \<open>d\<close> is the
  decision of the compression probe.  The result is the record on the wire and whether it is compressed.
\<close>

definition send_whole_file ::
    "libs \<Rightarrow> nat \<Rightarrow> (nat \<Rightarrow> unit io_result) \<Rightarrow> CompressionDecision \<Rightarrow> usize \<Rightarrow> ManifestEntry \<Rightarrow> (byte list \<times> bool) fsm" where
  "send_whole_file lib buffer_len check d i e =
     fbind (flift (wcat [write_u8 MESSAGE_FILE, write_file_id i, write_u64 (file_size e)])) (\<lambda>head.
     fbind (open_source (final_path e)) (\<lambda>n.
     fbind (validate_source_metadata n e) (\<lambda>_.
     fbind (flift (send_payload lib buffer_len check (\<lambda>k p. read_exact_at (node_contents n) p k) d (file_size e))) (\<lambda>(bs, compressed).
     fbind (validate_source_metadata n e) (\<lambda>_.
       fret (head @ bs, compressed))))))"

definition send_file_stripe ::
    "libs \<Rightarrow> nat \<Rightarrow> (nat \<Rightarrow> unit io_result) \<Rightarrow> CompressionDecision \<Rightarrow> ManifestEntry \<Rightarrow> usize \<Rightarrow> u64 \<Rightarrow> u64 \<Rightarrow> (byte list \<times> bool) fsm" where
  "send_file_stripe lib buffer_len check d e i offset len =
     fbind (flift (validate_stripe e offset len)) (\<lambda>_.
     fbind (flift (wcat [write_u8 MESSAGE_FILE_STRIPE, write_file_id i, write_u64 offset, write_u64 len])) (\<lambda>head.
     fbind (open_source (final_path e)) (\<lambda>n.
     fbind (validate_source_metadata n e) (\<lambda>_.
     fbind (flift (ok_or OtherError (checked_add offset len))) (\<lambda>_.
     fbind (flift (send_payload lib buffer_len check (\<lambda>k p. read_exact_at (node_contents n) (unat offset + p) k) d len)) (\<lambda>(bs, compressed).
     fbind (validate_source_metadata n e) (\<lambda>_.
       fret (head @ bs, compressed))))))))"

section \<open>Receiving\<close>

text \<open>A file that is received whole is written beside its place and moved there when its digest is right.\<close>

definition receive_file ::
    "libs \<Rightarrow> nat \<Rightarrow> (nat \<Rightarrow> unit io_result) \<Rightarrow> usize \<Rightarrow> ManifestEntry \<Rightarrow> byte list \<Rightarrow> (bool \<times> byte list) fsm" where
  "receive_file lib buffer_len check i e bs =
     (let temporary = temporary_path e i in
     fbind (create_new temporary) (\<lambda>_.
     fbind (set_len temporary (unat (file_size e))) (\<lambda>_.
     fbind (on_error (receive_payload lib buffer_len check (\<lambda>chunk t. write_file_at temporary t chunk) (file_size e) bs)
              (fs_remove_file temporary)) (\<lambda>r.
     fbind (replace temporary (final_path e)) (\<lambda>_. fret r)))))"

definition receive_file_stripe ::
    "libs \<Rightarrow> nat \<Rightarrow> (nat \<Rightarrow> unit io_result) \<Rightarrow> ManifestEntry \<Rightarrow> usize \<Rightarrow> u64 \<Rightarrow> u64 \<Rightarrow> byte list \<Rightarrow> (bool \<times> byte list) fsm" where
  "receive_file_stripe lib buffer_len check e i offset len bs =
     fbind (flift (validate_stripe e offset len)) (\<lambda>_.
     (let temporary = temporary_path e i in
     fbind (open_for_write temporary) (\<lambda>_.
     fbind (flift (ok_or OtherError (checked_add offset len))) (\<lambda>_.
     fbind (receive_payload lib buffer_len check (\<lambda>chunk t. write_file_at temporary (unat offset + t) chunk) len bs) (\<lambda>r.
     fbind (sync_all temporary) (\<lambda>_. fret r))))))"

definition finalize_large_file :: "usize \<Rightarrow> ManifestEntry \<Rightarrow> DestinationMode \<Rightarrow> unit fsm" where
  "finalize_large_file i e mode =
     fbind (fguard (file_class e = Large) InvalidInput) (\<lambda>_.
     fbind (try_exists (final_path e)) (\<lambda>final_exists.
     fbind (try_exists (temporary_path e i)) (\<lambda>temporary_exists.
       if \<not> final_exists \<and> temporary_exists then
         fbind (validate_resume_file (temporary_path e i) (file_size e)) (\<lambda>_. replace (temporary_path e i) (final_path e))
       else if final_exists \<and> \<not> temporary_exists then validate_resume_file (final_path e) (file_size e)
       else if final_exists \<and> temporary_exists \<and> mode = UpdateVerified then
         fbind (validate_resume_file (temporary_path e i) (file_size e)) (\<lambda>_. replace (temporary_path e i) (final_path e))
       else if final_exists \<and> temporary_exists then ffail InvalidData
       else ffail NotFound)))"

definition finalize_large_files :: "ManifestEntry list \<Rightarrow> DestinationMode \<Rightarrow> usize fset \<Rightarrow> unit fsm" where
  "finalize_large_files manifest mode excluded =
     fmapM (\<lambda>(i, e). if file_class e \<noteq> Large \<or> i |\<in>| excluded then fret () else finalize_large_file i e mode) (enumerated manifest)"

section \<open>Tiny packs\<close>

definition tiny_pack_record_wire_bytes :: "usize \<Rightarrow> usize \<Rightarrow> u64 io_result" where
  "tiny_pack_record_wire_bytes file_count payload_bytes =
     ebind (word_try_from OtherError file_count) (\<lambda>n.
     ebind (word_try_from OtherError payload_bytes) (\<lambda>bytes.
     ebind (ok_or OtherError (checked_mul n TINY_PACK_FILE_METADATA_WIRE_BYTES)) (\<lambda>metadata_bytes.
     ebind (ok_or OtherError (checked_add TINY_PACK_FIXED_WIRE_BYTES metadata_bytes)) (\<lambda>total.
       ok_or OtherError (checked_add total bytes)))))"

record TinyPackTransferSummary =
  pack_files :: u64
  pack_bytes :: u64
  pack_compressed :: bool
  pack_wire_bytes :: u64

text \<open>The files of a pack, one after the other, with their digests; \<open>assembled\<close> is what the buffer holds.\<close>

fun assemble_pack ::
    "libs \<Rightarrow> nat \<Rightarrow> unit io_result \<Rightarrow> ManifestEntry list \<Rightarrow> usize list \<Rightarrow> byte list \<Rightarrow> digest list \<Rightarrow> (byte list \<times> digest list) fsm" where
  "assemble_pack lib buffer_len cancelled manifest [] assembled digests = fret (assembled, digests)"
| "assemble_pack lib buffer_len cancelled manifest (i # is) assembled digests =
     fbind (flift cancelled) (\<lambda>_.
     fbind (flift (ok_or InvalidInput (manifest_get manifest i))) (\<lambda>e.
     fbind (flift (usize_try_from InvalidInput (file_size e))) (\<lambda>file_bytes.
     fbind (fguard (length assembled + file_bytes \<le> usize_max) OtherError) (\<lambda>_.
     fbind (fguard (length assembled + file_bytes \<le> buffer_len) InvalidInput) (\<lambda>_.
     fbind (open_source (final_path e)) (\<lambda>n.
     fbind (validate_source_metadata n e) (\<lambda>_.
     fbind (syscall (flift (read_exact_at (node_contents n) 0 file_bytes))) (\<lambda>contents.
     fbind (validate_source_metadata n e) (\<lambda>_.
       assemble_pack lib buffer_len cancelled manifest is (assembled @ contents) (digests @ [blake3 lib contents]))))))))))"

definition write_pack_entry :: "ManifestEntry list \<Rightarrow> usize \<times> digest \<Rightarrow> byte list io_result" where
  "write_pack_entry manifest = (\<lambda>(i, d).
     ebind (ok_or InvalidInput (manifest_get manifest i)) (\<lambda>e.
       wcat [write_file_id i, write_u64 (file_size e), write_digest d]))"

definition send_tiny_pack ::
    "libs \<Rightarrow> nat \<Rightarrow> unit io_result \<Rightarrow> ManifestEntry list \<Rightarrow> usize list \<Rightarrow> u64 \<Rightarrow> (byte list \<times> TinyPackTransferSummary) fsm" where
  "send_tiny_pack lib buffer_len cancelled manifest ids expected_total_bytes =
     fbind (flift (summarize_tiny_pack manifest ids)) (\<lambda>(files, bytes).
     fbind (fguard (bytes = expected_total_bytes) InvalidInput) (\<lambda>_.
     fbind (flift (usize_try_from InvalidInput bytes)) (\<lambda>total_bytes.
     fbind (fguard (total_bytes \<le> buffer_len) InvalidInput) (\<lambda>_.
     fbind (assemble_pack lib buffer_len cancelled manifest ids [] []) (\<lambda>(raw, digests).
     fbind (fguard (length raw = total_bytes) OtherError) (\<lambda>_.
     fbind (flift cancelled) (\<lambda>_.
     fbind (flift (encode_pack lib raw)) (\<lambda>(encoding, wire).
     fbind (flift (tiny_pack_record_wire_bytes (length ids) (length wire))) (\<lambda>record_bytes.
     fbind (flift (wcat ([write_u8 MESSAGE_TINY_PACK_V2, ebind (word_try_from InvalidInput (length ids)) write_u32, write_u64 bytes] @
              map (write_pack_entry manifest) (zip ids digests) @
              [write_u8 (wire_value encoding), ebind (word_try_from OtherError (length wire)) write_u64, Inr wire,
               write_digest (blake3 lib raw)]))) (\<lambda>out.
       fret (out, \<lparr>pack_files = files, pack_bytes = bytes, pack_compressed = (encoding = PackZstandard),
                   pack_wire_bytes = record_bytes\<rparr>)))))))))))"

text \<open>A request of the pool of writers: a file of the pack and its place in the payload.\<close>

record TinyFileMaterializeRequest =
  request_file_id :: usize
  request_path :: path
  request_start :: nat
  request_end :: nat

fun read_pack_entries :: "ManifestEntry list \<Rightarrow> usize list \<Rightarrow> digest list \<Rightarrow> digest list reader" where
  "read_pack_entries manifest [] digests = rret digests"
| "read_pack_entries manifest (expected # is) digests =
     rbind read_file_id (\<lambda>announced_id.
     rbind read_u64 (\<lambda>announced_size.
     rbind (rguard (announced_id = expected) InvalidData) (\<lambda>_.
     rbind (rlift (ok_or InvalidData (manifest_get manifest expected))) (\<lambda>e.
     rbind (rguard (announced_size = file_size e) InvalidData) (\<lambda>_.
     rbind read_digest (\<lambda>d. read_pack_entries manifest is (digests @ [d])))))))"

definition prepare_buffered_tiny_file ::
    "libs \<Rightarrow> usize \<Rightarrow> ManifestEntry \<Rightarrow> byte list \<Rightarrow> digest \<Rightarrow> nat \<Rightarrow> nat \<Rightarrow> TinyFileMaterializeRequest io_result" where
  "prepare_buffered_tiny_file lib i e contents expected_digest start stop =
     ebind (verify_digest (blake3 lib contents) expected_digest) (\<lambda>_.
       Inr \<lparr>request_file_id = i, request_path = relative_path e, request_start = start, request_end = stop\<rparr>)"

fun split_pack ::
    "libs \<Rightarrow> unit io_result \<Rightarrow> ManifestEntry list \<Rightarrow> byte list \<Rightarrow> (usize \<times> digest) list \<Rightarrow> nat \<Rightarrow>
     TinyFileMaterializeRequest list \<Rightarrow> (TinyFileMaterializeRequest list \<times> nat) io_result" where
  "split_pack lib cancelled manifest payload [] offset requests = Inr (requests, offset)"
| "split_pack lib cancelled manifest payload ((i, d) # rest) offset requests =
     ebind cancelled (\<lambda>_.
     ebind (ok_or InvalidData (manifest_get manifest i)) (\<lambda>e.
     ebind (usize_try_from InvalidData (file_size e)) (\<lambda>file_bytes.
     (let stop = offset + file_bytes in
       if stop > usize_max then Inl OtherError
       else if stop > length payload then Inl InvalidData
       else ebind (prepare_buffered_tiny_file lib i e (take file_bytes (drop offset payload)) d offset stop) (\<lambda>r.
         split_pack lib cancelled manifest payload rest stop (requests @ [r]))))))"

text \<open>What is read of a pack: the payload, the files it holds, the summary.\<close>

definition read_tiny_pack ::
    "libs \<Rightarrow> nat \<Rightarrow> unit io_result \<Rightarrow> ManifestEntry list \<Rightarrow> usize list \<Rightarrow> u64 \<Rightarrow>
     (byte list \<times> TinyFileMaterializeRequest list \<times> TinyPackTransferSummary) reader" where
  "read_tiny_pack lib buffer_len cancelled manifest ids expected_total_bytes =
     rbind read_u8 (\<lambda>message.
     rbind (rguard (message = MESSAGE_TINY_PACK_V2) InvalidData) (\<lambda>_.
     rbind read_u32 (\<lambda>announced_count.
     rbind read_u64 (\<lambda>announced_bytes.
     rbind (rlift (summarize_tiny_pack manifest ids)) (\<lambda>(files, bytes).
     rbind (rguard (bytes = expected_total_bytes) InvalidData) (\<lambda>_.
     rbind (rguard (unat announced_count = length ids \<and> announced_bytes = bytes) InvalidData) (\<lambda>_.
     rbind (read_pack_entries manifest ids []) (\<lambda>digests.
     rbind read_u8 (\<lambda>code.
     rbind (rlift (from_wire code)) (\<lambda>encoding.
     rbind read_u64 (\<lambda>w.
     rbind (rlift (usize_try_from InvalidData w)) (\<lambda>wire_bytes.
     rbind (rguard (wire_bytes \<le> MAX_TINY_PACK_WIRE_BYTES) InvalidData) (\<lambda>_.
     rbind (rlift (tiny_pack_record_wire_bytes (length ids) wire_bytes)) (\<lambda>record_bytes.
     rbind (rlift cancelled) (\<lambda>_.
     rbind (read_exact wire_bytes) (\<lambda>wire.
     rbind (rlift (usize_try_from InvalidData bytes)) (\<lambda>total_bytes.
     rbind (rlift (decode_pack lib buffer_len encoding wire total_bytes)) (\<lambda>payload.
     rbind read_digest (\<lambda>expected_digest.
     rbind (rlift (verify_digest (blake3 lib payload) expected_digest)) (\<lambda>_.
     rbind (rlift (split_pack lib cancelled manifest payload (zip ids digests) 0 [])) (\<lambda>(requests, offset).
     rbind (rguard (offset = total_bytes) InvalidData) (\<lambda>_.
       rret (payload, requests, \<lparr>pack_files = files, pack_bytes = bytes, pack_compressed = (encoding = PackZstandard),
                   pack_wire_bytes = record_bytes\<rparr>)))))))))))))))))))))))"

text \<open>One tiny file is written beside its place and moved there.\<close>

definition write_verified :: "usize \<Rightarrow> path \<Rightarrow> byte list \<Rightarrow> unit fsm" where
  "write_verified i p contents =
     (let temporary = path_components (p @ ncs_part @ decimal i) in
     fbind (create_new temporary) (\<lambda>_.
     fbind (on_error (fbind (set_len temporary (length contents)) (\<lambda>_. write_file_at temporary 0 contents)) (fs_remove_file temporary)) (\<lambda>_.
       replace temporary (path_components p))))"

definition validate_request :: "TinyFileMaterializeRequest \<Rightarrow> nat \<Rightarrow> unit io_result" where
  "validate_request r payload_bytes =
     (if request_start r > request_end r \<or> request_end r > payload_bytes then Inl InvalidInput else Inr ())"

definition materialize_job :: "unit io_result \<Rightarrow> byte list \<Rightarrow> TinyFileMaterializeRequest \<Rightarrow> unit fsm" where
  "materialize_job cancelled payload r =
     fbind (flift cancelled) (\<lambda>_.
       if request_start r \<le> request_end r \<and> request_end r \<le> length payload
       then write_verified (request_file_id r) (request_path r) (take (request_end r - request_start r) (drop (request_start r) payload))
       else ffail InvalidData)"

text \<open>
  The batch of a pack: every range is checked before anything is written; then the files are written, here in the
  order of the queue.
\<close>

definition materialize_batch :: "unit io_result \<Rightarrow> byte list \<Rightarrow> TinyFileMaterializeRequest list \<Rightarrow> unit fsm" where
  "materialize_batch cancelled payload requests =
     fbind (fmapM (\<lambda>r. flift (validate_request r (length payload))) requests) (\<lambda>_.
       fmapM (materialize_job cancelled payload) requests)"

definition receive_tiny_pack ::
    "libs \<Rightarrow> nat \<Rightarrow> unit io_result \<Rightarrow> ManifestEntry list \<Rightarrow> usize list \<Rightarrow> u64 \<Rightarrow> byte list \<Rightarrow> (TinyPackTransferSummary \<times> byte list) fsm" where
  "receive_tiny_pack lib buffer_len cancelled manifest ids expected_total_bytes bs =
     fbind (flift (read_tiny_pack lib buffer_len cancelled manifest ids expected_total_bytes bs)) (\<lambda>((payload, requests, summary), rest).
     fbind (materialize_batch cancelled payload requests) (\<lambda>_.
       fret (summary, rest)))"

section \<open>Checkpoints\<close>

text \<open>The journal in memory is marked first; its file is replaced only when the stripe is new.\<close>

definition checkpoint_completed_stripe ::
    "SaveFaults \<Rightarrow> TransferTask \<Rightarrow> ResumeJournal \<times> fs \<Rightarrow> bool io_result \<times> ResumeJournal \<times> fs" where
  "checkpoint_completed_stripe sf task = (\<lambda>(j, s).
     (case task of
        Stripe i offset len \<Rightarrow>
          (case ResumeStripe_new i offset len of
             Inl e \<Rightarrow> (Inl e, j, s)
           | Inr stripe \<Rightarrow>
               (case mark_completed stripe j of (newly, j') \<Rightarrow>
                  if newly then (case journal_save sf j' s of (Inl e, s') \<Rightarrow> (Inl e, j', s') | (Inr _, s') \<Rightarrow> (Inr True, j', s'))
                  else (Inr False, j', s)))
      | _ \<Rightarrow> (Inr False, j, s)))"

section \<open>What receiving may change\<close>

definition only :: "fpath set \<Rightarrow> fs \<Rightarrow> fs \<Rightarrow> bool" where
  "only P s s' \<longleftrightarrow> (\<forall>q. q \<notin> P \<longrightarrow> fmlookup (nodes s') q = fmlookup (nodes s) q) \<and>
     clock s' = clock s \<and> journal_dir s' = journal_dir s"

interpretation touch: fs_frame "only P" for P
  by unfold_locales (auto simp: only_def)

lemma onlyD: "only P s s' \<Longrightarrow> q \<notin> P \<Longrightarrow> fmlookup (nodes s') q = fmlookup (nodes s) q"
  by (simp add: only_def)

lemma touch_update: "q \<in> P \<Longrightarrow> within (only P) (update_file q f)"
  by (auto simp: within_def only_def update_file_def split: option.splits sum.splits)

lemma touch_write: "q \<in> P \<Longrightarrow> within (only P) (write_file_at q t c)"
  unfolding within_def
proof
  fix s
  assume q: "q \<in> P"
  obtain f s' where f: "next_fault s = (f, s')" by force
  have "only P s s'" using touch.fault_step [OF f] .
  moreover have "only P s' (snd (update_file q g s'))" for g using touch_update [OF q, of g] by (simp add: within_def)
  ultimately show "only P s (snd (write_file_at q t c s))"
    by (auto simp: write_file_at_def f intro: touch.frame_trans split: option.splits)
qed

lemma touch_calls:
  assumes "q \<in> P"
  shows "within (only P) (create_new q)" "within (only P) (set_len q k)" "within (only P) (open_for_write q)"
    "within (only P) (fs_remove_file q)" "within (only P) (sync_all q)"
    "r \<in> P \<Longrightarrow> within (only P) (replace q r)"
  unfolding create_new_def set_len_def open_for_write_def fs_remove_file_def sync_all_def replace_def
  using assms by (auto intro!: touch.call simp: touch_update touch.pure)
    (auto simp: within_def only_def split: option.splits node.splits)

lemma touch_receive_chunks:
  assumes "\<And>c t. within (only P) (w c t)"
  shows "within (only P) (receive_chunks lib buf check w d t k h bs)"
  unfolding within_def
proof
  fix s
  show "only P s (snd (receive_chunks lib buf check w d t k h bs s))"
  proof (induction k arbitrary: t h bs s rule: less_induct)
    case (less k)
    note u = receive_chunks.simps [of lib buf check w d t k h bs s]
    show ?case
    proof (cases "k = 0 \<or> buf = 0")
      case True
      then show ?thesis by (subst u) (simp add: touch.frame_refl)
    next
      case False
      show ?thesis
      proof (cases "next_chunk lib buf d k bs")
        case (Inl e)
        then show ?thesis by (subst u) (simp add: touch.frame_refl split: sum.split)
      next
        case (Inr r)
        obtain chunk bs' where r: "r = (chunk, bs')" by force
        obtain res s1 where w: "w chunk t s = (res, s1)" by force
        have "only P s s1" using withinD [OF assms w] .
        moreover have "k - length chunk < k"
          using next_chunk_length [OF Inr [unfolded r]] False by auto
        ultimately show ?thesis
          using less.IH by (subst u) (auto simp: Inr r w touch.frame_refl intro: touch.frame_trans split: sum.split)
      qed
    qed
  qed
qed

lemma touch_receive_payload:
  assumes "\<And>c t. within (only P) (w c t)"
  shows "within (only P) (receive_payload lib buf check w k bs)"
proof -
  have "only P s (snd (receive_chunks lib buf check w d 0 (unat k) [] bs1 s))" for d bs1 s
    using touch_receive_chunks [of P w] assms by (simp add: within_def)
  then show ?thesis
    by (auto simp: within_def receive_payload_def touch.frame_refl split: sum.splits prod.splits) (metis snd_conv)+
qed

lemma touch_receive_file:
  "within (only {temporary_path e i, final_path e}) (receive_file lib buf check i e bs)"
  unfolding receive_file_def Let_def
  by (intro touch.bind touch.pure touch.error_cleanup touch_calls touch_receive_payload touch_write) simp_all

lemma touch_receive_stripe:
  "within (only {temporary_path e i}) (receive_file_stripe lib buf check e i offset len bs)"
  unfolding receive_file_stripe_def Let_def
  by (intro touch.bind touch.pure touch_calls touch_receive_payload touch_write) simp_all

section \<open>Contents of part files\<close>

definition holds :: "fs \<Rightarrow> fpath \<Rightarrow> byte list \<Rightarrow> bool" where
  "holds s p c \<longleftrightarrow> (\<exists>t a. fmlookup (nodes s) p = Some (FileNode c t a))"

lemma write_file_at_Inr:
  assumes "write_file_at p t chunk s = (Inr u, s')" "holds s p c"
  shows "holds s' p (write_all_at c t chunk)"
proof -
  obtain f s1 where f: "next_fault s = (f, s1)" by force
  have "nodes s1 = nodes s" using quiet.fault_step [OF f] by (simp add: unchanged_fs_def)
  then show ?thesis using assms
    by (auto simp: write_file_at_def f holds_def update_file_def split: option.splits)
qed

lemma deliver_writes:
  "deliver (\<lambda>c t. write_file_at p (off + t) c) t cs s = (Inr (), s') \<Longrightarrow> holds s p x \<Longrightarrow>
   holds s' p (write_all_at x (off + t) (concat cs))"
proof (induction cs arbitrary: t s x)
  case (Cons c cs)
  from Cons.prems(1) obtain s1 where w: "write_file_at p (off + t) c s = (Inr (), s1)"
    and r: "deliver (\<lambda>c t. write_file_at p (off + t) c) (t + length c) cs s1 = (Inr (), s')"
    by (auto split: sum.splits prod.splits)
  from Cons.IH [OF r write_file_at_Inr [OF w Cons.prems(2)]] show ?case
    using write_all_at_append [of x "off + t" c "concat cs"] by (simp add: add.assoc)
qed simp

lemma write_all_over: "length c = n \<Longrightarrow> write_all_at (replicate n 0) 0 c = c"
  by (cases "c = []") (simp_all add: write_all_at_def)

lemma syscall_Inr: "syscall m s = (Inr a, s') \<Longrightarrow> \<exists>s1. unchanged_fs s s1 \<and> m s1 = (Inr a, s')"
  using quiet.fault_step [of s] by (auto simp: syscall_def split: prod.splits option.splits)

lemma syscall_Inl: "syscall m s = (Inl e, s') \<Longrightarrow> unchanged_fs s s' \<or> (\<exists>s1. unchanged_fs s s1 \<and> m s1 = (Inl e, s'))"
  using quiet.fault_step [of s] by (auto simp: syscall_def split: prod.splits option.splits)

lemma create_new_Inr: "create_new p s = (Inr u, s') \<Longrightarrow> fmlookup (nodes s') p = Some (FileNode [] (clock s) FILE_ATTRIBUTE_ARCHIVE)"
  by (auto simp: create_new_def unchanged_fs_def dest!: syscall_Inr split: if_splits)

lemma set_len_Inr:
  "set_len p k s = (Inr u, s') \<Longrightarrow> holds s p c \<Longrightarrow> holds s' p (take k c @ replicate (k - length c) 0)"
  by (auto simp: set_len_def unchanged_fs_def update_file_def holds_def dest!: syscall_Inr split: option.splits)

lemma replace_Inr:
  "replace p q s = (Inr u, s') \<Longrightarrow> fmlookup (nodes s') q = fmlookup (nodes s) p \<and> (p \<noteq> q \<longrightarrow> fmlookup (nodes s') p = None)"
  by (auto simp: replace_def unchanged_fs_def dest!: syscall_Inr split: option.splits if_splits)

lemma replace_Inl: "replace p q s = (Inl e, s') \<Longrightarrow> nodes s' = nodes s"
  by (auto simp: replace_def unchanged_fs_def dest!: syscall_Inl split: option.splits if_splits)

lemma fbind_cases:
  assumes "fbind m f s = (r, s')"
  obtains (Err) e where "m s = (Inl e, s')" "r = Inl e" | (Ok) a t where "m s = (Inr a, t)" "f a t = (r, s')"
  using assms by (auto simp: fbind_def split: prod.splits sum.splits)

lemma on_error_Inr: "on_error m c s = (Inr a, s') \<longleftrightarrow> m s = (Inr a, s')"
  by (auto simp: on_error_def split: prod.splits sum.splits)


section \<open>A file arrives as it was read\<close>

definition regular :: "fpath \<Rightarrow> fs \<Rightarrow> bool" where
  "regular p s \<longleftrightarrow> faults s = [] \<and> (\<exists>c. holds s p c)"

definition put_file :: "fpath \<Rightarrow> nat \<Rightarrow> byte list \<Rightarrow> fs \<Rightarrow> fs" where
  "put_file p t chunk s = snd (update_file p (\<lambda>c. write_all_at c t chunk) s)"

lemma put_file_holds: "holds s p c \<Longrightarrow> holds (put_file p t chunk s) p (write_all_at c t chunk)"
  by (auto simp: put_file_def update_file_def holds_def)

interpretation part_sink: payload_sink "\<lambda>chunk t. write_file_at p (off + t) chunk" "\<lambda>t. put_file p (off + t)" "regular p"
  for p off
proof
  fix s :: fs and c t a b
  assume r: "regular p s"
  then obtain x m k where x: "faults s = []" "fmlookup (nodes s) p = Some (FileNode x m k)" by (auto simp: regular_def holds_def)
  show "write_file_at p (off + t) c s = (Inr (), put_file p (off + t) c s)"
    using x by (simp add: write_file_at_def next_fault_def put_file_def update_file_def)
  show "regular p (put_file p (off + t) c s)" using x by (auto simp: regular_def holds_def put_file_def update_file_def)
  have "fmupd p (FileNode x m k) (nodes s) = nodes s" using x(2) by (intro fmap_ext) auto
  then show "put_file p (off + t) [] s = s" using x by (simp add: put_file_def update_file_def)
  show "put_file p (off + (t + length a)) b (put_file p (off + t) a s) = put_file p (off + t) (a @ b) s"
    using x write_all_at_append [of x "off + t" a b] by (simp add: put_file_def update_file_def fmupd_idem add.assoc)
qed

text \<open>The receiving side of a task for a whole file, after the message byte.\<close>

definition receive_file_record ::
    "libs \<Rightarrow> nat \<Rightarrow> (nat \<Rightarrow> unit io_result) \<Rightarrow> usize \<Rightarrow> ManifestEntry \<Rightarrow> u8 \<Rightarrow> byte list \<Rightarrow> (bool \<times> byte list) fsm" where
  "receive_file_record lib buffer_len check i e message bs =
     fbind (fguard (message = MESSAGE_FILE) InvalidData) (\<lambda>_.
     fbind (flift (read_file_id bs)) (\<lambda>(announced_id, bs1).
     fbind (fguard (announced_id = i) InvalidData) (\<lambda>_.
     fbind (flift (read_u64 bs1)) (\<lambda>(announced_size, bs2).
     fbind (fguard (announced_size = file_size e) InvalidData) (\<lambda>_.
       receive_file lib buffer_len check i e bs2)))))"

definition receive_stripe_record ::
    "libs \<Rightarrow> nat \<Rightarrow> (nat \<Rightarrow> unit io_result) \<Rightarrow> ManifestEntry list \<Rightarrow> usize \<Rightarrow> u64 \<Rightarrow> u64 \<Rightarrow> byte list \<Rightarrow> (bool \<times> byte list) fsm" where
  "receive_stripe_record lib buffer_len check manifest i offset len bs =
     fbind (flift (read_u8 bs)) (\<lambda>(message, bs1).
     fbind (fguard (message = MESSAGE_FILE_STRIPE) InvalidData) (\<lambda>_.
     fbind (flift (read_file_id bs1)) (\<lambda>(announced_id, bs2).
     fbind (flift (read_u64 bs2)) (\<lambda>(announced_offset, bs3).
     fbind (flift (read_u64 bs3)) (\<lambda>(announced_length, bs4).
     fbind (fguard (\<not> (announced_id \<noteq> i \<or> announced_offset \<noteq> offset \<or> announced_length \<noteq> len)) InvalidData) (\<lambda>_.
     fbind (flift (ok_or InvalidData (manifest_get manifest i))) (\<lambda>e.
       receive_file_stripe lib buffer_len check e i offset len bs4)))))))"

text \<open>What a sender that succeeds has read and written.\<close>

definition source_file :: "fs \<Rightarrow> ManifestEntry \<Rightarrow> byte list \<Rightarrow> bool" where
  "source_file s e c \<longleftrightarrow> length c = unat (file_size e) \<and>
     (\<exists>a. Option.bind (fmlookup (nodes s) (final_path e)) resolve = Some (FileNode c (last_write_time e) a))"

lemma open_source_Inr:
  assumes "open_source p s = (Inr n, s')"
  shows "nodes s' = nodes s" "\<exists>c t a. n = FileNode c t a \<and> Option.bind (fmlookup (nodes s) p) resolve = Some n"
  using assms by (auto simp: open_source_def unchanged_fs_def dest!: syscall_Inr split: option.splits node.splits)

lemma validate_source_Inr:
  "validate_source_metadata n e s = (Inr u, s') \<Longrightarrow> nodes s' = nodes s \<and> node_len n = file_size e \<and> node_time n = last_write_time e"
  by (auto simp: validate_source_metadata_def unchanged_fs_def fbind_Inr fguard_def fret_def ffail_def dest!: syscall_Inr split: if_splits)

lemma opened_source:
  assumes "open_source (final_path e) s = (Inr n, s1)" "validate_source_metadata n e s1 = (Inr u, s2)"
    "length (node_contents n) < 2 ^ 64"
  shows "source_file s e (node_contents n)"
proof -
  obtain c t a where n: "n = FileNode c t a" "Option.bind (fmlookup (nodes s) (final_path e)) resolve = Some n"
    using open_source_Inr(2) [OF assms(1)] by blast
  have "unat (of_nat (length c) :: u64) = length c" using assms(3) n(1) by (intro unat_of_nat_small) simp
  then show ?thesis using validate_source_Inr [OF assms(2)] n by (auto simp: source_file_def)
qed

lemma send_whole_file_Inr:
  assumes "send_whole_file lib buf check d i e src = (Inr (bs, packed), src')"
  shows "\<exists>n body s1 s2. bs = MESSAGE_FILE # to_be_bytes (of_nat i :: u64) @ to_be_bytes (file_size e) @ body \<and> i \<le> usize_max \<and>
    open_source (final_path e) src = (Inr n, s1) \<and> validate_source_metadata n e s1 = (Inr (), s2) \<and>
    send_payload lib buf check (\<lambda>k p. read_exact_at (node_contents n) (0 + p) k) d (file_size e) = Inr (body, packed)"
  using assms by (auto simp: send_whole_file_def fbind_Inr flift_def fret_def ebind_Inr write_file_id_Inr engine_prims)

lemma send_file_stripe_Inr:
  assumes "send_file_stripe lib buf check d e i offset len src = (Inr (bs, packed), src')"
  shows "\<exists>n body s1 s2. bs = MESSAGE_FILE_STRIPE # to_be_bytes (of_nat i :: u64) @ to_be_bytes offset @ to_be_bytes len @ body \<and>
    i \<le> usize_max \<and> validate_stripe e offset len = Inr () \<and>
    open_source (final_path e) src = (Inr n, s1) \<and> validate_source_metadata n e s1 = (Inr (), s2) \<and>
    send_payload lib buf check (\<lambda>k p. read_exact_at (node_contents n) (unat offset + p) k) d len = Inr (body, packed)"
  using assms by (auto simp: send_file_stripe_def fbind_Inr flift_def fret_def ebind_Inr write_file_id_Inr engine_prims)

lemmas record_eval = fbind_def flift_def fguard_def fret_def read_u8_def read_u64_def rbind_eq read_be_simps read_file_id_eq

lemma read_header_u8: "read_u8 (b # bs) = Inr (b, bs)"
  by (simp add: read_u8_def read_be_def read_exact_def from_be_bytes_def rbind_def)

lemma read_header_u64: "read_u64 (to_be_bytes w @ bs) = Inr (w, bs)"
  by (simp add: read_u64_def read_be_simps)

lemma read_file_id_written: "i \<le> usize_max \<Longrightarrow> read_file_id (to_be_bytes (of_nat i :: u64) @ bs) = Inr (i, bs)"
  by (simp add: read_file_id_Inr)

lemma open_for_write_regular: "regular p s \<Longrightarrow> open_for_write p s = (Inr (), s)"
proof -
  assume "regular p s"
  then obtain x m k where x: "faults s = []" "fmlookup (nodes s) p = Some (FileNode x m k)" by (auto simp: regular_def holds_def)
  then have "fmupd p (FileNode x m k) (nodes s) = nodes s" by (intro fmap_ext) auto
  with x show ?thesis by (simp add: open_for_write_def syscall_def next_fault_def update_file_def)
qed

lemma replace_ok:
  assumes "faults s = []" "holds s p c" "parent_exists s q" "\<nexists>a. fmlookup (nodes s) q = Some (DirNode a)"
  shows "\<exists>s'. replace p q s = (Inr (), s') \<and> faults s' = [] \<and> holds s' q c"
proof -
  obtain n where n: "fmlookup (nodes s) p = Some n" "\<exists>t a. n = FileNode c t a" using assms(2) by (auto simp: holds_def)
  have "\<not> (case fmlookup (nodes s) q of Some (DirNode x) \<Rightarrow> True | _ \<Rightarrow> False)" using assms(4) by (auto split: option.splits node.splits)
  with assms n show ?thesis by (auto simp: replace_def syscall_def next_fault_def holds_def)
qed

lemma stripe_received:
  assumes "send_file_stripe lib b1 check d e i offset len src = (Inr (bs, packed), src')"
    "libs_ok lib" "min COMPRESSION_CHUNK_BYTES b1 \<le> b2" "\<forall>p. check' p = Inr ()"
    "manifest_get manifest i = Some e" "regular (temporary_path e i) s"
  shows "\<exists>n s1 s2. open_source (final_path e) src = (Inr n, s1) \<and> validate_source_metadata n e s1 = (Inr (), s2) \<and>
    validate_stripe e offset len = Inr () \<and> unat offset + unat len \<le> length (node_contents n) \<and>
    receive_stripe_record lib b2 check' manifest i offset len (bs @ rest) s =
      (Inr (packed, rest), put_file (temporary_path e i) (unat offset) (take (unat len) (drop (unat offset) (node_contents n))) s)"
proof -
  let ?t = "temporary_path e i"
  from send_file_stripe_Inr [OF assms(1)] obtain n body s1 s2 where
      bs: "bs = MESSAGE_FILE_STRIPE # to_be_bytes (of_nat i :: u64) @ to_be_bytes offset @ to_be_bytes len @ body"
    and i: "i \<le> usize_max" and v: "validate_stripe e offset len = Inr ()"
    and o: "open_source (final_path e) src = (Inr n, s1)" "validate_source_metadata n e s1 = (Inr (), s2)"
    and p: "send_payload lib b1 check (\<lambda>k p. read_exact_at (node_contents n) (unat offset + p) k) d len = Inr (body, packed)" by blast
  note r = part_sink.payload_received [OF p assms(2,3,4,6)]
  have copied: "receive_payload lib b2 check' (\<lambda>chunk t. write_file_at ?t (unat offset + t) chunk) len (body @ rest) s =
      (Inr (packed, rest), put_file ?t (unat offset) (take (unat len) (drop (unat offset) (node_contents n))) s)"
    using r(1) [of "unat offset" rest] by simp
  have len: "len \<noteq> 0" and no: "\<exists>stop. checked_add offset len = Some stop"
    using v by (auto simp: validate_stripe_def ebind_Inr ok_or_Inr split: if_splits)
  have sync: "sync_all ?t (put_file ?t (unat offset) x s) = (Inr (), put_file ?t (unat offset) x s)" for x
    using part_sink.ready_put [OF assms(6), of "unat offset" 0 x]
    by (simp add: regular_def sync_all_def syscall_def next_fault_def fret_def)
  have "receive_file_stripe lib b2 check' e i offset len (body @ rest) s =
      (Inr (packed, rest), put_file ?t (unat offset) (take (unat len) (drop (unat offset) (node_contents n))) s)"
    using v no copied sync open_for_write_regular [OF assms(6)]
    by (auto simp: receive_file_stripe_def fbind_def flift_def fret_def Let_def)
  then have "receive_stripe_record lib b2 check' manifest i offset len (bs @ rest) s =
      (Inr (packed, rest), put_file ?t (unat offset) (take (unat len) (drop (unat offset) (node_contents n))) s)"
    using i assms(5)
    by (simp add: receive_stripe_record_def bs read_header_u8 read_header_u64 read_file_id_written fbind_def flift_def fguard_def fret_def)
  then show ?thesis using o v r(2) len by auto
qed

lemma whole_file_received:
  assumes "send_whole_file lib b1 check d i e src = (Inr (bs, packed), src')"
    "libs_ok lib" "min COMPRESSION_CHUNK_BYTES b1 \<le> b2" "\<forall>p. check' p = Inr ()"
    and free: "faults s = []" "fmlookup (nodes s) (temporary_path e i) = None" "parent_exists s (temporary_path e i)"
      "parent_exists s (final_path e)" "\<nexists>a. fmlookup (nodes s) (final_path e) = Some (DirNode a)"
  shows "\<exists>n s1 s2 body s'. open_source (final_path e) src = (Inr n, s1) \<and> validate_source_metadata n e s1 = (Inr (), s2) \<and>
    unat (file_size e) \<le> length (node_contents n) \<and> bs = MESSAGE_FILE # body \<and>
    receive_file_record lib b2 check' i e MESSAGE_FILE (body @ rest) s = (Inr (packed, rest), s') \<and>
    faults s' = [] \<and> holds s' (final_path e) (take (unat (file_size e)) (node_contents n))"
proof -
  let ?t = "temporary_path e i" and ?f = "final_path e"
  from send_whole_file_Inr [OF assms(1)] obtain n body s1 s2 where
      bs: "bs = MESSAGE_FILE # to_be_bytes (of_nat i :: u64) @ to_be_bytes (file_size e) @ body" and i: "i \<le> usize_max"
    and o: "open_source ?f src = (Inr n, s1)" "validate_source_metadata n e s1 = (Inr (), s2)"
    and p: "send_payload lib b1 check (\<lambda>k p. read_exact_at (node_contents n) (0 + p) k) d (file_size e) = Inr (body, packed)" by blast
  define zeros where "zeros = s\<lparr>nodes := fmupd ?t (FileNode (replicate (unat (file_size e)) 0) (clock s) FILE_ATTRIBUTE_ARCHIVE) (nodes s)\<rparr>"
  have z: "regular ?t zeros" using free(1) by (auto simp: regular_def zeros_def holds_def)
  note r = part_sink.payload_received [OF p assms(2,3,4) z]
  define c where "c = take (unat (file_size e)) (node_contents n)"
  define t where "t = put_file ?t 0 c zeros"
  have len: "length c = unat (file_size e)" "unat (file_size e) \<le> length (node_contents n)"
    using r(2) by (auto simp: c_def unat_eq_zero)
  have t: "t = s\<lparr>nodes := fmupd ?t (FileNode c (clock s) FILE_ATTRIBUTE_ARCHIVE) (nodes s)\<rparr>"
    using write_all_over [OF len(1)] by (simp add: t_def put_file_def zeros_def update_file_def fmupd_idem)
  have parent: "parent_exists t ?f"
    using free(2,4) by (auto simp: t parent_exists_def split: option.splits)
  have tf: "?t \<noteq> ?f" by (rule temporary_not_final)
  have copied: "receive_payload lib b2 check' (\<lambda>chunk t. write_file_at ?t t chunk) (file_size e) (body @ rest) zeros = (Inr (packed, rest), t)"
    using r(1) [of 0 rest] by (simp add: t_def c_def)
  have "create_new ?t s = (Inr (), s\<lparr>nodes := fmupd ?t (FileNode [] (clock s) FILE_ATTRIBUTE_ARCHIVE) (nodes s)\<rparr>)"
    using free(1-3) by (simp add: create_new_def syscall_def next_fault_def)
  moreover have "set_len ?t (unat (file_size e)) (s\<lparr>nodes := fmupd ?t (FileNode [] (clock s) FILE_ATTRIBUTE_ARCHIVE) (nodes s)\<rparr>) = (Inr (), zeros)"
    using free(1) by (simp add: set_len_def syscall_def next_fault_def update_file_def zeros_def fmupd_idem)
  moreover obtain s' where "replace ?t ?f t = (Inr (), s')" "faults s' = []" "holds s' ?f c"
  proof -
    have "\<nexists>a. fmlookup (nodes t) ?f = Some (DirNode a)" using free(5) tf by (simp add: t)
    moreover have "holds t ?t c" "faults t = []" using free(1) by (auto simp: t holds_def)
    ultimately show ?thesis using that replace_ok [of t ?t c ?f] parent by blast
  qed
  ultimately have "receive_file lib b2 check' i e (body @ rest) s = (Inr (packed, rest), s')" "faults s' = []" "holds s' ?f c"
    using copied by (simp_all add: receive_file_def Let_def fbind_def on_error_def fret_def)
  then show ?thesis
    using o len(2) i bs
    by (intro exI [of _ n] exI [of _ s1] exI [of _ s2] exI [of _ "to_be_bytes (of_nat i :: u64) @ to_be_bytes (file_size e) @ body"] exI [of _ s'])
      (simp add: receive_file_record_def read_header_u64 read_file_id_written fbind_def flift_def fguard_def fret_def c_def)
qed
text \<open>C4.  A file received whole replaces the file at its place completely or not at all.  Whatever bytes arrive and whatever
  calls fail, nothing but the part file and the final file is touched; when receiving fails, the final file is what it was;
  when it succeeds, the final file has the announced size, its contents have the digest that arrived after them, and no part
  file is left.\<close>

theorem receive_file_atomic:
  assumes "receive_file lib buf check i e bs s = (r, s')"
  shows "only {temporary_path e i, final_path e} s s' \<and>
    (case r of Inl _ \<Rightarrow> fmlookup (nodes s') (final_path e) = fmlookup (nodes s) (final_path e)
     | Inr (packed, rest) \<Rightarrow> (\<exists>c used. length c = unat (file_size e) \<and> bs = used @ blake3 lib c @ rest \<and>
         holds s' (final_path e) c \<and> fmlookup (nodes s') (temporary_path e i) = None))"
proof
  let ?t = "temporary_path e i" and ?f = "final_path e"
  let ?w = "\<lambda>chunk t. write_file_at ?t t chunk"
  let ?copy = "fbind (create_new ?t) (\<lambda>_. fbind (set_len ?t (unat (file_size e))) (\<lambda>_.
    on_error (receive_payload lib buf check ?w (file_size e) bs) (fs_remove_file ?t)))"
  show "only {?t, ?f} s s'" using withinD [OF touch_receive_file assms] .
  have "receive_file lib buf check i e bs = fbind ?copy (\<lambda>r. fbind (replace ?t ?f) (\<lambda>_. fret r))"
    by (rule ext) (auto simp: receive_file_def fbind_def Let_def split: prod.splits sum.splits)
  with assms have split: "fbind ?copy (\<lambda>r. fbind (replace ?t ?f) (\<lambda>_. fret r)) s = (r, s')" by simp
  have copy: "within (only {?t}) ?copy"
    by (intro touch.bind touch.error_cleanup touch_calls touch_receive_payload touch_write) simp_all
  have kept: "fmlookup (nodes t) ?f = fmlookup (nodes s) ?f" if "?copy s = (x, t)" for x t
    using withinD [OF copy that] onlyD [of "{?t}" s t ?f] temporary_not_final [of e i] by (metis singletonD)
  show "case r of Inl _ \<Rightarrow> fmlookup (nodes s') ?f = fmlookup (nodes s) ?f
     | Inr (packed, rest) \<Rightarrow> (\<exists>c used. length c = unat (file_size e) \<and> bs = used @ blake3 lib c @ rest \<and>
         holds s' ?f c \<and> fmlookup (nodes s') ?t = None)"
    using split
  proof (cases rule: fbind_cases)
    case (Err err)
    then show ?thesis using kept by simp
  next
    case (Ok a s3)
    obtain packed rest where a: "a = (packed, rest)" by force
    from Ok(1) a obtain s1 s2 where s1: "create_new ?t s = (Inr (), s1)" and s2: "set_len ?t (unat (file_size e)) s1 = (Inr (), s2)"
      and p: "receive_payload lib buf check ?w (file_size e) bs s2 = (Inr (packed, rest), s3)"
      by (auto simp: fbind_Inr on_error_Inr)
    from payload_verified [OF p] obtain cs used where cs: "deliver ?w 0 cs s2 = (Inr (), s3)"
      "length (concat cs) = unat (file_size e)" "bs = used @ blake3 lib (concat cs) @ rest" by blast
    have "holds s2 ?t (replicate (unat (file_size e)) 0)"
      using set_len_Inr [OF s2, of "[]"] create_new_Inr [OF s1] by (auto simp: holds_def)
    moreover have "deliver (\<lambda>c t. write_file_at ?t (0 + t) c) 0 cs s2 = (Inr (), s3)" using cs(1) by simp
    ultimately have "holds s3 ?t (write_all_at (replicate (unat (file_size e)) 0) (0 + 0) (concat cs))" by (intro deliver_writes)
    then have written: "holds s3 ?t (concat cs)" using write_all_over [OF cs(2)] by simp
    from Ok(2) consider err where "replace ?t ?f s3 = (Inl err, s')" "r = Inl err" | "replace ?t ?f s3 = (Inr (), s')" "r = Inr a"
      by (cases rule: fbind_cases) (auto simp: fret_def)
    then show ?thesis
    proof cases
      case 1
      then show ?thesis using replace_Inl [OF 1(1)] kept [OF Ok(1)] by simp
    next
      case 2
      then show ?thesis using replace_Inr [OF 2(1)] temporary_not_final [of e i] cs(2,3) written
        by (auto simp: a holds_def)
    qed
  qed
qed

text \<open>C3.  A file that was read is the file that arrives.  When the sender has sent a file, raw or compressed, and no call fails
  at the receiver, whose directory for the file exists and whose part-file name is free, the receiver consumes exactly the
  record and the final file has the contents of the source.\<close>

theorem whole_file_copied:
  assumes "libs_ok lib" "send_whole_file lib b1 check d i e source = (Inr (bs, packed), source')" "source_file source e c"
    "min COMPRESSION_CHUNK_BYTES b1 \<le> b2" "\<forall>p. check' p = Inr ()"
    "faults s = []" "fmlookup (nodes s) (temporary_path e i) = None" "parent_exists s (temporary_path e i)"
    "parent_exists s (final_path e)" "\<nexists>a. fmlookup (nodes s) (final_path e) = Some (DirNode a)"
  shows "\<exists>body s'. bs = MESSAGE_FILE # body \<and>
    receive_file_record lib b2 check' i e MESSAGE_FILE (body @ rest) s = (Inr (packed, rest), s') \<and> holds s' (final_path e) c"
proof -
  from whole_file_received [OF assms(2,1,4-10), of rest] obtain n s1 body s' where
      o: "open_source (final_path e) source = (Inr n, s1)" and b: "bs = MESSAGE_FILE # body"
      "receive_file_record lib b2 check' i e MESSAGE_FILE (body @ rest) s = (Inr (packed, rest), s')"
      "holds s' (final_path e) (take (unat (file_size e)) (node_contents n))" by blast
  have "node_contents n = c" "length c = unat (file_size e)" using open_source_Inr(2) [OF o] assms(3) by (auto simp: source_file_def)
  with b show ?thesis by auto
qed

definition sample_root :: fs where
  "sample_root = \<lparr>nodes = fmap_of_list [([], DirNode 0x10)], faults = [], clock = 9,
     journal_dir = \<lparr>journal_file = None, temporary_file = None\<rparr>\<rparr>"

lemma sample_file_send:
  "\<exists>bs source'. send_whole_file identity_libs 8 (\<lambda>_. Inr ()) Compress 0 (sample_entry name_a) (sample_fs [0x62]) = (Inr (bs, True), source')"
proof -
  have ne: "[0x62] \<noteq> name_a" by (simp add: name_a_def)
  note n = sample_nodes [OF ne]
  have "min COMPRESSION_CHUNK_BYTES 8 = 8" by (simp add: COMPRESSION_CHUNK_BYTES_def)
  then show ?thesis
    by (simp add: send_whole_file_def fbind_def flift_def fret_def fguard_def open_source_def validate_source_metadata_def syscall_def
        next_fault_def final_path_def sample_entry_def sample_paths n write_file_id_def engine_prims ebind_def word_try_from_def
        send_payload_def write_mode_def send_chunks.simps encode_chunk_def identity_libs_def read_exact_at_def
        MAX_COMPRESSED_CHUNK_BYTES_def COMPRESSION_CHUNK_BYTES_def ok_or_def Let_def)
qed

lemma sample_root_ready:
  "faults sample_root = []" "fmlookup (nodes sample_root) (temporary_path (sample_entry name_a) 0) = None"
  "parent_exists sample_root (temporary_path (sample_entry name_a) 0)" "parent_exists sample_root (final_path (sample_entry name_a))"
  "\<nexists>a. fmlookup (nodes sample_root) (final_path (sample_entry name_a)) = Some (DirNode a)"
  using sample_paths by (auto simp: sample_root_def temporary_path_def final_path_def sample_entry_def parent_exists_def)

theorem whole_file_copied_witness:
  "\<exists>bs body s'. fst (send_whole_file identity_libs 8 (\<lambda>_. Inr ()) Compress 0 (sample_entry name_a) (sample_fs [0x62])) = Inr (bs, True) \<and>
     bs = MESSAGE_FILE # body \<and>
     receive_file_record identity_libs 8 (\<lambda>_. Inr ()) 0 (sample_entry name_a) MESSAGE_FILE body sample_root = (Inr (True, []), s') \<and>
     holds s' [Normal name_a] [1, 2]"
proof -
  obtain bs source' where send: "send_whole_file identity_libs 8 (\<lambda>_. Inr ()) Compress 0 (sample_entry name_a) (sample_fs [0x62]) =
      (Inr (bs, True), source')" using sample_file_send by blast
  have ne: "[0x62] \<noteq> name_a" by (simp add: name_a_def)
  have src: "source_file (sample_fs [0x62]) (sample_entry name_a) [1, 2]"
    by (simp add: source_file_def final_path_def sample_entry_def sample_paths sample_nodes [OF ne])
  have f: "final_path (sample_entry name_a) = [Normal name_a]" by (simp add: final_path_def sample_entry_def sample_paths)
  have "min COMPRESSION_CHUNK_BYTES 8 \<le> 8" "\<forall>p :: nat. (\<lambda>_. Inr ()) p = (Inr () :: unit io_result)" by simp_all
  from whole_file_copied [OF identity_libs_ok send src this sample_root_ready, of "[]"] send show ?thesis by (auto simp: f)
qed

theorem receive_file_atomic_witness:
  "\<exists>bs s'. receive_file identity_libs 8 (\<lambda>_. Inr ()) 0 (sample_entry name_a) bs sample_root = (Inr (True, []), s') \<and>
     only {temporary_path (sample_entry name_a) 0, final_path (sample_entry name_a)} sample_root s' \<and>
     fmlookup (nodes s') (temporary_path (sample_entry name_a) 0) = None"
proof -
  obtain bs source' where send: "send_whole_file identity_libs 8 (\<lambda>_. Inr ()) Compress 0 (sample_entry name_a) (sample_fs [0x62]) =
      (Inr (bs, True), source')" using sample_file_send by blast
  have "min COMPRESSION_CHUNK_BYTES 8 \<le> 8" "\<forall>p :: nat. (\<lambda>_. Inr ()) p = (Inr () :: unit io_result)" by simp_all
  from whole_file_received [OF send identity_libs_ok this sample_root_ready, of "[]"] obtain body s' where
    "receive_file_record identity_libs 8 (\<lambda>_. Inr ()) 0 (sample_entry name_a) MESSAGE_FILE (body @ []) sample_root = (Inr (True, []), s')"
    by blast
  then obtain bs' where r: "receive_file identity_libs 8 (\<lambda>_. Inr ()) 0 (sample_entry name_a) bs' sample_root = (Inr (True, []), s')"
    by (auto simp: receive_file_record_def fbind_Inr flift_def fguard_def fret_def ffail_def split: if_splits)
  from receive_file_atomic [OF r] r show ?thesis by auto
qed

end
