(* ===== verification/Chunking.thy ===== *)
theory Chunking
  imports File_Transfer
begin

text \<open>
  Content-defined chunks and the index of a basis file, from \<^verbatim>\<open>src/content_defined_dedup_bench.rs\<close> and
  \<^verbatim>\<open>src/cdc_basis_index.rs\<close>: the sizes of a configuration, the gear hash, the loop that cuts a file and calls a
  visitor for every chunk, the index with the first location of every chunk, and its wire format.  \<open>chunks_of\<close> is
  the reference for the loop, \<open>index_of\<close> for the index; \<open>delivers\<close> says that a program which only reads gives a
  result that does not depend on the interruptions on the way.
\<close>

unbundle bit_operations_syntax

section \<open>Chunk sizes\<close>

definition DEFAULT_AVERAGE_KIB :: usize where "DEFAULT_AVERAGE_KIB = 64"
definition MIN_AVERAGE_KIB :: usize where "MIN_AVERAGE_KIB = 4"
definition MAX_AVERAGE_KIB :: usize where "MAX_AVERAGE_KIB = 4 * 1024"
definition READ_BUFFER_BYTES :: usize where "READ_BUFFER_BYTES = 1024 * 1024"

record ChunkKey =
  key_digest :: digest
  key_length :: u32

record ChunkConfig =
  average_bytes :: usize
  minimum_bytes :: usize
  maximum_bytes :: usize
  boundary_mask :: u64

text \<open>The counters of a run; the time it took is left out.\<close>

record ChunkingStats =
  stat_bytes :: u64
  stat_chunks :: u64
  minimum_chunk_bytes :: u64
  maximum_chunk_bytes :: u64

definition is_power_of_two :: "usize \<Rightarrow> bool" where
  "is_power_of_two n \<longleftrightarrow> list_ex (\<lambda>k. n = 2 ^ k) [0..<64]"

definition validate_average_kib :: "usize \<Rightarrow> unit io_result" where
  "validate_average_kib average_kib =
     (if \<not> (MIN_AVERAGE_KIB \<le> average_kib \<and> average_kib \<le> MAX_AVERAGE_KIB) then Inl InvalidInput
      else if \<not> is_power_of_two average_kib then Inl InvalidInput
      else Inr ())"

definition from_average_kib :: "usize \<Rightarrow> ChunkConfig io_result" where
  "from_average_kib average_kib =
     ebind (validate_average_kib average_kib) (\<lambda>_.
     ebind (ensure (average_kib * 1024 \<le> usize_max) OtherError) (\<lambda>_.
     (let average = average_kib * 1024; minimum = average div 2 in
     ebind (ensure (average * 2 \<le> usize_max) OtherError) (\<lambda>_.
     ebind (word_try_from OtherError (minimum - 1)) (\<lambda>mask.
       Inr \<lparr>average_bytes = average, minimum_bytes = minimum, maximum_bytes = average * 2, boundary_mask = mask\<rparr>)))))"

section \<open>The rolling hash\<close>

fun gear_entries :: "nat \<Rightarrow> u64 \<Rightarrow> u64 list" where
  "gear_entries 0 state = []"
| "gear_entries (Suc n) state =
     (let state1 = state XOR drop_bit 12 state;
          state2 = state1 XOR push_bit 25 state1;
          state3 = state2 XOR drop_bit 27 state2
      in state3 * 0x2545F4914F6CDD1D # gear_entries n state3)"

definition build_gear_table :: "u64 list" where
  "build_gear_table = gear_entries 256 0x9E3779B97F4A7C15"

definition GearHash_push :: "u64 \<Rightarrow> byte \<Rightarrow> u64" where
  "GearHash_push value b = push_bit 1 value + build_gear_table ! unat b"

section \<open>Cutting a file\<close>

text \<open>
  The variables of the loop of \<^verbatim>\<open>chunk_reader\<close>: the hash, the bytes since the last boundary, where they start, the
  counters, and the state of the visitor that is called for every chunk.
\<close>

record 's ChunkerState =
  boundary_hash :: u64
  chunk_buffer :: "byte list"
  chunk_start :: u64
  chunk_stats :: ChunkingStats
  visited :: 's

type_synonym 's visitor = "'s \<Rightarrow> u64 \<Rightarrow> byte list \<Rightarrow> 's io_result"

definition default_stats :: ChunkingStats where
  "default_stats = \<lparr>stat_bytes = 0, stat_chunks = 0, minimum_chunk_bytes = 0, maximum_chunk_bytes = 0\<rparr>"

definition emit_chunk :: "'s visitor \<Rightarrow> u64 \<Rightarrow> byte list \<Rightarrow> ChunkingStats \<times> 's \<Rightarrow> (ChunkingStats \<times> 's) io_result" where
  "emit_chunk visitor offset contents = (\<lambda>(stats, v).
     ebind (visitor v offset contents) (\<lambda>v'.
     ebind (word_try_from OtherError (length contents)) (\<lambda>chunk_bytes.
     ebind (ok_or OtherError (checked_add (stat_bytes stats) chunk_bytes)) (\<lambda>bytes.
     ebind (ok_or OtherError (checked_add (stat_chunks stats) 1)) (\<lambda>chunks.
       Inr (\<lparr>stat_bytes = bytes, stat_chunks = chunks,
             minimum_chunk_bytes = (if chunks = 1 then chunk_bytes else min (minimum_chunk_bytes stats) chunk_bytes),
             maximum_chunk_bytes = (if chunks = 1 then chunk_bytes else max (maximum_chunk_bytes stats) chunk_bytes)\<rparr>, v'))))))"

definition is_boundary :: "ChunkConfig \<Rightarrow> u64 \<Rightarrow> usize \<Rightarrow> bool" where
  "is_boundary config hash chunk_bytes \<longleftrightarrow>
     chunk_bytes \<ge> minimum_bytes config \<and> (hash AND boundary_mask config = 0 \<or> chunk_bytes \<ge> maximum_bytes config)"

definition chunk_byte :: "ChunkConfig \<Rightarrow> 's visitor \<Rightarrow> 's ChunkerState \<Rightarrow> byte \<Rightarrow> 's ChunkerState io_result" where
  "chunk_byte config visitor st b =
     (let hash = GearHash_push (boundary_hash st) b; chunk = chunk_buffer st @ [b] in
      if is_boundary config hash (length chunk) then
        ebind (emit_chunk visitor (chunk_start st) chunk (chunk_stats st, visited st)) (\<lambda>(stats, v).
        ebind (word_try_from OtherError (length chunk)) (\<lambda>emitted_bytes.
        ebind (ok_or OtherError (checked_add (chunk_start st) emitted_bytes)) (\<lambda>start.
          Inr \<lparr>boundary_hash = 0, chunk_buffer = [], chunk_start = start, chunk_stats = stats, visited = v\<rparr>)))
      else Inr (st\<lparr>boundary_hash := hash, chunk_buffer := chunk\<rparr>))"

text \<open>A read that is tried again while it is interrupted; what it delivers is decided by the file.\<close>

function retried :: "'a \<Rightarrow> 'a fsm" where
  "retried a s =
     (case faults s of
        [] \<Rightarrow> (Inr a, s)
      | None # rest \<Rightarrow> (Inr a, s\<lparr>faults := rest\<rparr>)
      | Some (e, k) # rest \<Rightarrow> if e = Interrupted then retried a (s\<lparr>faults := rest\<rparr>) else (Inl e, s\<lparr>faults := rest\<rparr>))"
  by pat_completeness auto
termination by (relation "measure (\<lambda>(a, s). length (faults s))") auto

declare retried.simps [simp del]

text \<open>The loop over the reads of the file; the last read delivers no bytes.\<close>

function chunk_reads :: "ChunkConfig \<Rightarrow> 's visitor \<Rightarrow> byte list \<Rightarrow> 's ChunkerState \<Rightarrow> 's ChunkerState fsm" where
  "chunk_reads config visitor unread st =
     (if unread = [] then fbind (retried ()) (\<lambda>_. fret st)
      else fbind (retried (take READ_BUFFER_BYTES unread)) (\<lambda>buffer.
           fbind (flift (efold (chunk_byte config visitor) st buffer)) (\<lambda>st'.
             chunk_reads config visitor (drop READ_BUFFER_BYTES unread) st')))"
  by pat_completeness auto
termination by (relation "measure (\<lambda>(config, visitor, unread, st). length unread)") (auto simp: READ_BUFFER_BYTES_def)

declare chunk_reads.simps [simp del]

definition chunk_reader :: "ChunkConfig \<Rightarrow> 's visitor \<Rightarrow> byte list \<Rightarrow> 's \<Rightarrow> (ChunkingStats \<times> 's) fsm" where
  "chunk_reader config visitor contents v =
     fbind (chunk_reads config visitor contents
              \<lparr>boundary_hash = 0, chunk_buffer = [], chunk_start = 0, chunk_stats = default_stats, visited = v\<rparr>) (\<lambda>st.
       if chunk_buffer st \<noteq> [] then flift (emit_chunk visitor (chunk_start st) (chunk_buffer st) (chunk_stats st, visited st))
       else fret (chunk_stats st, visited st))"

definition chunk_key :: "libs \<Rightarrow> byte list \<Rightarrow> ChunkKey io_result" where
  "chunk_key lib contents =
     ebind (word_try_from InvalidInput (length contents)) (\<lambda>len. Inr \<lparr>key_digest = blake3 lib contents, key_length = len\<rparr>)"

section \<open>The index of a basis file\<close>

definition WIRE_MAGIC :: "byte list" where "WIRE_MAGIC = [0x4E, 0x43, 0x49, 0x31]"
definition WIRE_HEADER_BYTES :: usize where "WIRE_HEADER_BYTES = 4 + 4 + 8 + 8"
definition WIRE_RECORD_BYTES :: usize where "WIRE_RECORD_BYTES = 8 + 4 + 32"

record BasisChunk =
  basis_offset :: u64
  basis_key :: ChunkKey

record BasisFileIndex =
  index_average_kib :: usize
  index_file_bytes :: u64
  index_chunks :: "BasisChunk list"
  first_locations :: "(ChunkKey, u64) fmap"

text \<open>\<^verbatim>\<open>entry(key).or_insert(offset)\<close>\<close>

definition or_insert :: "'k \<Rightarrow> 'v \<Rightarrow> ('k, 'v) fmap \<Rightarrow> ('k, 'v) fmap" where
  "or_insert k v m = (case fmlookup m k of None \<Rightarrow> fmupd k v m | Some _ \<Rightarrow> m)"

definition index_visitor :: "libs \<Rightarrow> (BasisChunk list \<times> (ChunkKey, u64) fmap) visitor" where
  "index_visitor lib = (\<lambda>(chunks, locations) offset contents.
     ebind (chunk_key lib contents) (\<lambda>key.
       Inr (chunks @ [\<lparr>basis_offset = offset, basis_key = key\<rparr>], or_insert key offset locations)))"

definition build_from_reader :: "libs \<Rightarrow> byte list \<Rightarrow> u64 \<Rightarrow> usize \<Rightarrow> BasisFileIndex fsm" where
  "build_from_reader lib contents expected_bytes average_kib =
     fbind (flift (from_average_kib average_kib)) (\<lambda>config.
     fbind (chunk_reader config (index_visitor lib) contents ([], fmempty)) (\<lambda>(chunking, chunks, locations).
     fbind (fguard (stat_bytes chunking = expected_bytes) InvalidData) (\<lambda>_.
       fret \<lparr>index_average_kib = average_kib, index_file_bytes = stat_bytes chunking, index_chunks = chunks,
             first_locations = locations\<rparr>)))"

text \<open>An opened file keeps what it had when it was opened.\<close>

definition BasisFileIndex_build :: "libs \<Rightarrow> fpath \<Rightarrow> usize \<Rightarrow> BasisFileIndex fsm" where
  "BasisFileIndex_build lib p average_kib =
     fbind (open_source p) (\<lambda>n.
     fbind (syscall (fret (node_len n))) (\<lambda>expected_bytes.
       build_from_reader lib (node_contents n) expected_bytes average_kib))"

definition index_find :: "BasisFileIndex \<Rightarrow> ChunkKey \<Rightarrow> u64 option" where
  "index_find index key = fmlookup (first_locations index) key"

definition wire_size_for_chunks :: "usize \<Rightarrow> usize io_result" where
  "wire_size_for_chunks chunk_count =
     (if chunk_count * WIRE_RECORD_BYTES \<le> usize_max \<and> WIRE_HEADER_BYTES + chunk_count * WIRE_RECORD_BYTES \<le> usize_max
      then Inr (WIRE_HEADER_BYTES + chunk_count * WIRE_RECORD_BYTES) else Inl OtherError)"

definition write_basis_chunk :: "BasisChunk \<Rightarrow> byte list io_result" where
  "write_basis_chunk c = Inr (to_le_bytes (basis_offset c) @ to_le_bytes (key_length (basis_key c)) @ key_digest (basis_key c))"

definition index_encode_wire :: "BasisFileIndex \<Rightarrow> byte list io_result" where
  "index_encode_wire index =
     ebind (word_try_from OtherError (length (index_chunks index))) (\<lambda>chunk_count :: u64.
     ebind (word_try_from OtherError (index_average_kib index)) (\<lambda>average_kib :: u32.
     ebind (wire_size_for_chunks (length (index_chunks index))) (\<lambda>_.
       wcat ([Inr WIRE_MAGIC, Inr (to_le_bytes average_kib), Inr (to_le_bytes (index_file_bytes index)), Inr (to_le_bytes chunk_count)] @
             map write_basis_chunk (index_chunks index)))))"

text \<open>The readers of a buffer: what is missing is invalid data.\<close>

definition slice_exact :: "nat \<Rightarrow> byte list reader" where
  "slice_exact n bs = (if length bs < n then Inl InvalidData else Inr (take n bs, drop n bs))"

definition slice_le :: "'a::len word reader" where
  "slice_le = rbind (slice_exact (LENGTH('a) div 8)) (\<lambda>bs. rret (from_le_bytes bs))"

definition read_basis_chunk :: "BasisChunk reader" where
  "read_basis_chunk =
     rbind slice_le (\<lambda>offset.
     rbind slice_le (\<lambda>len.
     rbind (slice_exact CONTENT_DIGEST_BYTES) (\<lambda>d.
       rret \<lparr>basis_offset = offset, basis_key = \<lparr>key_digest = d, key_length = len\<rparr>\<rparr>)))"

text \<open>The checks of one record of the index: its number, the locations so far and the offset expected next.\<close>

definition accept_basis_chunk ::
    "ChunkConfig \<Rightarrow> usize \<Rightarrow> usize \<times> (ChunkKey, u64) fmap \<times> u64 \<Rightarrow> BasisChunk \<Rightarrow> (usize \<times> (ChunkKey, u64) fmap \<times> u64) io_result" where
  "accept_basis_chunk config chunk_count = (\<lambda>(chunk_index, locations, expected_offset) c.
     (let len = key_length (basis_key c) in
      if len = 0 then Inl InvalidData
      else if basis_offset c \<noteq> expected_offset then Inl InvalidData
      else if unat len > maximum_bytes config then Inl InvalidData
      else if chunk_index + 1 \<noteq> chunk_count \<and> unat len < minimum_bytes config then Inl InvalidData
      else ebind (ok_or InvalidData (checked_add expected_offset (ucast len))) (\<lambda>next_offset.
             Inr (chunk_index + 1, or_insert (basis_key c) (basis_offset c) locations, next_offset))))"

definition index_decode_wire :: "byte list \<Rightarrow> BasisFileIndex io_result" where
  "index_decode_wire encoded =
     (if length encoded < WIRE_HEADER_BYTES then Inl InvalidData
      else if take 4 encoded \<noteq> WIRE_MAGIC then Inl InvalidData
      else ebind (slice_le (drop 4 encoded)) (\<lambda>(average :: u32, bs1).
           ebind (map_err (\<lambda>_. InvalidData) (from_average_kib (unat average))) (\<lambda>config.
           ebind (slice_le bs1) (\<lambda>(file_bytes, bs2).
           ebind (slice_le bs2) (\<lambda>(chunk_count_u64, bs3).
           ebind (usize_try_from InvalidData chunk_count_u64) (\<lambda>chunk_count.
           ebind (wire_size_for_chunks chunk_count) (\<lambda>expected_wire_bytes.
           if length encoded \<noteq> expected_wire_bytes then Inl InvalidData
           else ebind (rfor chunk_count (read_fold read_basis_chunk (accept_basis_chunk config chunk_count)) ([], 0, fmempty, 0) bs3)
                  (\<lambda>((chunks, chunk_index, locations, expected_offset), _).
                if expected_offset \<noteq> file_bytes then Inl InvalidData
                else Inr \<lparr>index_average_kib = unat average, index_file_bytes = file_bytes, index_chunks = chunks,
                          first_locations = locations\<rparr>))))))))"

section \<open>The chunks of a file\<close>

text \<open>
  What the loop computes, as a function of the bytes alone: \<open>cut\<close> continues a chunk, \<open>chunks_of\<close> cuts a file.
\<close>

fun cut :: "ChunkConfig \<Rightarrow> u64 \<Rightarrow> byte list \<Rightarrow> byte list \<Rightarrow> byte list list" where
  "cut config hash chunk [] = (if chunk = [] then [] else [chunk])"
| "cut config hash chunk (b # bs) =
     (let hash' = GearHash_push hash b; chunk' = chunk @ [b] in
      if is_boundary config hash' (length chunk') then chunk' # cut config 0 [] bs else cut config hash' chunk' bs)"

definition chunks_of :: "ChunkConfig \<Rightarrow> byte list \<Rightarrow> byte list list" where
  "chunks_of config contents = cut config 0 [] contents"

fun with_offsets :: "u64 \<Rightarrow> byte list list \<Rightarrow> (u64 \<times> byte list) list" where
  "with_offsets offset [] = []"
| "with_offsets offset (c # cs) = (offset, c) # with_offsets (offset + of_nat (length c)) cs"

definition emit_chunks :: "'s visitor \<Rightarrow> ChunkingStats \<times> 's \<Rightarrow> u64 \<Rightarrow> byte list list \<Rightarrow> (ChunkingStats \<times> 's) io_result" where
  "emit_chunks visitor sv offset cs = efold (\<lambda>sv (o', c). emit_chunk visitor o' c sv) sv (with_offsets offset cs)"

lemma emit_chunks_simps [simp]:
  "emit_chunks visitor sv offset [] = Inr sv"
  "emit_chunks visitor sv offset (c # cs) =
     ebind (emit_chunk visitor offset c sv) (\<lambda>sv'. emit_chunks visitor sv' (offset + of_nat (length c)) cs)"
  by (simp_all add: emit_chunks_def)

lemma map_snd_with_offsets [simp]: "map snd (with_offsets offset cs) = cs"
  by (induction cs arbitrary: offset) auto

lemma length_with_offsets [simp]: "length (with_offsets offset cs) = length cs"
  by (induction cs arbitrary: offset) auto

lemma concat_cut: "concat (cut config hash chunk bs) = chunk @ bs"
  by (induction config hash chunk bs rule: cut.induct) (auto simp: Let_def)

lemma concat_chunks_of [simp]: "concat (chunks_of config contents) = contents"
  by (simp add: chunks_of_def concat_cut)

text \<open>The sizes of a configuration the program accepts.\<close>

definition config_ok :: "ChunkConfig \<Rightarrow> bool" where
  "config_ok config \<longleftrightarrow> 0 < minimum_bytes config \<and> minimum_bytes config < maximum_bytes config \<and> maximum_bytes config \<le> 2 ^ 23"

lemma from_average_kib_ok:
  assumes "from_average_kib k = Inr config"
  shows "config_ok config" "k \<le> 4096" "4 \<le> k" "minimum_bytes config = k * 512" "maximum_bytes config = k * 2048"
  using assms
  by (auto simp: from_average_kib_def validate_average_kib_def MIN_AVERAGE_KIB_def MAX_AVERAGE_KIB_def config_ok_def Let_def
      result_simps split: if_splits)

lemma default_config: "\<exists>config. from_average_kib DEFAULT_AVERAGE_KIB = Inr config"
  by (simp add: from_average_kib_def validate_average_kib_def MIN_AVERAGE_KIB_def MAX_AVERAGE_KIB_def DEFAULT_AVERAGE_KIB_def
      is_power_of_two_def upt_conv_Cons usize_max_def word_try_from_def)

lemma no_boundary: "config_ok config \<Longrightarrow> \<not> is_boundary config hash n \<Longrightarrow> n < maximum_bytes config"
  by (auto simp: config_ok_def is_boundary_def)

lemma cut_sizes:
  assumes "config_ok config" "length chunk < maximum_bytes config"
  shows "\<forall>c \<in> set (cut config hash chunk bs). 0 < length c \<and> length c \<le> maximum_bytes config"
  using assms(2)
proof (induction bs arbitrary: hash chunk)
  case (Cons b bs)
  have start: "length ([] :: byte list) < maximum_bytes config" using assms(1) by (auto simp: config_ok_def)
  show ?case
  proof (cases "is_boundary config (GearHash_push hash b) (length (chunk @ [b]))")
    case False
    then show ?thesis
      using Cons.prems Cons.IH [of "chunk @ [b]" "GearHash_push hash b"] no_boundary [OF assms(1) False] by (auto simp: Let_def)
  next
    case True
    then show ?thesis using Cons.prems Cons.IH [OF start] by (auto simp: Let_def)
  qed
qed (auto split: if_splits)

lemma cut_minimum:
  assumes "config_ok config" "length chunk < maximum_bytes config"
  shows "\<forall>c \<in> set (butlast (cut config hash chunk bs)). minimum_bytes config \<le> length c"
  using assms(2)
proof (induction bs arbitrary: hash chunk)
  case (Cons b bs)
  have start: "length ([] :: byte list) < maximum_bytes config" using assms(1) by (auto simp: config_ok_def)
  show ?case
  proof (cases "is_boundary config (GearHash_push hash b) (length (chunk @ [b]))")
    case False
    then show ?thesis
      using Cons.prems Cons.IH [of "chunk @ [b]" "GearHash_push hash b"] no_boundary [OF assms(1) False] by (auto simp: Let_def)
  next
    case True
    then show ?thesis using Cons.prems Cons.IH [OF start] by (auto simp: Let_def is_boundary_def split: if_splits)
  qed
qed (auto split: if_splits)

lemma chunk_sizes:
  assumes "config_ok config"
  shows "c \<in> set (chunks_of config contents) \<Longrightarrow> 0 < length c \<and> length c \<le> maximum_bytes config"
    and "c \<in> set (butlast (chunks_of config contents)) \<Longrightarrow> minimum_bytes config \<le> length c"
proof -
  have "length ([] :: byte list) < maximum_bytes config" using assms by (auto simp: config_ok_def)
  then show "c \<in> set (chunks_of config contents) \<Longrightarrow> 0 < length c \<and> length c \<le> maximum_bytes config"
    "c \<in> set (butlast (chunks_of config contents)) \<Longrightarrow> minimum_bytes config \<le> length c"
    using cut_sizes [OF assms] cut_minimum [OF assms] unfolding chunks_of_def by blast+
qed

section \<open>The loop cuts the file\<close>

lemma emit_chunk_Inr:
  "emit_chunk visitor offset c (stats, v) = Inr (stats', v') \<longleftrightarrow>
   visitor v offset c = Inr v' \<and> length c < 2 ^ 64 \<and> unat (stat_bytes stats) + length c < 2 ^ 64 \<and>
   unat (stat_chunks stats) + 1 < 2 ^ 64 \<and>
   stats' = (let n = of_nat (length c); chunks = stat_chunks stats + 1 in
     \<lparr>stat_bytes = stat_bytes stats + n, stat_chunks = chunks,
      minimum_chunk_bytes = (if chunks = 1 then n else min (minimum_chunk_bytes stats) n),
      maximum_chunk_bytes = (if chunks = 1 then n else max (maximum_chunk_bytes stats) n)\<rparr>)"
  by (auto simp: emit_chunk_def result_simps word_try_from_Inr unat_of_nat_small Let_def)

lemma emit_chunk_offset:
  assumes "emit_chunk visitor offset c (stats, v) = Inr (stats', v')"
  shows "word_try_from OtherError (length c) = Inr (of_nat (length c) :: u64)"
    "checked_add (stat_bytes stats) (of_nat (length c)) = Some (stat_bytes stats')"
    "stat_bytes stats' = stat_bytes stats + of_nat (length c)"
  using assms by (auto simp: emit_chunk_Inr word_try_from_def checked_add_def unat_of_nat_small Let_def)

definition flush_chunk :: "'s visitor \<Rightarrow> 's ChunkerState \<Rightarrow> (ChunkingStats \<times> 's) io_result" where
  "flush_chunk visitor st =
     (if chunk_buffer st \<noteq> [] then emit_chunk visitor (chunk_start st) (chunk_buffer st) (chunk_stats st, visited st)
      else Inr (chunk_stats st, visited st))"

lemma chunk_bytes_cut:
  assumes "chunk_start st = stat_bytes (chunk_stats st)"
  shows "ebind (efold (chunk_byte config visitor) st bs) (flush_chunk visitor) =
     emit_chunks visitor (chunk_stats st, visited st) (chunk_start st) (cut config (boundary_hash st) (chunk_buffer st) bs)"
  using assms
proof (induction bs arbitrary: st)
  case Nil
  show ?case
    by (cases "emit_chunk visitor (chunk_start st) (chunk_buffer st) (chunk_stats st, visited st)") (auto simp: flush_chunk_def)
next
  case (Cons b bs)
  let ?hash = "GearHash_push (boundary_hash st) b" and ?chunk = "chunk_buffer st @ [b]"
  show ?case
  proof (cases "is_boundary config ?hash (length ?chunk)")
    case False
    then show ?thesis using Cons by (simp add: chunk_byte_def Let_def)
  next
    case True
    show ?thesis
    proof (cases "emit_chunk visitor (chunk_start st) ?chunk (chunk_stats st, visited st)")
      case (Inl e)
      with True show ?thesis by (simp add: chunk_byte_def Let_def)
    next
      case (Inr r)
      obtain stats v where r: "r = (stats, v)" by force
      let ?st = "\<lparr>boundary_hash = 0, chunk_buffer = [], chunk_start = stat_bytes stats, chunk_stats = stats, visited = v\<rparr>"
      note e = emit_chunk_offset [OF Inr [unfolded r]]
      have "chunk_byte config visitor st b = Inr ?st"
        using True Inr e(1,2) Cons.prems by (simp add: chunk_byte_def Let_def r)
      then show ?thesis using Cons.IH [of ?st] True Inr e(3) Cons.prems by (simp add: Let_def r)
    qed
  qed
qed

lemma retried_Cons:
  "faults s = f # rest \<Longrightarrow> retried a s = (case f of None \<Rightarrow> (Inr a, s\<lparr>faults := rest\<rparr>)
     | Some (e, k) \<Rightarrow> if e = Interrupted then retried a (s\<lparr>faults := rest\<rparr>) else (Inl e, s\<lparr>faults := rest\<rparr>))"
  by (subst retried.simps) (simp split: option.splits prod.splits)

lemma retried_cases:
  "(\<exists>s'. retried a s = (Inr a, s') \<and> unchanged_fs s s') \<or>
   (\<exists>e k s'. retried a s = (Inl e, s') \<and> Some (e, k) \<in> set (faults s) \<and> unchanged_fs s s')"
proof (induction "faults s" arbitrary: s)
  case Nil
  then show ?case by (subst retried.simps) (auto simp: unchanged_fs_def)
next
  case (Cons f rest)
  show ?case using retried_Cons [OF Cons.hyps(2) [symmetric], of a] Cons.hyps(1) [of "s\<lparr>faults := rest\<rparr>"] Cons.hyps(2) [symmetric]
    by (cases f) (auto simp: unchanged_fs_def split: if_splits)
qed

lemma retried_Inr: "retried a s = (Inr b, s') \<Longrightarrow> b = a \<and> unchanged_fs s s'"
  using retried_cases [of a s] by auto

lemma retried_calm [simp]: "faults s = [] \<Longrightarrow> retried a s = (Inr a, s)"
  by (subst retried.simps) simp

text \<open>
  \<open>delivers m r\<close>: the program changes no file, and its result is \<open>r\<close> unless a call fails; with no fault to come it
  is \<open>r\<close>.
\<close>

definition delivers :: "'a fsm \<Rightarrow> 'a io_result \<Rightarrow> bool" where
  "delivers m r \<longleftrightarrow>
     (\<forall>s. unchanged_fs s (snd (m s)) \<and> (fst (m s) = r \<or> (\<exists>e k. fst (m s) = Inl e \<and> Some (e, k) \<in> set (faults s))) \<and>
          (faults s = [] \<longrightarrow> m s = (r, s)) \<and> set (faults (snd (m s))) \<subseteq> set (faults s))"

lemma delivers_Inr: "delivers m r \<Longrightarrow> m s = (Inr a, s') \<Longrightarrow> r = Inr a \<and> unchanged_fs s s'"
  by (fastforce simp: delivers_def dest!: spec [of _ s])

lemma delivers_calm: "delivers m r \<Longrightarrow> faults s = [] \<Longrightarrow> m s = (r, s)"
  by (simp add: delivers_def)

lemma delivers_quiet: "delivers m r \<Longrightarrow> within unchanged_fs m"
  by (simp add: delivers_def within_def)

named_theorems delivers_intros

lemma delivers_pure [delivers_intros]: "delivers (fret a) (Inr a)" "delivers (ffail e) (Inl e)" "delivers (flift r) r"
  by (simp_all add: delivers_def fret_def ffail_def flift_def unchanged_fs_def)

lemma delivers_guard [delivers_intros]: "delivers (fguard c e) (ensure c e)"
  by (simp add: fguard_def ensure_def delivers_pure)

lemma delivers_call [delivers_intros]: "delivers (syscall (fret a)) (Inr a)"
  by (auto simp: delivers_def syscall_def next_fault_def fret_def unchanged_fs_def split: list.splits option.splits)

lemma retried_faults: "set (faults (snd (retried a s))) \<subseteq> set (faults s)"
proof (induction "faults s" arbitrary: s)
  case (Cons f rest)
  then show ?case using retried_Cons [OF Cons.hyps(2) [symmetric], of a] Cons.hyps(1) [of "s\<lparr>faults := rest\<rparr>"]
      Cons.hyps(2) [symmetric]
    by (cases f) (auto split: if_splits)
qed simp

lemma delivers_retried [delivers_intros]: "delivers (retried a) (Inr a)"
  unfolding delivers_def
proof
  fix s
  show "unchanged_fs s (snd (retried a s)) \<and>
    (fst (retried a s) = Inr a \<or> (\<exists>e k. fst (retried a s) = Inl e \<and> Some (e, k) \<in> set (faults s))) \<and>
    (faults s = [] \<longrightarrow> retried a s = (Inr a, s)) \<and> set (faults (snd (retried a s))) \<subseteq> set (faults s)"
    using retried_cases [of a s] retried_faults [of a s] by auto
qed

lemma delivers_bind [delivers_intros]:
  assumes m: "delivers m r" and f: "\<And>a. r = Inr a \<Longrightarrow> delivers (f a) (g a)"
  shows "delivers (fbind m f) (ebind r g)"
  unfolding delivers_def
proof
  fix s
  obtain q t where q: "m s = (q, t)" by force
  have m: "unchanged_fs s t" "q = r \<or> (\<exists>e k. q = Inl e \<and> Some (e, k) \<in> set (faults s))" "faults s = [] \<Longrightarrow> (q, t) = (r, s)"
    "set (faults t) \<subseteq> set (faults s)"
    using m [unfolded delivers_def, rule_format, of s] unfolding q by auto
  show "unchanged_fs s (snd (fbind m f s)) \<and>
    (fst (fbind m f s) = ebind r g \<or> (\<exists>e k. fst (fbind m f s) = Inl e \<and> Some (e, k) \<in> set (faults s))) \<and>
    (faults s = [] \<longrightarrow> fbind m f s = (ebind r g, s)) \<and> set (faults (snd (fbind m f s))) \<subseteq> set (faults s)"
  proof (cases q)
    case (Inl e)
    then show ?thesis using m by (auto simp: fbind_def q)
  next
    case (Inr a)
    then have r: "r = Inr a" using m(2) by auto
    have "unchanged_fs t (snd (f a t)) \<and> (fst (f a t) = g a \<or> (\<exists>e k. fst (f a t) = Inl e \<and> Some (e, k) \<in> set (faults t))) \<and>
      (faults t = [] \<longrightarrow> f a t = (g a, t)) \<and> set (faults (snd (f a t))) \<subseteq> set (faults t)"
      using f [OF r, unfolded delivers_def] by blast
    then show ?thesis using m Inr r by (auto simp: fbind_def q dest: quiet.frame_trans)
  qed
qed

lemma delivers_eq: "delivers m r \<Longrightarrow> r = r' \<Longrightarrow> delivers m r'"
  by simp

lemma delivers_chunk_reads: "delivers (chunk_reads config visitor unread st) (efold (chunk_byte config visitor) st unread)"
proof (induction config visitor unread st rule: chunk_reads.induct)
  case (1 config visitor unread st)
  show ?case
  proof (cases "unread = []")
    case True
    have "delivers (fbind (retried ()) (\<lambda>_. fret st)) (ebind (Inr ()) (\<lambda>_. Inr st))" by (intro delivers_intros)
    then show ?thesis using True by (subst chunk_reads.simps) simp
  next
    case False
    let ?buffer = "take READ_BUFFER_BYTES unread" and ?rest = "drop READ_BUFFER_BYTES unread"
    have "delivers (fbind (retried ?buffer) (\<lambda>buffer.
           fbind (flift (efold (chunk_byte config visitor) st buffer)) (\<lambda>st'. chunk_reads config visitor ?rest st')))
         (ebind (Inr ?buffer) (\<lambda>buffer. ebind (efold (chunk_byte config visitor) st buffer) (\<lambda>st'. efold (chunk_byte config visitor) st' ?rest)))"
      by (intro delivers_intros 1 [OF False])
    moreover have "ebind (efold (chunk_byte config visitor) st ?buffer) (\<lambda>st'. efold (chunk_byte config visitor) st' ?rest) =
      efold (chunk_byte config visitor) st unread"
      by (simp only: efold_append [symmetric] append_take_drop_id)
    ultimately show ?thesis using False by (subst chunk_reads.simps) simp
  qed
qed

text \<open>The chunks do not depend on how the file is read.\<close>

lemma delivers_chunk_reader:
  "delivers (chunk_reader config visitor contents v) (emit_chunks visitor (default_stats, v) 0 (chunks_of config contents))"
proof -
  let ?st = "\<lparr>boundary_hash = 0, chunk_buffer = [], chunk_start = 0, chunk_stats = default_stats, visited = v\<rparr>"
  have "delivers (chunk_reader config visitor contents v) (ebind (efold (chunk_byte config visitor) ?st contents) (flush_chunk visitor))"
    unfolding chunk_reader_def
    by (intro delivers_bind delivers_chunk_reads) (auto simp: flush_chunk_def delivers_pure)
  then show ?thesis
    using chunk_bytes_cut [of ?st config visitor contents] by (simp add: chunks_of_def default_stats_def)
qed

text \<open>What a run that succeeds has counted and visited.\<close>

lemma emit_chunks_Inr:
  assumes "emit_chunks visitor (stats, v) offset cs = Inr (stats', v')"
  shows "efold (\<lambda>v (o', c). visitor v o' c) v (with_offsets offset cs) = Inr v'"
    "unat (stat_bytes stats') = unat (stat_bytes stats) + length (concat cs)"
    "unat (stat_chunks stats') = unat (stat_chunks stats) + length cs"
proof -
  have "efold (\<lambda>v (o', c). visitor v o' c) v (with_offsets offset cs) = Inr v' \<and>
    unat (stat_bytes stats') = unat (stat_bytes stats) + length (concat cs) \<and>
    unat (stat_chunks stats') = unat (stat_chunks stats) + length cs"
    using assms
  proof (induction cs arbitrary: stats v offset)
    case (Cons c cs)
    from Cons.prems obtain stats1 v1 where e: "emit_chunk visitor offset c (stats, v) = Inr (stats1, v1)"
      and r: "emit_chunks visitor (stats1, v1) (offset + of_nat (length c)) cs = Inr (stats', v')"
      by (auto simp: ebind_Inr)
    have "visitor v offset c = Inr v1" "unat (stat_bytes stats1) = unat (stat_bytes stats) + length c"
      "unat (stat_chunks stats1) = unat (stat_chunks stats) + 1"
      using e by (auto simp: emit_chunk_Inr Let_def unat_of_nat_small unat_word_ariths)
    then show ?case using Cons.IH [OF r] by simp
  qed simp
  then show "efold (\<lambda>v (o', c). visitor v o' c) v (with_offsets offset cs) = Inr v'"
    "unat (stat_bytes stats') = unat (stat_bytes stats) + length (concat cs)"
    "unat (stat_chunks stats') = unat (stat_chunks stats) + length cs"
    by blast+
qed

lemma chunks_le_bytes: "[] \<notin> set cs \<Longrightarrow> length cs \<le> length (concat cs)"
proof (induction cs)
  case (Cons c cs)
  then show ?case by (cases c) auto
qed simp

lemma emit_chunks_total:
  assumes "efold (\<lambda>v (o', c). visitor v o' c) v (with_offsets offset cs) = r" "[] \<notin> set cs"
    "unat (stat_bytes stats) + length (concat cs) < 2 ^ 64" "unat (stat_chunks stats) + length cs < 2 ^ 64"
  shows "\<exists>stats'. emit_chunks visitor (stats, v) offset cs = ebind r (\<lambda>v'. Inr (stats', v'))"
  using assms
proof (induction cs arbitrary: stats v offset)
  case (Cons c cs)
  show ?case
  proof (cases "visitor v offset c")
    case (Inl e)
    then have "r = Inl e" using Cons.prems(1) by simp
    with Inl show ?thesis by (simp add: emit_chunk_def)
  next
    case (Inr v1)
    have "\<exists>stats1. emit_chunk visitor offset c (stats, v) = Inr (stats1, v1) \<and>
      unat (stat_bytes stats1) = unat (stat_bytes stats) + length c \<and> unat (stat_chunks stats1) = unat (stat_chunks stats) + 1"
      using Inr Cons.prems(3,4) by (auto simp: emit_chunk_Inr Let_def unat_of_nat_small unat_word_ariths)
    then obtain stats1 where "emit_chunk visitor offset c (stats, v) = Inr (stats1, v1)"
      "unat (stat_bytes stats1) = unat (stat_bytes stats) + length c" "unat (stat_chunks stats1) = unat (stat_chunks stats) + 1" by blast
    then show ?thesis using Cons.IH [of v1 "offset + of_nat (length c)" stats1] Cons.prems Inr by simp
  qed
qed auto

section \<open>What an index says of its file\<close>

definition key_of :: "libs \<Rightarrow> byte list \<Rightarrow> ChunkKey" where
  "key_of lib c = \<lparr>key_digest = blake3 lib c, key_length = of_nat (length c)\<rparr>"

definition record_of :: "libs \<Rightarrow> u64 \<times> byte list \<Rightarrow> BasisChunk" where
  "record_of lib oc = \<lparr>basis_offset = fst oc, basis_key = key_of lib (snd oc)\<rparr>"

definition add_location :: "BasisChunk \<Rightarrow> (ChunkKey, u64) fmap \<Rightarrow> (ChunkKey, u64) fmap" where
  "add_location c m = or_insert (basis_key c) (basis_offset c) m"

definition index_of :: "libs \<Rightarrow> usize \<Rightarrow> ChunkConfig \<Rightarrow> byte list \<Rightarrow> BasisFileIndex" where
  "index_of lib k config contents =
     (let records = map (record_of lib) (with_offsets 0 (chunks_of config contents)) in
      \<lparr>index_average_kib = k, index_file_bytes = of_nat (length contents), index_chunks = records,
       first_locations = fold add_location records fmempty\<rparr>)"

lemma chunk_key_ok: "length c < 2 ^ 32 \<Longrightarrow> chunk_key lib c = Inr (key_of lib c)"
  by (simp add: chunk_key_def key_of_def word_try_from_def)

lemma small_chunks: "config_ok config \<Longrightarrow> c \<in> set (chunks_of config contents) \<Longrightarrow> length c < 2 ^ 32 \<and> c \<noteq> []"
  using chunk_sizes(1) [of config c contents] by (auto simp: config_ok_def)

lemma index_visits:
  "\<forall>c \<in> set cs. length c < 2 ^ 32 \<Longrightarrow>
   efold (\<lambda>v (o', c). index_visitor lib v o' c) (xs, m) (with_offsets offset cs) =
     Inr (xs @ map (record_of lib) (with_offsets offset cs), fold add_location (map (record_of lib) (with_offsets offset cs)) m)"
proof (induction cs arbitrary: xs m offset)
  case (Cons c cs)
  have "index_visitor lib (xs, m) offset c = Inr (xs @ [record_of lib (offset, c)], add_location (record_of lib (offset, c)) m)"
    using Cons.prems by (simp add: index_visitor_def chunk_key_ok record_of_def add_location_def)
  then show ?case using Cons by simp
qed simp

lemma stat_bytes_eq:
  assumes "emit_chunks visitor (default_stats, v) 0 (chunks_of config contents) = Inr (stats, v')"
  shows "stat_bytes stats = of_nat (length contents)" "length contents < 2 ^ 64"
proof -
  have "unat (stat_bytes stats) = length contents"
    using emit_chunks_Inr(2) [OF assms] by (simp add: default_stats_def)
  then show "stat_bytes stats = of_nat (length contents)" "length contents < 2 ^ 64"
    using unat_less_2p [of "stat_bytes stats"] by (simp_all flip: \<open>unat (stat_bytes stats) = length contents\<close>)
qed

lemma delivers_build:
  assumes "from_average_kib k = Inr config" "length contents < 2 ^ 64"
  shows "delivers (build_from_reader lib contents (of_nat (length contents)) k) (Inr (index_of lib k config contents))"
proof -
  have ok: "config_ok config" using from_average_kib_ok(1) [OF assms(1)] .
  let ?cs = "chunks_of config contents" and ?recs = "map (record_of lib) (with_offsets 0 (chunks_of config contents))"
  have "[] \<notin> set ?cs" "\<forall>c \<in> set ?cs. length c < 2 ^ 32" using small_chunks [OF ok] by blast+
  then obtain stats where e: "emit_chunks (index_visitor lib) (default_stats, [], fmempty) 0 ?cs =
      Inr (stats, ?recs, fold add_location ?recs fmempty)"
    using emit_chunks_total [OF index_visits [of ?cs lib "[]" fmempty 0], of default_stats] chunks_le_bytes [of ?cs] assms(2)
    by (auto simp: default_stats_def)
  have "delivers (build_from_reader lib contents (of_nat (length contents)) k)
    (ebind (from_average_kib k) (\<lambda>config. ebind (emit_chunks (index_visitor lib) (default_stats, [], fmempty) 0 (chunks_of config contents))
      (\<lambda>(chunking, chunks, locations). ebind (ensure (stat_bytes chunking = of_nat (length contents)) InvalidData) (\<lambda>_.
        Inr \<lparr>index_average_kib = k, index_file_bytes = stat_bytes chunking, index_chunks = chunks, first_locations = locations\<rparr>))))"
    unfolding build_from_reader_def
    by (intro delivers_bind delivers_intros delivers_chunk_reader) (auto intro!: delivers_bind delivers_intros)
  then show ?thesis using assms(1) e stat_bytes_eq(1) [OF e] by (simp add: index_of_def Let_def)
qed

lemma build_from_reader_Inr:
  assumes "build_from_reader lib contents expected k s = (Inr index, s')"
  shows "\<exists>config. from_average_kib k = Inr config \<and> index = index_of lib k config contents" "length contents < 2 ^ 64"
    "unchanged_fs s s'"
proof -
  from assms obtain config stats chunks locations s1 where c: "from_average_kib k = Inr config"
    and r: "chunk_reader config (index_visitor lib) contents ([], fmempty) s = (Inr (stats, chunks, locations), s1)"
    and s': "s' = s1" "stat_bytes stats = expected"
    by (auto simp: build_from_reader_def fbind_Inr flift_def fguard_def fret_def ffail_def split: if_splits)
  note d = delivers_Inr [OF delivers_chunk_reader r]
  have n: "stat_bytes stats = of_nat (length contents)" "length contents < 2 ^ 64" using stat_bytes_eq [OF d [THEN conjunct1]] by simp_all
  show "length contents < 2 ^ 64" by (rule n)
  show "unchanged_fs s s'" using d s' by simp
  have "expected = of_nat (length contents)" using n s' by simp
  then have "index = index_of lib k config contents"
    using delivers_Inr [OF delivers_build [OF c n(2)] assms [unfolded \<open>expected = of_nat (length contents)\<close>]] by simp
  then show "\<exists>config. from_average_kib k = Inr config \<and> index = index_of lib k config contents" using c by blast
qed

text \<open>The contents of a file, through its links.\<close>

definition file_at :: "fs \<Rightarrow> fpath \<Rightarrow> byte list \<Rightarrow> bool" where
  "file_at s p c \<longleftrightarrow> (\<exists>t a. Option.bind (fmlookup (nodes s) p) resolve = Some (FileNode c t a))"

lemma contents_unique: "file_at s p c \<Longrightarrow> file_at s p d \<Longrightarrow> c = d"
  by (auto simp: file_at_def)

lemma open_source_file:
  "open_source p s = (Inr n, s') \<Longrightarrow> file_at s p (node_contents n) \<and> node_len n = of_nat (length (node_contents n)) \<and> unchanged_fs s s'"
  by (auto simp: open_source_def file_at_def unchanged_fs_def dest!: syscall_Inr split: option.splits node.splits)

lemma open_source_calm:
  assumes "file_at s p c" "faults s = []"
  shows "\<exists>n. open_source p s = (Inr n, s) \<and> node_contents n = c \<and> node_len n = of_nat (length c)"
  using assms by (auto simp: open_source_def syscall_def next_fault_def file_at_def)

lemma BasisFileIndex_build_Inr:
  assumes "BasisFileIndex_build lib p k s = (Inr index, s')"
  shows "\<exists>c config. file_at s p c \<and> length c < 2 ^ 64 \<and> from_average_kib k = Inr config \<and> index = index_of lib k config c"
    "unchanged_fs s s'"
proof -
  from assms obtain n s1 s2 where n: "open_source p s = (Inr n, s1)" "syscall (fret (node_len n)) s1 = (Inr (node_len n), s2)"
    and b: "build_from_reader lib (node_contents n) (node_len n) k s2 = (Inr index, s')"
    unfolding BasisFileIndex_build_def fbind_Inr by (metis delivers_Inr [OF delivers_call] sum.inject(2))
  have q: "unchanged_fs s s1" "unchanged_fs s1 s2" using open_source_file [OF n(1)] delivers_Inr [OF delivers_call n(2)] by auto
  show "unchanged_fs s s'" using q build_from_reader_Inr(3) [OF b] quiet.frame_trans by blast
  show "\<exists>c config. file_at s p c \<and> length c < 2 ^ 64 \<and> from_average_kib k = Inr config \<and> index = index_of lib k config c"
    using build_from_reader_Inr(1,2) [OF b] open_source_file [OF n(1)] by blast
qed

text \<open>A location the index gives is a chunk of the file with that key.\<close>

lemma add_locations_lookup:
  "fmlookup (fold add_location rs m) key = Some off \<Longrightarrow>
   fmlookup m key = Some off \<or> (\<exists>r \<in> set rs. basis_key r = key \<and> basis_offset r = off)"
proof (induction rs arbitrary: m)
  case (Cons r rs)
  then have "fmlookup (add_location r m) key = Some off \<or> (\<exists>r \<in> set rs. basis_key r = key \<and> basis_offset r = off)" by simp
  then show ?case by (auto simp: add_location_def or_insert_def split: option.splits if_splits)
qed simp

lemma with_offsets_at:
  assumes "(off, c) \<in> set (with_offsets start cs)" "unat start + length (concat cs) < 2 ^ 64"
  shows "unat start \<le> unat off \<and> unat off + length c \<le> unat start + length (concat cs) \<and>
    take (length c) (drop (unat off - unat start) (concat cs)) = c"
  using assms
proof (induction cs arbitrary: start)
  case (Cons x cs)
  have start: "unat (start + of_nat (length x)) = unat start + length x"
    using Cons.prems(2) by (simp add: unat_word_ariths unat_of_nat)
  show ?case
  proof (cases "(off, c) = (start, x)")
    case True
    then show ?thesis by simp
  next
    case False
    then have "(off, c) \<in> set (with_offsets (start + of_nat (length x)) cs)" using Cons.prems(1) by auto
    from Cons.IH [OF this] Cons.prems(2) start
    have IH: "unat start + length x \<le> unat off" "unat off + length c \<le> unat start + length x + length (concat cs)"
      "take (length c) (drop (unat off - (unat start + length x)) (concat cs)) = c" by simp_all
    then have "length x \<le> unat off - unat start" by simp
    with IH show ?thesis by simp
  qed
qed simp

lemma index_find_chunk:
  assumes "index_find (index_of lib k config contents) key = Some off" "length contents < 2 ^ 64"
  obtains c where "c \<in> set (chunks_of config contents)" "key = key_of lib c" "unat off + length c \<le> length contents"
    "take (length c) (drop (unat off) contents) = c"
proof -
  from add_locations_lookup [of _ fmempty key off] assms(1)
  obtain c where c: "(off, c) \<in> set (with_offsets 0 (chunks_of config contents))" "key = key_of lib c"
    by (fastforce simp: index_find_def index_of_def Let_def record_of_def)
  have "c \<in> set (map snd (with_offsets 0 (chunks_of config contents)))" unfolding set_map using c(1) by (rule rev_image_eqI) simp
  then show thesis using that c(2) with_offsets_at [OF c(1)] assms(2) by simp
qed

section \<open>The index on the wire\<close>

lemma slice_exact_Inr [result_simps]: "slice_exact n bs = Inr (xs, rest) \<longleftrightarrow> bs = xs @ rest \<and> length xs = n"
  by (auto simp: slice_exact_def)

lemma slice_le_Inr:
  assumes "8 dvd LENGTH('a)"
  shows "slice_le bs = Inr (w :: 'a::len word, rest) \<longleftrightarrow> bs = to_le_bytes w @ rest"
proof
  assume "slice_le bs = Inr (w, rest)"
  then obtain xs where "bs = xs @ rest" "length xs = LENGTH('a) div 8" "w = from_le_bytes xs"
    by (auto simp: slice_le_def result_simps)
  with assms show "bs = to_le_bytes w @ rest" by (simp add: to_from_le_bytes)
next
  assume "bs = to_le_bytes w @ rest"
  then have "slice_exact (LENGTH('a) div 8) bs = Inr (to_le_bytes w, rest)" by (simp add: slice_exact_def)
  then show "slice_le bs = Inr (w, rest)" using assms by (simp add: slice_le_def rbind_def from_to_le_bytes)
qed

lemmas slice_le_iffs = slice_le_Inr [where 'a = 32, simplified] slice_le_Inr [where 'a = 64, simplified]

definition chunk_digest_ok :: "BasisChunk \<Rightarrow> bool" where
  "chunk_digest_ok c \<longleftrightarrow> length (key_digest (basis_key c)) = CONTENT_DIGEST_BYTES"

lemma read_basis_chunk_Inr:
  "read_basis_chunk bs = Inr (c, rest) \<longleftrightarrow> chunk_digest_ok c \<and> (\<exists>xs. write_basis_chunk c = Inr xs \<and> bs = xs @ rest)"
proof -
  have "read_basis_chunk bs = Inr (c, rest) \<longleftrightarrow>
    (\<exists>offset len d. bs = to_le_bytes (offset :: u64) @ to_le_bytes (len :: u32) @ d @ rest \<and> length d = CONTENT_DIGEST_BYTES \<and>
       c = \<lparr>basis_offset = offset, basis_key = \<lparr>key_digest = d, key_length = len\<rparr>\<rparr>)"
    unfolding read_basis_chunk_def rbind_Inr slice_le_iffs slice_exact_Inr rret_def by auto
  then show ?thesis by (cases c; cases "basis_key c") (auto simp: chunk_digest_ok_def write_basis_chunk_def)
qed

interpretation basis_record: canonical_codec write_basis_chunk read_basis_chunk chunk_digest_ok
  by unfold_locales (auto simp: read_basis_chunk_Inr, simp add: write_basis_chunk_def)

text \<open>
  An index the decoder accepts: the chunks tile the file from its start, no chunk is empty or longer than the
  maximum, only the last one may be shorter than the minimum, and the locations are the first occurrences.
\<close>

fun tiles :: "u64 \<Rightarrow> BasisChunk list \<Rightarrow> u64 \<Rightarrow> bool" where
  "tiles start [] stop \<longleftrightarrow> start = stop"
| "tiles start (c # cs) stop \<longleftrightarrow>
     basis_offset c = start \<and> unat start + unat (key_length (basis_key c)) < 2 ^ 64 \<and>
     tiles (start + ucast (key_length (basis_key c))) cs stop"

definition index_ok :: "BasisFileIndex \<Rightarrow> bool" where
  "index_ok index \<longleftrightarrow>
     (\<exists>config. from_average_kib (index_average_kib index) = Inr config \<and>
       (\<forall>c \<in> set (index_chunks index). chunk_digest_ok c \<and> 0 < key_length (basis_key c) \<and>
          unat (key_length (basis_key c)) \<le> maximum_bytes config) \<and>
       (\<forall>c \<in> set (butlast (index_chunks index)). minimum_bytes config \<le> unat (key_length (basis_key c)))) \<and>
     tiles 0 (index_chunks index) (index_file_bytes index) \<and>
     first_locations index = fold add_location (index_chunks index) fmempty"

lemma unat_ucast_u64: "unat (ucast w :: u64) = unat (w :: u32)"
proof -
  have "unat w < 2 ^ 64" using unat_less_2p [of w] by simp
  then show ?thesis by (simp add: unsigned_ucast_eq take_bit_nat_eq_self)
qed

lemma accept_basis_chunks:
  "i + length cs = n \<Longrightarrow>
   efold (accept_basis_chunk config n) (i, m, start) cs = Inr (j, m', stop) \<longleftrightarrow>
   j = n \<and> m' = fold add_location cs m \<and> tiles start cs stop \<and>
   (\<forall>c \<in> set cs. 0 < key_length (basis_key c) \<and> unat (key_length (basis_key c)) \<le> maximum_bytes config) \<and>
   (\<forall>c \<in> set (butlast cs). minimum_bytes config \<le> unat (key_length (basis_key c)))"
proof (induction cs arbitrary: i m start)
  case (Cons c cs)
  let ?len = "key_length (basis_key c)"
  have unat: "unat (ucast ?len :: u64) = unat ?len" by (rule unat_ucast_u64)
  have step: "accept_basis_chunk config n (i, m, start) c = Inr t \<longleftrightarrow>
    0 < ?len \<and> basis_offset c = start \<and> unat ?len \<le> maximum_bytes config \<and> (cs \<noteq> [] \<longrightarrow> minimum_bytes config \<le> unat ?len) \<and>
    unat start + unat ?len < 2 ^ 64 \<and> t = (Suc i, add_location c m, start + ucast ?len)" for t
    using Cons.prems
    by (auto simp: accept_basis_chunk_def Let_def result_simps add_location_def unat word_neq_0_conv not_less not_le)
  have "efold (accept_basis_chunk config n) (i, m, start) (c # cs) = Inr (j, m', stop) \<longleftrightarrow>
    0 < ?len \<and> basis_offset c = start \<and> unat ?len \<le> maximum_bytes config \<and> (cs \<noteq> [] \<longrightarrow> minimum_bytes config \<le> unat ?len) \<and>
    unat start + unat ?len < 2 ^ 64 \<and>
    efold (accept_basis_chunk config n) (Suc i, add_location c m, start + ucast ?len) cs = Inr (j, m', stop)"
    by (auto simp: ebind_Inr step)
  also have "\<dots> \<longleftrightarrow> 0 < ?len \<and> basis_offset c = start \<and> unat ?len \<le> maximum_bytes config \<and> (cs \<noteq> [] \<longrightarrow> minimum_bytes config \<le> unat ?len) \<and>
    unat start + unat ?len < 2 ^ 64 \<and>
    j = n \<and> m' = fold add_location cs (add_location c m) \<and> tiles (start + ucast ?len) cs stop \<and>
   (\<forall>c \<in> set cs. 0 < key_length (basis_key c) \<and> unat (key_length (basis_key c)) \<le> maximum_bytes config) \<and>
   (\<forall>c \<in> set (butlast cs). minimum_bytes config \<le> unat (key_length (basis_key c)))"
    using Cons.IH [of "Suc i" "add_location c m" "start + ucast ?len"] Cons.prems by simp
  finally show ?case by auto
qed auto

lemma wcat_basis_chunks:
  "wcat (map write_basis_chunk cs) = Inr xs \<Longrightarrow> \<forall>c \<in> set cs. chunk_digest_ok c \<Longrightarrow> length xs = length cs * WIRE_RECORD_BYTES"
proof (induction cs arbitrary: xs)
  case (Cons c cs)
  then obtain ys where "wcat (map write_basis_chunk cs) = Inr ys"
    "xs = to_le_bytes (basis_offset c) @ to_le_bytes (key_length (basis_key c)) @ key_digest (basis_key c) @ ys"
    by (auto simp: ebind_Inr) (auto simp: write_basis_chunk_def)
  with Cons show ?case by (simp add: WIRE_RECORD_BYTES_def chunk_digest_ok_def CONTENT_DIGEST_BYTES_def)
qed simp

lemma wire_size_for_chunks_Inr: "wire_size_for_chunks n = Inr m \<longleftrightarrow> m = 24 + n * 44 \<and> 24 + n * 44 \<le> usize_max"
  by (auto simp: wire_size_for_chunks_def WIRE_HEADER_BYTES_def WIRE_RECORD_BYTES_def)

definition index_wire :: "BasisFileIndex \<Rightarrow> byte list \<Rightarrow> byte list" where
  "index_wire index records =
     WIRE_MAGIC @ to_le_bytes (of_nat (index_average_kib index) :: u32) @ to_le_bytes (index_file_bytes index) @
     to_le_bytes (of_nat (length (index_chunks index)) :: u64) @ records"

lemma index_encode_wire_Inr:
  "index_encode_wire index = Inr bs \<longleftrightarrow>
   (\<exists>xs. wcat (map write_basis_chunk (index_chunks index)) = Inr xs \<and> bs = index_wire index xs) \<and>
   index_average_kib index < 2 ^ 32 \<and> 24 + length (index_chunks index) * 44 \<le> usize_max"
  by (auto simp: index_encode_wire_def ebind_Inr word_try_from_Inr wire_size_for_chunks_Inr index_wire_def usize_max_def)

lemma index_decode_wire_Inr:
  "index_decode_wire bs = Inr index \<longleftrightarrow>
   (\<exists>average file_bytes n config chunks j xs. 24 \<le> length bs \<and>
      bs = WIRE_MAGIC @ to_le_bytes (average :: u32) @ to_le_bytes (file_bytes :: u64) @ to_le_bytes (n :: u64) @ xs \<and>
      from_average_kib (unat average) = Inr config \<and> length bs = 24 + unat n * 44 \<and> 24 + unat n * 44 \<le> usize_max \<and>
      length chunks = unat n \<and> (\<forall>c \<in> set chunks. chunk_digest_ok c) \<and>
      (\<exists>ys zs. wcat (map write_basis_chunk chunks) = Inr ys \<and> xs = ys @ zs) \<and>
      efold (accept_basis_chunk config (unat n)) (0, fmempty, 0) chunks = Inr (j, first_locations index, file_bytes) \<and>
      index_average_kib index = unat average \<and> index_file_bytes index = file_bytes \<and> index_chunks index = chunks)"
  (is "?L \<longleftrightarrow> ?R")
proof
  assume ?L
  then have h: "24 \<le> length bs" "take 4 bs = WIRE_MAGIC" by (auto simp: index_decode_wire_def WIRE_HEADER_BYTES_def split: if_splits)
  from \<open>?L\<close> obtain average bs1 config file_bytes bs2 n bs3 chunks j locations zs where
    r: "slice_le (drop 4 bs) = Inr (average :: u32, bs1)" "from_average_kib (unat average) = Inr config"
      "slice_le bs1 = Inr (file_bytes :: u64, bs2)" "slice_le bs2 = Inr (n :: u64, bs3)"
      "24 + unat n * 44 \<le> usize_max" "length bs = 24 + unat n * 44"
    and f: "rfor (unat n) (read_fold read_basis_chunk (accept_basis_chunk config (unat n))) ([], 0, fmempty, 0) bs3 =
        Inr ((chunks, j, locations, file_bytes), zs)"
    and i: "index = \<lparr>index_average_kib = unat average, index_file_bytes = file_bytes, index_chunks = chunks, first_locations = locations\<rparr>"
    by (auto simp: index_decode_wire_def result_simps wire_size_for_chunks_Inr split: if_splits)
  have "bs = WIRE_MAGIC @ drop 4 bs" using h(2) append_take_drop_id [of 4 bs] by simp
  then have bs: "bs = WIRE_MAGIC @ to_le_bytes average @ to_le_bytes file_bytes @ to_le_bytes n @ bs3"
    using r(1,3,4) by (simp add: slice_le_iffs)
  from f obtain ys where "length chunks = unat n" "\<forall>c \<in> set chunks. chunk_digest_ok c" "wcat (map write_basis_chunk chunks) = Inr ys"
    "bs3 = ys @ zs" "efold (accept_basis_chunk config (unat n)) (0, fmempty, 0) chunks = Inr (j, locations, file_bytes)"
    by (auto simp: basis_record.rfor_fold_iff)
  then show ?R
    using h r(2,5,6) bs i
    by (intro exI [of _ average] exI [of _ file_bytes] exI [of _ n] exI [of _ config] exI [of _ chunks] exI [of _ j] exI [of _ bs3])
       simp
next
  assume ?R
  then obtain average file_bytes n config chunks j xs ys zs where
    r: "bs = WIRE_MAGIC @ to_le_bytes (average :: u32) @ to_le_bytes (file_bytes :: u64) @ to_le_bytes (n :: u64) @ xs"
    "from_average_kib (unat average) = Inr config" "length bs = 24 + unat n * 44" "24 + unat n * 44 \<le> usize_max"
    and c: "length chunks = unat n" "\<forall>c \<in> set chunks. chunk_digest_ok c" "wcat (map write_basis_chunk chunks) = Inr ys" "xs = ys @ zs"
      "efold (accept_basis_chunk config (unat n)) (0, fmempty, 0) chunks = Inr (j, first_locations index, file_bytes)"
    and i: "index_average_kib index = unat average" "index_file_bytes index = file_bytes" "index_chunks index = chunks"
    by blast
  have f: "rfor (unat n) (read_fold read_basis_chunk (accept_basis_chunk config (unat n))) ([], 0, fmempty, 0) xs =
        Inr ((chunks, j, first_locations index, file_bytes), zs)"
    using c by (auto simp: basis_record.rfor_fold_iff)
  have s: "slice_le (drop 4 bs) = Inr (average, to_le_bytes file_bytes @ to_le_bytes n @ xs)"
    "slice_le (to_le_bytes file_bytes @ to_le_bytes n @ xs) = Inr (file_bytes, to_le_bytes n @ xs)"
    "slice_le (to_le_bytes n @ xs) = Inr (n, xs)" "take 4 bs = WIRE_MAGIC" "\<not> length bs < WIRE_HEADER_BYTES"
    using r(1,3) by (simp_all add: slice_le_iffs WIRE_MAGIC_def WIRE_HEADER_BYTES_def)
  have w: "wire_size_for_chunks (unat n) = Inr (24 + unat n * 44)" using r(4) by (simp add: wire_size_for_chunks_Inr)
  have "index_decode_wire bs = Inr \<lparr>index_average_kib = unat average, index_file_bytes = file_bytes, index_chunks = chunks,
     first_locations = first_locations index\<rparr>"
    unfolding index_decode_wire_def using s r(2,3) w f by simp
  then show ?L using i by simp
qed

lemma index_wire_exact: "index_decode_wire bs = Inr index \<longleftrightarrow> index_ok index \<and> index_encode_wire index = Inr bs"
  (is "?L \<longleftrightarrow> ?R")
proof
  assume ?L
  then obtain average n config j ys zs where
    bs: "bs = WIRE_MAGIC @ to_le_bytes (average :: u32) @ to_le_bytes (index_file_bytes index) @ to_le_bytes (n :: u64) @ ys @ zs"
    and c: "from_average_kib (unat average) = Inr config" "length bs = 24 + unat n * 44" "24 + unat n * 44 \<le> usize_max"
      "length (index_chunks index) = unat n" "\<forall>c \<in> set (index_chunks index). chunk_digest_ok c"
      "wcat (map write_basis_chunk (index_chunks index)) = Inr ys" "index_average_kib index = unat average"
    and e: "efold (accept_basis_chunk config (unat n)) (0, fmempty, 0) (index_chunks index) =
        Inr (j, first_locations index, index_file_bytes index)"
    unfolding index_decode_wire_Inr by blast
  have "length ys = unat n * 44" using wcat_basis_chunks [OF c(6,5)] c(4) by (simp add: WIRE_RECORD_BYTES_def)
  then have "zs = []" using bs c(2) by (simp add: WIRE_MAGIC_def)
  moreover have "index_ok index"
    unfolding index_ok_def using e c(1,4,5,7) accept_basis_chunks [of 0 "index_chunks index" "unat n"] by auto
  moreover have "index_average_kib index < 2 ^ 32" using c(7) unat_less_2p [of average] by simp
  ultimately show ?R using bs c(3,4,6,7) by (simp add: index_encode_wire_Inr index_wire_def)
next
  assume ?R
  then obtain config ys where i: "from_average_kib (index_average_kib index) = Inr config"
      "\<forall>c \<in> set (index_chunks index). chunk_digest_ok c"
    and e: "efold (accept_basis_chunk config (length (index_chunks index))) (0, fmempty, 0) (index_chunks index) =
        Inr (length (index_chunks index), first_locations index, index_file_bytes index)"
    and w: "wcat (map write_basis_chunk (index_chunks index)) = Inr ys" "bs = index_wire index ys" "index_average_kib index < 2 ^ 32"
      "24 + length (index_chunks index) * 44 \<le> usize_max"
    using accept_basis_chunks [of 0 "index_chunks index" "length (index_chunks index)"]
    by (auto simp: index_ok_def index_encode_wire_Inr)
  have n: "unat (of_nat (length (index_chunks index)) :: u64) = length (index_chunks index)"
    "unat (of_nat (index_average_kib index) :: u32) = index_average_kib index"
    using w(3,4) by (simp_all add: unat_of_nat_small usize_max_def)
  have "length bs = 24 + length (index_chunks index) * 44"
    using wcat_basis_chunks [OF w(1) i(2)] w(2) by (simp add: index_wire_def WIRE_MAGIC_def WIRE_RECORD_BYTES_def)
  then show ?L
    unfolding index_decode_wire_Inr using i e w n
    by (intro exI [of _ "of_nat (index_average_kib index)"] exI [of _ "index_file_bytes index"]
        exI [of _ "of_nat (length (index_chunks index))"] exI [of _ config] exI [of _ "index_chunks index"]
        exI [of _ "length (index_chunks index)"] exI [of _ ys]) (simp add: index_wire_def)
qed

lemma ucast_of_nat_small: "n < 2 ^ 32 \<Longrightarrow> (ucast (of_nat n :: u32) :: u64) = of_nat n"
  by (simp add: word_unat_eq_iff unat_ucast_u64 unat_of_nat_small)

lemma tiles_records:
  "\<forall>c \<in> set cs. length c < 2 ^ 32 \<Longrightarrow> unat start + length (concat cs) < 2 ^ 64 \<Longrightarrow>
   tiles start (map (record_of lib) (with_offsets start cs)) (start + of_nat (length (concat cs)))"
proof (induction cs arbitrary: start)
  case (Cons c cs)
  have "unat (start + of_nat (length c)) = unat start + length c"
    using Cons.prems(2) by (simp add: unat_word_ariths unat_of_nat)
  then have "tiles (start + of_nat (length c)) (map (record_of lib) (with_offsets (start + of_nat (length c)) cs))
     (start + of_nat (length c) + of_nat (length (concat cs)))"
    using Cons.IH [of "start + of_nat (length c)"] Cons.prems by simp
  moreover have "basis_offset (record_of lib (start, c)) = start" "key_length (basis_key (record_of lib (start, c))) = of_nat (length c)"
    by (simp_all add: record_of_def key_of_def)
  ultimately show ?case using Cons.prems by (simp add: ucast_of_nat_small unat_of_nat_small add.assoc)
qed simp

lemma concat_at_least: "\<forall>c \<in> set cs. m \<le> length c \<Longrightarrow> length cs * m \<le> length (concat cs)"
  by (induction cs) auto

lemma few_chunks:
  assumes "config_ok config"
  shows "length (chunks_of config contents) * minimum_bytes config \<le> length contents + minimum_bytes config"
proof (cases "chunks_of config contents = []")
  case False
  let ?cs = "chunks_of config contents"
  have "?cs = butlast ?cs @ [last ?cs]" using False by simp
  then have "length (concat (butlast ?cs)) \<le> length contents"
    by (metis concat_append concat_chunks_of le_add1 length_append)
  moreover have "length (butlast ?cs) * minimum_bytes config \<le> length (concat (butlast ?cs))"
    using chunk_sizes(2) [OF assms] by (intro concat_at_least) blast
  ultimately have "(length ?cs - 1) * minimum_bytes config \<le> length contents" by simp
  moreover have "length ?cs * minimum_bytes config = (length ?cs - 1) * minimum_bytes config + minimum_bytes config"
    using False by (cases ?cs) simp_all
  ultimately show ?thesis by simp
qed simp

lemma chunk_count:
  assumes "config_ok config" "2048 \<le> minimum_bytes config" "length contents < 2 ^ 64"
  shows "length (chunks_of config contents) \<le> 2 ^ 53"
proof -
  let ?n = "length (chunks_of config contents)"
  have "?n * minimum_bytes config \<le> length contents + minimum_bytes config" by (rule few_chunks [OF assms(1)])
  then have "(?n - 1) * minimum_bytes config \<le> length contents" by (cases ?n) simp_all
  moreover have "(?n - 1) * 2048 \<le> (?n - 1) * minimum_bytes config" using assms(2) by (rule mult_le_mono2)
  ultimately have "(?n - 1) * 2048 < 2 ^ 64" using assms(3) by linarith
  then show ?thesis by simp
qed

lemma map_butlast_offsets: "map snd (butlast (with_offsets start cs)) = butlast cs"
  by (simp add: map_butlast)

lemma index_of_ok:
  assumes "libs_ok lib" "from_average_kib k = Inr config" "length contents < 2 ^ 64"
  shows "index_ok (index_of lib k config contents)" "\<exists>bs. index_encode_wire (index_of lib k config contents) = Inr bs"
proof -
  note c = from_average_kib_ok [OF assms(2)]
  let ?cs = "chunks_of config contents" and ?i = "index_of lib k config contents"
  have small: "\<forall>c \<in> set ?cs. length c < 2 ^ 32" using small_chunks [OF c(1)] by blast
  have key: "unat (key_length (basis_key (record_of lib oc))) = length (snd oc)" "chunk_digest_ok (record_of lib oc)"
    if "snd oc \<in> set ?cs" for oc
    using that small assms(1) by (auto simp: record_of_def key_of_def unat_of_nat_small chunk_digest_ok_def libs_ok_def)
  have mem: "snd oc \<in> set ?cs" if "oc \<in> set (with_offsets 0 ?cs)" for oc
    using that by (metis image_eqI list.set_map map_snd_with_offsets)
  have bmem: "snd oc \<in> set (butlast ?cs)" if "oc \<in> set (butlast (with_offsets 0 ?cs))" for oc
    using that by (metis image_eqI list.set_map map_butlast_offsets)
  have i: "index_chunks ?i = map (record_of lib) (with_offsets 0 ?cs)" by (simp add: index_of_def Let_def)
  have all: "chunk_digest_ok r \<and> 0 < key_length (basis_key r) \<and> unat (key_length (basis_key r)) \<le> maximum_bytes config"
    if "r \<in> set (index_chunks ?i)" for r
  proof -
    from that obtain oc where oc: "oc \<in> set (with_offsets 0 ?cs)" "r = record_of lib oc" by (auto simp: i)
    note k = key [OF mem [OF oc(1)]] chunk_sizes(1) [OF c(1) mem [OF oc(1)]]
    then have "0 < unat (key_length (basis_key r))" using oc(2) by simp
    then show ?thesis using k oc(2) by (simp add: word_less_nat_alt)
  qed
  have most: "minimum_bytes config \<le> unat (key_length (basis_key r))" if r: "r \<in> set (butlast (index_chunks ?i))" for r
  proof -
    from r obtain oc where oc: "oc \<in> set (butlast (with_offsets 0 ?cs))" "r = record_of lib oc"
      by (auto simp: i map_butlast [symmetric])
    show ?thesis using key(1) [OF mem [OF in_set_butlastD [OF oc(1)]]] chunk_sizes(2) [OF c(1) bmem [OF oc(1)]] oc(2) by simp
  qed
  have "tiles 0 (index_chunks ?i) (index_file_bytes ?i)"
    using tiles_records [OF small, of 0 lib] assms(3) by (simp add: index_of_def Let_def)
  then show ok: "index_ok ?i"
    unfolding index_ok_def using all most assms(2) by (auto simp: index_of_def Let_def)
  have "\<forall>r \<in> set (index_chunks ?i). chunk_digest_ok r" using all by blast
  then obtain xs where "wcat (map write_basis_chunk (index_chunks ?i)) = Inr xs" using basis_record.wcat_valid by blast
  then show "\<exists>bs. index_encode_wire ?i = Inr bs"
    using chunk_count [OF c(1) _ assms(3)] c(2,3,4) by (auto simp: index_encode_wire_Inr i usize_max_def) (simp add: index_of_def Let_def)
qed

section \<open>The theorems of the chunker\<close>

text \<open>
   Chunking a file: when a run of \<^verbatim>\<open>chunk_reader\<close> succeeds, whatever the sizes of its reads and however often they
  were interrupted, the visitor was called for consecutive chunks that make up the file, with their offsets; no chunk
  is empty or longer than the maximum, and only the last one may be shorter than the minimum.  The counters are
  those of the chunks and no file was changed.
\<close>

theorem chunking_exact:
  assumes "from_average_kib k = Inr config" "chunk_reader config visitor contents v s = (Inr (stats, v'), s')"
  shows "\<exists>cs. concat cs = contents \<and>
      (\<forall>c \<in> set cs. 0 < length c \<and> length c \<le> k * 2048) \<and> (\<forall>c \<in> set (butlast cs). k * 512 \<le> length c) \<and>
      efold (\<lambda>v (offset, c). visitor v offset c) v (with_offsets 0 cs) = Inr v' \<and>
      unat (stat_bytes stats) = length contents \<and> unat (stat_chunks stats) = length cs \<and> nodes s' = nodes s"
proof (intro exI conjI)
  note c = from_average_kib_ok [OF assms(1)]
  note d = delivers_Inr [OF delivers_chunk_reader assms(2)]
  note e = emit_chunks_Inr [OF d [THEN conjunct1]]
  show "concat (chunks_of config contents) = contents" by simp
  show "\<forall>x \<in> set (chunks_of config contents). 0 < length x \<and> length x \<le> k * 2048"
    "\<forall>x \<in> set (butlast (chunks_of config contents)). k * 512 \<le> length x"
    using chunk_sizes [OF c(1)] c(4,5) by fastforce+
  show "efold (\<lambda>v (offset, c). visitor v offset c) v (with_offsets 0 (chunks_of config contents)) = Inr v'" by (rule e(1))
  show "unat (stat_bytes stats) = length contents" "unat (stat_chunks stats) = length (chunks_of config contents)"
    using e(2,3) by (simp_all add: default_stats_def)
  show "nodes s' = nodes s" using d by (simp add: unchanged_fs_def)
qed

definition sample_config :: ChunkConfig where
  "sample_config = \<lparr>average_bytes = 4096, minimum_bytes = 2048, maximum_bytes = 8192, boundary_mask = 2047\<rparr>"

definition interrupted_fs :: fs where
  "interrupted_fs = \<lparr>nodes = fmempty, faults = [Some (Interrupted, 0), None], clock = 0, journal_dir = \<lparr>journal_file = None, temporary_file = None\<rparr>\<rparr>"

lemma sample_config: "from_average_kib 4 = Inr sample_config"
  by (simp add: from_average_kib_def validate_average_kib_def MIN_AVERAGE_KIB_def MAX_AVERAGE_KIB_def
      is_power_of_two_def upt_conv_Cons usize_max_def word_try_from_def sample_config_def)

lemma sample_chunks: "chunks_of sample_config [1, 2, 3] = [[1, 2, 3]]"
  by (simp add: chunks_of_def Let_def is_boundary_def sample_config_def)

text \<open> A file of three bytes, read after an interruption, is one chunk.\<close>

theorem chunking_exact_witness:
  "\<exists>stats s'. chunk_reader sample_config (\<lambda>v offset c. Inr (v @ [(offset, c)])) [1, 2, 3] [] interrupted_fs =
      (Inr (stats, [(0, [1, 2, 3])]), s') \<and> unat (stat_bytes stats) = 3"
proof -
  let ?visit = "\<lambda>v offset c. Inr (v @ [(offset, c)]) :: (u64 \<times> byte list) list io_result"
  have "\<exists>stats s'. chunk_reader sample_config ?visit [1, 2, 3] [] interrupted_fs = (Inr (stats, [(0, [1, 2, 3])]), s')"
    by (simp add: chunk_reader_def chunk_reads.simps retried.simps interrupted_fs_def READ_BUFFER_BYTES_def fbind_def flift_def
        fret_def chunk_byte_def Let_def is_boundary_def sample_config_def emit_chunk_def default_stats_def word_try_from_def)
  then obtain stats s' where r: "chunk_reader sample_config ?visit [1, 2, 3] [] interrupted_fs = (Inr (stats, [(0, [1, 2, 3])]), s')"
    by blast
  show ?thesis using r chunking_exact [OF sample_config r] by auto
qed

text \<open>
   The index on the wire is canonical: the decoder accepts exactly the encodings of indexes whose chunks tile the
  file within the size limits, and gives back the index that was encoded, with its first locations.
\<close>

theorem basis_index_wire_exact:
  "index_decode_wire bs = Inr index \<longleftrightarrow> index_ok index \<and> index_encode_wire index = Inr bs"
  by (rule index_wire_exact)

end
