(* ===== verification/Reconstruction.thy ===== *)
theory Reconstruction
  imports Chunking
begin

text \<open>
  Reconstruction plans, from \<^verbatim>\<open>src/cdc_reconstruction_bench.rs\<close>: how a plan is built from a file and the index of a
  basis, its wire format, and how the file is rebuilt beside its place and moved there.  \<open>expand\<close> is what a plan
  means for a basis.  The plans come from another machine: the theorems about decoding and rebuilding hold for any
  bytes.
\<close>

section \<open>Plans\<close>

definition PLAN_MAGIC :: "byte list" where "PLAN_MAGIC = [0x4E, 0x43, 0x50, 0x31]"
definition PLAN_HEADER_BYTES :: usize where "PLAN_HEADER_BYTES = 4 + 8 + 32 + 8"
definition BASIS_RECORD_BYTES :: usize where "BASIS_RECORD_BYTES = 1 + 8 + 8"
definition LITERAL_HEADER_BYTES :: usize where "LITERAL_HEADER_BYTES = 1 + 8"
definition OP_BASIS :: u8 where "OP_BASIS = 0"
definition OP_LITERAL :: u8 where "OP_LITERAL = 1"
definition RECONSTRUCTION_BUFFER_BYTES :: usize where "RECONSTRUCTION_BUFFER_BYTES = 1024 * 1024"

definition is_literal_limit_exceeded :: "error_kind \<Rightarrow> bool" where
  "is_literal_limit_exceeded e \<longleftrightarrow> e = LiteralLimitExceeded"

datatype ReconstructionOp =
    BasisRange u64 u64
  | Literal "byte list"

record ReconstructionPlan =
  target_bytes :: u64
  target_digest :: digest
  operations :: "ReconstructionOp list"
  candidate_chunks :: u64
  plan_referenced_bytes :: u64
  plan_literal_bytes :: u64

text \<open>
  A vector has at most \<^verbatim>\<open>isize::MAX\<close> bytes: \<^verbatim>\<open>try_reserve\<close> fails beyond that, \<^verbatim>\<open>with_capacity\<close> panics.  An
  operation has at least the 24 bytes of the vector in its second variant.
\<close>

definition isize_max :: nat where "isize_max = 2 ^ 63 - 1"
definition OPERATION_BYTES :: nat where "OPERATION_BYTES = 24"

definition append_basis :: "ReconstructionOp list \<Rightarrow> u64 \<Rightarrow> u64 \<Rightarrow> ReconstructionOp list io_result" where
  "append_basis ops offset len =
     (if len = 0 then Inl InvalidInput
      else if ops \<noteq> [] then
        (case last ops of
           BasisRange previous_offset previous_length \<Rightarrow>
             ebind (ok_or OtherError (checked_add previous_offset previous_length)) (\<lambda>previous_end.
             if previous_end = offset then
               ebind (ok_or OtherError (checked_add previous_length len)) (\<lambda>merged.
                 Inr (butlast ops @ [BasisRange previous_offset merged]))
             else Inr (ops @ [BasisRange offset len]))
         | Literal _ \<Rightarrow> Inr (ops @ [BasisRange offset len]))
      else Inr [BasisRange offset len])"

definition append_literal :: "ReconstructionOp list \<Rightarrow> byte list \<Rightarrow> ReconstructionOp list io_result" where
  "append_literal ops contents =
     (if contents = [] then Inl InvalidInput
      else if ops \<noteq> [] then
        (case last ops of
           Literal previous \<Rightarrow>
             if length previous + length contents > isize_max then Inl OtherError
             else Inr (butlast ops @ [Literal (previous @ contents)])
         | BasisRange _ _ \<Rightarrow>
             if length contents > isize_max then Inl OtherError else Inr (ops @ [Literal contents]))
      else if length contents > isize_max then Inl OtherError else Inr [Literal contents])"

text \<open>The variables the visitor of the planner changes: what was hashed, the operations and the two counts.\<close>

record PlanState =
  plan_hashed :: "byte list"
  plan_operations :: "ReconstructionOp list"
  referenced_so_far :: u64
  literal_so_far :: u64

definition plan_visitor :: "libs \<Rightarrow> BasisFileIndex \<Rightarrow> u64 \<Rightarrow> PlanState visitor" where
  "plan_visitor lib index maximum_literal_bytes st offset contents =
     ebind (chunk_key lib contents) (\<lambda>key.
     ebind (word_try_from OtherError (length contents)) (\<lambda>chunk_bytes.
       case index_find index key of
         Some location \<Rightarrow>
           ebind (append_basis (plan_operations st) location chunk_bytes) (\<lambda>ops.
           ebind (ok_or OtherError (checked_add (referenced_so_far st) chunk_bytes)) (\<lambda>referenced.
             Inr (st\<lparr>plan_hashed := plan_hashed st @ contents, plan_operations := ops, referenced_so_far := referenced\<rparr>)))
       | None \<Rightarrow>
           ebind (ok_or OtherError (checked_add (literal_so_far st) chunk_bytes)) (\<lambda>next_literal_bytes.
           if next_literal_bytes > maximum_literal_bytes then Inl LiteralLimitExceeded
           else ebind (append_literal (plan_operations st) contents) (\<lambda>ops.
             Inr (st\<lparr>plan_hashed := plan_hashed st @ contents, plan_operations := ops, literal_so_far := next_literal_bytes\<rparr>)))))"

definition build_bounded :: "libs \<Rightarrow> fpath \<Rightarrow> BasisFileIndex \<Rightarrow> u64 \<Rightarrow> ReconstructionPlan fsm" where
  "build_bounded lib candidate_path index maximum_literal_bytes =
     fbind (open_source candidate_path) (\<lambda>n.
     fbind (syscall (fret (node_len n))) (\<lambda>expected_bytes.
     fbind (flift (from_average_kib (index_average_kib index))) (\<lambda>config.
     fbind (chunk_reader config (plan_visitor lib index maximum_literal_bytes) (node_contents n)
              \<lparr>plan_hashed = [], plan_operations = [], referenced_so_far = 0, literal_so_far = 0\<rparr>) (\<lambda>(chunking, st).
     fbind (fguard (stat_bytes chunking = expected_bytes) InvalidData) (\<lambda>_.
     fbind (flift (ok_or OtherError (checked_add (referenced_so_far st) (literal_so_far st)))) (\<lambda>planned_bytes.
     fbind (fguard (planned_bytes = expected_bytes) InvalidData) (\<lambda>_.
       fret \<lparr>target_bytes = expected_bytes, target_digest = blake3 lib (plan_hashed st), operations = plan_operations st,
             candidate_chunks = stat_chunks chunking, plan_referenced_bytes = referenced_so_far st,
             plan_literal_bytes = literal_so_far st\<rparr>)))))))"

section \<open>Plans on the wire\<close>

definition operation_wire_bytes :: "ReconstructionOp \<Rightarrow> usize io_result" where
  "operation_wire_bytes op =
     (case op of
        BasisRange _ _ \<Rightarrow> Inr BASIS_RECORD_BYTES
      | Literal contents \<Rightarrow>
          if LITERAL_HEADER_BYTES + length contents \<le> usize_max then Inr (LITERAL_HEADER_BYTES + length contents) else Inl OtherError)"

definition plan_wire_size :: "ReconstructionPlan \<Rightarrow> usize io_result" where
  "plan_wire_size pl =
     efold (\<lambda>total op. ebind (operation_wire_bytes op) (\<lambda>n. if total + n \<le> usize_max then Inr (total + n) else Inl OtherError))
       PLAN_HEADER_BYTES (operations pl)"

definition write_operation :: "ReconstructionOp \<Rightarrow> byte list io_result" where
  "write_operation op =
     (case op of
        BasisRange offset len \<Rightarrow> Inr (OP_BASIS # to_le_bytes offset @ to_le_bytes len)
      | Literal contents \<Rightarrow>
          ebind (word_try_from OtherError (length contents)) (\<lambda>len :: u64. Inr (OP_LITERAL # to_le_bytes len @ contents)))"

definition plan_encode_wire :: "ReconstructionPlan \<Rightarrow> byte list io_result" where
  "plan_encode_wire pl =
     ebind (word_try_from OtherError (length (operations pl))) (\<lambda>operation_count :: u64.
     ebind (plan_wire_size pl) (\<lambda>_.
       wcat ([Inr PLAN_MAGIC, Inr (to_le_bytes (target_bytes pl)), Inr (target_digest pl), Inr (to_le_bytes operation_count)] @
             map write_operation (operations pl))))"

definition read_operation :: "ReconstructionOp reader" where
  "read_operation =
     rbind (slice_exact 1) (\<lambda>tag.
     if hd tag = OP_BASIS then
       rbind slice_le (\<lambda>offset.
       rbind slice_le (\<lambda>len.
       rbind (rguard (len \<noteq> 0) InvalidData) (\<lambda>_.
       rbind (rlift (ok_or InvalidData (checked_add offset len))) (\<lambda>_.
         rret (BasisRange offset len)))))
     else if hd tag = OP_LITERAL then
       rbind slice_le (\<lambda>length_u64.
       rbind (rguard (length_u64 \<noteq> 0) InvalidData) (\<lambda>_.
       rbind (rlift (usize_try_from InvalidData length_u64)) (\<lambda>len.
       rbind (slice_exact len) (\<lambda>contents.
         rret (Literal contents)))))
     else rfail InvalidData)"

text \<open>The two counts of the decoder.\<close>

definition count_operation :: "u64 \<times> u64 \<Rightarrow> ReconstructionOp \<Rightarrow> (u64 \<times> u64) io_result" where
  "count_operation = (\<lambda>(referenced, literal) op.
     (case op of
        BasisRange offset len \<Rightarrow> ebind (ok_or InvalidData (checked_add referenced len)) (\<lambda>referenced'. Inr (referenced', literal))
      | Literal contents \<Rightarrow>
          ebind (ok_or InvalidData (checked_add literal (of_nat (length contents)))) (\<lambda>literal'. Inr (referenced, literal'))))"

definition plan_decode_wire :: "byte list \<Rightarrow> ReconstructionPlan io_result" where
  "plan_decode_wire encoded =
     (if length encoded < PLAN_HEADER_BYTES then Inl InvalidData
      else if take 4 encoded \<noteq> PLAN_MAGIC then Inl InvalidData
      else ebind (slice_le (drop 4 encoded)) (\<lambda>(target, bs1).
           ebind (slice_exact CONTENT_DIGEST_BYTES bs1) (\<lambda>(d, bs2).
           ebind (slice_le bs2) (\<lambda>(operation_count_u64, bs3).
           ebind (usize_try_from InvalidData operation_count_u64) (\<lambda>operation_count.
           if operation_count * OPERATION_BYTES > isize_max then Inl Panicked
           else ebind (rfor operation_count (read_fold read_operation count_operation) ([], 0, 0) bs3)
                  (\<lambda>((ops, referenced, literal), remaining).
                if remaining \<noteq> [] then Inl InvalidData
                else ebind (ok_or InvalidData (checked_add referenced literal)) (\<lambda>described_bytes.
                  if described_bytes \<noteq> target then Inl InvalidData
                  else Inr \<lparr>target_bytes = target, target_digest = d, operations = ops, candidate_chunks = 0,
                            plan_referenced_bytes = referenced, plan_literal_bytes = literal\<rparr>)))))))"

section \<open>Reconstruction\<close>

text \<open>\<open>remaining\<close> bytes of the basis from \<open>offset\<close> on; the state is the count of bytes written and the bytes hashed.\<close>

function copy_basis_range :: "byte list \<Rightarrow> fpath \<Rightarrow> nat \<Rightarrow> nat \<Rightarrow> u64 \<times> byte list \<Rightarrow> (u64 \<times> byte list) fsm" where
  "copy_basis_range basis output offset remaining (written, hashed) =
     (if remaining = 0 then fret (written, hashed)
      else let buffer = take (min remaining RECONSTRUCTION_BUFFER_BYTES) (drop offset basis) in
        if buffer = [] then fbind (retried ()) (\<lambda>_. ffail UnexpectedEof)
        else fbind (retried buffer) (\<lambda>_.
             fbind (write_file_at output (unat written) buffer) (\<lambda>_.
             fbind (flift (ok_or OtherError (checked_add written (of_nat (length buffer))))) (\<lambda>written'.
               copy_basis_range basis output (offset + length buffer) (remaining - length buffer) (written', hashed @ buffer)))))"
  by pat_completeness auto
termination by (relation "measure (\<lambda>(basis, output, offset, remaining, _). remaining)") auto

declare copy_basis_range.simps [simp del]

definition reconstruct_operation :: "byte list \<Rightarrow> fpath \<Rightarrow> u64 \<Rightarrow> u64 \<times> byte list \<Rightarrow> ReconstructionOp \<Rightarrow> (u64 \<times> byte list) fsm" where
  "reconstruct_operation basis output basis_bytes = (\<lambda>(written, hashed) op.
     (case op of
        BasisRange offset len \<Rightarrow>
          fbind (flift (ok_or InvalidData (checked_add offset len))) (\<lambda>range_end.
          fbind (fguard (range_end \<le> basis_bytes) InvalidData) (\<lambda>_.
          fbind (syscall (fret ())) (\<lambda>_.
            copy_basis_range basis output (unat offset) (unat len) (written, hashed))))
      | Literal contents \<Rightarrow>
          fbind (write_file_at output (unat written) contents) (\<lambda>_.
          fbind (flift (word_try_from OtherError (length contents))) (\<lambda>n.
          fbind (flift (ok_or OtherError (checked_add written n))) (\<lambda>written'.
            fret (written', hashed @ contents))))))"

fun reconstruct_operations ::
    "byte list \<Rightarrow> fpath \<Rightarrow> u64 \<Rightarrow> ReconstructionOp list \<Rightarrow> u64 \<times> byte list \<Rightarrow> (u64 \<times> byte list) fsm" where
  "reconstruct_operations basis output basis_bytes [] st = fret st"
| "reconstruct_operations basis output basis_bytes (op # ops) st =
     fbind (reconstruct_operation basis output basis_bytes st op) (\<lambda>st'. reconstruct_operations basis output basis_bytes ops st')"

definition reconstruct_into :: "libs \<Rightarrow> byte list \<Rightarrow> fpath \<Rightarrow> u64 \<Rightarrow> ReconstructionPlan \<Rightarrow> digest fsm" where
  "reconstruct_into lib basis output basis_bytes pl =
     fbind (set_len output (unat (target_bytes pl))) (\<lambda>_.
     fbind (syscall (fret ())) (\<lambda>_.
     fbind (reconstruct_operations basis output basis_bytes (operations pl) (0, [])) (\<lambda>(written, hashed).
     fbind (syscall (fret ())) (\<lambda>_.
     fbind (fguard (written = target_bytes pl) InvalidData) (\<lambda>_.
     fbind (fguard (blake3 lib hashed = target_digest pl) InvalidData) (\<lambda>_.
       fret (blake3 lib hashed)))))))"

text \<open>
  The name of the part file has the process and the nanoseconds since 1970; a clock before that is an error.
\<close>

definition cdc_part :: path where
  "cdc_part = map of_nat [0x2E, 0x6E, 0x63, 0x73, 0x2D, 0x63, 0x64, 0x63, 0x2D, 0x70, 0x61, 0x72, 0x74, 0x2D]"

definition cdc_temporary_path :: "nat \<times> nat option \<Rightarrow> path \<Rightarrow> fpath io_result" where
  "cdc_temporary_path = (\<lambda>(process_id, nanos) output.
     ebind (ok_or OtherError nanos) (\<lambda>unique.
       Inr (path_components (output @ cdc_part @ decimal process_id @ [0x2D] @ decimal unique))))"

definition reconstruct :: "libs \<Rightarrow> nat \<times> nat option \<Rightarrow> path \<Rightarrow> path \<Rightarrow> u64 \<Rightarrow> ReconstructionPlan \<Rightarrow> digest fsm" where
  "reconstruct lib stamp basis_path output_path expected_basis_bytes pl =
     (let output = path_components output_path in
     fbind (if butlast output = [] then fret () else create_dir_all (butlast output)) (\<lambda>_.
     fbind (flift (cdc_temporary_path stamp output_path)) (\<lambda>temporary.
     fbind (open_source (path_components basis_path)) (\<lambda>basis.
     fbind (syscall (fret (node_len basis))) (\<lambda>actual_basis_bytes.
     fbind (fguard (actual_basis_bytes = expected_basis_bytes) InvalidData) (\<lambda>_.
     fbind (create_new temporary) (\<lambda>_.
     fbind (on_error (reconstruct_into lib (node_contents basis) temporary actual_basis_bytes pl) (fs_remove_file temporary)) (\<lambda>d.
     fbind (on_error (replace temporary output) (fs_remove_file temporary)) (\<lambda>_.
     fbind (fs_metadata output) (\<lambda>n.
     fbind (fguard (node_len n = target_bytes pl) InvalidData) (\<lambda>_.
       fret d)))))))))))"

definition reconstruct_verified :: "libs \<Rightarrow> nat \<times> nat option \<Rightarrow> path \<Rightarrow> path \<Rightarrow> u64 \<Rightarrow> ReconstructionPlan \<Rightarrow> unit fsm" where
  "reconstruct_verified lib stamp basis_path output_path expected_basis_bytes pl =
     fbind (reconstruct lib stamp basis_path output_path expected_basis_bytes pl) (\<lambda>_. fret ())"

section \<open>The part file\<close>

definition cdc_suffix :: "nat \<Rightarrow> nat \<Rightarrow> path" where
  "cdc_suffix process_id unique = cdc_part @ decimal process_id @ [0x2D] @ decimal unique"

lemma cdc_suffix_units: "list_all (\<lambda>u. \<not> is_separator u) (cdc_suffix a b)"
  using decimal_digits [of a] decimal_digits [of b]
  by (auto simp: cdc_suffix_def cdc_part_def is_separator_def backslash_def slash_def list_all_iff word_le_nat_alt)

lemma cdc_suffix_long: "3 \<le> length (cdc_suffix a b)"
  by (simp add: cdc_suffix_def cdc_part_def)

lemma suffixed_path_differs:
  assumes "list_all (\<lambda>u. \<not> is_separator u) tail" "3 \<le> length tail"
  shows "path_components (p @ tail) \<noteq> path_components p"
proof
  assume eq: "path_components (p @ tail) = path_components p"
  obtain pre l where parts: "split_units is_separator p = pre @ [l]"
    using split_units_not_Nil [of is_separator p] by (metis append_butlast_last_id)
  have parts': "split_units is_separator (p @ tail) = pre @ [l @ tail]"
    using split_units_append [OF assms(1), of p] by (simp add: parts)
  have ne: "l @ tail \<noteq> []" "l @ tail \<noteq> [full_stop]" "l @ tail \<noteq> [full_stop, full_stop]"
    using assms(2) by (auto simp: append_eq_Cons_conv)
  have "tail \<noteq> []" using assms(2) by auto
  then have "\<not> is_separator (hd tail)" using assms(1) by (simp add: list_all_iff)
  with \<open>tail \<noteq> []\<close> have rooted: "(case p @ tail of [] \<Rightarrow> False | u # x \<Rightarrow> is_separator u) = (case p of [] \<Rightarrow> False | u # x \<Rightarrow> is_separator u)"
    by (cases p) (auto split: list.splits)
  have "name_component l \<noteq> Normal (l @ tail)" using \<open>tail \<noteq> []\<close> by (simp add: name_component_def)
  with eq ne rooted show False
    by (cases pre) (auto simp: path_components_def parts parts' Let_def name_component_def hd_append split: if_splits)
qed

lemma cdc_temporary_path_Inr:
  "cdc_temporary_path stamp p = Inr t \<longleftrightarrow>
   (\<exists>unique. snd stamp = Some unique \<and> t = path_components (p @ cdc_suffix (fst stamp) unique))"
  by (cases stamp) (auto simp: cdc_temporary_path_def result_simps cdc_suffix_def)

lemma cdc_temporary_not_output: "cdc_temporary_path stamp p = Inr t \<Longrightarrow> t \<noteq> path_components p"
  using suffixed_path_differs [OF cdc_suffix_units cdc_suffix_long] by (auto simp: cdc_temporary_path_Inr)

section \<open>What the reconstruction writes\<close>

lemma write_appends:
  "write_all_at (h @ drop (length h) z) (length h) b = (h @ b) @ drop (length (h @ b)) z"
  by (cases "b = []") (simp_all add: write_all_at_def add.commute)

lemma flift_ok_Inr: "flift (ok_or e x) s = (Inr a, s') \<longleftrightarrow> x = Some a \<and> s' = s"
  by (cases x) (auto simp: flift_def)

lemma copy_basis_range_Inr:
  assumes "copy_basis_range basis output offset remaining (w, h) s = (Inr (w', h'), s')" "unat w = length h"
    "holds s output (h @ drop (length h) z)"
  shows "h' = h @ take remaining (drop offset basis)" "unat w' = length h'" "holds s' output (h' @ drop (length h') z)"
    "offset + remaining \<le> length basis \<or> remaining = 0"
proof -
  have "h' = h @ take remaining (drop offset basis) \<and> unat w' = length h' \<and> holds s' output (h' @ drop (length h') z) \<and>
    (offset + remaining \<le> length basis \<or> remaining = 0)"
    using assms
  proof (induction remaining arbitrary: offset w h s rule: less_induct)
    case (less remaining)
    define b where "b = take (min remaining RECONSTRUCTION_BUFFER_BYTES) (drop offset basis)"
    note u = less.prems(1) [unfolded copy_basis_range.simps [of basis "output" offset remaining w h] Let_def, folded b_def]
    show ?case
    proof (cases "remaining = 0")
      case True
      then show ?thesis using u less.prems(2,3) by (simp add: fret_def)
    next
      case False
      have b: "b \<noteq> []" using u False by (auto simp: fbind_Inr ffail_def split: if_splits)
      from u False b obtain s1 s2 w1 where r: "retried b s = (Inr b, s1)" and wr: "write_file_at output (unat w) b s1 = (Inr (), s2)"
        and w1: "checked_add w (of_nat (length b)) = Some w1"
        and c: "copy_basis_range basis output (offset + length b) (remaining - length b) (w1, h @ b) s2 = (Inr (w', h'), s')"
        using retried_Inr [of b s] by (auto simp: fbind_Inr flift_ok_Inr)
      have "nodes s1 = nodes s" using retried_Inr [OF r] by (simp add: unchanged_fs_def)
      then have h2: "holds s2 output ((h @ b) @ drop (length (h @ b)) z)"
        using write_file_at_Inr [OF wr, of "h @ drop (length h) z"] less.prems(2,3) by (simp only: holds_def write_appends)
      have "length b \<le> RECONSTRUCTION_BUFFER_BYTES" by (simp add: b_def)
      then have "length b < 2 ^ 64" by (simp add: RECONSTRUCTION_BUFFER_BYTES_def)
      then have w1': "unat w1 = length (h @ b)" using unat_checked_add [OF w1] less.prems(2) by (simp add: unat_of_nat_small)
      have n: "0 < length b" "length b \<le> remaining" using b by (simp_all add: b_def)
      then have "remaining - length b < remaining" using False by (simp add: diff_less)
      note IH' = less.IH [OF this c w1' h2]
      have "b = take (length b) (drop offset basis)" unfolding b_def by (metis append_eq_conv_conj append_take_drop_id)
      then have "take remaining (drop offset basis) = b @ take (remaining - length b) (drop (offset + length b) basis)"
        using n(2) take_add [of "length b" "remaining - length b" "drop offset basis"] by (simp add: add.commute)
      then have "h' = h @ take remaining (drop offset basis)" using IH' [THEN conjunct1] by (simp only: append.assoc)
      moreover have "offset + length b \<le> length basis" using n(1) by (auto simp: b_def)
      then have "offset + remaining \<le> length basis \<or> remaining = 0"
        using IH' [THEN conjunct2, THEN conjunct2, THEN conjunct2] n(2) by auto
      ultimately show ?thesis using IH' [THEN conjunct2] by blast
    qed
  qed
  then show "h' = h @ take remaining (drop offset basis)" "unat w' = length h'" "holds s' output (h' @ drop (length h') z)"
    "offset + remaining \<le> length basis \<or> remaining = 0" by blast+
qed

text \<open>The bytes an operation stands for, given the basis.\<close>

fun expand_op :: "byte list \<Rightarrow> ReconstructionOp \<Rightarrow> byte list" where
  "expand_op basis (BasisRange offset len) = take (unat len) (drop (unat offset) basis)"
| "expand_op basis (Literal contents) = contents"

definition expand :: "byte list \<Rightarrow> ReconstructionOp list \<Rightarrow> byte list" where
  "expand basis ops = concat (map (expand_op basis) ops)"

lemma expand_simps [simp]:
  "expand basis [] = []" "expand basis (op # ops) = expand_op basis op @ expand basis ops"
  "expand basis (ops @ ops') = expand basis ops @ expand basis ops'"
  by (simp_all add: expand_def)

lemma reconstruct_operation_Inr:
  assumes "reconstruct_operation basis output n (w, h) op s = (Inr (w', h'), s')" "unat w = length h"
    "holds s output (h @ drop (length h) z)"
  shows "h' = h @ expand_op basis op \<and> unat w' = length h' \<and> holds s' output (h' @ drop (length h') z)"
proof (cases op)
  case (BasisRange offset len)
  with assms(1) obtain s1 where q: "syscall (fret ()) s = (Inr (), s1)"
    and c: "copy_basis_range basis output (unat offset) (unat len) (w, h) s1 = (Inr (w', h'), s')"
    by (auto simp: reconstruct_operation_def fbind_Inr flift_ok_Inr fguard_def fret_def ffail_def split: if_splits)
  have "holds s1 output (h @ drop (length h) z)"
    using assms(3) delivers_Inr [OF delivers_call q] by (simp add: holds_def unchanged_fs_def)
  then show ?thesis using copy_basis_range_Inr [OF c assms(2)] BasisRange by simp
next
  case (Literal contents)
  with assms(1) obtain n :: u64 where wr: "write_file_at output (unat w) contents s = (Inr (), s')"
    and n: "word_try_from OtherError (length contents) = Inr n" "checked_add w n = Some w'" "h' = h @ contents"
    by (auto simp: reconstruct_operation_def fbind_Inr flift_def fret_def ok_or_Inr)
  have "unat w' = length h'" using unat_checked_add [OF n(2)] word_try_from_unat [OF n(1)] n(3) assms(2) by simp
  then show ?thesis using write_file_at_Inr [OF wr assms(3)] n(3) Literal assms(2) write_appends [of h z contents] by simp
qed

lemma reconstruct_operations_Inr:
  assumes "reconstruct_operations basis output n ops (w, h) s = (Inr (w', h'), s')" "unat w = length h"
    "holds s output (h @ drop (length h) z)"
  shows "h' = h @ expand basis ops \<and> unat w' = length h' \<and> holds s' output (h' @ drop (length h') z)"
  using assms
proof (induction ops arbitrary: w h s)
  case Nil
  then show ?case by (simp add: fret_def)
next
  case (Cons op ops)
  from Cons.prems(1) obtain w1 h1 s1 where o: "reconstruct_operation basis output n (w, h) op s = (Inr (w1, h1), s1)"
    and r: "reconstruct_operations basis output n ops (w1, h1) s1 = (Inr (w', h'), s')" by (auto simp: fbind_Inr)
  have "h1 = h @ expand_op basis op" "unat w1 = length h1" "holds s1 output (h1 @ drop (length h1) z)"
    using reconstruct_operation_Inr [OF o Cons.prems(2,3)] by blast+
  from Cons.IH [OF r this(2,3)] this(1) show ?case by (elim conjE) (simp only: expand_simps append.assoc simp_thms)
qed

lemma reconstruct_into_Inr:
  assumes "reconstruct_into lib basis output n pl s = (Inr d, s')" "holds s output []"
  shows "holds s' output (expand basis (operations pl))" "length (expand basis (operations pl)) = unat (target_bytes pl)"
    "blake3 lib (expand basis (operations pl)) = target_digest pl" "d = target_digest pl"
proof -
  let ?z = "replicate (unat (target_bytes pl)) (0 :: byte)"
  from assms(1) obtain s1 s2 w h s3 where s: "set_len output (unat (target_bytes pl)) s = (Inr (), s1)"
      "syscall (fret ()) s1 = (Inr (), s2)" "reconstruct_operations basis output n (operations pl) (0, []) s2 = (Inr (w, h), s3)"
      "syscall (fret ()) s3 = (Inr (), s')"
    and c: "w = target_bytes pl" "blake3 lib h = target_digest pl" "d = blake3 lib h"
    by (auto simp: reconstruct_into_def fbind_Inr fguard_def fret_def ffail_def split: if_splits)
  have "holds s2 output ?z"
    using set_len_Inr [OF s(1) assms(2)] delivers_Inr [OF delivers_call s(2)] by (simp add: holds_def unchanged_fs_def)
  then have r: "h = expand basis (operations pl)" "unat w = length h" "holds s3 output (h @ drop (length h) ?z)"
    using reconstruct_operations_Inr [OF s(3), of ?z] by simp_all metis
  then have "holds s3 output h" using c(1) by simp
  then show "holds s' output (expand basis (operations pl))"
    using delivers_Inr [OF delivers_call s(4)] r(1) by (simp add: holds_def unchanged_fs_def)
  show "length (expand basis (operations pl)) = unat (target_bytes pl)"
    "blake3 lib (expand basis (operations pl)) = target_digest pl" "d = target_digest pl" using r(1,2) c by auto
qed

section \<open>A reconstruction replaces its file by verified contents or not at all\<close>

lemma fbind_assoc: "fbind (fbind m f) g = fbind m (\<lambda>a. fbind (f a) g)"
  by (rule ext) (auto simp: fbind_def split: prod.splits sum.splits)

lemma touch_quiet: "within unchanged_fs m \<Longrightarrow> within (only P) m"
  by (auto simp: within_def unchanged_fs_def only_def)

lemmas touch_reads = delivers_call [THEN delivers_quiet, THEN touch_quiet] delivers_retried [THEN delivers_quiet, THEN touch_quiet]

lemma touch_copy_range: "within (only {output}) (copy_basis_range basis output offset remaining st)"
proof (induction remaining arbitrary: offset st rule: less_induct)
  case (less remaining)
  obtain w h where st: "st = (w, h)" by force
  let ?b = "take (min remaining RECONSTRUCTION_BUFFER_BYTES) (drop offset basis)"
  show ?case
  proof (cases "remaining = 0 \<or> ?b = []")
    case True
    then show ?thesis
      unfolding st copy_basis_range.simps [of basis "output" offset remaining w h] Let_def
      by (auto intro!: touch.pure touch.bind touch_reads)
  next
    case False
    then have "remaining - length ?b < remaining" by (intro diff_less) auto
    from less.IH [OF this] False show ?thesis
      unfolding st copy_basis_range.simps [of basis "output" offset remaining w h] Let_def
      by (auto intro!: touch.pure touch.bind touch_reads touch_write)
  qed
qed

lemma touch_operations: "within (only {output}) (reconstruct_operations basis output n ops st)"
proof (induction ops arbitrary: st)
  case (Cons op ops)
  have "within (only {output}) (reconstruct_operation basis output n st op)"
    unfolding reconstruct_operation_def
    by (cases st; cases op) (auto intro!: touch.pure touch.bind touch_reads touch_write touch_copy_range)
  then show ?case using Cons by (auto intro!: touch.bind)
qed (simp add: touch.pure)

lemma touch_reconstruct_into: "within (only {output}) (reconstruct_into lib basis output n pl)"
  unfolding reconstruct_into_def
  by (intro touch.bind touch.pure touch.prod_case touch_reads touch_operations touch_calls) simp_all

definition verified_output :: "libs \<Rightarrow> ReconstructionPlan \<Rightarrow> fpath \<Rightarrow> fs \<Rightarrow> bool" where
  "verified_output lib pl p s \<longleftrightarrow>
     (\<exists>c. holds s p c \<and> length c = unat (target_bytes pl) \<and> blake3 lib c = target_digest pl)"

lemma verified_quiet: "unchanged_fs s s' \<Longrightarrow> verified_output lib pl p s' = verified_output lib pl p s"
  by (simp add: verified_output_def holds_def unchanged_fs_def)

lemma only_new_kept: "only {t} s s' \<Longrightarrow> fmlookup (nodes s) t = None \<Longrightarrow> kept {} s s'"
  unfolding only_def kept_def by (metis option.distinct(1) singletonD)

text \<open>From the creation of the part file on.\<close>

definition materialize :: "libs \<Rightarrow> byte list \<Rightarrow> fpath \<Rightarrow> fpath \<Rightarrow> u64 \<Rightarrow> ReconstructionPlan \<Rightarrow> digest fsm" where
  "materialize lib basis temporary output n pl =
     fbind (create_new temporary) (\<lambda>_.
     fbind (on_error (reconstruct_into lib basis temporary n pl) (fs_remove_file temporary)) (\<lambda>d.
     fbind (on_error (replace temporary output) (fs_remove_file temporary)) (\<lambda>_.
     fbind (fs_metadata output) (\<lambda>n.
     fbind (fguard (node_len n = target_bytes pl) InvalidData) (\<lambda>_.
       fret d)))))"

lemma create_new_free: "create_new p s = (Inr u, s') \<Longrightarrow> fmlookup (nodes s) p = None"
  by (auto simp: create_new_def unchanged_fs_def dest!: syscall_Inr split: if_splits)

lemma create_new_failed: "create_new p s = (Inl e, s') \<Longrightarrow> kept {} s s'"
  using withinD [OF keeps_creates(1)] by blast

lemma touch_metadata: "within (only P) (fs_metadata q)"
  by (rule touch.reads)

lemma touch_replace_failed:
  assumes "on_error (replace t q) (fs_remove_file t) s = (Inl e, s')"
  shows "only {t} s s'"
proof -
  obtain x s1 where x: "replace t q s = (x, s1)" by force
  with assms obtain e' where e': "replace t q s = (Inl e', s1)" "s' = snd (fs_remove_file t s1)"
    by (cases x) (auto simp: on_error_def)
  have "only {t, q} s s1" using withinD [OF touch_calls(6) e'(1)] by simp
  then have "only {t} s s1" using replace_Inl [OF e'(1)] by (simp add: only_def)
  moreover have "within (only {t}) (fs_remove_file t)" by (rule touch_calls) simp
  then have "only {t} s1 s'" using e'(2) by (simp add: within_def)
  ultimately show ?thesis by (rule touch.frame_trans)
qed

lemma materialize_safe:
  assumes "materialize lib basis t output n pl s = (r, s')" "t \<noteq> output"
  shows "kept {output} s s' \<and>
    (case r of
       Inl _ \<Rightarrow> kept {} s s' \<or> verified_output lib pl output s'
     | Inr d \<Rightarrow> d = target_digest pl \<and> holds s' output (expand basis (operations pl)) \<and> verified_output lib pl output s' \<and>
         fmlookup (nodes s') t = None)"
  using assms(1) unfolding materialize_def
proof (cases rule: fbind_cases)
  case (Err e)
  have "kept {} s s'" using create_new_failed Err(1) .
  then show ?thesis using Err by (auto simp: kept_def)
next
  case (Ok u s1)
  have free: "fmlookup (nodes s) t = None" using create_new_free [OF Ok(1)] .
  have o1: "only {t} s s1" using withinD [OF touch_calls(1) Ok(1)] by simp
  have into: "within (only {t}) (on_error (reconstruct_into lib basis t n pl) (fs_remove_file t))"
    by (intro touch.error_cleanup touch_reconstruct_into touch_calls) simp
  from Ok(2) show ?thesis
  proof (cases rule: fbind_cases)
    case (Err e)
    have "only {t} s s'" using o1 withinD [OF into Err(1)] by (rule touch.frame_trans)
    then have "kept {} s s'" using only_new_kept free by blast
    then show ?thesis using Err(2) by (auto simp: kept_def)
  next
    case (Ok d s2)
    have into2: "reconstruct_into lib basis t n pl s1 = (Inr d, s2)" using Ok(1) by (simp add: on_error_Inr)
    have o2: "only {t} s s2" using o1 withinD [OF into Ok(1)] by (rule touch.frame_trans)
    have "holds s1 t []" using create_new_Inr [OF \<open>create_new t s = (Inr u, s1)\<close>] by (auto simp: holds_def)
    note v = reconstruct_into_Inr [OF into2 this]
    from Ok(2) show ?thesis
    proof (cases rule: fbind_cases)
      case (Err e)
      have "only {t} s s'" using o2 touch_replace_failed [OF Err(1)] by (rule touch.frame_trans)
      then have "kept {} s s'" using only_new_kept free by blast
      then show ?thesis using Err(2) by (auto simp: kept_def)
    next
      case (Ok u' s3)
      have rep: "replace t output s2 = (Inr u', s3)" using Ok(1) by (simp add: on_error_Inr)
      have out: "holds s3 output (expand basis (operations pl))" "fmlookup (nodes s3) t = None"
        using replace_Inr [OF rep] v(1) assms(2) by (auto simp: holds_def)
      have o3: "only {t, output} s2 s3" using withinD [OF touch_calls(6) rep] by simp
      have ver: "verified_output lib pl output s3" using out v(2,3) by (auto simp: verified_output_def)
      have q: "unchanged_fs s3 s'"
      proof -
        have "within unchanged_fs (fbind (fs_metadata output) (\<lambda>n. fbind (fguard (node_len n = target_bytes pl) InvalidData) (\<lambda>_. fret d)))"
          by (intro quiet.bind quiet.pure quiet.reads)
        from withinD [OF this Ok(2)] show ?thesis .
      qed
      have "kept {output} s s'"
        using o2 o3 q free unfolding only_def kept_def unchanged_fs_def by (metis insertE option.distinct(1) singletonD)
      moreover have "verified_output lib pl output s'" using ver verified_quiet [OF q] by simp
      moreover have "r = Inr d \<or> (\<exists>e. r = Inl e)"
        using Ok(2) by (auto simp: fbind_def fguard_def fret_def ffail_def split: prod.splits sum.splits if_splits)
      ultimately show ?thesis using v(4) out q by (auto simp: holds_def unchanged_fs_def)
    qed
  qed
qed

lemma reconstruct_outcome:
  assumes "reconstruct lib stamp basis_path output_path n pl s = (r, s')"
  shows "kept {path_components output_path} s s' \<and>
    (case r of
       Inl _ \<Rightarrow> kept {} s s' \<or> verified_output lib pl (path_components output_path) s'
     | Inr d \<Rightarrow> d = target_digest pl \<and> verified_output lib pl (path_components output_path) s' \<and>
         (\<exists>s1 basis. kept {} s s1 \<and> file_at s1 (path_components basis_path) basis \<and>
            holds s' (path_components output_path) (expand basis (operations pl))) \<and>
         (\<forall>t. cdc_temporary_path stamp output_path = Inr t \<longrightarrow> fmlookup (nodes s') t = None))"
proof -
  let ?o = "path_components output_path"
  let ?dirs = "if butlast ?o = [] then fret () else create_dir_all (butlast ?o)"
  have dirs: "within (kept {}) ?dirs" by (auto intro: keep.pure keeps_create_dir_all)
  have unfold: "reconstruct lib stamp basis_path output_path n pl =
    fbind ?dirs (\<lambda>_. fbind (flift (cdc_temporary_path stamp output_path)) (\<lambda>t.
    fbind (open_source (path_components basis_path)) (\<lambda>b. fbind (syscall (fret (node_len b))) (\<lambda>k.
    fbind (fguard (k = n) InvalidData) (\<lambda>_. materialize lib (node_contents b) t ?o k pl)))))"
    by (simp add: reconstruct_def materialize_def Let_def)
  let ?pre = "fbind ?dirs (\<lambda>_. fbind (flift (cdc_temporary_path stamp output_path)) (\<lambda>t.
    fbind (open_source (path_components basis_path)) (\<lambda>b. fbind (syscall (fret (node_len b))) (\<lambda>k.
    fbind (fguard (k = n) InvalidData) (\<lambda>_. fret (t, b, k))))))"
  have "fbind ?pre (\<lambda>(t, b, k). materialize lib (node_contents b) t ?o k pl) s = (r, s')"
    using assms unfolding unfold by (simp only: fbind_assoc fbind_fret prod.case)
  then show ?thesis
  proof (cases rule: fbind_cases)
    case (Err e)
    have "within (kept {}) ?pre"
      by (intro keep.bind dirs keep.pure keep.call) (auto intro!: keep.query simp: open_source_def split: option.splits node.splits)
    from withinD [OF this Err(1)] show ?thesis using Err(2) by (auto simp: kept_def)
  next
    case (Ok tbk s1)
    obtain t b k where tbk: "tbk = (t, b, k)" by (cases tbk)
    from Ok(1) obtain s0 s2 where d: "?dirs s = (Inr (), s0)" and t: "cdc_temporary_path stamp output_path = Inr t"
      and b: "open_source (path_components basis_path) s0 = (Inr b, s2)" and k: "syscall (fret (node_len b)) s2 = (Inr k, s1)"
      by (auto simp: fbind_Inr flift_def fguard_def fret_def ffail_def tbk split: if_splits)
    have k0: "kept {} s s0" using withinD [OF dirs d] .
    have q: "unchanged_fs s0 s1" using open_source_file [OF b] delivers_Inr [OF delivers_call k] quiet.frame_trans by blast
    have m: "materialize lib (node_contents b) t ?o k pl s1 = (r, s')" using Ok(2) by (simp add: tbk)
    note safe = materialize_safe [OF m cdc_temporary_not_output [OF t]]
    have k1: "kept {} s s1" using k0 q by (auto simp: kept_def unchanged_fs_def)
    have "kept {?o} s s'" using safe k1 by (auto simp: kept_def)
    moreover have "kept {} s s'" if "kept {} s1 s'" using that k1 keep.frame_trans by blast
    moreover have "file_at s0 (path_components basis_path) (node_contents b)" using open_source_file [OF b] by blast
    ultimately show ?thesis using safe k0 t by (auto split: sum.splits)
  qed
qed

text \<open>
  C15. Rebuilding a file from a plan, whatever the plan says and whatever calls fail.  Files other than the output keep
  their contents.  When the call succeeds, the output is what the operations of the plan denote for the basis file that was
  opened, it has the size and the digest the plan announces, and the part file is gone.  When it fails, no file that
  existed has changed, unless the output was already replaced by contents of that size and digest.
\<close>

theorem reconstruct_atomic:
  assumes "reconstruct lib stamp basis_path output_path n pl s = (r, s')"
  shows "kept {path_components output_path} s s' \<and>
    (case r of
       Inl _ \<Rightarrow> kept {} s s' \<or> verified_output lib pl (path_components output_path) s'
     | Inr d \<Rightarrow> d = target_digest pl \<and> verified_output lib pl (path_components output_path) s' \<and>
         (\<exists>s1 basis. kept {} s s1 \<and> file_at s1 (path_components basis_path) basis \<and>
            holds s' (path_components output_path) (expand basis (operations pl))) \<and>
         (\<forall>t. cdc_temporary_path stamp output_path = Inr t \<longrightarrow> fmlookup (nodes s') t = None))"
  by (rule reconstruct_outcome [OF assms])

section \<open>Plans on the wire\<close>

fun op_ok :: "ReconstructionOp \<Rightarrow> bool" where
  "op_ok (BasisRange offset len) \<longleftrightarrow> len \<noteq> 0 \<and> unat offset + unat len < 2 ^ 64"
| "op_ok (Literal contents) \<longleftrightarrow> contents \<noteq> [] \<and> length contents < 2 ^ 64"

fun op_wire :: "ReconstructionOp \<Rightarrow> byte list" where
  "op_wire (BasisRange offset len) = OP_BASIS # to_le_bytes offset @ to_le_bytes len"
| "op_wire (Literal contents) = OP_LITERAL # to_le_bytes (of_nat (length contents) :: u64) @ contents"

lemma write_operation_ok: "op_ok op \<Longrightarrow> write_operation op = Inr (op_wire op)"
  by (cases op) (simp_all add: write_operation_def word_try_from_def)

lemma slice_tag: "slice_exact 1 bs = Inr (tag, rest) \<longleftrightarrow> (\<exists>b. tag = [b] \<and> bs = b # rest)"
  by (auto simp: slice_exact_Inr length_Suc_conv)

definition read_tagged :: "u8 \<Rightarrow> ReconstructionOp reader" where
  "read_tagged tag =
     (if tag = OP_BASIS then
       rbind slice_le (\<lambda>offset. rbind slice_le (\<lambda>len. rbind (rguard (len \<noteq> 0) InvalidData) (\<lambda>_.
       rbind (rlift (ok_or InvalidData (checked_add offset len))) (\<lambda>_. rret (BasisRange offset len)))))
     else if tag = OP_LITERAL then
       rbind slice_le (\<lambda>length_u64. rbind (rguard (length_u64 \<noteq> 0) InvalidData) (\<lambda>_.
       rbind (rlift (usize_try_from InvalidData length_u64)) (\<lambda>len. rbind (slice_exact len) (\<lambda>contents. rret (Literal contents)))))
     else rfail InvalidData)"

lemma read_operation_eq: "read_operation = rbind (slice_exact 1) (\<lambda>tag. read_tagged (hd tag))"
  unfolding read_operation_def read_tagged_def ..

lemma read_operation_Inr: "read_operation bs = Inr (op, rest) \<longleftrightarrow> op_ok op \<and> bs = op_wire op @ rest"
  (is "?L \<longleftrightarrow> ?R")
proof
  assume ?L
  then obtain tag bs1 where t: "bs = tag # bs1" and r: "read_tagged tag bs1 = Inr (op, rest)"
    unfolding read_operation_eq rbind_Inr slice_tag by auto
  show ?R
  proof (cases "tag = OP_BASIS")
    case True
    then obtain offset len where "bs1 = to_le_bytes (offset :: u64) @ to_le_bytes (len :: u64) @ rest" "len \<noteq> 0"
      "checked_add offset len \<noteq> None" "op = BasisRange offset len"
      using r by (auto simp: read_tagged_def rbind_Inr slice_le_iffs rguard_Inr rlift_Inr ok_or_Inr)
    then show ?thesis using t True by (simp add: checked_add_None)
  next
    case False
    then have lit: "tag = OP_LITERAL" using r by (auto simp: read_tagged_def split: if_splits)
    with False r obtain n contents where "bs1 = to_le_bytes (n :: u64) @ contents @ rest" "n \<noteq> 0" "length contents = unat n"
      "op = Literal contents"
      by (auto simp: read_tagged_def rbind_Inr slice_le_iffs rguard_Inr rlift_Inr slice_exact_Inr)
    moreover have "contents \<noteq> []" using calculation by (metis length_0_conv unat_eq_zero)
    ultimately show ?thesis using t lit unat_less_2p [of n] by simp
  qed
next
  assume ?R
  show ?L
  proof (cases op)
    case (BasisRange offset len)
    let ?l = "to_le_bytes len @ rest" and ?ol = "to_le_bytes offset @ to_le_bytes len @ rest"
    have "slice_exact 1 bs = Inr ([OP_BASIS], ?ol)" "slice_le ?ol = Inr (offset, ?l)" "slice_le ?l = Inr (len, rest)"
      "checked_add offset len = Some (offset + len)" "len \<noteq> 0"
      using \<open>?R\<close> BasisRange by (simp_all add: slice_exact_def slice_le_iffs checked_add_def)
    then show ?thesis by (simp add: read_operation_def rbind_def BasisRange)
  next
    case (Literal contents)
    let ?n = "of_nat (length contents) :: u64"
    let ?bs = "to_le_bytes ?n @ contents @ rest"
    have n: "unat ?n = length contents" using \<open>?R\<close> Literal by (simp add: unat_of_nat_small)
    then have "?n \<noteq> 0" using \<open>?R\<close> Literal by (metis length_0_conv op_ok.simps(2) unat_0)
    moreover have "slice_exact 1 bs = Inr ([OP_LITERAL], ?bs)" "slice_le ?bs = Inr (?n, contents @ rest)"
      "slice_exact (length contents) (contents @ rest) = Inr (contents, rest)"
      using \<open>?R\<close> Literal by (simp_all add: slice_exact_def slice_le_iffs)
    ultimately show ?thesis using n by (simp add: read_operation_def rbind_def Literal OP_BASIS_def OP_LITERAL_def)
  qed
qed

interpretation operation_record: canonical_codec write_operation read_operation op_ok
  by unfold_locales (auto simp: read_operation_Inr write_operation_ok)

text \<open>How many bytes the operations take from the basis and from the plan.\<close>

fun op_referenced :: "ReconstructionOp \<Rightarrow> nat" where
  "op_referenced (BasisRange _ len) = unat len"
| "op_referenced (Literal _) = 0"

fun op_literal :: "ReconstructionOp \<Rightarrow> nat" where
  "op_literal (BasisRange _ _) = 0"
| "op_literal (Literal contents) = length contents"

definition referenced_total :: "ReconstructionOp list \<Rightarrow> nat" where "referenced_total ops = sum_list (map op_referenced ops)"
definition literal_total :: "ReconstructionOp list \<Rightarrow> nat" where "literal_total ops = sum_list (map op_literal ops)"

lemma totals_simps [simp]:
  "referenced_total [] = 0" "referenced_total (op # ops) = op_referenced op + referenced_total ops"
  "referenced_total (ops @ ops') = referenced_total ops + referenced_total ops'"
  "literal_total [] = 0" "literal_total (op # ops) = op_literal op + literal_total ops"
  "literal_total (ops @ ops') = literal_total ops + literal_total ops'"
  by (simp_all add: referenced_total_def literal_total_def)

lemma count_operations:
  "\<forall>op \<in> set ops. op_ok op \<Longrightarrow>
   efold count_operation (r, l) ops = Inr (r', l') \<longleftrightarrow>
   unat r' = unat r + referenced_total ops \<and> unat l' = unat l + literal_total ops"
proof (induction ops arbitrary: r l)
  case Nil
  show ?case by (auto simp: word_unat_eq_iff)
next
  case (Cons op ops)
  let ?n = "of_nat (op_referenced op) :: u64" and ?m = "of_nat (op_literal op) :: u64"
  have nm: "unat ?n = op_referenced op" "unat ?m = op_literal op"
    using Cons.prems by (cases op; simp add: unat_of_nat_small)+
  have step: "count_operation (r, l) op = (if unat r + op_referenced op < 2 ^ 64 \<and> unat l + op_literal op < 2 ^ 64
      then Inr (r + ?n, l + ?m) else Inl InvalidData)"
    using nm unat_less_2p [of r] unat_less_2p [of l] by (cases op) (auto simp: count_operation_def checked_add_def)
  show ?case
  proof (cases "unat r + op_referenced op < 2 ^ 64 \<and> unat l + op_literal op < 2 ^ 64")
    case True
    then have "unat (r + ?n) = unat r + op_referenced op" "unat (l + ?m) = unat l + op_literal op"
      using nm by (simp_all add: unat_word_ariths)
    then show ?thesis using Cons.IH [of "r + ?n" "l + ?m"] Cons.prems step True by (simp add: add.assoc)
  next
    case False
    then show ?thesis using step unat_less_2p [of r'] unat_less_2p [of l'] by auto
  qed
qed

definition plan_ok :: "ReconstructionPlan \<Rightarrow> bool" where
  "plan_ok pl \<longleftrightarrow> (\<forall>op \<in> set (operations pl). op_ok op) \<and> length (target_digest pl) = CONTENT_DIGEST_BYTES \<and>
     unat (plan_referenced_bytes pl) = referenced_total (operations pl) \<and>
     unat (plan_literal_bytes pl) = literal_total (operations pl) \<and>
     unat (target_bytes pl) = referenced_total (operations pl) + literal_total (operations pl) \<and>
     length (operations pl) * OPERATION_BYTES \<le> isize_max"

definition plan_wire :: "ReconstructionPlan \<Rightarrow> byte list" where
  "plan_wire pl = PLAN_MAGIC @ to_le_bytes (target_bytes pl) @ target_digest pl @ to_le_bytes (of_nat (length (operations pl)) :: u64) @
     concat (map op_wire (operations pl))"

lemma wcat_operations: "\<forall>op \<in> set ops. op_ok op \<Longrightarrow> wcat (map write_operation ops) = Inr (concat (map op_wire ops))"
  by (induction ops) (simp_all add: write_operation_ok)

lemma operation_wire_bytes_ok:
  "op_ok op \<Longrightarrow> operation_wire_bytes op = (if length (op_wire op) \<le> usize_max then Inr (length (op_wire op)) else Inl OtherError)"
  by (cases op) (auto simp: operation_wire_bytes_def BASIS_RECORD_BYTES_def LITERAL_HEADER_BYTES_def usize_max_def)

lemma plan_wire_size_fold:
  "\<forall>op \<in> set ops. op_ok op \<Longrightarrow>
   (\<exists>k. efold (\<lambda>total op. ebind (operation_wire_bytes op) (\<lambda>n. if total + n \<le> usize_max then Inr (total + n) else Inl OtherError)) m ops = Inr k)
     \<longleftrightarrow> m + length (concat (map op_wire ops)) \<le> usize_max \<or> ops = []"
proof (induction ops arbitrary: m)
  case (Cons op ops)
  let ?k = "m + length (op_wire op)"
  have "ebind (operation_wire_bytes op) (\<lambda>n. if m + n \<le> usize_max then Inr (m + n) else Inl OtherError) =
    (if ?k \<le> usize_max then Inr ?k else Inl OtherError)"
    using Cons.prems by (simp add: operation_wire_bytes_ok)
  then show ?case using Cons.IH [of ?k] Cons.prems by (auto simp: add.assoc)
qed simp

lemma length_plan_wire: "length (target_digest pl) = CONTENT_DIGEST_BYTES \<Longrightarrow>
  length (plan_wire pl) = PLAN_HEADER_BYTES + length (concat (map op_wire (operations pl)))"
  by (simp add: plan_wire_def PLAN_HEADER_BYTES_def PLAN_MAGIC_def CONTENT_DIGEST_BYTES_def)

lemma plan_encode_wire_ok:
  assumes "plan_ok pl"
  shows "plan_encode_wire pl = Inr bs \<longleftrightarrow> bs = plan_wire pl \<and> length bs \<le> usize_max"
proof -
  have ok: "\<forall>op \<in> set (operations pl). op_ok op" "length (operations pl) < 2 ^ 64" "length (target_digest pl) = CONTENT_DIGEST_BYTES"
    using assms by (auto simp: plan_ok_def isize_max_def OPERATION_BYTES_def)
  have h: "length (plan_wire pl) = PLAN_HEADER_BYTES + length (concat (map op_wire (operations pl)))"
    using length_plan_wire [OF ok(3)] .
  have "(\<exists>k. plan_wire_size pl = Inr k) \<longleftrightarrow> length (plan_wire pl) \<le> usize_max"
    using plan_wire_size_fold [OF ok(1), of PLAN_HEADER_BYTES]
    by (auto simp: plan_wire_size_def h PLAN_HEADER_BYTES_def usize_max_def)
  then show ?thesis
    using ok(2) wcat_operations [OF ok(1)]
    by (auto simp: plan_encode_wire_def ebind_Inr word_try_from_Inr plan_wire_def)
qed

lemma plan_decode_wire_Inr:
  "plan_decode_wire bs = Inr pl \<longleftrightarrow> plan_ok pl \<and> candidate_chunks pl = 0 \<and> bs = plan_wire pl"
  (is "?L \<longleftrightarrow> ?R")
proof
  assume ?L
  then have h: "take 4 bs = PLAN_MAGIC" by (auto simp: plan_decode_wire_def split: if_splits)
  from \<open>?L\<close> obtain target bs1 d bs2 n bs3 ops r l described where
    b: "slice_le (drop 4 bs) = Inr (target :: u64, bs1)" "slice_exact CONTENT_DIGEST_BYTES bs1 = Inr (d, bs2)" "slice_le bs2 = Inr (n :: u64, bs3)"
    and n: "unat n * OPERATION_BYTES \<le> isize_max"
    and f: "rfor (unat n) (read_fold read_operation count_operation) ([], 0, 0) bs3 = Inr ((ops, r, l), [])"
    and t: "checked_add r l = Some target"
    and pl: "pl = \<lparr>target_bytes = target, target_digest = d, operations = ops, candidate_chunks = 0, plan_referenced_bytes = r, plan_literal_bytes = l\<rparr>"
    by (auto simp: plan_decode_wire_def ebind_Inr ok_or_Inr split: if_splits)
  from f obtain xs where ops: "length ops = unat n" "\<forall>op \<in> set ops. op_ok op" "wcat (map write_operation ops) = Inr xs" "bs3 = xs"
      "efold count_operation (0, 0) ops = Inr (r, l)"
    by (auto simp: operation_record.rfor_fold_iff)
  have "bs = PLAN_MAGIC @ drop 4 bs" using h append_take_drop_id [of 4 bs] by simp
  then have "bs = PLAN_MAGIC @ to_le_bytes target @ d @ to_le_bytes n @ concat (map op_wire ops)"
    using b ops(3,4) wcat_operations [OF ops(2)] by (simp add: slice_le_iffs slice_exact_Inr)
  moreover have "length d = CONTENT_DIGEST_BYTES" using b(2) by (simp add: slice_exact_Inr)
  moreover have "unat r = referenced_total ops" "unat l = literal_total ops" using ops(5) count_operations [OF ops(2), of 0 0] by auto
  ultimately show ?R using pl ops(1,2) n unat_checked_add [OF t] by (simp add: plan_ok_def plan_wire_def)
next
  assume ?R
  then have ok: "\<forall>op \<in> set (operations pl). op_ok op" "length (target_digest pl) = CONTENT_DIGEST_BYTES"
      "unat (plan_referenced_bytes pl) = referenced_total (operations pl)" "unat (plan_literal_bytes pl) = literal_total (operations pl)"
      "unat (target_bytes pl) = unat (plan_referenced_bytes pl) + unat (plan_literal_bytes pl)"
    and n: "length (operations pl) * OPERATION_BYTES \<le> isize_max"
    and bs: "bs = plan_wire pl" and c: "candidate_chunks pl = 0"
    by (auto simp: plan_ok_def)
  let ?n = "of_nat (length (operations pl)) :: u64" and ?ops = "concat (map op_wire (operations pl))"
  let ?b2 = "to_le_bytes ?n @ ?ops"
  have s: "slice_le (drop 4 bs) = Inr (target_bytes pl, target_digest pl @ ?b2)" "take 4 bs = PLAN_MAGIC"
    "slice_exact CONTENT_DIGEST_BYTES (target_digest pl @ ?b2) = Inr (target_digest pl, ?b2)" "slice_le ?b2 = Inr (?n, ?ops)"
    using ok(2) by (simp_all add: bs plan_wire_def PLAN_MAGIC_def slice_le_iffs slice_exact_Inr)
  have un: "unat ?n = length (operations pl)" using n by (simp add: unat_of_nat_small OPERATION_BYTES_def isize_max_def)
  have "efold count_operation (0, 0) (operations pl) = Inr (plan_referenced_bytes pl, plan_literal_bytes pl)"
    using count_operations [OF ok(1)] ok(3,4) by simp
  then have f: "rfor (length (operations pl)) (read_fold read_operation count_operation) ([], 0, 0) ?ops =
      Inr ((operations pl, plan_referenced_bytes pl, plan_literal_bytes pl), [])"
    using ok(1) wcat_operations [OF ok(1)] by (auto simp: operation_record.rfor_fold_iff)
  have "unat (plan_referenced_bytes pl) + unat (plan_literal_bytes pl) < 2 ^ 64" using ok(5) unat_less_2p [of "target_bytes pl"] by simp
  then have t: "checked_add (plan_referenced_bytes pl) (plan_literal_bytes pl) = Some (target_bytes pl)"
    using ok(5) by (simp add: checked_add_def word_unat_eq_iff unat_word_ariths)
  have "\<not> length bs < PLAN_HEADER_BYTES" using length_plan_wire [OF ok(2)] by (simp add: bs)
  then show ?L unfolding plan_decode_wire_def using s un n f t c by simp
qed

text \<open>
  C39. Plans on the wire are canonical: the decoder accepts exactly the encodings of plans whose operations are not
  empty, do not leave the range of the offsets, and add up to the announced size, and it gives back the plan that
  was encoded; only the sender's chunk counter does not travel.
\<close>

theorem plan_wire_exact:
  "plan_decode_wire bs = Inr pl \<and> length bs \<le> usize_max \<longleftrightarrow>
   plan_ok pl \<and> candidate_chunks pl = 0 \<and> plan_encode_wire pl = Inr bs"
  using plan_decode_wire_Inr [of bs pl] plan_encode_wire_ok [of pl bs] by auto

text \<open>
  C40. A plan whose header announces too many operations makes the decoder panic: the capacity of the vector is
  reserved before a single operation is read, and 52 bytes are enough.
\<close>

theorem plan_header_panics:
  assumes "length d = CONTENT_DIGEST_BYTES" "isize_max < unat n * OPERATION_BYTES"
  shows "plan_decode_wire (PLAN_MAGIC @ to_le_bytes (target :: u64) @ d @ to_le_bytes (n :: u64)) = Inl Panicked"
proof -
  let ?bs = "PLAN_MAGIC @ to_le_bytes target @ d @ to_le_bytes n"
  have "slice_le (drop 4 ?bs) = Inr (target, d @ to_le_bytes n)" "take 4 ?bs = PLAN_MAGIC"
    "slice_exact CONTENT_DIGEST_BYTES (d @ to_le_bytes n) = Inr (d, to_le_bytes n)" "slice_le (to_le_bytes n) = Inr (n, [])"
    "\<not> length ?bs < PLAN_HEADER_BYTES"
    using assms(1) by (simp_all add: PLAN_MAGIC_def slice_le_iffs slice_exact_Inr PLAN_HEADER_BYTES_def CONTENT_DIGEST_BYTES_def)
  then show ?thesis unfolding plan_decode_wire_def using assms(2) by simp
qed

text \<open> The largest count is such a header.\<close>

theorem plan_header_panics_witness:
  "plan_decode_wire (PLAN_MAGIC @ to_le_bytes (0 :: u64) @ replicate 32 0 @ to_le_bytes (- 1 :: u64)) = Inl Panicked"
  by (rule plan_header_panics) (simp_all add: CONTENT_DIGEST_BYTES_def isize_max_def OPERATION_BYTES_def unsigned_minus_1_eq_mask mask_eq_exp_minus_1)

section \<open>Plans that were built\<close>

text \<open>An index is safe when its locations stay in the range of the offsets; every index that is decoded or built is.\<close>

definition index_safe :: "BasisFileIndex \<Rightarrow> bool" where
  "index_safe index \<longleftrightarrow> (\<forall>key off. index_find index key = Some off \<longrightarrow> unat off + unat (key_length key) < 2 ^ 64)"

lemma tiles_safe: "tiles start cs stop \<Longrightarrow> c \<in> set cs \<Longrightarrow> unat (basis_offset c) + unat (key_length (basis_key c)) < 2 ^ 64"
  by (induction cs arbitrary: start) auto

lemma index_ok_safe: "index_ok index \<Longrightarrow> index_safe index"
  using add_locations_lookup [of "index_chunks index" fmempty] tiles_safe
  unfolding index_ok_def index_safe_def index_find_def by fastforce

lemma append_basis_Inr:
  assumes "append_basis ops off len = Inr ops'" "\<forall>op \<in> set ops. op_ok op" "unat off + unat len < 2 ^ 64"
  shows "(\<forall>op \<in> set ops'. op_ok op) \<and> referenced_total ops' = referenced_total ops + unat len \<and> literal_total ops' = literal_total ops \<and>
    length ops' \<le> Suc (length ops) \<and> expand basis ops' = expand basis ops @ take (unat len) (drop (unat off) basis)"
proof -
  have len: "len \<noteq> 0" using assms(1) by (auto simp: append_basis_def)
  show ?thesis
  proof (cases "ops' = ops @ [BasisRange off len]")
    case True
    then show ?thesis using assms(2,3) len by auto
  next
    case False
    obtain front where front: "ops = front @ [last ops]" using assms(1) False by (auto simp: append_basis_def intro: append_butlast_last_id [symmetric] split: if_splits)
    from assms(1) False len obtain po pn merged where last: "last ops = BasisRange po pn" and e: "checked_add po pn = Some off"
      and m: "checked_add pn len = Some merged" and ops': "ops' = butlast ops @ [BasisRange po merged]"
      by (auto simp: append_basis_def ebind_Inr ok_or_Inr split: if_splits ReconstructionOp.splits)
    have w: "unat off = unat po + unat pn" "unat merged = unat pn + unat len"
      using unat_checked_add [OF e] unat_checked_add [OF m] by simp_all
    have "butlast ops = front" using front by (metis butlast_snoc)
    then have o: "ops = front @ [BasisRange po pn]" "ops' = front @ [BasisRange po merged]" using front last ops' by simp_all
    have "0 < unat len" using len by (simp add: unat_gt_0)
    then have "merged \<noteq> 0" using w(2) by auto
    moreover have "take (unat merged) (drop (unat po) basis) = take (unat pn) (drop (unat po) basis) @ take (unat len) (drop (unat off) basis)"
      unfolding w take_add by (simp add: add.commute)
    ultimately show ?thesis using assms(2,3) o w by auto
  qed
qed

lemma append_literal_Inr:
  assumes "append_literal ops c = Inr ops'" "\<forall>op \<in> set ops. op_ok op"
  shows "(\<forall>op \<in> set ops'. op_ok op) \<and> referenced_total ops' = referenced_total ops \<and> literal_total ops' = literal_total ops + length c \<and>
    length ops' \<le> Suc (length ops) \<and> expand basis ops' = expand basis ops @ c"
proof -
  have c: "c \<noteq> []" "length c \<le> isize_max" using assms(1) by (auto simp: append_literal_def split: if_splits ReconstructionOp.splits)
  show ?thesis
  proof (cases "ops' = ops @ [Literal c]")
    case True
    then show ?thesis using assms(2) c by (auto simp: isize_max_def)
  next
    case False
    from assms(1) False obtain previous where p: "ops \<noteq> []" "last ops = Literal previous"
      "ops' = butlast ops @ [Literal (previous @ c)]" "length previous + length c \<le> isize_max"
      by (auto simp: append_literal_def not_less split: if_splits ReconstructionOp.splits)
    have "ops = butlast ops @ [Literal previous]" using append_butlast_last_id [OF p(1)] p(2) by simp
    then obtain front where "ops = front @ [Literal previous]" "ops' = front @ [Literal (previous @ c)]" using p(3) by metis
    with p(4) have "ops = front @ [Literal previous]" "ops' = front @ [Literal (previous @ c)]" "length previous + length c < 2 ^ 64"
      by (simp_all add: isize_max_def)
    then show ?thesis using assms(2) c by (auto simp: isize_max_def)
  qed
qed

definition plan_inv :: "u64 \<Rightarrow> byte list \<Rightarrow> nat \<Rightarrow> PlanState \<Rightarrow> bool" where
  "plan_inv limit seen n st \<longleftrightarrow>
     plan_hashed st = seen \<and> (\<forall>op \<in> set (plan_operations st). op_ok op) \<and>
     unat (referenced_so_far st) = referenced_total (plan_operations st) \<and>
     unat (literal_so_far st) = literal_total (plan_operations st) \<and>
     referenced_total (plan_operations st) + literal_total (plan_operations st) = length seen \<and>
     literal_so_far st \<le> limit \<and> length (plan_operations st) \<le> n"

definition faithful :: "libs \<Rightarrow> BasisFileIndex \<Rightarrow> byte list \<Rightarrow> byte list \<Rightarrow> bool" where
  "faithful lib index basis c \<longleftrightarrow>
     (\<forall>off. index_find index (key_of lib c) = Some off \<longrightarrow> take (length c) (drop (unat off) basis) = c)"

lemma plan_visitor_inv:
  assumes "plan_visitor lib index limit st off c = Inr st'" "plan_inv limit seen n st" "length c < 2 ^ 32" "index_safe index"
  shows "plan_inv limit (seen @ c) (Suc n) st'"
    "faithful lib index basis c \<Longrightarrow> expand basis (plan_operations st) = seen \<Longrightarrow> expand basis (plan_operations st') = seen @ c"
proof -
  have key: "chunk_key lib c = Inr (key_of lib c)" using assms(3) by (rule chunk_key_ok)
  have len: "word_try_from OtherError (length c) = Inr (of_nat (length c) :: u64)" "unat (of_nat (length c) :: u64) = length c"
    "unat (key_length (key_of lib c)) = length c"
    using assms(3) by (simp_all add: word_try_from_def unat_of_nat_small key_of_def)
  have "plan_inv limit (seen @ c) (Suc n) st' \<and>
    (faithful lib index basis c \<and> expand basis (plan_operations st) = seen \<longrightarrow> expand basis (plan_operations st') = seen @ c)"
  proof (cases "index_find index (key_of lib c)")
    case (Some loc)
    with assms(1) key len(1) obtain ops referenced where a: "append_basis (plan_operations st) loc (of_nat (length c)) = Inr ops"
      and r: "checked_add (referenced_so_far st) (of_nat (length c)) = Some referenced"
      and st': "st' = st\<lparr>plan_hashed := plan_hashed st @ c, plan_operations := ops, referenced_so_far := referenced\<rparr>"
      by (auto simp: plan_visitor_def ebind_Inr ok_or_Inr)
    have "unat loc + unat (of_nat (length c) :: u64) < 2 ^ 64"
      using assms(4) [unfolded index_safe_def, rule_format, OF Some] len(2,3) by simp
    note o = append_basis_Inr [OF a _ this, of basis]
    have "unat referenced = unat (referenced_so_far st) + length c" using unat_checked_add [OF r] len(2) by simp
    then show ?thesis using o assms(2) Some len(2) by (auto simp: plan_inv_def st' faithful_def)
  next
    case None
    with assms(1) key len(1) obtain ops literal where l: "checked_add (literal_so_far st) (of_nat (length c)) = Some literal"
      and le: "\<not> literal > limit" and a: "append_literal (plan_operations st) c = Inr ops"
      and st': "st' = st\<lparr>plan_hashed := plan_hashed st @ c, plan_operations := ops, literal_so_far := literal\<rparr>"
      by (auto simp: plan_visitor_def ebind_Inr ok_or_Inr split: if_splits)
    note o = append_literal_Inr [OF a, of basis]
    have "unat literal = unat (literal_so_far st) + length c" using unat_checked_add [OF l] len(2) by simp
    then show ?thesis using o assms(2) le by (auto simp: plan_inv_def st')
  qed
  then show "plan_inv limit (seen @ c) (Suc n) st'"
    "faithful lib index basis c \<Longrightarrow> expand basis (plan_operations st) = seen \<Longrightarrow> expand basis (plan_operations st') = seen @ c"
    by blast+
qed

lemma plan_visits_inv:
  assumes "efold (\<lambda>v (o', c). plan_visitor lib index limit v o' c) st (with_offsets start cs) = Inr st'"
    "plan_inv limit seen n st" "\<forall>c \<in> set cs. length c < 2 ^ 32" "index_safe index"
  shows "plan_inv limit (seen @ concat cs) (n + length cs) st'"
    "\<forall>c \<in> set cs. faithful lib index basis c \<Longrightarrow> expand basis (plan_operations st) = seen \<Longrightarrow>
      expand basis (plan_operations st') = seen @ concat cs"
proof -
  have "plan_inv limit (seen @ concat cs) (n + length cs) st' \<and>
    ((\<forall>c \<in> set cs. faithful lib index basis c) \<and> expand basis (plan_operations st) = seen \<longrightarrow>
      expand basis (plan_operations st') = seen @ concat cs)"
    using assms(1-3)
  proof (induction cs arbitrary: st seen n start)
    case (Cons c cs)
    then obtain st1 where st1: "plan_visitor lib index limit st start c = Inr st1"
      and r: "efold (\<lambda>v (o', c). plan_visitor lib index limit v o' c) st1 (with_offsets (start + of_nat (length c)) cs) = Inr st'"
      by (auto simp: ebind_Inr)
    have "length c < 2 ^ 32" using Cons.prems(3) by simp
    note v = plan_visitor_inv [OF st1 Cons.prems(2) this assms(4)]
    from Cons.IH [OF r v(1)] Cons.prems(3) v(2) [of basis] show ?case by auto
  qed simp
  then show "plan_inv limit (seen @ concat cs) (n + length cs) st'"
    "\<forall>c \<in> set cs. faithful lib index basis c \<Longrightarrow> expand basis (plan_operations st) = seen \<Longrightarrow>
      expand basis (plan_operations st') = seen @ concat cs" by blast+
qed

text \<open>The plan of a run that succeeds describes the file that was opened.\<close>

definition initial_plan :: PlanState where
  "initial_plan = \<lparr>plan_hashed = [], plan_operations = [], referenced_so_far = 0, literal_so_far = 0\<rparr>"

lemma build_bounded_Inr:
  assumes "build_bounded lib p index limit s = (Inr pl, s')" "index_safe index" "libs_ok lib"
  obtains c config where "file_at s p c" "unchanged_fs s s'" "from_average_kib (index_average_kib index) = Inr config"
    "length c < 2 ^ 64" "target_bytes pl = of_nat (length c)" "target_digest pl = blake3 lib c" "plan_ok pl"
    "plan_literal_bytes pl \<le> limit" "length (operations pl) \<le> length (chunks_of config c)"
    "\<And>basis. \<forall>x \<in> set (chunks_of config c). faithful lib index basis x \<Longrightarrow> expand basis (operations pl) = c"
proof -
  from assms(1) obtain n s1 k s2 config stats st s3 where o: "open_source p s = (Inr n, s1)"
    and k: "syscall (fret (node_len n)) s1 = (Inr k, s2)" and c: "from_average_kib (index_average_kib index) = Inr config"
    and r: "chunk_reader config (plan_visitor lib index limit) (node_contents n) initial_plan s2 = (Inr (stats, st), s3)"
    and e: "s' = s3" "stat_bytes stats = k"
    and pl: "pl = \<lparr>target_bytes = k, target_digest = blake3 lib (plan_hashed st), operations = plan_operations st,
             candidate_chunks = stat_chunks stats, plan_referenced_bytes = referenced_so_far st, plan_literal_bytes = literal_so_far st\<rparr>"
    by (auto simp: build_bounded_def initial_plan_def fbind_Inr flift_def fguard_def fret_def ffail_def split: if_splits)
  let ?c = "node_contents n" and ?cs = "chunks_of config (node_contents n)"
  note d = delivers_Inr [OF delivers_chunk_reader r]
  note f = open_source_file [OF o]
  have kk: "k = node_len n" "unchanged_fs s1 s2" using delivers_Inr [OF delivers_call k] by auto
  note ok = from_average_kib_ok [OF c]
  have small: "\<forall>x \<in> set ?cs. length x < 2 ^ 32" using small_chunks [OF ok(1)] by blast
  have len: "length ?c < 2 ^ 64" using stat_bytes_eq(2) [OF d [THEN conjunct1]] .
  note v = emit_chunks_Inr(1) [OF d [THEN conjunct1]]
  have init: "plan_inv limit [] 0 initial_plan" "expand basis (plan_operations initial_plan) = []" for basis
    by (simp_all add: plan_inv_def initial_plan_def)
  have inv: "plan_inv limit ?c (length ?cs) st" using plan_visits_inv(1) [OF v init(1) small assms(2)] by simp
  have count: "length (plan_operations st) * OPERATION_BYTES \<le> isize_max"
  proof -
    have "length (plan_operations st) \<le> length ?cs" using inv by (simp add: plan_inv_def)
    moreover have "length ?cs \<le> 2 ^ 53" using chunk_count [OF ok(1) _ len] ok(3,4) by simp
    ultimately show ?thesis by (simp add: OPERATION_BYTES_def isize_max_def)
  qed
  have t: "target_bytes pl = of_nat (length ?c)" using kk f pl by simp
  then have "unat (target_bytes pl) = length ?c" using len by (simp add: unat_of_nat_small)
  then have "plan_ok pl"
    using inv count assms(3) pl by (simp add: plan_ok_def plan_inv_def libs_ok_def)
  moreover have "unchanged_fs s s'" using f kk d e quiet.frame_trans by blast
  moreover have "expand basis (operations pl) = ?c" if "\<forall>x \<in> set ?cs. faithful lib index basis x" for basis
    using plan_visits_inv(2) [OF v init(1) small assms(2) that init(2)] pl by simp
  ultimately show thesis using that [of ?c config] f c len t inv pl by (simp add: plan_inv_def)
qed

section \<open>A reconstruction with nothing in its way\<close>

lemma write_file_calm:
  assumes "faults s = []" "holds s p c"
  shows "\<exists>s'. write_file_at p t b s = (Inr (), s') \<and> faults s' = []"
  using assms by (auto simp: write_file_at_def next_fault_def update_file_def holds_def)

lemma copy_basis_range_calm:
  assumes "faults s = []" "holds s output (h @ drop (length h) z)" "unat w = length h" "offset + remaining \<le> length basis"
    "length h + remaining < 2 ^ 64"
  shows "\<exists>w' h' s'. copy_basis_range basis output offset remaining (w, h) s = (Inr (w', h'), s') \<and> faults s' = []"
  using assms
proof (induction remaining arbitrary: offset w h s rule: less_induct)
  case (less remaining)
  note u = copy_basis_range.simps [of basis "output" offset remaining w h]
  show ?case
  proof (cases "remaining = 0")
    case True
    then show ?thesis using less.prems(1) unfolding u by (simp add: fret_def)
  next
    case False
    define b where "b = take (min remaining RECONSTRUCTION_BUFFER_BYTES) (drop offset basis)"
    have n: "length b = min remaining RECONSTRUCTION_BUFFER_BYTES" using less.prems(4) by (simp add: b_def)
    then have pos: "0 < length b" "length b \<le> remaining" "b \<noteq> []" using False by (auto simp: RECONSTRUCTION_BUFFER_BYTES_def)
    from write_file_calm [OF less.prems(1,2), of "unat w" b] obtain s1 where
      s1: "write_file_at output (unat w) b s = (Inr (), s1)" "faults s1 = []" by blast
    have small: "length b < 2 ^ 64" "unat (of_nat (length b) :: u64) = length b" using pos(2) less.prems(5) by (simp_all add: unat_of_nat_small)
    then have w1: "checked_add w (of_nat (length b)) = Some (w + of_nat (length b))" "unat (w + of_nat (length b)) = length (h @ b)"
      using less.prems(3,5) pos(2) by (simp_all add: checked_add_def unat_word_ariths)
    have h1: "holds s1 output ((h @ b) @ drop (length (h @ b)) z)"
      using write_file_at_Inr [OF s1(1) less.prems(2)] less.prems(3) by (simp only: write_appends)
    have "remaining - length b < remaining" using False pos(1) by simp
    from less.IH [OF this s1(2) h1 w1(2), of "offset + length b"] less.prems(4,5) pos(2)
    obtain w' h' s' where "copy_basis_range basis output (offset + length b) (remaining - length b) (w + of_nat (length b), h @ b) s1 =
        (Inr (w', h'), s')" "faults s' = []" by auto
    then show ?thesis
      unfolding u using False pos(3) s1 w1(1) less.prems(1)
      by (simp add: b_def [symmetric] Let_def fbind_def flift_def)
  qed
qed

definition ranges_ok :: "byte list \<Rightarrow> ReconstructionOp list \<Rightarrow> bool" where
  "ranges_ok basis ops \<longleftrightarrow> (\<forall>offset len. BasisRange offset len \<in> set ops \<longrightarrow> unat offset + unat len \<le> length basis)"

lemma length_expand_op: "length (expand_op basis op) \<le> op_referenced op + op_literal op"
  by (cases op) auto

lemma length_expand: "length (expand basis ops) \<le> referenced_total ops + literal_total ops"
proof (induction ops)
  case (Cons op ops)
  then show ?case using length_expand_op [of basis op] by simp
qed simp

lemma expand_ranges_ok:
  assumes "length (expand basis ops) = referenced_total ops + literal_total ops" "\<forall>op \<in> set ops. op_ok op"
  shows "ranges_ok basis ops"
  using assms
proof (induction ops)
  case (Cons op ops)
  have "length (expand_op basis op) = op_referenced op + op_literal op" "length (expand basis ops) = referenced_total ops + literal_total ops"
    using Cons.prems(1) length_expand [of basis ops] length_expand_op [of basis op] by simp_all
  then have "ranges_ok basis ops" "length (expand_op basis op) = op_referenced op + op_literal op" using Cons by auto
  moreover have "unat offset + unat len \<le> length basis" if "op = BasisRange offset len" for offset len
  proof -
    have "0 < unat len" using Cons.prems(2) that by (simp add: unat_gt_0)
    then show ?thesis using calculation(2) that by (simp add: min_def split: if_splits)
  qed
  ultimately show ?case by (auto simp: ranges_ok_def)
qed (simp add: ranges_ok_def)

lemma reconstruct_operation_calm:
  assumes "faults s = []" "holds s output (h @ drop (length h) z)" "unat w = length h" "op_ok op" "ranges_ok basis [op]"
    "length h + op_referenced op + op_literal op < 2 ^ 64" "unat n = length basis"
  shows "\<exists>w' h' s'. reconstruct_operation basis output n (w, h) op s = (Inr (w', h'), s') \<and> faults s' = []"
proof (cases op)
  case (BasisRange offset len)
  have r: "unat offset + unat len \<le> length basis" "unat offset + unat len < 2 ^ 64" using assms(4,5) BasisRange by (auto simp: ranges_ok_def)
  then have "checked_add offset len = Some (offset + len)" "offset + len \<le> n"
    using assms(7) by (simp_all add: checked_add_def word_le_nat_alt unat_word_ariths)
  then show ?thesis
    using copy_basis_range_calm [OF assms(1,2,3) r(1)] assms(1,6) BasisRange
    by (simp add: reconstruct_operation_def fbind_def flift_def fguard_def fret_def delivers_calm [OF delivers_call assms(1)])
next
  case (Literal contents)
  then have "word_try_from OtherError (length contents) = Inr (of_nat (length contents) :: u64)"
    "checked_add w (of_nat (length contents)) \<noteq> None"
    using assms(3,4,6) by (simp_all add: word_try_from_def checked_add_None unat_of_nat_small)
  then show ?thesis using write_file_calm [OF assms(1,2), of "unat w" contents] Literal
    by (auto simp: reconstruct_operation_def fbind_def flift_def fret_def)
qed

lemma reconstruct_operations_calm:
  assumes "faults s = []" "holds s output (h @ drop (length h) z)" "unat w = length h" "\<forall>op \<in> set ops. op_ok op" "ranges_ok basis ops"
    "length h + referenced_total ops + literal_total ops < 2 ^ 64" "unat n = length basis"
  shows "\<exists>w' h' s'. reconstruct_operations basis output n ops (w, h) s = (Inr (w', h'), s') \<and> faults s' = []"
  using assms(1-6)
proof (induction ops arbitrary: w h s)
  case (Cons op ops)
  have "op_ok op" "ranges_ok basis [op]" "ranges_ok basis ops" "length h + op_referenced op + op_literal op < 2 ^ 64"
    using Cons.prems(4,5,6) by (auto simp: ranges_ok_def)
  then obtain w1 h1 s1 where o: "reconstruct_operation basis output n (w, h) op s = (Inr (w1, h1), s1)" and f: "faults s1 = []"
    using reconstruct_operation_calm [OF Cons.prems(1-3)] assms(7) by blast
  have h1: "h1 = h @ expand_op basis op" "unat w1 = length h1" "holds s1 output (h1 @ drop (length h1) z)"
    using reconstruct_operation_Inr [OF o Cons.prems(3,2)] by blast+
  have "length h1 + referenced_total ops + literal_total ops < 2 ^ 64"
    using Cons.prems(6) length_expand_op [of basis op] h1(1) by simp
  from Cons.IH [OF f h1(3,2) _ \<open>ranges_ok basis ops\<close> this] Cons.prems(4)
  show ?case using o by (simp add: fbind_def)
qed (simp add: fret_def)

lemma reconstruct_into_calm:
  assumes "faults s = []" "holds s output []" "plan_ok pl" "unat n = length basis" "length (expand basis (operations pl)) = unat (target_bytes pl)"
    "blake3 lib (expand basis (operations pl)) = target_digest pl"
  shows "\<exists>s'. reconstruct_into lib basis output n pl s = (Inr (target_digest pl), s') \<and> faults s' = []"
proof -
  let ?z = "replicate (unat (target_bytes pl)) (0 :: byte)"
  have ok: "\<forall>op \<in> set (operations pl). op_ok op" "unat (target_bytes pl) = referenced_total (operations pl) + literal_total (operations pl)"
    using assms(3) by (simp_all add: plan_ok_def)
  have "\<exists>s1. set_len output (unat (target_bytes pl)) s = (Inr (), s1) \<and> faults s1 = []"
    using assms(1,2) by (auto simp: set_len_def syscall_def next_fault_def update_file_def holds_def)
  then obtain s1 where s1: "set_len output (unat (target_bytes pl)) s = (Inr (), s1)" "faults s1 = []" by blast
  have z: "holds s1 output ([] @ drop (length ([] :: byte list)) ?z)" using set_len_Inr [OF s1(1) assms(2)] by simp
  have "ranges_ok basis (operations pl)" using expand_ranges_ok [OF _ ok(1)] assms(5) ok(2) by simp
  moreover have "unat (0 :: u64) = length ([] :: byte list)" by simp
  moreover have "length ([] :: byte list) + referenced_total (operations pl) + literal_total (operations pl) < 2 ^ 64"
    using ok(2) unat_less_2p [of "target_bytes pl"] by simp
  ultimately obtain w h s2 where s2: "reconstruct_operations basis output n (operations pl) (0, []) s1 = (Inr (w, h), s2)" "faults s2 = []"
    using reconstruct_operations_calm [OF s1(2) z _ ok(1)] assms(4) by blast
  then have h: "h = expand basis (operations pl)" "unat w = length h" using reconstruct_operations_Inr [OF s2(1) _ z] by simp_all
  then have "w = target_bytes pl" using assms(5) by (simp add: word_unat_eq_iff)
  then show ?thesis
    using s1 s2 h(1) assms(6)
    by (simp add: reconstruct_into_def fbind_def fguard_def fret_def delivers_calm [OF delivers_call s1(2)]
        delivers_calm [OF delivers_call s2(2)])
qed

text \<open>Where a file can be rebuilt: its directory is there, the name of the part file is free.\<close>

definition rebuild_ready :: "fs \<Rightarrow> nat \<times> nat option \<Rightarrow> path \<Rightarrow> bool" where
  "rebuild_ready s stamp output_path \<longleftrightarrow>
     (let out = path_components output_path in
      faults s = [] \<and>
      (\<forall>q \<in> set (nonempty_prefixes (butlast out)). \<exists>n a. fmlookup (nodes s) q = Some n \<and> resolve n = Some (DirNode a)) \<and>
      parent_exists s out \<and> (\<nexists>a. fmlookup (nodes s) out = Some (DirNode a)) \<and>
      (\<exists>t. cdc_temporary_path stamp output_path = Inr t \<and> fmlookup (nodes s) t = None \<and> parent_exists s t))"

lemma dirs_calm:
  assumes "faults s = []" "\<forall>q \<in> set qs. \<exists>n a. fmlookup (nodes s) q = Some n \<and> resolve n = Some (DirNode a)"
  shows "fmapM ensure_dir qs s = (Inr (), s)"
  using assms
proof (induction qs)
  case (Cons q qs)
  then have "ensure_dir q s = (Inr (), s)"
    by (auto simp: ensure_dir_def syscall_def next_fault_def)
  then show ?case using Cons by (simp add: fbind_def)
qed (simp add: fret_def)

lemma reconstruct_calm:
  assumes "rebuild_ready s stamp output_path" "file_at s (path_components basis_path) basis" "unat n = length basis" "plan_ok pl"
    "length (expand basis (operations pl)) = unat (target_bytes pl)" "blake3 lib (expand basis (operations pl)) = target_digest pl"
  shows "\<exists>s'. reconstruct lib stamp basis_path output_path n pl s = (Inr (target_digest pl), s') \<and>
    holds s' (path_components output_path) (expand basis (operations pl))"
proof -
  let ?o = "path_components output_path" and ?c = "expand basis (operations pl)"
  obtain t where calm: "faults s = []" and t: "cdc_temporary_path stamp output_path = Inr t" "fmlookup (nodes s) t = None" "parent_exists s t"
    and out: "parent_exists s ?o" "\<nexists>a. fmlookup (nodes s) ?o = Some (DirNode a)"
    and dirs: "\<forall>q \<in> set (nonempty_prefixes (butlast ?o)). \<exists>n a. fmlookup (nodes s) q = Some n \<and> resolve n = Some (DirNode a)"
    using assms(1) by (auto simp: rebuild_ready_def Let_def)
  have ne: "t \<noteq> ?o" using cdc_temporary_not_output [OF t(1)] .
  have d: "(if butlast ?o = [] then fret () else create_dir_all (butlast ?o)) s = (Inr (), s)"
    using dirs_calm [OF calm dirs] by (simp add: create_dir_all_def fret_def)
  obtain b where b: "open_source (path_components basis_path) s = (Inr b, s)" "node_contents b = basis" "node_len b = of_nat (length basis)"
    using open_source_calm [OF assms(2) calm] by blast
  have n: "node_len b = n" using b(3) by (simp flip: assms(3))
  define s1 where "s1 = s\<lparr>nodes := fmupd t (FileNode [] (clock s) FILE_ATTRIBUTE_ARCHIVE) (nodes s)\<rparr>"
  have s1: "create_new t s = (Inr (), s1)" "faults s1 = []" "holds s1 t []"
    using calm t(2,3) by (simp_all add: create_new_def syscall_def next_fault_def s1_def holds_def)
  from reconstruct_into_calm [OF s1(2,3) assms(4,3,5,6)] obtain s2 where
    s2: "reconstruct_into lib basis t n pl s1 = (Inr (target_digest pl), s2)" "faults s2 = []" by blast
  have o2: "only {t} s1 s2" using withinD [OF touch_reconstruct_into s2(1)] .
  have h2: "holds s2 t ?c" using reconstruct_into_Inr(1) [OF s2(1) s1(3)] .
  have n2: "fmlookup (nodes s2) q = fmlookup (nodes s) q" if "q \<noteq> t" for q
    using onlyD [OF o2, of q] that by (simp add: s1_def)
  have "parent_exists s2 ?o"
  proof (cases "butlast ?o = t")
    case True
    then show ?thesis using out(1) t(2) by (auto simp: parent_exists_def split: option.splits)
  next
    case False
    then show ?thesis using out(1) n2 by (simp add: parent_exists_def)
  qed
  moreover have "\<nexists>a. fmlookup (nodes s2) ?o = Some (DirNode a)" using out(2) n2 ne by simp
  ultimately obtain s3 where s3: "replace t ?o s2 = (Inr (), s3)" "faults s3 = []" "holds s3 ?o ?c"
    using replace_ok [of s2 t ?c ?o] h2 s2(2) by blast
  have len: "of_nat (length ?c) = target_bytes pl" using assms(5) by simp
  then have m: "\<exists>m. fs_metadata ?o s3 = (Inr m, s3) \<and> node_len m = target_bytes pl"
    using s3(2,3) by (auto simp: fs_metadata_def syscall_def next_fault_def holds_def)
  have k: "syscall (fret n) s = (Inr n, s)" using delivers_calm [OF delivers_call calm] .
  have "reconstruct lib stamp basis_path output_path n pl s = (Inr (target_digest pl), s3)"
    using d t(1) b n k s1(1) s2(1) s3(1) m
    by (auto simp: reconstruct_def Let_def fbind_def flift_def fguard_def fret_def on_error_def)
  then show ?thesis using s3(3) by blast
qed

definition sample_plan :: ReconstructionPlan where
  "sample_plan = \<lparr>target_bytes = 2, target_digest = blake3 identity_libs [2, 7], operations = [BasisRange 1 1, Literal [7]],
     candidate_chunks = 0, plan_referenced_bytes = 1, plan_literal_bytes = 1\<rparr>"

lemma sample_plan_ok: "plan_ok sample_plan" "expand [1, 2] (operations sample_plan) = [2, 7]"
  by (simp_all add: plan_ok_def sample_plan_def identity_libs_def CONTENT_DIGEST_BYTES_def OPERATION_BYTES_def isize_max_def)

lemma cdc_path: "path_components (name_a @ cdc_suffix 3 5) = [Normal (name_a @ cdc_suffix 3 5)]"
  by (simp add: path_components_def name_a_def cdc_suffix_def cdc_part_def decimal.simps
      is_separator_def slash_def backslash_def full_stop_def name_component_def Let_def)

lemma sample_rebuild_ready: "rebuild_ready (sample_fs [0x62]) (3, Some 5) name_a"
proof -
  have ne: "[0x62] \<noteq> name_a" by (simp add: name_a_def)
  have "name_a @ cdc_suffix 3 5 \<noteq> name_a" "name_a @ cdc_suffix 3 5 \<noteq> [0x62]" by (simp_all add: name_a_def cdc_suffix_def cdc_part_def)
  then show ?thesis
    by (simp add: rebuild_ready_def Let_def cdc_temporary_path_Inr cdc_path sample_paths sample_nodes [OF ne] parent_exists_def
        nonempty_prefixes_def)
qed

text \<open> A file of two bytes is rebuilt in place from its second byte and a literal.\<close>

theorem reconstruct_atomic_witness:
  "\<exists>s'. reconstruct identity_libs (3, Some 5) name_a name_a 2 sample_plan (sample_fs [0x62]) = (Inr (target_digest sample_plan), s') \<and>
     holds s' [Normal name_a] [2, 7] \<and> kept {[Normal name_a]} (sample_fs [0x62]) s'"
proof -
  have ne: "[0x62] \<noteq> name_a" by (simp add: name_a_def)
  have "file_at (sample_fs [0x62]) (path_components name_a) [1, 2]" by (simp add: file_at_def sample_paths sample_nodes [OF ne])
  moreover have "unat (2 :: u64) = length [1 :: byte, 2]" by simp
  moreover have "length (expand [1, 2] (operations sample_plan)) = unat (target_bytes sample_plan)"
    "blake3 identity_libs (expand [1, 2] (operations sample_plan)) = target_digest sample_plan"
    by (simp_all add: sample_plan_ok) (simp_all add: sample_plan_def)
  ultimately obtain s' where r: "reconstruct identity_libs (3, Some 5) name_a name_a 2 sample_plan (sample_fs [0x62]) =
      (Inr (target_digest sample_plan), s')" and h: "holds s' (path_components name_a) (expand [1, 2] (operations sample_plan))"
    using reconstruct_calm [OF sample_rebuild_ready _ _ sample_plan_ok(1)] by blast
  have "kept {path_components name_a} (sample_fs [0x62]) s'" using reconstruct_atomic [OF r] by blast
  then show ?thesis using r h by (simp add: sample_paths sample_plan_ok(2))
qed

end
