(* ===== verification/Cdc_Lanes.thy ===== *)
theory Cdc_Lanes
  imports Reconstruction
begin

text \<open>
  Content-defined plans on the lanes, from \<^verbatim>\<open>src/cdc_lane.rs\<close> and \<^verbatim>\<open>src/session_cdc_lane.rs\<close>: the negotiation about a
  file the receiver has an older version of, the plans against files of the same session, and the cache of basis
  indexes the sending lanes share.  The theorems say that the two sides agree, that the receiver ends with the sender's
  file, that a plan from anyone is safe to apply, that a file which was sent before is planned without literals, and
  that the cache is consistent under every interleaving of the lanes.
\<close>

section \<open>Negotiation about one file\<close>

definition MESSAGE_CDC_UNAVAILABLE :: u8 where "MESSAGE_CDC_UNAVAILABLE = 0x38"
definition MESSAGE_CDC_INDEX :: u8 where "MESSAGE_CDC_INDEX = 0x39"
definition MESSAGE_CDC_FALLBACK :: u8 where "MESSAGE_CDC_FALLBACK = 0x3A"
definition MESSAGE_CDC_PLAN :: u8 where "MESSAGE_CDC_PLAN = 0x3B"
definition MINIMUM_FILE_BYTES :: u64 where "MINIMUM_FILE_BYTES = 1024 * 1024"
definition MAXIMUM_LITERAL_BYTES :: u64 where "MAXIMUM_LITERAL_BYTES = 16 * 1024 * 1024"
definition MAXIMUM_INDEX_WIRE_BYTES :: usize where "MAXIMUM_INDEX_WIRE_BYTES = 4 * 1024 * 1024"
definition MAXIMUM_PLAN_WIRE_BYTES :: usize where "MAXIMUM_PLAN_WIRE_BYTES = 20 * 1024 * 1024"

record CdcLaneDecision =
  lane_completed :: bool
  lane_stats :: CdcLaneStats

definition default_lane_stats :: CdcLaneStats where
  "default_lane_stats = \<lparr>offered_files = 0, completed_files = 0, fallback_files = 0, cdc_logical_bytes = 0, reused_bytes = 0,
     literal_bytes = 0, index_wire_bytes = 0, plan_wire_bytes = 0\<rparr>"

definition merge_stats :: "CdcLaneStats \<Rightarrow> CdcLaneStats \<Rightarrow> CdcLaneStats io_result" where
  "merge_stats self other =
     ebind (ok_or OtherError (checked_add (offered_files self) (offered_files other))) (\<lambda>offered.
     ebind (ok_or OtherError (checked_add (completed_files self) (completed_files other))) (\<lambda>completed.
     ebind (ok_or OtherError (checked_add (fallback_files self) (fallback_files other))) (\<lambda>fallback.
     ebind (ok_or OtherError (checked_add (cdc_logical_bytes self) (cdc_logical_bytes other))) (\<lambda>logical.
     ebind (ok_or OtherError (checked_add (reused_bytes self) (reused_bytes other))) (\<lambda>reused.
     ebind (ok_or OtherError (checked_add (literal_bytes self) (literal_bytes other))) (\<lambda>literal.
     ebind (ok_or OtherError (checked_add (index_wire_bytes self) (index_wire_bytes other))) (\<lambda>index_wire.
     ebind (ok_or OtherError (checked_add (plan_wire_bytes self) (plan_wire_bytes other))) (\<lambda>plan_wire.
       Inr \<lparr>offered_files = offered, completed_files = completed, fallback_files = fallback, cdc_logical_bytes = logical,
            reused_bytes = reused, literal_bytes = literal, index_wire_bytes = index_wire, plan_wire_bytes = plan_wire\<rparr>))))))))"

definition unavailable_decision :: CdcLaneDecision where
  "unavailable_decision = \<lparr>lane_completed = False, lane_stats = default_lane_stats\<rparr>"

definition offered_stats :: "u64 \<Rightarrow> CdcLaneStats" where
  "offered_stats index_bytes = default_lane_stats\<lparr>offered_files := 1, index_wire_bytes := index_bytes\<rparr>"

definition planned_decision :: "u64 \<Rightarrow> u64 \<Rightarrow> ReconstructionPlan \<Rightarrow> u64 \<Rightarrow> CdcLaneDecision" where
  "planned_decision index_bytes logical pl plan_bytes =
     \<lparr>lane_completed = True,
      lane_stats = (offered_stats index_bytes)\<lparr>completed_files := 1, cdc_logical_bytes := logical,
        reused_bytes := plan_referenced_bytes pl, literal_bytes := plan_literal_bytes pl, plan_wire_bytes := plan_bytes\<rparr>\<rparr>"

definition fallback_decision :: "u64 \<Rightarrow> CdcLaneDecision" where
  "fallback_decision index_bytes = \<lparr>lane_completed = False, lane_stats = (offered_stats index_bytes)\<lparr>fallback_files := 1\<rparr>\<rparr>"

definition send_unavailable :: "usize \<Rightarrow> byte list io_result" where
  "send_unavailable i = wcat [write_u8 MESSAGE_CDC_UNAVAILABLE, write_file_id i]"

definition send_fallback :: "usize \<Rightarrow> byte list io_result" where
  "send_fallback i = wcat [write_u8 MESSAGE_CDC_FALLBACK, write_file_id i]"

definition validate_file_id :: "usize \<Rightarrow> usize \<Rightarrow> unit io_result" where
  "validate_file_id announced expected = (if announced = expected then Inr () else Inl InvalidData)"

definition read_cdc_payload :: "usize \<Rightarrow> byte list reader" where
  "read_cdc_payload maximum =
     rbind read_u64 (\<lambda>w.
     rbind (rlift (usize_try_from InvalidData w)) (\<lambda>wire_bytes.
     rbind (rguard (\<not> (wire_bytes = 0 \<or> wire_bytes > maximum)) InvalidData) (\<lambda>_.
       read_exact wire_bytes)))"

definition validate_source :: "fpath \<Rightarrow> ManifestEntry \<Rightarrow> unit fsm" where
  "validate_source p e =
     fbind (symlink_metadata p) (\<lambda>n.
     fbind (fguard (is_file n \<and> \<not> is_reparse n) InvalidData) (\<lambda>_.
     fbind (fguard (node_len n = file_size e) InvalidData) (\<lambda>_.
       fguard (node_time n = last_write_time e) InvalidData)))"

definition eligible_basis :: "fpath \<Rightarrow> bool fsm" where
  "eligible_basis p s =
     (case symlink_metadata p s of
        (Inr n, s') \<Rightarrow> (Inr (is_file n \<and> node_len n > 0 \<and> \<not> is_reparse n), s')
      | (Inl e, s') \<Rightarrow> if e = NotFound then (Inr False, s') else (Inl e, s'))"

text \<open>A call whose error the caller looks at.\<close>

definition attempt :: "'a fsm \<Rightarrow> 'a io_result fsm" where
  "attempt m s = (case m s of (r, s') \<Rightarrow> (Inr r, s'))"

text \<open>
  The sender reads the offer and returns its decision, the reply it wrote and what it has not read.  First what it
  does with a plan, then with the index.
\<close>

definition reply_with_plan :: "usize \<Rightarrow> ManifestEntry \<Rightarrow> u64 \<Rightarrow> ReconstructionPlan \<Rightarrow> (CdcLaneDecision \<times> byte list) fsm" where
  "reply_with_plan i e index_bytes pl =
     fbind (validate_source (final_path e) e) (\<lambda>_.
     fbind (flift (plan_encode_wire pl)) (\<lambda>plan_wire.
     if length plan_wire > MAXIMUM_PLAN_WIRE_BYTES
     then fbind (flift (send_fallback i)) (\<lambda>reply. fret (fallback_decision index_bytes, reply))
     else
       fbind (flift (word_try_from OtherError (length plan_wire))) (\<lambda>plan_bytes.
       fbind (flift (ok_or OtherError (checked_add index_bytes plan_bytes))) (\<lambda>total_cdc_wire.
       if total_cdc_wire \<ge> file_size e
       then fbind (flift (send_fallback i)) (\<lambda>reply. fret (fallback_decision index_bytes, reply))
       else
         fbind (flift (wcat [write_u8 MESSAGE_CDC_PLAN, write_file_id i, write_u64 plan_bytes, Inr plan_wire])) (\<lambda>reply.
           fret (planned_decision index_bytes (file_size e) pl plan_bytes, reply))))))"

definition reply_to_index :: "libs \<Rightarrow> usize \<Rightarrow> ManifestEntry \<Rightarrow> u64 \<Rightarrow> BasisFileIndex \<Rightarrow> (CdcLaneDecision \<times> byte list) fsm" where
  "reply_to_index lib i e index_bytes index =
     fbind (fguard (index_average_kib index = DEFAULT_AVERAGE_KIB) InvalidData) (\<lambda>_.
     fbind (validate_source (final_path e) e) (\<lambda>_.
     fbind (attempt (build_bounded lib (final_path e) index MAXIMUM_LITERAL_BYTES)) (\<lambda>built.
     case built of
       Inl error \<Rightarrow>
         if is_literal_limit_exceeded error
         then fbind (flift (send_fallback i)) (\<lambda>reply. fret (fallback_decision index_bytes, reply))
         else ffail error
     | Inr pl \<Rightarrow> reply_with_plan i e index_bytes pl)))"

definition sender_negotiate :: "libs \<Rightarrow> usize \<Rightarrow> ManifestEntry \<Rightarrow> byte list \<Rightarrow> (CdcLaneDecision \<times> byte list \<times> byte list) fsm" where
  "sender_negotiate lib i e bs =
     fbind (flift (read_u8 bs)) (\<lambda>(message, bs1).
     if message = MESSAGE_CDC_UNAVAILABLE then
       fbind (flift (read_file_id bs1)) (\<lambda>(announced, bs2).
       fbind (flift (validate_file_id announced i)) (\<lambda>_.
         fret (unavailable_decision, [], bs2)))
     else if message = MESSAGE_CDC_INDEX then
       fbind (flift (read_file_id bs1)) (\<lambda>(announced, bs2).
       fbind (flift (validate_file_id announced i)) (\<lambda>_.
       fbind (flift (read_cdc_payload MAXIMUM_INDEX_WIRE_BYTES bs2)) (\<lambda>(index_wire, bs3).
       fbind (flift (word_try_from OtherError (length index_wire))) (\<lambda>index_bytes.
       fbind (flift (index_decode_wire index_wire)) (\<lambda>index.
       fbind (reply_to_index lib i e index_bytes index) (\<lambda>(decision, reply).
         fret (decision, reply, bs3)))))))
     else ffail InvalidData)"

text \<open>
  The receiver's first half: what it writes and, when it offers an index, the size of its file and of the index.
\<close>

definition offer_unavailable :: "usize \<Rightarrow> (byte list \<times> (u64 \<times> u64) option) fsm" where
  "offer_unavailable i = fbind (flift (send_unavailable i)) (\<lambda>offer. fret (offer, None))"

definition offer_index :: "usize \<Rightarrow> BasisFileIndex io_result \<Rightarrow> (byte list \<times> (u64 \<times> u64) option) fsm" where
  "offer_index i built =
     (case built of
        Inl _ \<Rightarrow> offer_unavailable i
      | Inr index \<Rightarrow>
          fbind (flift (index_encode_wire index)) (\<lambda>index_wire.
          if length index_wire > MAXIMUM_INDEX_WIRE_BYTES then offer_unavailable i
          else
            fbind (flift (word_try_from OtherError (length index_wire))) (\<lambda>index_bytes.
            fbind (flift (wcat [write_u8 MESSAGE_CDC_INDEX, write_file_id i, write_u64 index_bytes, Inr index_wire])) (\<lambda>offer.
              fret (offer, Some (index_file_bytes index, index_bytes))))))"

definition receiver_offer_index :: "libs \<Rightarrow> usize \<Rightarrow> ManifestEntry \<Rightarrow> bool \<Rightarrow> (byte list \<times> (u64 \<times> u64) option) fsm" where
  "receiver_offer_index lib i e enabled =
     (if \<not> enabled \<or> \<not> (file_class e = Medium \<or> file_class e = Large) \<or> file_size e < MINIMUM_FILE_BYTES then offer_unavailable i
      else fbind (eligible_basis (final_path e)) (\<lambda>eligible.
      if \<not> eligible then offer_unavailable i
      else fbind (attempt (BasisFileIndex_build lib (final_path e) DEFAULT_AVERAGE_KIB)) (offer_index i)))"

definition receiver_read_reply ::
    "libs \<Rightarrow> nat \<times> nat option \<Rightarrow> usize \<Rightarrow> ManifestEntry \<Rightarrow> u64 \<Rightarrow> u64 \<Rightarrow> byte list \<Rightarrow> (CdcLaneDecision \<times> byte list) fsm" where
  "receiver_read_reply lib stamp i e expected_basis_bytes index_bytes bs =
     fbind (flift (read_u8 bs)) (\<lambda>(response, bs1).
     fbind (flift (read_file_id bs1)) (\<lambda>(announced, bs2).
     fbind (flift (validate_file_id announced i)) (\<lambda>_.
     if response = MESSAGE_CDC_FALLBACK then fret (fallback_decision index_bytes, bs2)
     else if response = MESSAGE_CDC_PLAN then
       fbind (flift (read_cdc_payload MAXIMUM_PLAN_WIRE_BYTES bs2)) (\<lambda>(plan_wire, bs3).
       fbind (flift (word_try_from OtherError (length plan_wire))) (\<lambda>plan_bytes.
       fbind (flift (plan_decode_wire plan_wire)) (\<lambda>pl.
       fbind (fguard (target_bytes pl = file_size e) InvalidData) (\<lambda>_.
       fbind (fguard (plan_literal_bytes pl \<le> MAXIMUM_LITERAL_BYTES) InvalidData) (\<lambda>_.
       fbind (flift (ok_or OtherError (checked_add index_bytes plan_bytes))) (\<lambda>total_cdc_wire.
       fbind (fguard (total_cdc_wire < file_size e) InvalidData) (\<lambda>_.
       fbind (reconstruct_verified lib stamp (relative_path e) (relative_path e) expected_basis_bytes pl) (\<lambda>_.
         fret (planned_decision index_bytes (file_size e) pl plan_bytes, bs3)))))))))
     else ffail InvalidData)))"

definition receiver_negotiate ::
    "libs \<Rightarrow> nat \<times> nat option \<Rightarrow> usize \<Rightarrow> ManifestEntry \<Rightarrow> bool \<Rightarrow> byte list \<Rightarrow> (CdcLaneDecision \<times> byte list \<times> byte list) fsm" where
  "receiver_negotiate lib stamp i e enabled bs =
     fbind (receiver_offer_index lib i e enabled) (\<lambda>(offer, pending).
     case pending of
       None \<Rightarrow> fret (unavailable_decision, offer, bs)
     | Some (expected_basis_bytes, index_bytes) \<Rightarrow>
         fbind (receiver_read_reply lib stamp i e expected_basis_bytes index_bytes bs) (\<lambda>(decision, bs').
           fret (decision, offer, bs')))"

section \<open>The cache of basis indexes\<close>

definition MAXIMUM_BASIS_CANDIDATES :: usize where "MAXIMUM_BASIS_CANDIDATES = 32"
definition MAXIMUM_CACHED_BASIS_INDEXES :: usize where "MAXIMUM_CACHED_BASIS_INDEXES = MAXIMUM_BASIS_CANDIDATES"

record SenderBasisIndexCacheState =
  cache_entries :: "(usize \<times> BasisFileIndex) list"
  building_file_ids :: "usize fset"

definition default_cache :: SenderBasisIndexCacheState where
  "default_cache = \<lparr>cache_entries = [], building_file_ids = {||}\<rparr>"

text \<open>
  The two critical sections of \<^verbatim>\<open>get_or_build\<close>: the lookup, which moves a hit to the back of the queue or claims
  the build, and the end of a build.
\<close>

datatype cache_answer = CacheHit BasisFileIndex | MustBuild | MustWait

definition cache_lookup :: "usize \<Rightarrow> SenderBasisIndexCacheState \<Rightarrow> cache_answer \<times> SenderBasisIndexCacheState" where
  "cache_lookup k c =
     (case find (\<lambda>entry. fst entry = k) (cache_entries c) of
        Some entry \<Rightarrow> (CacheHit (snd entry), c\<lparr>cache_entries := remove1 entry (cache_entries c) @ [entry]\<rparr>)
      | None \<Rightarrow>
          if k |\<in>| building_file_ids c then (MustWait, c)
          else (MustBuild, c\<lparr>building_file_ids := finsert k (building_file_ids c)\<rparr>))"

definition cache_finish :: "usize \<Rightarrow> BasisFileIndex io_result \<Rightarrow> SenderBasisIndexCacheState \<Rightarrow> SenderBasisIndexCacheState" where
  "cache_finish k result c =
     (let building = building_file_ids c |-| {|k|} in
      case result of
        Inl _ \<Rightarrow> c\<lparr>building_file_ids := building\<rparr>
      | Inr index \<Rightarrow>
          c\<lparr>building_file_ids := building,
            cache_entries := (if length (cache_entries c) \<ge> MAXIMUM_CACHED_BASIS_INDEXES then tl (cache_entries c) else cache_entries c) @ [(k, index)]\<rparr>)"

text \<open>A sending lane works on its source files and the cache.\<close>

type_synonym 'a lanem = "SenderBasisIndexCacheState \<times> fs \<Rightarrow> 'a io_result \<times> SenderBasisIndexCacheState \<times> fs"

definition lret :: "'a \<Rightarrow> 'a lanem" where "lret a cs = (Inr a, cs)"

definition lbind :: "'a lanem \<Rightarrow> ('a \<Rightarrow> 'b lanem) \<Rightarrow> 'b lanem" where
  "lbind m f cs = (case m cs of (Inl e, cs') \<Rightarrow> (Inl e, cs') | (Inr a, cs') \<Rightarrow> f a cs')"

definition lfs :: "'a fsm \<Rightarrow> 'a lanem" where
  "lfs m = (\<lambda>(c, s). case m s of (r, s') \<Rightarrow> (r, c, s'))"

definition get_or_build :: "usize \<Rightarrow> BasisFileIndex fsm \<Rightarrow> (BasisFileIndex \<times> bool) lanem" where
  "get_or_build k build = (\<lambda>(c, s).
     (case cache_lookup k c of
        (CacheHit index, c') \<Rightarrow> (Inr (index, True), c', s)
      | (MustBuild, c') \<Rightarrow>
          (case build s of (result, s') \<Rightarrow> (ebind result (\<lambda>index. Inr (index, False)), cache_finish k result c', s'))
      | (MustWait, c') \<Rightarrow> (Inl Blocked, c', s)))"

section \<open>Plans against files of the session\<close>

definition MESSAGE_SESSION_CDC_PLAN :: u8 where "MESSAGE_SESSION_CDC_PLAN = 0x40"
definition MINIMUM_TARGET_BYTES :: u64 where "MINIMUM_TARGET_BYTES = 1024 * 1024"
definition SIMILARITY_SAMPLE_BYTES :: u64 where "SIMILARITY_SAMPLE_BYTES = 64 * 1024"
definition SESSION_CDC_PLAN_FIXED_WIRE_BYTES :: u64 where "SESSION_CDC_PLAN_FIXED_WIRE_BYTES = 1 + 8 + 8 + 8 + 8"

definition basis_eligible :: "ManifestEntry \<Rightarrow> bool" where
  "basis_eligible e \<longleftrightarrow> (file_class e = Medium \<or> file_class e = Large) \<and> file_size e \<ge> MINIMUM_TARGET_BYTES"

definition validate_source_file :: "fpath \<Rightarrow> ManifestEntry \<Rightarrow> unit fsm" where
  "validate_source_file p e =
     fbind (symlink_metadata p) (\<lambda>n.
     fbind (fguard (is_file n \<and> \<not> is_reparse n) InvalidData) (\<lambda>_.
     fbind (fguard (node_len n = file_size e) InvalidData) (\<lambda>_.
       fguard (node_time n = last_write_time e) InvalidData)))"

definition validate_committed_basis :: "fpath \<Rightarrow> u64 \<Rightarrow> unit fsm" where
  "validate_committed_basis p expected_bytes =
     fbind (symlink_metadata p) (\<lambda>n.
     fbind (fguard (is_file n \<and> \<not> is_reparse n) InvalidData) (\<lambda>_.
       fguard (node_len n = expected_bytes) InvalidData))"

definition read_sample :: "fpath \<Rightarrow> u64 \<Rightarrow> u64 \<Rightarrow> byte list fsm" where
  "read_sample p offset len =
     fbind (flift (usize_try_from OtherError len)) (\<lambda>n.
     fbind (open_source p) (\<lambda>node.
     fbind (syscall (fret ())) (\<lambda>_.
     fbind (retried ()) (\<lambda>_.
       flift (read_exact_at (node_contents node) (unat offset) n)))))"

definition likely_similar :: "fpath \<Rightarrow> u64 \<Rightarrow> fpath \<Rightarrow> u64 \<Rightarrow> bool fsm" where
  "likely_similar target_path target basis_path basis =
     (if target = 0 \<or> basis = 0 then fret False
      else let smaller = min target basis; larger = max target basis; allowed_difference = max (smaller div 4) SIMILARITY_SAMPLE_BYTES in
        if larger - smaller > allowed_difference then fret False
        else let sample_bytes = min smaller SIMILARITY_SAMPLE_BYTES in
          fbind (read_sample target_path 0 sample_bytes) (\<lambda>target_prefix.
          fbind (read_sample basis_path 0 sample_bytes) (\<lambda>basis_prefix.
          if target_prefix = basis_prefix then fret True
          else
            fbind (read_sample target_path (target - sample_bytes) sample_bytes) (\<lambda>target_suffix.
            fbind (read_sample basis_path (basis - sample_bytes) sample_bytes) (\<lambda>basis_suffix.
              fret (target_suffix = basis_suffix))))))"

definition build_verified_basis_index :: "libs \<Rightarrow> ManifestEntry \<Rightarrow> BasisFileIndex fsm" where
  "build_verified_basis_index lib b =
     fbind (BasisFileIndex_build lib (final_path b) DEFAULT_AVERAGE_KIB) (\<lambda>index.
     fbind (validate_source_file (final_path b) b) (\<lambda>_.
     fbind (fguard (index_file_bytes index = file_size b) InvalidData) (\<lambda>_.
       fret index)))"

definition prebuild_basis_index :: "libs \<Rightarrow> ManifestEntry list \<Rightarrow> usize \<Rightarrow> unit lanem" where
  "prebuild_basis_index lib manifest k =
     lbind (lfs (flift (ok_or InvalidInput (manifest_get manifest k)))) (\<lambda>b.
     if \<not> basis_eligible b then lret ()
     else
       lbind (lfs (validate_source_file (final_path b) b)) (\<lambda>_.
       lbind (get_or_build k (build_verified_basis_index lib b)) (\<lambda>(index, _).
       lbind (lfs (validate_source_file (final_path b) b)) (\<lambda>_.
         lfs (fguard (index_file_bytes index = file_size b) InvalidData)))))"

definition completed_decision :: "u64 \<Rightarrow> ReconstructionPlan \<Rightarrow> u64 \<Rightarrow> CdcLaneDecision" where
  "completed_decision logical pl plan_bytes =
     \<lparr>lane_completed = True,
      lane_stats = default_lane_stats\<lparr>offered_files := 1, completed_files := 1, cdc_logical_bytes := logical,
        reused_bytes := plan_referenced_bytes pl, literal_bytes := plan_literal_bytes pl, plan_wire_bytes := plan_bytes\<rparr>\<rparr>"

text \<open>
  One turn of the loop over the candidates: \<open>None\<close> goes on to the next one, otherwise the decision and the record.
  First what is done with a plan, then with an index, then the whole turn.
\<close>

definition write_session_plan ::
    "usize \<Rightarrow> ManifestEntry \<Rightarrow> usize \<Rightarrow> BasisFileIndex \<Rightarrow> ReconstructionPlan \<Rightarrow> (CdcLaneDecision \<times> byte list) option fsm" where
  "write_session_plan target_id e k index pl =
     fbind (validate_source_file (final_path e) e) (\<lambda>_.
     if plan_referenced_bytes pl = 0 then fret None
     else fbind (flift (plan_encode_wire pl)) (\<lambda>plan_wire.
     if length plan_wire > MAXIMUM_PLAN_WIRE_BYTES then fret None
     else
       fbind (flift (word_try_from OtherError (length plan_wire))) (\<lambda>plan_bytes.
       fbind (flift (ok_or OtherError (checked_add SESSION_CDC_PLAN_FIXED_WIRE_BYTES plan_bytes))) (\<lambda>total_wire_bytes.
       if total_wire_bytes \<ge> file_size e then fret None
       else
         fbind (flift (wcat [write_u8 MESSAGE_SESSION_CDC_PLAN, write_file_id target_id, write_file_id k,
                  write_u64 (index_file_bytes index), write_u64 plan_bytes, Inr plan_wire])) (\<lambda>out.
           fret (Some (completed_decision (file_size e) pl plan_bytes, out)))))))"

definition plan_against_index ::
    "libs \<Rightarrow> usize \<Rightarrow> ManifestEntry \<Rightarrow> usize \<Rightarrow> ManifestEntry \<Rightarrow> BasisFileIndex \<Rightarrow> (CdcLaneDecision \<times> byte list) option fsm" where
  "plan_against_index lib target_id e k b index =
     fbind (validate_source_file (final_path b) b) (\<lambda>_.
     fbind (fguard (index_file_bytes index = file_size b) InvalidData) (\<lambda>_.
     fbind (attempt (build_bounded lib (final_path e) index MAXIMUM_LITERAL_BYTES)) (\<lambda>built.
     case built of
       Inl error \<Rightarrow> if is_literal_limit_exceeded error then fret None else ffail error
     | Inr pl \<Rightarrow> write_session_plan target_id e k index pl)))"

definition try_basis_file ::
    "libs \<Rightarrow> usize \<Rightarrow> ManifestEntry \<Rightarrow> usize \<Rightarrow> ManifestEntry \<Rightarrow> (CdcLaneDecision \<times> byte list) option lanem" where
  "try_basis_file lib target_id e k b =
     lbind (lfs (validate_source_file (final_path b) b)) (\<lambda>_.
     lbind (lfs (likely_similar (final_path e) (file_size e) (final_path b) (file_size b))) (\<lambda>similar.
     if \<not> similar then lret None
     else
       lbind (get_or_build k (build_verified_basis_index lib b)) (\<lambda>(index, cache_hit).
         lfs (plan_against_index lib target_id e k b index))))"

fun try_basis_files ::
    "libs \<Rightarrow> ManifestEntry list \<Rightarrow> usize \<Rightarrow> ManifestEntry \<Rightarrow> usize list \<Rightarrow> usize \<Rightarrow> (CdcLaneDecision \<times> byte list) lanem" where
  "try_basis_files lib manifest target_id e [] considered = lret (unavailable_decision, [])"
| "try_basis_files lib manifest target_id e (k # ks) considered =
     (if k = target_id then try_basis_files lib manifest target_id e ks considered
      else lbind (lfs (flift (ok_or InvalidInput (manifest_get manifest k)))) (\<lambda>b.
        if \<not> basis_eligible b then try_basis_files lib manifest target_id e ks considered
        else lbind (lfs (fguard (considered + 1 \<le> usize_max) OtherError)) (\<lambda>_.
          if considered + 1 > MAXIMUM_BASIS_CANDIDATES then lret (unavailable_decision, [])
          else lbind (try_basis_file lib target_id e k b) (\<lambda>r.
            case r of None \<Rightarrow> try_basis_files lib manifest target_id e ks (considered + 1) | Some out \<Rightarrow> lret out))))"

definition sender_try_plan ::
    "libs \<Rightarrow> ManifestEntry list \<Rightarrow> usize \<Rightarrow> usize list \<Rightarrow> (CdcLaneDecision \<times> byte list) lanem" where
  "sender_try_plan lib manifest target_id basis_ids =
     lbind (lfs (flift (ok_or InvalidInput (manifest_get manifest target_id)))) (\<lambda>e.
     if file_class e \<noteq> Medium \<or> file_size e < MINIMUM_TARGET_BYTES \<or> basis_ids = [] then lret (unavailable_decision, [])
     else
       lbind (lfs (validate_source_file (final_path e) e)) (\<lambda>_.
         try_basis_files lib manifest target_id e (rev basis_ids) 0))"

text \<open>The receiver has read the message byte; everything of the record is read and checked before a file is touched.\<close>

definition receiver_apply_plan ::
    "libs \<Rightarrow> nat \<times> nat option \<Rightarrow> ManifestEntry list \<Rightarrow> usize \<Rightarrow> usize list \<Rightarrow> byte list \<Rightarrow> (CdcLaneDecision \<times> byte list) fsm" where
  "receiver_apply_plan lib stamp manifest expected_id allowed_ids bs =
     fbind (flift (ok_or InvalidData (manifest_get manifest expected_id))) (\<lambda>e.
     fbind (fguard (\<not> (file_class e \<noteq> Medium \<or> file_size e < MINIMUM_TARGET_BYTES)) InvalidData) (\<lambda>_.
     fbind (flift (read_file_id bs)) (\<lambda>(announced_id, bs1).
     fbind (fguard (announced_id = expected_id) InvalidData) (\<lambda>_.
     fbind (flift (read_file_id bs1)) (\<lambda>(k, bs2).
     fbind (fguard (k \<noteq> expected_id) InvalidData) (\<lambda>_.
     fbind (fguard (k \<in> set allowed_ids) InvalidData) (\<lambda>_.
     fbind (flift (ok_or InvalidData (manifest_get manifest k))) (\<lambda>b.
     fbind (fguard (file_class b = Medium \<or> file_class b = Large) InvalidData) (\<lambda>_.
     fbind (flift (read_u64 bs2)) (\<lambda>(expected_basis_bytes, bs3).
     fbind (fguard (expected_basis_bytes = file_size b) InvalidData) (\<lambda>_.
     fbind (flift (read_cdc_payload MAXIMUM_PLAN_WIRE_BYTES bs3)) (\<lambda>(plan_wire, bs4).
     fbind (flift (word_try_from OtherError (length plan_wire))) (\<lambda>plan_bytes.
     fbind (flift (plan_decode_wire plan_wire)) (\<lambda>pl.
     fbind (fguard (target_bytes pl = file_size e) InvalidData) (\<lambda>_.
     fbind (fguard (plan_referenced_bytes pl \<noteq> 0) InvalidData) (\<lambda>_.
     fbind (fguard (plan_literal_bytes pl \<le> MAXIMUM_LITERAL_BYTES) InvalidData) (\<lambda>_.
     fbind (flift (ok_or OtherError (checked_add SESSION_CDC_PLAN_FIXED_WIRE_BYTES plan_bytes))) (\<lambda>total_wire_bytes.
     fbind (fguard (total_wire_bytes < file_size e) InvalidData) (\<lambda>_.
     fbind (validate_committed_basis (final_path b) expected_basis_bytes) (\<lambda>_.
     fbind (reconstruct_verified lib stamp (relative_path b) (relative_path e) expected_basis_bytes pl) (\<lambda>_.
       fret (completed_decision (file_size e) pl plan_bytes, bs4))))))))))))))))))))))"
section \<open>Running a lane\<close>

lemma lbind_Inr: "lbind m f cs = (Inr b, cs') \<longleftrightarrow> (\<exists>a t. m cs = (Inr a, t) \<and> f a t = (Inr b, cs'))"
  by (auto simp: lbind_def split: prod.splits sum.splits)

lemma lfs_Inr: "lfs m (c, s) = (Inr a, c', s') \<longleftrightarrow> m s = (Inr a, s') \<and> c' = c"
  by (auto simp: lfs_def split: prod.splits)

lemma lguard_bind: "lbind (lfs (fguard p e)) f cs = (Inr b, cs') \<longleftrightarrow> p \<and> f () cs = (Inr b, cs')"
  by (cases cs) (auto simp: lbind_def lfs_def fguard_def fret_def ffail_def)

lemma lret_Inr: "lret a cs = (Inr b, cs') \<longleftrightarrow> a = b \<and> cs' = cs"
  by (auto simp: lret_def)

text \<open>What holds of every index in the cache.\<close>

definition cached :: "(usize \<Rightarrow> BasisFileIndex \<Rightarrow> bool) \<Rightarrow> SenderBasisIndexCacheState \<Rightarrow> bool" where
  "cached P c \<longleftrightarrow> (\<forall>entry \<in> set (cache_entries c). P (fst entry) (snd entry))"

lemma cached_lookup:
  assumes "cached P c" "cache_lookup k c = (answer, c')"
  shows "cached P c'" "answer = CacheHit index \<Longrightarrow> P k index"
proof -
  have "cached P c' \<and> (answer = CacheHit index \<longrightarrow> P k index)"
  proof (cases "find (\<lambda>entry. fst entry = k) (cache_entries c)")
    case None
    then show ?thesis using assms by (auto simp: cache_lookup_def cached_def split: if_splits)
  next
    case (Some entry)
    then have e: "entry \<in> set (cache_entries c)" "fst entry = k" by (auto simp: find_Some_iff)
    have a: "answer = CacheHit (snd entry)" "c' = c\<lparr>cache_entries := remove1 entry (cache_entries c) @ [entry]\<rparr>"
      using assms(2) Some by (auto simp: cache_lookup_def)
    have "set (cache_entries c') \<subseteq> set (cache_entries c)" using e(1) set_remove1_subset [of entry "cache_entries c"] by (auto simp: a(2))
    then show ?thesis using assms(1) e a(1) unfolding cached_def by auto
  qed
  then show "cached P c'" "answer = CacheHit index \<Longrightarrow> P k index" by blast+
qed

lemma set_tl_subset: "set (tl xs) \<subseteq> set xs"
  by (cases xs) auto

lemma cached_finish:
  assumes "cached P c" "\<And>index. result = Inr index \<Longrightarrow> P k index"
  shows "cached P (cache_finish k result c)"
proof (cases result)
  case (Inl e)
  then show ?thesis using assms(1) by (simp add: cache_finish_def cached_def Let_def)
next
  case (Inr index)
  have "set (cache_entries (cache_finish k result c)) \<subseteq> set (cache_entries c) \<union> {(k, index)}"
    using set_tl_subset [of "cache_entries c"] by (auto simp: cache_finish_def Let_def Inr)
  then show ?thesis using assms(1) assms(2) [OF Inr] by (fastforce simp: cached_def)
qed

lemma get_or_build_Inr:
  assumes "get_or_build k build (c, s) = (Inr (index, hit), c', s')" "cached P c"
    "\<And>index s'. build s = (Inr index, s') \<Longrightarrow> P k index" "within unchanged_fs build"
  shows "P k index" "cached P c'" "unchanged_fs s s'"
proof -
  obtain answer c1 where l: "cache_lookup k c = (answer, c1)" by force
  note cl = cached_lookup [OF assms(2) l]
  have "P k index \<and> cached P c' \<and> unchanged_fs s s'"
  proof (cases answer)
    case (CacheHit i)
    then show ?thesis using assms(1) l cl by (auto simp: get_or_build_def quiet.frame_refl)
  next
    case MustBuild
    obtain r s1 where b: "build s = (r, s1)" by force
    have r: "r = Inr index" "c' = cache_finish k r c1" "s' = s1"
      using assms(1) l MustBuild b by (auto simp: get_or_build_def ebind_Inr)
    then show ?thesis using assms(3) [of index s1] b cached_finish [OF cl(1), of r k] withinD [OF assms(4) b] by auto
  next
    case MustWait
    then show ?thesis using assms(1) l by (auto simp: get_or_build_def)
  qed
  then show "P k index" "cached P c'" "unchanged_fs s s'" by blast+
qed

section \<open>The checks\<close>

lemma validate_source_file_Inr:
  assumes "validate_source_file p e s = (Inr u, s')"
  shows "unchanged_fs s s'" "file_at s p c \<Longrightarrow> file_size e = of_nat (length c)"
proof -
  from assms obtain n where n: "symlink_metadata p s = (Inr n, s')" "is_file n" "node_len n = file_size e"
    by (auto simp: validate_source_file_def fbind_Inr fguard_def fret_def ffail_def split: if_splits)
  from n(1) obtain s1 where "unchanged_fs s s1" "s' = s1" "fmlookup (nodes s1) p = Some n"
    by (auto simp: symlink_metadata_def ok_or_Inr dest!: syscall_Inr)
  then have q: "unchanged_fs s s'" "fmlookup (nodes s) p = Some n" by (auto simp: unchanged_fs_def)
  show "unchanged_fs s s'" by (rule q)
  show "file_size e = of_nat (length c)" if "file_at s p c" using that n(2,3) q(2) by (cases n) (auto simp: file_at_def)
qed

lemma quiet_validate_source_file [frame_intros]: "within unchanged_fs (validate_source_file p e)"
  unfolding validate_source_file_def by (intro quiet.bind quiet.reads quiet.pure)

lemma quiet_open_source [frame_intros]: "within unchanged_fs (open_source p)"
  unfolding open_source_def by (rule quiet.query) (simp split: option.splits node.splits)

lemma quiet_index_build [frame_intros]: "within unchanged_fs (BasisFileIndex_build lib p k)"
  unfolding BasisFileIndex_build_def build_from_reader_def
  by (intro quiet.bind quiet.pure quiet.prod_case quiet_open_source delivers_call [THEN delivers_quiet]
      delivers_chunk_reader [THEN delivers_quiet])

lemma quiet_build_bounded [frame_intros]: "within unchanged_fs (build_bounded lib p index limit)"
  unfolding build_bounded_def
  by (intro quiet.bind quiet.pure quiet.prod_case quiet_open_source delivers_call [THEN delivers_quiet]
      delivers_chunk_reader [THEN delivers_quiet])

lemma quiet_attempt: "within unchanged_fs m \<Longrightarrow> within unchanged_fs (attempt m)"
  by (simp add: within_def attempt_def split: prod.splits) (metis snd_conv)

lemma quiet_build_verified: "within unchanged_fs (build_verified_basis_index lib b)"
  unfolding build_verified_basis_index_def by (intro quiet.bind quiet.pure quiet_index_build quiet_validate_source_file)

lemma quiet_likely_similar: "within unchanged_fs (likely_similar p n q m)"
  unfolding likely_similar_def read_sample_def Let_def
  by (intro quiet.if_branches quiet.bind quiet.pure quiet_open_source delivers_call [THEN delivers_quiet]
      delivers_retried [THEN delivers_quiet])

lemma file_at_quiet: "unchanged_fs s s' \<Longrightarrow> file_at s' p c = file_at s p c"
  by (simp add: file_at_def unchanged_fs_def)

text \<open>The index of a file of the source, as the cache keeps it.\<close>

definition index_of_source :: "libs \<Rightarrow> ManifestEntry list \<Rightarrow> fs \<Rightarrow> usize \<Rightarrow> BasisFileIndex \<Rightarrow> bool" where
  "index_of_source lib manifest s k index \<longleftrightarrow>
     (\<exists>b c config. manifest_get manifest k = Some b \<and> file_at s (final_path b) c \<and> length c < 2 ^ 64 \<and>
        from_average_kib DEFAULT_AVERAGE_KIB = Inr config \<and> index = index_of lib DEFAULT_AVERAGE_KIB config c)"

lemma index_of_source_quiet: "unchanged_fs s s' \<Longrightarrow> index_of_source lib manifest s' = index_of_source lib manifest s"
  by (intro ext) (simp add: index_of_source_def file_at_quiet)

lemma build_verified_Inr:
  assumes "build_verified_basis_index lib b s = (Inr index, s')" "manifest_get manifest k = Some b"
  shows "index_of_source lib manifest s k index"
proof -
  from assms(1) obtain s1 where "BasisFileIndex_build lib (final_path b) DEFAULT_AVERAGE_KIB s = (Inr index, s1)"
    by (auto simp: build_verified_basis_index_def fbind_Inr fguard_def fret_def ffail_def split: if_splits)
  from BasisFileIndex_build_Inr(1) [OF this] assms(2) show ?thesis by (auto simp: index_of_source_def)
qed

lemma flift_step: "fbind (flift (Inr a)) f = f a"
  by (rule ext) (simp add: fbind_def flift_def)

lemma flift_ok_step: "fbind (flift (ok_or e (Some a))) f = f a"
  by (simp add: flift_step)

lemma fguard_step: "c \<Longrightarrow> fbind (fguard c e) f = f ()"
  by (rule ext) (simp add: fbind_def fguard_def fret_def)

lemma fguard_bind: "fbind (fguard c e) f s = (Inr b, s') \<longleftrightarrow> c \<and> f () s = (Inr b, s')"
  by (auto simp: fbind_def fguard_def fret_def ffail_def)

lemma flift_bind: "fbind (flift r) f s = (Inr b, s') \<longleftrightarrow> (\<exists>a. r = Inr a \<and> f a s = (Inr b, s'))"
  by (cases r) (auto simp: fbind_def flift_def)

section \<open>Plans between the two sides\<close>

text \<open>A plan that was made from the file \<open>c\<close> against an index of \<open>basis\<close>, within the limits of the protocol.\<close>

definition sound_plan :: "libs \<Rightarrow> byte list \<Rightarrow> ReconstructionPlan \<Rightarrow> bool" where
  "sound_plan lib c pl \<longleftrightarrow> plan_ok pl \<and> target_bytes pl = of_nat (length c) \<and> length c < 2 ^ 64 \<and> target_digest pl = blake3 lib c \<and>
     plan_literal_bytes pl \<le> MAXIMUM_LITERAL_BYTES"

text \<open>No two chunks of the files have the same length and digest and differ.\<close>

definition keys_distinguish :: "libs \<Rightarrow> usize \<Rightarrow> byte list \<Rightarrow> byte list \<Rightarrow> bool" where
  "keys_distinguish lib k basis c \<longleftrightarrow>
     (\<forall>config. from_average_kib k = Inr config \<longrightarrow>
       (\<forall>x \<in> set (chunks_of config c). \<forall>y \<in> set (chunks_of config basis). key_of lib x = key_of lib y \<longrightarrow> x = y))"

lemma index_of_faithful:
  assumes "from_average_kib k = Inr config" "keys_distinguish lib k basis c" "x \<in> set (chunks_of config c)" "length basis < 2 ^ 64"
  shows "faithful lib (index_of lib k config basis) basis x"
  unfolding faithful_def
proof (intro allI impI)
  fix off
  assume "index_find (index_of lib k config basis) (key_of lib x) = Some off"
  then obtain y where "y \<in> set (chunks_of config basis)" "key_of lib x = key_of lib y" "take (length y) (drop (unat off) basis) = y"
    using index_find_chunk [OF _ assms(4)] by metis
  moreover from this have "x = y" using assms(1,2,3) by (auto simp: keys_distinguish_def)
  ultimately show "take (length x) (drop (unat off) basis) = x" by simp
qed

lemma built_plan:
  assumes "build_bounded lib p (index_of lib k config basis) MAXIMUM_LITERAL_BYTES s = (Inr pl, s')" "libs_ok lib"
    "from_average_kib k = Inr config" "length basis < 2 ^ 64"
  obtains c where "file_at s p c" "sound_plan lib c pl" "unchanged_fs s s'"
    "keys_distinguish lib k basis c \<Longrightarrow> expand basis (operations pl) = c"
proof -
  have "index_average_kib (index_of lib k config basis) = k" by (simp add: index_of_def Let_def)
  moreover have "index_safe (index_of lib k config basis)" using index_ok_safe index_of_ok(1) [OF assms(2,3,4)] by blast
  ultimately show thesis
    using build_bounded_Inr [OF assms(1) _ assms(2)] assms(3,4) index_of_faithful [OF assms(3) _ _ assms(4)] that
    unfolding sound_plan_def by (metis sum.inject(2))
qed

lemma sound_plan_wire:
  assumes "sound_plan lib c pl" "length (operations pl) \<le> 2 ^ 53"
  shows "plan_encode_wire pl = Inr (plan_wire pl)"
proof -
  have ops: "\<forall>op \<in> set ops. op_ok op \<Longrightarrow> length (concat (map op_wire ops)) \<le> length ops * 17 + literal_total ops" for ops
  proof (induction ops)
    case (Cons op ops)
    then show ?case by (cases op) auto
  qed simp
  have "plan_ok pl" "literal_total (operations pl) \<le> 2 ^ 24"
    using assms(1) by (auto simp: sound_plan_def plan_ok_def MAXIMUM_LITERAL_BYTES_def word_le_nat_alt)
  then have "length (plan_wire pl) \<le> usize_max"
    using ops [of "operations pl"] length_plan_wire [of pl] assms(2)
    by (simp add: plan_ok_def PLAN_HEADER_BYTES_def usize_max_def)
  then show ?thesis using plan_encode_wire_ok [OF \<open>plan_ok pl\<close>] by blast
qed

lemma read_payload_written:
  assumes "0 < length bs" "length bs \<le> maximum" "length bs < 2 ^ 64"
  shows "read_cdc_payload maximum (to_be_bytes (of_nat (length bs) :: u64) @ bs @ rest) = Inr (bs, rest)"
  using assms by (simp add: read_cdc_payload_def read_u64_def rbind_def read_be_simps unat_of_nat_small read_exact_append)

lemma read_u64_written: "read_u64 (to_be_bytes w @ rest) = Inr (w, rest)"
  by (simp add: read_u64_def read_be_simps)

lemma read_file_id_again: "i < 2 ^ 64 \<Longrightarrow> read_file_id (to_be_bytes (of_nat i :: u64) @ rest) = Inr (i, rest)"
  by (simp add: read_file_id_def rbind_def read_u64_written unat_of_nat_small)

lemma plan_decode_again:
  assumes "plan_ok pl"
  shows "plan_decode_wire (plan_wire pl) = Inr (pl\<lparr>candidate_chunks := 0\<rparr>)"
proof -
  have "plan_ok (pl\<lparr>candidate_chunks := 0\<rparr>)" "plan_wire (pl\<lparr>candidate_chunks := 0\<rparr>) = plan_wire pl"
    using assms by (simp_all add: plan_ok_def plan_wire_def)
  then show ?thesis using plan_decode_wire_Inr [of "plan_wire pl" "pl\<lparr>candidate_chunks := 0\<rparr>"] by simp
qed

lemma MAXIMUM_PLAN_small: "MAXIMUM_PLAN_WIRE_BYTES < 2 ^ 64" "MAXIMUM_INDEX_WIRE_BYTES < 2 ^ 64"
  by (simp_all add: MAXIMUM_PLAN_WIRE_BYTES_def MAXIMUM_INDEX_WIRE_BYTES_def)

text \<open>The record of a session plan.\<close>

definition session_record :: "usize \<Rightarrow> usize \<Rightarrow> u64 \<Rightarrow> ReconstructionPlan \<Rightarrow> byte list" where
  "session_record target_id k basis_bytes pl =
     to_be_bytes (of_nat target_id :: u64) @ to_be_bytes (of_nat k :: u64) @ to_be_bytes basis_bytes @
     to_be_bytes (of_nat (length (plan_wire pl)) :: u64) @ plan_wire pl"

definition session_plan_fits :: "ManifestEntry \<Rightarrow> ReconstructionPlan \<Rightarrow> bool" where
  "session_plan_fits e pl \<longleftrightarrow> plan_referenced_bytes pl \<noteq> 0 \<and> length (plan_wire pl) \<le> MAXIMUM_PLAN_WIRE_BYTES \<and>
     33 + length (plan_wire pl) < unat (file_size e)"

text \<open>What a sender that decides for a plan has checked.\<close>

lemma session_total:
  assumes "length (plan_wire pl) \<le> MAXIMUM_PLAN_WIRE_BYTES"
  shows "checked_add SESSION_CDC_PLAN_FIXED_WIRE_BYTES (of_nat (length (plan_wire pl))) = Some (of_nat (33 + length (plan_wire pl)))"
    "unat (of_nat (33 + length (plan_wire pl)) :: u64) = 33 + length (plan_wire pl)"
proof -
  show "unat (of_nat (33 + length (plan_wire pl)) :: u64) = 33 + length (plan_wire pl)"
    using assms by (intro unat_of_nat_small) (simp add: MAXIMUM_PLAN_WIRE_BYTES_def)
qed (use assms in \<open>simp add: checked_add_def SESSION_CDC_PLAN_FIXED_WIRE_BYTES_def unat_of_nat_small MAXIMUM_PLAN_WIRE_BYTES_def\<close>)

lemma session_plan_read:
  assumes "manifest_get manifest target_id = Some e" "file_class e = Medium" "MINIMUM_TARGET_BYTES \<le> file_size e"
    "manifest_get manifest k = Some b" "basis_eligible b" "k \<noteq> target_id" "k \<in> set allowed" "target_id < 2 ^ 64" "k < 2 ^ 64"
    "sound_plan lib c pl" "file_size e = of_nat (length c)" "session_plan_fits e pl"
  shows "receiver_apply_plan lib' stamp manifest target_id allowed (session_record target_id k (file_size b) pl @ rest) =
    fbind (validate_committed_basis (final_path b) (file_size b)) (\<lambda>_.
    fbind (reconstruct_verified lib' stamp (relative_path b) (relative_path e) (file_size b) (pl\<lparr>candidate_chunks := 0\<rparr>)) (\<lambda>_.
      fret (completed_decision (file_size e) pl (of_nat (length (plan_wire pl))), rest)))"
proof -
  let ?w = "plan_wire pl" and ?n = "of_nat (length (plan_wire pl)) :: u64"
  have ok: "plan_ok pl" "target_bytes pl = file_size e" "plan_literal_bytes pl \<le> MAXIMUM_LITERAL_BYTES"
    using assms(10,11) by (simp_all add: sound_plan_def)
  have w: "0 < length ?w" "length ?w \<le> MAXIMUM_PLAN_WIRE_BYTES" "length ?w < 2 ^ 64"
    using assms(12) MAXIMUM_PLAN_small(1) by (auto simp: session_plan_fits_def plan_wire_def PLAN_MAGIC_def)
  note t = session_total [OF w(2)]
  have lt: "of_nat (33 + length ?w) < file_size e" using t(2) assms(12) by (simp add: word_less_nat_alt session_plan_fits_def)
  have basis: "file_class b = Medium \<or> file_class b = Large" using assms(5) by (simp add: basis_eligible_def)
  have dec: "completed_decision (file_size e) (pl\<lparr>candidate_chunks := 0\<rparr>) ?n = completed_decision (file_size e) pl ?n"
    by (simp add: completed_decision_def)
  have n: "word_try_from OtherError (length ?w) = Inr ?n" using w(3) by (simp add: word_try_from_def)
  show ?thesis
    unfolding receiver_apply_plan_def session_record_def append.assoc
    using assms(1-9,12) ok basis n t(1) lt
    by (simp add: flift_ok_step flift_step fguard_step read_file_id_again read_u64_written read_payload_written [OF w]
        plan_decode_again dec not_less session_plan_fits_def)
qed

text \<open>What a sender that decides for a plan has read and written.\<close>

lemma word_try_from_small: "word_try_from err n = Inr (w :: u64) \<Longrightarrow> w = of_nat n \<and> n < 2 ^ 64"
  by (simp add: word_try_from_Inr)

lemma write_file_id_bytes: "write_file_id i = Inr x \<longleftrightarrow> i < 2 ^ 64 \<and> x = to_be_bytes (of_nat i :: u64)"
  by (auto simp: write_file_id_def ebind_Inr word_try_from_Inr write_u64_def)

lemma write_session_plan_Inr:
  assumes "write_session_plan target_id e k index pl s = (Inr (Some (dec, out)), s')" "plan_ok pl"
  shows "session_plan_fits e pl" "dec = completed_decision (file_size e) pl (of_nat (length (plan_wire pl)))"
    "out = MESSAGE_SESSION_CDC_PLAN # session_record target_id k (index_file_bytes index) pl" "target_id < 2 ^ 64" "k < 2 ^ 64"
    "unchanged_fs s s'" "file_at s (final_path e) c \<Longrightarrow> file_size e = of_nat (length c)"
proof -
  let ?w = "plan_wire pl" and ?n = "of_nat (length (plan_wire pl)) :: u64"
  from assms obtain total where v: "validate_source_file (final_path e) e s = (Inr (), s')"
    and r: "plan_referenced_bytes pl \<noteq> 0" and n: "length ?w \<le> MAXIMUM_PLAN_WIRE_BYTES"
    and t: "checked_add SESSION_CDC_PLAN_FIXED_WIRE_BYTES ?n = Some total" "total < file_size e"
    and w: "wcat [write_u8 MESSAGE_SESSION_CDC_PLAN, write_file_id target_id, write_file_id k,
                  write_u64 (index_file_bytes index), write_u64 ?n, Inr ?w] = Inr out"
    and d: "dec = completed_decision (file_size e) pl ?n"
    unfolding write_session_plan_def fbind_Inr [of "validate_source_file p e" for p e]
    by (auto simp: flift_bind fret_def ok_or_Inr plan_encode_wire_ok word_try_from_Inr not_less not_le simp del: wcat.simps split: if_splits)
  note tt = session_total [OF n]
  have "total = of_nat (33 + length ?w)" using t(1) tt(1) by simp
  then show "session_plan_fits e pl" using r n t(2) tt(2) by (simp add: session_plan_fits_def word_less_nat_alt)
  show "dec = completed_decision (file_size e) pl ?n" by (rule d)
  show "out = MESSAGE_SESSION_CDC_PLAN # session_record target_id k (index_file_bytes index) pl" "target_id < 2 ^ 64" "k < 2 ^ 64"
    using w by (auto simp: ebind_Inr write_file_id_bytes engine_prims session_record_def)
  show "unchanged_fs s s'" "file_at s (final_path e) c \<Longrightarrow> file_size e = of_nat (length c)"
    using validate_source_file_Inr [OF v] by blast+
qed

lemma sum_case_within:
  "(\<And>x. within R (f x)) \<Longrightarrow> (\<And>y. within R (g y)) \<Longrightarrow> within R (case r of Inl x \<Rightarrow> f x | Inr y \<Rightarrow> g y)"
  by (cases r) simp_all

lemma quiet_plan_against: "within unchanged_fs (plan_against_index lib target_id e k b index)"
  unfolding plan_against_index_def write_session_plan_def
  by (intro quiet.bind quiet.pure quiet.if_branches sum_case_within quiet_validate_source_file quiet_attempt quiet_build_bounded)

lemma attempt_Some:
  assumes "fbind (attempt m) (\<lambda>built. case built of Inl error \<Rightarrow> if p error then fret None else ffail error | Inr a \<Rightarrow> g a) s =
    (Inr (Some x), s')"
  shows "\<exists>a t. m s = (Inr a, t) \<and> g a t = (Inr (Some x), s')"
proof -
  obtain r t where r: "m s = (r, t)" by force
  show ?thesis using assms by (cases r) (auto simp: fbind_def attempt_def r fret_def ffail_def split: if_splits)
qed

lemma plan_against_index_Inr:
  assumes "plan_against_index lib target_id e k b (index_of lib DEFAULT_AVERAGE_KIB config basis) s = (Inr (Some (dec, out)), s')"
    "file_at s (final_path b) basis" "length basis < 2 ^ 64" "from_average_kib DEFAULT_AVERAGE_KIB = Inr config" "libs_ok lib"
  obtains pl content where "file_size b = of_nat (length basis)"
    "file_at s (final_path e) content" "file_size e = of_nat (length content)" "sound_plan lib content pl" "session_plan_fits e pl"
    "dec = completed_decision (file_size e) pl (of_nat (length (plan_wire pl)))"
    "out = MESSAGE_SESSION_CDC_PLAN # session_record target_id k (file_size b) pl" "target_id < 2 ^ 64" "k < 2 ^ 64"
    "keys_distinguish lib DEFAULT_AVERAGE_KIB basis content \<Longrightarrow> expand basis (operations pl) = content"
proof -
  let ?i = "index_of lib DEFAULT_AVERAGE_KIB config basis"
  from assms(1) obtain s1 pl s2 where v: "validate_source_file (final_path b) b s = (Inr (), s1)"
    and fb: "index_file_bytes ?i = file_size b"
    and p: "build_bounded lib (final_path e) ?i MAXIMUM_LITERAL_BYTES s1 = (Inr pl, s2)"
    and w: "write_session_plan target_id e k ?i pl s2 = (Inr (Some (dec, out)), s')"
    unfolding plan_against_index_def by (auto simp: fguard_bind fbind_Inr [of "validate_source_file p e" for p e] dest!: attempt_Some)
  note q1 = validate_source_file_Inr [OF v]
  from built_plan [OF p assms(5,4,3)] obtain content where c: "file_at s1 (final_path e) content" "sound_plan lib content pl" "unchanged_fs s1 s2"
    "keys_distinguish lib DEFAULT_AVERAGE_KIB basis content \<Longrightarrow> expand basis (operations pl) = content" by blast
  have "plan_ok pl" using c(2) by (simp add: sound_plan_def)
  note w' = write_session_plan_Inr [OF w this]
  have f: "file_at s (final_path e) content" "file_at s2 (final_path e) content"
    using c(1) file_at_quiet [OF q1(1)] file_at_quiet [OF c(3)] by simp_all
  show thesis
    using that [of content pl] f(1) w'(1,2,3,4,5) w'(7) [OF f(2)] q1(2) [OF assms(2)] c(2,4) by (simp add: fb)
qed

lemma try_basis_file_Inr:
  assumes "try_basis_file lib target_id e k b (c, s) = (Inr r, c', s')"
    "cached (index_of_source lib manifest s) c" "manifest_get manifest k = Some b"
  shows "cached (index_of_source lib manifest s) c'" "unchanged_fs s s'"
    "r = Some x \<Longrightarrow> \<exists>s1 s2 basis config. unchanged_fs s s1 \<and> file_at s (final_path b) basis \<and> length basis < 2 ^ 64 \<and>
       from_average_kib DEFAULT_AVERAGE_KIB = Inr config \<and>
       plan_against_index lib target_id e k b (index_of lib DEFAULT_AVERAGE_KIB config basis) s1 = (Inr (Some x), s2)"
proof -
  have "cached (index_of_source lib manifest s) c' \<and> unchanged_fs s s' \<and>
    (r = Some x \<longrightarrow> (\<exists>s1 s2 basis config. unchanged_fs s s1 \<and> file_at s (final_path b) basis \<and> length basis < 2 ^ 64 \<and>
       from_average_kib DEFAULT_AVERAGE_KIB = Inr config \<and>
       plan_against_index lib target_id e k b (index_of lib DEFAULT_AVERAGE_KIB config basis) s1 = (Inr (Some x), s2)))"
  proof -
    from assms(1) obtain s1 similar s2 where
      v1: "validate_source_file (final_path b) b s = (Inr (), s1)"
      and l: "likely_similar (final_path e) (file_size e) (final_path b) (file_size b) s1 = (Inr similar, s2)"
      and rest: "(if \<not> similar then lret None else lbind (get_or_build k (build_verified_basis_index lib b)) (\<lambda>(index, cache_hit).
         lfs (plan_against_index lib target_id e k b index))) (c, s2) = (Inr r, c', s')"
      by (auto simp: try_basis_file_def lbind_Inr lfs_Inr)
    have q: "unchanged_fs s s2"
      using validate_source_file_Inr(1) [OF v1] withinD [OF quiet_likely_similar l] quiet.frame_trans by blast
    show ?thesis
    proof (cases similar)
      case False
      then show ?thesis using rest assms(2) q by (auto simp: lret_def)
    next
      case True
      with rest obtain index hit s3 where
        g: "get_or_build k (build_verified_basis_index lib b) (c, s2) = (Inr (index, hit), c', s3)"
        and p: "plan_against_index lib target_id e k b index s3 = (Inr r, s')"
        by (auto simp: lbind_Inr lfs_Inr)
      have "cached (index_of_source lib manifest s2) c" using assms(2) index_of_source_quiet [OF q, of lib manifest] by simp
      moreover have "index_of_source lib manifest s2 k i" if "build_verified_basis_index lib b s2 = (Inr i, t)" for i t
        using build_verified_Inr [OF that assms(3)] .
      ultimately have g': "index_of_source lib manifest s2 k index" "cached (index_of_source lib manifest s2) c'" "unchanged_fs s2 s3"
        using get_or_build_Inr [OF g _ _ quiet_build_verified, of "index_of_source lib manifest s2"] by blast+
      have q3: "unchanged_fs s s3" using q g'(3) quiet.frame_trans by blast
      from withinD [OF quiet_plan_against p] q3 have "unchanged_fs s s'" using quiet.frame_trans by blast
      moreover have "cached (index_of_source lib manifest s) c'" using g'(2) index_of_source_quiet [OF q, of lib manifest] by simp
      moreover have "index_of_source lib manifest s k index" using g'(1) index_of_source_quiet [OF q, of lib manifest] by simp
      ultimately show ?thesis using p q3 assms(3) by (auto simp: index_of_source_def)
    qed
  qed
  then show "cached (index_of_source lib manifest s) c'" "unchanged_fs s s'"
    "r = Some x \<Longrightarrow> \<exists>s1 s2 basis config. unchanged_fs s s1 \<and> file_at s (final_path b) basis \<and> length basis < 2 ^ 64 \<and>
       from_average_kib DEFAULT_AVERAGE_KIB = Inr config \<and>
       plan_against_index lib target_id e k b (index_of lib DEFAULT_AVERAGE_KIB config basis) s1 = (Inr (Some x), s2)"
    by blast+
qed

text \<open>The candidate a plan was made against.\<close>

definition planned_against :: "libs \<Rightarrow> ManifestEntry list \<Rightarrow> usize \<Rightarrow> ManifestEntry \<Rightarrow> fs \<Rightarrow> CdcLaneDecision \<times> byte list \<Rightarrow> usize \<Rightarrow> bool" where
  "planned_against lib manifest target_id e s x k \<longleftrightarrow> k \<noteq> target_id \<and>
     (\<exists>b basis config s1 s2. manifest_get manifest k = Some b \<and> basis_eligible b \<and> unchanged_fs s s1 \<and>
        file_at s (final_path b) basis \<and> length basis < 2 ^ 64 \<and> from_average_kib DEFAULT_AVERAGE_KIB = Inr config \<and>
        plan_against_index lib target_id e k b (index_of lib DEFAULT_AVERAGE_KIB config basis) s1 = (Inr (Some x), s2))"

lemma planned_against_quiet:
  "unchanged_fs s s' \<Longrightarrow> planned_against lib manifest target_id e s' x k \<Longrightarrow> planned_against lib manifest target_id e s x k"
  unfolding planned_against_def using file_at_quiet quiet.frame_trans by blast

lemma try_basis_files_Inr:
  assumes "try_basis_files lib manifest target_id e ks n (c, s) = (Inr x, c', s')" "cached (index_of_source lib manifest s) c"
  shows "cached (index_of_source lib manifest s) c' \<and> unchanged_fs s s' \<and>
    (x = (unavailable_decision, []) \<or> (\<exists>k \<in> set ks. planned_against lib manifest target_id e s x k))"
  using assms
proof (induction ks arbitrary: n c s)
  case Nil
  then show ?case by (auto simp: lret_def quiet.frame_refl)
next
  case (Cons k ks)
  show ?case
  proof (cases "k = target_id")
    case True
    then show ?thesis using Cons.IH [OF _ Cons.prems(2)] Cons.prems(1) by auto
  next
    case False
    with Cons.prems(1) obtain b where b: "manifest_get manifest k = Some b"
      and r: "(if \<not> basis_eligible b then try_basis_files lib manifest target_id e ks n
        else lbind (lfs (fguard (n + 1 \<le> usize_max) OtherError)) (\<lambda>_.
          if n + 1 > MAXIMUM_BASIS_CANDIDATES then lret (unavailable_decision, [])
          else lbind (try_basis_file lib target_id e k b) (\<lambda>r.
            case r of None \<Rightarrow> try_basis_files lib manifest target_id e ks (n + 1) | Some out \<Rightarrow> lret out))) (c, s) = (Inr x, c', s')"
      by (auto simp: lbind_Inr lfs_Inr flift_def ok_or_Inr)
    show ?thesis
    proof (cases "basis_eligible b")
      case False
      then show ?thesis using Cons.IH [OF _ Cons.prems(2)] r by auto
    next
      case True
      with r have r: "(if n + 1 > MAXIMUM_BASIS_CANDIDATES then lret (unavailable_decision, [])
          else lbind (try_basis_file lib target_id e k b) (\<lambda>r.
            case r of None \<Rightarrow> try_basis_files lib manifest target_id e ks (n + 1) | Some out \<Rightarrow> lret out)) (c, s) = (Inr x, c', s')"
        by (simp only: not_True_eq_False if_False lguard_bind)
      show ?thesis
      proof (cases "n + 1 > MAXIMUM_BASIS_CANDIDATES")
        case True
        then show ?thesis using r Cons.prems(2) by (auto simp: lret_def quiet.frame_refl)
      next
        case no: False
        then have "lbind (try_basis_file lib target_id e k b) (\<lambda>r.
            case r of None \<Rightarrow> try_basis_files lib manifest target_id e ks (n + 1) | Some out \<Rightarrow> lret out) (c, s) = (Inr x, c', s')"
          using r by (simp only: if_False)
        then obtain res c1 s1 where t: "try_basis_file lib target_id e k b (c, s) = (Inr res, c1, s1)"
          and r2: "(case res of None \<Rightarrow> try_basis_files lib manifest target_id e ks (n + 1) | Some out \<Rightarrow> lret out) (c1, s1) = (Inr x, c', s')"
          unfolding lbind_Inr split_paired_Ex by blast
        note t' = try_basis_file_Inr [OF t Cons.prems(2) b]
        show ?thesis
        proof (cases res)
          case None
          have "cached (index_of_source lib manifest s1) c1" using t'(1) index_of_source_quiet [OF t'(2), of lib manifest] by simp
          from Cons.IH [OF _ this] r2 None
          have "cached (index_of_source lib manifest s1) c' \<and> unchanged_fs s1 s' \<and>
            (x = (unavailable_decision, []) \<or> (\<exists>k \<in> set ks. planned_against lib manifest target_id e s1 x k))" by simp
          then show ?thesis
            using t'(2) index_of_source_quiet [OF t'(2), of lib manifest] planned_against_quiet [OF t'(2), of lib manifest target_id e x]
              quiet.frame_trans [OF t'(2)] by auto
        next
          case (Some out)
          then have "x = out" "c' = c1" "s' = s1" using r2 by (auto simp: lret_def)
          moreover have "planned_against lib manifest target_id e s out k"
            using t'(3) [OF Some] b True False by (auto simp: planned_against_def)
          ultimately show ?thesis using t'(1,2) by auto
        qed
      qed
    qed
  qed
qed

lemma sender_try_plan_Inr:
  assumes "sender_try_plan lib manifest target_id ids (c, s) = (Inr (dec, out), c', s')" "cached (index_of_source lib manifest s) c"
  shows "cached (index_of_source lib manifest s) c'" "unchanged_fs s s'"
    "lane_completed dec \<Longrightarrow> \<exists>e k. manifest_get manifest target_id = Some e \<and> file_class e = Medium \<and> MINIMUM_TARGET_BYTES \<le> file_size e \<and>
       k \<in> set ids \<and> planned_against lib manifest target_id e s (dec, out) k"
proof -
  from assms(1) obtain e where e: "manifest_get manifest target_id = Some e"
    and r: "(if file_class e \<noteq> Medium \<or> file_size e < MINIMUM_TARGET_BYTES \<or> ids = [] then lret (unavailable_decision, [])
       else lbind (lfs (validate_source_file (final_path e) e)) (\<lambda>_. try_basis_files lib manifest target_id e (rev ids) 0)) (c, s) =
         (Inr (dec, out), c', s')"
    by (auto simp: sender_try_plan_def lbind_Inr lfs_Inr flift_def ok_or_Inr)
  have "cached (index_of_source lib manifest s) c' \<and> unchanged_fs s s' \<and> (lane_completed dec \<longrightarrow>
    file_class e = Medium \<and> MINIMUM_TARGET_BYTES \<le> file_size e \<and> (\<exists>k \<in> set ids. planned_against lib manifest target_id e s (dec, out) k))"
  proof (cases "file_class e \<noteq> Medium \<or> file_size e < MINIMUM_TARGET_BYTES \<or> ids = []")
    case True
    then show ?thesis using r assms(2) by (auto simp: lret_def unavailable_decision_def quiet.frame_refl)
  next
    case False
    with r obtain s1 where v: "validate_source_file (final_path e) e s = (Inr (), s1)"
      and t: "try_basis_files lib manifest target_id e (rev ids) 0 (c, s1) = (Inr (dec, out), c', s')"
      by (auto simp: lbind_Inr lfs_Inr)
    note q = validate_source_file_Inr(1) [OF v]
    have "cached (index_of_source lib manifest s1) c" using assms(2) index_of_source_quiet [OF q, of lib manifest] by simp
    note t' = try_basis_files_Inr [OF t this]
    have "\<exists>k \<in> set ids. planned_against lib manifest target_id e s (dec, out) k" if "lane_completed dec"
      using t' that planned_against_quiet [OF q, of lib manifest target_id e "(dec, out)"] by (auto simp: unavailable_decision_def)
    moreover have "unchanged_fs s s'" using q t' quiet.frame_trans by blast
    ultimately show ?thesis using t' False index_of_source_quiet [OF q, of lib manifest] by (simp add: not_less)
  qed
  then show "cached (index_of_source lib manifest s) c'" "unchanged_fs s s'"
    "lane_completed dec \<Longrightarrow> \<exists>e k. manifest_get manifest target_id = Some e \<and> file_class e = Medium \<and> MINIMUM_TARGET_BYTES \<le> file_size e \<and>
       k \<in> set ids \<and> planned_against lib manifest target_id e s (dec, out) k"
    using e by blast+
qed

text \<open>What a receiver rebuilds from a plan that describes a file.\<close>

lemma received_plan:
  assumes "sound_plan lib content pl"
  shows "target_digest (pl\<lparr>candidate_chunks := 0\<rparr>) = blake3 lib content" "unat (target_bytes (pl\<lparr>candidate_chunks := 0\<rparr>)) = length content"
    "plan_ok (pl\<lparr>candidate_chunks := 0\<rparr>)"
proof -
  have pl: "plan_ok pl" "target_bytes pl = of_nat (length content)" "length content < 2 ^ 64" "target_digest pl = blake3 lib content"
    using assms unfolding sound_plan_def by blast+
  then show "target_digest (pl\<lparr>candidate_chunks := 0\<rparr>) = blake3 lib content" "unat (target_bytes (pl\<lparr>candidate_chunks := 0\<rparr>)) = length content"
    by (simp_all add: unat_of_nat_small)
  show "plan_ok (pl\<lparr>candidate_chunks := 0\<rparr>)" using pl(1) by (simp add: plan_ok_def)
qed

lemma rebuilt_sound:
  assumes "sound_plan lib content pl"
    "reconstruct_verified lib stamp p q n (pl\<lparr>candidate_chunks := 0\<rparr>) d = (Inr u, d')"
  shows "\<exists>x. holds d' (path_components q) x \<and> length x = length content \<and> blake3 lib x = blake3 lib content"
proof -
  from assms(2) obtain dg where "reconstruct lib stamp p q n (pl\<lparr>candidate_chunks := 0\<rparr>) d = (Inr dg, d')"
    by (auto simp: reconstruct_verified_def fbind_Inr fret_def)
  from reconstruct_outcome [OF this] received_plan [OF assms(1)] show ?thesis by (auto simp: verified_output_def)
qed

lemma rebuilt_live:
  assumes "sound_plan lib content pl" "rebuild_ready d stamp q" "file_at d (path_components p) basis" "length basis < 2 ^ 64"
    "expand basis (operations pl) = content"
  shows "\<exists>d'. reconstruct_verified lib stamp p q (of_nat (length basis)) (pl\<lparr>candidate_chunks := 0\<rparr>) d = (Inr (), d') \<and>
    holds d' (path_components q) content"
proof -
  have n: "unat (of_nat (length basis) :: u64) = length basis" using assms(4) by (simp add: unat_of_nat_small)
  have ex: "expand basis (operations (pl\<lparr>candidate_chunks := 0\<rparr>)) = content" using assms(5) by simp
  note p = received_plan [OF assms(1)]
  have "\<exists>d'. reconstruct lib stamp p q (of_nat (length basis)) (pl\<lparr>candidate_chunks := 0\<rparr>) d =
      (Inr (target_digest (pl\<lparr>candidate_chunks := 0\<rparr>)), d') \<and> holds d' (path_components q) content"
    using reconstruct_calm [OF assms(2,3) n p(3), of lib] unfolding ex p(1,2) by simp
  then show ?thesis by (auto simp: reconstruct_verified_def fbind_def fret_def)
qed

lemma committed_basis_calm:
  assumes "rebuild_ready d stamp q" "fmlookup (nodes d) p = Some (FileNode basis t a)" "a AND FILE_ATTRIBUTE_REPARSE_POINT = 0"
  shows "validate_committed_basis p (of_nat (length basis)) d = (Inr (), d)"
  using assms by (simp add: rebuild_ready_def Let_def validate_committed_basis_def symlink_metadata_def syscall_def next_fault_def fbind_def
      fguard_def fret_def is_reparse_def)

text \<open>What the receiver makes of the record the sender wrote.\<close>

lemma session_plan_received:
  assumes "sender_try_plan lib manifest target_id ids (c, s) = (Inr (dec, out), c', s')" "lane_completed dec"
    "cached (index_of_source lib manifest s) c" "libs_ok lib" "set ids \<subseteq> set allowed"
  shows "\<exists>body e content k b basis. out = MESSAGE_SESSION_CDC_PLAN # body \<and> k \<in> set ids \<and>
    manifest_get manifest target_id = Some e \<and> file_at s (final_path e) content \<and> length content = unat (file_size e) \<and>
    manifest_get manifest k = Some b \<and> file_at s (final_path b) basis \<and>
    (\<forall>stamp rest d.
      (\<forall>dec' rest' d'. receiver_apply_plan lib stamp manifest target_id allowed (body @ rest) d = (Inr (dec', rest'), d') \<longrightarrow>
         dec' = dec \<and> rest' = rest \<and>
         (\<exists>x. holds d' (final_path e) x \<and> length x = length content \<and> blake3 lib x = blake3 lib content)) \<and>
      (rebuild_ready d stamp (relative_path e) \<and> (\<exists>t a. fmlookup (nodes d) (final_path b) = Some (FileNode basis t a) \<and> a AND FILE_ATTRIBUTE_REPARSE_POINT = 0) \<and>
       keys_distinguish lib DEFAULT_AVERAGE_KIB basis content \<longrightarrow>
         (\<exists>d'. receiver_apply_plan lib stamp manifest target_id allowed (body @ rest) d = (Inr (dec, rest), d') \<and>
            holds d' (final_path e) content)))"
proof -
  from sender_try_plan_Inr(3) [OF assms(1,3,2)] obtain e k b basis config s1 s2 where
    e: "manifest_get manifest target_id = Some e" "file_class e = Medium" "MINIMUM_TARGET_BYTES \<le> file_size e"
    and k: "k \<in> set ids" "k \<noteq> target_id" "manifest_get manifest k = Some b" "basis_eligible b"
    and f: "unchanged_fs s s1" "file_at s (final_path b) basis" "length basis < 2 ^ 64" "from_average_kib DEFAULT_AVERAGE_KIB = Inr config"
    and p: "plan_against_index lib target_id e k b (index_of lib DEFAULT_AVERAGE_KIB config basis) s1 = (Inr (Some (dec, out)), s2)"
    unfolding planned_against_def by blast
  have f1: "file_at s1 (final_path b) basis" using f(1,2) file_at_quiet by blast
  from plan_against_index_Inr [OF p f1 f(3,4) assms(4)] obtain pl content where
    pl: "file_size b = of_nat (length basis)" "file_at s1 (final_path e) content" "file_size e = of_nat (length content)"
      "sound_plan lib content pl" "session_plan_fits e pl" "dec = completed_decision (file_size e) pl (of_nat (length (plan_wire pl)))"
      "out = MESSAGE_SESSION_CDC_PLAN # session_record target_id k (file_size b) pl" "target_id < 2 ^ 64" "k < 2 ^ 64"
      "keys_distinguish lib DEFAULT_AVERAGE_KIB basis content \<Longrightarrow> expand basis (operations pl) = content" by metis
  let ?body = "session_record target_id k (file_size b) pl" and ?pl = "pl\<lparr>candidate_chunks := 0\<rparr>"
  have content: "file_at s (final_path e) content" "length content = unat (file_size e)"
    using pl(2,3,4) file_at_quiet [OF f(1)] by (simp_all add: sound_plan_def unat_of_nat_small)
  have allowed: "k \<in> set allowed" using k(1) assms(5) by blast
  note read = session_plan_read [OF e k(3,4,2) allowed pl(8,9,4,3,5)]
  have sound: "dec' = dec \<and> rest' = rest \<and> (\<exists>x. holds d' (final_path e) x \<and> length x = length content \<and> blake3 lib x = blake3 lib content)"
    if run: "receiver_apply_plan lib stamp manifest target_id allowed (?body @ rest) d = (Inr (dec', rest'), d')" for stamp rest d dec' rest' d'
  proof -
    from run obtain d1 where r: "reconstruct_verified lib stamp (relative_path b) (relative_path e) (file_size b) ?pl d1 = (Inr (), d')"
      and dd: "dec' = dec" "rest' = rest" unfolding read pl(6) by (auto simp: fbind_Inr fret_def)
    show ?thesis using rebuilt_sound [OF pl(4) r] dd by (simp add: final_path_def)
  qed
  have live: "\<exists>d'. receiver_apply_plan lib stamp manifest target_id allowed (?body @ rest) d = (Inr (dec, rest), d') \<and>
            holds d' (final_path e) content"
    if ready: "rebuild_ready d stamp (relative_path e)" and node: "fmlookup (nodes d) (final_path b) = Some (FileNode basis t a)"
      "a AND FILE_ATTRIBUTE_REPARSE_POINT = 0" and keys: "keys_distinguish lib DEFAULT_AVERAGE_KIB basis content" for stamp rest d t a
  proof -
    have "file_at d (path_components (relative_path b)) basis" using node(1) by (simp add: file_at_def final_path_def)
    from rebuilt_live [OF pl(4) ready this f(3) pl(10) [OF keys]]
    show ?thesis unfolding read using committed_basis_calm [OF ready node] pl(1,6) by (auto simp: fbind_def fret_def final_path_def)
  qed
  show ?thesis
    using pl(7) k(1,3) e(1) content f(2) sound live
    by (intro exI [of _ ?body] exI [of _ e] exI [of _ content] exI [of _ k] exI [of _ b] exI [of _ basis]) blast
qed

text \<open>
  C12. Files against files of the session.  When the sender decides for a plan, its record names a published basis, and a
  receiver that reads the record consumes exactly its bytes.  A receiver that succeeds has the same decision and counters,
  and its file has the size and the digest of the sender's file.  When no call fails, the committed basis has the
  contents of the sender's basis and no two different chunks of the two files share length and digest, the receiver
  succeeds and the file is the sender's file.
\<close>

theorem session_plan_delivers:
  assumes "sender_try_plan lib manifest target_id ids (c, s) = (Inr (dec, out), c', s')" "lane_completed dec"
    "cached (index_of_source lib manifest s) c" "libs_ok lib" "set ids \<subseteq> set allowed"
  shows "\<exists>body e content k b basis. out = MESSAGE_SESSION_CDC_PLAN # body \<and> k \<in> set ids \<and>
    manifest_get manifest target_id = Some e \<and> file_at s (final_path e) content \<and> length content = unat (file_size e) \<and>
    manifest_get manifest k = Some b \<and> file_at s (final_path b) basis \<and>
    (\<forall>stamp rest d.
      (\<forall>dec' rest' d'. receiver_apply_plan lib stamp manifest target_id allowed (body @ rest) d = (Inr (dec', rest'), d') \<longrightarrow>
         dec' = dec \<and> rest' = rest \<and>
         (\<exists>x. holds d' (final_path e) x \<and> length x = length content \<and> blake3 lib x = blake3 lib content)) \<and>
      (rebuild_ready d stamp (relative_path e) \<and> (\<exists>t a. fmlookup (nodes d) (final_path b) = Some (FileNode basis t a) \<and> a AND FILE_ATTRIBUTE_REPARSE_POINT = 0) \<and>
       keys_distinguish lib DEFAULT_AVERAGE_KIB basis content \<longrightarrow>
         (\<exists>d'. receiver_apply_plan lib stamp manifest target_id allowed (body @ rest) d = (Inr (dec, rest), d') \<and>
            holds d' (final_path e) content)))"
  by (rule session_plan_received [OF assms])


section \<open>A plan from anyone\<close>

text \<open>
  A run that may replace the file \<open>p\<close>: whatever happens no other file changes, an error leaves every file or has
  replaced this one by contents that were verified for a plan with \<open>P\<close>, and a result satisfies \<open>Q\<close> with the state
  before, up to the faults to come, and the state after it.
\<close>

definition guarded :: "libs \<Rightarrow> fpath \<Rightarrow> (ReconstructionPlan \<Rightarrow> bool) \<Rightarrow> ('a \<Rightarrow> fs \<Rightarrow> fs \<Rightarrow> bool) \<Rightarrow> 'a fsm \<Rightarrow> bool" where
  "guarded lib p P Q m \<longleftrightarrow> (\<forall>d r d'. m d = (r, d') \<longrightarrow> kept {p} d d' \<and>
     (case r of
        Inl _ \<Rightarrow> kept {} d d' \<or> (\<exists>pl. P pl \<and> verified_output lib pl p d')
      | Inr a \<Rightarrow> \<exists>d1. unchanged_fs d d1 \<and> Q a d1 d'))"

lemma kept_quiet: "unchanged_fs d d1 \<Longrightarrow> kept P d1 d' = kept P d d'"
  by (simp add: kept_def unchanged_fs_def)

lemma guarded_bind:
  assumes "within unchanged_fs m" "\<And>a d d'. m d = (Inr a, d') \<Longrightarrow> guarded lib p P Q (f a)"
  shows "guarded lib p P Q (fbind m f)"
  unfolding guarded_def
proof (intro allI impI)
  fix d r d'
  assume "fbind m f d = (r, d')"
  then show "kept {p} d d' \<and> (case r of
        Inl _ \<Rightarrow> kept {} d d' \<or> (\<exists>pl. P pl \<and> verified_output lib pl p d') | Inr a \<Rightarrow> \<exists>d1. unchanged_fs d d1 \<and> Q a d1 d')"
  proof (cases rule: fbind_cases)
    case (Err e)
    have "unchanged_fs d d'" using withinD [OF assms(1) Err(1)] .
    then show ?thesis using Err(2) by (simp add: kept_def unchanged_fs_def)
  next
    case (Ok a d1)
    have q: "unchanged_fs d d1" using withinD [OF assms(1) Ok(1)] .
    have "guarded lib p P Q (f a)" using assms(2) Ok(1) .
    from this [unfolded guarded_def, rule_format, OF Ok(2)] show ?thesis
      unfolding kept_quiet [OF q] using quiet.frame_trans [OF q] by (auto split: sum.splits)
  qed
qed

lemma guarded_lift: "(\<And>a. r = Inr a \<Longrightarrow> guarded lib p P Q (f a)) \<Longrightarrow> guarded lib p P Q (fbind (flift r) f)"
  by (rule guarded_bind [OF quiet.pure(3)]) (simp add: flift_def)

lemma guarded_lift_pair:
  "(\<And>a b. r = Inr (a, b) \<Longrightarrow> guarded lib p P Q (f a b)) \<Longrightarrow> guarded lib p P Q (fbind (flift r) (\<lambda>(a, b). f a b))"
  by (rule guarded_lift) auto

lemma guarded_guard: "(c \<Longrightarrow> guarded lib p P Q (f ())) \<Longrightarrow> guarded lib p P Q (fbind (fguard c e) f)"
  by (rule guarded_bind [OF quiet.pure(4)]) (auto simp: fguard_def fret_def ffail_def split: if_splits)

lemma quiet_committed_basis: "within unchanged_fs (validate_committed_basis p n)"
  unfolding validate_committed_basis_def by (intro quiet.bind quiet.pure quiet.reads)

lemma committed_basis_Inr:
  assumes "validate_committed_basis p n d = (Inr u, d')"
  shows "\<exists>c t a. fmlookup (nodes d) p = Some (FileNode c t a) \<and> of_nat (length c) = n"
proof -
  from assms obtain x d1 where x: "symlink_metadata p d = (Inr x, d1)" "is_file x" "node_len x = n"
    by (auto simp: validate_committed_basis_def fbind_Inr fguard_def fret_def ffail_def split: if_splits)
  then have "fmlookup (nodes d) p = Some x" by (auto simp: symlink_metadata_def ok_or_Inr unchanged_fs_def dest!: syscall_Inr)
  then show ?thesis using x(2,3) by (cases x) auto
qed

text \<open>The last two calls: the basis is where it was committed, and the plan is applied to it.\<close>

lemma guarded_rebuild:
  assumes "P pl" "\<And>basis d d'. file_at d (path_components b) basis \<Longrightarrow> of_nat (length basis) = k \<Longrightarrow>
      holds d' (path_components q) (expand basis (operations pl)) \<Longrightarrow> verified_output lib pl (path_components q) d' \<Longrightarrow> Q x d d'"
  shows "guarded lib (path_components q) P Q
    (fbind (validate_committed_basis (path_components b) k) (\<lambda>_. fbind (reconstruct_verified lib stamp b q k pl) (\<lambda>_. fret x)))"
  unfolding guarded_def
proof (intro allI impI)
  let ?p = "path_components q"
  fix d r d'
  assume "fbind (validate_committed_basis (path_components b) k) (\<lambda>_. fbind (reconstruct_verified lib stamp b q k pl) (\<lambda>_. fret x)) d = (r, d')"
  then show "kept {?p} d d' \<and> (case r of
        Inl _ \<Rightarrow> kept {} d d' \<or> (\<exists>pl. P pl \<and> verified_output lib pl ?p d') | Inr a \<Rightarrow> \<exists>d1. unchanged_fs d d1 \<and> Q a d1 d')"
  proof (cases rule: fbind_cases)
    case (Err e)
    have "unchanged_fs d d'" using withinD [OF quiet_committed_basis Err(1)] .
    then show ?thesis using Err(2) by (simp add: kept_def unchanged_fs_def)
  next
    case (Ok u d1)
    have q1: "unchanged_fs d d1" using withinD [OF quiet_committed_basis Ok(1)] .
    obtain c t a where c: "fmlookup (nodes d1) (path_components b) = Some (FileNode c t a)" "of_nat (length c) = k"
      using committed_basis_Inr [OF Ok(1)] q1 by (auto simp: unchanged_fs_def)
    from Ok(2) obtain r1 where run: "reconstruct lib stamp b q k pl d1 = (r1, d')" and r: "r = map_sum id (\<lambda>_. x) r1"
      by (auto simp: fbind_def fret_def reconstruct_verified_def split: prod.splits sum.splits)
    note out = reconstruct_outcome [OF run, unfolded kept_quiet [OF q1]]
    show ?thesis
    proof (cases r1)
      case (Inl e)
      then show ?thesis using out r assms(1) by auto
    next
      case (Inr dg)
      then obtain s1 basis where b: "kept {} d s1" "file_at s1 (path_components b) basis" "holds d' ?p (expand basis (operations pl))"
        "verified_output lib pl ?p d'" using out by auto
      have "fmlookup (nodes s1) (path_components b) = Some (FileNode c t a)" using b(1) c(1) q1 by (simp add: kept_def unchanged_fs_def)
      then have "basis = c" using b(2) by (simp add: file_at_def)
      then have "Q x d1 d'" using assms(2) [of d1 c d'] b c by (simp add: file_at_def)
      then show ?thesis using out r Inr q1 by auto
    qed
  qed
qed

lemma read_cdc_payload_Inr:
  "read_cdc_payload maximum bs = Inr (wire, rest) \<Longrightarrow> bs = to_be_bytes (of_nat (length wire) :: u64) @ wire @ rest"
  by (auto simp: read_cdc_payload_def result_simps read_exact_Inr read_u64_def read_be_iffs usize_try_from_def split: if_splits)

text \<open>
  What was read when a session plan is applied: the bytes are the record of exactly this plan \<open>pl\<close> for the target,
  against the file \<open>k\<close> with the entry \<open>b\<close>, which is another one and among the published ones.
\<close>

definition carries_plan ::
    "ManifestEntry list \<Rightarrow> usize \<Rightarrow> usize list \<Rightarrow> ManifestEntry \<Rightarrow> byte list \<Rightarrow> ManifestEntry \<Rightarrow> ReconstructionPlan \<Rightarrow> byte list \<Rightarrow> bool" where
  "carries_plan manifest target_id allowed e bs b pl rest \<longleftrightarrow>
     (\<exists>k. bs = session_record target_id k (file_size b) pl @ rest \<and> k \<in> set allowed \<and> k \<noteq> target_id \<and>
        manifest_get manifest k = Some b \<and> file_class b \<in> {Medium, Large} \<and> file_class e = Medium \<and>
        MINIMUM_TARGET_BYTES \<le> file_size e \<and> target_bytes pl = file_size e \<and>
        plan_referenced_bytes pl \<noteq> 0 \<and> plan_literal_bytes pl \<le> MAXIMUM_LITERAL_BYTES)"

lemma plan_carried:
  assumes "\<not> (file_class e \<noteq> Medium \<or> file_size e < MINIMUM_TARGET_BYTES)"
    "read_file_id bs = Inr (target, bs1)" "target = target_id" "read_file_id bs1 = Inr (k, bs2)" "k \<noteq> target_id" "k \<in> set allowed"
    "ok_or InvalidData (manifest_get manifest k) = Inr b" "file_class b = Medium \<or> file_class b = Large"
    "read_u64 bs2 = Inr (n, bs3)" "n = file_size b" "read_cdc_payload maximum bs3 = Inr (wire, rest)"
    "plan_decode_wire wire = Inr pl" "target_bytes pl = file_size e" "plan_referenced_bytes pl \<noteq> 0"
    "plan_literal_bytes pl \<le> MAXIMUM_LITERAL_BYTES"
  shows "carries_plan manifest target_id allowed e bs b pl rest" "wire = plan_wire pl"
proof -
  show w: "wire = plan_wire pl" using assms(12) by (simp add: plan_decode_wire_Inr)
  have "bs3 = to_be_bytes (of_nat (length wire) :: u64) @ wire @ rest" by (rule read_cdc_payload_Inr [OF assms(11)])
  moreover have "bs2 = to_be_bytes n @ bs3" using assms(9) by (simp add: read_u64_def read_be_iffs)
  moreover have "bs = to_be_bytes (of_nat target :: u64) @ bs1" "bs1 = to_be_bytes (of_nat k :: u64) @ bs2"
    using assms(2,4) by (simp_all add: read_file_id_Inr)
  ultimately have "bs = session_record target_id k (file_size b) pl @ rest" using assms(3,10) w by (simp add: session_record_def)
  then show "carries_plan manifest target_id allowed e bs b pl rest"
    using assms(1,5-8,13-15) by (auto simp: carries_plan_def ok_or_Inr)
qed

lemma plan_applied:
  assumes "\<not> (file_class e \<noteq> Medium \<or> file_size e < MINIMUM_TARGET_BYTES)"
    "read_file_id bs = Inr (target, bs1)" "target = target_id" "read_file_id bs1 = Inr (k, bs2)" "k \<noteq> target_id" "k \<in> set allowed"
    "ok_or InvalidData (manifest_get manifest k) = Inr b" "file_class b = Medium \<or> file_class b = Large"
    "read_u64 bs2 = Inr (n, bs3)" "n = file_size b" "read_cdc_payload maximum bs3 = Inr (wire, rest)"
    "plan_decode_wire wire = Inr pl" "target_bytes pl = file_size e" "plan_referenced_bytes pl \<noteq> 0"
    "plan_literal_bytes pl \<le> MAXIMUM_LITERAL_BYTES" "word_try_from OtherError (length wire) = Inr m"
    "file_at d (path_components (relative_path b)) basis" "of_nat (length basis) = n" "holds d' p (expand basis (operations pl))"
    "verified_output lib pl p d'"
  shows "\<exists>b pl' basis. carries_plan manifest target_id allowed e bs b pl' (snd (completed_decision (file_size e) pl m, rest)) \<and>
      fst (completed_decision (file_size e) pl m, rest) = completed_decision (file_size e) pl' (of_nat (length (plan_wire pl'))) \<and>
      file_at d (path_components (relative_path b)) basis \<and> of_nat (length basis) = file_size b \<and>
      holds d' p (expand basis (operations pl')) \<and> verified_output lib pl' p d'"
proof -
  note c = plan_carried [OF assms(1-15)]
  have "m = of_nat (length (plan_wire pl))" using assms(16) c(2) by (simp add: word_try_from_def split: if_splits)
  then show ?thesis using c(1) assms(10,17-20) by auto
qed

text \<open>
  C14. Applying a session plan is safe, whatever bytes arrive and whatever calls fail.  No file changes but the target of
  the expected entry.  An error leaves every file as it was, or the bytes carry the record of a plan and the target
  already has contents of the size and the BLAKE3 digest of that plan.  A success has read the record of a plan and
  nothing more, for the expected target, against a published file other than the target; that file stood in the
  destination with the size of its entry, and the target is what the plan makes of its bytes, with the size and the
  digest the plan announces; the counters of the decision are those of the plan.
\<close>

theorem session_plan_safe:
  assumes "receiver_apply_plan lib stamp manifest expected_id allowed bs d = (r, d')" "manifest_get manifest expected_id = Some e"
  shows "kept {final_path e} d d' \<and>
    (case r of
       Inl _ \<Rightarrow> kept {} d d' \<or>
         (\<exists>b pl rest. carries_plan manifest expected_id allowed e bs b pl rest \<and> verified_output lib pl (final_path e) d')
     | Inr (dec, rest) \<Rightarrow> \<exists>b pl basis. carries_plan manifest expected_id allowed e bs b pl rest \<and>
         dec = completed_decision (file_size e) pl (of_nat (length (plan_wire pl))) \<and>
         file_at d (final_path b) basis \<and> of_nat (length basis) = file_size b \<and>
         holds d' (final_path e) (expand basis (operations pl)) \<and> verified_output lib pl (final_path e) d')"
proof -
  let ?P = "\<lambda>pl. \<exists>b rest. carries_plan manifest expected_id allowed e bs b pl rest"
  let ?Q = "\<lambda>x d d'. \<exists>b pl basis. carries_plan manifest expected_id allowed e bs b pl (snd x) \<and>
      fst x = completed_decision (file_size e) pl (of_nat (length (plan_wire pl))) \<and>
      file_at d (final_path b) basis \<and> of_nat (length basis) = file_size b \<and>
      holds d' (final_path e) (expand basis (operations pl)) \<and> verified_output lib pl (final_path e) d'"
  have "guarded lib (path_components (relative_path e)) ?P ?Q (receiver_apply_plan lib stamp manifest expected_id allowed bs)"
    unfolding receiver_apply_plan_def final_path_def
    apply (rule guarded_lift)
    apply (simp only: assms(2) ok_or_simps sum.inject)
    apply (rule guarded_guard guarded_lift_pair guarded_lift)+
    apply (rule guarded_rebuild)
    subgoal by (intro exI, rule plan_carried(1), assumption+)
    subgoal by (rule plan_applied, assumption+)
    done
  then have "kept {final_path e} d d' \<and> (case r of
        Inl _ \<Rightarrow> kept {} d d' \<or> (\<exists>pl. ?P pl \<and> verified_output lib pl (final_path e) d') | Inr a \<Rightarrow> \<exists>d1. unchanged_fs d d1 \<and> ?Q a d1 d')"
    using assms(1) unfolding guarded_def final_path_def by blast
  then show ?thesis
    by (cases r) (auto, metis file_at_quiet)
qed

section \<open>Negotiation about one file\<close>

lemma validate_source_eq: "validate_source = validate_source_file"
  by (intro ext) (simp add: validate_source_def validate_source_file_def)

lemma read_u8_written: "read_u8 (b # rest) = Inr (b, rest)"
  using read_be_simps(1) [of b rest] by (simp add: read_u8_def)

lemma cdc_tags:
  "MESSAGE_CDC_INDEX \<noteq> MESSAGE_CDC_UNAVAILABLE" "MESSAGE_CDC_PLAN \<noteq> MESSAGE_CDC_FALLBACK"
  by (simp_all add: MESSAGE_CDC_INDEX_def MESSAGE_CDC_UNAVAILABLE_def MESSAGE_CDC_PLAN_def MESSAGE_CDC_FALLBACK_def)

definition id_bytes :: "usize \<Rightarrow> byte list" where "id_bytes i = to_be_bytes (of_nat i :: u64)"

lemma send_unavailable_Inr: "send_unavailable i = Inr bs \<longleftrightarrow> i < 2 ^ 64 \<and> bs = MESSAGE_CDC_UNAVAILABLE # id_bytes i"
  by (auto simp: send_unavailable_def ebind_Inr write_file_id_bytes engine_prims id_bytes_def)

lemma send_fallback_Inr: "send_fallback i = Inr bs \<longleftrightarrow> i < 2 ^ 64 \<and> bs = MESSAGE_CDC_FALLBACK # id_bytes i"
  by (auto simp: send_fallback_def ebind_Inr write_file_id_bytes engine_prims id_bytes_def)

text \<open>The offer with an index, and the reply with a plan.\<close>

definition index_offer :: "usize \<Rightarrow> byte list \<Rightarrow> byte list" where
  "index_offer i wire = MESSAGE_CDC_INDEX # id_bytes i @ to_be_bytes (of_nat (length wire) :: u64) @ wire"

definition plan_reply :: "usize \<Rightarrow> byte list \<Rightarrow> byte list" where
  "plan_reply i wire = MESSAGE_CDC_PLAN # id_bytes i @ to_be_bytes (of_nat (length wire) :: u64) @ wire"

lemma quiet_eligible: "within unchanged_fs (eligible_basis p)"
  unfolding within_def
proof
  fix s
  obtain r s' where r: "symlink_metadata p s = (r, s')" by force
  have "unchanged_fs s s'" using withinD [OF quiet.reads(1) r] .
  then show "unchanged_fs s (snd (eligible_basis p s))" by (cases r) (auto simp: eligible_basis_def r)
qed

lemma index_wire_bounds:
  assumes "index_encode_wire index = Inr wire"
  shows "0 < length wire"
  using assms by (auto simp: index_encode_wire_Inr index_wire_def WIRE_MAGIC_def)

lemma offer_unavailable_Inr:
  "offer_unavailable i t = (Inr x, t') \<longleftrightarrow> x = (MESSAGE_CDC_UNAVAILABLE # id_bytes i, None) \<and> i < 2 ^ 64 \<and> t' = t"
  by (auto simp: offer_unavailable_def flift_bind fret_def send_unavailable_Inr)

lemma offer_index_Inr:
  assumes "offer_index i built t = (Inr x, t')"
  shows "(x = (MESSAGE_CDC_UNAVAILABLE # id_bytes i, None) \<or>
      (\<exists>index wire. built = Inr index \<and> index_encode_wire index = Inr wire \<and> length wire \<le> MAXIMUM_INDEX_WIRE_BYTES \<and>
         x = (index_offer i wire, Some (index_file_bytes index, of_nat (length wire))))) \<and> i < 2 ^ 64 \<and> t' = t"
proof (cases built)
  case (Inl err)
  then show ?thesis using assms by (simp add: offer_index_def offer_unavailable_Inr)
next
  case (Inr index)
  with assms obtain wire where w: "index_encode_wire index = Inr wire"
    and r: "(if length wire > MAXIMUM_INDEX_WIRE_BYTES then offer_unavailable i
        else
          fbind (flift (word_try_from OtherError (length wire))) (\<lambda>index_bytes.
          fbind (flift (wcat [write_u8 MESSAGE_CDC_INDEX, write_file_id i, write_u64 index_bytes, Inr wire])) (\<lambda>offer.
            fret (offer, Some (index_file_bytes index, index_bytes))))) t = (Inr x, t')"
    by (auto simp: offer_index_def flift_bind [of "index_encode_wire index"])
  show ?thesis
  proof (cases "length wire > MAXIMUM_INDEX_WIRE_BYTES")
    case True
    then show ?thesis using r by (simp add: offer_unavailable_Inr)
  next
    case False
    then show ?thesis using r w Inr
      by (auto simp: flift_bind word_try_from_Inr fret_def ebind_Inr write_file_id_bytes engine_prims index_offer_def id_bytes_def)
  qed
qed

lemma receiver_offer_cases:
  assumes "receiver_offer_index lib i e enabled d = (Inr (offer, pending), d')"
  shows "unchanged_fs d d' \<and> i < 2 ^ 64 \<and> ((offer, pending) = (MESSAGE_CDC_UNAVAILABLE # id_bytes i, None) \<or>
      (\<exists>index wire basis config. file_at d (final_path e) basis \<and> length basis < 2 ^ 64 \<and> from_average_kib DEFAULT_AVERAGE_KIB = Inr config \<and>
         index = index_of lib DEFAULT_AVERAGE_KIB config basis \<and> index_encode_wire index = Inr wire \<and> length wire \<le> MAXIMUM_INDEX_WIRE_BYTES \<and>
         (offer, pending) = (index_offer i wire, Some (index_file_bytes index, of_nat (length wire)))))"
proof (cases "\<not> enabled \<or> \<not> (file_class e = Medium \<or> file_class e = Large) \<or> file_size e < MINIMUM_FILE_BYTES")
  case True
  then have "offer_unavailable i d = (Inr (offer, pending), d')" using assms by (simp add: receiver_offer_index_def)
  then show ?thesis by (simp add: offer_unavailable_Inr quiet.frame_refl)
next
  case False
  with assms obtain eligible d1 where e1: "eligible_basis (final_path e) d = (Inr eligible, d1)"
    and r: "(if \<not> eligible then offer_unavailable i
       else fbind (attempt (BasisFileIndex_build lib (final_path e) DEFAULT_AVERAGE_KIB)) (offer_index i)) d1 = (Inr (offer, pending), d')"
    unfolding receiver_offer_index_def by (auto simp: fbind_Inr [of "eligible_basis p" for p])
  have q1: "unchanged_fs d d1" using withinD [OF quiet_eligible e1] .
  show ?thesis
  proof (cases eligible)
    case False
    then show ?thesis using r q1 by (simp add: offer_unavailable_Inr)
  next
    case True
    obtain built d2 where b: "BasisFileIndex_build lib (final_path e) DEFAULT_AVERAGE_KIB d1 = (built, d2)" by force
    have q2: "unchanged_fs d1 d2" using withinD [OF quiet_index_build b] .
    have s: "offer_index i built d2 = (Inr (offer, pending), d')" using r True b by (simp add: fbind_def attempt_def)
    have q: "unchanged_fs d d'" using q1 q2 offer_index_Inr [OF s] quiet.frame_trans by blast
    from offer_index_Inr [OF s] show ?thesis
      using q BasisFileIndex_build_Inr(1) [of lib "final_path e" DEFAULT_AVERAGE_KIB d1] b file_at_quiet [OF q1] by blast
  qed
qed

text \<open>The sender's reply.\<close>

definition plan_pays :: "ManifestEntry \<Rightarrow> u64 \<Rightarrow> ReconstructionPlan \<Rightarrow> bool" where
  "plan_pays e index_bytes pl \<longleftrightarrow> length (plan_wire pl) \<le> MAXIMUM_PLAN_WIRE_BYTES \<and>
     unat index_bytes + length (plan_wire pl) < unat (file_size e)"

lemma reply_with_plan_Inr:
  assumes "reply_with_plan i e index_bytes pl s = (Inr (dec, reply), s')" "plan_ok pl"
  shows "unchanged_fs s s'" "file_at s (final_path e) c \<Longrightarrow> file_size e = of_nat (length c)" "i < 2 ^ 64"
    "(dec, reply) = (fallback_decision index_bytes, MESSAGE_CDC_FALLBACK # id_bytes i) \<or>
     plan_pays e index_bytes pl \<and>
     (dec, reply) = (planned_decision index_bytes (file_size e) pl (of_nat (length (plan_wire pl))), plan_reply i (plan_wire pl))"
proof -
  let ?w = "plan_wire pl"
  from assms have v: "validate_source_file (final_path e) e s = (Inr (), s')"
    and r: "i < 2 ^ 64 \<and> ((dec, reply) = (fallback_decision index_bytes, MESSAGE_CDC_FALLBACK # id_bytes i) \<or>
      (\<exists>total. length ?w \<le> MAXIMUM_PLAN_WIRE_BYTES \<and> checked_add index_bytes (of_nat (length ?w)) = Some total \<and> total < file_size e \<and>
       (dec, reply) = (planned_decision index_bytes (file_size e) pl (of_nat (length ?w)), plan_reply i ?w)))"
    unfolding reply_with_plan_def validate_source_eq fbind_Inr [of "validate_source_file p e" for p e]
    by (auto simp: flift_bind fret_def ok_or_Inr plan_encode_wire_ok word_try_from_Inr send_fallback_Inr not_less not_le ebind_Inr
        write_file_id_bytes engine_prims plan_reply_def id_bytes_def split: if_splits)
  show "unchanged_fs s s'" "file_at s (final_path e) c \<Longrightarrow> file_size e = of_nat (length c)" "i < 2 ^ 64"
    using validate_source_file_Inr [OF v] r by blast+
  have small: "length ?w \<le> MAXIMUM_PLAN_WIRE_BYTES \<Longrightarrow> unat (of_nat (length ?w) :: u64) = length ?w"
    using MAXIMUM_PLAN_small(1) by (intro unat_of_nat_small) simp
  show "(dec, reply) = (fallback_decision index_bytes, MESSAGE_CDC_FALLBACK # id_bytes i) \<or> plan_pays e index_bytes pl \<and>
     (dec, reply) = (planned_decision index_bytes (file_size e) pl (of_nat (length ?w)), plan_reply i ?w)"
    using r small by (auto simp: plan_pays_def word_less_nat_alt dest!: unat_checked_add)
qed

lemma reply_to_index_Inr:
  assumes "reply_to_index lib i e m (index_of lib DEFAULT_AVERAGE_KIB config basis) s = (Inr (dec, reply), s')"
    "length basis < 2 ^ 64" "from_average_kib DEFAULT_AVERAGE_KIB = Inr config" "libs_ok lib"
  shows "unchanged_fs s s' \<and> i < 2 ^ 64 \<and> ((dec, reply) = (fallback_decision m, MESSAGE_CDC_FALLBACK # id_bytes i) \<or>
    (\<exists>pl content. file_at s (final_path e) content \<and> file_size e = of_nat (length content) \<and> sound_plan lib content pl \<and> plan_pays e m pl \<and>
      (dec, reply) = (planned_decision m (file_size e) pl (of_nat (length (plan_wire pl))), plan_reply i (plan_wire pl)) \<and>
      (keys_distinguish lib DEFAULT_AVERAGE_KIB basis content \<longrightarrow> expand basis (operations pl) = content)))"
proof -
  let ?i = "index_of lib DEFAULT_AVERAGE_KIB config basis"
  obtain built s1 s2 where v: "validate_source_file (final_path e) e s = (Inr (), s1)"
    and b: "build_bounded lib (final_path e) ?i MAXIMUM_LITERAL_BYTES s1 = (built, s2)"
    and r: "(case built of
       Inl error \<Rightarrow>
         if is_literal_limit_exceeded error
         then fbind (flift (send_fallback i)) (\<lambda>reply. fret (fallback_decision m, reply))
         else ffail error
     | Inr pl \<Rightarrow> reply_with_plan i e m pl) s2 = (Inr (dec, reply), s')"
    using assms(1) unfolding reply_to_index_def validate_source_eq fguard_bind fbind_Inr [of "validate_source_file p e" for p e]
    by (auto simp: fbind_def attempt_def split: prod.splits)
  have q1: "unchanged_fs s s1" "unchanged_fs s1 s2" using validate_source_file_Inr(1) [OF v] withinD [OF quiet_build_bounded b] by blast+
  show ?thesis
  proof (cases built)
    case (Inl err)
    then show ?thesis using r q1 quiet.frame_trans by (auto simp: flift_bind send_fallback_Inr fret_def ffail_def split: if_splits)
  next
    case (Inr pl)
    from built_plan [OF b [unfolded Inr] assms(4,3,2)] obtain content where
      c: "file_at s1 (final_path e) content" "sound_plan lib content pl" "keys_distinguish lib DEFAULT_AVERAGE_KIB basis content \<Longrightarrow> expand basis (operations pl) = content"
      by blast
    have w: "reply_with_plan i e m pl s2 = (Inr (dec, reply), s')" using r Inr by simp
    have "plan_ok pl" using c(2) by (simp add: sound_plan_def)
    note w' = reply_with_plan_Inr [OF w this]
    have f: "file_at s2 (final_path e) content" "file_at s (final_path e) content" using c(1) file_at_quiet q1 by blast+
    show ?thesis using w'(1,3,4) w'(2) [OF f(1)] c(2,3) f(2) q1 quiet.frame_trans by blast
  qed
qed

lemma sender_reads_unavailable:
  assumes "i < 2 ^ 64"
  shows "sender_negotiate lib i e ((MESSAGE_CDC_UNAVAILABLE # id_bytes i) @ extra) = fret (unavailable_decision, [], extra)"
  using assms by (simp add: sender_negotiate_def read_u8_written flift_step id_bytes_def read_file_id_again validate_file_id_def)

lemma sender_reads_index:
  assumes "i < 2 ^ 64" "index_encode_wire index = Inr wire" "index_ok index" "length wire \<le> MAXIMUM_INDEX_WIRE_BYTES"
  shows "sender_negotiate lib i e (index_offer i wire @ extra) =
    fbind (reply_to_index lib i e (of_nat (length wire)) index) (\<lambda>(decision, reply). fret (decision, reply, extra))"
proof -
  have "0 < length wire" "length wire < 2 ^ 64" using index_wire_bounds [OF assms(2)] assms(4) MAXIMUM_PLAN_small(2) by simp_all
  moreover have "index_decode_wire wire = Inr index" using index_wire_exact assms(2,3) by blast
  ultimately show ?thesis
    using assms(1,4) cdc_tags(1)
    by (simp add: sender_negotiate_def index_offer_def read_u8_written flift_step id_bytes_def read_file_id_again validate_file_id_def
        read_payload_written word_try_from_def)
qed

lemma receiver_reads_fallback:
  assumes "i < 2 ^ 64"
  shows "receiver_read_reply lib stamp i e n m ((MESSAGE_CDC_FALLBACK # id_bytes i) @ rest) = fret (fallback_decision m, rest)"
  using assms by (simp add: receiver_read_reply_def read_u8_written flift_step id_bytes_def read_file_id_again validate_file_id_def)

lemma receiver_reads_plan:
  assumes "i < 2 ^ 64" "sound_plan lib' content pl" "file_size e = of_nat (length content)" "plan_pays e m pl"
  shows "receiver_read_reply lib stamp i e n m (plan_reply i (plan_wire pl) @ rest) =
    fbind (reconstruct_verified lib stamp (relative_path e) (relative_path e) n (pl\<lparr>candidate_chunks := 0\<rparr>)) (\<lambda>_.
      fret (planned_decision m (file_size e) pl (of_nat (length (plan_wire pl))), rest))"
proof -
  let ?w = "plan_wire pl" and ?n = "of_nat (length (plan_wire pl)) :: u64"
  have ok: "plan_ok pl" "target_bytes pl = file_size e" "plan_literal_bytes pl \<le> MAXIMUM_LITERAL_BYTES"
    using assms(2,3) by (simp_all add: sound_plan_def)
  have w: "0 < length ?w" "length ?w \<le> MAXIMUM_PLAN_WIRE_BYTES" "length ?w < 2 ^ 64"
    using assms(4) MAXIMUM_PLAN_small(1) by (auto simp: plan_pays_def plan_wire_def PLAN_MAGIC_def)
  have un: "unat ?n = length ?w" using w(3) by (simp add: unat_of_nat_small)
  have sum: "unat m + length ?w < unat (file_size e)" using assms(4) by (simp add: plan_pays_def)
  then have lt: "unat m + length ?w < 2 ^ 64" using unat_less_2p [of "file_size e"] by simp
  then have t: "checked_add m ?n = Some (m + ?n)" "m + ?n < file_size e"
    using sum by (simp_all add: checked_add_def un word_less_nat_alt unat_word_ariths)
  have dec: "planned_decision m (file_size e) (pl\<lparr>candidate_chunks := 0\<rparr>) ?n = planned_decision m (file_size e) pl ?n"
    by (simp add: planned_decision_def)
  have n: "word_try_from OtherError (length ?w) = Inr ?n" using w(3) by (simp add: word_try_from_def)
  show ?thesis
    using assms(1) ok n t cdc_tags(2)
    by (simp add: receiver_read_reply_def plan_reply_def read_u8_written flift_step id_bytes_def read_file_id_again validate_file_id_def
        read_payload_written [OF w] plan_decode_again fguard_step dec)
qed

text \<open>
  C13. Negotiating about a file the receiver has an older version of.  When the receiver has written its offer and the
  sender its reply, each side has consumed exactly what the other wrote.  If the receiver offered no index, both go on
  with an ordinary transfer.  Otherwise a receiver that accepts the reply has the sender's decision and counters, and when
  that is a plan, its file has the size and digest of the sender's file; and if the receiver's file is still the one it
  indexed, no call fails and no two different chunks share length and digest, it does accept, and with a plan its file
  becomes the sender's file.
\<close>

theorem negotiation_agrees:
  assumes "receiver_offer_index lib i e enabled d = (Inr (offer, pending), d1)"
    "sender_negotiate lib i e (offer @ extra) s = (Inr (dec, reply, extra'), s')" "libs_ok lib"
  shows "extra' = extra \<and> unchanged_fs d d1 \<and> unchanged_fs s s' \<and>
    (case pending of
       None \<Rightarrow> dec = unavailable_decision \<and> reply = []
     | Some (n, m) \<Rightarrow> (\<exists>content basis. (lane_completed dec \<longrightarrow> file_at s (final_path e) content) \<and> file_at d (final_path e) basis \<and>
         (\<forall>stamp rest d2.
            (\<forall>dec' rest' d3. receiver_read_reply lib stamp i e n m (reply @ rest) d2 = (Inr (dec', rest'), d3) \<longrightarrow>
               dec' = dec \<and> rest' = rest \<and>
               (lane_completed dec \<longrightarrow> (\<exists>x. holds d3 (final_path e) x \<and> length x = length content \<and> blake3 lib x = blake3 lib content))) \<and>
            (rebuild_ready d2 stamp (relative_path e) \<and> file_at d2 (final_path e) basis \<and>
             keys_distinguish lib DEFAULT_AVERAGE_KIB basis content \<longrightarrow>
               (\<exists>d3. receiver_read_reply lib stamp i e n m (reply @ rest) d2 = (Inr (dec, rest), d3) \<and>
                  (lane_completed dec \<longrightarrow> holds d3 (final_path e) content))))))"
proof -
  note ofr = receiver_offer_cases [OF assms(1)]
  show ?thesis
  proof (cases pending)
    case None
    then have "offer = MESSAGE_CDC_UNAVAILABLE # id_bytes i" "i < 2 ^ 64" using ofr by auto
    then show ?thesis using assms(2) ofr None sender_reads_unavailable [of i lib e extra] by (auto simp: fret_def quiet.frame_refl)
  next
    case (Some nm)
    obtain n m where nm: "nm = (n, m)" by force
    from ofr Some nm obtain wire basis config where
      b: "file_at d (final_path e) basis" "length basis < 2 ^ 64" "from_average_kib DEFAULT_AVERAGE_KIB = Inr config"
      and w: "index_encode_wire (index_of lib DEFAULT_AVERAGE_KIB config basis) = Inr wire" "length wire \<le> MAXIMUM_INDEX_WIRE_BYTES"
      and of': "offer = index_offer i wire" "m = of_nat (length wire)" "n = of_nat (length basis)" and i: "i < 2 ^ 64"
      by (auto simp: index_of_def Let_def)
    have "index_ok (index_of lib DEFAULT_AVERAGE_KIB config basis)" using index_of_ok(1) [OF assms(3) b(3,2)] .
    from assms(2) [unfolded of'(1) sender_reads_index [OF i w(1) this w(2)]]
    have r: "reply_to_index lib i e m (index_of lib DEFAULT_AVERAGE_KIB config basis) s = (Inr (dec, reply), s')" and m: "extra' = extra"
      by (auto simp: fbind_Inr fret_def of')
    have qs: "unchanged_fs s s'" using reply_to_index_Inr [OF r b(2,3) assms(3)] by blast
    from reply_to_index_Inr [OF r b(2,3) assms(3)]
    consider (Fall) "dec = fallback_decision m" "reply = MESSAGE_CDC_FALLBACK # id_bytes i"
      | (Plan) pl content where "file_at s (final_path e) content" "file_size e = of_nat (length content)" "sound_plan lib content pl" "plan_pays e m pl"
        "dec = planned_decision m (file_size e) pl (of_nat (length (plan_wire pl)))" "reply = plan_reply i (plan_wire pl)"
        "keys_distinguish lib DEFAULT_AVERAGE_KIB basis content \<longrightarrow> expand basis (operations pl) = content" by blast
    then show ?thesis
    proof cases
      case Fall
      then have "\<not> lane_completed dec" by (simp add: fallback_decision_def)
      then show ?thesis using receiver_reads_fallback [OF i] Fall m ofr qs b(1) by (auto simp: Some nm fret_def)
    next
      case Plan
      note read = receiver_reads_plan [OF i Plan(3,2,4)]
      have sound: "dec' = dec \<and> rest' = rest \<and> (\<exists>x. holds d3 (final_path e) x \<and> length x = length content \<and> blake3 lib x = blake3 lib content)"
        if "receiver_read_reply lib stamp i e n m (reply @ rest) d2 = (Inr (dec', rest'), d3)" for stamp rest d2 dec' rest' d3
        using that unfolding Plan(5,6) read by (auto simp: fbind_Inr fret_def final_path_def dest!: rebuilt_sound [OF Plan(3)])
      have live: "\<exists>d3. receiver_read_reply lib stamp i e n m (reply @ rest) d2 = (Inr (dec, rest), d3) \<and> holds d3 (final_path e) content"
        if ready: "rebuild_ready d2 stamp (relative_path e)" and older: "file_at d2 (final_path e) basis"
          and keys: "keys_distinguish lib DEFAULT_AVERAGE_KIB basis content" for stamp rest d2
        using rebuilt_live [OF Plan(3) ready older [unfolded final_path_def] b(2)] Plan(7) keys
        unfolding Plan(5,6) read of'(3) by (auto simp: fbind_def fret_def final_path_def)
      show ?thesis
        unfolding Some nm option.case prod.case using m ofr qs b(1) Plan(1) sound live
        by (intro conjI exI [of _ content] exI [of _ basis]) blast+
    qed
  qed
qed

section \<open>A file that was sent before\<close>

lemma append_basis_total:
  assumes "\<forall>op \<in> set ops. op_ok op" "len \<noteq> 0" "referenced_total ops + unat len < 2 ^ 64"
  shows "\<exists>ops'. append_basis ops off len = Inr ops'"
proof (cases ops rule: rev_cases)
  case (snoc front op)
  show ?thesis
  proof (cases op)
    case (BasisRange po pn)
    have "unat po + unat pn < 2 ^ 64" "unat pn + unat len < 2 ^ 64" using assms(1,3) snoc BasisRange by simp_all
    then have "checked_add po pn \<noteq> None" "checked_add pn len \<noteq> None" by (simp_all add: checked_add_None)
    then show ?thesis using assms(2) snoc BasisRange by (auto simp: append_basis_def)
  qed (use assms(2) snoc in \<open>simp add: append_basis_def\<close>)
qed (use assms(2) in \<open>simp add: append_basis_def\<close>)

lemma add_location_keeps: "fmlookup m key \<noteq> None \<Longrightarrow> fmlookup (fold add_location rs m) key \<noteq> None"
  by (induction rs arbitrary: m) (auto simp: add_location_def or_insert_def split: option.splits)

lemma add_locations_known: "r \<in> set rs \<Longrightarrow> fmlookup (fold add_location rs m) (basis_key r) \<noteq> None"
proof (induction rs arbitrary: m)
  case (Cons x rs)
  have "fmlookup (add_location x m) (basis_key x) \<noteq> None" by (auto simp: add_location_def or_insert_def split: option.splits)
  then show ?case using Cons add_location_keeps [of "add_location x m" "basis_key x" rs] by auto
qed simp

lemma index_of_knows:
  assumes "x \<in> set (chunks_of config contents)"
  shows "index_find (index_of lib k config contents) (key_of lib x) \<noteq> None"
proof -
  have "x \<in> set (map snd (with_offsets 0 (chunks_of config contents)))" using assms by (simp only: map_snd_with_offsets)
  then obtain off where "(off, x) \<in> set (with_offsets 0 (chunks_of config contents))" unfolding set_map by force
  then have "record_of lib (off, x) \<in> set (map (record_of lib) (with_offsets 0 (chunks_of config contents)))" by simp
  from add_locations_known [OF this, of fmempty] show ?thesis by (simp add: index_find_def index_of_def Let_def record_of_def)
qed

lemma plan_visits_known:
  assumes "\<forall>x \<in> set cs. index_find index (key_of lib x) \<noteq> None \<and> length x < 2 ^ 32 \<and> x \<noteq> []" "index_safe index"
    "plan_inv limit seen n st" "literal_so_far st = 0" "length seen + length (concat cs) < 2 ^ 64"
  shows "\<exists>st'. efold (\<lambda>v (o', c). plan_visitor lib index limit v o' c) st (with_offsets start cs) = Inr st' \<and> literal_so_far st' = 0"
  using assms(1,3-5)
proof (induction cs arbitrary: st seen n start)
  case (Cons x cs)
  from Cons.prems(1) obtain loc where loc: "index_find index (key_of lib x) = Some loc" and x: "length x < 2 ^ 32" "x \<noteq> []" by auto
  have un: "unat (of_nat (length x) :: u64) = length x" using x by (simp add: unat_of_nat_small)
  have nz: "(of_nat (length x) :: u64) \<noteq> 0" using x(2) un by (metis length_0_conv unat_0)
  have ref: "referenced_total (plan_operations st) \<le> length seen" "unat (referenced_so_far st) = referenced_total (plan_operations st)"
    "\<forall>op \<in> set (plan_operations st). op_ok op" using Cons.prems(2) by (auto simp: plan_inv_def)
  have sum: "referenced_total (plan_operations st) + unat (of_nat (length x) :: u64) < 2 ^ 64" using ref(1) un Cons.prems(4) by simp
  from append_basis_total [OF ref(3) nz sum, of loc] obtain ops where ops: "append_basis (plan_operations st) loc (of_nat (length x)) = Inr ops" by blast
  have "checked_add (referenced_so_far st) (of_nat (length x)) \<noteq> None" using sum ref(2) by (simp add: checked_add_None)
  then obtain st1 where v: "plan_visitor lib index limit st start x = Inr st1" and l: "literal_so_far st1 = 0"
    using loc ops chunk_key_ok [OF x(1)] x(1) Cons.prems(3) by (auto simp: plan_visitor_def word_try_from_def)
  from Cons.IH [OF _ plan_visitor_inv(1) [OF v Cons.prems(2) x(1) assms(2)] l, of "start + of_nat (length x)"] Cons.prems(1,4)
  show ?case using v by simp
qed simp

text \<open>Planning a file against its own index.\<close>

lemma build_bounded_same:
  assumes "file_at s p c" "faults s = []" "length c < 2 ^ 64" "from_average_kib k = Inr config" "libs_ok lib"
  shows "\<exists>pl. build_bounded lib p (index_of lib k config c) limit s = (Inr pl, s) \<and> plan_literal_bytes pl = 0"
proof -
  let ?i = "index_of lib k config c" and ?cs = "chunks_of config c"
  have ok: "config_ok config" using from_average_kib_ok(1) [OF assms(4)] .
  have safe: "index_safe ?i" using index_ok_safe index_of_ok(1) [OF assms(5,4,3)] by blast
  have cs: "\<forall>x \<in> set ?cs. index_find ?i (key_of lib x) \<noteq> None \<and> length x < 2 ^ 32 \<and> x \<noteq> []"
    using index_of_knows small_chunks [OF ok] by blast
  have init: "plan_inv limit [] 0 initial_plan" "literal_so_far initial_plan = 0" by (simp_all add: plan_inv_def initial_plan_def)
  from plan_visits_known [OF cs safe init, of 0] assms(3) obtain st where
    st: "efold (\<lambda>v (o', c). plan_visitor lib ?i limit v o' c) initial_plan (with_offsets 0 ?cs) = Inr st" "literal_so_far st = 0" by auto
  have "plan_inv limit c (length ?cs) st" using plan_visits_inv(1) [OF st(1) init(1) _ safe] cs by simp
  then have ref: "unat (referenced_so_far st) = length c" using st(2) by (simp add: plan_inv_def)
  have "[] \<notin> set ?cs" using cs by blast
  with emit_chunks_total [OF st(1), of default_stats] assms(3) chunks_le_bytes [of ?cs] obtain stats where
    e: "emit_chunks (plan_visitor lib ?i limit) (default_stats, initial_plan) 0 ?cs = Inr (stats, st)" by (auto simp: default_stats_def)
  obtain n where n: "open_source p s = (Inr n, s)" "node_contents n = c" "node_len n = of_nat (length c)"
    using open_source_calm [OF assms(1,2)] by blast
  have r: "chunk_reader config (plan_visitor lib ?i limit) c initial_plan s = (Inr (stats, st), s)"
    by (simp add: delivers_calm [OF delivers_chunk_reader assms(2)] e)
  have t: "checked_add (referenced_so_far st) 0 = Some (of_nat (length c))" "stat_bytes stats = of_nat (length c)"
    using unat_less_2p [of "referenced_so_far st"] stat_bytes_eq(1) [OF e] by (simp_all add: checked_add_def flip: ref)
  have k: "index_average_kib ?i = k" by (simp add: index_of_def Let_def)
  show ?thesis
    using n r t st(2) assms(4) k
    by (simp add: delivers_calm [OF delivers_call assms(2)] build_bounded_def fbind_def flift_def fguard_def fret_def flip: initial_plan_def)
qed

text \<open>A file of the source that is the one its entry describes, in a system where no call fails.\<close>

definition source_file :: "fs \<Rightarrow> ManifestEntry \<Rightarrow> byte list \<Rightarrow> bool" where
  "source_file s e c \<longleftrightarrow> faults s = [] \<and> length c < 2 ^ 64 \<and>
     (\<exists>t a. fmlookup (nodes s) (final_path e) = Some (FileNode c t a) \<and> a AND FILE_ATTRIBUTE_REPARSE_POINT = 0 \<and>
        file_size e = of_nat (length c) \<and> last_write_time e = t)"

lemma source_fileD:
  assumes "source_file s e c"
  shows "faults s = []" "length c < 2 ^ 64" "file_at s (final_path e) c" "file_size e = of_nat (length c)" "unat (file_size e) = length c"
    "validate_source_file (final_path e) e s = (Inr (), s)"
  using assms
  by (auto simp: source_file_def file_at_def unat_of_nat_small validate_source_file_def symlink_metadata_def syscall_def next_fault_def
      fbind_def fguard_def fret_def is_reparse_def)

lemma read_sample_calm:
  assumes "faults s = []" "file_at s p c" "unat offset + unat n \<le> length c"
  shows "read_sample p offset n s = (Inr (take (unat n) (drop (unat offset) c)), s)"
proof -
  obtain f where "open_source p s = (Inr f, s)" "node_contents f = c" using open_source_calm [OF assms(2,1)] by blast
  then show ?thesis
    using assms(1,3) by (simp add: read_sample_def fbind_def flift_def delivers_calm [OF delivers_call assms(1)] read_exact_at_def)
qed

lemma likely_similar_same:
  assumes "source_file s e c" "source_file s b c" "c \<noteq> []"
  shows "likely_similar (final_path e) (file_size e) (final_path b) (file_size b) s = (Inr True, s)"
proof -
  note e = source_fileD [OF assms(1)] and b = source_fileD [OF assms(2)]
  let ?n = "min (file_size e) SIMILARITY_SAMPLE_BYTES"
  have "unat (0 :: u64) + unat ?n \<le> length c" using e(5) by (simp add: min_def word_le_nat_alt)
  note r = read_sample_calm [OF e(1) e(3) this] read_sample_calm [OF b(1) b(3) this]
  have "file_size b = file_size e" using e(4) b(4) by simp
  moreover have "file_size e \<noteq> 0" using e(5) assms(3) by (metis length_0_conv unat_0)
  ultimately have "file_size e \<noteq> 0" "file_size b = file_size e" by blast+
  then show ?thesis using r by (simp add: likely_similar_def Let_def fbind_def fret_def)
qed

lemma index_build_calm:
  assumes "file_at s p c" "faults s = []" "length c < 2 ^ 64" "from_average_kib k = Inr config"
  shows "BasisFileIndex_build lib p k s = (Inr (index_of lib k config c), s)"
proof -
  obtain n where "open_source p s = (Inr n, s)" "node_contents n = c" "node_len n = of_nat (length c)"
    using open_source_calm [OF assms(1,2)] by blast
  then show ?thesis
    by (simp add: BasisFileIndex_build_def fbind_def delivers_calm [OF delivers_call assms(2)]
        delivers_calm [OF delivers_build [OF assms(4,3)] assms(2)])
qed

lemma build_verified_calm:
  assumes "source_file s b c" "from_average_kib DEFAULT_AVERAGE_KIB = Inr config"
  shows "build_verified_basis_index lib b s = (Inr (index_of lib DEFAULT_AVERAGE_KIB config c), s)"
proof -
  note b = source_fileD [OF assms(1)]
  have "BasisFileIndex_build lib (final_path b) DEFAULT_AVERAGE_KIB s = (Inr (index_of lib DEFAULT_AVERAGE_KIB config c), s)"
    using index_build_calm [OF b(3,1,2) assms(2)] .
  moreover have "index_file_bytes (index_of lib DEFAULT_AVERAGE_KIB config c) = file_size b" using b(4) by (simp add: index_of_def Let_def)
  ultimately show ?thesis using b(6) by (simp add: build_verified_basis_index_def fbind_def fguard_def fret_def)
qed

lemma get_or_build_calm:
  assumes "source_file s b c" "from_average_kib DEFAULT_AVERAGE_KIB = Inr config" "manifest_get manifest k = Some b"
    "cached (index_of_source lib manifest s) q" "k |\<notin>| building_file_ids q"
  shows "\<exists>hit q'. get_or_build k (build_verified_basis_index lib b) (q, s) = (Inr (index_of lib DEFAULT_AVERAGE_KIB config c, hit), q', s)"
proof -
  obtain answer q1 where l: "cache_lookup k q = (answer, q1)" by force
  note cl = cached_lookup(2) [OF assms(4) l]
  show ?thesis
  proof (cases answer)
    case (CacheHit i)
    then have "index_of_source lib manifest s k i" using cl by blast
    then have "i = index_of lib DEFAULT_AVERAGE_KIB config c"
      using assms(2,3) contents_unique [OF source_fileD(3) [OF assms(1)]] by (auto simp: index_of_source_def)
    then show ?thesis using l CacheHit by (auto simp: get_or_build_def)
  next
    case MustBuild
    then show ?thesis using l build_verified_calm [OF assms(1,2), of lib] by (auto simp: get_or_build_def)
  next
    case MustWait
    then show ?thesis using l assms(5) by (auto simp: cache_lookup_def split: option.splits if_splits)
  qed
qed

text \<open>The wire form of a plan without literals is small.\<close>

lemma reference_wire: "\<forall>op \<in> set ops. op_ok op \<Longrightarrow> literal_total ops = 0 \<Longrightarrow> length (concat (map op_wire ops)) = 17 * length ops"
proof (induction ops)
  case (Cons op ops)
  then show ?case by (cases op) auto
qed simp

lemma same_plan_fits:
  assumes "source_file s e c" "build_bounded lib (final_path e) (index_of lib DEFAULT_AVERAGE_KIB config c) MAXIMUM_LITERAL_BYTES s = (Inr pl, s')"
    "plan_literal_bytes pl = 0" "from_average_kib DEFAULT_AVERAGE_KIB = Inr config" "libs_ok lib" "2 ^ 20 \<le> length c" "length c \<le> 2 ^ 35"
  shows "session_plan_fits e pl" "plan_ok pl" "plan_encode_wire pl = Inr (plan_wire pl)" "unat (plan_referenced_bytes pl) = length c"
    "length (plan_wire pl) \<le> 52 + 17 * length (chunks_of config c)"
proof -
  note e = source_fileD [OF assms(1)]
  have k: "index_average_kib (index_of lib DEFAULT_AVERAGE_KIB config c) = DEFAULT_AVERAGE_KIB" by (simp add: index_of_def Let_def)
  have safe: "index_safe (index_of lib DEFAULT_AVERAGE_KIB config c)" using index_ok_safe index_of_ok(1) [OF assms(5,4) e(2)] by blast
  from build_bounded_Inr [OF assms(2) safe assms(5)] k assms(4) contents_unique [OF e(3)]
  have pl: "target_bytes pl = of_nat (length c)" "plan_ok pl" "length (operations pl) \<le> length (chunks_of config c)"
    "target_digest pl = blake3 lib c" by (metis sum.inject(2))+
  have "minimum_bytes config = 32768" using from_average_kib_ok(4) [OF assms(4)] by (simp add: DEFAULT_AVERAGE_KIB_def)
  with few_chunks [OF from_average_kib_ok(1) [OF assms(4)], of c] pl(3)
  have n: "length (operations pl) * 32768 \<le> length c + 32768" by simp
  have lit: "literal_total (operations pl) = 0" "\<forall>op \<in> set (operations pl). op_ok op"
    using pl(2) assms(3) by (simp_all add: plan_ok_def flip: unat_eq_0)
  have "length (target_digest pl) = CONTENT_DIGEST_BYTES" using pl(2) by (simp add: plan_ok_def)
  then have w: "length (plan_wire pl) = 52 + 17 * length (operations pl)"
    using length_plan_wire [of pl] reference_wire [OF lit(2,1)] by (simp add: PLAN_HEADER_BYTES_def)
  show "length (plan_wire pl) \<le> 52 + 17 * length (chunks_of config c)" using w pl(3) by simp
  have "unat (target_bytes pl) = length c" using pl(1) e(2) by (simp add: unat_of_nat_small)
  then show r: "unat (plan_referenced_bytes pl) = length c" using pl(2) lit(1) by (simp add: plan_ok_def)
  have ne: "plan_referenced_bytes pl \<noteq> 0" using r assms(6) by (auto simp flip: unat_eq_0)
  have le: "length (plan_wire pl) \<le> MAXIMUM_PLAN_WIRE_BYTES" using w n assms(7) by (simp add: MAXIMUM_PLAN_WIRE_BYTES_def)
  then show "session_plan_fits e pl" using w n assms(6) e(5) ne by (simp add: session_plan_fits_def)
  show "plan_ok pl" by (rule pl)
  show "plan_encode_wire pl = Inr (plan_wire pl)" using plan_encode_wire_ok [OF pl(2)] le MAXIMUM_PLAN_small(1) by (simp add: usize_max_def)
qed

lemma write_session_plan_calm:
  assumes "source_file s e c" "session_plan_fits e pl" "plan_encode_wire pl = Inr (plan_wire pl)" "target_id < 2 ^ 64" "k < 2 ^ 64"
  shows "\<exists>out. write_session_plan target_id e k index pl s =
    (Inr (Some (completed_decision (file_size e) pl (of_nat (length (plan_wire pl))), out)), s)"
proof -
  let ?w = "plan_wire pl" and ?n = "of_nat (length (plan_wire pl)) :: u64"
  have f: "plan_referenced_bytes pl \<noteq> 0" "length ?w \<le> MAXIMUM_PLAN_WIRE_BYTES" "33 + length ?w < unat (file_size e)"
    using assms(2) by (simp_all add: session_plan_fits_def)
  note t = session_total [OF f(2)]
  have n: "word_try_from OtherError (length ?w) = Inr ?n" using f(2) MAXIMUM_PLAN_small(1) by (simp add: word_try_from_def)
  have lt: "\<not> file_size e \<le> of_nat (33 + length ?w)" using t(2) f(3) by (simp add: word_le_nat_alt)
  obtain out where "wcat [write_u8 MESSAGE_SESSION_CDC_PLAN, write_file_id target_id, write_file_id k,
      write_u64 (index_file_bytes index), write_u64 ?n, Inr ?w] = Inr out"
    using assms(4,5) by (simp add: write_file_id_def word_try_from_def engine_prims)
  then show ?thesis
    using f(1,2) t(1) n lt assms(3) source_fileD(6) [OF assms(1)]
    by (simp add: write_session_plan_def fbind_def flift_def fret_def not_less del: wcat.simps of_nat_add)
qed

lemma try_basis_file_same:
  assumes "source_file s e c" "source_file s b c" "manifest_get manifest k = Some b" "libs_ok lib" "2 ^ 20 \<le> length c" "length c \<le> 2 ^ 35"
    "cached (index_of_source lib manifest s) q" "k |\<notin>| building_file_ids q" "target_id < 2 ^ 64" "k < 2 ^ 64"
  shows "\<exists>pl n out q'. try_basis_file lib target_id e k b (q, s) = (Inr (Some (completed_decision (file_size e) pl n, out)), q', s) \<and>
    plan_literal_bytes pl = 0 \<and> unat (plan_referenced_bytes pl) = length c"
proof -
  note e = source_fileD [OF assms(1)] and b = source_fileD [OF assms(2)]
  obtain config where config: "from_average_kib DEFAULT_AVERAGE_KIB = Inr config" using default_config by blast
  let ?i = "index_of lib DEFAULT_AVERAGE_KIB config c"
  obtain hit q' where g: "get_or_build k (build_verified_basis_index lib b) (q, s) = (Inr (?i, hit), q', s)"
    using get_or_build_calm [OF assms(2) config assms(3,7,8)] by blast
  obtain pl where pl: "build_bounded lib (final_path e) ?i MAXIMUM_LITERAL_BYTES s = (Inr pl, s)" "plan_literal_bytes pl = 0"
    using build_bounded_same [OF e(3,1,2) config assms(4)] by blast
  note fits = same_plan_fits [OF assms(1) pl config assms(4,5,6)]
  obtain out where w: "write_session_plan target_id e k ?i pl s =
      (Inr (Some (completed_decision (file_size e) pl (of_nat (length (plan_wire pl))), out)), s)"
    using write_session_plan_calm [OF assms(1) fits(1,3) assms(9,10)] by blast
  have "index_file_bytes ?i = file_size b" using b(4) by (simp add: index_of_def Let_def)
  then have p: "plan_against_index lib target_id e k b ?i s =
      (Inr (Some (completed_decision (file_size e) pl (of_nat (length (plan_wire pl))), out)), s)"
    using b(6) pl(1) w by (simp add: plan_against_index_def fbind_def fguard_def fret_def attempt_def)
  have "c \<noteq> []" using assms(5) by auto
  note sim = likely_similar_same [OF assms(1,2) this]
  show ?thesis
    using b(6) sim g p pl(2) fits(4)
    by (simp add: try_basis_file_def lbind_def lfs_def) blast
qed

text \<open>
  C37. A file that is already there is not sent again.  When the target is a medium file of at least one mebibyte and at most
  \<open>2 ^ 35\<close> bytes, the file published last is a medium or large one with the same contents, no call fails, no other lane is
  building its index, and the cached indexes are those of the source files, the sender plans the target from that basis
  alone, with no literal byte.
\<close>

theorem identical_file_planned:
  assumes "manifest_get manifest target_id = Some e" "manifest_get manifest k = Some b" "k \<noteq> target_id" "target_id < 2 ^ 64" "k < 2 ^ 64"
    "file_class e = Medium" "basis_eligible b" "source_file s e c" "source_file s b c" "length c \<le> 2 ^ 35"
    "libs_ok lib" "cached (index_of_source lib manifest s) q" "k |\<notin>| building_file_ids q"
  shows "\<exists>dec out q'. sender_try_plan lib manifest target_id (ids @ [k]) (q, s) = (Inr (dec, out), q', s) \<and> lane_completed dec \<and>
    reused_bytes (lane_stats dec) = file_size e \<and> literal_bytes (lane_stats dec) = 0"
proof -
  note e = source_fileD [OF assms(8)] and b = source_fileD [OF assms(9)]
  have size: "MINIMUM_TARGET_BYTES \<le> file_size e" using assms(7) e(4) b(4) by (simp add: basis_eligible_def)
  then have large: "2 ^ 20 \<le> length c" using e(5) by (simp add: MINIMUM_TARGET_BYTES_def word_le_nat_alt)
  obtain pl n out q' where t: "try_basis_file lib target_id e k b (q, s) = (Inr (Some (completed_decision (file_size e) pl n, out)), q', s)"
    and pl: "plan_literal_bytes pl = 0" "unat (plan_referenced_bytes pl) = length c"
    using try_basis_file_same [OF assms(8,9,2,11) large assms(10,12,13,4,5)] by blast
  have one: "\<not> (0 :: nat) + 1 > MAXIMUM_BASIS_CANDIDATES" "(0 :: nat) + 1 \<le> usize_max"
    by (simp_all add: MAXIMUM_BASIS_CANDIDATES_def usize_max_def)
  have "try_basis_files lib manifest target_id e (rev (ids @ [k])) 0 (q, s) = (Inr (completed_decision (file_size e) pl n, out), q', s)"
    using t one assms(2,3,7) by (simp add: lbind_def lfs_def flift_def fguard_def fret_def lret_def)
  then have "sender_try_plan lib manifest target_id (ids @ [k]) (q, s) = (Inr (completed_decision (file_size e) pl n, out), q', s)"
    using assms(1,6) leD [OF size] e(6) by (simp add: sender_try_plan_def lbind_def lfs_def flift_def del: try_basis_files.simps)
  moreover have "plan_referenced_bytes pl = file_size e" using pl(2) e(5) by (simp add: word_unat_eq_iff)
  ultimately show ?thesis using pl(1) by (auto simp: completed_decision_def default_lane_stats_def)
qed

section \<open>Lanes that share the cache\<close>

text \<open>
  Where a lane is with respect to \<^verbatim>\<open>get_or_build\<close>: not in it, about to look, building an index with the lock
  released, or waiting for the condition variable.  A lane that waits may wake at any time; the end of a build wakes
  all of them.
\<close>

datatype cache_lane = Outside | Looking usize | Building usize | Waiting usize

fun wake :: "cache_lane \<Rightarrow> cache_lane" where
  "wake (Waiting k) = Looking k"
| "wake lane = lane"

record cache_lanes =
  shared_cache :: SenderBasisIndexCacheState
  cache_users :: "cache_lane list"

fun after_lookup :: "usize \<Rightarrow> cache_answer \<Rightarrow> cache_lane" where
  "after_lookup k (CacheHit index) = Outside"
| "after_lookup k MustBuild = Building k"
| "after_lookup k MustWait = Waiting k"

inductive cache_step :: "cache_lanes \<Rightarrow> cache_lanes \<Rightarrow> bool" where
  Call: "t < length (cache_users s) \<Longrightarrow> cache_users s ! t = Outside \<Longrightarrow> cache_step s (s\<lparr>cache_users := (cache_users s)[t := Looking k]\<rparr>)"
| Look: "t < length (cache_users s) \<Longrightarrow> cache_users s ! t = Looking k \<Longrightarrow> cache_lookup k (shared_cache s) = (answer, c) \<Longrightarrow>
    cache_step s \<lparr>shared_cache = c, cache_users = (cache_users s)[t := after_lookup k answer]\<rparr>"
| Finish: "t < length (cache_users s) \<Longrightarrow> cache_users s ! t = Building k \<Longrightarrow>
    cache_step s \<lparr>shared_cache = cache_finish k result (shared_cache s), cache_users = (map wake (cache_users s))[t := Outside]\<rparr>"
| Spurious: "t < length (cache_users s) \<Longrightarrow> cache_users s ! t = Waiting k \<Longrightarrow> cache_step s (s\<lparr>cache_users := (cache_users s)[t := Looking k]\<rparr>)"

inductive_cases cache_stepE: "cache_step s s'"

definition cache_initial :: "cache_lanes \<Rightarrow> bool" where
  "cache_initial s \<longleftrightarrow> shared_cache s = default_cache \<and> set (cache_users s) \<subseteq> {Outside}"

text \<open>The lanes that build an index, in order.\<close>

fun built_by :: "cache_lane \<Rightarrow> usize list" where
  "built_by (Building k) = [k]"
| "built_by lane = []"

definition builds :: "cache_lane list \<Rightarrow> usize multiset" where
  "builds ls = mset (concat (map built_by ls))"

definition cache_wf :: "SenderBasisIndexCacheState \<Rightarrow> bool" where
  "cache_wf c \<longleftrightarrow> length (cache_entries c) \<le> MAXIMUM_CACHED_BASIS_INDEXES \<and> distinct (map fst (cache_entries c)) \<and>
     fst ` set (cache_entries c) \<inter> fset (building_file_ids c) = {}"

definition cache_inv :: "cache_lanes \<Rightarrow> bool" where
  "cache_inv s \<longleftrightarrow> cache_wf (shared_cache s) \<and> builds (cache_users s) = mset_set (fset (building_file_ids (shared_cache s))) \<and>
     (\<forall>k. Waiting k \<in> set (cache_users s) \<longrightarrow> k |\<in>| building_file_ids (shared_cache s))"

lemma builds_update:
  assumes "t < length ls"
  shows "builds (ls[t := l]) = builds ls - mset (built_by (ls ! t)) + mset (built_by l)"
proof -
  have "builds ls = builds (take t ls) + mset (built_by (ls ! t)) + builds (drop (Suc t) ls)"
    unfolding builds_def by (subst id_take_nth_drop [OF assms]) simp
  moreover have "builds (ls[t := l]) = builds (take t ls) + mset (built_by l) + builds (drop (Suc t) ls)"
    unfolding builds_def by (simp add: upd_conv_take_nth_drop [OF assms])
  ultimately show ?thesis by simp
qed

lemma built_by_wake [simp]: "built_by (wake l) = built_by l"
  by (cases l) simp_all

lemma builds_wake [simp]: "builds (map wake ls) = builds ls"
  by (simp add: builds_def comp_def)

lemma nobody_waits: "Waiting k \<notin> set (map wake ls)"
proof
  assume "Waiting k \<in> set (map wake ls)"
  then obtain l where "wake l = Waiting k" by auto
  then show False by (cases l) simp_all
qed

lemma find_distinct:
  assumes "find (\<lambda>entry. fst entry = k) xs = Some entry" "distinct (map fst xs)"
  shows "entry \<in> set xs \<and> fst entry = k \<and> distinct (map fst (remove1 entry xs @ [entry])) \<and> set (remove1 entry xs @ [entry]) = set xs \<and>
    length (remove1 entry xs @ [entry]) = length xs"
proof -
  have e: "entry \<in> set xs" "fst entry = k" using assms(1) by (auto simp: find_Some_iff)
  have "mset (remove1 entry xs @ [entry]) = mset xs" using e(1) by simp
  then show ?thesis
    using e assms(2) by (metis distinct_map distinct_count_atmost_1 mset_map mset_eq_imp_distinct_iff mset_eq_length mset_eq_setD)
qed

lemma cache_lookup_wf:
  assumes "cache_lookup k c = (answer, c')" "cache_wf c"
  shows "cache_wf c'" "answer = MustWait \<Longrightarrow> k |\<in>| building_file_ids c"
    "building_file_ids c' = (if answer = MustBuild then finsert k (building_file_ids c) else building_file_ids c)"
    "answer = MustBuild \<Longrightarrow> k |\<notin>| building_file_ids c"
proof -
  have "cache_wf c' \<and> (answer = MustWait \<longrightarrow> k |\<in>| building_file_ids c) \<and> (answer = MustBuild \<longrightarrow> k |\<notin>| building_file_ids c) \<and>
    building_file_ids c' = (if answer = MustBuild then finsert k (building_file_ids c) else building_file_ids c)"
  proof (cases "find (\<lambda>entry. fst entry = k) (cache_entries c)")
    case None
    then have "k \<notin> fst ` set (cache_entries c)" by (auto simp: find_None_iff)
    then have "fst ` set (cache_entries c) \<inter> insert k (fset (building_file_ids c)) = {}" using assms(2) by (simp add: cache_wf_def)
    then have "cache_wf (c\<lparr>building_file_ids := finsert k (building_file_ids c)\<rparr>)" using assms(2) unfolding cache_wf_def by simp
    then show ?thesis using assms None by (cases "k |\<in>| building_file_ids c") (auto simp: cache_lookup_def)
  next
    case (Some entry)
    have "distinct (map fst (cache_entries c))" using assms(2) by (simp add: cache_wf_def)
    note d = find_distinct [OF Some this]
    have "c' = c\<lparr>cache_entries := remove1 entry (cache_entries c) @ [entry]\<rparr>" "answer = CacheHit (snd entry)"
      using assms(1) Some by (auto simp: cache_lookup_def)
    then show ?thesis using d assms(2) unfolding cache_wf_def by (simp del: set_append distinct_append length_append map_append)
  qed
  then show "cache_wf c'" "answer = MustWait \<Longrightarrow> k |\<in>| building_file_ids c"
    "building_file_ids c' = (if answer = MustBuild then finsert k (building_file_ids c) else building_file_ids c)"
    "answer = MustBuild \<Longrightarrow> k |\<notin>| building_file_ids c" by blast+
qed

lemma add_entry: "fst ` set xs \<inter> fset b = {} \<Longrightarrow> fst ` set (xs @ [(k, i)]) \<inter> fset (b |-| {|k|}) = {}"
  by auto

lemma cache_finish_wf:
  assumes "cache_wf c" "k |\<in>| building_file_ids c"
  shows "cache_wf (cache_finish k result c)" "building_file_ids (cache_finish k result c) = building_file_ids c |-| {|k|}"
proof -
  let ?old = "if length (cache_entries c) \<ge> MAXIMUM_CACHED_BASIS_INDEXES then tl (cache_entries c) else cache_entries c"
  have c: "length (cache_entries c) \<le> MAXIMUM_CACHED_BASIS_INDEXES" "distinct (map fst (cache_entries c))"
    "fst ` set (cache_entries c) \<inter> fset (building_file_ids c) = {}" using assms(1) by (simp_all add: cache_wf_def)
  have old: "length ?old < MAXIMUM_CACHED_BASIS_INDEXES" "set ?old \<subseteq> set (cache_entries c)" "distinct (map fst ?old)"
    using c(1,2) set_tl_subset [of "cache_entries c"]
    by (auto simp: map_tl distinct_tl MAXIMUM_CACHED_BASIS_INDEXES_def MAXIMUM_BASIS_CANDIDATES_def)
  have new: "k \<notin> fst ` set ?old" using old(2) c(3) assms(2) by blast
  show "building_file_ids (cache_finish k result c) = building_file_ids c |-| {|k|}"
    by (simp add: cache_finish_def Let_def split: sum.splits)
  show "cache_wf (cache_finish k result c)"
  proof (cases result)
    case (Inl e)
    then show ?thesis using c by (auto simp: cache_finish_def cache_wf_def Let_def)
  next
    case (Inr index)
    then have "cache_entries (cache_finish k result c) = ?old @ [(k, index)]"
      "building_file_ids (cache_finish k result c) = building_file_ids c |-| {|k|}" by (simp_all add: cache_finish_def Let_def)
    moreover have "fst ` set ?old \<inter> fset (building_file_ids c) = {}" using image_mono [OF old(2), of fst] c(3) by blast
    then have "fst ` set (?old @ [(k, index)]) \<inter> fset (building_file_ids c |-| {|k|}) = {}"
      by (rule add_entry)
    moreover have "distinct (map fst (?old @ [(k, index)]))" using old(3) new by simp
    ultimately show ?thesis using old(1) unfolding cache_wf_def by simp
  qed
qed

lemma builds_member: "t < length ls \<Longrightarrow> ls ! t = Building k \<Longrightarrow> k \<in># builds ls"
  unfolding builds_def by (auto simp: in_set_conv_nth intro!: bexI [of _ "ls ! t"])

lemma built_member: "k \<in># builds ls \<longleftrightarrow> Building k \<in> set ls"
proof -
  have "k \<in> set (built_by l) \<longleftrightarrow> l = Building k" for l by (cases l) auto
  then show ?thesis by (auto simp: builds_def)
qed

lemma one_builder:
  assumes "t < length ls" "u < length ls" "ls ! t = Building k" "ls ! u = Building k" "count (builds ls) k \<le> 1"
  shows "t = u"
proof (rule ccontr)
  assume "t \<noteq> u"
  then have "(ls[t := Outside]) ! u = Building k" using assms(4) by simp
  then have "k \<in># builds (ls[t := Outside])" using builds_member [of u "ls[t := Outside]" k] assms(2) by simp
  then show False using assms(3,5) builds_update [OF assms(1), of Outside] by (simp add: in_diff_count)
qed

lemma cache_inv_step: "cache_inv s \<Longrightarrow> cache_step s s' \<Longrightarrow> cache_inv s'"
proof (erule cache_stepE, goal_cases)
  case (1 t k)
  then show ?case using set_update_subset_insert [of "cache_users s" t "Looking k"] by (auto simp: cache_inv_def builds_update)
next
  case (2 t k answer c)
  have inv: "cache_wf (shared_cache s)" "builds (cache_users s) = mset_set (fset (building_file_ids (shared_cache s)))"
    "\<And>k. Waiting k \<in> set (cache_users s) \<Longrightarrow> k |\<in>| building_file_ids (shared_cache s)" using 2(1) by (auto simp: cache_inv_def)
  note l = cache_lookup_wf [OF 2(5) inv(1)]
  have "builds ((cache_users s)[t := after_lookup k answer]) = mset_set (fset (building_file_ids c))"
    using 2(3,4) inv(2) l(3,4) by (cases answer) (simp_all add: builds_update)
  moreover have "j |\<in>| building_file_ids c" if "Waiting j \<in> set ((cache_users s)[t := after_lookup k answer])" for j
    using that set_update_subset_insert [of "cache_users s" t "after_lookup k answer"] inv(3) [of j] l(2,3) by (cases answer) auto
  ultimately show ?case using l(1) 2(2) by (simp add: cache_inv_def)
next
  case (3 t k result)
  let ?b = "building_file_ids (shared_cache s)"
  have inv: "cache_wf (shared_cache s)" "builds (cache_users s) = mset_set (fset ?b)" using 3(1) by (auto simp: cache_inv_def)
  then have k: "k |\<in>| ?b" using builds_member [OF 3(3,4)] by simp
  note f = cache_finish_wf [OF inv(1) k, of result]
  have "builds ((map wake (cache_users s))[t := Outside]) = builds (cache_users s) - {#k#}" using 3(3,4) by (simp add: builds_update)
  also have "\<dots> = mset_set (fset (?b |-| {|k|}))" using k inv(2) by (simp add: mset_set_Diff)
  finally have "builds ((map wake (cache_users s))[t := Outside]) = mset_set (fset (?b |-| {|k|}))" .
  moreover have "Waiting j \<notin> set ((map wake (cache_users s))[t := Outside])" for j
    using nobody_waits [of j "cache_users s"] set_update_subset_insert [of "map wake (cache_users s)" t Outside] by auto
  ultimately show ?case using f 3(2) by (simp add: cache_inv_def)
next
  case (4 t k)
  then show ?case using set_update_subset_insert [of "cache_users s" t "Looking k"] by (auto simp: cache_inv_def builds_update)
qed

interpretation index_cache: invariant_system cache_step cache_initial cache_inv
proof
  show "cache_inv s" if "cache_initial s" for s
  proof -
    have "concat (map built_by (cache_users s)) = []" using that by (auto simp: cache_initial_def)
    then show ?thesis using that by (auto simp: cache_initial_def cache_inv_def cache_wf_def default_cache_def builds_def)
  qed
qed (rule cache_inv_step)

text \<open>
  C38. The cache under any interleaving of the lanes: it has at most 32 indexes, one per file; no file is both cached and
  being built; every index is built by at most one lane at a time; and a lane waits only while some lane builds the
  index it waits for, so that a wake-up is never missed.
\<close>

theorem index_cache_safe:
  assumes "cache_initial s" "cache_step\<^sup>*\<^sup>* s s'"
  shows "length (cache_entries (shared_cache s')) \<le> 32 \<and> distinct (map fst (cache_entries (shared_cache s'))) \<and>
    (\<forall>k. Building k \<in> set (cache_users s') \<longrightarrow> k \<notin> fst ` set (cache_entries (shared_cache s'))) \<and>
    (\<forall>t u k. t < length (cache_users s') \<and> u < length (cache_users s') \<and> cache_users s' ! t = Building k \<and> cache_users s' ! u = Building k \<longrightarrow> t = u) \<and>
    (\<forall>k. Waiting k \<in> set (cache_users s') \<longrightarrow> Building k \<in> set (cache_users s'))"
proof -
  let ?c = "shared_cache s'"
  from index_cache.reachable_inv [OF assms] have inv: "cache_wf ?c" "builds (cache_users s') = mset_set (fset (building_file_ids ?c))"
    "\<And>k. Waiting k \<in> set (cache_users s') \<Longrightarrow> k |\<in>| building_file_ids ?c" by (auto simp: cache_inv_def)
  have "k |\<in>| building_file_ids ?c \<longleftrightarrow> Building k \<in> set (cache_users s')" for k
    using inv(2) by (simp flip: built_member)
  moreover have "t = u" if "t < length (cache_users s')" "u < length (cache_users s')" "cache_users s' ! t = Building k" "cache_users s' ! u = Building k" for t u k
    using one_builder [OF that] inv(2) by (simp add: count_mset_set')
  ultimately show ?thesis using inv(1,3) by (auto simp: cache_wf_def MAXIMUM_CACHED_BASIS_INDEXES_def MAXIMUM_BASIS_CANDIDATES_def)
qed

text \<open> Two lanes need the index of the same file: the first builds it, the second waits, and the cache is still empty.\<close>

theorem index_cache_safe_witness:
  "\<exists>s'. cache_step\<^sup>*\<^sup>* \<lparr>shared_cache = default_cache, cache_users = [Outside, Outside]\<rparr> s' \<and> cache_users s' = [Building 3, Waiting 3] \<and>
     length (cache_entries (shared_cache s')) \<le> 32"
proof -
  let ?s = "\<lparr>shared_cache = default_cache, cache_users = [Outside, Outside]\<rparr>"
  let ?c = "default_cache\<lparr>building_file_ids := {|3|}\<rparr>"
  let ?s1 = "\<lparr>shared_cache = default_cache, cache_users = [Looking 3, Outside]\<rparr>" and ?s2 = "\<lparr>shared_cache = ?c, cache_users = [Building 3, Outside]\<rparr>"
  let ?s3 = "\<lparr>shared_cache = ?c, cache_users = [Building 3, Looking 3]\<rparr>" and ?s4 = "\<lparr>shared_cache = ?c, cache_users = [Building 3, Waiting 3]\<rparr>"
  have "cache_lookup 3 default_cache = (MustBuild, ?c)" "cache_lookup 3 ?c = (MustWait, ?c)"
    by (simp_all add: cache_lookup_def default_cache_def)
  then have "cache_step ?s ?s1" "cache_step ?s1 ?s2" "cache_step ?s2 ?s3" "cache_step ?s3 ?s4"
    using Call [of 0 ?s 3] Look [of 0 ?s1 3] Call [of 1 ?s2 3] Look [of 1 ?s3 3] by simp_all
  then have r: "cache_step\<^sup>*\<^sup>* ?s ?s4" by (meson converse_rtranclp_into_rtranclp rtranclp.rtrancl_refl)
  have "cache_initial ?s" by (simp add: cache_initial_def)
  from index_cache_safe [OF this r] r show ?thesis by (intro exI [of _ ?s4]) simp
qed

section \<open>Witnesses\<close>

text \<open>Two files of a mebibyte with the same contents.\<close>

definition mebibyte :: "byte list" where "mebibyte = replicate (2 ^ 20) 0"

definition twin :: "path \<Rightarrow> ManifestEntry" where
  "twin p = \<lparr>relative_path = p, file_size = 2 ^ 20, last_write_time = 7, file_attributes = 0x20, file_class = Medium\<rparr>"

definition twins :: "ManifestEntry list" where "twins = [twin [0x62], twin name_a]"

definition twin_fs :: fs where
  "twin_fs = \<lparr>nodes = fmap_of_list [([], DirNode 0x10), ([Normal name_a], FileNode mebibyte 7 0x20), ([Normal [0x62]], FileNode mebibyte 7 0x20)],
     faults = [], clock = 9, journal_dir = \<lparr>journal_file = None, temporary_file = None\<rparr>\<rparr>"

lemma length_mebibyte: "length mebibyte = 2 ^ 20"
  unfolding mebibyte_def by (rule length_replicate)

lemma twin_paths: "final_path (twin name_a) = [Normal name_a]" "final_path (twin [0x62]) = [Normal [0x62]]"
  by (simp_all add: final_path_def twin_def sample_paths)

lemma twin_nodes: "fmlookup (nodes twin_fs) [Normal name_a] = Some (FileNode mebibyte 7 0x20)"
    "fmlookup (nodes twin_fs) [Normal [0x62]] = Some (FileNode mebibyte 7 0x20)"
  by (simp_all add: twin_fs_def name_a_def)

lemma twin_source: "source_file twin_fs (twin name_a) mebibyte" "source_file twin_fs (twin [0x62]) mebibyte"
proof -
  have "faults twin_fs = []" by (simp add: twin_fs_def)
  moreover have "file_size (twin p) = of_nat (length mebibyte)" "last_write_time (twin p) = 7" for p
    by (simp_all add: twin_def length_mebibyte)
  moreover have "(0x20 :: u32) AND FILE_ATTRIBUTE_REPARSE_POINT = 0" by (simp add: FILE_ATTRIBUTE_REPARSE_POINT_def)
  ultimately show "source_file twin_fs (twin name_a) mebibyte" "source_file twin_fs (twin [0x62]) mebibyte"
    unfolding source_file_def twin_paths twin_nodes by (simp_all add: length_mebibyte)
qed

lemma twins_get: "manifest_get twins 0 = Some (twin [0x62])" "manifest_get twins 1 = Some (twin name_a)"
  by (simp_all add: manifest_get_def twins_def)

lemma twin_size: "file_size (twin p) = 2 ^ 20"
  by (simp add: twin_def)

lemma twin_eligible: "basis_eligible (twin p)" "file_class (twin p) = Medium"
  by (simp_all add: basis_eligible_def twin_def MINIMUM_TARGET_BYTES_def)

lemma empty_cache: "cached P default_cache" "k |\<notin>| building_file_ids default_cache"
  by (simp_all add: cached_def default_cache_def)

text \<open> The second of two equal files of a mebibyte is sent as a plan.\<close>

theorem identical_file_planned_witness:
  "\<exists>dec out q'. sender_try_plan identity_libs twins 1 [0] (default_cache, twin_fs) = (Inr (dec, out), q', twin_fs) \<and> lane_completed dec \<and>
     reused_bytes (lane_stats dec) = 2 ^ 20 \<and> literal_bytes (lane_stats dec) = 0"
proof -
  have "length mebibyte \<le> 2 ^ 35" by (simp add: length_mebibyte)
  from identical_file_planned [OF twins_get(2,1) _ _ _ twin_eligible(2,1) twin_source this identity_libs_ok empty_cache, of "[]"]
  show ?thesis by (simp add: twin_def)
qed

lemma set_mebibyte: "set mebibyte = {0}"
  unfolding mebibyte_def by (rule set_replicate) simp

lemma zero_chunks: "x \<in> set (chunks_of config mebibyte) \<Longrightarrow> x = replicate (length x) 0"
proof -
  assume "x \<in> set (chunks_of config mebibyte)"
  then have "set x \<subseteq> set (concat (chunks_of config mebibyte))" unfolding set_concat by blast
  then have "\<forall>y \<in> set x. y = 0" using set_mebibyte by auto
  then show ?thesis by (simp add: replicate_length_same)
qed

lemma twin_keys: "keys_distinguish identity_libs DEFAULT_AVERAGE_KIB mebibyte mebibyte"
  unfolding keys_distinguish_def
proof (intro allI impI ballI)
  fix config x y
  assume config: "from_average_kib DEFAULT_AVERAGE_KIB = Inr config" and x: "x \<in> set (chunks_of config mebibyte)"
    and y: "y \<in> set (chunks_of config mebibyte)" and key: "key_of identity_libs x = key_of identity_libs y"
  have "length x < 2 ^ 32" "length y < 2 ^ 32" using small_chunks [OF from_average_kib_ok(1) [OF config]] x y by blast+
  moreover have "unat (of_nat (length x) :: u32) = unat (of_nat (length y) :: u32)" using key by (simp add: key_of_def)
  ultimately have "length x = length y" by (simp add: unat_of_nat_small)
  then show "x = y" using zero_chunks [OF x] zero_chunks [OF y] by metis
qed

lemma twin_ready: "rebuild_ready twin_fs (3, Some 5) name_a"
proof -
  have "[0x62] \<noteq> name_a" "name_a @ cdc_suffix 3 5 \<noteq> name_a" "name_a @ cdc_suffix 3 5 \<noteq> [0x62]"
    by (simp_all add: name_a_def cdc_suffix_def cdc_part_def)
  then show ?thesis
    by (simp add: rebuild_ready_def Let_def cdc_temporary_path_Inr cdc_path sample_paths twin_fs_def parent_exists_def nonempty_prefixes_def)
qed

text \<open>The sender's record for the second of two equal files, and a receiver that has the first one.\<close>

lemma twin_sent:
  "\<exists>dec out q'. sender_try_plan identity_libs twins 1 [0] (default_cache, twin_fs) = (Inr (dec, out), q', twin_fs) \<and> lane_completed dec"
proof -
  have "\<exists>pl n out q'. try_basis_file identity_libs 1 (twin name_a) 0 (twin [0x62]) (default_cache, twin_fs) =
      (Inr (Some (completed_decision (file_size (twin name_a)) pl n, out)), q', twin_fs)"
    using try_basis_file_same [OF twin_source twins_get(1) identity_libs_ok _ _ empty_cache, of 1] by (simp add: length_mebibyte) blast
  then obtain pl n out q' where t: "try_basis_file identity_libs 1 (twin name_a) 0 (twin [0x62]) (default_cache, twin_fs) =
      (Inr (Some (completed_decision (file_size (twin name_a)) pl n, out)), q', twin_fs)" by blast
  let ?dec = "completed_decision (file_size (twin name_a)) pl n"
  have one: "\<not> (0 :: nat) + 1 > MAXIMUM_BASIS_CANDIDATES" "(0 :: nat) + 1 \<le> usize_max"
    by (simp_all add: MAXIMUM_BASIS_CANDIDATES_def usize_max_def)
  have "try_basis_files identity_libs twins 1 (twin name_a) (rev [0]) 0 (default_cache, twin_fs) = (Inr (?dec, out), q', twin_fs)"
    using t one twins_get twin_eligible(1) by (simp add: lbind_def lfs_def flift_def fguard_def fret_def lret_def)
  moreover have "\<not> file_size (twin name_a) < MINIMUM_TARGET_BYTES" by (simp add: twin_def MINIMUM_TARGET_BYTES_def)
  ultimately have "sender_try_plan identity_libs twins 1 [0] (default_cache, twin_fs) = (Inr (?dec, out), q', twin_fs)"
    using twins_get(2) twin_eligible(2) source_fileD(6) [OF twin_source(1)]
    by (simp add: sender_try_plan_def lbind_def lfs_def flift_def del: try_basis_files.simps)
  then show ?thesis by (auto simp: completed_decision_def)
qed

definition twin_delivery :: "CdcLaneDecision \<Rightarrow> byte list \<Rightarrow> bool" where
  "twin_delivery dec out \<longleftrightarrow> (\<exists>body. out = MESSAGE_SESSION_CDC_PLAN # body \<and>
     (\<exists>d'. receiver_apply_plan identity_libs (3, Some 5) twins 1 [0] (body @ [9]) twin_fs = (Inr (dec, [9]), d') \<and> holds d' [Normal name_a] mebibyte))"

lemma twin_applied:
  assumes "\<exists>body e content k b basis. out = MESSAGE_SESSION_CDC_PLAN # body \<and> k \<in> set [0] \<and>
    manifest_get twins 1 = Some e \<and> file_at twin_fs (final_path e) content \<and> length content = unat (file_size e) \<and>
    manifest_get twins k = Some b \<and> file_at twin_fs (final_path b) basis \<and>
    (\<forall>stamp rest d.
      (\<forall>dec' rest' d'. receiver_apply_plan identity_libs stamp twins 1 [0] (body @ rest) d = (Inr (dec', rest'), d') \<longrightarrow>
         dec' = dec \<and> rest' = rest \<and>
         (\<exists>x. holds d' (final_path e) x \<and> length x = length content \<and> blake3 identity_libs x = blake3 identity_libs content)) \<and>
      (rebuild_ready d stamp (relative_path e) \<and> (\<exists>t a. fmlookup (nodes d) (final_path b) = Some (FileNode basis t a) \<and> a AND FILE_ATTRIBUTE_REPARSE_POINT = 0) \<and>
       keys_distinguish identity_libs DEFAULT_AVERAGE_KIB basis content \<longrightarrow>
         (\<exists>d'. receiver_apply_plan identity_libs stamp twins 1 [0] (body @ rest) d = (Inr (dec, rest), d') \<and>
            holds d' (final_path e) content)))"
  shows "twin_delivery dec out"
proof -
  from assms obtain body e content k b basis where
    w: "out = MESSAGE_SESSION_CDC_PLAN # body" "k \<in> set [0]" "manifest_get twins 1 = Some e" "file_at twin_fs (final_path e) content"
      "manifest_get twins k = Some b" "file_at twin_fs (final_path b) basis"
    and live: "rebuild_ready twin_fs (3, Some 5) (relative_path e) \<and>
        (\<exists>t a. fmlookup (nodes twin_fs) (final_path b) = Some (FileNode basis t a) \<and> a AND FILE_ATTRIBUTE_REPARSE_POINT = 0) \<and>
        keys_distinguish identity_libs DEFAULT_AVERAGE_KIB basis content \<longrightarrow>
      (\<exists>d'. receiver_apply_plan identity_libs (3, Some 5) twins 1 [0] (body @ [9]) twin_fs = (Inr (dec, [9]), d') \<and> holds d' (final_path e) content)"
  proof (elim exE conjE, goal_cases)
    case (1 body e content k b basis)
    show ?case by (rule 1(1) [OF 1(2,3,4,5,7,8) 1(9) [THEN spec, THEN spec, THEN spec, THEN conjunct2]])
  qed
  have eb: "e = twin name_a" "b = twin [0x62]" "content = mebibyte" "basis = mebibyte"
    using w twins_get contents_unique source_fileD(3) [OF twin_source(1)] source_fileD(3) [OF twin_source(2)] by auto
  have "relative_path (twin name_a) = name_a" "(0x20 :: u32) AND FILE_ATTRIBUTE_REPARSE_POINT = 0"
    by (simp_all add: twin_def FILE_ATTRIBUTE_REPARSE_POINT_def)
  then have "\<exists>d'. receiver_apply_plan identity_libs (3, Some 5) twins 1 [0] (body @ [9]) twin_fs = (Inr (dec, [9]), d') \<and>
      holds d' [Normal name_a] mebibyte"
    using live twin_ready twin_keys twin_nodes(2) unfolding eb twin_paths by auto
  then show ?thesis using w(1) by (auto simp: twin_delivery_def)
qed

text \<open> The plan for the second of two equal files is delivered to a receiver that has the first one.\<close>

theorem session_plan_delivers_witness:
  "\<exists>dec out q' s' body. sender_try_plan identity_libs twins 1 [0] (default_cache, twin_fs) = (Inr (dec, out), q', s') \<and> lane_completed dec \<and>
     out = MESSAGE_SESSION_CDC_PLAN # body \<and>
     (\<exists>d'. receiver_apply_plan identity_libs (3, Some 5) twins 1 [0] (body @ [9]) twin_fs = (Inr (dec, [9]), d') \<and> holds d' [Normal name_a] mebibyte)"
proof -
  obtain dec out q' where r: "sender_try_plan identity_libs twins 1 [0] (default_cache, twin_fs) = (Inr (dec, out), q', twin_fs)" "lane_completed dec"
    using twin_sent by blast
  have "twin_delivery dec out"
    by (rule twin_applied [OF session_plan_delivers [OF r empty_cache(1) identity_libs_ok subset_refl]])
  then show ?thesis using r unfolding twin_delivery_def by blast
qed

text \<open>
   The receiver of that plan succeeds, and it has read the record of a plan against the first file: the second one is
  what this plan makes of the first, with the digest the plan announces.
\<close>

theorem session_plan_safe_witness:
  "\<exists>body dec d' b pl basis. receiver_apply_plan identity_libs (3, Some 5) twins 1 [0] (body @ [9]) twin_fs = (Inr (dec, [9]), d') \<and>
     kept {[Normal name_a]} twin_fs d' \<and> carries_plan twins 1 [0] (twin name_a) (body @ [9]) b pl [9] \<and>
     file_at twin_fs (final_path b) basis \<and> holds d' [Normal name_a] (expand basis (operations pl)) \<and>
     verified_output identity_libs pl [Normal name_a] d'"
proof -
  obtain dec out q' where r: "sender_try_plan identity_libs twins 1 [0] (default_cache, twin_fs) = (Inr (dec, out), q', twin_fs)" "lane_completed dec"
    using twin_sent by blast
  have "twin_delivery dec out"
    by (rule twin_applied [OF session_plan_received [OF r empty_cache(1) identity_libs_ok subset_refl]])
  then obtain body d' where run: "receiver_apply_plan identity_libs (3, Some 5) twins 1 [0] (body @ [9]) twin_fs = (Inr (dec, [9]), d')"
    unfolding twin_delivery_def by blast
  from session_plan_safe [OF run twins_get(2)] run show ?thesis unfolding twin_paths sum.case prod.case by blast
qed

text \<open>Offering the index of an equal file, and the reply.\<close>

lemma index_wire_length:
  assumes "index_encode_wire index = Inr wire" "index_ok index"
  shows "length wire = 24 + length (index_chunks index) * 44"
proof -
  have "index_decode_wire wire = Inr index" using assms index_wire_exact by blast
  then show ?thesis unfolding index_decode_wire_Inr by auto
qed

lemma reply_with_plan_calm:
  assumes "source_file s e c" "plan_pays e m pl" "plan_encode_wire pl = Inr (plan_wire pl)" "i < 2 ^ 64"
  shows "reply_with_plan i e m pl s =
    (Inr (planned_decision m (file_size e) pl (of_nat (length (plan_wire pl))), plan_reply i (plan_wire pl)), s)"
proof -
  let ?w = "plan_wire pl" and ?n = "of_nat (length (plan_wire pl)) :: u64"
  have p: "length ?w \<le> MAXIMUM_PLAN_WIRE_BYTES" "unat m + length ?w < unat (file_size e)" using assms(2) by (simp_all add: plan_pays_def)
  have n: "word_try_from OtherError (length ?w) = Inr ?n" "unat ?n = length ?w"
    using p(1) MAXIMUM_PLAN_small(1) by (simp_all add: word_try_from_def unat_of_nat_small)
  have "unat m + unat ?n < 2 ^ 64" using p(2) n(2) unat_less_2p [of "file_size e"] by simp
  then have t: "checked_add m ?n = Some (m + ?n)" "\<not> file_size e \<le> m + ?n"
    using p(2) n(2) by (simp_all add: checked_add_def word_le_nat_alt unat_word_ariths)
  have "wcat [write_u8 MESSAGE_CDC_PLAN, write_file_id i, write_u64 ?n, Inr ?w] = Inr (plan_reply i ?w)"
    using assms(4) write_file_id_bytes [of i "id_bytes i"] by (simp add: engine_prims plan_reply_def id_bytes_def)
  then show ?thesis
    using p(1) n t assms(3) source_fileD(6) [OF assms(1)]
    by (simp add: reply_with_plan_def validate_source_eq fbind_def flift_def fret_def del: wcat.simps)
qed

text \<open> A receiver has an equal file already: it offers its index, the sender replies with a plan, and the file is rebuilt.\<close>

theorem negotiation_agrees_witness:
  "\<exists>offer n m d1 dec reply s'. receiver_offer_index identity_libs 1 (twin name_a) True twin_fs = (Inr (offer, Some (n, m)), d1) \<and>
     sender_negotiate identity_libs 1 (twin name_a) (offer @ [9]) twin_fs = (Inr (dec, reply, [9]), s') \<and> lane_completed dec \<and>
     (\<exists>d3. receiver_read_reply identity_libs (3, Some 5) 1 (twin name_a) n m (reply @ [8]) twin_fs = (Inr (dec, [8]), d3) \<and>
        holds d3 [Normal name_a] mebibyte)"
proof -
  let ?e = "twin name_a" and ?c = mebibyte
  note e = source_fileD [OF twin_source(1)]
  obtain config where config: "from_average_kib DEFAULT_AVERAGE_KIB = Inr config" using default_config by blast
  define i where "i = index_of identity_libs DEFAULT_AVERAGE_KIB config mebibyte"
  have i: "index_ok i" "index_file_bytes i = 2 ^ 20" "index_average_kib i = DEFAULT_AVERAGE_KIB"
    "length (index_chunks i) = length (chunks_of config mebibyte)"
    using index_of_ok(1) [OF identity_libs_ok config e(2)] by (simp_all add: i_def) (simp_all add: index_of_def Let_def length_mebibyte)
  obtain wire where wire: "index_encode_wire i = Inr wire" using index_of_ok(2) [OF identity_libs_ok config e(2)] i_def by blast
  have "minimum_bytes config = 32768" using from_average_kib_ok(4) [OF config] by (simp add: DEFAULT_AVERAGE_KIB_def)
  then have chunks: "length (chunks_of config mebibyte) \<le> 33"
    using few_chunks [OF from_average_kib_ok(1) [OF config], of mebibyte] by (simp add: length_mebibyte)
  then have small: "length wire \<le> 1476" using index_wire_length [OF wire i(1)] i(4) by simp
  have build: "BasisFileIndex_build identity_libs (final_path ?e) DEFAULT_AVERAGE_KIB twin_fs = (Inr i, twin_fs)"
    unfolding i_def by (rule index_build_calm [OF e(3,1,2) config])
  have "eligible_basis (final_path ?e) twin_fs = (Inr True, twin_fs)"
    using e(1) by (simp add: eligible_basis_def symlink_metadata_def syscall_def next_fault_def twin_paths twin_nodes length_mebibyte
        is_reparse_def FILE_ATTRIBUTE_REPARSE_POINT_def fret_def)
  moreover have "offer_index 1 (Inr i) twin_fs = (Inr (index_offer 1 wire, Some (2 ^ 20, of_nat (length wire))), twin_fs)"
    using wire small i(2) write_file_id_bytes [of 1 "id_bytes 1"]
    by (simp add: offer_index_def fbind_def flift_def fret_def MAXIMUM_INDEX_WIRE_BYTES_def word_try_from_def engine_prims index_offer_def id_bytes_def)
  ultimately have offer: "receiver_offer_index identity_libs 1 ?e True twin_fs =
      (Inr (index_offer 1 wire, Some (2 ^ 20, of_nat (length wire))), twin_fs)"
    using build by (simp add: receiver_offer_index_def fbind_def attempt_def twin_eligible(2) twin_size MINIMUM_FILE_BYTES_def)
  obtain pl where pl: "build_bounded identity_libs (final_path ?e) i MAXIMUM_LITERAL_BYTES twin_fs = (Inr pl, twin_fs)" "plan_literal_bytes pl = 0"
    using build_bounded_same [OF e(3,1,2) config identity_libs_ok] i_def by blast
  note fits = same_plan_fits [OF twin_source(1) pl(1) [unfolded i_def] pl(2) config identity_libs_ok]
  have "plan_pays ?e (of_nat (length wire)) pl"
    using fits(5) chunks small by (simp add: plan_pays_def length_mebibyte unat_of_nat_small MAXIMUM_PLAN_WIRE_BYTES_def twin_size)
  note reply = reply_with_plan_calm [OF twin_source(1) this, of 1]
  let ?dec = "planned_decision (of_nat (length wire)) (file_size ?e) pl (of_nat (length (plan_wire pl)))"
  have "reply_to_index identity_libs 1 ?e (of_nat (length wire)) i twin_fs = (Inr (?dec, plan_reply 1 (plan_wire pl)), twin_fs)"
    using e(6) i(3) pl(1) reply fits(3)
    by (simp add: reply_to_index_def validate_source_eq fbind_def fguard_def fret_def attempt_def length_mebibyte)
  then have send: "sender_negotiate identity_libs 1 ?e (index_offer 1 wire @ [9]) twin_fs = (Inr (?dec, plan_reply 1 (plan_wire pl), [9]), twin_fs)"
    using sender_reads_index [OF _ wire i(1), of 1 identity_libs ?e "[9]"] small by (simp add: MAXIMUM_INDEX_WIRE_BYTES_def fbind_def fret_def)
  have d: "lane_completed ?dec" by (simp add: planned_decision_def)
  from negotiation_agrees [OF offer send identity_libs_ok] obtain content basis where
    w: "file_at twin_fs (final_path ?e) content" "file_at twin_fs (final_path ?e) basis"
    and live: "rebuild_ready twin_fs (3, Some 5) (relative_path ?e) \<and> file_at twin_fs (final_path ?e) basis \<and>
        keys_distinguish identity_libs DEFAULT_AVERAGE_KIB basis content \<longrightarrow>
      (\<exists>d3. receiver_read_reply identity_libs (3, Some 5) 1 ?e (2 ^ 20) (of_nat (length wire)) (plan_reply 1 (plan_wire pl) @ [8]) twin_fs =
          (Inr (?dec, [8]), d3) \<and> (lane_completed ?dec \<longrightarrow> holds d3 (final_path ?e) content))"
    unfolding option.case prod.case
  proof (elim exE conjE, goal_cases)
    case (1 content basis)
    show ?case by (rule 1(1) [OF _ _ 1(7) [THEN spec, THEN spec, THEN spec, THEN conjunct2]]) (use 1 d in blast)+
  qed
  have eq: "content = mebibyte" "basis = mebibyte" using w e(3) contents_unique by blast+
  have "relative_path ?e = name_a" by (simp add: twin_def)
  then have "\<exists>d3. receiver_read_reply identity_libs (3, Some 5) 1 ?e (2 ^ 20) (of_nat (length wire)) (plan_reply 1 (plan_wire pl) @ [8]) twin_fs =
      (Inr (?dec, [8]), d3) \<and> holds d3 [Normal name_a] mebibyte"
    using live twin_ready twin_keys w(2) d unfolding eq twin_paths by metis
  then show ?thesis using offer send d by blast
qed

end
