(* ===== verification/Receive_Lanes.thy ===== *)
theory Receive_Lanes
  imports Cdc_Lanes
begin

text \<open>
  The receiving lanes of a transfer running concurrently, from \<^verbatim>\<open>receive_lane_group\<close> and \<^verbatim>\<open>receive_lane\<close> of
  \<^verbatim>\<open>src/multistream_copy.rs\<close>: a step relation over the shared destination, the shared journal and the lanes.  A
  whole file comes as a session plan, after a negotiation about an older version, or as plain data.
  The theorems connect the plan, the stripes, the journal and the finalization of large files.  They speak about the
  large files whose part file is their own: the code accepts a manifest in which another file has the name of a part
  file, and then the two overwrite each other (\<open>Destination_Prep\<close> shows what the preparation does to such a file).
\<close>

section \<open>Receiving a whole file\<close>









section \<open>Lanes\<close>










section \<open>The invariant\<close>






section \<open>Changes of the part files\<close>















section \<open>Stripes do not overlap\<close>








section \<open>Whole files and tiny packs leave the part files of large files alone\<close>



















section \<open>The invariant is kept\<close>




















section \<open>From the plan to the last stripe\<close>









section \<open>A run over a resumed plan\<close>







section \<open>A sample run\<close>

















end
