(* ===== verification/Text_Format.thy ===== *)
theory Text_Format
  imports Rust_Text
begin

text \<open>
  Text as the management code writes and reads it: numbers printed and parsed by the standard library,
  lines and fields, UTF-8, and the hexadecimal form of \<^verbatim>\<open>src/management_persistence.rs\<close>, each with its
  round trip.
\<close>

section \<open>Numbers\<close>

text \<open>\<^verbatim>\<open>char::from_digit\<close> and \<^verbatim>\<open>char::to_digit\<close>.\<close>

definition digit_char :: "bool \<Rightarrow> nat \<Rightarrow> nat" where
  "digit_char upper d = (if d < 10 then 48 + d else if upper then 55 + d else 87 + d)"

definition digit_value :: "nat \<Rightarrow> nat \<Rightarrow> nat option" where
  "digit_value radix c =
     (let d = (if 48 \<le> c \<and> c \<le> 57 then c - 48
               else if 65 \<le> c \<and> c \<le> 90 then c - 55
               else if 97 \<le> c \<and> c \<le> 122 then c - 87
               else radix)
      in if d < radix then Some d else None)"

text \<open>\<^verbatim>\<open>{}\<close>, \<^verbatim>\<open>{:x}\<close> and \<^verbatim>\<open>{:X}\<close> of an unsigned integer.\<close>

function radix_text :: "bool \<Rightarrow> nat \<Rightarrow> nat \<Rightarrow> ustring" where
  "radix_text upper radix n =
     (if radix < 2 \<or> n < radix then [digit_char upper n]
      else radix_text upper radix (n div radix) @ [digit_char upper (n mod radix)])"
  by pat_completeness auto

termination
  by (relation "measure (\<lambda>(_, _, n). n)") auto

declare radix_text.simps [simp del]

definition display_nat :: "nat \<Rightarrow> ustring" where
  "display_nat n = radix_text False 10 n"

text \<open>\<^verbatim>\<open>{:032X}\<close> and its kind: padded with zeros on the left.\<close>

definition zero_padded :: "nat \<Rightarrow> ustring \<Rightarrow> ustring" where
  "zero_padded width s = replicate (width - length s) 48 @ s"

fun parse_digits :: "nat \<Rightarrow> nat \<Rightarrow> ustring \<Rightarrow> nat option" where
  "parse_digits radix acc [] = Some acc"
| "parse_digits radix acc (c # cs) =
     (case digit_value radix c of None \<Rightarrow> None | Some d \<Rightarrow> parse_digits radix (acc * radix + d) cs)"

text \<open>
  \<^verbatim>\<open>from_str_radix\<close> of an unsigned type with largest value \<open>limit\<close>: a leading plus sign is accepted, an
  empty string, a lone sign, any other character and a value above the limit are errors.
\<close>

definition from_str_radix :: "nat \<Rightarrow> nat \<Rightarrow> ustring \<Rightarrow> nat option" where
  "from_str_radix radix limit s =
     (let digits = (if s \<noteq> [] \<and> hd s = 43 then tl s else s)
      in if digits = [] then None
         else case parse_digits radix 0 digits of
                None \<Rightarrow> None
              | Some n \<Rightarrow> if n \<le> limit then Some n else None)"

definition parse_word :: "ustring \<Rightarrow> 'a::len word option" where
  "parse_word s = map_option of_nat (from_str_radix 10 (2 ^ LENGTH('a) - 1) s)"

definition parse_usize :: "ustring \<Rightarrow> usize option" where
  "parse_usize s = from_str_radix 10 usize_max s"

lemma digit_value_char: "d < radix \<Longrightarrow> radix \<le> 36 \<Longrightarrow> digit_value radix (digit_char upper d) = Some d"
  by (auto simp: digit_value_def digit_char_def)

lemma parse_digits_append:
  "parse_digits radix acc (xs @ ys) =
     (case parse_digits radix acc xs of None \<Rightarrow> None | Some n \<Rightarrow> parse_digits radix n ys)"
  by (induction xs arbitrary: acc) (auto split: option.split)

lemma parse_digits_radix_text:
  assumes "2 \<le> radix" "radix \<le> 36"
  shows "parse_digits radix 0 (radix_text upper radix n) = Some n"
proof (induction n rule: less_induct)
  case (less n)
  show ?case
  proof (cases "n < radix")
    case True
    then show ?thesis using assms by (simp add: radix_text.simps [of _ _ n] digit_value_char)
  next
    case False
    have "n div radix < n" using False assms by (intro div_less_dividend) auto
    with less have "parse_digits radix 0 (radix_text upper radix (n div radix)) = Some (n div radix)" .
    moreover have "n mod radix < radix" using assms by simp
    ultimately show ?thesis using assms False
      by (subst radix_text.simps) (simp add: parse_digits_append digit_value_char)
  qed
qed

lemma parse_digits_zeros: "2 \<le> radix \<Longrightarrow> parse_digits radix 0 (replicate k 48 @ s) = parse_digits radix 0 s"
  by (induction k) (auto simp: digit_value_def)

lemma radix_text_not_Nil [simp]: "radix_text upper radix n \<noteq> []"
  by (subst radix_text.simps) simp

lemma zero_padded_Nil [simp]: "zero_padded k s = [] \<longleftrightarrow> k = 0 \<and> s = []"
  by (auto simp: zero_padded_def)

text \<open>Letters and digits: what a printed number consists of.\<close>

definition alnum :: "nat \<Rightarrow> bool" where
  "alnum c \<longleftrightarrow> 48 \<le> c \<and> c \<le> 57 \<or> 65 \<le> c \<and> c \<le> 90 \<or> 97 \<le> c \<and> c \<le> 122"

lemma alnum_radix_text: "2 \<le> radix \<Longrightarrow> radix \<le> 36 \<Longrightarrow> c \<in> set (radix_text upper radix n) \<Longrightarrow> alnum c"
proof (induction n rule: less_induct)
  case (less n)
  have digit: "d < 36 \<Longrightarrow> alnum (digit_char upper d)" for d
    by (auto simp: alnum_def digit_char_def)
  show ?case
  proof (cases "n < radix")
    case True
    then show ?thesis using less.prems digit by (auto simp: radix_text.simps [of _ _ n])
  next
    case False
    then have "n div radix < n" using less.prems by (intro div_less_dividend) auto
    then have IH: "c \<in> set (radix_text upper radix (n div radix)) \<Longrightarrow> alnum c"
      using less.IH less.prems(1,2) by blast
    have "n mod radix < 36" using less.prems(1,2) mod_less_divisor [of radix n] by linarith
    then show ?thesis using IH less.prems False digit
      by (auto simp: radix_text.simps [of _ _ n])
  qed
qed

lemma from_str_radix_text:
  assumes "2 \<le> radix" "radix \<le> 36" "n \<le> limit"
  shows "from_str_radix radix limit (zero_padded k (radix_text upper radix n)) = Some n"
proof -
  define s where "s = zero_padded k (radix_text upper radix n)"
  have "c \<in> set s \<Longrightarrow> alnum c" for c
    using alnum_radix_text assms by (auto simp: s_def zero_padded_def alnum_def)
  moreover have s: "s \<noteq> []" by (simp add: s_def)
  ultimately have "alnum (hd s)" by simp
  then have "hd s \<noteq> 43" by (auto simp: alnum_def)
  moreover have "parse_digits radix 0 s = Some n"
    using assms by (simp add: s_def zero_padded_def parse_digits_zeros parse_digits_radix_text)
  ultimately show ?thesis using s assms(3) by (simp add: from_str_radix_def s_def)
qed

lemma from_str_display:
  "n \<le> limit \<Longrightarrow> from_str_radix 10 limit (display_nat n) = Some n"
  using from_str_radix_text [of 10 n limit 0] by (simp add: display_nat_def zero_padded_def)

lemma parse_word_display [simp]: "parse_word (display_nat (unat w)) = Some w"
proof -
  have "unat w \<le> 2 ^ LENGTH('a) - 1" for w :: "'a::len word"
    using unat_less_2p [of w] by linarith
  then show ?thesis by (simp add: parse_word_def from_str_display)
qed

lemma parse_usize_display [simp]: "n \<le> usize_max \<Longrightarrow> parse_usize (display_nat n) = Some n"
  by (simp add: parse_usize_def from_str_display)

section \<open>Lines and fields\<close>

text \<open>\<^verbatim>\<open>str::lines\<close>: every line ends at a newline, before which one carriage return is dropped.\<close>

definition strip_cr :: "ustring \<Rightarrow> ustring" where
  "strip_cr l = (if l \<noteq> [] \<and> last l = 13 then butlast l else l)"

fun lines_from :: "ustring \<Rightarrow> ustring \<Rightarrow> ustring list" where
  "lines_from cur [] = (if cur = [] then [] else [cur])"
| "lines_from cur (c # cs) = (if c = 10 then strip_cr cur # lines_from [] cs else lines_from (cur @ [c]) cs)"

definition text_lines :: "ustring \<Rightarrow> ustring list" where
  "text_lines s = lines_from [] s"

text \<open>The text a sequence of \<^verbatim>\<open>push_line\<close> calls builds, and \<^verbatim>\<open>join\<close> with newlines.\<close>

definition push_lines :: "ustring list \<Rightarrow> ustring" where
  "push_lines ls = concat (map (\<lambda>l. l @ [10]) ls)"

fun join_nl :: "ustring list \<Rightarrow> ustring" where
  "join_nl [] = []"
| "join_nl [l] = l"
| "join_nl (l # ls) = l @ 10 # join_nl ls"

fun split_once :: "nat \<Rightarrow> ustring \<Rightarrow> (ustring \<times> ustring) option" where
  "split_once x [] = None"
| "split_once x (c # cs) = (if c = x then Some ([], cs) else map_option (\<lambda>(a, b). (c # a, b)) (split_once x cs))"

definition starts_with :: "'a list \<Rightarrow> 'a list \<Rightarrow> bool" where
  "starts_with s p \<longleftrightarrow> take (length p) s = p"

text \<open>\<^verbatim>\<open>str::find\<close>: the first position at which the pattern begins.\<close>

fun find_from :: "nat \<Rightarrow> ustring \<Rightarrow> ustring \<Rightarrow> nat option" where
  "find_from i p [] = (if p = [] then Some i else None)"
| "find_from i p (c # cs) = (if starts_with (c # cs) p then Some i else find_from (Suc i) p cs)"

definition str_find :: "ustring \<Rightarrow> ustring \<Rightarrow> nat option" where
  "str_find s p = find_from 0 p s"

definition plain_line :: "ustring \<Rightarrow> bool" where
  "plain_line l \<longleftrightarrow> (\<forall>c \<in> set l. c \<noteq> 10 \<and> c \<noteq> 13)"

lemma push_lines_simps [simp]:
  "push_lines [] = []"
  "push_lines (l # ls) = l @ 10 # push_lines ls"
  "push_lines (xs @ ys) = push_lines xs @ push_lines ys"
  by (simp_all add: push_lines_def)

lemma join_nl_push_lines: "ls \<noteq> [] \<Longrightarrow> join_nl ls @ [10] = push_lines ls"
  by (induction ls rule: join_nl.induct) auto

lemma lines_from_plain: "plain_line l \<Longrightarrow> lines_from cur (l @ 10 # s) = strip_cr (cur @ l) # lines_from [] s"
  by (induction l arbitrary: cur) (auto simp: plain_line_def)

lemma text_lines_push_lines:
  "\<forall>l \<in> set ls. plain_line l \<Longrightarrow> text_lines (push_lines ls) = ls"
proof (induction ls)
  case (Cons l ls)
  then have "strip_cr l = l" using last_in_set [of l] by (auto simp: strip_cr_def plain_line_def)
  with Cons show ?case by (simp add: text_lines_def lines_from_plain)
qed (simp add: text_lines_def)

lemma split_once_append: "x \<notin> set a \<Longrightarrow> split_once x (a @ x # b) = Some (a, b)"
  by (induction a) auto

lemma plain_line_append [simp]: "plain_line (a @ b) \<longleftrightarrow> plain_line a \<and> plain_line b"
  by (auto simp: plain_line_def)

lemma plain_line_Cons [simp]: "plain_line (c # b) \<longleftrightarrow> c \<noteq> 10 \<and> c \<noteq> 13 \<and> plain_line b"
  by (auto simp: plain_line_def)

lemma plain_line_Nil [simp]: "plain_line []"
  by (simp add: plain_line_def)

lemma plain_line_alnum: "\<forall>c \<in> set l. alnum c \<Longrightarrow> plain_line l"
  by (auto simp: plain_line_def alnum_def)

lemma plain_line_display [simp]: "plain_line (display_nat n)"
  using alnum_radix_text [of 10] by (auto simp: display_nat_def intro!: plain_line_alnum)

lemma starts_with_append [simp]: "starts_with (p @ s) p"
  by (simp add: starts_with_def)

lemma str_len_append [simp]: "str_len (a @ b) = str_len a + str_len b"
  by (simp add: str_len_def)

section \<open>UTF-8\<close>

definition is_scalar :: "nat \<Rightarrow> bool" where
  "is_scalar c \<longleftrightarrow> c < 0xD800 \<or> 0xE000 \<le> c \<and> c < 0x110000"

text \<open>Every Rust string is a list of Unicode scalar values.\<close>

definition is_text :: "ustring \<Rightarrow> bool" where
  "is_text s \<longleftrightarrow> (\<forall>c \<in> set s. is_scalar c)"

definition utf8_char :: "nat \<Rightarrow> byte list" where
  "utf8_char c = map of_nat
     (if c < 0x80 then [c]
      else if c < 0x800 then [0xC0 + c div 64, 0x80 + c mod 64]
      else if c < 0x10000 then [0xE0 + c div 4096, 0x80 + c div 64 mod 64, 0x80 + c mod 64]
      else [0xF0 + c div 262144, 0x80 + c div 4096 mod 64, 0x80 + c div 64 mod 64, 0x80 + c mod 64])"

definition as_bytes :: "ustring \<Rightarrow> byte list" where
  "as_bytes s = concat (map utf8_char s)"

text \<open>\<^verbatim>\<open>String::from_utf8\<close>: continuation bytes, no overlong forms, no surrogates, nothing above \<^verbatim>\<open>10FFFF\<close>.\<close>

fun continuation :: "byte list \<Rightarrow> (nat \<times> byte list) option" where
  "continuation [] = None"
| "continuation (b # bs) = (if 0x80 \<le> unat b \<and> unat b < 0xC0 then Some (unat b - 0x80, bs) else None)"

fun continuations :: "nat \<Rightarrow> nat \<Rightarrow> byte list \<Rightarrow> (nat \<times> byte list) option" where
  "continuations 0 acc bs = Some (acc, bs)"
| "continuations (Suc n) acc bs =
     (case continuation bs of None \<Rightarrow> None | Some (d, bs') \<Rightarrow> continuations n (acc * 64 + d) bs')"

definition utf8_next :: "byte list \<Rightarrow> (nat \<times> byte list) option" where
  "utf8_next bs = (case bs of [] \<Rightarrow> None
     | b # rest \<Rightarrow>
         let x = unat b in
         if x < 0x80 then Some (x, rest)
         else if x < 0xC0 then None
         else case (if x < 0xE0 then continuations 1 (x - 0xC0) rest
                    else if x < 0xF0 then continuations 2 (x - 0xE0) rest
                    else if x < 0xF8 then continuations 3 (x - 0xF0) rest
                    else None) of
                None \<Rightarrow> None
              | Some (c, rest') \<Rightarrow>
                  if is_scalar c \<and> utf8_char_len c = length bs - length rest' then Some (c, rest') else None)"

lemma continuations_length:
  "continuations n acc bs = Some (c, rest) \<Longrightarrow> length bs = n + length rest"
proof (induction n arbitrary: acc bs)
  case (Suc n)
  then show ?case by (cases bs) (auto split: if_splits)
qed simp

lemma utf8_next_shorter: "utf8_next bs = Some (c, rest) \<Longrightarrow> length rest < length bs"
  by (auto simp: utf8_next_def Let_def simp del: continuations.simps dest!: continuations_length
      split: list.splits if_splits option.splits prod.splits)

function from_utf8 :: "byte list \<Rightarrow> ustring option" where
  "from_utf8 bs = (if bs = [] then Some []
     else case utf8_next bs of None \<Rightarrow> None | Some (c, rest) \<Rightarrow> map_option (Cons c) (from_utf8 rest))"
  by pat_completeness auto

termination
  by (relation "measure length") (auto dest: utf8_next_shorter)

declare from_utf8.simps [simp del]

lemma length_utf8_char [simp]: "length (utf8_char c) = utf8_char_len c"
  by (simp add: utf8_char_def utf8_char_len_def)

lemma length_as_bytes [simp]: "length (as_bytes s) = str_len s"
  by (induction s) (auto simp: as_bytes_def str_len_def)

lemma as_bytes_append [simp]: "as_bytes (a @ b) = as_bytes a @ as_bytes b"
  by (simp add: as_bytes_def)

lemma continuations_encoded:
  "d < 64 \<Longrightarrow> continuations (Suc n) acc (of_nat (0x80 + d) # bs) = continuations n (acc * 64 + d) bs"
  by (simp add: unat_of_nat_small del: of_nat_add of_nat_numeral)

lemma utf8_next_char:
  assumes "is_scalar c"
  shows "utf8_next (utf8_char c @ rest) = Some (c, rest)"
proof -
  have small: "unat (of_nat n :: byte) = n" if "n < 256" for n
    using that by (simp add: unat_of_nat_small)
  have len: "utf8_char_len c = length (utf8_char c @ rest) - length rest" by simp
  have lead: "utf8_next (of_nat x # bs) = Some (c, rest)"
    if "x < 256" "utf8_char c @ rest = of_nat x # bs" "\<not> x < 0xC0"
      "(if x < 0xE0 then continuations 1 (x - 0xC0) bs
        else if x < 0xF0 then continuations 2 (x - 0xE0) bs
        else if x < 0xF8 then continuations 3 (x - 0xF0) bs else None) = Some (c, rest)" for x bs
    using that assms len unfolding utf8_next_def Let_def list.case small [OF that(1)] by simp
  have d1: "c div 4096 = c div 64 div 64" using div_mult2_eq [of c 64 64] by simp
  have d2: "c div 262144 = c div 4096 div 64" using div_mult2_eq [of c 4096 64] by simp
  consider "c < 0x80" | "0x80 \<le> c" "c < 0x800" | "0x800 \<le> c" "c < 0x10000" | "0x10000 \<le> c" "c < 0x110000"
    using assms unfolding is_scalar_def by linarith
  then show ?thesis
  proof cases
    case 1
    then show ?thesis by (simp add: utf8_char_def utf8_next_def unat_of_nat_small)
  next
    case 2
    have "c div 64 < 32" using 2 by linarith
    have eq: "utf8_char c @ rest = of_nat (0xC0 + c div 64) # of_nat (0x80 + c mod 64) # rest"
      using 2 by (simp add: utf8_char_def)
    have "c div 64 * 64 + c mod 64 = c" by simp
    then show ?thesis unfolding eq
      using 2 \<open>c div 64 < 32\<close> by (intro lead) (auto simp: eq One_nat_def continuations_encoded simp del: of_nat_add continuations.simps(2))
  next
    case 3
    have "c div 4096 < 16" using 3 by linarith
    have eq: "utf8_char c @ rest = of_nat (0xE0 + c div 4096) # of_nat (0x80 + c div 64 mod 64) # of_nat (0x80 + c mod 64) # rest"
      using 3 by (simp add: utf8_char_def)
    have "(c div 4096 * 64 + c div 64 mod 64) * 64 + c mod 64 = c"
      unfolding d1 div_mult_mod_eq by (rule refl)
    then show ?thesis unfolding eq
      using 3 \<open>c div 4096 < 16\<close> by (intro lead) (auto simp: eq numeral_2_eq_2 continuations_encoded simp del: of_nat_add continuations.simps(2))
  next
    case 4
    have "c div 262144 < 5" using 4 by linarith
    have eq: "utf8_char c @ rest = of_nat (0xF0 + c div 262144) # of_nat (0x80 + c div 4096 mod 64) # of_nat (0x80 + c div 64 mod 64) # of_nat (0x80 + c mod 64) # rest"
      using 4 by (simp add: utf8_char_def)
    have "((c div 262144 * 64 + c div 4096 mod 64) * 64 + c div 64 mod 64) * 64 + c mod 64 = c"
      unfolding d2 d1 div_mult_mod_eq by (rule refl)
    then show ?thesis unfolding eq
      using 4 \<open>c div 262144 < 5\<close> by (intro lead) (auto simp: eq numeral_3_eq_3 continuations_encoded simp del: of_nat_add continuations.simps(2))
  qed
qed

lemma from_utf8_as_bytes: "is_text s \<Longrightarrow> from_utf8 (as_bytes s) = Some s"
proof (induction s)
  case (Cons c s)
  have "utf8_char c \<noteq> []" by (simp add: utf8_char_def)
  with Cons show ?case
    by (subst from_utf8.simps) (simp add: as_bytes_def is_text_def utf8_next_char)
qed (simp add: from_utf8.simps as_bytes_def)

lemma is_text_append [simp]: "is_text (a @ b) \<longleftrightarrow> is_text a \<and> is_text b"
  by (auto simp: is_text_def)

section \<open>Hexadecimal bytes\<close>

text \<open>\<^verbatim>\<open>hex_encode\<close>, \<^verbatim>\<open>hex_decode\<close> and \<^verbatim>\<open>decode_hex_nibble\<close> of \<^verbatim>\<open>src/management_persistence.rs\<close>.\<close>

definition hex_encode :: "byte list \<Rightarrow> ustring" where
  "hex_encode bs = concat (map (\<lambda>b. [digit_char True (unat b div 16), digit_char True (unat b mod 16)]) bs)"

definition decode_hex_nibble :: "nat \<Rightarrow> nat io_result" where
  "decode_hex_nibble c =
     (if 48 \<le> c \<and> c \<le> 57 then Inr (c - 48)
      else if 65 \<le> c \<and> c \<le> 70 then Inr (c - 65 + 10)
      else if 97 \<le> c \<and> c \<le> 102 then Inr (c - 97 + 10)
      else Inl InvalidData)"

fun decode_hex_pairs :: "nat list \<Rightarrow> byte list io_result" where
  "decode_hex_pairs (h # l # rest) =
     ebind (decode_hex_nibble h) (\<lambda>high. ebind (decode_hex_nibble l) (\<lambda>low.
     ebind (decode_hex_pairs rest) (\<lambda>bs. Inr (of_nat (high * 16 + low) # bs))))"
| "decode_hex_pairs _ = Inr []"

definition hex_decode :: "ustring \<Rightarrow> byte list io_result" where
  "hex_decode s = (if odd (str_len s) then Inl InvalidData else decode_hex_pairs (map unat (as_bytes s)))"

lemma decode_hex_nibble_char: "d < 16 \<Longrightarrow> decode_hex_nibble (digit_char True d) = Inr d"
  by (auto simp: decode_hex_nibble_def digit_char_def)

text \<open>ASCII text: one byte per character.\<close>

definition ascii_text :: "ustring \<Rightarrow> bool" where
  "ascii_text s \<longleftrightarrow> (\<forall>c \<in> set s. c < 0x80)"

lemma ascii_text_append [simp]: "ascii_text (a @ b) \<longleftrightarrow> ascii_text a \<and> ascii_text b"
  by (auto simp: ascii_text_def)

lemma ascii_text_Cons [simp]: "ascii_text (c # s) \<longleftrightarrow> c < 0x80 \<and> ascii_text s"
  by (simp add: ascii_text_def)

lemma ascii_text_Nil [simp]: "ascii_text []"
  by (simp add: ascii_text_def)

lemma ascii_text_is_text: "ascii_text s \<Longrightarrow> is_text s"
  by (auto simp: ascii_text_def is_text_def is_scalar_def)

lemma ascii_bytes: "ascii_text s \<Longrightarrow> map unat (as_bytes s) = s"
  by (induction s) (auto simp: as_bytes_def utf8_char_def unat_of_nat_small)

lemma str_len_ascii: "ascii_text s \<Longrightarrow> str_len s = length s"
  by (induction s) (auto simp: str_len_def utf8_char_len_def)

lemma ascii_alnum: "\<forall>c \<in> set s. alnum c \<Longrightarrow> ascii_text s"
  by (auto simp: ascii_text_def alnum_def)

lemma ascii_display [simp]: "ascii_text (display_nat n)"
  using alnum_radix_text [of 10] by (auto simp: display_nat_def intro!: ascii_alnum)

lemma hex_encode_alnum: "c \<in> set (hex_encode bs) \<Longrightarrow> alnum c"
proof -
  have digit: "d < 16 \<Longrightarrow> alnum (digit_char True d)" for d by (auto simp: alnum_def digit_char_def)
  have "unat b div 16 < 16" "unat b mod 16 < 16" for b :: byte
    using unat_less_2p [of b] by auto
  with digit show "c \<in> set (hex_encode bs) \<Longrightarrow> alnum c" by (auto simp: hex_encode_def)
qed

lemma length_hex_encode [simp]: "length (hex_encode bs) = 2 * length bs"
  by (induction bs) (auto simp: hex_encode_def)

lemma hex_round_trip: "hex_decode (hex_encode bs) = Inr bs"
proof -
  have pairs: "decode_hex_pairs (hex_encode bs) = Inr bs"
  proof (induction bs)
    case (Cons b bs)
    have "unat b div 16 < 16" "unat b mod 16 < 16" using unat_less_2p [of b] by auto
    moreover have "unat b div 16 * 16 + unat b mod 16 = unat b" by simp
    ultimately show ?case using Cons
      by (simp add: hex_encode_def decode_hex_nibble_char del: of_nat_add of_nat_mult)
  qed (simp add: hex_encode_def)
  have "ascii_text (hex_encode bs)" using hex_encode_alnum by (blast intro: ascii_alnum)
  with pairs show ?thesis by (simp add: hex_decode_def ascii_bytes str_len_ascii)
qed

lemma plain_line_hex [simp]: "plain_line (hex_encode bs)"
  using hex_encode_alnum by (blast intro: plain_line_alnum)

lemma ascii_hex [simp]: "ascii_text (hex_encode bs)"
  using hex_encode_alnum by (blast intro: ascii_alnum)

end
