(* ===== verification/Address_Text.thy ===== *)
theory Address_Text
  imports Text_Format
begin

text \<open>
  The text of a socket address, as \<^verbatim>\<open>std::net\<close> prints and parses it: IPv4 and IPv6 addresses with the
  compressed run of zeros, IPv4-mapped addresses, scopes and ports.  \<open>parse_display_socket_addr\<close> is the
  round trip the codecs of the manager rely on.
\<close>

section \<open>Digits of an address\<close>

text \<open>\<^verbatim>\<open>octets\<close> of an IPv4 and \<^verbatim>\<open>segments\<close> of an IPv6 address, and the way back.\<close>

fun base_digits :: "nat \<Rightarrow> nat \<Rightarrow> nat \<Rightarrow> nat list" where
  "base_digits b 0 v = []"
| "base_digits b (Suc n) v = base_digits b n (v div b) @ [v mod b]"

definition base_value :: "nat \<Rightarrow> nat list \<Rightarrow> nat" where
  "base_value b ds = foldl (\<lambda>a d. a * b + d) 0 ds"

lemma base_value_digits: "v < b ^ n \<Longrightarrow> base_value b (base_digits b n v) = v"
proof (induction n arbitrary: v)
  case (Suc n)
  then have "v div b < b ^ n" by (simp add: less_mult_imp_div_less mult.commute)
  with Suc.IH show ?case by (simp add: base_value_def)
qed (simp add: base_value_def)

lemma length_base_digits [simp]: "length (base_digits b n v) = n"
  by (induction n arbitrary: v) auto

lemma base_digits_less: "0 < b \<Longrightarrow> d \<in> set (base_digits b n v) \<Longrightarrow> d < b"
  by (induction n arbitrary: v) auto

definition ipv4_octets :: "u32 \<Rightarrow> nat list" where
  "ipv4_octets ip = base_digits 256 4 (unat ip)"

definition ipv6_segments :: "128 word \<Rightarrow> nat list" where
  "ipv6_segments ip = base_digits 65536 8 (unat ip)"

section \<open>Printing\<close>

definition hex_group :: "nat \<Rightarrow> ustring" where
  "hex_group g = radix_text False 16 g"

definition more_groups :: "nat list \<Rightarrow> ustring" where
  "more_groups gs = concat (map (\<lambda>g. 58 # hex_group g) gs)"

fun fmt_subslice :: "nat list \<Rightarrow> ustring" where
  "fmt_subslice [] = []"
| "fmt_subslice (g # gs) = hex_group g @ more_groups gs"

definition display_ipv4 :: "u32 \<Rightarrow> ustring" where
  "display_ipv4 ip = (case map display_nat (ipv4_octets ip) of
       t # ts \<Rightarrow> t @ concat (map (Cons 46) ts) | [] \<Rightarrow> [])"

text \<open>The longest run of zero segments, the first of them when several have its length.\<close>

definition zero_span_step :: "nat \<times> (nat \<times> nat) \<times> (nat \<times> nat) \<Rightarrow> nat \<Rightarrow> nat \<times> (nat \<times> nat) \<times> (nat \<times> nat)" where
  "zero_span_step = (\<lambda>(i, (cs, cl), (ls, ll)) g.
     if g = 0 then
       (let cs' = (if cl = 0 then i else cs); cl' = cl + 1
        in (Suc i, (cs', cl'), if cl' > ll then (cs', cl') else (ls, ll)))
     else (Suc i, (0, 0), (ls, ll)))"

definition zero_span :: "nat list \<Rightarrow> nat \<times> nat" where
  "zero_span gs = snd (snd (foldl zero_span_step (0, (0, 0), (0, 0)) gs))"

definition display_ipv6 :: "128 word \<Rightarrow> ustring" where
  "display_ipv6 ip =
     (let gs = ipv6_segments ip; (start, len) = zero_span gs in
      if take 6 gs = [0, 0, 0, 0, 0, 0xFFFF] then ustr ''::ffff:'' @ display_ipv4 (of_nat (unat ip mod 2 ^ 32))
      else if len > 1 then fmt_subslice (take start gs) @ [58, 58] @ fmt_subslice (drop (start + len) gs)
      else fmt_subslice gs)"

fun display_socket_addr :: "SocketAddr \<Rightarrow> ustring" where
  "display_socket_addr (V4 ip port) = display_ipv4 ip @ [58] @ display_nat (unat port)"
| "display_socket_addr (V6 ip port flowinfo scope_id) =
     [91] @ display_ipv6 ip @ (if scope_id = 0 then [] else 37 # display_nat (unat scope_id)) @
     [93, 58] @ display_nat (unat port)"

section \<open>Parsing\<close>

text \<open>
  A parser of \<^verbatim>\<open>core::net::parser\<close>: the value read and the input left, or nothing, in which case the input is
  where it was (\<^verbatim>\<open>read_atomically\<close>).
\<close>

type_synonym 'a addr_parser = "ustring \<Rightarrow> ('a \<times> ustring) option"

definition read_given_char :: "nat \<Rightarrow> unit addr_parser" where
  "read_given_char c s = (case s of [] \<Rightarrow> None | x # xs \<Rightarrow> if x = c then Some ((), xs) else None)"

definition read_separator :: "nat \<Rightarrow> nat \<Rightarrow> 'a addr_parser \<Rightarrow> 'a addr_parser" where
  "read_separator sep index inner s =
     (if index > 0 then (case read_given_char sep s of None \<Rightarrow> None | Some (_, s') \<Rightarrow> inner s') else inner s)"

definition read_number :: "nat \<Rightarrow> nat option \<Rightarrow> bool \<Rightarrow> nat \<Rightarrow> nat addr_parser" where
  "read_number radix max_digits allow_zero_prefix limit s =
     (let ds = takeWhile (\<lambda>c. digit_value radix c \<noteq> None) s; rest = drop (length ds) s in
      if ds = [] then None
      else if (case max_digits of None \<Rightarrow> False | Some m \<Rightarrow> length ds > m) then None
      else if \<not> allow_zero_prefix \<and> hd ds = 48 \<and> length ds > 1 then None
      else (case parse_digits radix 0 ds of None \<Rightarrow> None
            | Some n \<Rightarrow> if n \<le> limit then Some (n, rest) else None))"

fun read_octets :: "nat \<Rightarrow> nat \<Rightarrow> nat list addr_parser" where
  "read_octets i 0 s = Some ([], s)"
| "read_octets i (Suc k) s =
     (case read_separator 46 i (read_number 10 (Some 3) False 255) s of None \<Rightarrow> None
      | Some (d, s') \<Rightarrow> map_option (\<lambda>(ds, s''). (d # ds, s'')) (read_octets (Suc i) k s'))"

definition read_ipv4_addr :: "u32 addr_parser" where
  "read_ipv4_addr s = map_option (\<lambda>(ds, s'). (of_nat (base_value 256 ds), s')) (read_octets 0 4 s)"

text \<open>\<^verbatim>\<open>read_groups\<close>: \<open>i\<close> groups have been read and at most \<open>k\<close> more fit.\<close>

fun read_groups :: "nat \<Rightarrow> nat \<Rightarrow> ustring \<Rightarrow> nat list \<times> bool \<times> ustring" where
  "read_groups i 0 s = ([], False, s)"
| "read_groups i (Suc k) s =
     (case (if k > 0 then read_separator 58 i read_ipv4_addr s else None) of
        Some (ip, s') \<Rightarrow> ([unat ip div 65536, unat ip mod 65536], True, s')
      | None \<Rightarrow>
          (case read_separator 58 i (read_number 16 (Some 4) True 65535) s of
             None \<Rightarrow> ([], False, s)
           | Some (g, s') \<Rightarrow> (case read_groups (Suc i) k s' of (gs, f, s'') \<Rightarrow> (g # gs, f, s''))))"

definition read_ipv6_addr :: "(128 word) addr_parser" where
  "read_ipv6_addr s =
     (case read_groups 0 8 s of (head, head_ipv4, s1) \<Rightarrow>
        if length head = 8 then Some (of_nat (base_value 65536 head), s1)
        else if head_ipv4 then None
        else (case read_given_char 58 s1 of None \<Rightarrow> None
          | Some (_, s2) \<Rightarrow> (case read_given_char 58 s2 of None \<Rightarrow> None
            | Some (_, s3) \<Rightarrow>
                (case read_groups 0 (8 - (length head + 1)) s3 of (tail, _, s4) \<Rightarrow>
                   Some (of_nat (base_value 65536
                     (head @ replicate (8 - length head - length tail) 0 @ tail)), s4)))))"

definition read_port :: "u16 addr_parser" where
  "read_port s = (case read_given_char 58 s of None \<Rightarrow> None
     | Some (_, s') \<Rightarrow> map_option (\<lambda>(n, s''). (of_nat n, s'')) (read_number 10 None True 65535 s'))"

definition read_scope_id :: "u32 addr_parser" where
  "read_scope_id s = (case read_given_char 37 s of None \<Rightarrow> None
     | Some (_, s') \<Rightarrow> map_option (\<lambda>(n, s''). (of_nat n, s'')) (read_number 10 None True (2 ^ 32 - 1) s'))"

definition read_socket_addr_v4 :: "SocketAddr addr_parser" where
  "read_socket_addr_v4 s = (case read_ipv4_addr s of None \<Rightarrow> None
     | Some (ip, s') \<Rightarrow> map_option (\<lambda>(port, s''). (V4 ip port, s'')) (read_port s'))"

definition read_socket_addr_v6 :: "SocketAddr addr_parser" where
  "read_socket_addr_v6 s = (case read_given_char 91 s of None \<Rightarrow> None
     | Some (_, s1) \<Rightarrow> (case read_ipv6_addr s1 of None \<Rightarrow> None
       | Some (ip, s2) \<Rightarrow>
           (let (scope, s3) = (case read_scope_id s2 of None \<Rightarrow> (0, s2) | Some r \<Rightarrow> r) in
            case read_given_char 93 s3 of None \<Rightarrow> None
            | Some (_, s4) \<Rightarrow> map_option (\<lambda>(port, s5). (V6 ip port 0 scope, s5)) (read_port s4))))"

text \<open>\<^verbatim>\<open>value.parse::<SocketAddr>()\<close>: the whole text must be read.\<close>

definition parse_socket_addr_text :: "ustring \<Rightarrow> SocketAddr option" where
  "parse_socket_addr_text s =
     (case (case read_socket_addr_v4 s of None \<Rightarrow> read_socket_addr_v6 s | Some r \<Rightarrow> Some r) of
        None \<Rightarrow> None | Some (a, rest) \<Rightarrow> if rest = [] then Some a else None)"

section \<open>Reading back what was printed\<close>

text \<open>\<open>stops r s\<close>: the input is at its end or at a character that is no digit of radix \<open>r\<close>.\<close>

definition stops :: "nat \<Rightarrow> ustring \<Rightarrow> bool" where
  "stops radix s \<longleftrightarrow> (case s of [] \<Rightarrow> True | c # _ \<Rightarrow> digit_value radix c = None)"

lemma digit_of_radix_text:
  assumes "2 \<le> radix" "radix \<le> 36"
  shows "c \<in> set (radix_text up radix n) \<Longrightarrow> digit_value radix c \<noteq> None"
proof (induction n rule: less_induct)
  case (less n)
  show ?case
  proof (cases "n < radix")
    case True
    then show ?thesis using less.prems assms by (auto simp: radix_text.simps [of _ _ n] digit_value_char)
  next
    case False
    then have "n div radix < n" using assms by (intro div_less_dividend) auto
    then have IH: "c \<in> set (radix_text up radix (n div radix)) \<Longrightarrow> digit_value radix c \<noteq> None"
      using less.IH by blast
    have "n mod radix < radix" using assms by simp
    then show ?thesis using less.prems IH False assms
      by (auto simp: radix_text.simps [of _ _ n] digit_value_char)
  qed
qed

lemma takeWhile_radix_text:
  assumes "2 \<le> radix" "radix \<le> 36" "stops radix rest"
  shows "takeWhile (\<lambda>c. digit_value radix c \<noteq> None) (radix_text up radix n @ rest) = radix_text up radix n"
proof -
  have "takeWhile (\<lambda>c. digit_value radix c \<noteq> None) rest = []"
    using assms(3) by (cases rest) (auto simp: stops_def)
  then show ?thesis using digit_of_radix_text [OF assms(1,2)] by (subst takeWhile_append2) auto
qed

lemma length_radix_text: "2 \<le> radix \<Longrightarrow> n < radix ^ Suc k \<Longrightarrow> length (radix_text up radix n) \<le> Suc k"
proof (induction k arbitrary: n)
  case 0
  then show ?case by (simp add: radix_text.simps [of _ _ n])
next
  case (Suc k)
  have "n div radix < radix ^ Suc k" using Suc.prems by (intro less_mult_imp_div_less) (simp add: mult.commute)
  with Suc.IH [of "n div radix"] Suc.prems(1) show ?case
    by (subst radix_text.simps) auto
qed

lemma hd_radix_text:
  "2 \<le> radix \<Longrightarrow> radix \<le> 36 \<Longrightarrow> n \<noteq> 0 \<Longrightarrow> hd (radix_text up radix n) \<noteq> 48"
proof (induction n rule: less_induct)
  case (less n)
  show ?case
  proof (cases "n < radix")
    case True
    then show ?thesis using less.prems by (auto simp: radix_text.simps [of _ _ n] digit_char_def)
  next
    case False
    then have "n div radix < n" "n div radix \<noteq> 0" using less.prems by (auto intro!: div_less_dividend simp: div_eq_0_iff)
    then have "hd (radix_text up radix (n div radix)) \<noteq> 48" using less.IH less.prems(1,2) by blast
    then show ?thesis using False less.prems by (subst radix_text.simps) simp
  qed
qed

lemma read_number_text:
  assumes "2 \<le> radix" "radix \<le> 36" "stops radix rest" "n \<le> limit"
    and "\<And>m. max_digits = Some m \<Longrightarrow> length (radix_text up radix n) \<le> m"
  shows "read_number radix max_digits z limit (radix_text up radix n @ rest) = Some (n, rest)"
proof -
  have "length (radix_text up radix n) = 1 \<or> n \<noteq> 0" using assms(1) by (cases "n = 0") (auto simp: radix_text.simps)
  then have "\<not> (hd (radix_text up radix n) = 48 \<and> length (radix_text up radix n) > 1)"
    using hd_radix_text [OF assms(1,2)] by fastforce
  then show ?thesis
    unfolding read_number_def Let_def takeWhile_radix_text [OF assms(1-3)] parse_digits_radix_text [OF assms(1,2)]
    using assms(4,5) by (auto simp: not_less split: option.split)
qed

lemma read_decimal_text:
  "stops 10 rest \<Longrightarrow> n \<le> limit \<Longrightarrow> read_number 10 None z limit (display_nat n @ rest) = Some (n, rest)"
  unfolding display_nat_def by (rule read_number_text) auto

lemma read_octet_text:
  "stops 10 rest \<Longrightarrow> n < 256 \<Longrightarrow> read_number 10 (Some 3) z 255 (display_nat n @ rest) = Some (n, rest)"
  using length_radix_text [of 10 n 2] unfolding display_nat_def by (intro read_number_text) auto

lemma read_group_text:
  "stops 16 rest \<Longrightarrow> g < 65536 \<Longrightarrow> read_number 16 (Some 4) True 65535 (hex_group g @ rest) = Some (g, rest)"
  using length_radix_text [of 16 g 3] unfolding hex_group_def by (intro read_number_text) auto

subsection \<open>IPv4\<close>

lemma stops_Cons [simp]: "stops radix (c # s) \<longleftrightarrow> digit_value radix c = None"
  by (simp add: stops_def)

lemma stops_Nil [simp]: "stops radix []"
  by (simp add: stops_def)

lemma digit_value_other [simp]:
  "digit_value radix 46 = None" "digit_value radix 58 = None" "digit_value radix 93 = None" "digit_value radix 37 = None"
  "digit_value radix 91 = None"
  by (simp_all add: digit_value_def)

lemma read_octets_text:
  assumes "\<forall>d \<in> set ds. d < 256" "stops 10 rest"
  shows "0 < i \<Longrightarrow> read_octets i (length ds) (concat (map (\<lambda>d. 46 # display_nat d) ds) @ rest) = Some (ds, rest)"
  using assms(1)
proof (induction ds arbitrary: i)
  case (Cons d ds)
  have "stops 10 (concat (map (\<lambda>d. 46 # display_nat d) ds) @ rest)" using assms(2) by (cases ds) auto
  then show ?case using Cons by (simp add: read_separator_def read_given_char_def read_octet_text)
qed simp

lemma read_ipv4_text:
  assumes "stops 10 rest"
  shows "read_ipv4_addr (display_ipv4 ip @ rest) = Some (ip, rest)"
proof -
  define ds where "ds = ipv4_octets ip"
  have "length ds = 4" by (simp add: ds_def ipv4_octets_def)
  then obtain d ds' where ds: "ds = d # ds'" "length ds' = 3" by (cases ds) auto
  have less: "\<forall>x \<in> set ds. x < 256" using base_digits_less by (auto simp: ds_def ipv4_octets_def)
  have "stops 10 (concat (map (\<lambda>d. 46 # display_nat d) ds') @ rest)" using assms by (cases ds') auto
  then have "read_octets 0 (Suc (length ds')) (display_nat d @ concat (map (\<lambda>d. 46 # display_nat d) ds') @ rest) = Some (ds, rest)"
    using less read_octets_text [of ds' rest 1] assms by (simp add: ds(1) read_separator_def read_octet_text)
  moreover have "display_ipv4 ip = display_nat d @ concat (map (\<lambda>d. 46 # display_nat d) ds')"
    unfolding display_ipv4_def ds_def [symmetric] ds(1) by (simp add: comp_def)
  moreover have "base_value 256 ds = unat ip"
    using unat_less_2p [of ip] by (simp add: ds_def ipv4_octets_def base_value_digits)
  ultimately show ?thesis using ds(2) by (simp add: read_ipv4_addr_def numeral_eq_Suc)
qed

text \<open>A hexadecimal group followed by something else than a dot is no IPv4 address.\<close>

lemma read_ipv4_refuses:
  assumes "\<And>x. dropWhile (\<lambda>c. digit_value 10 c \<noteq> None) s \<noteq> 46 # x"
  shows "read_ipv4_addr s = None"
proof -
  have *: "n \<noteq> 46 # x"
    if "read_separator 46 0 (read_number 10 (Some 3) False 255) s = Some (d, n)" for d n x
    using that assms [of x] by (auto simp: read_separator_def read_number_def Let_def dropWhile_eq_drop
        split: if_splits option.splits)
  have "read_octets 0 4 s = None"
  proof (cases "read_separator 46 0 (read_number 10 (Some 3) False 255) s")
    case (Some r)
    obtain d n where r: "r = (d, n)" by (cases r)
    have "read_given_char 46 n = None" using * [of d n] Some r by (auto simp: read_given_char_def split: list.splits)
    then show ?thesis using Some r by (simp add: numeral_eq_Suc read_separator_def)
  qed (simp add: numeral_eq_Suc)
  then show ?thesis by (simp add: read_ipv4_addr_def)
qed

lemma dropWhile_hex_group:
  assumes "stops 16 rest" "\<And>x. rest \<noteq> 46 # x"
  shows "dropWhile (\<lambda>c. digit_value 10 c \<noteq> None) (hex_group g @ rest) \<noteq> 46 # x"
proof
  assume *: "dropWhile (\<lambda>c. digit_value 10 c \<noteq> None) (hex_group g @ rest) = 46 # x"
  have dot: "c \<in> set (hex_group g) \<Longrightarrow> c \<noteq> 46" for c
    using alnum_radix_text [of 16 c False g] by (auto simp: hex_group_def alnum_def)
  have "digit_value 16 c = None \<Longrightarrow> digit_value 10 c = None" for c
    by (auto simp: digit_value_def Let_def split: if_splits)
  then have rest: "dropWhile (\<lambda>c. digit_value 10 c \<noteq> None) rest = rest"
    using assms(1) by (cases rest) (auto simp: stops_def)
  show False
  proof (cases "\<forall>c \<in> set (hex_group g). digit_value 10 c \<noteq> None")
    case True
    then have "rest = 46 # x" using * rest by (simp add: dropWhile_append2)
    then show False using assms(2) by blast
  next
    case False
    then obtain c where c: "c \<in> set (hex_group g)" "\<not> digit_value 10 c \<noteq> None" by blast
    define h where "h = dropWhile (\<lambda>c. digit_value 10 c \<noteq> None) (hex_group g)"
    have "h \<noteq> []" using c by (auto simp: h_def dropWhile_eq_Nil_conv)
    moreover have "h @ rest = 46 # x" using * c dropWhile_append1 [of c "hex_group g" "\<lambda>c. digit_value 10 c \<noteq> None" rest]
      by (simp add: h_def)
    ultimately have "46 \<in> set h" by (cases h) auto
    then show False using dot set_dropWhileD unfolding h_def by metis
  qed
qed

subsection \<open>IPv6\<close>

text \<open>What may follow the groups of an address: no digit, no dot, and no colon that begins another group.\<close>

definition group_end :: "ustring \<Rightarrow> bool" where
  "group_end s \<longleftrightarrow> stops 16 s \<and> (\<forall>x. s \<noteq> 46 # x) \<and> (\<forall>x. s = 58 # x \<longrightarrow> stops 16 x \<and> (\<forall>y. x \<noteq> 46 # y))"

lemma read_number_refuses: "stops radix s \<Longrightarrow> read_number radix m z limit s = None"
  by (cases s) (auto simp: read_number_def stops_def)

lemma stops_10: "stops 16 s \<Longrightarrow> stops 10 s"
  by (cases s) (auto simp: digit_value_def Let_def split: if_splits)

lemma read_ipv4_stops: "stops 16 s \<Longrightarrow> read_ipv4_addr s = None"
  using read_number_refuses [OF stops_10]
  by (simp add: read_ipv4_addr_def numeral_eq_Suc read_separator_def)

lemma read_groups_end:
  assumes "group_end s"
  shows "read_groups i k s = ([], False, s)"
proof (cases k)
  case (Suc m)
  have none: "read_separator 58 i p s = None"
    if "\<And>s. stops 16 s \<Longrightarrow> p s = None" for p :: "'a addr_parser"
    using assms that by (auto simp: read_separator_def read_given_char_def group_end_def split: list.splits)
  show ?thesis using Suc none [OF read_ipv4_stops] none [OF read_number_refuses] by simp
qed simp

lemma more_groups_Nil [simp]: "more_groups [] = []"
  by (simp add: more_groups_def)

lemma group_end_more: "group_end rest \<Longrightarrow> stops 16 (more_groups gs @ rest) \<and> more_groups gs @ rest \<noteq> 46 # x"
  by (cases gs) (auto simp: more_groups_def group_end_def)

lemma read_ipv4_group:
  "group_end rest \<Longrightarrow> read_ipv4_addr (hex_group g @ more_groups gs @ rest) = None"
  using group_end_more by (intro read_ipv4_refuses dropWhile_hex_group) blast+

lemma read_groups_more:
  assumes "group_end rest"
  shows "0 < i \<Longrightarrow> length gs \<le> k \<Longrightarrow> \<forall>g \<in> set gs. g < 65536 \<Longrightarrow>
    read_groups i k (more_groups gs @ rest) = (gs, False, rest)"
proof (induction gs arbitrary: i k)
  case Nil
  then show ?case using assms by (simp add: more_groups_def read_groups_end)
next
  case (Cons g gs)
  then obtain m where k: "k = Suc m" by (cases k) auto
  have eq: "more_groups (g # gs) @ rest = 58 # hex_group g @ more_groups gs @ rest" by (simp add: more_groups_def)
  have "read_number 16 (Some 4) True 65535 (hex_group g @ more_groups gs @ rest) = Some (g, more_groups gs @ rest)"
    using Cons.prems group_end_more [OF assms] by (intro read_group_text) auto
  moreover have "m = 0 \<Longrightarrow> gs = []" using Cons.prems(2) k by simp
  ultimately show ?case using Cons k unfolding eq
    by (auto simp add: read_separator_def read_given_char_def read_ipv4_group [OF assms])
qed

lemma read_groups_text:
  assumes "group_end rest" "length gs \<le> k" "\<forall>g \<in> set gs. g < 65536"
  shows "read_groups 0 k (fmt_subslice gs @ rest) = (gs, False, rest)"
proof (cases gs)
  case Nil
  then show ?thesis using assms by (simp add: read_groups_end)
next
  case (Cons g gs')
  then obtain m where k: "k = Suc m" using assms(2) by (cases k) auto
  have "read_number 16 (Some 4) True 65535 (hex_group g @ more_groups gs' @ rest) = Some (g, more_groups gs' @ rest)"
    using Cons assms group_end_more [OF assms(1)] by (intro read_group_text) auto
  moreover have "m = 0 \<Longrightarrow> gs' = []" using Cons assms(2) k by simp
  ultimately show ?thesis using Cons k assms
    by (auto simp add: read_separator_def read_ipv4_group read_groups_more)
qed

text \<open>The run of zeros found is one, and lies within the address.\<close>

definition span_ok :: "nat list \<Rightarrow> nat \<Rightarrow> nat \<times> nat \<Rightarrow> bool" where
  "span_ok gs i = (\<lambda>(start, len). start + len \<le> i \<and> (\<forall>j. start \<le> j \<and> j < start + len \<longrightarrow> gs ! j = 0))"

lemma zero_span_fold:
  "i \<le> length gs \<Longrightarrow> (case foldl zero_span_step (0, (0, 0), (0, 0)) (take i gs) of
     (n, (cs, cl), l) \<Rightarrow> n = i \<and> (cl = 0 \<or> cs + cl = i) \<and> span_ok gs i (cs, cl) \<and> span_ok gs i l)"
proof (induction i)
  case (Suc i)
  have take: "take (Suc i) gs = take i gs @ [gs ! i]" using Suc.prems by (simp add: take_Suc_conv_app_nth)
  obtain n cs cl l where st: "foldl zero_span_step (0, (0, 0), (0, 0)) (take i gs) = (n, (cs, cl), l)"
    by (metis surj_pair)
  from Suc st have inv: "n = i" "cl = 0 \<or> cs + cl = i" "span_ok gs i (cs, cl)" "span_ok gs i l" by simp_all
  obtain ls ll where l: "l = (ls, ll)" by (cases l)
  show ?case
  proof (cases "gs ! i = 0")
    case True
    have "span_ok gs (Suc i) (if cl = 0 then i else cs, cl + 1)" "span_ok gs (Suc i) l"
      using inv True by (auto simp: span_ok_def less_Suc_eq)
    then show ?thesis using inv True unfolding take foldl_append st l
      by (auto simp: zero_span_step_def Let_def)
  next
    case False
    then show ?thesis using inv unfolding take foldl_append st l
      by (auto simp: zero_span_step_def span_ok_def)
  qed
qed (simp add: span_ok_def)

lemma zero_span_ok: "span_ok gs (length gs) (zero_span gs)"
  using zero_span_fold [of "length gs" gs] by (auto simp: zero_span_def split: prod.splits)

lemma zeros_replaced:
  assumes "span_ok gs (length gs) (start, len)"
  shows "take start gs @ replicate len 0 @ drop (start + len) gs = gs"
proof (rule nth_equalityI)
  fix j assume "j < length (take start gs @ replicate len 0 @ drop (start + len) gs)"
  with assms show "(take start gs @ replicate len 0 @ drop (start + len) gs) ! j = gs ! j"
    by (auto simp: span_ok_def nth_append min_def)
qed (use assms in \<open>auto simp: span_ok_def\<close>)

lemma read_ipv6_compressed:
  assumes "group_end rest" "length head + length tail < 8" "\<forall>g \<in> set head \<union> set tail. g < 65536"
  shows "read_ipv6_addr (fmt_subslice head @ [58, 58] @ fmt_subslice tail @ rest) =
    Some (of_nat (base_value 65536 (head @ replicate (8 - length head - length tail) 0 @ tail)), rest)"
proof -
  have "group_end ([58, 58] @ s)" for s by (simp add: group_end_def)
  then have head: "read_groups 0 8 (fmt_subslice head @ [58, 58] @ fmt_subslice tail @ rest) =
    (head, False, [58, 58] @ fmt_subslice tail @ rest)"
    using assms by (intro read_groups_text) auto
  have tail: "read_groups 0 (8 - (length head + 1)) (fmt_subslice tail @ rest) = (tail, False, rest)"
    using assms by (intro read_groups_text) auto
  show ?thesis using assms(2) unfolding read_ipv6_addr_def head prod.case
    by (simp add: read_given_char_def tail [simplified])
qed

lemma ipv6_segments_props:
  "length (ipv6_segments ip) = 8" "\<forall>g \<in> set (ipv6_segments ip). g < 65536"
  "of_nat (base_value 65536 (ipv6_segments ip)) = ip"
proof -
  have "unat ip < 65536 ^ 8" using unat_less_2p [of ip] by simp
  then show "of_nat (base_value 65536 (ipv6_segments ip)) = ip"
    by (simp add: ipv6_segments_def base_value_digits)
qed (auto simp: ipv6_segments_def base_digits_less simp del: base_digits.simps)

lemma mapped_value:
  assumes "take 6 (ipv6_segments ip) = [0, 0, 0, 0, 0, 0xFFFF]"
  defines "w \<equiv> of_nat (unat ip mod 2 ^ 32) :: u32"
  shows "[0, 0, 0, 0, 0, 0xFFFF, unat w div 65536, unat w mod 65536] = ipv6_segments ip"
proof -
  have w: "unat w = unat ip mod 2 ^ 32" unfolding w_def by (rule unat_of_nat_small) simp
  have "unat ip mod 2 ^ 32 div 65536 = unat ip div 65536 mod 65536"
    using mod_mult2_eq [of "unat ip" 65536 65536] by simp
  moreover have "unat ip mod 2 ^ 32 mod 65536 = unat ip mod 65536"
    by (simp add: mod_mod_cancel)
  moreover have "ipv6_segments ip = take 6 (ipv6_segments ip) @ [unat ip div 65536 mod 65536, unat ip mod 65536]"
  proof -
    have "(8::nat) = Suc (Suc 6)" by simp
    then have "ipv6_segments ip = base_digits 65536 6 (unat ip div 65536 div 65536) @ [unat ip div 65536 mod 65536, unat ip mod 65536]"
      unfolding ipv6_segments_def by (simp only: base_digits.simps append_assoc append.simps)
    then show ?thesis by simp
  qed
  ultimately show ?thesis using assms(1) w by simp
qed

lemma read_mapped_tail:
  assumes "stops 10 rest"
  shows "read_groups 0 7 (ustr ''ffff:'' @ display_ipv4 w @ rest) = ([0xFFFF, unat w div 65536, unat w mod 65536], True, rest)"
proof -
  have hex: "ustr ''ffff'' = hex_group 0xFFFF" by (simp add: hex_group_def radix_text.simps digit_char_def)
  have "read_ipv4_addr (hex_group 0xFFFF @ 58 # s) = None" for s
    by (intro read_ipv4_refuses dropWhile_hex_group) simp_all
  moreover have "read_number 16 (Some 4) True 65535 (hex_group 0xFFFF @ 58 # s) = Some (0xFFFF, 58 # s)" for s
    by (intro read_group_text) simp_all
  ultimately have "read_groups 0 (Suc (Suc k)) (hex_group 0xFFFF @ 58 # display_ipv4 w @ rest) =
      ([0xFFFF, unat w div 65536, unat w mod 65536], True, rest)" if "0 < k" for k
    using read_ipv4_text [OF assms, of w] that by (simp add: read_separator_def read_given_char_def)
  from this [of 5] have "read_groups 0 7 (hex_group 0xFFFF @ 58 # display_ipv4 w @ rest) =
      ([0xFFFF, unat w div 65536, unat w mod 65536], True, rest)" by simp
  moreover have "hex_group 0xFFFF @ 58 # s = ustr ''ffff:'' @ s" for s unfolding hex [symmetric] by simp
  ultimately show ?thesis by metis
qed

lemma read_ipv6_text:
  assumes "group_end rest" "stops 10 rest"
  shows "read_ipv6_addr (display_ipv6 ip @ rest) = Some (ip, rest)"
proof -
  define gs where "gs = ipv6_segments ip"
  note props = ipv6_segments_props [of ip, folded gs_def]
  obtain start len where span: "zero_span gs = (start, len)" by (cases "zero_span gs")
  have ok: "span_ok gs 8 (start, len)" using zero_span_ok [of gs] props(1) span by simp
  consider "take 6 gs = [0, 0, 0, 0, 0, 0xFFFF]"
    | "take 6 gs \<noteq> [0, 0, 0, 0, 0, 0xFFFF]" "len > 1" | "take 6 gs \<noteq> [0, 0, 0, 0, 0, 0xFFFF]" "\<not> len > 1" by blast
  then show ?thesis
  proof cases
    case 1
    have five: "replicate 5 (0::nat) = [0, 0, 0, 0, 0]" by (simp add: numeral_eq_Suc)
    define w :: u32 where "w = of_nat (unat ip mod 2 ^ 32)"
    have "group_end (58 # 58 # s)" for s by (simp add: group_end_def)
    then have head: "read_groups 0 8 (58 # 58 # s) = ([], False, 58 # 58 # s)" for s by (rule read_groups_end)
    have "gs = [0, 0, 0, 0, 0, 0xFFFF, unat w div 65536, unat w mod 65536]"
      using mapped_value [of ip] 1 by (simp add: gs_def w_def)
    then have eq: "replicate 5 0 @ [0xFFFF, unat w div 65536, unat w mod 65536] = gs"
      by (simp add: five)
    have shown: "display_ipv6 ip @ rest = 58 # 58 # (ustr ''ffff:'' @ display_ipv4 w @ rest)"
      using 1 by (simp add: display_ipv6_def gs_def [symmetric] span w_def)
    show ?thesis unfolding shown read_ipv6_addr_def head prod.case
      using read_mapped_tail [OF assms(2), of w] eq props(3) by (simp add: read_given_char_def)
  next
    case 2
    have "start + len \<le> 8" using ok by (simp add: span_ok_def)
    then have "length (take start gs) + length (drop (start + len) gs) < 8"
      and "8 - length (take start gs) - length (drop (start + len) gs) = len" using 2 props(1) by auto
    moreover have "\<forall>g \<in> set (take start gs) \<union> set (drop (start + len) gs). g < 65536"
      using props(2) by (auto dest: in_set_takeD in_set_dropD)
    ultimately have "read_ipv6_addr (fmt_subslice (take start gs) @ [58, 58] @ fmt_subslice (drop (start + len) gs) @ rest) =
        Some (of_nat (base_value 65536 gs), rest)"
      using read_ipv6_compressed [OF assms(1), of "take start gs" "drop (start + len) gs"] zeros_replaced [of gs start len] ok props(1)
      by simp
    then show ?thesis using 2 props(3) by (simp add: display_ipv6_def gs_def [symmetric] span)
  next
    case 3
    have "read_groups 0 8 (fmt_subslice gs @ rest) = (gs, False, rest)"
      using props assms(1) by (intro read_groups_text) simp_all
    then show ?thesis using 3 props by (simp add: read_ipv6_addr_def display_ipv6_def gs_def [symmetric] span)
  qed
qed

text \<open>
  An address is read back from its text but for the flow information of an IPv6 address, which the text
  does not carry.
\<close>

fun without_flowinfo :: "SocketAddr \<Rightarrow> SocketAddr" where
  "without_flowinfo (V4 ip port) = V4 ip port"
| "without_flowinfo (V6 ip port flowinfo scope) = V6 ip port 0 scope"

lemma read_port_text: "read_port (58 # display_nat (unat port)) = Some (port, [])"
proof -
  have "unat port \<le> 65535" using unat_less_2p [of port] by simp
  then show ?thesis using read_decimal_text [of "[]" "unat port" 65535 True]
    by (simp add: read_port_def read_given_char_def)
qed

lemma parse_display_socket_addr: "parse_socket_addr_text (display_socket_addr a) = Some (without_flowinfo a)"
proof (cases a)
  case (V4 ip port)
  then show ?thesis using read_ipv4_text [of "58 # display_nat (unat port)" ip]
    by (simp add: parse_socket_addr_text_def read_socket_addr_v4_def read_port_text)
next
  case (V6 ip port flowinfo scope)
  define rest where "rest = 93 # 58 # display_nat (unat port)"
  define mid where "mid = (if scope = 0 then [] else 37 # display_nat (unat scope)) @ rest"
  have "read_socket_addr_v4 (91 # s) = None" for s
    using read_ipv4_stops [of "91 # s"] by (simp add: read_socket_addr_v4_def)
  moreover have "read_ipv6_addr (display_ipv6 ip @ mid) = Some (ip, mid)"
    by (intro read_ipv6_text) (simp_all add: mid_def rest_def group_end_def)
  moreover have "(case read_scope_id mid of None \<Rightarrow> (0, mid) | Some r \<Rightarrow> r) = (scope, rest)"
  proof (cases "scope = 0")
    case False
    have "unat scope \<le> 4294967295" using unat_less_2p [of scope] by simp
    with False show ?thesis using read_decimal_text [of rest "unat scope" 4294967295 True]
      by (simp add: mid_def rest_def read_scope_id_def read_given_char_def)
  qed (simp add: mid_def rest_def read_scope_id_def read_given_char_def)
  ultimately show ?thesis
    by (simp add: V6 parse_socket_addr_text_def read_socket_addr_v6_def read_given_char_def rest_def [symmetric]
        mid_def [symmetric]) (simp add: rest_def read_port_text read_given_char_def)
qed

subsection \<open>Size and characters of an address\<close>

lemma ascii_radix_text: "2 \<le> radix \<Longrightarrow> radix \<le> 36 \<Longrightarrow> ascii_text (radix_text up radix n)"
  using alnum_radix_text by (blast intro: ascii_alnum)

lemma ascii_more_groups: "ascii_text (more_groups gs)"
  by (induction gs) (simp_all add: more_groups_def hex_group_def ascii_radix_text)

lemma ascii_fmt_subslice: "ascii_text (fmt_subslice gs)"
  by (cases gs) (simp_all add: hex_group_def ascii_radix_text ascii_more_groups)

lemma ascii_ipv4: "ascii_text (display_ipv4 ip)"
proof -
  have "ascii_text (concat (map (Cons 46) (map display_nat ds)))" for ds by (induction ds) simp_all
  then show ?thesis by (auto simp: display_ipv4_def split: list.splits)
qed

lemma ascii_socket_addr: "ascii_text (display_socket_addr a)"
  by (cases a) (simp_all add: ascii_ipv4 display_ipv6_def Let_def ascii_fmt_subslice split: prod.splits)

lemma length_more_groups: "\<forall>g \<in> set gs. g < 65536 \<Longrightarrow> length (more_groups gs) \<le> 5 * length gs"
proof (induction gs)
  case (Cons g gs)
  then show ?case using length_radix_text [of 16 g 3 False] by (simp add: more_groups_def hex_group_def)
qed simp

lemma length_fmt_subslice: "\<forall>g \<in> set gs. g < 65536 \<Longrightarrow> length (fmt_subslice gs) \<le> 5 * length gs"
proof (cases gs)
  case (Cons g gs')
  moreover assume "\<forall>g \<in> set gs. g < 65536"
  ultimately show ?thesis using length_more_groups [of gs'] length_radix_text [of 16 g 3 False]
    by (simp add: hex_group_def)
qed simp

lemma length_ipv4: "length (display_ipv4 ip) \<le> 16"
proof -
  have three: "length (display_nat d) \<le> 3" if "d < 256" for d
    using length_radix_text [of 10 d 2 False] that by (simp add: display_nat_def)
  have "length (concat (map (Cons 46) (map display_nat ds))) \<le> 4 * length ds" if "\<forall>d \<in> set ds. d < 256" for ds
    using that by (induction ds) (auto dest!: three)
  then have "length (display_ipv4 ip) \<le> 4 * length (ipv4_octets ip)" if "\<forall>d \<in> set (ipv4_octets ip). d < 256"
    using that three by (cases "ipv4_octets ip") (force simp: display_ipv4_def)+
  moreover have "\<forall>d \<in> set (ipv4_octets ip). d < 256" "length (ipv4_octets ip) = 4"
    using base_digits_less by (auto simp: ipv4_octets_def)
  ultimately show ?thesis by simp
qed

lemma length_ipv6: "length (display_ipv6 ip) \<le> 42"
proof -
  define gs where "gs = ipv6_segments ip"
  note props = ipv6_segments_props(1,2) [of ip, folded gs_def]
  obtain start len where span: "zero_span gs = (start, len)" by (cases "zero_span gs")
  have "length (fmt_subslice (take start gs)) \<le> 5 * length (take start gs)"
    "length (fmt_subslice (drop (start + len) gs)) \<le> 5 * length (drop (start + len) gs)"
    "length (fmt_subslice gs) \<le> 5 * length gs"
    using props(2) by (intro length_fmt_subslice; auto dest: in_set_takeD in_set_dropD)+
  then show ?thesis using props(1) length_ipv4 [of "of_nat (unat ip mod 2 ^ 32)"]
    by (auto simp: display_ipv6_def gs_def [symmetric] span min_def intro: order.trans split: if_splits)
qed

lemma length_socket_addr: "length (display_socket_addr a) \<le> 128"
proof (cases a)
  case (V4 ip port)
  then show ?thesis using length_ipv4 [of ip] length_radix_text [of 10 "unat port" 9 False] unat_less_2p [of port]
    by (simp add: display_nat_def)
next
  case (V6 ip port flowinfo scope)
  have "length (display_nat (unat port)) \<le> 10" "length (display_nat (unat scope)) \<le> 10"
    using length_radix_text [of 10 "unat port" 9 False] unat_less_2p [of port]
      length_radix_text [of 10 "unat scope" 9 False] unat_less_2p [of scope] by (simp_all add: display_nat_def)
  with V6 length_ipv6 [of ip] show ?thesis by simp
qed

end
