(* ===== verification/Management_Snapshot.thy ===== *)
theory Management_Snapshot
  imports Management_Protocol Address_Text Transfer_Queue
begin

text \<open>
  The state an agent reports to the manager (\<^verbatim>\<open>src/management_snapshot.rs\<close>): its process identity, its active
  job and its latest result, with the binary codec of the snapshot frame; the reconnection of a restarted
  manager to a running transfer (\<^verbatim>\<open>src/management_reconnect.rs\<close>) and the check of a queue binding
  against two snapshots (\<^verbatim>\<open>src/management_active_binding.rs\<close>).
\<close>

unbundle bit_operations_syntax

section \<open>Snapshots\<close>

datatype ManagementJobRole = JobSender | JobReceiver

datatype ManagementJobOutcome = JobCompleted | JobCancelled | JobFailed

fun role_code :: "ManagementJobRole \<Rightarrow> u8" where
  "role_code JobSender = 1"
| "role_code JobReceiver = 2"

fun outcome_code :: "ManagementJobOutcome \<Rightarrow> u8" where
  "outcome_code JobCompleted = 1"
| "outcome_code JobCancelled = 2"
| "outcome_code JobFailed = 3"

definition role_try_from :: "u8 \<Rightarrow> ManagementJobRole io_result" where
  "role_try_from v = (if v = 1 then Inr JobSender else if v = 2 then Inr JobReceiver else Inl InvalidData)"

definition outcome_try_from :: "u8 \<Rightarrow> ManagementJobOutcome io_result" where
  "outcome_try_from v =
     (if v = 1 then Inr JobCompleted else if v = 2 then Inr JobCancelled else if v = 3 then Inr JobFailed
      else Inl InvalidData)"

datatype ManagementActiveJobDetails =
    SenderDetails SocketAddr ustring usize u64
  | ReceiverDetails u16 ustring bool

record ManagementActiveJobSnapshot =
  active_role :: ManagementJobRole
  active_job_id :: u64
  active_phase :: ustring
  active_completed :: u64
  active_total :: u64
  cancel_requested :: bool
  active_details :: ManagementActiveJobDetails

record ManagementJobResult =
  result_role :: ManagementJobRole
  result_outcome :: ManagementJobOutcome
  result_job_id :: u64
  result_files :: u64
  result_logical_bytes :: u64
  result_wire_bytes :: u64
  result_stream_count :: u32
  result_message :: ustring

record ManagementAgentSnapshot =
  agent_instance_id :: AgentInstanceId
  snapshot_active :: "ManagementActiveJobSnapshot option"
  latest_result :: "ManagementJobResult option"

definition SNAPSHOT_VERSION :: u16 where "SNAPSHOT_VERSION = 3"
definition SNAPSHOT_HEADER_BYTES :: usize where "SNAPSHOT_HEADER_BYTES = 20"
definition ACTIVE_HEADER_BYTES :: usize where "ACTIVE_HEADER_BYTES = 32"
definition SENDER_DETAIL_HEADER_BYTES :: usize where "SENDER_DETAIL_HEADER_BYTES = 20"
definition RECEIVER_DETAIL_HEADER_BYTES :: usize where "RECEIVER_DETAIL_HEADER_BYTES = 8"
definition RESULT_HEADER_BYTES :: usize where "RESULT_HEADER_BYTES = 40"
definition ACTIVE_PRESENT_FLAG :: u8 where "ACTIVE_PRESENT_FLAG = 1"
definition RESULT_PRESENT_FLAG :: u8 where "RESULT_PRESENT_FLAG = 2"
definition KNOWN_FLAGS :: u8 where "KNOWN_FLAGS = 3"
definition UPDATE_EXISTING_FLAG :: u8 where "UPDATE_EXISTING_FLAG = 1"
definition MAX_PHASE_BYTES :: usize where "MAX_PHASE_BYTES = 1024"
definition MAX_MESSAGE_BYTES :: usize where "MAX_MESSAGE_BYTES = 4096"
definition MAX_ACTIVE_PATH_BYTES :: usize where "MAX_ACTIVE_PATH_BYTES = 32 * 1024"
definition MAX_RECEIVER_ENDPOINT_BYTES :: usize where "MAX_RECEIVER_ENDPOINT_BYTES = 128"

lemmas snapshot_constants = SNAPSHOT_VERSION_def SNAPSHOT_HEADER_BYTES_def ACTIVE_HEADER_BYTES_def
  SENDER_DETAIL_HEADER_BYTES_def RECEIVER_DETAIL_HEADER_BYTES_def RESULT_HEADER_BYTES_def
  ACTIVE_PRESENT_FLAG_def RESULT_PRESENT_FLAG_def KNOWN_FLAGS_def UPDATE_EXISTING_FLAG_def
  MAX_PHASE_BYTES_def MAX_MESSAGE_BYTES_def MAX_ACTIVE_PATH_BYTES_def MAX_RECEIVER_ENDPOINT_BYTES_def

section \<open>Checks\<close>

definition validate_text :: "ustring \<Rightarrow> usize \<Rightarrow> bool \<Rightarrow> unit io_result" where
  "validate_text value maximum_bytes allow_empty =
     (if \<not> allow_empty \<and> value = [] then Inl InvalidInput
      else if str_len value > maximum_bytes then Inl InvalidInput
      else Inr ())"

definition invalid_data :: "'a io_result \<Rightarrow> 'a io_result" where
  "invalid_data r = map_err (\<lambda>_. InvalidData) r"

definition decode_text :: "byte list \<Rightarrow> usize \<Rightarrow> bool \<Rightarrow> ustring io_result" where
  "decode_text bytes maximum_bytes allow_empty =
     ebind (ok_or InvalidData (from_utf8 bytes)) (\<lambda>value.
     ebind (invalid_data (validate_text value maximum_bytes allow_empty)) (\<lambda>_. Inr value))"

fun addr_port :: "SocketAddr \<Rightarrow> u16" where
  "addr_port (V4 _ p) = p"
| "addr_port (V6 _ p _ _) = p"

section \<open>Encoding\<close>

fun encode_active_details :: "ManagementJobRole \<Rightarrow> ManagementActiveJobDetails \<Rightarrow> byte list io_result" where
  "encode_active_details JobSender (SenderDetails receiver_address source workers calibration) =
     ebind (ensure (addr_port receiver_address \<noteq> 0) InvalidInput) (\<lambda>_.
     ebind (ensure (workers \<noteq> 0) InvalidInput) (\<lambda>_.
     ebind (ensure (calibration \<noteq> 0) InvalidInput) (\<lambda>_.
     ebind (validate_text source MAX_ACTIVE_PATH_BYTES False) (\<lambda>_.
     (let receiver_text = display_socket_addr receiver_address in
     ebind (validate_text receiver_text MAX_RECEIVER_ENDPOINT_BYTES False) (\<lambda>_.
     ebind (word_try_from InvalidInput (str_len receiver_text)) (\<lambda>receiver_length :: u16.
     ebind (word_try_from InvalidInput (str_len source)) (\<lambda>source_length :: u32.
     ebind (word_try_from InvalidInput workers) (\<lambda>workers32 :: u32.
       Inr (to_le_bytes workers32 @ to_le_bytes calibration @ to_le_bytes receiver_length @
            to_le_bytes (0 :: u16) @ to_le_bytes source_length @ as_bytes receiver_text @ as_bytes source))))))))))"
| "encode_active_details JobReceiver (ReceiverDetails port destination update) =
     ebind (ensure (port \<noteq> 0) InvalidInput) (\<lambda>_.
     ebind (validate_text destination MAX_ACTIVE_PATH_BYTES False) (\<lambda>_.
     ebind (word_try_from InvalidInput (str_len destination)) (\<lambda>destination_length :: u32.
       Inr (to_le_bytes port @ [if update then UPDATE_EXISTING_FLAG else 0, 0] @
            to_le_bytes destination_length @ as_bytes destination))))"
| "encode_active_details _ _ = Inl InvalidInput"

definition encode_active :: "ManagementActiveJobSnapshot \<Rightarrow> byte list io_result" where
  "encode_active a =
     ebind (validate_job_id (active_job_id a)) (\<lambda>_.
     ebind (validate_text (active_phase a) MAX_PHASE_BYTES False) (\<lambda>_.
     ebind (word_try_from InvalidInput (str_len (active_phase a))) (\<lambda>phase_length :: u16.
     ebind (encode_active_details (active_role a) (active_details a)) (\<lambda>details.
     ebind (word_try_from InvalidInput (length details)) (\<lambda>details_length :: u32.
       Inr ([role_code (active_role a), if cancel_requested a then 1 else 0] @ to_le_bytes phase_length @
            to_le_bytes (active_job_id a) @ to_le_bytes (active_completed a) @ to_le_bytes (active_total a) @
            to_le_bytes details_length @ as_bytes (active_phase a) @ details))))))"

definition encode_result :: "ManagementJobResult \<Rightarrow> byte list io_result" where
  "encode_result r =
     ebind (validate_job_id (result_job_id r)) (\<lambda>_.
     ebind (validate_text (result_message r) MAX_MESSAGE_BYTES True) (\<lambda>_.
     ebind (word_try_from InvalidInput (str_len (result_message r))) (\<lambda>message_length :: u16.
       Inr ([role_code (result_role r), outcome_code (result_outcome r)] @ to_le_bytes message_length @
            to_le_bytes (result_stream_count r) @ to_le_bytes (result_job_id r) @ to_le_bytes (result_files r) @
            to_le_bytes (result_logical_bytes r) @ to_le_bytes (result_wire_bytes r) @ as_bytes (result_message r)))))"

definition encode_optional :: "('a \<Rightarrow> byte list io_result) \<Rightarrow> 'a option \<Rightarrow> byte list io_result" where
  "encode_optional enc x = (case x of None \<Rightarrow> Inr [] | Some a \<Rightarrow> enc a)"

definition encode_snapshot :: "ManagementAgentSnapshot \<Rightarrow> byte list io_result" where
  "encode_snapshot s =
     (let flags = (if snapshot_active s \<noteq> None then ACTIVE_PRESENT_FLAG else 0) OR
                  (if latest_result s \<noteq> None then RESULT_PRESENT_FLAG else 0) in
     ebind (encode_optional encode_active (snapshot_active s)) (\<lambda>active.
     ebind (encode_optional encode_result (latest_result s)) (\<lambda>result.
       (let body = to_le_bytes SNAPSHOT_VERSION @ [flags, 0] @ to_le_bytes (agent_instance_id s) @ active @ result in
        if length body > MAX_MANAGEMENT_PAYLOAD_BYTES then Inl InvalidInput else Inr body))))"

section \<open>Decoding\<close>

text \<open>
  \<^verbatim>\<open>take_bytes\<close> is \<open>read_exact\<close> on the bytes after the cursor: the position is at most the length of the
  payload and the lengths are at most 32 bits wide, so the checked addition cannot fail.
\<close>

definition decode_active_details :: "ManagementJobRole \<Rightarrow> byte list \<Rightarrow> ManagementActiveJobDetails io_result" where
  "decode_active_details role body = (case role of
     JobSender \<Rightarrow>
       ebind (ensure (SENDER_DETAIL_HEADER_BYTES \<le> length body) UnexpectedEof) (\<lambda>_.
       (let workers = unat (from_le_bytes (byte_slice body 0 4) :: u32);
            calibration = (from_le_bytes (byte_slice body 4 12) :: u64);
            receiver_length = unat (from_le_bytes (byte_slice body 12 14) :: u16);
            reserved = (from_le_bytes (byte_slice body 14 16) :: u16);
            source_length = unat (from_le_bytes (byte_slice body 16 20) :: u32);
            receiver_end = SENDER_DETAIL_HEADER_BYTES + receiver_length;
            expected_length = receiver_end + source_length in
       ebind (ensure (workers \<noteq> 0) InvalidData) (\<lambda>_.
       ebind (ensure (calibration \<noteq> 0) InvalidData) (\<lambda>_.
       ebind (ensure (reserved = 0) InvalidData) (\<lambda>_.
       ebind (ensure (length body = expected_length) InvalidData) (\<lambda>_.
       ebind (decode_text (byte_slice body SENDER_DETAIL_HEADER_BYTES receiver_end) MAX_RECEIVER_ENDPOINT_BYTES False) (\<lambda>receiver_text.
       ebind (ok_or InvalidData (parse_socket_addr_text receiver_text)) (\<lambda>receiver_address.
       ebind (ensure (addr_port receiver_address \<noteq> 0) InvalidData) (\<lambda>_.
       ebind (decode_text (drop receiver_end body) MAX_ACTIVE_PATH_BYTES False) (\<lambda>source.
         Inr (SenderDetails receiver_address source workers calibration)))))))))))
   | JobReceiver \<Rightarrow>
       ebind (ensure (RECEIVER_DETAIL_HEADER_BYTES \<le> length body) UnexpectedEof) (\<lambda>_.
       (let port = (from_le_bytes (byte_slice body 0 2) :: u16);
            flags = body ! 2;
            destination_length = unat (from_le_bytes (byte_slice body 4 8) :: u32);
            expected_length = RECEIVER_DETAIL_HEADER_BYTES + destination_length in
       ebind (ensure (port \<noteq> 0) InvalidData) (\<lambda>_.
       ebind (ensure (flags AND NOT UPDATE_EXISTING_FLAG = 0) InvalidData) (\<lambda>_.
       ebind (ensure (body ! 3 = 0) InvalidData) (\<lambda>_.
       ebind (ensure (length body = expected_length) InvalidData) (\<lambda>_.
       ebind (decode_text (drop RECEIVER_DETAIL_HEADER_BYTES body) MAX_ACTIVE_PATH_BYTES False) (\<lambda>destination.
         Inr (ReceiverDetails port destination (flags AND UPDATE_EXISTING_FLAG \<noteq> 0)))))))))
   )"

definition decode_flag :: "u8 \<Rightarrow> bool io_result" where
  "decode_flag v = (if v = 0 then Inr False else if v = 1 then Inr True else Inl InvalidData)"

definition decode_active :: "ManagementActiveJobSnapshot reader" where
  "decode_active =
     rbind (read_exact ACTIVE_HEADER_BYTES) (\<lambda>header.
     rbind (rlift (role_try_from (header ! 0))) (\<lambda>role.
     rbind (rlift (decode_flag (header ! 1))) (\<lambda>cancel.
     (let phase_length = unat (from_le_bytes (byte_slice header 2 4) :: u16);
          job_id = (from_le_bytes (byte_slice header 4 12) :: u64);
          completed = (from_le_bytes (byte_slice header 12 20) :: u64);
          total_bytes = (from_le_bytes (byte_slice header 20 28) :: u64);
          details_length = unat (from_le_bytes (byte_slice header 28 32) :: u32) in
     rbind (rlift (invalid_data (validate_job_id job_id))) (\<lambda>_.
     rbind (read_exact phase_length) (\<lambda>phase_bytes.
     rbind (rlift (decode_text phase_bytes MAX_PHASE_BYTES False)) (\<lambda>phase.
     rbind (read_exact details_length) (\<lambda>details_bytes.
     rbind (rlift (decode_active_details role details_bytes)) (\<lambda>details.
       rret \<lparr>active_role = role, active_job_id = job_id, active_phase = phase, active_completed = completed,
             active_total = total_bytes, cancel_requested = cancel, active_details = details\<rparr>)))))))))"

definition decode_result :: "ManagementJobResult reader" where
  "decode_result =
     rbind (read_exact RESULT_HEADER_BYTES) (\<lambda>header.
     rbind (rlift (role_try_from (header ! 0))) (\<lambda>role.
     rbind (rlift (outcome_try_from (header ! 1))) (\<lambda>outcome.
     (let message_length = unat (from_le_bytes (byte_slice header 2 4) :: u16);
          streams = (from_le_bytes (byte_slice header 4 8) :: u32);
          job_id = (from_le_bytes (byte_slice header 8 16) :: u64);
          files = (from_le_bytes (byte_slice header 16 24) :: u64);
          logical = (from_le_bytes (byte_slice header 24 32) :: u64);
          wire = (from_le_bytes (byte_slice header 32 40) :: u64) in
     rbind (rlift (invalid_data (validate_job_id job_id))) (\<lambda>_.
     rbind (read_exact message_length) (\<lambda>message_bytes.
     rbind (rlift (decode_text message_bytes MAX_MESSAGE_BYTES True)) (\<lambda>message.
       rret \<lparr>result_role = role, result_outcome = outcome, result_job_id = job_id, result_files = files,
             result_logical_bytes = logical, result_wire_bytes = wire, result_stream_count = streams,
             result_message = message\<rparr>)))))))"

definition AgentInstanceId_from_raw :: "128 word \<Rightarrow> AgentInstanceId option" where
  "AgentInstanceId_from_raw v = (if v = 0 then None else Some v)"

definition decode_optional :: "bool \<Rightarrow> 'a reader \<Rightarrow> 'a option reader" where
  "decode_optional present m = (if present then rbind m (\<lambda>a. rret (Some a)) else rret None)"

definition decode_snapshot :: "byte list \<Rightarrow> ManagementAgentSnapshot io_result" where
  "decode_snapshot body =
     ebind (ensure (SNAPSHOT_HEADER_BYTES \<le> length body) InvalidData) (\<lambda>_.
     ebind (ensure ((from_le_bytes (byte_slice body 0 2) :: u16) = SNAPSHOT_VERSION) InvalidData) (\<lambda>_.
     (let flags = body ! 2 in
     ebind (ensure (flags AND NOT KNOWN_FLAGS = 0) InvalidData) (\<lambda>_.
     ebind (ensure (body ! 3 = 0) InvalidData) (\<lambda>_.
     ebind (ok_or InvalidData (AgentInstanceId_from_raw (from_le_bytes (byte_slice body 4 SNAPSHOT_HEADER_BYTES)))) (\<lambda>instance_id.
     ebind (decode_optional (flags AND ACTIVE_PRESENT_FLAG \<noteq> 0) decode_active (drop SNAPSHOT_HEADER_BYTES body)) (\<lambda>(active, bs).
     ebind (decode_optional (flags AND RESULT_PRESENT_FLAG \<noteq> 0) decode_result bs) (\<lambda>(result, bs').
     ebind (ensure (bs' = []) InvalidData) (\<lambda>_.
       Inr \<lparr>agent_instance_id = instance_id, snapshot_active = active, latest_result = result\<rparr>)))))))))"

section \<open>Round trip\<close>

text \<open>
  What the Rust types guarantee: strings are UTF-8, an instance ID is not zero.  Addresses carry no IPv6
  flow information, which their text form drops.
\<close>

fun details_representable :: "ManagementActiveJobDetails \<Rightarrow> bool" where
  "details_representable (SenderDetails a source _ _) \<longleftrightarrow> is_text source \<and> without_flowinfo a = a"
| "details_representable (ReceiverDetails _ destination _) \<longleftrightarrow> is_text destination"

definition active_representable :: "ManagementActiveJobSnapshot \<Rightarrow> bool" where
  "active_representable a \<longleftrightarrow> is_text (active_phase a) \<and> details_representable (active_details a)"

definition result_representable :: "ManagementJobResult \<Rightarrow> bool" where
  "result_representable r \<longleftrightarrow> is_text (result_message r)"

definition snapshot_representable :: "ManagementAgentSnapshot \<Rightarrow> bool" where
  "snapshot_representable s \<longleftrightarrow> agent_instance_id s \<noteq> 0 \<and>
     pred_option active_representable (snapshot_active s) \<and> pred_option result_representable (latest_result s)"

lemma role_try_from_code [simp]: "role_try_from (role_code r) = Inr r"
  by (cases r) (simp_all add: role_try_from_def)

lemma outcome_try_from_code [simp]: "outcome_try_from (outcome_code r) = Inr r"
  by (cases r) (simp_all add: outcome_try_from_def)

lemma decode_flag_bool [simp]: "decode_flag (if b then 1 else 0) = Inr b"
  by (simp add: decode_flag_def)

lemma decode_text_as_bytes:
  "is_text s \<Longrightarrow> validate_text s m e = Inr () \<Longrightarrow> decode_text (as_bytes s) m e = Inr s"
  by (simp add: decode_text_def from_utf8_as_bytes invalid_data_def)

lemma decode_encode_details:
  assumes "encode_active_details role d = Inr bs" "details_representable d"
  shows "decode_active_details role bs = Inr d"
proof -
  consider (sender) a s w c where "role = JobSender" "d = SenderDetails a s w c"
    | (receiver) p t u where "role = JobReceiver" "d = ReceiverDetails p t u"
    using assms(1) by (cases "(role, d)" rule: encode_active_details.cases) auto
  then show ?thesis
  proof cases
    case sender
    define receiver_text where "receiver_text = display_socket_addr a"
    have checks: "addr_port a \<noteq> 0" "w \<noteq> 0" "c \<noteq> 0" "validate_text s MAX_ACTIVE_PATH_BYTES False = Inr ()"
      "validate_text receiver_text MAX_RECEIVER_ENDPOINT_BYTES False = Inr ()"
      "str_len receiver_text < 2 ^ 16" "str_len s < 2 ^ 32" "w < 2 ^ 32"
      and bs: "bs = to_le_bytes (of_nat w :: u32) @ to_le_bytes c @ to_le_bytes (of_nat (str_len receiver_text) :: u16) @
        to_le_bytes (0 :: u16) @ to_le_bytes (of_nat (str_len s) :: u32) @ as_bytes receiver_text @ as_bytes s"
      using assms(1) sender by (auto simp: result_simps Let_def word_try_from_Inr receiver_text_def)
    have texts: "is_text s" "is_text receiver_text" "parse_socket_addr_text receiver_text = Some a"
      using assms(2) sender ascii_socket_addr by (auto simp: receiver_text_def parse_display_socket_addr ascii_text_is_text)
    have words: "unat (of_nat w :: u32) = w" "unat (of_nat (str_len receiver_text) :: u16) = str_len receiver_text"
      "unat (of_nat (str_len s) :: u32) = str_len s"
      using checks by (simp_all add: unat_of_nat_small)
    show ?thesis using checks(1-3) texts words decode_text_as_bytes [OF texts(1) checks(4)] decode_text_as_bytes [OF texts(2) checks(5)]
      unfolding sender bs decode_active_details_def
      by (simp add: byte_slice_def SENDER_DETAIL_HEADER_BYTES_def from_to_le_bytes Let_def)
  next
    case receiver
    have checks: "p \<noteq> 0" "validate_text t MAX_ACTIVE_PATH_BYTES False = Inr ()" "str_len t < 2 ^ 32"
      and bs: "bs = to_le_bytes p @ [if u then UPDATE_EXISTING_FLAG else 0, 0] @ to_le_bytes (of_nat (str_len t) :: u32) @ as_bytes t"
      using assms(1) receiver by (auto simp: result_simps word_try_from_Inr)
    have words: "unat (of_nat (str_len t) :: u32) = str_len t" using checks by (simp add: unat_of_nat_small)
    have "is_text t" using assms(2) receiver by simp
    show ?thesis using checks(1) words decode_text_as_bytes [OF \<open>is_text t\<close> checks(2)]
      unfolding receiver bs decode_active_details_def
      by (simp add: byte_slice_def RECEIVER_DETAIL_HEADER_BYTES_def UPDATE_EXISTING_FLAG_def from_to_le_bytes Let_def nth_append)
  qed
qed

lemma length_encoded_details: "encode_active_details role d = Inr bs \<Longrightarrow> length bs \<le> 2 ^ 17"
  by (cases "(role, d)" rule: encode_active_details.cases)
    (auto simp: result_simps Let_def validate_text_def snapshot_constants split: if_splits)

lemma decode_encode_active:
  assumes "encode_active a = Inr bs" "active_representable a"
  shows "decode_active (bs @ rest) = Inr (a, rest)"
proof -
  obtain details where job: "validate_job_id (active_job_id a) = Inr ()"
    and phase: "validate_text (active_phase a) MAX_PHASE_BYTES False = Inr ()" "str_len (active_phase a) < 2 ^ 16"
    and details: "encode_active_details (active_role a) (active_details a) = Inr details" "length details < 2 ^ 32"
    and bs: "bs = ([role_code (active_role a), if cancel_requested a then 1 else 0] @
            to_le_bytes (of_nat (str_len (active_phase a)) :: u16) @
            to_le_bytes (active_job_id a) @ to_le_bytes (active_completed a) @ to_le_bytes (active_total a) @
            to_le_bytes (of_nat (length details) :: u32)) @ as_bytes (active_phase a) @ details"
    using assms(1) by (auto simp: encode_active_def result_simps word_try_from_Inr)
  define header where "header = [role_code (active_role a), if cancel_requested a then 1 else 0] @
            to_le_bytes (of_nat (str_len (active_phase a)) :: u16) @
            to_le_bytes (active_job_id a) @ to_le_bytes (active_completed a) @ to_le_bytes (active_total a) @
            to_le_bytes (of_nat (length details) :: u32)"
  have words: "unat (of_nat (str_len (active_phase a)) :: u16) = str_len (active_phase a)"
    "unat (of_nat (length details) :: u32) = length details"
    using phase(2) details(2) by (simp_all add: unat_of_nat_small)
  have fields: "length header = 32" "header ! 0 = role_code (active_role a)" "header ! Suc 0 = (if cancel_requested a then 1 else 0)"
    "unat (from_le_bytes (byte_slice header 2 4) :: u16) = str_len (active_phase a)"
    "from_le_bytes (byte_slice header 4 12) = active_job_id a"
    "from_le_bytes (byte_slice header 12 20) = active_completed a"
    "from_le_bytes (byte_slice header 20 28) = active_total a"
    "unat (from_le_bytes (byte_slice header 28 32) :: u32) = length details"
    using words by (simp_all add: header_def byte_slice_def from_to_le_bytes)
  have texts: "is_text (active_phase a)" "details_representable (active_details a)"
    using assms(2) by (simp_all add: active_representable_def)
  show ?thesis unfolding bs header_def [symmetric] decode_active_def
    using job decode_text_as_bytes [OF texts(1) phase(1)] decode_encode_details [OF details(1) texts(2)]
    by (simp add: rbind_def read_exact_append fields ACTIVE_HEADER_BYTES_def invalid_data_def Let_def)
qed

lemma decode_encode_result:
  assumes "encode_result r = Inr bs" "result_representable r"
  shows "decode_result (bs @ rest) = Inr (r, rest)"
proof -
  define header where "header = [role_code (result_role r), outcome_code (result_outcome r)] @
            to_le_bytes (of_nat (str_len (result_message r)) :: u16) @
            to_le_bytes (result_stream_count r) @ to_le_bytes (result_job_id r) @ to_le_bytes (result_files r) @
            to_le_bytes (result_logical_bytes r) @ to_le_bytes (result_wire_bytes r)"
  have job: "validate_job_id (result_job_id r) = Inr ()"
    and message: "validate_text (result_message r) MAX_MESSAGE_BYTES True = Inr ()" "str_len (result_message r) < 2 ^ 16"
    and bs: "bs = header @ as_bytes (result_message r)"
    using assms(1) by (auto simp: encode_result_def result_simps word_try_from_Inr header_def)
  have "unat (of_nat (str_len (result_message r)) :: u16) = str_len (result_message r)"
    using message(2) by (simp add: unat_of_nat_small)
  then have fields: "length header = 40" "header ! 0 = role_code (result_role r)" "header ! Suc 0 = outcome_code (result_outcome r)"
    "unat (from_le_bytes (byte_slice header 2 4) :: u16) = str_len (result_message r)"
    "from_le_bytes (byte_slice header 4 8) = result_stream_count r"
    "from_le_bytes (byte_slice header 8 16) = result_job_id r"
    "from_le_bytes (byte_slice header 16 24) = result_files r"
    "from_le_bytes (byte_slice header 24 32) = result_logical_bytes r"
    "from_le_bytes (byte_slice header 32 40) = result_wire_bytes r"
    by (simp_all add: header_def byte_slice_def from_to_le_bytes)
  show ?thesis unfolding bs decode_result_def
    using job decode_text_as_bytes [OF _ message(1)] assms(2)
    by (simp add: rbind_def read_exact_append fields RESULT_HEADER_BYTES_def invalid_data_def result_representable_def)
qed

lemma snapshot_flags:
  fixes a b :: bool
  defines "f \<equiv> (if a then ACTIVE_PRESENT_FLAG else 0) OR (if b then RESULT_PRESENT_FLAG else 0)"
  shows "f AND NOT KNOWN_FLAGS = 0" "(f AND ACTIVE_PRESENT_FLAG \<noteq> 0) = a" "(f AND RESULT_PRESENT_FLAG \<noteq> 0) = b"
  by (cases a; cases b; simp add: f_def snapshot_constants)+

lemma decode_encode_optional:
  assumes "encode_optional enc x = Inr bs" "\<And>a. x = Some a \<Longrightarrow> dec (bs @ rest) = Inr (a, rest)"
  shows "decode_optional (x \<noteq> None) dec (bs @ rest) = Inr (x, rest)"
  using assms by (cases x) (simp_all add: encode_optional_def decode_optional_def rbind_def)

lemma snapshot_codec:
  assumes "encode_snapshot s = Inr bs" "snapshot_representable s"
  shows "decode_snapshot bs = Inr s"
proof -
  define flags where "flags = (if snapshot_active s \<noteq> None then ACTIVE_PRESENT_FLAG else 0) OR
      (if latest_result s \<noteq> None then RESULT_PRESENT_FLAG else 0)"
  obtain active result where active: "encode_optional encode_active (snapshot_active s) = Inr active"
    and result: "encode_optional encode_result (latest_result s) = Inr result"
    and bs: "bs = to_le_bytes SNAPSHOT_VERSION @ [flags, 0] @ to_le_bytes (agent_instance_id s) @ active @ result"
    using assms(1) by (auto simp: encode_snapshot_def result_simps Let_def flags_def split: if_splits)
  have "decode_optional (snapshot_active s \<noteq> None) decode_active (active @ result) = Inr (snapshot_active s, result)"
    using active assms(2) by (intro decode_encode_optional [OF active])
      (auto intro!: decode_encode_active simp: encode_optional_def snapshot_representable_def)
  moreover have "decode_optional (latest_result s \<noteq> None) decode_result (result @ []) = Inr (latest_result s, [])"
    using result assms(2) by (intro decode_encode_optional [OF result])
      (auto intro!: decode_encode_result [where rest = "[]", simplified] simp: encode_optional_def snapshot_representable_def)
  moreover have "agent_instance_id s \<noteq> 0" using assms(2) by (simp add: snapshot_representable_def)
  ultimately show ?thesis
    using snapshot_flags [of "snapshot_active s \<noteq> None" "latest_result s \<noteq> None", folded flags_def]
    unfolding bs decode_snapshot_def
    by (simp add: byte_slice_def from_to_le_bytes SNAPSHOT_HEADER_BYTES_def AgentInstanceId_from_raw_def Let_def nth_append)
qed

section \<open>What a decoded snapshot satisfies\<close>

fun details_wf :: "ManagementJobRole \<Rightarrow> ManagementActiveJobDetails \<Rightarrow> bool" where
  "details_wf JobSender (SenderDetails a source workers calibration) \<longleftrightarrow>
     addr_port a \<noteq> 0 \<and> source \<noteq> [] \<and> str_len source \<le> MAX_ACTIVE_PATH_BYTES \<and>
     0 < workers \<and> workers < 2 ^ 32 \<and> calibration \<noteq> 0"
| "details_wf JobReceiver (ReceiverDetails port destination _) \<longleftrightarrow>
     port \<noteq> 0 \<and> destination \<noteq> [] \<and> str_len destination \<le> MAX_ACTIVE_PATH_BYTES"
| "details_wf _ _ \<longleftrightarrow> False"

definition active_wf :: "ManagementActiveJobSnapshot \<Rightarrow> bool" where
  "active_wf a \<longleftrightarrow> active_job_id a \<noteq> 0 \<and> active_phase a \<noteq> [] \<and> str_len (active_phase a) \<le> MAX_PHASE_BYTES \<and>
     details_wf (active_role a) (active_details a)"

definition result_wf :: "ManagementJobResult \<Rightarrow> bool" where
  "result_wf r \<longleftrightarrow> result_job_id r \<noteq> 0 \<and> str_len (result_message r) \<le> MAX_MESSAGE_BYTES"

definition snapshot_wf :: "ManagementAgentSnapshot \<Rightarrow> bool" where
  "snapshot_wf s \<longleftrightarrow> agent_instance_id s \<noteq> 0 \<and> pred_option active_wf (snapshot_active s) \<and>
     pred_option result_wf (latest_result s)"

lemma decode_text_Inr: "decode_text bs m e = Inr s \<Longrightarrow> str_len s \<le> m \<and> (e \<or> s \<noteq> [])"
  by (auto simp: decode_text_def result_simps invalid_data_def validate_text_def split: if_splits)

lemma validate_job_id_Inr: "validate_job_id j = Inr u \<longleftrightarrow> j \<noteq> 0"
  by (simp add: validate_job_id_def)

lemma decode_details_wf: "decode_active_details role bs = Inr d \<Longrightarrow> details_wf role d"
  by (auto simp: decode_active_details_def Let_def result_simps dest!: decode_text_Inr split: ManagementJobRole.splits)
    (use unat_less_2p [where 'a = 32] in simp)

lemma decode_active_wf: "decode_active bs = Inr (a, rest) \<Longrightarrow> active_wf a"
  by (auto simp: decode_active_def active_wf_def Let_def result_simps invalid_data_def validate_job_id_Inr
      dest!: decode_text_Inr decode_details_wf)

lemma decode_result_wf: "decode_result bs = Inr (r, rest) \<Longrightarrow> result_wf r"
  by (auto simp: decode_result_def result_wf_def Let_def result_simps invalid_data_def validate_job_id_Inr
      dest!: decode_text_Inr)

lemma decode_optional_Inr:
  "decode_optional p m bs = Inr (x, rest) \<Longrightarrow> (\<And>a bs'. m bs = Inr (a, bs') \<Longrightarrow> P a) \<Longrightarrow> pred_option P x"
  by (auto simp: decode_optional_def result_simps split: if_splits)

lemma decoded_snapshot_wf: "decode_snapshot bs = Inr s \<Longrightarrow> snapshot_wf s"
  by (auto simp: decode_snapshot_def snapshot_wf_def Let_def result_simps AgentInstanceId_from_raw_def
      intro: decode_optional_Inr decode_active_wf decode_result_wf split: if_splits)

text \<open>Bytes of the peer are never reported as a mistake of the caller.\<close>

lemma rbind_Inl: "rbind m f bs = Inl e \<longleftrightarrow> m bs = Inl e \<or> (\<exists>a bs'. m bs = Inr (a, bs') \<and> f a bs' = Inl e)"
  by (cases "m bs") (auto simp: rbind_def)

lemma rlift_Inl: "rlift r bs = Inl e \<longleftrightarrow> r = Inl e"
  by (cases r) (simp_all add: rlift_def)

definition peer_error :: "error_kind \<Rightarrow> bool" where
  "peer_error e \<longleftrightarrow> e = InvalidData \<or> e = UnexpectedEof"

lemma peer_errors:
  "decode_text b m x = Inl e \<Longrightarrow> peer_error e"
  "invalid_data r = Inl e \<Longrightarrow> peer_error e"
  "read_exact n b = Inl e \<Longrightarrow> peer_error e"
  "role_try_from v = Inl e \<Longrightarrow> peer_error e"
  "outcome_try_from v = Inl e \<Longrightarrow> peer_error e"
  "decode_flag v = Inl e \<Longrightarrow> peer_error e"
  by (auto simp: peer_error_def decode_text_def invalid_data_def map_err_def read_exact_def role_try_from_def
      outcome_try_from_def decode_flag_def validate_text_def result_simps split: sum.splits if_splits)

lemma decode_details_error: "decode_active_details role bs = Inl e \<Longrightarrow> peer_error e"
  by (auto simp: decode_active_details_def Let_def ebind_Inl ensure_Inl ok_or_Inl dest: peer_errors(1)
      split: ManagementJobRole.splits) (simp_all add: peer_error_def)

lemma decode_active_error: "decode_active bs = Inl e \<Longrightarrow> peer_error e"
  by (auto simp: decode_active_def Let_def rbind_Inl rlift_Inl dest: peer_errors decode_details_error)

lemma decode_result_error: "decode_result bs = Inl e \<Longrightarrow> peer_error e"
  by (auto simp: decode_result_def Let_def rbind_Inl rlift_Inl dest: peer_errors)

lemma decode_snapshot_error: "decode_snapshot bs = Inl e \<Longrightarrow> peer_error e"
  by (auto simp: decode_snapshot_def decode_optional_def Let_def ebind_Inl ensure_Inl ok_or_Inl rbind_Inl
      dest: decode_active_error decode_result_error split: if_splits) (simp_all add: peer_error_def)

section \<open>Reconnecting to a running transfer\<close>

record ManagedTransferRecord =
  tr_sender_agent :: SocketAddr
  tr_sender_job_id :: u64
  tr_receiver_agent :: SocketAddr
  tr_receiver_job_id :: u64
  tr_receiver_payload :: SocketAddr
  tr_source_root :: ustring
  tr_destination_root :: ustring
  tr_update_existing :: bool
  tr_worker_count :: usize
  tr_calibration_mib :: u64

fun payload_endpoint :: "SocketAddr \<Rightarrow> u16 \<Rightarrow> SocketAddr" where
  "payload_endpoint (V4 ip _) port = V4 ip port"
| "payload_endpoint (V6 ip _ flowinfo scope) port = V6 ip port flowinfo scope"

definition reconstruct_active_transfer ::
    "SocketAddr \<Rightarrow> SocketAddr \<Rightarrow> ManagementAgentSnapshot \<Rightarrow> ManagementAgentSnapshot \<Rightarrow> ManagedTransferRecord io_result" where
  "reconstruct_active_transfer sender_at receiver_at ss rs =
     ebind (ensure (sender_at \<noteq> receiver_at) InvalidInput) (\<lambda>_.
     ebind (ok_or NotFound (snapshot_active ss)) (\<lambda>snd_job.
     ebind (ensure (active_role snd_job = JobSender) InvalidData) (\<lambda>_.
     (case active_details snd_job of ReceiverDetails _ _ _ \<Rightarrow> Inl InvalidData
      | SenderDetails receiver_address source workers calibration \<Rightarrow>
     ebind (ok_or NotFound (snapshot_active rs)) (\<lambda>rcv_job.
     ebind (ensure (active_role rcv_job = JobReceiver) InvalidData) (\<lambda>_.
     (case active_details rcv_job of SenderDetails _ _ _ _ \<Rightarrow> Inl InvalidData
      | ReceiverDetails port destination update \<Rightarrow>
     ebind (ensure (receiver_address = payload_endpoint receiver_at port) InvalidData) (\<lambda>_.
       Inr \<lparr>tr_sender_agent = sender_at, tr_sender_job_id = active_job_id snd_job, tr_receiver_agent = receiver_at,
            tr_receiver_job_id = active_job_id rcv_job, tr_receiver_payload = receiver_address, tr_source_root = source,
            tr_destination_root = destination, tr_update_existing = update, tr_worker_count = workers,
            tr_calibration_mib = calibration\<rparr>))))))))"

definition validate_snapshot ::
    "ManagementJobRole \<Rightarrow> AgentInstanceId \<Rightarrow> u64 \<Rightarrow> ManagementAgentSnapshot \<Rightarrow> unit io_result" where
  "validate_snapshot role expected_instance expected_job s =
     ebind (ensure (agent_instance_id s = expected_instance) InvalidData) (\<lambda>_.
     ebind (ok_or NotFound (snapshot_active s)) (\<lambda>active.
     ebind (ensure (active_role active = role) InvalidData) (\<lambda>_.
       ensure (active_job_id active = expected_job) InvalidData)))"

definition validate_active_snapshots ::
    "ActiveQueueBinding \<Rightarrow> ManagementAgentSnapshot \<Rightarrow> ManagementAgentSnapshot \<Rightarrow> unit io_result" where
  "validate_active_snapshots b ss rs =
     ebind (validate_snapshot JobSender (sender_instance_id b) (sender_job_id b) ss)
       (\<lambda>_. validate_snapshot JobReceiver (receiver_instance_id b) (receiver_job_id b) rs)"

text \<open>The specification: the two agents run the two jobs of the transfer \<open>r\<close>.\<close>

definition running_transfer :: "ManagedTransferRecord \<Rightarrow> ManagementAgentSnapshot \<Rightarrow> ManagementAgentSnapshot \<Rightarrow> bool" where
  "running_transfer r ss rs \<longleftrightarrow>
     tr_sender_agent r \<noteq> tr_receiver_agent r \<and>
     (\<exists>a b port. snapshot_active ss = Some a \<and> active_role a = JobSender \<and> active_job_id a = tr_sender_job_id r \<and>
        active_details a = SenderDetails (tr_receiver_payload r) (tr_source_root r) (tr_worker_count r) (tr_calibration_mib r) \<and>
        snapshot_active rs = Some b \<and> active_role b = JobReceiver \<and> active_job_id b = tr_receiver_job_id r \<and>
        active_details b = ReceiverDetails port (tr_destination_root r) (tr_update_existing r) \<and>
        tr_receiver_payload r = payload_endpoint (tr_receiver_agent r) port)"

lemma reconstruct_iff:
  "reconstruct_active_transfer sa ra ss rs = Inr r \<longleftrightarrow>
     tr_sender_agent r = sa \<and> tr_receiver_agent r = ra \<and> running_transfer r ss rs"
  unfolding reconstruct_active_transfer_def running_transfer_def
  by (cases r; cases "snapshot_active ss"; cases "snapshot_active rs";
      cases "active_details (the (snapshot_active ss))"; cases "active_details (the (snapshot_active rs))")
    (auto simp: result_simps)

lemma validate_active_snapshots_iff:
  "validate_active_snapshots b ss rs = Inr () \<longleftrightarrow>
     agent_instance_id ss = sender_instance_id b \<and> agent_instance_id rs = receiver_instance_id b \<and>
     (\<exists>x. snapshot_active ss = Some x \<and> active_role x = JobSender \<and> active_job_id x = sender_job_id b) \<and>
     (\<exists>y. snapshot_active rs = Some y \<and> active_role y = JobReceiver \<and> active_job_id y = receiver_job_id b)"
  by (auto simp: validate_active_snapshots_def validate_snapshot_def result_simps)

text \<open>
  C31. A manager that reads the snapshots of both agents off the wire finds exactly the transfer they run: it
  reconstructs a record if and only if the sender's job targets the endpoint the receiver's job listens on,
  the record is the one of those two jobs, and a queue binding to these two agent processes and jobs is accepted
  for the snapshots.
\<close>

theorem reconnect_finds_running_transfer:
  assumes "encode_snapshot ss = Inr sent_s" "snapshot_representable ss"
    and "encode_snapshot rs = Inr sent_r" "snapshot_representable rs"
  shows "\<exists>ss' rs'. decode_snapshot sent_s = Inr ss' \<and> decode_snapshot sent_r = Inr rs' \<and>
    (\<forall>r. reconstruct_active_transfer sa ra ss' rs' = Inr r \<longleftrightarrow>
         tr_sender_agent r = sa \<and> tr_receiver_agent r = ra \<and> running_transfer r ss rs) \<and>
    (\<forall>r qid b. reconstruct_active_transfer sa ra ss' rs' = Inr r \<and>
         ActiveQueueBinding_new qid (agent_instance_id ss) (tr_sender_job_id r) (agent_instance_id rs) (tr_receiver_job_id r) = Inr b \<longrightarrow>
         validate_active_snapshots b ss' rs' = Inr ())"
proof -
  have "validate_active_snapshots b ss rs = Inr ()"
    if "running_transfer r ss rs"
      "ActiveQueueBinding_new qid (agent_instance_id ss) (tr_sender_job_id r) (agent_instance_id rs) (tr_receiver_job_id r) = Inr b" for r qid b
    using that by (auto simp: validate_active_snapshots_iff running_transfer_def ActiveQueueBinding_new_def result_simps)
  then show ?thesis
    using snapshot_codec [OF assms(1,2)] snapshot_codec [OF assms(3,4)] by (auto simp: reconstruct_iff)
qed

text \<open>
  C32. Whatever bytes an agent sends, a snapshot the manager accepts is well formed: its process identity and job
  IDs are not zero, the details are those of the announced role with a usable port, path, worker count and
  calibration size, and every text is within its limit.  Anything else is refused as bad data.
\<close>

theorem accepted_snapshot_well_formed:
  "case decode_snapshot bs of Inr s \<Rightarrow> snapshot_wf s | Inl e \<Rightarrow> peer_error e"
  using decoded_snapshot_wf [of bs] decode_snapshot_error [of bs] by (auto split: sum.split)

section \<open>A running transfer\<close>

definition sample_record :: ManagedTransferRecord where
  "sample_record = \<lparr>tr_sender_agent = V4 1 7000, tr_sender_job_id = 5, tr_receiver_agent = V4 2 7000,
     tr_receiver_job_id = 9, tr_receiver_payload = V4 2 7001, tr_source_root = ustr ''C:'', tr_destination_root = ustr ''D:'',
     tr_update_existing = True, tr_worker_count = 4, tr_calibration_mib = 8\<rparr>"

definition sample_sender_snapshot :: ManagementAgentSnapshot where
  "sample_sender_snapshot = \<lparr>agent_instance_id = 11,
     snapshot_active = Some \<lparr>active_role = JobSender, active_job_id = 5, active_phase = ustr ''copy'', active_completed = 1,
       active_total = 2, cancel_requested = False, active_details = SenderDetails (V4 2 7001) (ustr ''C:'') 4 8\<rparr>,
     latest_result = None\<rparr>"

definition sample_receiver_snapshot :: ManagementAgentSnapshot where
  "sample_receiver_snapshot = \<lparr>agent_instance_id = 12,
     snapshot_active = Some \<lparr>active_role = JobReceiver, active_job_id = 9, active_phase = ustr ''copy'', active_completed = 1,
       active_total = 2, cancel_requested = True, active_details = ReceiverDetails 7001 (ustr ''D:'') True\<rparr>,
     latest_result = None\<rparr>"

lemma socket_text_ok: "validate_text (display_socket_addr a) MAX_RECEIVER_ENDPOINT_BYTES False = Inr ()"
proof -
  have "display_socket_addr a \<noteq> []" by (cases a) (simp_all add: display_nat_def)
  then show ?thesis using length_socket_addr [of a] ascii_socket_addr [of a]
    by (simp add: validate_text_def str_len_ascii MAX_RECEIVER_ENDPOINT_BYTES_def)
qed

lemma socket_text_length: "word_try_from e (str_len (display_socket_addr a)) = Inr (of_nat (str_len (display_socket_addr a)) :: u16)"
  using length_socket_addr [of a] ascii_socket_addr [of a] by (simp add: str_len_ascii word_try_from_def)

lemma sample_snapshots_sent:
  "\<exists>bs. encode_snapshot sample_sender_snapshot = Inr bs" "\<exists>bs. encode_snapshot sample_receiver_snapshot = Inr bs"
  using length_socket_addr [of "V4 2 7001"] str_len_ascii [OF ascii_socket_addr [of "V4 2 7001"]]
    socket_text_ok [of "V4 2 7001"]
  by (simp_all add: sample_sender_snapshot_def sample_receiver_snapshot_def encode_snapshot_def encode_optional_def
      encode_active_def validate_job_id_def socket_text_ok socket_text_length validate_text_def str_len_def
      utf8_char_len_def word_try_from_def snapshot_constants MAX_MANAGEMENT_PAYLOAD_BYTES_def Let_def
      del: display_socket_addr.simps)

lemma sample_snapshots_representable:
  "snapshot_representable sample_sender_snapshot" "snapshot_representable sample_receiver_snapshot"
  by (simp_all add: snapshot_representable_def sample_sender_snapshot_def sample_receiver_snapshot_def
      active_representable_def is_text_def is_scalar_def)

lemma sample_running: "running_transfer sample_record sample_sender_snapshot sample_receiver_snapshot"
  by (simp add: running_transfer_def sample_record_def sample_sender_snapshot_def sample_receiver_snapshot_def)

theorem reconnect_finds_running_transfer_witness:
  "\<exists>sent_s sent_r ss' rs'. encode_snapshot sample_sender_snapshot = Inr sent_s \<and> encode_snapshot sample_receiver_snapshot = Inr sent_r \<and>
     decode_snapshot sent_s = Inr ss' \<and> decode_snapshot sent_r = Inr rs' \<and>
     reconstruct_active_transfer (V4 1 7000) (V4 2 7000) ss' rs' = Inr sample_record"
proof -
  obtain sent_s sent_r where sent: "encode_snapshot sample_sender_snapshot = Inr sent_s" "encode_snapshot sample_receiver_snapshot = Inr sent_r"
    using sample_snapshots_sent by blast
  have "tr_sender_agent sample_record = V4 1 7000 \<and> tr_receiver_agent sample_record = V4 2 7000"
    by (simp add: sample_record_def)
  then show ?thesis
    using reconnect_finds_running_transfer [OF sent(1) sample_snapshots_representable(1) sent(2) sample_snapshots_representable(2),
        of "V4 1 7000" "V4 2 7000"] sent sample_running by blast
qed

end
