(* ===== verification/Manager_State.thy ===== *)
theory Manager_State
  imports Management_Snapshot
begin

text \<open>
  The manager's durable state (\<^verbatim>\<open>src/management_persistence.rs\<close>, \<^verbatim>\<open>src/management_persistence_v4.rs\<close>,
  \<^verbatim>\<open>src/management_active_binding_codec.rs\<close>): the text file with the last form fields, the transfer queue with
  its active binding and the history, in the formats \<^verbatim>\<open>NCMS1\<close> to \<^verbatim>\<open>NCMS5\<close>.  The fourth and fifth
  format are made, as in the code, by editing the text of the older one; the proofs show where the edits land.
  Saving goes through a temporary file and a backup, with every operating-system call able to fail.
\<close>

section \<open>The persisted state\<close>

record ManagerHistoryEntry =
  entry_transfer :: ManagedTransferRecord
  sender_result :: ManagementJobResult
  receiver_result :: ManagementJobResult

record ManagerPersistedState =
  ps_sender_agent :: ustring
  ps_receiver_agent :: ustring
  ps_source_root :: ustring
  ps_destination_root :: ustring
  ps_worker_count :: usize
  ps_calibration_mib :: u64
  ps_update_existing :: bool
  ps_route_mode :: ManagementRouteMode
  ps_queue :: TransferQueue
  ps_history :: "ManagerHistoryEntry list"

definition default_state :: ManagerPersistedState where
  "default_state = \<lparr>ps_sender_agent = [], ps_receiver_agent = [], ps_source_root = [], ps_destination_root = [],
     ps_worker_count = 4, ps_calibration_mib = 8, ps_update_existing = False, ps_route_mode = AutomaticLan,
     ps_queue = default_queue, ps_history = []\<rparr>"

definition MAX_STATE_BYTES :: usize where "MAX_STATE_BYTES = 4 * 1024 * 1024"
definition MAX_HISTORY_ENTRIES :: usize where "MAX_HISTORY_ENTRIES = 20"
definition MAX_TEXT_BYTES :: usize where "MAX_TEXT_BYTES = 64 * 1024"

definition key :: "string \<Rightarrow> ustring" where "key s = map of_char s"

definition STATE_MAGIC_V1 :: ustring where "STATE_MAGIC_V1 = key ''NCMS1''"
definition STATE_MAGIC_V2 :: ustring where "STATE_MAGIC_V2 = key ''NCMS2''"
definition STATE_MAGIC_V3 :: ustring where "STATE_MAGIC_V3 = key ''NCMS3''"
definition STATE_MAGIC_V4 :: ustring where "STATE_MAGIC_V4 = key ''NCMS4''"
definition STATE_MAGIC_V5 :: ustring where "STATE_MAGIC_V5 = key ''NCMS5''"

section \<open>Validation\<close>

definition state_text_ok :: "ustring \<Rightarrow> unit io_result" where
  "state_text_ok value = (if str_len value > MAX_TEXT_BYTES then Inl InvalidInput else Inr ())"

definition validate_history_entry :: "ManagerHistoryEntry \<Rightarrow> unit io_result" where
  "validate_history_entry e =
     (let t = entry_transfer e in
     ebind (ensure (\<not> (tr_sender_job_id t = 0 \<or> tr_receiver_job_id t = 0)) InvalidInput) (\<lambda>_.
     ebind (ensure (\<not> (tr_worker_count t = 0 \<or> tr_calibration_mib t = 0)) InvalidInput) (\<lambda>_.
     ebind (state_text_ok (tr_source_root t)) (\<lambda>_.
     ebind (state_text_ok (tr_destination_root t)) (\<lambda>_.
     ebind (state_text_ok (result_message (sender_result e))) (\<lambda>_.
     ebind (state_text_ok (result_message (receiver_result e))) (\<lambda>_.
     ebind (ensure (\<not> (result_role (sender_result e) \<noteq> JobSender \<or>
                       result_job_id (sender_result e) \<noteq> tr_sender_job_id t)) InvalidInput) (\<lambda>_.
       ensure (\<not> (result_role (receiver_result e) \<noteq> JobReceiver \<or>
                  result_job_id (receiver_result e) \<noteq> tr_receiver_job_id t)) InvalidInput))))))))"

definition validate_state :: "ManagerPersistedState \<Rightarrow> unit io_result" where
  "validate_state st =
     ebind (ensure (ps_worker_count st \<noteq> 0) InvalidInput) (\<lambda>_.
     ebind (ensure (ps_calibration_mib st \<noteq> 0) InvalidInput) (\<lambda>_.
     ebind (ensure (\<not> length (ps_history st) > MAX_HISTORY_ENTRIES) InvalidInput) (\<lambda>_.
     ebind (state_text_ok (ps_sender_agent st)) (\<lambda>_.
     ebind (state_text_ok (ps_receiver_agent st)) (\<lambda>_.
     ebind (state_text_ok (ps_source_root st)) (\<lambda>_.
     ebind (state_text_ok (ps_destination_root st)) (\<lambda>_.
     ebind (map_err (\<lambda>_. InvalidInput) (queue_validate (ps_queue st))) (\<lambda>_.
       efold (\<lambda>_ e. validate_history_entry e) () (ps_history st)))))))))"

section \<open>Fields\<close>

definition text_field :: "string \<Rightarrow> ustring \<Rightarrow> ustring" where
  "text_field k v = key k @ 32 # hex_encode (as_bytes v)"

definition number_field :: "string \<Rightarrow> nat \<Rightarrow> ustring" where
  "number_field k n = key k @ 32 # display_nat n"

definition bool_field :: "string \<Rightarrow> bool \<Rightarrow> ustring" where
  "bool_field k b = number_field k (if b then 1 else 0)"

definition field_value :: "string \<Rightarrow> ustring \<Rightarrow> ustring io_result" where
  "field_value expected_key line =
     ebind (ok_or InvalidData (split_once 32 line)) (\<lambda>(actual_key, v).
       if actual_key \<noteq> key expected_key then Inl InvalidData else Inr v)"

definition decode_text_field :: "string \<Rightarrow> ustring \<Rightarrow> ustring io_result" where
  "decode_text_field k line =
     ebind (field_value k line) (\<lambda>encoded.
     ebind (hex_decode encoded) (\<lambda>bytes.
       if length bytes > MAX_TEXT_BYTES then Inl InvalidData else ok_or InvalidData (from_utf8 bytes)))"

definition parse_word_field :: "string \<Rightarrow> ustring \<Rightarrow> 'a::len word io_result" where
  "parse_word_field k line = ebind (field_value k line) (\<lambda>v. ok_or InvalidData (parse_word v))"

definition parse_usize_field :: "string \<Rightarrow> ustring \<Rightarrow> usize io_result" where
  "parse_usize_field k line = ebind (field_value k line) (\<lambda>v. ok_or InvalidData (parse_usize v))"

definition parse_bool_field :: "string \<Rightarrow> ustring \<Rightarrow> bool io_result" where
  "parse_bool_field k line =
     ebind (parse_word_field k line) (\<lambda>v :: u8.
       if v = 0 then Inr False else if v = 1 then Inr True else Inl InvalidData)"

definition parse_address_field :: "string \<Rightarrow> ustring \<Rightarrow> SocketAddr io_result" where
  "parse_address_field k line =
     ebind (decode_text_field k line) (\<lambda>v. ok_or InvalidData (parse_socket_addr_text v))"

text \<open>Reading the lines of a text one after the other.\<close>

type_synonym 'a line_reader = "ustring list \<Rightarrow> ('a \<times> ustring list) io_result"

definition lret :: "'a \<Rightarrow> 'a line_reader" where "lret a ls = Inr (a, ls)"
definition llift :: "'a io_result \<Rightarrow> 'a line_reader" where "llift r ls = ebind r (\<lambda>a. Inr (a, ls))"

definition lbind :: "'a line_reader \<Rightarrow> ('a \<Rightarrow> 'b line_reader) \<Rightarrow> 'b line_reader" where
  "lbind m f ls = ebind (m ls) (\<lambda>(a, ls'). f a ls')"

definition required_line :: "ustring line_reader" where
  "required_line ls = (case ls of [] \<Rightarrow> Inl UnexpectedEof | l # ls' \<Rightarrow> Inr (l, ls'))"

definition expect_line :: "string \<Rightarrow> unit line_reader" where
  "expect_line expected = lbind required_line (\<lambda>actual. llift (ensure (actual = key expected) InvalidData))"

definition line_field :: "(ustring \<Rightarrow> 'a io_result) \<Rightarrow> 'a line_reader" where
  "line_field p = lbind required_line (\<lambda>l. llift (p l))"

fun lines_times :: "nat \<Rightarrow> 'a line_reader \<Rightarrow> 'a list line_reader" where
  "lines_times 0 m = lret []"
| "lines_times (Suc n) m = lbind m (\<lambda>x. lbind (lines_times n m) (\<lambda>xs. lret (x # xs)))"

section \<open>The queue\<close>

fun queue_state_code :: "QueuedTransferState \<Rightarrow> u8" where
  "queue_state_code Pending = 0"
| "queue_state_code Running = 1"
| "queue_state_code Blocked = 2"
| "queue_state_code Failed = 3"
| "queue_state_code Completed = 4"
| "queue_state_code Cancelled = 5"

definition decode_queue_state :: "u8 \<Rightarrow> QueuedTransferState io_result" where
  "decode_queue_state v =
     (if v = 0 then Inr Pending else if v = 1 then Inr Running else if v = 2 then Inr Blocked
      else if v = 3 then Inr Failed else if v = 4 then Inr Completed else if v = 5 then Inr Cancelled
      else Inl InvalidData)"

definition decode_route_mode :: "u8 \<Rightarrow> ManagementRouteMode io_result" where
  "decode_route_mode v = ok_or InvalidData (route_from_code v)"

fun kind_code :: "QueuedTransferKind \<Rightarrow> u8 \<times> usize" where
  "kind_code Fresh = (0, 0)"
| "kind_code (Resume n) = (1, n)"

definition decode_kind :: "u8 \<Rightarrow> usize \<Rightarrow> QueuedTransferKind io_result" where
  "decode_kind code streams =
     (if code = 0 then (if streams = 0 then Inr Fresh else Inl InvalidData)
      else if code = 1 then (if streams = 0 then Inl InvalidData else Inr (Resume streams))
      else Inl InvalidData)"

definition encode_queue_item :: "QueuedTransfer \<Rightarrow> ustring list" where
  "encode_queue_item item =
     (let r = item_request item in
     [key ''queue_begin'',
      number_field ''queue_id'' (unat (get_id (item_id item))),
      number_field ''queue_kind'' (unat (fst (kind_code (transfer_kind r)))),
      number_field ''queue_resume_stream_count'' (snd (kind_code (transfer_kind r))),
      number_field ''queue_state'' (unat (queue_state_code (item_state item))),
      number_field ''queue_route_mode'' (unat (route_code (route_mode r))),
      text_field ''queue_sender_agent'' (display_socket_addr (sender_agent r)),
      text_field ''queue_receiver_agent'' (display_socket_addr (receiver_agent r)),
      text_field ''queue_source_root'' (source_root r),
      text_field ''queue_destination_root'' (destination_root r),
      bool_field ''queue_update_existing'' (update_existing r),
      number_field ''queue_worker_count'' (worker_count r),
      number_field ''queue_calibration_mib'' (unat (calibration_mib r)),
      text_field ''queue_status_message'' (status_message item),
      key ''queue_end''])"

definition encode_queue :: "TransferQueue \<Rightarrow> ustring list" where
  "encode_queue q =
     [number_field ''queue_next_id'' (unat (next_id q)),
      bool_field ''queue_paused_after_current'' (paused_after_current q),
      number_field ''queue_count'' (length (queue_items q))] @ concat (map encode_queue_item (queue_items q))"

definition decode_queue_entry :: "bool \<Rightarrow> QueuedTransfer line_reader" where
  "decode_queue_entry has_route_mode =
     lbind (expect_line ''queue_begin'') (\<lambda>_.
     lbind (line_field (parse_word_field ''queue_id'')) (\<lambda>id_value.
     lbind (llift (ok_or InvalidData (QueuedTransferId_from_raw id_value))) (\<lambda>qid.
     lbind (line_field (parse_word_field ''queue_kind'')) (\<lambda>code.
     lbind (line_field (parse_usize_field ''queue_resume_stream_count'')) (\<lambda>streams.
     lbind (llift (decode_kind code streams)) (\<lambda>kind.
     lbind (line_field (\<lambda>l. ebind (parse_word_field ''queue_state'' l) decode_queue_state)) (\<lambda>state.
     lbind (if has_route_mode then line_field (\<lambda>l. ebind (parse_word_field ''queue_route_mode'' l) decode_route_mode)
            else lret AutomaticLan) (\<lambda>mode.
     lbind (line_field (parse_address_field ''queue_sender_agent'')) (\<lambda>sender.
     lbind (line_field (parse_address_field ''queue_receiver_agent'')) (\<lambda>receiver.
     lbind (line_field (decode_text_field ''queue_source_root'')) (\<lambda>source.
     lbind (line_field (decode_text_field ''queue_destination_root'')) (\<lambda>destination.
     lbind (line_field (parse_bool_field ''queue_update_existing'')) (\<lambda>update.
     lbind (line_field (parse_usize_field ''queue_worker_count'')) (\<lambda>workers.
     lbind (line_field (parse_word_field ''queue_calibration_mib'')) (\<lambda>calibration.
     lbind (line_field (decode_text_field ''queue_status_message'')) (\<lambda>message.
     lbind (expect_line ''queue_end'') (\<lambda>_.
       lret \<lparr>item_id = qid,
             item_request = \<lparr>sender_agent = sender, receiver_agent = receiver, route_mode = mode, source_root = source,
               destination_root = destination, update_existing = update, worker_count = workers,
               calibration_mib = calibration, transfer_kind = kind\<rparr>,
             preserve_desktop_layout = False, item_state = state, status_message = message\<rparr>)))))))))))))))))"

definition decode_queue :: "bool \<Rightarrow> TransferQueue line_reader" where
  "decode_queue has_route_mode =
     lbind (line_field (parse_word_field ''queue_next_id'')) (\<lambda>nid.
     lbind (line_field (parse_bool_field ''queue_paused_after_current'')) (\<lambda>paused.
     lbind (line_field (parse_usize_field ''queue_count'')) (\<lambda>n.
     lbind (llift (ensure (\<not> n > MAX_QUEUE_ENTRIES) InvalidData)) (\<lambda>_.
     lbind (lines_times n (decode_queue_entry has_route_mode)) (\<lambda>items.
       llift (map_err (\<lambda>_. InvalidData) (queue_from_parts nid paused items None)))))))"

section \<open>The history\<close>

definition encode_result_lines :: "ManagementJobResult \<Rightarrow> ustring list" where
  "encode_result_lines r =
     [number_field ''role'' (unat (role_code (result_role r))),
      number_field ''outcome'' (unat (outcome_code (result_outcome r))),
      number_field ''job_id'' (unat (result_job_id r)),
      number_field ''files'' (unat (result_files r)),
      number_field ''logical_bytes'' (unat (result_logical_bytes r)),
      number_field ''wire_bytes'' (unat (result_wire_bytes r)),
      number_field ''data_stream_count'' (unat (result_stream_count r)),
      text_field ''message'' (result_message r)]"

definition decode_result_lines :: "ManagementJobResult line_reader" where
  "decode_result_lines =
     lbind (line_field (\<lambda>l. ebind (parse_word_field ''role'' l) role_try_from)) (\<lambda>role.
     lbind (line_field (\<lambda>l. ebind (parse_word_field ''outcome'' l) outcome_try_from)) (\<lambda>outcome.
     lbind (line_field (parse_word_field ''job_id'')) (\<lambda>job_id.
     lbind (line_field (parse_word_field ''files'')) (\<lambda>files.
     lbind (line_field (parse_word_field ''logical_bytes'')) (\<lambda>logical.
     lbind (line_field (parse_word_field ''wire_bytes'')) (\<lambda>wire.
     lbind (line_field (parse_word_field ''data_stream_count'')) (\<lambda>streams.
     lbind (line_field (decode_text_field ''message'')) (\<lambda>message.
       lret \<lparr>result_role = role, result_outcome = outcome, result_job_id = job_id, result_files = files,
             result_logical_bytes = logical, result_wire_bytes = wire, result_stream_count = streams,
             result_message = message\<rparr>))))))))"

definition encode_history_entry :: "ManagerHistoryEntry \<Rightarrow> ustring list" where
  "encode_history_entry e =
     (let t = entry_transfer e in
     [key ''history_begin'',
      text_field ''sender_agent'' (display_socket_addr (tr_sender_agent t)),
      number_field ''sender_job_id'' (unat (tr_sender_job_id t)),
      text_field ''receiver_agent'' (display_socket_addr (tr_receiver_agent t)),
      number_field ''receiver_job_id'' (unat (tr_receiver_job_id t)),
      text_field ''receiver_payload'' (display_socket_addr (tr_receiver_payload t)),
      text_field ''source_root'' (tr_source_root t),
      text_field ''destination_root'' (tr_destination_root t),
      bool_field ''update_existing'' (tr_update_existing t),
      number_field ''worker_count'' (tr_worker_count t),
      number_field ''calibration_mib'' (unat (tr_calibration_mib t)),
      key ''sender_result''] @ encode_result_lines (sender_result e) @
     [key ''receiver_result''] @ encode_result_lines (receiver_result e) @ [key ''history_end''])"

definition decode_history_entry :: "ManagerHistoryEntry line_reader" where
  "decode_history_entry =
     lbind (expect_line ''history_begin'') (\<lambda>_.
     lbind (line_field (parse_address_field ''sender_agent'')) (\<lambda>sender.
     lbind (line_field (parse_word_field ''sender_job_id'')) (\<lambda>sender_job.
     lbind (line_field (parse_address_field ''receiver_agent'')) (\<lambda>receiver.
     lbind (line_field (parse_word_field ''receiver_job_id'')) (\<lambda>receiver_job.
     lbind (line_field (parse_address_field ''receiver_payload'')) (\<lambda>payload_at.
     lbind (line_field (decode_text_field ''source_root'')) (\<lambda>source.
     lbind (line_field (decode_text_field ''destination_root'')) (\<lambda>destination.
     lbind (line_field (parse_bool_field ''update_existing'')) (\<lambda>update.
     lbind (line_field (parse_usize_field ''worker_count'')) (\<lambda>workers.
     lbind (line_field (parse_word_field ''calibration_mib'')) (\<lambda>calibration.
     lbind (expect_line ''sender_result'') (\<lambda>_.
     lbind decode_result_lines (\<lambda>sres.
     lbind (expect_line ''receiver_result'') (\<lambda>_.
     lbind decode_result_lines (\<lambda>rres.
     lbind (expect_line ''history_end'') (\<lambda>_.
     lbind (llift (ensure (\<not> (result_role sres \<noteq> JobSender \<or> result_job_id sres \<noteq> sender_job)) InvalidData)) (\<lambda>_.
     lbind (llift (ensure (\<not> (result_role rres \<noteq> JobReceiver \<or> result_job_id rres \<noteq> receiver_job)) InvalidData)) (\<lambda>_.
       lret \<lparr>entry_transfer = \<lparr>tr_sender_agent = sender, tr_sender_job_id = sender_job, tr_receiver_agent = receiver,
               tr_receiver_job_id = receiver_job, tr_receiver_payload = payload_at, tr_source_root = source,
               tr_destination_root = destination, tr_update_existing = update, tr_worker_count = workers,
               tr_calibration_mib = calibration\<rparr>,
             sender_result = sres, receiver_result = rres\<rparr>))))))))))))))))))"

section \<open>The three oldest formats\<close>

definition state_lines :: "ManagerPersistedState \<Rightarrow> ustring list" where
  "state_lines st =
     [STATE_MAGIC_V3,
      text_field ''sender_agent'' (ps_sender_agent st),
      text_field ''receiver_agent'' (ps_receiver_agent st),
      text_field ''source_root'' (ps_source_root st),
      text_field ''destination_root'' (ps_destination_root st),
      number_field ''worker_count'' (ps_worker_count st),
      number_field ''calibration_mib'' (unat (ps_calibration_mib st)),
      bool_field ''update_existing'' (ps_update_existing st),
      number_field ''route_mode'' (unat (route_code (ps_route_mode st)))] @
     encode_queue (ps_queue st) @
     [number_field ''history_count'' (length (ps_history st))] @
     concat (map encode_history_entry (ps_history st)) @ [key ''end'']"

definition encode_state :: "ManagerPersistedState \<Rightarrow> ustring io_result" where
  "encode_state st =
     ebind (validate_state st) (\<lambda>_.
       (let output = push_lines (state_lines st) in
        if str_len output > MAX_STATE_BYTES then Inl InvalidInput else Inr output))"

definition state_version :: "ustring \<Rightarrow> (bool \<times> bool) io_result" where
  "state_version magic =
     (if magic = STATE_MAGIC_V1 then Inr (False, False)
      else if magic = STATE_MAGIC_V2 then Inr (True, False)
      else if magic = STATE_MAGIC_V3 then Inr (True, True)
      else Inl InvalidData)"

definition decode_state_lines :: "ManagerPersistedState line_reader" where
  "decode_state_lines =
     lbind (line_field state_version) (\<lambda>(has_queue, has_route_mode).
     lbind (line_field (decode_text_field ''sender_agent'')) (\<lambda>sender.
     lbind (line_field (decode_text_field ''receiver_agent'')) (\<lambda>receiver.
     lbind (line_field (decode_text_field ''source_root'')) (\<lambda>source.
     lbind (line_field (decode_text_field ''destination_root'')) (\<lambda>destination.
     lbind (line_field (parse_usize_field ''worker_count'')) (\<lambda>workers.
     lbind (line_field (parse_word_field ''calibration_mib'')) (\<lambda>calibration.
     lbind (line_field (parse_bool_field ''update_existing'')) (\<lambda>update.
     lbind (if has_route_mode then line_field (\<lambda>l. ebind (parse_word_field ''route_mode'' l) decode_route_mode)
            else lret AutomaticLan) (\<lambda>mode.
     lbind (if has_queue then decode_queue has_route_mode else lret default_queue) (\<lambda>q.
     lbind (line_field (parse_usize_field ''history_count'')) (\<lambda>n.
     lbind (llift (ensure (\<not> n > MAX_HISTORY_ENTRIES) InvalidData)) (\<lambda>_.
     lbind (lines_times n decode_history_entry) (\<lambda>entries.
     lbind (expect_line ''end'') (\<lambda>_.
       lret \<lparr>ps_sender_agent = sender, ps_receiver_agent = receiver, ps_source_root = source,
             ps_destination_root = destination, ps_worker_count = workers, ps_calibration_mib = calibration,
             ps_update_existing = update, ps_route_mode = mode, ps_queue = q, ps_history = entries\<rparr>))))))))))))))"

definition decode_state :: "ustring \<Rightarrow> ManagerPersistedState io_result" where
  "decode_state s =
     (if str_len s > MAX_STATE_BYTES then Inl InvalidData
      else ebind (decode_state_lines (text_lines s)) (\<lambda>(st, trailing).
        ebind (ensure (\<forall>l \<in> set trailing. str_trim l = []) InvalidData) (\<lambda>_.
        ebind (invalid_data (validate_state st)) (\<lambda>_. Inr st))))"

section \<open>The active binding\<close>

definition display_instance :: "AgentInstanceId \<Rightarrow> ustring" where
  "display_instance v = zero_padded 32 (radix_text True 16 (unat v))"

definition parse_instance :: "ustring \<Rightarrow> AgentInstanceId io_result" where
  "parse_instance s =
     (let v = str_trim s in
      if str_len v \<noteq> 32 then Inl InvalidData
      else ebind (ok_or InvalidData (from_str_radix 16 (2 ^ 128 - 1) v)) (\<lambda>raw.
        ok_or InvalidData (AgentInstanceId_from_raw (of_nat raw))))"

definition instance_field :: "string \<Rightarrow> AgentInstanceId \<Rightarrow> ustring" where
  "instance_field k v = key k @ 32 # display_instance v"

definition parse_instance_field :: "string \<Rightarrow> ustring \<Rightarrow> AgentInstanceId io_result" where
  "parse_instance_field k line = ebind (field_value k line) (\<lambda>v. invalid_data (parse_instance v))"

definition encode_active_binding :: "ActiveQueueBinding option \<Rightarrow> ustring list" where
  "encode_active_binding binding = (case binding of
       None \<Rightarrow> [number_field ''active_binding_present'' 0]
     | Some b \<Rightarrow>
        [number_field ''active_binding_present'' 1,
         number_field ''active_binding_queue_id'' (unat (get_id (queue_id b))),
         instance_field ''active_binding_sender_instance'' (sender_instance_id b),
         number_field ''active_binding_sender_job_id'' (unat (sender_job_id b)),
         instance_field ''active_binding_receiver_instance'' (receiver_instance_id b),
         number_field ''active_binding_receiver_job_id'' (unat (receiver_job_id b))])"

definition decode_active_binding :: "ActiveQueueBinding option line_reader" where
  "decode_active_binding =
     lbind (line_field (parse_bool_field ''active_binding_present'')) (\<lambda>present.
       if \<not> present then lret None
       else
         lbind (line_field (parse_word_field ''active_binding_queue_id'')) (\<lambda>raw.
         lbind (llift (ok_or InvalidData (QueuedTransferId_from_raw raw))) (\<lambda>qid.
         lbind (line_field (parse_instance_field ''active_binding_sender_instance'')) (\<lambda>sender.
         lbind (line_field (parse_word_field ''active_binding_sender_job_id'')) (\<lambda>sender_job.
         lbind (line_field (parse_instance_field ''active_binding_receiver_instance'')) (\<lambda>receiver.
         lbind (line_field (parse_word_field ''active_binding_receiver_job_id'')) (\<lambda>receiver_job.
         llift (invalid_data (ebind (ActiveQueueBinding_new qid sender sender_job receiver receiver_job) (\<lambda>b. Inr (Some b)))))))))))"

section \<open>Formats with the binding and the desktop flags\<close>

definition HISTORY_COUNT_PREFIX :: ustring where "HISTORY_COUNT_PREFIX = key ''history_count'' @ [32]"
definition ACTIVE_BINDING_PRESENT_PREFIX :: ustring where
  "ACTIVE_BINDING_PRESENT_PREFIX = key ''active_binding_present'' @ [32]"
definition QUEUE_UPDATE_EXISTING_PREFIX :: ustring where
  "QUEUE_UPDATE_EXISTING_PREFIX = key ''queue_update_existing'' @ [32]"
definition QUEUE_PRESERVE_DESKTOP_LAYOUT_PREFIX :: ustring where
  "QUEUE_PRESERVE_DESKTOP_LAYOUT_PREFIX = key ''queue_preserve_desktop_layout'' @ [32]"

definition encode_state_with_v4 :: "ManagerPersistedState \<Rightarrow> ustring io_result" where
  "encode_state_with_v4 st =
     ebind (encode_state st) (\<lambda>output.
     ebind (ensure (starts_with output STATE_MAGIC_V3) OtherError) (\<lambda>_.
     (let replaced = STATE_MAGIC_V4 @ drop (length STATE_MAGIC_V3) output in
     ebind (ok_or OtherError (str_find replaced (10 # HISTORY_COUNT_PREFIX))) (\<lambda>index.
     (let inserted = take (index + 1) replaced @ push_lines (encode_active_binding (active_binding (ps_queue st))) @
            drop (index + 1) replaced in
      if str_len inserted > MAX_STATE_BYTES then Inl InvalidInput else Inr inserted)))))"

text \<open>The loop that adds a flag line after every \<^verbatim>\<open>queue_update_existing\<close> line; the result keeps the items left over.\<close>

fun insert_layout_flags :: "ustring list \<Rightarrow> QueuedTransfer list \<Rightarrow> (ustring list \<times> QueuedTransfer list) io_result" where
  "insert_layout_flags [] items = Inr ([], items)"
| "insert_layout_flags (l # ls) items =
     (if starts_with l QUEUE_UPDATE_EXISTING_PREFIX then
        (case items of [] \<Rightarrow> Inl OtherError
         | item # rest \<Rightarrow> ebind (insert_layout_flags ls rest) (\<lambda>(ls', left).
             Inr (l # bool_field ''queue_preserve_desktop_layout'' (preserve_desktop_layout item) # ls', left)))
      else ebind (insert_layout_flags ls items) (\<lambda>(ls', left). Inr (l # ls', left)))"

definition encode_state_with_v5 :: "ManagerPersistedState \<Rightarrow> ustring io_result" where
  "encode_state_with_v5 st =
     ebind (encode_state_with_v4 st) (\<lambda>encoded_v4.
     (case text_lines encoded_v4 of [] \<Rightarrow> Inl OtherError
      | first # rest \<Rightarrow>
          ebind (ensure (first = STATE_MAGIC_V4) OtherError) (\<lambda>_.
          ebind (insert_layout_flags (STATE_MAGIC_V5 # rest) (queue_items (ps_queue st))) (\<lambda>(lines, left).
          ebind (ensure (left = []) OtherError) (\<lambda>_.
          (let output = join_nl lines @ [10] in
           if str_len output > MAX_STATE_BYTES then Inl InvalidInput else Inr output))))))"

fun position_where :: "('a \<Rightarrow> bool) \<Rightarrow> 'a list \<Rightarrow> nat option" where
  "position_where P [] = None"
| "position_where P (x # xs) = (if P x then Some 0 else map_option Suc (position_where P xs))"

definition decode_state_with_v4 :: "ustring \<Rightarrow> ManagerPersistedState io_result" where
  "decode_state_with_v4 s =
     (if str_len s > MAX_STATE_BYTES then Inl InvalidData
      else (case text_lines s of [] \<Rightarrow> Inl UnexpectedEof
      | first # rest \<Rightarrow>
        if first \<noteq> STATE_MAGIC_V4 then decode_state s
        else (let lines = first # rest in
          ebind (ok_or InvalidData (position_where (\<lambda>l. starts_with l HISTORY_COUNT_PREFIX) lines)) (\<lambda>history_index.
          (case filter (\<lambda>i. starts_with (lines ! i) ACTIVE_BINDING_PRESENT_PREFIX) [0..<history_index] of
             [binding_index] \<Rightarrow>
               ebind (ensure (binding_index \<noteq> 0) InvalidData) (\<lambda>_.
               (let preceding = lines ! (binding_index - 1) in
               ebind (ensure (\<not> (preceding \<noteq> key ''queue_end'' \<and> \<not> starts_with preceding (key ''queue_count'' @ [32]))) InvalidData) (\<lambda>_.
               ebind (decode_active_binding (text_lines
                   (join_nl (take (history_index - binding_index) (drop binding_index lines)) @ [10]))) (\<lambda>(binding, trailing).
               ebind (ensure (\<forall>l \<in> set trailing. str_trim l = []) InvalidData) (\<lambda>_.
               (let kept = take binding_index lines @ drop history_index lines;
                    legacy_text = join_nl (kept[0 := STATE_MAGIC_V3]) @ [10] in
               ebind (decode_state legacy_text) (\<lambda>st.
               ebind (case binding of None \<Rightarrow> Inr st
                      | Some b \<Rightarrow> ebind (map_err (\<lambda>_. InvalidData) (set_active_binding b (ps_queue st)))
                                     (\<lambda>q. Inr (st\<lparr>ps_queue := q\<rparr>))) (\<lambda>st'.
               ebind (invalid_data (validate_state st')) (\<lambda>_. Inr st')))))))))
           | _ \<Rightarrow> Inl InvalidData)))))"

text \<open>The loop over the lines of the newest format: the flag lines are parsed, the others kept.\<close>

fun split_layout_flags :: "ustring list \<Rightarrow> (ustring list \<times> bool list) io_result" where
  "split_layout_flags [] = Inr ([], [])"
| "split_layout_flags (l # ls) =
     (if starts_with l QUEUE_PRESERVE_DESKTOP_LAYOUT_PREFIX then
        ebind (parse_bool_field ''queue_preserve_desktop_layout'' l) (\<lambda>flag.
        ebind (split_layout_flags ls) (\<lambda>(ls', flags). Inr (ls', flag # flags)))
      else ebind (split_layout_flags ls) (\<lambda>(ls', flags). Inr (l # ls', flags)))"

definition set_layout_flags :: "bool list \<Rightarrow> QueuedTransfer list \<Rightarrow> QueuedTransfer list" where
  "set_layout_flags flags items = map (\<lambda>(item, f). item\<lparr>preserve_desktop_layout := f\<rparr>) (zip items flags)"

definition decode_state_with_v5 :: "ustring \<Rightarrow> ManagerPersistedState io_result" where
  "decode_state_with_v5 s =
     (if str_len s > MAX_STATE_BYTES then Inl InvalidData
      else (case text_lines s of [] \<Rightarrow> Inl UnexpectedEof
      | first # rest \<Rightarrow>
        if first \<noteq> STATE_MAGIC_V5 then decode_state_with_v4 s
        else
          ebind (split_layout_flags rest) (\<lambda>(legacy, flags).
          ebind (decode_state_with_v4 (join_nl (STATE_MAGIC_V4 # legacy) @ [10])) (\<lambda>st.
          ebind (ensure (length flags = length (queue_items (ps_queue st))) InvalidData) (\<lambda>_.
          (let st' = st\<lparr>ps_queue := (ps_queue st)\<lparr>queue_items := set_layout_flags flags (queue_items (ps_queue st))\<rparr>\<rparr> in
          ebind (invalid_data (validate_state st')) (\<lambda>_. Inr st')))))))"

section \<open>Reading back fields\<close>

lemma key_space: "32 \<in> set (key k) \<longleftrightarrow> CHR '' '' \<in> set k"
proof -
  have "(32::nat) = of_char CHR '' ''" by simp
  then show ?thesis unfolding key_def by (auto simp del: of_char_Char)
qed

lemma key_inj: "key a = key b \<longleftrightarrow> a = b"
proof -
  have "inj (of_char :: char \<Rightarrow> nat)" by (rule inj_on_inverseI [where g = char_of]) simp
  then show ?thesis unfolding key_def by (metis inj_map_eq_map)
qed

lemma field_value_key: "CHR '' '' \<notin> set k \<Longrightarrow> field_value k (key k @ 32 # v) = Inr v"
  by (simp add: field_value_def split_once_append key_space)

lemma parse_word_field_number [simp]:
  "CHR '' '' \<notin> set k \<Longrightarrow> parse_word_field k (number_field k (unat w)) = Inr w"
  by (simp add: parse_word_field_def number_field_def field_value_key)

lemma parse_usize_field_number [simp]:
  "CHR '' '' \<notin> set k \<Longrightarrow> n \<le> usize_max \<Longrightarrow> parse_usize_field k (number_field k n) = Inr n"
  by (simp add: parse_usize_field_def number_field_def field_value_key)

lemma parse_bool_field_bool [simp]:
  "CHR '' '' \<notin> set k \<Longrightarrow> parse_bool_field k (bool_field k b) = Inr b"
  using parse_word_field_number [of k "if b then 1 else 0 :: u8"]
  by (cases b) (simp_all add: parse_bool_field_def bool_field_def)

lemma decode_text_field_text [simp]:
  "CHR '' '' \<notin> set k \<Longrightarrow> is_text v \<Longrightarrow> str_len v \<le> MAX_TEXT_BYTES \<Longrightarrow> decode_text_field k (text_field k v) = Inr v"
  by (simp add: decode_text_field_def text_field_def field_value_key hex_round_trip from_utf8_as_bytes)

lemma parse_address_field_text [simp]:
  assumes "CHR '' '' \<notin> set k"
  shows "parse_address_field k (text_field k (display_socket_addr a)) = Inr (without_flowinfo a)"
proof -
  have "str_len (display_socket_addr a) \<le> MAX_TEXT_BYTES"
    using str_len_ascii [OF ascii_socket_addr [of a]] length_socket_addr [of a] by (simp add: MAX_TEXT_BYTES_def)
  with assms show ?thesis
    by (simp add: parse_address_field_def ascii_text_is_text ascii_socket_addr parse_display_socket_addr)
qed

lemma lbind_line_field [simp]: "lbind (line_field p) f (l # ls) = ebind (p l) (\<lambda>v. f v ls)"
  by (cases "p l") (simp_all add: lbind_def line_field_def required_line_def llift_def)

lemma lbind_llift [simp]: "lbind (llift r) f ls = ebind r (\<lambda>v. f v ls)"
  by (cases r) (simp_all add: lbind_def llift_def)

lemma lbind_expect_line [simp]: "lbind (expect_line k) f (l # ls) = (if l = key k then f () ls else Inl InvalidData)"
  by (simp add: lbind_def expect_line_def required_line_def llift_def)

lemma lbind_lret [simp]: "lbind (lret a) f = f a"
  by (simp add: lbind_def lret_def fun_eq_iff)

lemma lret_apply [simp]: "lret a ls = Inr (a, ls)"
  by (simp add: lret_def)

lemma lbind_eq: "m ls = Inr (a, ls') \<Longrightarrow> lbind m f ls = f a ls'"
  by (simp add: lbind_def)

lemma lines_times_encoded:
  assumes "\<And>x rest. x \<in> set xs \<Longrightarrow> m (enc x @ rest) = Inr (g x, rest)"
  shows "lines_times (length xs) m (concat (map enc xs) @ rest) = Inr (map g xs, rest)"
  using assms by (induction xs arbitrary: rest) (auto simp: lbind_eq)

section \<open>What can be written\<close>

text \<open>
  What the Rust types guarantee of a state: strings are UTF-8, IDs and process identities are not zero, a
  \<^verbatim>\<open>usize\<close> is at most 64 bits wide; and addresses without IPv6 flow information.
\<close>

definition item_representable :: "QueuedTransfer \<Rightarrow> bool" where
  "item_representable item \<longleftrightarrow>
     (let r = item_request item in get_id (item_id item) \<noteq> 0 \<and> is_text (source_root r) \<and> is_text (destination_root r) \<and>
        is_text (status_message item) \<and> without_flowinfo (sender_agent r) = sender_agent r \<and>
        without_flowinfo (receiver_agent r) = receiver_agent r \<and> worker_count r \<le> usize_max \<and>
        snd (kind_code (transfer_kind r)) \<le> usize_max)"

definition binding_representable :: "ActiveQueueBinding \<Rightarrow> bool" where
  "binding_representable b \<longleftrightarrow> get_id (queue_id b) \<noteq> 0 \<and> sender_instance_id b \<noteq> 0 \<and> receiver_instance_id b \<noteq> 0 \<and>
     sender_job_id b \<noteq> 0 \<and> receiver_job_id b \<noteq> 0"

definition entry_representable :: "ManagerHistoryEntry \<Rightarrow> bool" where
  "entry_representable e \<longleftrightarrow>
     (let t = entry_transfer e in is_text (tr_source_root t) \<and> is_text (tr_destination_root t) \<and>
        without_flowinfo (tr_sender_agent t) = tr_sender_agent t \<and>
        without_flowinfo (tr_receiver_agent t) = tr_receiver_agent t \<and>
        without_flowinfo (tr_receiver_payload t) = tr_receiver_payload t \<and> tr_worker_count t \<le> usize_max \<and>
        is_text (result_message (sender_result e)) \<and> is_text (result_message (receiver_result e)))"

definition state_representable :: "ManagerPersistedState \<Rightarrow> bool" where
  "state_representable st \<longleftrightarrow>
     is_text (ps_sender_agent st) \<and> is_text (ps_receiver_agent st) \<and> is_text (ps_source_root st) \<and>
     is_text (ps_destination_root st) \<and> ps_worker_count st \<le> usize_max \<and>
     (\<forall>item \<in> set (queue_items (ps_queue st)). item_representable item) \<and>
     pred_option binding_representable (active_binding (ps_queue st)) \<and>
     (\<forall>e \<in> set (ps_history st). entry_representable e)"

lemma decode_kind_code [simp]: "k \<noteq> Resume 0 \<Longrightarrow> decode_kind (fst (kind_code k)) (snd (kind_code k)) = Inr k"
  by (cases k) (auto simp: decode_kind_def)

lemma decode_queue_state_code [simp]: "decode_queue_state (queue_state_code s) = Inr s"
  by (cases s) (simp_all add: decode_queue_state_def)

lemma decode_route_mode_code [simp]: "decode_route_mode (route_code m) = Inr m"
  by (simp add: decode_route_mode_def route_from_code_iff ok_or_Inr)

lemma item_validate_Inr:
  assumes "item_validate item = Inr ()"
  shows "str_len (source_root (item_request item)) \<le> MAX_TEXT_BYTES" "str_len (destination_root (item_request item)) \<le> MAX_TEXT_BYTES"
    "str_len (status_message item) \<le> MAX_TEXT_BYTES" "transfer_kind (item_request item) \<noteq> Resume 0"
  using assms by (auto simp: item_validate_def request_validate_def validate_required_text_def validate_optional_text_def
      result_simps MAX_TEXT_BYTES_def MAX_QUEUE_TEXT_BYTES_def split: if_splits)

lemma decode_encode_queue_item:
  assumes "item_representable item" "item_validate item = Inr ()"
  shows "decode_queue_entry True (encode_queue_item item @ rest) = Inr (item\<lparr>preserve_desktop_layout := False\<rparr>, rest)"
  using assms(1) item_validate_Inr [OF assms(2)]
  by (cases item; cases "item_id item")
    (simp add: decode_queue_entry_def encode_queue_item_def item_representable_def Let_def QueuedTransferId_from_raw_def)

lemma decode_encode_result_lines:
  "is_text (result_message r) \<Longrightarrow> str_len (result_message r) \<le> MAX_TEXT_BYTES \<Longrightarrow>
   decode_result_lines (encode_result_lines r @ rest) = Inr (r, rest)"
  by (cases r) (simp add: decode_result_lines_def encode_result_lines_def)

lemma state_text_ok_Inr: "state_text_ok s = Inr u \<longleftrightarrow> str_len s \<le> MAX_TEXT_BYTES"
  by (simp add: state_text_ok_def)

lemma decode_encode_history_entry:
  assumes "entry_representable e" "validate_history_entry e = Inr ()"
  shows "decode_history_entry (encode_history_entry e @ rest) = Inr (e, rest)"
proof -
  have valid: "str_len (tr_source_root (entry_transfer e)) \<le> MAX_TEXT_BYTES"
    "str_len (tr_destination_root (entry_transfer e)) \<le> MAX_TEXT_BYTES"
    "str_len (result_message (sender_result e)) \<le> MAX_TEXT_BYTES"
    "str_len (result_message (receiver_result e)) \<le> MAX_TEXT_BYTES"
    "result_role (sender_result e) = JobSender" "result_job_id (sender_result e) = tr_sender_job_id (entry_transfer e)"
    "result_role (receiver_result e) = JobReceiver" "result_job_id (receiver_result e) = tr_receiver_job_id (entry_transfer e)"
    using assms(2) by (simp_all add: validate_history_entry_def Let_def result_simps state_text_ok_Inr)
  show ?thesis
    using assms(1) valid decode_encode_result_lines [of "sender_result e"] decode_encode_result_lines [of "receiver_result e"]
    by (cases e; cases "entry_transfer e")
      (simp add: decode_history_entry_def encode_history_entry_def entry_representable_def Let_def lbind_eq)
qed

lemma efold_unit_Inr: "efold (\<lambda>_ x. f x) () xs = Inr () \<longleftrightarrow> (\<forall>x \<in> set xs. f x = Inr ())"
  by (induction xs) (auto simp: result_simps)

lemma validate_state_iff:
  "validate_state st = Inr () \<longleftrightarrow>
     ps_worker_count st \<noteq> 0 \<and> ps_calibration_mib st \<noteq> 0 \<and> length (ps_history st) \<le> MAX_HISTORY_ENTRIES \<and>
     str_len (ps_sender_agent st) \<le> MAX_TEXT_BYTES \<and> str_len (ps_receiver_agent st) \<le> MAX_TEXT_BYTES \<and>
     str_len (ps_source_root st) \<le> MAX_TEXT_BYTES \<and> str_len (ps_destination_root st) \<le> MAX_TEXT_BYTES \<and>
     queue_validate (ps_queue st) = Inr () \<and> (\<forall>e \<in> set (ps_history st). validate_history_entry e = Inr ())"
  by (auto simp: validate_state_def result_simps state_text_ok_Inr efold_unit_Inr not_less)

text \<open>The state without what the third format does not record.\<close>

definition plain_queue :: "TransferQueue \<Rightarrow> TransferQueue" where
  "plain_queue q = q\<lparr>queue_items := map (preserve_desktop_layout_update (\<lambda>_. False)) (queue_items q), active_binding := None\<rparr>"

definition plain_state :: "ManagerPersistedState \<Rightarrow> ManagerPersistedState" where
  "plain_state st = st\<lparr>ps_queue := plain_queue (ps_queue st)\<rparr>"

lemma item_validate_layout [simp]: "item_validate (item\<lparr>preserve_desktop_layout := b\<rparr>) = item_validate item"
  by (simp add: item_validate_def)

lemma queue_valid_parts:
  "queue_validate q = Inr () \<longleftrightarrow>
     next_id q \<noteq> 0 \<and> length (queue_items q) \<le> MAX_QUEUE_ENTRIES \<and>
     (\<exists>ids. efold (validate_item_step (next_id q)) {||} (queue_items q) = Inr ids) \<and>
     (\<forall>b. active_binding q = Some b \<longrightarrow> validate_for_queue b q = Inr ())"
  by (auto simp: queue_validate_def result_simps split: option.splits)

lemma efold_items_valid:
  "efold (validate_item_step n) S items = Inr ids \<Longrightarrow> item \<in> set items \<Longrightarrow> item_validate item = Inr ()"
  by (induction items arbitrary: S) (auto simp: result_simps validate_item_step_def split: if_splits)

lemma efold_items_layout:
  "efold (validate_item_step n) S (map (preserve_desktop_layout_update f) items) = efold (validate_item_step n) S items"
proof -
  have "validate_item_step n S (preserve_desktop_layout_update f item) = validate_item_step n S item" for S item
    by (simp add: validate_item_step_def item_validate_def)
  then show ?thesis by (simp add: efold_map)
qed

lemma plain_queue_valid: "queue_validate q = Inr () \<Longrightarrow> queue_validate (plain_queue q) = Inr ()"
  by (simp add: queue_valid_parts plain_queue_def efold_items_layout)

lemma decode_encode_queue:
  assumes "queue_validate q = Inr ()" "\<forall>item \<in> set (queue_items q). item_representable item"
  shows "decode_queue True (encode_queue q @ rest) = Inr (plain_queue q, rest)"
proof -
  have len: "length (queue_items q) \<le> MAX_QUEUE_ENTRIES" using assms(1) by (simp add: queue_valid_parts)
  then have "length (queue_items q) \<le> usize_max" by (simp add: MAX_QUEUE_ENTRIES_def usize_max_def)
  moreover have "\<forall>item \<in> set (queue_items q). item_validate item = Inr ()"
    using assms(1) by (auto simp: queue_valid_parts dest: efold_items_valid)
  then have "lines_times (length (queue_items q)) (decode_queue_entry True) (concat (map encode_queue_item (queue_items q)) @ rest) =
    Inr (map (preserve_desktop_layout_update (\<lambda>_. False)) (queue_items q), rest)"
    using assms(2) by (intro lines_times_encoded) (simp add: decode_encode_queue_item)
  moreover have "queue_from_parts (next_id q) (paused_after_current q)
      (map (preserve_desktop_layout_update (\<lambda>_. False)) (queue_items q)) None = Inr (plain_queue q)"
    using plain_queue_valid [OF assms(1)] by (cases q) (simp add: queue_from_parts_def plain_queue_def)
  ultimately show ?thesis using len
    by (simp add: decode_queue_def encode_queue_def lbind_eq llift_def)
qed

lemma decode_state_lines_encoded:
  assumes "validate_state st = Inr ()" "state_representable st"
  shows "decode_state_lines (state_lines st @ rest) = Inr (plain_state st, rest)"
proof -
  note valid = assms(1) [unfolded validate_state_iff]
  have len: "length (ps_history st) \<le> MAX_HISTORY_ENTRIES" "length (ps_history st) \<le> usize_max"
    using valid by (simp_all add: MAX_HISTORY_ENTRIES_def usize_max_def)
  have "lines_times (length (ps_history st)) decode_history_entry (concat (map encode_history_entry (ps_history st)) @ rest) =
    Inr (map id (ps_history st), rest)" for rest
    using valid assms(2) by (intro lines_times_encoded) (simp add: decode_encode_history_entry state_representable_def)
  moreover have "decode_queue True (encode_queue (ps_queue st) @ rest) = Inr (plain_queue (ps_queue st), rest)" for rest
    using valid assms(2) by (intro decode_encode_queue) (simp_all add: state_representable_def)
  moreover have "state_version STATE_MAGIC_V3 = Inr (True, True)"
    by (simp add: state_version_def STATE_MAGIC_V1_def STATE_MAGIC_V2_def STATE_MAGIC_V3_def key_inj)
  ultimately show ?thesis using valid assms(2) len
    by (cases st) (simp add: decode_state_lines_def state_lines_def lbind_eq state_representable_def plain_state_def)
qed

section \<open>Lines and their keys\<close>

lemma plain_key:
  assumes "CHR 0x0A \<notin> set k" "CHR 0x0D \<notin> set k"
  shows "plain_line (key k)"
proof -
  have nl: "(10::nat) = of_char CHR 0x0A" and cr: "(13::nat) = of_char CHR 0x0D" by simp_all
  have "of_char c \<noteq> (10::nat) \<and> of_char c \<noteq> (13::nat)" if "c \<in> set k" for c
    unfolding nl cr of_char_eq_iff using that assms by blast
  then show ?thesis by (auto simp: key_def plain_line_def)
qed

lemma ascii_key: "\<forall>c \<in> set k. of_char c < (0x80 :: nat) \<Longrightarrow> ascii_text (key k)"
  by (auto simp: key_def ascii_text_def)

lemma plain_display_instance: "plain_line (display_instance v)"
  using alnum_radix_text [of 16] by (auto simp: display_instance_def zero_padded_def alnum_def intro!: plain_line_alnum)

lemma plain_fields:
  "plain_line (text_field k v) \<longleftrightarrow> plain_line (key k)" "plain_line (number_field k n) \<longleftrightarrow> plain_line (key k)"
  "plain_line (bool_field k b) \<longleftrightarrow> plain_line (key k)" "plain_line (instance_field k i) \<longleftrightarrow> plain_line (key k)"
  by (simp_all add: text_field_def number_field_def bool_field_def instance_field_def plain_display_instance)

lemma ascii_display_instance: "ascii_text (display_instance v)"
  using alnum_radix_text [of 16] by (auto simp: display_instance_def zero_padded_def alnum_def intro!: ascii_alnum)

lemma ascii_fields:
  "ascii_text (text_field k v) \<longleftrightarrow> ascii_text (key k)" "ascii_text (number_field k n) \<longleftrightarrow> ascii_text (key k)"
  "ascii_text (bool_field k b) \<longleftrightarrow> ascii_text (key k)" "ascii_text (instance_field k i) \<longleftrightarrow> ascii_text (key k)"
  by (simp_all add: text_field_def number_field_def bool_field_def instance_field_def ascii_display_instance)

lemmas field_shape = plain_fields plain_key ascii_fields ascii_key

definition line_key :: "ustring \<Rightarrow> ustring" where
  "line_key l = takeWhile (\<lambda>c. c \<noteq> 32) l"

lemma takeWhile_key: "CHR '' '' \<notin> set k \<Longrightarrow> takeWhile (\<lambda>c. c \<noteq> 32) (key k @ 32 # v) = key k"
  using key_space [of k] by (subst takeWhile_append2) auto

lemma line_key_fields:
  assumes "CHR '' '' \<notin> set k"
  shows "line_key (text_field k v) = key k" "line_key (number_field k n) = key k" "line_key (bool_field k b) = key k"
    "line_key (instance_field k i) = key k" "line_key (key k) = key k"
  using assms takeWhile_key [OF assms] key_space [of k]
  by (auto simp: line_key_def text_field_def number_field_def bool_field_def instance_field_def takeWhile_eq_all_conv)

lemma starts_with_key:
  assumes "CHR '' '' \<notin> set p" "starts_with l (key p @ [32])"
  shows "line_key l = key p"
proof -
  obtain v where "l = (key p @ [32]) @ v" using assms(2) by (metis starts_with_def append_take_drop_id)
  then show ?thesis using takeWhile_key [OF assms(1), of v] by (simp add: line_key_def)
qed

lemma starts_with_field:
  "starts_with (number_field p n) (key p @ [32])" "starts_with (bool_field p b) (key p @ [32])"
  by (simp_all add: number_field_def bool_field_def starts_with_def)

text \<open>Lines whose keys are among \<open>ks\<close>.\<close>

definition keyed :: "string set \<Rightarrow> ustring list \<Rightarrow> bool" where
  "keyed ks ls \<longleftrightarrow> (\<forall>l \<in> set ls. plain_line l \<and> ascii_text l \<and> line_key l \<in> key ` ks)"

lemma keyed_append [simp]: "keyed ks (xs @ ys) \<longleftrightarrow> keyed ks xs \<and> keyed ks ys"
  by (auto simp: keyed_def)

lemma keyed_Nil [simp]: "keyed ks []"
  by (simp add: keyed_def)

lemma keyed_Cons: "keyed ks (l # ls) \<longleftrightarrow> plain_line l \<and> ascii_text l \<and> line_key l \<in> key ` ks \<and> keyed ks ls"
  by (auto simp: keyed_def)

lemma keyed_concat: "(\<And>x. x \<in> set xs \<Longrightarrow> keyed ks (f x)) \<Longrightarrow> keyed ks (concat (map f xs))"
  by (induction xs) auto

lemma keyed_mono: "keyed ks ls \<Longrightarrow> ks \<subseteq> ks' \<Longrightarrow> keyed ks' ls"
  by (auto simp: keyed_def)

lemma keyed_no_prefix: "keyed ks ls \<Longrightarrow> p \<notin> ks \<Longrightarrow> CHR '' '' \<notin> set p \<Longrightarrow> l \<in> set ls \<Longrightarrow> \<not> starts_with l (key p @ [32])"
  using starts_with_key [of p l] key_inj by (auto simp: keyed_def)

definition head_lines :: "ManagerPersistedState \<Rightarrow> ustring list" where
  "head_lines st = take 8 (tl (state_lines st)) @ encode_queue (ps_queue st)"

definition tail_lines :: "ManagerPersistedState \<Rightarrow> ustring list" where
  "tail_lines st = number_field ''history_count'' (length (ps_history st)) #
     concat (map encode_history_entry (ps_history st)) @ [key ''end'']"

definition item_keys :: "string set" where
  "item_keys = {''queue_begin'', ''queue_id'', ''queue_kind'', ''queue_resume_stream_count'', ''queue_state'', ''queue_route_mode'',
     ''queue_sender_agent'', ''queue_receiver_agent'', ''queue_source_root'', ''queue_destination_root'', ''queue_worker_count'',
     ''queue_calibration_mib'', ''queue_status_message'', ''queue_end''}"

definition head_keys :: "string set" where
  "head_keys = {''sender_agent'', ''receiver_agent'', ''source_root'', ''destination_root'', ''worker_count'', ''calibration_mib'',
     ''update_existing'', ''route_mode'', ''queue_next_id'', ''queue_paused_after_current'', ''queue_count''}"

definition tail_keys :: "string set" where
  "tail_keys = {''history_count'', ''history_begin'', ''sender_agent'', ''sender_job_id'', ''receiver_agent'', ''receiver_job_id'',
     ''receiver_payload'', ''source_root'', ''destination_root'', ''update_existing'', ''worker_count'', ''calibration_mib'',
     ''sender_result'', ''receiver_result'', ''history_end'', ''role'', ''outcome'', ''job_id'', ''files'', ''logical_bytes'',
     ''wire_bytes'', ''data_stream_count'', ''message'', ''end''}"

definition binding_keys :: "string set" where
  "binding_keys = {''active_binding_queue_id'', ''active_binding_sender_instance'', ''active_binding_sender_job_id'',
     ''active_binding_receiver_instance'', ''active_binding_receiver_job_id''}"

lemma state_lines_split: "state_lines st = STATE_MAGIC_V3 # head_lines st @ tail_lines st"
  by (simp add: state_lines_def head_lines_def tail_lines_def)

definition item_head :: "QueuedTransfer \<Rightarrow> ustring list" where "item_head item = take 10 (encode_queue_item item)"
definition item_tail :: "QueuedTransfer \<Rightarrow> ustring list" where "item_tail item = drop 11 (encode_queue_item item)"

lemma encode_queue_item_split:
  "encode_queue_item item = item_head item @ bool_field ''queue_update_existing'' (update_existing (item_request item)) # item_tail item"
  by (simp add: item_head_def item_tail_def encode_queue_item_def Let_def)

lemma keyed_item: "keyed item_keys (item_head item)" "keyed item_keys (item_tail item)"
  by (simp_all add: item_head_def item_tail_def encode_queue_item_def Let_def keyed_Cons field_shape
      line_key_fields item_keys_def)

lemma keyed_item_all: "keyed (insert ''queue_update_existing'' item_keys) (encode_queue_item item)"
  using keyed_item [of item, THEN keyed_mono, of "insert ''queue_update_existing'' item_keys"]
  by (auto simp: encode_queue_item_split keyed_Cons field_shape line_key_fields)

lemma keyed_head: "keyed (insert ''queue_update_existing'' (head_keys \<union> item_keys)) (head_lines st)"
proof -
  have "keyed (insert ''queue_update_existing'' (head_keys \<union> item_keys)) (encode_queue_item item)" for item
    by (rule keyed_mono [OF keyed_item_all]) auto
  then have "keyed (insert ''queue_update_existing'' (head_keys \<union> item_keys)) (concat (map encode_queue_item items))" for items
    by (rule keyed_concat)
  then show ?thesis
    by (simp add: head_lines_def state_lines_def encode_queue_def keyed_Cons field_shape line_key_fields
        head_keys_def)
qed

lemma keyed_tail: "keyed tail_keys (tail_lines st)"
proof -
  have "keyed tail_keys (encode_history_entry e)" for e
    by (simp add: encode_history_entry_def encode_result_lines_def Let_def keyed_Cons field_shape
        line_key_fields tail_keys_def)
  then have "keyed tail_keys (concat (map encode_history_entry es))" for es by (rule keyed_concat)
  then show ?thesis
    by (simp add: tail_lines_def keyed_Cons field_shape line_key_fields) (simp add: tail_keys_def)
qed

lemma binding_lines_split:
  "encode_active_binding b = bool_field ''active_binding_present'' (b \<noteq> None) # tl (encode_active_binding b)"
  by (simp add: encode_active_binding_def bool_field_def split: option.split)

lemma keyed_binding: "keyed binding_keys (tl (encode_active_binding b))"
  by (simp add: encode_active_binding_def keyed_Cons field_shape line_key_fields binding_keys_def
      split: option.split)

lemma keyed_plain: "keyed ks ls \<Longrightarrow> \<forall>l \<in> set ls. plain_line l"
  by (simp add: keyed_def)

lemma keyed_ascii: "keyed ks ls \<Longrightarrow> \<forall>l \<in> set ls. ascii_text l"
  by (simp add: keyed_def)

lemma ascii_push_lines: "\<forall>l \<in> set ls. ascii_text l \<Longrightarrow> ascii_text (push_lines ls)"
  by (induction ls) simp_all

section \<open>Round trip of the newest format\<close>

lemma starts_with_line: "10 \<notin> set p \<Longrightarrow> starts_with (x @ 10 # r) p \<longleftrightarrow> starts_with x p"
proof (induction x arbitrary: p)
  case Nil
  then show ?case by (cases p) (auto simp: starts_with_def)
next
  case (Cons c x)
  then show ?case by (cases p) (auto simp: starts_with_def)
qed

lemma find_in_line:
  "10 \<notin> set x \<Longrightarrow> find_from i (10 # p) (x @ 10 # r) =
     (if starts_with r p then Some (i + length x) else find_from (Suc (i + length x)) (10 # p) r)"
  by (induction x arbitrary: i) (auto simp: starts_with_def)

lemma find_line:
  assumes "10 \<notin> set p" "starts_with l p"
  shows "10 \<notin> set x \<Longrightarrow> \<forall>y \<in> set xs. 10 \<notin> set y \<and> \<not> starts_with y p \<Longrightarrow>
    find_from i (10 # p) (push_lines (x # xs) @ push_lines (l # post)) = Some (i + length (push_lines (x # xs)) - 1)"
proof (induction xs arbitrary: x i)
  case Nil
  have "starts_with (l @ 10 # push_lines post) p" using assms by (simp add: starts_with_line)
  with Nil show ?case by (simp add: find_in_line)
next
  case (Cons y ys)
  have no: "\<not> starts_with (y @ 10 # r) p" for r using Cons.prems assms(1) by (simp add: starts_with_line)
  have "find_from (Suc (i + length x)) (10 # p) (push_lines (y # ys) @ push_lines (l # post)) =
      Some (Suc (i + length x) + length (push_lines (y # ys)) - 1)"
    using Cons by (intro Cons.IH) auto
  then show ?case using Cons.prems(1) no by (simp add: find_in_line)
qed

lemma magic_lengths: "length STATE_MAGIC_V3 = 5" "length STATE_MAGIC_V4 = 5"
  by (simp_all add: STATE_MAGIC_V3_def STATE_MAGIC_V4_def key_def)

lemma plain_magic: "plain_line STATE_MAGIC_V3" "plain_line STATE_MAGIC_V4" "plain_line STATE_MAGIC_V5"
  by (simp_all add: STATE_MAGIC_V3_def STATE_MAGIC_V4_def STATE_MAGIC_V5_def plain_key)

lemma plain_no_newline: "plain_line l \<Longrightarrow> 10 \<notin> set l"
  by (auto simp: plain_line_def)

lemma head_no_history: "l \<in> set (head_lines st) \<Longrightarrow> \<not> starts_with l HISTORY_COUNT_PREFIX"
  unfolding HISTORY_COUNT_PREFIX_def
  by (rule keyed_no_prefix [OF keyed_head]) (simp_all add: head_keys_def item_keys_def)

definition v4_lines :: "ManagerPersistedState \<Rightarrow> ustring list" where
  "v4_lines st = STATE_MAGIC_V4 # head_lines st @ encode_active_binding (active_binding (ps_queue st)) @ tail_lines st"

lemma tail_lines_history: "starts_with (hd (tail_lines st)) HISTORY_COUNT_PREFIX" "tail_lines st = hd (tail_lines st) # tl (tail_lines st)"
  by (simp_all add: tail_lines_def HISTORY_COUNT_PREFIX_def starts_with_field)

lemma find_history:
  "str_find (push_lines (STATE_MAGIC_V4 # head_lines st @ tail_lines st)) (10 # HISTORY_COUNT_PREFIX) =
     Some (length (push_lines (STATE_MAGIC_V4 # head_lines st)) - 1)"
proof -
  have "10 \<notin> set HISTORY_COUNT_PREFIX"
    using plain_no_newline [OF plain_key [of "''history_count''"]] by (simp add: HISTORY_COUNT_PREFIX_def)
  moreover have "\<forall>y \<in> set (head_lines st). 10 \<notin> set y \<and> \<not> starts_with y HISTORY_COUNT_PREFIX"
    using keyed_plain [OF keyed_head] plain_no_newline head_no_history by blast
  ultimately show ?thesis
    using find_line [of HISTORY_COUNT_PREFIX "hd (tail_lines st)" STATE_MAGIC_V4 "head_lines st" 0 "tl (tail_lines st)"]
      tail_lines_history [of st] plain_no_newline [OF plain_magic(2)]
    by (simp add: str_find_def flip: append_Cons)
qed

lemma encode_v4_Inr:
  "encode_state_with_v4 st = Inr out \<longleftrightarrow>
     validate_state st = Inr () \<and> str_len (push_lines (state_lines st)) \<le> MAX_STATE_BYTES \<and>
     str_len (push_lines (v4_lines st)) \<le> MAX_STATE_BYTES \<and> out = push_lines (v4_lines st)"
proof -
  define pre where "pre = push_lines (STATE_MAGIC_V4 # head_lines st)"
  define post where "post = push_lines (tail_lines st)"
  have "pre \<noteq> []" by (simp add: pre_def)
  then have len: "length pre - 1 + 1 = length pre" by simp
  have replaced: "STATE_MAGIC_V4 @ drop (length STATE_MAGIC_V3) (push_lines (state_lines st)) = pre @ post"
    by (simp add: state_lines_split pre_def post_def)
  have find: "str_find (pre @ post) (10 # HISTORY_COUNT_PREFIX) = Some (length pre - 1)"
    using find_history [of st] by (simp add: pre_def post_def)
  have v4: "pre @ push_lines (encode_active_binding (active_binding (ps_queue st))) @ post = push_lines (v4_lines st)"
    by (simp add: pre_def post_def v4_lines_def)
  have magic: "ensure (starts_with (push_lines (state_lines st)) STATE_MAGIC_V3) OtherError = Inr ()"
    by (simp add: state_lines_split)
  have cut: "take (length pre) (pre @ post) = pre" "drop (length pre) (pre @ post) = post" by simp_all
  show ?thesis
  proof (cases "validate_state st = Inr () \<and> str_len (push_lines (state_lines st)) \<le> MAX_STATE_BYTES")
    case True
    then have "encode_state st = Inr (push_lines (state_lines st))" by (simp add: encode_state_def)
    then show ?thesis
      unfolding encode_state_with_v4_def Let_def
      by (simp only: ebind_simps magic replaced find ok_or_simps len cut v4) (use True in auto)
  next
    case False
    then have "encode_state st = Inr out' \<Longrightarrow> False" for out' by (auto simp: encode_state_def Let_def result_simps split: if_splits)
    then show ?thesis using False by (auto simp: encode_state_with_v4_def ebind_Inr)
  qed
qed

text \<open>Positions in the lines of the fourth format.\<close>

lemma position_where_append:
  "\<forall>x \<in> set xs. \<not> P x \<Longrightarrow> P y \<Longrightarrow> position_where P (xs @ y # ys) = Some (length xs)"
  by (induction xs) auto

lemma filter_single_index:
  assumes "\<forall>x \<in> set xs. \<not> P x" "P y" "\<forall>z \<in> set zs. \<not> P z"
  shows "filter (\<lambda>i. P ((xs @ y # zs @ ws) ! i)) [0..<length xs + 1 + length zs] = [length xs]"
proof -
  have split: "[0..<length xs + 1 + length zs] = [0..<length xs] @ [length xs] @ [length xs + 1..<length xs + 1 + length zs]"
    using upt_add_eq_append [of 0 "length xs" "1 + length zs"] upt_conv_Cons [of "length xs" "length xs + 1 + length zs"]
    by (simp add: add.assoc)
  have "filter (\<lambda>i. P ((xs @ y # zs @ ws) ! i)) [0..<length xs] = []"
    using assms(1) by (auto simp: filter_empty_conv nth_append)
  moreover have "filter (\<lambda>i. P ((xs @ y # zs @ ws) ! i)) [length xs + 1..<length xs + 1 + length zs] = []"
    using assms(3) by (auto simp: filter_empty_conv nth_append nth_Cons')
  ultimately show ?thesis unfolding split using assms(2) by simp
qed

lemma decode_binding_lines:
  "pred_option binding_representable b \<Longrightarrow> decode_active_binding (encode_active_binding b) = Inr (b, [])"
proof (cases b)
  case None
  then show ?thesis using parse_bool_field_bool [of "''active_binding_present''" False]
    by (simp add: decode_active_binding_def encode_active_binding_def bool_field_def)
next
  case (Some a)
  assume "pred_option binding_representable b"
  then have rep: "binding_representable a" using Some by simp
  have inst: "parse_instance_field k (instance_field k v) = Inr v" if "CHR '' '' \<notin> set k" "v \<noteq> 0" for k v
  proof -
    have bound: "unat v \<le> 2 ^ 128 - 1" using unat_less_2p [of v] by simp
    have len: "length (radix_text True 16 (unat v)) \<le> 32" using length_radix_text [of 16 "unat v" 31 True] unat_less_2p [of v] by simp
    have al: "alnum c" if "c \<in> set (display_instance v)" for c
      using that alnum_radix_text [of 16 c True "unat v"] by (auto simp: display_instance_def zero_padded_def alnum_def)
    then have "\<not> is_whitespace c" if "c \<in> set (display_instance v)" for c
      using that by (force simp: alnum_def is_whitespace_def)
    then have "dropWhile is_whitespace (display_instance v) = display_instance v"
      "dropWhile is_whitespace (rev (display_instance v)) = rev (display_instance v)"
      by (metis dropWhile_eq_self_iff hd_in_set, metis dropWhile_eq_self_iff hd_in_set set_rev)
    then have trim: "str_trim (display_instance v) = display_instance v" by (simp add: str_trim_def)
    have "length (display_instance v) = 32" using len by (simp add: display_instance_def zero_padded_def)
    then have "str_len (display_instance v) = 32" using al by (simp add: str_len_ascii ascii_alnum)
    moreover have "from_str_radix 16 (2 ^ 128 - 1) (display_instance v) = Some (unat v)"
      unfolding display_instance_def using bound by (intro from_str_radix_text) simp_all
    ultimately show ?thesis using that trim
      by (simp add: parse_instance_field_def instance_field_def field_value_key parse_instance_def AgentInstanceId_from_raw_def
          invalid_data_def)
  qed
  show ?thesis using rep inst parse_bool_field_bool [of "''active_binding_present''" True]
    by (cases a; cases "queue_id a")
      (simp add: Some decode_active_binding_def encode_active_binding_def bool_field_def binding_representable_def
        QueuedTransferId_from_raw_def ActiveQueueBinding_new_def validate_job_id_def invalid_data_def llift_def)
qed

definition without_layout :: "ManagerPersistedState \<Rightarrow> ManagerPersistedState" where
  "without_layout st = st\<lparr>ps_queue := (ps_queue st)\<lparr>queue_items :=
     map (preserve_desktop_layout_update (\<lambda>_. False)) (queue_items (ps_queue st))\<rparr>\<rparr>"

lemma plain_state_valid: "validate_state st = Inr () \<Longrightarrow> validate_state (plain_state st) = Inr ()"
  by (simp add: validate_state_iff plain_state_def plain_queue_valid)

lemma validate_for_queue_layout:
  "validate_for_queue b (q\<lparr>queue_items := map (preserve_desktop_layout_update f) (queue_items q)\<rparr>) = validate_for_queue b q"
proof -
  have "find_item i (map (preserve_desktop_layout_update f) items) = map_option (preserve_desktop_layout_update f) (find_item i items)" for i items
    by (induction items) (auto simp: find_item_def)
  then show ?thesis by (auto simp: validate_for_queue_def split: option.splits)
qed

lemma validate_for_queue_items: "queue_items q = queue_items q' \<Longrightarrow> validate_for_queue b q = validate_for_queue b q'"
  by (simp add: validate_for_queue_def)

lemma without_layout_valid: "validate_state st = Inr () \<Longrightarrow> validate_state (without_layout st) = Inr ()"
  by (simp add: validate_state_iff without_layout_def queue_valid_parts efold_items_layout validate_for_queue_layout)

lemma plain_state_lines: "\<forall>l \<in> set (state_lines st). plain_line l"
  using keyed_plain [OF keyed_head] keyed_plain [OF keyed_tail] plain_magic(1) by (auto simp: state_lines_split)

lemma decode_encoded_state:
  assumes "validate_state st = Inr ()" "state_representable st" "str_len (push_lines (state_lines st)) \<le> MAX_STATE_BYTES"
  shows "decode_state (push_lines (state_lines st)) = Inr (plain_state st)"
  using assms decode_state_lines_encoded [OF assms(1,2), of "[]"] plain_state_valid [OF assms(1)]
  by (simp add: decode_state_def text_lines_push_lines [OF plain_state_lines] invalid_data_def)

lemma plain_binding_lines: "\<forall>l \<in> set (encode_active_binding b). plain_line l"
  by (auto simp: encode_active_binding_def plain_fields plain_key split: option.splits)

lemma last_head_line:
  "last (STATE_MAGIC_V4 # head_lines st) = key ''queue_end'' \<or> starts_with (last (STATE_MAGIC_V4 # head_lines st)) (key ''queue_count'' @ [32])"
proof (cases "queue_items (ps_queue st)" rule: rev_cases)
  case Nil
  then show ?thesis by (simp add: head_lines_def encode_queue_def starts_with_field)
next
  case (snoc items item)
  then show ?thesis by (simp add: head_lines_def encode_queue_def encode_queue_item_def Let_def)
qed

lemma magic_no_prefix: "p \<noteq> ''NCMS4'' \<Longrightarrow> CHR '' '' \<notin> set p \<Longrightarrow> \<not> starts_with STATE_MAGIC_V4 (key p @ [32])"
  using starts_with_key [of p STATE_MAGIC_V4] line_key_fields(5) [of "''NCMS4''"] key_inj
  by (auto simp: STATE_MAGIC_V4_def)

lemma history_position:
  "position_where (\<lambda>l. starts_with l HISTORY_COUNT_PREFIX) (v4_lines st) =
     Some (length (STATE_MAGIC_V4 # head_lines st) + 1 + length (tl (encode_active_binding (active_binding (ps_queue st)))))"
proof -
  define b where "b = encode_active_binding (active_binding (ps_queue st))"
  have b: "b = bool_field ''active_binding_present'' (active_binding (ps_queue st) \<noteq> None) # tl b"
    unfolding b_def by (rule binding_lines_split)
  have "line_key (hd b) = key ''active_binding_present''" by (subst b) (simp add: line_key_fields)
  then have "\<not> starts_with (hd b) HISTORY_COUNT_PREFIX"
    using starts_with_key [of "''history_count''" "hd b"] key_inj by (auto simp: HISTORY_COUNT_PREFIX_def)
  moreover have "\<not> starts_with l HISTORY_COUNT_PREFIX" if "l \<in> set (tl b)" for l
    using that unfolding b_def HISTORY_COUNT_PREFIX_def
    by (intro keyed_no_prefix [OF keyed_binding]) (simp_all add: binding_keys_def)
  moreover have "b \<noteq> []" by (subst b) simp
  then have "set b = insert (hd b) (set (tl b))" by (cases b) simp_all
  ultimately have "\<forall>x \<in> set ((STATE_MAGIC_V4 # head_lines st) @ b). \<not> starts_with x HISTORY_COUNT_PREFIX"
    using head_no_history magic_no_prefix [of "''history_count''"] by (auto simp: HISTORY_COUNT_PREFIX_def)
  then have p: "position_where (\<lambda>l. starts_with l HISTORY_COUNT_PREFIX) (((STATE_MAGIC_V4 # head_lines st) @ b) @ hd (tail_lines st) # tl (tail_lines st)) =
      Some (length ((STATE_MAGIC_V4 # head_lines st) @ b))"
    using tail_lines_history(1) by (rule position_where_append)
  have l: "length b = Suc (length (tl b))" by (subst b) simp
  have v: "((STATE_MAGIC_V4 # head_lines st) @ b) @ hd (tail_lines st) # tl (tail_lines st) = v4_lines st"
    using tail_lines_history(2) [of st] by (simp add: v4_lines_def b_def)
  show ?thesis unfolding v [symmetric] p unfolding b_def [symmetric] using l by simp
qed

lemma binding_position:
  "filter (\<lambda>i. starts_with (v4_lines st ! i) ACTIVE_BINDING_PRESENT_PREFIX)
     [0..<length (STATE_MAGIC_V4 # head_lines st) + 1 + length (tl (encode_active_binding (active_binding (ps_queue st))))] =
   [length (STATE_MAGIC_V4 # head_lines st)]"
proof -
  define b where "b = encode_active_binding (active_binding (ps_queue st))"
  define first where "first = bool_field ''active_binding_present'' (active_binding (ps_queue st) \<noteq> None)"
  have b: "b = first # tl b" unfolding b_def first_def by (rule binding_lines_split)
  have "\<not> starts_with l ACTIVE_BINDING_PRESENT_PREFIX" if "l \<in> set (tl b)" for l
    using that unfolding b_def ACTIVE_BINDING_PRESENT_PREFIX_def
    by (intro keyed_no_prefix [OF keyed_binding]) (simp_all add: binding_keys_def)
  moreover have "\<not> starts_with l ACTIVE_BINDING_PRESENT_PREFIX" if "l \<in> set (head_lines st)" for l
    using that unfolding ACTIVE_BINDING_PRESENT_PREFIX_def
    by (intro keyed_no_prefix [OF keyed_head]) (simp_all add: head_keys_def item_keys_def)
  moreover have "starts_with first ACTIVE_BINDING_PRESENT_PREFIX"
    by (simp add: first_def ACTIVE_BINDING_PRESENT_PREFIX_def starts_with_field)
  moreover have "\<not> starts_with STATE_MAGIC_V4 ACTIVE_BINDING_PRESENT_PREFIX"
    using magic_no_prefix [of "''active_binding_present''"] by (simp add: ACTIVE_BINDING_PRESENT_PREFIX_def)
  moreover have "v4_lines st = (STATE_MAGIC_V4 # head_lines st) @ first # tl b @ tail_lines st"
    unfolding v4_lines_def b_def [symmetric] by (subst b) simp
  ultimately show ?thesis
    using filter_single_index [of "STATE_MAGIC_V4 # head_lines st" "\<lambda>l. starts_with l ACTIVE_BINDING_PRESENT_PREFIX" first "tl b" "tail_lines st"]
    unfolding b_def [symmetric] by auto
qed

lemma decode_v4:
  assumes "validate_state st = Inr ()" "state_representable st"
    and "str_len (push_lines (state_lines st)) \<le> MAX_STATE_BYTES" "str_len (push_lines (v4_lines st)) \<le> MAX_STATE_BYTES"
  shows "decode_state_with_v4 (push_lines (v4_lines st)) = Inr (without_layout st)"
proof -
  define b where "b = encode_active_binding (active_binding (ps_queue st))"
  define i where "i = length (STATE_MAGIC_V4 # head_lines st)"
  define h where "h = i + 1 + length (tl b)"
  define rest where "rest = head_lines st @ b @ tail_lines st"
  have v4: "v4_lines st = STATE_MAGIC_V4 # rest" by (simp add: v4_lines_def b_def rest_def)
  have "b \<noteq> []" by (simp add: b_def encode_active_binding_def split: option.splits)
  then have lb: "length b = 1 + length (tl b)" by (cases b) simp_all
  have hb: "h - i = length b" using lb by (simp add: h_def)
  have "\<forall>l \<in> set (v4_lines st). plain_line l"
    using keyed_plain [OF keyed_head] keyed_plain [OF keyed_tail] plain_binding_lines plain_magic(2)
    by (auto simp: v4_lines_def)
  then have lines: "text_lines (push_lines (v4_lines st)) = STATE_MAGIC_V4 # rest"
    using text_lines_push_lines by (simp only: v4)
  note hist = history_position [of st, folded b_def, folded i_def, folded h_def, unfolded v4]
  note pos = binding_position [of st, folded b_def, folded i_def, folded h_def, unfolded v4]
  have i0: "i \<noteq> 0" by (simp add: i_def)
  have preceding: "(STATE_MAGIC_V4 # rest) ! (i - 1) = last (STATE_MAGIC_V4 # head_lines st)"
    unfolding i_def rest_def by (simp add: last_conv_nth nth_append nth_Cons' split: if_splits)
  have mid: "take (h - i) (drop i (STATE_MAGIC_V4 # rest)) = b"
    unfolding hb by (simp add: i_def rest_def)
  have dec: "decode_active_binding (text_lines (join_nl b @ [10])) = Inr (active_binding (ps_queue st), [])"
    using assms(2) decode_binding_lines [of "active_binding (ps_queue st)"] text_lines_push_lines [OF plain_binding_lines]
      join_nl_push_lines [OF \<open>b \<noteq> []\<close>] by (simp add: b_def state_representable_def)
  have kept: "(take i (STATE_MAGIC_V4 # rest) @ drop h (STATE_MAGIC_V4 # rest))[0 := STATE_MAGIC_V3] = state_lines st"
  proof -
    have "h = length b + i" using lb by (simp add: h_def)
    then have "drop h (STATE_MAGIC_V4 # rest) = drop (length b) (drop i (STATE_MAGIC_V4 # rest))" by (simp only: drop_drop)
    then show ?thesis by (simp add: i_def rest_def state_lines_split)
  qed
  have legacy: "decode_state (join_nl (state_lines st) @ [10]) = Inr (plain_state st)"
    using decode_encoded_state [OF assms(1-3)] by (simp add: join_nl_push_lines state_lines_split)
  have prec: "ensure (\<not> (last (STATE_MAGIC_V4 # head_lines st) \<noteq> key ''queue_end'' \<and>
      \<not> starts_with (last (STATE_MAGIC_V4 # head_lines st)) (key ''queue_count'' @ [32]))) InvalidData = Inr ()"
    using last_head_line [of st] by (auto simp: ensure_def)
  have bind: "(case active_binding (ps_queue st) of None \<Rightarrow> Inr (plain_state st)
      | Some b \<Rightarrow> ebind (map_err (\<lambda>_. InvalidData) (set_active_binding b (ps_queue (plain_state st))))
          (\<lambda>q. Inr ((plain_state st)\<lparr>ps_queue := q\<rparr>))) = Inr (without_layout st)"
  proof (cases "active_binding (ps_queue st)")
    case None
    then show ?thesis by (cases st; cases "ps_queue st") (simp add: plain_state_def plain_queue_def without_layout_def)
  next
    case (Some a)
    have "validate_for_queue a (ps_queue st) = Inr ()" using assms(1) Some by (simp add: validate_state_iff queue_valid_parts)
    then have "validate_for_queue a (ps_queue (plain_state st)) = Inr ()"
      using validate_for_queue_layout [of a "\<lambda>_. False" "ps_queue st"]
      by (simp add: plain_state_def plain_queue_def validate_for_queue_def)
    then show ?thesis using Some
      by (cases st; cases "ps_queue st") (simp add: set_active_binding_def plain_state_def plain_queue_def without_layout_def)
  qed
  have "str_len (push_lines (v4_lines st)) > MAX_STATE_BYTES \<longleftrightarrow> False" using assms(4) by simp
  then show ?thesis
    unfolding decode_state_with_v4_def Let_def
    by (simp only: if_False lines list.case not_True_eq_False simp_thms hist ok_or_simps ebind_simps pos i0 ensure_simps preceding
        prec mid dec prod.case kept legacy bind list.set ball_simps without_layout_valid [OF assms(1)] invalid_data_def map_err_simps)
      simp
qed

subsection \<open>Desktop flags\<close>

definition item_lines_v5 :: "QueuedTransfer \<Rightarrow> ustring list" where
  "item_lines_v5 item = item_head item @ [bool_field ''queue_update_existing'' (update_existing (item_request item)),
     bool_field ''queue_preserve_desktop_layout'' (preserve_desktop_layout item)] @ item_tail item"

definition v5_lines :: "ManagerPersistedState \<Rightarrow> ustring list" where
  "v5_lines st = STATE_MAGIC_V5 # take 8 (tl (state_lines st)) @ take 3 (encode_queue (ps_queue st)) @
     concat (map item_lines_v5 (queue_items (ps_queue st))) @ encode_active_binding (active_binding (ps_queue st)) @ tail_lines st"

lemma insert_layout_flags_skip:
  "\<forall>l \<in> set xs. \<not> starts_with l QUEUE_UPDATE_EXISTING_PREFIX \<Longrightarrow>
   insert_layout_flags (xs @ ys) items = ebind (insert_layout_flags ys items) (\<lambda>(ls, left). Inr (xs @ ls, left))"
proof (induction xs)
  case Nil
  then show ?case by (cases "insert_layout_flags ys items") auto
next
  case (Cons x xs)
  then show ?case by (cases "insert_layout_flags ys items") auto
qed

lemma split_layout_flags_skip:
  "\<forall>l \<in> set xs. \<not> starts_with l QUEUE_PRESERVE_DESKTOP_LAYOUT_PREFIX \<Longrightarrow>
   split_layout_flags (xs @ ys) = ebind (split_layout_flags ys) (\<lambda>(ls, flags). Inr (xs @ ls, flags))"
proof (induction xs)
  case Nil
  then show ?case by (cases "split_layout_flags ys") auto
next
  case (Cons x xs)
  then show ?case by (cases "split_layout_flags ys") auto
qed

lemma item_no_flag_prefix:
  "l \<in> set (item_head item) \<union> set (item_tail item) \<Longrightarrow>
     \<not> starts_with l QUEUE_UPDATE_EXISTING_PREFIX \<and> \<not> starts_with l QUEUE_PRESERVE_DESKTOP_LAYOUT_PREFIX"
proof -
  have keys: "''queue_update_existing'' \<notin> item_keys" "''queue_preserve_desktop_layout'' \<notin> item_keys"
    by (simp_all add: item_keys_def)
  have space: "CHR '' '' \<notin> set ''queue_update_existing''" "CHR '' '' \<notin> set ''queue_preserve_desktop_layout''" by simp_all
  have "\<not> starts_with l (key p @ [32])" if "l \<in> set (item_head item) \<union> set (item_tail item)" "p \<notin> item_keys" "CHR '' '' \<notin> set p" for p
    using that keyed_no_prefix [OF keyed_item(1)] keyed_no_prefix [OF keyed_item(2)] by blast
  then show "l \<in> set (item_head item) \<union> set (item_tail item) \<Longrightarrow>
     \<not> starts_with l QUEUE_UPDATE_EXISTING_PREFIX \<and> \<not> starts_with l QUEUE_PRESERVE_DESKTOP_LAYOUT_PREFIX"
    unfolding QUEUE_UPDATE_EXISTING_PREFIX_def QUEUE_PRESERVE_DESKTOP_LAYOUT_PREFIX_def using keys space by blast
qed

lemma insert_layout_flags_items:
  assumes "\<forall>l \<in> set ys. \<not> starts_with l QUEUE_UPDATE_EXISTING_PREFIX"
  shows "insert_layout_flags (concat (map encode_queue_item items) @ ys) items = Inr (concat (map item_lines_v5 items) @ ys, [])"
proof (induction items)
  case Nil
  then show ?case using insert_layout_flags_skip [of ys "[]" "[]"] assms by simp
next
  case (Cons item items)
  have upd: "starts_with (bool_field ''queue_update_existing'' u) QUEUE_UPDATE_EXISTING_PREFIX" for u
    by (simp add: QUEUE_UPDATE_EXISTING_PREFIX_def starts_with_field)
  have skip: "insert_layout_flags (item_head item @ zs) its = ebind (insert_layout_flags zs its) (\<lambda>(ls, left). Inr (item_head item @ ls, left))"
    "insert_layout_flags (item_tail item @ zs) its = ebind (insert_layout_flags zs its) (\<lambda>(ls, left). Inr (item_tail item @ ls, left))" for zs its
    using item_no_flag_prefix by (auto intro!: insert_layout_flags_skip)
  show ?case using Cons by (simp add: encode_queue_item_split item_lines_v5_def skip upd)
qed

lemma split_layout_flags_items:
  assumes "\<forall>l \<in> set ys. \<not> starts_with l QUEUE_PRESERVE_DESKTOP_LAYOUT_PREFIX"
  shows "split_layout_flags (concat (map item_lines_v5 items) @ ys) =
    Inr (concat (map encode_queue_item items) @ ys, map preserve_desktop_layout items)"
proof (induction items)
  case Nil
  then show ?case using split_layout_flags_skip [of ys "[]"] assms by simp
next
  case (Cons item items)
  have "\<not> starts_with (bool_field ''queue_update_existing'' u) QUEUE_PRESERVE_DESKTOP_LAYOUT_PREFIX" for u
    using starts_with_key [of "''queue_preserve_desktop_layout''" "bool_field ''queue_update_existing'' u"] key_inj
    by (auto simp: QUEUE_PRESERVE_DESKTOP_LAYOUT_PREFIX_def line_key_fields)
  moreover have "starts_with (bool_field ''queue_preserve_desktop_layout'' u) QUEUE_PRESERVE_DESKTOP_LAYOUT_PREFIX" for u
    by (simp add: QUEUE_PRESERVE_DESKTOP_LAYOUT_PREFIX_def starts_with_field)
  moreover have "split_layout_flags (item_head item @ zs) = ebind (split_layout_flags zs) (\<lambda>(ls, flags). Inr (item_head item @ ls, flags))"
    "split_layout_flags (item_tail item @ zs) = ebind (split_layout_flags zs) (\<lambda>(ls, flags). Inr (item_tail item @ ls, flags))" for zs
    using item_no_flag_prefix by (auto intro!: split_layout_flags_skip)
  ultimately show ?case using Cons by (simp add: encode_queue_item_split item_lines_v5_def)
qed

lemma head_lines_items:
  "head_lines st = take 8 (tl (state_lines st)) @ take 3 (encode_queue (ps_queue st)) @ concat (map encode_queue_item (queue_items (ps_queue st)))"
  by (simp add: head_lines_def encode_queue_def)

definition flag_prefixes :: "ustring set" where
  "flag_prefixes = {QUEUE_UPDATE_EXISTING_PREFIX, QUEUE_PRESERVE_DESKTOP_LAYOUT_PREFIX}"

lemma no_flag_prefix:
  assumes "keyed ks ls" "''queue_update_existing'' \<notin> ks" "''queue_preserve_desktop_layout'' \<notin> ks" "l \<in> set ls" "p \<in> flag_prefixes"
  shows "\<not> starts_with l p"
proof -
  have space: "CHR '' '' \<notin> set ''queue_update_existing''" "CHR '' '' \<notin> set ''queue_preserve_desktop_layout''" by simp_all
  show ?thesis
    using assms(5) keyed_no_prefix [OF assms(1,2) space(1) assms(4)] keyed_no_prefix [OF assms(1,3) space(2) assms(4)]
    by (auto simp: flag_prefixes_def QUEUE_UPDATE_EXISTING_PREFIX_def QUEUE_PRESERVE_DESKTOP_LAYOUT_PREFIX_def)
qed

lemma other_lines_no_flag:
  assumes "l \<in> set (take 8 (tl (state_lines st)) @ take 3 (encode_queue (ps_queue st))) \<union>
     set (encode_active_binding (active_binding (ps_queue st)) @ tail_lines st)" "p \<in> flag_prefixes"
  shows "\<not> starts_with l p"
proof -
  have front: "keyed head_keys (take 8 (tl (state_lines st)) @ take 3 (encode_queue (ps_queue st)))"
    by (simp add: state_lines_def encode_queue_def keyed_Cons field_shape line_key_fields head_keys_def)
  have bind: "keyed (insert ''active_binding_present'' binding_keys) (encode_active_binding b)" for b
    using keyed_mono [OF keyed_binding [of b], of "insert ''active_binding_present'' binding_keys"]
    by (subst binding_lines_split) (auto simp: keyed_Cons field_shape line_key_fields)
  have keys: "''queue_update_existing'' \<notin> head_keys" "''queue_preserve_desktop_layout'' \<notin> head_keys"
    "''queue_update_existing'' \<notin> insert ''active_binding_present'' binding_keys"
    "''queue_preserve_desktop_layout'' \<notin> insert ''active_binding_present'' binding_keys"
    "''queue_update_existing'' \<notin> tail_keys" "''queue_preserve_desktop_layout'' \<notin> tail_keys"
    by (simp_all add: head_keys_def binding_keys_def tail_keys_def)
  show ?thesis using assms no_flag_prefix [OF front keys(1,2)] no_flag_prefix [OF bind keys(3,4)]
      no_flag_prefix [OF keyed_tail keys(5,6)] by (auto simp del: set_append simp: set_append)
qed

lemma magic_v5_no_flag: "\<not> starts_with STATE_MAGIC_V5 QUEUE_UPDATE_EXISTING_PREFIX"
  using starts_with_key [of "''queue_update_existing''" STATE_MAGIC_V5] line_key_fields(5) [of "''NCMS5''"] key_inj
  by (auto simp: QUEUE_UPDATE_EXISTING_PREFIX_def STATE_MAGIC_V5_def)

lemma insert_flags_v5:
  "insert_layout_flags (STATE_MAGIC_V5 # tl (v4_lines st)) (queue_items (ps_queue st)) = Inr (v5_lines st, [])"
proof -
  define front where "front = STATE_MAGIC_V5 # take 8 (tl (state_lines st)) @ take 3 (encode_queue (ps_queue st))"
  define rear where "rear = encode_active_binding (active_binding (ps_queue st)) @ tail_lines st"
  define items where "items = queue_items (ps_queue st)"
  have p: "QUEUE_UPDATE_EXISTING_PREFIX \<in> flag_prefixes" by (simp add: flag_prefixes_def)
  have eq: "STATE_MAGIC_V5 # tl (v4_lines st) = front @ concat (map encode_queue_item items) @ rear"
    by (simp only: v4_lines_def list.sel head_lines_items front_def rear_def items_def append_assoc append.simps)
  have "\<forall>l \<in> set front. \<not> starts_with l QUEUE_UPDATE_EXISTING_PREFIX"
    using other_lines_no_flag [OF _ p] magic_v5_no_flag unfolding front_def set_simps(2) by blast
  moreover have "\<forall>l \<in> set rear. \<not> starts_with l QUEUE_UPDATE_EXISTING_PREFIX"
    using other_lines_no_flag [OF _ p] unfolding rear_def by blast
  ultimately have "insert_layout_flags (front @ concat (map encode_queue_item items) @ rear) items =
      Inr (front @ concat (map item_lines_v5 items) @ rear, [])"
    using insert_layout_flags_skip [of front] insert_layout_flags_items [of rear items] by simp
  moreover have "v5_lines st = front @ concat (map item_lines_v5 items) @ rear"
    by (simp only: v5_lines_def front_def rear_def items_def append_assoc append.simps)
  ultimately show ?thesis unfolding eq items_def [symmetric] by simp
qed

lemma split_flags_v5:
  "split_layout_flags (tl (v5_lines st)) = Inr (tl (v4_lines st), map preserve_desktop_layout (queue_items (ps_queue st)))"
proof -
  define front where "front = take 8 (tl (state_lines st)) @ take 3 (encode_queue (ps_queue st))"
  define rear where "rear = encode_active_binding (active_binding (ps_queue st)) @ tail_lines st"
  define items where "items = queue_items (ps_queue st)"
  have p: "QUEUE_PRESERVE_DESKTOP_LAYOUT_PREFIX \<in> flag_prefixes" by (simp add: flag_prefixes_def)
  have eq: "tl (v4_lines st) = front @ concat (map encode_queue_item items) @ rear"
    by (simp only: v4_lines_def list.sel head_lines_items front_def rear_def items_def append_assoc append.simps)
  have "\<forall>l \<in> set front. \<not> starts_with l QUEUE_PRESERVE_DESKTOP_LAYOUT_PREFIX"
    using other_lines_no_flag [OF _ p] unfolding front_def by blast
  moreover have "\<forall>l \<in> set rear. \<not> starts_with l QUEUE_PRESERVE_DESKTOP_LAYOUT_PREFIX"
    using other_lines_no_flag [OF _ p] unfolding rear_def by blast
  ultimately have "split_layout_flags (front @ concat (map item_lines_v5 items) @ rear) =
      Inr (front @ concat (map encode_queue_item items) @ rear, map preserve_desktop_layout items)"
    using split_layout_flags_skip [of front] split_layout_flags_items [of rear items] by simp
  moreover have "tl (v5_lines st) = front @ concat (map item_lines_v5 items) @ rear"
    by (simp only: v5_lines_def list.sel front_def rear_def items_def append_assoc append.simps)
  ultimately show ?thesis unfolding eq items_def [symmetric] by simp
qed

lemma plain_v4_lines: "\<forall>l \<in> set (v4_lines st). plain_line l"
  using keyed_plain [OF keyed_head] keyed_plain [OF keyed_tail] plain_binding_lines plain_magic(2)
  by (auto simp: v4_lines_def)

lemma plain_v5_lines: "\<forall>l \<in> set (v5_lines st). plain_line l"
proof -
  have "\<forall>l \<in> set (item_lines_v5 item). plain_line l" for item
    using keyed_plain [OF keyed_item(1)] keyed_plain [OF keyed_item(2)]
    by (auto simp: item_lines_v5_def plain_fields plain_key)
  moreover have "\<forall>l \<in> set (take 8 (tl (state_lines st)) @ take 3 (encode_queue (ps_queue st))). plain_line l"
    using keyed_plain [OF keyed_head [of st]] unfolding head_lines_items by auto
  ultimately show ?thesis
    using keyed_plain [OF keyed_tail] plain_binding_lines plain_magic(3) unfolding v5_lines_def by auto
qed

lemma encode_v5_Inr:
  "encode_state_with_v5 st = Inr out \<longleftrightarrow>
     validate_state st = Inr () \<and> str_len (push_lines (state_lines st)) \<le> MAX_STATE_BYTES \<and>
     str_len (push_lines (v4_lines st)) \<le> MAX_STATE_BYTES \<and> str_len (push_lines (v5_lines st)) \<le> MAX_STATE_BYTES \<and>
     out = push_lines (v5_lines st)"
proof -
  have cons: "v4_lines st = STATE_MAGIC_V4 # tl (v4_lines st)" by (simp add: v4_lines_def)
  have lines: "text_lines (push_lines (v4_lines st)) = STATE_MAGIC_V4 # tl (v4_lines st)"
    using text_lines_push_lines [OF plain_v4_lines] cons by metis
  have join: "join_nl (v5_lines st) @ [10] = push_lines (v5_lines st)"
    by (rule join_nl_push_lines) (simp add: v5_lines_def)
  show ?thesis
  proof (cases "encode_state_with_v4 st")
    case (Inl e)
    then show ?thesis using encode_v4_Inr [of st "push_lines (v4_lines st)"] by (auto simp: encode_state_with_v5_def)
  next
    case (Inr s)
    then have s: "s = push_lines (v4_lines st)" and ok: "validate_state st = Inr ()"
      "str_len (push_lines (state_lines st)) \<le> MAX_STATE_BYTES" "str_len (push_lines (v4_lines st)) \<le> MAX_STATE_BYTES"
      using encode_v4_Inr [of st s] by auto
    show ?thesis unfolding encode_state_with_v5_def Inr s
      by (simp only: ebind_simps lines list.case simp_thms ensure_simps insert_flags_v5 prod.case join Let_def)
        (use ok in auto)
  qed
qed

lemma restore_layout:
  "set_layout_flags (map preserve_desktop_layout items) (map (preserve_desktop_layout_update (\<lambda>_. False)) items) = items"
  by (induction items) (auto simp: set_layout_flags_def)

lemma decode_v5:
  assumes "encode_state_with_v5 st = Inr out" "state_representable st"
  shows "decode_state_with_v5 out = Inr st"
proof -
  from assms(1) have ok: "validate_state st = Inr ()" "str_len (push_lines (state_lines st)) \<le> MAX_STATE_BYTES"
    "str_len (push_lines (v4_lines st)) \<le> MAX_STATE_BYTES" "str_len (push_lines (v5_lines st)) \<le> MAX_STATE_BYTES"
    and out: "out = push_lines (v5_lines st)" by (auto simp: encode_v5_Inr)
  have lines: "text_lines (push_lines (v5_lines st)) = STATE_MAGIC_V5 # tl (v5_lines st)"
    using text_lines_push_lines [OF plain_v5_lines] by (simp add: v5_lines_def)
  have join: "join_nl (STATE_MAGIC_V4 # tl (v4_lines st)) @ [10] = push_lines (v4_lines st)"
    by (simp add: join_nl_push_lines v4_lines_def)
  define st' where "st' = without_layout st"
  have items: "queue_items (ps_queue st') = map (preserve_desktop_layout_update (\<lambda>_. False)) (queue_items (ps_queue st))"
    by (simp add: st'_def without_layout_def)
  have restored: "st'\<lparr>ps_queue := (ps_queue st')\<lparr>queue_items := set_layout_flags (map preserve_desktop_layout (queue_items (ps_queue st)))
      (queue_items (ps_queue st'))\<rparr>\<rparr> = st"
    unfolding items restore_layout by (simp add: st'_def without_layout_def)
  have len: "ensure (length (map preserve_desktop_layout (queue_items (ps_queue st))) = length (queue_items (ps_queue st'))) InvalidData = Inr ()"
    by (simp add: items)
  have valid: "invalid_data (validate_state st) = Inr ()" using ok(1) by (simp add: invalid_data_def)
  have big: "str_len (push_lines (v5_lines st)) > MAX_STATE_BYTES \<longleftrightarrow> False" using ok(4) by simp
  show ?thesis unfolding out decode_state_with_v5_def
    by (simp only: big if_False lines list.case simp_thms split_flags_v5 ebind_simps prod.case join
        decode_v4 [OF ok(1) assms(2) ok(2,3), folded st'_def] len restored Let_def valid)
qed

lemma decode_v3:
  assumes "encode_state st = Inr out" "state_representable st"
  shows "decode_state_with_v5 out = Inr (plain_state st)"
proof -
  have ok: "validate_state st = Inr ()" "str_len (push_lines (state_lines st)) \<le> MAX_STATE_BYTES" and out: "out = push_lines (state_lines st)"
    using assms(1) by (auto simp: encode_state_def Let_def result_simps split: if_splits)
  have lines: "text_lines (push_lines (state_lines st)) = STATE_MAGIC_V3 # tl (state_lines st)"
    using text_lines_push_lines [OF plain_state_lines] by (simp add: state_lines_split)
  have magic: "STATE_MAGIC_V3 \<noteq> STATE_MAGIC_V5" "STATE_MAGIC_V3 \<noteq> STATE_MAGIC_V4"
    by (simp_all add: STATE_MAGIC_V3_def STATE_MAGIC_V4_def STATE_MAGIC_V5_def key_inj)
  show ?thesis using decode_encoded_state [OF ok(1) assms(2) ok(2)] ok(2) magic
    by (simp add: out decode_state_with_v5_def decode_state_with_v4_def lines)
qed

section \<open>The state file\<close>

text \<open>
  The state file, its temporary and its backup beside it.  Every call of \<^verbatim>\<open>save_to_v4\<close> to the operating
  system may fail, a write after some bytes, and \<^verbatim>\<open>Path::exists\<close> answers false when it cannot tell.
  Renaming replaces an existing target.
\<close>

record StateDir =
  state_file :: "byte list option"
  state_tmp :: "byte list option"
  state_bak :: "byte list option"

record StateFaults =
  mkdir_fault :: "error_kind option"
  create_fault :: "error_kind option"
  write_fault :: "(error_kind \<times> nat) option"
  sync_fault :: "error_kind option"
  bak_unknown :: bool
  remove_bak_fault :: "error_kind option"
  file_unknown :: bool
  set_aside_fault :: "error_kind option"
  publish_fault :: "error_kind option"
  old_bak_unknown :: bool
  remove_old_bak_fault :: "error_kind option"
  restore_fault :: "error_kind option"
  remove_tmp_fault :: "error_kind option"

definition os_call :: "error_kind option \<Rightarrow> (StateDir \<Rightarrow> StateDir) \<Rightarrow> StateDir \<Rightarrow> unit io_result \<times> StateDir" where
  "os_call fault f d = (case fault of Some e \<Rightarrow> (Inl e, d) | None \<Rightarrow> (Inr (), f d))"

definition dbind :: "(StateDir \<Rightarrow> 'a io_result \<times> StateDir) \<Rightarrow> ('a \<Rightarrow> StateDir \<Rightarrow> 'b io_result \<times> StateDir) \<Rightarrow> StateDir \<Rightarrow> 'b io_result \<times> StateDir" where
  "dbind m f d = (case m d of (Inl e, d') \<Rightarrow> (Inl e, d') | (Inr a, d') \<Rightarrow> f a d')"

definition write_state_tmp :: "StateFaults \<Rightarrow> byte list \<Rightarrow> StateDir \<Rightarrow> unit io_result \<times> StateDir" where
  "write_state_tmp faults contents =
     dbind (os_call (create_fault faults) (state_tmp_update (\<lambda>_. Some []))) (\<lambda>_.
     dbind (\<lambda>d. case write_fault faults of
              Some (e, n) \<Rightarrow> (Inl e, d\<lparr>state_tmp := Some (take n contents)\<rparr>)
            | None \<Rightarrow> (Inr (), d\<lparr>state_tmp := Some contents\<rparr>)) (\<lambda>_.
       os_call (sync_fault faults) id))"

definition publish_state :: "StateFaults \<Rightarrow> bool \<Rightarrow> StateDir \<Rightarrow> unit io_result \<times> StateDir" where
  "publish_state faults had_existing d =
     (case os_call (publish_fault faults) (\<lambda>d. d\<lparr>state_file := state_tmp d, state_tmp := None\<rparr>) d of
        (Inr _, d1) \<Rightarrow>
          if had_existing \<and> state_bak d1 \<noteq> None \<and> \<not> old_bak_unknown faults
          then os_call (remove_old_bak_fault faults) (state_bak_update (\<lambda>_. None)) d1
          else (Inr (), d1)
      | (Inl e, d1) \<Rightarrow>
          (let d2 = (if had_existing \<and> state_bak d1 \<noteq> None \<and> \<not> old_bak_unknown faults
                     then snd (os_call (restore_fault faults) (\<lambda>d. d\<lparr>state_file := state_bak d, state_bak := None\<rparr>) d1)
                     else d1)
           in (Inl e, snd (os_call (remove_tmp_fault faults) (state_tmp_update (\<lambda>_. None)) d2))))"

definition save_to_v4 :: "StateFaults \<Rightarrow> ManagerPersistedState \<Rightarrow> StateDir \<Rightarrow> unit io_result \<times> StateDir" where
  "save_to_v4 faults st =
     dbind (Pair (encode_state_with_v5 st)) (\<lambda>encoded.
     dbind (os_call (mkdir_fault faults) id) (\<lambda>_.
     dbind (write_state_tmp faults (as_bytes encoded)) (\<lambda>_.
     dbind (\<lambda>d. if state_bak d \<noteq> None \<and> \<not> bak_unknown faults
                then os_call (remove_bak_fault faults) (state_bak_update (\<lambda>_. None)) d else (Inr (), d)) (\<lambda>_.
     dbind (\<lambda>d. (Inr (state_file d \<noteq> None \<and> \<not> file_unknown faults), d)) (\<lambda>had_existing.
     dbind (\<lambda>d. if had_existing
                then os_call (set_aside_fault faults) (\<lambda>d. d\<lparr>state_bak := state_file d, state_file := None\<rparr>) d
                else (Inr (), d)) (\<lambda>_.
       publish_state faults had_existing))))))"

record LoadFaults =
  open_fault :: "error_kind option"
  metadata_fault :: "error_kind option"
  read_fault :: "error_kind option"

definition load_from_v4 :: "LoadFaults \<Rightarrow> StateDir \<Rightarrow> ManagerPersistedState option io_result" where
  "load_from_v4 faults d =
     (case (open_fault faults, state_file d) of
        (Some e, _) \<Rightarrow> if e = NotFound then Inr None else Inl e
      | (None, None) \<Rightarrow> Inr None
      | (None, Some contents) \<Rightarrow>
          (case metadata_fault faults of Some e \<Rightarrow> Inl e
           | None \<Rightarrow>
               if length contents > MAX_STATE_BYTES then Inl InvalidData
               else (case read_fault faults of Some e \<Rightarrow> Inl e
                 | None \<Rightarrow> ebind (ok_or InvalidData (from_utf8 contents)) (\<lambda>s.
                     ebind (decode_state_with_v5 s) (\<lambda>st. Inr (Some st))))))"

definition no_load_faults :: LoadFaults where
  "no_load_faults = \<lparr>open_fault = None, metadata_fault = None, read_fault = None\<rparr>"

definition no_save_faults :: StateFaults where
  "no_save_faults = \<lparr>mkdir_fault = None, create_fault = None, write_fault = None, sync_fault = None, bak_unknown = False,
     remove_bak_fault = None, file_unknown = False, set_aside_fault = None, publish_fault = None, old_bak_unknown = False,
     remove_old_bak_fault = None, restore_fault = None, remove_tmp_fault = None\<rparr>"

lemma dbind_cases: "dbind m f d = (case m d of (Inl e, d') \<Rightarrow> (Inl e, d') | (Inr a, d') \<Rightarrow> f a d')"
  by (simp add: dbind_def)

lemma os_call_cases: "os_call fault f d = (Inr u, d') \<longleftrightarrow> fault = None \<and> d' = f d"
  "os_call fault f d = (Inl e, d') \<longleftrightarrow> fault = Some e \<and> d' = d"
  by (auto simp: os_call_def split: option.splits)

lemma dbind_Inr: "dbind m f d = (Inr b, d'') \<longleftrightarrow> (\<exists>a d'. m d = (Inr a, d') \<and> f a d' = (Inr b, d''))"
  by (auto simp: dbind_def split: prod.splits sum.splits)

lemma dbind_Inl: "dbind m f d = (Inl e, d'') \<longleftrightarrow> m d = (Inl e, d'') \<or> (\<exists>a d'. m d = (Inr a, d') \<and> f a d' = (Inl e, d''))"
  by (auto simp: dbind_def split: prod.splits sum.splits)

lemma write_state_tmp_frame:
  "write_state_tmp faults c d = (r, d') \<Longrightarrow> state_file d' = state_file d \<and> state_bak d' = state_bak d \<and>
     (\<forall>u. r = Inr u \<longrightarrow> state_tmp d' = Some c)"
  by (auto simp: write_state_tmp_def dbind_def os_call_def split: option.splits)

lemma publish_state_result:
  assumes "publish_state faults had d = (r, d')"
    and "had \<longrightarrow> state_file d = None"
  shows "case r of Inr _ \<Rightarrow> state_file d' = state_tmp d
     | Inl _ \<Rightarrow> state_file d' = state_tmp d \<or> state_file d' = state_file d \<and> state_bak d' = state_bak d \<or>
         had \<and> state_file d' = state_bak d"
  using assms by (auto simp: publish_state_def os_call_def Let_def split: option.splits if_splits)

lemma save_state_result:
  assumes "save_to_v4 faults st d = (r, d')"
  shows "case r of
      Inr _ \<Rightarrow> (\<exists>s. encode_state_with_v5 st = Inr s \<and> state_file d' = Some (as_bytes s))
    | Inl _ \<Rightarrow> state_file d' = state_file d \<or>
        (\<exists>s. encode_state_with_v5 st = Inr s \<and> state_file d' = Some (as_bytes s)) \<or>
        (state_file d' = None \<and> state_bak d' = state_file d)"
proof (cases "encode_state_with_v5 st")
  case (Inl e)
  then show ?thesis using assms by (auto simp: save_to_v4_def dbind_def)
next
  case (Inr s)
  obtain r1 d1 where w: "write_state_tmp faults (as_bytes s) d = (r1, d1)" by force
  note frame = write_state_tmp_frame [OF w]
  define d2 where "d2 = (if state_bak d1 \<noteq> None \<and> \<not> bak_unknown faults then d1\<lparr>state_bak := None\<rparr> else d1)"
  define had where "had = (state_file d2 \<noteq> None \<and> \<not> file_unknown faults)"
  define d3 where "d3 = (if had then d2\<lparr>state_bak := state_file d2, state_file := None\<rparr> else d2)"
  have d2: "state_file d2 = state_file d" "state_tmp d2 = state_tmp d1" using frame by (simp_all add: d2_def)
  have d3: "had \<longrightarrow> state_file d3 = None \<and> state_bak d3 = state_file d" "\<not> had \<longrightarrow> state_file d3 = state_file d"
    "state_tmp d3 = state_tmp d1" using d2 by (simp_all add: d3_def)
  have "(\<exists>e. r = Inl e \<and> state_file d' = state_file d) \<or> (r1 = Inr () \<and> publish_state faults had d3 = (r, d'))"
    using assms frame d2 unfolding save_to_v4_def Inr
    by (cases r1; cases "mkdir_fault faults"; cases "remove_bak_fault faults"; cases "set_aside_fault faults")
      (auto simp: dbind_def os_call_def w d2_def had_def d3_def split: if_splits)
  then show ?thesis
  proof
    assume p: "r1 = Inr () \<and> publish_state faults had d3 = (r, d')"
    then have "state_tmp d3 = Some (as_bytes s)" using frame d3(3) by simp
    then show ?thesis using publish_state_result [of faults had d3 r d'] p d3 Inr by (auto split: sum.splits)
  qed auto
qed

lemma ascii_v5_lines: "\<forall>l \<in> set (v5_lines st). ascii_text l"
proof -
  have "\<forall>l \<in> set (item_lines_v5 item). ascii_text l" for item
    using keyed_ascii [OF keyed_item(1)] keyed_ascii [OF keyed_item(2)]
    by (auto simp: item_lines_v5_def ascii_fields ascii_key)
  moreover have "\<forall>l \<in> set (take 8 (tl (state_lines st)) @ take 3 (encode_queue (ps_queue st))). ascii_text l"
    using keyed_ascii [OF keyed_head [of st]] unfolding head_lines_items by auto
  moreover have "\<forall>l \<in> set (encode_active_binding b). ascii_text l" for b
    by (auto simp: encode_active_binding_def ascii_fields ascii_key split: option.splits)
  moreover have "ascii_text STATE_MAGIC_V5" by (simp add: STATE_MAGIC_V5_def ascii_key)
  ultimately show ?thesis using keyed_ascii [OF keyed_tail] unfolding v5_lines_def by auto
qed

lemma load_ascii:
  assumes "decode_state_with_v5 s = Inr r" "ascii_text s" "str_len s \<le> MAX_STATE_BYTES"
  shows "load_from_v4 no_load_faults (d\<lparr>state_file := Some (as_bytes s)\<rparr>) = Inr (Some r)"
  using assms by (simp add: load_from_v4_def no_load_faults_def from_utf8_as_bytes ascii_text_is_text)

text \<open>
  C33. A saved manager state is the state the next start loads: when \<^verbatim>\<open>save_to_v4\<close> reports success, whatever
  optional call failed on the way, \<^verbatim>\<open>load_from_v4\<close> returns exactly the saved state with its queue, active binding,
  desktop flags and history; and a state in the third format of an earlier release loads as the same state without a binding
  and with the desktop flags off.
\<close>

theorem saved_manager_state_loads:
  assumes "state_representable st"
  shows "(\<forall>faults d d'. save_to_v4 faults st d = (Inr (), d') \<longrightarrow> load_from_v4 no_load_faults d' = Inr (Some st)) \<and>
    (\<forall>older d. encode_state st = Inr older \<longrightarrow>
       load_from_v4 no_load_faults (d\<lparr>state_file := Some (as_bytes older)\<rparr>) = Inr (Some (plain_state st)))"
proof (intro conjI allI impI)
  fix faults d d'
  assume saved: "save_to_v4 faults st d = (Inr (), d')"
  show "load_from_v4 no_load_faults d' = Inr (Some st)"
  proof -
    obtain s where s: "encode_state_with_v5 st = Inr s" "state_file d' = Some (as_bytes s)"
      using save_state_result [OF saved] by auto
    then have "s = push_lines (v5_lines st)" "str_len s \<le> MAX_STATE_BYTES" by (auto simp: encode_v5_Inr)
    then have "load_from_v4 no_load_faults (d'\<lparr>state_file := Some (as_bytes s)\<rparr>) = Inr (Some st)"
      using decode_v5 [OF s(1) assms] ascii_v5_lines by (intro load_ascii) (simp_all add: ascii_push_lines)
    then show ?thesis using s(2) by (simp add: load_from_v4_def no_load_faults_def)
  qed
next
  fix older d
  assume old: "encode_state st = Inr older"
  show "load_from_v4 no_load_faults (d\<lparr>state_file := Some (as_bytes older)\<rparr>) = Inr (Some (plain_state st))"
  proof (rule load_ascii [OF decode_v3 [OF old assms]])
    have "ascii_text STATE_MAGIC_V3" by (simp add: STATE_MAGIC_V3_def ascii_key)
    then have "\<forall>l \<in> set (state_lines st). ascii_text l"
      using keyed_ascii [OF keyed_head] keyed_ascii [OF keyed_tail] by (auto simp: state_lines_split)
    then show "ascii_text older" "str_len older \<le> MAX_STATE_BYTES"
      using old ascii_push_lines by (auto simp: encode_state_def Let_def result_simps split: if_splits)
  qed
qed

text \<open>
  C34. A save that fails never loses the previous state: whichever operating-system call fails, the state file still holds
  the previous state, or already the new one, or it is missing and the backup holds the previous state.
\<close>

theorem failed_save_keeps_a_copy:
  assumes "save_to_v4 faults st d = (Inl e, d')" "state_file d = Some old"
  shows "state_file d' = Some old \<or> state_file d' = None \<and> state_bak d' = Some old \<or>
    (\<exists>s. encode_state_with_v5 st = Inr s \<and> state_file d' = Some (as_bytes s))"
  using save_state_result [OF assms(1)] assms(2) by auto

text \<open>The third case is real, and the next start does not look at the backup: it finds no state.\<close>

definition interrupted_faults :: StateFaults where
  "interrupted_faults = no_save_faults\<lparr>publish_fault := Some PermissionDenied, restore_fault := Some PermissionDenied\<rparr>"

definition sample_state :: ManagerPersistedState where
  "sample_state = default_state\<lparr>ps_source_root := ustr ''C:'', ps_update_existing := True\<rparr>"

lemma sample_state_valid: "validate_state sample_state = Inr ()"
  by (simp add: validate_state_iff sample_state_def default_state_def default_queue_def queue_valid_parts
      MAX_TEXT_BYTES_def MAX_HISTORY_ENTRIES_def MAX_QUEUE_ENTRIES_def str_len_def utf8_char_len_def)

lemma sample_state_representable: "state_representable sample_state"
  by (simp add: state_representable_def sample_state_def default_state_def default_queue_def is_text_def is_scalar_def
      usize_max_def)

lemma field_lengths:
  "length (text_field k v) = length k + 1 + 2 * str_len v"
  "n < 10 \<Longrightarrow> length (number_field k n) = length k + 2" "length (bool_field k b) = length k + 2"
  "length (key k) = length k"
  "length STATE_MAGIC_V3 = 5" "length STATE_MAGIC_V4 = 5" "length STATE_MAGIC_V5 = 5"
  by (simp_all add: text_field_def number_field_def bool_field_def key_def STATE_MAGIC_V3_def STATE_MAGIC_V4_def
      STATE_MAGIC_V5_def display_nat_def radix_text.simps)

lemma sample_state_encodes: "\<exists>s. encode_state_with_v5 sample_state = Inr s"
proof -
  have short: "str_len (push_lines ls) \<le> MAX_STATE_BYTES" if "length (push_lines ls) \<le> 1000" "\<forall>l \<in> set ls. ascii_text l" for ls
    using that str_len_ascii [OF ascii_push_lines [OF that(2)]] by (simp add: MAX_STATE_BYTES_def)
  have small: "length (push_lines (state_lines sample_state)) \<le> 1000" "length (push_lines (v4_lines sample_state)) \<le> 1000"
    "length (push_lines (v5_lines sample_state)) \<le> 1000"
    by (simp_all add: v5_lines_def v4_lines_def head_lines_def tail_lines_def state_lines_def encode_queue_def
        encode_active_binding_def sample_state_def default_state_def default_queue_def field_lengths str_len_def utf8_char_len_def)
  have "\<forall>l \<in> set (state_lines sample_state). ascii_text l" "\<forall>l \<in> set (v4_lines sample_state). ascii_text l"
    using keyed_ascii [OF keyed_head [of sample_state]] keyed_ascii [OF keyed_tail [of sample_state]]
    by (auto simp: state_lines_split v4_lines_def STATE_MAGIC_V3_def STATE_MAGIC_V4_def ascii_key encode_active_binding_def
        ascii_fields split: option.splits)
  then show ?thesis using small short ascii_v5_lines sample_state_valid by (auto simp: encode_v5_Inr)
qed

lemma interrupted_save:
  "\<exists>d'. save_to_v4 interrupted_faults sample_state \<lparr>state_file = Some old, state_tmp = None, state_bak = None\<rparr> = (Inl PermissionDenied, d') \<and>
     state_file d' = None \<and> state_bak d' = Some old \<and> load_from_v4 no_load_faults d' = Inr None"
  using sample_state_encodes
  by (auto simp: save_to_v4_def write_state_tmp_def publish_state_def dbind_def os_call_def interrupted_faults_def no_save_faults_def
      load_from_v4_def no_load_faults_def Let_def)

theorem saved_manager_state_loads_witness:
  "\<exists>d'. state_representable sample_state \<and>
     save_to_v4 no_save_faults sample_state \<lparr>state_file = None, state_tmp = None, state_bak = None\<rparr> = (Inr (), d') \<and>
     load_from_v4 no_load_faults d' = Inr (Some sample_state)"
proof -
  have "\<exists>d'. save_to_v4 no_save_faults sample_state \<lparr>state_file = None, state_tmp = None, state_bak = None\<rparr> = (Inr (), d')"
    using sample_state_encodes
    by (auto simp: save_to_v4_def write_state_tmp_def publish_state_def dbind_def os_call_def no_save_faults_def)
  then show ?thesis using saved_manager_state_loads [OF sample_state_representable] sample_state_representable by blast
qed

theorem failed_save_keeps_a_copy_witness:
  "\<exists>d'. save_to_v4 interrupted_faults sample_state \<lparr>state_file = Some [1], state_tmp = None, state_bak = None\<rparr> = (Inl PermissionDenied, d') \<and>
     (state_file d' = Some [1] \<or> state_file d' = None \<and> state_bak d' = Some [1] \<or>
      (\<exists>s. encode_state_with_v5 sample_state = Inr s \<and> state_file d' = Some (as_bytes s)))"
  using interrupted_save [of "[1]"]
    failed_save_keeps_a_copy [of interrupted_faults sample_state "\<lparr>state_file = Some [1], state_tmp = None, state_bak = None\<rparr>"]
  by fastforce

end
