(* ===== verification/Job_Messages.thy ===== *)
theory Job_Messages
  imports Management_Snapshot Manifest
begin

text \<open>
  The messages by which a manager starts, watches and cancels the jobs of an agent
  (\<^verbatim>\<open>src/management_jobs.rs\<close>, the codecs): prepare-receive and start-send requests in all their versions, the
  answers, the job status and the cancel request, with the checks of paths, endpoints, worker counts and
  calibration sizes that both sides make.
\<close>

unbundle bit_operations_syntax

section \<open>Windows paths\<close>

text \<open>
  \<^verbatim>\<open>Path::is_absolute\<close> of the standard library on Windows: the path has a prefix and a root.  Separators
  are the slash and the backslash; a verbatim prefix \<^verbatim>\<open>\\?\\<close> is spelt with backslashes only, a device prefix
  \<^verbatim>\<open>\\.\\<close> and a share \<^verbatim>\<open>\\server\share\<close> with either, and a drive letter needs a separator after its colon.
\<close>

definition path_separator :: "nat \<Rightarrow> bool" where
  "path_separator c \<longleftrightarrow> c = 0x5C \<or> c = 0x2F"

definition ascii_alphabetic :: "nat \<Rightarrow> bool" where
  "ascii_alphabetic c \<longleftrightarrow> 65 \<le> c \<and> c \<le> 90 \<or> 97 \<le> c \<and> c \<le> 122"

definition parse_next_component :: "ustring \<Rightarrow> ustring \<times> ustring" where
  "parse_next_component p = (takeWhile (\<lambda>c. \<not> path_separator c) p, drop 1 (dropWhile (\<lambda>c. \<not> path_separator c) p))"

definition share_prefix :: "ustring \<Rightarrow> bool" where
  "share_prefix p =
     (let (server, rest) = parse_next_component p; (share, _) = parse_next_component rest in server \<noteq> [] \<and> share \<noteq> [])"

fun path_is_absolute :: "ustring \<Rightarrow> bool" where
  "path_is_absolute (a # b # rest) =
     (if path_separator a \<and> path_separator b then
        take 4 (a # b # rest) = [0x5C, 0x5C, 0x3F, 0x5C] \<or>
        (\<exists>s \<in> set (take 1 (drop 1 rest)). hd rest = 0x2E \<and> path_separator s) \<or>
        share_prefix rest
      else ascii_alphabetic a \<and> b = 0x3A \<and> rest \<noteq> [] \<and> path_separator (hd rest))"
| "path_is_absolute _ = False"

section \<open>Requests and answers\<close>

definition PREPARE_REQUEST_VERSION :: u16 where "PREPARE_REQUEST_VERSION = 1"
definition PREPARE_REQUEST_HEADER_BYTES :: usize where "PREPARE_REQUEST_HEADER_BYTES = 8"
definition START_SEND_REQUEST_VERSION_V1 :: u16 where "START_SEND_REQUEST_VERSION_V1 = 1"
definition START_SEND_REQUEST_VERSION_V2 :: u16 where "START_SEND_REQUEST_VERSION_V2 = 2"
definition START_SEND_REQUEST_VERSION :: u16 where "START_SEND_REQUEST_VERSION = 3"
definition START_SEND_REQUEST_HEADER_BYTES_V1 :: usize where "START_SEND_REQUEST_HEADER_BYTES_V1 = 24"
definition START_SEND_REQUEST_HEADER_BYTES :: usize where "START_SEND_REQUEST_HEADER_BYTES = 28"
definition PRESERVE_DESKTOP_LAYOUT_FLAG :: u16 where "PRESERVE_DESKTOP_LAYOUT_FLAG = 0x0001"
definition KNOWN_START_SEND_FLAGS :: u16 where "KNOWN_START_SEND_FLAGS = PRESERVE_DESKTOP_LAYOUT_FLAG"
definition START_SEND_RESPONSE_VERSION :: u16 where "START_SEND_RESPONSE_VERSION = 1"
definition START_SEND_RESPONSE_HEADER_BYTES :: usize where "START_SEND_RESPONSE_HEADER_BYTES = 12"
definition JOB_STATUS_VERSION :: u16 where "JOB_STATUS_VERSION = 3"
definition JOB_STATUS_HEADER_BYTES :: usize where "JOB_STATUS_HEADER_BYTES = 20"
definition CANCEL_REQUEST_VERSION :: u16 where "CANCEL_REQUEST_VERSION = 1"
definition CANCEL_REQUEST_BYTES :: usize where "CANCEL_REQUEST_BYTES = 12"
definition JOB_UPDATE_EXISTING_FLAG :: u8 where "JOB_UPDATE_EXISTING_FLAG = 0x01"
definition RESUME_TRANSFER_FLAG :: u8 where "RESUME_TRANSFER_FLAG = 0x02"
definition KNOWN_JOB_FLAGS :: u8 where "KNOWN_JOB_FLAGS = JOB_UPDATE_EXISTING_FLAG"
definition KNOWN_PREPARE_FLAGS :: u8 where "KNOWN_PREPARE_FLAGS = JOB_UPDATE_EXISTING_FLAG OR RESUME_TRANSFER_FLAG"
definition MAX_DESTINATION_PATH_BYTES :: usize where "MAX_DESTINATION_PATH_BYTES = 32 * 1024"
definition MAX_SOURCE_PATH_BYTES :: usize where "MAX_SOURCE_PATH_BYTES = 32 * 1024"
definition JOB_RECEIVER_ENDPOINT_BYTES :: usize where "JOB_RECEIVER_ENDPOINT_BYTES = 128"

lemmas job_constants = PREPARE_REQUEST_VERSION_def PREPARE_REQUEST_HEADER_BYTES_def START_SEND_REQUEST_VERSION_V1_def
  START_SEND_REQUEST_VERSION_V2_def START_SEND_REQUEST_VERSION_def START_SEND_REQUEST_HEADER_BYTES_V1_def
  START_SEND_REQUEST_HEADER_BYTES_def PRESERVE_DESKTOP_LAYOUT_FLAG_def KNOWN_START_SEND_FLAGS_def
  START_SEND_RESPONSE_VERSION_def START_SEND_RESPONSE_HEADER_BYTES_def JOB_STATUS_VERSION_def JOB_STATUS_HEADER_BYTES_def
  CANCEL_REQUEST_VERSION_def CANCEL_REQUEST_BYTES_def JOB_UPDATE_EXISTING_FLAG_def RESUME_TRANSFER_FLAG_def
  KNOWN_JOB_FLAGS_def KNOWN_PREPARE_FLAGS_def MAX_DESTINATION_PATH_BYTES_def MAX_SOURCE_PATH_BYTES_def
  JOB_RECEIVER_ENDPOINT_BYTES_def

datatype ManagementJobPhase = Idle | ReceiverPrepared | SenderRunning

fun phase_code :: "ManagementJobPhase \<Rightarrow> u8" where
  "phase_code Idle = 0"
| "phase_code ReceiverPrepared = 1"
| "phase_code SenderRunning = 2"

definition phase_try_from :: "u8 \<Rightarrow> ManagementJobPhase io_result" where
  "phase_try_from v =
     (if v = 0 then Inr Idle else if v = 1 then Inr ReceiverPrepared else if v = 2 then Inr SenderRunning
      else Inl InvalidData)"

record PreparedReceiveJob =
  pj_job_id :: u64
  pj_transfer_port :: u16
  pj_destination_root :: ustring
  pj_update_existing :: bool

record StartedSendJob =
  sj_job_id :: u64
  sj_receiver_address :: SocketAddr
  sj_source_root :: ustring
  sj_worker_count :: usize
  sj_calibration_mib :: u64

record ManagementJobStatus =
  js_phase :: ManagementJobPhase
  js_job_id :: "u64 option"
  js_transfer_port :: "u16 option"
  js_destination_root :: "ustring option"
  js_update_existing :: bool

record PrepareReceiveRequest =
  pq_destination_root :: ustring
  pq_update_existing :: bool
  pq_resume :: bool

record StartSendRequest =
  sq_receiver_address :: SocketAddr
  sq_source_root :: ustring
  sq_worker_count :: usize
  sq_calibration_mib :: u64
  sq_forced_streams :: "usize option"
  sq_preserve_desktop :: bool

section \<open>Checks of the parameters\<close>

definition MIB :: u64 where "MIB = 1024 * 1024"
definition MAX_TOTAL_BYTES :: u64 where "MAX_TOTAL_BYTES = 1024 * 1024 * 1024 * 1024"
definition MATRIX_STREAM_COUNTS :: "usize list" where "MATRIX_STREAM_COUNTS = [1, 2, 4, 8]"

definition validate_matrix_stream_count :: "usize \<Rightarrow> unit io_result" where
  "validate_matrix_stream_count n = (if n \<in> set MATRIX_STREAM_COUNTS then Inr () else Inl InvalidInput)"

definition bytes_from_mib :: "u64 \<Rightarrow> u64 io_result" where
  "bytes_from_mib mib =
     ebind (ok_or InvalidInput (checked_mul mib MIB)) (\<lambda>total_bytes.
       if total_bytes = 0 then Inl InvalidInput
       else if total_bytes > MAX_TOTAL_BYTES then Inl InvalidInput
       else Inr total_bytes)"

definition validate_forced_data_stream_count :: "usize option \<Rightarrow> unit io_result" where
  "validate_forced_data_stream_count forced = (case forced of None \<Rightarrow> Inr () | Some n \<Rightarrow> validate_matrix_stream_count n)"

definition validate_source_path :: "ustring \<Rightarrow> unit io_result" where
  "validate_source_path source =
     (if source = [] then Inl InvalidInput
      else if str_len source > MAX_SOURCE_PATH_BYTES then Inl InvalidInput
      else if \<not> path_is_absolute source then Inl InvalidInput
      else Inr ())"

definition validate_destination_path :: "ustring \<Rightarrow> unit io_result" where
  "validate_destination_path destination =
     (if destination = [] then Inl InvalidInput
      else if str_len destination > MAX_DESTINATION_PATH_BYTES then Inl InvalidInput
      else if \<not> path_is_absolute destination then Inl InvalidInput
      else Inr ())"

definition validate_send_parameters :: "SocketAddr \<Rightarrow> ustring \<Rightarrow> usize \<Rightarrow> u64 \<Rightarrow> unit io_result" where
  "validate_send_parameters receiver_address source n_workers calibration =
     (if addr_port receiver_address = 0 then Inl InvalidInput
      else if str_len (display_socket_addr receiver_address) > JOB_RECEIVER_ENDPOINT_BYTES then Inl InvalidInput
      else
        ebind (validate_source_path source) (\<lambda>_.
        ebind (validate_worker_count n_workers) (\<lambda>_.
        ebind (bytes_from_mib calibration) (\<lambda>_. Inr ()))))"

definition decode_destination_path :: "byte list \<Rightarrow> ustring io_result" where
  "decode_destination_path bytes =
     ebind (ok_or InvalidData (from_utf8 bytes)) (\<lambda>path.
     ebind (invalid_data (validate_destination_path path)) (\<lambda>_. Inr path))"

definition encode_job_flags :: "bool \<Rightarrow> u8" where
  "encode_job_flags update = (if update then JOB_UPDATE_EXISTING_FLAG else 0)"

definition decode_job_flags :: "u8 \<Rightarrow> bool io_result" where
  "decode_job_flags flags =
     (if flags AND NOT KNOWN_JOB_FLAGS \<noteq> 0 then Inl InvalidData else Inr (flags AND JOB_UPDATE_EXISTING_FLAG \<noteq> 0))"

definition encode_prepare_flags :: "bool \<Rightarrow> bool \<Rightarrow> u8" where
  "encode_prepare_flags update resume =
     (let flags = encode_job_flags update in if resume then flags OR RESUME_TRANSFER_FLAG else flags)"

definition decode_prepare_flags :: "u8 \<Rightarrow> (bool \<times> bool) io_result" where
  "decode_prepare_flags flags =
     (if flags AND NOT KNOWN_PREPARE_FLAGS \<noteq> 0 then Inl InvalidData
      else Inr (flags AND JOB_UPDATE_EXISTING_FLAG \<noteq> 0, flags AND RESUME_TRANSFER_FLAG \<noteq> 0))"

section \<open>Prepare-receive requests\<close>

text \<open>
  Lengths are at most 32 bits wide and a \<^verbatim>\<open>usize\<close> has 64, so the checked additions of a header and a length
  cannot fail and are written as additions.
\<close>

definition encode_prepare_request_with_resume :: "ustring \<Rightarrow> bool \<Rightarrow> bool \<Rightarrow> byte list io_result" where
  "encode_prepare_request_with_resume destination update resume =
     ebind (validate_destination_path destination) (\<lambda>_.
     ebind (word_try_from InvalidInput (str_len destination)) (\<lambda>path_length :: u32.
       Inr (to_le_bytes PREPARE_REQUEST_VERSION @ [encode_prepare_flags update resume, 0] @
            to_le_bytes path_length @ as_bytes destination)))"

definition encode_prepare_request :: "ustring \<Rightarrow> bool \<Rightarrow> byte list io_result" where
  "encode_prepare_request destination update =
     encode_prepare_request_with_resume destination update False"

definition decode_prepare_request :: "byte list \<Rightarrow> PrepareReceiveRequest io_result" where
  "decode_prepare_request body =
     ebind (ensure (PREPARE_REQUEST_HEADER_BYTES \<le> length body) InvalidData) (\<lambda>_.
     ebind (ensure ((from_le_bytes (byte_slice body 0 2) :: u16) = PREPARE_REQUEST_VERSION) InvalidData) (\<lambda>_.
     ebind (decode_prepare_flags (body ! 2)) (\<lambda>(update, resume).
     ebind (ensure (body ! 3 = 0) InvalidData) (\<lambda>_.
     (let path_length = unat (from_le_bytes (byte_slice body 4 8) :: u32);
          expected_length = PREPARE_REQUEST_HEADER_BYTES + path_length in
     ebind (ensure (length body = expected_length) InvalidData) (\<lambda>_.
     ebind (decode_destination_path (drop PREPARE_REQUEST_HEADER_BYTES body)) (\<lambda>destination.
       Inr \<lparr>pq_destination_root = destination, pq_update_existing = update, pq_resume = resume\<rparr>)))))))"

section \<open>Start-send requests\<close>

definition encode_start_send_request_with_stream_count_and_desktop_layout ::
    "SocketAddr \<Rightarrow> ustring \<Rightarrow> usize \<Rightarrow> u64 \<Rightarrow> usize option \<Rightarrow> bool \<Rightarrow> byte list io_result" where
  "encode_start_send_request_with_stream_count_and_desktop_layout
       receiver_address source n_workers calibration forced preserve =
     ebind (validate_send_parameters receiver_address source n_workers calibration) (\<lambda>_.
     ebind (validate_forced_data_stream_count forced) (\<lambda>_.
     (let receiver_text = display_socket_addr receiver_address in
     ebind (word_try_from InvalidInput (str_len receiver_text)) (\<lambda>receiver_length :: u16.
     ebind (word_try_from InvalidInput (str_len source)) (\<lambda>source_length :: u32.
     ebind (word_try_from InvalidInput n_workers) (\<lambda>workers32 :: u32.
     ebind (case forced of Some n \<Rightarrow> word_try_from InvalidInput n | None \<Rightarrow> Inr 0) (\<lambda>forced32 :: u32.
       Inr (to_le_bytes START_SEND_REQUEST_VERSION @
            to_le_bytes (if preserve then PRESERVE_DESKTOP_LAYOUT_FLAG else 0) @
            to_le_bytes workers32 @ to_le_bytes calibration @ to_le_bytes receiver_length @ to_le_bytes (0 :: u16) @
            to_le_bytes source_length @ to_le_bytes forced32 @ as_bytes receiver_text @ as_bytes source))))))))"

definition encode_start_send_request_with_stream_count ::
    "SocketAddr \<Rightarrow> ustring \<Rightarrow> usize \<Rightarrow> u64 \<Rightarrow> usize option \<Rightarrow> byte list io_result" where
  "encode_start_send_request_with_stream_count receiver_address source n_workers calibration forced =
     encode_start_send_request_with_stream_count_and_desktop_layout
       receiver_address source n_workers calibration forced False"

definition encode_start_send_request :: "SocketAddr \<Rightarrow> ustring \<Rightarrow> usize \<Rightarrow> u64 \<Rightarrow> byte list io_result" where
  "encode_start_send_request receiver_address source n_workers calibration =
     encode_start_send_request_with_stream_count receiver_address source n_workers calibration None"

definition decode_forced_stream_count :: "byte list \<Rightarrow> usize option" where
  "decode_forced_stream_count body =
     (let encoded = (from_le_bytes (byte_slice body 24 28) :: u32) in if encoded = 0 then None else Some (unat encoded))"

text \<open>The header by version: its length, the forced stream count and the desktop flag.\<close>

definition decode_start_send_version :: "byte list \<Rightarrow> (usize \<times> usize option \<times> bool) io_result" where
  "decode_start_send_version body =
     (let version = (from_le_bytes (byte_slice body 0 2) :: u16);
          flags = (from_le_bytes (byte_slice body 2 4) :: u16) in
      if version = START_SEND_REQUEST_VERSION_V1 then
        if flags \<noteq> 0 then Inl InvalidData else Inr (START_SEND_REQUEST_HEADER_BYTES_V1, None, False)
      else if version = START_SEND_REQUEST_VERSION_V2 then
        if length body < START_SEND_REQUEST_HEADER_BYTES then Inl InvalidData
        else if flags \<noteq> 0 then Inl InvalidData
        else Inr (START_SEND_REQUEST_HEADER_BYTES, decode_forced_stream_count body, False)
      else if version = START_SEND_REQUEST_VERSION then
        if length body < START_SEND_REQUEST_HEADER_BYTES then Inl InvalidData
        else if flags AND NOT KNOWN_START_SEND_FLAGS \<noteq> 0 then Inl InvalidData
        else Inr (START_SEND_REQUEST_HEADER_BYTES, decode_forced_stream_count body, flags AND PRESERVE_DESKTOP_LAYOUT_FLAG \<noteq> 0)
      else Inl InvalidData)"

definition decode_start_send_request :: "byte list \<Rightarrow> StartSendRequest io_result" where
  "decode_start_send_request body =
     ebind (ensure (START_SEND_REQUEST_HEADER_BYTES_V1 \<le> length body) InvalidData) (\<lambda>_.
     ebind (decode_start_send_version body) (\<lambda>(header_bytes, forced, preserve).
     (let n_workers = unat (from_le_bytes (byte_slice body 4 8) :: u32);
          calibration = (from_le_bytes (byte_slice body 8 16) :: u64);
          receiver_length = unat (from_le_bytes (byte_slice body 16 18) :: u16);
          second_reserved = (from_le_bytes (byte_slice body 18 20) :: u16);
          source_length = unat (from_le_bytes (byte_slice body 20 24) :: u32);
          receiver_end = header_bytes + receiver_length;
          expected_length = receiver_end + source_length in
     ebind (ensure (second_reserved = 0) InvalidData) (\<lambda>_.
     ebind (ensure (length body = expected_length) InvalidData) (\<lambda>_.
     ebind (ok_or InvalidData (from_utf8 (byte_slice body header_bytes receiver_end))) (\<lambda>receiver_text.
     ebind (ensure (receiver_text \<noteq> [] \<and> str_len receiver_text \<le> JOB_RECEIVER_ENDPOINT_BYTES) InvalidData) (\<lambda>_.
     ebind (ok_or InvalidData (parse_socket_addr_text receiver_text)) (\<lambda>receiver_address.
     ebind (ok_or InvalidData (from_utf8 (drop receiver_end body))) (\<lambda>source.
     ebind (invalid_data
             (ebind (validate_send_parameters receiver_address source n_workers calibration)
               (\<lambda>_. validate_forced_data_stream_count forced))) (\<lambda>_.
       Inr \<lparr>sq_receiver_address = receiver_address, sq_source_root = source, sq_worker_count = n_workers,
            sq_calibration_mib = calibration, sq_forced_streams = forced, sq_preserve_desktop = preserve\<rparr>))))))))))"

definition encode_started_send_response :: "StartedSendJob \<Rightarrow> byte list io_result" where
  "encode_started_send_response job =
     (if sj_job_id job = 0 then Inl InvalidInput
      else
        ebind (encode_start_send_request (sj_receiver_address job) (sj_source_root job) (sj_worker_count job)
                 (sj_calibration_mib job)) (\<lambda>request.
          Inr (to_le_bytes START_SEND_RESPONSE_VERSION @ to_le_bytes (0 :: u16) @ to_le_bytes (sj_job_id job) @ request)))"

definition decode_started_send_response :: "byte list \<Rightarrow> StartedSendJob io_result" where
  "decode_started_send_response body =
     ebind (ensure (START_SEND_RESPONSE_HEADER_BYTES \<le> length body) InvalidData) (\<lambda>_.
     ebind (ensure ((from_le_bytes (byte_slice body 0 2) :: u16) = START_SEND_RESPONSE_VERSION) InvalidData) (\<lambda>_.
     ebind (ensure ((from_le_bytes (byte_slice body 2 4) :: u16) = 0) InvalidData) (\<lambda>_.
     (let job_id = (from_le_bytes (byte_slice body 4 12) :: u64) in
     ebind (ensure (job_id \<noteq> 0) InvalidData) (\<lambda>_.
     ebind (decode_start_send_request (drop START_SEND_RESPONSE_HEADER_BYTES body)) (\<lambda>request.
       Inr \<lparr>sj_job_id = job_id, sj_receiver_address = sq_receiver_address request, sj_source_root = sq_source_root request,
            sj_worker_count = sq_worker_count request, sj_calibration_mib = sq_calibration_mib request\<rparr>))))))"

section \<open>Status and cancellation\<close>

definition encode_status :: "ManagementJobStatus \<Rightarrow> byte list io_result" where
  "encode_status status =
     ebind (case js_phase status of
         Idle \<Rightarrow>
           if js_job_id status \<noteq> None \<or> js_transfer_port status \<noteq> None \<or> js_destination_root status \<noteq> None \<or>
              js_update_existing status
           then Inl InvalidInput else Inr (0, 0, [])
       | ReceiverPrepared \<Rightarrow>
           ebind (ok_or InvalidInput (js_job_id status)) (\<lambda>job_id.
           ebind (ensure (job_id \<noteq> 0) InvalidInput) (\<lambda>_.
           ebind (ok_or InvalidInput (js_transfer_port status)) (\<lambda>transfer_port.
           ebind (ensure (transfer_port \<noteq> 0) InvalidInput) (\<lambda>_.
           ebind (ok_or InvalidInput (js_destination_root status)) (\<lambda>destination.
           ebind (validate_destination_path destination) (\<lambda>_.
             Inr (job_id, transfer_port, destination)))))))
       | SenderRunning \<Rightarrow>
           ebind (ok_or InvalidInput (js_job_id status)) (\<lambda>job_id.
           ebind (ensure (job_id \<noteq> 0) InvalidInput) (\<lambda>_.
             if js_transfer_port status \<noteq> None \<or> js_destination_root status \<noteq> None \<or> js_update_existing status
             then Inl InvalidInput else Inr (job_id, 0, []))))
       (\<lambda>(job_id, transfer_port, destination).
     ebind (word_try_from InvalidInput (str_len destination)) (\<lambda>path_length :: u32.
       Inr (to_le_bytes JOB_STATUS_VERSION @ [phase_code (js_phase status), encode_job_flags (js_update_existing status)] @
            to_le_bytes job_id @ to_le_bytes transfer_port @ to_le_bytes (0 :: u16) @ to_le_bytes path_length @
            as_bytes destination)))"

definition decode_status :: "byte list \<Rightarrow> ManagementJobStatus io_result" where
  "decode_status body =
     ebind (ensure (JOB_STATUS_HEADER_BYTES \<le> length body) InvalidData) (\<lambda>_.
     ebind (ensure ((from_le_bytes (byte_slice body 0 2) :: u16) = JOB_STATUS_VERSION) InvalidData) (\<lambda>_.
     ebind (phase_try_from (body ! 2)) (\<lambda>job_phase.
     ebind (decode_job_flags (body ! 3)) (\<lambda>update.
     (let job_id = (from_le_bytes (byte_slice body 4 12) :: u64);
          transfer_port = (from_le_bytes (byte_slice body 12 14) :: u16);
          reserved = (from_le_bytes (byte_slice body 14 16) :: u16);
          path_length = unat (from_le_bytes (byte_slice body 16 20) :: u32);
          expected_length = JOB_STATUS_HEADER_BYTES + path_length in
     ebind (ensure (reserved = 0) InvalidData) (\<lambda>_.
     ebind (ensure (length body = expected_length) InvalidData) (\<lambda>_.
       (case job_phase of
          Idle \<Rightarrow>
            if job_id \<noteq> 0 \<or> transfer_port \<noteq> 0 \<or> path_length \<noteq> 0 \<or> update then Inl InvalidData
            else Inr \<lparr>js_phase = Idle, js_job_id = None, js_transfer_port = None, js_destination_root = None,
                      js_update_existing = False\<rparr>
        | ReceiverPrepared \<Rightarrow>
            if job_id = 0 then Inl InvalidData
            else if transfer_port = 0 then Inl InvalidData
            else
              ebind (decode_destination_path (drop JOB_STATUS_HEADER_BYTES body)) (\<lambda>destination.
                Inr \<lparr>js_phase = ReceiverPrepared, js_job_id = Some job_id, js_transfer_port = Some transfer_port,
                     js_destination_root = Some destination, js_update_existing = update\<rparr>)
        | SenderRunning \<Rightarrow>
            if job_id = 0 then Inl InvalidData
            else if transfer_port \<noteq> 0 \<or> path_length \<noteq> 0 \<or> update then Inl InvalidData
            else Inr \<lparr>js_phase = SenderRunning, js_job_id = Some job_id, js_transfer_port = None,
                      js_destination_root = None, js_update_existing = False\<rparr>))))))))"

definition encode_prepared_response :: "PreparedReceiveJob \<Rightarrow> byte list io_result" where
  "encode_prepared_response job =
     encode_status \<lparr>js_phase = ReceiverPrepared, js_job_id = Some (pj_job_id job), js_transfer_port = Some (pj_transfer_port job),
       js_destination_root = Some (pj_destination_root job), js_update_existing = pj_update_existing job\<rparr>"

definition decode_prepared_response :: "byte list \<Rightarrow> PreparedReceiveJob io_result" where
  "decode_prepared_response body =
     ebind (decode_status body) (\<lambda>status.
     ebind (ensure (js_phase status = ReceiverPrepared) InvalidData) (\<lambda>_.
     ebind (ok_or InvalidData (js_job_id status)) (\<lambda>job_id.
     ebind (ok_or InvalidData (js_transfer_port status)) (\<lambda>transfer_port.
     ebind (ok_or InvalidData (js_destination_root status)) (\<lambda>destination.
       Inr \<lparr>pj_job_id = job_id, pj_transfer_port = transfer_port, pj_destination_root = destination,
            pj_update_existing = js_update_existing status\<rparr>)))))"

definition encode_cancel_request :: "u64 \<Rightarrow> byte list io_result" where
  "encode_cancel_request job_id =
     (if job_id = 0 then Inl InvalidInput
      else Inr (to_le_bytes CANCEL_REQUEST_VERSION @ to_le_bytes (0 :: u16) @ to_le_bytes job_id))"

definition decode_cancel_request :: "byte list \<Rightarrow> u64 io_result" where
  "decode_cancel_request body =
     ebind (ensure (length body = CANCEL_REQUEST_BYTES) InvalidData) (\<lambda>_.
     ebind (ensure ((from_le_bytes (byte_slice body 0 2) :: u16) = CANCEL_REQUEST_VERSION) InvalidData) (\<lambda>_.
     ebind (ensure ((from_le_bytes (byte_slice body 2 4) :: u16) = 0) InvalidData) (\<lambda>_.
     (let job_id = (from_le_bytes (byte_slice body 4 12) :: u64) in
     ebind (ensure (job_id \<noteq> 0) InvalidData) (\<lambda>_. Inr job_id)))))"

section \<open>Round trips\<close>

lemma phase_try_from_code [simp]: "phase_try_from (phase_code p) = Inr p"
  by (cases p) (simp_all add: phase_try_from_def)

lemma decode_job_flags_encode [simp]: "decode_job_flags (encode_job_flags u) = Inr u"
  by (simp add: decode_job_flags_def encode_job_flags_def job_constants)

lemma decode_prepare_flags_encode [simp]: "decode_prepare_flags (encode_prepare_flags u r) = Inr (u, r)"
  by (cases u; cases r) (simp_all add: decode_prepare_flags_def encode_prepare_flags_def encode_job_flags_def job_constants)

lemma validate_destination_path_Inr:
  "validate_destination_path d = Inr u \<longleftrightarrow>
     d \<noteq> [] \<and> str_len d \<le> MAX_DESTINATION_PATH_BYTES \<and> path_is_absolute d"
  by (auto simp: validate_destination_path_def)

lemma validate_source_path_Inr:
  "validate_source_path d = Inr u \<longleftrightarrow> d \<noteq> [] \<and> str_len d \<le> MAX_SOURCE_PATH_BYTES \<and> path_is_absolute d"
  by (auto simp: validate_source_path_def)

lemma decode_destination_path_as_bytes:
  "is_text d \<Longrightarrow> validate_destination_path d = Inr () \<Longrightarrow> decode_destination_path (as_bytes d) = Inr d"
  by (simp add: decode_destination_path_def from_utf8_as_bytes invalid_data_def)

lemma prepare_request_codec:
  assumes "encode_prepare_request_with_resume d u r = Inr bs" "is_text d"
  shows "decode_prepare_request bs = Inr \<lparr>pq_destination_root = d, pq_update_existing = u, pq_resume = r\<rparr>"
proof -
  have valid: "validate_destination_path d = Inr ()" "str_len d < 2 ^ 32"
    and bs: "bs = to_le_bytes PREPARE_REQUEST_VERSION @ [encode_prepare_flags u r, 0] @
      to_le_bytes (of_nat (str_len d) :: u32) @ as_bytes d"
    using assms(1) by (auto simp: encode_prepare_request_with_resume_def result_simps word_try_from_Inr)
  have "unat (of_nat (str_len d) :: u32) = str_len d" using valid(2) by (simp add: unat_of_nat_small)
  then show ?thesis
    using decode_destination_path_as_bytes [OF assms(2) valid(1)]
    unfolding bs decode_prepare_request_def
    by (simp add: byte_slice_def PREPARE_REQUEST_HEADER_BYTES_def from_to_le_bytes Let_def nth_append)
qed

lemma cancel_request_codec: "encode_cancel_request j = Inr bs \<Longrightarrow> decode_cancel_request bs = Inr j"
  by (auto simp: encode_cancel_request_def decode_cancel_request_def byte_slice_def CANCEL_REQUEST_BYTES_def from_to_le_bytes
      Let_def split: if_splits)

lemma validate_send_parameters_Inr:
  "validate_send_parameters a s w c = Inr u \<longleftrightarrow>
     addr_port a \<noteq> 0 \<and> str_len (display_socket_addr a) \<le> JOB_RECEIVER_ENDPOINT_BYTES \<and>
     validate_source_path s = Inr () \<and> validate_worker_count w = Inr () \<and> (\<exists>b. bytes_from_mib c = Inr b)"
  by (auto simp: validate_send_parameters_def result_simps)

definition forced_word :: "usize option \<Rightarrow> u32" where
  "forced_word forced = (case forced of Some n \<Rightarrow> of_nat n | None \<Rightarrow> 0)"

lemma forced_word_decode:
  "validate_forced_data_stream_count forced = Inr () \<Longrightarrow>
     (if forced_word forced = 0 then None else Some (unat (forced_word forced))) = forced"
  by (cases forced)
    (auto simp: forced_word_def validate_forced_data_stream_count_def validate_matrix_stream_count_def MATRIX_STREAM_COUNTS_def
      split: if_splits)

lemma start_send_request_codec:
  assumes "encode_start_send_request_with_stream_count_and_desktop_layout a s w c forced p = Inr bs"
    and "is_text s" "without_flowinfo a = a"
  shows "decode_start_send_request bs = Inr \<lparr>sq_receiver_address = a, sq_source_root = s, sq_worker_count = w,
    sq_calibration_mib = c, sq_forced_streams = forced, sq_preserve_desktop = p\<rparr>"
proof -
  define receiver_text where "receiver_text = display_socket_addr a"
  define flags where "flags = (if p then PRESERVE_DESKTOP_LAYOUT_FLAG else 0)"
  have valid: "validate_send_parameters a s w c = Inr ()" "validate_forced_data_stream_count forced = Inr ()"
    and small: "str_len receiver_text < 2 ^ 16" "str_len s < 2 ^ 32" "w < 2 ^ 32"
    and bs: "bs = to_le_bytes START_SEND_REQUEST_VERSION @ to_le_bytes flags @ to_le_bytes (of_nat w :: u32) @ to_le_bytes c @
      to_le_bytes (of_nat (str_len receiver_text) :: u16) @ to_le_bytes (0 :: u16) @
      to_le_bytes (of_nat (str_len s) :: u32) @ to_le_bytes (forced_word forced) @ as_bytes receiver_text @ as_bytes s"
    using assms(1)
    by (auto simp: encode_start_send_request_with_stream_count_and_desktop_layout_def result_simps Let_def word_try_from_Inr
        receiver_text_def flags_def forced_word_def split: option.splits)
  have words: "unat (of_nat w :: u32) = w" "unat (of_nat (str_len receiver_text) :: u16) = str_len receiver_text"
    "unat (of_nat (str_len s) :: u32) = str_len s"
    using small by (simp_all add: unat_of_nat_small)
  have texts: "from_utf8 (as_bytes s) = Some s" "from_utf8 (as_bytes receiver_text) = Some receiver_text"
    "parse_socket_addr_text receiver_text = Some a" "receiver_text \<noteq> []" "str_len receiver_text \<le> JOB_RECEIVER_ENDPOINT_BYTES"
    using assms(2,3) ascii_socket_addr valid(1) socket_text_ok [of a]
    by (auto simp: receiver_text_def parse_display_socket_addr ascii_text_is_text from_utf8_as_bytes validate_send_parameters_Inr
        validate_text_def)
  have fields: "length bs = 28 + str_len receiver_text + str_len s"
    "(from_le_bytes (byte_slice bs 0 2) :: u16) = START_SEND_REQUEST_VERSION" "(from_le_bytes (byte_slice bs 2 4) :: u16) = flags"
    "unat (from_le_bytes (byte_slice bs 4 8) :: u32) = w" "(from_le_bytes (byte_slice bs 8 16) :: u64) = c"
    "unat (from_le_bytes (byte_slice bs 16 18) :: u16) = str_len receiver_text" "(from_le_bytes (byte_slice bs 18 20) :: u16) = 0"
    "unat (from_le_bytes (byte_slice bs 20 24) :: u32) = str_len s" "(from_le_bytes (byte_slice bs 24 28) :: u32) = forced_word forced"
    "byte_slice bs 28 (28 + str_len receiver_text) = as_bytes receiver_text" "drop (28 + str_len receiver_text) bs = as_bytes s"
    using words by (simp_all add: bs byte_slice_def from_to_le_bytes)
  have version: "decode_start_send_version bs = Inr (28, forced, p)"
    using forced_word_decode [OF valid(2)]
    by (simp add: decode_start_send_version_def decode_forced_stream_count_def fields job_constants flags_def Let_def)
  show ?thesis
    using texts valid unfolding decode_start_send_request_def
    by (simp add: version fields START_SEND_REQUEST_HEADER_BYTES_V1_def Let_def invalid_data_def)
qed

lemma started_send_response_codec:
  assumes "encode_started_send_response job = Inr bs" "is_text (sj_source_root job)"
    "without_flowinfo (sj_receiver_address job) = sj_receiver_address job"
  shows "decode_started_send_response bs = Inr job"
proof -
  obtain request where request: "encode_start_send_request_with_stream_count_and_desktop_layout (sj_receiver_address job)
      (sj_source_root job) (sj_worker_count job) (sj_calibration_mib job) None False = Inr request"
    and job: "sj_job_id job \<noteq> 0"
    and bs: "bs = to_le_bytes START_SEND_RESPONSE_VERSION @ to_le_bytes (0 :: u16) @ to_le_bytes (sj_job_id job) @ request"
    using assms(1) by (auto simp: encode_started_send_response_def encode_start_send_request_def
        encode_start_send_request_with_stream_count_def result_simps split: if_splits)
  show ?thesis
    using start_send_request_codec [OF request assms(2,3)] job unfolding bs decode_started_send_response_def
    by (simp add: byte_slice_def START_SEND_RESPONSE_HEADER_BYTES_def from_to_le_bytes Let_def)
qed

lemma status_codec:
  assumes "encode_status st = Inr bs" "pred_option is_text (js_destination_root st)"
  shows "decode_status bs = Inr st"
proof -
  obtain j t d where st: "(js_phase st = Idle \<and> st = \<lparr>js_phase = Idle, js_job_id = None, js_transfer_port = None,
        js_destination_root = None, js_update_existing = False\<rparr> \<and> j = 0 \<and> t = 0 \<and> d = []) \<or>
      (js_phase st = ReceiverPrepared \<and> st = \<lparr>js_phase = ReceiverPrepared, js_job_id = Some j, js_transfer_port = Some t,
        js_destination_root = Some d, js_update_existing = js_update_existing st\<rparr> \<and> j \<noteq> 0 \<and> t \<noteq> 0 \<and> validate_destination_path d = Inr ()) \<or>
      (js_phase st = SenderRunning \<and> st = \<lparr>js_phase = SenderRunning, js_job_id = Some j, js_transfer_port = None,
        js_destination_root = None, js_update_existing = False\<rparr> \<and> j \<noteq> 0 \<and> t = 0 \<and> d = [])"
    and d: "str_len d < 2 ^ 32"
    and bs: "bs = to_le_bytes JOB_STATUS_VERSION @ [phase_code (js_phase st), encode_job_flags (js_update_existing st)] @
      to_le_bytes j @ to_le_bytes t @ to_le_bytes (0 :: u16) @ to_le_bytes (of_nat (str_len d) :: u32) @ as_bytes d"
    using assms(1) unfolding encode_status_def
    by (cases st; cases "js_phase st") (auto simp: result_simps word_try_from_Inr split: if_splits)
  have "unat (of_nat (str_len d) :: u32) = str_len d" using d by (simp add: unat_of_nat_small)
  then have fields: "length bs = 20 + str_len d" "(from_le_bytes (byte_slice bs 0 2) :: u16) = JOB_STATUS_VERSION"
    "bs ! 2 = phase_code (js_phase st)" "bs ! 3 = encode_job_flags (js_update_existing st)"
    "from_le_bytes (byte_slice bs 4 12) = j" "from_le_bytes (byte_slice bs 12 14) = t"
    "(from_le_bytes (byte_slice bs 14 16) :: u16) = 0" "unat (from_le_bytes (byte_slice bs 16 20) :: u32) = str_len d"
    "drop 20 bs = as_bytes d"
    by (simp_all add: bs byte_slice_def from_to_le_bytes nth_append)
  show ?thesis using st
  proof (elim disjE conjE)
    assume rp: "js_phase st = ReceiverPrepared" "st = \<lparr>js_phase = ReceiverPrepared, js_job_id = Some j, js_transfer_port = Some t,
        js_destination_root = Some d, js_update_existing = js_update_existing st\<rparr>" "j \<noteq> 0" "t \<noteq> 0" "validate_destination_path d = Inr ()"
    have "js_destination_root st = Some d" by (subst rp(2)) simp
    with assms(2) have "is_text d" by simp
    then have "decode_status bs = Inr \<lparr>js_phase = ReceiverPrepared, js_job_id = Some j, js_transfer_port = Some t,
        js_destination_root = Some d, js_update_existing = js_update_existing st\<rparr>"
      using rp(1,3-5) decode_destination_path_as_bytes [of d]
      by (simp add: decode_status_def fields JOB_STATUS_HEADER_BYTES_def Let_def phase_try_from_def)
    with rp(2) show ?thesis by simp
  qed (auto simp: decode_status_def fields JOB_STATUS_HEADER_BYTES_def Let_def str_len_def phase_try_from_def)
qed

lemma prepared_response_codec:
  assumes "encode_prepared_response job = Inr bs" "is_text (pj_destination_root job)"
  shows "decode_prepared_response bs = Inr job"
proof -
  have "decode_status bs = Inr \<lparr>js_phase = ReceiverPrepared, js_job_id = Some (pj_job_id job),
      js_transfer_port = Some (pj_transfer_port job), js_destination_root = Some (pj_destination_root job),
      js_update_existing = pj_update_existing job\<rparr>"
    using assms(1) unfolding encode_prepared_response_def by (rule status_codec) (simp add: assms(2))
  then show ?thesis by (simp add: decode_prepared_response_def)
qed

section \<open>What a decoded request satisfies\<close>

lemma bytes_from_mib_Inr:
  "bytes_from_mib c = Inr b \<longleftrightarrow> 0 < unat c \<and> unat c \<le> 2 ^ 20 \<and> unat b = unat c * 2 ^ 20"
proof (cases "unat c * 2 ^ 20 < 2 ^ 64")
  case True
  then have u: "unat (c * MIB) = unat c * 2 ^ 20" by (simp add: unat_word_ariths MIB_def)
  have b: "b = c * MIB \<longleftrightarrow> unat b = unat c * 2 ^ 20" by (simp only: word_unat_eq_iff u)
  have z: "c * MIB = 0 \<longleftrightarrow> unat c = 0" using u by (simp flip: unat_eq_0)
  have m: "c * MIB > MAX_TOTAL_BYTES \<longleftrightarrow> unat c > 2 ^ 20" unfolding word_less_nat_alt u by (simp add: MAX_TOTAL_BYTES_def)
  have "checked_mul c MIB = Some (c * MIB)" using True by (simp add: checked_mul_def MIB_def)
  then show ?thesis using b z m by (auto simp: bytes_from_mib_def)
next
  case False
  then show ?thesis by (simp add: bytes_from_mib_def checked_mul_def MIB_def)
qed

definition send_request_wf :: "StartSendRequest \<Rightarrow> bool" where
  "send_request_wf r \<longleftrightarrow>
     addr_port (sq_receiver_address r) \<noteq> 0 \<and>
     sq_source_root r \<noteq> [] \<and> str_len (sq_source_root r) \<le> MAX_SOURCE_PATH_BYTES \<and> path_is_absolute (sq_source_root r) \<and>
     1 \<le> sq_worker_count r \<and> sq_worker_count r \<le> MAX_WORKERS \<and>
     1 \<le> unat (sq_calibration_mib r) \<and> unat (sq_calibration_mib r) \<le> 2 ^ 20 \<and>
     (\<forall>n. sq_forced_streams r = Some n \<longrightarrow> n \<in> {1, 2, 4, 8})"

definition prepare_request_wf :: "PrepareReceiveRequest \<Rightarrow> bool" where
  "prepare_request_wf r \<longleftrightarrow>
     pq_destination_root r \<noteq> [] \<and> str_len (pq_destination_root r) \<le> MAX_DESTINATION_PATH_BYTES \<and>
     path_is_absolute (pq_destination_root r)"

lemma validate_worker_count_Inr: "validate_worker_count w = Inr u \<longleftrightarrow> 1 \<le> w \<and> w \<le> MAX_WORKERS"
  by (auto simp: validate_worker_count_def)

lemma socket_text_short: "str_len (display_socket_addr a) \<le> JOB_RECEIVER_ENDPOINT_BYTES"
  using socket_text_ok [of a] by (auto simp: validate_text_def MAX_RECEIVER_ENDPOINT_BYTES_def JOB_RECEIVER_ENDPOINT_BYTES_def
      split: if_splits)

lemma send_parameters_wf:
  "validate_send_parameters (sq_receiver_address r) (sq_source_root r) (sq_worker_count r) (sq_calibration_mib r) = Inr () \<and>
   validate_forced_data_stream_count (sq_forced_streams r) = Inr () \<longleftrightarrow> send_request_wf r"
proof -
  have b: "(\<exists>b :: u64. unat b = unat c * 2 ^ 20) \<or> \<not> unat c \<le> 2 ^ 20" for c :: u64
    by (rule disjCI, rule exI [of _ "of_nat (unat c * 2 ^ 20)"], rule unat_of_nat_small) simp
  have f: "validate_forced_data_stream_count x = Inr () \<longleftrightarrow> (\<forall>n. x = Some n \<longrightarrow> n \<in> {1, 2, 4, 8})" for x
    by (cases x) (auto simp: validate_forced_data_stream_count_def validate_matrix_stream_count_def MATRIX_STREAM_COUNTS_def)
  show ?thesis
    unfolding send_request_wf_def validate_send_parameters_Inr validate_source_path_Inr validate_worker_count_Inr f
      bytes_from_mib_Inr
    using b [of "sq_calibration_mib r"] socket_text_short by auto
qed

lemma decoded_start_send_wf: "decode_start_send_request bs = Inr r \<Longrightarrow> send_request_wf r"
  by (subst send_parameters_wf [symmetric])
    (auto simp: decode_start_send_request_def Let_def result_simps invalid_data_def)

lemma decode_destination_path_Inr:
  "decode_destination_path bs = Inr d \<Longrightarrow> from_utf8 bs = Some d \<and> validate_destination_path d = Inr ()"
  by (auto simp: decode_destination_path_def result_simps invalid_data_def)

lemma decoded_prepare_wf: "decode_prepare_request bs = Inr r \<Longrightarrow> prepare_request_wf r"
  by (auto simp: decode_prepare_request_def prepare_request_wf_def Let_def result_simps validate_destination_path_Inr
      dest!: decode_destination_path_Inr)

lemma invalid_data_Inl: "invalid_data r = Inl e \<Longrightarrow> e = InvalidData"
  by (cases r) (simp_all add: invalid_data_def)

lemma decode_start_send_version_error: "decode_start_send_version bs = Inl e \<Longrightarrow> e = InvalidData"
  by (auto simp: decode_start_send_version_def Let_def split: if_splits)

lemma decode_start_send_error: "decode_start_send_request bs = Inl e \<Longrightarrow> e = InvalidData"
  by (auto simp: decode_start_send_request_def Let_def ebind_Inl ensure_Inl ok_or_Inl
      dest: invalid_data_Inl decode_start_send_version_error)

lemma decode_destination_path_error: "decode_destination_path bs = Inl e \<Longrightarrow> e = InvalidData"
  by (auto simp: decode_destination_path_def ebind_Inl ok_or_Inl dest: invalid_data_Inl)

lemma decode_prepare_error: "decode_prepare_request bs = Inl e \<Longrightarrow> e = InvalidData"
  by (auto simp: decode_prepare_request_def decode_prepare_flags_def Let_def ebind_Inl ensure_Inl
      dest: decode_destination_path_error split: if_splits)

lemma encode_start_send_wf:
  "(\<exists>bs. encode_start_send_request_with_stream_count_and_desktop_layout (sq_receiver_address r) (sq_source_root r)
      (sq_worker_count r) (sq_calibration_mib r) (sq_forced_streams r) (sq_preserve_desktop r) = Inr bs) \<longleftrightarrow>
   send_request_wf r"
proof -
  have "str_len (sq_source_root r) < 2 ^ 32" "sq_worker_count r < 2 ^ 32"
    "\<And>n. sq_forced_streams r = Some n \<Longrightarrow> n < 2 ^ 32" if "send_request_wf r"
    using that by (auto simp: send_request_wf_def MAX_SOURCE_PATH_BYTES_def MAX_WORKERS_def)
  then show ?thesis
    unfolding send_parameters_wf [symmetric] encode_start_send_request_with_stream_count_and_desktop_layout_def
    by (auto simp: result_simps Let_def socket_text_length word_try_from_Inr
        simp del: display_socket_addr.simps split: option.splits)
qed

end
