(* ===== verification/Job_Registry.thy ===== *)
theory Job_Registry
  imports Job_Messages
begin

text \<open>
  The job registry of an agent (\<^verbatim>\<open>src/management_jobs.rs\<close>) and the progress counters its jobs share with it
  (\<^verbatim>\<open>src/console_progress.rs\<close>): preparing a receiver, starting a sender, snapshot, status, cancellation and the
  end of a job.  Each operation is modelled whole, and as the sequence of its atomic parts, which the two server
  threads and the workers interleave in the step relation \<open>agent_step\<close>.  A poisoned lock is not modelled: no
  code that holds the lock panics.
\<close>

section \<open>Progress counters\<close>

text \<open>
  A counter is shared by reference between the registry and the thread that runs the job, so the counters are
  a store and a reference is an index into it.  The load and the store of one atomic field are one operation
  each, the label is guarded by its own mutex.
\<close>

record ProgressCounter =
  pc_label :: ustring
  pc_completed :: u64
  pc_total :: u64
  pc_finished :: bool
  pc_cancelled :: bool

definition progress_new :: "ustring \<Rightarrow> u64 \<Rightarrow> ProgressCounter" where
  "progress_new label n = \<lparr>pc_label = label, pc_completed = 0, pc_total = n, pc_finished = False, pc_cancelled = False\<rparr>"

definition progress_add :: "u64 \<Rightarrow> ProgressCounter \<Rightarrow> ProgressCounter" where
  "progress_add bytes p = p\<lparr>pc_completed := saturating_add (pc_completed p) bytes\<rparr>"

definition progress_set_completed :: "u64 \<Rightarrow> ProgressCounter \<Rightarrow> ProgressCounter" where
  "progress_set_completed bytes p = p\<lparr>pc_completed := bytes\<rparr>"

definition progress_set_total :: "u64 \<Rightarrow> ProgressCounter \<Rightarrow> ProgressCounter" where
  "progress_set_total bytes p = p\<lparr>pc_total := bytes\<rparr>"

definition progress_set_label :: "ustring \<Rightarrow> ProgressCounter \<Rightarrow> ProgressCounter" where
  "progress_set_label label p = p\<lparr>pc_label := label\<rparr>"

definition progress_cancel :: "ProgressCounter \<Rightarrow> ProgressCounter" where
  "progress_cancel p = p\<lparr>pc_cancelled := True\<rparr>"

definition progress_stop :: "ProgressCounter \<Rightarrow> ProgressCounter" where
  "progress_stop p = p\<lparr>pc_finished := True\<rparr>"

definition progress_complete :: "ProgressCounter \<Rightarrow> ProgressCounter" where
  "progress_complete p = progress_stop (progress_set_completed (pc_total p) p)"

definition check_cancelled :: "ProgressCounter \<Rightarrow> unit io_result" where
  "check_cancelled p = (if pc_cancelled p then Inl Interrupted else Inr ())"

section \<open>The registry\<close>

record ActiveReceiveJob =
  ar_job :: PreparedReceiveJob
  ar_progress :: nat

record ActiveSendJob =
  as_job :: StartedSendJob
  as_progress :: nat

record JobRegistryInner =
  active_receive :: "ActiveReceiveJob option"
  active_send :: "ActiveSendJob option"
  registry_latest :: "ManagementJobResult option"

definition registry_active_job_id :: "JobRegistryInner \<Rightarrow> u64 option" where
  "registry_active_job_id inner =
     (case active_receive inner of
        Some active \<Rightarrow> Some (pj_job_id (ar_job active))
      | None \<Rightarrow> map_option (\<lambda>active. sj_job_id (as_job active)) (active_send inner))"

text \<open>The threads the agent has started for its jobs, with what each was given.\<close>

datatype job_worker =
    ReceiveWorker (worker_job_id: u64) (worker_progress: nat) ustring bool bool
  | SendWorker (worker_job_id: u64) (worker_progress: nat) SocketAddr ustring usize u64 "usize option" bool

record ManagementJobRegistry =
  registry_instance_id :: AgentInstanceId
  next_job_id :: u64
  registry_inner :: JobRegistryInner
  counters :: "ProgressCounter list"
  workers :: "job_worker list"

definition ManagementJobRegistry_new :: "AgentInstanceId \<Rightarrow> ManagementJobRegistry" where
  "ManagementJobRegistry_new instance_id =
     \<lparr>registry_instance_id = instance_id, next_job_id = 1,
      registry_inner = \<lparr>active_receive = None, active_send = None, registry_latest = None\<rparr>, counters = [], workers = []\<rparr>"

definition is_busy :: "ManagementJobRegistry \<Rightarrow> bool" where
  "is_busy g \<longleftrightarrow> registry_active_job_id (registry_inner g) \<noteq> None"

text \<open>
  The parts a request is made of, each atomic for the other threads: the check under the lock, the
  \<^verbatim>\<open>fetch_add\<close> of the job ID, the creation of a counter, the second check with the registration under the lock.
\<close>

definition check_idle :: "ManagementJobRegistry \<Rightarrow> unit io_result" where
  "check_idle g = (case registry_active_job_id (registry_inner g) of Some _ \<Rightarrow> Inl WouldBlock | None \<Rightarrow> Inr ())"

definition fetch_add_job_id :: "ManagementJobRegistry \<Rightarrow> u64 \<times> ManagementJobRegistry" where
  "fetch_add_job_id g = (next_job_id g, g\<lparr>next_job_id := next_job_id g + 1\<rparr>)"

definition new_counter :: "ustring \<Rightarrow> ManagementJobRegistry \<Rightarrow> nat \<times> ManagementJobRegistry" where
  "new_counter label g = (length (counters g), g\<lparr>counters := counters g @ [progress_new label 0]\<rparr>)"

definition activate_receive :: "PreparedReceiveJob \<Rightarrow> nat \<Rightarrow> ManagementJobRegistry \<Rightarrow> ManagementJobRegistry io_result" where
  "activate_receive job progress g =
     ebind (check_idle g) (\<lambda>_.
       Inr (g\<lparr>registry_inner := (registry_inner g)\<lparr>active_receive := Some \<lparr>ar_job = job, ar_progress = progress\<rparr>\<rparr>\<rparr>))"

definition activate_send :: "StartedSendJob \<Rightarrow> nat \<Rightarrow> ManagementJobRegistry \<Rightarrow> ManagementJobRegistry io_result" where
  "activate_send job progress g =
     ebind (check_idle g) (\<lambda>_.
       Inr (g\<lparr>registry_inner := (registry_inner g)\<lparr>active_send := Some \<lparr>as_job = job, as_progress = progress\<rparr>\<rparr>\<rparr>))"

definition receives :: "u64 \<Rightarrow> JobRegistryInner \<Rightarrow> bool" where
  "receives job_id inner =
     (case active_receive inner of Some active \<Rightarrow> pj_job_id (ar_job active) = job_id | None \<Rightarrow> False)"

definition sends :: "u64 \<Rightarrow> JobRegistryInner \<Rightarrow> bool" where
  "sends job_id inner =
     (case active_send inner of Some active \<Rightarrow> sj_job_id (as_job active) = job_id | None \<Rightarrow> False)"

definition finish_receive :: "u64 \<Rightarrow> ManagementJobResult \<Rightarrow> JobRegistryInner \<Rightarrow> JobRegistryInner" where
  "finish_receive job_id result inner =
     (if receives job_id inner then inner\<lparr>active_receive := None, registry_latest := Some result\<rparr> else inner)"

definition finish_send :: "u64 \<Rightarrow> ManagementJobResult \<Rightarrow> JobRegistryInner \<Rightarrow> JobRegistryInner" where
  "finish_send job_id result inner =
     (if sends job_id inner then inner\<lparr>active_send := None, registry_latest := Some result\<rparr> else inner)"

definition clear_receive :: "u64 \<Rightarrow> JobRegistryInner \<Rightarrow> JobRegistryInner" where
  "clear_receive job_id inner = (if receives job_id inner then inner\<lparr>active_receive := None\<rparr> else inner)"

definition clear_send :: "u64 \<Rightarrow> JobRegistryInner \<Rightarrow> JobRegistryInner" where
  "clear_send job_id inner = (if sends job_id inner then inner\<lparr>active_send := None\<rparr> else inner)"

section \<open>Starting a job\<close>

text \<open>
  What the operating system answers: \<^verbatim>\<open>create_dir_all\<close>, \<^verbatim>\<open>metadata(..).is_dir()\<close>, the port of a new
  listener, whether a thread can be started, and the resume journal of a destination.
\<close>

record JobEnvironment =
  os_create_dir_all :: "ustring \<Rightarrow> unit io_result"
  os_is_dir :: "ustring \<Rightarrow> bool io_result"
  os_bind :: "SocketAddr \<Rightarrow> u16 io_result"
  os_spawn :: "unit io_result"
  os_stored_streams :: "ustring \<Rightarrow> usize option io_result"

definition open_receiver :: "JobEnvironment \<Rightarrow> ustring \<Rightarrow> SocketAddr \<Rightarrow> u16 io_result" where
  "open_receiver env destination bind_address =
     ebind (os_create_dir_all env destination) (\<lambda>_.
     ebind (os_is_dir env destination) (\<lambda>is_dir.
     ebind (ensure is_dir InvalidInput) (\<lambda>_.
     ebind (os_bind env bind_address) (\<lambda>transfer_port.
     ebind (ensure (transfer_port \<noteq> 0) OtherError) (\<lambda>_. Inr transfer_port)))))"

definition open_source :: "JobEnvironment \<Rightarrow> ustring \<Rightarrow> unit io_result" where
  "open_source env source =
     ebind (os_is_dir env source) (\<lambda>is_dir. ensure is_dir InvalidInput)"

definition spawn_receiver :: "JobEnvironment \<Rightarrow> PreparedReceiveJob \<Rightarrow> nat \<Rightarrow> bool \<Rightarrow> ManagementJobRegistry
    \<Rightarrow> PreparedReceiveJob io_result \<times> ManagementJobRegistry" where
  "spawn_receiver env job progress resume g =
     (case os_spawn env of
        Inl e \<Rightarrow> (Inl e, g\<lparr>registry_inner := clear_receive (pj_job_id job) (registry_inner g)\<rparr>)
      | Inr _ \<Rightarrow> (Inr job, g\<lparr>workers := workers g @
          [ReceiveWorker (pj_job_id job) progress (pj_destination_root job) (pj_update_existing job) resume]\<rparr>))"

definition spawn_sender :: "JobEnvironment \<Rightarrow> StartedSendJob \<Rightarrow> nat \<Rightarrow> u64 \<Rightarrow> usize option \<Rightarrow> bool \<Rightarrow> ManagementJobRegistry
    \<Rightarrow> StartedSendJob io_result \<times> ManagementJobRegistry" where
  "spawn_sender env job progress calibration_bytes forced preserve g =
     (case os_spawn env of
        Inl e \<Rightarrow> (Inl e, g\<lparr>registry_inner := clear_send (sj_job_id job) (registry_inner g)\<rparr>)
      | Inr _ \<Rightarrow> (Inr job, g\<lparr>workers := workers g @
          [SendWorker (sj_job_id job) progress (sj_receiver_address job) (sj_source_root job) (sj_worker_count job)
             calibration_bytes forced preserve]\<rparr>))"

definition prepare_receive_on_configured ::
    "JobEnvironment \<Rightarrow> ustring \<Rightarrow> bool \<Rightarrow> SocketAddr \<Rightarrow> bool \<Rightarrow> ManagementJobRegistry
      \<Rightarrow> PreparedReceiveJob io_result \<times> ManagementJobRegistry" where
  "prepare_receive_on_configured env destination update bind_address resume g =
     (case ebind (validate_destination_path destination) (\<lambda>_.
           ebind (check_idle g) (\<lambda>_. open_receiver env destination bind_address)) of
        Inl e \<Rightarrow> (Inl e, g)
      | Inr transfer_port \<Rightarrow>
          (let (job_id, g1) = fetch_add_job_id g in
           if job_id = 0 then (Inl OtherError, g1)
           else
             (let job = \<lparr>pj_job_id = job_id, pj_transfer_port = transfer_port, pj_destination_root = destination,
                         pj_update_existing = update\<rparr>;
                  (progress, g2) = new_counter (ustr ''Waiting for managed sender'') g1 in
              case activate_receive job progress g2 of
                Inl e \<Rightarrow> (Inl e, g2)
              | Inr g3 \<Rightarrow> spawn_receiver env job progress resume g3)))"

definition prepare_receive_on ::
    "JobEnvironment \<Rightarrow> ustring \<Rightarrow> bool \<Rightarrow> SocketAddr \<Rightarrow> ManagementJobRegistry
      \<Rightarrow> PreparedReceiveJob io_result \<times> ManagementJobRegistry" where
  "prepare_receive_on env destination update bind_address =
     prepare_receive_on_configured env destination update bind_address False"

definition prepare_receive_resume_on ::
    "JobEnvironment \<Rightarrow> ustring \<Rightarrow> bool \<Rightarrow> SocketAddr \<Rightarrow> ManagementJobRegistry
      \<Rightarrow> PreparedReceiveJob io_result \<times> ManagementJobRegistry" where
  "prepare_receive_resume_on env destination update bind_address =
     prepare_receive_on_configured env destination update bind_address True"

definition start_send_with_desktop_layout ::
    "JobEnvironment \<Rightarrow> SocketAddr \<Rightarrow> ustring \<Rightarrow> usize \<Rightarrow> u64 \<Rightarrow> usize option \<Rightarrow> bool \<Rightarrow> ManagementJobRegistry
      \<Rightarrow> StartedSendJob io_result \<times> ManagementJobRegistry" where
  "start_send_with_desktop_layout env receiver_address source n_workers calibration forced preserve g =
     (case ebind (validate_send_parameters receiver_address source n_workers calibration) (\<lambda>_.
           ebind (validate_forced_data_stream_count forced) (\<lambda>_.
           ebind (bytes_from_mib calibration) (\<lambda>calibration_bytes.
           ebind (check_idle g) (\<lambda>_.
           ebind (open_source env source) (\<lambda>_. Inr calibration_bytes))))) of
        Inl e \<Rightarrow> (Inl e, g)
      | Inr calibration_bytes \<Rightarrow>
          (let (job_id, g1) = fetch_add_job_id g in
           if job_id = 0 then (Inl OtherError, g1)
           else
             (let job = \<lparr>sj_job_id = job_id, sj_receiver_address = receiver_address, sj_source_root = source,
                         sj_worker_count = n_workers, sj_calibration_mib = calibration\<rparr>;
                  (progress, g2) = new_counter (ustr ''Starting managed sender'') g1 in
              case activate_send job progress g2 of
                Inl e \<Rightarrow> (Inl e, g2)
              | Inr g3 \<Rightarrow> spawn_sender env job progress calibration_bytes forced preserve g3)))"

section \<open>Watching and cancelling a job\<close>

definition build_active_snapshot ::
    "ManagementJobRole \<Rightarrow> u64 \<Rightarrow> ProgressCounter \<Rightarrow> ManagementActiveJobDetails \<Rightarrow> ManagementActiveJobSnapshot" where
  "build_active_snapshot role job_id progress details =
     \<lparr>active_role = role, active_job_id = job_id, active_phase = pc_label progress, active_completed = pc_completed progress,
      active_total = pc_total progress, cancel_requested = pc_cancelled progress, active_details = details\<rparr>"

definition registry_snapshot :: "ManagementJobRegistry \<Rightarrow> ManagementAgentSnapshot" where
  "registry_snapshot g =
     \<lparr>agent_instance_id = registry_instance_id g,
      snapshot_active =
        (case active_receive (registry_inner g) of
           Some active \<Rightarrow>
             Some (build_active_snapshot JobReceiver (pj_job_id (ar_job active)) (counters g ! ar_progress active)
               (ReceiverDetails (pj_transfer_port (ar_job active)) (pj_destination_root (ar_job active))
                  (pj_update_existing (ar_job active))))
         | None \<Rightarrow>
             map_option (\<lambda>active. build_active_snapshot JobSender (sj_job_id (as_job active)) (counters g ! as_progress active)
               (SenderDetails (sj_receiver_address (as_job active)) (sj_source_root (as_job active))
                  (sj_worker_count (as_job active)) (sj_calibration_mib (as_job active))))
             (active_send (registry_inner g))),
      latest_result = registry_latest (registry_inner g)\<rparr>"

definition registry_status :: "ManagementJobRegistry \<Rightarrow> ManagementJobStatus" where
  "registry_status g =
     (case active_receive (registry_inner g) of
        Some active \<Rightarrow>
          \<lparr>js_phase = ReceiverPrepared, js_job_id = Some (pj_job_id (ar_job active)),
           js_transfer_port = Some (pj_transfer_port (ar_job active)),
           js_destination_root = Some (pj_destination_root (ar_job active)), js_update_existing = pj_update_existing (ar_job active)\<rparr>
      | None \<Rightarrow>
        (case active_send (registry_inner g) of
           Some active \<Rightarrow>
             \<lparr>js_phase = SenderRunning, js_job_id = Some (sj_job_id (as_job active)), js_transfer_port = None,
              js_destination_root = None, js_update_existing = False\<rparr>
         | None \<Rightarrow>
             \<lparr>js_phase = Idle, js_job_id = None, js_transfer_port = None, js_destination_root = None,
              js_update_existing = False\<rparr>))"

definition stream_count_u32 :: "usize \<Rightarrow> u32" where
  "stream_count_u32 n = (if n < 2 ^ 32 then of_nat n else - 1)"

definition resume_stream_count :: "JobEnvironment \<Rightarrow> ustring \<Rightarrow> u32" where
  "resume_stream_count env destination =
     (case os_stored_streams env destination of Inr (Some n) \<Rightarrow> stream_count_u32 n | _ \<Rightarrow> 0)"

text \<open>Taking the job out of the registry, the first critical section of \<^verbatim>\<open>cancel\<close>.\<close>

definition cancel_take ::
    "u64 \<Rightarrow> JobRegistryInner \<Rightarrow> ((nat \<times> ManagementJobRole \<times> ustring option) \<times> JobRegistryInner) io_result" where
  "cancel_take job_id inner =
     ebind (ok_or NotFound (registry_active_job_id inner)) (\<lambda>existing.
     ebind (ensure (existing = job_id) NotFound) (\<lambda>_.
       (case active_receive inner of
          Some active \<Rightarrow>
            Inr ((ar_progress active, JobReceiver, Some (pj_destination_root (ar_job active))), inner\<lparr>active_receive := None\<rparr>)
        | None \<Rightarrow>
          (case active_send inner of
             Some active \<Rightarrow> Inr ((as_progress active, JobSender, None), inner\<lparr>active_send := None\<rparr>)
           | None \<Rightarrow> Inl OtherError))))"

definition cancelled_result :: "u64 \<Rightarrow> ManagementJobRole \<Rightarrow> u32 \<Rightarrow> ManagementJobResult" where
  "cancelled_result job_id role streams =
     \<lparr>result_role = role, result_outcome = JobCancelled, result_job_id = job_id, result_files = 0, result_logical_bytes = 0,
      result_wire_bytes = 0, result_stream_count = streams, result_message = ustr ''cancelled by management request''\<rparr>"

definition signal_cancel :: "nat \<Rightarrow> ManagementJobRegistry \<Rightarrow> ManagementJobRegistry" where
  "signal_cancel progress g = g\<lparr>counters := (counters g)[progress := progress_cancel (counters g ! progress)]\<rparr>"

definition record_result :: "ManagementJobResult \<Rightarrow> ManagementJobRegistry \<Rightarrow> ManagementJobRegistry" where
  "record_result result g = g\<lparr>registry_inner := (registry_inner g)\<lparr>registry_latest := Some result\<rparr>\<rparr>"

definition cancel_streams :: "JobEnvironment \<Rightarrow> ustring option \<Rightarrow> u32" where
  "cancel_streams env destination = (case destination of None \<Rightarrow> 0 | Some d \<Rightarrow> resume_stream_count env d)"

definition registry_cancel :: "JobEnvironment \<Rightarrow> u64 \<Rightarrow> ManagementJobRegistry \<Rightarrow> u64 io_result \<times> ManagementJobRegistry" where
  "registry_cancel env job_id g =
     (if job_id = 0 then (Inl InvalidInput, g)
      else
        (case cancel_take job_id (registry_inner g) of
           Inl e \<Rightarrow> (Inl e, g)
         | Inr ((progress, role, destination), inner) \<Rightarrow>
             (Inr job_id,
              record_result (cancelled_result job_id role (cancel_streams env destination))
                (signal_cancel progress (g\<lparr>registry_inner := inner\<rparr>)))))"

section \<open>The end of a job\<close>

text \<open>The fields of the engine's reports that the registry reads, and an error as its kind and its text.\<close>

record ReceiveReport =
  rr_files_received :: u64
  rr_bytes_received :: u64
  rr_data_stream_count :: usize

record MultistreamCopyReport =
  mr_files_copied :: u64
  mr_bytes_copied :: u64
  mr_data_wire_bytes :: u64
  mr_data_stream_count :: usize

record CalibratedReceiveReport =
  crr_transfer :: ReceiveReport

record CalibratedSendReport =
  csr_transfer :: MultistreamCopyReport

type_synonym 'a transfer_result = "(error_kind \<times> ustring) + 'a"

definition build_error_result :: "ManagementJobRole \<Rightarrow> u64 \<Rightarrow> error_kind \<times> ustring \<Rightarrow> ManagementJobResult" where
  "build_error_result role job_id error =
     \<lparr>result_role = role, result_outcome = (if fst error = Interrupted then JobCancelled else JobFailed), result_job_id = job_id,
      result_files = 0, result_logical_bytes = 0, result_wire_bytes = 0, result_stream_count = 0, result_message = snd error\<rparr>"

definition build_resumed_receive_result ::
    "JobEnvironment \<Rightarrow> u64 \<Rightarrow> ustring \<Rightarrow> ReceiveReport transfer_result \<Rightarrow> ManagementJobResult" where
  "build_resumed_receive_result env job_id destination result = (case result of
     Inr report \<Rightarrow>
       \<lparr>result_role = JobReceiver, result_outcome = JobCompleted, result_job_id = job_id, result_files = rr_files_received report,
        result_logical_bytes = rr_bytes_received report, result_wire_bytes = 0,
        result_stream_count = stream_count_u32 (rr_data_stream_count report), result_message = []\<rparr>
   | Inl error \<Rightarrow> (build_error_result JobReceiver job_id error)\<lparr>result_stream_count := resume_stream_count env destination\<rparr>)"

definition build_receive_result ::
    "JobEnvironment \<Rightarrow> u64 \<Rightarrow> ustring \<Rightarrow> CalibratedReceiveReport transfer_result \<Rightarrow> ManagementJobResult" where
  "build_receive_result env job_id destination result = (case result of
     Inr report \<Rightarrow>
       \<lparr>result_role = JobReceiver, result_outcome = JobCompleted, result_job_id = job_id,
        result_files = rr_files_received (crr_transfer report),
        result_logical_bytes = rr_bytes_received (crr_transfer report), result_wire_bytes = 0,
        result_stream_count = stream_count_u32 (rr_data_stream_count (crr_transfer report)), result_message = []\<rparr>
   | Inl error \<Rightarrow> (build_error_result JobReceiver job_id error)\<lparr>result_stream_count := resume_stream_count env destination\<rparr>)"

definition build_resumed_send_result :: "u64 \<Rightarrow> MultistreamCopyReport transfer_result \<Rightarrow> ManagementJobResult" where
  "build_resumed_send_result job_id result = (case result of
     Inr report \<Rightarrow>
       \<lparr>result_role = JobSender, result_outcome = JobCompleted, result_job_id = job_id, result_files = mr_files_copied report,
        result_logical_bytes = mr_bytes_copied report, result_wire_bytes = mr_data_wire_bytes report,
        result_stream_count = stream_count_u32 (mr_data_stream_count report), result_message = []\<rparr>
   | Inl error \<Rightarrow> build_error_result JobSender job_id error)"

definition build_send_result :: "u64 \<Rightarrow> CalibratedSendReport transfer_result \<Rightarrow> ManagementJobResult" where
  "build_send_result job_id result = (case result of
     Inr report \<Rightarrow>
       \<lparr>result_role = JobSender, result_outcome = JobCompleted, result_job_id = job_id,
        result_files = mr_files_copied (csr_transfer report), result_logical_bytes = mr_bytes_copied (csr_transfer report),
        result_wire_bytes = mr_data_wire_bytes (csr_transfer report),
        result_stream_count = stream_count_u32 (mr_data_stream_count (csr_transfer report)), result_message = []\<rparr>
   | Inl error \<Rightarrow> build_error_result JobSender job_id error)"

text \<open>
  A worker runs the engine once and reports its result.  What the engine answers is a parameter: the report
  of a receiver, of a sender, or an error.
\<close>

fun worker_result :: "JobEnvironment \<Rightarrow> ReceiveReport transfer_result \<Rightarrow> MultistreamCopyReport transfer_result \<Rightarrow> job_worker
    \<Rightarrow> ManagementJobResult" where
  "worker_result env received sent (ReceiveWorker job_id _ destination _ resume) =
     (if resume then build_resumed_receive_result env job_id destination received
      else build_receive_result env job_id destination (map_sum id (\<lambda>r. \<lparr>crr_transfer = r\<rparr>) received))"
| "worker_result env received sent (SendWorker job_id _ _ _ _ _ forced _) =
     (case forced of Some _ \<Rightarrow> build_resumed_send_result job_id sent
      | None \<Rightarrow> build_send_result job_id (map_sum id (\<lambda>r. \<lparr>csr_transfer = r\<rparr>) sent))"

fun worker_finish :: "job_worker \<Rightarrow> ManagementJobResult \<Rightarrow> JobRegistryInner \<Rightarrow> JobRegistryInner" where
  "worker_finish (ReceiveWorker job_id _ _ _ _) result = finish_receive job_id result"
| "worker_finish (SendWorker job_id _ _ _ _ _ _ _) result = finish_send job_id result"

section \<open>Interleavings\<close>

text \<open>
  The agent answers requests on two threads, one per address family, while the workers of its jobs run.  A call
  is interrupted between its atomic parts; \<open>advance\<close> is one part, with the answers of the operating system
  at that moment.
\<close>

datatype control_call =
    PrepareCheck ustring bool SocketAddr bool
  | PrepareOpen ustring bool SocketAddr bool
  | PrepareReserve ustring bool bool u16
  | PrepareActivate PreparedReceiveJob nat bool
  | PrepareSpawn PreparedReceiveJob nat bool
  | SendCheck SocketAddr ustring usize u64 "usize option" bool
  | SendOpen SocketAddr ustring usize u64 "usize option" bool u64
  | SendReserve SocketAddr ustring usize u64 "usize option" bool u64
  | SendActivate StartedSendJob nat u64 "usize option" bool
  | SendSpawn StartedSendJob nat u64 "usize option" bool
  | CancelTake u64
  | CancelSignal u64 nat ManagementJobRole "ustring option"
  | CancelRecord u64 ManagementJobRole "ustring option"

datatype call_answer = Prepared PreparedReceiveJob | Started StartedSendJob | Cancelled u64 | Refused error_kind

datatype call_next = Continue control_call | Answer call_answer

definition proceed_or_refuse :: "'a io_result \<Rightarrow> ('a \<Rightarrow> call_next) \<Rightarrow> call_next" where
  "proceed_or_refuse r f = (case r of Inl e \<Rightarrow> Answer (Refused e) | Inr a \<Rightarrow> f a)"

fun advance :: "JobEnvironment \<Rightarrow> control_call \<Rightarrow> ManagementJobRegistry \<Rightarrow> call_next \<times> ManagementJobRegistry" where
  "advance env (PrepareCheck d u b r) g =
     (proceed_or_refuse (ebind (validate_destination_path d) (\<lambda>_. check_idle g)) (\<lambda>_. Continue (PrepareOpen d u b r)), g)"
| "advance env (PrepareOpen d u b r) g =
     (proceed_or_refuse (open_receiver env d b) (\<lambda>port. Continue (PrepareReserve d u r port)), g)"
| "advance env (PrepareReserve d u r port) g =
     (let (job_id, g1) = fetch_add_job_id g in
      if job_id = 0 then (Answer (Refused OtherError), g1)
      else
        (let (progress, g2) = new_counter (ustr ''Waiting for managed sender'') g1 in
         (Continue (PrepareActivate \<lparr>pj_job_id = job_id, pj_transfer_port = port, pj_destination_root = d,
                      pj_update_existing = u\<rparr> progress r), g2)))"
| "advance env (PrepareActivate job progress r) g =
     (case activate_receive job progress g of
        Inl e \<Rightarrow> (Answer (Refused e), g)
      | Inr g' \<Rightarrow> (Continue (PrepareSpawn job progress r), g'))"
| "advance env (PrepareSpawn job progress r) g =
     (let (result, g') = spawn_receiver env job progress r g in
      (proceed_or_refuse result (\<lambda>j. Answer (Prepared j)), g'))"
| "advance env (SendCheck a s w c f p) g =
     (proceed_or_refuse
        (ebind (validate_send_parameters a s w c) (\<lambda>_.
         ebind (validate_forced_data_stream_count f) (\<lambda>_.
         ebind (bytes_from_mib c) (\<lambda>calibration_bytes.
         ebind (check_idle g) (\<lambda>_. Inr calibration_bytes)))))
        (\<lambda>calibration_bytes. Continue (SendOpen a s w c f p calibration_bytes)), g)"
| "advance env (SendOpen a s w c f p bytes) g =
     (proceed_or_refuse (open_source env s) (\<lambda>_. Continue (SendReserve a s w c f p bytes)), g)"
| "advance env (SendReserve a s w c f p bytes) g =
     (let (job_id, g1) = fetch_add_job_id g in
      if job_id = 0 then (Answer (Refused OtherError), g1)
      else
        (let (progress, g2) = new_counter (ustr ''Starting managed sender'') g1 in
         (Continue (SendActivate \<lparr>sj_job_id = job_id, sj_receiver_address = a, sj_source_root = s, sj_worker_count = w,
                      sj_calibration_mib = c\<rparr> progress bytes f p), g2)))"
| "advance env (SendActivate job progress bytes f p) g =
     (case activate_send job progress g of
        Inl e \<Rightarrow> (Answer (Refused e), g)
      | Inr g' \<Rightarrow> (Continue (SendSpawn job progress bytes f p), g'))"
| "advance env (SendSpawn job progress bytes f p) g =
     (let (result, g') = spawn_sender env job progress bytes f p g in
      (proceed_or_refuse result (\<lambda>j. Answer (Started j)), g'))"
| "advance env (CancelTake job_id) g =
     (if job_id = 0 then (Answer (Refused InvalidInput), g)
      else
        (case cancel_take job_id (registry_inner g) of
           Inl e \<Rightarrow> (Answer (Refused e), g)
         | Inr ((progress, role, destination), inner) \<Rightarrow>
             (Continue (CancelSignal job_id progress role destination), g\<lparr>registry_inner := inner\<rparr>)))"
| "advance env (CancelSignal job_id progress role destination) g =
     (Continue (CancelRecord job_id role destination), signal_cancel progress g)"
| "advance env (CancelRecord job_id role destination) g =
     (Answer (Cancelled job_id), record_result (cancelled_result job_id role (cancel_streams env destination)) g)"

fun is_request :: "control_call \<Rightarrow> bool" where
  "is_request (PrepareCheck _ _ _ _) = True"
| "is_request (SendCheck _ _ _ _ _ _) = True"
| "is_request (CancelTake _) = True"
| "is_request _ = False"

fun is_reserve :: "control_call \<Rightarrow> bool" where
  "is_reserve (PrepareReserve _ _ _ _) = True"
| "is_reserve (SendReserve _ _ _ _ _ _ _) = True"
| "is_reserve _ = False"

text \<open>Without interference, the parts add up to the operations.\<close>

fun run_call :: "nat \<Rightarrow> JobEnvironment \<Rightarrow> control_call \<Rightarrow> ManagementJobRegistry \<Rightarrow> call_answer option \<times> ManagementJobRegistry" where
  "run_call 0 env c g = (None, g)"
| "run_call (Suc n) env c g =
     (case advance env c g of (Answer a, g') \<Rightarrow> (Some a, g') | (Continue c', g') \<Rightarrow> run_call n env c' g')"

definition answer_of :: "('a \<Rightarrow> call_answer) \<Rightarrow> 'a io_result \<Rightarrow> call_answer" where
  "answer_of f r = (case r of Inl e \<Rightarrow> Refused e | Inr a \<Rightarrow> f a)"

lemma run_call_prepare:
  "run_call 5 env (PrepareCheck d u b r) g =
     map_prod (Some \<circ> answer_of Prepared) id (prepare_receive_on_configured env d u b r g)"
  by (simp add: eval_nat_numeral prepare_receive_on_configured_def proceed_or_refuse_def spawn_receiver_def answer_of_def
      ebind_def fetch_add_job_id_def new_counter_def split: sum.split)

lemma run_call_send:
  "run_call 5 env (SendCheck a s w c f p) g =
     map_prod (Some \<circ> answer_of Started) id (start_send_with_desktop_layout env a s w c f p g)"
  by (simp add: eval_nat_numeral start_send_with_desktop_layout_def proceed_or_refuse_def spawn_sender_def answer_of_def
      ebind_def fetch_add_job_id_def new_counter_def split: sum.split)

lemma run_call_cancel:
  "run_call 3 env (CancelTake j) g = map_prod (Some \<circ> answer_of Cancelled) id (registry_cancel env j g)"
  by (simp add: eval_nat_numeral registry_cancel_def answer_of_def split: sum.split prod.split)

datatype progress_op = OpAdd u64 | OpSetCompleted u64 | OpSetTotal u64 | OpSetLabel ustring

fun apply_progress_op :: "progress_op \<Rightarrow> ProgressCounter \<Rightarrow> ProgressCounter" where
  "apply_progress_op (OpAdd n) = progress_add n"
| "apply_progress_op (OpSetCompleted n) = progress_set_completed n"
| "apply_progress_op (OpSetTotal n) = progress_set_total n"
| "apply_progress_op (OpSetLabel s) = progress_set_label s"

record agent_world =
  registry :: ManagementJobRegistry
  calls :: "nat \<Rightarrow> control_call option"
  reservations :: nat

fun next_call :: "call_next \<Rightarrow> control_call option" where
  "next_call (Continue c) = Some c"
| "next_call (Answer _) = None"

inductive agent_step :: "agent_world \<Rightarrow> agent_world \<Rightarrow> bool" where
  request: "calls w t = None \<Longrightarrow> is_request c \<Longrightarrow> agent_step w (w\<lparr>calls := (calls w)(t \<mapsto> c)\<rparr>)"
| proceed: "calls w t = Some c \<Longrightarrow> advance env c (registry w) = (nxt, g) \<Longrightarrow>
    agent_step w (w\<lparr>registry := g, calls := (calls w)(t := next_call nxt),
                   reservations := reservations w + (if is_reserve c then 1 else 0)\<rparr>)"
| work: "x \<in> set (workers (registry w)) \<Longrightarrow>
    agent_step w (w\<lparr>registry := (registry w)\<lparr>counters :=
      (counters (registry w))[worker_progress x := apply_progress_op op (counters (registry w) ! worker_progress x)]\<rparr>\<rparr>)"
| finish: "workers (registry w) = xs @ x # ys \<Longrightarrow>
    agent_step w (w\<lparr>registry := (registry w)\<lparr>
      registry_inner := worker_finish x (worker_result env received sent x) (registry_inner (registry w)), workers := xs @ ys\<rparr>\<rparr>)"

definition agent_start :: "AgentInstanceId \<Rightarrow> agent_world" where
  "agent_start instance_id =
     \<lparr>registry = ManagementJobRegistry_new instance_id, calls = (\<lambda>_. None), reservations = 0\<rparr>"

abbreviation agent_run :: "agent_world \<Rightarrow> agent_world \<Rightarrow> bool" where
  "agent_run \<equiv> agent_step\<^sup>*\<^sup>*"

section \<open>The invariant\<close>

fun call_job :: "control_call \<Rightarrow> u64 option" where
  "call_job (PrepareActivate job _ _) = Some (pj_job_id job)"
| "call_job (PrepareSpawn job _ _) = Some (pj_job_id job)"
| "call_job (SendActivate job _ _ _ _) = Some (sj_job_id job)"
| "call_job (SendSpawn job _ _ _ _) = Some (sj_job_id job)"
| "call_job _ = None"

fun call_pending :: "control_call \<Rightarrow> bool" where
  "call_pending (PrepareActivate _ _ _) = True"
| "call_pending (SendActivate _ _ _ _ _) = True"
| "call_pending _ = False"

text \<open>The job a thread has reserved and not yet handed to a worker.\<close>

definition held :: "(nat \<Rightarrow> control_call option) \<Rightarrow> nat \<Rightarrow> u64 option" where
  "held C t = Option.bind (C t) call_job"

definition issued :: "nat \<Rightarrow> u64 \<Rightarrow> bool" where
  "issued n j \<longleftrightarrow> j \<noteq> 0 \<and> unat j \<le> n"

abbreviation active_id :: "ManagementJobRegistry \<Rightarrow> u64 option" where
  "active_id g \<equiv> registry_active_job_id (registry_inner g)"

text \<open>Every active job is owned: by the thread that is about to start its worker, or by its worker.\<close>

definition owned_receive :: "ManagementJobRegistry \<Rightarrow> (nat \<Rightarrow> control_call option) \<Rightarrow> ActiveReceiveJob \<Rightarrow> bool" where
  "owned_receive g C a \<longleftrightarrow>
     (\<exists>t r. C t = Some (PrepareSpawn (ar_job a) (ar_progress a) r)) \<or>
     (\<exists>d u r. ReceiveWorker (pj_job_id (ar_job a)) (ar_progress a) d u r \<in> set (workers g))"

definition owned_send :: "ManagementJobRegistry \<Rightarrow> (nat \<Rightarrow> control_call option) \<Rightarrow> ActiveSendJob \<Rightarrow> bool" where
  "owned_send g C a \<longleftrightarrow>
     (\<exists>t b f p. C t = Some (SendSpawn (as_job a) (as_progress a) b f p)) \<or>
     (\<exists>ra s w b f p. SendWorker (sj_job_id (as_job a)) (as_progress a) ra s w b f p \<in> set (workers g))"

definition registry_inv :: "ManagementJobRegistry \<Rightarrow> (nat \<Rightarrow> control_call option) \<Rightarrow> nat \<Rightarrow> bool" where
  "registry_inv g C n \<longleftrightarrow>
     next_job_id g = of_nat (Suc n) \<and>
     (active_receive (registry_inner g) = None \<or> active_send (registry_inner g) = None) \<and>
     (\<forall>t j. held C t = Some j \<longrightarrow> issued n j \<and> j \<notin> worker_job_id ` set (workers g)) \<and>
     (\<forall>x \<in> set (workers g). issued n (worker_job_id x)) \<and>
     (\<forall>j. active_id g = Some j \<longrightarrow> issued n j) \<and>
     (\<forall>t t' j. held C t = Some j \<longrightarrow> held C t' = Some j \<longrightarrow> t = t') \<and>
     (\<forall>t c. C t = Some c \<longrightarrow> call_pending c \<longrightarrow> active_id g \<noteq> call_job c) \<and>
     distinct (map worker_job_id (workers g)) \<and>
     (\<forall>a. active_receive (registry_inner g) = Some a \<longrightarrow> owned_receive g C a) \<and>
     (\<forall>a. active_send (registry_inner g) = Some a \<longrightarrow> owned_send g C a)"

lemma registry_invD:
  assumes "registry_inv g C n"
  shows "next_job_id g = of_nat (Suc n)"
    and "active_receive (registry_inner g) = None \<or> active_send (registry_inner g) = None"
    and "\<And>t j. held C t = Some j \<Longrightarrow> issued n j" "\<And>t j. held C t = Some j \<Longrightarrow> j \<notin> worker_job_id ` set (workers g)"
    and "\<And>x. x \<in> set (workers g) \<Longrightarrow> issued n (worker_job_id x)"
    and "\<And>j. active_id g = Some j \<Longrightarrow> issued n j"
    and "\<And>t t' j. held C t = Some j \<Longrightarrow> held C t' = Some j \<Longrightarrow> t = t'"
    and "\<And>t c. C t = Some c \<Longrightarrow> call_pending c \<Longrightarrow> active_id g \<noteq> call_job c"
    and "distinct (map worker_job_id (workers g))"
    and "\<And>a. active_receive (registry_inner g) = Some a \<Longrightarrow> owned_receive g C a"
    and "\<And>a. active_send (registry_inner g) = Some a \<Longrightarrow> owned_send g C a"
  using assms by (simp_all add: registry_inv_def)

lemma held_upd [simp]: "held (C(t := x)) t' = (if t' = t then Option.bind x call_job else held C t')"
  by (simp add: held_def)

lemma held_call: "C t = Some c \<Longrightarrow> held C t = call_job c"
  by (simp add: held_def)

text \<open>A thread that is not starting a worker may drop or change its call, keeping at most the job it holds.\<close>

fun starts_worker :: "control_call \<Rightarrow> bool" where
  "starts_worker (PrepareSpawn _ _ _) = True"
| "starts_worker (SendSpawn _ _ _ _ _) = True"
| "starts_worker _ = False"

lemma keep_call:
  "(\<And>c. C t = Some c \<Longrightarrow> \<not> starts_worker c) \<Longrightarrow> C t' = Some c' \<Longrightarrow> starts_worker c' \<Longrightarrow> (C(t := x)) t' = Some c'"
  by auto

lemma owned_upd:
  assumes "\<And>c. C t = Some c \<Longrightarrow> \<not> starts_worker c"
  shows "owned_receive g C a \<Longrightarrow> owned_receive g (C(t := x)) a" "owned_send g C b \<Longrightarrow> owned_send g (C(t := x)) b"
  unfolding owned_receive_def owned_send_def
  using keep_call [of C t, OF assms] starts_worker.simps(1,2) by metis+

lemma call_pending_job: "call_pending c \<Longrightarrow> \<exists>j. call_job c = Some j"
  by (cases c) simp_all

lemma inv_change_call:
  assumes "registry_inv g C n" "\<And>c. C t = Some c \<Longrightarrow> \<not> starts_worker c" and "Option.bind x call_job = None"
  shows "registry_inv g (C(t := x)) n"
  using registry_invD [OF assms(1)] owned_upd [of C t, OF assms(2)] assms(3)
  unfolding registry_inv_def by (cases x) (auto split: if_splits dest: call_pending_job)

lemma inv_same_jobs:
  assumes "registry_inv g C n" "next_job_id g' = next_job_id g" "workers g' = workers g"
    and "active_receive (registry_inner g') = active_receive (registry_inner g)"
    and "active_send (registry_inner g') = active_send (registry_inner g)"
  shows "registry_inv g' C n"
proof -
  have "active_id g' = active_id g" using assms(4,5) by (simp add: registry_active_job_id_def split: option.split)
  moreover have "owned_receive g' C = owned_receive g C" "owned_send g' C = owned_send g C"
    using assms(3) by (auto simp: owned_receive_def owned_send_def fun_eq_iff)
  ultimately show ?thesis using assms unfolding registry_inv_def by simp
qed

lemma issued_Suc: "issued n j \<Longrightarrow> issued (Suc n) j"
  by (simp add: issued_def)

lemma issued_fresh:
  assumes "Suc n < 2 ^ 64"
  shows "issued (Suc n) (of_nat (Suc n))" "\<not> issued n (of_nat (Suc n))"
  using unat_of_nat_small [where 'a = 64, of "Suc n"] assms by (auto simp: issued_def simp del: of_nat_Suc)

lemma inv_reserve:
  assumes "registry_inv g C n" "Suc n < 2 ^ 64" "\<And>c. C t = Some c \<Longrightarrow> \<not> starts_worker c"
    and "next_job_id g' = of_nat (Suc (Suc n))" "workers g' = workers g" "registry_inner g' = registry_inner g"
    and "call_job c = Some (of_nat (Suc n))"
  shows "registry_inv g' (C(t \<mapsto> c)) (Suc n)"
proof -
  note D = registry_invD [OF assms(1)] and fresh = issued_fresh [OF assms(2)]
  have own: "owned_receive g' (C(t \<mapsto> c)) a" if "owned_receive g C a" for a
    using owned_upd(1) [OF assms(3) that] assms(5) by (simp add: owned_receive_def)
  have own': "owned_send g' (C(t \<mapsto> c)) a" if "owned_send g C a" for a
    using owned_upd(2) [OF assms(3) that] assms(5) by (simp add: owned_send_def)
  have notin: "of_nat (Suc n) \<notin> worker_job_id ` set (workers g)" "active_id g \<noteq> Some (of_nat (Suc n))"
    "held C t' \<noteq> Some (of_nat (Suc n))" for t'
    using D(3,5,6) fresh(2) by (auto simp del: of_nat_Suc)
  show ?thesis
    unfolding registry_inv_def assms(4-6)
    using D notin fresh(1) own own' assms(7)
    by (intro conjI) (auto simp del: of_nat_Suc intro: issued_Suc)
qed

lemma inv_activate_receive:
  assumes "registry_inv g C n" "C t = Some (PrepareActivate job p r)" "active_id g = None"
  shows "registry_inv (g\<lparr>registry_inner := (registry_inner g)\<lparr>active_receive := Some \<lparr>ar_job = job, ar_progress = p\<rparr>\<rparr>\<rparr>)
    (C(t \<mapsto> PrepareSpawn job p r)) n" (is "registry_inv ?g ?C n")
proof -
  note D = registry_invD [OF assms(1)]
  have h: "held C t = Some (pj_job_id job)" using assms(2) by (simp add: held_def)
  have none: "active_receive (registry_inner g) = None" "active_send (registry_inner g) = None"
    using assms(3) by (auto simp: registry_active_job_id_def split: option.splits)
  have id: "active_id ?g = Some (pj_job_id job)" by (simp add: registry_active_job_id_def)
  have "Some (pj_job_id job) \<noteq> call_job c" if "t' \<noteq> t" "C t' = Some c" for t' c
    using that D(7) [OF _ h, of t'] by (auto simp: held_def)
  then show ?thesis
    using D(1,3-5,7,9) h none id unfolding registry_inv_def
    by (auto simp: owned_receive_def split: if_splits)
qed

lemma inv_activate_send:
  assumes "registry_inv g C n" "C t = Some (SendActivate job p b f l)" "active_id g = None"
  shows "registry_inv (g\<lparr>registry_inner := (registry_inner g)\<lparr>active_send := Some \<lparr>as_job = job, as_progress = p\<rparr>\<rparr>\<rparr>)
    (C(t \<mapsto> SendSpawn job p b f l)) n" (is "registry_inv ?g ?C n")
proof -
  note D = registry_invD [OF assms(1)]
  have h: "held C t = Some (sj_job_id job)" using assms(2) by (simp add: held_def)
  have none: "active_receive (registry_inner g) = None" "active_send (registry_inner g) = None"
    using assms(3) by (auto simp: registry_active_job_id_def split: option.splits)
  have id: "active_id ?g = Some (sj_job_id job)" using none by (simp add: registry_active_job_id_def)
  have "Some (sj_job_id job) \<noteq> call_job c" if "t' \<noteq> t" "C t' = Some c" for t' c
    using that D(7) [OF _ h, of t'] by (auto simp: held_def)
  then show ?thesis
    using D(1,3-5,7,9) h none id unfolding registry_inv_def
    by (auto simp: owned_send_def split: if_splits)
qed

text \<open>A new worker takes over the job of the thread that starts it.\<close>

lemma inv_spawn:
  assumes "registry_inv g C n" "C t = Some c" "call_job c = Some (worker_job_id x)" "\<not> call_pending c"
    and "\<And>a. owned_receive g C a \<Longrightarrow> owned_receive (g\<lparr>workers := workers g @ [x]\<rparr>) (C(t := None)) a"
    and "\<And>a. owned_send g C a \<Longrightarrow> owned_send (g\<lparr>workers := workers g @ [x]\<rparr>) (C(t := None)) a"
  shows "registry_inv (g\<lparr>workers := workers g @ [x]\<rparr>) (C(t := None)) n"
proof -
  note D = registry_invD [OF assms(1)]
  have h: "held C t = Some (worker_job_id x)" using assms(2,3) by (simp add: held_def)
  have other: "j \<noteq> worker_job_id x" if "t' \<noteq> t" "held C t' = Some j" for t' j using that D(7) [OF _ h] by blast
  show ?thesis
    using D h other assms(5,6) unfolding registry_inv_def by (auto split: if_splits)
qed

lemma owned_receive_end:
  assumes "owned_receive g C a" "\<And>r. C t \<noteq> Some (PrepareSpawn (ar_job a) (ar_progress a) r)" "set (workers g) \<subseteq> set (workers g')"
  shows "owned_receive g' (C(t := None)) a"
  using assms unfolding owned_receive_def by (metis fun_upd_other subsetD)

lemma owned_send_end:
  assumes "owned_send g C a" "\<And>b f p. C t \<noteq> Some (SendSpawn (as_job a) (as_progress a) b f p)" "set (workers g) \<subseteq> set (workers g')"
  shows "owned_send g' (C(t := None)) a"
  using assms unfolding owned_send_def by (metis fun_upd_other subsetD)

lemma inv_spawn_receiver:
  assumes "registry_inv g C n" "C t = Some (PrepareSpawn job p r)"
  shows "registry_inv (g\<lparr>workers := workers g @ [ReceiveWorker (pj_job_id job) p d u r']\<rparr>) (C(t := None)) n"
proof (rule inv_spawn [OF assms])
  fix a assume own: "owned_receive g C a"
  show "owned_receive (g\<lparr>workers := workers g @ [ReceiveWorker (pj_job_id job) p d u r']\<rparr>) (C(t := None)) a"
  proof (cases "ar_job a = job \<and> ar_progress a = p")
    case True
    then show ?thesis by (auto simp: owned_receive_def)
  next
    case False
    then show ?thesis using assms(2) by (intro owned_receive_end [OF own]) auto
  qed
next
  fix a assume "owned_send g C a"
  then show "owned_send (g\<lparr>workers := workers g @ [ReceiveWorker (pj_job_id job) p d u r']\<rparr>) (C(t := None)) a"
    using assms(2) by (intro owned_send_end [of g C a]) auto
qed simp_all

lemma inv_spawn_sender:
  assumes "registry_inv g C n" "C t = Some (SendSpawn job p b f l)"
  shows "registry_inv (g\<lparr>workers := workers g @ [SendWorker (sj_job_id job) p ra s w b' f' l']\<rparr>) (C(t := None)) n"
proof (rule inv_spawn [OF assms])
  fix a assume own: "owned_send g C a"
  show "owned_send (g\<lparr>workers := workers g @ [SendWorker (sj_job_id job) p ra s w b' f' l']\<rparr>) (C(t := None)) a"
  proof (cases "as_job a = job \<and> as_progress a = p")
    case True
    then have "SendWorker (sj_job_id (as_job a)) (as_progress a) ra s w b' f' l' \<in>
      set (workers (g\<lparr>workers := workers g @ [SendWorker (sj_job_id job) p ra s w b' f' l']\<rparr>))" by simp
    then show ?thesis unfolding owned_send_def by blast
  next
    case False
    then show ?thesis using assms(2) by (intro owned_send_end [OF own]) auto
  qed
next
  fix a assume "owned_receive g C a"
  then show "owned_receive (g\<lparr>workers := workers g @ [SendWorker (sj_job_id job) p ra s w b' f' l']\<rparr>) (C(t := None)) a"
    using assms(2) by (intro owned_receive_end [of g C a]) auto
qed simp_all

text \<open>An active job may leave the registry, and then its owner may end.\<close>

lemma inv_deactivate:
  assumes "registry_inv g C n" "next_job_id g' = next_job_id g" "workers g' = workers g"
    and "active_receive (registry_inner g') = active_receive (registry_inner g) \<or> active_receive (registry_inner g') = None"
    and "active_send (registry_inner g') = active_send (registry_inner g) \<or> active_send (registry_inner g') = None"
  shows "registry_inv g' C n"
proof -
  note D = registry_invD [OF assms(1)]
  have id: "active_id g' = active_id g \<or> active_id g' = None"
    using assms(4,5) D(2) by (auto simp: registry_active_job_id_def split: option.splits)
  have "owned_receive g' C = owned_receive g C" "owned_send g' C = owned_send g C"
    using assms(3) by (auto simp: owned_receive_def owned_send_def fun_eq_iff)
  then show ?thesis
    using D assms(2-5) id unfolding registry_inv_def
    by (intro conjI allI impI ballI) (auto dest: call_pending_job)
qed

lemma inv_end_call:
  assumes "registry_inv g C n"
    and "\<And>a. active_receive (registry_inner g) = Some a \<Longrightarrow> owned_receive g (C(t := None)) a"
    and "\<And>a. active_send (registry_inner g) = Some a \<Longrightarrow> owned_send g (C(t := None)) a"
  shows "registry_inv g (C(t := None)) n"
  using registry_invD [OF assms(1)] assms(2,3) unfolding registry_inv_def by (auto split: if_splits)

lemma receives_active: "active_receive inner = Some a \<Longrightarrow> receives j inner \<longleftrightarrow> pj_job_id (ar_job a) = j"
  by (simp add: receives_def)

lemma sends_active: "active_send inner = Some a \<Longrightarrow> sends j inner \<longleftrightarrow> sj_job_id (as_job a) = j"
  by (simp add: sends_def)

lemma clear_receive_active [simp]:
  "active_receive (clear_receive j inner) = (if receives j inner then None else active_receive inner)"
  "active_send (clear_receive j inner) = active_send inner"
  by (simp_all add: clear_receive_def)

lemma clear_send_active [simp]:
  "active_send (clear_send j inner) = (if sends j inner then None else active_send inner)"
  "active_receive (clear_send j inner) = active_receive inner"
  by (simp_all add: clear_send_def)

lemma inv_clear_receive:
  assumes "registry_inv g C n" "C t = Some (PrepareSpawn job p r)"
  shows "registry_inv (g\<lparr>registry_inner := clear_receive (pj_job_id job) (registry_inner g)\<rparr>) (C(t := None)) n"
    (is "registry_inv ?g _ n")
proof (rule inv_end_call)
  show inv: "registry_inv ?g C n" by (rule inv_deactivate [OF assms(1)]) simp_all
  fix a assume "active_receive (registry_inner ?g) = Some a"
  then have "owned_receive g C a" "pj_job_id (ar_job a) \<noteq> pj_job_id job"
    using registry_invD(10) [OF assms(1)] by (auto simp: receives_active split: if_splits)
  then show "owned_receive ?g (C(t := None)) a" using assms(2) by (intro owned_receive_end [of g C a]) auto
next
  fix a assume "active_send (registry_inner ?g) = Some a"
  then have "owned_send g C a" using registry_invD(11) [OF assms(1)] by simp
  then show "owned_send ?g (C(t := None)) a" using assms(2) by (intro owned_send_end [of g C a]) auto
qed

lemma inv_clear_send:
  assumes "registry_inv g C n" "C t = Some (SendSpawn job p b f l)"
  shows "registry_inv (g\<lparr>registry_inner := clear_send (sj_job_id job) (registry_inner g)\<rparr>) (C(t := None)) n"
    (is "registry_inv ?g _ n")
proof (rule inv_end_call)
  show inv: "registry_inv ?g C n" by (rule inv_deactivate [OF assms(1)]) simp_all
  fix a assume "active_send (registry_inner ?g) = Some a"
  then have "owned_send g C a" "sj_job_id (as_job a) \<noteq> sj_job_id job"
    using registry_invD(11) [OF assms(1)] by (auto simp: sends_active split: if_splits)
  then show "owned_send ?g (C(t := None)) a" using assms(2) by (intro owned_send_end [of g C a]) auto
next
  fix a assume "active_receive (registry_inner ?g) = Some a"
  then have "owned_receive g C a" using registry_invD(10) [OF assms(1)] by simp
  then show "owned_receive ?g (C(t := None)) a" using assms(2) by (intro owned_receive_end [of g C a]) auto
qed

lemma finish_active:
  "active_receive (finish_receive j res inner) = (if receives j inner then None else active_receive inner)"
  "active_send (finish_receive j res inner) = active_send inner"
  "active_send (finish_send j res inner) = (if sends j inner then None else active_send inner)"
  "active_receive (finish_send j res inner) = active_receive inner"
  by (simp_all add: finish_receive_def finish_send_def)

lemma inv_finish:
  assumes "registry_inv g C n" "workers g = xs @ x # ys"
  shows "registry_inv (g\<lparr>registry_inner := worker_finish x res (registry_inner g), workers := xs @ ys\<rparr>) C n"
    (is "registry_inv ?g C n")
proof -
  define h where "h = g\<lparr>registry_inner := worker_finish x res (registry_inner g)\<rparr>"
  have inv: "registry_inv h C n" unfolding h_def
    by (rule inv_deactivate [OF assms(1)]) (cases x; simp add: finish_active)+
  have w: "workers h = xs @ x # ys" "registry_inner ?g = registry_inner h" "?g = h\<lparr>workers := xs @ ys\<rparr>"
    using assms(2) by (simp_all add: h_def)
  note D = registry_invD [OF inv]
  have "owned_receive ?g C a" if "active_receive (registry_inner h) = Some a" for a
  proof -
    have "\<not> (\<exists>d u r. x = ReceiveWorker (pj_job_id (ar_job a)) (ar_progress a) d u r)"
      using that by (auto simp: h_def finish_active receives_active split: if_splits)
    then show ?thesis using D(10) [OF that] w(1) unfolding owned_receive_def by auto
  qed
  moreover have "owned_send ?g C a" if "active_send (registry_inner h) = Some a" for a
  proof -
    have "\<not> (\<exists>ra s w b f p. x = SendWorker (sj_job_id (as_job a)) (as_progress a) ra s w b f p)"
      using that by (auto simp: h_def finish_active sends_active split: if_splits)
    then show ?thesis using D(11) [OF that] w(1) unfolding owned_send_def by auto
  qed
  ultimately show ?thesis
    using D w(1) unfolding registry_inv_def w(2) by (auto simp: w(3))
qed

lemma check_idle_Inr: "check_idle g = Inr u \<longleftrightarrow> active_id g = None"
  by (simp add: check_idle_def split: option.split)

lemma cancel_take_Inr:
  "cancel_take j inner = Inr ((p, role, d), inner') \<Longrightarrow>
     registry_active_job_id inner = Some j \<and> registry_latest inner' = registry_latest inner \<and>
     (\<exists>a. active_receive inner = Some a \<and> p = ar_progress a \<and> inner' = inner\<lparr>active_receive := None\<rparr> \<or>
      (\<exists>a. active_receive inner = None \<and> active_send inner = Some a \<and> p = as_progress a \<and> inner' = inner\<lparr>active_send := None\<rparr>))"
  by (auto simp: cancel_take_def result_simps split: option.splits)

lemma advance_cancel:
  assumes "advance env (CancelTake j) g = (nxt, g')"
  obtains (refused) e where "nxt = Answer (Refused e)" "g' = g"
  | (receive) a where "j \<noteq> 0" "active_id g = Some j" "active_receive (registry_inner g) = Some a"
      "nxt = Continue (CancelSignal j (ar_progress a) JobReceiver (Some (pj_destination_root (ar_job a))))"
      "g' = g\<lparr>registry_inner := (registry_inner g)\<lparr>active_receive := None\<rparr>\<rparr>"
  | (send) a where "j \<noteq> 0" "active_id g = Some j" "active_receive (registry_inner g) = None" "active_send (registry_inner g) = Some a"
      "nxt = Continue (CancelSignal j (as_progress a) JobSender None)"
      "g' = g\<lparr>registry_inner := (registry_inner g)\<lparr>active_send := None\<rparr>\<rparr>"
proof (cases "j \<noteq> 0 \<and> active_id g = Some j")
  case True
  show ?thesis
  proof (cases "active_receive (registry_inner g)")
    case None
    then obtain a where "active_send (registry_inner g) = Some a" using True by (auto simp: registry_active_job_id_def)
    then show ?thesis using None True assms by (intro send) (auto simp: cancel_take_def)
  next
    case (Some a)
    then show ?thesis using True assms by (intro receive) (auto simp: cancel_take_def)
  qed
next
  case False
  then show ?thesis using assms by (cases "active_id g") (auto simp: cancel_take_def intro: refused split: if_splits)
qed

lemma inv_advance:
  assumes inv: "registry_inv g C n" and t: "C t = Some c" and adv: "advance env c g = (nxt, g')"
    and n: "is_reserve c \<Longrightarrow> Suc n < 2 ^ 64"
  shows "registry_inv g' (C(t := next_call nxt)) (n + (if is_reserve c then 1 else 0))"
proof -
  note D = registry_invD [OF inv]
  have keep: "registry_inv g (C(t := x)) n" if "\<not> starts_worker c" "Option.bind x call_job = None" for x
    using that t by (intro inv_change_call [OF inv]) auto
  show ?thesis
  proof (cases c)
    case (PrepareCheck d u b r)
    then show ?thesis using adv keep by (auto simp: proceed_or_refuse_def split: sum.splits)
  next
    case (PrepareOpen d u b r)
    then show ?thesis using adv keep by (auto simp: proceed_or_refuse_def split: sum.splits)
  next
    case (PrepareReserve d u r port)
    then have "Suc n < 2 ^ 64" using n by simp
    then have "next_job_id g \<noteq> 0" using issued_fresh(1) [of n] D(1) by (simp add: issued_def)
    then show ?thesis using adv PrepareReserve t D(1) \<open>Suc n < 2 ^ 64\<close>
      by (auto simp: fetch_add_job_id_def new_counter_def Let_def intro!: inv_reserve [OF inv])
  next
    case (PrepareActivate job p r)
    then show ?thesis using adv keep t inv_activate_receive [OF inv, of t job p r]
      by (auto simp: activate_receive_def check_idle_def split: option.splits)
  next
    case (PrepareSpawn job p r)
    then show ?thesis using adv t inv_spawn_receiver [OF inv] inv_clear_receive [OF inv]
      by (auto simp: spawn_receiver_def proceed_or_refuse_def split: sum.splits)
  next
    case (SendCheck a s w ca f p)
    then show ?thesis using adv keep by (auto simp: proceed_or_refuse_def split: sum.splits)
  next
    case (SendOpen a s w ca f p b)
    then show ?thesis using adv keep by (auto simp: proceed_or_refuse_def split: sum.splits)
  next
    case (SendReserve a s w ca f p b)
    then have "Suc n < 2 ^ 64" using n by simp
    then have "next_job_id g \<noteq> 0" using issued_fresh(1) [of n] D(1) by (simp add: issued_def)
    then show ?thesis using adv SendReserve t D(1) \<open>Suc n < 2 ^ 64\<close>
      by (auto simp: fetch_add_job_id_def new_counter_def Let_def intro!: inv_reserve [OF inv])
  next
    case (SendActivate job p b f l)
    then show ?thesis using adv keep t inv_activate_send [OF inv, of t job p b f l]
      by (auto simp: activate_send_def check_idle_def split: option.splits)
  next
    case (SendSpawn job p b f l)
    then show ?thesis using adv t inv_spawn_sender [OF inv] inv_clear_send [OF inv]
      by (auto simp: spawn_sender_def proceed_or_refuse_def split: sum.splits)
  next
    case (CancelTake j)
    have "registry_inv g' (C(t := x)) n" if "g' = g\<lparr>registry_inner := inner\<rparr>" "cancel_take j (registry_inner g) = Inr ((p, role, d), inner)"
      "Option.bind x call_job = None" for inner p role d x
    proof (rule inv_change_call)
      show "registry_inv g' C n" using that(1) cancel_take_Inr [OF that(2)] by (intro inv_deactivate [OF inv]) auto
    qed (use that t CancelTake in auto)
    then show ?thesis using adv keep CancelTake by (auto split: sum.splits if_splits)
  next
    case (CancelSignal j p role d)
    have "registry_inv g' C n" using adv CancelSignal by (intro inv_same_jobs [OF inv]) (auto simp: signal_cancel_def)
    then show ?thesis using adv CancelSignal t by (auto intro!: inv_change_call)
  next
    case (CancelRecord j role d)
    have "registry_inv g' C n" using adv CancelRecord by (intro inv_same_jobs [OF inv]) (auto simp: record_result_def)
    then show ?thesis using adv CancelRecord t by (auto intro!: inv_change_call)
  qed
qed

lemma registry_inv_step:
  assumes "agent_step w w'" "registry_inv (registry w) (calls w) (reservations w)" "reservations w' < 2 ^ 64 - 1"
  shows "registry_inv (registry w') (calls w') (reservations w')"
  using assms
proof (cases rule: agent_step.cases)
  case (request t c)
  then show ?thesis using assms(2) by (cases c) (auto intro!: inv_change_call)
next
  case (proceed t c env nxt g)
  then show ?thesis using inv_advance [OF assms(2) proceed(2,3)] assms(3) by (auto split: if_splits)
next
  case (work x op)
  then show ?thesis using inv_same_jobs [OF assms(2)] by simp
next
  case (finish xs x ys env received sent)
  then show ?thesis using inv_finish [OF assms(2) finish(2)] by simp
qed

lemma step_reservations: "agent_step w w' \<Longrightarrow> reservations w \<le> reservations w'"
  by (induction rule: agent_step.induct) simp_all

lemma inv_start: "registry_inv (registry (agent_start i)) (calls (agent_start i)) (reservations (agent_start i))"
  by (simp add: registry_inv_def agent_start_def ManagementJobRegistry_new_def held_def registry_active_job_id_def)

text \<open>The job IDs are unique as long as the 64-bit counter has not wrapped.\<close>

definition world_inv :: "agent_world \<Rightarrow> bool" where
  "world_inv w \<longleftrightarrow> (reservations w < 2 ^ 64 - 1 \<longrightarrow> registry_inv (registry w) (calls w) (reservations w))"

interpretation agent_jobs: invariant_system agent_step "\<lambda>w. \<exists>i. w = agent_start i" world_inv
proof
  fix s t assume "world_inv s" "agent_step s t"
  then show "world_inv t" using registry_inv_step [of s t] step_reservations [of s t] by (auto simp: world_inv_def)
qed (use inv_start in \<open>auto simp: world_inv_def\<close>)

lemma registry_inv_run:
  assumes "agent_run w w'" "registry_inv (registry w) (calls w) (reservations w)" "reservations w' < 2 ^ 64 - 1"
  shows "registry_inv (registry w') (calls w') (reservations w')"
  using agent_jobs.inv_steps [OF assms(1)] assms(2,3) by (simp add: world_inv_def)

section \<open>Jobs that are over\<close>

definition retired :: "agent_world \<Rightarrow> u64 \<Rightarrow> bool" where
  "retired w j \<longleftrightarrow> issued (reservations w) j \<and> active_id (registry w) \<noteq> Some j \<and>
     (\<forall>t c. calls w t = Some c \<longrightarrow> call_pending c \<longrightarrow> call_job c \<noteq> Some j)"

lemma worker_finish_active: "registry_active_job_id (worker_finish x res inner) = Some j \<Longrightarrow> registry_active_job_id inner = Some j"
  if "active_receive inner = None \<or> active_send inner = None"
  using that by (cases x) (auto simp: registry_active_job_id_def finish_active split: option.splits if_splits)

lemma advance_active:
  assumes "advance env c g = (nxt, g')" "active_id g' = Some j"
    and "active_receive (registry_inner g) = None \<or> active_send (registry_inner g) = None"
  shows "active_id g = Some j \<or> call_pending c \<and> call_job c = Some j"
proof (cases c)
  case (CancelTake k)
  from assms(1) [unfolded CancelTake] show ?thesis
    by (cases rule: advance_cancel) (use assms(2,3) in \<open>auto simp: registry_active_job_id_def\<close>)
qed (use assms in \<open>auto simp: registry_active_job_id_def fetch_add_job_id_def new_counter_def activate_receive_def activate_send_def
      spawn_receiver_def spawn_sender_def signal_cancel_def record_result_def check_idle_def result_simps
      split: sum.splits option.splits if_splits\<close>)

lemma advance_pending:
  assumes "advance env c g = (Continue c', g')" "call_pending c'"
  shows "is_reserve c \<and> call_job c' = Some (next_job_id g)"
  using assms by (cases c) (auto simp: proceed_or_refuse_def fetch_add_job_id_def new_counter_def spawn_receiver_def spawn_sender_def
      split: sum.splits if_splits)

lemma retired_step:
  assumes "agent_step w w'" "registry_inv (registry w) (calls w) (reservations w)" "reservations w' < 2 ^ 64 - 1" "retired w j"
  shows "retired w' j"
  using assms(1)
proof (cases rule: agent_step.cases)
  case (request t c)
  have "\<not> call_pending c" using request(3) by (cases c) simp_all
  then show ?thesis using assms(4) request(1) by (auto simp: retired_def split: if_splits)
next
  case (proceed t c env nxt g)
  note D = registry_invD [OF assms(2)]
  have "active_id g \<noteq> Some j"
    using advance_active [OF proceed(3), of j] D(2) assms(4) proceed(2) by (auto simp: retired_def)
  moreover have "call_job c' \<noteq> Some j" if "next_call nxt = Some c'" "call_pending c'" for c'
  proof -
    have "is_reserve c" "call_job c' = Some (next_job_id (registry w))"
      using that advance_pending [of env c "registry w" c' g] proceed(3) by (cases nxt; auto)+
    moreover have "\<not> issued (reservations w) (next_job_id (registry w))"
      using issued_fresh(2) [of "reservations w"] assms(3) proceed(1) \<open>is_reserve c\<close> D(1) by simp
    ultimately show ?thesis using assms(4) by (auto simp: retired_def)
  qed
  ultimately show ?thesis using assms(4) proceed(1) by (auto simp: retired_def issued_def split: if_splits)
next
  case (work x op)
  then show ?thesis using assms(4) by (simp add: retired_def)
next
  case (finish xs x ys env received sent)
  then show ?thesis using assms(4) worker_finish_active registry_invD(2) [OF assms(2)] by (auto simp: retired_def)
qed

lemma retired_run:
  assumes "agent_run w w'" "registry_inv (registry w) (calls w) (reservations w)" "reservations w' < 2 ^ 64 - 1" "retired w j"
  shows "retired w' j"
proof -
  let ?R = "\<lambda>u v. reservations u \<le> reservations v \<and> (reservations v < 2 ^ 64 - 1 \<and> retired u j \<longrightarrow> retired v j)"
  have "?R w w'"
  proof (rule agent_jobs.steps_related [OF assms(1), where R = ?R])
    fix u v assume "world_inv u" "agent_step u v"
    then show "?R u v" using retired_step [of u v j] step_reservations [of u v] by (auto simp: world_inv_def)
  qed (use assms(2) in \<open>auto simp: world_inv_def\<close>)
  then show ?thesis using assms(3,4) by blast
qed

lemma retired_finish:
  assumes "registry_active_job_id inner \<noteq> Some (worker_job_id x)" "active_receive inner = None \<or> active_send inner = None"
  shows "worker_finish x res inner = inner"
  using assms by (cases x) (auto simp: finish_receive_def finish_send_def receives_def sends_def registry_active_job_id_def split: option.splits)

lemma retired_cancel:
  assumes "advance env (CancelTake j) (registry w) = (Continue c, g)" "registry_inv (registry w) (calls w) (reservations w)"
    and "calls w t = Some (CancelTake j)"
  shows "retired (w\<lparr>registry := g, calls := (calls w)(t \<mapsto> c)\<rparr>) j"
proof -
  note D = registry_invD [OF assms(2)]
  obtain p role d inner where take: "cancel_take j (registry_inner (registry w)) = Inr ((p, role, d), inner)"
    and g: "g = (registry w)\<lparr>registry_inner := inner\<rparr>" and c: "c = CancelSignal j p role d"
    using assms(1) by (auto split: sum.splits if_splits)
  have active: "active_id (registry w) = Some j" using cancel_take_Inr [OF take] by simp
  have "active_id g \<noteq> Some j"
    using cancel_take_Inr [OF take] D(2) by (auto simp: g registry_active_job_id_def split: option.splits)
  moreover have "call_job c' \<noteq> Some j" if "calls w t' = Some c'" "call_pending c'" for t' c' using D(8) [OF that] active by auto
  ultimately show ?thesis using D(6) [OF active] c by (auto simp: retired_def split: if_splits)
qed

section \<open>Valid jobs\<close>

definition receive_job_ok :: "PreparedReceiveJob \<Rightarrow> bool" where
  "receive_job_ok job \<longleftrightarrow> pj_job_id job \<noteq> 0 \<and> pj_transfer_port job \<noteq> 0 \<and> validate_destination_path (pj_destination_root job) = Inr ()"

definition send_job_ok :: "StartedSendJob \<Rightarrow> bool" where
  "send_job_ok job \<longleftrightarrow> sj_job_id job \<noteq> 0 \<and>
     validate_send_parameters (sj_receiver_address job) (sj_source_root job) (sj_worker_count job) (sj_calibration_mib job) = Inr ()"

fun call_ok :: "nat \<Rightarrow> control_call \<Rightarrow> bool" where
  "call_ok m (PrepareOpen d _ _ _) \<longleftrightarrow> validate_destination_path d = Inr ()"
| "call_ok m (PrepareReserve d _ _ port) \<longleftrightarrow> validate_destination_path d = Inr () \<and> port \<noteq> 0"
| "call_ok m (PrepareActivate job p _) \<longleftrightarrow> receive_job_ok job \<and> p < m"
| "call_ok m (PrepareSpawn job p _) \<longleftrightarrow> receive_job_ok job \<and> p < m"
| "call_ok m (SendOpen a s w c _ _ _) \<longleftrightarrow> validate_send_parameters a s w c = Inr ()"
| "call_ok m (SendReserve a s w c _ _ _) \<longleftrightarrow> validate_send_parameters a s w c = Inr ()"
| "call_ok m (SendActivate job p _ _ _) \<longleftrightarrow> send_job_ok job \<and> p < m"
| "call_ok m (SendSpawn job p _ _ _) \<longleftrightarrow> send_job_ok job \<and> p < m"
| "call_ok m (CancelSignal j p _ _) \<longleftrightarrow> j \<noteq> 0 \<and> p < m"
| "call_ok m (CancelRecord j _ _) \<longleftrightarrow> j \<noteq> 0"
| "call_ok m _ \<longleftrightarrow> True"

definition registry_ok :: "ManagementJobRegistry \<Rightarrow> bool" where
  "registry_ok g \<longleftrightarrow>
     (\<forall>x \<in> set (workers g). worker_job_id x \<noteq> 0 \<and> worker_progress x < length (counters g)) \<and>
     (\<forall>a. active_receive (registry_inner g) = Some a \<longrightarrow> receive_job_ok (ar_job a) \<and> ar_progress a < length (counters g)) \<and>
     (\<forall>a. active_send (registry_inner g) = Some a \<longrightarrow> send_job_ok (as_job a) \<and> as_progress a < length (counters g)) \<and>
     (\<forall>r. registry_latest (registry_inner g) = Some r \<longrightarrow> result_job_id r \<noteq> 0)"

lemma call_ok_mono: "call_ok m c \<Longrightarrow> m \<le> m' \<Longrightarrow> call_ok m' c"
  by (cases c) auto

lemma advance_counters: "advance env c g = (nxt, g') \<Longrightarrow> length (counters g) \<le> length (counters g')"
  by (cases c) (auto simp: fetch_add_job_id_def new_counter_def activate_receive_def activate_send_def spawn_receiver_def
      spawn_sender_def signal_cancel_def record_result_def result_simps Let_def split: sum.splits if_splits)

lemma advance_registry_ok:
  assumes "registry_ok g" "call_ok (length (counters g)) c" "advance env c g = (nxt, g')"
  shows "registry_ok g'"
proof (cases c)
  case (CancelTake j)
  from assms(3) [unfolded CancelTake] show ?thesis by (cases rule: advance_cancel) (use assms(1) in \<open>auto simp: registry_ok_def\<close>)
qed (use assms in \<open>auto simp: registry_ok_def fetch_add_job_id_def new_counter_def activate_receive_def activate_send_def
      spawn_receiver_def spawn_sender_def signal_cancel_def record_result_def cancelled_result_def clear_receive_def clear_send_def
      receive_job_ok_def send_job_ok_def result_simps less_SucI split: sum.splits if_splits\<close>)

lemma advance_call_ok:
  assumes "registry_ok g" "call_ok (length (counters g)) c" "advance env c g = (Continue c', g')"
  shows "call_ok (length (counters g')) c'"
proof (cases c)
  case (CancelTake j)
  from assms(3) [unfolded CancelTake] show ?thesis by (cases rule: advance_cancel) (use assms(1) in \<open>auto simp: registry_ok_def\<close>)
qed (use assms in \<open>auto simp: proceed_or_refuse_def fetch_add_job_id_def new_counter_def activate_receive_def activate_send_def
      spawn_receiver_def spawn_sender_def signal_cancel_def open_receiver_def receive_job_ok_def send_job_ok_def
      result_simps split: sum.splits if_splits\<close>)

lemma worker_result_id: "result_job_id (worker_result env received sent x) = worker_job_id x"
  by (cases x) (auto simp: build_resumed_receive_result_def build_receive_result_def build_resumed_send_result_def
      build_send_result_def build_error_result_def split: sum.split option.split)

lemma worker_finish_parts:
  "active_receive (worker_finish x res inner) = active_receive inner \<or> active_receive (worker_finish x res inner) = None"
  "active_send (worker_finish x res inner) = active_send inner \<or> active_send (worker_finish x res inner) = None"
  "registry_latest (worker_finish x res inner) = registry_latest inner \<or> registry_latest (worker_finish x res inner) = Some res"
  by (cases x; simp add: finish_receive_def finish_send_def)+

definition world_ok :: "agent_world \<Rightarrow> bool" where
  "world_ok w \<longleftrightarrow> registry_ok (registry w) \<and> (\<forall>t c. calls w t = Some c \<longrightarrow> call_ok (length (counters (registry w))) c)"

lemma world_ok_step:
  assumes "agent_step w w'" "world_ok w"
  shows "world_ok w'"
  using assms(1)
proof (cases rule: agent_step.cases)
  case (request t c)
  then show ?thesis using assms(2) by (cases c) (auto simp: world_ok_def)
next
  case (proceed t c env nxt g)
  have ok: "registry_ok (registry w)" "call_ok (length (counters (registry w))) c" using assms(2) proceed(2) by (auto simp: world_ok_def)
  have "call_ok (length (counters g)) c'" if "next_call nxt = Some c'" for c'
    using advance_call_ok [OF ok] proceed(3) that by (cases nxt) auto
  then show ?thesis
    using assms(2) proceed(1) advance_registry_ok [OF ok proceed(3)] call_ok_mono [OF _ advance_counters [OF proceed(3)]]
    by (auto simp: world_ok_def)
next
  case (work x op)
  then show ?thesis using assms(2) by (auto simp: world_ok_def registry_ok_def)
next
  case (finish xs x ys env received sent)
  define res where "res = worker_result env received sent x"
  have "worker_job_id x \<noteq> 0" using assms(2) finish(2) by (auto simp: world_ok_def registry_ok_def)
  then have "result_job_id res \<noteq> 0" by (simp add: res_def worker_result_id)
  then show ?thesis
    using assms(2) finish(2) worker_finish_parts [of x res "registry_inner (registry w)"]
    unfolding finish(1) res_def [symmetric] by (auto simp: world_ok_def registry_ok_def)
qed

lemma world_ok_start: "world_ok (agent_start i)"
  by (simp add: world_ok_def agent_start_def registry_ok_def ManagementJobRegistry_new_def)

interpretation agent_values: invariant_system agent_step "\<lambda>w. \<exists>i. w = agent_start i" world_ok
  by unfold_locales (auto intro: world_ok_start world_ok_step)

lemmas world_ok_run = agent_values.inv_steps

text \<open>A cancelled counter stays cancelled.\<close>

definition signalled :: "nat \<Rightarrow> agent_world \<Rightarrow> bool" where
  "signalled p w \<longleftrightarrow> p < length (counters (registry w)) \<and> pc_cancelled (counters (registry w) ! p)"

lemma cancelled_update:
  "pc_cancelled (xs ! p) \<Longrightarrow> p < length xs \<Longrightarrow> (pc_cancelled (xs ! i) \<Longrightarrow> pc_cancelled y) \<Longrightarrow> pc_cancelled (xs[i := y] ! p)"
  by (cases "i = p") simp_all

lemma advance_signalled:
  assumes "advance env c g = (nxt, g')" "p < length (counters g)" "pc_cancelled (counters g ! p)"
  shows "p < length (counters g') \<and> pc_cancelled (counters g' ! p)"
  using assms by (cases c) (auto simp: fetch_add_job_id_def new_counter_def activate_receive_def activate_send_def spawn_receiver_def
      spawn_sender_def signal_cancel_def record_result_def progress_cancel_def nth_append result_simps intro!: cancelled_update
      split: sum.splits if_splits)

lemma apply_progress_op_cancelled [simp]: "pc_cancelled (apply_progress_op op p) = pc_cancelled p"
  by (cases op) (simp_all add: progress_add_def progress_set_completed_def progress_set_total_def progress_set_label_def)

lemma signalled_step: "agent_step w w' \<Longrightarrow> signalled p w \<Longrightarrow> signalled p w'"
  by (cases rule: agent_step.cases) (auto simp: signalled_def intro!: cancelled_update dest: advance_signalled)


section \<open>The snapshot of a registry\<close>

lemma validate_text_Inr: "validate_text s m e = Inr u \<longleftrightarrow> (e \<or> s \<noteq> []) \<and> str_len s \<le> m"
  by (auto simp: validate_text_def)

lemma encode_receiver_details:
  "receive_job_ok job \<Longrightarrow> \<exists>bs. encode_active_details JobReceiver
     (ReceiverDetails (pj_transfer_port job) (pj_destination_root job) u) = Inr bs"
  by (auto simp: receive_job_ok_def validate_destination_path_Inr validate_text_def MAX_DESTINATION_PATH_BYTES_def
      MAX_ACTIVE_PATH_BYTES_def word_try_from_def)

lemma encode_sender_details:
  assumes "send_job_ok job"
  shows "\<exists>bs. encode_active_details JobSender (SenderDetails (sj_receiver_address job) (sj_source_root job)
     (sj_worker_count job) (sj_calibration_mib job)) = Inr bs"
proof -
  have ok: "addr_port (sj_receiver_address job) \<noteq> 0" "validate_source_path (sj_source_root job) = Inr ()"
    "1 \<le> sj_worker_count job" "sj_worker_count job \<le> MAX_WORKERS" "sj_calibration_mib job \<noteq> 0"
    using assms by (auto simp: send_job_ok_def validate_send_parameters_Inr validate_worker_count_Inr bytes_from_mib_Inr)
  then have "validate_text (sj_source_root job) MAX_ACTIVE_PATH_BYTES False = Inr ()"
    "word_try_from InvalidInput (str_len (sj_source_root job)) = Inr (of_nat (str_len (sj_source_root job)) :: u32)"
    "word_try_from InvalidInput (sj_worker_count job) = Inr (of_nat (sj_worker_count job) :: u32)"
    by (auto simp: validate_source_path_Inr MAX_SOURCE_PATH_BYTES_def MAX_WORKERS_def MAX_ACTIVE_PATH_BYTES_def validate_text_def
        word_try_from_def)
  then show ?thesis using ok(1,3,5)
    by (simp add: socket_text_ok socket_text_length Let_def del: display_socket_addr.simps)
qed

text \<open>What may keep a snapshot from being sent: a phase label or a result message over its limit.\<close>

definition texts_fit :: "ManagementAgentSnapshot \<Rightarrow> bool" where
  "texts_fit s \<longleftrightarrow>
     pred_option (\<lambda>a. active_phase a \<noteq> [] \<and> str_len (active_phase a) \<le> MAX_PHASE_BYTES) (snapshot_active s) \<and>
     pred_option (\<lambda>r. str_len (result_message r) \<le> MAX_MESSAGE_BYTES) (latest_result s)"

lemma encode_active_ok:
  assumes "active_job_id a \<noteq> 0" "\<exists>bs. encode_active_details (active_role a) (active_details a) = Inr bs"
  shows "(\<exists>bs. encode_active a = Inr bs \<and> length bs \<le> 2 ^ 18) \<or> \<not> (active_phase a \<noteq> [] \<and> str_len (active_phase a) \<le> MAX_PHASE_BYTES)"
    and "encode_active a = Inr bs \<Longrightarrow> active_phase a \<noteq> [] \<and> str_len (active_phase a) \<le> MAX_PHASE_BYTES"
proof -
  obtain d where d: "encode_active_details (active_role a) (active_details a) = Inr d" using assms(2) by blast
  note length_encoded_details [OF d]
  then show "(\<exists>bs. encode_active a = Inr bs \<and> length bs \<le> 2 ^ 18) \<or> \<not> (active_phase a \<noteq> [] \<and> str_len (active_phase a) \<le> MAX_PHASE_BYTES)"
    using d assms(1) by (auto simp: encode_active_def validate_job_id_def validate_text_def word_try_from_def MAX_PHASE_BYTES_def)
  show "encode_active a = Inr bs \<Longrightarrow> active_phase a \<noteq> [] \<and> str_len (active_phase a) \<le> MAX_PHASE_BYTES"
    by (auto simp: encode_active_def result_simps validate_text_Inr)
qed

lemma encode_result_ok:
  assumes "result_job_id r \<noteq> 0"
  shows "(\<exists>bs. encode_result r = Inr bs \<and> length bs \<le> 2 ^ 13) \<or> \<not> str_len (result_message r) \<le> MAX_MESSAGE_BYTES"
    and "encode_result r = Inr bs \<Longrightarrow> str_len (result_message r) \<le> MAX_MESSAGE_BYTES"
  using assms by (auto simp: encode_result_def validate_job_id_def validate_text_def word_try_from_def MAX_MESSAGE_BYTES_def
      result_simps split: if_splits)

lemma snapshot_active_ok:
  assumes "registry_ok g" "snapshot_active (registry_snapshot g) = Some a"
  shows "active_job_id a \<noteq> 0" "\<exists>bs. encode_active_details (active_role a) (active_details a) = Inr bs"
  using assms encode_receiver_details encode_sender_details
  by (auto simp: registry_snapshot_def build_active_snapshot_def registry_ok_def receive_job_ok_def send_job_ok_def
      simp del: encode_active_details.simps split: option.splits)

lemma snapshot_sent_iff:
  assumes "registry_ok g"
  shows "(\<exists>bs. encode_snapshot (registry_snapshot g) = Inr bs) \<longleftrightarrow> texts_fit (registry_snapshot g)"
proof -
  let ?s = "registry_snapshot g"
  have r: "result_job_id r \<noteq> 0" if "latest_result ?s = Some r" for r
    using assms that by (auto simp: registry_snapshot_def registry_ok_def)
  have active: "(\<exists>bs. encode_optional encode_active (snapshot_active ?s) = Inr bs \<and> length bs \<le> 2 ^ 18) \<or>
      \<not> pred_option (\<lambda>a. active_phase a \<noteq> [] \<and> str_len (active_phase a) \<le> MAX_PHASE_BYTES) (snapshot_active ?s)"
    using encode_active_ok(1) snapshot_active_ok [OF assms] by (cases "snapshot_active ?s") (auto simp: encode_optional_def)
  have result: "(\<exists>bs. encode_optional encode_result (latest_result ?s) = Inr bs \<and> length bs \<le> 2 ^ 13) \<or>
      \<not> pred_option (\<lambda>r. str_len (result_message r) \<le> MAX_MESSAGE_BYTES) (latest_result ?s)"
    using encode_result_ok(1) r by (cases "latest_result ?s") (auto simp: encode_optional_def)
  show ?thesis
  proof
    assume "\<exists>bs. encode_snapshot ?s = Inr bs"
    then obtain x y where "encode_optional encode_active (snapshot_active ?s) = Inr x"
      "encode_optional encode_result (latest_result ?s) = Inr y"
      by (auto simp: encode_snapshot_def result_simps Let_def split: if_splits)
    then show "texts_fit ?s"
      using encode_active_ok(2) [OF snapshot_active_ok [OF assms]] encode_result_ok(2) r
      by (cases "snapshot_active ?s"; cases "latest_result ?s") (auto simp: texts_fit_def encode_optional_def)
  next
    assume "texts_fit ?s"
    then obtain x y where "encode_optional encode_active (snapshot_active ?s) = Inr x" "length x \<le> 2 ^ 18"
      "encode_optional encode_result (latest_result ?s) = Inr y" "length y \<le> 2 ^ 13"
      using active result by (auto simp: texts_fit_def)
    then show "\<exists>bs. encode_snapshot ?s = Inr bs"
      by (auto simp: encode_snapshot_def Let_def MAX_MANAGEMENT_PAYLOAD_BYTES_def)
  qed
qed

section \<open>Schedules\<close>

text \<open>A schedule names the thread that moves; a disabled move changes nothing.\<close>

datatype schedule_move = Ask nat control_call | Go nat | WorkerEnds

fun exec_move :: "JobEnvironment \<Rightarrow> ReceiveReport transfer_result \<Rightarrow> MultistreamCopyReport transfer_result \<Rightarrow> schedule_move
    \<Rightarrow> agent_world \<Rightarrow> agent_world" where
  "exec_move env received sent (Ask t c) w =
     (if calls w t = None \<and> is_request c then w\<lparr>calls := (calls w)(t \<mapsto> c)\<rparr> else w)"
| "exec_move env received sent (Go t) w =
     (case calls w t of None \<Rightarrow> w
      | Some c \<Rightarrow>
          (case advance env c (registry w) of (nxt, g) \<Rightarrow>
             w\<lparr>registry := g, calls := (calls w)(t := next_call nxt),
               reservations := reservations w + (if is_reserve c then 1 else 0)\<rparr>))"
| "exec_move env received sent WorkerEnds w =
     (case workers (registry w) of [] \<Rightarrow> w
      | x # ys \<Rightarrow>
          w\<lparr>registry := (registry w)\<lparr>
              registry_inner := worker_finish x (worker_result env received sent x) (registry_inner (registry w)), workers := ys\<rparr>\<rparr>)"

lemma exec_move_run: "agent_run w (exec_move env received sent m w)"
proof (cases m)
  case (Ask t c)
  then show ?thesis by (auto intro: agent_step.request)
next
  case (Go t)
  show ?thesis
  proof (cases "calls w t")
    case (Some c)
    obtain nxt g where "advance env c (registry w) = (nxt, g)" by fastforce
    then show ?thesis using r_into_rtranclp [of agent_step, OF agent_step.proceed [OF Some]] Some Go by simp
  qed (simp add: Go)
next
  case WorkerEnds
  show ?thesis
  proof (cases "workers (registry w)")
    case (Cons x ys)
    then show ?thesis using agent_step.finish [of w "[]" x ys env received sent] WorkerEnds
      by auto
  qed (simp add: WorkerEnds)
qed

lemma exec_run: "agent_run w (fold (exec_move env received sent) ms w)"
  by (induction ms arbitrary: w) (auto intro: rtranclp_trans exec_move_run)

definition sample_env :: JobEnvironment where
  "sample_env = \<lparr>os_create_dir_all = (\<lambda>_. Inr ()), os_is_dir = (\<lambda>_. Inr True), os_bind = (\<lambda>_. Inr 7001), os_spawn = Inr (),
     os_stored_streams = (\<lambda>_. Inr None)\<rparr>"

definition sample_prepare :: control_call where
  "sample_prepare = PrepareCheck (ustr ''D:/in'') True (V4 0 7001) False"

definition sample_report :: ReceiveReport where
  "sample_report = \<lparr>rr_files_received = 3, rr_bytes_received = 9, rr_data_stream_count = 4\<rparr>"

definition start_job :: "nat \<Rightarrow> schedule_move list" where
  "start_job t = [Ask t sample_prepare, Go t, Go t, Go t, Go t, Go t]"

definition sample_run :: "schedule_move list \<Rightarrow> agent_world" where
  "sample_run ms = fold (exec_move sample_env (Inr sample_report) (Inl (OtherError, []))) ms (agent_start 7)"

lemma sample_run_reached: "agent_run (agent_start 7) (sample_run ms)"
  by (simp add: sample_run_def exec_run)

lemma sample_destination: "validate_destination_path (ustr ''D:/in'') = Inr ()"
  by (simp add: validate_destination_path_def str_len_def utf8_char_len_def MAX_DESTINATION_PATH_BYTES_def path_separator_def
      ascii_alphabetic_def)

lemmas sample_run_simps = sample_run_def start_job_def sample_prepare_def sample_env_def agent_start_def ManagementJobRegistry_new_def
  sample_destination [simplified] proceed_or_refuse_def check_idle_def open_receiver_def fetch_add_job_id_def new_counter_def
  activate_receive_def spawn_receiver_def cancel_take_def signal_cancel_def record_result_def cancelled_result_def
  registry_active_job_id_def finish_receive_def receives_def build_receive_result_def

text \<open>
  A second thread may start, run and finish job 2 between the two critical sections of the cancellation of
  job 1: the result of job 2 is then lost.
\<close>

lemma late_cancel_overwrites:
  "map_option result_job_id (registry_latest (registry_inner (registry
     (sample_run (start_job 0 @ [Ask 1 (CancelTake 1), Go 1] @ start_job 0 @ [WorkerEnds, WorkerEnds]))))) = Some 2"
  "map_option result_job_id (registry_latest (registry_inner (registry
     (sample_run (start_job 0 @ [Ask 1 (CancelTake 1), Go 1] @ start_job 0 @ [WorkerEnds, WorkerEnds, Go 1, Go 1]))))) = Some 1"
  by (simp_all add: sample_run_simps)

section \<open>Properties\<close>

lemma cancel_signals:
  assumes "agent_run w w'" "world_ok w" "calls w t = Some (CancelSignal j p role d)"
  shows "calls w' t = Some (CancelSignal j p role d) \<or> signalled p w'"
  using assms(1)
proof (induction rule: rtranclp_induct)
  case (step u v)
  have ok: "world_ok u" using world_ok_run [OF step(1) assms(2)] .
  show ?case
  proof (cases "signalled p u")
    case False
    then have c: "calls u t = Some (CancelSignal j p role d)" using step.IH by blast
    then have "p < length (counters (registry u))" using ok unfolding world_ok_def by (metis call_ok.simps(9))
    with step(2) c show ?thesis
      by (auto elim!: agent_step.cases simp: signalled_def signal_cancel_def progress_cancel_def split: if_splits)
  qed (use signalled_step [OF step(2)] in simp)
qed (use assms(3) in simp)

text \<open>
  C22. Whatever requests arrive on the two server threads and however they interleave with the workers, an agent
  runs at most one job at a time: never a receiver and a sender together, the active job has an ID that was
  issued to it alone, no two workers have the same job, and the active job always has a thread that will end it,
  so that an agent with no call in progress and no worker is idle.
\<close>

theorem one_job_at_a_time:
  assumes "agent_run (agent_start i) w" "reservations w < 2 ^ 64 - 1"
  shows "(active_receive (registry_inner (registry w)) = None \<or> active_send (registry_inner (registry w)) = None) \<and>
    (\<forall>j. registry_active_job_id (registry_inner (registry w)) = Some j \<longrightarrow>
       j \<noteq> 0 \<and> unat j \<le> reservations w \<and>
       ((\<exists>t c. calls w t = Some c \<and> starts_worker c \<and> call_job c = Some j) \<or> j \<in> worker_job_id ` set (workers (registry w)))) \<and>
    distinct (map worker_job_id (workers (registry w))) \<and>
    (calls w = (\<lambda>_. None) \<and> workers (registry w) = [] \<longrightarrow> \<not> is_busy (registry w))"
proof -
  have inv: "registry_inv (registry w) (calls w) (reservations w)" using registry_inv_run [OF assms(1) inv_start assms(2)] .
  note D = registry_invD [OF inv]
  have own: "(\<exists>t c. calls w t = Some c \<and> starts_worker c \<and> call_job c = Some j) \<or> j \<in> worker_job_id ` set (workers (registry w))"
    if active: "active_id (registry w) = Some j" for j
  proof (cases "active_receive (registry_inner (registry w))")
    case None
    then obtain a where "active_send (registry_inner (registry w)) = Some a" "sj_job_id (as_job a) = j"
      using active by (auto simp: registry_active_job_id_def)
    then show ?thesis using D(11) unfolding owned_send_def by (force simp: image_iff)
  next
    case (Some a)
    then have "pj_job_id (ar_job a) = j" using active by (simp add: registry_active_job_id_def)
    then show ?thesis using D(10) [OF Some] unfolding owned_receive_def by (force simp: image_iff)
  qed
  moreover have "\<not> is_busy (registry w)" if "calls w = (\<lambda>_. None)" "workers (registry w) = []"
    using own that by (cases "active_id (registry w)") (auto simp: is_busy_def)
  ultimately show ?thesis using D(2,6,9) unfolding issued_def by blast
qed

text \<open>
  C23. A cancelled job is over: once the first critical section of \<^verbatim>\<open>cancel\<close> has taken job \<open>j\<close>, no later state of
  any interleaving has \<open>j\<close> active again, whatever its worker still reports leaves the registry unchanged, and
  as soon as the cancelling thread has moved on the worker's counter tells it to stop, for ever.
\<close>

theorem cancelled_job_stays_over:
  assumes "agent_run (agent_start i) w" "calls w t = Some (CancelTake j)"
    and "advance env (CancelTake j) (registry w) = (Continue c, g)"
    and "agent_run (w\<lparr>registry := g, calls := (calls w)(t \<mapsto> c)\<rparr>) w'" "reservations w' < 2 ^ 64 - 1"
  shows "registry_active_job_id (registry_inner (registry w')) \<noteq> Some j \<and>
    (\<forall>x res. worker_job_id x = j \<longrightarrow> worker_finish x res (registry_inner (registry w')) = registry_inner (registry w')) \<and>
    (\<exists>p role d. c = CancelSignal j p role d \<and>
       (calls w' t \<noteq> Some c \<longrightarrow> check_cancelled (counters (registry w') ! p) = Inl Interrupted))"
proof -
  let ?w = "w\<lparr>registry := g, calls := (calls w)(t \<mapsto> c)\<rparr>"
  have res: "reservations w < 2 ^ 64 - 1"
    using assms(4,5) by (induction rule: rtranclp_induct) (auto dest!: step_reservations)
  have inv: "registry_inv (registry w) (calls w) (reservations w)" using registry_inv_run [OF assms(1) inv_start res] .
  have step: "agent_step w ?w" using agent_step.proceed [OF assms(2,3)] by simp
  have inv': "registry_inv (registry ?w) (calls ?w) (reservations ?w)" using registry_inv_step [OF step inv] res by simp
  have "retired w' j" using retired_run [OF assms(4) inv' assms(5) retired_cancel [OF assms(3) inv assms(2)]] .
  then have active: "registry_active_job_id (registry_inner (registry w')) \<noteq> Some j" by (simp add: retired_def)
  have one: "active_receive (registry_inner (registry w')) = None \<or> active_send (registry_inner (registry w')) = None"
    using registry_invD(2) [OF registry_inv_run [OF assms(4) inv' assms(5)]] .
  have ok: "world_ok ?w" using world_ok_step [OF step world_ok_run [OF assms(1) world_ok_start]] .
  obtain p role d where c: "c = CancelSignal j p role d"
    using assms(3) by (cases rule: advance_cancel) auto
  have "check_cancelled (counters (registry w') ! p) = Inl Interrupted" if "calls w' t \<noteq> Some c"
    using cancel_signals [OF assms(4) ok, of t] that by (auto simp: c signalled_def check_cancelled_def)
  then show ?thesis using active retired_finish [OF _ one] c by blast
qed

text \<open>
  C35. An agent can report its state whenever the texts fit: in every reachable state the snapshot is sent if and
  only if the phase label (1 to 1024 bytes) and the message of the latest result (at most 4096 bytes) are within
  their limits; every other part of the job was checked when the job was accepted.
\<close>

theorem reachable_snapshot_sent:
  assumes "agent_run (agent_start i) w"
  shows "(\<exists>bs. encode_snapshot (registry_snapshot (registry w)) = Inr bs) \<longleftrightarrow> texts_fit (registry_snapshot (registry w))"
  using world_ok_run [OF assms world_ok_start] by (simp add: world_ok_def snapshot_sent_iff)

definition two_jobs_run :: agent_world where
  "two_jobs_run = sample_run (start_job 0 @ [Ask 1 (CancelTake 1), Go 1] @ start_job 0)"

lemma two_jobs_run: "agent_run (agent_start 7) two_jobs_run" "reservations two_jobs_run = 2"
  "registry_active_job_id (registry_inner (registry two_jobs_run)) = Some 2" "length (workers (registry two_jobs_run)) = 2"
  by (simp add: two_jobs_run_def sample_run_reached) (simp_all add: two_jobs_run_def sample_run_simps)

theorem one_job_at_a_time_witness:
  "active_receive (registry_inner (registry two_jobs_run)) = None \<or> active_send (registry_inner (registry two_jobs_run)) = None"
  using one_job_at_a_time [OF two_jobs_run(1)] two_jobs_run(2) by simp

definition cancelling_run :: agent_world where
  "cancelling_run = sample_run (start_job 0 @ [Ask 1 (CancelTake 1)])"

lemma cancelling_run: "agent_run (agent_start 7) cancelling_run" "calls cancelling_run 1 = Some (CancelTake 1)"
  "\<exists>p d g. advance sample_env (CancelTake 1) (registry cancelling_run) = (Continue (CancelSignal 1 p JobReceiver d), g)"
  "reservations cancelling_run = 1"
  by (simp add: cancelling_run_def sample_run_reached) (simp_all add: cancelling_run_def sample_run_simps)

theorem cancelled_job_stays_over_witness:
  "\<exists>g c. advance sample_env (CancelTake 1) (registry cancelling_run) = (Continue c, g) \<and>
     registry_active_job_id (registry_inner g) \<noteq> Some 1"
proof -
  obtain c g where "advance sample_env (CancelTake 1) (registry cancelling_run) = (Continue c, g)"
    using cancelling_run(3) by blast
  then show ?thesis
    using cancelled_job_stays_over [OF cancelling_run(1,2) _ rtranclp.rtrancl_refl, of sample_env c g] cancelling_run(4) by auto
qed

theorem reachable_snapshot_sent_witness:
  "\<exists>bs. encode_snapshot (registry_snapshot (registry two_jobs_run)) = Inr bs"
proof -
  have "texts_fit (registry_snapshot (registry two_jobs_run))"
    by (simp add: two_jobs_run_def sample_run_simps texts_fit_def registry_snapshot_def build_active_snapshot_def progress_new_def
        str_len_def utf8_char_len_def MAX_PHASE_BYTES_def)
  then show ?thesis using reachable_snapshot_sent [OF two_jobs_run(1)] by simp
qed

end
