(* ===== verification/Remote_Directory.thy ===== *)
theory Remote_Directory
  imports Job_Messages "HOL-Library.List_Lexorder"
begin

text \<open>
  Browsing an agent's disk from the manager (\<^verbatim>\<open>src/management_directory.rs\<close>): the request, the enumeration of a
  directory with its order and limits, and the codec of the listing.
\<close>

section \<open>Entries\<close>

datatype ManagementEntryKind = DirectoryEntry | FileEntry | OtherEntry

fun entry_kind_code :: "ManagementEntryKind \<Rightarrow> u8" where
  "entry_kind_code DirectoryEntry = 1"
| "entry_kind_code FileEntry = 2"
| "entry_kind_code OtherEntry = 3"

fun sort_rank :: "ManagementEntryKind \<Rightarrow> nat" where
  "sort_rank DirectoryEntry = 0"
| "sort_rank FileEntry = 1"
| "sort_rank OtherEntry = 2"

definition entry_kind_try_from :: "u8 \<Rightarrow> ManagementEntryKind io_result" where
  "entry_kind_try_from v =
     (if v = 1 then Inr DirectoryEntry else if v = 2 then Inr FileEntry else if v = 3 then Inr OtherEntry else Inl InvalidData)"

record ManagementDirectoryEntry =
  de_name :: ustring
  de_kind :: ManagementEntryKind
  de_size :: u64
  de_modified :: "u64 option"

definition DIRECTORY_REQUEST_VERSION :: u16 where "DIRECTORY_REQUEST_VERSION = 1"
definition DIRECTORY_REQUEST_HEADER_BYTES :: usize where "DIRECTORY_REQUEST_HEADER_BYTES = 4"
definition DIRECTORY_RESPONSE_VERSION :: u16 where "DIRECTORY_RESPONSE_VERSION = 1"
definition DIRECTORY_RESPONSE_HEADER_BYTES :: usize where "DIRECTORY_RESPONSE_HEADER_BYTES = 8"
definition DIRECTORY_ENTRY_HEADER_BYTES :: usize where "DIRECTORY_ENTRY_HEADER_BYTES = 20"
definition MAX_REMOTE_PATH_BYTES :: usize where "MAX_REMOTE_PATH_BYTES = 32 * 1024"
definition MAX_ENTRY_NAME_BYTES :: usize where "MAX_ENTRY_NAME_BYTES = 1024"
definition MAX_DIRECTORY_ENTRIES :: usize where "MAX_DIRECTORY_ENTRIES = 50000"
definition UNKNOWN_MODIFIED_TIME :: u64 where "UNKNOWN_MODIFIED_TIME = - 1"

lemmas directory_constants = DIRECTORY_REQUEST_VERSION_def DIRECTORY_REQUEST_HEADER_BYTES_def DIRECTORY_RESPONSE_VERSION_def
  DIRECTORY_RESPONSE_HEADER_BYTES_def DIRECTORY_ENTRY_HEADER_BYTES_def MAX_REMOTE_PATH_BYTES_def MAX_ENTRY_NAME_BYTES_def
  MAX_DIRECTORY_ENTRIES_def UNKNOWN_MODIFIED_TIME_def

text \<open>The module's own \<^verbatim>\<open>validate_text\<close> and \<^verbatim>\<open>decode_text\<close> never allow an empty text.\<close>

abbreviation validate_nonempty :: "ustring \<Rightarrow> usize \<Rightarrow> unit io_result" where
  "validate_nonempty value maximum_bytes \<equiv> validate_text value maximum_bytes False"

section \<open>Requests\<close>

definition encode_directory_request :: "ustring \<Rightarrow> byte list io_result" where
  "encode_directory_request path =
     ebind (validate_nonempty path MAX_REMOTE_PATH_BYTES) (\<lambda>_.
     ebind (word_try_from InvalidInput (str_len path)) (\<lambda>path_length :: u16.
       Inr (to_le_bytes DIRECTORY_REQUEST_VERSION @ to_le_bytes path_length @ as_bytes path)))"

definition decode_directory_request :: "byte list \<Rightarrow> ustring io_result" where
  "decode_directory_request body =
     ebind (ensure (DIRECTORY_REQUEST_HEADER_BYTES \<le> length body) InvalidData) (\<lambda>_.
     ebind (ensure ((from_le_bytes (byte_slice body 0 2) :: u16) = DIRECTORY_REQUEST_VERSION) InvalidData) (\<lambda>_.
     (let path_length = unat (from_le_bytes (byte_slice body 2 4) :: u16);
          expected_length = DIRECTORY_REQUEST_HEADER_BYTES + path_length in
     ebind (ensure (length body = expected_length) InvalidData) (\<lambda>_.
       decode_text (drop DIRECTORY_REQUEST_HEADER_BYTES body) MAX_REMOTE_PATH_BYTES False))))"

section \<open>Enumeration\<close>

text \<open>
  What \<^verbatim>\<open>read_dir\<close> yields: per item its name in UTF-16 and its metadata, or an error.  \<^verbatim>\<open>to_string_lossy\<close>
  replaces an unpaired surrogate; the lower-case mapping of the standard library's Unicode tables is an argument.
\<close>

record DirMetadata =
  dm_is_dir :: bool
  dm_is_file :: bool
  dm_len :: u64
  dm_modified :: "u64 option"

type_synonym dir_item = "(u16 list \<times> DirMetadata io_result) io_result"

fun to_string_lossy :: "u16 list \<Rightarrow> ustring" where
  "to_string_lossy [] = []"
| "to_string_lossy (u # us) =
     (let c = unat u in
      if c < 0xD800 \<or> 0xE000 \<le> c then c # to_string_lossy us
      else if c < 0xDC00 then
        (case us of
           v # vs \<Rightarrow>
             if 0xDC00 \<le> unat v \<and> unat v < 0xE000
             then (0x10000 + (c - 0xD800) * 0x400 + (unat v - 0xDC00)) # to_string_lossy vs
             else 0xFFFD # to_string_lossy us
         | [] \<Rightarrow> [0xFFFD])
      else 0xFFFD # to_string_lossy us)"

definition directory_entry :: "ustring \<Rightarrow> DirMetadata \<Rightarrow> ManagementDirectoryEntry" where
  "directory_entry name metadata =
     (let entry_kind = if dm_is_dir metadata then DirectoryEntry else if dm_is_file metadata then FileEntry else OtherEntry in
      \<lparr>de_name = name, de_kind = entry_kind, de_size = (if entry_kind = FileEntry then dm_len metadata else 0),
       de_modified = dm_modified metadata\<rparr>)"

fun collect_entries :: "dir_item list \<Rightarrow> ManagementDirectoryEntry list \<Rightarrow> ManagementDirectoryEntry list io_result" where
  "collect_entries [] entries = Inr entries"
| "collect_entries (item # items) entries =
     ebind item (\<lambda>(raw_name, metadata_result).
     (let name = to_string_lossy raw_name in
     ebind (validate_nonempty name MAX_ENTRY_NAME_BYTES) (\<lambda>_.
     ebind metadata_result (\<lambda>metadata.
     (let entries' = entries @ [directory_entry name metadata] in
     ebind (ensure (length entries' \<le> MAX_DIRECTORY_ENTRIES) InvalidData) (\<lambda>_.
       collect_entries items entries'))))))"

text \<open>
  The order of the listing: by kind, then by lower-case name, then by name.  Rust compares strings by their
  UTF-8 bytes, which is the order of the scalar values.
\<close>

definition entry_le :: "(ustring \<Rightarrow> ustring) \<Rightarrow> ManagementDirectoryEntry \<Rightarrow> ManagementDirectoryEntry \<Rightarrow> bool" where
  "entry_le lowercase l r \<longleftrightarrow>
     (let a = sort_rank (de_kind l); b = sort_rank (de_kind r);
          x = lowercase (de_name l); y = lowercase (de_name r) in
      a < b \<or> a = b \<and> (x < y \<or> x = y \<and> de_name l \<le> de_name r))"

fun insert_entry :: "('a \<Rightarrow> 'a \<Rightarrow> bool) \<Rightarrow> 'a \<Rightarrow> 'a list \<Rightarrow> 'a list" where
  "insert_entry le x [] = [x]"
| "insert_entry le x (y # ys) = (if le x y then x # y # ys else y # insert_entry le x ys)"

definition sort_entries :: "('a \<Rightarrow> 'a \<Rightarrow> bool) \<Rightarrow> 'a list \<Rightarrow> 'a list" where
  "sort_entries le xs = foldr (insert_entry le) xs []"

definition directory_enumerate ::
    "(ustring \<Rightarrow> ustring) \<Rightarrow> (ustring \<Rightarrow> bool io_result) \<Rightarrow> (ustring \<Rightarrow> dir_item list io_result) \<Rightarrow> ustring
      \<Rightarrow> ManagementDirectoryEntry list io_result" where
  "directory_enumerate lowercase is_dir read_dir path =
     ebind (validate_nonempty path MAX_REMOTE_PATH_BYTES) (\<lambda>_.
     ebind (ensure (path_is_absolute path) InvalidInput) (\<lambda>_.
     ebind (is_dir path) (\<lambda>d.
     ebind (ensure d InvalidInput) (\<lambda>_.
     ebind (read_dir path) (\<lambda>items.
     ebind (collect_entries items []) (\<lambda>entries.
       Inr (sort_entries (entry_le lowercase) entries)))))))"

section \<open>Responses\<close>

definition encode_entry :: "ManagementDirectoryEntry \<Rightarrow> byte list io_result" where
  "encode_entry e =
     ebind (word_try_from InvalidInput (str_len (de_name e))) (\<lambda>name_length :: u16.
       Inr ([entry_kind_code (de_kind e), 0] @ to_le_bytes name_length @ to_le_bytes (de_size e) @
            to_le_bytes (case de_modified e of Some t \<Rightarrow> t | None \<Rightarrow> UNKNOWN_MODIFIED_TIME) @ as_bytes (de_name e)))"

fun response_length :: "ManagementDirectoryEntry list \<Rightarrow> usize \<Rightarrow> usize io_result" where
  "response_length [] n = Inr n"
| "response_length (e # es) n =
     ebind (validate_nonempty (de_name e) MAX_ENTRY_NAME_BYTES) (\<lambda>_.
       response_length es (n + DIRECTORY_ENTRY_HEADER_BYTES + str_len (de_name e)))"

definition encode_directory_response :: "ManagementDirectoryEntry list \<Rightarrow> byte list io_result" where
  "encode_directory_response entries =
     ebind (ensure (length entries \<le> MAX_DIRECTORY_ENTRIES) InvalidInput) (\<lambda>_.
     ebind (word_try_from InvalidInput (length entries)) (\<lambda>entry_count :: u32.
     ebind (response_length entries DIRECTORY_RESPONSE_HEADER_BYTES) (\<lambda>payload_length.
     ebind (ensure (payload_length \<le> MAX_MANAGEMENT_PAYLOAD_BYTES) InvalidInput) (\<lambda>_.
       wcat (Inr (to_le_bytes DIRECTORY_RESPONSE_VERSION) # Inr (to_le_bytes (0 :: u16)) # Inr (to_le_bytes entry_count) #
             map encode_entry entries)))))"

text \<open>
  The cursor of the decoding loop is at most the length of the payload, so its checked additions cannot fail:
  the loop reads its entries off the bytes after the cursor.
\<close>

definition decode_entry :: "ManagementDirectoryEntry reader" where
  "decode_entry =
     rbind (read_exact DIRECTORY_ENTRY_HEADER_BYTES) (\<lambda>header.
     rbind (rlift (entry_kind_try_from (header ! 0))) (\<lambda>entry_kind.
     rbind (rguard (header ! 1 = 0) InvalidData) (\<lambda>_.
     (let name_length = unat (from_le_bytes (byte_slice header 2 4) :: u16);
          entry_size = (from_le_bytes (byte_slice header 4 12) :: u64);
          modified = (from_le_bytes (byte_slice header 12 20) :: u64) in
     rbind (read_exact name_length) (\<lambda>name_bytes.
     rbind (rlift (decode_text name_bytes MAX_ENTRY_NAME_BYTES False)) (\<lambda>name.
       rret \<lparr>de_name = name, de_kind = entry_kind, de_size = entry_size,
             de_modified = (if modified \<noteq> UNKNOWN_MODIFIED_TIME then Some modified else None)\<rparr>))))))"

definition decode_directory_response :: "byte list \<Rightarrow> ManagementDirectoryEntry list io_result" where
  "decode_directory_response body =
     ebind (ensure (DIRECTORY_RESPONSE_HEADER_BYTES \<le> length body) InvalidData) (\<lambda>_.
     ebind (ensure ((from_le_bytes (byte_slice body 0 2) :: u16) = DIRECTORY_RESPONSE_VERSION) InvalidData) (\<lambda>_.
     ebind (ensure ((from_le_bytes (byte_slice body 2 4) :: u16) = 0) InvalidData) (\<lambda>_.
     (let entry_count = unat (from_le_bytes (byte_slice body 4 8) :: u32) in
     ebind (ensure (entry_count \<le> MAX_DIRECTORY_ENTRIES) InvalidData) (\<lambda>_.
     ebind (read_times entry_count decode_entry (drop DIRECTORY_RESPONSE_HEADER_BYTES body)) (\<lambda>(entries, rest).
     ebind (ensure (rest = []) InvalidData) (\<lambda>_. Inr entries)))))))"

section \<open>Round trips\<close>

lemma directory_request_codec:
  assumes "encode_directory_request path = Inr bs" "is_text path"
  shows "decode_directory_request bs = Inr path"
proof -
  have valid: "validate_nonempty path MAX_REMOTE_PATH_BYTES = Inr ()" "str_len path < 2 ^ 16"
    and bs: "bs = to_le_bytes DIRECTORY_REQUEST_VERSION @ to_le_bytes (of_nat (str_len path) :: u16) @ as_bytes path"
    using assms(1) by (auto simp: encode_directory_request_def result_simps word_try_from_Inr)
  have "unat (of_nat (str_len path) :: u16) = str_len path" using valid(2) by (simp add: unat_of_nat_small)
  then show ?thesis using decode_text_as_bytes [OF assms(2) valid(1)]
    unfolding bs decode_directory_request_def
    by (simp add: byte_slice_def DIRECTORY_REQUEST_HEADER_BYTES_def from_to_le_bytes Let_def)
qed

definition entry_representable :: "ManagementDirectoryEntry \<Rightarrow> bool" where
  "entry_representable e \<longleftrightarrow> is_text (de_name e) \<and> de_name e \<noteq> [] \<and> str_len (de_name e) \<le> MAX_ENTRY_NAME_BYTES \<and>
     de_modified e \<noteq> Some UNKNOWN_MODIFIED_TIME"

lemma entry_kind_try_from_code [simp]: "entry_kind_try_from (entry_kind_code k) = Inr k"
  by (cases k) (simp_all add: entry_kind_try_from_def)

interpretation dir_entry: wire_codec encode_entry decode_entry entry_representable
proof
  fix e assume "entry_representable e"
  then show "\<exists>bs. encode_entry e = Inr bs"
    by (auto simp: encode_entry_def entry_representable_def MAX_ENTRY_NAME_BYTES_def word_try_from_def)
next
  fix e bs rest assume e: "entry_representable e" "encode_entry e = Inr bs"
  define modified where "modified = (case de_modified e of Some t \<Rightarrow> t | None \<Rightarrow> UNKNOWN_MODIFIED_TIME)"
  define header where "header = [entry_kind_code (de_kind e), 0] @ to_le_bytes (of_nat (str_len (de_name e)) :: u16) @
    to_le_bytes (de_size e) @ to_le_bytes modified"
  have n: "str_len (de_name e) < 2 ^ 16" and bs: "bs = header @ as_bytes (de_name e)"
    using e(2) by (auto simp: encode_entry_def result_simps word_try_from_Inr header_def modified_def)
  have "unat (of_nat (str_len (de_name e)) :: u16) = str_len (de_name e)" using n by (simp add: unat_of_nat_small)
  then have fields: "length header = 20" "header ! 0 = entry_kind_code (de_kind e)" "header ! Suc 0 = 0"
    "unat (from_le_bytes (byte_slice header 2 4) :: u16) = str_len (de_name e)"
    "from_le_bytes (byte_slice header 4 12) = de_size e" "from_le_bytes (byte_slice header 12 20) = modified"
    by (simp_all add: header_def byte_slice_def from_to_le_bytes)
  have "decode_text (as_bytes (de_name e)) MAX_ENTRY_NAME_BYTES False = Inr (de_name e)"
    using e(1) by (intro decode_text_as_bytes) (auto simp: entry_representable_def validate_text_def)
  moreover have "(if modified \<noteq> UNKNOWN_MODIFIED_TIME then Some modified else None) = de_modified e"
    using e(1) by (auto simp: modified_def entry_representable_def split: option.splits)
  ultimately show "decode_entry (bs @ rest) = Inr (e, rest)"
    unfolding bs decode_entry_def
    by (simp add: rbind_def read_exact_append fields DIRECTORY_ENTRY_HEADER_BYTES_def)
qed

lemma directory_response_codec:
  assumes "encode_directory_response es = Inr bs" "\<forall>e \<in> set es. entry_representable e"
  shows "decode_directory_response bs = Inr es"
proof -
  obtain body where es: "length es \<le> MAX_DIRECTORY_ENTRIES" "wcat (map encode_entry es) = Inr body"
    and bs: "bs = to_le_bytes DIRECTORY_RESPONSE_VERSION @ to_le_bytes (0 :: u16) @ to_le_bytes (of_nat (length es) :: u32) @ body"
    using assms(1) by (auto simp: encode_directory_response_def result_simps word_try_from_Inr)
  have n: "unat (of_nat (length es) :: u32) = length es"
    using es(1) by (simp add: unat_of_nat_small MAX_DIRECTORY_ENTRIES_def)
  have read: "read_times (length es) decode_entry body = Inr (es, [])"
    using dir_entry.read_times_write [OF assms(2) es(2), of "[]"] by simp
  show ?thesis
    unfolding bs decode_directory_response_def
    by (simp add: byte_slice_def DIRECTORY_RESPONSE_HEADER_BYTES_def from_to_le_bytes n read es(1) Let_def)
qed

section \<open>The order of a listing\<close>

lemma entry_le_total: "entry_le f a b \<or> entry_le f b a"
  by (auto simp: entry_le_def Let_def)

lemma entry_le_trans: "entry_le f a b \<Longrightarrow> entry_le f b c \<Longrightarrow> entry_le f a c"
  by (auto simp: entry_le_def Let_def)

lemma mset_insert_entry [simp]: "mset (insert_entry le x ys) = add_mset x (mset ys)"
  by (induction ys) auto

lemma mset_sort_entries: "mset (sort_entries le xs) = mset xs"
  by (induction xs) (simp_all add: sort_entries_def)

lemma sorted_insert_entry:
  assumes "\<And>a b. le a b \<or> le b a" "\<And>a b c. le a b \<Longrightarrow> le b c \<Longrightarrow> le a c" "sorted_wrt le ys"
  shows "sorted_wrt le (insert_entry le x ys)"
  using assms(3)
proof (induction ys)
  case (Cons y ys)
  have elements: "set (insert_entry le x ys) = insert x (set ys)" by (metis mset_insert_entry set_mset_add_mset_insert set_mset_mset)
  show ?case
  proof (cases "le x y")
    case True
    then have "\<forall>z \<in> set ys. le x z" using Cons.prems assms(2) [OF True] by simp
    with True Cons.prems show ?thesis by simp
  next
    case False
    then have "le y x" using assms(1) by blast
    with False Cons elements show ?thesis by simp
  qed
qed simp

lemma sorted_sort_entries: "sorted_wrt (entry_le f) (sort_entries (entry_le f) xs)"
  unfolding sort_entries_def
proof (induction xs)
  case (Cons x xs)
  then show ?case using sorted_insert_entry [of "entry_le f", OF entry_le_total entry_le_trans] by simp
qed simp

lemma is_text_Cons: "is_text (c # s) \<longleftrightarrow> is_scalar c \<and> is_text s"
  by (simp add: is_text_def)

lemma surrogate_pair_scalar:
  assumes "0xD800 \<le> c" "c < 0xDC00" "0xDC00 \<le> d" "d < 0xE000"
  shows "is_scalar (0x10000 + (c - 0xD800) * 0x400 + (d - 0xDC00))"
  using assms unfolding is_scalar_def by simp

lemma replacement_scalar: "is_scalar 0xFFFD"
  by (simp add: is_scalar_def)

lemma to_string_lossy_scalar: "is_text (to_string_lossy us)"
proof (induction us rule: length_induct)
  case (1 us)
  show ?case
  proof (cases us)
    case (Cons u vs)
    have vs: "is_text (to_string_lossy vs)" using 1 Cons by simp
    have u: "unat u < 0x10000" using unat_less_2p [of u] by simp
    consider "unat u < 0xD800 \<or> 0xE000 \<le> unat u" | "0xD800 \<le> unat u" "unat u < 0xDC00"
      | "0xDC00 \<le> unat u" "unat u < 0xE000" by linarith
    then show ?thesis
    proof cases
      case 1
      then have "is_scalar (unat u)" using u by (auto simp: is_scalar_def)
      then show ?thesis using vs 1 by (simp add: Cons is_text_Cons)
    next
      case 2
      show ?thesis
      proof (cases vs)
        case Nil
        then show ?thesis using 2 by (simp add: Cons is_text_Cons replacement_scalar is_text_def is_scalar_def)
      next
        case (Cons v ws)
        then have "is_text (to_string_lossy ws)" using 1 \<open>us = u # vs\<close> by simp
        then show ?thesis using vs 2 surrogate_pair_scalar [OF 2, of "unat v"]
          by (simp add: \<open>us = u # vs\<close> Cons is_text_Cons replacement_scalar del: to_string_lossy.simps(2) add: to_string_lossy.simps(2) [of u])
      qed
    next
      case 3
      then show ?thesis using vs by (simp add: Cons is_text_Cons replacement_scalar)
    qed
  qed (simp add: is_text_def)
qed

definition listed_entry :: "dir_item \<Rightarrow> ManagementDirectoryEntry option" where
  "listed_entry item = (case item of Inr (name, Inr metadata) \<Rightarrow> Some (directory_entry (to_string_lossy name) metadata) | _ \<Rightarrow> None)"

lemma collect_entries_Inr:
  "collect_entries items acc = Inr es \<Longrightarrow>
     map Some es = map Some acc @ map listed_entry items \<and>
     (\<forall>e \<in> set es. e \<in> set acc \<or> is_text (de_name e) \<and> de_name e \<noteq> [] \<and> str_len (de_name e) \<le> MAX_ENTRY_NAME_BYTES) \<and>
     (length acc \<le> MAX_DIRECTORY_ENTRIES \<longrightarrow> length es \<le> MAX_DIRECTORY_ENTRIES)"
proof (induction items arbitrary: acc)
  case (Cons item items)
  then obtain raw metadata where item: "item = Inr (raw, Inr metadata)"
    and ok: "validate_nonempty (to_string_lossy raw) MAX_ENTRY_NAME_BYTES = Inr ()" "length acc < MAX_DIRECTORY_ENTRIES"
    and rest: "collect_entries items (acc @ [directory_entry (to_string_lossy raw) metadata]) = Inr es"
    by (auto simp: result_simps Let_def)
  have "de_name (directory_entry (to_string_lossy raw) metadata) = to_string_lossy raw"
    by (simp add: directory_entry_def Let_def)
  then show ?case
    using Cons.IH [OF rest] ok to_string_lossy_scalar [of raw]
    by (auto simp: item listed_entry_def validate_text_def split: if_splits)
qed simp

lemma enumerate_representable:
  assumes "directory_enumerate lowercase is_dir read_dir path = Inr es"
    and "\<forall>e \<in> set es. de_modified e \<noteq> Some UNKNOWN_MODIFIED_TIME"
  shows "\<forall>e \<in> set es. entry_representable e" "length es \<le> MAX_DIRECTORY_ENTRIES"
proof -
  obtain items xs where xs: "collect_entries items [] = Inr xs" and es: "es = sort_entries (entry_le lowercase) xs"
    using assms(1) by (auto simp: directory_enumerate_def result_simps)
  have m: "mset es = mset xs" by (simp add: es mset_sort_entries)
  have "set es = set xs" "length es = length xs" using mset_eq_setD [OF m] mset_eq_length [OF m] by simp_all
  then show "\<forall>e \<in> set es. entry_representable e" "length es \<le> MAX_DIRECTORY_ENTRIES"
    using collect_entries_Inr [OF xs] assms(2) by (auto simp: entry_representable_def)
qed

text \<open>
   A directory listing the manager receives is the directory: when the agent enumerates a directory and its
  answer fits a frame, the manager decodes exactly the entries of every item of \<^verbatim>\<open>read_dir\<close>, directories
  first, then files, each group in the order of the lower-case names.
\<close>

theorem listing_reaches_manager:
  assumes "directory_enumerate lowercase is_dir read_dir path = Inr es" "encode_directory_response es = Inr bs"
    and "\<forall>e \<in> set es. de_modified e \<noteq> Some UNKNOWN_MODIFIED_TIME"
  shows "decode_directory_response bs = Inr es \<and> sorted_wrt (entry_le lowercase) es \<and>
    (\<exists>items. read_dir path = Inr items \<and> mset (map Some es) = mset (map listed_entry items))"
proof -
  obtain items xs where items: "read_dir path = Inr items" and xs: "collect_entries items [] = Inr xs"
    and es: "es = sort_entries (entry_le lowercase) xs"
    using assms(1) by (auto simp: directory_enumerate_def result_simps)
  have "mset (map Some es) = image_mset Some (mset xs)" by (simp add: es mset_sort_entries)
  also have "\<dots> = mset (map Some xs)" by simp
  also have "map Some xs = map listed_entry items" using collect_entries_Inr [OF xs] by simp
  finally show ?thesis
    using directory_response_codec [OF assms(2) enumerate_representable(1) [OF assms(1,3)]] items
    by (simp add: es sorted_sort_entries)
qed

definition sample_read_dir :: "ustring \<Rightarrow> dir_item list io_result" where
  "sample_read_dir path = Inr [Inr ([0x62], Inr \<lparr>dm_is_dir = False, dm_is_file = True, dm_len = 5, dm_modified = Some 9\<rparr>),
     Inr ([0x61], Inr \<lparr>dm_is_dir = True, dm_is_file = False, dm_len = 0, dm_modified = None\<rparr>)]"

theorem listing_reaches_manager_witness:
  "\<exists>es bs. directory_enumerate to_ascii_uppercase (\<lambda>_. Inr True) sample_read_dir (ustr ''C:/x'') = Inr es \<and>
     map de_name es = [[0x61], [0x62]] \<and> encode_directory_response es = Inr bs \<and> decode_directory_response bs = Inr es"
proof -
  define a b where ab: "a = \<lparr>de_name = [0x61], de_kind = DirectoryEntry, de_size = 0, de_modified = None\<rparr>"
    "b = \<lparr>de_name = [0x62], de_kind = FileEntry, de_size = 5, de_modified = Some 9\<rparr>"
  have es: "directory_enumerate to_ascii_uppercase (\<lambda>_. Inr True) sample_read_dir (ustr ''C:/x'') = Inr [a, b]"
    by (simp add: directory_enumerate_def sample_read_dir_def validate_text_def str_len_def utf8_char_len_def directory_constants
        path_separator_def ascii_alphabetic_def directory_entry_def sort_entries_def entry_le_def ab)
  have "\<exists>bs. encode_directory_response [a, b] = Inr bs"
    by (simp add: encode_directory_response_def encode_entry_def validate_text_def word_try_from_def str_len_def utf8_char_len_def
        directory_constants MAX_MANAGEMENT_PAYLOAD_BYTES_def ab)
  then obtain bs where bs: "encode_directory_response [a, b] = Inr bs" by blast
  show ?thesis using listing_reaches_manager [OF es bs] es bs by (simp add: ab UNKNOWN_MODIFIED_TIME_def)
qed

end
