(* ===== verification/Management_Discovery.thy ===== *)
theory Management_Discovery
  imports Job_Registry Remote_Directory
begin

text \<open>
  How the manager finds agents (\<^verbatim>\<open>src/management_discovery.rs\<close>): the probe and offer packets, the answer of an
  agent, the probing loop, the broadcast targets, and the reduction of several answers of one agent to the best
  address.  The Windows tables of addresses and interfaces and the clock are arguments.
\<close>

unbundle bit_operations_syntax

section \<open>Agent states and capabilities\<close>

datatype AgentState = AgentIdle | AgentBusy

fun agent_state_code :: "AgentState \<Rightarrow> u8" where
  "agent_state_code AgentIdle = 0"
| "agent_state_code AgentBusy = 1"

definition agent_state_try_from :: "u8 \<Rightarrow> AgentState io_result" where
  "agent_state_try_from v = (if v = 0 then Inr AgentIdle else if v = 1 then Inr AgentBusy else Inl InvalidData)"

definition SEND_BIT :: u8 where "SEND_BIT = 0x01"
definition RECEIVE_BIT :: u8 where "RECEIVE_BIT = 0x02"
definition DESKTOP_LAYOUT_BIT :: u8 where "DESKTOP_LAYOUT_BIT = 0x04"
definition KNOWN_BITS :: u8 where "KNOWN_BITS = SEND_BIT OR RECEIVE_BIT OR DESKTOP_LAYOUT_BIT"

record AgentCapabilities =
  capability_bits :: u8

definition SEND_RECEIVE_DESKTOP_LAYOUT :: AgentCapabilities where
  "SEND_RECEIVE_DESKTOP_LAYOUT = \<lparr>capability_bits = SEND_BIT OR RECEIVE_BIT OR DESKTOP_LAYOUT_BIT\<rparr>"

definition can_send :: "AgentCapabilities \<Rightarrow> bool" where
  "can_send c \<longleftrightarrow> capability_bits c AND SEND_BIT \<noteq> 0"

definition can_receive :: "AgentCapabilities \<Rightarrow> bool" where
  "can_receive c \<longleftrightarrow> capability_bits c AND RECEIVE_BIT \<noteq> 0"

definition supports_desktop_layout :: "AgentCapabilities \<Rightarrow> bool" where
  "supports_desktop_layout c \<longleftrightarrow> capability_bits c AND DESKTOP_LAYOUT_BIT \<noteq> 0"

definition capabilities_from_bits :: "u8 \<Rightarrow> AgentCapabilities io_result" where
  "capabilities_from_bits bits =
     (if bits = 0 \<or> bits AND NOT KNOWN_BITS \<noteq> 0 then Inl InvalidData else Inr \<lparr>capability_bits = bits\<rparr>)"

section \<open>Packets\<close>

definition DISCOVERY_MAGIC :: "byte list" where "DISCOVERY_MAGIC = [0x4E, 0x4D, 0x44, 0x31]"
definition DISCOVERY_VERSION :: u8 where "DISCOVERY_VERSION = 1"
definition DISCOVERY_HEADER_BYTES :: usize where "DISCOVERY_HEADER_BYTES = 24"
definition MAX_HOSTNAME_BYTES :: usize where "MAX_HOSTNAME_BYTES = 255"

datatype DiscoveryPacket =
    Probe u64
  | Offer u64 u16 AgentState AgentCapabilities ustring

definition validate_hostname :: "ustring \<Rightarrow> unit io_result" where
  "validate_hostname hostname =
     (if hostname = [] then Inl InvalidInput
      else if str_len hostname > MAX_HOSTNAME_BYTES then Inl InvalidInput
      else Inr ())"

text \<open>The buffer starts as zeros and its fields are filled in: the reserved bytes stay zero.\<close>

fun encode_packet :: "DiscoveryPacket \<Rightarrow> byte list io_result" where
  "encode_packet (Probe nonce) =
     Inr (DISCOVERY_MAGIC @ [DISCOVERY_VERSION, 1, 0, 0] @ to_le_bytes nonce @ replicate 8 0)"
| "encode_packet (Offer nonce control_port state capabilities hostname) =
     ebind (validate_hostname hostname) (\<lambda>_.
     ebind (ensure (control_port \<noteq> 0) InvalidInput) (\<lambda>_.
     ebind (word_try_from InvalidInput (str_len hostname)) (\<lambda>hostname_length :: u16.
       Inr (DISCOVERY_MAGIC @ [DISCOVERY_VERSION, 2, 0, 0] @ to_le_bytes nonce @ to_le_bytes control_port @
            [agent_state_code state, capability_bits capabilities] @ to_le_bytes hostname_length @ [0, 0] @ as_bytes hostname))))"

definition decode_packet :: "byte list \<Rightarrow> DiscoveryPacket io_result" where
  "decode_packet bytes =
     ebind (ensure (DISCOVERY_HEADER_BYTES \<le> length bytes) InvalidData) (\<lambda>_.
     ebind (ensure (byte_slice bytes 0 4 = DISCOVERY_MAGIC) InvalidData) (\<lambda>_.
     ebind (ensure (bytes ! 4 = DISCOVERY_VERSION) InvalidData) (\<lambda>_.
     ebind (ensure (bytes ! 6 = 0 \<and> bytes ! 7 = 0 \<and> bytes ! 22 = 0 \<and> bytes ! 23 = 0) InvalidData) (\<lambda>_.
     (let nonce = (from_le_bytes (byte_slice bytes 8 16) :: u64);
          control_port = (from_le_bytes (byte_slice bytes 16 18) :: u16);
          hostname_length = unat (from_le_bytes (byte_slice bytes 20 22) :: u16);
          expected_length = DISCOVERY_HEADER_BYTES + hostname_length in
     ebind (ensure (length bytes = expected_length) InvalidData) (\<lambda>_.
       if bytes ! 5 = 1 then
         (if control_port \<noteq> 0 \<or> bytes ! 18 \<noteq> 0 \<or> bytes ! 19 \<noteq> 0 \<or> hostname_length \<noteq> 0 then Inl InvalidData
          else Inr (Probe nonce))
       else if bytes ! 5 = 2 then
         (if control_port = 0 then Inl InvalidData
          else
            ebind (agent_state_try_from (bytes ! 18)) (\<lambda>state.
            ebind (capabilities_from_bits (bytes ! 19)) (\<lambda>capabilities.
            ebind (ok_or InvalidData (from_utf8 (drop DISCOVERY_HEADER_BYTES bytes))) (\<lambda>hostname.
            ebind (invalid_data (validate_hostname hostname)) (\<lambda>_.
              Inr (Offer nonce control_port state capabilities hostname))))))
       else Inl InvalidData))))))"

section \<open>The agent's answer\<close>

record LocalAgentDescriptor =
  descriptor_hostname :: ustring
  descriptor_control_port :: u16
  descriptor_capabilities :: AgentCapabilities

text \<open>
  One datagram: its bytes and its source.  The answer is the datagram the agent sends back to that source, if any.
\<close>

definition respond_once ::
    "LocalAgentDescriptor \<Rightarrow> ManagementJobRegistry \<Rightarrow> (byte list \<times> SocketAddr) io_result \<Rightarrow> (byte list \<times> SocketAddr) option io_result" where
  "respond_once descriptor jobs received =
     ebind received (\<lambda>(bytes, source).
       (case decode_packet bytes of
          Inr (Probe nonce) \<Rightarrow>
            ebind (encode_packet (Offer nonce (descriptor_control_port descriptor)
                     (if is_busy jobs then AgentBusy else AgentIdle) (descriptor_capabilities descriptor)
                     (descriptor_hostname descriptor)))
              (\<lambda>offer. Inr (Some (offer, source)))
        | _ \<Rightarrow> Inr None))"

section \<open>The manager's probes\<close>

record DiscoveredAgent =
  da_hostname :: ustring
  da_endpoint :: SocketAddr
  da_protocol_version :: u16
  da_state :: AgentState
  da_capabilities :: AgentCapabilities

definition DISCOVERY_TIMEOUT :: nat where "DISCOVERY_TIMEOUT = 1500"
definition DISCOVERY_RETRY_DELAY :: nat where "DISCOVERY_RETRY_DELAY = 300"
definition DISCOVERY_ATTEMPTS :: usize where "DISCOVERY_ATTEMPTS = 3"

text \<open>A failed send carries the code of Winsock, if it has one; its error kind is not distinguished.\<close>

type_synonym send_result = "int option + unit"

definition is_skippable_discovery_send_error :: "int option \<Rightarrow> bool" where
  "is_skippable_discovery_send_error code \<longleftrightarrow> code \<in> {Some 10049, Some 10050, Some 10051, Some 10064, Some 10065}"

text \<open>One round of probes, a send per target: it stops at a hard error and needs one target that was reached.\<close>

fun send_probes :: "send_result list \<Rightarrow> bool \<Rightarrow> bool" where
  "send_probes [] sent \<longleftrightarrow> sent"
| "send_probes (Inr _ # rs) sent \<longleftrightarrow> send_probes rs True"
| "send_probes (Inl code # rs) sent \<longleftrightarrow> is_skippable_discovery_send_error code \<and> send_probes rs sent"

text \<open>\<^verbatim>\<open>SocketAddr::new(source.ip(), port)\<close>.\<close>

fun addr_with_port :: "SocketAddr \<Rightarrow> u16 \<Rightarrow> SocketAddr" where
  "addr_with_port (V4 ip _) port = V4 ip port"
| "addr_with_port (V6 ip _ _ _) port = V6 ip port 0 0"

definition accept_datagram ::
    "u64 \<Rightarrow> DiscoveredAgent list \<Rightarrow> byte list \<times> SocketAddr \<Rightarrow> DiscoveredAgent list" where
  "accept_datagram nonce agents received =
     (case decode_packet (fst received) of
        Inr (Offer offer_nonce control_port state capabilities hostname) \<Rightarrow>
          if offer_nonce \<noteq> nonce then agents
          else
            (let agent = \<lparr>da_hostname = hostname, da_endpoint = addr_with_port (snd received) control_port,
                          da_protocol_version = MANAGEMENT_PROTOCOL_VERSION, da_state = state, da_capabilities = capabilities\<rparr> in
             if \<exists>existing \<in> set agents. da_hostname existing = da_hostname agent \<and> da_endpoint existing = da_endpoint agent
             then agents else agents @ [agent])
      | _ \<Rightarrow> agents)"

text \<open>
  One turn of the loop: the clock in milliseconds, the results of the sends should it probe, and what the socket
  delivers: a datagram, nothing within the poll timeout (also a reset), or an error.
\<close>

record loop_turn =
  turn_now :: nat
  turn_sends :: "send_result list"
  turn_received :: "(byte list \<times> SocketAddr) option io_result"

text \<open>No value while the deadline is ahead and the turns are used up.\<close>

fun discovery_loop :: "u64 \<Rightarrow> nat \<Rightarrow> loop_turn list \<Rightarrow> nat \<Rightarrow> nat \<Rightarrow> DiscoveredAgent list \<Rightarrow> DiscoveredAgent list io_result option" where
  "discovery_loop nonce deadline [] attempts next_probe agents = None"
| "discovery_loop nonce deadline (turn # turns) attempts next_probe agents =
     (if turn_now turn \<ge> deadline then Some (Inr agents)
      else
        (let probing = (attempts < DISCOVERY_ATTEMPTS \<and> turn_now turn \<ge> next_probe) in
         if probing \<and> \<not> send_probes (turn_sends turn) False then Some (Inl OtherError)
         else
           (let attempts' = (if probing then attempts + 1 else attempts);
                next_probe' = (if probing then turn_now turn + DISCOVERY_RETRY_DELAY else next_probe) in
            (case turn_received turn of
               Inl e \<Rightarrow> Some (Inl e)
             | Inr None \<Rightarrow> discovery_loop nonce deadline turns attempts' next_probe' agents
             | Inr (Some d) \<Rightarrow> discovery_loop nonce deadline turns attempts' next_probe' (accept_datagram nonce agents d)))))"

definition agent_le :: "DiscoveredAgent \<Rightarrow> DiscoveredAgent \<Rightarrow> bool" where
  "agent_le l r \<longleftrightarrow>
     da_hostname l < da_hostname r \<or>
     da_hostname l = da_hostname r \<and> display_socket_addr (da_endpoint l) \<le> display_socket_addr (da_endpoint r)"

definition discover_targets :: "u64 \<Rightarrow> SocketAddr list \<Rightarrow> nat \<Rightarrow> nat \<Rightarrow> loop_turn list \<Rightarrow> DiscoveredAgent list io_result option" where
  "discover_targets nonce targets start timeout turns =
     (if targets = [] then Some (Inl InvalidInput)
      else if timeout = 0 then Some (Inl InvalidInput)
      else
        map_option (\<lambda>r. ebind r (\<lambda>agents. Inr (sort_entries agent_le agents)))
          (discovery_loop nonce (start + timeout) turns 0 start []))"

section \<open>Where probes are sent\<close>

definition IPV4_BROADCAST :: u32 where "IPV4_BROADCAST = - 1"
definition MANAGEMENT_DISCOVERY_PORT :: u16 where "MANAGEMENT_DISCOVERY_PORT = 7338"

definition is_loopback :: "u32 \<Rightarrow> bool" where "is_loopback a \<longleftrightarrow> drop_bit 24 a = 127"
definition is_multicast :: "u32 \<Rightarrow> bool" where "is_multicast a \<longleftrightarrow> drop_bit 28 a = 14"
definition is_link_local :: "u32 \<Rightarrow> bool" where "is_link_local a \<longleftrightarrow> drop_bit 16 a = 0xA9FE"

definition directed_broadcast_address :: "u32 \<Rightarrow> u8 \<Rightarrow> u32 option" where
  "directed_broadcast_address address prefix_length =
     (if prefix_length = 0 \<or> prefix_length > 30 then None
      else if address = 0 \<or> is_loopback address \<or> is_multicast address \<or> address = IPV4_BROADCAST then None
      else
        (let host_mask = drop_bit (unat prefix_length) (- 1);
             broadcast = address OR host_mask in
         if broadcast = address then None else Some broadcast))"

text \<open>
  A row of \<^verbatim>\<open>GetUnicastIpAddressTable\<close>: the IPv4 address (none for another family), the prefix length and the
  interface.  \<^verbatim>\<open>dedup\<close> removes an element equal to the one before it.
\<close>

record unicast_row =
  row_address :: "u32 option"
  row_prefix_length :: u8
  row_interface :: u32

fun dedup_adjacent :: "'a list \<Rightarrow> 'a list" where
  "dedup_adjacent (x # y # xs) = (if x = y then dedup_adjacent (x # xs) else x # dedup_adjacent (y # xs))"
| "dedup_adjacent xs = xs"

definition ipv4_directed_broadcast_targets :: "unicast_row list \<Rightarrow> SocketAddr list" where
  "ipv4_directed_broadcast_targets rows =
     dedup_adjacent (sort_key display_socket_addr
       (List.map_filter (\<lambda>row.
          Option.bind (row_address row) (\<lambda>address.
          map_option (\<lambda>broadcast. V4 broadcast MANAGEMENT_DISCOVERY_PORT)
            (directed_broadcast_address address (row_prefix_length row)))) rows))"

definition discovery_targets :: "unicast_row list io_result \<Rightarrow> SocketAddr list io_result" where
  "discovery_targets table =
     ebind table (\<lambda>rows.
       (let targets = ipv4_directed_broadcast_targets rows;
            limited_broadcast = V4 IPV4_BROADCAST MANAGEMENT_DISCOVERY_PORT in
        Inr (if limited_broadcast \<in> set targets then targets else targets @ [limited_broadcast])))"

section \<open>Ranks of the local interfaces\<close>

record interface_row =
  if_index :: u32
  if_flags :: u8
  if_type :: u32
  if_oper_status :: int
  if_media_state :: int

definition automatic_lan_interface_rank :: "interface_row \<Rightarrow> nat" where
  "automatic_lan_interface_rank row =
     (let flags = if_flags row in
      if flags AND 2 \<noteq> 0 \<or> flags AND 128 \<noteq> 0 \<or> if_type row = 24 \<or> if_type row = 131 \<or> if_oper_status row \<noteq> 1 \<or> if_media_state row \<noteq> 1
      then 0
      else
        (let hardware = (flags AND 1 \<noteq> 0); connector = (flags AND 4 \<noteq> 0) in
         if hardware \<and> connector then 3 else if hardware then 2 else 1))"

definition automatic_lan_interface_ranks :: "interface_row list \<Rightarrow> u32 \<rightharpoonup> nat" where
  "automatic_lan_interface_ranks rows = fold (\<lambda>row m. m(if_index row \<mapsto> automatic_lan_interface_rank row)) rows Map.empty"

fun upsert_max :: "u32 \<Rightarrow> nat \<Rightarrow> (u32 \<times> nat) list \<Rightarrow> (u32 \<times> nat) list" where
  "upsert_max a r [] = [(a, r)]"
| "upsert_max a r ((b, s) # xs) =
     (if a = b then (b, max s r) # xs else if a < b then (a, r) # (b, s) # xs else (b, s) # upsert_max a r xs)"

definition local_ipv4_interface_ranks :: "(u32 \<rightharpoonup> nat) \<Rightarrow> unicast_row list \<Rightarrow> (u32 \<times> nat) list" where
  "local_ipv4_interface_ranks interface_ranks rows =
     fold (\<lambda>row ranks.
       (case row_address row of None \<Rightarrow> ranks
        | Some address \<Rightarrow>
            upsert_max address (case interface_ranks (row_interface row) of Some r \<Rightarrow> r | None \<Rightarrow> 0) ranks)) rows []"

section \<open>One entry per agent\<close>

text \<open>
  An agent reached over several networks answers several times.  Offers with a host name that occurs more than
  once are resolved by asking the agent for its snapshot; \<open>ask\<close> is that exchange.
\<close>

datatype DiscoveredAgentIdentity =
    Instance AgentInstanceId
  | Endpoint ustring SocketAddr

type_synonym ResolvedDiscoveredAgent = "DiscoveredAgent \<times> DiscoveredAgentIdentity"

fun addr_key :: "SocketAddr \<Rightarrow> nat list" where
  "addr_key (V4 ip port) = [0, unat ip, unat port]"
| "addr_key (V6 ip port flowinfo scope) = [1, unat ip, unat port, unat flowinfo, unat scope]"

fun identity_less :: "DiscoveredAgentIdentity \<Rightarrow> DiscoveredAgentIdentity \<Rightarrow> bool" where
  "identity_less (Instance a) (Instance b) \<longleftrightarrow> a < b"
| "identity_less (Instance _) (Endpoint _ _) \<longleftrightarrow> True"
| "identity_less (Endpoint _ _) (Instance _) \<longleftrightarrow> False"
| "identity_less (Endpoint h a) (Endpoint g b) \<longleftrightarrow> h < g \<or> h = g \<and> addr_key a < addr_key b"

definition endpoint_identity :: "DiscoveredAgent \<Rightarrow> DiscoveredAgentIdentity" where
  "endpoint_identity agent = Endpoint (da_hostname agent) (da_endpoint agent)"

definition resolve_discovered_agent_identity ::
    "(SocketAddr \<Rightarrow> ManagementAgentSnapshot io_result) \<Rightarrow> DiscoveredAgent \<Rightarrow> ResolvedDiscoveredAgent" where
  "resolve_discovered_agent_identity ask agent =
     (agent, case ask (da_endpoint agent) of Inr snapshot \<Rightarrow> Instance (agent_instance_id snapshot) | Inl _ \<Rightarrow> endpoint_identity agent)"

definition common_ipv4_prefix_bits :: "u32 \<Rightarrow> u32 \<Rightarrow> nat" where
  "common_ipv4_prefix_bits l r = length (takeWhile (\<lambda>i. \<not> bit (l XOR r) i) (rev [0..<32]))"

definition automatic_lan_address_rank :: "u32 \<Rightarrow> nat" where
  "automatic_lan_address_rank address =
     (if address = 0 \<or> is_loopback address \<or> is_multicast address \<or> address = IPV4_BROADCAST then 0
      else if is_link_local address then 1 else 2)"

definition local_network_affinity_score :: "u32 \<Rightarrow> (u32 \<times> nat) list \<Rightarrow> nat \<times> nat" where
  "local_network_affinity_score candidate ranks =
     (let (best_prefix, best_rank) =
        fold (\<lambda>(local_address, rank) (best_prefix, best_rank).
          (let prefix = common_ipv4_prefix_bits candidate local_address in
           if prefix > best_prefix \<or> prefix = best_prefix \<and> rank > best_rank then (prefix, rank)
           else (best_prefix, best_rank))) ranks (0, 0) in
      if best_prefix < 8 then (0, 0) else (best_rank, best_prefix))"

definition route_affinity_score :: "DiscoveredAgentIdentity \<Rightarrow> SocketAddr \<Rightarrow> (DiscoveredAgentIdentity \<times> SocketAddr) list \<Rightarrow> nat \<times> nat" where
  "route_affinity_score identity endpoint catalog =
     (case endpoint of V6 _ _ _ _ \<Rightarrow> (0, 0)
      | V4 candidate _ \<Rightarrow>
          fold (\<lambda>(other_identity, other_endpoint) (maximum_prefix, total_prefix).
            (if other_identity = identity then (maximum_prefix, total_prefix)
             else
               (case other_endpoint of V6 _ _ _ _ \<Rightarrow> (maximum_prefix, total_prefix)
                | V4 other _ \<Rightarrow>
                    (let prefix = common_ipv4_prefix_bits candidate other in
                     (max maximum_prefix prefix, min (2 ^ 32 - 1) (total_prefix + prefix)))))) catalog (0, 0))"

text \<open>The score is compared as the tuple of its five numbers.\<close>

definition candidate_preference_score ::
    "DiscoveredAgentIdentity \<Rightarrow> SocketAddr \<Rightarrow> (DiscoveredAgentIdentity \<times> SocketAddr) list \<Rightarrow> (u32 \<times> nat) list \<Rightarrow> nat list" where
  "candidate_preference_score identity endpoint catalog ranks =
     (case endpoint of V6 _ _ _ _ \<Rightarrow> [0, 0, 0, 0, 0]
      | V4 address _ \<Rightarrow>
          (let (local_interface_rank, local_prefix) = local_network_affinity_score address ranks;
               (remote_maximum_prefix, remote_total_prefix) = route_affinity_score identity endpoint catalog in
           [automatic_lan_address_rank address, local_interface_rank, local_prefix, remote_maximum_prefix, remote_total_prefix]))"

fun preferred_index_from :: "('a \<Rightarrow> nat list) \<Rightarrow> nat \<Rightarrow> nat list \<Rightarrow> nat \<Rightarrow> 'a list \<Rightarrow> nat" where
  "preferred_index_from score best best_score i [] = best"
| "preferred_index_from score best best_score i (x # xs) =
     (if score x > best_score then preferred_index_from score i (score x) (Suc i) xs
      else preferred_index_from score best best_score (Suc i) xs)"

definition preferred_candidate_index ::
    "DiscoveredAgentIdentity \<Rightarrow> ResolvedDiscoveredAgent list \<Rightarrow> (DiscoveredAgentIdentity \<times> SocketAddr) list \<Rightarrow> (u32 \<times> nat) list \<Rightarrow> nat" where
  "preferred_candidate_index identity candidates catalog ranks =
     (let score = (\<lambda>c. candidate_preference_score identity (da_endpoint (fst c)) catalog ranks) in
      preferred_index_from score 0 (score (hd candidates)) 1 (tl candidates))"

fun group_insert :: "ResolvedDiscoveredAgent \<Rightarrow> (DiscoveredAgentIdentity \<times> ResolvedDiscoveredAgent list) list
    \<Rightarrow> (DiscoveredAgentIdentity \<times> ResolvedDiscoveredAgent list) list" where
  "group_insert x [] = [(snd x, [x])]"
| "group_insert x ((k, xs) # gs) =
     (if snd x = k then (k, xs @ [x]) # gs
      else if identity_less (snd x) k then (snd x, [x]) # (k, xs) # gs
      else (k, xs) # group_insert x gs)"

definition deduplicate_resolved_agents_with_local_interface_ranks :: "ResolvedDiscoveredAgent list \<Rightarrow> (u32 \<times> nat) list \<Rightarrow> DiscoveredAgent list" where
  "deduplicate_resolved_agents_with_local_interface_ranks agents ranks =
     (let catalog = map (\<lambda>x. (snd x, da_endpoint (fst x))) agents;
          groups = fold group_insert agents [];
          chosen = map (\<lambda>(identity, candidates).
            (let sorted = sort_key (\<lambda>c. display_socket_addr (da_endpoint (fst c))) candidates in
             fst (sorted ! preferred_candidate_index identity sorted catalog ranks))) groups in
      sort_entries agent_le chosen)"

definition resolve_agents :: "(SocketAddr \<Rightarrow> ManagementAgentSnapshot io_result) \<Rightarrow> DiscoveredAgent list \<Rightarrow> ResolvedDiscoveredAgent list" where
  "resolve_agents ask agents =
     (let single = (\<lambda>a. length (filter (\<lambda>b. da_hostname b = da_hostname a) agents) < 2) in
      map (\<lambda>a. (a, endpoint_identity a)) (filter single agents) @
      map (resolve_discovered_agent_identity ask) (filter (\<lambda>a. \<not> single a) agents))"

definition deduplicate_agent_instances ::
    "(SocketAddr \<Rightarrow> ManagementAgentSnapshot io_result) \<Rightarrow> (u32 \<times> nat) list io_result \<Rightarrow> DiscoveredAgent list \<Rightarrow> DiscoveredAgent list" where
  "deduplicate_agent_instances ask ranks agents =
     deduplicate_resolved_agents_with_local_interface_ranks (resolve_agents ask agents) (case ranks of Inr r \<Rightarrow> r | Inl _ \<Rightarrow> [])"

section \<open>Probe and answer\<close>

lemma agent_state_try_from_code [simp]: "agent_state_try_from (agent_state_code s) = Inr s"
  by (cases s) (simp_all add: agent_state_try_from_def)

fun packet_representable :: "DiscoveryPacket \<Rightarrow> bool" where
  "packet_representable (Probe _) \<longleftrightarrow> True"
| "packet_representable (Offer _ _ _ capabilities hostname) \<longleftrightarrow>
     capabilities_from_bits (capability_bits capabilities) = Inr capabilities \<and> is_text hostname"

lemma discovery_packet_codec:
  assumes "encode_packet p = Inr bs" "packet_representable p"
  shows "decode_packet bs = Inr p"
proof (cases p)
  case (Probe nonce)
  moreover have "to_le_bytes (0 :: u16) = [0, 0]" by (simp add: to_le_bytes_def to_be_bytes_def)
  moreover have "replicate 8 (0 :: byte) = [0, 0] @ [0, 0] @ [0, 0] @ [0, 0]" by (simp add: numeral_eq_Suc)
  ultimately have bs: "bs = DISCOVERY_MAGIC @ [DISCOVERY_VERSION, 1, 0, 0] @ to_le_bytes nonce @
      to_le_bytes (0 :: u16) @ [0, 0] @ to_le_bytes (0 :: u16) @ [0, 0]"
    using assms(1) by simp
  have fields: "length bs = 24" "byte_slice bs 0 4 = DISCOVERY_MAGIC" "bs ! 4 = DISCOVERY_VERSION" "bs ! 5 = 1"
    "bs ! 6 = 0" "bs ! 7 = 0" "bs ! 22 = 0" "bs ! 23 = 0" "bs ! 18 = 0" "bs ! 19 = 0"
    "from_le_bytes (byte_slice bs 8 16) = nonce" "(from_le_bytes (byte_slice bs 16 18) :: u16) = 0"
    "(from_le_bytes (byte_slice bs 20 22) :: u16) = 0"
    by (simp_all add: bs byte_slice_def from_to_le_bytes nth_append DISCOVERY_MAGIC_def)
  show ?thesis by (simp add: Probe decode_packet_def fields DISCOVERY_HEADER_BYTES_def Let_def)
next
  case (Offer nonce port state caps host)
  have valid: "validate_hostname host = Inr ()" "port \<noteq> 0" "str_len host < 2 ^ 16"
    and bs: "bs = DISCOVERY_MAGIC @ [DISCOVERY_VERSION, 2, 0, 0] @ to_le_bytes nonce @ to_le_bytes port @
      [agent_state_code state, capability_bits caps] @ to_le_bytes (of_nat (str_len host) :: u16) @ [0, 0] @ as_bytes host"
    using assms(1) by (auto simp: Offer result_simps word_try_from_Inr)
  have "unat (of_nat (str_len host) :: u16) = str_len host" using valid(3) by (simp add: unat_of_nat_small)
  then have fields: "length bs = 24 + str_len host" "byte_slice bs 0 4 = DISCOVERY_MAGIC" "bs ! 4 = DISCOVERY_VERSION" "bs ! 5 = 2"
    "bs ! 6 = 0" "bs ! 7 = 0" "bs ! 22 = 0" "bs ! 23 = 0" "bs ! 18 = agent_state_code state" "bs ! 19 = capability_bits caps"
    "from_le_bytes (byte_slice bs 8 16) = nonce" "from_le_bytes (byte_slice bs 16 18) = port"
    "unat (from_le_bytes (byte_slice bs 20 22) :: u16) = str_len host" "drop 24 bs = as_bytes host"
    by (simp_all add: bs byte_slice_def from_to_le_bytes nth_append DISCOVERY_MAGIC_def)
  show ?thesis using valid assms(2)
    by (simp add: Offer decode_packet_def fields DISCOVERY_HEADER_BYTES_def Let_def from_utf8_as_bytes invalid_data_def)
qed

lemma validate_hostname_Inr: "validate_hostname h = Inr u \<longleftrightarrow> h \<noteq> [] \<and> str_len h \<le> MAX_HOSTNAME_BYTES"
  by (auto simp: validate_hostname_def)

definition descriptor_ok :: "LocalAgentDescriptor \<Rightarrow> bool" where
  "descriptor_ok d \<longleftrightarrow> validate_hostname (descriptor_hostname d) = Inr () \<and> is_text (descriptor_hostname d) \<and>
     descriptor_control_port d \<noteq> 0 \<and>
     capabilities_from_bits (capability_bits (descriptor_capabilities d)) = Inr (descriptor_capabilities d)"

definition advertised :: "LocalAgentDescriptor \<Rightarrow> ManagementJobRegistry \<Rightarrow> SocketAddr \<Rightarrow> DiscoveredAgent" where
  "advertised d jobs source =
     \<lparr>da_hostname = descriptor_hostname d, da_endpoint = addr_with_port source (descriptor_control_port d),
      da_protocol_version = MANAGEMENT_PROTOCOL_VERSION, da_state = (if is_busy jobs then AgentBusy else AgentIdle),
      da_capabilities = descriptor_capabilities d\<rparr>"

lemma offer_encoded:
  assumes "descriptor_ok d"
  shows "\<exists>offer. encode_packet (Offer nonce (descriptor_control_port d) state (descriptor_capabilities d) (descriptor_hostname d)) = Inr offer"
proof -
  have ok: "validate_hostname (descriptor_hostname d) = Inr ()" "descriptor_control_port d \<noteq> 0" using assms by (simp_all add: descriptor_ok_def)
  then have "str_len (descriptor_hostname d) < 65536" by (simp add: validate_hostname_Inr MAX_HOSTNAME_BYTES_def)
  then show ?thesis using ok by (simp add: word_try_from_def)
qed

lemma probe_answered:
  assumes "descriptor_ok d" "encode_packet (Probe nonce) = Inr probe"
  shows "\<exists>offer. respond_once d jobs (Inr (probe, source)) = Inr (Some (offer, source)) \<and>
    decode_packet offer = Inr (Offer nonce (descriptor_control_port d) (if is_busy jobs then AgentBusy else AgentIdle)
      (descriptor_capabilities d) (descriptor_hostname d))"
proof -
  obtain offer where offer: "encode_packet (Offer nonce (descriptor_control_port d) (if is_busy jobs then AgentBusy else AgentIdle)
      (descriptor_capabilities d) (descriptor_hostname d)) = Inr offer"
    using offer_encoded [OF assms(1)] by blast
  have "decode_packet probe = Inr (Probe nonce)" by (rule discovery_packet_codec [OF assms(2)]) simp
  moreover have "decode_packet offer = Inr (Offer nonce (descriptor_control_port d) (if is_busy jobs then AgentBusy else AgentIdle)
      (descriptor_capabilities d) (descriptor_hostname d))"
    using assms(1) by (intro discovery_packet_codec [OF offer]) (simp add: descriptor_ok_def)
  ultimately show ?thesis using offer by (simp add: respond_once_def del: encode_packet.simps)
qed

section \<open>What a discovery finds\<close>

definition offers :: "u64 \<Rightarrow> byte list \<times> SocketAddr \<Rightarrow> DiscoveredAgent option" where
  "offers nonce d = (case decode_packet (fst d) of
     Inr (Offer n port state caps host) \<Rightarrow>
       if n = nonce then Some \<lparr>da_hostname = host, da_endpoint = addr_with_port (snd d) port,
         da_protocol_version = MANAGEMENT_PROTOCOL_VERSION, da_state = state, da_capabilities = caps\<rparr> else None
   | _ \<Rightarrow> None)"

definition agent_place :: "DiscoveredAgent \<Rightarrow> ustring \<times> SocketAddr" where
  "agent_place a = (da_hostname a, da_endpoint a)"

lemma accept_datagram_eq:
  "accept_datagram nonce agents d =
     (case offers nonce d of None \<Rightarrow> agents
      | Some a \<Rightarrow> if agent_place a \<in> agent_place ` set agents then agents else agents @ [a])"
proof -
  have "(agent_place a \<in> agent_place ` set agents) =
      (\<exists>existing \<in> set agents. da_hostname existing = da_hostname a \<and> da_endpoint existing = da_endpoint a)" for a
    by (simp add: agent_place_def image_iff) metis
  then show ?thesis
    by (simp add: accept_datagram_def offers_def split: sum.split DiscoveryPacket.split)
qed

text \<open>The datagrams of the turns before the deadline.\<close>

definition delivered :: "nat \<Rightarrow> loop_turn list \<Rightarrow> (byte list \<times> SocketAddr) list" where
  "delivered deadline turns =
     List.map_filter (\<lambda>t. case turn_received t of Inr d \<Rightarrow> d | Inl _ \<Rightarrow> None) (takeWhile (\<lambda>t. turn_now t < deadline) turns)"

lemma discovery_loop_Inr:
  "discovery_loop nonce deadline turns attempts next_probe agents = Some (Inr found) \<Longrightarrow>
     found = fold (\<lambda>d as. accept_datagram nonce as d) (delivered deadline turns) agents"
proof (induction turns arbitrary: attempts next_probe agents)
  case (Cons t turns)
  then show ?case
    by (auto simp: delivered_def List.map_filter_simps Let_def split: if_splits sum.splits option.splits)
qed simp

lemma accept_places:
  assumes "distinct (map agent_place agents)"
  shows "distinct (map agent_place (fold (\<lambda>d as. accept_datagram nonce as d) ds agents)) \<and>
    set (fold (\<lambda>d as. accept_datagram nonce as d) ds agents) \<subseteq> set agents \<union> {a. \<exists>d \<in> set ds. offers nonce d = Some a} \<and>
    agent_place ` set (fold (\<lambda>d as. accept_datagram nonce as d) ds agents) =
      agent_place ` (set agents \<union> {a. \<exists>d \<in> set ds. offers nonce d = Some a})"
  using assms
proof (induction ds arbitrary: agents)
  case (Cons d ds)
  have "distinct (map agent_place (accept_datagram nonce agents d))"
    using Cons.prems by (auto simp: accept_datagram_eq split: option.split)
  note IH = Cons.IH [OF this]
  have s: "set (accept_datagram nonce agents d) \<subseteq> set agents \<union> {a. offers nonce d = Some a}"
    "agent_place ` set (accept_datagram nonce agents d) = agent_place ` (set agents \<union> {a. offers nonce d = Some a})"
    by (auto simp: accept_datagram_eq split: option.split)
  have "agent_place ` (set (accept_datagram nonce agents d) \<union> {a. \<exists>d \<in> set ds. offers nonce d = Some a}) =
      agent_place ` (set agents \<union> {a. \<exists>x \<in> set (d # ds). offers nonce x = Some a})"
    unfolding image_Un s(2) by auto
  then show ?case using IH s(1) by auto
qed simp

section \<open>One entry per identity\<close>

lemma addr_key_inj: "addr_key a = addr_key b \<longleftrightarrow> a = b"
  by (cases a; cases b) (auto simp: word_unat_eq_iff)

lemma identity_less_irrefl: "\<not> identity_less a a"
  by (cases a) auto

lemma identity_less_trans: "identity_less a b \<Longrightarrow> identity_less b c \<Longrightarrow> identity_less a c"
  by (cases a; cases b; cases c) auto

lemma identity_less_total: "a \<noteq> b \<Longrightarrow> \<not> identity_less a b \<Longrightarrow> identity_less b a"
  by (cases a; cases b) (use addr_key_inj in \<open>auto simp: not_less order_less_le\<close>)

definition groups_of :: "ResolvedDiscoveredAgent list \<Rightarrow> (DiscoveredAgentIdentity \<times> ResolvedDiscoveredAgent list) list \<Rightarrow> bool" where
  "groups_of agents gs \<longleftrightarrow> sorted_wrt identity_less (map fst gs) \<and> set (map fst gs) = snd ` set agents \<and>
     (\<forall>(k, xs) \<in> set gs. xs \<noteq> [] \<and> set xs = {x \<in> set agents. snd x = k})"

lemma group_insert_keys: "set (map fst (group_insert x gs)) = insert (snd x) (set (map fst gs))"
  by (induction gs rule: group_insert.induct) auto

lemma group_insert_sorted: "sorted_wrt identity_less (map fst gs) \<Longrightarrow> sorted_wrt identity_less (map fst (group_insert x gs))"
proof (induction x gs rule: group_insert.induct)
  case (2 x k xs gs)
  show ?case
  proof (cases "snd x = k \<or> identity_less (snd x) k")
    case True
    then show ?thesis using "2.prems" identity_less_trans by auto
  next
    case False
    then have less: "identity_less k (snd x)" using identity_less_total by blast
    have "\<forall>y \<in> set (map fst (group_insert x gs)). identity_less k y"
      using less "2.prems" unfolding group_insert_keys by simp
    then show ?thesis using False 2 by simp
  qed
qed simp

lemma group_insert_members:
  assumes "sorted_wrt identity_less (map fst gs)" "(k, ys) \<in> set (group_insert x gs)"
  shows "(k = snd x \<and> (k \<notin> set (map fst gs) \<and> ys = [x] \<or> (\<exists>zs. (k, zs) \<in> set gs \<and> ys = zs @ [x]))) \<or> (k \<noteq> snd x \<and> (k, ys) \<in> set gs)"
  using assms
proof (induction x gs rule: group_insert.induct)
  case (2 x k' xs gs)
  consider "snd x = k'" | "snd x \<noteq> k'" "identity_less (snd x) k'" | "snd x \<noteq> k'" "\<not> identity_less (snd x) k'" by blast
  then show ?case
  proof cases
    case 1
    have "k' \<notin> set (map fst gs)" using "2.prems"(1) identity_less_irrefl by auto
    moreover have "(k, ys) = (k', xs @ [x]) \<or> (k, ys) \<in> set gs" using 1 "2.prems"(2) by simp
    moreover have "k \<in> set (map fst gs)" if "(k, ys) \<in> set gs" using that by force
    ultimately show ?thesis using 1 by auto
  next
    case 2
    have "identity_less k' y" if "y \<in> set (map fst gs)" for y using "2.prems"(1) that by auto
    then have "snd x \<notin> set (map fst gs)" using identity_less_irrefl identity_less_trans [OF 2(2)] by blast
    moreover have "(k, ys) = (snd x, [x]) \<or> (k, ys) \<in> set ((k', xs) # gs)" using 2 "2.prems"(2) by simp
    moreover have "k \<in> set (map fst ((k', xs) # gs))" if "(k, ys) \<in> set ((k', xs) # gs)" using that by force
    ultimately show ?thesis using 2(1) by auto
  next
    case 3
    then show ?thesis using 2 by auto
  qed
qed auto

lemma groups_of_insert:
  assumes "groups_of agents gs"
  shows "groups_of (agents @ [x]) (group_insert x gs)"
proof -
  have sorted: "sorted_wrt identity_less (map fst gs)" and keys: "set (map fst gs) = snd ` set agents"
    and members: "\<And>k xs. (k, xs) \<in> set gs \<Longrightarrow> xs \<noteq> [] \<and> set xs = {x \<in> set agents. snd x = k}"
    using assms unfolding groups_of_def by blast+
  have "ys \<noteq> [] \<and> set ys = {z \<in> set (agents @ [x]). snd z = k}" if "(k, ys) \<in> set (group_insert x gs)" for k ys
    using group_insert_members [OF sorted that]
  proof (elim disjE conjE exE)
    assume k: "k = snd x" "k \<notin> set (map fst gs)" "ys = [x]"
    then have "\<And>z. z \<in> set agents \<Longrightarrow> snd z \<noteq> snd x" unfolding keys by (metis image_eqI)
    then show ?thesis using k by auto
  qed (use members in auto)
  moreover have "set (map fst (group_insert x gs)) = snd ` set (agents @ [x])" unfolding group_insert_keys keys by simp
  ultimately show ?thesis using group_insert_sorted [OF sorted] unfolding groups_of_def by blast
qed

lemma groups_of_fold: "groups_of agents gs \<Longrightarrow> groups_of (agents @ xs) (fold group_insert xs gs)"
proof (induction xs arbitrary: agents gs)
  case (Cons x xs)
  then show ?case using groups_of_insert [OF Cons.prems, of x] Cons.IH [of "agents @ [x]"] by simp
qed simp

lemma groups_of: "groups_of agents (fold group_insert agents [])"
  using groups_of_fold [of "[]" "[]" agents] by (simp add: groups_of_def)

lemma preferred_index_from:
  assumes "best < i" "best_score = score (ys ! best)" "length ys = i" "\<forall>y \<in> set ys. score y \<le> best_score"
  shows "preferred_index_from score best best_score i xs < length (ys @ xs) \<and>
    (\<forall>y \<in> set (ys @ xs). score y \<le> score ((ys @ xs) ! preferred_index_from score best best_score i xs))"
  using assms
proof (induction xs arbitrary: best best_score i ys)
  case (Cons x xs)
  have xs: "(ys @ [x]) @ xs = ys @ x # xs" "length (ys @ [x]) = Suc i" using Cons.prems(3) by simp_all
  show ?case
  proof (cases "score x > best_score")
    case True
    have "\<forall>y \<in> set (ys @ [x]). score y \<le> score x" using True Cons.prems(4) by (auto intro: order_trans less_imp_le)
    moreover have "score x = score ((ys @ [x]) ! i)" using Cons.prems(3) by (simp add: nth_append)
    ultimately show ?thesis using Cons.IH [of i "Suc i" "score x" "ys @ [x]"] xs True by simp
  next
    case False
    have "best_score = score ((ys @ [x]) ! best)" using Cons.prems(1-3) by (simp add: nth_append)
    then show ?thesis using Cons.IH [of best "Suc i" best_score "ys @ [x]"] xs False Cons.prems(1,4) by simp
  qed
qed simp

lemma preferred_candidate:
  assumes "candidates \<noteq> []"
  shows "preferred_candidate_index identity candidates catalog ranks < length candidates"
    and "c \<in> set candidates \<Longrightarrow> candidate_preference_score identity (da_endpoint (fst c)) catalog ranks \<le>
      candidate_preference_score identity (da_endpoint (fst (candidates ! preferred_candidate_index identity candidates catalog ranks))) catalog ranks"
proof -
  define score where "score = (\<lambda>c :: ResolvedDiscoveredAgent. candidate_preference_score identity (da_endpoint (fst c)) catalog ranks)"
  obtain c0 cs where c: "candidates = c0 # cs" using assms(1) by (cases candidates) auto
  have "preferred_index_from score 0 (score c0) 1 cs < length ([c0] @ cs) \<and>
    (\<forall>y \<in> set ([c0] @ cs). score y \<le> score (([c0] @ cs) ! preferred_index_from score 0 (score c0) 1 cs))"
    by (rule preferred_index_from) simp_all
  moreover have "preferred_candidate_index identity candidates catalog ranks = preferred_index_from score 0 (score c0) 1 cs"
    by (simp add: preferred_candidate_index_def c score_def)
  ultimately have p: "preferred_candidate_index identity candidates catalog ranks < length candidates"
    "\<forall>y \<in> set candidates. score y \<le> score (candidates ! preferred_candidate_index identity candidates catalog ranks)"
    unfolding c by simp_all
  then show "preferred_candidate_index identity candidates catalog ranks < length candidates" by blast
  show "c \<in> set candidates \<Longrightarrow> candidate_preference_score identity (da_endpoint (fst c)) catalog ranks \<le>
      candidate_preference_score identity (da_endpoint (fst (candidates ! preferred_candidate_index identity candidates catalog ranks))) catalog ranks"
    using p(2) unfolding score_def by blast
qed

text \<open>
   The list the user sees has every agent once: for each identity the discovery resolved there is exactly one
  entry, and it is the address of that agent with the best score among those it answered from.
\<close>

theorem one_entry_per_agent:
  "\<exists>choice. mset (deduplicate_resolved_agents_with_local_interface_ranks agents ranks) = image_mset choice (mset_set (snd ` set agents)) \<and>
     (\<forall>identity \<in> snd ` set agents. (choice identity, identity) \<in> set agents \<and>
        (\<forall>a. (a, identity) \<in> set agents \<longrightarrow>
           candidate_preference_score identity (da_endpoint a) (map (\<lambda>x. (snd x, da_endpoint (fst x))) agents) ranks \<le>
           candidate_preference_score identity (da_endpoint (choice identity)) (map (\<lambda>x. (snd x, da_endpoint (fst x))) agents) ranks))"
proof -
  define catalog where "catalog = map (\<lambda>x. (snd x, da_endpoint (fst x))) agents"
  define gs where "gs = fold group_insert agents []"
  define pick where "pick = (\<lambda>(identity, candidates).
    (let sorted = sort_key (\<lambda>c. display_socket_addr (da_endpoint (fst c))) candidates in
     fst (sorted ! preferred_candidate_index identity sorted catalog ranks)))"
  define choice where "choice = (\<lambda>identity. pick (identity, the (map_of gs identity)))"
  have gs: "sorted_wrt identity_less (map fst gs)" "set (map fst gs) = snd ` set agents"
    "\<And>k xs. (k, xs) \<in> set gs \<Longrightarrow> xs \<noteq> [] \<and> set xs = {x \<in> set agents. snd x = k}"
    using groups_of [of agents] unfolding groups_of_def gs_def by blast+
  have distinct: "distinct (map fst gs)"
    using gs(1) identity_less_irrefl by (metis (mono_tags, lifting) distinct_conv_nth sorted_wrt_iff_nth_less linorder_neqE_nat)
  have look: "map_of gs k = Some xs" if "(k, xs) \<in> set gs" for k xs using that distinct by simp
  have pick: "pick (k, xs) = choice k" if "(k, xs) \<in> set gs" for k xs using look [OF that] by (simp add: choice_def)
  have "map pick gs = map choice (map fst gs)" using pick by (auto simp: case_prod_beta)
  then have "mset (map pick gs) = image_mset choice (mset (map fst gs))" by (simp only: mset_map)
  also have "mset (map fst gs) = mset_set (snd ` set agents)" using distinct gs(2) mset_set_set by metis
  finally have m: "mset (deduplicate_resolved_agents_with_local_interface_ranks agents ranks) = image_mset choice (mset_set (snd ` set agents))"
    by (simp add: deduplicate_resolved_agents_with_local_interface_ranks_def mset_sort_entries Let_def gs_def pick_def catalog_def)
  have "(choice k, k) \<in> set agents \<and> (\<forall>a. (a, k) \<in> set agents \<longrightarrow>
      candidate_preference_score k (da_endpoint a) catalog ranks \<le> candidate_preference_score k (da_endpoint (choice k)) catalog ranks)"
    if "k \<in> snd ` set agents" for k
  proof -
    have "k \<in> fst ` set gs" using \<open>k \<in> snd ` set agents\<close> gs(2) by simp
    then obtain xs where xs: "(k, xs) \<in> set gs" by auto
    define ss where "ss = sort_key (\<lambda>c. display_socket_addr (da_endpoint (fst c))) xs"
    have ss: "ss \<noteq> []" "set ss = {x \<in> set agents. snd x = k}"
      using gs(3) [OF xs] by (simp_all add: ss_def) (metis set_empty set_sort)
    have c: "choice k = fst (ss ! preferred_candidate_index k ss catalog ranks)"
      using look [OF xs] by (simp add: choice_def pick_def ss_def Let_def)
    have "ss ! preferred_candidate_index k ss catalog ranks \<in> set ss" using preferred_candidate(1) [OF ss(1)] by simp
    then have "(choice k, k) \<in> set agents" unfolding ss(2) c by (metis (mono_tags, lifting) mem_Collect_eq prod.collapse)
    moreover have "candidate_preference_score k (da_endpoint a) catalog ranks \<le> candidate_preference_score k (da_endpoint (choice k)) catalog ranks"
      if "(a, k) \<in> set agents" for a
      using preferred_candidate(2) [OF ss(1), of "(a, k)" k catalog ranks] that unfolding ss(2) c by simp
    ultimately show ?thesis by blast
  qed
  then show ?thesis using m unfolding catalog_def by blast
qed

lemma agent_le_total: "agent_le a b \<or> agent_le b a"
  by (auto simp: agent_le_def)

lemma agent_le_trans: "agent_le a b \<Longrightarrow> agent_le b c \<Longrightarrow> agent_le a c"
  by (auto simp: agent_le_def)

lemma sorted_agents: "sorted_wrt agent_le (sort_entries agent_le xs)"
  unfolding sort_entries_def
proof (induction xs)
  case (Cons x xs)
  then show ?case using sorted_insert_entry [of agent_le, OF agent_le_total agent_le_trans] by simp
qed simp

lemma set_sort_entries [simp]: "set (sort_entries le xs) = set xs"
  by (metis mset_sort_entries set_mset_mset)

lemma distinct_places_sort: "distinct (map f (sort_entries le xs)) \<longleftrightarrow> distinct (map f xs)"
proof -
  have "mset (map f (sort_entries le xs)) = mset (map f xs)" by (simp add: mset_sort_entries)
  then show ?thesis by (rule mset_eq_imp_distinct_iff)
qed

text \<open>
   A discovery that ends finds exactly the agents that answered it: every entry comes from a datagram,
  received before the deadline, that is an offer with the nonce of this discovery, at the address it came from;
  every such offer has its entry; no host name and endpoint is listed twice; and the list is sorted.
\<close>

theorem discovery_finds_the_answers:
  assumes "discover_targets nonce targets start timeout turns = Some (Inr found)"
  shows "(\<forall>a \<in> set found. \<exists>d \<in> set (delivered (start + timeout) turns). offers nonce d = Some a) \<and>
    (\<forall>d \<in> set (delivered (start + timeout) turns). \<forall>a. offers nonce d = Some a \<longrightarrow> agent_place a \<in> agent_place ` set found) \<and>
    distinct (map agent_place found) \<and> sorted_wrt agent_le found"
proof -
  obtain agents where loop: "discovery_loop nonce (start + timeout) turns 0 start [] = Some (Inr agents)"
    and found: "found = sort_entries agent_le agents"
    using assms by (auto simp: discover_targets_def result_simps split: if_splits)
  have agents: "agents = fold (\<lambda>d as. accept_datagram nonce as d) (delivered (start + timeout) turns) []"
    using discovery_loop_Inr [OF loop] .
  show ?thesis
    using accept_places [of "[]" nonce "delivered (start + timeout) turns"]
    by (auto simp: found agents [symmetric] distinct_places_sort sorted_agents image_iff)
qed

text \<open>
   Probe and offer fit together: when the probe of a discovery reaches an agent with a valid descriptor, the
  agent's answer, delivered to the manager, makes the manager list exactly that agent: its host name, its control
  port at the address the answer came from, its capabilities, and whether it is busy.
\<close>

theorem probe_lists_the_agent:
  assumes "descriptor_ok d" "encode_packet (Probe nonce) = Inr probe"
  shows "\<exists>offer. respond_once d jobs (Inr (probe, manager_at)) = Inr (Some (offer, manager_at)) \<and>
    accept_datagram nonce [] (offer, agent_at) = [advertised d jobs agent_at]"
proof -
  obtain offer where "respond_once d jobs (Inr (probe, manager_at)) = Inr (Some (offer, manager_at))"
    and "decode_packet offer = Inr (Offer nonce (descriptor_control_port d) (if is_busy jobs then AgentBusy else AgentIdle)
      (descriptor_capabilities d) (descriptor_hostname d))"
    using probe_answered [OF assms] by blast
  then show ?thesis by (intro exI [of _ offer]) (simp add: accept_datagram_def advertised_def)
qed

definition sample_descriptor :: LocalAgentDescriptor where
  "sample_descriptor = \<lparr>descriptor_hostname = ustr ''PC1'', descriptor_control_port = 7339,
     descriptor_capabilities = SEND_RECEIVE_DESKTOP_LAYOUT\<rparr>"

lemma sample_descriptor_ok: "descriptor_ok sample_descriptor"
  by (simp add: descriptor_ok_def sample_descriptor_def validate_hostname_def str_len_def utf8_char_len_def MAX_HOSTNAME_BYTES_def
      is_text_def is_scalar_def capabilities_from_bits_def SEND_RECEIVE_DESKTOP_LAYOUT_def KNOWN_BITS_def SEND_BIT_def
      RECEIVE_BIT_def DESKTOP_LAYOUT_BIT_def)

theorem probe_lists_the_agent_witness:
  "\<exists>probe offer. encode_packet (Probe 77) = Inr probe \<and>
     respond_once sample_descriptor (ManagementJobRegistry_new 5) (Inr (probe, V4 1 9)) = Inr (Some (offer, V4 1 9)) \<and>
     accept_datagram 77 [] (offer, V4 2 7338) = [advertised sample_descriptor (ManagementJobRegistry_new 5) (V4 2 7338)]"
proof -
  obtain probe where probe: "encode_packet (Probe 77) = Inr probe" by simp
  then show ?thesis using probe_lists_the_agent [OF sample_descriptor_ok probe, of "ManagementJobRegistry_new 5" "V4 1 9" "V4 2 7338"] by blast
qed

definition sample_offer :: "byte list" where
  "sample_offer = (case encode_packet (Offer 77 7339 AgentIdle SEND_RECEIVE_DESKTOP_LAYOUT (ustr ''PC1'')) of Inr bs \<Rightarrow> bs | Inl _ \<Rightarrow> [])"

definition sample_turns :: "loop_turn list" where
  "sample_turns = [\<lparr>turn_now = 0, turn_sends = [Inl (Some 10051), Inr ()], turn_received = Inr (Some (sample_offer, V4 2 7338))\<rparr>,
     \<lparr>turn_now = 100, turn_sends = [], turn_received = Inr (Some (sample_offer, V4 2 7338))\<rparr>,
     \<lparr>turn_now = 1500, turn_sends = [], turn_received = Inr None\<rparr>]"

lemma sample_offers:
  "offers 77 (sample_offer, V4 2 7338) = Some (advertised sample_descriptor (ManagementJobRegistry_new 5) (V4 2 7338))"
proof -
  obtain offer where offer: "encode_packet (Offer 77 7339 AgentIdle SEND_RECEIVE_DESKTOP_LAYOUT (ustr ''PC1'')) = Inr offer"
    using offer_encoded [OF sample_descriptor_ok, of 77 AgentIdle]
    by (auto simp: sample_descriptor_def simp del: encode_packet.simps)
  have "packet_representable (Offer 77 7339 AgentIdle SEND_RECEIVE_DESKTOP_LAYOUT (ustr ''PC1''))"
    using sample_descriptor_ok by (simp add: descriptor_ok_def sample_descriptor_def)
  then have "decode_packet sample_offer = Inr (Offer 77 7339 AgentIdle SEND_RECEIVE_DESKTOP_LAYOUT (ustr ''PC1''))"
    using discovery_packet_codec [OF offer] offer by (simp add: sample_offer_def)
  then show ?thesis
    by (simp add: offers_def advertised_def sample_descriptor_def is_busy_def ManagementJobRegistry_new_def registry_active_job_id_def)
qed

theorem discovery_finds_the_answers_witness:
  "\<exists>found. discover_targets 77 [V4 9 7338] 0 DISCOVERY_TIMEOUT sample_turns = Some (Inr found) \<and> distinct (map agent_place found) \<and>
     agent_place (advertised sample_descriptor (ManagementJobRegistry_new 5) (V4 2 7338)) \<in> agent_place ` set found"
proof -
  have run: "\<exists>found. discover_targets 77 [V4 9 7338] 0 DISCOVERY_TIMEOUT sample_turns = Some (Inr found)"
    by (simp add: discover_targets_def sample_turns_def DISCOVERY_TIMEOUT_def DISCOVERY_RETRY_DELAY_def DISCOVERY_ATTEMPTS_def
        is_skippable_discovery_send_error_def accept_datagram_eq sample_offers)
  have "(sample_offer, V4 2 7338) \<in> set (delivered (0 + DISCOVERY_TIMEOUT) sample_turns)"
    by (simp add: delivered_def sample_turns_def DISCOVERY_TIMEOUT_def List.map_filter_simps)
  then show ?thesis using run discovery_finds_the_answers [of 77 "[V4 9 7338]" 0 DISCOVERY_TIMEOUT sample_turns] sample_offers by blast
qed

definition two_links :: "ResolvedDiscoveredAgent list" where
  "two_links = map (\<lambda>a. (\<lparr>da_hostname = ustr ''PC1'', da_endpoint = a, da_protocol_version = 1, da_state = AgentIdle,
     da_capabilities = SEND_RECEIVE_DESKTOP_LAYOUT\<rparr>, Instance 5)) [V4 1 7339, V4 2 7339]"

theorem one_entry_per_agent_witness:
  "\<exists>a. deduplicate_resolved_agents_with_local_interface_ranks two_links [] = [a] \<and> (a, Instance 5) \<in> set two_links"
proof -
  have "snd ` set two_links = {Instance 5}" by (simp add: two_links_def)
  then show ?thesis using one_entry_per_agent [of two_links "[]"] by auto
qed

end
