(* ===== verification/Agent_Control.thy ===== *)
theory Agent_Control
imports Management_Discovery
begin

text \<open>
  The control protocol between a manager and its agents: \<^verbatim>\<open>src/management_control.rs\<close> (the payloads, the
  server of an agent, the calls of a manager), \<^verbatim>\<open>src/management_orchestration.rs\<close> (starting and
  resuming a transfer between two agents, with the rollback of the receiver) and the drive roots of
  \<^verbatim>\<open>src/management_filesystem.rs\<close>.  A network leads endpoints to agent processes, each with its own job
  registry; a connection may fail and an answer may be lost.  The locale \<open>agent_call\<close> has what one request and its
  answer promise, \<open>transfer_agents\<close> what starting a transfer needs of the three calls it makes; both are
  interpreted on the model of the network.
\<close>

unbundle bit_operations_syntax

section \<open>Payloads of the control protocol\<close>

definition CARGO_PKG_VERSION :: ustring where "CARGO_PKG_VERSION = ustr ''2.7.0-dev''"

definition HELLO_PAYLOAD_VERSION :: u16 where "HELLO_PAYLOAD_VERSION = 1"
definition HELLO_HEADER_BYTES :: usize where "HELLO_HEADER_BYTES = 8"
definition ROOTS_PAYLOAD_VERSION :: u16 where "ROOTS_PAYLOAD_VERSION = 1"
definition ROOTS_HEADER_BYTES :: usize where "ROOTS_HEADER_BYTES = 4"
definition DESKTOP_PATH_RESPONSE_VERSION :: u16 where "DESKTOP_PATH_RESPONSE_VERSION = 1"
definition DESKTOP_PATH_RESPONSE_BYTES :: usize where "DESKTOP_PATH_RESPONSE_BYTES = 4"
definition MAX_ROOTS :: usize where "MAX_ROOTS = 26"
definition MAX_ROOT_PATH_BYTES :: usize where "MAX_ROOT_PATH_BYTES = 1024"
definition MAX_APPLICATION_VERSION_BYTES :: usize where "MAX_APPLICATION_VERSION_BYTES = 64"
definition DIRECT_TRANSFER_PORT :: u16 where "DIRECT_TRANSFER_PORT = 7337"

record ManagementHello =
  hello_hostname :: ustring
  hello_application_version :: ustring
  hello_protocol_version :: u16
  hello_state :: AgentState
  hello_capabilities :: AgentCapabilities

definition encode_hello_payload :: "ustring \<Rightarrow> AgentState \<Rightarrow> AgentCapabilities \<Rightarrow> byte list io_result" where
  "encode_hello_payload hostname state capabilities =
     ebind (validate_nonempty hostname MAX_HOSTNAME_BYTES) (\<lambda>_.
     ebind (validate_nonempty CARGO_PKG_VERSION MAX_APPLICATION_VERSION_BYTES) (\<lambda>_.
     ebind (word_try_from InvalidInput (str_len CARGO_PKG_VERSION)) (\<lambda>application_version_length :: u16.
     ebind (word_try_from InvalidInput (str_len hostname)) (\<lambda>hostname_length :: u16.
       Inr (to_le_bytes HELLO_PAYLOAD_VERSION @ [agent_state_code state, capability_bits capabilities] @
            to_le_bytes application_version_length @ to_le_bytes hostname_length @ as_bytes CARGO_PKG_VERSION @ as_bytes hostname)))))"

definition decode_hello_payload :: "byte list \<Rightarrow> ManagementHello io_result" where
  "decode_hello_payload body =
     ebind (ensure (HELLO_HEADER_BYTES \<le> length body) InvalidData) (\<lambda>_.
     ebind (ensure ((from_le_bytes (byte_slice body 0 2) :: u16) = HELLO_PAYLOAD_VERSION) InvalidData) (\<lambda>_.
     ebind (agent_state_try_from (body ! 2)) (\<lambda>state.
     ebind (capabilities_from_bits (body ! 3)) (\<lambda>capabilities.
     (let application_version_length = unat (from_le_bytes (byte_slice body 4 6) :: u16);
          hostname_length = unat (from_le_bytes (byte_slice body 6 8) :: u16);
          expected_length = HELLO_HEADER_BYTES + application_version_length + hostname_length;
          application_version_end = HELLO_HEADER_BYTES + application_version_length in
     ebind (ensure (length body = expected_length) InvalidData) (\<lambda>_.
     ebind (decode_text (byte_slice body HELLO_HEADER_BYTES application_version_end) MAX_APPLICATION_VERSION_BYTES False) (\<lambda>version.
     ebind (decode_text (drop application_version_end body) MAX_HOSTNAME_BYTES False) (\<lambda>hostname.
       Inr \<lparr>hello_hostname = hostname, hello_application_version = version, hello_protocol_version = MANAGEMENT_PROTOCOL_VERSION,
            hello_state = state, hello_capabilities = capabilities\<rparr>))))))))"

definition encode_root :: "ustring \<Rightarrow> byte list io_result" where
  "encode_root root =
     ebind (word_try_from InvalidInput (str_len root)) (\<lambda>root_length :: u16. Inr (to_le_bytes root_length @ as_bytes root))"

fun validate_roots :: "ustring list \<Rightarrow> unit io_result" where
  "validate_roots [] = Inr ()"
| "validate_roots (root # roots) = ebind (validate_nonempty root MAX_ROOT_PATH_BYTES) (\<lambda>_. validate_roots roots)"

definition encode_roots_payload :: "ustring list \<Rightarrow> byte list io_result" where
  "encode_roots_payload roots =
     ebind (ensure (length roots \<le> MAX_ROOTS) InvalidInput) (\<lambda>_.
     ebind (word_try_from InvalidInput (length roots)) (\<lambda>root_count :: u16.
     ebind (validate_roots roots) (\<lambda>_.
       wcat (Inr (to_le_bytes ROOTS_PAYLOAD_VERSION) # Inr (to_le_bytes root_count) # map encode_root roots))))"

definition decode_root :: "ustring reader" where
  "decode_root =
     rbind (read_exact 2) (\<lambda>length_bytes.
     rbind (read_exact (unat (from_le_bytes length_bytes :: u16))) (\<lambda>path_bytes.
       rlift (decode_text path_bytes MAX_ROOT_PATH_BYTES False)))"

definition decode_roots_payload :: "byte list \<Rightarrow> ustring list io_result" where
  "decode_roots_payload body =
     ebind (ensure (ROOTS_HEADER_BYTES \<le> length body) InvalidData) (\<lambda>_.
     ebind (ensure ((from_le_bytes (byte_slice body 0 2) :: u16) = ROOTS_PAYLOAD_VERSION) InvalidData) (\<lambda>_.
     (let root_count = unat (from_le_bytes (byte_slice body 2 4) :: u16) in
     ebind (ensure (root_count \<le> MAX_ROOTS) InvalidData) (\<lambda>_.
     ebind (read_times root_count decode_root (drop ROOTS_HEADER_BYTES body)) (\<lambda>(roots, rest).
     ebind (ensure (rest = []) InvalidData) (\<lambda>_. Inr roots))))))"

definition encode_desktop_path_response :: "bool \<Rightarrow> byte list" where
  "encode_desktop_path_response is_desktop = to_le_bytes DESKTOP_PATH_RESPONSE_VERSION @ [if is_desktop then 1 else 0, 0]"

definition decode_desktop_path_response :: "byte list \<Rightarrow> bool io_result" where
  "decode_desktop_path_response body =
     ebind (ensure (length body = DESKTOP_PATH_RESPONSE_BYTES) InvalidData) (\<lambda>_.
     ebind (ensure ((from_le_bytes (byte_slice body 0 2) :: u16) = DESKTOP_PATH_RESPONSE_VERSION) InvalidData) (\<lambda>_.
     ebind (decode_flag (body ! 2)) (\<lambda>is_desktop.
     ebind (ensure (body ! 3 = 0) InvalidData) (\<lambda>_. Inr is_desktop))))"

text \<open>The drive roots of \<^verbatim>\<open>src/management_filesystem.rs\<close> from the mask of \<^verbatim>\<open>GetLogicalDrives\<close>.\<close>

definition list_roots :: "u32 \<Rightarrow> ustring list io_result" where
  "list_roots drive_mask =
     (if drive_mask = 0 then Inl OtherError
      else Inr (map (\<lambda>index. [65 + index, 0x3A, 0x5C]) (filter (\<lambda>index. bit drive_mask index) [0..<26])))"

section \<open>The agent's server\<close>

record ControlEnvironment =
  env_jobs :: JobEnvironment
  env_drive_mask :: u32
  env_read_dir :: "ustring \<Rightarrow> dir_item list io_result"
  env_lowercase :: "ustring \<Rightarrow> ustring"
  env_is_desktop :: "ustring \<Rightarrow> bool io_result"
  env_error_text :: "error_kind \<Rightarrow> ustring"

record ManagementControlServer =
  server_receiver_bind :: SocketAddr
  server_hostname :: ustring
  server_capabilities :: AgentCapabilities

definition error_response :: "u64 \<Rightarrow> ustring \<Rightarrow> ManagementFrame io_result" where
  "error_response rid message = ManagementFrame_new rid ErrorResponse (as_bytes message)"

definition answer_with ::
    "ControlEnvironment \<Rightarrow> u64 \<Rightarrow> ManagementMessageKind \<Rightarrow> string \<Rightarrow> byte list io_result \<Rightarrow> ManagementFrame io_result" where
  "answer_with env rid k failure result =
     (case result of
        Inr p \<Rightarrow> ManagementFrame_new rid k p
      | Inl e \<Rightarrow> error_response rid (ustr failure @ env_error_text env e))"

definition handle_prepare ::
    "ControlEnvironment \<Rightarrow> ManagementControlServer \<Rightarrow> byte list \<Rightarrow> ManagementJobRegistry \<Rightarrow> byte list io_result \<times> ManagementJobRegistry" where
  "handle_prepare env server body g =
     (case decode_prepare_request body of
        Inl e \<Rightarrow> (Inl e, g)
      | Inr prepared \<Rightarrow>
          (let (result, g') =
             (if pq_resume prepared
              then prepare_receive_resume_on (env_jobs env) (pq_destination_root prepared) (pq_update_existing prepared)
                     (server_receiver_bind server) g
              else prepare_receive_on (env_jobs env) (pq_destination_root prepared) (pq_update_existing prepared)
                     (server_receiver_bind server) g) in
           (ebind result encode_prepared_response, g')))"

definition handle_start_send ::
    "ControlEnvironment \<Rightarrow> byte list \<Rightarrow> ManagementJobRegistry \<Rightarrow> byte list io_result \<times> ManagementJobRegistry" where
  "handle_start_send env body g =
     (case decode_start_send_request body of
        Inl e \<Rightarrow> (Inl e, g)
      | Inr started \<Rightarrow>
          (let (result, g') =
             start_send_with_desktop_layout (env_jobs env) (sq_receiver_address started) (sq_source_root started)
               (sq_worker_count started) (sq_calibration_mib started) (sq_forced_streams started) (sq_preserve_desktop started) g in
           (ebind result encode_started_send_response, g')))"

definition handle_cancel ::
    "ControlEnvironment \<Rightarrow> byte list \<Rightarrow> ManagementJobRegistry \<Rightarrow> byte list io_result \<times> ManagementJobRegistry" where
  "handle_cancel env body g =
     (case decode_cancel_request body of
        Inl e \<Rightarrow> (Inl e, g)
      | Inr job_id \<Rightarrow>
          (let (result, g') = registry_cancel (env_jobs env) job_id g in (ebind result encode_cancel_request, g')))"

definition handle_request ::
    "ControlEnvironment \<Rightarrow> ManagementControlServer \<Rightarrow> ManagementFrame \<Rightarrow> ManagementJobRegistry
      \<Rightarrow> ManagementFrame io_result \<times> ManagementJobRegistry" where
  "handle_request env server request g =
     (let rid = request_id request; body = payload request in
      case kind request of
        HelloRequest \<Rightarrow>
          (if body = [] then
             (ebind (encode_hello_payload (server_hostname server) (if is_busy g then AgentBusy else AgentIdle) (server_capabilities server))
                (ManagementFrame_new rid HelloResponse), g)
           else (error_response rid (ustr ''HelloRequest payload must be empty''), g))
      | ListRootsRequest \<Rightarrow>
          (if body = [] then
             (answer_with env rid ListRootsResponse ''failed to enumerate Windows drive roots: ''
                (ebind (list_roots (env_drive_mask env)) encode_roots_payload), g)
           else (error_response rid (ustr ''ListRootsRequest payload must be empty''), g))
      | ListDirectoryRequest \<Rightarrow>
          (answer_with env rid ListDirectoryResponse ''failed to enumerate remote directory: ''
             (ebind (decode_directory_request body) (\<lambda>path.
              ebind (directory_enumerate (env_lowercase env) (os_is_dir (env_jobs env)) (env_read_dir env) path)
                encode_directory_response)), g)
      | IsDesktopPathRequest \<Rightarrow>
          (answer_with env rid IsDesktopPathResponse ''failed to classify remote Desktop path: ''
             (ebind (decode_directory_request body) (\<lambda>path.
              ebind (env_is_desktop env path) (\<lambda>d. Inr (encode_desktop_path_response d)))), g)
      | PrepareReceiveRequest \<Rightarrow>
          (let (result, g') = handle_prepare env server body g in
           (answer_with env rid PrepareReceiveResponse ''failed to prepare receiver job: '' result, g'))
      | StartSendRequest \<Rightarrow>
          (let (result, g') = handle_start_send env body g in
           (answer_with env rid StartSendResponse ''failed to start sender job: '' result, g'))
      | JobStatusRequest \<Rightarrow>
          (if body = [] then
             (answer_with env rid JobStatusResponse ''failed to read management job status: '' (encode_status (registry_status g)), g)
           else (error_response rid (ustr ''JobStatusRequest payload must be empty''), g))
      | AgentSnapshotRequest \<Rightarrow>
          (if body = [] then
             (answer_with env rid AgentSnapshotResponse ''failed to read management agent snapshot: ''
                (encode_snapshot (registry_snapshot g)), g)
           else (error_response rid (ustr ''AgentSnapshotRequest payload must be empty''), g))
      | CancelJobRequest \<Rightarrow>
          (let (result, g') = handle_cancel env body g in
           (answer_with env rid CancelJobResponse ''failed to cancel management job: '' result, g'))
      | _ \<Rightarrow> (error_response rid (ustr ''management command is not implemented yet''), g))"

text \<open>One connection: the bytes the client sends, and the bytes it gets back or the error that ends the server.\<close>

definition handle_client ::
    "ControlEnvironment \<Rightarrow> ManagementControlServer \<Rightarrow> byte list \<Rightarrow> ManagementJobRegistry \<Rightarrow> byte list io_result \<times> ManagementJobRegistry" where
  "handle_client env server stream g =
     (case read_frame stream of
        Inl e \<Rightarrow> (Inl e, g)
      | Inr (request, _) \<Rightarrow>
          (let (response, g') = handle_request env server request g in (ebind response write_frame, g')))"

section \<open>The network\<close>

text \<open>
  An endpoint leads to an agent process; two endpoints may lead to the same one.  The server of a process that
  returns an error calls \<^verbatim>\<open>process::exit\<close>: the process and its jobs are gone.  A connection may fail, or the
  answer may be lost after the agent has acted.
\<close>

record agent_host =
  host_env :: ControlEnvironment
  host_server :: ManagementControlServer
  host_registry :: "ManagementJobRegistry option"

datatype link_fault = ConnectFails error_kind | ReplyLost error_kind

record network =
  net_route :: "SocketAddr \<Rightarrow> nat option"
  net_hosts :: "nat \<Rightarrow> agent_host"
  net_faults :: "link_fault option list"

definition set_registry :: "nat \<Rightarrow> ManagementJobRegistry option \<Rightarrow> network \<Rightarrow> network" where
  "set_registry h g w = w\<lparr>net_hosts := (net_hosts w)(h := (net_hosts w h)\<lparr>host_registry := g\<rparr>)\<rparr>"

definition serve_one :: "nat \<Rightarrow> byte list \<Rightarrow> network \<Rightarrow> byte list io_result \<times> network" where
  "serve_one h stream w =
     (case host_registry (net_hosts w h) of
        None \<Rightarrow> (Inl OtherError, w)
      | Some g \<Rightarrow>
          (case handle_client (host_env (net_hosts w h)) (host_server (net_hosts w h)) stream g of
             (Inr reply, g') \<Rightarrow> (Inr reply, set_registry h (Some g') w)
           | (Inl _, g') \<Rightarrow> (Inl UnexpectedEof, set_registry h None w)))"

definition connect_and_send :: "SocketAddr \<Rightarrow> byte list \<Rightarrow> network \<Rightarrow> byte list io_result \<times> network" where
  "connect_and_send endpoint stream w =
     (let fault = (case net_faults w of [] \<Rightarrow> None | f # _ \<Rightarrow> f);
          w1 = w\<lparr>net_faults := tl (net_faults w)\<rparr> in
      case fault of Some (ConnectFails e) \<Rightarrow> (Inl e, w1)
      | _ \<Rightarrow>
        (case net_route w1 endpoint of None \<Rightarrow> (Inl TimedOut, w1)
         | Some h \<Rightarrow>
             (let (reply, w2) = serve_one h stream w1 in
              (case fault of Some (ReplyLost e) \<Rightarrow> (Inl e, w2) | _ \<Rightarrow> (reply, w2)))))"

section \<open>The manager's calls\<close>

definition create_request_id :: "u64 \<Rightarrow> u64 \<Rightarrow> u32 \<Rightarrow> u64" where
  "create_request_id sequence timestamp process_id = timestamp XOR push_bit 32 (ucast process_id) XOR sequence"

definition exchange ::
    "u64 \<Rightarrow> SocketAddr \<Rightarrow> ManagementMessageKind \<Rightarrow> byte list \<Rightarrow> network \<Rightarrow> ManagementFrame io_result \<times> network" where
  "exchange rid endpoint request_kind body w =
     (case ebind (ManagementFrame_new rid request_kind body) write_frame of
        Inl e \<Rightarrow> (Inl e, snd (connect_and_send endpoint [] w))
      | Inr stream \<Rightarrow>
          (let (reply, w') = connect_and_send endpoint stream w in
           (ebind reply (\<lambda>bytes.
            ebind (read_frame bytes) (\<lambda>(response, _).
            ebind (ensure (request_id response = rid) InvalidData) (\<lambda>_.
              if kind response = ErrorResponse then Inl OtherError else Inr response))), w')))"

definition expect_kind :: "ManagementMessageKind \<Rightarrow> (byte list \<Rightarrow> 'a io_result) \<Rightarrow> ManagementFrame io_result \<Rightarrow> 'a io_result" where
  "expect_kind k decode r =
     ebind r (\<lambda>response. if kind response = k then decode (payload response) else Inl InvalidData)"

definition call_agent ::
    "u64 \<Rightarrow> SocketAddr \<Rightarrow> ManagementMessageKind \<Rightarrow> ManagementMessageKind \<Rightarrow> (byte list \<Rightarrow> 'a io_result) \<Rightarrow> byte list io_result \<Rightarrow> network
      \<Rightarrow> 'a io_result \<times> network" where
  "call_agent rid endpoint request_kind response_kind decode body w =
     (case body of Inl e \<Rightarrow> (Inl e, w)
      | Inr p \<Rightarrow> (let (r, w') = exchange rid endpoint request_kind p w in (expect_kind response_kind decode r, w')))"

definition hello :: "u64 \<Rightarrow> SocketAddr \<Rightarrow> network \<Rightarrow> ManagementHello io_result \<times> network" where
  "hello rid endpoint = call_agent rid endpoint HelloRequest HelloResponse decode_hello_payload (Inr [])"

definition prepare_receive_configured ::
    "u64 \<Rightarrow> SocketAddr \<Rightarrow> ustring \<Rightarrow> bool \<Rightarrow> bool \<Rightarrow> network \<Rightarrow> PreparedReceiveJob io_result \<times> network" where
  "prepare_receive_configured rid endpoint destination update resume =
     call_agent rid endpoint PrepareReceiveRequest PrepareReceiveResponse decode_prepared_response
       (if resume then encode_prepare_request_with_resume destination update True else encode_prepare_request destination update)"

definition prepare_receive :: "u64 \<Rightarrow> SocketAddr \<Rightarrow> ustring \<Rightarrow> bool \<Rightarrow> network \<Rightarrow> PreparedReceiveJob io_result \<times> network" where
  "prepare_receive rid endpoint destination update = prepare_receive_configured rid endpoint destination update False"

definition prepare_receive_resume :: "u64 \<Rightarrow> SocketAddr \<Rightarrow> ustring \<Rightarrow> bool \<Rightarrow> network \<Rightarrow> PreparedReceiveJob io_result \<times> network" where
  "prepare_receive_resume rid endpoint destination update = prepare_receive_configured rid endpoint destination update True"

definition start_send_with_stream_count_and_desktop_layout ::
    "u64 \<Rightarrow> SocketAddr \<Rightarrow> SocketAddr \<Rightarrow> ustring \<Rightarrow> usize \<Rightarrow> u64 \<Rightarrow> usize option \<Rightarrow> bool \<Rightarrow> network
      \<Rightarrow> StartedSendJob io_result \<times> network" where
  "start_send_with_stream_count_and_desktop_layout rid endpoint receiver_address source n_workers calibration forced preserve =
     call_agent rid endpoint StartSendRequest StartSendResponse decode_started_send_response
       (encode_start_send_request_with_stream_count_and_desktop_layout receiver_address source n_workers calibration forced preserve)"

definition agent_snapshot :: "u64 \<Rightarrow> SocketAddr \<Rightarrow> network \<Rightarrow> ManagementAgentSnapshot io_result \<times> network" where
  "agent_snapshot rid endpoint = call_agent rid endpoint AgentSnapshotRequest AgentSnapshotResponse decode_snapshot (Inr [])"

definition job_status :: "u64 \<Rightarrow> SocketAddr \<Rightarrow> network \<Rightarrow> ManagementJobStatus io_result \<times> network" where
  "job_status rid endpoint = call_agent rid endpoint JobStatusRequest JobStatusResponse decode_status (Inr [])"

definition cancel_job :: "u64 \<Rightarrow> SocketAddr \<Rightarrow> u64 \<Rightarrow> network \<Rightarrow> u64 io_result \<times> network" where
  "cancel_job rid endpoint job_id =
     call_agent rid endpoint CancelJobRequest CancelJobResponse decode_cancel_request (encode_cancel_request job_id)"

definition is_desktop_path :: "u64 \<Rightarrow> SocketAddr \<Rightarrow> ustring \<Rightarrow> network \<Rightarrow> bool io_result \<times> network" where
  "is_desktop_path rid endpoint path =
     call_agent rid endpoint IsDesktopPathRequest IsDesktopPathResponse decode_desktop_path_response (encode_directory_request path)"

definition list_directory :: "u64 \<Rightarrow> SocketAddr \<Rightarrow> ustring \<Rightarrow> network \<Rightarrow> ManagementDirectoryEntry list io_result \<times> network" where
  "list_directory rid endpoint path =
     call_agent rid endpoint ListDirectoryRequest ListDirectoryResponse decode_directory_response (encode_directory_request path)"

definition list_agent_roots :: "u64 \<Rightarrow> SocketAddr \<Rightarrow> network \<Rightarrow> ustring list io_result \<times> network" where
  "list_agent_roots rid endpoint = call_agent rid endpoint ListRootsRequest ListRootsResponse decode_roots_payload (Inr [])"

section \<open>Starting a managed transfer\<close>

record ManagedTransferRequest =
  mt_sender_agent :: SocketAddr
  mt_receiver_agent :: SocketAddr
  mt_source_root :: ustring
  mt_destination_root :: ustring
  mt_update_existing :: bool
  mt_worker_count :: usize
  mt_calibration_mib :: u64

definition rollback_receiver ::
    "(SocketAddr \<Rightarrow> u64 \<Rightarrow> 'w \<Rightarrow> u64 io_result \<times> 'w) \<Rightarrow> SocketAddr \<Rightarrow> u64 \<Rightarrow> error_kind \<Rightarrow> 'w \<Rightarrow> error_kind \<times> 'w" where
  "rollback_receiver cancel agent job_id sender_error w =
     (case cancel agent job_id w of
        (Inr cancelled_job_id, w') \<Rightarrow> (if cancelled_job_id = job_id then sender_error else OtherError, w')
      | (Inl _, w') \<Rightarrow> (OtherError, w'))"

definition start_transfer_with ::
    "(SocketAddr \<Rightarrow> ustring \<Rightarrow> bool \<Rightarrow> 'w \<Rightarrow> PreparedReceiveJob io_result \<times> 'w)
      \<Rightarrow> (SocketAddr \<Rightarrow> SocketAddr \<Rightarrow> ustring \<Rightarrow> usize \<Rightarrow> u64 \<Rightarrow> bool \<Rightarrow> 'w \<Rightarrow> StartedSendJob io_result \<times> 'w)
      \<Rightarrow> (SocketAddr \<Rightarrow> u64 \<Rightarrow> 'w \<Rightarrow> u64 io_result \<times> 'w)
      \<Rightarrow> ManagedTransferRequest \<Rightarrow> bool \<Rightarrow> 'w \<Rightarrow> ManagedTransferRecord io_result \<times> 'w" where
  "start_transfer_with prepare start cancel request preserve w =
     (if mt_sender_agent request = mt_receiver_agent request then (Inl InvalidInput, w)
      else
        (case prepare (mt_receiver_agent request) (mt_destination_root request) (mt_update_existing request) w of
           (Inl e, w1) \<Rightarrow> (Inl e, w1)
         | (Inr receiver_job, w1) \<Rightarrow>
             (let receiver_payload = payload_endpoint (mt_receiver_agent request) (pj_transfer_port receiver_job) in
              case start (mt_sender_agent request) receiver_payload (mt_source_root request) (mt_worker_count request)
                     (mt_calibration_mib request) preserve w1 of
                (Inl e, w2) \<Rightarrow>
                  (let (e', w3) = rollback_receiver cancel (mt_receiver_agent request) (pj_job_id receiver_job) e w2 in (Inl e', w3))
              | (Inr sender_job, w2) \<Rightarrow>
                  (Inr \<lparr>tr_sender_agent = mt_sender_agent request, tr_sender_job_id = sj_job_id sender_job,
                        tr_receiver_agent = mt_receiver_agent request, tr_receiver_job_id = pj_job_id receiver_job,
                        tr_receiver_payload = receiver_payload, tr_source_root = sj_source_root sender_job,
                        tr_destination_root = pj_destination_root receiver_job, tr_update_existing = pj_update_existing receiver_job,
                        tr_worker_count = sj_worker_count sender_job, tr_calibration_mib = sj_calibration_mib sender_job\<rparr>, w2))))"

text \<open>The request IDs of the three exchanges.\<close>

definition start_transfer_with_desktop_layout ::
    "u64 \<times> u64 \<times> u64 \<Rightarrow> ManagedTransferRequest \<Rightarrow> bool \<Rightarrow> network \<Rightarrow> ManagedTransferRecord io_result \<times> network" where
  "start_transfer_with_desktop_layout rids =
     start_transfer_with (prepare_receive (fst rids))
       (\<lambda>endpoint receiver_address source n_workers calibration preserve.
          start_send_with_stream_count_and_desktop_layout (fst (snd rids)) endpoint receiver_address source n_workers calibration None preserve)
       (cancel_job (snd (snd rids)))"

definition resume_transfer_with_desktop_layout ::
    "u64 \<times> u64 \<times> u64 \<Rightarrow> ManagedTransferRequest \<Rightarrow> usize \<Rightarrow> bool \<Rightarrow> network \<Rightarrow> ManagedTransferRecord io_result \<times> network" where
  "resume_transfer_with_desktop_layout rids request streams preserve w =
     (case validate_matrix_stream_count streams of
        Inl e \<Rightarrow> (Inl e, w)
      | Inr _ \<Rightarrow>
          start_transfer_with (prepare_receive_resume (fst rids))
            (\<lambda>endpoint receiver_address source n_workers calibration preserve.
               start_send_with_stream_count_and_desktop_layout (fst (snd rids)) endpoint receiver_address source n_workers calibration
                 (Some streams) preserve)
            (cancel_job (snd (snd rids))) request preserve w)"

section \<open>Exchanges\<close>

lemma ManagementFrame_new_Inr:
  "ManagementFrame_new rid k p = Inr f \<longleftrightarrow> length p \<le> MAX_MANAGEMENT_PAYLOAD_BYTES \<and> f = \<lparr>request_id = rid, kind = k, payload = p\<rparr>"
  by (auto simp: ManagementFrame_new_def validate_payload_length_def result_simps)

lemma frame_new_valid: "ManagementFrame_new rid k p = Inr f \<Longrightarrow> frame_valid f \<and> request_id f = rid \<and> kind f = k \<and> payload f = p"
  by (auto simp: ManagementFrame_new_Inr frame_valid_def)

lemma answer_with_valid:
  "answer_with env rid k failure result = Inr f \<Longrightarrow> frame_valid f \<and> request_id f = rid"
  by (auto simp: answer_with_def error_response_def dest!: frame_new_valid split: sum.splits)

lemma handle_request_valid:
  "handle_request env server request g = (Inr f, g') \<Longrightarrow> frame_valid f \<and> request_id f = request_id request"
  unfolding handle_request_def Let_def error_response_def
  by (cases "kind request")
    (auto simp: result_simps dest!: frame_new_valid answer_with_valid split: if_splits prod.splits)

text \<open>The process an endpoint leads to.\<close>

definition process_at :: "network \<Rightarrow> SocketAddr \<Rightarrow> ManagementJobRegistry option" where
  "process_at w endpoint = Option.bind (net_route w endpoint) (\<lambda>h. host_registry (net_hosts w h))"

lemma set_registry_simps [simp]:
  "net_route (set_registry h g w) = net_route w" "net_faults (set_registry h g w) = net_faults w"
  "host_registry (net_hosts (set_registry h g w) k) = (if k = h then g else host_registry (net_hosts w k))"
  "host_env (net_hosts (set_registry h g w) k) = host_env (net_hosts w k)"
  "host_server (net_hosts (set_registry h g w) k) = host_server (net_hosts w k)"
  by (simp_all add: set_registry_def)

lemma serve_frame:
  assumes "frame_valid request" "host_registry (net_hosts w h) = Some g"
    and "handle_request (host_env (net_hosts w h)) (host_server (net_hosts w h)) request g = (r, g')"
  shows "serve_one h (frame_header request @ payload request) w =
    (case r of Inr f \<Rightarrow> (Inr (frame_header f @ payload f), set_registry h (Some g') w) | Inl _ \<Rightarrow> (Inl UnexpectedEof, set_registry h None w))"
proof -
  have read: "read_frame (frame_header request @ payload request) = Inr (request, [])"
    using read_frame_header [OF assms(1), of "[]"] by simp
  show ?thesis
  proof (cases r)
    case (Inr f)
    then have "frame_valid f" using handle_request_valid assms(3) by blast
    then show ?thesis using Inr read assms(2,3) by (simp add: serve_one_def handle_client_def write_frame_eq)
  qed (use read assms(2,3) in \<open>simp add: serve_one_def handle_client_def\<close>)
qed

definition request_frame :: "u64 \<Rightarrow> ManagementMessageKind \<Rightarrow> byte list \<Rightarrow> ManagementFrame" where
  "request_frame rid k p = \<lparr>request_id = rid, kind = k, payload = p\<rparr>"

lemma exchange_eq:
  assumes "length p \<le> MAX_MANAGEMENT_PAYLOAD_BYTES"
  shows "exchange rid endpoint k p w =
    (let (reply, w') = connect_and_send endpoint (frame_header (request_frame rid k p) @ p) w in
     (ebind reply (\<lambda>bytes. ebind (read_frame bytes) (\<lambda>(response, _). ebind (ensure (request_id response = rid) InvalidData) (\<lambda>_.
        if kind response = ErrorResponse then Inl OtherError else Inr response))), w'))"
proof -
  have "frame_valid (request_frame rid k p)" using assms by (simp add: frame_valid_def request_frame_def)
  then have "ebind (ManagementFrame_new rid k p) write_frame = Inr (frame_header (request_frame rid k p) @ p)"
    using assms write_frame_eq [of "request_frame rid k p"]
    by (simp add: ManagementFrame_new_def validate_payload_length_def request_frame_def)
  then show ?thesis by (simp add: exchange_def)
qed

lemma exchange_ok:
  assumes "exchange rid endpoint k p w = (Inr f, w')" "length p \<le> MAX_MANAGEMENT_PAYLOAD_BYTES"
  obtains h g g' where "net_route w endpoint = Some h" "host_registry (net_hosts w h) = Some g"
    "handle_request (host_env (net_hosts w h)) (host_server (net_hosts w h)) (request_frame rid k p) g = (Inr f, g')"
    "kind f \<noteq> ErrorResponse" "w' = set_registry h (Some g') (w\<lparr>net_faults := tl (net_faults w)\<rparr>)"
proof -
  let ?w = "w\<lparr>net_faults := tl (net_faults w)\<rparr>"
  let ?bs = "frame_header (request_frame rid k p) @ p"
  obtain bytes where sent: "connect_and_send endpoint ?bs w = (Inr bytes, w')"
    and read: "ebind (read_frame bytes) (\<lambda>(response, _). ebind (ensure (request_id response = rid) InvalidData) (\<lambda>_.
        if kind response = ErrorResponse then Inl OtherError else Inr response)) = Inr f"
    using assms(1) unfolding exchange_eq [OF assms(2)] by (auto simp: result_simps split: prod.splits)
  obtain h where h: "net_route w endpoint = Some h" "serve_one h ?bs ?w = (Inr bytes, w')"
    using sent by (auto simp: connect_and_send_def Let_def split: option.splits link_fault.splits prod.splits list.splits)
  obtain g where g: "host_registry (net_hosts w h) = Some g"
    using h(2) by (auto simp: serve_one_def split: option.splits)
  obtain r g' where r: "handle_request (host_env (net_hosts w h)) (host_server (net_hosts w h)) (request_frame rid k p) g = (r, g')"
    by fastforce
  have "frame_valid (request_frame rid k p)" using assms(2) by (simp add: frame_valid_def request_frame_def)
  then have served: "serve_one h ?bs ?w = (case r of Inr f \<Rightarrow> (Inr (frame_header f @ payload f), set_registry h (Some g') ?w)
      | Inl _ \<Rightarrow> (Inl UnexpectedEof, set_registry h None ?w))"
    using serve_frame [of "request_frame rid k p" ?w h g r g'] g r by (simp add: request_frame_def)
  then obtain f' where f': "r = Inr f'" "bytes = frame_header f' @ payload f'" "w' = set_registry h (Some g') ?w"
    using h(2) by (auto split: sum.splits)
  have "frame_valid f'" using handle_request_valid r f'(1) by blast
  then have "read_frame bytes = Inr (f', [])" using read_frame_header [of f' "[]"] f'(2) by simp
  then have "f = f'" "kind f \<noteq> ErrorResponse" using read by (auto simp: result_simps split: if_splits)
  then show ?thesis using that h(1) g r f' by blast
qed

lemma exchange_calm:
  assumes "net_faults w = []" "net_route w endpoint = Some h" "host_registry (net_hosts w h) = Some g"
    and "handle_request (host_env (net_hosts w h)) (host_server (net_hosts w h)) (request_frame rid k p) g = (Inr f, g')"
    and "length p \<le> MAX_MANAGEMENT_PAYLOAD_BYTES"
  shows "exchange rid endpoint k p w = (if kind f = ErrorResponse then Inl OtherError else Inr f, set_registry h (Some g') w)"
proof -
  have v: "frame_valid f" "request_id f = rid"
    using handle_request_valid [OF assms(4)] by (simp_all add: request_frame_def)
  have "frame_valid (request_frame rid k p)" using assms(5) by (simp add: frame_valid_def request_frame_def)
  then have served: "serve_one h (frame_header (request_frame rid k p) @ p) w = (Inr (frame_header f @ payload f), set_registry h (Some g') w)"
    using serve_frame [OF _ assms(3,4)] by (simp add: request_frame_def)
  have same: "w\<lparr>net_faults := tl (net_faults w)\<rparr> = w" using assms(1) by (cases w) simp
  have "connect_and_send endpoint (frame_header (request_frame rid k p) @ p) w =
      (Inr (frame_header f @ payload f), set_registry h (Some g') w)"
    unfolding connect_and_send_def Let_def same using assms(1,2) served by simp
  then show ?thesis
    using v read_frame_header [OF v(1), of "[]"] unfolding exchange_eq [OF assms(5)] by simp
qed

section \<open>The calls that change jobs\<close>

lemma prepare_request_length: "encode_prepare_request_with_resume d u r = Inr bs \<Longrightarrow> length bs \<le> MAX_MANAGEMENT_PAYLOAD_BYTES"
  by (auto simp: encode_prepare_request_with_resume_def result_simps validate_destination_path_Inr MAX_DESTINATION_PATH_BYTES_def
      MAX_MANAGEMENT_PAYLOAD_BYTES_def)

lemma start_send_request_length:
  "encode_start_send_request_with_stream_count_and_desktop_layout a s w c f p = Inr bs \<Longrightarrow> length bs \<le> 2 ^ 16"
  by (auto simp: encode_start_send_request_with_stream_count_and_desktop_layout_def result_simps Let_def
      validate_send_parameters_Inr validate_source_path_Inr MAX_SOURCE_PATH_BYTES_def JOB_RECEIVER_ENDPOINT_BYTES_def)

lemma cancel_request_length: "encode_cancel_request j = Inr bs \<Longrightarrow> length bs = 12"
  by (auto simp: encode_cancel_request_def split: if_splits)

lemma handle_request_prepare:
  "handle_request env server (request_frame rid PrepareReceiveRequest p) g =
     (let (result, g') = handle_prepare env server p g in
      (answer_with env rid PrepareReceiveResponse ''failed to prepare receiver job: '' result, g'))"
  by (simp add: handle_request_def request_frame_def)

lemma handle_request_start:
  "handle_request env server (request_frame rid StartSendRequest p) g =
     (let (result, g') = handle_start_send env p g in
      (answer_with env rid StartSendResponse ''failed to start sender job: '' result, g'))"
  by (simp add: handle_request_def request_frame_def)

lemma handle_request_cancel:
  "handle_request env server (request_frame rid CancelJobRequest p) g =
     (let (result, g') = handle_cancel env p g in
      (answer_with env rid CancelJobResponse ''failed to cancel management job: '' result, g'))"
  by (simp add: handle_request_def request_frame_def)

lemma prepare_configured_cases:
  "prepare_receive_on_configured env d u b resume g = (r, g') \<Longrightarrow>
     (\<exists>e. r = Inl e \<and> active_id g' = active_id g) \<or>
     (\<exists>job p. r = Inr job \<and> active_id g = None \<and> receive_job_ok job \<and> pj_destination_root job = d \<and> pj_update_existing job = u \<and>
        registry_inner g' = (registry_inner g)\<lparr>active_receive := Some \<lparr>ar_job = job, ar_progress = p\<rparr>\<rparr>)"
  by (auto simp: prepare_receive_on_configured_def fetch_add_job_id_def new_counter_def activate_receive_def check_idle_def
      spawn_receiver_def clear_receive_def receives_def registry_active_job_id_def open_receiver_def receive_job_ok_def result_simps
      Let_def split: sum.splits if_splits option.splits)

lemma start_send_cases:
  "start_send_with_desktop_layout env a s n c f p g = (r, g') \<Longrightarrow>
     (\<exists>e. r = Inl e \<and> active_receive (registry_inner g') = active_receive (registry_inner g) \<and>
        active_send (registry_inner g') = active_send (registry_inner g)) \<or>
     (\<exists>job q. r = Inr job \<and> active_id g = None \<and> send_job_ok job \<and> sj_receiver_address job = a \<and> sj_source_root job = s \<and>
        sj_worker_count job = n \<and> sj_calibration_mib job = c \<and>
        registry_inner g' = (registry_inner g)\<lparr>active_send := Some \<lparr>as_job = job, as_progress = q\<rparr>\<rparr>)"
  by (auto simp: start_send_with_desktop_layout_def fetch_add_job_id_def new_counter_def activate_send_def check_idle_def
      spawn_sender_def clear_send_def sends_def registry_active_job_id_def send_job_ok_def result_simps
      Let_def split: sum.splits if_splits option.splits)

lemma encode_prepared_response_ok:
  assumes "receive_job_ok job"
  shows "\<exists>bs. encode_prepared_response job = Inr bs \<and> length bs \<le> 2 ^ 16"
proof -
  have d: "validate_destination_path (pj_destination_root job) = Inr ()" using assms by (simp add: receive_job_ok_def)
  then have "str_len (pj_destination_root job) \<le> 32768" by (simp add: validate_destination_path_Inr MAX_DESTINATION_PATH_BYTES_def)
  then show ?thesis using assms d
    by (simp add: receive_job_ok_def encode_prepared_response_def encode_status_def word_try_from_def)
qed

lemma encode_started_response_ok:
  assumes "send_job_ok job"
  shows "\<exists>bs. encode_started_send_response job = Inr bs \<and> length bs \<le> 2 ^ 17"
proof -
  let ?r = "\<lparr>sq_receiver_address = sj_receiver_address job, sq_source_root = sj_source_root job, sq_worker_count = sj_worker_count job,
    sq_calibration_mib = sj_calibration_mib job, sq_forced_streams = None, sq_preserve_desktop = False\<rparr>"
  have "send_request_wf ?r"
    using assms send_parameters_wf [of ?r] by (simp add: send_job_ok_def validate_forced_data_stream_count_def)
  then obtain request where request: "encode_start_send_request_with_stream_count_and_desktop_layout (sj_receiver_address job)
      (sj_source_root job) (sj_worker_count job) (sj_calibration_mib job) None False = Inr request"
    using encode_start_send_wf [of ?r] by auto
  then show ?thesis using start_send_request_length [OF request] assms
    by (simp add: encode_started_send_response_def encode_start_send_request_def encode_start_send_request_with_stream_count_def send_job_ok_def)
qed

lemma handle_prepare_eq:
  assumes "encode_prepare_request_with_resume d u resume = Inr p" "is_text d"
  shows "handle_prepare env server p g =
    (let (result, g') = prepare_receive_on_configured (env_jobs env) d u (server_receiver_bind server) resume g in
     (ebind result encode_prepared_response, g'))"
  using prepare_request_codec [OF assms]
  by (simp add: handle_prepare_def prepare_receive_on_def prepare_receive_resume_on_def)

lemma handle_start_send_eq:
  assumes "encode_start_send_request_with_stream_count_and_desktop_layout a s n c f l = Inr p" "is_text s" "without_flowinfo a = a"
  shows "handle_start_send env p g =
    (let (result, g') = start_send_with_desktop_layout (env_jobs env) a s n c f l g in
     (ebind result encode_started_send_response, g'))"
  using start_send_request_codec [OF assms] by (simp add: handle_start_send_def)

lemma handle_cancel_eq:
  assumes "encode_cancel_request j = Inr p"
  shows "handle_cancel env p g = (let (result, g') = registry_cancel (env_jobs env) j g in (ebind result encode_cancel_request, g'))"
  using cancel_request_codec [OF assms] by (simp add: handle_cancel_def)

lemma answer_with_kind:
  "answer_with env rid k failure result = Inr f \<Longrightarrow> kind f \<noteq> ErrorResponse \<Longrightarrow> result = Inr (payload f) \<and> kind f = k"
  by (auto simp: answer_with_def error_response_def dest!: frame_new_valid split: sum.splits)


text \<open>A network without faults whose agents describe their errors in at most 64 KiB.\<close>

definition calm :: "network \<Rightarrow> bool" where
  "calm w \<longleftrightarrow> net_faults w = [] \<and> (\<forall>h e. str_len (env_error_text (host_env (net_hosts w h)) e) \<le> 2 ^ 16)"

definition active_jobs :: "network \<Rightarrow> nat \<Rightarrow> u64 option option" where
  "active_jobs w h = map_option active_id (host_registry (net_hosts w h))"

lemma calm_set_registry [simp]: "calm (set_registry h g w) = calm w"
  by (simp add: calm_def)

lemma active_jobs_set: "active_jobs (set_registry h (Some g) w) = (active_jobs w)(h := Some (active_id g))"
  by (auto simp: active_jobs_def fun_eq_iff)

lemma calm_faults: "net_faults w = [] \<Longrightarrow> w\<lparr>net_faults := tl (net_faults w)\<rparr> = w"
  by (cases w) simp

lemma answer_with_calm:
  assumes "calm w" "\<And>p. result = Inr p \<Longrightarrow> length p \<le> 2 ^ 17" "length failure \<le> 100"
  shows "\<exists>f. answer_with (host_env (net_hosts w h)) rid k failure result = Inr f"
proof (cases result)
  case (Inl e)
  have "str_len (ustr failure) \<le> 4 * length failure" by (induction failure) (auto simp: str_len_def utf8_char_len_def)
  moreover have "str_len (env_error_text (host_env (net_hosts w h)) e) \<le> 2 ^ 16" using assms(1) by (simp add: calm_def)
  ultimately have "str_len (ustr failure) + str_len (env_error_text (host_env (net_hosts w h)) e) \<le> MAX_MANAGEMENT_PAYLOAD_BYTES"
    using assms(3) by (simp add: MAX_MANAGEMENT_PAYLOAD_BYTES_def)
  then show ?thesis by (simp add: Inl answer_with_def error_response_def ManagementFrame_new_Inr)
next
  case (Inr p)
  then show ?thesis using assms(2) [OF Inr] by (simp add: answer_with_def ManagementFrame_new_Inr MAX_MANAGEMENT_PAYLOAD_BYTES_def)
qed

text \<open>
  A call on a calm network either does not reach a process and changes nothing, or is exactly what the handler
  answers.
\<close>

lemma exchange_calm_cases:
  assumes "calm w" "length p \<le> MAX_MANAGEMENT_PAYLOAD_BYTES" "exchange rid endpoint k p w = (r, w')"
    and answered: "\<forall>h g. \<exists>f g'. handle_request (host_env (net_hosts w h)) (host_server (net_hosts w h)) (request_frame rid k p) g = (Inr f, g')"
  obtains (unreached) e where "r = Inl e" "w' = w"
  | (reached) h g f g' where "net_route w endpoint = Some h" "host_registry (net_hosts w h) = Some g"
      "handle_request (host_env (net_hosts w h)) (host_server (net_hosts w h)) (request_frame rid k p) g = (Inr f, g')"
      "r = (if kind f = ErrorResponse then Inl OtherError else Inr f)" "w' = set_registry h (Some g') w"
proof -
  have faults: "net_faults w = []" using assms(1) by (simp add: calm_def)
  show ?thesis
  proof (cases "net_route w endpoint")
    case None
    then have "connect_and_send endpoint bs w = (Inl TimedOut, w)" for bs
      unfolding connect_and_send_def Let_def calm_faults [OF faults] using faults by simp
    then show ?thesis using assms(3) unreached unfolding exchange_eq [OF assms(2)] by auto
  next
    case (Some h)
    show ?thesis
    proof (cases "host_registry (net_hosts w h)")
      case None
      then have "connect_and_send endpoint bs w = (Inl OtherError, w)" for bs
        unfolding connect_and_send_def Let_def calm_faults [OF faults] using faults Some by (simp add: serve_one_def)
      then show ?thesis using assms(3) unreached unfolding exchange_eq [OF assms(2)] by auto
    next
      case (Some g)
      obtain f g' where "handle_request (host_env (net_hosts w h)) (host_server (net_hosts w h)) (request_frame rid k p) g = (Inr f, g')"
        using answered by blast
      then show ?thesis
        using exchange_calm [OF faults \<open>net_route w endpoint = Some h\<close> Some _ assms(2)] assms(3) reached
          \<open>net_route w endpoint = Some h\<close> Some by simp
    qed
  qed
qed

lemma answer_with_Inr: "answer_with env rid k failure (Inr p) = Inr f \<Longrightarrow> kind f = k \<and> payload f = p"
  by (simp add: answer_with_def ManagementFrame_new_Inr)

text \<open>
  What the three calls share: the server answers with the result \<open>H\<close> of the handler, and a result it sends can
  be decoded.
\<close>

locale agent_call =
  fixes request_kind response_kind :: ManagementMessageKind
    and body :: "byte list io_result"
    and representable :: bool
    and H :: "byte list \<Rightarrow> ControlEnvironment \<Rightarrow> ManagementControlServer \<Rightarrow> ManagementJobRegistry \<Rightarrow> byte list io_result \<times> ManagementJobRegistry"
    and failure :: string
    and decode :: "byte list \<Rightarrow> 'a io_result"
  assumes handled: "handle_request env server (request_frame rid request_kind p) g =
      (let (result, g') = H p env server g in (answer_with env rid response_kind failure result, g'))"
    and decodable: "representable \<Longrightarrow> body = Inr p \<Longrightarrow> H p env server g = (Inr x, g') \<Longrightarrow> length x \<le> 2 ^ 17 \<and> (\<exists>a. decode x = Inr a)"
    and fits: "body = Inr p \<Longrightarrow> length p \<le> MAX_MANAGEMENT_PAYLOAD_BYTES" "length failure \<le> 100" "response_kind \<noteq> ErrorResponse"
begin

lemma call_ok:
  assumes "call_agent rid endpoint request_kind response_kind decode body w = (Inr a, w')"
  obtains p h g x g' where "body = Inr p" "net_route w endpoint = Some h" "host_registry (net_hosts w h) = Some g"
    "H p (host_env (net_hosts w h)) (host_server (net_hosts w h)) g = (Inr x, g')" "decode x = Inr a"
    "w' = set_registry h (Some g') (w\<lparr>net_faults := tl (net_faults w)\<rparr>)"
proof -
  obtain p f where p: "body = Inr p" and ex: "exchange rid endpoint request_kind p w = (Inr f, w')"
    and dec: "kind f = response_kind" "decode (payload f) = Inr a"
    using assms by (auto simp: call_agent_def expect_kind_def result_simps split: sum.splits prod.splits if_splits)
  obtain h g g' where h: "net_route w endpoint = Some h" "host_registry (net_hosts w h) = Some g"
    and f: "handle_request (host_env (net_hosts w h)) (host_server (net_hosts w h)) (request_frame rid request_kind p) g = (Inr f, g')"
    and w': "w' = set_registry h (Some g') (w\<lparr>net_faults := tl (net_faults w)\<rparr>)"
    using exchange_ok [OF ex fits(1) [OF p]] by metis
  obtain result where "H p (host_env (net_hosts w h)) (host_server (net_hosts w h)) g = (result, g')"
    and "answer_with (host_env (net_hosts w h)) rid response_kind failure result = Inr f"
    using f unfolding handled by (auto split: prod.splits)
  then show ?thesis using that p h w' dec answer_with_kind fits(3) by metis
qed

lemma answered_calm:
  assumes "calm w" representable "body = Inr p"
  shows "\<exists>f g'. handle_request (host_env (net_hosts w h)) (host_server (net_hosts w h)) (request_frame rid request_kind p) g = (Inr f, g')"
proof -
  obtain result g' where result: "H p (host_env (net_hosts w h)) (host_server (net_hosts w h)) g = (result, g')" by fastforce
  then have "\<exists>f. answer_with (host_env (net_hosts w h)) rid response_kind failure result = Inr f"
    by (intro answer_with_calm [OF assms(1) _ fits(2)]) (use decodable [OF assms(2,3)] in blast)
  then show ?thesis unfolding handled result by simp
qed

lemma call_calm:
  assumes "calm w" representable "call_agent rid endpoint request_kind response_kind decode body w = (r, w')"
  obtains (unreached) e where "r = Inl e" "w' = w"
  | (refused) p h g e g' where "body = Inr p" "r = Inl OtherError" "net_route w endpoint = Some h" "host_registry (net_hosts w h) = Some g"
      "H p (host_env (net_hosts w h)) (host_server (net_hosts w h)) g = (Inl e, g')" "w' = set_registry h (Some g') w"
  | (answered) p h g x g' a where "body = Inr p" "r = Inr a" "net_route w endpoint = Some h" "host_registry (net_hosts w h) = Some g"
      "H p (host_env (net_hosts w h)) (host_server (net_hosts w h)) g = (Inr x, g')" "decode x = Inr a" "w' = set_registry h (Some g') w"
proof (cases body)
  case (Inl e)
  then show ?thesis using that(1) [of e] assms(3) by (auto simp: call_agent_def)
next
  case p: (Inr p)
  obtain r0 where ex: "exchange rid endpoint request_kind p w = (r0, w')" and r: "r = expect_kind response_kind decode r0"
    using assms(3) by (auto simp: call_agent_def p split: prod.splits)
  have ans: "\<forall>h g. \<exists>f g'. handle_request (host_env (net_hosts w h)) (host_server (net_hosts w h))
      (request_frame rid request_kind p) g = (Inr f, g')" using answered_calm [OF assms(1,2) p] by blast
  from assms(1) fits(1) [OF p] ex ans show ?thesis
  proof (cases rule: exchange_calm_cases)
    case (unreached e)
    then show ?thesis using that(1) r by (simp add: expect_kind_def)
  next
    case (reached h g f g')
    obtain result where result: "H p (host_env (net_hosts w h)) (host_server (net_hosts w h)) g = (result, g')"
      "answer_with (host_env (net_hosts w h)) rid response_kind failure result = Inr f"
      using reached(3) unfolding handled by (auto split: prod.splits)
    show ?thesis
    proof (cases result)
      case (Inl e)
      then have "kind f = ErrorResponse" using result(2) by (auto simp: answer_with_def error_response_def ManagementFrame_new_Inr)
      then show ?thesis using that(2) p r reached result(1) Inl by (simp add: expect_kind_def)
    next
      case (Inr x)
      then have f: "kind f = response_kind" "payload f = x" using answer_with_Inr result(2) by blast+
      obtain a where "decode x = Inr a" using decodable [OF assms(2) p] result(1) Inr by blast
      then show ?thesis using that(3) p r reached result(1) Inr f fits(3) by (simp add: expect_kind_def)
    qed
  qed
qed

lemma call_reaches:
  assumes "calm w" representable "body = Inr p" "net_route w endpoint = Some h" "host_registry (net_hosts w h) = Some g"
    and "H p (host_env (net_hosts w h)) (host_server (net_hosts w h)) g = (result, g')"
  shows "call_agent rid endpoint request_kind response_kind decode body w =
    (case result of Inr x \<Rightarrow> decode x | Inl _ \<Rightarrow> Inl OtherError, set_registry h (Some g') w)"
proof -
  obtain f where f: "handle_request (host_env (net_hosts w h)) (host_server (net_hosts w h)) (request_frame rid request_kind p) g = (Inr f, g')"
    "answer_with (host_env (net_hosts w h)) rid response_kind failure result = Inr f"
    using answered_calm [OF assms(1-3), of h rid g] assms(6) unfolding handled by auto
  have "net_faults w = []" using assms(1) by (simp add: calm_def)
  then have call: "call_agent rid endpoint request_kind response_kind decode body w =
      (expect_kind response_kind decode (if kind f = ErrorResponse then Inl OtherError else Inr f), set_registry h (Some g') w)"
    using exchange_calm [OF _ assms(4,5) f(1) fits(1) [OF assms(3)]] by (simp add: call_agent_def assms(3))
  show ?thesis
  proof (cases result)
    case (Inl e)
    then have "kind f = ErrorResponse" using f(2) by (auto simp: answer_with_def error_response_def ManagementFrame_new_Inr)
    then show ?thesis using call Inl by (simp add: expect_kind_def)
  next
    case (Inr x)
    then have "kind f = response_kind" "payload f = x" using answer_with_Inr f(2) by blast+
    then show ?thesis using call Inr fits(3) by (simp add: expect_kind_def)
  qed
qed

end

section \<open>The calls\<close>

interpretation prepare_call: agent_call PrepareReceiveRequest PrepareReceiveResponse "encode_prepare_request_with_resume d u resume"
  "is_text d" "\<lambda>p env server. handle_prepare env server p" "''failed to prepare receiver job: ''" decode_prepared_response for d u resume
proof
  fix p env server g x g'
  assume d: "is_text d" and p: "encode_prepare_request_with_resume d u resume = Inr p" and "handle_prepare env server p g = (Inr x, g')"
  then obtain job where "prepare_receive_on_configured (env_jobs env) d u (server_receiver_bind server) resume g = (Inr job, g')"
    and x: "encode_prepared_response job = Inr x"
    unfolding handle_prepare_eq [OF p d] by (auto simp: result_simps split: prod.splits)
  then have job: "receive_job_ok job" "pj_destination_root job = d" using prepare_configured_cases by fastforce+
  show "length x \<le> 2 ^ 17 \<and> (\<exists>a. decode_prepared_response x = Inr a)"
    using encode_prepared_response_ok [OF job(1)] x prepared_response_codec [OF x] job(2) d by auto
qed (use prepare_request_length in \<open>simp_all add: handle_request_prepare\<close>)

interpretation start_call: agent_call StartSendRequest StartSendResponse
  "encode_start_send_request_with_stream_count_and_desktop_layout a s n c f l" "is_text s \<and> without_flowinfo a = a"
  "\<lambda>p env server. handle_start_send env p" "''failed to start sender job: ''" decode_started_send_response for a s n c f l
proof
  fix p env server g x g'
  assume texts: "is_text s \<and> without_flowinfo a = a"
    and p: "encode_start_send_request_with_stream_count_and_desktop_layout a s n c f l = Inr p" and "handle_start_send env p g = (Inr x, g')"
  then obtain job where "start_send_with_desktop_layout (env_jobs env) a s n c f l g = (Inr job, g')"
    and x: "encode_started_send_response job = Inr x"
    using handle_start_send_eq [OF p] by (auto simp: result_simps split: prod.splits)
  then have job: "send_job_ok job" "sj_receiver_address job = a" "sj_source_root job = s" using start_send_cases by fastforce+
  show "length x \<le> 2 ^ 17 \<and> (\<exists>a. decode_started_send_response x = Inr a)"
    using encode_started_response_ok [OF job(1)] x started_send_response_codec [OF x] job texts by auto
qed (use start_send_request_length in \<open>force simp: handle_request_start MAX_MANAGEMENT_PAYLOAD_BYTES_def\<close>)+

interpretation cancel_call: agent_call CancelJobRequest CancelJobResponse "encode_cancel_request j" True
  "\<lambda>p env server. handle_cancel env p" "''failed to cancel management job: ''" decode_cancel_request for j
proof
  fix p env server g x g'
  assume p: "encode_cancel_request j = Inr p" and "handle_cancel env p g = (Inr x, g')"
  then obtain k where x: "encode_cancel_request k = Inr x"
    unfolding handle_cancel_eq [OF p] by (auto simp: result_simps split: prod.splits)
  show "length x \<le> 2 ^ 17 \<and> (\<exists>a. decode_cancel_request x = Inr a)"
    using cancel_request_length [OF x] cancel_request_codec [OF x] by simp
qed (use cancel_request_length in \<open>force simp: handle_request_cancel MAX_MANAGEMENT_PAYLOAD_BYTES_def\<close>)+

section \<open>Two agents and a manager\<close>

text \<open>
  What starting a transfer relies on: an agent that accepts a job runs it, a refused call leaves every job as it
  was, and cancelling a receiver that was just prepared restores the jobs of the time before.
\<close>

locale transfer_agents =
  fixes prepare :: "SocketAddr \<Rightarrow> ustring \<Rightarrow> bool \<Rightarrow> 'w \<Rightarrow> PreparedReceiveJob io_result \<times> 'w"
    and start :: "SocketAddr \<Rightarrow> SocketAddr \<Rightarrow> ustring \<Rightarrow> usize \<Rightarrow> u64 \<Rightarrow> bool \<Rightarrow> 'w \<Rightarrow> StartedSendJob io_result \<times> 'w"
    and cancel :: "SocketAddr \<Rightarrow> u64 \<Rightarrow> 'w \<Rightarrow> u64 io_result \<times> 'w"
    and receiving :: "SocketAddr \<Rightarrow> PreparedReceiveJob \<Rightarrow> 'w \<Rightarrow> bool"
    and sending :: "SocketAddr \<Rightarrow> StartedSendJob \<Rightarrow> 'w \<Rightarrow> bool"
    and undisturbed :: "'w \<Rightarrow> bool"
    and jobs :: "'w \<Rightarrow> 'j"
    and valid_text :: "ustring \<Rightarrow> bool"
    and valid_addr :: "SocketAddr \<Rightarrow> bool"
  assumes prepare_ok: "valid_text d \<Longrightarrow> prepare a d u w = (Inr job, w') \<Longrightarrow>
      receiving a job w' \<and> pj_destination_root job = d \<and> pj_update_existing job = u \<and> (undisturbed w \<longrightarrow> undisturbed w')"
    and start_ok: "valid_text s \<Longrightarrow> valid_addr r \<Longrightarrow> start a r s n c p w = (Inr sjob, w') \<Longrightarrow>
      sending a sjob w' \<and> sj_receiver_address sjob = r \<and> sj_source_root sjob = s \<and> sj_worker_count sjob = n \<and> sj_calibration_mib sjob = c \<and>
      (receiving b job w \<longrightarrow> receiving b job w')"
    and prepare_fails: "valid_text d \<Longrightarrow> undisturbed w \<Longrightarrow> prepare a d u w = (Inl e, w') \<Longrightarrow> jobs w' = jobs w"
    and start_fails: "valid_text s \<Longrightarrow> valid_addr r \<Longrightarrow> undisturbed w \<Longrightarrow> receiving b job w \<Longrightarrow> start a r s n c p w = (Inl e, w') \<Longrightarrow>
      undisturbed w' \<and> jobs w' = jobs w \<and> receiving b job w'"
    and cancel_undoes: "valid_text d \<Longrightarrow> undisturbed w \<Longrightarrow> prepare a d u w = (Inr job, w1) \<Longrightarrow>
      undisturbed w2 \<Longrightarrow> receiving a job w2 \<Longrightarrow> jobs w2 = jobs w1 \<Longrightarrow>
      \<exists>w3. cancel a (pj_job_id job) w2 = (Inr (pj_job_id job), w3) \<and> jobs w3 = jobs w"
begin

lemma transfer_starts:
  assumes "start_transfer_with prepare start cancel request preserve w = (Inr r, w')"
    and "valid_text (mt_source_root request)" "valid_text (mt_destination_root request)"
    and "\<And>port. valid_addr (payload_endpoint (mt_receiver_agent request) port)"
  obtains rjob sjob where "receiving (mt_receiver_agent request) rjob w'" "sending (mt_sender_agent request) sjob w'"
    "mt_sender_agent request \<noteq> mt_receiver_agent request"
    "sj_receiver_address sjob = payload_endpoint (mt_receiver_agent request) (pj_transfer_port rjob)"
    "r = \<lparr>tr_sender_agent = mt_sender_agent request, tr_sender_job_id = sj_job_id sjob, tr_receiver_agent = mt_receiver_agent request,
      tr_receiver_job_id = pj_job_id rjob, tr_receiver_payload = sj_receiver_address sjob, tr_source_root = mt_source_root request,
      tr_destination_root = mt_destination_root request, tr_update_existing = mt_update_existing request,
      tr_worker_count = mt_worker_count request, tr_calibration_mib = mt_calibration_mib request\<rparr>"
    "sj_source_root sjob = mt_source_root request" "sj_worker_count sjob = mt_worker_count request"
    "sj_calibration_mib sjob = mt_calibration_mib request" "pj_destination_root rjob = mt_destination_root request"
    "pj_update_existing rjob = mt_update_existing request"
proof -
  obtain rjob w1 where p: "prepare (mt_receiver_agent request) (mt_destination_root request) (mt_update_existing request) w = (Inr rjob, w1)"
    and ne: "mt_sender_agent request \<noteq> mt_receiver_agent request"
    using assms(1) by (auto simp: start_transfer_with_def split: if_splits prod.splits sum.splits)
  obtain sjob where s: "start (mt_sender_agent request) (payload_endpoint (mt_receiver_agent request) (pj_transfer_port rjob))
      (mt_source_root request) (mt_worker_count request) (mt_calibration_mib request) preserve w1 = (Inr sjob, w')"
    using assms(1) ne p by (auto simp: start_transfer_with_def Let_def split: prod.splits sum.splits)
  have r: "r = \<lparr>tr_sender_agent = mt_sender_agent request, tr_sender_job_id = sj_job_id sjob, tr_receiver_agent = mt_receiver_agent request,
      tr_receiver_job_id = pj_job_id rjob, tr_receiver_payload = payload_endpoint (mt_receiver_agent request) (pj_transfer_port rjob),
      tr_source_root = sj_source_root sjob, tr_destination_root = pj_destination_root rjob,
      tr_update_existing = pj_update_existing rjob, tr_worker_count = sj_worker_count sjob, tr_calibration_mib = sj_calibration_mib sjob\<rparr>"
    using assms(1) ne p s by (auto simp: start_transfer_with_def)
  show ?thesis
    by (rule that [of rjob sjob]) (use prepare_ok [OF assms(3) p] start_ok [OF assms(2,4) s] r ne in simp_all)
qed

lemma transfer_fails:
  assumes "start_transfer_with prepare start cancel request preserve w = (Inl e, w')" "undisturbed w"
    and "valid_text (mt_source_root request)" "valid_text (mt_destination_root request)"
    and "\<And>port. valid_addr (payload_endpoint (mt_receiver_agent request) port)"
  shows "jobs w' = jobs w"
proof (cases "mt_sender_agent request = mt_receiver_agent request")
  case True
  then show ?thesis using assms(1) by (simp add: start_transfer_with_def)
next
  case False
  obtain r w1 where p: "prepare (mt_receiver_agent request) (mt_destination_root request) (mt_update_existing request) w = (r, w1)"
    by fastforce
  show ?thesis
  proof (cases r)
    case (Inl e')
    then have "w' = w1" using assms(1) False p by (simp add: start_transfer_with_def)
    then show ?thesis using prepare_fails [OF assms(4,2)] p Inl by blast
  next
    case (Inr rjob)
    note ok = prepare_ok [OF assms(4) p [unfolded Inr]]
    obtain e' w2 where s: "start (mt_sender_agent request) (payload_endpoint (mt_receiver_agent request) (pj_transfer_port rjob))
        (mt_source_root request) (mt_worker_count request) (mt_calibration_mib request) preserve w1 = (Inl e', w2)"
      using assms(1) False p Inr by (auto simp: start_transfer_with_def Let_def split: prod.splits sum.splits)
    have w2: "undisturbed w2" "jobs w2 = jobs w1" "receiving (mt_receiver_agent request) rjob w2"
      using start_fails [OF assms(3,5) _ _ s] ok assms(2) by blast+
    obtain w3 where c: "cancel (mt_receiver_agent request) (pj_job_id rjob) w2 = (Inr (pj_job_id rjob), w3)" "jobs w3 = jobs w"
      using cancel_undoes [OF assms(4,2) p [unfolded Inr] w2(1,3,2)] by blast
    have "w' = w3" using assms(1) False p Inr s c by (simp add: start_transfer_with_def rollback_receiver_def)
    then show ?thesis using c(2) by simp
  qed
qed

end

definition receiving :: "SocketAddr \<Rightarrow> PreparedReceiveJob \<Rightarrow> network \<Rightarrow> bool" where
  "receiving endpoint job w \<longleftrightarrow>
     (\<exists>g q. process_at w endpoint = Some g \<and> active_receive (registry_inner g) = Some \<lparr>ar_job = job, ar_progress = q\<rparr> \<and>
        active_send (registry_inner g) = None \<and> pj_job_id job \<noteq> 0)"

definition sending :: "SocketAddr \<Rightarrow> StartedSendJob \<Rightarrow> network \<Rightarrow> bool" where
  "sending endpoint job w \<longleftrightarrow>
     (\<exists>g q. process_at w endpoint = Some g \<and> active_send (registry_inner g) = Some \<lparr>as_job = job, as_progress = q\<rparr> \<and>
        active_receive (registry_inner g) = None)"

lemma active_id_None: "active_id g = None \<longleftrightarrow> active_receive (registry_inner g) = None \<and> active_send (registry_inner g) = None"
  by (auto simp: registry_active_job_id_def split: option.splits)

lemma process_at_set:
  "process_at (set_registry h (Some g) w) endpoint = (if net_route w endpoint = Some h then Some g else process_at w endpoint)"
  by (cases "net_route w endpoint") (auto simp: process_at_def)

lemma process_at_faults [simp]: "process_at (w\<lparr>net_faults := fs\<rparr>) = process_at w"
  by (simp add: process_at_def fun_eq_iff)

lemma active_jobs_faults [simp]: "active_jobs (w\<lparr>net_faults := fs\<rparr>) = active_jobs w"
  by (simp add: active_jobs_def fun_eq_iff)

lemma calm_after: "calm w \<Longrightarrow> calm (w\<lparr>net_faults := tl (net_faults w)\<rparr>)"
  by (simp add: calm_def)

lemma prepare_receive_eq:
  "prepare_receive_configured rid endpoint d u resume =
     call_agent rid endpoint PrepareReceiveRequest PrepareReceiveResponse decode_prepared_response (encode_prepare_request_with_resume d u resume)"
  by (simp add: prepare_receive_configured_def encode_prepare_request_def)

lemma prepare_call_ok:
  assumes "prepare_receive_configured rid endpoint d u resume w = (Inr job, w')" "is_text d"
  obtains h g g' q where "net_route w endpoint = Some h" "host_registry (net_hosts w h) = Some g" "active_id g = None"
    "receive_job_ok job" "pj_destination_root job = d" "pj_update_existing job = u"
    "registry_inner g' = (registry_inner g)\<lparr>active_receive := Some \<lparr>ar_job = job, ar_progress = q\<rparr>\<rparr>"
    "w' = set_registry h (Some g') (w\<lparr>net_faults := tl (net_faults w)\<rparr>)"
proof -
  obtain p h g x g' where p: "encode_prepare_request_with_resume d u resume = Inr p"
    and h: "net_route w endpoint = Some h" "host_registry (net_hosts w h) = Some g"
    and x: "handle_prepare (host_env (net_hosts w h)) (host_server (net_hosts w h)) p g = (Inr x, g')" "decode_prepared_response x = Inr job"
    and w': "w' = set_registry h (Some g') (w\<lparr>net_faults := tl (net_faults w)\<rparr>)"
    using prepare_call.call_ok [OF assms(1) [unfolded prepare_receive_eq]] by blast
  obtain j where r: "prepare_receive_on_configured (env_jobs (host_env (net_hosts w h))) d u
      (server_receiver_bind (host_server (net_hosts w h))) resume g = (Inr j, g')" and j: "encode_prepared_response j = Inr x"
    using x(1) unfolding handle_prepare_eq [OF p assms(2)] by (auto simp: result_simps split: prod.splits)
  obtain q where job: "active_id g = None" "receive_job_ok j" "pj_destination_root j = d" "pj_update_existing j = u"
    "registry_inner g' = (registry_inner g)\<lparr>active_receive := Some \<lparr>ar_job = j, ar_progress = q\<rparr>\<rparr>"
    using prepare_configured_cases [OF r] by auto
  have "j = job" using prepared_response_codec [OF j] assms(2) job(3) x(2) by simp
  then show ?thesis using that h job w' by blast
qed

lemma start_call_ok:
  assumes "start_send_with_stream_count_and_desktop_layout rid endpoint a s n c forced l w = (Inr job, w')"
    and "is_text s" "without_flowinfo a = a"
  obtains h g g' q where "net_route w endpoint = Some h" "host_registry (net_hosts w h) = Some g" "active_id g = None"
    "sj_receiver_address job = a" "sj_source_root job = s" "sj_worker_count job = n" "sj_calibration_mib job = c"
    "registry_inner g' = (registry_inner g)\<lparr>active_send := Some \<lparr>as_job = job, as_progress = q\<rparr>\<rparr>"
    "w' = set_registry h (Some g') (w\<lparr>net_faults := tl (net_faults w)\<rparr>)"
proof -
  obtain p h g x g' where p: "encode_start_send_request_with_stream_count_and_desktop_layout a s n c forced l = Inr p"
    and h: "net_route w endpoint = Some h" "host_registry (net_hosts w h) = Some g"
    and x: "handle_start_send (host_env (net_hosts w h)) p g = (Inr x, g')" "decode_started_send_response x = Inr job"
    and w': "w' = set_registry h (Some g') (w\<lparr>net_faults := tl (net_faults w)\<rparr>)"
    using start_call.call_ok [OF assms(1) [unfolded start_send_with_stream_count_and_desktop_layout_def]] by blast
  obtain j where r: "start_send_with_desktop_layout (env_jobs (host_env (net_hosts w h))) a s n c forced l g = (Inr j, g')"
    and j: "encode_started_send_response j = Inr x"
    using x(1) unfolding handle_start_send_eq [OF p assms(2,3)] by (auto simp: result_simps split: prod.splits)
  obtain q where job: "active_id g = None" "sj_receiver_address j = a" "sj_source_root j = s" "sj_worker_count j = n"
    "sj_calibration_mib j = c" "registry_inner g' = (registry_inner g)\<lparr>active_send := Some \<lparr>as_job = j, as_progress = q\<rparr>\<rparr>"
    using start_send_cases [OF r] by auto
  have "j = job" using started_send_response_codec [OF j] assms(2,3) job x(2) by simp
  then show ?thesis using that h job w' by blast
qed

lemma start_call_fails:
  assumes "start_send_with_stream_count_and_desktop_layout rid endpoint a s n c forced l w = (Inl e, w')"
    and "is_text s" "without_flowinfo a = a" "calm w"
  shows "w' = w \<or> (\<exists>h g g'. net_route w endpoint = Some h \<and> host_registry (net_hosts w h) = Some g \<and> w' = set_registry h (Some g') w \<and>
    active_receive (registry_inner g') = active_receive (registry_inner g) \<and> active_send (registry_inner g') = active_send (registry_inner g))"
proof -
  have "is_text s \<and> without_flowinfo a = a" using assms(2,3) by simp
  from assms(4) this assms(1) [unfolded start_send_with_stream_count_and_desktop_layout_def] show ?thesis
  proof (cases rule: start_call.call_calm)
    case (refused p h g e' g')
    obtain r where "start_send_with_desktop_layout (env_jobs (host_env (net_hosts w h))) a s n c forced l g = (r, g')"
      "ebind r encode_started_send_response = Inl e'"
      using refused(5) unfolding handle_start_send_eq [OF refused(1) assms(2,3)] by (auto split: prod.splits)
    then show ?thesis using start_send_cases [of "env_jobs (host_env (net_hosts w h))" a s n c forced l g r g'] encode_started_response_ok
        refused(3,4,6) by (fastforce simp: ebind_Inl)
  qed auto
qed

lemma prepare_call_fails:
  assumes "prepare_receive_configured rid endpoint d u resume w = (Inl e, w')" "is_text d" "calm w"
  shows "net_route w' = net_route w \<and> active_jobs w' = active_jobs w"
  using assms(3,2) assms(1) [unfolded prepare_receive_eq]
proof (cases rule: prepare_call.call_calm)
  case (refused p h g e' g')
  obtain r where "prepare_receive_on_configured (env_jobs (host_env (net_hosts w h))) d u
      (server_receiver_bind (host_server (net_hosts w h))) resume g = (r, g')" "ebind r encode_prepared_response = Inl e'"
    using refused(5) unfolding handle_prepare_eq [OF refused(1) assms(2)] by (auto split: prod.splits)
  then have "active_id g' = active_id g"
    using prepare_configured_cases [of "env_jobs (host_env (net_hosts w h))" d u] encode_prepared_response_ok by (fastforce simp: ebind_Inl)
  then show ?thesis using refused(4,6) by (auto simp: active_jobs_set) (auto simp: active_jobs_def)
qed auto

lemma cancel_call_ok:
  assumes "receiving endpoint job w" "calm w" "net_route w endpoint = Some h"
  shows "\<exists>w'. cancel_job rid endpoint (pj_job_id job) w = (Inr (pj_job_id job), w') \<and> net_route w' = net_route w \<and>
    active_jobs w' = (active_jobs w)(h := Some None)"
proof -
  obtain g q where g: "host_registry (net_hosts w h) = Some g" and a: "active_receive (registry_inner g) = Some \<lparr>ar_job = job, ar_progress = q\<rparr>"
    "active_send (registry_inner g) = None" and j: "pj_job_id job \<noteq> 0"
    using assms(1,3) by (auto simp: receiving_def process_at_def)
  obtain g' where c: "registry_cancel (env_jobs (host_env (net_hosts w h))) (pj_job_id job) g = (Inr (pj_job_id job), g')"
    and g': "active_id g' = None"
    using a j by (simp add: registry_cancel_def cancel_take_def registry_active_job_id_def record_result_def signal_cancel_def)
  obtain p where p: "encode_cancel_request (pj_job_id job) = Inr p" using j by (simp add: encode_cancel_request_def)
  have handled: "handle_cancel (host_env (net_hosts w h)) p g = (Inr p, g')" using c p unfolding handle_cancel_eq [OF p] by simp
  have "cancel_job rid endpoint (pj_job_id job) w = (Inr (pj_job_id job), set_registry h (Some g') w)"
    unfolding cancel_job_def using cancel_call.call_reaches [OF assms(2) TrueI p assms(3) g handled] cancel_request_codec [OF p] by simp
  then show ?thesis using g' by (simp add: active_jobs_set)
qed

lemma receiving_set:
  assumes "receiving b job w" "net_route w a = Some h" "host_registry (net_hosts w h) = Some g"
    and "active_receive (registry_inner g') = active_receive (registry_inner g) \<and> active_send (registry_inner g') = active_send (registry_inner g)
      \<or> active_receive (registry_inner g) = None"
  shows "receiving b job (set_registry h (Some g') w)"
proof (cases "net_route w b = Some h")
  case True
  then show ?thesis using assms by (auto simp: receiving_def process_at_set process_at_def)
next
  case False
  then show ?thesis using assms(1) by (simp add: receiving_def process_at_set)
qed

lemma active_id_eq:
  "active_receive (registry_inner g') = active_receive (registry_inner g) \<Longrightarrow>
   active_send (registry_inner g') = active_send (registry_inner g) \<Longrightarrow> active_id g' = active_id g"
  by (simp add: registry_active_job_id_def split: option.split)

interpretation net_agents: transfer_agents
  "\<lambda>a d u. prepare_receive_configured rid1 a d u resume"
  "\<lambda>a r s n c p. start_send_with_stream_count_and_desktop_layout rid2 a r s n c forced p"
  "cancel_job rid3" receiving sending calm "\<lambda>w. (net_route w, active_jobs w)" is_text "\<lambda>a. without_flowinfo a = a"
  for rid1 rid2 rid3 resume forced
proof (unfold_locales, goal_cases)
  case (1 d a u w job w')
  obtain h g g' q where p: "net_route w a = Some h" "active_id g = None" "receive_job_ok job" "pj_destination_root job = d" "pj_update_existing job = u"
    "registry_inner g' = (registry_inner g)\<lparr>active_receive := Some \<lparr>ar_job = job, ar_progress = q\<rparr>\<rparr>"
    "w' = set_registry h (Some g') (w\<lparr>net_faults := tl (net_faults w)\<rparr>)"
    using prepare_call_ok [OF 1(2,1)] by metis
  then have "receiving a job w'" by (auto simp: receiving_def process_at_set active_id_None receive_job_ok_def)
  then show ?case using p calm_after by simp
next
  case (2 s r a n c p w sjob w' b job)
  obtain h g g' q where st: "net_route w a = Some h" "host_registry (net_hosts w h) = Some g" "active_id g = None"
    "sj_receiver_address sjob = r" "sj_source_root sjob = s" "sj_worker_count sjob = n" "sj_calibration_mib sjob = c"
    "registry_inner g' = (registry_inner g)\<lparr>active_send := Some \<lparr>as_job = sjob, as_progress = q\<rparr>\<rparr>"
    and w': "w' = set_registry h (Some g') (w\<lparr>net_faults := tl (net_faults w)\<rparr>)"
    using start_call_ok [OF 2(3,1,2)] by metis
  have "sending a sjob w'" using st w' by (auto simp: sending_def process_at_set active_id_None)
  moreover have "receiving b job w'" if "receiving b job w"
    unfolding w' using st that
    by (intro receiving_set [where g = g and a = a]) (auto simp: active_id_None receiving_def)
  ultimately show ?case using st by blast
next
  case (3 d w a u e w')
  then show ?case using prepare_call_fails [of rid1 a d u resume w e w'] by simp
next
  case (4 s r w b job a n c p e w')
  from start_call_fails [OF 4(5,1,2,3)] show ?case
  proof (elim disjE exE conjE)
    fix h g g'
    assume h: "net_route w a = Some h" "host_registry (net_hosts w h) = Some g" and w': "w' = set_registry h (Some g') w"
      and same: "active_receive (registry_inner g') = active_receive (registry_inner g)" "active_send (registry_inner g') = active_send (registry_inner g)"
    have "receiving b job w'" unfolding w' using receiving_set [OF 4(4) h] same by blast
    moreover have "active_jobs w' = active_jobs w"
      using h(2) active_id_eq [OF same] by (auto simp: w' active_jobs_set) (auto simp: active_jobs_def)
    ultimately show ?case using 4(3) w' by simp
  qed (use 4 in simp)
next
  case (5 d w a u job w1 w2)
  obtain h g g' q where p: "net_route w a = Some h" "host_registry (net_hosts w h) = Some g" "active_id g = None"
    "w1 = set_registry h (Some g') (w\<lparr>net_faults := tl (net_faults w)\<rparr>)"
    using prepare_call_ok [OF 5(3,1)] by metis
  have w2: "net_route w2 = net_route w" "active_jobs w2 = (active_jobs w)(h := Some (active_id g'))" using 5(6) p(4) by (simp_all add: active_jobs_set)
  obtain w3 where "cancel_job rid3 a (pj_job_id job) w2 = (Inr (pj_job_id job), w3)" "net_route w3 = net_route w2"
    "active_jobs w3 = (active_jobs w2)(h := Some None)"
    using cancel_call_ok [OF 5(5,4), of h rid3] p(1) w2(1) by auto
  moreover have "active_jobs w h = Some None" using p(2,3) by (simp add: active_jobs_def)
  ultimately show ?case using w2 by (metis fun_upd_triv fun_upd_upd)
qed

section \<open>Transfers between two agents\<close>

lemma payload_endpoint_text: "without_flowinfo a = a \<Longrightarrow> without_flowinfo (payload_endpoint a port) = payload_endpoint a port"
  by (cases a) simp_all

lemma start_transfer_eq:
  "start_transfer_with_desktop_layout (r1, r2, r3) =
     start_transfer_with (\<lambda>a d u. prepare_receive_configured r1 a d u False)
       (\<lambda>a r s n c p. start_send_with_stream_count_and_desktop_layout r2 a r s n c None p) (cancel_job r3)"
  by (simp add: start_transfer_with_desktop_layout_def prepare_receive_def [abs_def])

lemma resume_transfer_eq:
  "validate_matrix_stream_count streams = Inr x \<Longrightarrow>
   resume_transfer_with_desktop_layout (r1, r2, r3) request streams preserve w =
     start_transfer_with (\<lambda>a d u. prepare_receive_configured r1 a d u True)
       (\<lambda>a r s n c p. start_send_with_stream_count_and_desktop_layout r2 a r s n c (Some streams) p) (cancel_job r3) request preserve w"
  by (simp add: resume_transfer_with_desktop_layout_def prepare_receive_resume_def [abs_def])

text \<open>The transfer a record names is the one its two agents run.\<close>

definition agents_run :: "ManagedTransferRecord \<Rightarrow> network \<Rightarrow> bool" where
  "agents_run r w \<longleftrightarrow>
     (\<exists>gs gr. process_at w (tr_sender_agent r) = Some gs \<and> process_at w (tr_receiver_agent r) = Some gr \<and>
        running_transfer r (registry_snapshot gs) (registry_snapshot gr))"

definition record_of :: "ManagedTransferRequest \<Rightarrow> ManagedTransferRecord \<Rightarrow> bool" where
  "record_of request r \<longleftrightarrow>
     tr_sender_agent r = mt_sender_agent request \<and> tr_receiver_agent r = mt_receiver_agent request \<and>
     tr_source_root r = mt_source_root request \<and> tr_destination_root r = mt_destination_root request \<and>
     tr_update_existing r = mt_update_existing request \<and> tr_worker_count r = mt_worker_count request \<and>
     tr_calibration_mib r = mt_calibration_mib request"

definition request_representable :: "ManagedTransferRequest \<Rightarrow> bool" where
  "request_representable request \<longleftrightarrow>
     is_text (mt_source_root request) \<and> is_text (mt_destination_root request) \<and>
     without_flowinfo (mt_receiver_agent request) = mt_receiver_agent request"

lemma jobs_run:
  assumes "receiving (tr_receiver_agent r) rjob w" "sending (tr_sender_agent r) sjob w" "tr_sender_agent r \<noteq> tr_receiver_agent r"
    and "pj_job_id rjob = tr_receiver_job_id r" "sj_job_id sjob = tr_sender_job_id r"
    and "sj_receiver_address sjob = tr_receiver_payload r" "tr_receiver_payload r = payload_endpoint (tr_receiver_agent r) (pj_transfer_port rjob)"
    and "sj_source_root sjob = tr_source_root r" "sj_worker_count sjob = tr_worker_count r" "sj_calibration_mib sjob = tr_calibration_mib r"
    and "pj_destination_root rjob = tr_destination_root r" "pj_update_existing rjob = tr_update_existing r"
  shows "agents_run r w"
proof -
  obtain gr qr where "process_at w (tr_receiver_agent r) = Some gr"
    "active_receive (registry_inner gr) = Some \<lparr>ar_job = rjob, ar_progress = qr\<rparr>"
    using assms(1) by (auto simp: receiving_def)
  moreover obtain gs qs where "process_at w (tr_sender_agent r) = Some gs"
    "active_send (registry_inner gs) = Some \<lparr>as_job = sjob, as_progress = qs\<rparr>" "active_receive (registry_inner gs) = None"
    using assms(2) by (auto simp: sending_def)
  ultimately show ?thesis
    using assms(3-) by (auto simp: agents_run_def running_transfer_def registry_snapshot_def build_active_snapshot_def)
qed

lemma network_transfer_starts:
  assumes "start_transfer_with (\<lambda>a d u. prepare_receive_configured r1 a d u resume)
      (\<lambda>a r s n c p. start_send_with_stream_count_and_desktop_layout r2 a r s n c forced p) (cancel_job r3) request preserve w = (Inr r, w')"
    and "request_representable request"
  shows "agents_run r w' \<and> record_of request r"
proof -
  have q: "is_text (mt_source_root request)" "is_text (mt_destination_root request)"
    "\<And>port. without_flowinfo (payload_endpoint (mt_receiver_agent request) port) = payload_endpoint (mt_receiver_agent request) port"
    using assms(2) payload_endpoint_text by (simp_all add: request_representable_def)
  show ?thesis
  proof (rule net_agents.transfer_starts [OF assms(1) q], goal_cases)
    case (1 rjob sjob)
    have "agents_run r w'" by (rule jobs_run [of r rjob w' sjob]) (insert 1, simp_all only: ManagedTransferRecord.simps not_False_eq_True)
    then show ?case using 1(5) by (simp only: record_of_def ManagedTransferRecord.simps)
  qed
qed

text \<open>
  C20. When starting or resuming a managed transfer succeeds, whatever connections failed or answers were lost on
  the way, both agents run the transfer of the returned record: the receiver process listens for the destination of
  the request, the sender process sends the requested folder with the requested settings to exactly that listener,
  and a manager that later reads both agents' snapshots reconstructs the same record.
\<close>

theorem started_transfer_runs:
  assumes "start_transfer_with_desktop_layout rids request preserve w = (Inr r, w') \<or>
      resume_transfer_with_desktop_layout rids request streams preserve w = (Inr r, w')"
    and "request_representable request"
  shows "record_of request r \<and> agents_run r w' \<and>
    (\<exists>gs gr. process_at w' (mt_sender_agent request) = Some gs \<and> process_at w' (mt_receiver_agent request) = Some gr \<and>
       reconstruct_active_transfer (mt_sender_agent request) (mt_receiver_agent request) (registry_snapshot gs) (registry_snapshot gr) = Inr r)"
proof -
  obtain r1 r2 r3 where rids: "rids = (r1, r2, r3)" by (cases rids)
  have "agents_run r w' \<and> record_of request r"
    using assms(1)
  proof
    assume "resume_transfer_with_desktop_layout rids request streams preserve w = (Inr r, w')"
    moreover from this obtain x where "validate_matrix_stream_count streams = Inr x"
      by (auto simp: resume_transfer_with_desktop_layout_def split: sum.splits)
    ultimately show ?thesis using network_transfer_starts [OF _ assms(2)] by (simp add: rids resume_transfer_eq)
  qed (simp add: rids start_transfer_eq network_transfer_starts [OF _ assms(2)])
  moreover from this have "tr_sender_agent r = mt_sender_agent request" "tr_receiver_agent r = mt_receiver_agent request"
    by (simp_all add: record_of_def)
  ultimately show ?thesis unfolding agents_run_def by (metis reconstruct_iff)
qed

text \<open>
  C21. On a network without faults a managed transfer that cannot be started leaves nothing running: if the sender
  refuses or cannot be reached after the receiver was prepared, the receiver's job is cancelled, and every agent
  has exactly the active job it had before.
\<close>

theorem failed_start_rolls_back:
  assumes "start_transfer_with_desktop_layout rids request preserve w = (Inl e, w') \<or>
      resume_transfer_with_desktop_layout rids request streams preserve w = (Inl e, w')"
    and "request_representable request" "calm w"
  shows "active_jobs w' = active_jobs w"
proof -
  obtain r1 r2 r3 where rids: "rids = (r1, r2, r3)" by (cases rids)
  have q: "is_text (mt_source_root request)" "is_text (mt_destination_root request)"
    "\<And>port. without_flowinfo (payload_endpoint (mt_receiver_agent request) port) = payload_endpoint (mt_receiver_agent request) port"
    using assms(2) payload_endpoint_text by (simp_all add: request_representable_def)
  from assms(1) show ?thesis
  proof
    assume resume: "resume_transfer_with_desktop_layout rids request streams preserve w = (Inl e, w')"
    show ?thesis
    proof (cases "validate_matrix_stream_count streams")
      case (Inl e')
      then show ?thesis using resume by (simp add: resume_transfer_with_desktop_layout_def)
    next
      case (Inr x)
      then show ?thesis using net_agents.transfer_fails [OF _ assms(3) q] resume by (simp add: rids resume_transfer_eq)
    qed
  qed (use net_agents.transfer_fails [OF _ assms(3) q] in \<open>simp add: rids start_transfer_eq\<close>)
qed

text \<open>A request the agent cannot read ends its process, and with it every job.\<close>

lemma malformed_request_stops_agent:
  assumes "net_faults w = []" "net_route w endpoint = Some h" "host_registry (net_hosts w h) = Some g" "read_frame stream = Inl e"
  shows "process_at (snd (connect_and_send endpoint stream w)) endpoint = None"
  using assms by (simp add: connect_and_send_def serve_one_def handle_client_def process_at_def)

section \<open>Two hosts\<close>

definition sample_host :: "AgentInstanceId \<Rightarrow> JobEnvironment \<Rightarrow> agent_host" where
  "sample_host i env =
     \<lparr>host_env = \<lparr>env_jobs = env, env_drive_mask = 4, env_read_dir = (\<lambda>_. Inr []), env_lowercase = id, env_is_desktop = (\<lambda>_. Inr False),
        env_error_text = (\<lambda>_. [])\<rparr>,
      host_server = \<lparr>server_receiver_bind = V4 0 0, server_hostname = ustr ''h'', server_capabilities = SEND_RECEIVE_DESKTOP_LAYOUT\<rparr>,
      host_registry = Some (ManagementJobRegistry_new i)\<rparr>"

text \<open>The sender is host 1, reached at address 1; on the second network it has no folder to send.\<close>

definition sample_network :: "JobEnvironment \<Rightarrow> network" where
  "sample_network env =
     \<lparr>net_route = (\<lambda>a. if a = V4 1 7341 then Some 1 else if a = V4 2 7341 then Some 2 else None),
      net_hosts = (\<lambda>h. if h = 1 then sample_host 11 env else sample_host 22 sample_env), net_faults = []\<rparr>"

definition sample_request :: ManagedTransferRequest where
  "sample_request = \<lparr>mt_sender_agent = V4 1 7341, mt_receiver_agent = V4 2 7341, mt_source_root = ustr ''C:/'', mt_destination_root = ustr ''D:/in'',
     mt_update_existing = True, mt_worker_count = 2, mt_calibration_mib = 8\<rparr>"

lemma sample_calm: "calm (sample_network env)"
  by (simp add: calm_def sample_network_def sample_host_def)

lemma sample_request_representable: "request_representable sample_request"
  by (simp add: request_representable_def sample_request_def is_text_def is_scalar_def)

definition sample_start :: "JobEnvironment \<Rightarrow> ManagedTransferRecord io_result \<times> network" where
  "sample_start env = start_transfer_with_desktop_layout (1, 2, 3) sample_request False (sample_network env)"

abbreviation sample_prepared :: PreparedReceiveJob where
  "sample_prepared \<equiv> \<lparr>pj_job_id = 1, pj_transfer_port = 7001, pj_destination_root = ustr ''D:/in'', pj_update_existing = True\<rparr>"

lemma sample_prepare_call:
  "\<exists>g w'. prepare_receive_configured rid (V4 2 7341) (ustr ''D:/in'') True False (sample_network env) = (Inr sample_prepared, w') \<and>
     w' = set_registry 2 (Some g) (sample_network env)"
proof -
  let ?w = "sample_network env"
  have utf: "is_text (ustr ''D:/in'')" by (simp add: is_text_def is_scalar_def)
  obtain p where p: "encode_prepare_request_with_resume (ustr ''D:/in'') True False = Inr p"
    using sample_destination by (simp add: encode_prepare_request_with_resume_def word_try_from_def str_len_def utf8_char_len_def)
  have hp: "net_route ?w (V4 2 7341) = Some 2" "host_registry (net_hosts ?w 2) = Some (ManagementJobRegistry_new 22)"
    by (simp_all add: sample_network_def sample_host_def)
  obtain g where g: "prepare_receive_on_configured (env_jobs (host_env (net_hosts ?w 2))) (ustr ''D:/in'') True
      (server_receiver_bind (host_server (net_hosts ?w 2))) False (ManagementJobRegistry_new 22) = (Inr sample_prepared, g)"
    using sample_destination
    by (simp add: Let_def sample_network_def sample_host_def prepare_receive_on_configured_def sample_env_def ManagementJobRegistry_new_def check_idle_def open_receiver_def
        fetch_add_job_id_def new_counter_def activate_receive_def spawn_receiver_def registry_active_job_id_def)
  have "receive_job_ok sample_prepared" using sample_destination by (simp add: receive_job_ok_def)
  then obtain x where x: "encode_prepared_response sample_prepared = Inr x" using encode_prepared_response_ok by blast
  have "handle_prepare (host_env (net_hosts ?w 2)) (host_server (net_hosts ?w 2)) p (ManagementJobRegistry_new 22) = (Inr x, g)"
    unfolding handle_prepare_eq [OF p utf] g using x by simp
  from prepare_call.call_reaches [OF sample_calm utf p hp this] show ?thesis
    using prepared_response_codec [OF x] utf by (auto simp: prepare_receive_eq)
qed

definition sample_send :: StartSendRequest where
  "sample_send = \<lparr>sq_receiver_address = V4 2 7001, sq_source_root = ustr ''C:/'', sq_worker_count = 2, sq_calibration_mib = 8,
     sq_forced_streams = None, sq_preserve_desktop = False\<rparr>"

lemma sample_send_wf: "send_request_wf sample_send"
  by (simp add: sample_send_def send_request_wf_def MAX_WORKERS_def str_len_def utf8_char_len_def MAX_SOURCE_PATH_BYTES_def
      path_separator_def ascii_alphabetic_def)

lemma sample_start_request:
  obtains p where "encode_start_send_request_with_stream_count_and_desktop_layout (V4 2 7001) (ustr ''C:/'') 2 8 None False = Inr p"
  using that encode_start_send_wf [of sample_send] sample_send_wf by (auto simp: sample_send_def)

lemma sample_send_valid:
  "validate_send_parameters (V4 2 7001) (ustr ''C:/'') 2 8 = Inr ()" "validate_forced_data_stream_count None = Inr ()"
  "\<exists>b. bytes_from_mib 8 = Inr b"
proof -
  show valid: "validate_send_parameters (V4 2 7001) (ustr ''C:/'') 2 8 = Inr ()" "validate_forced_data_stream_count None = Inr ()"
    using send_parameters_wf [of sample_send] sample_send_wf unfolding sample_send_def StartSendRequest.simps by blast+
  show "\<exists>b. bytes_from_mib 8 = Inr b" using valid(1) unfolding validate_send_parameters_Inr by blast
qed

lemma sample_start_call:
  fixes env g0
  defines "w \<equiv> set_registry 2 g0 (sample_network env)"
  assumes "start_send_with_desktop_layout env (V4 2 7001) (ustr ''C:/'') 2 8 None False (ManagementJobRegistry_new 11) = (r, g)"
  shows "start_send_with_stream_count_and_desktop_layout rid (V4 1 7341) (V4 2 7001) (ustr ''C:/'') 2 8 None False w =
    (case r of Inr job \<Rightarrow> Inr job | Inl _ \<Rightarrow> Inl OtherError, set_registry 1 (Some g) w)"
proof -
  have utf: "is_text (ustr ''C:/'')" "without_flowinfo (V4 2 7001) = V4 2 7001" by (simp_all add: is_text_def is_scalar_def)
  obtain p where p: "encode_start_send_request_with_stream_count_and_desktop_layout (V4 2 7001) (ustr ''C:/'') 2 8 None False = Inr p"
    using sample_start_request by blast
  have hp: "net_route w (V4 1 7341) = Some 1" "host_registry (net_hosts w 1) = Some (ManagementJobRegistry_new 11)" "calm w"
    "env_jobs (host_env (net_hosts w 1)) = env"
    by (simp_all add: w_def sample_calm) (simp_all add: sample_network_def sample_host_def)
  have handled: "handle_start_send (host_env (net_hosts w 1)) p (ManagementJobRegistry_new 11) = (ebind r encode_started_send_response, g)"
    unfolding handle_start_send_eq [OF p utf] using assms(2) hp(4) by simp
  have "case r of Inr job \<Rightarrow> \<exists>x. encode_started_send_response job = Inr x \<and> decode_started_send_response x = Inr job | Inl _ \<Rightarrow> True"
    using start_send_cases [OF assms(2)] encode_started_response_ok started_send_response_codec utf by (fastforce split: sum.split)
  then show ?thesis
    using start_call.call_reaches [OF hp(3) _ p hp(1,2) handled, of rid] utf
    by (auto simp: start_send_with_stream_count_and_desktop_layout_def split: sum.splits)
qed

lemma sample_sends:
  assumes "os_is_dir env = (\<lambda>_. Inr d)" "os_spawn env = Inr ()"
  shows "\<exists>r g. start_send_with_desktop_layout env (V4 2 7001) (ustr ''C:/'') 2 8 None False (ManagementJobRegistry_new 11) = (r, g) \<and>
    (if d then \<exists>job. r = Inr job else r = Inl InvalidInput)"
proof -
  obtain b where "bytes_from_mib 8 = Inr b" using sample_send_valid(3) by blast
  then show ?thesis using assms
    unfolding start_send_with_desktop_layout_def sample_send_valid(1,2)
    by (cases d) (simp_all add: Let_def ManagementJobRegistry_new_def check_idle_def open_source_def fetch_add_job_id_def new_counter_def activate_send_def
        spawn_sender_def registry_active_job_id_def)
qed

theorem started_transfer_runs_witness:
  "\<exists>r w'. sample_start sample_env = (Inr r, w') \<and> agents_run r w' \<and> record_of sample_request r"
proof -
  obtain w1 g1 where p: "prepare_receive_configured 1 (V4 2 7341) (ustr ''D:/in'') True False (sample_network sample_env) = (Inr sample_prepared, w1)"
    and w1: "w1 = set_registry 2 (Some g1) (sample_network sample_env)" using sample_prepare_call by blast
  obtain job g where "start_send_with_desktop_layout sample_env (V4 2 7001) (ustr ''C:/'') 2 8 None False (ManagementJobRegistry_new 11) = (Inr job, g)"
    using sample_sends [of sample_env True] by (auto simp: sample_env_def)
  note s = sample_start_call [OF this, of 2 "Some g1", folded w1]
  obtain r w' where "sample_start sample_env = (Inr r, w')"
    using p s by (simp add: sample_start_def sample_request_def start_transfer_eq start_transfer_with_def)
  then show ?thesis
    using started_transfer_runs [OF disjI1 sample_request_representable, of "(1, 2, 3)" False "sample_network sample_env" r w'] by (simp add: sample_start_def)
qed

theorem failed_start_rolls_back_witness:
  "\<exists>e w'. sample_start (sample_env\<lparr>os_is_dir := (\<lambda>_. Inr False)\<rparr>) = (Inl e, w') \<and>
     active_jobs w' = active_jobs (sample_network (sample_env\<lparr>os_is_dir := (\<lambda>_. Inr False)\<rparr>))"
proof -
  let ?env = "sample_env\<lparr>os_is_dir := (\<lambda>_. Inr False)\<rparr>"
  obtain w1 g1 where p: "prepare_receive_configured 1 (V4 2 7341) (ustr ''D:/in'') True False (sample_network ?env) = (Inr sample_prepared, w1)"
    and w1: "w1 = set_registry 2 (Some g1) (sample_network ?env)" using sample_prepare_call by blast
  obtain e g where "start_send_with_desktop_layout ?env (V4 2 7001) (ustr ''C:/'') 2 8 None False (ManagementJobRegistry_new 11) = (Inl e, g)"
    using sample_sends [of ?env False] by (auto simp: sample_env_def)
  note s = sample_start_call [OF this, of 2 "Some g1", folded w1]
  obtain e' w' where "rollback_receiver (cancel_job 3) (V4 2 7341) 1 OtherError (set_registry 1 (Some g) w1) = (e', w')"
    by fastforce
  then have "sample_start ?env = (Inl e', w')"
    using p s by (simp add: sample_start_def sample_request_def start_transfer_eq start_transfer_with_def)
  then show ?thesis
    using failed_start_rolls_back [OF disjI1 sample_request_representable sample_calm, of "(1, 2, 3)" False ?env e' w'] by (simp add: sample_start_def)
qed

end
