(* ===== verification/Release_Plan.thy ===== *)
theory Release_Plan
  imports Job_Messages Remote_Directory
begin

text \<open>
  What the updater decides before it touches a file (\<^verbatim>\<open>release_update.rs\<close>): versions, the release
  asset that belongs to this program, the plan of an installation with its paths, and the two files through which
  the old program, the update helper and the new program talk: the handoff plan and the startup marker.  Windows
  paths are modelled as the standard library treats them.  The asset that is selected is the official one, and both
  files are read back exactly.
\<close>

unbundle bit_operations_syntax

section \<open>Windows paths\<close>

text \<open>
  \<^verbatim>\<open>std::path\<close> on Windows.  A path is the list of its UTF-16 units; it may begin with a prefix, after which
  its components are the names between separators.  Paths are compared by prefix, root and components; a drive
  letter is compared without its case.
\<close>

datatype path_prefix =
    Verbatim path
  | VerbatimUNC path path
  | VerbatimDisk u16
  | DeviceNS path
  | UNC path path
  | Disk u16

datatype win_component = PrefixC path_prefix | RootC | CurC | ParentC | NameC path

definition next_component :: "(u16 \<Rightarrow> bool) \<Rightarrow> path \<Rightarrow> path \<times> path" where
  "next_component sep p = (takeWhile (\<lambda>u. \<not> sep u) p, drop 1 (dropWhile (\<lambda>u. \<not> sep u) p))"

definition ascii_upper_unit :: "u16 \<Rightarrow> u16" where
  "ascii_upper_unit u = (if 97 \<le> u \<and> u \<le> 122 then u - 32 else u)"

definition parse_drive :: "path \<Rightarrow> u16 option" where
  "parse_drive p =
     (case p of d # c # _ \<Rightarrow> if c = 0x3A \<and> ascii_alphabetic (unat d) then Some (ascii_upper_unit d) else None | _ \<Rightarrow> None)"

definition parse_drive_exact :: "path \<Rightarrow> u16 option" where
  "parse_drive_exact p = (case drop 2 p of [] \<Rightarrow> parse_drive p | u # _ \<Rightarrow> if is_separator u then parse_drive p else None)"

abbreviation verbatim_separator :: "u16 \<Rightarrow> bool" where "verbatim_separator u \<equiv> u = backslash"

definition parse_verbatim :: "path \<Rightarrow> path_prefix" where
  "parse_verbatim p =
     (if take 3 p = [0x55, 0x4E, 0x43] \<and> (case drop 3 p of [] \<Rightarrow> False | u # _ \<Rightarrow> is_separator u) then
        (let (server, rest) = next_component verbatim_separator (drop 4 p) in
         VerbatimUNC server (fst (next_component verbatim_separator rest)))
      else (case parse_drive_exact p of
              Some drive \<Rightarrow> VerbatimDisk drive
            | None \<Rightarrow> Verbatim (fst (next_component verbatim_separator p))))"

definition parse_prefix :: "path \<Rightarrow> path_prefix option" where
  "parse_prefix p =
     (case p of a # b # rest \<Rightarrow>
        if is_separator a \<and> is_separator b then
          if take 4 p = [backslash, backslash, 0x3F, backslash] then Some (parse_verbatim (drop 4 p))
          else if (case rest of dot # s # _ \<Rightarrow> dot = full_stop \<and> is_separator s | _ \<Rightarrow> False)
          then Some (DeviceNS (fst (next_component is_separator (drop 4 p))))
          else (let (server, more) = next_component is_separator rest; share = fst (next_component is_separator more) in
                if server \<noteq> [] \<and> share \<noteq> [] then Some (UNC server share) else None)
        else map_option Disk (parse_drive p)
      | _ \<Rightarrow> map_option Disk (parse_drive p))"

fun prefix_length :: "path_prefix option \<Rightarrow> nat" where
  "prefix_length None = 0"
| "prefix_length (Some (Verbatim x)) = 4 + length x"
| "prefix_length (Some (VerbatimUNC x y)) = 8 + length x + (if y = [] then 0 else 1 + length y)"
| "prefix_length (Some (VerbatimDisk _)) = 6"
| "prefix_length (Some (DeviceNS x)) = 4 + length x"
| "prefix_length (Some (UNC x y)) = 2 + length x + (if y = [] then 0 else 1 + length y)"
| "prefix_length (Some (Disk _)) = 2"

fun prefix_verbatim :: "path_prefix option \<Rightarrow> bool" where
  "prefix_verbatim (Some (Verbatim _)) = True"
| "prefix_verbatim (Some (VerbatimUNC _ _)) = True"
| "prefix_verbatim (Some (VerbatimDisk _)) = True"
| "prefix_verbatim _ = False"

fun has_implicit_root :: "path_prefix option \<Rightarrow> bool" where
  "has_implicit_root None = False"
| "has_implicit_root (Some (Disk _)) = False"
| "has_implicit_root _ = True"

definition path_sep :: "path \<Rightarrow> u16 \<Rightarrow> bool" where
  "path_sep p = (if prefix_verbatim (parse_prefix p) then verbatim_separator else is_separator)"

definition after_prefix :: "path \<Rightarrow> path" where
  "after_prefix p = drop (prefix_length (parse_prefix p)) p"

definition has_physical_root :: "path \<Rightarrow> bool" where
  "has_physical_root p = (case after_prefix p of [] \<Rightarrow> False | u # _ \<Rightarrow> path_sep p u)"

definition path_has_root :: "path \<Rightarrow> bool" where
  "path_has_root p \<longleftrightarrow> has_physical_root p \<or> has_implicit_root (parse_prefix p)"

definition leading_dot :: "path \<Rightarrow> bool" where
  "leading_dot p \<longleftrightarrow> \<not> path_has_root p \<and>
     (case after_prefix p of [] \<Rightarrow> False | u # rest \<Rightarrow> u = full_stop \<and> (case rest of [] \<Rightarrow> True | v # _ \<Rightarrow> path_sep p v))"

text \<open>The units before the first name: the prefix, the root and a leading dot.\<close>

definition before_body :: "path \<Rightarrow> nat" where
  "before_body p = prefix_length (parse_prefix p) + (if has_physical_root p then 1 else 0) + (if leading_dot p then 1 else 0)"

definition single_component :: "bool \<Rightarrow> path \<Rightarrow> win_component option" where
  "single_component verbatim name =
     (if name = [] then None
      else if name = [full_stop] then (if verbatim then Some CurC else None)
      else if name = [full_stop, full_stop] then Some ParentC
      else Some (NameC name))"

definition win_components :: "path \<Rightarrow> win_component list" where
  "win_components p =
     (case parse_prefix p of Some x \<Rightarrow> [PrefixC x] | None \<Rightarrow> []) @
     (if has_physical_root p \<or> has_implicit_root (parse_prefix p) \<and> \<not> prefix_verbatim (parse_prefix p) then [RootC]
      else if parse_prefix p = None \<and> leading_dot p then [CurC] else []) @
     List.map_filter (single_component (prefix_verbatim (parse_prefix p))) (split_units (path_sep p) (drop (before_body p) p))"

definition path_eq :: "path \<Rightarrow> path \<Rightarrow> bool" where
  "path_eq p q \<longleftrightarrow> win_components p = win_components q"

definition absolute_path :: "path \<Rightarrow> bool" where
  "absolute_path p \<longleftrightarrow> parse_prefix p \<noteq> None \<and> path_has_root p"

text \<open>The last name of the units after the root, the separator before it, and what is left without both.\<close>

definition last_name :: "(u16 \<Rightarrow> bool) \<Rightarrow> path \<Rightarrow> path" where
  "last_name sep body = rev (takeWhile (\<lambda>u. \<not> sep u) (rev body))"

definition without_last :: "(u16 \<Rightarrow> bool) \<Rightarrow> path \<Rightarrow> path" where
  "without_last sep body = take (length body - length (last_name sep body) - 1) body"

function trim_body :: "(u16 \<Rightarrow> bool) \<Rightarrow> bool \<Rightarrow> path \<Rightarrow> path" where
  "trim_body sep verbatim body =
     (if body = [] then []
      else if single_component verbatim (last_name sep body) = None then trim_body sep verbatim (without_last sep body)
      else body)"
  by pat_completeness auto
termination
  by (relation "measure (\<lambda>(_, _, body). length body)") (auto simp: without_last_def)

declare trim_body.simps [simp del]

definition path_parent :: "path \<Rightarrow> path option" where
  "path_parent p =
     (let verbatim = prefix_verbatim (parse_prefix p);
          body = trim_body (path_sep p) verbatim (drop (before_body p) p) in
      if body = [] then (if parse_prefix p = None \<and> leading_dot p then Some [] else None)
      else Some (take (before_body p) p @ trim_body (path_sep p) verbatim (without_last (path_sep p) body)))"

definition file_name :: "path \<Rightarrow> path option" where
  "file_name p =
     (case rev (win_components p) of NameC name # _ \<Rightarrow> Some name | _ \<Rightarrow> None)"

fun component_text :: "path \<Rightarrow> win_component \<Rightarrow> path" where
  "component_text p (PrefixC x) = take (prefix_length (Some x)) p"
| "component_text p RootC = [backslash]"
| "component_text p CurC = [full_stop]"
| "component_text p ParentC = [full_stop, full_stop]"
| "component_text p (NameC name) = name"

text \<open>\<^verbatim>\<open>PathBuf::push\<close>: an absolute path replaces the first, a verbatim path is rebuilt from its components.\<close>

fun push_component :: "win_component list \<Rightarrow> win_component \<Rightarrow> win_component list" where
  "push_component buf RootC = take 1 buf @ [RootC]"
| "push_component buf CurC = buf"
| "push_component buf ParentC = (case rev buf of NameC _ # _ \<Rightarrow> butlast buf | _ \<Rightarrow> buf)"
| "push_component buf c = buf @ [c]"

fun render_components :: "path \<Rightarrow> bool \<Rightarrow> win_component list \<Rightarrow> path" where
  "render_components p need_sep [] = []"
| "render_components p need_sep (c # cs) =
     (if need_sep \<and> c \<noteq> RootC then [backslash] else []) @ component_text p c @
     render_components p
       (case c of RootC \<Rightarrow> False | PrefixC x \<Rightarrow> (case x of Disk _ \<Rightarrow> False | _ \<Rightarrow> prefix_length (Some x) > 0) | _ \<Rightarrow> True) cs"

definition path_join :: "path \<Rightarrow> path \<Rightarrow> path" where
  "path_join p q =
     (let drive_only = (case parse_prefix p of Some (Disk _) \<Rightarrow> length p = 2 | _ \<Rightarrow> False);
          need_sep = p \<noteq> [] \<and> \<not> is_separator (last p) \<and> \<not> drive_only in
      if absolute_path q \<or> parse_prefix q \<noteq> None then q
      else if prefix_verbatim (parse_prefix p) \<and> q \<noteq> [] then
        render_components p False (foldl push_component (win_components p) (win_components q))
      else if path_has_root q then take (prefix_length (parse_prefix p)) p @ q
      else p @ (if need_sep then [backslash] else []) @ q)"

text \<open>\<^verbatim>\<open>str::encode_utf16\<close>, and \<^verbatim>\<open>OsStr::to_str\<close>, which has no result for an unpaired surrogate.\<close>

definition encode_utf16_char :: "nat \<Rightarrow> u16 list" where
  "encode_utf16_char c =
     (if c < 0x10000 then [of_nat c]
      else [of_nat (0xD800 + (c - 0x10000) div 0x400), of_nat (0xDC00 + (c - 0x10000) mod 0x400)])"

definition encode_utf16 :: "ustring \<Rightarrow> path" where
  "encode_utf16 s = concat (map encode_utf16_char s)"

definition os_to_str :: "path \<Rightarrow> ustring option" where
  "os_to_str name = (let s = to_string_lossy name in if encode_utf16 s = name then Some s else None)"

abbreviation wide :: "string \<Rightarrow> path" where "wide s \<equiv> encode_utf16 (ustr s)"

section \<open>Releases\<close>

definition RELEASE_PAGE_PREFIX :: ustring where
  "RELEASE_PAGE_PREFIX = ustr ''https://github.com/Nemeth-Tamas/networkcopy-speed/releases/''"
definition RELEASE_DOWNLOAD_PREFIX :: ustring where
  "RELEASE_DOWNLOAD_PREFIX = ustr ''https://github.com/Nemeth-Tamas/networkcopy-speed/releases/download/''"
definition SHA256_DIGEST_PREFIX :: ustring where "SHA256_DIGEST_PREFIX = ustr ''sha256:''"
definition SHA256_HEX_LENGTH :: usize where "SHA256_HEX_LENGTH = 64"
definition UPDATE_DATA_DIRECTORY :: path where "UPDATE_DATA_DIRECTORY = wide ''NetworkCopy Speed Edition''"
definition UPDATE_STAGING_DIRECTORY :: path where "UPDATE_STAGING_DIRECTORY = wide ''Updates''"
definition UPDATE_BACKUP_FILE :: path where "UPDATE_BACKUP_FILE = wide ''previous.exe''"
definition UPDATE_BACKUP_PARTIAL_FILE :: path where "UPDATE_BACKUP_PARTIAL_FILE = wide ''previous.exe.partial''"
definition UPDATE_INSTALL_CANDIDATE_SUFFIX :: path where "UPDATE_INSTALL_CANDIDATE_SUFFIX = wide ''.networkcopy-update.partial''"
definition UPDATE_ROLLBACK_CANDIDATE_SUFFIX :: path where "UPDATE_ROLLBACK_CANDIDATE_SUFFIX = wide ''.networkcopy-rollback.partial''"
definition UPDATE_HANDOFF_FILE :: path where "UPDATE_HANDOFF_FILE = wide ''handoff-plan.bin''"
definition UPDATE_STARTUP_MARKER_FILE :: path where "UPDATE_STARTUP_MARKER_FILE = wide ''startup-ok.marker''"
definition UPDATE_PARTIAL_SUFFIX :: path where "UPDATE_PARTIAL_SUFFIX = wide ''.partial''"

datatype ReleaseArtifactKind = Manager | Agent | Cli | GuiHungarian | GuiEnglish

fun artifact_label :: "ReleaseArtifactKind \<Rightarrow> ustring" where
  "artifact_label Manager = ustr ''Manager''"
| "artifact_label Agent = ustr ''Agent''"
| "artifact_label Cli = ustr ''CLI''"
| "artifact_label GuiHungarian = ustr ''GUI-HU''"
| "artifact_label GuiEnglish = ustr ''GUI-EN''"

fun storage_key :: "ReleaseArtifactKind \<Rightarrow> ustring" where
  "storage_key Manager = ustr ''manager''"
| "storage_key Agent = ustr ''agent''"
| "storage_key Cli = ustr ''cli''"
| "storage_key GuiHungarian = ustr ''gui-hu''"
| "storage_key GuiEnglish = ustr ''gui-en''"

record StableVersion =
  version_major :: u64
  version_minor :: u64
  version_patch :: u64

definition version_less :: "StableVersion \<Rightarrow> StableVersion \<Rightarrow> bool" where
  "version_less a b \<longleftrightarrow>
     version_major a < version_major b \<or> version_major a = version_major b \<and>
     (version_minor a < version_minor b \<or> version_minor a = version_minor b \<and> version_patch a < version_patch b)"

definition version_text :: "StableVersion \<Rightarrow> ustring" where
  "version_text v = ustr ''v'' @ display_nat (unat (version_major v)) @ ustr ''.'' @ display_nat (unat (version_minor v)) @ ustr ''.'' @
     display_nat (unat (version_patch v))"

definition expected_asset_names :: "ReleaseArtifactKind \<Rightarrow> StableVersion \<Rightarrow> ustring list" where
  "expected_asset_names k v =
     [ustr ''NetworkCopy-Speed-'' @ version_text v @ ustr ''-'' @ artifact_label k @ ustr ''-Windows-x64.exe'',
      ustr ''NetworkCopy-Speed-'' @ artifact_label k @ ustr ''-Windows-x64.exe'']"

fun split_text :: "(nat \<Rightarrow> bool) \<Rightarrow> ustring \<Rightarrow> ustring list" where
  "split_text sep [] = [[]]"
| "split_text sep (c # cs) =
     (if sep c then [] # split_text sep cs
      else (case split_text sep cs of [] \<Rightarrow> [[c]] | p # ps \<Rightarrow> (c # p) # ps))"

definition strip_text_prefix :: "ustring \<Rightarrow> ustring \<Rightarrow> ustring option" where
  "strip_text_prefix pre s = (if starts_with s pre then Some (drop (length pre) s) else None)"

definition strip_text_suffix :: "ustring \<Rightarrow> ustring \<Rightarrow> ustring option" where
  "strip_text_suffix suf s = map_option rev (strip_text_prefix (rev suf) (rev s))"

definition ascii_lower :: "nat \<Rightarrow> nat" where "ascii_lower c = (if 65 \<le> c \<and> c \<le> 90 then c + 32 else c)"

abbreviation to_ascii_lowercase :: "ustring \<Rightarrow> ustring" where "to_ascii_lowercase \<equiv> map ascii_lower"

definition parse_version_component :: "ustring option \<Rightarrow> u64 io_result" where
  "parse_version_component component =
     ebind (ok_or InvalidData component) (\<lambda>c. if c = [] then Inl InvalidData else ok_or InvalidData (parse_word c))"

fun nth_part :: "'a list \<Rightarrow> nat \<Rightarrow> 'a option" where
  "nth_part [] n = None"
| "nth_part (x # xs) 0 = Some x"
| "nth_part (x # xs) (Suc n) = nth_part xs n"

lemma nth_part_numeral [simp]: "nth_part (x # xs) (numeral k) = nth_part xs (pred_numeral k)"
  by (simp add: numeral_eq_Suc)

lemma nth_part_one [simp]: "nth_part (x # xs) 1 = nth_part xs 0"
  by simp

definition parse_stable_version :: "ustring \<Rightarrow> StableVersion io_result" where
  "parse_stable_version text =
     (let v = str_trim text;
          v = (case strip_text_prefix (ustr ''v'') v of Some r \<Rightarrow> r | None \<Rightarrow> v);
          core = hd (split_text (\<lambda>c. c = 45 \<or> c = 43) v);
          parts = split_text (\<lambda>c. c = 46) core in
      ebind (parse_version_component (nth_part parts 0)) (\<lambda>major.
      ebind (parse_version_component (nth_part parts 1)) (\<lambda>minor.
      ebind (parse_version_component (nth_part parts 2)) (\<lambda>patch.
      ebind (ensure (nth_part parts 3 = None) InvalidData) (\<lambda>_.
        Inr \<lparr>version_major = major, version_minor = minor, version_patch = patch\<rparr>)))))"

record ReleaseAssetInfo =
  asset_id :: u64
  asset_name :: ustring
  asset_state :: ustring
  asset_size :: u64
  asset_digest :: "ustring option"
  asset_url :: ustring

record ReleaseInfo =
  release_tag :: ustring
  release_name :: ustring
  release_url :: ustring
  release_assets :: "ReleaseAssetInfo list"

record ReleaseCheck =
  check_current :: ustring
  check_latest_release :: ReleaseInfo
  update_available :: bool

record GitHubReleaseResponse =
  gh_tag_name :: ustring
  gh_name :: "ustring option"
  gh_html_url :: ustring
  gh_assets :: "ReleaseAssetInfo list"

definition validate_release_url :: "ustring \<Rightarrow> unit io_result" where
  "validate_release_url url =
     ebind (ensure (0 \<notin> set url) InvalidData) (\<lambda>_. ensure (starts_with url RELEASE_PAGE_PREFIX) InvalidData)"

definition validate_asset_download_url :: "ustring \<Rightarrow> unit io_result" where
  "validate_asset_download_url url =
     ebind (ensure (0 \<notin> set url) InvalidData) (\<lambda>_. ensure (starts_with url RELEASE_DOWNLOAD_PREFIX) InvalidData)"

text \<open>The request and the JSON parser are third-party code: \<open>body\<close> is what the request gave.\<close>

definition check_latest :: "ustring io_result \<Rightarrow> (ustring \<Rightarrow> GitHubReleaseResponse io_result) \<Rightarrow> ustring \<Rightarrow> ReleaseCheck io_result" where
  "check_latest body parse_release_response current_version =
     ebind (parse_stable_version current_version) (\<lambda>current.
     ebind body (\<lambda>text.
     ebind (parse_release_response text) (\<lambda>response.
     ebind (validate_release_url (gh_html_url response)) (\<lambda>_.
     ebind (parse_stable_version (gh_tag_name response)) (\<lambda>latest.
     (let display_name = (case gh_name response of Some n \<Rightarrow> if str_trim n \<noteq> [] then n else gh_tag_name response
                          | None \<Rightarrow> gh_tag_name response) in
      Inr \<lparr>check_current = current_version,
           check_latest_release = \<lparr>release_tag = gh_tag_name response, release_name = display_name,
             release_url = gh_html_url response, release_assets = gh_assets response\<rparr>,
           update_available = version_less current latest\<rparr>))))))"

section \<open>The asset of an update\<close>

record SelectedReleaseAsset =
  sel_id :: u64
  sel_name :: ustring
  sel_size :: u64
  sel_sha256_hex :: ustring
  sel_url :: ustring

definition ascii_hexdigit :: "nat \<Rightarrow> bool" where
  "ascii_hexdigit c \<longleftrightarrow> 48 \<le> c \<and> c \<le> 57 \<or> 65 \<le> c \<and> c \<le> 70 \<or> 97 \<le> c \<and> c \<le> 102"

definition ascii_uppercase :: "nat \<Rightarrow> bool" where "ascii_uppercase c \<longleftrightarrow> 65 \<le> c \<and> c \<le> 90"

text \<open>The bytes of a string are tested; every byte of a character outside ASCII is above 127.\<close>

definition lower_hex_digest :: "ustring \<Rightarrow> bool" where
  "lower_hex_digest s \<longleftrightarrow>
     str_len s = SHA256_HEX_LENGTH \<and> (\<forall>b \<in> set (as_bytes s). ascii_hexdigit (unat b) \<and> \<not> ascii_uppercase (unat b))"

definition parse_sha256_digest :: "ustring \<Rightarrow> ustring io_result" where
  "parse_sha256_digest digest =
     ebind (ok_or InvalidData (strip_text_prefix SHA256_DIGEST_PREFIX digest)) (\<lambda>hex.
     ebind (ensure (str_len hex = SHA256_HEX_LENGTH \<and> (\<forall>b \<in> set (as_bytes hex). ascii_hexdigit (unat b))) InvalidData) (\<lambda>_.
       Inr (to_ascii_lowercase hex)))"

fun find_asset :: "ReleaseAssetInfo list \<Rightarrow> ustring list \<Rightarrow> ReleaseAssetInfo option io_result" where
  "find_asset assets [] = Inr None"
| "find_asset assets (expected # names) =
     (case filter (\<lambda>a. asset_name a = expected) assets of
        [] \<Rightarrow> find_asset assets names
      | [asset] \<Rightarrow> Inr (Some asset)
      | _ \<Rightarrow> Inl InvalidData)"

definition select_release_asset :: "ReleaseInfo \<Rightarrow> ReleaseArtifactKind \<Rightarrow> SelectedReleaseAsset io_result" where
  "select_release_asset release k =
     ebind (parse_stable_version (release_tag release)) (\<lambda>version.
     ebind (find_asset (release_assets release) (expected_asset_names k version)) (\<lambda>selected.
     ebind (ok_or NotFound selected) (\<lambda>asset.
     ebind (ensure (asset_id asset \<noteq> 0) InvalidData) (\<lambda>_.
     ebind (ensure (asset_state asset = ustr ''uploaded'') InvalidData) (\<lambda>_.
     ebind (ensure (asset_size asset \<noteq> 0) InvalidData) (\<lambda>_.
     ebind (validate_asset_download_url (asset_url asset)) (\<lambda>_.
     ebind (ok_or InvalidData (asset_digest asset)) (\<lambda>digest.
     ebind (parse_sha256_digest digest) (\<lambda>sha256_hex.
       Inr \<lparr>sel_id = asset_id asset, sel_name = asset_name asset, sel_size = asset_size asset,
            sel_sha256_hex = sha256_hex, sel_url = asset_url asset\<rparr>)))))))))"

definition is_strict_release_version :: "ustring \<Rightarrow> bool" where
  "is_strict_release_version text =
     (let parts = split_text (\<lambda>c. c = 46) text;
          valid = (\<lambda>c. c \<noteq> [] \<and> (\<forall>x \<in> set c. 48 \<le> x \<and> x \<le> 57) \<and> (parse_word c :: u64 option) \<noteq> None) in
      length parts = 3 \<and> list_all valid parts)"

definition is_official_release_file_name :: "path \<Rightarrow> ReleaseArtifactKind \<Rightarrow> bool" where
  "is_official_release_file_name name k =
     (case os_to_str name of None \<Rightarrow> False
      | Some s \<Rightarrow>
          (let lowercase = to_ascii_lowercase s;
               unversioned = ustr ''NetworkCopy-Speed-'' @ artifact_label k @ ustr ''-Windows-x64.exe'' in
           lowercase = to_ascii_lowercase unversioned \<or>
           (case Option.bind (strip_text_prefix (ustr ''networkcopy-speed-v'') lowercase)
                   (strip_text_suffix (ustr ''-'' @ to_ascii_lowercase (artifact_label k) @ ustr ''-windows-x64.exe'')) of
              None \<Rightarrow> False | Some version \<Rightarrow> is_strict_release_version version)))"

section \<open>The plan of an update\<close>

datatype UpdateInstallNaming = PublishedAssetName | PreserveCurrentName

record UpdateInstallPlan =
  up_kind :: ReleaseArtifactKind
  up_asset :: SelectedReleaseAsset
  up_naming :: UpdateInstallNaming
  up_current :: path
  up_install :: path
  up_staging :: path
  up_staged :: path
  up_backup :: path
  up_handoff :: path
  up_marker :: path

definition build_update_install_plan :: "path \<Rightarrow> path \<Rightarrow> ReleaseInfo \<Rightarrow> ReleaseArtifactKind \<Rightarrow> UpdateInstallPlan io_result" where
  "build_update_install_plan current local_app_data release k =
     ebind (ensure (absolute_path current) InvalidInput) (\<lambda>_.
     ebind (ensure (absolute_path local_app_data) InvalidInput) (\<lambda>_.
     ebind (ok_or InvalidInput (path_parent current)) (\<lambda>current_parent.
     ebind (ok_or InvalidInput (file_name current)) (\<lambda>current_name.
     ebind (select_release_asset release k) (\<lambda>asset.
     ebind (parse_stable_version (release_tag release)) (\<lambda>version.
     (let staging = path_join (path_join (path_join (path_join local_app_data UPDATE_DATA_DIRECTORY) UPDATE_STAGING_DIRECTORY)
            (encode_utf16 (storage_key k))) (encode_utf16 (version_text version));
          naming = (if is_official_release_file_name current_name k then PublishedAssetName else PreserveCurrentName);
          install = (case naming of PublishedAssetName \<Rightarrow> path_join current_parent (encode_utf16 (sel_name asset))
                     | PreserveCurrentName \<Rightarrow> current) in
      Inr \<lparr>up_kind = k, up_asset = asset, up_naming = naming, up_current = current, up_install = install, up_staging = staging,
           up_staged = path_join staging (encode_utf16 (sel_name asset)), up_backup = path_join staging UPDATE_BACKUP_FILE,
           up_handoff = path_join staging UPDATE_HANDOFF_FILE, up_marker = path_join staging UPDATE_STARTUP_MARKER_FILE\<rparr>)))))))"

definition validate_update_staging_plan :: "UpdateInstallPlan \<Rightarrow> unit io_result" where
  "validate_update_staging_plan plan =
     ebind (ensure (absolute_path (up_staging plan)) InvalidInput) (\<lambda>_.
     ebind (ensure (sel_size (up_asset plan) \<noteq> 0) InvalidInput) (\<lambda>_.
     ebind (ensure (lower_hex_digest (sel_sha256_hex (up_asset plan))) InvalidInput) (\<lambda>_.
     ebind (validate_asset_download_url (sel_url (up_asset plan))) (\<lambda>_.
     (let name = encode_utf16 (sel_name (up_asset plan)) in
     ebind (ensure (length (win_components name) = 1 \<and> file_name name = Some name) InvalidInput) (\<lambda>_.
     ebind (ensure (path_eq (up_staged plan) (path_join (up_staging plan) name)) InvalidInput) (\<lambda>_.
     ebind (ensure (path_eq (up_backup plan) (path_join (up_staging plan) UPDATE_BACKUP_FILE)) InvalidInput) (\<lambda>_.
     ebind (ensure (path_eq (up_handoff plan) (path_join (up_staging plan) UPDATE_HANDOFF_FILE)) InvalidInput) (\<lambda>_.
       ensure (path_eq (up_marker plan) (path_join (up_staging plan) UPDATE_STARTUP_MARKER_FILE)) InvalidInput)))))))))"

section \<open>The handoff file\<close>

definition UPDATE_HANDOFF_MAGIC :: "byte list" where "UPDATE_HANDOFF_MAGIC = [0x4E, 0x43, 0x48, 0x31]"
definition UPDATE_HANDOFF_VERSION :: u16 where "UPDATE_HANDOFF_VERSION = 1"
definition UPDATE_HANDOFF_MAX_BYTES :: usize where "UPDATE_HANDOFF_MAX_BYTES = 1024 * 1024"
definition UPDATE_HANDOFF_MAX_PATH_UTF16_UNITS :: usize where "UPDATE_HANDOFF_MAX_PATH_UTF16_UNITS = 32767"
definition UPDATE_HANDOFF_DIGEST_BYTES :: usize where "UPDATE_HANDOFF_DIGEST_BYTES = 32"

record VerifiedStagedUpdate =
  staged_executable :: path
  staged_size :: u64
  staged_sha256_hex :: ustring

record UpdateHandoffPlan =
  ho_parent :: u32
  ho_kind :: ReleaseArtifactKind
  ho_naming :: UpdateInstallNaming
  ho_current :: path
  ho_install :: path
  ho_staging :: path
  ho_staged :: path
  ho_backup :: path
  ho_handoff :: path
  ho_marker :: path
  ho_size :: u64
  ho_sha256_hex :: ustring

definition encode_lower_hex :: "byte list \<Rightarrow> ustring" where
  "encode_lower_hex bs = concat (map (\<lambda>b. [digit_char False (unat b div 16), digit_char False (unat b mod 16)]) bs)"

definition decode_lower_nibble :: "byte \<Rightarrow> u8 option" where
  "decode_lower_nibble b =
     (if 48 \<le> b \<and> b \<le> 57 then Some (b - 48) else if 97 \<le> b \<and> b \<le> 102 then Some (b - 97 + 10) else None)"

fun decode_nibbles :: "byte list \<Rightarrow> byte list io_result" where
  "decode_nibbles (h # l # rest) =
     ebind (ok_or InvalidData (decode_lower_nibble h)) (\<lambda>high.
     ebind (ok_or InvalidData (decode_lower_nibble l)) (\<lambda>low.
     ebind (decode_nibbles rest) (\<lambda>bs. Inr ((push_bit 4 high OR low) # bs))))"
| "decode_nibbles _ = Inr []"

definition decode_sha256_hex :: "ustring \<Rightarrow> byte list io_result" where
  "decode_sha256_hex hex = ebind (ensure (lower_hex_digest hex) InvalidData) (\<lambda>_. decode_nibbles (as_bytes hex))"

definition validate_update_handoff_plan :: "UpdateHandoffPlan \<Rightarrow> unit io_result" where
  "validate_update_handoff_plan h =
     ebind (ensure (ho_parent h \<noteq> 0) InvalidData) (\<lambda>_.
     ebind (ensure (ho_size h \<noteq> 0) InvalidData) (\<lambda>_.
     ebind (decode_sha256_hex (ho_sha256_hex h)) (\<lambda>_.
     ebind (ensure (list_all absolute_path [ho_current h, ho_install h, ho_staging h, ho_staged h, ho_backup h, ho_handoff h, ho_marker h])
              InvalidData) (\<lambda>_.
     ebind (ensure (rel_option path_eq (path_parent (ho_staged h)) (Some (ho_staging h))) InvalidData) (\<lambda>_.
     ebind (ok_or InvalidData (file_name (ho_staged h))) (\<lambda>staged_name.
     ebind (ensure (is_official_release_file_name staged_name (ho_kind h)) InvalidData) (\<lambda>_.
     ebind (ensure (path_eq (ho_backup h) (path_join (ho_staging h) UPDATE_BACKUP_FILE)) InvalidData) (\<lambda>_.
     ebind (ensure (path_eq (ho_handoff h) (path_join (ho_staging h) UPDATE_HANDOFF_FILE)) InvalidData) (\<lambda>_.
     ebind (ensure (path_eq (ho_marker h) (path_join (ho_staging h) UPDATE_STARTUP_MARKER_FILE)) InvalidData) (\<lambda>_.
     ebind (case ho_naming h of
              PublishedAssetName \<Rightarrow>
                ebind (ensure (rel_option path_eq (path_parent (ho_current h)) (path_parent (ho_install h))) InvalidData) (\<lambda>_.
                  ensure (file_name (ho_install h) = Some staged_name) InvalidData)
            | PreserveCurrentName \<Rightarrow> ensure (path_eq (ho_install h) (ho_current h)) InvalidData) (\<lambda>_.
       ensure (\<not> list_ex (path_eq (ho_staged h)) [ho_current h, ho_install h, ho_backup h, ho_handoff h, ho_marker h])
         InvalidData)))))))))))"

definition build_update_handoff_plan :: "UpdateInstallPlan \<Rightarrow> VerifiedStagedUpdate \<Rightarrow> u32 \<Rightarrow> UpdateHandoffPlan io_result" where
  "build_update_handoff_plan plan verified parent_process_id =
     ebind (validate_update_staging_plan plan) (\<lambda>_.
     ebind (ensure (parent_process_id \<noteq> 0) InvalidInput) (\<lambda>_.
     ebind (ensure (path_eq (staged_executable verified) (up_staged plan)) InvalidInput) (\<lambda>_.
     ebind (ensure (staged_size verified = sel_size (up_asset plan)) InvalidInput) (\<lambda>_.
     ebind (ensure (staged_sha256_hex verified = sel_sha256_hex (up_asset plan)) InvalidInput) (\<lambda>_.
     (let h = \<lparr>ho_parent = parent_process_id, ho_kind = up_kind plan, ho_naming = up_naming plan, ho_current = up_current plan,
               ho_install = up_install plan, ho_staging = up_staging plan, ho_staged = up_staged plan, ho_backup = up_backup plan,
               ho_handoff = up_handoff plan, ho_marker = up_marker plan, ho_size = staged_size verified,
               ho_sha256_hex = staged_sha256_hex verified\<rparr> in
      ebind (validate_update_handoff_plan h) (\<lambda>_. Inr h)))))))"

fun encode_artifact_kind :: "ReleaseArtifactKind \<Rightarrow> u8" where
  "encode_artifact_kind Manager = 1"
| "encode_artifact_kind Agent = 2"
| "encode_artifact_kind Cli = 3"
| "encode_artifact_kind GuiHungarian = 4"
| "encode_artifact_kind GuiEnglish = 5"

definition decode_artifact_kind :: "u8 \<Rightarrow> ReleaseArtifactKind io_result" where
  "decode_artifact_kind code =
     (if code = 1 then Inr Manager else if code = 2 then Inr Agent else if code = 3 then Inr Cli
      else if code = 4 then Inr GuiHungarian else if code = 5 then Inr GuiEnglish else Inl InvalidData)"

fun encode_install_naming :: "UpdateInstallNaming \<Rightarrow> u8" where
  "encode_install_naming PublishedAssetName = 1"
| "encode_install_naming PreserveCurrentName = 2"

definition decode_install_naming :: "u8 \<Rightarrow> UpdateInstallNaming io_result" where
  "decode_install_naming code =
     (if code = 1 then Inr PublishedAssetName else if code = 2 then Inr PreserveCurrentName else Inl InvalidData)"

definition write_update_handoff_path :: "path \<Rightarrow> byte list io_result" where
  "write_update_handoff_path p =
     ebind (ensure (absolute_path p) InvalidInput) (\<lambda>_.
     ebind (ensure (p \<noteq> []) InvalidInput) (\<lambda>_.
     ebind (ensure (length p \<le> UPDATE_HANDOFF_MAX_PATH_UTF16_UNITS) InvalidInput) (\<lambda>_.
     ebind (ensure (0 \<notin> set p) InvalidInput) (\<lambda>_.
     ebind (word_try_from InvalidInput (length p)) (\<lambda>unit_count :: u32.
       Inr (to_le_bytes unit_count @ concat (map to_le_bytes p)))))))"

definition encode_update_handoff_plan :: "UpdateHandoffPlan \<Rightarrow> byte list io_result" where
  "encode_update_handoff_plan h =
     ebind (validate_update_handoff_plan h) (\<lambda>_.
     ebind (decode_sha256_hex (ho_sha256_hex h)) (\<lambda>digest.
     ebind (wcat
       [Inr (UPDATE_HANDOFF_MAGIC @ to_le_bytes UPDATE_HANDOFF_VERSION @ to_le_bytes (0 :: u16) @ to_le_bytes (ho_parent h) @
             [encode_artifact_kind (ho_kind h), encode_install_naming (ho_naming h)] @ to_le_bytes (0 :: u16) @
             to_le_bytes (ho_size h) @ digest),
        write_update_handoff_path (ho_current h), write_update_handoff_path (ho_install h), write_update_handoff_path (ho_staging h),
        write_update_handoff_path (ho_staged h), write_update_handoff_path (ho_backup h), write_update_handoff_path (ho_handoff h),
        write_update_handoff_path (ho_marker h)]) (\<lambda>encoded.
     ebind (ensure (length encoded \<le> UPDATE_HANDOFF_MAX_BYTES) InvalidData) (\<lambda>_. Inr encoded))))"

text \<open>\<^verbatim>\<open>UpdateHandoffReader\<close>: bytes that are missing are invalid data.\<close>

definition read_array :: "nat \<Rightarrow> byte list reader" where
  "read_array n bs = (if n \<le> length bs then Inr (take n bs, drop n bs) else Inl InvalidData)"

definition read_word_le :: "'a::len word reader" where
  "read_word_le = rbind (read_array (LENGTH('a) div 8)) (\<lambda>bs. rret (from_le_bytes bs))"

definition read_handoff_path :: "path reader" where
  "read_handoff_path =
     rbind read_word_le (\<lambda>count :: u32.
     (let unit_count = unat count in
      rbind (rguard (unit_count \<noteq> 0) InvalidData) (\<lambda>_.
      rbind (rguard (unit_count \<le> UPDATE_HANDOFF_MAX_PATH_UTF16_UNITS) InvalidData) (\<lambda>_.
      rbind (read_times unit_count read_word_le) (\<lambda>units.
      rbind (rguard (0 \<notin> set units) InvalidData) (\<lambda>_. rret units))))))"

definition read_handoff_body :: "UpdateHandoffPlan reader" where
  "read_handoff_body =
     rbind (read_array 4) (\<lambda>magic.
     rbind (rguard (magic = UPDATE_HANDOFF_MAGIC) InvalidData) (\<lambda>_.
     rbind read_word_le (\<lambda>version :: u16.
     rbind (rguard (version = UPDATE_HANDOFF_VERSION) InvalidData) (\<lambda>_.
     rbind read_word_le (\<lambda>header_reserved :: u16.
     rbind (rguard (header_reserved = 0) InvalidData) (\<lambda>_.
     rbind read_word_le (\<lambda>parent_process_id :: u32.
     rbind read_word_le (\<lambda>kind_code :: u8.
     rbind (rlift (decode_artifact_kind kind_code)) (\<lambda>k.
     rbind read_word_le (\<lambda>naming_code :: u8.
     rbind (rlift (decode_install_naming naming_code)) (\<lambda>naming.
     rbind read_word_le (\<lambda>naming_reserved :: u16.
     rbind (rguard (naming_reserved = 0) InvalidData) (\<lambda>_.
     rbind read_word_le (\<lambda>expected_size :: u64.
     rbind (read_array UPDATE_HANDOFF_DIGEST_BYTES) (\<lambda>digest.
     rbind read_handoff_path (\<lambda>current.
     rbind read_handoff_path (\<lambda>install.
     rbind read_handoff_path (\<lambda>staging.
     rbind read_handoff_path (\<lambda>staged.
     rbind read_handoff_path (\<lambda>backup.
     rbind read_handoff_path (\<lambda>handoff.
     rbind read_handoff_path (\<lambda>marker.
       rret \<lparr>ho_parent = parent_process_id, ho_kind = k, ho_naming = naming, ho_current = current, ho_install = install,
             ho_staging = staging, ho_staged = staged, ho_backup = backup, ho_handoff = handoff, ho_marker = marker,
             ho_size = expected_size, ho_sha256_hex = encode_lower_hex digest\<rparr>))))))))))))))))))))))"

definition decode_update_handoff_plan :: "byte list \<Rightarrow> UpdateHandoffPlan io_result" where
  "decode_update_handoff_plan encoded =
     ebind (ensure (length encoded \<le> UPDATE_HANDOFF_MAX_BYTES) InvalidData) (\<lambda>_.
     ebind (read_handoff_body encoded) (\<lambda>(h, rest).
     ebind (ensure (rest = []) InvalidData) (\<lambda>_.
     ebind (validate_update_handoff_plan h) (\<lambda>_. Inr h))))"

section \<open>The startup marker\<close>

definition UPDATE_STARTUP_MARKER_MAGIC :: "byte list" where "UPDATE_STARTUP_MARKER_MAGIC = [0x4E, 0x43, 0x53, 0x31]"
definition UPDATE_STARTUP_MARKER_VERSION :: u16 where "UPDATE_STARTUP_MARKER_VERSION = 1"
definition UPDATE_STARTUP_MARKER_BYTES :: usize where "UPDATE_STARTUP_MARKER_BYTES = 4 + 2 + 4 + 8 + SHA256_HEX_LENGTH"

record UpdateStartupMarker =
  marker_pid :: u32
  marker_size :: u64
  marker_sha256_hex :: ustring

definition validate_update_startup_marker :: "UpdateStartupMarker \<Rightarrow> unit io_result" where
  "validate_update_startup_marker m =
     ebind (ensure (marker_pid m \<noteq> 0) InvalidData) (\<lambda>_.
     ebind (ensure (marker_size m \<noteq> 0) InvalidData) (\<lambda>_.
       ensure (lower_hex_digest (marker_sha256_hex m)) InvalidData))"

definition encode_update_startup_marker :: "UpdateStartupMarker \<Rightarrow> byte list io_result" where
  "encode_update_startup_marker m =
     ebind (validate_update_startup_marker m) (\<lambda>_.
       Inr (UPDATE_STARTUP_MARKER_MAGIC @ to_le_bytes UPDATE_STARTUP_MARKER_VERSION @ to_le_bytes (marker_pid m) @
            to_le_bytes (marker_size m) @ as_bytes (marker_sha256_hex m)))"

definition decode_update_startup_marker :: "byte list \<Rightarrow> UpdateStartupMarker io_result" where
  "decode_update_startup_marker bs =
     ebind (ensure (length bs = UPDATE_STARTUP_MARKER_BYTES) InvalidData) (\<lambda>_.
     ebind (ensure (take 4 bs = UPDATE_STARTUP_MARKER_MAGIC) InvalidData) (\<lambda>_.
     ebind (ensure ((from_le_bytes (byte_slice bs 4 6) :: u16) = UPDATE_STARTUP_MARKER_VERSION) InvalidData) (\<lambda>_.
     ebind (ok_or InvalidData (from_utf8 (drop 18 bs))) (\<lambda>hex.
     (let m = \<lparr>marker_pid = from_le_bytes (byte_slice bs 6 10), marker_size = from_le_bytes (byte_slice bs 10 18),
               marker_sha256_hex = hex\<rparr> in
      ebind (validate_update_startup_marker m) (\<lambda>_. Inr m))))))"

section \<open>What the files say\<close>

lemma utf8_char_high: "0x80 \<le> c \<Longrightarrow> \<exists>b \<in> set (utf8_char c). 0x80 \<le> unat b"
  by (auto simp: utf8_char_def unsigned_of_nat take_bit_nat_eq_self)

lemma ascii_of_bytes:
  assumes "\<forall>b \<in> set (as_bytes s). unat b < 0x80"
  shows "ascii_text s"
proof -
  have "c < 0x80" if "c \<in> set s" for c
  proof (rule ccontr)
    assume "\<not> c < 0x80"
    then obtain b where "b \<in> set (utf8_char c)" "0x80 \<le> unat b" using utf8_char_high by (meson linorder_not_less)
    moreover have "b \<in> set (as_bytes s)" using that calculation(1) by (auto simp: as_bytes_def)
    ultimately show False using assms by (meson linorder_not_less)
  qed
  then show ?thesis by (simp add: ascii_text_def)
qed

definition lower_hex_char :: "nat \<Rightarrow> bool" where "lower_hex_char c \<longleftrightarrow> 48 \<le> c \<and> c \<le> 57 \<or> 97 \<le> c \<and> c \<le> 102"

lemma lower_hex_digest_iff: "lower_hex_digest s \<longleftrightarrow> length s = 64 \<and> list_all lower_hex_char s"
proof -
  have hex: "ascii_hexdigit c \<and> \<not> ascii_uppercase c \<longleftrightarrow> lower_hex_char c" for c
    by (auto simp: ascii_hexdigit_def ascii_uppercase_def lower_hex_char_def)
  show ?thesis
  proof (cases "ascii_text s")
    case True
    then have "(\<forall>b \<in> set (as_bytes s). lower_hex_char (unat b)) \<longleftrightarrow> list_all lower_hex_char s"
      using ascii_bytes [OF True] by (metis list.pred_map list_all_iff comp_apply)
    then show ?thesis by (simp add: lower_hex_digest_def hex SHA256_HEX_LENGTH_def str_len_ascii [OF True])
  next
    case False
    then have "\<not> (\<forall>b \<in> set (as_bytes s). lower_hex_char (unat b))"
      using ascii_of_bytes [of s] by (force simp: lower_hex_char_def)
    moreover have "\<not> list_all lower_hex_char s"
      using False by (force simp: ascii_text_def lower_hex_char_def list_all_iff)
    ultimately show ?thesis by (auto simp: lower_hex_digest_def hex)
  qed
qed

lemma lower_hex_ascii: "list_all lower_hex_char s \<Longrightarrow> ascii_text s"
  by (auto simp: ascii_text_def lower_hex_char_def list_all_iff)

lemma length_encode_lower_hex [simp]: "length (encode_lower_hex bs) = 2 * length bs"
  by (induction bs) (simp_all add: encode_lower_hex_def)

lemma digit_char_hex: "d < 16 \<Longrightarrow> lower_hex_char (digit_char False d)"
  by (auto simp: lower_hex_char_def digit_char_def)

lemma encode_lower_hex_chars: "list_all lower_hex_char (encode_lower_hex bs)"
proof (induction bs)
  case (Cons b bs)
  have "unat b < 256" using unat_less_2p [of b] by simp
  then show ?case using Cons by (simp add: encode_lower_hex_def digit_char_hex)
qed (simp add: encode_lower_hex_def)

lemma nibble_of_char: "lower_hex_char c \<Longrightarrow> \<exists>d. decode_lower_nibble (of_nat c) = Some d \<and> unat d < 16 \<and> digit_char False (unat d) = c"
  by (auto simp: lower_hex_char_def decode_lower_nibble_def digit_char_def word_le_nat_alt unsigned_of_nat take_bit_nat_eq_self unat_sub_if' unat_word_ariths)

lemma nibble_digit:
  assumes "d < 16"
  shows "decode_lower_nibble (of_nat (digit_char False d)) = Some (of_nat d)"
proof -
  obtain e where e: "decode_lower_nibble (of_nat (digit_char False d)) = Some e" "unat e < 16" "digit_char False (unat e) = digit_char False d"
    using nibble_of_char [OF digit_char_hex [OF assms]] by blast
  then have "unat e = d" using assms by (auto simp: digit_char_def split: if_splits)
  moreover have "of_nat (unat e) = e" by simp
  ultimately show ?thesis using e(1) by simp
qed

lemma nibbles_join: "unat (a :: byte) < 16 \<Longrightarrow> unat b < 16 \<Longrightarrow> unat (push_bit 4 a OR b) = unat a * 16 + unat b"
proof -
  assume a: "unat a < 16" and b: "unat b < 16"
  have low: "take_bit 4 b = b" using b by (simp add: word_unat_eq_iff unsigned_take_bit_eq take_bit_nat_eq_self)
  have "push_bit 4 a AND b = 0"
    by (subst low [symmetric]) (rule bit_eqI, auto simp: bit_and_iff bit_push_bit_iff bit_take_bit_iff)
  then have "push_bit 4 a OR b = push_bit 4 a + b" by (metis word_plus_and_or add.right_neutral add.commute)
  moreover have "unat (push_bit 4 a) = unat a * 16"
    using a by (simp add: push_bit_eq_mult unat_word_ariths)
  ultimately show ?thesis using a b by (simp add: unat_word_ariths)
qed

lemma join_split: "unat (b :: byte) div 16 < 16 \<and> unat b mod 16 < 16 \<and>
    push_bit 4 (of_nat (unat b div 16)) OR of_nat (unat b mod 16) = b"
proof -
  have d: "unat b div 16 < 16" "unat b mod 16 < 16" using unat_less_2p [of b] by auto
  then have u: "unat (of_nat (unat b div 16) :: byte) = unat b div 16" "unat (of_nat (unat b mod 16) :: byte) = unat b mod 16"
    by (simp_all add: unat_of_nat_small)
  have "unat (push_bit 4 (of_nat (unat b div 16)) OR of_nat (unat b mod 16) :: byte) = unat b"
    using nibbles_join [of "of_nat (unat b div 16)" "of_nat (unat b mod 16)"] u d by simp
  then show ?thesis using d by (simp add: word_unat_eq_iff)
qed

lemma decode_nibbles_encoded: "decode_nibbles (map of_nat (encode_lower_hex bs)) = Inr bs"
proof (induction bs)
  case (Cons b bs)
  then show ?case using join_split [of b] by (simp add: encode_lower_hex_def nibble_digit)
qed (simp add: encode_lower_hex_def)

lemma encode_decoded:
  assumes "list_all lower_hex_char s" "even (length s)"
  shows "\<exists>bs. s = encode_lower_hex bs"
  using assms
proof (induction s rule: induct_list012)
  case (3 h l s)
  obtain a b :: byte where a: "unat a < 16" "digit_char False (unat a) = h" and b: "unat b < 16" "digit_char False (unat b) = l"
    using nibble_of_char [of h] nibble_of_char [of l] "3.prems" by auto
  obtain bs where "s = encode_lower_hex bs" using 3 by auto
  moreover have "unat (push_bit 4 a OR b :: byte) = unat a * 16 + unat b" using nibbles_join a(1) b(1) .
  ultimately have "h # l # s = encode_lower_hex ((push_bit 4 a OR b) # bs)" using a b by (simp add: encode_lower_hex_def)
  then show ?case by blast
qed (auto simp: encode_lower_hex_def intro: exI [of _ "[]"])

lemma ascii_map_bytes: "ascii_text s \<Longrightarrow> as_bytes s = map of_nat s"
  by (induction s) (auto simp: as_bytes_def utf8_char_def)

lemma decode_sha256_hex_iff: "decode_sha256_hex hex = Inr digest \<longleftrightarrow> length digest = 32 \<and> hex = encode_lower_hex digest"
proof
  assume "decode_sha256_hex hex = Inr digest"
  then have h: "length hex = 64" "list_all lower_hex_char hex" "decode_nibbles (as_bytes hex) = Inr digest"
    by (auto simp: decode_sha256_hex_def result_simps lower_hex_digest_iff)
  then obtain bs where "hex = encode_lower_hex bs" using encode_decoded by force
  then show "length digest = 32 \<and> hex = encode_lower_hex digest"
    using h ascii_map_bytes [OF lower_hex_ascii [OF h(2)]] decode_nibbles_encoded [of bs] by auto
qed (auto simp: decode_sha256_hex_def lower_hex_digest_iff encode_lower_hex_chars ascii_map_bytes lower_hex_ascii decode_nibbles_encoded)

lemma read_array_Inr: "read_array n bs = Inr (xs, rest) \<longleftrightarrow> length xs = n \<and> bs = xs @ rest"
  by (auto simp: read_array_def)

lemma read_word_le_Inr:
  assumes "8 dvd LENGTH('a)"
  shows "read_word_le bs = Inr (w :: 'a::len word, rest) \<longleftrightarrow> bs = to_le_bytes w @ rest"
  using assms by (auto simp: read_word_le_def result_simps read_array_Inr to_from_le_bytes from_to_le_bytes)

lemmas read_word_le_iffs = read_word_le_Inr [where 'a = 8, simplified] read_word_le_Inr [where 'a = 16, simplified]
  read_word_le_Inr [where 'a = 32, simplified] read_word_le_Inr [where 'a = 64, simplified]

interpretation handoff_unit: canonical_codec "\<lambda>u :: u16. Inr (to_le_bytes u)" read_word_le "\<lambda>_. True"
  by unfold_locales (simp_all add: read_word_le_iffs)

definition path_storable :: "path \<Rightarrow> bool" where
  "path_storable p \<longleftrightarrow> p \<noteq> [] \<and> length p \<le> UPDATE_HANDOFF_MAX_PATH_UTF16_UNITS \<and> 0 \<notin> set p"

definition path_bytes :: "path \<Rightarrow> byte list" where
  "path_bytes p = to_le_bytes (of_nat (length p) :: u32) @ concat (map to_le_bytes p)"

lemma wcat_units: "wcat (map (\<lambda>u :: u16. Inr (to_le_bytes u)) us) = Inr (concat (map to_le_bytes us))"
  by (induction us) simp_all

lemma write_handoff_path_iff:
  "write_update_handoff_path p = Inr bs \<longleftrightarrow> absolute_path p \<and> path_storable p \<and> bs = path_bytes p"
  by (auto simp: write_update_handoff_path_def result_simps path_storable_def path_bytes_def UPDATE_HANDOFF_MAX_PATH_UTF16_UNITS_def
      word_try_from_def)

lemma read_handoff_path_iff:
  "read_handoff_path bs = Inr (p, rest) \<longleftrightarrow> path_storable p \<and> bs = path_bytes p @ rest"
proof
  assume "read_handoff_path bs = Inr (p, rest)"
  then obtain count :: u32 and bs1 where c: "bs = to_le_bytes count @ bs1" "unat count \<noteq> 0" "unat count \<le> UPDATE_HANDOFF_MAX_PATH_UTF16_UNITS"
    and p: "read_times (unat count) read_word_le bs1 = Inr (p, rest)" "0 \<notin> set p"
    by (auto simp: read_handoff_path_def result_simps Let_def read_word_le_iffs)
  have "length p = unat count" "bs1 = concat (map to_le_bytes p) @ rest"
    using handoff_unit.read_times_canonical [OF p(1)] by (auto simp: wcat_units)
  then show "path_storable p \<and> bs = path_bytes p @ rest"
    using c p(2) by (auto simp: path_storable_def path_bytes_def)
next
  assume p: "path_storable p \<and> bs = path_bytes p @ rest"
  then have n: "unat (of_nat (length p) :: u32) = length p"
    by (intro unat_of_nat_small) (auto simp: path_storable_def UPDATE_HANDOFF_MAX_PATH_UTF16_UNITS_def)
  have "read_times (length p) read_word_le (concat (map to_le_bytes p) @ rest) = Inr (p, rest)"
    using handoff_unit.read_times_write [of p] wcat_units [of p] by simp
  then show "read_handoff_path bs = Inr (p, rest)"
    using p n by (auto simp: read_handoff_path_def result_simps Let_def read_word_le_iffs path_bytes_def path_storable_def)
qed

definition handoff_bytes :: "UpdateHandoffPlan \<Rightarrow> byte list \<Rightarrow> byte list" where
  "handoff_bytes h digest =
     UPDATE_HANDOFF_MAGIC @ to_le_bytes UPDATE_HANDOFF_VERSION @ to_le_bytes (0 :: u16) @ to_le_bytes (ho_parent h) @
     [encode_artifact_kind (ho_kind h), encode_install_naming (ho_naming h)] @ to_le_bytes (0 :: u16) @ to_le_bytes (ho_size h) @ digest @
     path_bytes (ho_current h) @ path_bytes (ho_install h) @ path_bytes (ho_staging h) @ path_bytes (ho_staged h) @
     path_bytes (ho_backup h) @ path_bytes (ho_handoff h) @ path_bytes (ho_marker h)"

abbreviation handoff_paths :: "UpdateHandoffPlan \<Rightarrow> path list" where
  "handoff_paths h \<equiv> [ho_current h, ho_install h, ho_staging h, ho_staged h, ho_backup h, ho_handoff h, ho_marker h]"

lemma decode_artifact_kind_iff: "decode_artifact_kind c = Inr k \<longleftrightarrow> c = encode_artifact_kind k"
  by (cases k) (auto simp: decode_artifact_kind_def)

lemma decode_install_naming_iff: "decode_install_naming c = Inr n \<longleftrightarrow> c = encode_install_naming n"
  by (cases n) (auto simp: decode_install_naming_def)

lemma le_bytes_u8: "to_le_bytes (b :: u8) = [b]"
proof -
  have "unat b mod 256 = unat b" using unat_less_2p [of b] by simp
  then show ?thesis by (simp add: to_le_bytes_def to_be_bytes_def)
qed

lemma read_array_append: "length xs = n \<Longrightarrow> read_array n (xs @ rest) = Inr (xs, rest)"
  by (simp add: read_array_Inr)

lemma read_word_le_append:
  "read_word_le (to_le_bytes (w :: u16) @ rest) = Inr (w, rest)" "read_word_le (to_le_bytes (x :: u32) @ rest) = Inr (x, rest)"
  "read_word_le (to_le_bytes (y :: u64) @ rest) = Inr (y, rest)" "read_word_le (b # rest) = Inr (b :: u8, rest)"
  by (simp_all add: read_word_le_iffs le_bytes_u8)

lemma read_handoff_path_append: "path_storable p \<Longrightarrow> read_handoff_path (path_bytes p @ rest) = Inr (p, rest)"
  by (simp add: read_handoff_path_iff)

lemma decode_codes [simp]: "decode_artifact_kind (encode_artifact_kind k) = Inr k" "decode_install_naming (encode_install_naming n) = Inr n"
  by (simp_all add: decode_artifact_kind_iff decode_install_naming_iff)

lemma length_handoff_magic: "length UPDATE_HANDOFF_MAGIC = 4"
  by (simp add: UPDATE_HANDOFF_MAGIC_def)

lemma read_handoff_body_iff:
  "read_handoff_body bs = Inr (h, rest) \<longleftrightarrow>
     (\<exists>digest. length digest = 32 \<and> ho_sha256_hex h = encode_lower_hex digest \<and> list_all path_storable (handoff_paths h) \<and>
        bs = handoff_bytes h digest @ rest)"
  (is "?read = ?written")
proof
  assume ?read
  then show ?written
    unfolding read_handoff_body_def
    by (clarsimp simp: result_simps read_array_Inr read_word_le_iffs read_handoff_path_iff decode_artifact_kind_iff decode_install_naming_iff
        le_bytes_u8 handoff_bytes_def UPDATE_HANDOFF_DIGEST_BYTES_def)
next
  assume ?written
  then obtain digest where "length digest = 32" "ho_sha256_hex h = encode_lower_hex digest" "list_all path_storable (handoff_paths h)"
    "bs = handoff_bytes h digest @ rest" by blast
  then show ?read
    unfolding read_handoff_body_def
    by (cases h) (simp add: rbind_def handoff_bytes_def read_array_append [OF length_handoff_magic] read_word_le_append
        read_array_append [of digest 32] UPDATE_HANDOFF_DIGEST_BYTES_def read_handoff_path_append)
qed

lemma handoff_plan_iff:
  "decode_update_handoff_plan bs = Inr h \<longleftrightarrow> encode_update_handoff_plan h = Inr bs"
proof -
  have paths: "list_all absolute_path (handoff_paths h)" if "validate_update_handoff_plan h = Inr ()"
    using that by (auto simp: validate_update_handoff_plan_def result_simps)
  have digest: "\<exists>digest. decode_sha256_hex (ho_sha256_hex h) = Inr digest" if "validate_update_handoff_plan h = Inr ()"
    using that by (auto simp: validate_update_handoff_plan_def result_simps)
  have "encode_update_handoff_plan h = Inr bs \<longleftrightarrow> validate_update_handoff_plan h = Inr () \<and>
      (\<exists>digest. decode_sha256_hex (ho_sha256_hex h) = Inr digest \<and> list_all path_storable (handoff_paths h) \<and>
         bs = handoff_bytes h digest \<and> length bs \<le> UPDATE_HANDOFF_MAX_BYTES)"
    using paths by (auto simp: encode_update_handoff_plan_def result_simps write_handoff_path_iff handoff_bytes_def)
  moreover have "decode_update_handoff_plan bs = Inr h \<longleftrightarrow> length bs \<le> UPDATE_HANDOFF_MAX_BYTES \<and> read_handoff_body bs = Inr (h, []) \<and>
      validate_update_handoff_plan h = Inr ()"
    by (auto simp: decode_update_handoff_plan_def result_simps)
  ultimately show ?thesis
    using digest unfolding read_handoff_body_iff decode_sha256_hex_iff by auto
qed

lemma startup_marker_read_back:
  assumes "encode_update_startup_marker m = Inr bs"
  shows "decode_update_startup_marker bs = Inr m"
proof -
  have valid: "validate_update_startup_marker m = Inr ()"
    and bs: "bs = UPDATE_STARTUP_MARKER_MAGIC @ to_le_bytes UPDATE_STARTUP_MARKER_VERSION @ to_le_bytes (marker_pid m) @
            to_le_bytes (marker_size m) @ as_bytes (marker_sha256_hex m)"
    using assms by (auto simp: encode_update_startup_marker_def result_simps)
  have hex: "length (marker_sha256_hex m) = 64" "ascii_text (marker_sha256_hex m)"
    using valid lower_hex_ascii by (auto simp: validate_update_startup_marker_def result_simps lower_hex_digest_iff)
  have l: "length UPDATE_STARTUP_MARKER_MAGIC = 4" by (simp add: UPDATE_STARTUP_MARKER_MAGIC_def)
  have fields: "take 4 bs = UPDATE_STARTUP_MARKER_MAGIC" "byte_slice bs 4 6 = to_le_bytes UPDATE_STARTUP_MARKER_VERSION"
    "byte_slice bs 6 10 = to_le_bytes (marker_pid m)" "byte_slice bs 10 18 = to_le_bytes (marker_size m)"
    "drop 18 bs = as_bytes (marker_sha256_hex m)"
    using l by (simp_all add: bs byte_slice_def)
  have "length bs = UPDATE_STARTUP_MARKER_BYTES"
    using l hex by (simp add: bs UPDATE_STARTUP_MARKER_BYTES_def SHA256_HEX_LENGTH_def str_len_ascii)
  then show ?thesis
    using fields valid hex by (cases m) (simp add: decode_update_startup_marker_def Let_def from_to_le_bytes from_utf8_as_bytes ascii_text_is_text)
qed

lemma decoded_marker_valid: "decode_update_startup_marker bs = Inr m \<Longrightarrow> validate_update_startup_marker m = Inr ()"
  by (auto simp: decode_update_startup_marker_def result_simps Let_def)

section \<open>Choosing the release\<close>

lemma find_asset_Inr:
  "find_asset assets names = Inr (Some a) \<Longrightarrow> asset_name a \<in> set names \<and> filter (\<lambda>x. asset_name x = asset_name a) assets = [a]"
proof (induction names)
  case (Cons n names)
  show ?case
  proof (cases "filter (\<lambda>a. asset_name a = n) assets")
    case found: (Cons x xs)
    have "x \<in> set (filter (\<lambda>a. asset_name a = n) assets)" unfolding found by simp
    then have "asset_name x = n" by simp
    moreover have "xs = []" "a = x" using Cons.prems found by (cases xs; simp)+
    ultimately show ?thesis using found by simp
  qed (use Cons in simp)
qed simp

lemma split_text_Nil [simp]: "split_text sep s \<noteq> []"
  by (induction s) (auto split: list.splits)

lemma split_text_plain: "\<forall>c \<in> set s. \<not> sep c \<Longrightarrow> split_text sep s = [s]"
  by (induction s) auto

lemma split_text_append:
  assumes "\<forall>c \<in> set s. \<not> sep c" "sep x"
  shows "split_text sep (s @ x # t) = s # split_text sep t"
  using assms by (induction s) auto

lemma display_digits: "c \<in> set (display_nat n) \<Longrightarrow> 48 \<le> c \<and> c \<le> 57"
  unfolding display_nat_def
proof (induction n rule: less_induct)
  case (less n)
  note IH = less.IH [of "n div 10"]
  show ?case
    using less.prems IH unfolding radix_text.simps [of False 10 n] by (cases "n < 10") (auto simp: digit_char_def)
qed

lemma str_trim_solid: "s \<noteq> [] \<Longrightarrow> \<not> is_whitespace (hd s) \<Longrightarrow> \<not> is_whitespace (last s) \<Longrightarrow> str_trim s = s"
proof -
  assume s: "s \<noteq> []" "\<not> is_whitespace (hd s)" "\<not> is_whitespace (last s)"
  have "dropWhile is_whitespace s = s" using s(1,2) by (cases s) simp_all
  moreover have "dropWhile is_whitespace (rev s) = rev s" using s(1,3) by (cases s rule: rev_cases) simp_all
  ultimately show ?thesis by (simp add: str_trim_def)
qed

lemma parse_stable_version_text: "parse_stable_version (version_text v) = Inr v"
proof -
  define s where "s = display_nat (unat (version_major v)) @ 46 # display_nat (unat (version_minor v)) @ 46 # display_nat (unat (version_patch v))"
  have shown: "version_text v = 118 # s" by (simp add: version_text_def s_def)
  have ne: "display_nat n \<noteq> []" for n by (simp add: display_nat_def)
  have plain: "\<forall>c \<in> set (display_nat n). \<not> c = 46" for n using display_digits by fastforce
  have "last (118 # s) \<in> set (display_nat (unat (version_patch v)))" using ne [of "unat (version_patch v)"] by (simp add: s_def)
  then have "\<not> is_whitespace (last (118 # s))" using display_digits by (fastforce simp: is_whitespace_def)
  then have trim: "str_trim (version_text v) = 118 # s" unfolding shown by (intro str_trim_solid) (auto simp: is_whitespace_def)
  have "\<forall>c \<in> set s. \<not> (c = 45 \<or> c = 43)" using display_digits by (fastforce simp: s_def)
  then have core: "split_text (\<lambda>c. c = 45 \<or> c = 43) s = [s]" by (rule split_text_plain)
  have parts: "split_text (\<lambda>c. c = 46) s =
      [display_nat (unat (version_major v)), display_nat (unat (version_minor v)), display_nat (unat (version_patch v))]"
    unfolding s_def using plain by (simp add: split_text_append split_text_plain)
  have "strip_text_prefix [118] (118 # s) = Some s" by (simp add: strip_text_prefix_def starts_with_def)
  then show ?thesis
    by (simp add: parse_stable_version_def trim core parts parse_version_component_def ne Let_def)
qed

lemma encode_utf16_ascii: "ascii_text s \<Longrightarrow> encode_utf16 s = map of_nat s"
  by (induction s) (simp_all add: encode_utf16_def encode_utf16_char_def)

lemma os_to_str_ascii:
  assumes "ascii_text s"
  shows "os_to_str (encode_utf16 s) = Some s"
proof -
  have "to_string_lossy (map of_nat s) = s" using assms
    by (induction s) (simp_all add: unsigned_of_nat take_bit_nat_eq_self)
  then show ?thesis using assms by (simp add: os_to_str_def encode_utf16_ascii)
qed

lemma ascii_names:
  "ascii_text (artifact_label k)" "ascii_text (version_text v)" "\<forall>n \<in> set (expected_asset_names k v). ascii_text n"
proof -
  show label: "ascii_text (artifact_label k)" by (cases k) (simp_all add: ascii_text_def)
  show version: "ascii_text (version_text v)" by (simp add: version_text_def)
  show "\<forall>n \<in> set (expected_asset_names k v). ascii_text n" using label version by (simp add: expected_asset_names_def)
qed

lemma strip_text_prefix_append [simp]: "strip_text_prefix pre (pre @ s) = Some s"
  by (simp add: strip_text_prefix_def)

lemma strip_text_suffix_append [simp]: "strip_text_suffix suf (s @ suf) = Some s"
  by (simp add: strip_text_suffix_def)

lemma lower_display: "to_ascii_lowercase (display_nat n) = display_nat n"
  by (rule map_idI) (use display_digits in \<open>fastforce simp: ascii_lower_def\<close>)

lemma strict_version_text: "is_strict_release_version (drop 1 (version_text v))"
proof -
  have plain: "\<forall>c \<in> set (display_nat n). \<not> c = 46" "\<forall>c \<in> set (display_nat n). 48 \<le> c \<and> c \<le> 57" "display_nat n \<noteq> []" for n
    using display_digits by (fastforce simp: display_nat_def)+
  have "split_text (\<lambda>c. c = 46) (drop 1 (version_text v)) =
      [display_nat (unat (version_major v)), display_nat (unat (version_minor v)), display_nat (unat (version_patch v))]"
    unfolding version_text_def using plain(1) by (simp add: split_text_append split_text_plain)
  moreover have "parse_word (display_nat (unat (w :: u64))) \<noteq> (None :: u64 option)" for w by simp
  ultimately show ?thesis using plain(2,3) by (simp add: is_strict_release_version_def Let_def)
qed

lemma expected_name_official:
  assumes "n \<in> set (expected_asset_names k v)"
  shows "is_official_release_file_name (encode_utf16 n) k"
proof -
  have shown: "os_to_str (encode_utf16 n) = Some n" using assms ascii_names(3) os_to_str_ascii by blast
  consider "n = ustr ''NetworkCopy-Speed-'' @ artifact_label k @ ustr ''-Windows-x64.exe''"
    | "n = ustr ''NetworkCopy-Speed-'' @ version_text v @ ustr ''-'' @ artifact_label k @ ustr ''-Windows-x64.exe''"
    using assms by (auto simp: expected_asset_names_def)
  then show ?thesis
  proof cases
    case 1
    then show ?thesis unfolding is_official_release_file_name_def shown by (simp only: option.case Let_def) blast
  next
    case 2
    let ?version = "drop 1 (version_text v)"
    have low: "to_ascii_lowercase (version_text v) = ustr ''v'' @ ?version"
      by (simp add: version_text_def lower_display) (simp add: ascii_lower_def)
    have "to_ascii_lowercase n = ustr ''networkcopy-speed-v'' @
        (?version @ (ustr ''-'' @ to_ascii_lowercase (artifact_label k) @ ustr ''-windows-x64.exe''))"
      unfolding 2 map_append low by (simp add: ascii_lower_def)
    then have "Option.bind (strip_text_prefix (ustr ''networkcopy-speed-v'') (to_ascii_lowercase n))
        (strip_text_suffix (ustr ''-'' @ to_ascii_lowercase (artifact_label k) @ ustr ''-windows-x64.exe'')) = Some ?version"
      by (simp only: strip_text_prefix_append strip_text_suffix_append Option.bind.simps)
    then show ?thesis unfolding is_official_release_file_name_def shown
      using strict_version_text by (simp only: option.case Let_def) blast
  qed
qed

lemma parse_sha256_digest_Inr:
  assumes "parse_sha256_digest d = Inr hex"
  shows "lower_hex_digest hex \<and> (\<exists>s. d = SHA256_DIGEST_PREFIX @ s \<and> hex = to_ascii_lowercase s)"
proof -
  obtain s where s: "strip_text_prefix SHA256_DIGEST_PREFIX d = Some s" "str_len s = 64" "\<forall>b \<in> set (as_bytes s). ascii_hexdigit (unat b)"
    and hex: "hex = to_ascii_lowercase s"
    using assms by (auto simp: parse_sha256_digest_def result_simps SHA256_HEX_LENGTH_def)
  have ascii: "ascii_text s" using s(3) by (intro ascii_of_bytes) (force simp: ascii_hexdigit_def)
  then have chars: "\<forall>c \<in> set s. ascii_hexdigit c" using s(3) ascii_bytes [OF ascii] by (metis image_iff list.set_map)
  have "list_all lower_hex_char (to_ascii_lowercase s)"
    using chars by (auto simp: list_all_iff lower_hex_char_def ascii_hexdigit_def ascii_lower_def)
  moreover have "length s = 64" using s(2) str_len_ascii [OF ascii] by simp
  ultimately have "lower_hex_digest hex" by (simp add: hex lower_hex_digest_iff)
  moreover have "d = SHA256_DIGEST_PREFIX @ s"
    using s(1) by (auto simp: strip_text_prefix_def starts_with_def split: if_splits) (metis append_take_drop_id)
  ultimately show ?thesis using hex by blast
qed

text \<open>
   The updater only ever offers the file of its own release: the asset it selects is the single one with the
  name of this program and version, it comes from the project's download address, is not empty, and has the
  SHA-256 digest of the release in lower case; its name is one the update helper accepts.
\<close>

theorem selected_asset_is_official:
  assumes "select_release_asset release k = Inr a"
  shows "\<exists>v x. parse_stable_version (release_tag release) = Inr v \<and> sel_name a \<in> set (expected_asset_names k v) \<and>
      is_official_release_file_name (encode_utf16 (sel_name a)) k \<and>
      filter (\<lambda>x. asset_name x = sel_name a) (release_assets release) = [x] \<and> asset_state x = ustr ''uploaded'' \<and>
      sel_url a = asset_url x \<and> starts_with (sel_url a) RELEASE_DOWNLOAD_PREFIX \<and> sel_size a = asset_size x \<and> sel_size a \<noteq> 0 \<and>
      lower_hex_digest (sel_sha256_hex a) \<and>
      (\<exists>hex. asset_digest x = Some (SHA256_DIGEST_PREFIX @ hex) \<and> sel_sha256_hex a = to_ascii_lowercase hex)"
proof -
  obtain v x d hex where v: "parse_stable_version (release_tag release) = Inr v"
    and x: "find_asset (release_assets release) (expected_asset_names k v) = Inr (Some x)"
    and ok: "asset_state x = ustr ''uploaded''" "asset_size x \<noteq> 0" "validate_asset_download_url (asset_url x) = Inr ()"
    and d: "asset_digest x = Some d" "parse_sha256_digest d = Inr hex"
    and a: "\<lparr>sel_id = asset_id x, sel_name = asset_name x, sel_size = asset_size x, sel_sha256_hex = hex, sel_url = asset_url x\<rparr> = a"
    using assms unfolding select_release_asset_def result_simps
    by (elim exE conjE) (rule that; simp)
  have "starts_with (asset_url x) RELEASE_DOWNLOAD_PREFIX"
    using ok(3) by (simp add: validate_asset_download_url_def result_simps)
  then show ?thesis
    using v ok d a find_asset_Inr [OF x] expected_name_official [of "asset_name x" k v] parse_sha256_digest_Inr [OF d(2)]
    by (intro exI [of _ v] exI [of _ x]) auto
qed

text \<open>
   The handoff file means exactly one plan: the helper reads a plan from some bytes if and only if those are the
  bytes the updater writes for that plan.  A truncated, extended or altered file, and a plan whose paths do not
  belong together, is refused.
\<close>

theorem handoff_file_exact:
  "decode_update_handoff_plan bs = Inr h \<longleftrightarrow> encode_update_handoff_plan h = Inr bs"
  by (rule handoff_plan_iff)

definition sample_release :: ReleaseInfo where
  "sample_release = \<lparr>release_tag = ustr ''v2.0.1'', release_name = [], release_url = [],
     release_assets = [\<lparr>asset_id = 1, asset_name = ustr ''NetworkCopy-Speed-CLI-Windows-x64.exe'', asset_state = ustr ''uploaded'', asset_size = 3,
       asset_digest = Some (ustr ''sha256:'' @ replicate 64 65), asset_url = RELEASE_DOWNLOAD_PREFIX @ ustr ''x''\<rparr>]\<rparr>"

lemma sample_version: "parse_stable_version (ustr ''v2.0.1'') = Inr \<lparr>version_major = 2, version_minor = 0, version_patch = 1\<rparr>"
  by (simp add: parse_stable_version_def str_trim_def is_whitespace_def strip_text_prefix_def starts_with_def Let_def parse_version_component_def
      parse_word_def from_str_radix_def digit_value_def)

theorem selected_asset_is_official_witness:
  "\<exists>a. select_release_asset sample_release Cli = Inr a \<and> starts_with (sel_url a) RELEASE_DOWNLOAD_PREFIX \<and> lower_hex_digest (sel_sha256_hex a)"
proof -
  have "parse_sha256_digest (ustr ''sha256:'' @ replicate 64 65) = Inr (replicate 64 97)"
    by (simp add: parse_sha256_digest_def strip_text_prefix_def starts_with_def SHA256_DIGEST_PREFIX_def SHA256_HEX_LENGTH_def str_len_def
        utf8_char_len_def as_bytes_def utf8_char_def ascii_hexdigit_def ascii_lower_def sum_list_replicate)
  moreover have "asset_name x = ustr ''NetworkCopy-Speed-CLI-Windows-x64.exe'' \<Longrightarrow>
      find_asset [x] (expected_asset_names Cli \<lparr>version_major = 2, version_minor = 0, version_patch = 1\<rparr>) = Inr (Some x)" for x
    by (simp add: expected_asset_names_def version_text_def)
  moreover have "validate_asset_download_url (RELEASE_DOWNLOAD_PREFIX @ ustr ''x'') = Inr ()"
    by (simp add: validate_asset_download_url_def) (simp add: RELEASE_DOWNLOAD_PREFIX_def)
  ultimately obtain a where "select_release_asset sample_release Cli = Inr a"
    by (simp add: select_release_asset_def sample_release_def sample_version [simplified])
  then show ?thesis using selected_asset_is_official by blast
qed

end
