(* ===== verification/Release_Install.thy ===== *)
theory Release_Install
  imports Release_Plan File_Transfer
begin

text \<open>
  The updater at work (\<^verbatim>\<open>release_update.rs\<close>): staging a download, writing the handoff file, the helper
  that waits for the old program, backs up its executable, publishes the new one, starts it and waits for its
  confirmation, the rollbacks, the cleanup by the new program, and the recovery at a later start.  Files are those of
  \<open>File_System\<close>, where every call may fail; other processes are what the operating system reports of
  them.  The theory \<open>Release_Safety\<close> has the theorems.
\<close>

unbundle bit_operations_syntax

section \<open>The machine\<close>

text \<open>
  What the updater asks of its surroundings: the file a path names (two paths may name one file), SHA-256, the
  identity of the process, and what the operating system answers about other processes.
\<close>

datatype wait_status = WAIT_OBJECT_0 | WAIT_TIMEOUT | WAIT_FAILED error_kind | WAIT_UNEXPECTED u32

record machine =
  locate :: "path \<Rightarrow> fpath"
  sha256 :: "byte list \<Rightarrow> byte list"
  own_process :: u32
  current_exe :: "path io_result"
  app_data :: "path option"
  open_process :: "u32 \<Rightarrow> bool io_result"
  wait_object :: "u32 \<Rightarrow> wait_status"

text \<open>
  A launched program is seen through polls: what it has published at the marker path since the last poll, and
  whether it has exited.  The last poll is the one at the deadline.
\<close>

record startup_poll =
  poll_marker :: "byte list option"
  poll_exited :: "bool io_result"

record child_run =
  spawned :: "u32 io_result"
  first_poll :: startup_poll
  later_polls :: "startup_poll list"
  stop_status :: "bool io_result"
  stop_kill :: "unit io_result"
  stop_recheck :: "bool io_result"
  stop_reap :: "unit io_result"

section \<open>File operations\<close>

text \<open>Go on with the result of \<open>m\<close>, an error included.\<close>

definition fmatch :: "'a fsm \<Rightarrow> ('a io_result \<Rightarrow> 'b fsm) \<Rightarrow> 'b fsm" where
  "fmatch m f s = (case m s of (r, s') \<Rightarrow> f r s')"

definition open_file :: "fpath \<Rightarrow> unit fsm" where
  "open_file p = syscall (\<lambda>s.
     (case Option.bind (fmlookup (nodes s) p) resolve of
        Some (FileNode _ _ _) \<Rightarrow> (Inr (), s)
      | Some _ \<Rightarrow> (Inl PermissionDenied, s)
      | None \<Rightarrow> (Inl NotFound, s)))"

text \<open>\<^verbatim>\<open>MoveFileExW\<close> without \<^verbatim>\<open>MOVEFILE_REPLACE_EXISTING\<close>.\<close>

definition move_new :: "fpath \<Rightarrow> fpath \<Rightarrow> unit fsm" where
  "move_new source destination = syscall (\<lambda>s.
     (case fmlookup (nodes s) source of
        None \<Rightarrow> (Inl NotFound, s)
      | Some n \<Rightarrow>
          if fmlookup (nodes s) destination \<noteq> None then (Inl AlreadyExists, s)
          else if \<not> parent_exists s destination then (Inl NotFound, s)
          else (Inr (), s\<lparr>nodes := fmupd destination n (fmdrop source (nodes s))\<rparr>)))"

definition children :: "fs \<Rightarrow> fpath \<Rightarrow> fpath fset" where
  "children s p = ffilter (\<lambda>q. q \<noteq> [] \<and> butlast q = p) (fmdom (nodes s))"

definition fs_remove_dir :: "fpath \<Rightarrow> unit fsm" where
  "fs_remove_dir p = syscall (\<lambda>s.
     (case fmlookup (nodes s) p of
        None \<Rightarrow> (Inl NotFound, s)
      | Some (DirNode _) \<Rightarrow>
          if children s p \<noteq> {||} then (Inl DirectoryNotEmpty, s) else (Inr (), s\<lparr>nodes := fmdrop p (nodes s)\<rparr>)
      | Some _ \<Rightarrow> (Inl NotADirectory, s)))"

definition component_units :: "path_component \<Rightarrow> path" where
  "component_units c = (case c of Normal name \<Rightarrow> name | _ \<Rightarrow> [])"

definition fs_read_dir :: "fpath \<Rightarrow> path fset fsm" where
  "fs_read_dir p = syscall (\<lambda>s.
     (case Option.bind (fmlookup (nodes s) p) resolve of
        None \<Rightarrow> (Inl NotFound, s)
      | Some (DirNode _) \<Rightarrow> (Inr ((\<lambda>q. component_units (last q)) |`| children s p), s)
      | Some _ \<Rightarrow> (Inl NotADirectory, s)))"

text \<open>\<^verbatim>\<open>fs::canonicalize\<close> needs the file to exist; its result stands for the file.\<close>

definition canonicalize :: "machine \<Rightarrow> path \<Rightarrow> fpath fsm" where
  "canonicalize m p = fbind (fs_metadata (locate m p)) (\<lambda>_. fret (locate m p))"

abbreviation remove_file_if_exists :: "machine \<Rightarrow> path \<Rightarrow> unit fsm" where
  "remove_file_if_exists m p \<equiv> remove_file_if_present (locate m p)"

section \<open>Reading and copying with a digest\<close>

definition UPDATE_DOWNLOAD_BUFFER_SIZE :: nat where "UPDATE_DOWNLOAD_BUFFER_SIZE = 64 * 1024"

function file_chunks :: "byte list \<Rightarrow> byte list list" where
  "file_chunks bs =
     (if bs = [] then [] else take UPDATE_DOWNLOAD_BUFFER_SIZE bs # file_chunks (drop UPDATE_DOWNLOAD_BUFFER_SIZE bs))"
  by pat_completeness auto
termination
  by (relation "measure length") (auto simp: UPDATE_DOWNLOAD_BUFFER_SIZE_def)

declare file_chunks.simps [simp del]

text \<open>Every read is a call that may fail; the last one gives no bytes.\<close>

definition file_reads :: "byte list \<Rightarrow> byte list fsm list" where
  "file_reads c = map (\<lambda>x. syscall (fret x)) (file_chunks c @ [[]])"

text \<open>
  The loop of the copy, of the download and of both verifications: read a buffer, count its bytes, refuse more than
  the limit, write it, hash it.
\<close>

fun pump :: "u64 option \<Rightarrow> (nat \<Rightarrow> byte list \<Rightarrow> unit fsm) \<Rightarrow> byte list fsm list \<Rightarrow> u64 \<Rightarrow> byte list \<Rightarrow> (u64 \<times> byte list) fsm" where
  "pump limit write [] total_size hashed = fret (total_size, hashed)"
| "pump limit write (r # reads) total_size hashed =
     fbind r (\<lambda>chunk.
     if chunk = [] then fret (total_size, hashed)
     else fbind (flift (ok_or InvalidData (checked_add total_size (of_nat (length chunk))))) (\<lambda>total_size'.
          fbind (fguard (case limit of None \<Rightarrow> True | Some n \<Rightarrow> total_size' \<le> n) InvalidData) (\<lambda>_.
          fbind (write (unat total_size) chunk) (\<lambda>_.
            pump limit write reads total_size' (hashed @ chunk)))))"

record VerifiedFileCopy =
  vf_size :: u64
  vf_sha256_hex :: ustring

definition inspect_file_digest :: "machine \<Rightarrow> path \<Rightarrow> VerifiedFileCopy fsm" where
  "inspect_file_digest m p =
     fbind (open_file (locate m p)) (\<lambda>_.
     fbind (fs_metadata (locate m p)) (\<lambda>n.
     fbind (fguard (is_file n) InvalidData) (\<lambda>_.
     fbind (pump None (\<lambda>_ _. fret ()) (file_reads (node_contents n)) 0 []) (\<lambda>(total_size, hashed).
     fbind (fguard (total_size = node_len n) InvalidData) (\<lambda>_.
       fret \<lparr>vf_size = total_size, vf_sha256_hex = encode_lower_hex (sha256 m hashed)\<rparr>)))))"

definition verify_prepared_installation_file :: "machine \<Rightarrow> path \<Rightarrow> u64 \<Rightarrow> ustring \<Rightarrow> unit fsm" where
  "verify_prepared_installation_file m p expected_size expected_sha256_hex =
     fbind (inspect_file_digest m p) (\<lambda>inspected.
     fbind (fguard (vf_size inspected = expected_size) InvalidData) (\<lambda>_.
       fguard (vf_sha256_hex inspected = expected_sha256_hex) InvalidData))"

definition copy_verified_file_inner :: "machine \<Rightarrow> path \<Rightarrow> path \<Rightarrow> (u64 \<times> ustring) option \<Rightarrow> VerifiedFileCopy fsm" where
  "copy_verified_file_inner m source destination expected =
     fbind (open_file (locate m source)) (\<lambda>_.
     fbind (fs_metadata (locate m source)) (\<lambda>n.
     fbind (fguard (is_file n) InvalidData) (\<lambda>_.
     (let source_size = node_len n in
     fbind (fguard (source_size \<noteq> 0) InvalidData) (\<lambda>_.
     fbind (fguard (case expected of None \<Rightarrow> True | Some (expected_size, _) \<Rightarrow> source_size = expected_size) InvalidData) (\<lambda>_.
     fbind (create_new (locate m destination)) (\<lambda>_.
     fbind (pump (map_option fst expected) (write_file_at (locate m destination)) (file_reads (node_contents n)) 0 []) (\<lambda>(total_size, hashed).
     fbind (fguard (total_size = source_size) InvalidData) (\<lambda>_.
     fbind (fs_metadata (locate m source)) (\<lambda>n'.
     fbind (fguard (node_len n' = source_size) InvalidData) (\<lambda>_.
     (let sha256_hex = encode_lower_hex (sha256 m hashed) in
     fbind (fguard (case expected of None \<Rightarrow> True | Some (_, expected_sha256_hex) \<Rightarrow> sha256_hex = expected_sha256_hex) InvalidData) (\<lambda>_.
     fbind (sync_all (locate m destination)) (\<lambda>_.
     (let copied = \<lparr>vf_size = total_size, vf_sha256_hex = sha256_hex\<rparr> in
     fbind (inspect_file_digest m destination) (\<lambda>inspected.
     fbind (fguard (inspected = copied) InvalidData) (\<lambda>_. fret copied)))))))))))))))))"

definition copy_verified_file :: "machine \<Rightarrow> path \<Rightarrow> path \<Rightarrow> (u64 \<times> ustring) option \<Rightarrow> VerifiedFileCopy fsm" where
  "copy_verified_file m source destination expected =
     on_error (copy_verified_file_inner m source destination expected) (remove_file_if_exists m destination)"

section \<open>Staging a download\<close>

definition partial_staged_executable_path :: "UpdateInstallPlan \<Rightarrow> path" where
  "partial_staged_executable_path pl = path_join (up_staging pl) (encode_utf16 (sel_name (up_asset pl)) @ UPDATE_PARTIAL_SUFFIX)"

definition partial_handoff_plan_path :: "path \<Rightarrow> path" where
  "partial_handoff_plan_path staging = path_join staging (UPDATE_HANDOFF_FILE @ UPDATE_PARTIAL_SUFFIX)"

definition update_backup_partial_path :: "path \<Rightarrow> path" where
  "update_backup_partial_path staging = path_join staging UPDATE_BACKUP_PARTIAL_FILE"

definition update_startup_marker_partial_path :: "path \<Rightarrow> path" where
  "update_startup_marker_partial_path marker = marker @ UPDATE_PARTIAL_SUFFIX"

definition prepare_update_staging_directory :: "machine \<Rightarrow> UpdateInstallPlan \<Rightarrow> unit fsm" where
  "prepare_update_staging_directory m pl =
     fbind (create_dir_all (locate m (up_staging pl))) (\<lambda>_.
       fmapM (remove_file_if_exists m)
         [up_staged pl, partial_staged_executable_path pl, up_backup pl, update_backup_partial_path (up_staging pl),
          up_handoff pl, partial_handoff_plan_path (up_staging pl), up_marker pl, update_startup_marker_partial_path (up_marker pl)])"

text \<open>A piece the connection gives may take several reads of the buffer; an empty read is the end.\<close>

fun reader_read :: "byte list io_result \<Rightarrow> byte list fsm list" where
  "reader_read (Inl e) = [ffail e]"
| "reader_read (Inr bs) = (if bs = [] then [fret []] else map fret (file_chunks bs))"

definition write_verified_staged_update :: "machine \<Rightarrow> UpdateInstallPlan \<Rightarrow> path \<Rightarrow> byte list io_result list \<Rightarrow> VerifiedStagedUpdate fsm" where
  "write_verified_staged_update m pl partial reads =
     fbind (create_new (locate m partial)) (\<lambda>_.
     fbind (pump (Some (sel_size (up_asset pl))) (write_file_at (locate m partial)) (concat (map reader_read reads)) 0 []) (\<lambda>(total_size, hashed).
     fbind (fguard (total_size = sel_size (up_asset pl)) InvalidData) (\<lambda>_.
     (let actual_sha256_hex = encode_lower_hex (sha256 m hashed) in
     fbind (fguard (actual_sha256_hex = sel_sha256_hex (up_asset pl)) InvalidData) (\<lambda>_.
     fbind (sync_all (locate m partial)) (\<lambda>_.
     fbind (replace (locate m partial) (locate m (up_staged pl))) (\<lambda>_.
       fret \<lparr>staged_executable = up_staged pl, staged_size = total_size, staged_sha256_hex = actual_sha256_hex\<rparr>)))))))"

definition stage_update_from_reader :: "machine \<Rightarrow> UpdateInstallPlan \<Rightarrow> byte list io_result list \<Rightarrow> VerifiedStagedUpdate fsm" where
  "stage_update_from_reader m pl reads =
     fbind (flift (validate_update_staging_plan pl)) (\<lambda>_.
     fbind (prepare_update_staging_directory m pl) (\<lambda>_.
     (let partial = partial_staged_executable_path pl in
      on_error (write_verified_staged_update m pl partial reads) (remove_file_if_exists m partial))))"

definition validate_download_content_length :: "ustring option \<Rightarrow> u64 \<Rightarrow> unit io_result" where
  "validate_download_content_length content_length expected_size =
     (case content_length of None \<Rightarrow> Inr ()
      | Some header \<Rightarrow>
          ebind (ok_or InvalidData (parse_word (str_trim header))) (\<lambda>n. ensure (n = expected_size) InvalidData))"

text \<open>The answer to the request: an error, or the length header and what the body gives on each read.\<close>

definition download_and_stage_update ::
    "machine \<Rightarrow> UpdateInstallPlan \<Rightarrow> (ustring option \<times> byte list io_result list) io_result \<Rightarrow> VerifiedStagedUpdate fsm" where
  "download_and_stage_update m pl response =
     fbind (flift (validate_update_staging_plan pl)) (\<lambda>_.
     fbind (flift response) (\<lambda>(content_length, reads).
     fbind (flift (validate_download_content_length content_length (sel_size (up_asset pl)))) (\<lambda>_.
       stage_update_from_reader m pl reads)))"

definition plan_current_update :: "machine \<Rightarrow> ReleaseInfo \<Rightarrow> ReleaseArtifactKind \<Rightarrow> UpdateInstallPlan io_result" where
  "plan_current_update m release k =
     ebind (current_exe m) (\<lambda>current.
     ebind (ok_or NotFound (app_data m)) (\<lambda>local_app_data.
       build_update_install_plan current local_app_data release k))"

section \<open>Writing and reading the handoff file\<close>

definition write_update_handoff_bytes :: "machine \<Rightarrow> path \<Rightarrow> path \<Rightarrow> byte list \<Rightarrow> unit fsm" where
  "write_update_handoff_bytes m partial final encoded =
     fbind (create_new (locate m partial)) (\<lambda>_.
     fbind (write_file_at (locate m partial) 0 encoded) (\<lambda>_.
     fbind (sync_all (locate m partial)) (\<lambda>_.
       replace (locate m partial) (locate m final))))"

text \<open>\<^verbatim>\<open>File::open\<close>, \<^verbatim>\<open>take\<close> and \<^verbatim>\<open>read_to_end\<close>.\<close>

definition read_limited :: "fpath \<Rightarrow> nat \<Rightarrow> byte list fsm" where
  "read_limited p limit = fbind (open_file p) (\<lambda>_. fbind (read_contents p) (\<lambda>c. fret (take limit c)))"

definition read_update_handoff_plan :: "machine \<Rightarrow> path \<Rightarrow> UpdateHandoffPlan fsm" where
  "read_update_handoff_plan m p =
     fbind (fguard (absolute_path p) InvalidInput) (\<lambda>_.
     fbind (read_limited (locate m p) (UPDATE_HANDOFF_MAX_BYTES + 1)) (\<lambda>encoded.
     fbind (fguard (length encoded \<le> UPDATE_HANDOFF_MAX_BYTES) InvalidData) (\<lambda>_.
     fbind (flift (decode_update_handoff_plan encoded)) (\<lambda>h.
     fbind (fguard (path_eq (ho_handoff h) p) InvalidData) (\<lambda>_. fret h)))))"

text \<open>Two plans are compared field by field, their paths by components.\<close>

definition handoff_eq :: "UpdateHandoffPlan \<Rightarrow> UpdateHandoffPlan \<Rightarrow> bool" where
  "handoff_eq a b \<longleftrightarrow>
     ho_parent a = ho_parent b \<and> ho_kind a = ho_kind b \<and> ho_naming a = ho_naming b \<and> path_eq (ho_current a) (ho_current b) \<and>
     path_eq (ho_install a) (ho_install b) \<and> path_eq (ho_staging a) (ho_staging b) \<and> path_eq (ho_staged a) (ho_staged b) \<and>
     path_eq (ho_backup a) (ho_backup b) \<and> path_eq (ho_handoff a) (ho_handoff b) \<and> path_eq (ho_marker a) (ho_marker b) \<and>
     ho_size a = ho_size b \<and> ho_sha256_hex a = ho_sha256_hex b"

definition write_update_handoff_plan ::
    "machine \<Rightarrow> UpdateInstallPlan \<Rightarrow> VerifiedStagedUpdate \<Rightarrow> u32 \<Rightarrow> UpdateHandoffPlan fsm" where
  "write_update_handoff_plan m pl verified parent_process_id =
     fbind (flift (build_update_handoff_plan pl verified parent_process_id)) (\<lambda>h.
     fbind (fs_metadata (locate m (ho_staged h))) (\<lambda>n.
     fbind (fguard (is_file n) InvalidData) (\<lambda>_.
     fbind (fguard (node_len n = ho_size h) InvalidData) (\<lambda>_.
     fbind (flift (encode_update_handoff_plan h)) (\<lambda>encoded.
     (let partial = partial_handoff_plan_path (up_staging pl) in
     fbind (remove_file_if_exists m partial) (\<lambda>_.
     fbind (remove_file_if_exists m (up_handoff pl)) (\<lambda>_.
     fbind (on_error (write_update_handoff_bytes m partial (up_handoff pl) encoded) (remove_file_if_exists m partial)) (\<lambda>_.
     fbind (read_update_handoff_plan m (up_handoff pl)) (\<lambda>decoded.
     fbind (fguard (handoff_eq decoded h) InvalidData) (\<lambda>_. fret h)))))))))))"

record UpdateHandoffLaunchReport =
  launch_helper :: u32
  launch_parent :: u32

definition launch_update_handoff_wait_helper :: "machine \<Rightarrow> u32 io_result \<Rightarrow> path \<Rightarrow> ReleaseArtifactKind \<Rightarrow> UpdateHandoffLaunchReport fsm" where
  "launch_update_handoff_wait_helper m spawn handoff_path k =
     fbind (read_update_handoff_plan m handoff_path) (\<lambda>h.
     fbind (fguard (ho_kind h = k) InvalidData) (\<lambda>_.
     fbind (fguard (ho_parent h = own_process m) InvalidData) (\<lambda>_.
     fbind (fs_metadata (locate m (ho_staged h))) (\<lambda>n.
     fbind (fguard (is_file n) InvalidData) (\<lambda>_.
     fbind (fguard (node_len n = ho_size h) InvalidData) (\<lambda>_.
     fbind (flift spawn) (\<lambda>helper. fret \<lparr>launch_helper = helper, launch_parent = own_process m\<rparr>)))))))"

section \<open>Preparing an installation\<close>

definition beside_install :: "UpdateHandoffPlan \<Rightarrow> path \<Rightarrow> path io_result" where
  "beside_install h suffix_units =
     ebind (ok_or InvalidInput (path_parent (ho_install h))) (\<lambda>install_parent.
     ebind (ok_or InvalidInput (file_name (ho_install h))) (\<lambda>install_file_name.
       Inr (path_join install_parent (install_file_name @ suffix_units))))"

definition update_install_candidate_path :: "UpdateHandoffPlan \<Rightarrow> path io_result" where
  "update_install_candidate_path h = beside_install h UPDATE_INSTALL_CANDIDATE_SUFFIX"

definition update_rollback_candidate_path :: "UpdateHandoffPlan \<Rightarrow> path io_result" where
  "update_rollback_candidate_path h = beside_install h UPDATE_ROLLBACK_CANDIDATE_SUFFIX"

definition same_parent :: "path \<Rightarrow> path \<Rightarrow> bool" where
  "same_parent p q \<longleftrightarrow> rel_option path_eq (path_parent p) (path_parent q)"

definition validate_update_installation_paths :: "UpdateHandoffPlan \<Rightarrow> path \<Rightarrow> path \<Rightarrow> unit io_result" where
  "validate_update_installation_paths h backup_partial install_candidate =
     ebind (ensure (absolute_path backup_partial) InvalidInput) (\<lambda>_.
     ebind (ensure (absolute_path install_candidate) InvalidInput) (\<lambda>_.
     ebind (ensure (rel_option path_eq (path_parent backup_partial) (Some (ho_staging h))) InvalidInput) (\<lambda>_.
     ebind (ensure (same_parent install_candidate (ho_install h)) InvalidInput) (\<lambda>_.
     ebind (ensure (\<not> list_ex (path_eq install_candidate)
              [ho_current h, ho_install h, ho_staged h, ho_backup h, ho_handoff h, ho_marker h]) InvalidInput) (\<lambda>_.
     ebind (ensure (\<not> list_ex (path_eq backup_partial) [ho_staged h, ho_backup h, ho_handoff h, ho_marker h]) InvalidInput) (\<lambda>_.
       ensure (\<not> path_eq backup_partial install_candidate) InvalidInput))))))"

record PreparedUpdateInstallation =
  pi_backup :: path
  pi_candidate :: path
  pi_backup_size :: u64
  pi_backup_sha256_hex :: ustring
  pi_candidate_size :: u64
  pi_candidate_sha256_hex :: ustring

definition prepare_update_installation_files :: "machine \<Rightarrow> UpdateHandoffPlan \<Rightarrow> PreparedUpdateInstallation fsm" where
  "prepare_update_installation_files m h =
     fbind (flift (validate_update_handoff_plan h)) (\<lambda>_.
     (let backup_partial = update_backup_partial_path (ho_staging h) in
     fbind (flift (update_install_candidate_path h)) (\<lambda>candidate.
     fbind (flift (validate_update_installation_paths h backup_partial candidate)) (\<lambda>_.
     fbind (remove_file_if_exists m backup_partial) (\<lambda>_.
     fbind (remove_file_if_exists m candidate) (\<lambda>_.
     fbind (copy_verified_file m (ho_current h) backup_partial None) (\<lambda>backup_copy.
     fbind (on_error (replace (locate m backup_partial) (locate m (ho_backup h))) (remove_file_if_exists m backup_partial)) (\<lambda>_.
     fbind (inspect_file_digest m (ho_backup h)) (\<lambda>published_backup.
     fbind (on_error (fguard (published_backup = backup_copy) InvalidData) (remove_file_if_exists m (ho_backup h))) (\<lambda>_.
     fbind (copy_verified_file m (ho_staged h) candidate (Some (ho_size h, ho_sha256_hex h))) (\<lambda>candidate_copy.
       fret \<lparr>pi_backup = ho_backup h, pi_candidate = candidate, pi_backup_size = vf_size backup_copy,
             pi_backup_sha256_hex = vf_sha256_hex backup_copy, pi_candidate_size = vf_size candidate_copy,
             pi_candidate_sha256_hex = vf_sha256_hex candidate_copy\<rparr>)))))))))))"

section \<open>Publishing the new executable\<close>

datatype UpdateInstallationPublication = PublishedSideBySide path bool | ReplacedInPlace path

fun publication_installed_executable :: "UpdateInstallationPublication \<Rightarrow> path" where
  "publication_installed_executable (PublishedSideBySide p _) = p"
| "publication_installed_executable (ReplacedInPlace p) = p"

definition validate_custom_replacement_paths :: "UpdateHandoffPlan \<Rightarrow> PreparedUpdateInstallation \<Rightarrow> path \<Rightarrow> unit io_result" where
  "validate_custom_replacement_paths h i rollback_candidate =
     ebind (ensure (ho_naming h = PreserveCurrentName) InvalidInput) (\<lambda>_.
     ebind (ensure (path_eq (ho_install h) (ho_current h)) InvalidInput) (\<lambda>_.
     ebind (ensure (same_parent rollback_candidate (ho_install h)) InvalidInput) (\<lambda>_.
       ensure (\<not> list_ex (path_eq rollback_candidate)
         [ho_current h, ho_staged h, ho_backup h, ho_handoff h, ho_marker h, pi_candidate i]) InvalidInput)))"

definition rollback_custom_named_update :: "machine \<Rightarrow> UpdateHandoffPlan \<Rightarrow> PreparedUpdateInstallation \<Rightarrow> unit fsm" where
  "rollback_custom_named_update m h i =
     fbind (flift (update_rollback_candidate_path h)) (\<lambda>rollback_candidate.
     fbind (flift (validate_custom_replacement_paths h i rollback_candidate)) (\<lambda>_.
     fbind (verify_prepared_installation_file m (pi_backup i) (pi_backup_size i) (pi_backup_sha256_hex i)) (\<lambda>_.
     fbind (remove_file_if_exists m rollback_candidate) (\<lambda>_.
     fbind (copy_verified_file m (pi_backup i) rollback_candidate (Some (pi_backup_size i, pi_backup_sha256_hex i))) (\<lambda>_.
     fbind (replace (locate m rollback_candidate) (locate m (ho_install h))) (\<lambda>_.
       verify_prepared_installation_file m (ho_install h) (pi_backup_size i) (pi_backup_sha256_hex i)))))))"

definition publish_custom_named_update ::
    "machine \<Rightarrow> UpdateHandoffPlan \<Rightarrow> PreparedUpdateInstallation \<Rightarrow> UpdateInstallationPublication fsm" where
  "publish_custom_named_update m h i =
     fbind (flift (update_rollback_candidate_path h)) (\<lambda>rollback_candidate.
     fbind (flift (validate_custom_replacement_paths h i rollback_candidate)) (\<lambda>_.
     fbind (verify_prepared_installation_file m (ho_current h) (pi_backup_size i) (pi_backup_sha256_hex i)) (\<lambda>_.
     fbind (replace (locate m (pi_candidate i)) (locate m (ho_install h))) (\<lambda>_.
     fbind (on_error (verify_prepared_installation_file m (ho_install h) (ho_size h) (ho_sha256_hex h)) (rollback_custom_named_update m h i)) (\<lambda>_.
       fret (ReplacedInPlace (ho_install h)))))))"

definition publish_officially_named_update ::
    "machine \<Rightarrow> UpdateHandoffPlan \<Rightarrow> PreparedUpdateInstallation \<Rightarrow> UpdateInstallationPublication fsm" where
  "publish_officially_named_update m h i =
     fbind (fguard (\<not> path_eq (ho_install h) (ho_current h)) InvalidInput) (\<lambda>_.
     fmatch (fs_metadata (locate m (ho_install h))) (\<lambda>present.
     case present of
       Inr _ \<Rightarrow>
         fmatch (verify_prepared_installation_file m (ho_install h) (ho_size h) (ho_sha256_hex h)) (\<lambda>verified.
         case verified of
           Inl _ \<Rightarrow> ffail AlreadyExists
         | Inr _ \<Rightarrow> fbind (remove_file_if_exists m (pi_candidate i)) (\<lambda>_. fret (PublishedSideBySide (ho_install h) False)))
     | Inl e \<Rightarrow>
         if e \<noteq> NotFound then ffail e
         else fbind (move_new (locate m (pi_candidate i)) (locate m (ho_install h))) (\<lambda>_.
              fbind (on_error (verify_prepared_installation_file m (ho_install h) (ho_size h) (ho_sha256_hex h))
                       (remove_file_if_exists m (ho_install h))) (\<lambda>_.
                fret (PublishedSideBySide (ho_install h) True)))))"

definition publish_prepared_update_installation ::
    "machine \<Rightarrow> UpdateHandoffPlan \<Rightarrow> PreparedUpdateInstallation \<Rightarrow> UpdateInstallationPublication fsm" where
  "publish_prepared_update_installation m h i =
     fbind (flift (validate_update_handoff_plan h)) (\<lambda>_.
     fbind (fguard (path_eq (pi_backup i) (ho_backup h)) InvalidInput) (\<lambda>_.
     fbind (flift (update_install_candidate_path h)) (\<lambda>expected_candidate.
     fbind (fguard (path_eq (pi_candidate i) expected_candidate) InvalidInput) (\<lambda>_.
     fbind (verify_prepared_installation_file m (pi_backup i) (pi_backup_size i) (pi_backup_sha256_hex i)) (\<lambda>_.
     fbind (fguard (pi_candidate_size i = ho_size h \<and> pi_candidate_sha256_hex i = ho_sha256_hex h) InvalidData) (\<lambda>_.
     fbind (verify_prepared_installation_file m (pi_candidate i) (ho_size h) (ho_sha256_hex h)) (\<lambda>_.
       case ho_naming h of
         PreserveCurrentName \<Rightarrow> publish_custom_named_update m h i
       | PublishedAssetName \<Rightarrow> publish_officially_named_update m h i)))))))"

section \<open>Waiting for processes\<close>

definition open_parent_process :: "machine \<Rightarrow> u32 \<Rightarrow> bool io_result" where
  "open_parent_process m pid =
     ebind (ensure (pid \<noteq> 0) InvalidInput) (\<lambda>_.
     ebind (ensure (pid \<noteq> own_process m) InvalidInput) (\<lambda>_. open_process m pid))"

definition wait_for_process_exit :: "machine \<Rightarrow> u32 \<Rightarrow> unit io_result" where
  "wait_for_process_exit m pid =
     (case wait_object m pid of
        WAIT_OBJECT_0 \<Rightarrow> Inr () | WAIT_TIMEOUT \<Rightarrow> Inl TimedOut | WAIT_FAILED e \<Rightarrow> Inl e | WAIT_UNEXPECTED _ \<Rightarrow> Inl InvalidData)"

definition validate_update_helper_identity :: "machine \<Rightarrow> UpdateHandoffPlan \<Rightarrow> unit fsm" where
  "validate_update_helper_identity m h =
     fbind (flift (current_exe m)) (\<lambda>current.
     fbind (canonicalize m current) (\<lambda>actual.
     fbind (canonicalize m (ho_staged h)) (\<lambda>expected.
       fguard (actual = expected) InvalidData)))"

definition verify_update_handoff_executable :: "machine \<Rightarrow> UpdateHandoffPlan \<Rightarrow> unit fsm" where
  "verify_update_handoff_executable m h =
     fbind (open_file (locate m (ho_staged h))) (\<lambda>_.
     fbind (fs_metadata (locate m (ho_staged h))) (\<lambda>n.
     fbind (fguard (is_file n) InvalidData) (\<lambda>_.
     fbind (fguard (node_len n = ho_size h) InvalidData) (\<lambda>_.
     fbind (pump (Some (ho_size h)) (\<lambda>_ _. fret ()) (file_reads (node_contents n)) 0 []) (\<lambda>(total_size, hashed).
     fbind (fguard (total_size = ho_size h) InvalidData) (\<lambda>_.
       fguard (encode_lower_hex (sha256 m hashed) = ho_sha256_hex h) InvalidData))))))"

section \<open>The startup marker file\<close>

definition write_update_startup_marker_file :: "machine \<Rightarrow> path \<Rightarrow> UpdateStartupMarker \<Rightarrow> unit fsm" where
  "write_update_startup_marker_file m marker_path marker =
     fbind (flift (encode_update_startup_marker marker)) (\<lambda>encoded.
     (let partial = update_startup_marker_partial_path marker_path in
     fbind (remove_file_if_exists m partial) (\<lambda>_.
     fmatch (fs_metadata (locate m marker_path)) (\<lambda>present.
     case present of
       Inr _ \<Rightarrow> ffail AlreadyExists
     | Inl e \<Rightarrow>
         if e \<noteq> NotFound then ffail e
         else on_error
                (fbind (create_new (locate m partial)) (\<lambda>_.
                 fbind (write_file_at (locate m partial) 0 encoded) (\<lambda>_.
                 fbind (sync_all (locate m partial)) (\<lambda>_.
                   move_new (locate m partial) (locate m marker_path)))))
                (remove_file_if_exists m partial)))))"

definition read_update_startup_marker :: "machine \<Rightarrow> path \<Rightarrow> UpdateStartupMarker fsm" where
  "read_update_startup_marker m marker_path =
     fbind (read_limited (locate m marker_path) (UPDATE_STARTUP_MARKER_BYTES + 1)) (\<lambda>encoded.
       flift (decode_update_startup_marker encoded))"

definition validate_startup_marker_for_handoff :: "UpdateStartupMarker \<Rightarrow> UpdateHandoffPlan \<Rightarrow> unit io_result" where
  "validate_startup_marker_for_handoff marker h =
     ebind (ensure (marker_size marker = ho_size h) InvalidData) (\<lambda>_.
       ensure (marker_sha256_hex marker = ho_sha256_hex h) InvalidData)"

section \<open>Starting the new executable\<close>

text \<open>What the launched program has published by now; the marker is moved into place only where there is none.\<close>

definition child_publishes :: "fpath \<Rightarrow> byte list option \<Rightarrow> unit fsm" where
  "child_publishes p marker s =
     (case marker of
        None \<Rightarrow> (Inr (), s)
      | Some bs \<Rightarrow>
          if fmlookup (nodes s) p \<noteq> None then (Inr (), s)
          else (Inr (), s\<lparr>nodes := fmupd p (FileNode bs (clock s) FILE_ATTRIBUTE_ARCHIVE) (nodes s)\<rparr>))"

definition poll_startup ::
    "machine \<Rightarrow> UpdateHandoffPlan \<Rightarrow> u32 \<Rightarrow> startup_poll \<Rightarrow> UpdateStartupMarker fsm \<Rightarrow> UpdateStartupMarker fsm" where
  "poll_startup m h child_id p not_yet =
     fbind (child_publishes (locate m (ho_marker h)) (poll_marker p)) (\<lambda>_.
     fmatch (read_update_startup_marker m (ho_marker h)) (\<lambda>r.
     case r of
       Inr marker \<Rightarrow>
         fbind (fguard (marker_pid marker = child_id) InvalidData) (\<lambda>_.
         fbind (flift (validate_startup_marker_for_handoff marker h)) (\<lambda>_.
         fbind (flift (poll_exited p)) (\<lambda>exited. if exited then ffail OtherError else fret marker)))
     | Inl e \<Rightarrow>
         if e = NotFound then fbind (flift (poll_exited p)) (\<lambda>exited. if exited then ffail OtherError else not_yet)
         else ffail e))"

fun wait_for_update_startup_marker ::
    "machine \<Rightarrow> UpdateHandoffPlan \<Rightarrow> u32 \<Rightarrow> startup_poll \<Rightarrow> startup_poll list \<Rightarrow> UpdateStartupMarker fsm" where
  "wait_for_update_startup_marker m h child_id p [] = poll_startup m h child_id p (ffail TimedOut)"
| "wait_for_update_startup_marker m h child_id p (q # qs) =
     poll_startup m h child_id p (wait_for_update_startup_marker m h child_id q qs)"

definition stop_failed_update_process :: "child_run \<Rightarrow> unit io_result" where
  "stop_failed_update_process child =
     ebind (stop_status child) (\<lambda>exited.
     if exited then Inr ()
     else (case stop_kill child of
             Inl kill_error \<Rightarrow> ebind (stop_recheck child) (\<lambda>exited'. if exited' then Inr () else Inl kill_error)
           | Inr _ \<Rightarrow> stop_reap child))"

record UpdateStartupReport =
  sr_process :: u32
  sr_installed :: path
  sr_marker :: path

definition confirm_startup :: "machine \<Rightarrow> child_run \<Rightarrow> UpdateHandoffPlan \<Rightarrow> path \<Rightarrow> u32 \<Rightarrow> UpdateStartupReport fsm" where
  "confirm_startup m child h installed child_id =
     fbind (wait_for_update_startup_marker m h child_id (first_poll child) (later_polls child)) (\<lambda>marker.
     fbind (fguard (marker_pid marker = child_id) InvalidData) (\<lambda>_.
     fbind (verify_prepared_installation_file m installed (ho_size h) (ho_sha256_hex h)) (\<lambda>_.
       fret \<lparr>sr_process = child_id, sr_installed = installed, sr_marker = ho_marker h\<rparr>)))"

definition relaunch_installed_update ::
    "machine \<Rightarrow> child_run \<Rightarrow> UpdateHandoffPlan \<Rightarrow> UpdateInstallationPublication \<Rightarrow> UpdateStartupReport fsm" where
  "relaunch_installed_update m child h publication =
     (let installed = publication_installed_executable publication in
     fbind (fguard (path_eq installed (ho_install h)) InvalidData) (\<lambda>_.
     fbind (verify_prepared_installation_file m installed (ho_size h) (ho_sha256_hex h)) (\<lambda>_.
     fbind (remove_file_if_exists m (update_startup_marker_partial_path (ho_marker h))) (\<lambda>_.
     fbind (remove_file_if_exists m (ho_marker h)) (\<lambda>_.
     fbind (flift (ok_or InvalidInput (path_parent (ho_install h)))) (\<lambda>_.
     fbind (flift (spawned child)) (\<lambda>child_id.
       on_error (confirm_startup m child h installed child_id) (flift (stop_failed_update_process child)))))))))"

definition rollback_failed_update_startup ::
    "machine \<Rightarrow> UpdateHandoffPlan \<Rightarrow> PreparedUpdateInstallation \<Rightarrow> UpdateInstallationPublication \<Rightarrow> unit fsm" where
  "rollback_failed_update_startup m h i publication =
     fbind (case publication of
              PublishedSideBySide installed created \<Rightarrow>
                fbind (fguard (path_eq installed (ho_install h)) InvalidData) (\<lambda>_.
                if created then
                  fbind (verify_prepared_installation_file m installed (ho_size h) (ho_sha256_hex h)) (\<lambda>_.
                    remove_file_if_exists m installed)
                else fret ())
            | ReplacedInPlace installed \<Rightarrow>
                fbind (fguard (path_eq installed (ho_install h)) InvalidData) (\<lambda>_.
                  rollback_custom_named_update m h i)) (\<lambda>_.
     fbind (remove_file_if_exists m (update_startup_marker_partial_path (ho_marker h))) (\<lambda>_.
       remove_file_if_exists m (ho_marker h)))"

section \<open>The update helper\<close>

datatype ParentProcessWaitOutcome = AlreadyExited | Exited

record UpdateHandoffWaitReport =
  wr_handoff :: UpdateHandoffPlan
  wr_parent_wait :: ParentProcessWaitOutcome
  wr_installation :: PreparedUpdateInstallation
  wr_publication :: UpdateInstallationPublication
  wr_startup :: "UpdateStartupReport option"

definition complete_update_handoff_after_parent_exit ::
    "machine \<Rightarrow> UpdateHandoffPlan \<Rightarrow> ParentProcessWaitOutcome \<Rightarrow> UpdateHandoffWaitReport fsm" where
  "complete_update_handoff_after_parent_exit m h parent_wait =
     fbind (prepare_update_installation_files m h) (\<lambda>installation.
     fbind (publish_prepared_update_installation m h installation) (\<lambda>publication.
       fret \<lparr>wr_handoff = h, wr_parent_wait = parent_wait, wr_installation = installation, wr_publication = publication,
             wr_startup = None\<rparr>))"

definition run_update_handoff_wait_mode ::
    "machine \<Rightarrow> child_run \<Rightarrow> path \<Rightarrow> ReleaseArtifactKind \<Rightarrow> UpdateHandoffWaitReport fsm" where
  "run_update_handoff_wait_mode m child handoff_path k =
     fbind (read_update_handoff_plan m handoff_path) (\<lambda>h.
     fbind (fguard (ho_kind h = k) InvalidData) (\<lambda>_.
     fbind (validate_update_helper_identity m h) (\<lambda>_.
     fbind (flift (open_parent_process m (ho_parent h))) (\<lambda>parent.
     fbind (verify_update_handoff_executable m h) (\<lambda>_.
     fbind (if parent then fbind (flift (wait_for_process_exit m (ho_parent h))) (\<lambda>_. fret Exited) else fret AlreadyExited) (\<lambda>parent_wait.
     fbind (complete_update_handoff_after_parent_exit m h parent_wait) (\<lambda>report.
     fbind (on_error (relaunch_installed_update m child (wr_handoff report) (wr_publication report))
              (rollback_failed_update_startup m (wr_handoff report) (wr_installation report) (wr_publication report))) (\<lambda>startup.
       fret (report\<lparr>wr_startup := Some startup\<rparr>)))))))))"

section \<open>Cleaning up after a successful update\<close>

definition update_staged_partial_path :: "UpdateHandoffPlan \<Rightarrow> path" where
  "update_staged_partial_path h = ho_staged h @ UPDATE_PARTIAL_SUFFIX"

definition successful_update_cleanup_paths :: "UpdateHandoffPlan \<Rightarrow> path list io_result" where
  "successful_update_cleanup_paths h =
     ebind (update_install_candidate_path h) (\<lambda>install_candidate.
     ebind (update_rollback_candidate_path h) (\<lambda>rollback_candidate.
       Inr [ho_staged h, install_candidate, rollback_candidate, update_staged_partial_path h,
            update_backup_partial_path (ho_staging h), partial_handoff_plan_path (ho_staging h),
            update_startup_marker_partial_path (ho_marker h), ho_backup h, ho_marker h, ho_handoff h]))"

definition validate_successful_cleanup_directory :: "machine \<Rightarrow> UpdateHandoffPlan \<Rightarrow> path list \<Rightarrow> unit fsm" where
  "validate_successful_cleanup_directory m h cleanup_paths =
     fmatch (fs_read_dir (locate m (ho_staging h))) (\<lambda>entries.
     case entries of
       Inl e \<Rightarrow> if e = NotFound then fret () else ffail e
     | Inr names \<Rightarrow>
         fbind (syscall (fret ())) (\<lambda>_.
           fguard (fBall names (\<lambda>name. list_ex (\<lambda>p. path_eq p (path_join (ho_staging h) name)) cleanup_paths)) InvalidData))"

definition remove_successful_update_transaction_files :: "machine \<Rightarrow> UpdateHandoffPlan \<Rightarrow> unit fsm" where
  "remove_successful_update_transaction_files m h =
     fbind (flift (validate_update_handoff_plan h)) (\<lambda>_.
     fbind (flift (successful_update_cleanup_paths h)) (\<lambda>cleanup_paths.
     fbind (validate_successful_cleanup_directory m h cleanup_paths) (\<lambda>_.
     fbind (fmapM (remove_file_if_exists m) cleanup_paths) (\<lambda>_.
     fmatch (fs_remove_dir (locate m (ho_staging h))) (\<lambda>r.
     case r of Inr _ \<Rightarrow> fret () | Inl e \<Rightarrow> if e = NotFound then fret () else ffail e)))))"

definition finalize_successful_update :: "machine \<Rightarrow> UpdateHandoffPlan \<Rightarrow> unit fsm" where
  "finalize_successful_update m h =
     fbind (flift (validate_update_handoff_plan h)) (\<lambda>_.
     fbind (verify_prepared_installation_file m (ho_install h) (ho_size h) (ho_sha256_hex h)) (\<lambda>_.
     fbind (read_update_startup_marker m (ho_marker h)) (\<lambda>marker.
     fbind (flift (validate_startup_marker_for_handoff marker h)) (\<lambda>_.
     fbind (fguard (marker_pid marker = own_process m) InvalidData) (\<lambda>_.
       remove_successful_update_transaction_files m h)))))"

section \<open>The new program confirms and cleans up\<close>

record UpdateStartupConfirmation =
  sc_handoff :: UpdateHandoffPlan
  sc_process :: u32
  sc_helper :: u32

definition validate_installed_update_identity :: "machine \<Rightarrow> UpdateHandoffPlan \<Rightarrow> unit fsm" where
  "validate_installed_update_identity m h =
     fbind (flift (current_exe m)) (\<lambda>running.
     fbind (canonicalize m running) (\<lambda>canonical_running.
     fbind (canonicalize m (ho_install h)) (\<lambda>canonical_installed.
     fbind (fguard (canonical_running = canonical_installed) InvalidData) (\<lambda>_.
       verify_prepared_installation_file m (ho_install h) (ho_size h) (ho_sha256_hex h)))))"

definition prepare_update_startup_confirmation :: "machine \<Rightarrow> path \<Rightarrow> ReleaseArtifactKind \<Rightarrow> u32 \<Rightarrow> UpdateStartupConfirmation fsm" where
  "prepare_update_startup_confirmation m handoff_path k helper_process_id =
     fbind (read_update_handoff_plan m handoff_path) (\<lambda>h.
     fbind (fguard (ho_kind h = k) InvalidData) (\<lambda>_.
     fbind (fguard (helper_process_id \<noteq> 0) InvalidInput) (\<lambda>_.
     fbind (fguard (helper_process_id \<noteq> own_process m) InvalidInput) (\<lambda>_.
     fbind (validate_installed_update_identity m h) (\<lambda>_.
       fret \<lparr>sc_handoff = h, sc_process = own_process m, sc_helper = helper_process_id\<rparr>)))))"

text \<open>
  The worker waits on a channel before it cleans up: \<open>worker\<close> is whether it could be started and
  \<open>armed\<close> whether it took the message.
\<close>

definition write_update_startup_marker :: "machine \<Rightarrow> unit io_result \<Rightarrow> bool \<Rightarrow> UpdateStartupConfirmation \<Rightarrow> unit fsm" where
  "write_update_startup_marker m worker armed confirmation =
     (let h = sc_handoff confirmation in
     fbind (fguard (sc_process confirmation = own_process m) InvalidInput) (\<lambda>_.
     fbind (fguard (\<not> (sc_helper confirmation = 0 \<or> sc_helper confirmation = own_process m)) InvalidInput) (\<lambda>_.
     fbind (validate_installed_update_identity m h) (\<lambda>_.
     fbind (flift (open_parent_process m (sc_helper confirmation))) (\<lambda>helper_running.
     fbind (fguard helper_running BrokenPipe) (\<lambda>_.
     fbind (flift worker) (\<lambda>_.
     fbind (write_update_startup_marker_file m (ho_marker h)
              \<lparr>marker_pid = sc_process confirmation, marker_size = ho_size h, marker_sha256_hex = ho_sha256_hex h\<rparr>) (\<lambda>_.
     if armed then fret ()
     else fmatch (remove_file_if_exists m (ho_marker h)) (\<lambda>_.
          fmatch (remove_file_if_exists m (update_startup_marker_partial_path (ho_marker h))) (\<lambda>_. ffail OtherError))))))))))"

definition cleanup_worker :: "machine \<Rightarrow> UpdateStartupConfirmation \<Rightarrow> unit fsm" where
  "cleanup_worker m confirmation =
     fbind (flift (wait_for_process_exit m (sc_helper confirmation))) (\<lambda>_. finalize_successful_update m (sc_handoff confirmation))"

section \<open>Recovery at the next start\<close>

datatype UpdateRecoveryOutcome = NoTransaction | DeferredActiveStartup path u32 | Cleaned path bool

definition validate_recovery_installed_identity :: "machine \<Rightarrow> path \<Rightarrow> UpdateHandoffPlan \<Rightarrow> unit fsm" where
  "validate_recovery_installed_identity m current h =
     fbind (fguard (absolute_path current) InvalidInput) (\<lambda>_.
     fbind (canonicalize m current) (\<lambda>canonical_current.
     fbind (canonicalize m (ho_install h)) (\<lambda>canonical_installed.
     fbind (fguard (canonical_current = canonical_installed) InvalidData) (\<lambda>_.
       verify_prepared_installation_file m current (ho_size h) (ho_sha256_hex h)))))"

definition recover_transaction :: "machine \<Rightarrow> UpdateHandoffPlan \<Rightarrow> UpdateRecoveryOutcome fsm" where
  "recover_transaction m h =
     (let clean = (\<lambda>marker_present.
            fbind (remove_successful_update_transaction_files m h) (\<lambda>_. fret (Cleaned (ho_staging h) marker_present))) in
      fmatch (read_update_startup_marker m (ho_marker h)) (\<lambda>r.
      case r of
        Inr marker \<Rightarrow>
          fbind (flift (validate_startup_marker_for_handoff marker h)) (\<lambda>_.
          fbind (fguard (marker_pid marker \<noteq> own_process m) InvalidData) (\<lambda>_.
          fbind (flift (open_parent_process m (marker_pid marker))) (\<lambda>running.
            if running then fret (DeferredActiveStartup (ho_staging h) (marker_pid marker)) else clean True)))
      | Inl e \<Rightarrow> if e = NotFound then clean False else ffail e))"

definition recover_interrupted_update_cleanup_from_handoff ::
    "machine \<Rightarrow> path \<Rightarrow> path \<Rightarrow> ReleaseArtifactKind \<Rightarrow> UpdateRecoveryOutcome fsm" where
  "recover_interrupted_update_cleanup_from_handoff m current handoff_path k =
     fmatch (fs_metadata (locate m handoff_path)) (\<lambda>present.
     case present of
       Inl e \<Rightarrow> if e = NotFound then fret NoTransaction else ffail e
     | Inr n \<Rightarrow>
         fbind (fguard (is_file n) InvalidData) (\<lambda>_.
         fbind (read_update_handoff_plan m handoff_path) (\<lambda>h.
         fbind (fguard (ho_kind h = k) InvalidData) (\<lambda>_.
         fbind (flift (ok_or InvalidInput (path_parent handoff_path))) (\<lambda>expected_staging.
         fbind (fguard (path_eq (ho_handoff h) handoff_path) InvalidData) (\<lambda>_.
         fbind (fguard (path_eq (ho_staging h) expected_staging) InvalidData) (\<lambda>_.
         fbind (validate_recovery_installed_identity m current h) (\<lambda>_.
           recover_transaction m h))))))))"

definition recover_interrupted_update_cleanup :: "machine \<Rightarrow> ustring \<Rightarrow> ReleaseArtifactKind \<Rightarrow> UpdateRecoveryOutcome fsm" where
  "recover_interrupted_update_cleanup m current_version k =
     fbind (flift (current_exe m)) (\<lambda>current.
     fbind (flift (ok_or NotFound (app_data m))) (\<lambda>local_app_data.
     fbind (fguard (absolute_path local_app_data) InvalidInput) (\<lambda>_.
     fbind (flift (parse_stable_version current_version)) (\<lambda>version.
     (let staging = path_join (path_join (path_join (path_join local_app_data UPDATE_DATA_DIRECTORY) UPDATE_STAGING_DIRECTORY)
            (encode_utf16 (storage_key k))) (encode_utf16 (version_text version)) in
      recover_interrupted_update_cleanup_from_handoff m current (path_join staging UPDATE_HANDOFF_FILE) k)))))"

end
