(* ===== verification/Release_Safety.thy ===== *)
theory Release_Safety
  imports Release_Install
begin

text \<open>
  What the updater guarantees.  A Hoare logic over the file programs (\<open>triple\<close>, with a postcondition for
  results and one for errors) and the frame \<open>touches\<close> carry the proofs.  An update in place never loses the
  executable and is undone when it fails; an update beside it leaves it alone; a staged file is the release asset; the
  new program's confirmation reaches the helper; recovery deletes only what belongs to a verified update.
\<close>


section \<open>What the operations may change\<close>

context fs_frame
begin

lemma matched [frame_intros]:
  assumes "within R m" "\<And>r. within R (f r)"
  shows "within R (fmatch m f)"
  unfolding within_def
proof
  fix s
  obtain r s' where r: "m s = (r, s')" by force
  have "R s s'" using withinD [OF assms(1) r] .
  then show "R s (snd (fmatch m f s))" using assms(2) [of r] by (auto simp: fmatch_def r within_def intro: frame_trans)
qed

lemma bind_result:
  assumes m: "within R m" and f: "\<And>a s s'. m s = (Inr a, s') \<Longrightarrow> within R (f a)"
  shows "within R (fbind m f)"
  unfolding within_def
proof
  fix s
  obtain r s' where r: "m s = (r, s')" by force
  have "R s s'" using withinD [OF m r] .
  then show "R s (snd (fbind m f s))"
    using f r by (cases r) (auto simp: fbind_def within_def intro: frame_trans)
qed

lemma bind_lift: "(\<And>a. r = Inr a \<Longrightarrow> within R (f a)) \<Longrightarrow> within R (fbind (flift r) f)"
  by (cases r) (simp_all add: within_def fbind_def flift_def frame_refl)

lemma sum_case [frame_intros]: "(\<And>e. within R (f e)) \<Longrightarrow> (\<And>a. within R (g a)) \<Longrightarrow> within R (case r of Inl e \<Rightarrow> f e | Inr a \<Rightarrow> g a)"
  by (cases r) simp_all

lemma observes [frame_intros]:
  "within R (open_file q)" "within R (fs_read_dir q)" "within R (syscall (fret x))"
  unfolding open_file_def fs_read_dir_def
  by (rule query; simp add: fret_def split: option.splits node.splits)+

lemma pumped:
  assumes "\<And>t c. within R (w t c)" "\<And>r. r \<in> set rs \<Longrightarrow> within R r"
  shows "within R (pump limit w rs t h)"
  using assms(2)
proof (induction rs arbitrary: t h)
  case Nil
  then show ?case by (simp add: pure)
next
  case (Cons r rs)
  then show ?case by (auto intro!: bind pure assms(1) if_branches Cons.IH)
qed

lemma pumped_file:
  assumes "\<And>t c. within R (w t c)"
  shows "within R (pump limit w (file_reads c) t h)"
  by (rule pumped) (auto simp: file_reads_def intro: assms observes)

lemma inspects [frame_intros]:
  "within R (canonicalize m p)" "within R (read_limited q k)" "within R (inspect_file_digest m p)"
  "within R (verify_prepared_installation_file m p z x)" "within R (verify_update_handoff_executable m h)"
  "within R (read_update_handoff_plan m p)" "within R (read_update_startup_marker m p)"
  unfolding canonicalize_def read_limited_def verify_prepared_installation_file_def verify_update_handoff_executable_def
    inspect_file_digest_def read_update_handoff_plan_def read_update_startup_marker_def
  by (intro reads pure bind observes prod_case pumped_file)+

lemma identities [frame_intros]:
  "within R (validate_update_helper_identity m h)" "within R (validate_installed_update_identity m h)"
  "within R (validate_recovery_installed_identity m p h)" "within R (validate_successful_cleanup_directory m h ps)"
  unfolding validate_update_helper_identity_def validate_installed_update_identity_def validate_recovery_installed_identity_def
    validate_successful_cleanup_directory_def
  by (intro reads pure bind observes inspects matched sum_case if_branches)+

end

text \<open>
  \<open>touches T\<close>: only the entries in \<open>T\<close> may differ afterwards, and calls that are all successful stay so.
\<close>

definition touches :: "fpath set \<Rightarrow> fs \<Rightarrow> fs \<Rightarrow> bool" where
  "touches T s s' \<longleftrightarrow> (\<forall>q. q \<notin> T \<longrightarrow> fmlookup (nodes s') q = fmlookup (nodes s) q) \<and> (faults s = [] \<longrightarrow> faults s' = [])"

interpretation tch: fs_frame "touches T" for T
  by unfold_locales (auto simp: touches_def)

lemma touchesD: "touches T s s' \<Longrightarrow> q \<notin> T \<Longrightarrow> fmlookup (nodes s') q = fmlookup (nodes s) q"
  by (simp add: touches_def)

lemma touches_mono: "within (touches T) m \<Longrightarrow> T \<subseteq> U \<Longrightarrow> within (touches U) m"
  by (auto simp: within_def touches_def)

lemma touches_update: "q \<in> T \<Longrightarrow> within (touches T) (update_file q f)"
  by (auto simp: within_def touches_def update_file_def split: option.splits sum.splits)

lemma touches_write: "q \<in> T \<Longrightarrow> within (touches T) (write_file_at q t c)"
  unfolding within_def
proof
  fix s
  assume q: "q \<in> T"
  obtain f s' where f: "next_fault s = (f, s')" by force
  have "touches T s s'" using tch.fault_step [OF f] .
  moreover have "touches T s' (snd (update_file q g s'))" for g using touches_update [OF q, of g] by (simp add: within_def)
  ultimately show "touches T s (snd (write_file_at q t c s))"
    by (auto simp: write_file_at_def f intro: tch.frame_trans split: option.splits)
qed

lemma touches_calls:
  assumes "q \<in> T"
  shows "within (touches T) (create_new q)" "within (touches T) (fs_remove_file q)" "within (touches T) (fs_remove_dir q)"
    "r \<in> T \<Longrightarrow> within (touches T) (replace q r)" "r \<in> T \<Longrightarrow> within (touches T) (move_new q r)"
  unfolding create_new_def fs_remove_file_def replace_def move_new_def fs_remove_dir_def
  using assms by (auto intro!: tch.call) (auto simp: within_def touches_def split: option.splits node.splits)

lemma touches_remove: "q \<in> T \<Longrightarrow> within (touches T) (remove_file_if_present q)"
  unfolding remove_file_if_present_def by (rule tch.handled) (rule touches_calls)

lemma touches_child: "q \<in> T \<Longrightarrow> within (touches T) (child_publishes q b)"
  by (auto simp: within_def touches_def child_publishes_def split: option.splits)

lemmas touches_rules = touches_calls touches_write touches_remove touches_child

lemma touches_copy: "locate m d \<in> T \<Longrightarrow> within (touches T) (copy_verified_file m p d x)"
  unfolding copy_verified_file_def copy_verified_file_inner_def Let_def
  by (intro frame_intros tch.pumped_file touches_rules)

lemma touches_rollback:
  assumes "\<And>r. update_rollback_candidate_path h = Inr r \<Longrightarrow> locate m r \<in> T" "locate m (ho_install h) \<in> T"
  shows "within (touches T) (rollback_custom_named_update m h i)"
  unfolding rollback_custom_named_update_def using assms
  by (intro tch.bind_lift frame_intros touches_rules touches_copy) auto

lemma touches_wait: "locate m (ho_marker h) \<in> T \<Longrightarrow> within (touches T) (wait_for_update_startup_marker m h child_id p ps)"
proof (induction ps arbitrary: p)
  case Nil
  then show ?case by (auto simp: poll_startup_def intro!: frame_intros touches_rules)
next
  case (Cons q qs)
  then show ?case by (auto simp: poll_startup_def intro!: frame_intros touches_rules)
qed

lemma touches_relaunch:
  assumes "locate m (ho_marker h) \<in> T" "locate m (update_startup_marker_partial_path (ho_marker h)) \<in> T"
  shows "within (touches T) (relaunch_installed_update m child h publication)"
  unfolding relaunch_installed_update_def confirm_startup_def Let_def using assms
  by (intro frame_intros touches_rules touches_wait)

section \<open>A Hoare logic for file programs\<close>

text \<open>
  \<open>triple P m Q E\<close>: from a state with \<open>P\<close>, \<open>m\<close> ends with a result and \<open>Q\<close>, or with an error and
  \<open>E\<close>, whatever calls fail on the way.
\<close>

definition triple :: "(fs \<Rightarrow> bool) \<Rightarrow> 'a fsm \<Rightarrow> ('a \<Rightarrow> fs \<Rightarrow> bool) \<Rightarrow> (fs \<Rightarrow> bool) \<Rightarrow> bool" where
  "triple P m Q E \<longleftrightarrow> (\<forall>s. P s \<longrightarrow> (case m s of (Inl _, s') \<Rightarrow> E s' | (Inr a, s') \<Rightarrow> Q a s'))"

lemma tripleI:
  assumes "\<And>s a s'. P s \<Longrightarrow> m s = (Inr a, s') \<Longrightarrow> Q a s'" "\<And>s e s'. P s \<Longrightarrow> m s = (Inl e, s') \<Longrightarrow> E s'"
  shows "triple P m Q E"
  using assms by (force simp: triple_def split: prod.splits sum.splits)

lemma triple_Inr: "triple P m Q E \<Longrightarrow> P s \<Longrightarrow> m s = (Inr a, s') \<Longrightarrow> Q a s'"
  by (force simp: triple_def)

lemma triple_Inl: "triple P m Q E \<Longrightarrow> P s \<Longrightarrow> m s = (Inl e, s') \<Longrightarrow> E s'"
  by (force simp: triple_def)

lemma triple_bind:
  assumes "triple P m Q E" "\<And>a. triple (Q a) (f a) R E"
  shows "triple P (fbind m f) R E"
proof (rule tripleI)
  fix s b s'
  assume P: "P s" and r: "fbind m f s = (Inr b, s')"
  from r show "R b s'" by (rule fbind_cases) (use triple_Inr [OF assms(1) P] triple_Inr [OF assms(2)] in auto)
next
  fix s e s'
  assume P: "P s" and r: "fbind m f s = (Inl e, s')"
  from r show "E s'"
    by (rule fbind_cases) (use triple_Inl [OF assms(1) P] triple_Inr [OF assms(1) P] triple_Inl [OF assms(2)] in auto)
qed

lemma triple_conseq:
  assumes "triple P m Q E" "\<And>s. P' s \<Longrightarrow> P s" "\<And>a s. Q a s \<Longrightarrow> Q' a s" "\<And>s. E s \<Longrightarrow> E' s"
  shows "triple P' m Q' E'"
  by (rule tripleI) (use triple_Inr [OF assms(1)] triple_Inl [OF assms(1)] assms(2-4) in blast)+

lemma triple_on_error:
  assumes "triple P m Q F" "triple F c (\<lambda>_. E) E"
  shows "triple P (on_error m c) Q E"
proof (rule tripleI)
  fix s a s'
  assume "P s" "on_error m c s = (Inr a, s')"
  then show "Q a s'" using triple_Inr [OF assms(1)] by (simp add: on_error_Inr)
next
  fix s e s'
  assume P: "P s" and e: "on_error m c s = (Inl e, s')"
  then obtain s1 where s1: "m s = (Inl e, s1)" "s' = snd (c s1)" by (auto simp: on_error_def split: prod.splits sum.splits)
  obtain r where r: "c s1 = (r, s')" using s1(2) by (cases "c s1") simp
  have "F s1" using triple_Inl [OF assms(1) P s1(1)] .
  then show "E s'" using r triple_Inl [OF assms(2), of s1] triple_Inr [OF assms(2), of s1] by (cases r) blast+
qed

lemma triple_match:
  assumes "triple P m Q F" "\<And>a. triple (Q a) (f (Inr a)) R E" "\<And>e. triple F (f (Inl e)) R E"
  shows "triple P (fmatch m f) R E"
proof -
  have "case fmatch m f s of (Inl e, s') \<Rightarrow> E s' | (Inr a, s') \<Rightarrow> R a s'" if P: "P s" for s
  proof -
    obtain r s1 where r: "m s = (r, s1)" by force
    show ?thesis
    proof (cases r)
      case (Inl e)
      then have "F s1" using triple_Inl [OF assms(1) P] r by simp
      then show ?thesis using assms(3) [of e] by (simp add: fmatch_def r Inl triple_def)
    next
      case (Inr a)
      then have "Q a s1" using triple_Inr [OF assms(1) P] r by simp
      then show ?thesis using assms(2) [of a] by (simp add: fmatch_def r Inr triple_def)
    qed
  qed
  then show ?thesis by (simp add: triple_def)
qed

lemma triple_pure:
  "triple P (fret x) (\<lambda>a s. P s \<and> a = x) E"
  "(\<And>s. P s \<Longrightarrow> E s) \<Longrightarrow> triple P (ffail e) Q E"
  "(\<And>s. P s \<Longrightarrow> E s) \<Longrightarrow> triple P (flift r) (\<lambda>a s. P s \<and> r = Inr a) E"
  "(\<And>s. P s \<Longrightarrow> E s) \<Longrightarrow> triple P (fguard b e) (\<lambda>_ s. P s \<and> b) E"
  by (simp_all add: triple_def fret_def ffail_def flift_def fguard_def split: sum.splits)

lemma triple_frame:
  assumes "within (touches T) m" "\<And>s s'. P s \<Longrightarrow> touches T s s' \<Longrightarrow> P s'"
  shows "triple P m (\<lambda>_. P) P"
  by (rule tripleI) (use withinD [OF assms(1)] assms(2) in blast)+

lemma triple_keep:
  assumes "triple P m Q E" "within (touches T) m" "\<And>s s'. A s \<Longrightarrow> touches T s s' \<Longrightarrow> A s'"
  shows "triple (\<lambda>s. P s \<and> A s) m (\<lambda>a s. Q a s \<and> A s) (\<lambda>s. E s \<and> A s)"
  by (rule tripleI) (use withinD [OF assms(2)] assms(3) triple_Inr [OF assms(1)] triple_Inl [OF assms(1)] in blast)+

lemma triple_ret: "(\<And>s. P s \<Longrightarrow> Q x s) \<Longrightarrow> triple P (fret x) Q E"
  by (simp add: triple_def fret_def)

lemma triple_vacuous: "(\<And>s. \<not> P s) \<Longrightarrow> triple P m Q E"
  by (simp add: triple_def)

lemma triple_lift:
  assumes "\<And>s. P s \<Longrightarrow> E s" "\<And>a. r = Inr a \<Longrightarrow> triple P (f a) Q E"
  shows "triple P (fbind (flift r) f) Q E"
  using assms by (cases r) (simp_all add: triple_def fbind_def flift_def)

lemma triple_guard:
  assumes "\<And>s. P s \<Longrightarrow> E s" "b \<Longrightarrow> triple P (f ()) Q E"
  shows "triple P (fbind (fguard b e) f) Q E"
  using assms by (cases b) (simp_all add: triple_def fbind_def fguard_def fret_def ffail_def)

lemma triple_quiet:
  assumes "within (touches {}) m" "\<And>s s'. P s \<Longrightarrow> touches {} s s' \<Longrightarrow> P s'" "\<And>s. P s \<Longrightarrow> E s" "\<And>a. triple P (f a) Q E"
  shows "triple P (fbind m f) Q E"
  by (rule triple_bind [OF triple_conseq [OF triple_frame [OF assms(1,2)]] assms(4)]) (use assms(3) in auto)

section \<open>Digests and copies\<close>

definition has_digest :: "machine \<Rightarrow> byte list \<Rightarrow> u64 \<Rightarrow> ustring \<Rightarrow> bool" where
  "has_digest m c n hex \<longleftrightarrow> length c = unat n \<and> encode_lower_hex (sha256 m c) = hex"

definition file_at :: "fs \<Rightarrow> fpath \<Rightarrow> byte list \<Rightarrow> bool" where
  "file_at s p c \<longleftrightarrow> (\<exists>t a. Option.bind (fmlookup (nodes s) p) resolve = Some (FileNode c t a))"

lemma file_at_unique: "file_at s p c \<Longrightarrow> file_at s p d \<Longrightarrow> c = d"
  by (auto simp: file_at_def)

lemma holds_file_at: "holds s p c \<Longrightarrow> file_at s p c"
  by (auto simp: holds_def file_at_def)

lemma file_chunks_concat: "concat (file_chunks c) = c \<and> [] \<notin> set (file_chunks c)"
proof (induction c rule: file_chunks.induct)
  case (1 c)
  then show ?case
    by (subst (1 2) file_chunks.simps) (auto simp: UPDATE_DOWNLOAD_BUFFER_SIZE_def)
qed

lemma quiet_Inr: "within unchanged_fs m \<Longrightarrow> m s = (r, s') \<Longrightarrow> nodes s' = nodes s"
  using withinD [of unchanged_fs m s r s'] by (simp add: unchanged_fs_def)

lemma fbind_InrE:
  assumes "fbind m f s = (Inr b, s')"
  obtains a t where "m s = (Inr a, t)" "f a t = (Inr b, s')"
  using assms by (rule fbind_cases) auto

lemma pump_step:
  assumes "pump limit w (r # rs) t h s = (Inr res, s')"
  obtains (End) "r s = (Inr [], s')" "res = (t, h)"
  | (More) c s1 t' u s2 where "r s = (Inr c, s1)" "c \<noteq> []" "checked_add t (of_nat (length c)) = Some t'"
      "w (unat t) c s1 = (Inr u, s2)" "pump limit w rs t' (h @ c) s2 = (Inr res, s')"
proof -
  from assms obtain c s1 where r: "r s = (Inr c, s1)"
    and rest: "(if c = [] then fret (t, h)
      else fbind (flift (ok_or InvalidData (checked_add t (of_nat (length c))))) (\<lambda>t'.
           fbind (fguard (case limit of None \<Rightarrow> True | Some n \<Rightarrow> t' \<le> n) InvalidData) (\<lambda>_.
           fbind (w (unat t) c) (\<lambda>_. pump limit w rs t' (h @ c))))) s1 = (Inr res, s')"
    unfolding pump.simps by (rule fbind_InrE)
  show thesis
  proof (cases "c = []")
    case True
    then show thesis using r rest by (intro End) (auto simp: fret_def)
  next
    case False
    then have "fbind (flift (ok_or InvalidData (checked_add t (of_nat (length c))))) (\<lambda>t'.
           fbind (fguard (case limit of None \<Rightarrow> True | Some n \<Rightarrow> t' \<le> n) InvalidData) (\<lambda>_.
           fbind (w (unat t) c) (\<lambda>_. pump limit w rs t' (h @ c)))) s1 = (Inr res, s')" using rest by simp
    then obtain t' where t': "checked_add t (of_nat (length c)) = Some t'"
      and g: "fbind (fguard (case limit of None \<Rightarrow> True | Some n \<Rightarrow> t' \<le> n) InvalidData) (\<lambda>_.
           fbind (w (unat t) c) (\<lambda>_. pump limit w rs t' (h @ c))) s1 = (Inr res, s')"
      by (rule fbind_InrE) (auto simp: flift_def result_simps)
    from g have "fbind (w (unat t) c) (\<lambda>_. pump limit w rs t' (h @ c)) s1 = (Inr res, s')"
      by (rule fbind_InrE) (auto simp: fguard_def fret_def ffail_def split: if_splits)
    then show thesis using More [OF r False t'] by (rule fbind_InrE)
  qed
qed

definition reader_ok :: "byte list fsm \<Rightarrow> bool" where
  "reader_ok r \<longleftrightarrow> within unchanged_fs r \<and> (\<forall>s c s'. r s = (Inr c, s') \<longrightarrow> length c < 2 ^ 64)"

text \<open>What is hashed and counted is what was written.\<close>

lemma pump_exact:
  assumes "pump limit w rs t h s = (Inr (n, x), s')" "\<forall>r \<in> set rs. reader_ok r"
  shows "\<exists>y. x = h @ y \<and> unat n = unat t + length y \<and>
    (\<forall>p z. w = write_file_at p \<longrightarrow> holds s p z \<longrightarrow> length z = unat t \<longrightarrow> holds s' p (z @ y))"
  using assms
proof (induction rs arbitrary: t h s)
  case Nil
  then show ?case by (auto simp: fret_def)
next
  case (Cons r rs)
  have quiet: "r s = (q, s1) \<Longrightarrow> nodes s1 = nodes s" for q s1
    using Cons.prems(2) by (auto simp: reader_ok_def intro: quiet_Inr)
  from Cons.prems(1) show ?case
  proof (cases rule: pump_step)
    case End
    then show ?thesis using quiet [of "Inr []" s'] by (auto simp: holds_def)
  next
    case (More c s1 t' u s2)
    have "length c < 2 ^ 64" using Cons.prems(2) More(1) by (auto simp: reader_ok_def)
    then have t': "unat t' = unat t + length c" using unat_checked_add [OF More(3)] by (simp add: unat_of_nat)
    obtain y where y: "x = (h @ c) @ y" "unat n = unat t' + length y"
      "\<And>p z. w = write_file_at p \<Longrightarrow> holds s2 p z \<Longrightarrow> length z = unat t' \<Longrightarrow> holds s' p (z @ y)"
      using Cons.IH [OF More(5)] Cons.prems(2) by auto
    have "holds s' p (z @ c @ y)" if w: "w = write_file_at p" "holds s p z" "length z = unat t" for p z
    proof -
      have "holds s1 p z" using quiet [OF More(1)] w(2) by (simp add: holds_def)
      then have "holds s2 p (write_all_at z (unat t) c)" using More(4) w(1) by (auto intro: write_file_at_Inr)
      then have "holds s2 p (z @ c)" using w(3) More(2) by (simp add: write_all_at_def)
      then show ?thesis using y(3) [OF w(1)] w(3) t' by (metis append.assoc length_append)
    qed
    then show ?thesis using y t' by (intro exI [of _ "c @ y"]) auto
  qed
qed

lemma file_reads_ok: "r \<in> set (map (\<lambda>x. syscall (fret x)) cs) \<Longrightarrow> \<forall>c \<in> set cs. length c < 2 ^ 64 \<Longrightarrow> reader_ok r"
  by (auto simp: reader_ok_def quiet.observes(3)) (auto simp: fret_def dest!: syscall_Inr)

lemma file_chunk_bound: "c \<in> set (file_chunks bs) \<Longrightarrow> length c \<le> UPDATE_DOWNLOAD_BUFFER_SIZE"
proof (induction bs rule: file_chunks.induct)
  case (1 bs)
  then show ?case using file_chunks.simps [of bs] by (auto split: if_splits)
qed

lemma pump_chunks:
  assumes "pump limit w (map (\<lambda>x. syscall (fret x)) (cs @ [[]])) t h s = (Inr (n, x), s')" "[] \<notin> set cs"
  shows "x = h @ concat cs"
  using assms
proof (induction cs arbitrary: t h s)
  case Nil
  from Nil(1) [simplified list.map append.simps] show ?case
    by (cases rule: pump_step) (auto simp: fret_def dest!: syscall_Inr)
next
  case (Cons c cs)
  have c: "syscall (fret c) s = (Inr d, s1) \<Longrightarrow> d = c" for d s1 by (auto simp: fret_def dest!: syscall_Inr)
  from Cons.prems(1) [simplified list.map append.simps] show ?case
  proof (cases rule: pump_step)
    case End
    then show ?thesis using c Cons.prems(2) by fastforce
  next
    case (More d s1 t' u s2)
    then show ?thesis using c Cons.IH Cons.prems(2) by fastforce
  qed
qed

lemma pump_file_Inr:
  assumes "pump limit w (file_reads c) 0 [] s = (Inr (n, x), s')"
  shows "x = c \<and> unat n = length c \<and> (\<forall>p. w = write_file_at p \<longrightarrow> holds s p [] \<longrightarrow> holds s' p c)"
proof -
  have "x = c" using pump_chunks [OF assms [unfolded file_reads_def]] file_chunks_concat [of c] by simp
  moreover have "\<forall>r \<in> set (file_reads c). reader_ok r"
    using file_reads_ok file_chunk_bound [of _ c] unfolding file_reads_def
    by (fastforce simp: UPDATE_DOWNLOAD_BUFFER_SIZE_def)
  ultimately show ?thesis using pump_exact [OF assms] by fastforce
qed

lemma open_file_Inr: "open_file p s = (Inr u, s') \<Longrightarrow> \<exists>c. file_at s p c"
  by (auto simp: open_file_def file_at_def unchanged_fs_def dest!: syscall_Inr split: option.splits node.splits)

lemma inspected:
  assumes "inspect_file_digest m p s = (Inr v, s')"
  shows "\<exists>c. file_at s (locate m p) c \<and> has_digest m c (vf_size v) (vf_sha256_hex v)"
proof -
  from assms obtain s1 s2 n x s3 s4 where s1: "open_file (locate m p) s = (Inr (), s1)" "fs_metadata (locate m p) s1 = (Inr n, s2)"
    and p: "pump None (\<lambda>_ _. fret ()) (file_reads (node_contents n)) 0 [] s3 = (Inr (vf_size v, x), s4)"
    and v: "vf_sha256_hex v = encode_lower_hex (sha256 m x)"
    unfolding inspect_file_digest_def by (auto simp: fguard_def fret_def split: prod.splits if_splits elim!: fbind_InrE)
  obtain c where c: "file_at s (locate m p) c" using open_file_Inr [OF s1(1)] by blast
  moreover have "nodes s1 = nodes s" using quiet_Inr [OF quiet.observes(1) s1(1)] .
  ultimately have "node_contents n = c" using query_Inr(2) [OF s1(2)] by (auto simp: file_at_def)
  then show ?thesis using pump_file_Inr [OF p] c v by (auto simp: has_digest_def)
qed

lemma verified_file:
  assumes "verify_prepared_installation_file m p k x s = (Inr u, s')"
  shows "\<exists>c. file_at s (locate m p) c \<and> has_digest m c k x"
  using assms inspected [of m p s] unfolding verify_prepared_installation_file_def
  by (auto simp: fguard_def fret_def ffail_def split: if_splits elim!: fbind_InrE)

lemma copied_file:
  assumes "copy_verified_file m p d x s = (Inr v, s')"
  shows "\<exists>c. file_at s (locate m p) c \<and> holds s' (locate m d) c \<and> has_digest m c (vf_size v) (vf_sha256_hex v) \<and> c \<noteq> [] \<and>
    (\<forall>k hex. x = Some (k, hex) \<longrightarrow> vf_size v = k \<and> vf_sha256_hex v = hex)"
proof -
  let ?d = "locate m d"
  from assms obtain s1 s2 n s4 s5 hashed s6 n' s8 where
    s1: "open_file (locate m p) s = (Inr (), s1)" "fs_metadata (locate m p) s1 = (Inr n, s2)"
    and n: "node_len n \<noteq> 0" "case x of None \<Rightarrow> True | Some (k, _) \<Rightarrow> node_len n = k" and c4: "create_new ?d s2 = (Inr (), s4)"
    and p5: "pump (map_option fst x) (write_file_at ?d) (file_reads (node_contents n)) 0 [] s4 = (Inr (node_len n, hashed), s5)"
    and x: "case x of None \<Rightarrow> True | Some (_, hex) \<Rightarrow> encode_lower_hex (sha256 m hashed) = hex"
    and v: "v = \<lparr>vf_size = node_len n, vf_sha256_hex = encode_lower_hex (sha256 m hashed)\<rparr>"
    and last: "fs_metadata (locate m p) s5 = (Inr n', s6)" "sync_all ?d s6 = (Inr (), s8)"
      "inspect_file_digest m d s8 = (Inr \<lparr>vf_size = node_len n, vf_sha256_hex = encode_lower_hex (sha256 m hashed)\<rparr>, s')"
    unfolding copy_verified_file_def on_error_Inr copy_verified_file_inner_def Let_def
    by (auto simp: fguard_def fret_def ffail_def split: prod.splits if_splits elim!: fbind_InrE)
  obtain c where c: "file_at s (locate m p) c" using open_file_Inr [OF s1(1)] by blast
  moreover have "nodes s1 = nodes s" using quiet_Inr [OF quiet.observes(1) s1(1)] .
  ultimately have n_c: "node_contents n = c" "node_len n = of_nat (length c)" using query_Inr(2) [OF s1(2)] by (auto simp: file_at_def)
  have "holds s4 ?d []" using create_new_Inr [OF c4] by (simp add: holds_def)
  then have w: "hashed = c" "unat (node_len n) = length c" "holds s5 ?d c" using pump_file_Inr [OF p5] n_c by auto
  have "nodes s' = nodes s5"
    using quiet_Inr [OF quiet.reads(2) last(1)] quiet_Inr [OF quiet.reads(5) last(2)] quiet_Inr [OF quiet.inspects(3) last(3)] by simp
  then have "holds s' ?d c" using w(3) by (simp add: holds_def)
  moreover have "c \<noteq> []" using n(1) n_c by auto
  ultimately show ?thesis using c w x n(2) v by (auto simp: has_digest_def split: option.splits)
qed

section \<open>Programs that succeed when no call fails\<close>

lemma calm_syscall: "faults s = [] \<Longrightarrow> syscall m s = m s"
  by (simp add: syscall_def next_fault_def)

lemma calm_pump:
  assumes I: "\<And>t c s. I s \<Longrightarrow> \<exists>s'. w t c s = (Inr (), s') \<and> I s'" "\<And>s. I s \<Longrightarrow> faults s = []" "I s"
    and len: "unat t + length (concat cs) < 2 ^ 64" "case limit of None \<Rightarrow> True | Some n \<Rightarrow> unat t + length (concat cs) \<le> unat n" "[] \<notin> set cs"
  shows "\<exists>s'. pump limit w (map (\<lambda>x. syscall (fret x)) (cs @ [[]])) t h s = (Inr (t + of_nat (length (concat cs)), h @ concat cs), s') \<and> I s'"
  using I(3) len
proof (induction cs arbitrary: t h s)
  case Nil
  then show ?case using I(2) [OF Nil.prems(1)] by (simp add: fbind_def calm_syscall fret_def)
next
  case (Cons c cs)
  let ?n = "of_nat (length c) :: u64"
  have n: "unat ?n = length c" using Cons.prems(2) by (simp add: unat_of_nat)
  have add: "checked_add t ?n = Some (t + ?n)" using Cons.prems(2) n by (simp add: checked_add_def)
  have t': "unat (t + ?n) = unat t + length c" using unat_checked_add [OF add] n by simp
  obtain s1 where s1: "w (unat t) c s = (Inr (), s1)" "I s1" using I(1) [OF Cons.prems(1)] by blast
  have lim: "case limit of None \<Rightarrow> True | Some n \<Rightarrow> t + ?n \<le> n"
    using Cons.prems(3) t' by (auto simp: word_le_nat_alt split: option.splits)
  have p: "unat (t + ?n) + length (concat cs) < 2 ^ 64" "case limit of None \<Rightarrow> True | Some n \<Rightarrow> unat (t + ?n) + length (concat cs) \<le> unat n"
    using Cons.prems(2,3) t' by (auto split: option.splits)
  obtain s2 where "pump limit w (map (\<lambda>x. syscall (fret x)) (cs @ [[]])) (t + ?n) (h @ c) s1 =
      (Inr (t + ?n + of_nat (length (concat cs)), (h @ c) @ concat cs), s2)" "I s2"
    using Cons.IH [OF s1(2) p(1,2), of "h @ c"] Cons.prems(4) by auto
  moreover define rs where "rs = map (\<lambda>x. syscall (fret x)) (cs @ [[]])"
  moreover have "syscall (fret c) s = (Inr c, s)" using I(2) [OF Cons.prems(1)] by (simp add: calm_syscall fret_def)
  ultimately have "pump limit w (syscall (fret c) # rs) t h s = (Inr (t + ?n + of_nat (length (concat cs)), (h @ c) @ concat cs), s2) \<and> I s2"
    using Cons.prems(4) s1 add lim by (auto simp: fbind_def flift_def fguard_def fret_def)
  then show ?case by (auto simp: rs_def add.assoc)
qed

lemma calm_file:
  assumes "\<And>t c s. I s \<Longrightarrow> \<exists>s'. w t c s = (Inr (), s') \<and> I s'" "\<And>s. I s \<Longrightarrow> faults s = []" "I s"
    "length c < 2 ^ 64" "limit = None \<or> limit = Some (of_nat (length c))"
  shows "\<exists>s'. pump limit w (file_reads c) 0 [] s = (Inr (of_nat (length c), c), s') \<and> I s'"
proof -
  have "case limit of None \<Rightarrow> True | Some n \<Rightarrow> unat (0 :: u64) + length (concat (file_chunks c)) \<le> unat n"
    using assms(4,5) file_chunks_concat [of c] by (auto simp: unat_of_nat)
  then show ?thesis
    using calm_pump [where t = 0 and cs = "file_chunks c" and limit = limit and h = "[]" and w = w, OF assms(1-3)] assms(4)
      file_chunks_concat [of c]
    by (simp add: file_reads_def)
qed

lemma calm_inspect:
  assumes "faults s = []" "holds s (locate m p) c" "length c < 2 ^ 64"
  shows "inspect_file_digest m p s = (Inr \<lparr>vf_size = of_nat (length c), vf_sha256_hex = encode_lower_hex (sha256 m c)\<rparr>, s)"
proof -
  obtain t a where n: "fmlookup (nodes s) (locate m p) = Some (FileNode c t a)" using assms(2) by (auto simp: holds_def)
  have "pump None (\<lambda>_ _. fret ()) (file_reads c) 0 [] s = (Inr (of_nat (length c), c), s)"
    using calm_file [of "\<lambda>s'. s' = s" "\<lambda>_ _. fret ()" s c None] assms by (auto simp: fret_def)
  then show ?thesis
    using assms(1) n by (simp add: inspect_file_digest_def fbind_def open_file_def fs_metadata_def calm_syscall fguard_def fret_def)
qed

lemma calm_verify:
  assumes "faults s = []" "holds s (locate m p) c" "has_digest m c k x"
  shows "verify_prepared_installation_file m p k x s = (Inr (), s)"
  using assms calm_inspect [OF assms(1,2)] unsigned_less [of k, where 'a = nat]
  by (simp add: verify_prepared_installation_file_def fbind_def fguard_def fret_def has_digest_def)

lemma calm_remove:
  assumes "faults s = []" "\<nexists>a. fmlookup (nodes s) p = Some (DirNode a)"
  shows "remove_file_if_present p s = (Inr (), s\<lparr>nodes := fmdrop p (nodes s)\<rparr>)"
proof (cases "fmlookup (nodes s) p")
  case None
  then have "fmdrop p (nodes s) = nodes s" by (intro fmap_ext) simp
  then show ?thesis using None assms by (simp add: remove_file_if_present_def fs_remove_file_def calm_syscall)
next
  case (Some n)
  then show ?thesis using assms by (cases n) (simp_all add: remove_file_if_present_def fs_remove_file_def calm_syscall)
qed

lemma calm_write: "faults s = [] \<Longrightarrow> holds s p z \<Longrightarrow> \<exists>s'. write_file_at p t c s = (Inr (), s') \<and> faults s' = [] \<and> holds s' p (write_all_at z t c)"
  by (auto simp: write_file_at_def next_fault_def update_file_def holds_def)

lemma calm_copy:
  assumes s: "faults s = []" "holds s (locate m p) c" "fmlookup (nodes s) (locate m d) = None" "parent_exists s (locate m d)"
    and c: "c \<noteq> []" "has_digest m c k x"
  shows "\<exists>v s'. copy_verified_file m p d (Some (k, x)) s = (Inr v, s') \<and> faults s' = []"
proof -
  let ?d = "locate m d"
  obtain t a where n: "fmlookup (nodes s) (locate m p) = Some (FileNode c t a)" using s(2) by (auto simp: holds_def)
  have pd: "locate m p \<noteq> ?d" using n s(3) by auto
  define s1 where "s1 = s\<lparr>nodes := fmupd ?d (FileNode [] (clock s) FILE_ATTRIBUTE_ARCHIVE) (nodes s)\<rparr>"
  have s1: "create_new ?d s = (Inr (), s1)" using s by (simp add: create_new_def calm_syscall s1_def)
  have len: "length c < 2 ^ 64" "k = of_nat (length c)" using c(2) unsigned_less [of k, where 'a = nat] by (simp_all add: has_digest_def)
  have step: "\<exists>s'. write_file_at ?d u b r = (Inr (), s') \<and> faults s' = [] \<and> (\<exists>z. holds s' ?d z) \<and>
      fmlookup (nodes s') (locate m p) = fmlookup (nodes s) (locate m p)"
    if r: "faults r = [] \<and> (\<exists>z. holds r ?d z) \<and> fmlookup (nodes r) (locate m p) = fmlookup (nodes s) (locate m p)" for u b r
  proof -
    obtain z where "holds r ?d z" using r by blast
    then obtain s' where s': "write_file_at ?d u b r = (Inr (), s')" "faults s' = []" "holds s' ?d (write_all_at z u b)"
      using calm_write r by blast
    moreover have "touches {?d} r s'" using withinD [OF touches_write s'(1)] by simp
    ultimately show ?thesis using touchesD r pd by fastforce
  qed
  have "holds s1 ?d []" "fmlookup (nodes s1) (locate m p) = fmlookup (nodes s) (locate m p)" "faults s1 = []"
    using pd s(1) by (auto simp: s1_def holds_def)
  then obtain s2 where p: "pump (Some k) (write_file_at ?d) (file_reads c) 0 [] s1 = (Inr (of_nat (length c), c), s2)"
    and s2: "faults s2 = []" "fmlookup (nodes s2) (locate m p) = Some (FileNode c t a)"
    using calm_file [where I = "\<lambda>r. faults r = [] \<and> (\<exists>z. holds r ?d z) \<and> fmlookup (nodes r) (locate m p) = fmlookup (nodes s) (locate m p)"
        and w = "write_file_at ?d" and s = s1 and c = c and limit = "Some k", OF step] len n by auto
  have "holds s2 ?d c" using pump_file_Inr [OF p] \<open>holds s1 ?d []\<close> by simp
  then have "inspect_file_digest m d s2 = (Inr \<lparr>vf_size = k, vf_sha256_hex = x\<rparr>, s2)"
    using calm_inspect [OF s2(1)] len c(2) by (simp add: has_digest_def)
  moreover have "k \<noteq> 0" using c by (auto simp: has_digest_def)
  ultimately have "copy_verified_file m p d (Some (k, x)) s = (Inr \<lparr>vf_size = k, vf_sha256_hex = x\<rparr>, s2)"
    using s(1) n s1 p s2 len c(2)
    by (simp add: copy_verified_file_def on_error_def copy_verified_file_inner_def fbind_def open_file_def fs_metadata_def calm_syscall
        fguard_def fret_def sync_all_def has_digest_def Let_def)
  then show ?thesis using s2(1) by blast
qed

section \<open>The executable during an in-place update\<close>

text \<open>
  The files of an update are different files, also from the directory the executable is in; the rollback file is beside it.
\<close>

definition separate_files :: "machine \<Rightarrow> UpdateHandoffPlan \<Rightarrow> bool" where
  "separate_files m h \<longleftrightarrow>
     (case successful_update_cleanup_paths h of
        Inl _ \<Rightarrow> False
      | Inr ps \<Rightarrow> distinct (map (locate m) (ho_install h # ps)) \<and>
                  butlast (locate m (ho_install h)) \<notin> set (map (locate m) (ho_install h # ps)))"

definition is_update :: "machine \<Rightarrow> UpdateHandoffPlan \<Rightarrow> byte list \<Rightarrow> bool" where
  "is_update m h c \<longleftrightarrow> has_digest m c (ho_size h) (ho_sha256_hex h)"

definition updated :: "machine \<Rightarrow> UpdateHandoffPlan \<Rightarrow> fs \<Rightarrow> bool" where
  "updated m h s \<longleftrightarrow> (\<exists>c. holds s (locate m (ho_install h)) c \<and> is_update m h c)"

definition old_or_updated :: "machine \<Rightarrow> UpdateHandoffPlan \<Rightarrow> byte list \<Rightarrow> fs \<Rightarrow> bool" where
  "old_or_updated m h old s \<longleftrightarrow> holds s (locate m (ho_install h)) old \<or> updated m h s"

text \<open>What a rollback needs to succeed: no call fails, and it can create its file.\<close>

definition room :: "machine \<Rightarrow> UpdateHandoffPlan \<Rightarrow> fs \<Rightarrow> bool" where
  "room m h s \<longleftrightarrow> faults s = [] \<and> parent_exists s (locate m (ho_install h)) \<and>
     (\<forall>r. update_rollback_candidate_path h = Inr r \<longrightarrow>
        butlast (locate m r) = butlast (locate m (ho_install h)) \<and> (\<nexists>a. fmlookup (nodes s) (locate m r) = Some (DirNode a)))"

lemma separate_files_cases:
  assumes "separate_files m h"
  obtains cand rb where "update_install_candidate_path h = Inr cand" "update_rollback_candidate_path h = Inr rb"
    "distinct [locate m (ho_install h), locate m (ho_staged h), locate m cand, locate m rb, locate m (update_backup_partial_path (ho_staging h)),
       locate m (update_startup_marker_partial_path (ho_marker h)), locate m (ho_backup h), locate m (ho_marker h)]"
    "butlast (locate m (ho_install h)) \<notin> {locate m (ho_install h), locate m (ho_staged h), locate m cand, locate m rb,
       locate m (update_backup_partial_path (ho_staging h)), locate m (update_startup_marker_partial_path (ho_marker h)),
       locate m (ho_backup h), locate m (ho_marker h)}"
proof -
  obtain cand rb where c: "update_install_candidate_path h = Inr cand" "update_rollback_candidate_path h = Inr rb"
    using assms by (auto simp: separate_files_def successful_update_cleanup_paths_def ebind_def split: sum.splits)
  then show thesis using assms
    by (intro that [OF c]) (auto simp: separate_files_def successful_update_cleanup_paths_def)
qed

lemma holds_touches: "holds s p c \<Longrightarrow> touches T s s' \<Longrightarrow> p \<notin> T \<Longrightarrow> holds s' p c"
  by (simp add: holds_def touchesD)

lemma parent_exists_touches: "parent_exists s p \<Longrightarrow> touches T s s' \<Longrightarrow> butlast p \<notin> T \<Longrightarrow> parent_exists s' p"
  by (simp add: parent_exists_def touchesD)

lemma room_touches:
  assumes "room m h s" "touches T s s'" "butlast (locate m (ho_install h)) \<notin> T"
    "\<And>r. update_rollback_candidate_path h = Inr r \<Longrightarrow> locate m r \<notin> T"
  shows "room m h s'"
  using assms parent_exists_touches [of s "locate m (ho_install h)" T s'] by (auto simp: room_def touchesD) (simp add: touches_def)

text \<open>The files an installation has prepared for an executable with contents \<open>old\<close>.\<close>

definition prepared_files :: "machine \<Rightarrow> UpdateHandoffPlan \<Rightarrow> byte list \<Rightarrow> PreparedUpdateInstallation \<Rightarrow> bool" where
  "prepared_files m h old i \<longleftrightarrow> pi_backup i = ho_backup h \<and> update_install_candidate_path h = Inr (pi_candidate i) \<and> old \<noteq> [] \<and>
     has_digest m old (pi_backup_size i) (pi_backup_sha256_hex i)"

lemma touches_prepare:
  assumes "update_install_candidate_path h = Inr cand" "{locate m cand, locate m (update_backup_partial_path (ho_staging h)), locate m (ho_backup h)} \<subseteq> T"
  shows "within (touches T) (prepare_update_installation_files m h)"
  unfolding prepare_update_installation_files_def Let_def using assms
  by (intro tch.bind_lift frame_intros touches_rules touches_copy) auto

lemma prepare_installs:
  assumes r: "prepare_update_installation_files m h s = (Inr i, s')" and sep: "separate_files m h"
    and old: "holds s (locate m (ho_install h)) old" "locate m (ho_current h) = locate m (ho_install h)"
  shows "prepared_files m h old i \<and> holds s' (locate m (ho_backup h)) old \<and> (\<exists>c. holds s' (locate m (pi_candidate i)) c \<and> is_update m h c)"
proof -
  let ?B = "locate m (ho_backup h)" and ?P = "locate m (update_backup_partial_path (ho_staging h))"
  obtain cand rb where cand: "update_install_candidate_path h = Inr cand"
    and d: "distinct [locate m (ho_install h), locate m (ho_staged h), locate m cand, locate m rb, ?P,
       locate m (update_startup_marker_partial_path (ho_marker h)), ?B, locate m (ho_marker h)]"
    using sep by (rule separate_files_cases)
  from r obtain s1 s2 s3 v s4 s5 w s6 s7 where
    s1: "remove_file_if_exists m (update_backup_partial_path (ho_staging h)) s1 = (Inr (), s2)" "s1 = s"
    and s3: "remove_file_if_exists m cand s2 = (Inr (), s3)"
    and v: "copy_verified_file m (ho_current h) (update_backup_partial_path (ho_staging h)) None s3 = (Inr v, s4)"
    and s5: "replace ?P ?B s4 = (Inr (), s5)" and s6: "inspect_file_digest m (ho_backup h) s5 = (Inr v, s6)"
    and w: "copy_verified_file m (ho_staged h) cand (Some (ho_size h, ho_sha256_hex h)) s6 = (Inr w, s')"
    and i: "i = \<lparr>pi_backup = ho_backup h, pi_candidate = cand, pi_backup_size = vf_size v, pi_backup_sha256_hex = vf_sha256_hex v,
       pi_candidate_size = vf_size w, pi_candidate_sha256_hex = vf_sha256_hex w\<rparr>"
    unfolding prepare_update_installation_files_def Let_def cand
    by (auto simp: fguard_def fret_def ffail_def flift_def on_error_Inr split: if_splits elim!: fbind_InrE)
  have "touches {?P, locate m cand} s s3"
    using withinD [OF touches_remove s1(1)] withinD [OF touches_remove s3] s1(2) by (meson insertCI tch.frame_trans)
  then have "holds s3 (locate m (ho_install h)) old" using holds_touches [OF old(1)] d by fastforce
  then have v': "holds s4 ?P old" "has_digest m old (vf_size v) (vf_sha256_hex v)" "old \<noteq> []"
    using copied_file [OF v] file_at_unique [OF holds_file_at] unfolding old(2) by blast+
  have "holds s5 ?B old" using replace_Inr [OF s5] v'(1) by (simp add: holds_def)
  then have "holds s6 ?B old" using quiet_Inr [OF quiet.inspects(3) s6] by (simp add: holds_def)
  then have "holds s' ?B old" using withinD [OF touches_copy w, of "{locate m cand}"] d by (auto elim: holds_touches)
  moreover obtain c where "holds s' (locate m cand) c" "is_update m h c" using copied_file [OF w] by (auto simp: is_update_def)
  ultimately show ?thesis using v' cand i by (auto simp: prepared_files_def)
qed

lemma rollback_keeps_or_restores:
  assumes sep: "separate_files m h" and i: "prepared_files m h old i"
  shows "triple (\<lambda>s. holds s (locate m (ho_backup h)) old \<and> fmlookup (nodes s) (locate m (ho_install h)) = n)
    (rollback_custom_named_update m h i) (\<lambda>_ s. holds s (locate m (ho_install h)) old)
    (\<lambda>s. fmlookup (nodes s) (locate m (ho_install h)) = n \<or> holds s (locate m (ho_install h)) old)"
    (is "triple ?P _ _ ?E")
proof -
  let ?B = "locate m (ho_backup h)" and ?I = "locate m (ho_install h)"
  obtain cand rb where rb: "update_rollback_candidate_path h = Inr rb"
    and d: "distinct [?I, locate m (ho_staged h), locate m cand, locate m rb, locate m (update_backup_partial_path (ho_staging h)),
       locate m (update_startup_marker_partial_path (ho_marker h)), ?B, locate m (ho_marker h)]"
    using sep by (rule separate_files_cases)
  have stable: "?P s \<Longrightarrow> touches T s s' \<Longrightarrow> ?I \<notin> T \<Longrightarrow> ?B \<notin> T \<Longrightarrow> ?P s'" for T s s'
    by (auto simp: touchesD elim: holds_touches)
  have rb_stable: "?P s \<Longrightarrow> touches {locate m rb} s s' \<Longrightarrow> ?P s'" for s s'
    using d by (intro stable [of s "{locate m rb}" s']) auto
  have remove: "triple ?P (remove_file_if_exists m rb) (\<lambda>_. ?P) ?E"
    by (rule triple_conseq [OF triple_frame [OF touches_remove [OF singletonI] rb_stable]]) auto
  have copy: "triple ?P (copy_verified_file m (pi_backup i) rb x) (\<lambda>_ s. ?P s \<and> holds s (locate m rb) old) ?E" for x
  proof (rule tripleI)
    fix s v s'
    assume P: "?P s" and r: "copy_verified_file m (pi_backup i) rb x s = (Inr v, s')"
    have "holds s' (locate m rb) old"
      using copied_file [OF r] P i file_at_unique [OF holds_file_at] by (auto simp: prepared_files_def)
    then show "?P s' \<and> holds s' (locate m rb) old"
      using rb_stable [OF P withinD [OF touches_copy r]] by simp
  next
    fix s e s'
    assume P: "?P s" and r: "copy_verified_file m (pi_backup i) rb x s = (Inl e, s')"
    show "?E s'" using rb_stable [OF P withinD [OF touches_copy r]] by simp
  qed
  have repl: "triple (\<lambda>s. ?P s \<and> holds s (locate m rb) old) (replace (locate m rb) ?I) (\<lambda>_ s. holds s ?I old) ?E"
    by (rule tripleI) (auto simp: holds_def dest: replace_Inr replace_Inl)
  have last: "triple (\<lambda>s. holds s ?I old) (verify_prepared_installation_file m p z x) (\<lambda>_ s. holds s ?I old) ?E" for p z x
    by (rule triple_conseq [OF triple_frame [where P = "\<lambda>s. holds s ?I old" and T = "{}", OF tch.inspects(4)]]) (auto elim: holds_touches)
  have q_stable: "?P s \<Longrightarrow> touches {} s s' \<Longrightarrow> ?P s'" for s s' using stable [of s "{}" s'] by blast
  have rest: "triple ?P (fbind (verify_prepared_installation_file m (pi_backup i) z x) (\<lambda>_. fbind (remove_file_if_exists m rb) (\<lambda>_.
     fbind (copy_verified_file m (pi_backup i) rb (Some (z, x))) (\<lambda>_. fbind (replace (locate m rb) ?I) (\<lambda>_.
       verify_prepared_installation_file m (ho_install h) z x))))) (\<lambda>_ s. holds s ?I old) ?E" for z x
    by (rule triple_quiet [where P = ?P, OF tch.inspects(4) q_stable _ triple_bind [OF remove triple_bind [OF copy triple_bind [OF repl last]]]]) auto
  show ?thesis
    unfolding rollback_custom_named_update_def rb by (intro triple_lift) (use rest in \<open>auto simp: flift_def\<close>)
qed

lemma rollback_calm:
  assumes sep: "separate_files m h" and i: "prepared_files m h old i" and rb: "update_rollback_candidate_path h = Inr rb"
    and ok: "validate_custom_replacement_paths h i rb = Inr ()"
    and s: "room m h s" "holds s (locate m (ho_backup h)) old" "old_or_updated m h any s"
  shows "\<exists>s'. rollback_custom_named_update m h i s = (Inr (), s') \<and> faults s' = [] \<and> holds s' (locate m (ho_install h)) old"
proof -
  let ?B = "locate m (ho_backup h)" and ?I = "locate m (ho_install h)" and ?R = "locate m rb"
  have d: "?R \<noteq> ?B" "?R \<noteq> ?I" "?B \<noteq> ?I" "butlast ?I \<noteq> ?R"
    using separate_files_cases [OF sep] rb by (auto simp: eq_commute)
  have calm: "faults s = []" "parent_exists s ?I" "butlast ?R = butlast ?I" "\<nexists>a. fmlookup (nodes s) ?R = Some (DirNode a)"
    using s(1) rb by (auto simp: room_def)
  have hd: "has_digest m old (pi_backup_size i) (pi_backup_sha256_hex i)" "old \<noteq> []" "pi_backup i = ho_backup h"
    using i by (auto simp: prepared_files_def)
  define s1 where "s1 = s\<lparr>nodes := fmdrop ?R (nodes s)\<rparr>"
  have s1: "remove_file_if_exists m rb s = (Inr (), s1)" using calm_remove [OF calm(1,4)] by (simp add: s1_def)
  have "parent_exists s1 ?I" "parent_exists s1 ?R"
    using calm(2,3) d(4) by (auto simp: parent_exists_def s1_def split: option.splits)
  moreover have "holds s1 ?B old" "fmlookup (nodes s1) ?R = None" "faults s1 = []"
    using s(2) d(1) calm(1) by (auto simp: s1_def holds_def)
  ultimately obtain v s2 where s2: "copy_verified_file m (pi_backup i) rb (Some (pi_backup_size i, pi_backup_sha256_hex i)) s1 = (Inr v, s2)"
      "faults s2 = []"
    using calm_copy hd by metis
  have t: "touches {?R} s1 s2" using withinD [OF touches_copy s2(1)] by simp
  have "file_at s1 (locate m (pi_backup i)) old" using \<open>holds s1 ?B old\<close> hd(3) by (simp add: holds_file_at)
  then have "holds s2 ?R old" using copied_file [OF s2(1)] file_at_unique by blast
  moreover have "parent_exists s2 ?I" using parent_exists_touches [OF \<open>parent_exists s1 ?I\<close> t] d(4) by simp
  moreover have "\<nexists>a. fmlookup (nodes s2) ?I = Some (DirNode a)"
  proof -
    have "fmlookup (nodes s2) ?I = fmlookup (nodes s) ?I" using touchesD [OF t] d(2) by (simp add: s1_def)
    then show ?thesis using s(3) by (auto simp: old_or_updated_def updated_def holds_def)
  qed
  ultimately obtain s3 where s3: "replace ?R ?I s2 = (Inr (), s3)" "faults s3 = []" "holds s3 ?I old"
    using replace_ok [OF s2(2)] by blast
  have "verify_prepared_installation_file m (pi_backup i) (pi_backup_size i) (pi_backup_sha256_hex i) s = (Inr (), s)"
    using calm_verify [OF calm(1) s(2) hd(1)] hd(3) by simp
  moreover have "verify_prepared_installation_file m (ho_install h) (pi_backup_size i) (pi_backup_sha256_hex i) s3 = (Inr (), s3)"
    using calm_verify [OF s3(2,3) hd(1)] .
  ultimately show ?thesis
    using s3 s1 s2 rb ok by (simp add: rollback_custom_named_update_def fbind_def flift_def)
qed

text \<open>The states around the replacement; \<open>calm\<close> says that no call fails any more.\<close>

definition replaced :: "machine \<Rightarrow> UpdateHandoffPlan \<Rightarrow> byte list \<Rightarrow> bool \<Rightarrow> fs \<Rightarrow> bool" where
  "replaced m h old calm s \<longleftrightarrow> updated m h s \<and> holds s (locate m (ho_backup h)) old \<and> (calm \<longrightarrow> room m h s)"

definition settled :: "machine \<Rightarrow> UpdateHandoffPlan \<Rightarrow> byte list \<Rightarrow> bool \<Rightarrow> fs \<Rightarrow> bool" where
  "settled m h old calm s \<longleftrightarrow> old_or_updated m h old s \<and> (calm \<longrightarrow> holds s (locate m (ho_install h)) old)"

lemma rollback_settles:
  assumes sep: "separate_files m h" and i: "prepared_files m h old i" and rb: "update_rollback_candidate_path h = Inr rb"
    and ok: "validate_custom_replacement_paths h i rb = Inr ()"
  shows "triple (replaced m h old calm) (rollback_custom_named_update m h i) (\<lambda>_. settled m h old calm) (settled m h old calm)"
proof (rule tripleI)
  fix s u s'
  assume "replaced m h old calm s" "rollback_custom_named_update m h i s = (Inr u, s')"
  then have "holds s' (locate m (ho_install h)) old"
    using triple_Inr [OF rollback_keeps_or_restores [OF sep i]] by (auto simp: replaced_def)
  then show "settled m h old calm s'" by (simp add: settled_def old_or_updated_def)
next
  fix s e s'
  assume P: "replaced m h old calm s" and r: "rollback_custom_named_update m h i s = (Inl e, s')"
  have "\<not> calm" using rollback_calm [OF sep i rb ok, of s old] P r by (auto simp: replaced_def old_or_updated_def)
  moreover have "old_or_updated m h old s'"
    using triple_Inl [OF rollback_keeps_or_restores [OF sep i] _ r] P
    by (auto simp: replaced_def old_or_updated_def updated_def holds_def)
  ultimately show "settled m h old calm s'" by (simp add: settled_def)
qed

lemma replaced_touches:
  assumes "replaced m h old calm s" "touches T s s'" "separate_files m h"
    "T \<subseteq> {locate m (ho_marker h), locate m (update_startup_marker_partial_path (ho_marker h))}"
  shows "replaced m h old calm s'"
proof -
  obtain cand rb where rb: "update_rollback_candidate_path h = Inr rb"
    and d: "distinct [locate m (ho_install h), locate m (ho_staged h), locate m cand, locate m rb, locate m (update_backup_partial_path (ho_staging h)),
       locate m (update_startup_marker_partial_path (ho_marker h)), locate m (ho_backup h), locate m (ho_marker h)]"
    and b: "butlast (locate m (ho_install h)) \<notin> {locate m (ho_install h), locate m (ho_staged h), locate m cand, locate m rb,
       locate m (update_backup_partial_path (ho_staging h)), locate m (update_startup_marker_partial_path (ho_marker h)),
       locate m (ho_backup h), locate m (ho_marker h)}"
    using assms(3) by (rule separate_files_cases)
  have "locate m (ho_install h) \<notin> T" "locate m (ho_backup h) \<notin> T" "locate m rb \<notin> T" "butlast (locate m (ho_install h)) \<notin> T"
    using assms(4) d b by auto
  then show ?thesis
    using assms(1,2) room_touches [of m h s T s'] rb by (auto simp: replaced_def updated_def elim: holds_touches)
qed

definition before_replacement :: "machine \<Rightarrow> UpdateHandoffPlan \<Rightarrow> PreparedUpdateInstallation \<Rightarrow> byte list \<Rightarrow> bool \<Rightarrow> fs \<Rightarrow> bool" where
  "before_replacement m h i old calm s \<longleftrightarrow> holds s (locate m (ho_install h)) old \<and> holds s (locate m (ho_backup h)) old \<and>
     (\<exists>c. holds s (locate m (pi_candidate i)) c \<and> is_update m h c) \<and> (calm \<longrightarrow> room m h s)"

lemma before_replacement_quiet:
  "before_replacement m h i old calm s \<Longrightarrow> touches {} s s' \<Longrightarrow> before_replacement m h i old calm s'"
  using room_touches [of m h s "{}" s'] by (auto simp: before_replacement_def elim: holds_touches)

lemma before_replacement_settled: "before_replacement m h i old calm s \<Longrightarrow> settled m h old calm s"
  by (simp add: before_replacement_def settled_def old_or_updated_def)

lemma replacement:
  assumes sep: "separate_files m h" and i: "prepared_files m h old i"
  shows "triple (before_replacement m h i old calm) (replace (locate m (pi_candidate i)) (locate m (ho_install h)))
    (\<lambda>_. replaced m h old calm) (settled m h old calm)"
proof (rule tripleI)
  fix s u s'
  assume P: "before_replacement m h i old calm s" and r: "replace (locate m (pi_candidate i)) (locate m (ho_install h)) s = (Inr u, s')"
  obtain cand rb where c: "update_install_candidate_path h = Inr cand" and rb: "update_rollback_candidate_path h = Inr rb"
    and d: "distinct [locate m (ho_install h), locate m (ho_staged h), locate m cand, locate m rb, locate m (update_backup_partial_path (ho_staging h)),
       locate m (update_startup_marker_partial_path (ho_marker h)), locate m (ho_backup h), locate m (ho_marker h)]"
    and b: "butlast (locate m (ho_install h)) \<notin> {locate m (ho_install h), locate m (ho_staged h), locate m cand, locate m rb,
       locate m (update_backup_partial_path (ho_staging h)), locate m (update_startup_marker_partial_path (ho_marker h)),
       locate m (ho_backup h), locate m (ho_marker h)}"
    using sep by (rule separate_files_cases)
  have cand: "pi_candidate i = cand" using i c by (simp add: prepared_files_def)
  let ?T = "{locate m cand, locate m (ho_install h)}"
  have t: "touches ?T s s'" using withinD [OF touches_calls(4) r, of ?T] cand by simp
  have "holds s' (locate m (ho_backup h)) old" using P d by (intro holds_touches [OF _ t]) (auto simp: before_replacement_def)
  moreover have "calm \<longrightarrow> room m h s'" using P b d rb by (auto simp: before_replacement_def intro!: room_touches [OF _ t])
  ultimately show "replaced m h old calm s'"
    using P replace_Inr [OF r] by (auto simp: before_replacement_def replaced_def updated_def holds_def)
next
  fix s e s'
  assume P: "before_replacement m h i old calm s" and r: "replace (locate m (pi_candidate i)) (locate m (ho_install h)) s = (Inl e, s')"
  then show "settled m h old calm s'"
    using replace_Inl [OF r] by (auto simp: before_replacement_def settled_def old_or_updated_def holds_def)
qed

lemma publish_custom_settles:
  assumes sep: "separate_files m h" and i: "prepared_files m h old i"
  shows "triple (before_replacement m h i old calm) (publish_custom_named_update m h i)
    (\<lambda>p s. replaced m h old calm s \<and> p = ReplacedInPlace (ho_install h) \<and>
       (\<forall>rb. update_rollback_candidate_path h = Inr rb \<longrightarrow> validate_custom_replacement_paths h i rb = Inr ()))
    (settled m h old calm)"
    (is "triple ?P _ ?Q ?E")
proof -
  let ?verify = "verify_prepared_installation_file m (ho_install h) (ho_size h) (ho_sha256_hex h)"
  have rest: "triple ?P (fbind (verify_prepared_installation_file m (ho_current h) (pi_backup_size i) (pi_backup_sha256_hex i)) (\<lambda>_.
     fbind (replace (locate m (pi_candidate i)) (locate m (ho_install h))) (\<lambda>_.
     fbind (on_error ?verify (rollback_custom_named_update m h i)) (\<lambda>_. fret (ReplacedInPlace (ho_install h)))))) ?Q ?E"
    if rb: "update_rollback_candidate_path h = Inr rb" and ok: "validate_custom_replacement_paths h i rb = Inr ()" for rb
  proof (rule triple_quiet [OF tch.inspects(4) before_replacement_quiet before_replacement_settled])
    have "triple (replaced m h old calm) (on_error ?verify (rollback_custom_named_update m h i)) (\<lambda>_. replaced m h old calm) ?E"
      by (rule triple_on_error [OF triple_frame [where P = "replaced m h old calm" and T = "{}", OF tch.inspects(4)] rollback_settles [OF sep i rb ok]])
        (auto intro: replaced_touches [OF _ _ sep])
    moreover have "triple (replaced m h old calm) (fret (ReplacedInPlace (ho_install h))) ?Q ?E"
      by (rule triple_conseq [OF triple_pure(1)]) (use rb ok in auto)
    ultimately show "triple ?P (fbind (replace (locate m (pi_candidate i)) (locate m (ho_install h))) (\<lambda>_.
        fbind (on_error ?verify (rollback_custom_named_update m h i)) (\<lambda>_. fret (ReplacedInPlace (ho_install h))))) ?Q ?E"
      by (intro triple_bind [OF replacement [OF sep i]] triple_bind)
  qed
  show ?thesis unfolding publish_custom_named_update_def by (intro triple_lift before_replacement_settled rest) auto
qed

lemma publish_settles:
  assumes sep: "separate_files m h" and i: "prepared_files m h old i" and nm: "ho_naming h = PreserveCurrentName"
  shows "triple (before_replacement m h i old calm) (publish_prepared_update_installation m h i)
    (\<lambda>p s. replaced m h old calm s \<and> p = ReplacedInPlace (ho_install h) \<and>
       (\<forall>rb. update_rollback_candidate_path h = Inr rb \<longrightarrow> validate_custom_replacement_paths h i rb = Inr ()))
    (settled m h old calm)"
  unfolding publish_prepared_update_installation_def nm UpdateInstallNaming.case
  by (rule triple_lift before_replacement_settled triple_guard | assumption |
      rule triple_quiet [OF tch.inspects(4) before_replacement_quiet before_replacement_settled] | rule publish_custom_settles [OF sep i])+

lemma prepare_settles:
  assumes sep: "separate_files m h" and cur: "locate m (ho_current h) = locate m (ho_install h)"
  shows "triple (\<lambda>s. holds s (locate m (ho_install h)) old \<and> (calm \<longrightarrow> room m h s)) (prepare_update_installation_files m h)
    (\<lambda>i s. before_replacement m h i old calm s \<and> prepared_files m h old i) (settled m h old calm)"
proof -
  obtain cand rb where c: "update_install_candidate_path h = Inr cand" and rb: "update_rollback_candidate_path h = Inr rb"
    and d: "distinct [locate m (ho_install h), locate m (ho_staged h), locate m cand, locate m rb, locate m (update_backup_partial_path (ho_staging h)),
       locate m (update_startup_marker_partial_path (ho_marker h)), locate m (ho_backup h), locate m (ho_marker h)]"
    and b: "butlast (locate m (ho_install h)) \<notin> {locate m (ho_install h), locate m (ho_staged h), locate m cand, locate m rb,
       locate m (update_backup_partial_path (ho_staging h)), locate m (update_startup_marker_partial_path (ho_marker h)),
       locate m (ho_backup h), locate m (ho_marker h)}"
    using sep by (rule separate_files_cases)
  let ?T = "{locate m cand, locate m (update_backup_partial_path (ho_staging h)), locate m (ho_backup h)}"
  have stable: "holds s' (locate m (ho_install h)) old \<and> (calm \<longrightarrow> room m h s')"
    if "holds s (locate m (ho_install h)) old \<and> (calm \<longrightarrow> room m h s)" "prepare_update_installation_files m h s = (r, s')" for s r s'
  proof -
    have t: "touches ?T s s'" using withinD [OF touches_prepare [OF c subset_refl] that(2)] .
    show ?thesis using that(1) d b rb by (auto intro!: holds_touches [OF _ t] room_touches [OF _ t])
  qed
  show ?thesis
  proof (rule tripleI)
    fix s i s'
    assume s: "holds s (locate m (ho_install h)) old \<and> (calm \<longrightarrow> room m h s)" and r: "prepare_update_installation_files m h s = (Inr i, s')"
    from s have "holds s (locate m (ho_install h)) old" ..
    from prepare_installs [OF r sep this cur] stable [OF s r] show "before_replacement m h i old calm s' \<and> prepared_files m h old i"
      by (simp add: before_replacement_def)
  next
    fix s e s'
    assume s: "holds s (locate m (ho_install h)) old \<and> (calm \<longrightarrow> room m h s)" and r: "prepare_update_installation_files m h s = (Inl e, s')"
    from stable [OF s r] show "settled m h old calm s'" by (simp add: settled_def old_or_updated_def)
  qed
qed

lemma startup_rollback_settles:
  assumes sep: "separate_files m h" and i: "prepared_files m h old i"
    and ok: "\<And>rb. update_rollback_candidate_path h = Inr rb \<Longrightarrow> validate_custom_replacement_paths h i rb = Inr ()"
  shows "triple (replaced m h old calm) (rollback_failed_update_startup m h i (ReplacedInPlace (ho_install h)))
    (\<lambda>_. settled m h old calm) (settled m h old calm)"
proof -
  let ?T = "{locate m (ho_marker h), locate m (update_startup_marker_partial_path (ho_marker h))}"
  obtain cand rb where rb: "update_rollback_candidate_path h = Inr rb"
    and d: "distinct [locate m (ho_install h), locate m (ho_staged h), locate m cand, locate m rb, locate m (update_backup_partial_path (ho_staging h)),
       locate m (update_startup_marker_partial_path (ho_marker h)), locate m (ho_backup h), locate m (ho_marker h)]"
    using sep by (rule separate_files_cases)
  have stable: "settled m h old calm s \<Longrightarrow> touches ?T s s' \<Longrightarrow> settled m h old calm s'" for s s'
    using d holds_touches [of s "locate m (ho_install h)" _ ?T s'] by (auto simp: settled_def old_or_updated_def updated_def)
  have "within (touches ?T) (fbind (remove_file_if_exists m (update_startup_marker_partial_path (ho_marker h))) (\<lambda>_. remove_file_if_exists m (ho_marker h)))"
    by (intro frame_intros touches_rules) auto
  then have markers: "triple (settled m h old calm) (fbind (remove_file_if_exists m (update_startup_marker_partial_path (ho_marker h)))
      (\<lambda>_. remove_file_if_exists m (ho_marker h))) (\<lambda>_. settled m h old calm) (settled m h old calm)"
    by (rule triple_frame) (rule stable)
  have settled: "replaced m h old calm s \<Longrightarrow> fguard (path_eq (ho_install h) (ho_install h)) InvalidData s = (Inr (), s)" for s
    by (simp add: fguard_def fret_def path_eq_def)
  have "triple (replaced m h old calm) (fbind (fguard (path_eq (ho_install h) (ho_install h)) InvalidData) (\<lambda>_. rollback_custom_named_update m h i))
      (\<lambda>_. settled m h old calm) (settled m h old calm)"
    using rollback_settles [OF sep i rb ok [OF rb], of calm] by (simp add: triple_def fbind_def settled)
  then show ?thesis unfolding rollback_failed_update_startup_def UpdateInstallationPublication.case by (rule triple_bind) (rule markers)
qed

lemma run_settles:
  assumes sep: "separate_files m h" and cur: "locate m (ho_current h) = locate m (ho_install h)" and nm: "ho_naming h = PreserveCurrentName"
  shows "triple (\<lambda>s. holds s (locate m (ho_install h)) old \<and> (calm \<longrightarrow> room m h s))
    (fbind (complete_update_handoff_after_parent_exit m h w) (\<lambda>report.
     fbind (on_error (relaunch_installed_update m child (wr_handoff report) (wr_publication report))
              (rollback_failed_update_startup m (wr_handoff report) (wr_installation report) (wr_publication report))) (\<lambda>startup.
       fret (report\<lparr>wr_startup := Some startup\<rparr>))))
    (\<lambda>_. updated m h) (settled m h old calm)"
    (is "triple ?P _ _ ?E")
proof -
  let ?Q = "\<lambda>report s. replaced m h old calm s \<and> wr_handoff report = h \<and> wr_publication report = ReplacedInPlace (ho_install h) \<and>
     prepared_files m h old (wr_installation report) \<and>
     (\<forall>rb. update_rollback_candidate_path h = Inr rb \<longrightarrow> validate_custom_replacement_paths h (wr_installation report) rb = Inr ())"
  have complete: "triple ?P (complete_update_handoff_after_parent_exit m h w) ?Q ?E"
    unfolding complete_update_handoff_after_parent_exit_def
  proof (rule triple_bind [OF prepare_settles [OF sep cur]])
    fix i
    show "triple (\<lambda>s. before_replacement m h i old calm s \<and> prepared_files m h old i) (fbind (publish_prepared_update_installation m h i) (\<lambda>publication.
       fret \<lparr>wr_handoff = h, wr_parent_wait = w, wr_installation = i, wr_publication = publication, wr_startup = None\<rparr>)) ?Q ?E"
    proof (cases "prepared_files m h old i")
      case True
      show ?thesis
        by (rule triple_conseq [OF triple_bind [OF publish_settles [OF sep True nm, of calm] triple_ret [where Q = ?Q]]]) (use True in auto)
    qed (simp add: triple_def)
  qed
  have start: "triple (?Q report) (fbind (on_error (relaunch_installed_update m child (wr_handoff report) (wr_publication report))
              (rollback_failed_update_startup m (wr_handoff report) (wr_installation report) (wr_publication report))) (\<lambda>startup.
       fret (report\<lparr>wr_startup := Some startup\<rparr>))) (\<lambda>_. updated m h) ?E" for report
  proof (cases "wr_handoff report = h \<and> wr_publication report = ReplacedInPlace (ho_install h) \<and> prepared_files m h old (wr_installation report) \<and>
     (\<forall>rb. update_rollback_candidate_path h = Inr rb \<longrightarrow> validate_custom_replacement_paths h (wr_installation report) rb = Inr ())")
    case True
    let ?T = "{locate m (ho_marker h), locate m (update_startup_marker_partial_path (ho_marker h))}"
    have "triple (replaced m h old calm) (relaunch_installed_update m child h (ReplacedInPlace (ho_install h)))
        (\<lambda>_. replaced m h old calm) (replaced m h old calm)"
      by (rule triple_frame [where T = ?T, OF touches_relaunch]) (auto intro: replaced_touches [OF _ _ sep])
    then have "triple (replaced m h old calm) (on_error (relaunch_installed_update m child h (ReplacedInPlace (ho_install h)))
        (rollback_failed_update_startup m h (wr_installation report) (ReplacedInPlace (ho_install h)))) (\<lambda>_. replaced m h old calm) ?E"
      by (rule triple_on_error) (rule startup_rollback_settles [OF sep], use True in blast, use True in blast)
    then have "triple (replaced m h old calm) (fbind (on_error (relaunch_installed_update m child h (ReplacedInPlace (ho_install h)))
        (rollback_failed_update_startup m h (wr_installation report) (ReplacedInPlace (ho_install h)))) (\<lambda>startup.
       fret (report\<lparr>wr_startup := Some startup\<rparr>))) (\<lambda>_. updated m h) ?E"
      by (rule triple_bind) (auto simp: replaced_def intro: triple_ret)
    then show ?thesis using True by (simp add: triple_def)
  qed (rule triple_vacuous, blast)
  show ?thesis using complete start by (rule triple_bind)
qed

text \<open>
  C11. An update in place never loses the executable.  Whatever calls fail on the way, and whether or not the
  launched program confirms its start, the file at the executable's path afterwards has its old contents or contents with the size and
  the SHA-256 digest of the update.  If the helper reports success, it is the update; if it reports a failure and no
  call of the operating system failed, the old executable has been put back.
\<close>

theorem in_place_update_safe:
  assumes "read_update_handoff_plan m handoff_path s = (Inr h, s0)" "ho_naming h = PreserveCurrentName" "separate_files m h"
    "locate m (ho_current h) = locate m (ho_install h)" "holds s (locate m (ho_install h)) old"
    "run_update_handoff_wait_mode m child handoff_path k s = (r, s')"
  shows "\<exists>c. holds s' (locate m (ho_install h)) c \<and> (c = old \<or> is_update m h c) \<and>
    (\<forall>report. r = Inr report \<longrightarrow> is_update m h c) \<and> (\<forall>e. r = Inl e \<longrightarrow> room m h s \<longrightarrow> c = old)"
proof -
  define calm where "calm = room m h s"
  let ?P = "\<lambda>x. holds x (locate m (ho_install h)) old \<and> (calm \<longrightarrow> room m h x)" and ?E = "settled m h old calm"
  have stable: "?P x \<Longrightarrow> touches {} x x' \<Longrightarrow> ?P x'" for x x'
    using room_touches [of m h x "{}" x'] by (auto elim: holds_touches)
  have settled: "?P x \<Longrightarrow> ?E x" for x by (simp add: settled_def old_or_updated_def)
  have waits: "within (touches {}) (if parent then fbind (flift (wait_for_process_exit m (ho_parent h))) (\<lambda>_. fret Exited) else fret AlreadyExited)" for parent
    by (intro frame_intros)
  have "triple ?P (fbind (fguard (ho_kind h = k) InvalidData) (\<lambda>_.
     fbind (validate_update_helper_identity m h) (\<lambda>_.
     fbind (flift (open_parent_process m (ho_parent h))) (\<lambda>parent.
     fbind (verify_update_handoff_executable m h) (\<lambda>_.
     fbind (if parent then fbind (flift (wait_for_process_exit m (ho_parent h))) (\<lambda>_. fret Exited) else fret AlreadyExited) (\<lambda>parent_wait.
     fbind (complete_update_handoff_after_parent_exit m h parent_wait) (\<lambda>report.
     fbind (on_error (relaunch_installed_update m child (wr_handoff report) (wr_publication report))
              (rollback_failed_update_startup m (wr_handoff report) (wr_installation report) (wr_publication report))) (\<lambda>startup.
       fret (report\<lparr>wr_startup := Some startup\<rparr>)))))))))  (\<lambda>_. updated m h) ?E" (is "triple _ ?rest _ _")
    by (rule triple_guard [OF settled], assumption, rule triple_quiet [OF tch.identities(1) stable settled], assumption, assumption, assumption,
        rule triple_lift [OF settled], assumption, rule triple_quiet [OF tch.inspects(5) stable settled], assumption, assumption, assumption,
        rule triple_quiet [OF waits stable settled], assumption, assumption, assumption, rule run_settles [OF assms(3,4,2)])
  moreover have "?rest s0 = (r, s')"
    using assms(6,1) by (simp add: run_update_handoff_wait_mode_def fbind_def)
  moreover have "?P s0" using stable [OF _ withinD [OF tch.inspects(6) assms(1)]] assms(5) by (simp add: calm_def)
  ultimately have "case r of Inl _ \<Rightarrow> ?E s' | Inr _ \<Rightarrow> updated m h s'" by (fastforce simp: triple_def split: sum.splits)
  then show ?thesis
    by (auto simp: settled_def old_or_updated_def updated_def calm_def split: sum.splits)
qed

section \<open>Staging, confirmation and cleanup\<close>

lemma reader_reads_ok: "r \<in> set (concat (map reader_read reads)) \<Longrightarrow> reader_ok r"
proof -
  assume "r \<in> set (concat (map reader_read reads))"
  then obtain x where x: "r \<in> set (reader_read x)" by auto
  have ret: "reader_ok (fret c)" if "length c < 2 ^ 64" for c
    using that by (auto simp: reader_ok_def quiet.pure) (simp add: fret_def)
  show ?thesis
  proof (cases x)
    case (Inl e)
    then show ?thesis using x by (auto simp: reader_ok_def quiet.pure) (simp add: ffail_def)
  next
    case (Inr bs)
    then show ?thesis
      using x file_chunk_bound [of _ bs] by (fastforce simp: UPDATE_DOWNLOAD_BUFFER_SIZE_def split: if_splits intro!: ret)
  qed
qed

text \<open>
  C36. A staged update is the release asset.  If downloading and staging succeeds, the staged file has exactly the
  size and the SHA-256 digest of the selected asset, whatever the server sent and however the download was cut
  into reads; the report says so.
\<close>

theorem staged_update_verified:
  assumes "download_and_stage_update m pl response s = (Inr v, s')"
  shows "\<exists>c. holds s' (locate m (up_staged pl)) c \<and> has_digest m c (sel_size (up_asset pl)) (sel_sha256_hex (up_asset pl)) \<and>
    v = \<lparr>staged_executable = up_staged pl, staged_size = sel_size (up_asset pl), staged_sha256_hex = sel_sha256_hex (up_asset pl)\<rparr>"
proof -
  let ?p = "locate m (partial_staged_executable_path pl)"
  obtain reads s0 s1 s2 total hashed s3 where s1: "create_new ?p s0 = (Inr (), s1)"
    and p: "pump (Some (sel_size (up_asset pl))) (write_file_at ?p) (concat (map reader_read reads)) 0 [] s1 = (Inr (total, hashed), s2)"
    and t: "total = sel_size (up_asset pl)" "encode_lower_hex (sha256 m hashed) = sel_sha256_hex (up_asset pl)"
    and s3: "sync_all ?p s2 = (Inr (), s3)" "replace ?p (locate m (up_staged pl)) s3 = (Inr (), s')"
    and v: "v = \<lparr>staged_executable = up_staged pl, staged_size = total, staged_sha256_hex = encode_lower_hex (sha256 m hashed)\<rparr>"
    using assms unfolding download_and_stage_update_def stage_update_from_reader_def write_verified_staged_update_def Let_def
    by (auto simp: on_error_Inr fguard_def fret_def ffail_def flift_def split: prod.splits if_splits elim!: fbind_InrE)
  have "holds s1 ?p []" using create_new_Inr [OF s1] by (simp add: holds_def)
  then have "holds s2 ?p hashed" "unat total = length hashed" using pump_exact [OF p] reader_reads_ok by fastforce+
  moreover have "nodes s3 = nodes s2" using quiet_Inr [OF quiet.reads(5) s3(1)] .
  ultimately show ?thesis using replace_Inr [OF s3(2)] t v by (auto simp: holds_def has_digest_def)
qed

lemma touches_cleanup:
  assumes "successful_update_cleanup_paths h = Inr ps"
  shows "within (touches (set (map (locate m) (ho_staging h # ps)))) (remove_successful_update_transaction_files m h)"
  unfolding remove_successful_update_transaction_files_def using assms
  by (intro tch.bind_lift frame_intros touches_rules tch.mapM) auto

lemma cleanup_needs_paths:
  assumes "successful_update_cleanup_paths h = Inl e"
  shows "within (touches {}) (remove_successful_update_transaction_files m h)"
  unfolding remove_successful_update_transaction_files_def using assms by (intro tch.bind_lift) auto

lemma touches_cleanup_any:
  "within (touches (case successful_update_cleanup_paths h of Inl _ \<Rightarrow> {} | Inr ps \<Rightarrow> set (map (locate m) (ho_staging h # ps))))
    (remove_successful_update_transaction_files m h)"
  using touches_cleanup cleanup_needs_paths by (simp split: sum.split)

lemma same_file: "fbind (canonicalize m p) (\<lambda>x. fbind (canonicalize m q) (\<lambda>y. fbind (fguard (x = y) e) f)) s = (Inr a, s') \<Longrightarrow>
    \<exists>t. locate m p = locate m q \<and> nodes t = nodes s \<and> f () t = (Inr a, s')"
  using quiet_Inr [OF quiet.reads(2)]
  by (auto simp: canonicalize_def fguard_def fret_def ffail_def elim!: fbind_InrE split: if_splits) metis

lemma recovery_identity:
  assumes "validate_recovery_installed_identity m current h s = (Inr u, s')"
  shows "locate m current = locate m (ho_install h) \<and> (\<exists>c. file_at s (locate m current) c \<and> is_update m h c)"
proof -
  have "fbind (canonicalize m current) (\<lambda>x. fbind (canonicalize m (ho_install h)) (\<lambda>y. fbind (fguard (x = y) InvalidData) (\<lambda>_.
      verify_prepared_installation_file m current (ho_size h) (ho_sha256_hex h)))) s = (Inr u, s')"
    using assms by (auto simp: validate_recovery_installed_identity_def fguard_def fret_def ffail_def fbind_def split: if_splits)
  from same_file [OF this] show ?thesis using verified_file by (fastforce simp: is_update_def file_at_def)
qed

text \<open>
   Recovery throws nothing away it may need.  If the recovery at the start of the program changes any file, then the
  running program is the installed executable of the interrupted update and has its size and digest; what it
  changes is only one of the files of that update or its staging directory.
\<close>

theorem recovery_removes_only_leftovers:
  assumes "read_update_handoff_plan m handoff_path s0 = (Inr h, s1)" "fs_metadata (locate m handoff_path) s = (Inr n, s0)"
    "recover_interrupted_update_cleanup_from_handoff m current handoff_path k s = (r, s')"
    "fmlookup (nodes s') q \<noteq> fmlookup (nodes s) q"
  shows "locate m current = locate m (ho_install h) \<and> (\<exists>c. file_at s (locate m current) c \<and> is_update m h c) \<and>
    (\<exists>ps. successful_update_cleanup_paths h = Inr ps \<and> q \<in> set (map (locate m) (ho_staging h # ps)))"
proof -
  have eq: "nodes s1 = nodes s"
    using quiet_Inr [OF quiet.inspects(6) assms(1)] quiet_Inr [OF quiet.reads(2) assms(2)] by simp
  let ?rest = "fbind (fguard (ho_kind h = k) InvalidData) (\<lambda>_.
         fbind (flift (ok_or InvalidInput (path_parent handoff_path))) (\<lambda>expected_staging.
         fbind (fguard (path_eq (ho_handoff h) handoff_path) InvalidData) (\<lambda>_.
         fbind (fguard (path_eq (ho_staging h) expected_staging) InvalidData) (\<lambda>_.
         fbind (validate_recovery_installed_identity m current h) (\<lambda>_.
           recover_transaction m h)))))"
  have "s' = s0 \<or> ?rest s1 = (r, s')"
    using assms(3) by (auto simp: recover_interrupted_update_cleanup_from_handoff_def fmatch_def assms(1,2) fbind_def fguard_def fret_def ffail_def
        split: if_splits)
  moreover have "nodes s0 = nodes s" using quiet_Inr [OF quiet.reads(2) assms(2)] .
  ultimately have "?rest s1 = (r, s')" using assms(4) by auto
  then have "(\<exists>t. validate_recovery_installed_identity m current h s1 = (Inr (), t) \<and> recover_transaction m h t = (r, s')) \<or> nodes s' = nodes s1"
    using quiet_Inr [OF quiet.identities(3) [of m current h]]
    by (auto simp: fbind_def fguard_def fret_def ffail_def flift_def split: if_splits prod.splits sum.splits)
  then obtain t where t: "validate_recovery_installed_identity m current h s1 = (Inr (), t)" "recover_transaction m h t = (r, s')"
    using assms(4) eq by auto
  have same: "nodes t = nodes s" using quiet_Inr [OF quiet.identities(3) t(1)] eq by simp
  let ?T = "case successful_update_cleanup_paths h of Inl _ \<Rightarrow> {} | Inr ps \<Rightarrow> set (map (locate m) (ho_staging h # ps))"
  have w: "within (touches ?T) (recover_transaction m h)"
    unfolding recover_transaction_def Let_def by (intro frame_intros touches_cleanup_any)
  have "q \<in> ?T" using touchesD [OF withinD [OF w t(2)], of q] same assms(4) by metis
  then show ?thesis
    using recovery_identity [OF t(1)] eq by (auto simp: file_at_def split: sum.splits)
qed

lemma calm_read:
  assumes "holds s p bs" "length bs \<le> limit" "faults s = []"
  shows "read_limited p limit s = (Inr bs, s)"
  using assms by (auto simp: read_limited_def open_file_def read_contents_def calm_syscall fbind_def fret_def holds_def)

lemma marker_length: "encode_update_startup_marker mk = Inr bs \<Longrightarrow> length bs = UPDATE_STARTUP_MARKER_BYTES"
  using startup_marker_read_back by (fastforce simp: decode_update_startup_marker_def result_simps)

lemma marker_written:
  assumes "write_update_startup_marker_file m p mk s = (Inr u, s')"
  shows "\<exists>bs. encode_update_startup_marker mk = Inr bs \<and> holds s' (locate m p) bs"
proof -
  let ?p = "locate m (update_startup_marker_partial_path p)"
  obtain bs s0 s1 s2 s3 where bs: "encode_update_startup_marker mk = Inr bs" and s1: "create_new ?p s0 = (Inr (), s1)"
    and s2: "write_file_at ?p 0 bs s1 = (Inr (), s2)" and s3: "sync_all ?p s2 = (Inr (), s3)" "move_new ?p (locate m p) s3 = (Inr (), s')"
    using assms unfolding write_update_startup_marker_file_def Let_def
    by (auto simp: fmatch_def flift_def ffail_def on_error_Inr elim!: fbind_InrE split: prod.splits sum.splits if_splits)
  have "holds s1 ?p []" using create_new_Inr [OF s1] by (simp add: holds_def)
  from write_file_at_Inr [OF s2 this] have "holds s2 ?p bs" by (simp add: write_all_at_def split: if_splits)
  then have "holds s3 ?p bs" using quiet_Inr [OF quiet.reads(5) s3(1)] by (simp add: holds_def)
  then have "holds s' (locate m p) bs"
    using s3(2) by (auto simp: move_new_def unchanged_fs_def holds_def dest!: syscall_Inr split: option.splits if_splits)
  with bs show ?thesis by blast
qed

text \<open>
   The confirmation of the new program reaches the helper.  Once the new program has written its startup marker
  for the update it was started by, the helper's next look at the marker accepts it, as long as the program is still
  running: the two processes agree on the file, its bytes and the update.
\<close>

theorem startup_confirmation_accepted:
  assumes "write_update_startup_marker m worker armed confirmation s = (Inr (), s')" "locate helper = locate m"
    "poll_marker p = None" "poll_exited p = Inr False"
  shows "\<exists>marker. wait_for_update_startup_marker helper (sc_handoff confirmation) (sc_process confirmation) p ps (s'\<lparr>faults := []\<rparr>) =
      (Inr marker, s'\<lparr>faults := []\<rparr>) \<and>
    marker = \<lparr>marker_pid = sc_process confirmation, marker_size = ho_size (sc_handoff confirmation),
      marker_sha256_hex = ho_sha256_hex (sc_handoff confirmation)\<rparr>"
proof -
  let ?h = "sc_handoff confirmation" and ?s = "s'\<lparr>faults := []\<rparr>"
  let ?mk = "\<lparr>marker_pid = sc_process confirmation, marker_size = ho_size ?h, marker_sha256_hex = ho_sha256_hex ?h\<rparr>"
  obtain t where "write_update_startup_marker_file m (ho_marker ?h) ?mk t = (Inr (), s')"
    using assms(1) unfolding write_update_startup_marker_def Let_def
    by (auto simp: fmatch_def flift_def fret_def ffail_def elim!: fbind_InrE split: prod.splits if_splits)
  from marker_written [OF this] obtain bs where bs: "encode_update_startup_marker ?mk = Inr bs" "holds s' (locate m (ho_marker ?h)) bs" by blast
  have "read_limited (locate helper (ho_marker ?h)) (UPDATE_STARTUP_MARKER_BYTES + 1) ?s = (Inr bs, ?s)"
    using bs(2) marker_length [OF bs(1)] assms(2) by (intro calm_read) (simp_all add: holds_def)
  then have "read_update_startup_marker helper (ho_marker ?h) ?s = (Inr ?mk, ?s)"
    using startup_marker_read_back [OF bs(1)] by (simp add: read_update_startup_marker_def fbind_def flift_def)
  then have "poll_startup helper ?h (sc_process confirmation) p x ?s = (Inr ?mk, ?s)" for x
    using assms(3,4) by (simp add: poll_startup_def child_publishes_def fmatch_def fbind_def fguard_def fret_def flift_def
        validate_startup_marker_for_handoff_def)
  then show ?thesis by (cases ps) simp_all
qed

section \<open>Updates beside the running executable\<close>

lemma touches_publish:
  assumes "update_rollback_candidate_path h = Inr rb" "{locate m rb, locate m (pi_candidate i), locate m (ho_install h)} \<subseteq> T"
  shows "within (touches T) (publish_prepared_update_installation m h i)"
proof -
  have "within (touches T) (publish_custom_named_update m h i)" "within (touches T) (publish_officially_named_update m h i)"
    unfolding publish_custom_named_update_def publish_officially_named_update_def using assms
    by (intro tch.bind_lift frame_intros touches_rules touches_rollback; auto)+
  then show ?thesis
    unfolding publish_prepared_update_installation_def by (cases "ho_naming h") (intro frame_intros; simp)+
qed

lemma touches_startup_rollback:
  assumes "update_rollback_candidate_path h = Inr rb" "locate m (publication_installed_executable p) \<in> T"
    "{locate m rb, locate m (ho_install h), locate m (ho_marker h), locate m (update_startup_marker_partial_path (ho_marker h))} \<subseteq> T"
  shows "within (touches T) (rollback_failed_update_startup m h i p)"
  unfolding rollback_failed_update_startup_def using assms
  by (cases p) (auto intro!: frame_intros touches_rules touches_rollback)

lemma published_path:
  assumes "publish_prepared_update_installation m h i s = (Inr p, s')"
  shows "publication_installed_executable p = ho_install h"
proof -
  have "publish_custom_named_update m h i t = (Inr p, s') \<Longrightarrow> publication_installed_executable p = ho_install h" for t
    unfolding publish_custom_named_update_def by (auto simp: fret_def elim!: fbind_InrE)
  moreover have "publish_officially_named_update m h i t = (Inr p, s') \<Longrightarrow> publication_installed_executable p = ho_install h" for t
    unfolding publish_officially_named_update_def
    by (auto simp: fmatch_def fret_def ffail_def elim!: fbind_InrE split: prod.splits sum.splits if_splits)
  ultimately show ?thesis
    using assms unfolding publish_prepared_update_installation_def by (auto elim!: fbind_InrE split: UpdateInstallNaming.splits)
qed

lemma prepared_candidate:
  "prepare_update_installation_files m h s = (Inr i, s') \<Longrightarrow> update_install_candidate_path h = Inr (pi_candidate i)"
  unfolding prepare_update_installation_files_def Let_def by (auto simp: flift_def fret_def elim!: fbind_InrE)

lemma relaunched:
  assumes "relaunch_installed_update m child h p s = (Inr report, s')"
  shows "\<exists>c. file_at s' (locate m (publication_installed_executable p)) c \<and> is_update m h c"
proof -
  obtain t where t: "verify_prepared_installation_file m (publication_installed_executable p) (ho_size h) (ho_sha256_hex h) t = (Inr (), s')"
    using assms unfolding relaunch_installed_update_def confirm_startup_def Let_def
    by (auto simp: on_error_Inr fret_def elim!: fbind_InrE)
  then show ?thesis using verified_file [OF t] quiet_Inr [OF quiet.inspects(4) t] by (simp add: file_at_def is_update_def)
qed

lemma completed:
  assumes "complete_update_handoff_after_parent_exit m h w s = (Inr report, s')"
  shows "wr_handoff report = h \<and> publication_installed_executable (wr_publication report) = ho_install h"
  using assms published_path unfolding complete_update_handoff_after_parent_exit_def by (auto simp: fret_def elim!: fbind_InrE)

lemma touches_complete:
  assumes "update_install_candidate_path h = Inr cand" "update_rollback_candidate_path h = Inr rb"
    "{locate m cand, locate m rb, locate m (ho_install h), locate m (update_backup_partial_path (ho_staging h)), locate m (ho_backup h)} \<subseteq> T"
  shows "within (touches T) (complete_update_handoff_after_parent_exit m h w)"
  unfolding complete_update_handoff_after_parent_exit_def
proof (rule tch.bind_result)
  show "within (touches T) (prepare_update_installation_files m h)" using assms by (intro touches_prepare) auto
next
  fix i s s'
  assume "prepare_update_installation_files m h s = (Inr i, s')"
  then have "pi_candidate i = cand" using prepared_candidate assms(1) by fastforce
  then show "within (touches T) (fbind (publish_prepared_update_installation m h i) (\<lambda>publication.
       fret \<lparr>wr_handoff = h, wr_parent_wait = w, wr_installation = i, wr_publication = publication, wr_startup = None\<rparr>))"
    using assms by (intro frame_intros touches_publish [OF assms(2)]) auto
qed

text \<open>
   An update that installs under the name of the release leaves the running executable alone: whatever fails,
  its file is the same afterwards.  If the helper reports success, the file at the install path is the update, and
  the program started from it has confirmed.
\<close>

theorem side_by_side_update_safe:
  assumes "read_update_handoff_plan m handoff_path s = (Inr h, s0)" "successful_update_cleanup_paths h = Inr ps"
    "locate m (ho_current h) \<notin> set (map (locate m) (ho_install h # ps))"
    "run_update_handoff_wait_mode m child handoff_path k s = (r, s')"
  shows "fmlookup (nodes s') (locate m (ho_current h)) = fmlookup (nodes s) (locate m (ho_current h)) \<and>
    (\<forall>report. r = Inr report \<longrightarrow> (\<exists>c. file_at s' (locate m (ho_install h)) c \<and> is_update m h c))"
proof -
  let ?T = "set (map (locate m) (ho_install h # ps))"
  obtain cand rb where c: "update_install_candidate_path h = Inr cand" "update_rollback_candidate_path h = Inr rb"
    and ps: "ps = [ho_staged h, cand, rb, update_staged_partial_path h, update_backup_partial_path (ho_staging h),
       partial_handoff_plan_path (ho_staging h), update_startup_marker_partial_path (ho_marker h), ho_backup h, ho_marker h, ho_handoff h]"
    using assms(2) by (auto simp: successful_update_cleanup_paths_def result_simps)
  let ?rest = "fbind (fguard (ho_kind h = k) InvalidData) (\<lambda>_.
     fbind (validate_update_helper_identity m h) (\<lambda>_.
     fbind (flift (open_parent_process m (ho_parent h))) (\<lambda>parent.
     fbind (verify_update_handoff_executable m h) (\<lambda>_.
     fbind (if parent then fbind (flift (wait_for_process_exit m (ho_parent h))) (\<lambda>_. fret Exited) else fret AlreadyExited) (\<lambda>parent_wait.
     fbind (complete_update_handoff_after_parent_exit m h parent_wait) (\<lambda>report.
     fbind (on_error (relaunch_installed_update m child (wr_handoff report) (wr_publication report))
              (rollback_failed_update_startup m (wr_handoff report) (wr_installation report) (wr_publication report))) (\<lambda>startup.
       fret (report\<lparr>wr_startup := Some startup\<rparr>))))))))"
  have eq: "?rest s0 = (r, s')" using assms(4,1) by (simp add: run_update_handoff_wait_mode_def fbind_def)
  have fin: "within (touches ?T) (fbind (complete_update_handoff_after_parent_exit m h w) (\<lambda>report.
     fbind (on_error (relaunch_installed_update m child (wr_handoff report) (wr_publication report))
              (rollback_failed_update_startup m (wr_handoff report) (wr_installation report) (wr_publication report))) (\<lambda>startup.
       fret (report\<lparr>wr_startup := Some startup\<rparr>))))" for w
  proof (rule tch.bind_result)
    show "within (touches ?T) (complete_update_handoff_after_parent_exit m h w)" using ps by (intro touches_complete [OF c]) auto
  next
    fix report x x'
    assume "complete_update_handoff_after_parent_exit m h w x = (Inr report, x')"
    from completed [OF this] show "within (touches ?T) (fbind (on_error (relaunch_installed_update m child (wr_handoff report) (wr_publication report))
        (rollback_failed_update_startup m (wr_handoff report) (wr_installation report) (wr_publication report))) (\<lambda>startup.
        fret (report\<lparr>wr_startup := Some startup\<rparr>)))"
      using ps c(2) by (intro frame_intros touches_relaunch touches_startup_rollback) auto
  qed
  have w: "within (touches ?T) ?rest" by (rule fin | rule frame_intros)+
  have "touches ?T s0 s'" using w [unfolded within_def, rule_format, of s0] unfolding eq by simp
  then have "fmlookup (nodes s') (locate m (ho_current h)) = fmlookup (nodes s) (locate m (ho_current h))"
    using touchesD [of ?T s0 s'] assms(3) quiet_Inr [OF quiet.inspects(6) assms(1)] by metis
  moreover have "\<exists>c. file_at s' (locate m (ho_install h)) c \<and> is_update m h c" if ok: "r = Inr report" for report
  proof -
    obtain report' startup x y w z where "complete_update_handoff_after_parent_exit m h w z = (Inr report', x)"
      "relaunch_installed_update m child (wr_handoff report') (wr_publication report') x = (Inr startup, s')"
      using eq ok by (auto simp: on_error_Inr fret_def elim!: fbind_InrE)
    then show ?thesis using completed relaunched by metis
  qed
  ultimately show ?thesis by blast
qed

section \<open>A sample update\<close>

lemmas path_eval = absolute_path_def parse_prefix_def parse_drive_def path_has_root_def has_physical_root_def after_prefix_def path_sep_def
  encode_utf16_def encode_utf16_char_def ascii_alphabetic_def is_separator_def backslash_def slash_def full_stop_def next_component_def
  ascii_upper_unit_def

lemmas component_eval = win_components_def before_body_def leading_dot_def single_component_def map_filter_simps

definition sample_handoff :: UpdateHandoffPlan where
  "sample_handoff = \<lparr>ho_parent = 4, ho_kind = Cli, ho_naming = PreserveCurrentName, ho_current = wide ''C:/a/b.exe'', ho_install = wide ''C:/a/b.exe'',
     ho_staging = wide ''C:/s'', ho_staged = wide ''C:/s/NetworkCopy-Speed-CLI-Windows-x64.exe'', ho_backup = wide ''C:/s/previous.exe'',
     ho_handoff = wide ''C:/s/handoff-plan.bin'', ho_marker = wide ''C:/s/startup-ok.marker'', ho_size = 1,
     ho_sha256_hex = encode_lower_hex (replicate 32 0)\<rparr>"

lemma sample_joins:
  "path_eq (wide ''C:/s/previous.exe'') (path_join (wide ''C:/s'') UPDATE_BACKUP_FILE)"
  "path_eq (wide ''C:/s/handoff-plan.bin'') (path_join (wide ''C:/s'') UPDATE_HANDOFF_FILE)"
  "path_eq (wide ''C:/s/startup-ok.marker'') (path_join (wide ''C:/s'') UPDATE_STARTUP_MARKER_FILE)"
  unfolding UPDATE_BACKUP_FILE_def UPDATE_HANDOFF_FILE_def UPDATE_STARTUP_MARKER_FILE_def
  by (simp_all add: path_join_def path_eval component_eval path_eq_def Let_def)

lemma sample_staged:
  "path_parent (wide ''C:/s/NetworkCopy-Speed-CLI-Windows-x64.exe'') = Some (wide ''C:/s'')"
  "file_name (wide ''C:/s/NetworkCopy-Speed-CLI-Windows-x64.exe'') = Some (wide ''NetworkCopy-Speed-CLI-Windows-x64.exe'')"
  "is_official_release_file_name (wide ''NetworkCopy-Speed-CLI-Windows-x64.exe'') Cli"
proof -
  show "path_parent (wide ''C:/s/NetworkCopy-Speed-CLI-Windows-x64.exe'') = Some (wide ''C:/s'')"
    by (simp add: path_parent_def component_eval path_eval Let_def trim_body.simps last_name_def without_last_def)
  show "file_name (wide ''C:/s/NetworkCopy-Speed-CLI-Windows-x64.exe'') = Some (wide ''NetworkCopy-Speed-CLI-Windows-x64.exe'')"
    by (simp add: file_name_def component_eval path_eval)
  show "is_official_release_file_name (wide ''NetworkCopy-Speed-CLI-Windows-x64.exe'') Cli"
    by (rule expected_name_official) (simp add: expected_asset_names_def)
qed

lemma sample_absolute:
  "list_all absolute_path [wide ''C:/a/b.exe'', wide ''C:/s'', wide ''C:/s/NetworkCopy-Speed-CLI-Windows-x64.exe'', wide ''C:/s/previous.exe'',
     wide ''C:/s/handoff-plan.bin'', wide ''C:/s/startup-ok.marker'']"
  by (simp add: path_eval)

lemma sample_distinct_paths:
  "\<not> list_ex (path_eq (wide ''C:/s/NetworkCopy-Speed-CLI-Windows-x64.exe''))
     [wide ''C:/a/b.exe'', wide ''C:/a/b.exe'', wide ''C:/s/previous.exe'', wide ''C:/s/handoff-plan.bin'', wide ''C:/s/startup-ok.marker'']"
  by (simp add: path_eq_def component_eval path_eval)

lemma sample_digest: "decode_sha256_hex (encode_lower_hex (replicate 32 0)) = Inr (replicate 32 0)"
  by (simp add: decode_sha256_hex_iff)

lemma path_eq_refl [simp]: "path_eq p p"
  by (simp add: path_eq_def)

lemma sample_valid: "validate_update_handoff_plan sample_handoff = Inr ()"
  using sample_joins sample_staged sample_absolute sample_distinct_paths sample_digest
  by (simp add: validate_update_handoff_plan_def sample_handoff_def)

lemma sample_storable: "list_all path_storable (handoff_paths sample_handoff)"
  by (simp add: sample_handoff_def path_storable_def encode_utf16_def encode_utf16_char_def UPDATE_HANDOFF_MAX_PATH_UTF16_UNITS_def)

definition sample_bytes :: "UpdateHandoffPlan \<Rightarrow> byte list" where "sample_bytes h = handoff_bytes h (replicate 32 0)"

lemma sample_length: "length (sample_bytes sample_handoff) \<le> UPDATE_HANDOFF_MAX_BYTES"
  by (simp add: sample_bytes_def handoff_bytes_def path_bytes_def length_concat sample_handoff_def encode_utf16_def encode_utf16_char_def
      UPDATE_HANDOFF_MAX_BYTES_def UPDATE_HANDOFF_MAGIC_def)

lemma sample_decodes:
  assumes "validate_update_handoff_plan h = Inr ()" "list_all path_storable (handoff_paths h)" "ho_sha256_hex h = encode_lower_hex (replicate 32 0)"
    "length (sample_bytes h) \<le> UPDATE_HANDOFF_MAX_BYTES"
  shows "decode_update_handoff_plan (sample_bytes h) = Inr h"
proof -
  have "list_all absolute_path (handoff_paths h)" using assms(1) by (auto simp: validate_update_handoff_plan_def result_simps)
  then have "encode_update_handoff_plan h = Inr (sample_bytes h)"
    using assms sample_digest by (simp add: encode_update_handoff_plan_def result_simps write_handoff_path_iff handoff_bytes_def sample_bytes_def)
  then show ?thesis by (simp add: handoff_plan_iff)
qed

text \<open>The same update under the name of the release, beside the running executable.\<close>

definition sample_official :: UpdateHandoffPlan where
  "sample_official = sample_handoff\<lparr>ho_naming := PublishedAssetName, ho_install := wide ''C:/a/NetworkCopy-Speed-CLI-Windows-x64.exe''\<rparr>"

lemma sample_official_valid: "validate_update_handoff_plan sample_official = Inr ()"
proof -
  have "path_parent (wide ''C:/a/NetworkCopy-Speed-CLI-Windows-x64.exe'') = Some (wide ''C:/a'')" "path_parent (wide ''C:/a/b.exe'') = Some (wide ''C:/a'')"
    by (simp_all add: path_parent_def component_eval path_eval Let_def trim_body.simps last_name_def without_last_def)
  moreover have "file_name (wide ''C:/a/NetworkCopy-Speed-CLI-Windows-x64.exe'') = Some (wide ''NetworkCopy-Speed-CLI-Windows-x64.exe'')"
    by (simp add: file_name_def component_eval path_eval)
  moreover have "absolute_path (wide ''C:/a/NetworkCopy-Speed-CLI-Windows-x64.exe'')" by (simp add: path_eval)
  moreover have "\<not> path_eq (wide ''C:/s/NetworkCopy-Speed-CLI-Windows-x64.exe'') (wide ''C:/a/NetworkCopy-Speed-CLI-Windows-x64.exe'')"
    by (simp add: path_eq_def component_eval path_eval)
  ultimately show ?thesis
    using sample_joins sample_staged sample_absolute sample_distinct_paths sample_digest
    by (simp add: validate_update_handoff_plan_def sample_official_def sample_handoff_def)
qed

lemma sample_official_storable: "list_all path_storable (handoff_paths sample_official)"
  by (simp add: sample_official_def sample_handoff_def path_storable_def encode_utf16_def encode_utf16_char_def UPDATE_HANDOFF_MAX_PATH_UTF16_UNITS_def)

lemma sample_official_length: "length (sample_bytes sample_official) \<le> UPDATE_HANDOFF_MAX_BYTES"
  by (simp add: sample_bytes_def handoff_bytes_def path_bytes_def length_concat sample_official_def sample_handoff_def encode_utf16_def
      encode_utf16_char_def UPDATE_HANDOFF_MAX_BYTES_def UPDATE_HANDOFF_MAGIC_def)

text \<open>Every path names a file of its own; every file has the same digest.\<close>

definition sample_machine :: "path \<Rightarrow> machine" where
  "sample_machine exe = \<lparr>locate = (\<lambda>p. [Normal p]), sha256 = (\<lambda>_. replicate 32 0), own_process = 7, current_exe = Inr exe,
     app_data = None, open_process = (\<lambda>_. Inr False), wait_object = (\<lambda>_. WAIT_OBJECT_0)\<rparr>"

definition update_disk :: "UpdateHandoffPlan \<Rightarrow> byte list \<Rightarrow> fs" where
  "update_disk h c = \<lparr>nodes = fmap_of_list [([Normal (wide ''C:/a/b.exe'')], FileNode c 0 0),
       ([Normal (wide ''C:/s/NetworkCopy-Speed-CLI-Windows-x64.exe'')], FileNode [9] 0 0),
       ([Normal (wide ''C:/s/handoff-plan.bin'')], FileNode (sample_bytes h) 0 0)],
     faults = [], clock = 0, journal_dir = \<lparr>journal_file = None, temporary_file = None\<rparr>\<rparr>"

definition sample_child :: child_run where
  "sample_child = \<lparr>spawned = Inr 9, first_poll = \<lparr>poll_marker = None, poll_exited = Inr True\<rparr>, later_polls = [], stop_status = Inr True,
     stop_kill = Inr (), stop_recheck = Inr True, stop_reap = Inr ()\<rparr>"

lemma sample_lookups:
  "fmlookup (nodes (update_disk h c)) [Normal (wide ''C:/a/b.exe'')] = Some (FileNode c 0 0)"
  "fmlookup (nodes (update_disk h c)) [Normal (wide ''C:/s/NetworkCopy-Speed-CLI-Windows-x64.exe'')] = Some (FileNode [9] 0 0)"
  "fmlookup (nodes (update_disk h c)) [Normal (wide ''C:/s/handoff-plan.bin'')] = Some (FileNode (sample_bytes h) 0 0)"
  "faults (update_disk h c) = []" "locate (sample_machine exe) p = [Normal p]"
  by (simp_all add: update_disk_def sample_machine_def encode_utf16_def encode_utf16_char_def)

lemma sample_read:
  assumes "decode_update_handoff_plan (sample_bytes h) = Inr h" "length (sample_bytes h) \<le> UPDATE_HANDOFF_MAX_BYTES"
    "ho_handoff h = wide ''C:/s/handoff-plan.bin''"
  shows "read_update_handoff_plan (sample_machine exe) (wide ''C:/s/handoff-plan.bin'') (update_disk h c) = (Inr h, update_disk h c)"
proof -
  have "read_limited [Normal (wide ''C:/s/handoff-plan.bin'')] (UPDATE_HANDOFF_MAX_BYTES + 1) (update_disk h c) = (Inr (sample_bytes h), update_disk h c)"
    using assms(2) sample_lookups(3,4) by (intro calm_read) (simp_all add: holds_def)
  moreover have "absolute_path (wide ''C:/s/handoff-plan.bin'')" using sample_absolute by simp
  ultimately show ?thesis
    using assms unfolding read_update_handoff_plan_def sample_lookups(5) by (simp add: fbind_def fguard_def fret_def flift_def)
qed

lemmas sample_in_place_read = sample_read [OF sample_decodes [OF sample_valid sample_storable _ sample_length] sample_length]
lemmas sample_official_read =
  sample_read [OF sample_decodes [OF sample_official_valid sample_official_storable _ sample_official_length] sample_official_length]

lemma sample_beside:
  assumes "ho_install h = wide ''C:/a/'' @ wide n" "n = ''b.exe'' \<or> n = ''NetworkCopy-Speed-CLI-Windows-x64.exe''"
  shows "beside_install h q = Inr (wide ''C:/a'' @ [backslash] @ wide n @ q)"
proof -
  have "path_parent (wide ''C:/a/'' @ wide n) = Some (wide ''C:/a'')" "file_name (wide ''C:/a/'' @ wide n) = Some (wide n)"
    using assms(2)
    by (elim disjE; simp only:; simp add: path_parent_def file_name_def component_eval path_eval Let_def trim_body.simps last_name_def without_last_def)+
  moreover have "path_join (wide ''C:/a'') (wide n @ q) = wide ''C:/a'' @ [backslash] @ wide n @ q"
    using assms(2) by (auto simp: path_join_def path_eval Let_def)
  ultimately show ?thesis by (simp add: beside_install_def assms(1))
qed

lemma sample_stage_joins:
  "update_backup_partial_path (wide ''C:/s'') = wide ''C:/s'' @ [backslash] @ wide ''previous.exe.partial''"
  "partial_handoff_plan_path (wide ''C:/s'') = wide ''C:/s'' @ [backslash] @ wide ''handoff-plan.bin.partial''"
  by (simp_all add: update_backup_partial_path_def partial_handoff_plan_path_def UPDATE_BACKUP_PARTIAL_FILE_def UPDATE_HANDOFF_FILE_def
      UPDATE_PARTIAL_SUFFIX_def path_join_def path_eval Let_def)

lemma sample_cleanup_paths:
  assumes "ho_install h = wide ''C:/a/'' @ wide n" "n = ''b.exe'' \<or> n = ''NetworkCopy-Speed-CLI-Windows-x64.exe''"
    "ho_staging h = wide ''C:/s''"
  shows "successful_update_cleanup_paths h = Inr [ho_staged h, wide ''C:/a'' @ [backslash] @ wide n @ UPDATE_INSTALL_CANDIDATE_SUFFIX,
     wide ''C:/a'' @ [backslash] @ wide n @ UPDATE_ROLLBACK_CANDIDATE_SUFFIX, ho_staged h @ UPDATE_PARTIAL_SUFFIX,
     wide ''C:/s'' @ [backslash] @ wide ''previous.exe.partial'', wide ''C:/s'' @ [backslash] @ wide ''handoff-plan.bin.partial'',
     ho_marker h @ UPDATE_PARTIAL_SUFFIX, ho_backup h, ho_marker h, ho_handoff h]"
  using sample_beside [OF assms(1,2)] sample_stage_joins
  by (simp add: successful_update_cleanup_paths_def update_install_candidate_path_def update_rollback_candidate_path_def assms(3)
      update_staged_partial_path_def update_startup_marker_partial_path_def)

lemmas sample_in_place_paths = sample_cleanup_paths [of sample_handoff "''b.exe''"]
lemmas sample_official_paths = sample_cleanup_paths [of sample_official "''NetworkCopy-Speed-CLI-Windows-x64.exe''"]
lemmas suffix_eval = UPDATE_INSTALL_CANDIDATE_SUFFIX_def UPDATE_ROLLBACK_CANDIDATE_SUFFIX_def UPDATE_PARTIAL_SUFFIX_def encode_utf16_def
  encode_utf16_char_def backslash_def

lemma sample_separate: "separate_files (sample_machine exe) sample_handoff"
proof -
  have "ho_install sample_handoff = wide ''C:/a/'' @ wide ''b.exe''" "ho_staging sample_handoff = wide ''C:/s''"
    by (simp_all add: sample_handoff_def encode_utf16_def)
  then show ?thesis
    using sample_in_place_paths unfolding separate_files_def sample_lookups(5)
    by (simp add: sample_handoff_def suffix_eval)
qed

theorem in_place_update_safe_witness:
  "\<exists>c. holds (snd (run_update_handoff_wait_mode (sample_machine (ho_staged sample_handoff)) sample_child (wide ''C:/s/handoff-plan.bin'') Cli
       (update_disk sample_handoff [1, 2]))) [Normal (wide ''C:/a/b.exe'')] c \<and>
     (c = [1, 2] \<or> is_update (sample_machine (ho_staged sample_handoff)) sample_handoff c)"
proof -
  let ?m = "sample_machine (ho_staged sample_handoff)" and ?s = "update_disk sample_handoff [1, 2]"
  obtain r s' where r: "run_update_handoff_wait_mode ?m sample_child (wide ''C:/s/handoff-plan.bin'') Cli ?s = (r, s')" by force
  have "holds ?s [Normal (wide ''C:/a/b.exe'')] [1, 2]" using sample_lookups(1) by (simp add: holds_def)
  moreover have h: "ho_install sample_handoff = wide ''C:/a/b.exe''" "ho_current sample_handoff = wide ''C:/a/b.exe''"
    "ho_naming sample_handoff = PreserveCurrentName" "ho_sha256_hex sample_handoff = encode_lower_hex (replicate 32 0)"
    "ho_handoff sample_handoff = wide ''C:/s/handoff-plan.bin''" by (simp_all add: sample_handoff_def)
  ultimately show ?thesis
    using in_place_update_safe [OF sample_in_place_read [OF h(4,5)] h(3) sample_separate _ _ r, of "[1, 2]"] unfolding h sample_lookups(5) r by auto
qed

theorem side_by_side_update_safe_witness:
  "fmlookup (nodes (snd (run_update_handoff_wait_mode (sample_machine (ho_staged sample_handoff)) sample_child (wide ''C:/s/handoff-plan.bin'') Cli
       (update_disk sample_official [1, 2])))) [Normal (wide ''C:/a/b.exe'')] = Some (FileNode [1, 2] 0 0)"
proof -
  let ?m = "sample_machine (ho_staged sample_handoff)" and ?s = "update_disk sample_official [1, 2]"
  obtain r s' where r: "run_update_handoff_wait_mode ?m sample_child (wide ''C:/s/handoff-plan.bin'') Cli ?s = (r, s')" by force
  have h: "ho_install sample_official = wide ''C:/a/'' @ wide ''NetworkCopy-Speed-CLI-Windows-x64.exe''" "ho_staging sample_official = wide ''C:/s''"
    "ho_current sample_official = wide ''C:/a/b.exe''" "ho_sha256_hex sample_official = encode_lower_hex (replicate 32 0)"
    "ho_handoff sample_official = wide ''C:/s/handoff-plan.bin''"
    by (simp_all add: sample_official_def sample_handoff_def encode_utf16_def)
  have d: "locate ?m (ho_current sample_official) \<notin> set (map (locate ?m) (ho_install sample_official # ps))"
    if "successful_update_cleanup_paths sample_official = Inr ps" for ps
    using that sample_official_paths [OF h(1) _ h(2)] unfolding sample_lookups(5)
    by (simp add: sample_official_def sample_handoff_def suffix_eval)
  show ?thesis
    using side_by_side_update_safe [OF sample_official_read [OF h(4,5)] _ d r] sample_official_paths [OF h(1) _ h(2)] sample_lookups(1)
    unfolding h(3) sample_lookups(5) r by simp
qed

lemma calm_absent: "faults s = [] \<Longrightarrow> fmlookup (nodes s) p = None \<Longrightarrow> remove_file_if_present p s = (Inr (), s)"
  by (simp add: remove_file_if_present_def fs_remove_file_def calm_syscall)

lemma calm_removes:
  assumes "faults s = []" "\<And>p a. p \<in> set ps \<Longrightarrow> fmlookup (nodes s) (f p) \<noteq> Some (DirNode a)"
  shows "\<exists>s'. fmapM (\<lambda>p. remove_file_if_present (f p)) ps s = (Inr (), s') \<and> faults s' = [] \<and>
    (\<forall>q. fmlookup (nodes s') q = (if q \<in> f ` set ps then None else fmlookup (nodes s) q))"
  using assms
proof (induction ps arbitrary: s)
  case Nil
  then show ?case by (simp add: fret_def)
next
  case (Cons p ps)
  let ?s = "s\<lparr>nodes := fmdrop (f p) (nodes s)\<rparr>"
  have "remove_file_if_present (f p) s = (Inr (), ?s)" using Cons.prems by (intro calm_remove) auto
  moreover obtain s' where "fmapM (\<lambda>p. remove_file_if_present (f p)) ps ?s = (Inr (), s')" "faults s' = []"
    "\<And>q. fmlookup (nodes s') q = (if q \<in> f ` set ps then None else fmlookup (nodes ?s) q)"
  proof -
    have "faults ?s = []" "\<And>q a. q \<in> set ps \<Longrightarrow> fmlookup (nodes ?s) (f q) \<noteq> Some (DirNode a)" using Cons.prems by auto
    from Cons.IH [OF this] show thesis using that by blast
  qed
  ultimately show ?case by (auto simp: fbind_def)
qed

definition sample_install_plan :: UpdateInstallPlan where
  "sample_install_plan = \<lparr>up_kind = Cli, up_asset = \<lparr>sel_id = 1, sel_name = ustr ''NetworkCopy-Speed-CLI-Windows-x64.exe'', sel_size = 1,
       sel_sha256_hex = encode_lower_hex (replicate 32 0), sel_url = RELEASE_DOWNLOAD_PREFIX @ ustr ''x''\<rparr>,
     up_naming = PreserveCurrentName, up_current = wide ''C:/a/b.exe'', up_install = wide ''C:/a/b.exe'', up_staging = wide ''C:/s'',
     up_staged = wide ''C:/s/NetworkCopy-Speed-CLI-Windows-x64.exe'', up_backup = wide ''C:/s/previous.exe'',
     up_handoff = wide ''C:/s/handoff-plan.bin'', up_marker = wide ''C:/s/startup-ok.marker''\<rparr>"

lemma sample_install_plan_valid: "validate_update_staging_plan sample_install_plan = Inr ()"
proof -
  have "win_components (wide ''NetworkCopy-Speed-CLI-Windows-x64.exe'') = [NameC (wide ''NetworkCopy-Speed-CLI-Windows-x64.exe'')]"
    by (simp add: component_eval path_eval)
  moreover have "path_eq (wide ''C:/s/NetworkCopy-Speed-CLI-Windows-x64.exe'') (path_join (wide ''C:/s'') (wide ''NetworkCopy-Speed-CLI-Windows-x64.exe''))"
    by (simp add: path_join_def path_eval component_eval path_eq_def Let_def)
  moreover have "validate_asset_download_url (RELEASE_DOWNLOAD_PREFIX @ ustr ''x'') = Inr ()"
    by (simp add: validate_asset_download_url_def) (simp add: RELEASE_DOWNLOAD_PREFIX_def)
  moreover have "lower_hex_digest (encode_lower_hex (replicate 32 0))"
    using sample_digest by (auto simp: decode_sha256_hex_def result_simps)
  ultimately show ?thesis
    using sample_joins sample_absolute by (simp add: validate_update_staging_plan_def sample_install_plan_def file_name_def)
qed

definition empty_disk :: fs where
  "empty_disk = \<lparr>nodes = fmempty, faults = [], clock = 0, journal_dir = \<lparr>journal_file = None, temporary_file = None\<rparr>\<rparr>"

lemma sample_stages:
  "\<exists>v s'. download_and_stage_update (sample_machine []) sample_install_plan (Inr (None, [Inr [9]])) empty_disk = (Inr v, s')"
proof -
  let ?m = "sample_machine []"
  define q where "q = partial_staged_executable_path sample_install_plan"
  define s where "s = empty_disk\<lparr>nodes := fmupd [Normal (wide ''C:/s'')] (DirNode 0x10) fmempty\<rparr>"
  have q: "q = wide ''C:/s'' @ [backslash] @ wide ''NetworkCopy-Speed-CLI-Windows-x64.exe.partial''"
    by (simp add: q_def partial_staged_executable_path_def sample_install_plan_def UPDATE_PARTIAL_SUFFIX_def path_join_def path_eval Let_def)
  have d: "create_dir_all [Normal (wide ''C:/s'')] empty_disk = (Inr (), s)"
    by (simp add: create_dir_all_def nonempty_prefixes_def ensure_dir_def calm_syscall fbind_def fret_def empty_disk_def s_def parent_exists_def)
  have s: "faults s = []" by (simp add: s_def empty_disk_def)
  have dir: "fmlookup (nodes s) [Normal p] = (if p = wide ''C:/s'' then Some (DirNode 0x10) else None)" for p
    by (simp add: s_def empty_disk_def)
  have "\<exists>s'. fmapM (\<lambda>p. remove_file_if_present [Normal p]) ps s = (Inr (), s') \<and> faults s' = [] \<and>
      (\<forall>r. fmlookup (nodes s') r = (if r \<in> (\<lambda>p. [Normal p]) ` set ps then None else fmlookup (nodes s) r))" if "wide ''C:/s'' \<notin> set ps" for ps
    using that dir by (intro calm_removes [OF s]) auto
  moreover have "wide ''C:/s'' \<notin> set [up_staged sample_install_plan, q, up_backup sample_install_plan, update_backup_partial_path (up_staging sample_install_plan),
      up_handoff sample_install_plan, partial_handoff_plan_path (up_staging sample_install_plan), up_marker sample_install_plan,
      update_startup_marker_partial_path (up_marker sample_install_plan)]" (is "_ \<notin> set ?ps")
    unfolding q using sample_stage_joins
    by (simp add: sample_install_plan_def update_startup_marker_partial_path_def suffix_eval)
  ultimately obtain s1 where s1: "fmapM (\<lambda>p. remove_file_if_present [Normal p]) ?ps s = (Inr (), s1)" "faults s1 = []"
      "\<And>r. fmlookup (nodes s1) r = (if r \<in> (\<lambda>p. [Normal p]) ` set ?ps then None else fmlookup (nodes s) r)" by blast
  have p: "prepare_update_staging_directory ?m sample_install_plan empty_disk = (Inr (), s1)"
  proof -
    have "create_dir_all [Normal (up_staging sample_install_plan)] empty_disk = (Inr (), s)" using d by (simp add: sample_install_plan_def)
    then show ?thesis
      unfolding prepare_update_staging_directory_def sample_lookups(5) q_def [symmetric] fbind_def by (simp only: prod.case sum.case s1(1))
  qed
  have n: "fmlookup (nodes s1) [Normal q] = None" "fmlookup (nodes s1) [Normal (up_staged sample_install_plan)] = None" "q \<noteq> up_staged sample_install_plan"
    using s1(3) q by (simp_all add: sample_install_plan_def suffix_eval)
  have "file_chunks [9] = [[9]]" by (simp add: file_chunks.simps UPDATE_DOWNLOAD_BUFFER_SIZE_def)
  moreover have "sel_size (up_asset sample_install_plan) = 1" "sel_sha256_hex (up_asset sample_install_plan) = encode_lower_hex (replicate 32 0)"
    "sha256 ?m c = replicate 32 0" for c by (simp_all add: sample_install_plan_def sample_machine_def)
  ultimately have "\<exists>v s'. write_verified_staged_update ?m sample_install_plan q [Inr [9]] s1 = (Inr v, s')"
    using n s1(2)
    by (simp add: write_verified_staged_update_def fbind_def create_new_def calm_syscall parent_exists_def sample_lookups(5) flift_def fguard_def
        fret_def write_file_at_def next_fault_def update_file_def sync_all_def replace_def write_all_at_def Let_def)
  then show ?thesis
    using p sample_install_plan_valid
    by (auto simp: download_and_stage_update_def stage_update_from_reader_def fbind_def flift_def Let_def on_error_def q_def
        validate_download_content_length_def)
qed

theorem staged_update_verified_witness:
  "\<exists>c. holds (snd (download_and_stage_update (sample_machine []) sample_install_plan (Inr (None, [Inr [9]])) empty_disk))
     [Normal (up_staged sample_install_plan)] c \<and> has_digest (sample_machine []) c 1 (encode_lower_hex (replicate 32 0))"
proof -
  obtain v s' where v: "download_and_stage_update (sample_machine []) sample_install_plan (Inr (None, [Inr [9]])) empty_disk = (Inr v, s')"
    using sample_stages by blast
  have "sel_size (up_asset sample_install_plan) = 1" "sel_sha256_hex (up_asset sample_install_plan) = encode_lower_hex (replicate 32 0)"
    by (simp_all add: sample_install_plan_def)
  then show ?thesis using staged_update_verified [OF v] v by (auto simp: sample_lookups(5))
qed

lemma sample_is_update: "is_update (sample_machine exe) sample_handoff [9]"
  by (simp add: is_update_def has_digest_def sample_machine_def sample_handoff_def)

lemma sample_recovers:
  "\<exists>s'. recover_interrupted_update_cleanup_from_handoff (sample_machine []) (wide ''C:/a/b.exe'') (wide ''C:/s/handoff-plan.bin'') Cli
     (update_disk sample_handoff [9]) = (Inr (Cleaned (wide ''C:/s'') False), s') \<and> fmlookup (nodes s') [Normal (wide ''C:/s/handoff-plan.bin'')] = None"
proof -
  let ?m = "sample_machine []" and ?s = "update_disk sample_handoff [9]" and ?p = "wide ''C:/s/handoff-plan.bin''"
  have h: "ho_install sample_handoff = wide ''C:/a/b.exe''" "ho_staging sample_handoff = wide ''C:/s''" "ho_kind sample_handoff = Cli"
    "ho_handoff sample_handoff = ?p" "ho_marker sample_handoff = wide ''C:/s/startup-ok.marker''"
    "ho_sha256_hex sample_handoff = encode_lower_hex (replicate 32 0)" by (simp_all add: sample_handoff_def)
  have h1: "ho_install sample_handoff = wide ''C:/a/'' @ wide ''b.exe''" by (simp add: sample_handoff_def encode_utf16_def)
  have parent: "path_parent ?p = Some (wide ''C:/s'')"
    by (simp add: path_parent_def component_eval path_eval Let_def trim_body.simps last_name_def without_last_def)
  have meta: "fs_metadata [Normal ?p] ?s = (Inr (FileNode (sample_bytes sample_handoff) 0 0), ?s)"
    "fs_metadata [Normal (wide ''C:/a/b.exe'')] ?s = (Inr (FileNode [9] 0 0), ?s)"
    using sample_lookups(1,3,4) [of sample_handoff "[9]"] by (simp_all add: fs_metadata_def calm_syscall)
  have verify: "verify_prepared_installation_file ?m (wide ''C:/a/b.exe'') (ho_size sample_handoff) (ho_sha256_hex sample_handoff) ?s = (Inr (), ?s)"
    using sample_is_update [of "[]"] by (intro calm_verify [where c = "[9]"]) (use sample_lookups(1,4) [of sample_handoff "[9]"] in \<open>simp_all add: holds_def sample_lookups(5) is_update_def\<close>)
  have absent: "fmlookup (nodes ?s) [Normal (wide ''C:/s/startup-ok.marker'')] = None" "fmlookup (nodes ?s) [Normal (wide ''C:/s'')] = None"
    by (simp_all add: update_disk_def encode_utf16_def encode_utf16_char_def)
  have identity: "validate_recovery_installed_identity ?m (wide ''C:/a/b.exe'') sample_handoff ?s = (Inr (), ?s)"
    using verify meta(2) sample_absolute
    by (simp add: validate_recovery_installed_identity_def canonicalize_def sample_lookups(5) fbind_def fguard_def fret_def h)
  have marker: "read_update_startup_marker ?m (ho_marker sample_handoff) ?s = (Inl NotFound, ?s)"
    using absent(1) by (simp add: read_update_startup_marker_def read_limited_def open_file_def calm_syscall fbind_def sample_lookups(4,5) h)
  obtain ps where ps: "successful_update_cleanup_paths sample_handoff = Inr ps" "?p \<in> set ps"
    using sample_in_place_paths [OF h1 _ h(2)] h(4) by simp
  have files: "fmlookup (nodes ?s) q \<noteq> Some (DirNode a)" for q a by (auto simp: update_disk_def split: if_splits)
  obtain s1 where s1: "fmapM (\<lambda>p. remove_file_if_present [Normal p]) ps ?s = (Inr (), s1)" "faults s1 = []"
    "\<And>q. fmlookup (nodes s1) q = (if q \<in> (\<lambda>p. [Normal p]) ` set ps then None else fmlookup (nodes ?s) q)"
    using calm_removes [OF sample_lookups(4), of ps sample_handoff "[9]" "\<lambda>p. [Normal p]"] files by blast
  have "fs_remove_dir [Normal (wide ''C:/s'')] s1 = (Inl NotFound, s1)"
    using s1 absent(2) by (simp add: fs_remove_dir_def calm_syscall)
  moreover have "fs_read_dir [Normal (wide ''C:/s'')] ?s = (Inl NotFound, ?s)"
    using absent(2) by (simp add: fs_read_dir_def calm_syscall sample_lookups(4))
  ultimately have "remove_successful_update_transaction_files ?m sample_handoff ?s = (Inr (), s1)"
    using s1(1) ps(1) sample_valid
    by (simp add: remove_successful_update_transaction_files_def validate_successful_cleanup_directory_def fmatch_def fbind_def flift_def fret_def
        sample_lookups(5) h(2))
  then have "recover_transaction ?m sample_handoff ?s = (Inr (Cleaned (wide ''C:/s'') False), s1)"
    using marker by (simp add: recover_transaction_def fmatch_def fbind_def fret_def h(2))
  moreover have "fmlookup (nodes s1) [Normal ?p] = None" using s1(3) ps(2) by auto
  ultimately show ?thesis
    using meta(1) identity parent sample_in_place_read [OF h(6,4), of "[]" "[9]"]
    by (auto simp: recover_interrupted_update_cleanup_from_handoff_def fmatch_def fbind_def flift_def fguard_def fret_def sample_lookups(5) h)
qed

theorem recovery_removes_only_leftovers_witness:
  "is_update (sample_machine []) sample_handoff [9] \<and>
   file_at (update_disk sample_handoff [9]) [Normal (wide ''C:/a/b.exe'')] [9]"
proof -
  let ?m = "sample_machine []" and ?s = "update_disk sample_handoff [9]" and ?p = "wide ''C:/s/handoff-plan.bin''"
  obtain s' where s': "recover_interrupted_update_cleanup_from_handoff ?m (wide ''C:/a/b.exe'') ?p Cli ?s = (Inr (Cleaned (wide ''C:/s'') False), s')"
    "fmlookup (nodes s') [Normal ?p] = None" using sample_recovers by blast
  have h: "ho_sha256_hex sample_handoff = encode_lower_hex (replicate 32 0)" "ho_handoff sample_handoff = ?p" by (simp_all add: sample_handoff_def)
  have meta: "fs_metadata (locate ?m ?p) ?s = (Inr (FileNode (sample_bytes sample_handoff) 0 0), ?s)"
    using sample_lookups(3,4) [of sample_handoff "[9]"] by (simp add: fs_metadata_def calm_syscall sample_lookups(5))
  have "fmlookup (nodes s') [Normal ?p] \<noteq> fmlookup (nodes ?s) [Normal ?p]" using s'(2) sample_lookups(3) [of sample_handoff "[9]"] by simp
  from recovery_removes_only_leftovers [OF sample_in_place_read [OF h] meta s'(1) this]
  obtain c where "file_at ?s [Normal (wide ''C:/a/b.exe'')] c" "is_update ?m sample_handoff c" by (auto simp: sample_lookups(5))
  moreover have "file_at ?s [Normal (wide ''C:/a/b.exe'')] [9]" using sample_lookups(1) [of sample_handoff "[9]"] by (simp add: file_at_def)
  ultimately show ?thesis using file_at_unique by blast
qed

lemma calm_marker_write:
  assumes s: "faults s = []" "fmlookup (nodes s) (locate m p) = None" "fmlookup (nodes s) (locate m (update_startup_marker_partial_path p)) = None"
    and d: "parent_exists s (locate m p)" "parent_exists s (locate m (update_startup_marker_partial_path p))"
      "locate m p \<noteq> locate m (update_startup_marker_partial_path p)" "butlast (locate m p) \<noteq> locate m (update_startup_marker_partial_path p)"
    and bs: "encode_update_startup_marker mk = Inr bs"
  shows "\<exists>s'. write_update_startup_marker_file m p mk s = (Inr (), s')"
proof -
  let ?p = "locate m (update_startup_marker_partial_path p)"
  let ?s = "\<lambda>c. s\<lparr>nodes := fmupd ?p (FileNode c (clock s) FILE_ATTRIBUTE_ARCHIVE) (nodes s)\<rparr>"
  have s1: "remove_file_if_present ?p s = (Inr (), s)" using s(1,3) by (rule calm_absent)
  have s2: "fs_metadata (locate m p) s = (Inl NotFound, s)" using s(1,2) by (simp add: fs_metadata_def calm_syscall)
  have s3: "create_new ?p s = (Inr (), ?s [])" using s(1,3) d(2) by (simp add: create_new_def calm_syscall)
  have s4: "write_file_at ?p 0 bs (?s []) = (Inr (), ?s (write_all_at [] 0 bs))"
    using s(1) by (simp add: write_file_at_def next_fault_def update_file_def)
  have pe: "parent_exists (?s c) (locate m p)" for c using d(1,4) by (simp add: parent_exists_def)
  obtain s' where "move_new ?p (locate m p) (?s (write_all_at [] 0 bs)) = (Inr (), s')"
    using s(1,2) pe d(3) by (simp add: move_new_def calm_syscall)
  then show ?thesis
    using bs s1 s2 s3 s4 s(1)
    by (simp add: write_update_startup_marker_file_def Let_def fbind_def flift_def fmatch_def on_error_def sync_all_def calm_syscall fret_def)
qed

definition started_machine :: machine where
  "started_machine = (sample_machine (wide ''C:/a/b.exe''))\<lparr>open_process := (\<lambda>_. Inr True)\<rparr>"

definition sample_confirmation :: UpdateStartupConfirmation where
  "sample_confirmation = \<lparr>sc_handoff = sample_handoff, sc_process = 7, sc_helper = 8\<rparr>"

lemma sample_confirms: "\<exists>s'. write_update_startup_marker started_machine (Inr ()) True sample_confirmation (update_disk sample_handoff [9]) = (Inr (), s')"
proof -
  let ?s = "update_disk sample_handoff [9]" and ?e = "wide ''C:/a/b.exe''" and ?mp = "wide ''C:/s/startup-ok.marker''"
  have m: "locate started_machine p = [Normal p]" "own_process started_machine = 7" "current_exe started_machine = Inr ?e"
    "open_process started_machine x = Inr True" "sha256 started_machine = (\<lambda>_. replicate 32 0)" for p x
    by (simp_all add: started_machine_def sample_machine_def)
  have h: "ho_install sample_handoff = ?e" "ho_marker sample_handoff = ?mp" "ho_size sample_handoff = 1"
    "ho_sha256_hex sample_handoff = encode_lower_hex (replicate 32 0)" by (simp_all add: sample_handoff_def)
  have verify: "verify_prepared_installation_file started_machine ?e 1 (encode_lower_hex (replicate 32 0)) ?s = (Inr (), ?s)"
    by (rule calm_verify [where c = "[9]"])
      (use sample_lookups(1,4) [of sample_handoff "[9]"] in \<open>simp_all add: holds_def has_digest_def m\<close>)
  have meta: "fs_metadata [Normal ?e] ?s = (Inr (FileNode [9] 0 0), ?s)"
    using sample_lookups(1,4) [of sample_handoff "[9]"] by (simp add: fs_metadata_def calm_syscall)
  have identity: "validate_installed_update_identity started_machine sample_handoff ?s = (Inr (), ?s)"
    using verify meta by (simp add: validate_installed_update_identity_def canonicalize_def fbind_def flift_def fguard_def fret_def m h)
  have "lower_hex_digest (encode_lower_hex (replicate 32 0))" using sample_digest by (auto simp: decode_sha256_hex_def result_simps)
  then obtain bs where bs: "encode_update_startup_marker \<lparr>marker_pid = 7, marker_size = 1, marker_sha256_hex = encode_lower_hex (replicate 32 0)\<rparr> = Inr bs"
    by (simp add: encode_update_startup_marker_def validate_update_startup_marker_def)
  have "\<exists>s'. write_update_startup_marker_file started_machine ?mp
      \<lparr>marker_pid = 7, marker_size = 1, marker_sha256_hex = encode_lower_hex (replicate 32 0)\<rparr> ?s = (Inr (), s')"
  proof (rule calm_marker_write [OF sample_lookups(4) _ _ _ _ _ _ bs])
    show "fmlookup (nodes ?s) (locate started_machine ?mp) = None"
      "fmlookup (nodes ?s) (locate started_machine (update_startup_marker_partial_path ?mp)) = None"
      unfolding m by (simp_all add: update_disk_def update_startup_marker_partial_path_def suffix_eval)
  qed (simp_all add: m parent_exists_def update_startup_marker_partial_path_def suffix_eval)
  then show ?thesis
    using identity by (auto simp: write_update_startup_marker_def sample_confirmation_def open_parent_process_def fbind_def flift_def fguard_def fret_def m h)
qed

theorem startup_confirmation_accepted_witness:
  "\<exists>s' marker. wait_for_update_startup_marker (sample_machine []) sample_handoff 7 \<lparr>poll_marker = None, poll_exited = Inr False\<rparr> [] s' =
     (Inr marker, s') \<and> marker_pid marker = 7"
proof -
  obtain s' where s': "write_update_startup_marker started_machine (Inr ()) True sample_confirmation (update_disk sample_handoff [9]) = (Inr (), s')"
    using sample_confirms by blast
  have "locate (sample_machine []) = locate started_machine" by (simp add: started_machine_def sample_machine_def)
  from startup_confirmation_accepted [OF s' this, of "\<lparr>poll_marker = None, poll_exited = Inr False\<rparr>" "[]"]
  show ?thesis by (auto simp: sample_confirmation_def intro!: exI [of _ "s'\<lparr>faults := []\<rparr>"])
qed

end
