(* ===== verification/Spec2Isabelle.thy ===== *)
theory Spec2Isabelle
  imports Management_Protocol Transfer_Queue Session_Catalog Scan_Queue Receive_Lanes Manager_State Agent_Control Release_Safety Cdc_Lanes
begin

text \<open>
  \<^bold>\<open>NetworkCopy Speed Edition.\<close>  A verification library for the Rust program in this repository: an engine that
  copies a folder between two machines over several TCP streams, agents that run transfers on request, and a
  manager that keeps a queue of transfers and drives the agents.  All paths below are under
  \<^verbatim>\<open>src/src/\<close>.

  \<^bold>\<open>How the program works.\<close>  A sender scans the source folder in parallel
  (\<^verbatim>\<open>manifest_scan.rs\<close>) into a manifest of directories and files, checks it and sends it over the control
  connection (\<^verbatim>\<open>control_plane.rs\<close>).  The receiver checks the tree again, prepares the destination, and
  answers which files it already has: verified unchanged files in an update, committed generations in a resumed
  fresh copy, finished stripes of a resume journal (\<^verbatim>\<open>resume_state.rs\<close>,
  \<^verbatim>\<open>update_verification.rs\<close>).  Both sides then compute the same plan
  (\<^verbatim>\<open>multistream_copy.rs\<close>): small files travel whole, large files as stripes, a fresh copy in
  generations of limited size; the lanes receive concurrently into part files, check a digest after every payload,
  record finished stripes in the journal and rename complete files into place.  A separate planner
  (\<^verbatim>\<open>session_cdc_catalog.rs\<close>) decides which chunks of similar files are sent once; a lane may send a file as a plan that copies ranges of an
  older version or of a file of the same session (\<^verbatim>\<open>cdc_lane.rs\<close>, \<^verbatim>\<open>session_cdc_lane.rs\<close>).  Around the engine, an
  agent has a registry with at most one job (\<^verbatim>\<open>management_jobs.rs\<close>), answers requests on a control port
  (\<^verbatim>\<open>management_control.rs\<close>) and discovery probes (\<^verbatim>\<open>management_discovery.rs\<close>); the manager
  pairs two agents (\<^verbatim>\<open>management_orchestration.rs\<close>), keeps its queue
  (\<^verbatim>\<open>management_queue.rs\<close>) in a state file (\<^verbatim>\<open>management_persistence*.rs\<close>) and finds running
  transfers again after a restart (\<^verbatim>\<open>management_reconnect.rs\<close>).

  \<^bold>\<open>Conventions.\<close>  Structs are records, enums datatypes, integers words of their width (\<open>u8\<close> to
  \<open>u128\<close>), \<open>usize\<close> a natural number where the code only counts elements in memory.  Results are
  sums with an \<open>error_kind\<close> on the left: the kind the code gives, without its message.  Byte streams are lists read by
  functions that return the rest; strings are lists of code points with their UTF-8 length and encoding
  (\<open>Text_Format\<close>).  Files are a map from paths to contents in which every operation may fail
  (\<open>File_System\<close>).  Concurrency is a step relation over a shared state; the invariants are proved by rule
  induction through the locale \<open>invariant_system\<close> of the prelude.  Compression, the BLAKE3 digest and operating
  system calls are parameters; what a theorem needs of them is a named hypothesis.

  \<^bold>\<open>Theories.\<close>
  \<^item> \<open>Prelude\<close>, \<open>Wire\<close>, \<open>Rust_Text\<close>, \<open>Text_Format\<close>,
    \<open>Address_Text\<close>: results, little-endian words, readers and the locale \<open>wire_codec\<close>, decimal and
    hexadecimal numbers, UTF-8, path components, socket addresses as text.
  \<^item> \<open>Management_Protocol\<close>: frames of the control protocol; a frame is read back exactly and nothing else
    is accepted.
  \<^item> \<open>Resume_State\<close>: the resume journal, its text format and its atomic publication.
  \<^item> \<open>Transfer_Queue\<close>: the manager's queue; every reachable queue passes its own validation, queue IDs
    are never reused.
  \<^item> \<open>Session_Catalog\<close>: the plan of shared chunks; it always exists, partitions the chunks and replays to
    the original bytes.
  \<^item> \<open>Manifest\<close>, \<open>Scan_Queue\<close>: entries, safe paths, the tree check, and the parallel
    scan with its queue and condition variable, which never deadlocks, ends and finds the whole tree.
  \<^item> \<open>Control_Plane\<close>: the session messages; sender and receiver agree on the session in any order of
    connections.
  \<^item> \<open>Transfer_Plan\<close>, \<open>Fresh_Generations\<close>: stripes and generations; a plan covers every byte once
    and a resumed one sends exactly the rest.
  \<^item> \<open>Engine_Protocol\<close>, \<open>Payload_Codec\<close>: the engine's messages and the payload of a file with
    its adaptive compression and digest.
  \<^item> \<open>File_System\<close>, \<open>Destination_Prep\<close>, \<open>Update_Verification\<close>,
    \<open>File_Transfer\<close>: the destination with faults, its preparation, the comparison of contents, and receiving
    and finalizing one file.
  \<^item> \<open>Receive_Lanes\<close>: the lanes on their shared destination and journal, in every interleaving, with stripes,
    tiny packs, plain whole files and rebuilt ones; the journal never runs ahead of the data, and finished files are
    complete, for every large file whose part file is its own.
  \<^item> \<open>Chunking\<close>, \<open>Reconstruction\<close>, \<open>Cdc_Lanes\<close>: content-defined chunks and basis
    indexes (\<^verbatim>\<open>content_defined_dedup_bench.rs\<close>, \<^verbatim>\<open>cdc_basis_index.rs\<close>), reconstruction plans
    (\<^verbatim>\<open>cdc_reconstruction_bench.rs\<close>) and the lanes that use them (\<^verbatim>\<open>cdc_lane.rs\<close>,
    \<^verbatim>\<open>session_cdc_lane.rs\<close>); sender and receiver agree, a file is rebuilt exactly or not replaced, a plan from
    anyone changes only its target, and the shared cache of indexes loses no wake-up.
  \<^item> \<open>Management_Snapshot\<close>, \<open>Manager_State\<close>: what an agent reports, reconnection, and the
    manager's state file.
  \<^item> \<open>Job_Messages\<close>, \<open>Job_Registry\<close>: the job messages and the registry of an agent under
    interleaved requests and workers; one job at a time, and a cancelled job stays over.
  \<^item> \<open>Remote_Directory\<close>, \<open>Management_Discovery\<close>, \<open>Agent_Control\<close>: browsing,
    discovery, and the control protocol on a network of agents; a started transfer runs on both agents, a failed one
    leaves nothing behind.
  \<^item> \<open>Release_Plan\<close>, \<open>Release_Install\<close>, \<open>Release_Safety\<close>: the updater
    (\<^verbatim>\<open>release_update.rs\<close>): the official asset, the handoff file and the startup marker, and the
    installation with its rollbacks; an executable is never lost, and an update is complete or undone.

  \<^bold>\<open>Bounds and fuel.\<close>  Loops over a finite list or stream are structural recursion or have a measure.  The
  probe loop of the discovery takes the list of its turns and returns nothing if that list ends first.  The scan is a
  step relation with a measure that every thread step raises and a spurious wake-up lowers by one.  The payload loops
  are bounded by the announced length.  Worker and
  stream limits, message limits and page sizes are the constants of the source.  A counter that may wrap (job
  and queue numbers) is a word; where uniqueness needs it, the theorem says how many numbers may have been issued.

  \<^bold>\<open>Simplifications.\<close>  Paths are compared case-sensitively.  The journal files are kept apart from the
  destination tree.  The orchestration of a transfer is sequential: no worker ends and no second manager calls between
  its exchanges; a timeout is a failed connection or a lost answer.  A whole file or a tiny pack is one step of a
  receiving lane.  Panics of workers and index builders, mutex poisoning and failing allocations are left out, except
  the capacity panic of the plan decoder.  Unstable sorts are stable ones.

  \<^bold>\<open>Not modelled.\<close>  The windows (\<^verbatim>\<open>bin/networkcopy-manager.rs\<close>,
  \<^verbatim>\<open>bin/networkcopy-gui.rs\<close>) and the command line, which call the parts above; Win32 services, tray,
  elevation, icons and completion ports, which are unsafe calls into the operating system; the benchmark drivers and their reports; throughput
  measurements in floating point; error messages and printing.
\<close>

end
